(* ===== verification/Prelude.thy ===== *)
theory Prelude
  imports Main "HOL-Library.Word" "HOL-Library.Monad_Syntax"
begin

text \<open>
  The prelude of the development: the fact collections the component theories fill, the
  model of \<open>std::vector\<close> element access (an access outside the vector is undefined
  behaviour in C++ and is the value \<^const>\<open>None\<close> here), and the generic lemmas on lists
  and words that the component proofs share.
\<close>

unbundle bit_operations_syntax

named_theorems vec_simps \<open>reading and writing vectors\<close>
named_theorems pred_defs \<open>definitions of the branch predictors\<close>
named_theorems sf_defs \<open>definitions of the floating-point routines\<close>

type_synonym u8 = "8 word"
type_synonym u16 = "16 word"
type_synonym u32 = "32 word"
type_synonym u64 = "64 word"

text \<open>The kinds of access that the caches and the memory management distinguish (\<open>memtracer.h\<close>).\<close>

datatype access_type = LOAD | STORE | FETCH

section \<open>Vectors\<close>

text \<open>
  \<open>v[i]\<close> and \<open>v[i] = x\<close> on a vector, with a signed index as the source uses it.
  An index outside the vector has no defined result.
\<close>

definition vec_at :: "'a list \<Rightarrow> int \<Rightarrow> 'a option" where
  "vec_at xs i = (if 0 \<le> i \<and> nat i < length xs then Some (xs ! nat i) else None)"

definition vec_set :: "'a list \<Rightarrow> int \<Rightarrow> 'a \<Rightarrow> 'a list option" where
  "vec_set xs i x = (if 0 \<le> i \<and> nat i < length xs then Some (xs[nat i := x]) else None)"

lemma vec_at_in [vec_simps]:
  "0 \<le> i \<Longrightarrow> nat i < length xs \<Longrightarrow> vec_at xs i = Some (xs ! nat i)"
  by (simp add: vec_at_def)

lemma vec_at_of_nat [vec_simps]:
  "i < length xs \<Longrightarrow> vec_at xs (int i) = Some (xs ! i)"
  by (simp add: vec_at_def)

lemma vec_set_in [vec_simps]:
  "0 \<le> i \<Longrightarrow> nat i < length xs \<Longrightarrow> vec_set xs i x = Some (xs[nat i := x])"
  by (simp add: vec_set_def)

lemma vec_set_of_nat [vec_simps]:
  "i < length xs \<Longrightarrow> vec_set xs (int i) x = Some (xs[i := x])"
  by (simp add: vec_set_def)

lemma vec_at_Some_iff:
  "vec_at xs i = Some x \<longleftrightarrow> 0 \<le> i \<and> nat i < length xs \<and> x = xs ! nat i"
  by (auto simp: vec_at_def)

lemma vec_set_Some_iff:
  "vec_set xs i x = Some ys \<longleftrightarrow> 0 \<le> i \<and> nat i < length xs \<and> ys = xs[nat i := x]"
  by (auto simp: vec_set_def)

section \<open>Lists\<close>

lemma list_all_update:
  "list_all P xs \<Longrightarrow> P x \<Longrightarrow> list_all P (xs[i := x])"
  by (auto simp: list_all_iff dest!: set_update_subset_insert [THEN subsetD])

lemma list_all_nth: "list_all P xs \<Longrightarrow> i < length xs \<Longrightarrow> P (xs ! i)"
  by (simp add: list_all_length)

lemma nth_update_if: "xs[j := x] ! i = (if i = j \<and> j < length xs then x else xs ! i)"
  by (cases "j < length xs") (auto simp: list_update_beyond)

lemma map_upt_nth: "map (\<lambda>i. f (xs ! i)) [0..<length xs] = map f xs"
  by (rule nth_equalityI) auto

lemma map_fill_step:
  "j < n \<Longrightarrow> (map f [0..<j] @ replicate (n - j) z)[j := f j] =
    map f [0..<Suc j] @ replicate (n - Suc j) z"
  by (cases "n - j") (auto simp: list_update_append)

lemma sum_list_bound:
  fixes xs :: "int list"
  assumes "\<And>x. x \<in> set xs \<Longrightarrow> \<bar>x\<bar> \<le> m"
  shows "\<bar>sum_list xs\<bar> \<le> int (length xs) * m"
  using assms
proof (induction xs)
  case Nil
  then show ?case by simp
next
  case (Cons x xs)
  then have "\<bar>x\<bar> \<le> m" and "\<bar>sum_list xs\<bar> \<le> int (length xs) * m" by simp_all
  then show ?case by (simp add: algebra_simps)
qed

section \<open>Words\<close>

lemma unat_lt2p: "unat (a :: 'a::len word) < 2 ^ LENGTH('a)"
  by (rule unsigned_less)

lemma unat_neg:
  assumes "0 < unat (d :: 'a::len word)"
  shows "unat (- d) = 2 ^ LENGTH('a) - unat d"
proof -
  have "int (unat (- d)) = (- uint d) mod 2 ^ LENGTH('a)"
    by (simp add: uint_word_ariths)
  also have "\<dots> = 2 ^ LENGTH('a) - uint d"
  proof -
    have "0 < uint d" using assms by (simp only: uint_nat of_nat_0_less_iff)
    then show ?thesis using uint_lt2p [of d] by (subst zmod_zminus1_eq_if) simp
  qed
  also have "\<dots> = int (2 ^ LENGTH('a) - unat d)"
    using unat_lt2p [of d] by (simp add: of_nat_diff less_imp_le)
  finally show ?thesis by (simp only: of_nat_eq_iff)
qed

lemma unat_word_of_nat_small:
  "n < 2 ^ LENGTH('a::len) \<Longrightarrow> unat (of_nat n :: 'a word) = n"
  by (simp add: unat_of_nat)

lemma word_and_mask_less:
  fixes w :: "'a::len word"
  assumes "0 < n" "n < 2 ^ LENGTH('a)"
  shows "unat (w AND (of_nat n - 1)) < n"
proof -
  have "of_nat n - 1 = (of_nat (n - 1) :: 'a word)"
    using assms(1) by simp
  then have "unat (of_nat n - 1 :: 'a word) = n - 1"
    using assms(2) by (simp add: unat_word_of_nat_small)
  moreover have "unat (w AND (of_nat n - 1)) \<le> unat (of_nat n - 1 :: 'a word)"
    by (rule word_and_le1 [THEN word_le_nat_alt [THEN iffD1]])
  ultimately show ?thesis using assms(1) by simp
qed

lemma sint_eq_uint_small:
  fixes w :: "'a::len word"
  assumes "uint w < 2 ^ (LENGTH('a) - 1)"
  shows "sint w = uint w"
proof -
  have "signed_take_bit (LENGTH('a) - 1) (uint w) = uint w"
    using assms by (intro signed_take_bit_int_eq_self) (auto intro: order_trans [of _ 0])
  then show ?thesis by (simp add: sint_uint)
qed

lemma sint_ucast_small:
  fixes w :: "64 word"
  assumes "unat w < 2 ^ 31"
  shows "sint (ucast w :: 32 word) = int (unat w)"
proof -
  have w: "uint w < 2 ^ 31"
    using assms by (simp add: nat_less_iff flip: nat_uint_eq)
  then have "uint (ucast w :: 32 word) = int (unat w)"
    by (simp add: unsigned_ucast_eq take_bit_int_eq_self)
  with w show ?thesis
    using sint_eq_uint_small [of "ucast w :: 32 word"] by simp
qed

lemma unat_clear_low: "unat (a AND NOT (mask s) :: u64) = unat a div 2 ^ s * 2 ^ s"
proof -
  have "a AND NOT (mask s) = push_bit s (drop_bit s a)"
    by (rule bit_word_eqI) (auto simp: bit_simps)
  moreover have "unat (push_bit s (drop_bit s a)) = unat a div 2 ^ s * 2 ^ s"
  proof -
    have "unat (push_bit s (drop_bit s a)) = take_bit 64 (unat a div 2 ^ s * 2 ^ s)"
      unfolding unsigned_push_bit_eq unat_drop_bit_eq by (simp add: push_bit_eq_mult drop_bit_eq_div)
    moreover have "unat a div 2 ^ s * 2 ^ s < 2 ^ 64"
      by (rule order_le_less_trans [OF div_times_less_eq_dividend]) (use unat_lt2p [of a] in simp)
    ultimately show ?thesis by (simp add: take_bit_nat_eq_self)
  qed
  ultimately show ?thesis by simp
qed

text \<open>Clearing the low bits gives the first address of the aligned block.\<close>

lemma clear_low_eq_iff:
  fixes v base :: u64
  assumes "unat base mod 2 ^ s = 0"
  shows "v AND NOT (mask s) = base \<longleftrightarrow> unat base \<le> unat v \<and> unat v < unat base + 2 ^ s"
proof -
  have "v AND NOT (mask s) = base \<longleftrightarrow> unat v div 2 ^ s * 2 ^ s = unat base"
    unfolding word_unat_eq_iff unat_clear_low ..
  moreover have "unat v div 2 ^ s * 2 ^ s + unat v mod 2 ^ s = unat v" by (rule div_mult_mod_eq)
  moreover have "unat v mod 2 ^ s < 2 ^ s" by simp
  moreover obtain k where k: "unat base = k * 2 ^ s" using assms by (metis mod_0_imp_dvd dvd_def mult.commute)
  moreover have "unat v div 2 ^ s = k" if "k * 2 ^ s \<le> unat v" "unat v < k * 2 ^ s + 2 ^ s"
    using that by (intro div_nat_eqI) (simp_all add: algebra_simps)
  ultimately show ?thesis by (metis add_less_cancel_left le_add1)
qed

end
