(* ===== verification/Branch_Hash.thy ===== *)
theory Branch_Hash
  imports Prelude
begin

text \<open>
  The hashing helpers of the branch predictors. \<open>mix64\<close>, \<open>log2_pow2\<close> and
  \<open>fold_history\<close> occur twice in the source, word for word the same, in
  \<open>perceptron_predictor.cc\<close> and in \<open>tage_predictor.cc\<close>; both predictor theories use the
  definitions of this one. \<open>size_t\<close> values that count entries are \<^typ>\<open>nat\<close>, the 64-bit
  hashes are \<^typ>\<open>64 word\<close>.
\<close>

section \<open>Definitions\<close>

definition mix64 :: "u64 \<Rightarrow> u64" where
  "mix64 x =
     (let x = x XOR drop_bit 33 x;
          x = x * 0xff51afd7ed558ccd;
          x = x XOR drop_bit 33 x;
          x = x * 0xc4ceb9fe1a85ec53;
          x = x XOR drop_bit 33 x
      in x)"

text \<open>The loop of \<open>log2_pow2\<close>: halve while the value is above one, count the halvings.\<close>

fun log2_pow2_loop :: "nat \<Rightarrow> nat \<Rightarrow> nat" where
  "log2_pow2_loop val bits = (if 1 < val then log2_pow2_loop (val div 2) (bits + 1) else bits)"

declare log2_pow2_loop.simps [simp del]

definition log2_pow2 :: "nat \<Rightarrow> nat" where
  "log2_pow2 val = log2_pow2_loop val 0"

text \<open>
  \<open>fold_history\<close>: xor the set history bits into \<open>width\<close> positions. The loop runs over
  \<open>i < hist_len \<and> i < history.size()\<close>.
\<close>

definition fold_history_step :: "bool list \<Rightarrow> nat \<Rightarrow> nat \<Rightarrow> u64 \<Rightarrow> u64" where
  "fold_history_step h width i folded =
     (if h ! i then folded XOR push_bit (i mod width) 1 else folded)"

definition fold_history :: "bool list \<Rightarrow> nat \<Rightarrow> nat \<Rightarrow> u64" where
  "fold_history h hist_len width =
     (if width = 0 \<or> hist_len = 0 then 0
      else let folded = fold (fold_history_step h width) [0..<min hist_len (length h)] 0
           in if width = 64 then folded else folded AND (push_bit width 1 - 1))"

section \<open>The hash is a bijection\<close>

text \<open>
  Each xor-shift by 33 is its own inverse (33 is more than half the width) and the two
  multipliers are odd, hence invertible modulo \<open>2 ^ 64\<close>. So \<open>mix64\<close> loses nothing: two
  program counters never collide before the index mask is applied.
\<close>

definition unmix64 :: "u64 \<Rightarrow> u64" where
  "unmix64 x =
     (let x = x XOR drop_bit 33 x;
          x = x * 0x9cb4b2f8129337db;
          x = x XOR drop_bit 33 x;
          x = x * 0x4f74430c22a54005;
          x = x XOR drop_bit 33 x
      in x)"

definition xorshift33 :: "u64 \<Rightarrow> u64" where
  "xorshift33 x = x XOR drop_bit 33 x"

lemma xorshift33_involution: "xorshift33 (xorshift33 x) = x"
  by (rule bit_word_eqI) (auto simp: xorshift33_def bit_simps dest: bit_imp_le_length)

lemma mix64_alt:
  "mix64 x = xorshift33 (xorshift33 (xorshift33 x * 0xff51afd7ed558ccd) * 0xc4ceb9fe1a85ec53)"
  by (simp only: mix64_def xorshift33_def Let_def)

lemma unmix64_alt:
  "unmix64 x = xorshift33 (xorshift33 (xorshift33 x * 0x9cb4b2f8129337db) * 0x4f74430c22a54005)"
  by (simp only: unmix64_def xorshift33_def Let_def)

lemma mult_inverse_1: "(0xff51afd7ed558ccd :: u64) * 0x4f74430c22a54005 = 1"
  by simp

lemma mult_inverse_2: "(0xc4ceb9fe1a85ec53 :: u64) * 0x9cb4b2f8129337db = 1"
  by simp

lemma mult_inverse_cancel:
  fixes c d x :: u64
  shows "c * d = 1 \<Longrightarrow> x * c * d = x" and "c * d = 1 \<Longrightarrow> x * d * c = x"
  by (simp_all add: mult.assoc mult.commute [of d c])


text \<open>\<open>mix64\<close> is a bijection on 64-bit words, with \<open>unmix64\<close> as its inverse.\<close>

lemma mix64_bijection: "unmix64 (mix64 x) = x \<and> mix64 (unmix64 x) = x"
  unfolding mix64_alt unmix64_alt xorshift33_involution
  using mult_inverse_cancel [OF mult_inverse_1] mult_inverse_cancel [OF mult_inverse_2]
  by (simp only: xorshift33_involution)

section \<open>The integer logarithm\<close>

lemma log2_pow2_loop_acc: "log2_pow2_loop v b = log2_pow2_loop v 0 + b"
proof (induction v arbitrary: b rule: less_induct)
  case (less v)
  show ?case
  proof (cases "1 < v")
    case True
    then have "log2_pow2_loop (v div 2) c = log2_pow2_loop (v div 2) 0 + c" for c
      by (intro less.IH) simp
    from this [of "b + 1"] this [of "0 + 1"] show ?thesis
      unfolding log2_pow2_loop.simps [of v b] log2_pow2_loop.simps [of v 0]
      using True by presburger
  next
    case False
    then show ?thesis by (simp add: log2_pow2_loop.simps [of v])
  qed
qed

lemma log2_pow2_le_one [simp]: "v \<le> 1 \<Longrightarrow> log2_pow2 v = 0"
  by (simp add: log2_pow2_def log2_pow2_loop.simps)

lemma log2_pow2_rec: "1 < v \<Longrightarrow> log2_pow2 v = Suc (log2_pow2 (v div 2))"
  unfolding log2_pow2_def
  by (simp add: log2_pow2_loop.simps [of v] log2_pow2_loop_acc [of "v div 2" "Suc 0"])

lemma log2_pow2_bounds:
  "0 < v \<Longrightarrow> 2 ^ log2_pow2 v \<le> v \<and> v < 2 ^ Suc (log2_pow2 v)"
proof (induction v rule: less_induct)
  case (less v)
  show ?case
  proof (cases "1 < v")
    case True
    then have "2 ^ log2_pow2 (v div 2) \<le> v div 2 \<and> v div 2 < 2 ^ Suc (log2_pow2 (v div 2))"
      using less.IH [of "v div 2"] by auto
    then show ?thesis using True by (auto simp: log2_pow2_rec)
  next
    case False
    with less.prems show ?thesis by (cases v) auto
  qed
qed

lemma log2_pow2_power [simp]: "log2_pow2 (2 ^ k) = k"
proof (induction k)
  case (Suc k)
  have "1 < (2::nat) ^ Suc k" by (rule one_less_power) simp_all
  then have "log2_pow2 (2 ^ Suc k) = Suc (log2_pow2 (2 ^ Suc k div 2))"
    by (rule log2_pow2_rec)
  then show ?case using Suc by simp
qed simp

section \<open>What the folded history holds\<close>

definition folds_to :: "bool list \<Rightarrow> nat \<Rightarrow> nat \<Rightarrow> nat \<Rightarrow> nat list" where
  "folds_to h n width j = filter (\<lambda>i. h ! i \<and> i mod width = j) [0..<n]"

lemma fold_history_loop_bit:
  assumes "0 < width" "j < 64"
  shows "bit (fold (fold_history_step h width) [0..<n] 0) j \<longleftrightarrow> odd (length (folds_to h n width j))"
proof (induction n)
  case 0
  show ?case by (simp add: folds_to_def)
next
  case (Suc n)
  then show ?case
    using assms(2) by (auto simp: folds_to_def fold_history_step_def bit_simps)
qed

text \<open>
  Bit \<open>j\<close> of the folded history is the parity of the taken branches at those recent
  positions that are congruent to \<open>j\<close> modulo the width, and no bit at or above the width is set.
\<close>

lemma fold_history_parity:
  assumes "0 < width" "width \<le> 64"
  shows "bit (fold_history h hist_len width) j \<longleftrightarrow>
    j < width \<and> odd (length (folds_to h (min hist_len (length h)) width j))"
proof (cases "hist_len = 0 \<or> \<not> j < 64")
  case True
  then show ?thesis
    using assms bit_imp_le_length [of "fold_history h hist_len width" j]
    by (auto simp: fold_history_def folds_to_def)
next
  case False
  have mask: "bit (push_bit width 1 - 1 :: u64) j \<longleftrightarrow> j < width" if "width \<noteq> 64"
    using assms False that by (auto simp: push_bit_eq_mult bit_simps simp flip: mask_eq_exp_minus_1)
  with False show ?thesis
    using assms fold_history_loop_bit [of width j h "min hist_len (length h)"]
    by (auto simp: fold_history_def Let_def bit_and_iff mask)
qed

end
