(* ===== verification/Perceptron.thy ===== *)
theory Perceptron
  imports Branch_Hash
begin

text \<open>
  The perceptron branch predictor of \<open>riscv-isa-sim/riscv/perceptron_predictor.cc\<close>.
  The class is a record with the source's fields; every member function is one definition.
  Element accesses go through \<^const>\<open>vec_at\<close> and \<^const>\<open>vec_set\<close>, so that a read or write
  outside a vector is \<^const>\<open>None\<close>. The C++ \<open>int\<close> values (weights, score) are \<^typ>\<open>int\<close>;
  \<open>perceptron_score_partial_bound\<close> shows that no weight and no intermediate sum leaves the
  32-bit range when the history length plus one times the weight magnitude is below
  \<open>2 ^ 31\<close>, as it is for the geometry of the program (48 history bits, 8-bit weights).
  \<open>perceptron_new\<close> is total in \<open>w_bits\<close>, where the C++ shift \<open>1 << (w_bits - 1)\<close> is defined
  for 1 to 31 only.
\<close>

section \<open>State and operations\<close>

record perceptron_predictor_t =
  pp_hist_len :: nat
  pp_theta :: int
  pp_max_weight :: int
  pp_min_weight :: int
  pp_bias :: "int list"
  pp_weights :: "int list list"
  pp_history :: "bool list"
  pp_last_score :: int

definition perceptron_new :: "nat \<Rightarrow> nat \<Rightarrow> nat \<Rightarrow> perceptron_predictor_t" where
  "perceptron_new n_entries hist_len w_bits =
     \<lparr> pp_hist_len = hist_len,
       pp_theta = 76,
       pp_max_weight = push_bit (w_bits - 1) 1 - 1,
       pp_min_weight = - push_bit (w_bits - 1) 1,
       pp_bias = replicate n_entries 0,
       pp_weights = replicate n_entries (replicate hist_len 0),
       pp_history = replicate hist_len False,
       pp_last_score = 0 \<rparr>"

definition perceptron_index :: "perceptron_predictor_t \<Rightarrow> u64 \<Rightarrow> int" where
  "perceptron_index p pc =
     (let idx_bits = log2_pow2 (length (pp_bias p));
          hash = drop_bit 2 pc XOR fold_history (pp_history p) (pp_hist_len p) idx_bits;
          hash = hash XOR mix64 pc
      in sint (ucast (hash AND (of_nat (length (pp_bias p)) - 1)) :: u32))"

definition perceptron_sat_inc :: "perceptron_predictor_t \<Rightarrow> int \<Rightarrow> int" where
  "perceptron_sat_inc p x = (if x = pp_max_weight p then x else x + 1)"

definition perceptron_sat_dec :: "perceptron_predictor_t \<Rightarrow> int \<Rightarrow> int" where
  "perceptron_sat_dec p x = (if x = pp_min_weight p then x else x - 1)"

text \<open>
  The scoring loop \<open>for i < hist_len: score += history[i] ? weights[idx][i] : -weights[idx][i]\<close>,
  which \<open>predict\<close> and \<open>train\<close> both contain, over the list of the values of \<open>i\<close>.
\<close>

primrec perceptron_score_loop ::
  "perceptron_predictor_t \<Rightarrow> int \<Rightarrow> nat list \<Rightarrow> int \<Rightarrow> int option" where
  "perceptron_score_loop p idx [] score = Some score"
| "perceptron_score_loop p idx (i # is) score =
     do { h \<leftarrow> vec_at (pp_history p) (int i);
          row \<leftarrow> vec_at (pp_weights p) idx;
          w \<leftarrow> vec_at row (int i);
          perceptron_score_loop p idx is (score + (if h then w else - w)) }"

definition perceptron_predict ::
  "perceptron_predictor_t \<Rightarrow> u64 \<Rightarrow> (bool \<times> perceptron_predictor_t) option" where
  "perceptron_predict p pc =
     do { let idx = perceptron_index p pc;
          b \<leftarrow> vec_at (pp_bias p) idx;
          score \<leftarrow> perceptron_score_loop p idx [0..<pp_hist_len p] b;
          Some (0 \<le> score, p\<lparr>pp_last_score := score\<rparr>) }"

text \<open>The weight update loop of \<open>train\<close>; it writes \<open>weights[idx]\<close> element by element.\<close>

primrec perceptron_train_loop ::
  "perceptron_predictor_t \<Rightarrow> int \<Rightarrow> bool \<Rightarrow> nat list \<Rightarrow> int list list \<Rightarrow> int list list option" where
  "perceptron_train_loop p idx actual_taken [] ws = Some ws"
| "perceptron_train_loop p idx actual_taken (i # is) ws =
     do { h \<leftarrow> vec_at (pp_history p) (int i);
          row \<leftarrow> vec_at ws idx;
          w \<leftarrow> vec_at row (int i);
          row' \<leftarrow> vec_set row (int i)
            (if h = actual_taken then perceptron_sat_inc p w else perceptron_sat_dec p w);
          ws' \<leftarrow> vec_set ws idx row';
          perceptron_train_loop p idx actual_taken is ws' }"

definition perceptron_train ::
  "perceptron_predictor_t \<Rightarrow> u64 \<Rightarrow> bool \<Rightarrow> perceptron_predictor_t option" where
  "perceptron_train p pc actual_taken =
     do { let idx = perceptron_index p pc;
          b \<leftarrow> vec_at (pp_bias p) idx;
          score \<leftarrow> perceptron_score_loop p idx [0..<pp_hist_len p] b;
          let predicted_taken = (0 \<le> score);
          let mispredicted = (predicted_taken \<noteq> actual_taken);
          let should_train = (mispredicted \<or> \<bar>score\<bar> \<le> pp_theta p);
          p' \<leftarrow> (if should_train then
                  do { bias' \<leftarrow> vec_set (pp_bias p) idx
                         (if actual_taken then perceptron_sat_inc p b else perceptron_sat_dec p b);
                       ws' \<leftarrow> perceptron_train_loop p idx actual_taken [0..<pp_hist_len p]
                         (pp_weights p);
                       Some (p\<lparr>pp_bias := bias', pp_weights := ws'\<rparr>) }
                else Some p);
          Some (p'\<lparr>pp_history := butlast (actual_taken # pp_history p')\<rparr>) }"

definition perceptron_reset :: "perceptron_predictor_t \<Rightarrow> perceptron_predictor_t" where
  "perceptron_reset p =
     p\<lparr> pp_bias := map (\<lambda>_. 0) (pp_bias p),
        pp_weights := map (map (\<lambda>_. 0)) (pp_weights p),
        pp_history := map (\<lambda>_. False) (pp_history p),
        pp_last_score := 0 \<rparr>"

definition perceptron_high_confidence :: "perceptron_predictor_t \<Rightarrow> bool" where
  "perceptron_high_confidence p = (\<bar>pp_last_score p\<bar> > pp_theta p)"

definition perceptron_last_abs_score :: "perceptron_predictor_t \<Rightarrow> int" where
  "perceptron_last_abs_score p = \<bar>pp_last_score p\<bar>"

section \<open>The reference semantics\<close>

text \<open>
  What the class computes, without loops: the score is the bias plus the inner product of
  the weight row with the history read as \<open>\<plusminus>1\<close>, and training moves the bias and every
  weight one step towards agreement with the outcome.
\<close>

definition signed_sum :: "bool list \<Rightarrow> int list \<Rightarrow> int" where
  "signed_sum hs ws = sum_list (map2 (\<lambda>h w. if h then w else - w) hs ws)"

definition perceptron_slot :: "perceptron_predictor_t \<Rightarrow> u64 \<Rightarrow> nat" where
  "perceptron_slot p pc = nat (perceptron_index p pc)"

definition perceptron_score :: "perceptron_predictor_t \<Rightarrow> u64 \<Rightarrow> int" where
  "perceptron_score p pc =
     (let i = perceptron_slot p pc
      in pp_bias p ! i + signed_sum (pp_history p) (pp_weights p ! i))"

definition perceptron_trains :: "perceptron_predictor_t \<Rightarrow> u64 \<Rightarrow> bool \<Rightarrow> bool" where
  "perceptron_trains p pc t \<longleftrightarrow>
     (0 \<le> perceptron_score p pc) \<noteq> t \<or> \<bar>perceptron_score p pc\<bar> \<le> pp_theta p"

definition perceptron_nudge :: "perceptron_predictor_t \<Rightarrow> bool \<Rightarrow> int \<Rightarrow> int" where
  "perceptron_nudge p up x = (if up then perceptron_sat_inc p x else perceptron_sat_dec p x)"

definition perceptron_trained_row ::
  "perceptron_predictor_t \<Rightarrow> bool \<Rightarrow> int list \<Rightarrow> int list" where
  "perceptron_trained_row p t row =
     map2 (\<lambda>h w. perceptron_nudge p (h = t) w) (pp_history p) row"

definition perceptron_trained ::
  "perceptron_predictor_t \<Rightarrow> u64 \<Rightarrow> bool \<Rightarrow> perceptron_predictor_t" where
  "perceptron_trained p pc t =
     (let i = perceptron_slot p pc;
          q = (if perceptron_trains p pc t
               then p\<lparr> pp_bias := (pp_bias p)[i := perceptron_nudge p t (pp_bias p ! i)],
                       pp_weights := (pp_weights p)[i := perceptron_trained_row p t (pp_weights p ! i)] \<rparr>
               else p)
      in q\<lparr> pp_history := butlast (t # pp_history p) \<rparr>)"

section \<open>Well-formed predictors\<close>

definition perceptron_weight_ok :: "perceptron_predictor_t \<Rightarrow> int \<Rightarrow> bool" where
  "perceptron_weight_ok p x \<longleftrightarrow> pp_min_weight p \<le> x \<and> x \<le> pp_max_weight p"

definition perceptron_row_ok :: "perceptron_predictor_t \<Rightarrow> int list \<Rightarrow> bool" where
  "perceptron_row_ok p row \<longleftrightarrow>
     length row = pp_hist_len p \<and> list_all (perceptron_weight_ok p) row"

definition perceptron_wf :: "perceptron_predictor_t \<Rightarrow> bool" where
  "perceptron_wf p \<longleftrightarrow>
     0 < length (pp_bias p) \<and> length (pp_bias p) \<le> 2 ^ 31 \<and>
     length (pp_weights p) = length (pp_bias p) \<and>
     length (pp_history p) = pp_hist_len p \<and>
     pp_min_weight p < 0 \<and> pp_max_weight p = - pp_min_weight p - 1 \<and>
     list_all (perceptron_weight_ok p) (pp_bias p) \<and>
     list_all (perceptron_row_ok p) (pp_weights p)"

lemma perceptron_wfD:
  assumes "perceptron_wf p"
  shows "0 < length (pp_bias p)" "length (pp_bias p) \<le> 2 ^ 31"
    "length (pp_weights p) = length (pp_bias p)" "length (pp_history p) = pp_hist_len p"
    "pp_min_weight p < 0" "pp_max_weight p = - pp_min_weight p - 1"
    "list_all (perceptron_weight_ok p) (pp_bias p)" "list_all (perceptron_row_ok p) (pp_weights p)"
  using assms by (simp_all add: perceptron_wf_def)

lemma perceptron_index_range:
  assumes "perceptron_wf p"
  shows "0 \<le> perceptron_index p pc \<and> nat (perceptron_index p pc) < length (pp_bias p)"
proof -
  let ?n = "length (pp_bias p)"
  have "unat (w AND (of_nat ?n - 1)) < ?n" for w :: u64
    using perceptron_wfD(1,2) [OF assms] by (intro word_and_mask_less) auto
  moreover from this have "unat (w AND (of_nat ?n - 1)) < 2 ^ 31" for w :: u64
    using perceptron_wfD(2) [OF assms] less_le_trans by blast
  ultimately show ?thesis
    by (simp add: perceptron_index_def Let_def sint_ucast_small)
qed

lemma perceptron_slot_range:
  assumes "perceptron_wf p"
  shows "perceptron_slot p pc < length (pp_bias p)"
    "perceptron_slot p pc < length (pp_weights p)"
    "length (pp_weights p ! perceptron_slot p pc) = pp_hist_len p"
    "perceptron_row_ok p (pp_weights p ! perceptron_slot p pc)"
    "perceptron_weight_ok p (pp_bias p ! perceptron_slot p pc)"
    "perceptron_index p pc = int (perceptron_slot p pc)"
  using perceptron_index_range [OF assms, of pc] perceptron_wfD [OF assms]
    list_all_nth [of "perceptron_row_ok p" "pp_weights p" "perceptron_slot p pc"]
    list_all_nth [of "perceptron_weight_ok p" "pp_bias p" "perceptron_slot p pc"]
  by (auto simp: perceptron_slot_def perceptron_row_ok_def)

section \<open>The loops compute the reference\<close>

lemma perceptron_score_loop_eq:
  assumes "row = pp_weights p ! nat idx" "0 \<le> idx" "nat idx < length (pp_weights p)"
    and "\<forall>i\<in>set is. i < length row \<and> i < length (pp_history p)"
  shows "perceptron_score_loop p idx is s =
    Some (s + (\<Sum>i\<leftarrow>is. if pp_history p ! i then row ! i else - (row ! i)))"
  using assms(4)
  by (induction "is" arbitrary: s) (simp_all add: assms(1-3) vec_simps)

lemma signed_sum_take:
  assumes "k \<le> length hs" "k \<le> length ws"
  shows "(\<Sum>i\<leftarrow>[0..<k]. if hs ! i then ws ! i else - (ws ! i)) =
    signed_sum (take k hs) (take k ws)"
  unfolding signed_sum_def
  by (rule arg_cong [where f = sum_list], rule nth_equalityI) (use assms in auto)

lemma signed_sum_nth:
  "length hs = n \<Longrightarrow> length ws = n \<Longrightarrow>
    (\<Sum>i\<leftarrow>[0..<n]. if hs ! i then ws ! i else - (ws ! i)) = signed_sum hs ws"
  using signed_sum_take [of n hs ws] by simp

lemma perceptron_score_loop_ref:
  assumes "perceptron_wf p"
  shows "perceptron_score_loop p (perceptron_index p pc) [0..<pp_hist_len p]
      (pp_bias p ! perceptron_slot p pc) = Some (perceptron_score p pc)"
  using perceptron_slot_range [OF assms, of pc] perceptron_wfD(4) [OF assms]
  by (simp add: perceptron_score_loop_eq signed_sum_nth perceptron_score_def Let_def)

lemma perceptron_trained_row_length [simp]:
  "length (perceptron_trained_row p t row) = min (length (pp_history p)) (length row)"
  by (simp add: perceptron_trained_row_def)

lemma perceptron_train_loop_from:
  assumes "length row = length (pp_history p)" "k < length ws" "j \<le> length row"
    and "ws ! k = take j (perceptron_trained_row p t row) @ drop j row"
  shows "perceptron_train_loop p (int k) t [j..<length row] ws =
    Some (ws[k := perceptron_trained_row p t row])"
  using assms(2-4)
proof (induction "length row - j" arbitrary: j ws)
  case 0
  with assms(1) list_update_id [of ws k] show ?case by simp
next
  case (Suc d)
  let ?new = "perceptron_trained_row p t row"
  from Suc have j: "j < length row" by simp
  then have upt: "[j..<length row] = j # [Suc j..<length row]" by (rule upt_conv_Cons)
  have at: "(take j ?new @ drop j row) ! j = row ! j"
    using j assms(1) by (simp add: nth_append)
  have "(take j ?new @ drop j row)[j := ?new ! j] = take (Suc j) ?new @ drop (Suc j) row"
    using j assms(1)
    by (simp add: list_update_append take_Suc_conv_app_nth min_def flip: Cons_nth_drop_Suc)
  moreover have "?new ! j = perceptron_nudge p (pp_history p ! j = t) (row ! j)"
    using j assms(1) by (simp add: perceptron_trained_row_def)
  ultimately show ?case
    unfolding upt
    using Suc.hyps(1) [of "Suc j" "ws[k := take (Suc j) ?new @ drop (Suc j) row]"]
      Suc.hyps(2) Suc.prems j assms(1) at
    by (simp add: vec_simps perceptron_nudge_def min_def)
qed

lemma perceptron_train_loop_ref:
  assumes "perceptron_wf p"
  shows "perceptron_train_loop p (perceptron_index p pc) t [0..<pp_hist_len p] (pp_weights p) =
    Some ((pp_weights p)[perceptron_slot p pc :=
      perceptron_trained_row p t (pp_weights p ! perceptron_slot p pc)])"
  using perceptron_train_loop_from [of "pp_weights p ! perceptron_slot p pc" p
      "perceptron_slot p pc" "pp_weights p" 0 t]
    perceptron_slot_range [OF assms, of pc] perceptron_wfD(4) [OF assms]
  by simp

lemma perceptron_predict_ref:
  assumes "perceptron_wf p"
  shows "perceptron_predict p pc =
    Some (0 \<le> perceptron_score p pc, p\<lparr>pp_last_score := perceptron_score p pc\<rparr>)"
  using perceptron_slot_range [OF assms, of pc] perceptron_score_loop_ref [OF assms, of pc]
  by (simp add: perceptron_predict_def Let_def vec_simps)

lemma perceptron_train_ref:
  assumes "perceptron_wf p"
  shows "perceptron_train p pc t = Some (perceptron_trained p pc t)"
  using perceptron_slot_range [OF assms, of pc] perceptron_score_loop_ref [OF assms, of pc]
    perceptron_train_loop_ref [OF assms, of pc t]
  by (simp add: perceptron_train_def perceptron_trained_def perceptron_trains_def
      perceptron_nudge_def Let_def vec_simps)

section \<open>Invariant, safety and bounds\<close>

lemma perceptron_nudge_ok:
  "perceptron_wf p \<Longrightarrow> perceptron_weight_ok p x \<Longrightarrow> perceptron_weight_ok p (perceptron_nudge p up x)"
  by (auto simp: perceptron_nudge_def perceptron_sat_inc_def perceptron_sat_dec_def
      perceptron_weight_ok_def dest: perceptron_wfD)

lemma perceptron_trained_row_ok:
  assumes "perceptron_wf p" "perceptron_row_ok p row"
  shows "perceptron_row_ok p (perceptron_trained_row p t row)"
  using assms perceptron_wfD(4) [OF assms(1)]
  by (auto simp: perceptron_row_ok_def list_all_length perceptron_trained_row_def
      intro: perceptron_nudge_ok)

text \<open>The limits of a predictor never change, so the range predicates do not either.\<close>

lemma perceptron_limits_only:
  "perceptron_weight_ok (p\<lparr>pp_bias := b, pp_weights := w\<rparr>) = perceptron_weight_ok p"
  "perceptron_weight_ok (p\<lparr>pp_history := h\<rparr>) = perceptron_weight_ok p"
  "perceptron_weight_ok (p\<lparr>pp_last_score := c\<rparr>) = perceptron_weight_ok p"
  "perceptron_row_ok (p\<lparr>pp_bias := b, pp_weights := w\<rparr>) = perceptron_row_ok p"
  "perceptron_row_ok (p\<lparr>pp_history := h\<rparr>) = perceptron_row_ok p"
  "perceptron_row_ok (p\<lparr>pp_last_score := c\<rparr>) = perceptron_row_ok p"
  by (auto simp: fun_eq_iff perceptron_weight_ok_def perceptron_row_ok_def list_all_iff)

lemma perceptron_wf_new:
  assumes "0 < n" "n \<le> 2 ^ 31"
  shows "perceptron_wf (perceptron_new n hl wb)"
  using assms by (simp add: perceptron_wf_def perceptron_new_def perceptron_weight_ok_def
      perceptron_row_ok_def list_all_length push_bit_eq_mult)

lemma perceptron_wf_trained:
  assumes "perceptron_wf p"
  shows "perceptron_wf (perceptron_trained p pc t)"
proof -
  have "perceptron_wf (p\<lparr>pp_history := butlast (t # pp_history p)\<rparr>)"
    using assms by (cases "pp_history p") (auto simp: perceptron_wf_def perceptron_limits_only)
  then show ?thesis
    using assms perceptron_slot_range [OF assms, of pc]
    by (auto simp: perceptron_trained_def Let_def perceptron_wf_def perceptron_limits_only
        intro!: list_all_update perceptron_nudge_ok [OF assms] perceptron_trained_row_ok [OF assms])
qed

lemma perceptron_wf_predicted:
  "perceptron_wf p \<Longrightarrow> perceptron_wf (p\<lparr>pp_last_score := c\<rparr>)"
  by (simp add: perceptron_wf_def perceptron_limits_only)

lemma perceptron_wf_reset: "perceptron_wf p \<Longrightarrow> perceptron_wf (perceptron_reset p)"
  by (auto simp: perceptron_wf_def perceptron_reset_def perceptron_weight_ok_def
      perceptron_row_ok_def list_all_length)

lemma signed_sum_bound:
  assumes "list_all (perceptron_weight_ok p) ws" "perceptron_wf p"
  shows "\<bar>signed_sum hs ws\<bar> \<le> int (length ws) * - pp_min_weight p"
proof -
  let ?l = "map2 (\<lambda>h w. if h then w else - w) hs ws"
  have "\<bar>x\<bar> \<le> - pp_min_weight p" if "x \<in> set ?l" for x
    using that assms perceptron_wfD(6) [OF assms(2)]
    by (auto simp: list_all_iff perceptron_weight_ok_def dest!: set_zip_rightD)
  then have "\<bar>sum_list ?l\<bar> \<le> int (length ?l) * - pp_min_weight p"
    by (rule sum_list_bound)
  also have "\<dots> \<le> int (length ws) * - pp_min_weight p"
    using perceptron_wfD(5) [OF assms(2)] by (intro mult_right_mono) auto
  finally show ?thesis by (simp add: signed_sum_def)
qed

lemma perceptron_score_bound:
  assumes "perceptron_wf p"
  shows "\<bar>perceptron_score p pc\<bar> \<le> (int (pp_hist_len p) + 1) * - pp_min_weight p"
    and "perceptron_score p pc \<le> (int (pp_hist_len p) + 1) * - pp_min_weight p - 1"
proof -
  let ?b = "pp_bias p ! perceptron_slot p pc"
  let ?s = "signed_sum (pp_history p) (pp_weights p ! perceptron_slot p pc)"
  have "\<bar>?s\<bar> \<le> int (pp_hist_len p) * - pp_min_weight p"
    using signed_sum_bound [OF _ assms, of "pp_weights p ! perceptron_slot p pc" "pp_history p"]
      perceptron_slot_range [OF assms, of pc] by (simp add: perceptron_row_ok_def)
  moreover have "pp_min_weight p \<le> ?b" "?b \<le> - pp_min_weight p - 1"
    using perceptron_slot_range(5) [OF assms, of pc] perceptron_wfD(6) [OF assms]
    by (simp_all add: perceptron_weight_ok_def)
  ultimately show "\<bar>perceptron_score p pc\<bar> \<le> (int (pp_hist_len p) + 1) * - pp_min_weight p"
    and "perceptron_score p pc \<le> (int (pp_hist_len p) + 1) * - pp_min_weight p - 1"
    using perceptron_wfD(5) [OF assms]
    by (auto simp: perceptron_score_def Let_def algebra_simps)
qed

text \<open>
  C5. In a well-formed predictor whose history length plus one times the weight magnitude is
  below \<open>2 ^ 31\<close> (for the program's 48 history bits and 8-bit weights it is \<open>49 * 128\<close>), the
  scoring loop never overflows the C++ \<open>int\<close>: after every number \<open>k\<close> of steps the sum is
  defined (no read outside a vector), is at most \<open>k + 1\<close> times the weight magnitude and lies
  in the range of \<open>int32_t\<close>, and every weight of the row can be negated in that range.
\<close>

theorem perceptron_score_partial_bound:
  assumes "perceptron_wf p" "k \<le> pp_hist_len p"
    and "(int (pp_hist_len p) + 1) * - pp_min_weight p < 2 ^ 31"
  shows "\<exists>s. perceptron_score_loop p (perceptron_index p pc) [0..<k]
           (pp_bias p ! nat (perceptron_index p pc)) = Some s \<and>
           \<bar>s\<bar> \<le> (int k + 1) * - pp_min_weight p \<and> - (2 ^ 31) \<le> s \<and> s < 2 ^ 31 \<and>
           (\<forall>w\<in>set (pp_weights p ! nat (perceptron_index p pc)).
              - (2 ^ 31) \<le> - w \<and> - w < 2 ^ 31)"
proof -
  let ?i = "perceptron_slot p pc"
  let ?row = "pp_weights p ! ?i"
  note range = perceptron_slot_range [OF assms(1), of pc]
  have len: "length ?row = pp_hist_len p" "length (pp_history p) = pp_hist_len p"
    using range perceptron_wfD(4) [OF assms(1)] by simp_all
  have ok: "list_all (perceptron_weight_ok p) (take k ?row)"
    using range(4) by (auto simp: perceptron_row_ok_def list_all_iff dest: in_set_takeD)
  have "(\<Sum>i\<leftarrow>[0..<k]. if pp_history p ! i then ?row ! i else - (?row ! i)) =
      signed_sum (take k (pp_history p)) (take k ?row)"
    using len assms(2) by (simp add: signed_sum_take)
  moreover have "\<bar>signed_sum (take k (pp_history p)) (take k ?row)\<bar> \<le> int k * - pp_min_weight p"
    using signed_sum_bound [OF ok assms(1), of "take k (pp_history p)"] len assms(2)
    by (simp add: min_absorb2)
  moreover have "\<bar>pp_bias p ! ?i\<bar> \<le> - pp_min_weight p"
    using range(5) perceptron_wfD(6) [OF assms(1)] by (auto simp: perceptron_weight_ok_def)
  ultimately obtain s where s: "perceptron_score_loop p (perceptron_index p pc) [0..<k]
      (pp_bias p ! ?i) = Some s" "\<bar>s\<bar> \<le> (int k + 1) * - pp_min_weight p"
    using perceptron_score_loop_eq [of ?row p "perceptron_index p pc" "[0..<k]" "pp_bias p ! ?i"]
      range len assms(2) by (auto simp: algebra_simps)
  have fits: "(int j + 1) * - pp_min_weight p < 2 ^ 31" if "j \<le> pp_hist_len p" for j
    using mult_right_mono [of "int j + 1" "int (pp_hist_len p) + 1" "- pp_min_weight p"] that
      perceptron_wfD(5) [OF assms(1)] assms(3) by linarith
  have "- (2 ^ 31) \<le> - w \<and> - w < 2 ^ 31" if "w \<in> set ?row" for w
    using that range(4) fits [of 0] perceptron_wfD(6) [OF assms(1)]
    by (auto simp: perceptron_row_ok_def perceptron_weight_ok_def list_all_iff)
  moreover have "- (2 ^ 31) \<le> s" "s < 2 ^ 31"
    using s(2) fits [OF assms(2)] by linarith+
  ultimately show ?thesis using s by (auto simp: perceptron_slot_def)
qed

theorem perceptron_score_partial_bound_witness:
  "\<exists>s. perceptron_score_loop (perceptron_new 1024 48 8)
        (perceptron_index (perceptron_new 1024 48 8) 0x80000010) [0..<48]
        (pp_bias (perceptron_new 1024 48 8) !
           nat (perceptron_index (perceptron_new 1024 48 8) 0x80000010)) = Some s \<and>
        \<bar>s\<bar> \<le> 49 * 128 \<and> - (2 ^ 31) \<le> s \<and> s < 2 ^ 31"
proof -
  have "(int (pp_hist_len (perceptron_new 1024 48 8)) + 1) *
      - pp_min_weight (perceptron_new 1024 48 8) < 2 ^ 31"
    by (simp add: perceptron_new_def push_bit_eq_mult)
  from perceptron_score_partial_bound
    [OF perceptron_wf_new [of 1024 48 8] _ this, of 48 "0x80000010"]
  show ?thesis by (auto simp: perceptron_new_def push_bit_eq_mult)
qed

section \<open>What one training step does\<close>

text \<open>
  How many of the bias and the weights of the slot can still move towards the outcome.
\<close>

definition perceptron_free :: "perceptron_predictor_t \<Rightarrow> bool \<Rightarrow> int \<Rightarrow> int" where
  "perceptron_free p up x = (if x = (if up then pp_max_weight p else pp_min_weight p) then 0 else 1)"

definition perceptron_row_slack :: "perceptron_predictor_t \<Rightarrow> bool \<Rightarrow> bool list \<Rightarrow> int list \<Rightarrow> int" where
  "perceptron_row_slack p t hs ws = sum_list (map2 (\<lambda>h w. perceptron_free p (h = t) w) hs ws)"

definition perceptron_slack :: "perceptron_predictor_t \<Rightarrow> u64 \<Rightarrow> bool \<Rightarrow> int" where
  "perceptron_slack p pc t =
     (let i = perceptron_slot p pc
      in perceptron_free p t (pp_bias p ! i) +
         perceptron_row_slack p t (pp_history p) (pp_weights p ! i))"

lemma signed_sum_trained_row:
  assumes "length hs = length ws"
  shows "signed_sum hs (map2 (\<lambda>h w. perceptron_nudge p (h = t) w) hs ws) =
    signed_sum hs ws + (if t then 1 else - 1) * perceptron_row_slack p t hs ws"
  using assms
proof (induction hs ws rule: list_induct2)
  case (Cons h hs w ws)
  then show ?case
    by (cases t; cases h)
      (simp_all add: signed_sum_def perceptron_row_slack_def perceptron_nudge_def perceptron_free_def
        perceptron_sat_inc_def perceptron_sat_dec_def algebra_simps)
qed (simp add: signed_sum_def perceptron_row_slack_def)

lemma perceptron_trained_score:
  assumes "perceptron_wf p"
  shows "pp_bias (perceptron_trained p pc t) ! perceptron_slot p pc +
      signed_sum (pp_history p) (pp_weights (perceptron_trained p pc t) ! perceptron_slot p pc) =
    perceptron_score p pc +
      (if perceptron_trains p pc t then (if t then 1 else - 1) * perceptron_slack p pc t else 0)"
proof -
  let ?i = "perceptron_slot p pc"
  note range = perceptron_slot_range [OF assms, of pc]
  have "perceptron_nudge p t x = x + (if t then 1 else - 1) * perceptron_free p t x" for x
    by (simp add: perceptron_nudge_def perceptron_free_def perceptron_sat_inc_def perceptron_sat_dec_def)
  moreover have "signed_sum (pp_history p) (perceptron_trained_row p t (pp_weights p ! ?i)) =
      signed_sum (pp_history p) (pp_weights p ! ?i) + (if t then 1 else - 1) *
        perceptron_row_slack p t (pp_history p) (pp_weights p ! ?i)"
    unfolding perceptron_trained_row_def
    by (rule signed_sum_trained_row) (use range perceptron_wfD(4) [OF assms] in simp)
  ultimately show ?thesis
    using range
    by (simp add: perceptron_trained_def perceptron_score_def perceptron_slack_def Let_def)
qed

text \<open>
  A training step that fires moves the score of the branch, under the history it was
  predicted with, towards the outcome by exactly the number of weights (bias included) that are
  not saturated; a step that does not fire changes no weight; no other slot is touched.
\<close>

lemma perceptron_train_moves_score:
  assumes "perceptron_wf p"
  shows "\<exists>q. perceptron_train p pc t = Some q \<and>
    pp_bias q ! perceptron_slot p pc + signed_sum (pp_history p) (pp_weights q ! perceptron_slot p pc) =
      perceptron_score p pc +
      (if perceptron_trains p pc t then (if t then 1 else - 1) * perceptron_slack p pc t else 0) \<and>
    (\<forall>j. j \<noteq> perceptron_slot p pc \<longrightarrow>
      pp_bias q ! j = pp_bias p ! j \<and> pp_weights q ! j = pp_weights p ! j)"
  using perceptron_train_ref [OF assms, of pc t] perceptron_trained_score [OF assms, of pc t]
  by (simp add: perceptron_trained_def Let_def)

section \<open>Reachable predictors\<close>

text \<open>A predictor is built by its constructor and then only used through its operations.\<close>

inductive perceptron_reachable :: "perceptron_predictor_t \<Rightarrow> bool" where
  new: "0 < n \<Longrightarrow> n \<le> 2 ^ 31 \<Longrightarrow> perceptron_reachable (perceptron_new n hl wb)"
| predict: "perceptron_reachable p \<Longrightarrow> perceptron_predict p pc = Some (b, q) \<Longrightarrow> perceptron_reachable q"
| train: "perceptron_reachable p \<Longrightarrow> perceptron_train p pc t = Some q \<Longrightarrow> perceptron_reachable q"
| reset: "perceptron_reachable p \<Longrightarrow> perceptron_reachable (perceptron_reset p)"

lemma perceptron_reachable_wf: "perceptron_reachable p \<Longrightarrow> perceptron_wf p"
proof (induction rule: perceptron_reachable.induct)
  case (new n hl wb)
  then show ?case by (rule perceptron_wf_new)
next
  case (predict p pc b q)
  then show ?case by (auto simp: perceptron_predict_ref intro: perceptron_wf_predicted)
next
  case (train p pc t q)
  then show ?case by (auto simp: perceptron_train_ref intro: perceptron_wf_trained)
next
  case (reset p)
  then show ?case by (intro perceptron_wf_reset)
qed

text \<open>
  C7. In every reachable predictor both operations are defined (no access outside a vector) and
  agree with the reference: \<open>predict\<close> answers whether the bias plus the signed inner product is
  non-negative and records the score, \<open>train\<close> is the perceptron rule with saturation.
\<close>

theorem perceptron_refines_reference:
  assumes "perceptron_reachable p"
  shows "perceptron_predict p pc =
      Some (0 \<le> perceptron_score p pc, p\<lparr>pp_last_score := perceptron_score p pc\<rparr>) \<and>
    perceptron_train p pc t = Some (perceptron_trained p pc t)"
  using perceptron_reachable_wf [OF assms]
  by (simp add: perceptron_predict_ref perceptron_train_ref)

theorem perceptron_refines_reference_witness:
  "perceptron_predict (perceptron_new 1024 48 8) 0x80000010 =
      Some (0 \<le> perceptron_score (perceptron_new 1024 48 8) 0x80000010,
        (perceptron_new 1024 48 8)\<lparr>pp_last_score := perceptron_score (perceptron_new 1024 48 8) 0x80000010\<rparr>) \<and>
    perceptron_train (perceptron_new 1024 48 8) 0x80000010 True =
      Some (perceptron_trained (perceptron_new 1024 48 8) 0x80000010 True)"
  by (rule perceptron_refines_reference [OF perceptron_reachable.new]) simp_all

section \<open>Reset\<close>

lemma map_map_const_cong:
  "list_all2 (\<lambda>xs ys. length xs = length ys) xss yss \<Longrightarrow> map (map (\<lambda>_. c)) xss = map (map (\<lambda>_. c)) yss"
  by (induction rule: list_all2_induct) (simp_all add: map_replicate_const)

lemma perceptron_reset_trained:
  assumes "perceptron_wf p"
  shows "perceptron_reset (perceptron_trained p pc t) = perceptron_reset p"
proof -
  let ?i = "perceptron_slot p pc"
  have len: "length (perceptron_trained_row p t (pp_weights p ! ?i)) = length (pp_weights p ! ?i)"
    using perceptron_slot_range(3) [OF assms, of pc] perceptron_wfD(4) [OF assms] by simp
  then have "map (map (\<lambda>_. 0::int)) ((pp_weights p)[?i := perceptron_trained_row p t (pp_weights p ! ?i)]) =
      map (map (\<lambda>_. 0)) (pp_weights p)"
    by (intro map_map_const_cong) (auto simp: list_all2_conv_all_nth nth_list_update perceptron_slot_range(2) [OF assms])
  moreover have "map (\<lambda>_. False) (butlast (t # pp_history p)) = map (\<lambda>_. False) (pp_history p)"
    by (cases "pp_history p") (simp_all add: map_replicate_const)
  ultimately show ?thesis
    by (auto simp: perceptron_reset_def perceptron_trained_def Let_def map_replicate_const)
qed

lemma perceptron_reset_new [simp]: "perceptron_reset (perceptron_new n hl wb) = perceptron_new n hl wb"
  by (simp add: perceptron_reset_def perceptron_new_def)

lemma perceptron_reset_other [simp]:
  "perceptron_reset (p\<lparr>pp_last_score := c\<rparr>) = perceptron_reset p"
  "perceptron_reset (perceptron_reset p) = perceptron_reset p"
  by (simp_all add: perceptron_reset_def o_def)

section \<open>A branch that always goes the same way\<close>

text \<open>
  The use of the predictor by the simulator: for each executed branch, predict, then train with
  the outcome. The result is the list of predictions and the final predictor.
\<close>

fun perceptron_run ::
  "perceptron_predictor_t \<Rightarrow> (u64 \<times> bool) list \<Rightarrow> (bool list \<times> perceptron_predictor_t) option" where
  "perceptron_run p [] = Some ([], p)"
| "perceptron_run p ((pc, t) # bs) =
     do { (b, p1) \<leftarrow> perceptron_predict p pc;
          p2 \<leftarrow> perceptron_train p1 pc t;
          (preds, q) \<leftarrow> perceptron_run p2 bs;
          Some (b # preds, q) }"

text \<open>How far the score is on the outcome's side: non-negative exactly when predicted right.\<close>

definition perceptron_margin :: "perceptron_predictor_t \<Rightarrow> u64 \<Rightarrow> bool \<Rightarrow> int" where
  "perceptron_margin p pc t =
     (if t then perceptron_score p pc else - perceptron_score p pc - 1)"

lemma perceptron_margin_correct: "0 \<le> perceptron_margin p pc t \<longleftrightarrow> (0 \<le> perceptron_score p pc) = t"
  by (auto simp: perceptron_margin_def)

lemma perceptron_margin_lower:
  assumes "perceptron_wf p"
  shows "- ((int (pp_hist_len p) + 1) * - pp_min_weight p) \<le> perceptron_margin p pc t"
  using perceptron_score_bound [OF assms, of pc] by (auto simp: perceptron_margin_def)

lemma perceptron_score_ignores_last [simp]:
  "perceptron_score (p\<lparr>pp_last_score := c\<rparr>) pc = perceptron_score p pc"
  "perceptron_trained (p\<lparr>pp_last_score := c\<rparr>) pc t = (perceptron_trained p pc t)\<lparr>pp_last_score := c\<rparr>"
  by (simp_all add: perceptron_score_def perceptron_slot_def perceptron_index_def
      perceptron_trained_def perceptron_trains_def perceptron_trained_row_def
      perceptron_nudge_def perceptron_sat_inc_def perceptron_sat_dec_def Let_def cong: if_cong)

lemma perceptron_trained_fields [simp]:
  "pp_hist_len (perceptron_trained p pc t) = pp_hist_len p"
  "pp_min_weight (perceptron_trained p pc t) = pp_min_weight p"
  "pp_max_weight (perceptron_trained p pc t) = pp_max_weight p"
  "pp_history (perceptron_trained p pc t) = butlast (t # pp_history p)"
  "length (pp_bias (perceptron_trained p pc t)) = length (pp_bias p)"
  by (simp_all add: perceptron_trained_def Let_def)

lemma perceptron_free_cases: "perceptron_free p up x = 0 \<or> perceptron_free p up x = 1"
  by (simp add: perceptron_free_def)

lemma perceptron_free_nonneg: "0 \<le> perceptron_free p up x"
  using perceptron_free_cases [of p up x] by auto

lemma perceptron_row_slack_nonneg: "0 \<le> perceptron_row_slack p t hs ws"
  unfolding perceptron_row_slack_def by (rule sum_list_nonneg) (auto simp: perceptron_free_nonneg)

lemma perceptron_slack_nonneg: "0 \<le> perceptron_slack p pc t"
  by (simp add: perceptron_slack_def Let_def perceptron_free_nonneg perceptron_row_slack_nonneg)

text \<open>With a history of equal outcomes a row without slack is saturated in the right direction.\<close>

lemma signed_sum_saturated:
  assumes "length hs = length ws" "\<forall>h\<in>set hs. h = t" "perceptron_row_slack p t hs ws = 0"
  shows "signed_sum hs ws = (if t then 1 else - 1) * (int (length ws) * pp_max_weight p)"
  using assms
proof (induction hs ws rule: list_induct2)
  case (Cons h hs w ws)
  have split: "perceptron_row_slack p t (h # hs) (w # ws) =
      perceptron_free p (h = t) w + perceptron_row_slack p t hs ws"
    by (simp add: perceptron_row_slack_def)
  have "perceptron_free p (h = t) w = 0" and "perceptron_row_slack p t hs ws = 0"
    using Cons.prems(2) split perceptron_free_nonneg [of p "h = t" w]
      perceptron_row_slack_nonneg [of p t hs ws] by linarith+
  with Cons have "w = pp_max_weight p" "h = t"
    and "signed_sum hs ws = (if t then 1 else - 1) * (int (length ws) * pp_max_weight p)"
    by (simp_all add: perceptron_free_def split: if_splits)
  then show ?case
    by (cases t) (simp_all add: signed_sum_def algebra_simps)
qed (simp add: signed_sum_def)

lemma perceptron_wrong_has_slack:
  assumes "perceptron_wf p" "pp_history p = replicate (pp_hist_len p) t"
    and "perceptron_margin p pc t < 0"
  shows "1 \<le> perceptron_slack p pc t"
proof (rule ccontr)
  let ?i = "perceptron_slot p pc"
  assume "\<not> 1 \<le> perceptron_slack p pc t"
  moreover have "perceptron_slack p pc t = perceptron_free p t (pp_bias p ! ?i) +
      perceptron_row_slack p t (pp_history p) (pp_weights p ! ?i)"
    by (simp add: perceptron_slack_def Let_def)
  ultimately have bias: "perceptron_free p t (pp_bias p ! ?i) = 0"
    and row: "perceptron_row_slack p t (pp_history p) (pp_weights p ! ?i) = 0"
    using perceptron_free_nonneg [of p t "pp_bias p ! ?i"]
      perceptron_row_slack_nonneg [of p t "pp_history p" "pp_weights p ! ?i"] by linarith+
  have "length (pp_history p) = length (pp_weights p ! ?i)"
    using perceptron_slot_range(3) [OF assms(1), of pc] perceptron_wfD(4) [OF assms(1)] by simp
  moreover have "\<forall>h\<in>set (pp_history p). h = t"
    unfolding assms(2) by simp
  ultimately have "signed_sum (pp_history p) (pp_weights p ! ?i) =
      (if t then 1 else - 1) * (int (pp_hist_len p) * pp_max_weight p)"
    using signed_sum_saturated [OF _ _ row] perceptron_slot_range(3) [OF assms(1), of pc]
    by metis
  moreover have "pp_bias p ! ?i = (if t then pp_max_weight p else pp_min_weight p)"
    using bias by (simp add: perceptron_free_def split: if_splits)
  ultimately have margin: "perceptron_margin p pc t =
      (if t then pp_max_weight p + int (pp_hist_len p) * pp_max_weight p
       else int (pp_hist_len p) * pp_max_weight p - pp_min_weight p - 1)"
    by (simp add: perceptron_margin_def perceptron_score_def Let_def)
  have max: "0 \<le> pp_max_weight p" "pp_min_weight p < 0"
    using perceptron_wfD(5,6) [OF assms(1)] by auto
  define M where "M = int (pp_hist_len p) * pp_max_weight p"
  with max have "0 \<le> M" by simp
  with max margin assms(3) show False
    by (auto simp flip: M_def split: if_splits)
qed

text \<open>One step with a settled history: the slot is the same and the margin grows by the slack.\<close>

lemma perceptron_settled_step:
  fixes p :: perceptron_predictor_t and pc :: u64 and t :: bool
  assumes "perceptron_wf p" "pp_history p = replicate (pp_hist_len p) t"
  defines "q \<equiv> perceptron_trained p pc t"
  shows "pp_history q = replicate (pp_hist_len q) t"
    and "perceptron_margin q pc t = perceptron_margin p pc t +
      (if perceptron_trains p pc t then perceptron_slack p pc t else 0)"
proof -
  have "butlast (t # replicate n t) = replicate n t" for n
    by (induction n) auto
  then show h: "pp_history q = replicate (pp_hist_len q) t"
    using assms(2) by (simp add: q_def)
  then have same: "pp_history q = pp_history p"
    using assms(2) by (simp add: q_def)
  moreover from same have "perceptron_slot q pc = perceptron_slot p pc"
    by (simp add: perceptron_slot_def perceptron_index_def q_def)
  ultimately have "perceptron_score q pc = perceptron_score p pc +
      (if perceptron_trains p pc t then (if t then 1 else - 1) * perceptron_slack p pc t else 0)"
    using perceptron_trained_score [OF assms(1), of pc t]
    by (simp add: q_def perceptron_score_def [of "perceptron_trained p pc t"] Let_def)
  then show "perceptron_margin q pc t = perceptron_margin p pc t +
      (if perceptron_trains p pc t then perceptron_slack p pc t else 0)"
    by (simp add: perceptron_margin_def)
qed

lemma perceptron_settled_progress:
  fixes p :: perceptron_predictor_t and pc :: u64 and t :: bool
  assumes "perceptron_wf p" "pp_history p = replicate (pp_hist_len p) t"
  shows "min 0 (perceptron_margin p pc t + 1) \<le> perceptron_margin (perceptron_trained p pc t) pc t"
proof (cases "0 \<le> perceptron_margin p pc t")
  case True
  then show ?thesis
    using perceptron_settled_step(2) [OF assms] perceptron_slack_nonneg [of p pc t] by simp
next
  case False
  then have "perceptron_trains p pc t"
    using perceptron_margin_correct [of p pc t] by (auto simp: perceptron_trains_def)
  then show ?thesis
    using perceptron_settled_step(2) [OF assms] perceptron_wrong_has_slack [OF assms, of pc] False
    by simp
qed

text \<open>The run of one branch, as an iteration of the training step.\<close>

definition perceptron_iter :: "perceptron_predictor_t \<Rightarrow> u64 \<Rightarrow> bool \<Rightarrow> nat \<Rightarrow> perceptron_predictor_t" where
  "perceptron_iter p pc t n = ((\<lambda>q. perceptron_trained q pc t) ^^ n) p"

lemma perceptron_iter_Suc:
  "perceptron_iter p pc t (Suc n) = perceptron_trained (perceptron_iter p pc t n) pc t"
  "perceptron_iter p pc t (Suc n) = perceptron_iter (perceptron_trained p pc t) pc t n"
  "perceptron_iter p pc t 0 = p"
  by (induction n) (simp_all add: perceptron_iter_def)

lemma perceptron_iter_wf: "perceptron_wf p \<Longrightarrow> perceptron_wf (perceptron_iter p pc t n)"
  by (induction n) (simp_all add: perceptron_iter_Suc(1,3) perceptron_wf_trained)

lemma perceptron_iter_fields [simp]:
  "pp_hist_len (perceptron_iter p pc t n) = pp_hist_len p"
  "pp_min_weight (perceptron_iter p pc t n) = pp_min_weight p"
  by (induction n) (simp_all add: perceptron_iter_Suc(1,3))

lemma butlast_Cons_take: "n \<le> length xs \<Longrightarrow> butlast (x # take n xs) = take n (x # xs)"
  by (cases n) (simp_all add: butlast_conv_take min_absorb2 del: butlast.simps)

lemma perceptron_iter_history:
  assumes "length (pp_history p) = pp_hist_len p"
  shows "pp_history (perceptron_iter p pc t n) =
    take (pp_hist_len p) (replicate n t @ pp_history p)"
  using assms
proof (induction n)
  case (Suc n)
  then have "pp_history (perceptron_iter p pc t (Suc n)) =
      butlast (t # take (pp_hist_len p) (replicate n t @ pp_history p))"
    by (simp add: perceptron_iter_Suc(1))
  also have "\<dots> = take (pp_hist_len p) (t # replicate n t @ pp_history p)"
    using Suc.prems by (intro butlast_Cons_take) simp
  finally show ?case by simp
qed (simp add: perceptron_iter_Suc)

lemma perceptron_iter_ignores_last:
  "perceptron_iter (p\<lparr>pp_last_score := c\<rparr>) pc t n = (perceptron_iter p pc t n)\<lparr>pp_last_score := c\<rparr>"
  by (induction n) (simp_all add: perceptron_iter_Suc(1,3))

lemma perceptron_run_replicate:
  assumes "perceptron_wf p"
  shows "\<exists>c. perceptron_run p (replicate n (pc, t)) =
    Some (map (\<lambda>k. 0 \<le> perceptron_score (perceptron_iter p pc t k) pc) [0..<n],
      (perceptron_iter p pc t n)\<lparr>pp_last_score := c\<rparr>)"
  using assms
proof (induction n arbitrary: p)
  case 0
  show ?case
    by (rule exI [of _ "pp_last_score p"]) (simp add: perceptron_iter_Suc(3))
next
  case (Suc n)
  let ?s = "perceptron_score p pc" and ?p' = "perceptron_trained p pc t"
  have "perceptron_wf (?p'\<lparr>pp_last_score := ?s\<rparr>)"
    by (intro perceptron_wf_predicted perceptron_wf_trained Suc.prems)
  from Suc.IH [OF this] obtain c where
    "perceptron_run (?p'\<lparr>pp_last_score := ?s\<rparr>) (replicate n (pc, t)) =
      Some (map (\<lambda>k. 0 \<le> perceptron_score (perceptron_iter ?p' pc t k) pc) [0..<n],
        (perceptron_iter ?p' pc t n)\<lparr>pp_last_score := c\<rparr>)"
    by (auto simp: perceptron_iter_ignores_last)
  then have "perceptron_run p (replicate (Suc n) (pc, t)) =
      Some ((0 \<le> ?s) # map (\<lambda>k. 0 \<le> perceptron_score (perceptron_iter ?p' pc t k) pc) [0..<n],
        (perceptron_iter ?p' pc t n)\<lparr>pp_last_score := c\<rparr>)"
    using Suc.prems
    by (simp add: perceptron_predict_ref perceptron_train_ref perceptron_wf_predicted)
  then show ?case
    by (intro exI [of _ c]) (simp add: perceptron_iter_Suc(2,3) map_upt_Suc del: upt_Suc)
qed

lemma perceptron_settles:
  assumes "perceptron_wf p"
  defines "B \<equiv> (int (pp_hist_len p) + 1) * - pp_min_weight p"
  shows "min 0 (int d - B) \<le> perceptron_margin (perceptron_iter p pc t (pp_hist_len p + d)) pc t"
proof (induction d)
  case 0
  have "- B \<le> perceptron_margin (perceptron_iter p pc t (pp_hist_len p)) pc t"
    using perceptron_margin_lower [OF perceptron_iter_wf [OF assms(1)], of pc t "pp_hist_len p" pc t]
    by (simp add: B_def)
  then show ?case by simp
next
  case (Suc d)
  let ?q = "perceptron_iter p pc t (pp_hist_len p + d)"
  have "perceptron_wf ?q" by (rule perceptron_iter_wf [OF assms(1)])
  moreover have "pp_history ?q = replicate (pp_hist_len ?q) t"
    using perceptron_iter_history [OF perceptron_wfD(4) [OF assms(1)]] by simp
  ultimately have "min 0 (perceptron_margin ?q pc t + 1) \<le>
      perceptron_margin (perceptron_trained ?q pc t) pc t"
    by (rule perceptron_settled_progress)
  with Suc.IH show ?case by (simp add: perceptron_iter_Suc(1))
qed

text \<open>
  C9. A branch that always goes the same way is learnt: from any well-formed predictor, running
  it any number of times succeeds, and every prediction from the
  \<open>hist_len + (hist_len + 1) * 2 ^ (w_bits - 1)\<close>-th on is the outcome.
\<close>

theorem perceptron_learns_constant_branch:
  assumes "perceptron_wf p"
  shows "\<exists>preds q. perceptron_run p (replicate n (pc, t)) = Some (preds, q) \<and> length preds = n \<and>
    (\<forall>k<n. int (pp_hist_len p) + (int (pp_hist_len p) + 1) * - pp_min_weight p \<le> int k \<longrightarrow>
      preds ! k = t)"
proof -
  have "(0 \<le> perceptron_score (perceptron_iter p pc t k) pc) = t"
    if "int (pp_hist_len p) + (int (pp_hist_len p) + 1) * - pp_min_weight p \<le> int k" for k
  proof -
    have "0 \<le> (int (pp_hist_len p) + 1) * - pp_min_weight p"
      using perceptron_wfD(5) [OF assms] by (intro mult_nonneg_nonneg) auto
    with that have "pp_hist_len p \<le> k" by linarith
    then obtain d where k: "k = pp_hist_len p + d" using le_Suc_ex by blast
    with that have "0 \<le> perceptron_margin (perceptron_iter p pc t k) pc t"
      using perceptron_settles [OF assms, of d pc t] by simp
    then show ?thesis by (simp add: perceptron_margin_correct)
  qed
  with perceptron_run_replicate [OF assms, of n pc t] show ?thesis by auto
qed

theorem perceptron_learns_constant_branch_witness:
  "\<exists>preds q. perceptron_run (perceptron_new 1024 48 8) (replicate 7000 (0x80000010, False)) =
      Some (preds, q) \<and> length preds = 7000 \<and> (\<forall>k<7000. 6320 \<le> int k \<longrightarrow> preds ! k = False)"
  using perceptron_learns_constant_branch
    [OF perceptron_wf_new [of 1024 48 8], of 7000 "0x80000010" False]
  by (simp add: perceptron_new_def push_bit_eq_mult)

end
