(* ===== verification/Tage.thy ===== *)
theory Tage
  imports Branch_Hash
begin

text \<open>
  The TAGE branch predictor of \<open>riscv-isa-sim/riscv/tage_predictor.cc\<close>: a bimodal base table
  and tagged tables indexed with geometrically longer histories. Structs are records with the
  source's fields, every member function is one definition, and every vector access is checked
  (\<^const>\<open>vec_at\<close>, \<^const>\<open>vec_set\<close>), so an access outside a vector is \<^const>\<open>None\<close>.
  Counters are \<open>int8_t\<close>: stored values go through \<open>to_int8\<close>, which wraps as the conversion does.
\<close>

section \<open>State\<close>

record tage_table_info_t =
  ti_n_entries :: nat
  ti_hist_len :: nat
  ti_tag_bits :: nat

record tage_params_t =
  tp_base_entries :: nat
  tp_base_ctr_bits :: nat
  tp_tagged_ctr_bits :: nat
  tp_usefulness_bits :: nat
  tp_use_alt_on_weak :: bool
  tp_usefulness_reset_period :: u64
  tp_table_info :: "tage_table_info_t list"

record tagged_entry_t =
  te_tag :: u16
  te_ctr :: int
  te_useful :: u8

record last_lookup_t =
  ll_valid :: bool
  ll_pc :: u64
  ll_final_prediction :: bool
  ll_provider_prediction :: bool
  ll_alternate_prediction :: bool
  ll_provider_hit :: bool
  ll_alternate_hit :: bool
  ll_provider_weak :: bool
  ll_used_alternate :: bool
  ll_provider_bank :: int
  ll_alternate_bank :: int
  ll_provider_index :: int
  ll_alternate_index :: int
  ll_provider_tag :: u16
  ll_alternate_tag :: u16
  ll_indices :: "nat list"
  ll_tags :: "u16 list"

record tage_predictor_t =
  tg_params :: tage_params_t
  tg_max_hist_len :: nat
  tg_branch_updates :: u64
  tg_base_table :: "int list"
  tg_tagged_tables :: "tagged_entry_t list list"
  tg_history :: "bool list"
  tg_last_lookup :: last_lookup_t

section \<open>Operations\<close>

definition to_int8 :: "int \<Rightarrow> int" where
  "to_int8 x = sint (word_of_int x :: u8)"

definition tage_info :: "nat \<Rightarrow> nat \<Rightarrow> nat \<Rightarrow> tage_table_info_t" where
  "tage_info n h b = \<lparr>ti_n_entries = n, ti_hist_len = h, ti_tag_bits = b\<rparr>"

definition boom_like_default :: tage_params_t where
  "boom_like_default =
     \<lparr> tp_base_entries = 2048,
       tp_base_ctr_bits = 2,
       tp_tagged_ctr_bits = 3,
       tp_usefulness_bits = 2,
       tp_use_alt_on_weak = True,
       tp_usefulness_reset_period = push_bit 14 1,
       tp_table_info =
         [tage_info 256 4 7, tage_info 256 8 7, tage_info 256 16 8,
          tage_info 256 32 9, tage_info 256 64 10] \<rparr>"

text \<open>A value-initialised \<open>last_lookup_t\<close>.\<close>

definition ll_empty :: last_lookup_t where
  "ll_empty =
     \<lparr> ll_valid = False, ll_pc = 0, ll_final_prediction = False,
       ll_provider_prediction = False, ll_alternate_prediction = False,
       ll_provider_hit = False, ll_alternate_hit = False, ll_provider_weak = False,
       ll_used_alternate = False, ll_provider_bank = 0, ll_alternate_bank = 0,
       ll_provider_index = 0, ll_alternate_index = 0, ll_provider_tag = 0,
       ll_alternate_tag = 0, ll_indices = [], ll_tags = [] \<rparr>"

definition tage_reset :: "tage_predictor_t \<Rightarrow> tage_predictor_t" where
  "tage_reset g =
     g\<lparr> tg_base_table := map (\<lambda>_. 0) (tg_base_table g),
        tg_tagged_tables :=
          map (map (\<lambda>e. e\<lparr>te_tag := 0, te_ctr := 0, te_useful := 0\<rparr>)) (tg_tagged_tables g),
        tg_history := map (\<lambda>_. False) (tg_history g),
        tg_branch_updates := 0,
        tg_last_lookup := ll_empty \<rparr>"

definition tage_new :: "tage_params_t \<Rightarrow> tage_predictor_t" where
  "tage_new params =
     (let max_hist_len = fold (\<lambda>info m. max m (ti_hist_len info)) (tp_table_info params) 0
      in tage_reset
        \<lparr> tg_params = params,
          tg_max_hist_len = max_hist_len,
          tg_branch_updates = 0,
          tg_base_table = replicate (tp_base_entries params) 0,
          tg_tagged_tables =
            map (\<lambda>info. replicate (ti_n_entries info) \<lparr>te_tag = 0, te_ctr = 0, te_useful = 0\<rparr>)
              (tp_table_info params),
          tg_history = replicate max_hist_len False,
          tg_last_lookup = ll_empty \<rparr>)"

definition tage_base_index :: "tage_predictor_t \<Rightarrow> u64 \<Rightarrow> int" where
  "tage_base_index g pc =
     sint (ucast (drop_bit 2 pc AND (of_nat (tp_base_entries (tg_params g)) - 1)) :: u32)"

definition tage_table_index :: "tage_predictor_t \<Rightarrow> nat \<Rightarrow> u64 \<Rightarrow> nat option" where
  "tage_table_index g t pc =
     do { info \<leftarrow> vec_at (tp_table_info (tg_params g)) (int t);
          let idx_bits = log2_pow2 (ti_n_entries info);
          let hash = drop_bit 2 pc XOR fold_history (tg_history g) (ti_hist_len info) idx_bits;
          let hash = hash XOR mix64 (pc + of_nat t * 0x9e3779b97f4a7c15);
          Some (unat (hash AND (of_nat (ti_n_entries info) - 1))) }"

definition tage_table_tag :: "tage_predictor_t \<Rightarrow> nat \<Rightarrow> u64 \<Rightarrow> u16 option" where
  "tage_table_tag g t pc =
     do { info \<leftarrow> vec_at (tp_table_info (tg_params g)) (int t);
          let tag = drop_bit 2 pc XOR fold_history (tg_history g) (ti_hist_len info) (ti_tag_bits info);
          let tag = (if 1 < ti_tag_bits info
                     then tag XOR fold_history (tg_history g) (ti_hist_len info div 2 + 1)
                            (ti_tag_bits info - 1)
                     else tag);
          let tag = tag XOR mix64 (pc XOR (of_nat t + 1));
          Some (ucast (tag AND (push_bit (ti_tag_bits info) 1 - 1))) }"

definition counter_predicts_taken :: "int \<Rightarrow> bool" where
  "counter_predicts_taken val = (0 \<le> val)"

definition counter_is_weak :: "int \<Rightarrow> nat \<Rightarrow> bool" where
  "counter_is_weak val bits = (\<bar>val\<bar> \<le> 1 \<or> bits \<le> 1)"

definition counter_is_strong :: "int \<Rightarrow> nat \<Rightarrow> bool" where
  "counter_is_strong val bits = (\<not> counter_is_weak val bits)"

definition counter_min :: "nat \<Rightarrow> int" where
  "counter_min bits = - push_bit (bits - 1) 1"

definition counter_max :: "nat \<Rightarrow> int" where
  "counter_max bits = push_bit (bits - 1) 1 - 1"

definition tage_sat_inc :: "int \<Rightarrow> nat \<Rightarrow> int" where
  "tage_sat_inc val bits = (if val = counter_max bits then val else val + 1)"

definition tage_sat_dec :: "int \<Rightarrow> nat \<Rightarrow> int" where
  "tage_sat_dec val bits = (if val = counter_min bits then val else val - 1)"

text \<open>\<open>tagged_tables[bank][index]\<close> as a value and as an assignable reference.\<close>

definition tage_entry :: "tage_predictor_t \<Rightarrow> int \<Rightarrow> int \<Rightarrow> tagged_entry_t option" where
  "tage_entry g bank idx =
     do { tbl \<leftarrow> vec_at (tg_tagged_tables g) bank; vec_at tbl idx }"

definition tage_entry_upd ::
  "tage_predictor_t \<Rightarrow> int \<Rightarrow> int \<Rightarrow> (tagged_entry_t \<Rightarrow> tagged_entry_t) \<Rightarrow> tage_predictor_t option" where
  "tage_entry_upd g bank idx f =
     do { tbl \<leftarrow> vec_at (tg_tagged_tables g) bank;
          e \<leftarrow> vec_at tbl idx;
          tbl' \<leftarrow> vec_set tbl idx (f e);
          tbls' \<leftarrow> vec_set (tg_tagged_tables g) bank tbl';
          Some (g\<lparr>tg_tagged_tables := tbls'\<rparr>) }"

text \<open>The two loops of \<open>predict\<close>: indices and tags of all tables, then the search for hits.\<close>

primrec tage_hash_loop ::
  "tage_predictor_t \<Rightarrow> u64 \<Rightarrow> nat list \<Rightarrow> last_lookup_t \<Rightarrow> last_lookup_t option" where
  "tage_hash_loop g pc [] ll = Some ll"
| "tage_hash_loop g pc (t # ts) ll =
     do { i \<leftarrow> tage_table_index g t pc;
          is \<leftarrow> vec_set (ll_indices ll) (int t) i;
          x \<leftarrow> tage_table_tag g t pc;
          xs \<leftarrow> vec_set (ll_tags ll) (int t) x;
          tage_hash_loop g pc ts (ll\<lparr>ll_indices := is, ll_tags := xs\<rparr>) }"

primrec tage_hit_loop ::
  "tage_predictor_t \<Rightarrow> nat list \<Rightarrow> last_lookup_t \<Rightarrow> last_lookup_t option" where
  "tage_hit_loop g [] ll = Some ll"
| "tage_hit_loop g (t # ts) ll =
     do { i \<leftarrow> vec_at (ll_indices ll) (int t);
          x \<leftarrow> vec_at (ll_tags ll) (int t);
          e \<leftarrow> tage_entry g (int t) (int i);
          if te_tag e = x then
            (if \<not> ll_provider_hit ll then
               tage_hit_loop g ts
                 (ll\<lparr> ll_provider_hit := True, ll_provider_bank := int t,
                      ll_provider_index := sint (of_nat i :: u32), ll_provider_tag := x \<rparr>)
             else if \<not> ll_alternate_hit ll then
               Some (ll\<lparr> ll_alternate_hit := True, ll_alternate_bank := int t,
                         ll_alternate_index := sint (of_nat i :: u32), ll_alternate_tag := x \<rparr>)
             else tage_hit_loop g ts ll)
          else tage_hit_loop g ts ll }"

definition tage_predict :: "tage_predictor_t \<Rightarrow> u64 \<Rightarrow> (bool \<times> tage_predictor_t) option" where
  "tage_predict g pc =
     do { let n = length (tp_table_info (tg_params g));
          let ll = (tg_last_lookup g)
            \<lparr> ll_valid := True, ll_pc := pc,
              ll_provider_hit := False, ll_alternate_hit := False,
              ll_provider_bank := -1, ll_alternate_bank := -1,
              ll_provider_index := -1, ll_alternate_index := -1,
              ll_provider_tag := 0, ll_alternate_tag := 0,
              ll_indices := replicate n 0, ll_tags := replicate n 0 \<rparr>;
          base \<leftarrow> vec_at (tg_base_table g) (tage_base_index g pc);
          let base_pred = counter_predicts_taken base;
          ll \<leftarrow> tage_hash_loop g pc [0..<n] ll;
          ll \<leftarrow> tage_hit_loop g (rev [0..<n]) ll;
          alt_pred \<leftarrow> (if ll_alternate_hit ll
             then do { e \<leftarrow> tage_entry g (ll_alternate_bank ll) (ll_alternate_index ll);
                       Some (counter_predicts_taken (te_ctr e)) }
             else Some base_pred);
          let ll = ll\<lparr>ll_alternate_prediction := alt_pred\<rparr>;
          if \<not> ll_provider_hit ll then
            (let ll = ll\<lparr> ll_provider_prediction := base_pred,
                          ll_provider_weak := counter_is_weak base (tp_base_ctr_bits (tg_params g)),
                          ll_used_alternate := False,
                          ll_final_prediction := base_pred \<rparr>
             in Some (ll_final_prediction ll, g\<lparr>tg_last_lookup := ll\<rparr>))
          else
            do { e \<leftarrow> tage_entry g (ll_provider_bank ll) (ll_provider_index ll);
                 let ll = ll\<lparr> ll_provider_prediction := counter_predicts_taken (te_ctr e),
                              ll_provider_weak :=
                                counter_is_weak (te_ctr e) (tp_tagged_ctr_bits (tg_params g)) \<rparr>;
                 let ll = ll\<lparr> ll_used_alternate :=
                   tp_use_alt_on_weak (tg_params g) \<and> ll_provider_weak ll \<and> ll_alternate_hit ll \<rparr>;
                 let ll = ll\<lparr> ll_final_prediction :=
                   (if ll_used_alternate ll then ll_alternate_prediction ll
                    else ll_provider_prediction ll) \<rparr>;
                 Some (ll_final_prediction ll, g\<lparr>tg_last_lookup := ll\<rparr>) } }"

definition tage_update_usefulness ::
  "tage_predictor_t \<Rightarrow> bool \<Rightarrow> bool \<Rightarrow> tage_predictor_t option" where
  "tage_update_usefulness g provider_correct alternate_correct =
     (let ll = tg_last_lookup g in
      if \<not> ll_provider_hit ll then Some g
      else if provider_correct = alternate_correct then
        do { e \<leftarrow> tage_entry g (ll_provider_bank ll) (ll_provider_index ll); Some g }
      else
        (let max_useful = ucast (push_bit (tp_usefulness_bits (tg_params g)) 1 - 1 :: u32) :: u8
         in tage_entry_upd g (ll_provider_bank ll) (ll_provider_index ll)
              (\<lambda>e. if provider_correct
                   then (if te_useful e < max_useful then e\<lparr>te_useful := te_useful e + 1\<rparr> else e)
                   else if 0 < te_useful e then e\<lparr>te_useful := te_useful e - 1\<rparr> else e)))"

definition tage_age_usefulness :: "tage_predictor_t \<Rightarrow> tage_predictor_t" where
  "tage_age_usefulness g =
     (let period = tp_usefulness_reset_period (tg_params g) in
      if period = 0 then g
      else if tg_branch_updates g mod period \<noteq> 0 then g
      else g\<lparr> tg_tagged_tables :=
        map (map (\<lambda>e. e\<lparr>te_useful := drop_bit 1 (te_useful e)\<rparr>)) (tg_tagged_tables g) \<rparr>)"

text \<open>
  \<open>allocate_entries\<close>: the first loop looks for an entry that is not useful and claims it (the
  result is then \<open>Some (Some g')\<close>); when there is none the second loop ages all candidates.
\<close>

primrec tage_claim_loop ::
  "tage_predictor_t \<Rightarrow> bool \<Rightarrow> nat list \<Rightarrow> tage_predictor_t option option" where
  "tage_claim_loop g actual_taken [] = Some None"
| "tage_claim_loop g actual_taken (t # ts) =
     do { let ll = tg_last_lookup g;
          i \<leftarrow> vec_at (ll_indices ll) (int t);
          e \<leftarrow> tage_entry g (int t) (int i);
          if te_useful e = 0 then
            do { x \<leftarrow> vec_at (ll_tags ll) (int t);
                 g' \<leftarrow> tage_entry_upd g (int t) (int i)
                   (\<lambda>e. e\<lparr> te_tag := x, te_ctr := (if actual_taken then 0 else - 1), te_useful := 0 \<rparr>);
                 Some (Some g') }
          else tage_claim_loop g actual_taken ts }"

primrec tage_decay_loop :: "tage_predictor_t \<Rightarrow> nat list \<Rightarrow> tage_predictor_t option" where
  "tage_decay_loop g [] = Some g"
| "tage_decay_loop g (t # ts) =
     do { i \<leftarrow> vec_at (ll_indices (tg_last_lookup g)) (int t);
          g' \<leftarrow> tage_entry_upd g (int t) (int i)
            (\<lambda>e. if 0 < te_useful e then e\<lparr>te_useful := te_useful e - 1\<rparr> else e);
          tage_decay_loop g' ts }"

definition tage_allocate_entries :: "tage_predictor_t \<Rightarrow> bool \<Rightarrow> tage_predictor_t option" where
  "tage_allocate_entries g actual_taken =
     do { let ll = tg_last_lookup g;
          let start_table = (if ll_provider_hit ll then nat (ll_provider_bank ll + 1) else 0);
          let ts = [start_table..<length (tp_table_info (tg_params g))];
          r \<leftarrow> tage_claim_loop g actual_taken ts;
          case r of Some g' \<Rightarrow> Some g' | None \<Rightarrow> tage_decay_loop g ts }"

definition tage_push_history :: "tage_predictor_t \<Rightarrow> bool \<Rightarrow> tage_predictor_t" where
  "tage_push_history g taken =
     (if tg_history g = [] then g
      else g\<lparr>tg_history := butlast (taken # tg_history g)\<rparr>)"

definition tage_base_upd :: "tage_predictor_t \<Rightarrow> u64 \<Rightarrow> bool \<Rightarrow> tage_predictor_t option" where
  "tage_base_upd g pc actual_taken =
     do { let idx = tage_base_index g pc;
          let bits = tp_base_ctr_bits (tg_params g);
          c \<leftarrow> vec_at (tg_base_table g) idx;
          tbl \<leftarrow> vec_set (tg_base_table g) idx
            (to_int8 (if actual_taken then tage_sat_inc c bits else tage_sat_dec c bits));
          Some (g\<lparr>tg_base_table := tbl\<rparr>) }"

definition tage_ctr_upd :: "tage_predictor_t \<Rightarrow> bool \<Rightarrow> tagged_entry_t \<Rightarrow> tagged_entry_t" where
  "tage_ctr_upd g actual_taken e =
     (let bits = tp_tagged_ctr_bits (tg_params g)
      in e\<lparr>te_ctr := to_int8 (if actual_taken then tage_sat_inc (te_ctr e) bits
                              else tage_sat_dec (te_ctr e) bits)\<rparr>)"

definition tage_train :: "tage_predictor_t \<Rightarrow> u64 \<Rightarrow> bool \<Rightarrow> tage_predictor_t option" where
  "tage_train g pc actual_taken =
     do { g \<leftarrow> (if \<not> ll_valid (tg_last_lookup g) \<or> ll_pc (tg_last_lookup g) \<noteq> pc
                then map_option snd (tage_predict g pc) else Some g);
          let ll = tg_last_lookup g;
          let provider_correct = (ll_provider_prediction ll = actual_taken);
          let alternate_correct = (ll_alternate_prediction ll = actual_taken);
          g \<leftarrow> (if ll_provider_hit ll then
                 do { g \<leftarrow> tage_entry_upd g (ll_provider_bank ll) (ll_provider_index ll)
                        (tage_ctr_upd g actual_taken);
                      g \<leftarrow> (if ll_alternate_hit ll \<and> ll_provider_weak ll then
                              tage_entry_upd g (ll_alternate_bank ll) (ll_alternate_index ll)
                                (tage_ctr_upd g actual_taken)
                            else if \<not> ll_alternate_hit ll then tage_base_upd g pc actual_taken
                            else Some g);
                      tage_update_usefulness g provider_correct alternate_correct }
               else tage_base_upd g pc actual_taken);
          g \<leftarrow> (if ll_final_prediction ll \<noteq> actual_taken
               then tage_allocate_entries g actual_taken else Some g);
          let g = tage_push_history g actual_taken;
          let g = g\<lparr>tg_branch_updates := tg_branch_updates g + 1\<rparr>;
          Some (tage_age_usefulness g) }"

definition tage_high_confidence :: "tage_predictor_t \<Rightarrow> bool option" where
  "tage_high_confidence g =
     (let ll = tg_last_lookup g in
      if \<not> ll_valid ll then Some False
      else if \<not> ll_provider_hit ll then
        do { c \<leftarrow> vec_at (tg_base_table g) (tage_base_index g (ll_pc ll));
             Some (counter_is_strong c (tp_base_ctr_bits (tg_params g))) }
      else
        do { e \<leftarrow> tage_entry g (ll_provider_bank ll) (ll_provider_index ll);
             Some (counter_is_strong (te_ctr e) (tp_tagged_ctr_bits (tg_params g))) })"

definition tage_last_used_alternate :: "tage_predictor_t \<Rightarrow> bool" where
  "tage_last_used_alternate g =
     (ll_valid (tg_last_lookup g) \<and> ll_used_alternate (tg_last_lookup g))"

section \<open>Well-formed predictors\<close>

definition tage_params_ok :: "tage_params_t \<Rightarrow> bool" where
  "tage_params_ok P \<longleftrightarrow>
     0 < tp_base_entries P \<and> tp_base_entries P \<le> 2 ^ 31 \<and>
     1 \<le> tp_base_ctr_bits P \<and> tp_base_ctr_bits P \<le> 8 \<and>
     1 \<le> tp_tagged_ctr_bits P \<and> tp_tagged_ctr_bits P \<le> 8 \<and>
     tp_usefulness_bits P \<le> 8 \<and>
     list_all (\<lambda>info. 0 < ti_n_entries info \<and> ti_n_entries info \<le> 2 ^ 31 \<and> ti_tag_bits info \<le> 16)
       (tp_table_info P)"

definition ctr_ok :: "nat \<Rightarrow> int \<Rightarrow> bool" where
  "ctr_ok bits c \<longleftrightarrow> counter_min bits \<le> c \<and> c \<le> counter_max bits"

definition entry_ok :: "tage_params_t \<Rightarrow> tagged_entry_t \<Rightarrow> bool" where
  "entry_ok P e \<longleftrightarrow> ctr_ok (tp_tagged_ctr_bits P) (te_ctr e) \<and> unat (te_useful e) < 2 ^ tp_usefulness_bits P"

definition tables_ok :: "tage_params_t \<Rightarrow> tagged_entry_t list list \<Rightarrow> bool" where
  "tables_ok P tbls \<longleftrightarrow>
     list_all2 (\<lambda>info tbl. length tbl = ti_n_entries info \<and> list_all (entry_ok P) tbl)
       (tp_table_info P) tbls"

definition slot_ok :: "tage_params_t \<Rightarrow> int \<Rightarrow> int \<Rightarrow> bool" where
  "slot_ok P bank idx \<longleftrightarrow>
     0 \<le> bank \<and> nat bank < length (tp_table_info P) \<and>
     0 \<le> idx \<and> nat idx < ti_n_entries (tp_table_info P ! nat bank)"

definition lookup_ok :: "tage_params_t \<Rightarrow> last_lookup_t \<Rightarrow> bool" where
  "lookup_ok P ll \<longleftrightarrow>
     length (ll_indices ll) = length (tp_table_info P) \<and>
     length (ll_tags ll) = length (tp_table_info P) \<and>
     (\<forall>t<length (tp_table_info P). slot_ok P (int t) (int (ll_indices ll ! t))) \<and>
     (ll_provider_hit ll \<longrightarrow> slot_ok P (ll_provider_bank ll) (ll_provider_index ll)) \<and>
     (ll_alternate_hit ll \<longrightarrow> slot_ok P (ll_alternate_bank ll) (ll_alternate_index ll))"

definition tage_wf :: "tage_predictor_t \<Rightarrow> bool" where
  "tage_wf g \<longleftrightarrow>
     tage_params_ok (tg_params g) \<and>
     length (tg_base_table g) = tp_base_entries (tg_params g) \<and>
     list_all (ctr_ok (tp_base_ctr_bits (tg_params g))) (tg_base_table g) \<and>
     tables_ok (tg_params g) (tg_tagged_tables g) \<and>
     length (tg_history g) = tg_max_hist_len g \<and>
     tg_max_hist_len g = fold (\<lambda>info m. max m (ti_hist_len info)) (tp_table_info (tg_params g)) 0 \<and>
     (ll_valid (tg_last_lookup g) \<longrightarrow> lookup_ok (tg_params g) (tg_last_lookup g))"

lemma tage_wfD:
  assumes "tage_wf g"
  shows "tage_params_ok (tg_params g)"
    "length (tg_base_table g) = tp_base_entries (tg_params g)"
    "list_all (ctr_ok (tp_base_ctr_bits (tg_params g))) (tg_base_table g)"
    "tables_ok (tg_params g) (tg_tagged_tables g)"
    "length (tg_history g) = tg_max_hist_len g"
    "ll_valid (tg_last_lookup g) \<Longrightarrow> lookup_ok (tg_params g) (tg_last_lookup g)"
  using assms by (simp_all add: tage_wf_def)

subsection \<open>Counters\<close>

lemma counter_bounds:
  assumes "1 \<le> bits" "bits \<le> 8"
  shows "- 128 \<le> counter_min bits" "counter_min bits < 0" "0 \<le> counter_max bits" "counter_max bits \<le> 127"
proof -
  have "(2::int) ^ (bits - 1) \<le> 2 ^ 7" using assms by (intro power_increasing) auto
  moreover have "(1::int) \<le> 2 ^ (bits - 1)" by simp
  ultimately show "- 128 \<le> counter_min bits" "counter_min bits < 0"
    "0 \<le> counter_max bits" "counter_max bits \<le> 127"
    by (simp_all add: counter_min_def counter_max_def push_bit_eq_mult)
qed

lemma to_int8_id: "- 128 \<le> x \<Longrightarrow> x \<le> 127 \<Longrightarrow> to_int8 x = x"
  by (simp add: to_int8_def signed_of_int signed_take_bit_int_eq_self)

lemma ctr_ok_step:
  assumes "1 \<le> bits" "bits \<le> 8" "ctr_ok bits c"
  shows "ctr_ok bits (to_int8 (tage_sat_inc c bits))" "ctr_ok bits (to_int8 (tage_sat_dec c bits))"
    "to_int8 (tage_sat_inc c bits) = tage_sat_inc c bits"
    "to_int8 (tage_sat_dec c bits) = tage_sat_dec c bits"
  using counter_bounds [OF assms(1,2)] assms(3)
  by (auto simp: ctr_ok_def tage_sat_inc_def tage_sat_dec_def to_int8_id)

subsection \<open>Entries\<close>

lemma tables_okD:
  assumes "tables_ok P tbls" "t < length (tp_table_info P)"
  shows "t < length tbls" "length (tbls ! t) = ti_n_entries (tp_table_info P ! t)"
    "list_all (entry_ok P) (tbls ! t)"
  using assms by (auto simp: tables_ok_def list_all2_conv_all_nth)

lemma tables_ok_length: "tables_ok P tbls \<Longrightarrow> length tbls = length (tp_table_info P)"
  by (auto simp: tables_ok_def dest: list_all2_lengthD)

lemma tage_entry_in:
  assumes "tables_ok (tg_params g) (tg_tagged_tables g)" "slot_ok (tg_params g) bank idx"
  shows "tage_entry g bank idx = Some (tg_tagged_tables g ! nat bank ! nat idx)"
    and "entry_ok (tg_params g) (tg_tagged_tables g ! nat bank ! nat idx)"
  using assms(2) tables_okD [OF assms(1), of "nat bank"]
  by (auto simp: tage_entry_def slot_ok_def vec_simps list_all_length)

lemma tables_ok_upd:
  assumes "tables_ok P tbls" "slot_ok P bank idx"
    and "entry_ok P e"
  shows "tables_ok P (tbls[nat bank := (tbls ! nat bank)[nat idx := e]])"
  using assms(2,3) tables_okD [OF assms(1), of "nat bank"] assms(1)
  by (auto simp: tables_ok_def list_all2_conv_all_nth slot_ok_def nth_list_update
      intro: list_all_update)

lemma tage_entry_upd_in:
  assumes "tables_ok (tg_params g) (tg_tagged_tables g)" "slot_ok (tg_params g) bank idx"
    and "\<And>e. entry_ok (tg_params g) e \<Longrightarrow> entry_ok (tg_params g) (f e)"
  obtains tbls where "tage_entry_upd g bank idx f = Some (g\<lparr>tg_tagged_tables := tbls\<rparr>)"
    "tables_ok (tg_params g) tbls"
    "tbls = (tg_tagged_tables g)[nat bank := (tg_tagged_tables g ! nat bank)
       [nat idx := f (tg_tagged_tables g ! nat bank ! nat idx)]]"
proof -
  have "entry_ok (tg_params g) (f (tg_tagged_tables g ! nat bank ! nat idx))"
    by (intro assms(3) tage_entry_in(2) [OF assms(1,2)])
  from tables_ok_upd [OF assms(1,2) this] that show ?thesis
    using assms(2) tables_okD [OF assms(1), of "nat bank"]
    by (auto simp: tage_entry_upd_def slot_ok_def vec_simps)
qed

subsection \<open>Indices\<close>

lemma tage_params_okD:
  assumes "tage_params_ok P"
  shows "0 < tp_base_entries P" "tp_base_entries P \<le> 2 ^ 31"
    "1 \<le> tp_base_ctr_bits P" "tp_base_ctr_bits P \<le> 8"
    "1 \<le> tp_tagged_ctr_bits P" "tp_tagged_ctr_bits P \<le> 8" "tp_usefulness_bits P \<le> 8"
    "t < length (tp_table_info P) \<Longrightarrow> 0 < ti_n_entries (tp_table_info P ! t)"
    "t < length (tp_table_info P) \<Longrightarrow> ti_n_entries (tp_table_info P ! t) \<le> 2 ^ 31"
  using assms by (auto simp: tage_params_ok_def list_all_length)

lemma tage_base_index_range:
  assumes "tage_wf g"
  shows "0 \<le> tage_base_index g pc" "nat (tage_base_index g pc) < length (tg_base_table g)"
proof -
  let ?n = "tp_base_entries (tg_params g)"
  note P = tage_params_okD [OF tage_wfD(1) [OF assms]]
  have small: "unat (w AND (of_nat ?n - 1)) < ?n" for w :: u64
    using P(1,2) by (intro word_and_mask_less) auto
  then have "unat (w AND (of_nat ?n - 1)) < 2 ^ 31" for w :: u64
    using P(2) less_le_trans by blast
  then show "0 \<le> tage_base_index g pc" "nat (tage_base_index g pc) < length (tg_base_table g)"
    using small tage_wfD(2) [OF assms] by (simp_all add: tage_base_index_def sint_ucast_small)
qed

definition tage_idx :: "tage_predictor_t \<Rightarrow> u64 \<Rightarrow> nat \<Rightarrow> nat" where
  "tage_idx g pc t = the (tage_table_index g t pc)"

definition tage_tag :: "tage_predictor_t \<Rightarrow> u64 \<Rightarrow> nat \<Rightarrow> u16" where
  "tage_tag g pc t = the (tage_table_tag g t pc)"

lemma tage_idx_in:
  assumes "tage_wf g" "t < length (tp_table_info (tg_params g))"
  shows "tage_table_index g t pc = Some (tage_idx g pc t)"
    "slot_ok (tg_params g) (int t) (int (tage_idx g pc t))"
    "tage_table_tag g t pc = Some (tage_tag g pc t)"
    "tage_idx g pc t < 2 ^ 31"
proof -
  let ?n = "ti_n_entries (tp_table_info (tg_params g) ! t)"
  note P = tage_params_okD(8,9) [OF tage_wfD(1) [OF assms(1)] assms(2)]
  have small: "unat (w AND (of_nat ?n - 1)) < ?n" for w :: u64
    using P by (intro word_and_mask_less) auto
  show "tage_table_index g t pc = Some (tage_idx g pc t)"
    "slot_ok (tg_params g) (int t) (int (tage_idx g pc t))"
    "tage_table_tag g t pc = Some (tage_tag g pc t)"
    using assms(2) small
    by (simp_all add: tage_table_index_def tage_idx_def tage_table_tag_def tage_tag_def
        slot_ok_def vec_simps Let_def)
  then show "tage_idx g pc t < 2 ^ 31"
    using P by (simp add: slot_ok_def)
qed

lemma sint_of_nat_small: "i < 2 ^ 31 \<Longrightarrow> sint (of_nat i :: u32) = int i"
  by (simp add: signed_of_nat signed_take_bit_int_eq_self)

section \<open>What a lookup finds\<close>

text \<open>
  The tables whose entry carries the tag of the branch, longest history first: the provider is
  the first of them and the alternate the second.
\<close>

definition tage_hit :: "tage_predictor_t \<Rightarrow> u64 \<Rightarrow> nat \<Rightarrow> bool" where
  "tage_hit g pc t \<longleftrightarrow> te_tag (tg_tagged_tables g ! t ! tage_idx g pc t) = tage_tag g pc t"

definition tage_hits :: "tage_predictor_t \<Rightarrow> u64 \<Rightarrow> nat list" where
  "tage_hits g pc = filter (tage_hit g pc) (rev [0..<length (tp_table_info (tg_params g))])"

definition tage_table_ctr :: "tage_predictor_t \<Rightarrow> u64 \<Rightarrow> nat \<Rightarrow> int" where
  "tage_table_ctr g pc t = te_ctr (tg_tagged_tables g ! t ! tage_idx g pc t)"

definition tage_base_ctr :: "tage_predictor_t \<Rightarrow> u64 \<Rightarrow> int" where
  "tage_base_ctr g pc = tg_base_table g ! nat (tage_base_index g pc)"

definition tage_ref_prediction :: "tage_predictor_t \<Rightarrow> u64 \<Rightarrow> bool" where
  "tage_ref_prediction g pc =
     (case tage_hits g pc of
        [] \<Rightarrow> 0 \<le> tage_base_ctr g pc
      | [t] \<Rightarrow> 0 \<le> tage_table_ctr g pc t
      | t # u # _ \<Rightarrow>
          if tp_use_alt_on_weak (tg_params g) \<and>
             counter_is_weak (tage_table_ctr g pc t) (tp_tagged_ctr_bits (tg_params g))
          then 0 \<le> tage_table_ctr g pc u else 0 \<le> tage_table_ctr g pc t)"

lemma tage_hash_loop_from:
  assumes "tage_wf g" "n = length (tp_table_info (tg_params g))" "j \<le> n"
    and "ll_indices ll = map (tage_idx g pc) [0..<j] @ replicate (n - j) 0"
    and "ll_tags ll = map (tage_tag g pc) [0..<j] @ replicate (n - j) 0"
  shows "tage_hash_loop g pc [j..<n] ll =
    Some (ll\<lparr>ll_indices := map (tage_idx g pc) [0..<n], ll_tags := map (tage_tag g pc) [0..<n]\<rparr>)"
  using assms(3-5)
proof (induction "n - j" arbitrary: j ll)
  case 0
  then show ?case by simp
next
  case (Suc d)
  then have j: "j < n" by simp
  then have upt: "[j..<n] = j # [Suc j..<n]" by (rule upt_conv_Cons)
  note in_range = tage_idx_in [OF assms(1), of j pc]
  have "tage_hash_loop g pc [j..<n] ll = tage_hash_loop g pc [Suc j..<n]
      (ll\<lparr>ll_indices := map (tage_idx g pc) [0..<Suc j] @ replicate (n - Suc j) 0,
          ll_tags := map (tage_tag g pc) [0..<Suc j] @ replicate (n - Suc j) 0\<rparr>)"
    unfolding upt using in_range(1,3) [folded assms(2)] j Suc.prems(2,3)
    by (simp add: vec_simps map_fill_step [OF j] del: upt_Suc)
  also have "\<dots> = Some (ll\<lparr>ll_indices := map (tage_idx g pc) [0..<n],
      ll_tags := map (tage_tag g pc) [0..<n]\<rparr>)"
    using Suc.hyps(1) [of "Suc j"] Suc.hyps(2) j by (simp del: upt_Suc)
  finally show ?case .
qed

text \<open>The search loop stores the first two hits and stops there.\<close>

definition ll_provide :: "tage_predictor_t \<Rightarrow> u64 \<Rightarrow> nat \<Rightarrow> last_lookup_t \<Rightarrow> last_lookup_t" where
  "ll_provide g pc t ll =
     ll\<lparr> ll_provider_hit := True, ll_provider_bank := int t,
         ll_provider_index := int (tage_idx g pc t), ll_provider_tag := tage_tag g pc t \<rparr>"

definition ll_alternate :: "tage_predictor_t \<Rightarrow> u64 \<Rightarrow> nat \<Rightarrow> last_lookup_t \<Rightarrow> last_lookup_t" where
  "ll_alternate g pc t ll =
     ll\<lparr> ll_alternate_hit := True, ll_alternate_bank := int t,
         ll_alternate_index := int (tage_idx g pc t), ll_alternate_tag := tage_tag g pc t \<rparr>"

definition ll_hashed :: "tage_predictor_t \<Rightarrow> u64 \<Rightarrow> last_lookup_t \<Rightarrow> bool" where
  "ll_hashed g pc ll \<longleftrightarrow>
     ll_indices ll = map (tage_idx g pc) [0..<length (tp_table_info (tg_params g))] \<and>
     ll_tags ll = map (tage_tag g pc) [0..<length (tp_table_info (tg_params g))]"

lemma tage_hit_loop_step:
  assumes "tage_wf g" "ll_hashed g pc ll" "t < length (tp_table_info (tg_params g))"
  shows "tage_hit_loop g (t # ts) ll =
    (if tage_hit g pc t then
       (if \<not> ll_provider_hit ll then tage_hit_loop g ts (ll_provide g pc t ll)
        else if \<not> ll_alternate_hit ll then Some (ll_alternate g pc t ll)
        else tage_hit_loop g ts ll)
     else tage_hit_loop g ts ll)"
  using tage_idx_in [OF assms(1,3), of pc] assms(2,3)
    tage_entry_in(1) [OF tage_wfD(4) [OF assms(1)], of "int t" "int (tage_idx g pc t)"]
  by (simp add: ll_hashed_def vec_simps tage_hit_def ll_provide_def ll_alternate_def
      sint_of_nat_small)

lemma tage_hit_loop_alternate:
  assumes "tage_wf g" "ll_hashed g pc ll" "ll_provider_hit ll" "\<not> ll_alternate_hit ll"
    and "\<forall>t\<in>set ts. t < length (tp_table_info (tg_params g))"
  shows "tage_hit_loop g ts ll =
    Some (case filter (tage_hit g pc) ts of [] \<Rightarrow> ll | t # _ \<Rightarrow> ll_alternate g pc t ll)"
  using assms(5)
  by (induction ts) (simp_all add: tage_hit_loop_step [OF assms(1,2)] assms(3,4)
      del: tage_hit_loop.simps(2))

lemma tage_hit_loop_hits:
  assumes "tage_wf g" "ll_hashed g pc ll" "\<not> ll_provider_hit ll" "\<not> ll_alternate_hit ll"
    and "\<forall>t\<in>set ts. t < length (tp_table_info (tg_params g))"
  shows "tage_hit_loop g ts ll =
    Some (case filter (tage_hit g pc) ts of
        [] \<Rightarrow> ll
      | [t] \<Rightarrow> ll_provide g pc t ll
      | t # u # _ \<Rightarrow> ll_alternate g pc u (ll_provide g pc t ll))"
  using assms(5)
proof (induction ts)
  case (Cons t ts)
  have "ll_hashed g pc (ll_provide g pc t ll)" "ll_provider_hit (ll_provide g pc t ll)"
    "\<not> ll_alternate_hit (ll_provide g pc t ll)"
    using assms(2,4) by (simp_all add: ll_hashed_def ll_provide_def)
  from tage_hit_loop_alternate [OF assms(1) this, of ts] Cons show ?case
    by (simp add: tage_hit_loop_step [OF assms(1,2)] assms(3) split: list.split
        del: tage_hit_loop.simps(2))
qed simp

definition tage_looked_up :: "tage_predictor_t \<Rightarrow> u64 \<Rightarrow> last_lookup_t \<Rightarrow> bool" where
  "tage_looked_up g pc ll \<longleftrightarrow>
     ll_valid ll \<and> ll_pc ll = pc \<and> lookup_ok (tg_params g) ll \<and> ll_hashed g pc ll \<and>
     ll_final_prediction ll = tage_ref_prediction g pc \<and>
     (ll_provider_hit ll \<longleftrightarrow> tage_hits g pc \<noteq> []) \<and>
     (ll_alternate_hit ll \<longleftrightarrow> 2 \<le> length (tage_hits g pc)) \<and>
     (ll_provider_hit ll \<longrightarrow>
        ll_provider_bank ll = int (tage_hits g pc ! 0) \<and>
        ll_provider_index ll = int (tage_idx g pc (tage_hits g pc ! 0)) \<and>
        ll_provider_prediction ll = (0 \<le> tage_table_ctr g pc (tage_hits g pc ! 0))) \<and>
     (ll_alternate_hit ll \<longrightarrow>
        ll_alternate_bank ll = int (tage_hits g pc ! 1) \<and>
        ll_alternate_index ll = int (tage_idx g pc (tage_hits g pc ! 1)) \<and>
        ll_alternate_prediction ll = (0 \<le> tage_table_ctr g pc (tage_hits g pc ! 1)))"

lemma tage_hits_range: "t \<in> set (tage_hits g pc) \<Longrightarrow> t < length (tp_table_info (tg_params g))"
  by (simp add: tage_hits_def)

lemma tage_predict_cases:
  assumes "tage_wf g"
  shows "case tage_predict g pc of None \<Rightarrow> False
    | Some (b, g') \<Rightarrow> b = tage_ref_prediction g pc \<and> tage_looked_up g pc (tg_last_lookup g') \<and>
        g' = g\<lparr>tg_last_lookup := tg_last_lookup g'\<rparr>"
proof -
  let ?n = "length (tp_table_info (tg_params g))"
  define l0 where "l0 = (tg_last_lookup g)
    \<lparr> ll_valid := True, ll_pc := pc, ll_provider_hit := False, ll_alternate_hit := False,
      ll_provider_bank := -1, ll_alternate_bank := -1, ll_provider_index := -1,
      ll_alternate_index := -1, ll_provider_tag := 0, ll_alternate_tag := 0,
      ll_indices := replicate ?n 0, ll_tags := replicate ?n 0 \<rparr>"
  define l1 where "l1 = l0\<lparr>ll_indices := map (tage_idx g pc) [0..<?n], ll_tags := map (tage_tag g pc) [0..<?n]\<rparr>"
  have hash: "tage_hash_loop g pc [0..<?n] l0 = Some l1"
    unfolding l1_def by (rule tage_hash_loop_from [OF assms refl]) (simp_all add: l0_def)
  have l1: "ll_hashed g pc l1" "\<not> ll_provider_hit l1" "\<not> ll_alternate_hit l1"
    by (simp_all add: l1_def l0_def ll_hashed_def)
  note hit = tage_hit_loop_hits [OF assms l1, of "rev [0..<?n]", folded tage_hits_def]
  have base: "vec_at (tg_base_table g) (tage_base_index g pc) = Some (tage_base_ctr g pc)"
    using tage_base_index_range [OF assms, of pc] by (simp add: vec_simps tage_base_ctr_def)
  have ctr: "tage_entry g (int t) (int (tage_idx g pc t)) = Some (tg_tagged_tables g ! t ! tage_idx g pc t)"
    if "t \<in> set (tage_hits g pc)" for t
    using tage_entry_in(1) [OF tage_wfD(4) [OF assms] tage_idx_in(2) [OF assms tage_hits_range [OF that]]]
    by simp
  have slots: "\<forall>t<?n. slot_ok (tg_params g) (int t) (int (tage_idx g pc t))"
    using tage_idx_in(2) [OF assms] by blast
  have slot: "slot_ok (tg_params g) (int t) (int (tage_idx g pc t))" if "t \<in> set (tage_hits g pc)" for t
    using slots tage_hits_range [OF that] by blast
  consider "tage_hits g pc = []" | t where "tage_hits g pc = [t]"
    | t u us where "tage_hits g pc = t # u # us"
    by (metis list.exhaust)
  then show ?thesis
  proof cases
    case 1
    then show ?thesis
      using hash hit base slots unfolding tage_predict_def
      by (simp add: Let_def flip: l0_def)
        (simp add: tage_looked_up_def lookup_ok_def ll_hashed_def l1_def l0_def
          tage_ref_prediction_def counter_predicts_taken_def)
  next
    case 2
    with ctr [of t] slot [of t] show ?thesis
      using hash hit base slots unfolding tage_predict_def
      by (simp add: Let_def flip: l0_def)
        (simp add: tage_looked_up_def lookup_ok_def ll_hashed_def l1_def l0_def ll_provide_def
          tage_ref_prediction_def counter_predicts_taken_def tage_table_ctr_def)
  next
    case 3
    with ctr [of t] slot [of t] ctr [of u] slot [of u] show ?thesis
      using hash hit base slots unfolding tage_predict_def
      by (simp add: Let_def flip: l0_def)
        (simp add: tage_looked_up_def lookup_ok_def ll_hashed_def l1_def l0_def ll_provide_def
          ll_alternate_def tage_ref_prediction_def counter_predicts_taken_def tage_table_ctr_def)
  qed
qed

lemma tage_predict_ref:
  assumes "tage_wf g"
  obtains ll where "tage_predict g pc = Some (tage_ref_prediction g pc, g\<lparr>tg_last_lookup := ll\<rparr>)"
    "tage_looked_up g pc ll"
  using tage_predict_cases [OF assms, of pc] that by (auto split: option.splits)

section \<open>Every operation keeps the invariant\<close>

text \<open>Two states that differ in the contents of well-formed tagged tables only.\<close>

definition tage_retabled :: "tage_predictor_t \<Rightarrow> tage_predictor_t \<Rightarrow> bool" where
  "tage_retabled g g' \<longleftrightarrow>
     (\<exists>tbls. g' = g\<lparr>tg_tagged_tables := tbls\<rparr> \<and> tables_ok (tg_params g) tbls)"

lemma tage_retabled_refl: "tage_wf g \<Longrightarrow> tage_retabled g g"
  by (auto simp: tage_retabled_def dest: tage_wfD(4) intro!: exI [of _ "tg_tagged_tables g"])

lemma tage_retabled_trans: "tage_retabled g g' \<Longrightarrow> tage_retabled g' g'' \<Longrightarrow> tage_retabled g g''"
  by (auto simp: tage_retabled_def)

lemma tage_retabled_wf: "tage_wf g \<Longrightarrow> tage_retabled g g' \<Longrightarrow> tage_wf g'"
  by (auto simp: tage_retabled_def tage_wf_def)

lemma tage_retabled_frame:
  assumes "tage_retabled g g'"
  shows "tg_params g' = tg_params g" "tg_last_lookup g' = tg_last_lookup g"
    "tg_base_table g' = tg_base_table g" "tg_history g' = tg_history g"
    "tg_branch_updates g' = tg_branch_updates g" "tg_max_hist_len g' = tg_max_hist_len g"
  using assms by (auto simp: tage_retabled_def)

lemma tage_entry_upd_retabled:
  assumes "tage_wf g" "slot_ok (tg_params g) bank idx"
    and "\<And>e. entry_ok (tg_params g) e \<Longrightarrow> entry_ok (tg_params g) (f e)"
  shows "\<exists>g'. tage_entry_upd g bank idx f = Some g' \<and> tage_retabled g g'"
  by (rule tage_entry_upd_in [OF tage_wfD(4) [OF assms(1)] assms(2,3)])
    (auto simp: tage_retabled_def)

lemma tage_ctr_upd_ok:
  assumes "tage_params_ok (tg_params g)" "entry_ok (tg_params g) e"
  shows "entry_ok (tg_params g) (tage_ctr_upd g t e)"
  using ctr_ok_step [OF tage_params_okD(5,6) [OF assms(1)]] assms(2)
  by (auto simp: tage_ctr_upd_def entry_ok_def Let_def)

lemma useful_dec_ok:
  "entry_ok P e \<Longrightarrow> entry_ok P (if 0 < te_useful e then e\<lparr>te_useful := te_useful e - 1\<rparr> else e)"
  by (auto simp: entry_ok_def unat_minus_one word_neq_0_conv)

lemma max_useful_eq:
  assumes "b \<le> 8"
  shows "unat (ucast (push_bit b 1 - 1 :: u32) :: u8) = 2 ^ b - 1"
proof -
  from assms consider "b = 0" | "b = 1" | "b = 2" | "b = 3" | "b = 4" | "b = 5" | "b = 6" | "b = 7" | "b = 8"
    by linarith
  then show ?thesis by cases simp_all
qed

lemma useful_inc_ok:
  assumes "entry_ok P e" "tp_usefulness_bits P \<le> 8"
    and "te_useful e < (ucast (push_bit (tp_usefulness_bits P) 1 - 1 :: u32) :: u8)"
  shows "entry_ok P (e\<lparr>te_useful := te_useful e + 1\<rparr>)"
proof -
  have less: "unat (te_useful e) < 2 ^ tp_usefulness_bits P - 1"
    using assms(3) max_useful_eq [OF assms(2)] by (simp add: word_less_nat_alt)
  then have "unat (te_useful e + 1) = unat (te_useful e) + 1"
    using power_increasing [OF assms(2), of "2::nat"]
    by (simp add: unat_word_ariths)
  with assms(1) less show ?thesis by (simp add: entry_ok_def)
qed

lemma tage_update_usefulness_retabled:
  assumes "tage_wf g" "ll_valid (tg_last_lookup g)"
  shows "\<exists>g'. tage_update_usefulness g pc_ok alt_ok = Some g' \<and> tage_retabled g g'"
proof (cases "ll_provider_hit (tg_last_lookup g)")
  case False
  then show ?thesis
    by (simp add: tage_update_usefulness_def Let_def tage_retabled_refl [OF assms(1)])
next
  case True
  then have slot: "slot_ok (tg_params g) (ll_provider_bank (tg_last_lookup g))
      (ll_provider_index (tg_last_lookup g))"
    using tage_wfD(6) [OF assms] by (simp add: lookup_ok_def)
  note bits = tage_params_okD(7) [OF tage_wfD(1) [OF assms(1)]]
  show ?thesis
    using True tage_entry_in(1) [OF tage_wfD(4) [OF assms(1)] slot]
    by (auto simp: tage_update_usefulness_def Let_def tage_retabled_refl [OF assms(1)]
        intro!: tage_entry_upd_retabled [OF assms(1) slot] useful_dec_ok useful_inc_ok [OF _ bits])
qed

lemma tage_claim_loop_retabled:
  assumes "tage_wf g" "ll_valid (tg_last_lookup g)"
    and "\<forall>t\<in>set ts. t < length (tp_table_info (tg_params g))"
  shows "\<exists>r. tage_claim_loop g taken ts = Some r \<and> (\<forall>g'. r = Some g' \<longrightarrow> tage_retabled g g')"
  using assms(3)
proof (induction ts)
  case (Cons t ts)
  note ok = tage_wfD(6) [OF assms(1,2), unfolded lookup_ok_def]
  from Cons.prems ok have slot: "slot_ok (tg_params g) (int t) (int (ll_indices (tg_last_lookup g) ! t))"
    and len: "t < length (ll_indices (tg_last_lookup g))" "t < length (ll_tags (tg_last_lookup g))"
    by auto
  have claim: "\<exists>g'. tage_entry_upd g (int t) (int (ll_indices (tg_last_lookup g) ! t))
      (\<lambda>e. e\<lparr>te_tag := x, te_ctr := if taken then 0 else - 1, te_useful := 0\<rparr>) = Some g' \<and>
      tage_retabled g g'" for x
    using counter_bounds [OF tage_params_okD(5,6) [OF tage_wfD(1) [OF assms(1)]]]
    by (intro tage_entry_upd_retabled [OF assms(1) slot]) (auto simp: entry_ok_def ctr_ok_def)
  show ?case
    using Cons claim [of "ll_tags (tg_last_lookup g) ! t"]
      tage_entry_in(1) [OF tage_wfD(4) [OF assms(1)] slot] len
    by (auto simp: vec_simps Let_def)
qed simp

lemma tage_decay_loop_retabled:
  assumes "tage_wf g" "ll_valid (tg_last_lookup g)"
    and "\<forall>t\<in>set ts. t < length (tp_table_info (tg_params g))"
  shows "\<exists>g'. tage_decay_loop g ts = Some g' \<and> tage_retabled g g'"
  using assms
proof (induction ts arbitrary: g)
  case Nil
  then show ?case by (simp add: tage_retabled_refl)
next
  case (Cons t ts)
  note ok = tage_wfD(6) [OF Cons.prems(1,2), unfolded lookup_ok_def]
  from Cons.prems ok have slot: "slot_ok (tg_params g) (int t) (int (ll_indices (tg_last_lookup g) ! t))"
    and len: "t < length (ll_indices (tg_last_lookup g))"
    by auto
  have "\<exists>g1. tage_entry_upd g (int t) (int (ll_indices (tg_last_lookup g) ! t))
      (\<lambda>e. if 0 < te_useful e then e\<lparr>te_useful := te_useful e - 1\<rparr> else e) = Some g1 \<and>
      tage_retabled g g1"
    by (rule tage_entry_upd_retabled [OF Cons.prems(1) slot]) (rule useful_dec_ok)
  then obtain g1 where g1: "tage_entry_upd g (int t) (int (ll_indices (tg_last_lookup g) ! t))
      (\<lambda>e. if 0 < te_useful e then e\<lparr>te_useful := te_useful e - 1\<rparr> else e) = Some g1"
      "tage_retabled g g1"
    by blast
  with Cons.IH [OF tage_retabled_wf [OF Cons.prems(1) g1(2)]] Cons.prems
    tage_retabled_frame [OF g1(2)] obtain g2
    where "tage_decay_loop g1 ts = Some g2" "tage_retabled g1 g2" by auto
  with g1 len show ?case
    by (auto simp: vec_simps intro: tage_retabled_trans)
qed

lemma tage_allocate_retabled:
  assumes "tage_wf g" "ll_valid (tg_last_lookup g)"
  shows "\<exists>g'. tage_allocate_entries g taken = Some g' \<and> tage_retabled g g'"
proof -
  define ts where "ts = [(if ll_provider_hit (tg_last_lookup g)
    then nat (ll_provider_bank (tg_last_lookup g) + 1) else 0)..<length (tp_table_info (tg_params g))]"
  have "\<forall>t\<in>set ts. t < length (tp_table_info (tg_params g))" by (auto simp: ts_def)
  from tage_claim_loop_retabled [OF assms this, of taken] tage_decay_loop_retabled [OF assms this]
  show ?thesis
    unfolding tage_allocate_entries_def Let_def ts_def [symmetric]
    by (auto split: option.splits)
qed

lemma tage_base_upd_wf:
  assumes "tage_wf g"
  shows "\<exists>tbl. tage_base_upd g pc t = Some (g\<lparr>tg_base_table := tbl\<rparr>) \<and> tage_wf (g\<lparr>tg_base_table := tbl\<rparr>)"
proof -
  note range = tage_base_index_range [OF assms, of pc]
  note bits = tage_params_okD(3,4) [OF tage_wfD(1) [OF assms]]
  have "ctr_ok (tp_base_ctr_bits (tg_params g)) (tg_base_table g ! nat (tage_base_index g pc))"
    using range by (intro list_all_nth [OF tage_wfD(3) [OF assms]])
  from ctr_ok_step(1,2) [OF bits this] range assms show ?thesis
    by (auto simp: tage_base_upd_def Let_def vec_simps tage_wf_def intro: list_all_update)
qed

lemma tage_wf_predicted:
  assumes "tage_wf g" "tage_looked_up g pc ll"
  shows "tage_wf (g\<lparr>tg_last_lookup := ll\<rparr>)"
  using assms by (simp add: tage_wf_def tage_looked_up_def)

lemma tage_wf_push_history: "tage_wf g \<Longrightarrow> tage_wf (tage_push_history g t)"
  by (cases "tg_history g") (auto simp: tage_wf_def tage_push_history_def)

lemma useful_shift_ok: "entry_ok P e \<Longrightarrow> entry_ok P (e\<lparr>te_useful := drop_bit 1 (te_useful e)\<rparr>)"
  by (auto simp: entry_ok_def unat_div_distrib drop_bit_eq_div intro: le_less_trans [OF div_le_dividend])

lemma tage_wf_age: "tage_wf g \<Longrightarrow> tage_wf (tage_age_usefulness g)"
  using useful_shift_ok
  by (auto simp: tage_age_usefulness_def Let_def tage_wf_def tables_ok_def list_all2_conv_all_nth
      list_all_length)

lemma tage_wf_reset: "tage_wf g \<Longrightarrow> tage_wf (tage_reset g)"
  using counter_bounds [of "tp_base_ctr_bits (tg_params g)"]
    counter_bounds [of "tp_tagged_ctr_bits (tg_params g)"]
  by (auto simp: tage_reset_def tage_wf_def tage_params_ok_def tables_ok_def list_all2_conv_all_nth
      list_all_length entry_ok_def ctr_ok_def ll_empty_def)

lemma tage_wf_new: "tage_params_ok P \<Longrightarrow> tage_wf (tage_new P)"
  unfolding tage_new_def Let_def
  using counter_bounds [of "tp_base_ctr_bits P"] counter_bounds [of "tp_tagged_ctr_bits P"]
  by (intro tage_wf_reset)
    (auto simp: tage_wf_def tage_params_ok_def tables_ok_def list_all2_conv_all_nth
      list_all_length entry_ok_def ctr_ok_def ll_empty_def)

text \<open>The counter update of \<open>train\<close>, once the lookup is that of the branch.\<close>

definition tage_train_counters ::
  "tage_predictor_t \<Rightarrow> u64 \<Rightarrow> bool \<Rightarrow> tage_predictor_t option" where
  "tage_train_counters g pc t =
     (let ll = tg_last_lookup g in
      if ll_provider_hit ll then
        do { g \<leftarrow> tage_entry_upd g (ll_provider_bank ll) (ll_provider_index ll) (tage_ctr_upd g t);
             g \<leftarrow> (if ll_alternate_hit ll \<and> ll_provider_weak ll then
                     tage_entry_upd g (ll_alternate_bank ll) (ll_alternate_index ll) (tage_ctr_upd g t)
                   else if \<not> ll_alternate_hit ll then tage_base_upd g pc t
                   else Some g);
             tage_update_usefulness g (ll_provider_prediction ll = t) (ll_alternate_prediction ll = t) }
      else tage_base_upd g pc t)"

lemma tage_train_counters_wf:
  assumes "tage_wf g" "ll_valid (tg_last_lookup g)"
  shows "\<exists>g'. tage_train_counters g pc t = Some g' \<and> tage_wf g' \<and>
    tg_last_lookup g' = tg_last_lookup g \<and> tg_params g' = tg_params g"
proof (cases "ll_provider_hit (tg_last_lookup g)")
  case False
  then show ?thesis
    using tage_base_upd_wf [OF assms(1), of pc t] by (auto simp: tage_train_counters_def Let_def)
next
  case True
  let ?ll = "tg_last_lookup g"
  note ok = tage_wfD(6) [OF assms, unfolded lookup_ok_def]
  have step: "\<exists>g'. tage_entry_upd h b i (tage_ctr_upd h t) = Some g' \<and> tage_retabled h g'"
    if "tage_wf h" "slot_ok (tg_params h) b i" for h b i
    by (rule tage_entry_upd_retabled [OF that]) (rule tage_ctr_upd_ok [OF tage_wfD(1) [OF that(1)]])
  obtain g1 where g1: "tage_entry_upd g (ll_provider_bank ?ll) (ll_provider_index ?ll)
      (tage_ctr_upd g t) = Some g1" "tage_retabled g g1"
    using step [OF assms(1), of "ll_provider_bank ?ll" "ll_provider_index ?ll"] True ok by auto
  note wf1 = tage_retabled_wf [OF assms(1) g1(2)]
  note frame1 = tage_retabled_frame [OF g1(2)]
  define r where "r = (if ll_alternate_hit ?ll \<and> ll_provider_weak ?ll then
      tage_entry_upd g1 (ll_alternate_bank ?ll) (ll_alternate_index ?ll) (tage_ctr_upd g1 t)
    else if \<not> ll_alternate_hit ?ll then tage_base_upd g1 pc t else Some g1)"
  have "\<exists>g2. r = Some g2 \<and> tage_wf g2 \<and> tg_last_lookup g2 = ?ll \<and> tg_params g2 = tg_params g"
  proof (cases "ll_alternate_hit ?ll")
    case True
    then have "slot_ok (tg_params g1) (ll_alternate_bank ?ll) (ll_alternate_index ?ll)"
      using ok frame1 by simp
    from step [OF wf1 this] obtain g2 where
      "tage_entry_upd g1 (ll_alternate_bank ?ll) (ll_alternate_index ?ll) (tage_ctr_upd g1 t) = Some g2"
      and g2: "tage_retabled g1 g2" by blast
    with True wf1 frame1 tage_retabled_wf [OF wf1 g2] tage_retabled_frame [OF g2] show ?thesis
      by (cases "ll_provider_weak ?ll") (simp_all add: r_def)
  next
    case False
    with tage_base_upd_wf [OF wf1, of pc t] frame1 show ?thesis by (auto simp: r_def)
  qed
  then obtain g2 where g2: "r = Some g2" "tage_wf g2" "tg_last_lookup g2 = ?ll"
    "tg_params g2 = tg_params g" by blast
  from tage_update_usefulness_retabled [OF g2(2)] g2(3) assms(2) obtain g3
    where g3: "tage_update_usefulness g2 (ll_provider_prediction ?ll = t)
      (ll_alternate_prediction ?ll = t) = Some g3" "tage_retabled g2 g3"
    by metis
  have "tage_train_counters g pc t = Some g3"
    using True g1(1) g2(1) g3(1) by (simp add: tage_train_counters_def Let_def r_def)
  then show ?thesis
    using tage_retabled_wf [OF g2(2) g3(2)] tage_retabled_frame [OF g3(2)] g2 by auto
qed

lemma tage_train_wf:
  assumes "tage_wf g"
  shows "\<exists>g'. tage_train g pc t = Some g' \<and> tage_wf g' \<and> tg_params g' = tg_params g"
proof -
  obtain g0 where g0: "(if \<not> ll_valid (tg_last_lookup g) \<or> ll_pc (tg_last_lookup g) \<noteq> pc
      then map_option snd (tage_predict g pc) else Some g) = Some g0" "tage_wf g0"
      "ll_valid (tg_last_lookup g0)" "tg_params g0 = tg_params g"
  proof (cases "\<not> ll_valid (tg_last_lookup g) \<or> ll_pc (tg_last_lookup g) \<noteq> pc")
    case True
    obtain ll where "tage_predict g pc = Some (tage_ref_prediction g pc, g\<lparr>tg_last_lookup := ll\<rparr>)"
      "tage_looked_up g pc ll" by (rule tage_predict_ref [OF assms])
    with True that [of "g\<lparr>tg_last_lookup := ll\<rparr>"] tage_wf_predicted [OF assms] show ?thesis
      by (auto simp: tage_looked_up_def)
  next
    case False
    with that [of g] assms show ?thesis by simp
  qed
  obtain g1 where g1: "tage_train_counters g0 pc t = Some g1" "tage_wf g1"
    "tg_last_lookup g1 = tg_last_lookup g0" "tg_params g1 = tg_params g0"
    using tage_train_counters_wf [OF g0(2,3)] by blast
  obtain g2 where g2: "(if ll_final_prediction (tg_last_lookup g0) \<noteq> t
      then tage_allocate_entries g1 t else Some g1) = Some g2" "tage_wf g2" "tg_params g2 = tg_params g1"
  proof (cases "ll_final_prediction (tg_last_lookup g0) = t")
    case True
    with that [of g1] g1(2) show ?thesis by simp
  next
    case False
    from tage_allocate_retabled [OF g1(2), of t] g1(3) g0(3) obtain g'
      where "tage_allocate_entries g1 t = Some g'" and g': "tage_retabled g1 g'" by auto
    with False that [of g'] tage_retabled_wf [OF g1(2) g'] tage_retabled_frame(1) [OF g']
    show ?thesis by simp
  qed
  let ?g3 = "tage_push_history g2 t"
  have "tage_wf (?g3\<lparr>tg_branch_updates := tg_branch_updates ?g3 + 1\<rparr>)"
    using tage_wf_push_history [OF g2(2), of t] by (simp add: tage_wf_def)
  then have "tage_wf (tage_age_usefulness (?g3\<lparr>tg_branch_updates := tg_branch_updates ?g3 + 1\<rparr>))"
    by (rule tage_wf_age)
  moreover have "tage_train g pc t =
      Some (tage_age_usefulness (?g3\<lparr>tg_branch_updates := tg_branch_updates ?g3 + 1\<rparr>))"
    unfolding tage_train_def g0(1)
    using g1(1) g2(1) by (simp add: Let_def tage_train_counters_def)
  moreover have "tg_params (tage_age_usefulness (?g3\<lparr>tg_branch_updates := tg_branch_updates ?g3 + 1\<rparr>)) = tg_params g"
    using g2(3) g1(4) g0(4) by (simp add: tage_age_usefulness_def Let_def tage_push_history_def)
  ultimately show ?thesis by blast
qed

lemma tage_high_confidence_defined:
  assumes "tage_wf g"
  shows "\<exists>b. tage_high_confidence g = Some b"
proof (cases "ll_valid (tg_last_lookup g) \<and> ll_provider_hit (tg_last_lookup g)")
  case True
  then have "slot_ok (tg_params g) (ll_provider_bank (tg_last_lookup g))
      (ll_provider_index (tg_last_lookup g))"
    using tage_wfD(6) [OF assms] by (simp add: lookup_ok_def)
  from tage_entry_in(1) [OF tage_wfD(4) [OF assms] this] True show ?thesis
    by (simp add: tage_high_confidence_def Let_def)
next
  case False
  then show ?thesis
    using tage_base_index_range [OF assms]
    by (auto simp: tage_high_confidence_def Let_def vec_simps)
qed

section \<open>Properties\<close>

inductive tage_reachable :: "tage_predictor_t \<Rightarrow> bool" where
  new: "tage_params_ok P \<Longrightarrow> tage_reachable (tage_new P)"
| predict: "tage_reachable g \<Longrightarrow> tage_predict g pc = Some (b, g') \<Longrightarrow> tage_reachable g'"
| train: "tage_reachable g \<Longrightarrow> tage_train g pc t = Some g' \<Longrightarrow> tage_reachable g'"
| reset: "tage_reachable g \<Longrightarrow> tage_reachable (tage_reset g)"

lemma tage_reachable_wf: "tage_reachable g \<Longrightarrow> tage_wf g"
proof (induction rule: tage_reachable.induct)
  case (new P)
  then show ?case by (rule tage_wf_new)
next
  case (predict g pc b g')
  obtain ll where "tage_predict g pc = Some (tage_ref_prediction g pc, g\<lparr>tg_last_lookup := ll\<rparr>)"
    "tage_looked_up g pc ll" by (rule tage_predict_ref [OF predict.IH])
  with predict show ?case by (auto intro: tage_wf_predicted)
next
  case (train g pc t g')
  with tage_train_wf [of g pc t] show ?case by auto
next
  case (reset g)
  then show ?case by (intro tage_wf_reset)
qed

lemma boom_like_default_ok: "tage_params_ok boom_like_default"
  by (simp add: tage_params_ok_def boom_like_default_def tage_info_def)

text \<open>
  C10. No operation of a reachable TAGE predictor leaves its tables: \<open>predict\<close>, \<open>train\<close> and the
  confidence query are defined, and all counters and usefulness fields stay within their widths.
\<close>

theorem tage_memory_safe:
  assumes "tage_reachable g"
  shows "(\<exists>r. tage_predict g pc = Some r) \<and> (\<exists>g'. tage_train g pc t = Some g') \<and>
    (\<exists>b. tage_high_confidence g = Some b) \<and>
    list_all (ctr_ok (tp_base_ctr_bits (tg_params g))) (tg_base_table g) \<and>
    list_all (list_all (entry_ok (tg_params g))) (tg_tagged_tables g)"
proof -
  note wf = tage_reachable_wf [OF assms]
  have "list_all (list_all (entry_ok (tg_params g))) (tg_tagged_tables g)"
    using tage_wfD(4) [OF wf] by (auto simp: tables_ok_def list_all2_conv_all_nth list_all_length)
  then show ?thesis
    using tage_predict_cases [OF wf, of pc] tage_train_wf [OF wf, of pc t]
      tage_high_confidence_defined [OF wf] tage_wfD(3) [OF wf]
    by (auto split: option.splits)
qed

theorem tage_memory_safe_witness:
  "(\<exists>r. tage_predict (tage_new boom_like_default) 0x80000010 = Some r) \<and>
   (\<exists>g'. tage_train (tage_new boom_like_default) 0x80000010 True = Some g')"
  using tage_memory_safe [OF tage_reachable.new [OF boom_like_default_ok], of "0x80000010" True]
  by blast

text \<open>
  C11. The prediction is the counter of the matching table with the highest number, which has the
  longest history in layouts ordered by history length such as \<open>boom_like_default\<close>; when that
  counter is weak, a second match exists and \<open>use_alt_on_weak\<close> is set, it is the counter of the
  second-highest match; without a match it is the bimodal counter. Only the lookup record changes.
\<close>

theorem tage_predicts_longest_match:
  assumes "tage_reachable g"
  shows "\<exists>ll. tage_predict g pc = Some (tage_ref_prediction g pc, g\<lparr>tg_last_lookup := ll\<rparr>) \<and>
    ll_final_prediction ll = tage_ref_prediction g pc \<and>
    (ll_provider_hit ll \<longleftrightarrow> tage_hits g pc \<noteq> []) \<and>
    (ll_provider_hit ll \<longrightarrow> ll_provider_bank ll = int (Max (set (tage_hits g pc))))"
proof -
  obtain ll where ll: "tage_predict g pc = Some (tage_ref_prediction g pc, g\<lparr>tg_last_lookup := ll\<rparr>)"
    "tage_looked_up g pc ll" by (rule tage_predict_ref [OF tage_reachable_wf [OF assms]])
  have "sorted_wrt (>) (tage_hits g pc)"
    unfolding tage_hits_def by (intro sorted_wrt_filter) (simp add: sorted_wrt_rev)
  then have "tage_hits g pc \<noteq> [] \<Longrightarrow> Max (set (tage_hits g pc)) = tage_hits g pc ! 0"
    by (cases "tage_hits g pc") (auto intro!: Max_eqI)
  with ll show ?thesis by (auto simp: tage_looked_up_def)
qed

theorem tage_predicts_longest_match_witness:
  "\<exists>ll. tage_predict (tage_new boom_like_default) 0x80000010 =
      Some (True, (tage_new boom_like_default)\<lparr>tg_last_lookup := ll\<rparr>)"
proof -
  have "tage_ref_prediction (tage_new boom_like_default) 0x80000010 = True" by code_simp
  with tage_predicts_longest_match [OF tage_reachable.new [OF boom_like_default_ok], of "0x80000010"]
  show ?thesis by auto
qed

text \<open>
  With the default 2-bit base counters (range \<open>-2..1\<close>) a taken prediction that comes from
  the base table is never reported as high confidence, however often the branch was taken,
  because \<open>counter_is_weak\<close> calls every value of magnitude at most one weak.
\<close>

lemma tage_base_taken_never_confident:
  assumes "tage_reachable g" "tp_base_ctr_bits (tg_params g) = 2"
    and "tage_predict g pc = Some (True, g')" "tage_hits g pc = []"
  shows "tage_high_confidence g' = Some False"
proof -
  note wf = tage_reachable_wf [OF assms(1)]
  obtain ll where ll: "tage_predict g pc = Some (tage_ref_prediction g pc, g\<lparr>tg_last_lookup := ll\<rparr>)"
    "tage_looked_up g pc ll" by (rule tage_predict_ref [OF wf])
  note range = tage_base_index_range [OF wf, of pc]
  have "ctr_ok 2 (tage_base_ctr g pc)"
    using list_all_nth [OF tage_wfD(3) [OF wf] range(2)] assms(2) by (simp add: tage_base_ctr_def)
  then have small: "tage_base_ctr g pc \<le> 1" by (simp add: ctr_ok_def counter_max_def)
  from assms(3) ll(1) have g': "g' = g\<lparr>tg_last_lookup := ll\<rparr>" and "tage_ref_prediction g pc" by simp_all
  with assms(4) have "0 \<le> tage_base_ctr g pc" by (simp add: tage_ref_prediction_def)
  with small have "counter_is_weak (tage_base_ctr g pc) 2" by (simp add: counter_is_weak_def)
  moreover have "tage_base_index g' pc = tage_base_index g pc" by (simp add: g' tage_base_index_def)
  ultimately show ?thesis
    using ll(2) assms(2,4) range
    by (simp add: tage_high_confidence_def g' tage_looked_up_def vec_simps counter_is_strong_def
        tage_base_ctr_def)
qed

subsection \<open>Allocation\<close>

text \<open>The entry a candidate table would give to the branch of the last lookup.\<close>

definition tage_candidate :: "tage_predictor_t \<Rightarrow> nat \<Rightarrow> tagged_entry_t" where
  "tage_candidate g t = tg_tagged_tables g ! t ! (ll_indices (tg_last_lookup g) ! t)"

definition tage_put :: "tage_predictor_t \<Rightarrow> nat \<Rightarrow> tagged_entry_t \<Rightarrow> tagged_entry_t list list" where
  "tage_put g t e = (tg_tagged_tables g)
     [t := (tg_tagged_tables g ! t)[ll_indices (tg_last_lookup g) ! t := e]]"

lemma tage_slot_read:
  assumes "tage_wf g" "ll_valid (tg_last_lookup g)" "t < length (tp_table_info (tg_params g))"
  shows "vec_at (ll_indices (tg_last_lookup g)) (int t) = Some (ll_indices (tg_last_lookup g) ! t)"
    "vec_at (ll_tags (tg_last_lookup g)) (int t) = Some (ll_tags (tg_last_lookup g) ! t)"
    "tage_entry g (int t) (int (ll_indices (tg_last_lookup g) ! t)) = Some (tage_candidate g t)"
    "tage_entry_upd g (int t) (int (ll_indices (tg_last_lookup g) ! t)) f =
      Some (g\<lparr>tg_tagged_tables := tage_put g t (f (tage_candidate g t))\<rparr>)"
proof -
  note ok = tage_wfD(6) [OF assms(1,2), unfolded lookup_ok_def]
  from ok assms(3) show "vec_at (ll_indices (tg_last_lookup g)) (int t) = Some (ll_indices (tg_last_lookup g) ! t)"
    "vec_at (ll_tags (tg_last_lookup g)) (int t) = Some (ll_tags (tg_last_lookup g) ! t)"
    by (simp_all add: vec_simps)
  from ok assms(3) have slot: "slot_ok (tg_params g) (int t) (int (ll_indices (tg_last_lookup g) ! t))"
    by blast
  from tage_entry_in(1) [OF tage_wfD(4) [OF assms(1)] slot]
  show "tage_entry g (int t) (int (ll_indices (tg_last_lookup g) ! t)) = Some (tage_candidate g t)"
    by (simp add: tage_candidate_def)
  show "tage_entry_upd g (int t) (int (ll_indices (tg_last_lookup g) ! t)) f =
      Some (g\<lparr>tg_tagged_tables := tage_put g t (f (tage_candidate g t))\<rparr>)"
    using slot tables_okD [OF tage_wfD(4) [OF assms(1)] assms(3)]
    by (simp add: tage_entry_upd_def vec_simps slot_ok_def tage_put_def tage_candidate_def)
qed

lemma tage_claim_loop_eq:
  assumes "tage_wf g" "ll_valid (tg_last_lookup g)"
    and "\<forall>t\<in>set ts. t < length (tp_table_info (tg_params g))"
  shows "tage_claim_loop g taken ts = Some (map_option
    (\<lambda>t. g\<lparr>tg_tagged_tables := tage_put g t
        \<lparr>te_tag = ll_tags (tg_last_lookup g) ! t, te_ctr = if taken then 0 else - 1, te_useful = 0\<rparr>\<rparr>)
    (find (\<lambda>t. te_useful (tage_candidate g t) = 0) ts))"
  using assms(3)
proof (induction ts)
  case (Cons t ts)
  then show ?case
    using tage_slot_read [OF assms(1,2), of t]
    by (cases "tage_candidate g t") (simp add: Let_def)
qed simp

text \<open>
  The tagged tables after every candidate of the tables \<open>ts\<close> lost one of its usefulness; all
  other entries, and the tags and counters of the candidates, are those of \<open>g\<close>.
\<close>

definition tage_decayed :: "tage_predictor_t \<Rightarrow> nat list \<Rightarrow> tagged_entry_t list list" where
  "tage_decayed g ts = map (\<lambda>t.
     if t \<in> set ts
     then (tg_tagged_tables g ! t)[ll_indices (tg_last_lookup g) ! t :=
             (tage_candidate g t)\<lparr>te_useful := te_useful (tage_candidate g t) - 1\<rparr>]
     else tg_tagged_tables g ! t) [0..<length (tg_tagged_tables g)]"

lemma tage_decay_loop_eq:
  assumes "tage_wf g" "ll_valid (tg_last_lookup g)" "distinct ts"
    and "\<forall>t\<in>set ts. t < length (tp_table_info (tg_params g)) \<and> te_useful (tage_candidate g t) \<noteq> 0"
  shows "tage_decay_loop g ts = Some (g\<lparr>tg_tagged_tables := tage_decayed g ts\<rparr>)"
  using assms
proof (induction ts arbitrary: g)
  case Nil
  then show ?case by (simp add: tage_decayed_def map_nth)
next
  case (Cons t ts)
  let ?dec = "\<lambda>e. if 0 < te_useful e then e\<lparr>te_useful := te_useful e - 1\<rparr> else e"
  let ?g1 = "g\<lparr>tg_tagged_tables := tage_put g t (?dec (tage_candidate g t))\<rparr>"
  have t: "t < length (tp_table_info (tg_params g))" "0 < te_useful (tage_candidate g t)"
    using Cons.prems(4) by (simp_all add: word_neq_0_conv)
  note read = tage_slot_read [OF Cons.prems(1,2) t(1)]
  have slot: "slot_ok (tg_params g) (int t) (int (ll_indices (tg_last_lookup g) ! t))"
    using tage_wfD(6) [OF Cons.prems(1,2)] t(1) by (simp add: lookup_ok_def)
  have "\<exists>g'. tage_entry_upd g (int t) (int (ll_indices (tg_last_lookup g) ! t)) ?dec = Some g' \<and>
      tage_retabled g g'"
    by (rule tage_entry_upd_retabled [OF Cons.prems(1) slot]) (rule useful_dec_ok)
  then have "tage_retabled g ?g1" unfolding read(4) by blast
  then have wf: "tage_wf ?g1" by (rule tage_retabled_wf [OF Cons.prems(1)])
  have same: "tage_candidate ?g1 u = tage_candidate g u" if "u \<in> set ts" for u
  proof -
    have "t \<noteq> u" using that Cons.prems(3) by auto
    then show ?thesis by (simp add: tage_candidate_def tage_put_def)
  qed
  have len: "t < length (tg_tagged_tables g)"
    using tables_okD [OF tage_wfD(4) [OF Cons.prems(1)] t(1)] by simp
  have "tage_decayed ?g1 ts = tage_decayed g (t # ts)"
    using Cons.prems(3) same t(2) len
    by (auto simp: tage_decayed_def tage_put_def nth_list_update)
  then show ?case
    using Cons.IH [OF wf] Cons.prems same read by simp
qed

text \<open>
  C15. After a misprediction the branch gets an entry in the first table above the provider whose
  entry for the branch is not useful: it carries the tag of the branch and a weak counter on the
  side of the outcome, and no other entry changes. When the entries of all these tables are
  useful, each of them loses one of its usefulness, and no other entry changes.
\<close>

theorem tage_allocates_first_useless:
  assumes "tage_wf g" "ll_valid (tg_last_lookup g)"
    and "ts = [(if ll_provider_hit (tg_last_lookup g) then nat (ll_provider_bank (tg_last_lookup g) + 1)
                else 0)..<length (tp_table_info (tg_params g))]"
  shows "tage_allocate_entries g taken = Some (g\<lparr>tg_tagged_tables :=
    (case find (\<lambda>t. te_useful (tage_candidate g t) = 0) ts of
       Some t \<Rightarrow> tage_put g t \<lparr>te_tag = ll_tags (tg_last_lookup g) ! t,
                               te_ctr = if taken then 0 else - 1, te_useful = 0\<rparr>
     | None \<Rightarrow> tage_decayed g ts)\<rparr>)"
proof -
  have range: "\<forall>t\<in>set ts. t < length (tp_table_info (tg_params g))" "distinct ts"
    by (auto simp: assms(3))
  note alloc = tage_allocate_entries_def [of g taken, unfolded Let_def, folded assms(3)]
    tage_claim_loop_eq [OF assms(1,2) range(1), of taken]
  show ?thesis
  proof (cases "find (\<lambda>t. te_useful (tage_candidate g t) = 0) ts")
    case None
    then have "\<forall>t\<in>set ts. te_useful (tage_candidate g t) \<noteq> 0" by (auto simp: find_None_iff)
    then show ?thesis
      using tage_decay_loop_eq [OF assms(1,2) range(2)] range(1) by (simp add: alloc None)
  qed (simp add: alloc)
qed

theorem tage_allocates_first_useless_witness:
  "\<exists>g ll. tage_predict (tage_new boom_like_default) 0x80000010 = Some (True, g) \<and> ll = tg_last_lookup g \<and>
    tage_allocate_entries g False = Some (g\<lparr>tg_tagged_tables := tage_put g 0
      \<lparr>te_tag = ll_tags ll ! 0, te_ctr = - 1, te_useful = 0\<rparr>\<rparr>)"
proof -
  let ?g = "tage_new boom_like_default"
  have reach: "tage_reachable ?g" by (rule tage_reachable.new [OF boom_like_default_ok])
  have vals: "tage_hits ?g 0x80000010 = []" "tage_ref_prediction ?g 0x80000010 = True"
    "te_useful (tg_tagged_tables ?g ! 0 ! tage_idx ?g 0x80000010 0) = 0"
    "length (tp_table_info (tg_params ?g)) = 5" by code_simp+
  obtain ll where ll: "tage_predict ?g 0x80000010 = Some (True, ?g\<lparr>tg_last_lookup := ll\<rparr>)"
    "tage_looked_up ?g 0x80000010 ll"
    using tage_predict_ref [OF tage_reachable_wf [OF reach], of "0x80000010"] vals(2) by metis
  let ?h = "?g\<lparr>tg_last_lookup := ll\<rparr>"
  have wf: "tage_wf ?h" by (rule tage_wf_predicted [OF tage_reachable_wf [OF reach] ll(2)])
  have "te_useful (tage_candidate ?h 0) = 0"
    using ll(2) vals(3,4) by (simp add: tage_candidate_def tage_looked_up_def ll_hashed_def)
  then have "find (\<lambda>t. te_useful (tage_candidate ?h t) = 0) [0..<5] = Some 0"
    by (simp add: upt_conv_Cons)
  then have "tage_allocate_entries ?h False = Some (?h\<lparr>tg_tagged_tables := tage_put ?h 0
      \<lparr>te_tag = ll_tags ll ! 0, te_ctr = - 1, te_useful = 0\<rparr>\<rparr>)"
    using tage_allocates_first_useless [OF wf _ refl, of False] ll(2) vals(1,4)
    by (simp add: tage_looked_up_def)
  with ll(1) show ?thesis by auto
qed

section \<open>Reset\<close>

lemma entry_cleared: "e\<lparr>te_tag := x, te_ctr := c, te_useful := u\<rparr> = \<lparr>te_tag = x, te_ctr = c, te_useful = u\<rparr>"
  by (cases e) simp

lemma tables_cleared:
  assumes "tables_ok P tbls"
  shows "map (map (\<lambda>e. e\<lparr>te_tag := 0, te_ctr := 0, te_useful := 0\<rparr>)) tbls =
    map (\<lambda>info. replicate (ti_n_entries info) \<lparr>te_tag = 0, te_ctr = 0, te_useful = 0\<rparr>) (tp_table_info P)"
  using assms
  by (intro nth_equalityI)
    (auto simp: tables_ok_def list_all2_conv_all_nth entry_cleared map_replicate_const)

text \<open>\<open>reset\<close> brings a predictor back to the state its constructor builds.\<close>

lemma tage_reset_new: "tage_wf g \<Longrightarrow> tage_reset g = tage_new (tg_params g)"
  using tables_cleared [of "tg_params g" "tg_tagged_tables g"]
  by (simp add: tage_wf_def tage_reset_def tage_new_def Let_def map_replicate_const entry_cleared)

end
