(* ===== verification/Branch_Stats.thy ===== *)
theory Branch_Stats
  imports Perceptron Tage Complex_Main
begin

text \<open>
  The branch-prediction statistics that \<open>processor_t\<close> keeps (\<open>riscv-isa-sim/riscv/processor.cc\<close>):
  which predictor is consulted for a conditional branch, how predictions are counted, and the
  region of interest that a program opens and closes with marked \<open>ebreak\<close> instructions.
  The record holds the fields of \<open>processor_t\<close> these functions touch; what they read from the
  architectural state (register \<open>x10\<close> and the \<open>minstret\<close> counter) is an argument.
\<close>

section \<open>The interface of a predictor\<close>

text \<open>
  What the processor relies on: on states that satisfy the invariant every operation is defined
  and gives such a state again. The client's run is the loop the simulator performs: predict,
  compare, train.
\<close>

primrec bp_run ::
  "('s \<Rightarrow> u64 \<Rightarrow> (bool \<times> 's) option) \<Rightarrow> ('s \<Rightarrow> u64 \<Rightarrow> bool \<Rightarrow> 's option) \<Rightarrow>
   's \<Rightarrow> (u64 \<times> bool) list \<Rightarrow> (nat \<times> 's) option" where
  "bp_run predict train s [] = Some (0, s)"
| "bp_run predict train s (b # bs) =
     do { (p, s1) \<leftarrow> predict s (fst b);
          s2 \<leftarrow> train s1 (fst b) (snd b);
          (m, s3) \<leftarrow> bp_run predict train s2 bs;
          Some ((if p \<noteq> snd b then 1 else 0) + m, s3) }"

locale branch_predictor =
  fixes predict :: "'s \<Rightarrow> u64 \<Rightarrow> (bool \<times> 's) option"
    and train :: "'s \<Rightarrow> u64 \<Rightarrow> bool \<Rightarrow> 's option"
    and reset :: "'s \<Rightarrow> 's"
    and invar :: "'s \<Rightarrow> bool"
  assumes predict_defined: "invar s \<Longrightarrow> \<exists>b s'. predict s pc = Some (b, s') \<and> invar s'"
    and train_defined: "invar s \<Longrightarrow> \<exists>s'. train s pc t = Some s' \<and> invar s'"
    and reset_invar: "invar s \<Longrightarrow> invar (reset s)"
begin

lemma run_step:
  assumes "invar s"
  obtains b s1 s2 where "predict s pc = Some (b, s1)" "train s1 pc t = Some s2" "invar s2"
  using predict_defined [OF assms, of pc] train_defined by metis

lemma run_defined:
  "invar s \<Longrightarrow> \<exists>m s'. bp_run predict train s bs = Some (m, s') \<and> m \<le> length bs \<and> invar s'"
proof (induction bs arbitrary: s)
  case (Cons b bs)
  obtain p s1 s2 where s: "predict s (fst b) = Some (p, s1)" "train s1 (fst b) (snd b) = Some s2" "invar s2"
    by (rule run_step [OF Cons.prems])
  from Cons.IH [OF s(3)] s show ?case by fastforce
qed simp

lemma run_append:
  assumes "bp_run predict train s bs = Some (m, s')"
  shows "bp_run predict train s (bs @ cs) =
    map_option (\<lambda>(n, s''). (m + n, s'')) (bp_run predict train s' cs)"
  using assms
proof (induction bs arbitrary: s m)
  case Nil
  then show ?case by (cases "bp_run predict train s' cs") auto
next
  case (Cons b bs)
  then obtain p s1 s2 m' where "predict s (fst b) = Some (p, s1)"
    "train s1 (fst b) (snd b) = Some s2" "bp_run predict train s2 bs = Some (m', s')"
    "m = (if p \<noteq> snd b then 1 else 0) + m'"
    by (auto simp: bind_eq_Some_conv)
  with Cons.IH [of s2 m'] show ?case
    by (cases "bp_run predict train s' cs") auto
qed

end

interpretation perceptron: branch_predictor perceptron_predict perceptron_train perceptron_reset perceptron_wf
  by unfold_locales
    (auto simp: perceptron_predict_ref perceptron_train_ref
      intro: perceptron_wf_predicted perceptron_wf_trained perceptron_wf_reset)

interpretation tage: branch_predictor tage_predict tage_train tage_reset tage_wf
proof unfold_locales
  show "\<exists>b g'. tage_predict g pc = Some (b, g') \<and> tage_wf g'" if "tage_wf g" for g pc
    using tage_predict_ref [OF that, of pc] tage_wf_predicted [OF that] by metis
  show "\<exists>g'. tage_train g pc t = Some g' \<and> tage_wf g'" if "tage_wf g" for g pc t
    using tage_train_wf [OF that] by blast
  show "tage_wf (tage_reset g)" if "tage_wf g" for g
    by (rule tage_wf_reset [OF that])
qed

section \<open>The processor's state and operations\<close>

datatype branch_predictor_kind_t = BP_perceptron | BP_tage | BP_hybrid

record bp_processor_t =
  perceptron_stats_enabled :: bool
  roi_active :: bool
  branch_predictor_kind :: branch_predictor_kind_t
  perceptron_predictor :: perceptron_predictor_t
  tage_predictor :: tage_predictor_t
  perceptron_branch_count :: u64
  perceptron_mispredictions :: u64
  perceptron_roi_instructions :: u64
  perceptron_roi_start_instructions :: u64

definition processor_new :: bp_processor_t where
  "processor_new =
     \<lparr> perceptron_stats_enabled = False,
       roi_active = False,
       branch_predictor_kind = BP_perceptron,
       perceptron_predictor = perceptron_new 1024 48 8,
       tage_predictor = tage_new boom_like_default,
       perceptron_branch_count = 0,
       perceptron_mispredictions = 0,
       perceptron_roi_instructions = 0,
       perceptron_roi_start_instructions = 0 \<rparr>"

definition set_perceptron_stats :: "bool \<Rightarrow> bp_processor_t \<Rightarrow> bp_processor_t" where
  "set_perceptron_stats val s = s\<lparr>perceptron_stats_enabled := val\<rparr>"

definition set_branch_predictor :: "branch_predictor_kind_t \<Rightarrow> bp_processor_t \<Rightarrow> bp_processor_t" where
  "set_branch_predictor kind s = s\<lparr>branch_predictor_kind := kind\<rparr>"

abbreviation ROI_START_MARKER :: u64 where "ROI_START_MARKER \<equiv> 1"
abbreviation ROI_END_MARKER :: u64 where "ROI_END_MARKER \<equiv> 2"

definition handle_roi_ebreak :: "u64 \<Rightarrow> u64 \<Rightarrow> bp_processor_t \<Rightarrow> bool \<times> bp_processor_t" where
  "handle_roi_ebreak marker minstret s =
     (if \<not> perceptron_stats_enabled s then (False, s)
      else if marker = ROI_START_MARKER then
        (True, s\<lparr> roi_active := True,
                  perceptron_branch_count := 0,
                  perceptron_mispredictions := 0,
                  perceptron_roi_instructions := 0,
                  perceptron_roi_start_instructions := minstret,
                  perceptron_predictor := perceptron_reset (perceptron_predictor s),
                  tage_predictor := tage_reset (tage_predictor s) \<rparr>)
      else if marker = ROI_END_MARKER then
        (True, (if roi_active s
                then s\<lparr>perceptron_roi_instructions := perceptron_roi_instructions s +
                         (minstret - perceptron_roi_start_instructions s)\<rparr>
                else s)\<lparr>roi_active := False\<rparr>)
      else (False, s))"

text \<open>The two switches of \<open>note_conditional_branch\<close> over the predictor kind.\<close>

definition bp_predict ::
  "branch_predictor_kind_t \<Rightarrow> perceptron_predictor_t \<times> tage_predictor_t \<Rightarrow> u64 \<Rightarrow>
   (bool \<times> perceptron_predictor_t \<times> tage_predictor_t) option" where
  "bp_predict kind ps pc =
     (case kind of
        BP_perceptron \<Rightarrow>
          do { (b, p) \<leftarrow> perceptron_predict (fst ps) pc; Some (b, p, snd ps) }
      | BP_tage \<Rightarrow>
          do { (b, g) \<leftarrow> tage_predict (snd ps) pc; Some (b, fst ps, g) }
      | BP_hybrid \<Rightarrow>
          do { (tage_pred, g) \<leftarrow> tage_predict (snd ps) pc;
               (perceptron_pred, p) \<leftarrow> perceptron_predict (fst ps) pc;
               tage_confident \<leftarrow> tage_high_confidence g;
               Some (if tage_confident then tage_pred
                     else if perceptron_high_confidence p then perceptron_pred
                     else tage_pred, p, g) })"

definition bp_train ::
  "branch_predictor_kind_t \<Rightarrow> perceptron_predictor_t \<times> tage_predictor_t \<Rightarrow> u64 \<Rightarrow> bool \<Rightarrow>
   (perceptron_predictor_t \<times> tage_predictor_t) option" where
  "bp_train kind ps pc actual_taken =
     (case kind of
        BP_perceptron \<Rightarrow>
          do { p \<leftarrow> perceptron_train (fst ps) pc actual_taken; Some (p, snd ps) }
      | BP_tage \<Rightarrow>
          do { g \<leftarrow> tage_train (snd ps) pc actual_taken; Some (fst ps, g) }
      | BP_hybrid \<Rightarrow>
          do { g \<leftarrow> tage_train (snd ps) pc actual_taken;
               p \<leftarrow> perceptron_train (fst ps) pc actual_taken;
               Some (p, g) })"

definition note_conditional_branch :: "u64 \<Rightarrow> bool \<Rightarrow> bp_processor_t \<Rightarrow> bp_processor_t option" where
  "note_conditional_branch pc actual_taken s =
     (if \<not> perceptron_stats_enabled s then Some s
      else if \<not> roi_active s then Some s
      else do { let s = s\<lparr>perceptron_branch_count := perceptron_branch_count s + 1\<rparr>;
                (predicted_taken, ps) \<leftarrow> bp_predict (branch_predictor_kind s)
                  (perceptron_predictor s, tage_predictor s) pc;
                let s = (if predicted_taken \<noteq> actual_taken
                         then s\<lparr>perceptron_mispredictions := perceptron_mispredictions s + 1\<rparr> else s);
                ps \<leftarrow> bp_train (branch_predictor_kind s) ps pc actual_taken;
                Some (s\<lparr>perceptron_predictor := fst ps, tage_predictor := snd ps\<rparr>) })"

text \<open>
  What the destructor prints. The percentages are exact rationals here; the source computes them
  in \<open>double\<close>.
\<close>

record bp_report =
  rep_predictor :: string
  rep_branches :: u64
  rep_mispredictions :: u64
  rep_miss_rate :: rat
  rep_instructions :: u64
  rep_roi_instructions :: u64
  rep_mpki :: rat

definition branch_stats_report :: "u64 \<Rightarrow> bp_processor_t \<Rightarrow> bp_report option" where
  "branch_stats_report instructions s =
     (if perceptron_stats_enabled s then
        Some \<lparr> rep_predictor =
                 (case branch_predictor_kind s of
                    BP_perceptron \<Rightarrow> ''perceptron'' | BP_tage \<Rightarrow> ''tage'' | BP_hybrid \<Rightarrow> ''hybrid''),
               rep_branches = perceptron_branch_count s,
               rep_mispredictions = perceptron_mispredictions s,
               rep_miss_rate =
                 (if perceptron_branch_count s = 0 then 0
                  else 100 * of_nat (unat (perceptron_mispredictions s)) / of_nat (unat (perceptron_branch_count s))),
               rep_instructions = instructions,
               rep_roi_instructions =
                 (if roi_active s
                  then perceptron_roi_instructions s + (instructions - perceptron_roi_start_instructions s)
                  else perceptron_roi_instructions s),
               rep_mpki =
                 (if instructions = 0 then 0
                  else 1000 * of_nat (unat (perceptron_mispredictions s)) / of_nat (unat instructions)) \<rparr>
      else None)"

definition parse_branch_predictor_kind :: "string \<Rightarrow> branch_predictor_kind_t option" where
  "parse_branch_predictor_kind s =
     (if s = ''perceptron'' then Some BP_perceptron
      else if s = ''tage'' then Some BP_tage
      else if s = ''hybrid'' then Some BP_hybrid
      else None)"

section \<open>The processor's predictor meets the interface\<close>

definition bp_reset ::
  "perceptron_predictor_t \<times> tage_predictor_t \<Rightarrow> perceptron_predictor_t \<times> tage_predictor_t" where
  "bp_reset ps = (perceptron_reset (fst ps), tage_reset (snd ps))"

definition bp_invar :: "perceptron_predictor_t \<times> tage_predictor_t \<Rightarrow> bool" where
  "bp_invar ps \<longleftrightarrow> perceptron_wf (fst ps) \<and> tage_wf (snd ps)"

interpretation bp: branch_predictor "bp_predict kind" "bp_train kind" bp_reset bp_invar for kind
proof unfold_locales
  fix ps pc and t :: bool
  assume inv: "bp_invar ps"
  then obtain pb p where p: "perceptron_predict (fst ps) pc = Some (pb, p)" "perceptron_wf p"
    using perceptron.predict_defined by (metis bp_invar_def)
  from inv obtain gb g where g: "tage_predict (snd ps) pc = Some (gb, g)" "tage_wf g"
    using tage.predict_defined by (metis bp_invar_def)
  from tage_high_confidence_defined [OF g(2)] obtain c where "tage_high_confidence g = Some c" by blast
  with p g inv show "\<exists>b ps'. bp_predict kind ps pc = Some (b, ps') \<and> bp_invar ps'"
    by (cases kind) (auto simp: bp_predict_def bp_invar_def)
  from inv perceptron.train_defined [of "fst ps" pc t] tage.train_defined [of "snd ps" pc t]
  show "\<exists>ps'. bp_train kind ps pc t = Some ps' \<and> bp_invar ps'"
    by (cases kind) (auto simp: bp_train_def bp_invar_def)
next
  show "bp_invar (bp_reset ps)" if "bp_invar ps" for ps
    using that by (simp add: bp_invar_def bp_reset_def perceptron_wf_reset tage_wf_reset)
qed

section \<open>Runs of the processor\<close>

datatype bp_event = Branch u64 bool | Ebreak u64 u64

primrec processor_step :: "bp_event \<Rightarrow> bp_processor_t \<Rightarrow> bp_processor_t option" where
  "processor_step (Branch pc taken) s = note_conditional_branch pc taken s"
| "processor_step (Ebreak marker minstret) s = Some (snd (handle_roi_ebreak marker minstret s))"

primrec processor_run :: "bp_event list \<Rightarrow> bp_processor_t \<Rightarrow> bp_processor_t option" where
  "processor_run [] s = Some s"
| "processor_run (e # es) s = do { s' \<leftarrow> processor_step e s; processor_run es s' }"

inductive processor_reachable :: "bp_processor_t \<Rightarrow> bool" where
  new: "processor_reachable processor_new"
| stats: "processor_reachable s \<Longrightarrow> processor_reachable (set_perceptron_stats val s)"
| kind: "processor_reachable s \<Longrightarrow> processor_reachable (set_branch_predictor k s)"
| step: "processor_reachable s \<Longrightarrow> processor_step e s = Some s' \<Longrightarrow> processor_reachable s'"

abbreviation predictors :: "bp_processor_t \<Rightarrow> perceptron_predictor_t \<times> tage_predictor_t" where
  "predictors s \<equiv> (perceptron_predictor s, tage_predictor s)"

text \<open>The predictors are always well-formed and have the geometry they were built with.\<close>

definition processor_wf :: "bp_processor_t \<Rightarrow> bool" where
  "processor_wf s \<longleftrightarrow> bp_invar (predictors s) \<and>
     bp_reset (predictors s) = (perceptron_new 1024 48 8, tage_new boom_like_default)"

lemma bp_reset_wf:
  assumes "bp_invar (p, g)" "perceptron_reset p = perceptron_new 1024 48 8" "tg_params g = boom_like_default"
  shows "bp_reset (p, g) = (perceptron_new 1024 48 8, tage_new boom_like_default)"
  using assms tage_reset_new [of g] by (simp add: bp_reset_def bp_invar_def)

lemma tg_params_new [simp]: "tg_params (tage_new P) = P" "tg_params (tage_reset g) = tg_params g"
  by (simp_all add: tage_new_def tage_reset_def Let_def)

lemma perceptron_geometry:
  assumes "perceptron_wf p"
  shows "perceptron_predict p pc = Some (b, p') \<Longrightarrow> perceptron_reset p' = perceptron_reset p"
    and "perceptron_train p pc t = Some p' \<Longrightarrow> perceptron_reset p' = perceptron_reset p"
  using assms by (auto simp: perceptron_predict_ref perceptron_train_ref perceptron_reset_trained)

lemma tage_geometry:
  assumes "tage_wf g"
  shows "tage_predict g pc = Some (b, g') \<Longrightarrow> tage_reset g' = tage_reset g"
    and "tage_train g pc t = Some g' \<Longrightarrow> tage_reset g' = tage_reset g"
proof -
  obtain ll where "tage_predict g pc = Some (tage_ref_prediction g pc, g\<lparr>tg_last_lookup := ll\<rparr>)"
    by (rule tage_predict_ref [OF assms])
  then show "tage_predict g pc = Some (b, g') \<Longrightarrow> tage_reset g' = tage_reset g"
    by (auto simp: tage_reset_def)
  show "tage_train g pc t = Some g' \<Longrightarrow> tage_reset g' = tage_reset g"
    using tage_train_wf [OF assms, of pc t] assms by (auto simp: tage_reset_new)
qed

lemma bp_geometry:
  assumes "bp_invar ps"
  shows "bp_predict kind ps pc = Some (b, ps') \<Longrightarrow> bp_reset ps' = bp_reset ps"
    and "bp_train kind ps pc t = Some ps' \<Longrightarrow> bp_reset ps' = bp_reset ps"
  using assms
  by (cases kind; auto simp: bp_predict_def bp_train_def bp_reset_def bp_invar_def bind_eq_Some_conv
      dest: perceptron_geometry tage_geometry)+

lemma note_branch_off:
  "\<not> (perceptron_stats_enabled s \<and> roi_active s) \<Longrightarrow> note_conditional_branch pc t s = Some s"
  by (auto simp: note_conditional_branch_def)

lemma note_branch_on:
  assumes "perceptron_stats_enabled s" "roi_active s"
    and "bp_predict (branch_predictor_kind s) (predictors s) pc = Some (b, ps1)"
    and "bp_train (branch_predictor_kind s) ps1 pc t = Some ps2"
  shows "note_conditional_branch pc t s =
    Some (s\<lparr> perceptron_branch_count := perceptron_branch_count s + 1,
             perceptron_mispredictions := perceptron_mispredictions s + (if b \<noteq> t then 1 else 0),
             perceptron_predictor := fst ps2, tage_predictor := snd ps2 \<rparr>)"
  using assms by (simp add: note_conditional_branch_def Let_def)

lemma built_predictors_ok:
  "perceptron_wf (perceptron_new 1024 48 8)" "tage_wf (tage_new boom_like_default)"
  "perceptron_reset (perceptron_new 1024 48 8) = perceptron_new 1024 48 8"
  "tage_reset (tage_new boom_like_default) = tage_new boom_like_default"
  by (simp_all add: perceptron_wf_new perceptron_reset_new tage_wf_new boom_like_default_ok tage_reset_new)

lemma processor_wf_new: "processor_wf processor_new"
  by (simp add: processor_wf_def processor_new_def bp_invar_def bp_reset_def built_predictors_ok)

lemma processor_wf_step:
  assumes "processor_wf s"
  shows "\<exists>s'. processor_step e s = Some s' \<and> processor_wf s'"
proof (cases e)
  case (Ebreak marker minstret)
  with assms show ?thesis
    by (auto simp: handle_roi_ebreak_def processor_wf_def bp_invar_def bp_reset_def
        built_predictors_ok)
next
  case (Branch pc t)
  show ?thesis
  proof (cases "perceptron_stats_enabled s \<and> roi_active s")
    case False
    with Branch assms show ?thesis by (simp add: note_branch_off)
  next
    case True
    have inv: "bp_invar (predictors s)" using assms by (simp add: processor_wf_def)
    obtain b ps1 where p: "bp_predict (branch_predictor_kind s) (predictors s) pc = Some (b, ps1)"
      "bp_invar ps1" using bp.predict_defined [OF inv] by blast
    obtain ps2 where t: "bp_train (branch_predictor_kind s) ps1 pc t = Some ps2" "bp_invar ps2"
      using bp.train_defined [OF p(2)] by blast
    from bp_geometry(1) [OF inv p(1)] bp_geometry(2) [OF p(2) t(1)] assms t(2) show ?thesis
      using Branch note_branch_on [OF _ _ p(1) t(1)] True by (simp add: processor_wf_def)
  qed
qed

lemma processor_reachable_wf: "processor_reachable s \<Longrightarrow> processor_wf s"
proof (induction rule: processor_reachable.induct)
  case new
  show ?case by (rule processor_wf_new)
next
  case (step s e s')
  then show ?case using processor_wf_step [of s e] by auto
qed (simp_all add: processor_wf_def set_perceptron_stats_def set_branch_predictor_def)

lemma processor_run_branches:
  assumes "perceptron_stats_enabled s" "roi_active s" "bp_invar (predictors s)"
  shows "\<exists>m ps. bp_run (bp_predict (branch_predictor_kind s)) (bp_train (branch_predictor_kind s))
      (predictors s) bs = Some (m, ps) \<and> m \<le> length bs \<and>
    processor_run (map (\<lambda>(pc, t). Branch pc t) bs) s =
      Some (s\<lparr> perceptron_branch_count := perceptron_branch_count s + of_nat (length bs),
               perceptron_mispredictions := perceptron_mispredictions s + of_nat m,
               perceptron_predictor := fst ps, tage_predictor := snd ps \<rparr>)"
  using assms
proof (induction bs arbitrary: s)
  case Nil
  then show ?case by simp
next
  case (Cons b bs)
  obtain pc t where b: "b = (pc, t)" by (cases b)
  obtain d ps1 where p: "bp_predict (branch_predictor_kind s) (predictors s) pc = Some (d, ps1)"
    "bp_invar ps1" using bp.predict_defined [OF Cons.prems(3)] by blast
  obtain ps2 where t: "bp_train (branch_predictor_kind s) ps1 pc t = Some ps2" "bp_invar ps2"
    using bp.train_defined [OF p(2)] by blast
  define s2 where "s2 = s\<lparr> perceptron_branch_count := perceptron_branch_count s + 1,
    perceptron_mispredictions := perceptron_mispredictions s + (if d \<noteq> t then 1 else 0),
    perceptron_predictor := fst ps2, tage_predictor := snd ps2 \<rparr>"
  have note2: "note_conditional_branch pc t s = Some s2"
    unfolding s2_def by (rule note_branch_on [OF Cons.prems(1,2) p(1) t(1)])
  from Cons.IH [of s2] Cons.prems t(2) obtain m ps where IH:
    "bp_run (bp_predict (branch_predictor_kind s)) (bp_train (branch_predictor_kind s)) ps2 bs = Some (m, ps)"
    "m \<le> length bs"
    "processor_run (map (\<lambda>(pc, t). Branch pc t) bs) s2 =
      Some (s2\<lparr> perceptron_branch_count := perceptron_branch_count s2 + of_nat (length bs),
               perceptron_mispredictions := perceptron_mispredictions s2 + of_nat m,
               perceptron_predictor := fst ps, tage_predictor := snd ps \<rparr>)"
    by (auto simp: s2_def)
  then show ?case
    using b p(1) t(1) note2 by (auto simp: s2_def add_ac)
qed


lemma processor_run_append:
  "processor_run (es @ fs) s = do { s' \<leftarrow> processor_run es s; processor_run fs s' }"
  by (induction es arbitrary: s) (auto split: bind_split)

text \<open>A marked region: the start marker, the branches executed in it, the end marker.\<close>

definition roi_region :: "u64 \<Rightarrow> (u64 \<times> bool) list \<Rightarrow> u64 \<Rightarrow> bp_event list" where
  "roi_region i0 bs i1 = Ebreak ROI_START_MARKER i0 # map (\<lambda>(pc, t). Branch pc t) bs @ [Ebreak ROI_END_MARKER i1]"

text \<open>The run of a freshly built predictor of a kind on a list of branches.\<close>

abbreviation fresh_run ::
  "branch_predictor_kind_t \<Rightarrow> (u64 \<times> bool) list \<Rightarrow> (nat \<times> perceptron_predictor_t \<times> tage_predictor_t) option" where
  "fresh_run kind \<equiv> bp_run (bp_predict kind) (bp_train kind) (perceptron_new 1024 48 8, tage_new boom_like_default)"

lemma roi_region_run:
  assumes wf: "processor_wf s" and on: "perceptron_stats_enabled s"
  obtains m ps where "fresh_run (branch_predictor_kind s) bs = Some (m, ps)" "m \<le> length bs"
    "processor_run (roi_region i0 bs i1) s =
      Some (s\<lparr> roi_active := False, perceptron_branch_count := of_nat (length bs),
               perceptron_mispredictions := of_nat m,
               perceptron_roi_instructions := i1 - i0, perceptron_roi_start_instructions := i0,
               perceptron_predictor := fst ps, tage_predictor := snd ps \<rparr>)"
proof -
  define s1 where "s1 = s\<lparr> roi_active := True, perceptron_branch_count := 0,
    perceptron_mispredictions := 0, perceptron_roi_instructions := 0,
    perceptron_roi_start_instructions := i0,
    perceptron_predictor := perceptron_reset (perceptron_predictor s),
    tage_predictor := tage_reset (tage_predictor s) \<rparr>"
  have start: "processor_step (Ebreak ROI_START_MARKER i0) s = Some s1"
    using on by (simp add: handle_roi_ebreak_def s1_def)
  have fresh: "predictors s1 = (perceptron_new 1024 48 8, tage_new boom_like_default)"
    using wf by (simp add: processor_wf_def bp_reset_def s1_def)
  have "bp_invar (predictors s1)"
    unfolding fresh by (simp add: bp_invar_def built_predictors_ok)
  from processor_run_branches [OF _ _ this, of bs] on obtain m ps where run:
    "fresh_run (branch_predictor_kind s) bs = Some (m, ps)" "m \<le> length bs"
    "processor_run (map (\<lambda>(pc, t). Branch pc t) bs) s1 =
      Some (s1\<lparr> perceptron_branch_count := of_nat (length bs), perceptron_mispredictions := of_nat m,
                perceptron_predictor := fst ps, tage_predictor := snd ps \<rparr>)"
    unfolding fresh by (auto simp: s1_def)
  have stop: "processor_step (Ebreak ROI_END_MARKER i1) (s1\<lparr> perceptron_branch_count := of_nat (length bs),
      perceptron_mispredictions := of_nat m, perceptron_predictor := fst ps, tage_predictor := snd ps \<rparr>) =
    Some (s\<lparr> roi_active := False, perceptron_branch_count := of_nat (length bs),
      perceptron_mispredictions := of_nat m,
      perceptron_roi_instructions := i1 - i0, perceptron_roi_start_instructions := i0,
      perceptron_predictor := fst ps, tage_predictor := snd ps \<rparr>)"
    using on by (simp add: handle_roi_ebreak_def s1_def)
  show thesis
    by (rule that [OF run(1,2)])
      (simp add: roi_region_def start processor_run_append run(3) stop del: processor_step.simps)
qed

section \<open>Properties\<close>

text \<open>
  C16. A region of interest measures the predictor and nothing else: whatever the processor did
  before (any branches, any earlier regions, any change of options), running a marked region of at
  most \<open>2 ^ 64 - 1\<close> branches leaves in the counters the number of branches of that region and
  exactly the number of mispredictions a newly constructed predictor of the selected kind makes on
  them, the difference of the two \<open>minstret\<close> readings as the instruction count, and the region
  closed. No operation of the run faults.
\<close>

theorem roi_measures_fresh_predictor:
  assumes "processor_reachable s" "perceptron_stats_enabled s" "length bs < 2 ^ 64"
  shows "\<exists>m ps s'. fresh_run (branch_predictor_kind s) bs = Some (m, ps) \<and>
    processor_run (roi_region i0 bs i1) s = Some s' \<and>
    unat (perceptron_branch_count s') = length bs \<and>
    unat (perceptron_mispredictions s') = m \<and> m \<le> length bs \<and>
    perceptron_roi_instructions s' = i1 - i0 \<and> \<not> roi_active s'"
proof -
  obtain m ps where r: "fresh_run (branch_predictor_kind s) bs = Some (m, ps)" "m \<le> length bs"
    "processor_run (roi_region i0 bs i1) s =
      Some (s\<lparr> roi_active := False, perceptron_branch_count := of_nat (length bs),
               perceptron_mispredictions := of_nat m,
               perceptron_roi_instructions := i1 - i0, perceptron_roi_start_instructions := i0,
               perceptron_predictor := fst ps, tage_predictor := snd ps \<rparr>)"
    by (rule roi_region_run [OF processor_reachable_wf [OF assms(1)] assms(2)])
  with assms(3) show ?thesis by (auto simp: unat_word_of_nat_small)
qed

theorem roi_measures_fresh_predictor_witness:
  "\<exists>s. perceptron_stats_enabled s \<and> branch_predictor_kind s = BP_hybrid \<and>
    (\<exists>m ps s'. fresh_run BP_hybrid [(64, True), (68, False)] = Some (m, ps) \<and>
      processor_run (roi_region 1000 [(64, True), (68, False)] 1050) s = Some s' \<and>
      unat (perceptron_branch_count s') = 2 \<and> unat (perceptron_mispredictions s') = m \<and>
      perceptron_roi_instructions s' = 50)"
proof -
  let ?s = "set_branch_predictor BP_hybrid (set_perceptron_stats True processor_new)"
  have "processor_reachable ?s" by (intro processor_reachable.intros)
  moreover have "perceptron_stats_enabled ?s" "branch_predictor_kind ?s = BP_hybrid"
    by (simp_all add: set_branch_predictor_def set_perceptron_stats_def)
  ultimately show ?thesis
    using roi_measures_fresh_predictor [of ?s "[(64, True), (68, False)]" 1000 1050] by auto
qed

text \<open>
  Statistics are collected in a marked region only: a program that executes no start marker
  leaves every counter and both predictors as they were, whatever branches and other \<open>ebreak\<close>
  instructions it executes, although \<open>--perceptron-stats\<close> is given.
\<close>

lemma no_statistics_without_start_marker:
  assumes "\<not> roi_active s" "\<forall>i. Ebreak ROI_START_MARKER i \<notin> set es"
  shows "processor_run es s = Some s"
  using assms
proof (induction es)
  case (Cons e es)
  have "processor_step e s = Some s"
    using Cons.prems by (cases e) (auto simp: note_branch_off handle_roi_ebreak_def)
  with Cons show ?case by simp
qed simp

lemma per_thousand_strict:
  assumes "0 < m" "0 < a" "a < b"
  shows "1000 * of_nat m / of_nat b < (1000 * of_nat m / of_nat a :: rat)"
  using assms by (intro divide_strict_left_mono) auto

text \<open>
  What the destructor prints after a measured region: the miss rate is the percentage of
  mispredicted branches and lies between 0 and 100, the region's instruction count is the difference
  of the two readings, but the rate per thousand instructions divides by every instruction the
  processor retired, so that it is below the region's own rate as soon as the region is a proper
  part of the run and has a misprediction.
\<close>

lemma branch_stats_report_of_region:
  assumes "processor_reachable s" "perceptron_stats_enabled s" "length bs < 2 ^ 64" "bs \<noteq> []"
    and "processor_run (roi_region i0 bs i1) s = Some s'"
    and "i0 < i1" "i1 - i0 < instrs"
  shows "\<exists>m ps R. fresh_run (branch_predictor_kind s) bs = Some (m, ps) \<and>
    branch_stats_report instrs s' = Some R \<and>
    parse_branch_predictor_kind (rep_predictor R) = Some (branch_predictor_kind s) \<and>
    rep_miss_rate R = 100 * of_nat m / of_nat (length bs) \<and>
    0 \<le> rep_miss_rate R \<and> rep_miss_rate R \<le> 100 \<and>
    rep_roi_instructions R = i1 - i0 \<and>
    (0 < m \<longrightarrow> rep_mpki R < 1000 * of_nat m / of_nat (unat (i1 - i0)))"
proof -
  obtain m ps where r: "fresh_run (branch_predictor_kind s) bs = Some (m, ps)" "m \<le> length bs"
    "processor_run (roi_region i0 bs i1) s =
      Some (s\<lparr> roi_active := False, perceptron_branch_count := of_nat (length bs),
               perceptron_mispredictions := of_nat m,
               perceptron_roi_instructions := i1 - i0, perceptron_roi_start_instructions := i0,
               perceptron_predictor := fst ps, tage_predictor := snd ps \<rparr>)"
    by (rule roi_region_run [OF processor_reachable_wf [OF assms(1)] assms(2)])
  obtain R where R: "branch_stats_report instrs s' = Some R"
    using assms(2,5) r(3) by (auto simp: branch_stats_report_def)
  note R' = R [unfolded branch_stats_report_def]
  have nz: "(of_nat (length bs) :: u64) \<noteq> 0"
    using assms(3,4) unat_word_of_nat_small [of "length bs", where 'a = 64] by auto
  have "rep_miss_rate R = 100 * of_nat m / of_nat (length bs)"
    using assms(2,3,5) r(2,3) nz R' by (auto simp: unat_word_of_nat_small)
  moreover have "100 * of_nat m / of_nat (length bs) \<le> (100 :: rat)"
    using r(2) assms(4) by (simp add: divide_le_eq)
  moreover have "rep_roi_instructions R = i1 - i0"
    using assms(2,5) r(3) R' by auto
  moreover have "rep_mpki R < 1000 * of_nat m / of_nat (unat (i1 - i0))" if "0 < m"
  proof -
    have pos: "0 < unat (i1 - i0)" using assms(6) by (simp add: unat_gt_0)
    have lt: "unat (i1 - i0) < unat instrs" using assms(7) by (simp add: word_less_nat_alt)
    have "instrs \<noteq> 0" using assms(7) by auto
    then have "rep_mpki R = 1000 * of_nat m / of_nat (unat instrs)"
      using assms(2,3,5) r(2,3) R' by (auto simp: unat_word_of_nat_small)
    also have "\<dots> < 1000 * of_nat m / of_nat (unat (i1 - i0))"
      by (rule per_thousand_strict [OF that pos lt])
    finally show ?thesis .
  qed
  moreover have "parse_branch_predictor_kind (rep_predictor R) = Some (branch_predictor_kind s)"
    using assms(2,5) r(3) R'
    by (cases "branch_predictor_kind s") (auto simp: parse_branch_predictor_kind_def)
  ultimately show ?thesis using r(1) R by auto
qed

lemma hybrid_step:
  assumes "perceptron_wf p" "tage_wf g"
  obtains b c d p1 g1 p2 g2 where
    "perceptron_predict p pc = Some (b, p1)" "tage_predict g pc = Some (c, g1)"
    "perceptron_train p1 pc t = Some p2" "tage_train g1 pc t = Some g2"
    "bp_predict BP_hybrid (p, g) pc = Some (d, p1, g1)" "d = b \<or> d = c"
    "bp_train BP_hybrid (p1, g1) pc t = Some (p2, g2)" "perceptron_wf p2" "tage_wf g2"
proof -
  obtain b p1 where p1: "perceptron_predict p pc = Some (b, p1)" "perceptron_wf p1"
    using perceptron.predict_defined [OF assms(1)] by blast
  obtain c g1 where g1: "tage_predict g pc = Some (c, g1)" "tage_wf g1"
    using tage.predict_defined [OF assms(2)] by blast
  obtain p2 where p2: "perceptron_train p1 pc t = Some p2" "perceptron_wf p2"
    using perceptron.train_defined [OF p1(2)] by blast
  obtain g2 where g2: "tage_train g1 pc t = Some g2" "tage_wf g2"
    using tage.train_defined [OF g1(2)] by blast
  obtain h where h: "tage_high_confidence g1 = Some h"
    using tage_high_confidence_defined [OF g1(2)] by blast
  show thesis
    by (rule that [OF p1(1) g1(1) p2(1) g2(1), of "if h then c else if perceptron_high_confidence p1 then b else c"])
      (use p1 g1 p2 g2 h in \<open>simp_all add: bp_predict_def bp_train_def\<close>)
qed

text \<open>
  The hybrid predictor keeps its two components independent: over any sequence of branches the
  perceptron and TAGE parts of a hybrid run are exactly in the states that separate runs of the two
  predictors reach, and a misprediction of the hybrid is one of a component, so that the hybrid never
  mispredicts more often than the two components together.
\<close>

lemma hybrid_runs_both_components:
  assumes "perceptron_wf p" "tage_wf g"
  shows "\<exists>m mp mt p' g'.
    bp_run (bp_predict BP_hybrid) (bp_train BP_hybrid) (p, g) bs = Some (m, p', g') \<and>
    bp_run perceptron_predict perceptron_train p bs = Some (mp, p') \<and>
    bp_run tage_predict tage_train g bs = Some (mt, g') \<and> m \<le> mp + mt"
  using assms
proof (induction bs arbitrary: p g)
  case Nil
  then show ?case by simp
next
  case (Cons br bs)
  obtain b c d p1 g1 p2 g2 where st:
    "perceptron_predict p (fst br) = Some (b, p1)" "tage_predict g (fst br) = Some (c, g1)"
    "perceptron_train p1 (fst br) (snd br) = Some p2" "tage_train g1 (fst br) (snd br) = Some g2"
    "bp_predict BP_hybrid (p, g) (fst br) = Some (d, p1, g1)" "d = b \<or> d = c"
    "bp_train BP_hybrid (p1, g1) (fst br) (snd br) = Some (p2, g2)" "perceptron_wf p2" "tage_wf g2"
    by (rule hybrid_step [OF Cons.prems])
  from Cons.IH [OF st(8,9)] st(1-7) show ?case by fastforce
qed

end
