(* ===== verification/SF_Core.thy ===== *)
theory SF_Core
  imports Prelude
begin

text \<open>
  The floating-point library of the simulator (\<open>riscv-isa-sim/softfloat\<close>): its global state, the
  integer primitives of \<open>primitives.h\<close> and the field macros of \<open>internals.h\<close> and
  \<open>specialize.h\<close>.

  The library is built (\<open>platform.h\<close>) with \<open>SOFTFLOAT_FAST_INT64\<close>, \<open>SOFTFLOAT_ROUND_ODD\<close> and
  \<open>INLINE_LEVEL 5\<close>. \<open>uint_fast16_t\<close>, \<open>uint_fast32_t\<close> and \<open>uint_fast64_t\<close> are 64 bits wide (the
  LP64 targets of the simulator), so that every local significand is a \<^typ>\<open>64 word\<close>; the
  signed exponents and shift counts, which stay far inside their C types, are \<^typ>\<open>int\<close>.
  The thread-local variables are a record that every operation takes and returns.
\<close>

section \<open>State\<close>

type_synonym float16_t = "16 word"
type_synonym float32_t = "32 word"
type_synonym float64_t = "64 word"

record sf_state =
  softfloat_roundingMode :: u8
  softfloat_detectTininess :: u8
  softfloat_exceptionFlags :: u8

abbreviation (input) softfloat_tininess_beforeRounding :: u8 where "softfloat_tininess_beforeRounding \<equiv> 0"
abbreviation (input) softfloat_tininess_afterRounding :: u8 where "softfloat_tininess_afterRounding \<equiv> 1"

abbreviation (input) softfloat_round_near_even :: u8 where "softfloat_round_near_even \<equiv> 0"
abbreviation (input) softfloat_round_minMag :: u8 where "softfloat_round_minMag \<equiv> 1"
abbreviation (input) softfloat_round_min :: u8 where "softfloat_round_min \<equiv> 2"
abbreviation (input) softfloat_round_max :: u8 where "softfloat_round_max \<equiv> 3"
abbreviation (input) softfloat_round_near_maxMag :: u8 where "softfloat_round_near_maxMag \<equiv> 4"
abbreviation (input) softfloat_round_odd :: u8 where "softfloat_round_odd \<equiv> 5"

abbreviation (input) softfloat_flag_inexact :: u8 where "softfloat_flag_inexact \<equiv> 1"
abbreviation (input) softfloat_flag_underflow :: u8 where "softfloat_flag_underflow \<equiv> 2"
abbreviation (input) softfloat_flag_overflow :: u8 where "softfloat_flag_overflow \<equiv> 4"
abbreviation (input) softfloat_flag_infinite :: u8 where "softfloat_flag_infinite \<equiv> 8"
abbreviation (input) softfloat_flag_invalid :: u8 where "softfloat_flag_invalid \<equiv> 16"

definition softfloat_state_init :: sf_state where
  "softfloat_state_init =
     \<lparr> softfloat_roundingMode = softfloat_round_near_even,
       softfloat_detectTininess = softfloat_tininess_afterRounding,
       softfloat_exceptionFlags = 0 \<rparr>"

definition softfloat_raiseFlags :: "u8 \<Rightarrow> sf_state \<Rightarrow> sf_state" where
  "softfloat_raiseFlags flags s = s\<lparr>softfloat_exceptionFlags := softfloat_exceptionFlags s OR flags\<rparr>"

section \<open>Shifts with jamming\<close>

definition softfloat_shortShiftRightJam64 :: "u64 \<Rightarrow> nat \<Rightarrow> u64" where
  "softfloat_shortShiftRightJam64 a dist =
     drop_bit dist a OR of_bool (a AND (push_bit dist 1 - 1) \<noteq> 0)"

definition softfloat_shiftRightJam32 :: "u32 \<Rightarrow> u64 \<Rightarrow> u32" where
  "softfloat_shiftRightJam32 a dist =
     (if dist < 31
      then drop_bit (unat dist) a OR of_bool (push_bit (unat (- dist AND 31)) a \<noteq> 0)
      else of_bool (a \<noteq> 0))"

definition softfloat_shiftRightJam64 :: "u64 \<Rightarrow> u64 \<Rightarrow> u64" where
  "softfloat_shiftRightJam64 a dist =
     (if dist < 63
      then drop_bit (unat dist) a OR of_bool (push_bit (unat (- dist AND 63)) a \<noteq> 0)
      else of_bool (a \<noteq> 0))"

section \<open>Counting leading zeros\<close>

definition softfloat_countLeadingZeros8 :: "nat list" where
  "softfloat_countLeadingZeros8 =
    [8, 7, 6, 6, 5, 5, 5, 5, 4, 4, 4, 4, 4, 4, 4, 4,
     3, 3, 3, 3, 3, 3, 3, 3, 3, 3, 3, 3, 3, 3, 3, 3,
     2, 2, 2, 2, 2, 2, 2, 2, 2, 2, 2, 2, 2, 2, 2, 2,
     2, 2, 2, 2, 2, 2, 2, 2, 2, 2, 2, 2, 2, 2, 2, 2,
     1, 1, 1, 1, 1, 1, 1, 1, 1, 1, 1, 1, 1, 1, 1, 1,
     1, 1, 1, 1, 1, 1, 1, 1, 1, 1, 1, 1, 1, 1, 1, 1,
     1, 1, 1, 1, 1, 1, 1, 1, 1, 1, 1, 1, 1, 1, 1, 1,
     1, 1, 1, 1, 1, 1, 1, 1, 1, 1, 1, 1, 1, 1, 1, 1,
     0, 0, 0, 0, 0, 0, 0, 0, 0, 0, 0, 0, 0, 0, 0, 0,
     0, 0, 0, 0, 0, 0, 0, 0, 0, 0, 0, 0, 0, 0, 0, 0,
     0, 0, 0, 0, 0, 0, 0, 0, 0, 0, 0, 0, 0, 0, 0, 0,
     0, 0, 0, 0, 0, 0, 0, 0, 0, 0, 0, 0, 0, 0, 0, 0,
     0, 0, 0, 0, 0, 0, 0, 0, 0, 0, 0, 0, 0, 0, 0, 0,
     0, 0, 0, 0, 0, 0, 0, 0, 0, 0, 0, 0, 0, 0, 0, 0,
     0, 0, 0, 0, 0, 0, 0, 0, 0, 0, 0, 0, 0, 0, 0, 0,
     0, 0, 0, 0, 0, 0, 0, 0, 0, 0, 0, 0, 0, 0, 0, 0]"

definition softfloat_countLeadingZeros16 :: "u16 \<Rightarrow> nat" where
  "softfloat_countLeadingZeros16 a =
     (let (count, a) = (if 0x100 \<le> a then (0, drop_bit 8 a) else (8, a))
      in count + softfloat_countLeadingZeros8 ! unat a)"

definition softfloat_countLeadingZeros32 :: "u32 \<Rightarrow> nat" where
  "softfloat_countLeadingZeros32 a =
     (let (count, a) = (if a < 0x10000 then (16, push_bit 16 a) else (0, a));
          (count, a) = (if a < 0x1000000 then (count + 8, push_bit 8 a) else (count, a))
      in count + softfloat_countLeadingZeros8 ! unat (drop_bit 24 a))"

definition softfloat_countLeadingZeros64 :: "u64 \<Rightarrow> nat" where
  "softfloat_countLeadingZeros64 a =
     (let count = 0;
          a32 = ucast (drop_bit 32 a) :: u32;
          (count, a32) = (if a32 = 0 then (32, ucast a) else (count, a32));
          (count, a32) = (if a32 < 0x10000 then (count + 16, push_bit 16 a32) else (count, a32));
          (count, a32) = (if a32 < 0x1000000 then (count + 8, push_bit 8 a32) else (count, a32))
      in count + softfloat_countLeadingZeros8 ! unat (drop_bit 24 a32))"

section \<open>128-bit arithmetic\<close>

record uint128 =
  u128_v64 :: u64
  u128_v0 :: u64

record uint64_extra =
  ue_v :: u64
  ue_extra :: u64

record uint128_extra =
  xe_v :: uint128
  xe_extra :: u64

definition softfloat_eq128 :: "u64 \<Rightarrow> u64 \<Rightarrow> u64 \<Rightarrow> u64 \<Rightarrow> bool" where
  "softfloat_eq128 a64 a0 b64 b0 \<longleftrightarrow> a64 = b64 \<and> a0 = b0"

definition softfloat_le128 :: "u64 \<Rightarrow> u64 \<Rightarrow> u64 \<Rightarrow> u64 \<Rightarrow> bool" where
  "softfloat_le128 a64 a0 b64 b0 \<longleftrightarrow> a64 < b64 \<or> a64 = b64 \<and> a0 \<le> b0"

definition softfloat_lt128 :: "u64 \<Rightarrow> u64 \<Rightarrow> u64 \<Rightarrow> u64 \<Rightarrow> bool" where
  "softfloat_lt128 a64 a0 b64 b0 \<longleftrightarrow> a64 < b64 \<or> a64 = b64 \<and> a0 < b0"

text \<open>The expression \<open>-dist & 63\<close> for an 8-bit \<open>dist\<close>, as a shift count.\<close>

definition neg_dist63 :: "nat \<Rightarrow> nat" where
  "neg_dist63 dist = unat (- (of_nat dist :: u8) AND 63)"

definition softfloat_shortShiftLeft128 :: "u64 \<Rightarrow> u64 \<Rightarrow> nat \<Rightarrow> uint128" where
  "softfloat_shortShiftLeft128 a64 a0 dist =
     \<lparr> u128_v64 = push_bit dist a64 OR drop_bit (neg_dist63 dist) a0,
       u128_v0 = push_bit dist a0 \<rparr>"

definition softfloat_shortShiftRight128 :: "u64 \<Rightarrow> u64 \<Rightarrow> nat \<Rightarrow> uint128" where
  "softfloat_shortShiftRight128 a64 a0 dist =
     \<lparr> u128_v64 = drop_bit dist a64,
       u128_v0 = push_bit (neg_dist63 dist) a64 OR drop_bit dist a0 \<rparr>"

definition softfloat_shortShiftRightJam64Extra :: "u64 \<Rightarrow> u64 \<Rightarrow> nat \<Rightarrow> uint64_extra" where
  "softfloat_shortShiftRightJam64Extra a extra dist =
     \<lparr> ue_v = drop_bit dist a,
       ue_extra = push_bit (neg_dist63 dist) a OR of_bool (extra \<noteq> 0) \<rparr>"

definition softfloat_shortShiftRightJam128 :: "u64 \<Rightarrow> u64 \<Rightarrow> nat \<Rightarrow> uint128" where
  "softfloat_shortShiftRightJam128 a64 a0 dist =
     (let negDist = neg_dist63 dist
      in \<lparr> u128_v64 = drop_bit dist a64,
           u128_v0 = push_bit negDist a64 OR drop_bit dist a0 OR of_bool (push_bit negDist a0 \<noteq> 0) \<rparr>)"

definition softfloat_shortShiftRightJam128Extra :: "u64 \<Rightarrow> u64 \<Rightarrow> u64 \<Rightarrow> nat \<Rightarrow> uint128_extra" where
  "softfloat_shortShiftRightJam128Extra a64 a0 extra dist =
     (let negDist = neg_dist63 dist
      in \<lparr> xe_v = \<lparr> u128_v64 = drop_bit dist a64,
                    u128_v0 = push_bit negDist a64 OR drop_bit dist a0 \<rparr>,
           xe_extra = push_bit negDist a0 OR of_bool (extra \<noteq> 0) \<rparr>)"

definition softfloat_shiftRightJam64Extra :: "u64 \<Rightarrow> u64 \<Rightarrow> u64 \<Rightarrow> uint64_extra" where
  "softfloat_shiftRightJam64Extra a extra dist =
     (let z = (if dist < 64
               then \<lparr> ue_v = drop_bit (unat dist) a, ue_extra = push_bit (unat (- dist AND 63)) a \<rparr>
               else \<lparr> ue_v = 0, ue_extra = (if dist = 64 then a else of_bool (a \<noteq> 0)) \<rparr>)
      in z\<lparr>ue_extra := ue_extra z OR of_bool (extra \<noteq> 0)\<rparr>)"

definition softfloat_shiftRightJam128 :: "u64 \<Rightarrow> u64 \<Rightarrow> u64 \<Rightarrow> uint128" where
  "softfloat_shiftRightJam128 a64 a0 dist =
     (if dist < 64 then
        let u8NegDist = unat (- (ucast dist :: u8) AND 63)
        in \<lparr> u128_v64 = drop_bit (unat dist) a64,
             u128_v0 = push_bit u8NegDist a64 OR drop_bit (unat dist) a0
               OR of_bool (push_bit u8NegDist a0 \<noteq> 0) \<rparr>
      else
        \<lparr> u128_v64 = 0,
          u128_v0 =
            (if dist < 127
             then drop_bit (unat (dist AND 63)) a64
               OR of_bool ((a64 AND (push_bit (unat (dist AND 63)) 1 - 1)) OR a0 \<noteq> 0)
             else of_bool (a64 OR a0 \<noteq> 0)) \<rparr>)"

definition softfloat_shiftRightJam128Extra :: "u64 \<Rightarrow> u64 \<Rightarrow> u64 \<Rightarrow> u64 \<Rightarrow> uint128_extra" where
  "softfloat_shiftRightJam128Extra a64 a0 extra dist =
     (let u8NegDist = unat (- (ucast dist :: u8) AND 63);
          (z, extra) =
            (if dist < 64 then
               (\<lparr> xe_v = \<lparr> u128_v64 = drop_bit (unat dist) a64,
                           u128_v0 = push_bit u8NegDist a64 OR drop_bit (unat dist) a0 \<rparr>,
                  xe_extra = push_bit u8NegDist a0 \<rparr>, extra)
             else if dist = 64 then
               (\<lparr> xe_v = \<lparr> u128_v64 = 0, u128_v0 = a64 \<rparr>, xe_extra = a0 \<rparr>, extra)
             else if dist < 128 then
               (\<lparr> xe_v = \<lparr> u128_v64 = 0, u128_v0 = drop_bit (unat (dist AND 63)) a64 \<rparr>,
                  xe_extra = push_bit u8NegDist a64 \<rparr>, extra OR a0)
             else
               (\<lparr> xe_v = \<lparr> u128_v64 = 0, u128_v0 = 0 \<rparr>,
                  xe_extra = (if dist = 128 then a64 else of_bool (a64 \<noteq> 0)) \<rparr>, extra OR a0))
      in z\<lparr>xe_extra := xe_extra z OR of_bool (extra \<noteq> 0)\<rparr>)"

definition softfloat_add128 :: "u64 \<Rightarrow> u64 \<Rightarrow> u64 \<Rightarrow> u64 \<Rightarrow> uint128" where
  "softfloat_add128 a64 a0 b64 b0 =
     (let z0 = a0 + b0
      in \<lparr> u128_v64 = a64 + b64 + of_bool (z0 < a0), u128_v0 = z0 \<rparr>)"

definition softfloat_sub128 :: "u64 \<Rightarrow> u64 \<Rightarrow> u64 \<Rightarrow> u64 \<Rightarrow> uint128" where
  "softfloat_sub128 a64 a0 b64 b0 =
     \<lparr> u128_v64 = a64 - b64 - of_bool (a0 < b0), u128_v0 = a0 - b0 \<rparr>"

definition softfloat_mul64ByShifted32To128 :: "u64 \<Rightarrow> u32 \<Rightarrow> uint128" where
  "softfloat_mul64ByShifted32To128 a b =
     (let mid = ucast (ucast a :: u32) * ucast b :: u64
      in \<lparr> u128_v64 = ucast (ucast (drop_bit 32 a) :: u32) * ucast b + drop_bit 32 mid,
           u128_v0 = push_bit 32 mid \<rparr>)"

definition softfloat_mul64To128 :: "u64 \<Rightarrow> u64 \<Rightarrow> uint128" where
  "softfloat_mul64To128 a b =
     (let a32 = ucast (drop_bit 32 a) :: u32;
          a0 = ucast a :: u32;
          b32 = ucast (drop_bit 32 b) :: u32;
          b0 = ucast b :: u32;
          z0 = ucast a0 * ucast b0 :: u64;
          mid1 = ucast a32 * ucast b0 :: u64;
          mid = mid1 + ucast a0 * ucast b32;
          z64 = ucast a32 * ucast b32 :: u64;
          z64 = z64 + (push_bit 32 (of_bool (mid < mid1)) OR drop_bit 32 mid);
          mid = push_bit 32 mid;
          z0 = z0 + mid;
          z64 = z64 + of_bool (z0 < mid)
      in \<lparr> u128_v64 = z64, u128_v0 = z0 \<rparr>)"

definition softfloat_mul128By32 :: "u64 \<Rightarrow> u64 \<Rightarrow> u32 \<Rightarrow> uint128" where
  "softfloat_mul128By32 a64 a0 b =
     (let z0 = a0 * ucast b;
          mid = ucast (ucast (drop_bit 32 a0) :: u32) * ucast b :: u64;
          carry = ucast (ucast (drop_bit 32 z0 - mid) :: u32) :: u64
      in \<lparr> u128_v64 = a64 * ucast b + drop_bit 32 (mid + carry), u128_v0 = z0 \<rparr>)"

section \<open>Exponent and significand\<close>

text \<open>The structs \<open>exp8_sig16\<close>, \<open>exp16_sig32\<close> and \<open>exp16_sig64\<close> of \<open>internals.h\<close>.\<close>

record exp_sig =
  es_exp :: int
  es_sig :: u64

end
