(* ===== verification/Rounding.thy ===== *)
theory Rounding
  imports Prelude Complex_Main
begin

text \<open>
  The arithmetic that the floating-point theories are measured against: rounding of a real magnitude
  in the six rounding modes of softfloat (\<open>rnd\<close>), the value of a packed magnitude of a binary format
  with \<open>p\<close> fraction bits and bias \<open>B\<close> (\<open>mval\<close>), and the relation \<open>rounds_to\<close> that says which encoding
  and which exception flags a correctly rounded operation returns for the exact result \<open>x\<close>.

  \<open>rp_core\<close> is the algorithm shared by the routines \<open>softfloat_roundPackTo*\<close>, written on natural
  numbers with the number of guard bits as a parameter; \<open>rp_core_correct\<close> shows that it rounds
  correctly in every mode, subnormal and overflowing results included.
\<close>

section \<open>Rounding a magnitude to an integer\<close>

definition rnd :: "u8 \<Rightarrow> bool \<Rightarrow> real \<Rightarrow> int" where
  "rnd rm sign x =
     (if rm = 0 then (if x - \<lfloor>x\<rfloor> < 1 / 2 \<or> x - \<lfloor>x\<rfloor> = 1 / 2 \<and> even \<lfloor>x\<rfloor> then \<lfloor>x\<rfloor> else \<lfloor>x\<rfloor> + 1)
      else if rm = 2 then (if sign then \<lceil>x\<rceil> else \<lfloor>x\<rfloor>)
      else if rm = 3 then (if sign then \<lfloor>x\<rfloor> else \<lceil>x\<rceil>)
      else if rm = 4 then \<lfloor>x + 1 / 2\<rfloor>
      else if rm = 5 then (if x = \<lfloor>x\<rfloor> \<or> odd \<lfloor>x\<rfloor> then \<lfloor>x\<rfloor> else \<lfloor>x\<rfloor> + 1)
      else \<lfloor>x\<rfloor>)"

text \<open>
  Two reals are in the same class for a grid of width \<open>h\<close> when they lie in the same open interval
  between grid points or are the same grid point up to the value: what decides a rounding to
  multiples of \<open>2 * h\<close>.
\<close>

definition same_class :: "real \<Rightarrow> real \<Rightarrow> real \<Rightarrow> bool" where
  "same_class h x y \<longleftrightarrow> \<lfloor>x / h\<rfloor> = \<lfloor>y / h\<rfloor> \<and> (x / h \<in> \<int> \<longleftrightarrow> y / h \<in> \<int>)"

lemma same_class_refl [simp]: "same_class h x x"
  by (simp add: same_class_def)

lemma same_class_sym: "same_class h x y \<Longrightarrow> same_class h y x"
  by (simp add: same_class_def)

lemma same_class_trans: "same_class h x y \<Longrightarrow> same_class h y z \<Longrightarrow> same_class h x z"
  by (simp add: same_class_def)

lemma same_class_scale: "c \<noteq> 0 \<Longrightarrow> same_class (c * h) (c * x) (c * y) \<longleftrightarrow> same_class h x y"
  by (simp add: same_class_def)

lemma Ints_floor_iff: "x \<in> \<int> \<longleftrightarrow> x = of_int \<lfloor>x\<rfloor>"
  by (metis Ints_of_int floor_of_int Ints_cases)

lemma floor_div_nat: "0 < n \<Longrightarrow> \<lfloor>x / real n\<rfloor> = \<lfloor>x\<rfloor> div int n"
  using floor_divide_real_eq_div [of "int n" x] by simp

lemma Ints_div_nat:
  assumes "0 < n"
  shows "x / real n \<in> \<int> \<longleftrightarrow> x \<in> \<int> \<and> int n dvd \<lfloor>x\<rfloor>"
proof
  assume "x / real n \<in> \<int>"
  then obtain k where "x / real n = of_int k" by (auto elim: Ints_cases)
  then have "x = of_int (k * int n)" using assms by (simp add: field_simps)
  then show "x \<in> \<int> \<and> int n dvd \<lfloor>x\<rfloor>" by (metis Ints_of_int dvd_triv_right floor_of_int)
next
  assume "x \<in> \<int> \<and> int n dvd \<lfloor>x\<rfloor>"
  then obtain k where "x = of_int (int n * k)" by (metis Ints_floor_iff dvdE)
  then show "x / real n \<in> \<int>" using assms by simp
qed

lemma same_class_coarse:
  assumes "same_class h x y" "0 < n"
  shows "same_class (h * real n) x y"
  using assms by (simp add: same_class_def divide_divide_eq_left [symmetric] floor_div_nat Ints_div_nat
      del: divide_divide_eq_left)

lemma same_class_add:
  assumes "same_class h x y" "h \<noteq> 0"
  shows "same_class h (of_int k * h + x) (of_int k * h + y)"
  using assms by (simp add: same_class_def add_divide_distrib)

lemma same_class_neg:
  assumes "same_class h x y" "h \<noteq> 0"
  shows "same_class h (of_int k * h - x) (of_int k * h - y)"
proof -
  have fl: "\<lfloor>- z\<rfloor> = (if z \<in> \<int> then - \<lfloor>z\<rfloor> else - \<lfloor>z\<rfloor> - 1)" for z :: real
    by (simp add: floor_minus ceiling_altdef Ints_floor_iff)
  have eq: "(of_int k * h - z) / h = of_int k - z / h" for z using assms(2) by (simp add: field_simps)
  have "\<lfloor>of_int k - w\<rfloor> = k + \<lfloor>- w\<rfloor>" for w :: real by linarith
  moreover have "of_int k - w \<in> \<int> \<longleftrightarrow> w \<in> \<int>" for w :: real
    using Ints_diff [of "of_int k" "of_int k - w"] Ints_diff [of "of_int k" w] by auto
  ultimately show ?thesis using assms(1) unfolding same_class_def eq by (simp add: fl)
qed

lemma rnd_parts:
  fixes x :: real
  defines "k \<equiv> \<lfloor>x / (1 / 2)\<rfloor>" and "e \<equiv> x / (1 / 2) \<in> \<int>"
  shows "\<lfloor>x\<rfloor> = k div 2" "x - \<lfloor>x\<rfloor> < 1 / 2 \<longleftrightarrow> even k" "x - \<lfloor>x\<rfloor> = 1 / 2 \<longleftrightarrow> e \<and> odd k"
    "x = \<lfloor>x\<rfloor> \<longleftrightarrow> e \<and> even k" "\<lfloor>x + 1 / 2\<rfloor> = (k + 1) div 2"
    "\<lceil>x\<rceil> = (if e \<and> even k then k div 2 else k div 2 + 1)"
proof -
  have k: "of_int k \<le> 2 * x" "2 * x < of_int k + 1"
    using floor_correct [of "x / (1 / 2)"] by (simp_all add: k_def mult.commute)
  have e: "e \<longleftrightarrow> 2 * x = of_int k" unfolding e_def k_def by (simp add: Ints_floor_iff mult.commute)
  have kk: "k = 2 * (k div 2) + k mod 2" by simp
  show f: "\<lfloor>x\<rfloor> = k div 2" 
  proof (rule floor_unique)
    show "of_int (k div 2) \<le> x" using k(1) by linarith
    show "x < of_int (k div 2) + 1" using k(2) by linarith
  qed
  have m: "k mod 2 = 0 \<or> k mod 2 = 1" by auto
  have x: "2 * (x - of_int \<lfloor>x\<rfloor>) = 2 * x - of_int k + of_int (k mod 2)"
  proof -
    have "real_of_int k = 2 * of_int (k div 2) + of_int (k mod 2)"
      by (metis kk of_int_add of_int_mult of_int_numeral)
    then show ?thesis unfolding f by simp
  qed
  have "(x - \<lfloor>x\<rfloor> < 1 / 2 \<longleftrightarrow> even k) \<and> (x - \<lfloor>x\<rfloor> = 1 / 2 \<longleftrightarrow> e \<and> odd k) \<and> (x = \<lfloor>x\<rfloor> \<longleftrightarrow> e \<and> even k)"
  proof (cases "even k")
    case True
    then have "2 * (x - of_int \<lfloor>x\<rfloor>) = 2 * x - of_int k" using x by (simp add: even_iff_mod_2_eq_zero)
    then show ?thesis using True k e by auto
  next
    case False
    then have "2 * (x - of_int \<lfloor>x\<rfloor>) = 2 * x - of_int k + 1" using x by (simp add: odd_iff_mod_2_eq_one)
    then show ?thesis using False k e by auto
  qed
  then show "x - \<lfloor>x\<rfloor> < 1 / 2 \<longleftrightarrow> even k" "x - \<lfloor>x\<rfloor> = 1 / 2 \<longleftrightarrow> e \<and> odd k" and i: "x = \<lfloor>x\<rfloor> \<longleftrightarrow> e \<and> even k"
    by auto
  show "\<lfloor>x + 1 / 2\<rfloor> = (k + 1) div 2"
    by (rule floor_unique) (use k in linarith)+
  show "\<lceil>x\<rceil> = (if e \<and> even k then k div 2 else k div 2 + 1)"
    using i f by (simp add: ceiling_altdef)
qed

lemma rnd_class:
  assumes "same_class (1 / 2) x y"
  shows "rnd rm sign x = rnd rm sign y"
proof -
  from assms have "\<lfloor>x / (1 / 2)\<rfloor> = \<lfloor>y / (1 / 2)\<rfloor>" "x / (1 / 2) \<in> \<int> \<longleftrightarrow> y / (1 / 2) \<in> \<int>"
    by (simp_all only: same_class_def)
  then show ?thesis unfolding rnd_def rnd_parts(2-4) [of x] rnd_parts(2-4) [of y]
    unfolding rnd_parts(1,5,6) [of x] rnd_parts(1,5,6) [of y] by (simp only:)
qed

lemma exact_class:
  assumes "same_class (1 / 2) x y"
  shows "x = of_int \<lfloor>x\<rfloor> \<longleftrightarrow> y = of_int \<lfloor>y\<rfloor>"
  using assms unfolding rnd_parts(4) [of x] rnd_parts(4) [of y] by (simp only: same_class_def)

definition rp_inc :: "nat \<Rightarrow> u8 \<Rightarrow> bool \<Rightarrow> nat" where
  "rp_inc g rm sign =
     (if rm = 0 \<or> rm = 4 then 2 ^ (g - 1) else if rm = (if sign then 2 else 3) then 2 ^ g - 1 else 0)"

definition rp_round :: "nat \<Rightarrow> u8 \<Rightarrow> bool \<Rightarrow> nat \<Rightarrow> nat" where
  "rp_round g rm sign n =
     (let q = (n + rp_inc g rm sign) div 2 ^ g; rb = n mod 2 ^ g
      in if rb \<noteq> 0 \<and> rm = 5 then (if even q then q + 1 else q)
         else if rb = 2 ^ (g - 1) \<and> rm = 0 then q - q mod 2 else q)"

lemma rp_round_rnd:
  assumes g: "0 < g"
  shows "int (rp_round g rm sign n) = rnd rm sign (real n / 2 ^ g)"
proof -
  define H where "H = (2::nat) ^ (g - 1)"
  from g obtain g' where g': "g = Suc g'" by (cases g) auto
  then have H: "0 < H" "2 ^ g = 2 * H" by (simp_all add: H_def)
  define k r where "k = n div H" and "r = n mod H"
  have n: "n = k * H + r" "r < H" using H by (simp_all add: k_def r_def)
  have x: "real n / 2 ^ g / (1 / 2) = real n / real H"
    by (simp add: H_def g')
  have fl: "\<lfloor>real n / 2 ^ g / (1 / 2)\<rfloor> = int k"
    unfolding x by (simp add: k_def floor_divide_of_nat_eq)
  have ex: "real n / 2 ^ g / (1 / 2) \<in> \<int> \<longleftrightarrow> r = 0"
    unfolding x using Ints_div_nat [of H "real n"] H by (auto simp: r_def dvd_eq_mod_eq_0 simp flip: of_nat_mod)
  note P = rnd_parts [of "real n / 2 ^ g", unfolded fl ex]
  obtain j b where k: "k = 2 * j + b" "b < 2"
    by (metis mod_less_divisor mult_div_mod_eq zero_less_numeral)
  then have b: "b = 0 \<or> b = 1" by auto
  have nn: "n = j * (2 * H) + (b * H + r)" unfolding n(1) k(1) by (simp add: algebra_simps)
  have d: "(n + i) div (2 * H) = j + (b * H + r + i) div (2 * H)" for i
    unfolding nn using div_mult_self3 [of "2 * H" j "b * H + r + i"] H by (simp add: add.assoc)
  have d0: "n div (2 * H) = j" using d [of 0] b n(2) by auto
  have d1: "(n + H) div (2 * H) = j + b"
    unfolding d using b n(2) by (auto intro!: div_nat_eqI)
  have d2: "(n + (2 * H - 1)) div (2 * H) = (if r = 0 \<and> b = 0 then j else j + 1)"
    unfolding d using b H n(2) by (auto intro!: div_nat_eqI)
  have m: "n mod (2 * H) = b * H + r"
    unfolding nn using b n(2) by auto
  have kj: "int k div 2 = int j" "(int k + 1) div 2 = int j + int b" "even (int k) \<longleftrightarrow> b = 0"
    using b by (auto simp: k)
  show ?thesis
    unfolding rnd_def P(2-4) unfolding P(1,5,6) kj
    unfolding rp_round_def rp_inc_def Let_def H(2) H_def [symmetric] m
    using b d0 d1 d2 H(1) n(2)
    by (elim disjE) (simp_all add: even_iff_mod_2_eq_zero [of "Suc _"] mod_Suc of_nat_diff, auto)
qed

text \<open>
  A right shift by \<open>d\<close> bits that records in the lowest bit whether a nonzero bit was shifted out.
\<close>

definition jam :: "nat \<Rightarrow> nat \<Rightarrow> nat" where
  "jam n d = (if 2 ^ d dvd n \<or> odd (n div 2 ^ d) then n div 2 ^ d else n div 2 ^ d + 1)"

lemma jam_class: "same_class 2 (real n / 2 ^ d) (real (jam n d))"
proof -
  define D q r where "D = (2::nat) ^ d" and "q = n div D" and "r = n mod D"
  have D: "0 < D" by (simp add: D_def)
  have n: "real n / 2 ^ d / 2 = real n / real D / real 2" by (simp add: D_def)
  have fl: "\<lfloor>real n / real D\<rfloor> = int q" by (simp add: q_def floor_divide_of_nat_eq)
  have ex: "real n / real D \<in> \<int> \<longleftrightarrow> r = 0"
    using Ints_div_nat [of D "real n"] D by (auto simp: r_def dvd_eq_mod_eq_0 simp flip: of_nat_mod)
  have jam: "jam n d = (if r = 0 \<or> odd q then q else q + 1)"
    by (simp add: jam_def D_def q_def r_def dvd_eq_mod_eq_0)
  have "\<lfloor>real n / 2 ^ d / 2\<rfloor> = int q div 2"
    unfolding n using floor_div_nat [of 2 "real n / real D"] fl by simp
  moreover have "real n / 2 ^ d / 2 \<in> \<int> \<longleftrightarrow> r = 0 \<and> even q"
    unfolding n using Ints_div_nat [of 2 "real n / real D"] fl ex by simp
  moreover have "\<lfloor>real (jam n d) / 2\<rfloor> = int (jam n d) div 2"
    using floor_div_nat [of 2 "real (jam n d)"] by simp
  moreover have "real (jam n d) / 2 \<in> \<int> \<longleftrightarrow> even (jam n d)"
    using Ints_div_nat [of 2 "real (jam n d)"] by simp
  moreover have "int (jam n d) div 2 = int q div 2" "even (jam n d) \<longleftrightarrow> r = 0 \<and> even q"
    by (auto simp: jam)
  ultimately show ?thesis by (simp add: same_class_def)
qed

definition mval :: "nat \<Rightarrow> int \<Rightarrow> nat \<Rightarrow> real" where
  "mval p B m =
     (if m < 2 ^ p then real m * 2 powi (1 - B - p)
      else real (2 ^ p + m mod 2 ^ p) * 2 powi (int (m div 2 ^ p) - B - p))"

definition fexp :: "nat \<Rightarrow> int \<Rightarrow> real \<Rightarrow> int" where
  "fexp p B x = max (\<lfloor>log 2 x\<rfloor> - p) (1 - B - p)"

definition rval :: "nat \<Rightarrow> int \<Rightarrow> u8 \<Rightarrow> bool \<Rightarrow> real \<Rightarrow> real" where
  "rval p B rm sign x = rnd rm sign (x / 2 powi (fexp p B x)) * 2 powi (fexp p B x)"

definition tiny :: "nat \<Rightarrow> int \<Rightarrow> u8 \<Rightarrow> u8 \<Rightarrow> bool \<Rightarrow> real \<Rightarrow> bool" where
  "tiny p B td rm sign x \<longleftrightarrow>
     (if td = 0 then x < 2 powi (1 - B)
      else rnd rm sign (x / 2 powi (\<lfloor>log 2 x\<rfloor> - p)) * 2 powi (\<lfloor>log 2 x\<rfloor> - p) < 2 powi (1 - B))"

definition rounds_to :: "nat \<Rightarrow> int \<Rightarrow> u8 \<Rightarrow> u8 \<Rightarrow> bool \<Rightarrow> real \<Rightarrow> nat \<Rightarrow> u8 \<Rightarrow> bool" where
  "rounds_to p B rm td sign x m fl \<longleftrightarrow>
     (if 2 powi (B + 1) \<le> rval p B rm sign x
      then int m = (2 * B + 1) * 2 ^ p -
             of_bool (\<not> (rm = 0 \<or> rm = 4 \<or> rm = (if sign then 2 else 3))) \<and> fl = 5
      else int m < (2 * B + 1) * 2 ^ p \<and> mval p B m = rval p B rm sign x \<and>
        fl = (if rval p B rm sign x = x then 0 else if tiny p B td rm sign x then 3 else 1))"

lemma floor_log2: "2 powi k \<le> x \<Longrightarrow> x < 2 powi (k + 1) \<Longrightarrow> \<lfloor>log 2 x\<rfloor> = k"
proof -
  assume a: "2 powi k \<le> x" "x < 2 powi (k + 1)"
  then have "0 < x" by (metis less_le_trans zero_less_numeral zero_less_power_int)
  with a show ?thesis
    by (intro floor_eq_iff [THEN iffD2]) (simp add: le_log_iff log_less_iff powr_real_of_int' powr_add powr_int power_int_add)
qed

definition rp_core :: "nat \<Rightarrow> nat \<Rightarrow> int \<Rightarrow> u8 \<Rightarrow> u8 \<Rightarrow> bool \<Rightarrow> int \<Rightarrow> nat \<Rightarrow> nat \<times> u8" where
  "rp_core p g B rm td sign e n =
     (if e < 0 then
        let n' = jam n (nat (- e));
            isTiny = (td = 0 \<or> e < -1 \<or> n + rp_inc g rm sign < 2 ^ (p + g + 1));
            rb = n' mod 2 ^ g
        in (rp_round g rm sign n', (if isTiny \<and> rb \<noteq> 0 then 2 else 0) OR (if rb \<noteq> 0 then 1 else 0))
      else if 2 * B - 1 < e \<or> e = 2 * B - 1 \<and> 2 ^ (p + g + 1) \<le> n + rp_inc g rm sign then
        (nat ((2 * B + 1) * 2 ^ p) - of_bool (rp_inc g rm sign = 0), 5)
      else (nat e * 2 ^ p + rp_round g rm sign n, if n mod 2 ^ g \<noteq> 0 then 1 else 0))"

lemma rnd_ge: "of_int a \<le> x \<Longrightarrow> a \<le> rnd rm sign x"
proof -
  assume "of_int a \<le> x"
  then have "a \<le> \<lfloor>x\<rfloor>" "a \<le> \<lceil>x\<rceil>" "a \<le> \<lfloor>x + 1 / 2\<rfloor>" by linarith+
  then show ?thesis by (auto simp: rnd_def)
qed

lemma rnd_le: "x \<le> of_int b \<Longrightarrow> rnd rm sign x \<le> b"
proof -
  assume b: "x \<le> of_int b"
  then have f: "\<lfloor>x\<rfloor> \<le> b" "\<lceil>x\<rceil> \<le> b" "\<lfloor>x + 1 / 2\<rfloor> \<le> b" by linarith+
  moreover have "\<lfloor>x\<rfloor> + 1 \<le> b" if "x \<noteq> \<lfloor>x\<rfloor>" using that b by linarith
  ultimately show ?thesis by (auto simp: rnd_def)
qed

lemma rnd_exact: "of_int (rnd rm sign x) = x \<longleftrightarrow> x = of_int \<lfloor>x\<rfloor>"
proof
  assume "x = of_int \<lfloor>x\<rfloor>"
  then show "of_int (rnd rm sign x) = x"
    using rnd_ge [of "\<lfloor>x\<rfloor>" x] rnd_le [of x "\<lfloor>x\<rfloor>"] by (metis antisym order_refl)
qed (metis floor_of_int)

lemma class_le: "same_class h x y \<Longrightarrow> 0 < h \<Longrightarrow> of_int k * h \<le> x \<longleftrightarrow> of_int k * h \<le> y"
  by (simp add: same_class_def le_floor_iff [symmetric] pos_le_divide_eq [symmetric])

lemma powi_shift: "a = b + int n \<Longrightarrow> (2::real) powi a = 2 powi b * 2 ^ n"
  by (simp add: power_int_add)

lemma mval_pack:
  assumes "q \<le> 2 ^ (p + 1)" "0 \<le> e" "e = 0 \<or> 2 ^ p \<le> q"
  shows "mval p B (nat e * 2 ^ p + q) = real q * 2 powi (e + 1 - B - p)"
proof (cases "q < 2 ^ p")
  case True
  with assms show ?thesis by (auto simp: mval_def)
next
  case False
  show ?thesis
  proof (cases "q = 2 ^ (p + 1)")
    case True
    have eq: "nat e * 2 ^ p + q = (nat e + 2) * 2 ^ p" by (simp add: True algebra_simps)
    have "(2::real) powi (int (nat e + 2) - B - int p) = 2 powi (e + 1 - B - int p) * 2 ^ 1"
      using assms(2) by (intro powi_shift) simp
    then show ?thesis unfolding eq by (simp add: mval_def True)
  next
    case f: False
    define r where "r = q - 2 ^ p"
    have r: "q = 2 ^ p + r" "r < 2 ^ p" using False f assms(1) by (auto simp: r_def)
    have eq: "nat e * 2 ^ p + q = (nat e + 1) * 2 ^ p + r" by (simp add: r)
    have "int (nat e + 1) - B - int p = e + 1 - B - int p" using assms(2) by simp
    moreover have "(k * 2 ^ p + r) div 2 ^ p = k" "(k * 2 ^ p + r) mod 2 ^ p = r" for k using r(2) by simp_all
    moreover have "\<not> (nat e + 1) * 2 ^ p + r < 2 ^ p" by simp
    ultimately show ?thesis unfolding eq mval_def by (simp only: if_False r(1))
  qed
qed

lemma rp_carry:
  assumes "0 < g"
  shows "2 ^ (p + 1) \<le> rp_round g rm sign n \<longleftrightarrow> 2 ^ (p + g + 1) \<le> n + rp_inc g rm sign"
proof -
  define q where "q = (n + rp_inc g rm sign) div 2 ^ g"
  have "2 ^ (p + g + 1) \<le> n + rp_inc g rm sign \<longleftrightarrow> 2 ^ (p + 1) \<le> q"
    unfolding q_def by (simp add: less_eq_div_iff_mult_less_eq power_add mult_ac)
  moreover have "2 ^ (p + 1) \<le> rp_round g rm sign n \<longleftrightarrow> 2 ^ (p + 1) \<le> q"
  proof -
    have "2 * 2 ^ p \<le> q - q mod 2 \<longleftrightarrow> 2 * 2 ^ p \<le> q" "even q \<Longrightarrow> 2 * 2 ^ p \<le> q + 1 \<longleftrightarrow> 2 * 2 ^ p \<le> q"
      for P :: nat by presburger+
    then show ?thesis unfolding rp_round_def Let_def q_def [symmetric] by auto
  qed
  ultimately show ?thesis by simp
qed

lemma pow_le_real: "2 ^ k \<le> real q \<longleftrightarrow> 2 ^ k \<le> q"
  by (metis of_nat_le_iff of_nat_numeral of_nat_power)

lemma real_le_pow: "real q \<le> 2 ^ k \<longleftrightarrow> q \<le> 2 ^ k"
  by (metis of_nat_le_iff of_nat_numeral of_nat_power)

lemma int_le_pow: "int q \<le> 2 ^ k \<longleftrightarrow> q \<le> 2 ^ k"
  by (metis of_nat_le_iff of_nat_numeral of_nat_power)

lemma pow_le_int: "2 ^ k \<le> int q \<longleftrightarrow> 2 ^ k \<le> q"
  by (metis of_nat_le_iff of_nat_numeral of_nat_power)

lemma nat_exact: "real n / 2 ^ g = of_int \<lfloor>real n / 2 ^ g\<rfloor> \<longleftrightarrow> n mod 2 ^ g = 0"
  using Ints_div_nat [of "2 ^ g" "real n"] Ints_floor_iff [of "real n / 2 ^ g"]
  by (simp add: dvd_eq_mod_eq_0 [symmetric]) (metis of_nat_dvd_iff of_nat_numeral of_nat_power)

text \<open>
  The situation at a call of a packing routine: the significand \<open>n\<close> has its leading bit at position
  \<open>p + g\<close> and agrees with the exact value \<open>y\<close> on every grid of half units; \<open>X\<close> is the number that
  is to be rounded.
\<close>

definition rp_input :: "nat \<Rightarrow> nat \<Rightarrow> int \<Rightarrow> int \<Rightarrow> nat \<Rightarrow> real \<Rightarrow> real \<Rightarrow> bool" where
  "rp_input p g B e n y X \<longleftrightarrow> 2 \<le> g \<and> 1 \<le> B \<and> 2 ^ (p + g) \<le> n \<and> n < 2 ^ (p + g + 1) \<and>
     same_class (2 ^ (g - 1)) y (real n) \<and> X = y * 2 powi (e + 1 - B - int (p + g))"

lemma half_unit: "0 < g \<Longrightarrow> (2::real) ^ g = 2 * 2 ^ (g - 1)"
  by (cases g) auto

lemma rp_input_range:
  assumes "rp_input p g B e n y X"
  shows "2 ^ (p + g) \<le> y" "y < 2 ^ (p + g + 1)"
    "2 powi (e + 1 - B) \<le> X" "X < 2 powi (e + 1 - B + 1)"
proof -
  note A = assms [unfolded rp_input_def]
  have H: "(2::real) ^ g = 2 * 2 ^ (g - 1)" using A by (intro half_unit) simp
  have H1: "of_int (2 ^ (p + 1)) * 2 ^ (g - 1) = (2::real) ^ (p + g)"
    and H2: "of_int (2 ^ (p + 2)) * 2 ^ (g - 1) = (2::real) ^ (p + g + 1)" using H by (simp_all add: power_add)
  have cl: "same_class (2 ^ (g - 1)) y (real n)" using A by simp
  have "real (2 ^ (p + g)) \<le> real n" "real n < real (2 ^ (p + g + 1))"
    using A by (simp_all only: of_nat_le_iff of_nat_less_iff)
  then show y: "2 ^ (p + g) \<le> y" "y < 2 ^ (p + g + 1)"
    using class_le [OF cl, of "2 ^ (p + 1)", unfolded H1] class_le [OF cl, of "2 ^ (p + 2)", unfolded H2] by auto
  have "(2::real) powi (e + 1 - B) = 2 powi (e + 1 - B - int (p + g)) * 2 ^ (p + g)"
    "(2::real) powi (e + 1 - B + 1) = 2 powi (e + 1 - B - int (p + g)) * 2 ^ (p + g + 1)"
    by (intro powi_shift; simp)+
  then show "2 powi (e + 1 - B) \<le> X" "X < 2 powi (e + 1 - B + 1)"
    using A y by (simp_all add: mult.commute)
qed

lemma rp_input_log: "rp_input p g B e n y X \<Longrightarrow> \<lfloor>log 2 X\<rfloor> = e + 1 - B"
  using floor_log2 [OF rp_input_range(3,4)] by blast

text \<open>Rounding to \<open>p + 1\<close> significant bits.\<close>

lemma rp_input_round:
  assumes "rp_input p g B e n y X"
  shows "X / 2 powi (e + 1 - B - p) = y / 2 ^ g"
    "rnd rm sign (y / 2 ^ g) = int (rp_round g rm sign n)"
    "y / 2 ^ g = of_int \<lfloor>y / 2 ^ g\<rfloor> \<longleftrightarrow> n mod 2 ^ g = 0"
proof -
  note A = assms [unfolded rp_input_def]
  have H: "(2::real) ^ g = 2 * 2 ^ (g - 1)" using A by (intro half_unit) simp
  have "2 powi (e + 1 - B - p) = 2 powi (e + 1 - B - int (p + g)) * (2::real) ^ g" by (intro powi_shift) simp
  then show "X / 2 powi (e + 1 - B - p) = y / 2 ^ g" using A by (simp add: field_simps)
  have cl: "same_class (1 / 2) (y / 2 ^ g) (real n / 2 ^ g)"
    using A same_class_scale [of "1 / 2 ^ g" "2 ^ (g - 1)" y "real n"] by (simp add: H)
  show "rnd rm sign (y / 2 ^ g) = int (rp_round g rm sign n)"
    using rp_round_rnd [of g rm sign n] rnd_class [OF cl, of rm sign] A by simp
  show "y / 2 ^ g = of_int \<lfloor>y / 2 ^ g\<rfloor> \<longleftrightarrow> n mod 2 ^ g = 0"
    unfolding exact_class [OF cl] nat_exact ..
qed

lemma rp_round_range:
  assumes "rp_input p g B e n y X"
  shows "2 ^ p \<le> rp_round g rm sign n" "rp_round g rm sign n \<le> 2 ^ (p + 1)"
    "2 powi (e + 1 - B) \<le> real (rp_round g rm sign n) * 2 powi (e + 1 - B - p)"
    "real (rp_round g rm sign n) * 2 powi (e + 1 - B - p) \<le> 2 powi (e + 2 - B)"
proof -
  let ?q = "rp_round g rm sign n"
  have "of_int (2 ^ p) \<le> y / 2 ^ g" "y / 2 ^ g \<le> of_int (2 ^ (p + 1))"
    using rp_input_range(1,2) [OF assms] by (simp_all add: field_simps power_add)
  from rnd_ge [OF this(1), of rm sign] rnd_le [OF this(2), of rm sign]
  have "2 ^ p \<le> int ?q" "int ?q \<le> 2 ^ (p + 1)" unfolding rp_input_round(2) [OF assms] by simp_all
  then show b: "2 ^ p \<le> ?q" "?q \<le> 2 ^ (p + 1)" by (simp_all only: int_le_pow pow_le_int)
  show "2 powi (e + 1 - B) \<le> real ?q * 2 powi (e + 1 - B - p)"
    using b(1) powi_shift [of "e + 1 - B" "e + 1 - B - p" p] by (simp add: pow_le_real mult.commute)
  show "real ?q * 2 powi (e + 1 - B - p) \<le> 2 powi (e + 2 - B)"
    using b(2) powi_shift [of "e + 2 - B" "e + 1 - B - p" "p + 1"] real_le_pow [of ?q "p + 1"]
    by (simp add: mult.commute)
qed

text \<open>A value below the normal range: the significand is shifted right by \<open>- e\<close> with jamming.\<close>

lemma rp_input_shift:
  assumes "rp_input p g B e n y X" "e < 0"
  defines "d \<equiv> nat (- e)"
  shows "X / 2 powi (1 - B - p) = y / 2 ^ d / 2 ^ g"
    "rnd rm sign (y / 2 ^ d / 2 ^ g) = int (rp_round g rm sign (jam n d))"
    "y / 2 ^ d / 2 ^ g = of_int \<lfloor>y / 2 ^ d / 2 ^ g\<rfloor> \<longleftrightarrow> jam n d mod 2 ^ g = 0"
proof -
  note A = assms(1) [unfolded rp_input_def]
  have H: "(2::real) ^ g = 2 * 2 ^ (g - 1)" using A by (intro half_unit) simp
  have "2 powi (1 - B - p) = 2 powi (e + 1 - B - int (p + g)) * (2::real) ^ (d + g)"
    using assms(2) by (intro powi_shift) (simp add: d_def)
  then show "X / 2 powi (1 - B - p) = y / 2 ^ d / 2 ^ g" using A by (simp add: field_simps power_add)
  have "same_class (2 ^ (g - 1) * real (2 ^ d)) y (real n)" using A by (intro same_class_coarse) auto
  then have "same_class (2 ^ (g - 1)) (y / 2 ^ d) (real n / 2 ^ d)"
    using same_class_scale [of "1 / 2 ^ d" "2 ^ (g - 1) * 2 ^ d" y "real n"] by simp
  moreover have "same_class (2 * real (2 ^ (g - 2))) (real n / 2 ^ d) (real (jam n d))"
    by (rule same_class_coarse [OF jam_class]) simp
  moreover have "2 * real (2 ^ (g - 2)) = 2 ^ (g - 1)" using A half_unit [of "g - 1"] by simp
  ultimately have "same_class (2 ^ (g - 1)) (y / 2 ^ d) (real (jam n d))" by (metis same_class_trans)
  then have cl: "same_class (1 / 2) (y / 2 ^ d / 2 ^ g) (real (jam n d) / 2 ^ g)"
    using same_class_scale [of "1 / 2 ^ g" "2 ^ (g - 1)" "y / 2 ^ d" "real (jam n d)"] by (simp add: H mult_ac)
  show "rnd rm sign (y / 2 ^ d / 2 ^ g) = int (rp_round g rm sign (jam n d))"
    using rp_round_rnd [of g rm sign "jam n d"] rnd_class [OF cl, of rm sign] A by simp
  show "y / 2 ^ d / 2 ^ g = of_int \<lfloor>y / 2 ^ d / 2 ^ g\<rfloor> \<longleftrightarrow> jam n d mod 2 ^ g = 0"
    unfolding exact_class [OF cl] nat_exact ..
qed

lemma rval_eq_iff:
  assumes "rval p B rm sign X = real_of_int (rnd rm sign (X / 2 powi c)) * 2 powi c"
  shows "rval p B rm sign X = X \<longleftrightarrow> X / 2 powi c = of_int \<lfloor>X / 2 powi c\<rfloor>"
proof -
  have "rval p B rm sign X = X \<longleftrightarrow> real_of_int (rnd rm sign (X / 2 powi c)) = X / 2 powi c"
    unfolding assms by (simp add: eq_divide_eq)
  then show ?thesis unfolding rnd_exact .
qed

lemma rp_tiny:
  assumes "rp_input p g B e n y X" "e < 0"
  shows "tiny p B td rm sign X \<longleftrightarrow> td = 0 \<or> e < -1 \<or> n + rp_inc g rm sign < 2 ^ (p + g + 1)"
proof -
  let ?q = "rp_round g rm sign n"
  have g: "0 < g" using assms(1) by (simp add: rp_input_def)
  have X1: "X < 2 powi (1 - B)"
    using rp_input_range(4) [OF assms(1)] power_int_increasing [of "e + 1 - B + 1" "1 - B" "2::real"] assms(2) by simp
  have "real ?q * 2 powi (e + 1 - B - p) < 2 powi (1 - B) \<longleftrightarrow> e < -1 \<or> ?q < 2 ^ (p + 1)"
  proof (cases "e < -1")
    case True
    with rp_round_range(4) [OF assms(1), of rm sign] power_int_strict_increasing [of "e + 2 - B" "1 - B" "2::real"]
    show ?thesis by simp
  next
    case False
    then have "2 powi (1 - B) = 2 powi (e + 1 - B - p) * (2::real) ^ (p + 1)"
      using assms(2) by (intro powi_shift) simp
    then have "2 powi (1 - B) \<le> real ?q * 2 powi (e + 1 - B - p) \<longleftrightarrow> 2 ^ (p + 1) \<le> real ?q"
      by (simp add: mult.commute [of "real ?q"])
    then show ?thesis using False pow_le_real [of "p + 1" ?q] by (meson not_le)
  qed
  moreover have "?q < 2 ^ (p + 1) \<longleftrightarrow> n + rp_inc g rm sign < 2 ^ (p + g + 1)"
    using rp_carry [OF g, of p rm sign n] by (meson not_le)
  ultimately show ?thesis
    using X1 rp_input_round(1,2) [OF assms(1)] rp_input_log [OF assms(1)] by (auto simp: tiny_def)
qed

lemma rp_core_subnormal:
  assumes inp: "rp_input p g B e n y X" and e: "e < 0"
    and core: "rp_core p g B rm td sign e n = (m, fl)"
  shows "rounds_to p B rm td sign X m fl"
proof -
  define n' where "n' = jam n (nat (- e))"
  define q where "q = rp_round g rm sign n'"
  have B: "1 \<le> B" using inp by (simp add: rp_input_def)
  have fe: "fexp p B X = 1 - B - p" using e rp_input_log [OF inp] by (simp add: fexp_def)
  note sh = rp_input_shift [OF inp e, folded n'_def]
  have rv: "rval p B rm sign X = real q * 2 powi (1 - B - p)"
    unfolding rval_def fe sh q_def by simp
  have X1: "X \<le> 2 powi (1 - B)"
    using rp_input_range(4) [OF inp] power_int_increasing [of "e + 1 - B + 1" "1 - B" "2::real"] e by simp
  have P: "2 powi (1 - B) = 2 powi (1 - B - p) * (2::real) ^ p" by (intro powi_shift) simp
  then have "X \<le> of_int (2 ^ p) * 2 powi (1 - B - p)" using X1 by (metis mult.commute of_int_power of_int_numeral)
  then have "X / 2 powi (1 - B - p) \<le> of_int (2 ^ p)" by (rule pos_divide_le_eq [THEN iffD2, rotated]) simp
  from rnd_le [OF this, of rm sign] have q_le: "q \<le> 2 ^ p" unfolding sh q_def by (simp only: int_le_pow)
  have exact: "rval p B rm sign X = X \<longleftrightarrow> n' mod 2 ^ g = 0"
    using rval_eq_iff [of p B rm sign X "1 - B - p"] rv sh by (simp add: q_def del: divide_divide_eq_left)
  have "rval p B rm sign X \<le> 2 powi (1 - B)" using q_le P by (simp add: rv real_le_pow mult.commute)
  also have "\<dots> < 2 powi (B + 1)" using B by (intro power_int_strict_increasing) auto
  finally have nov: "\<not> 2 powi (B + 1) \<le> rval p B rm sign X" by simp
  have mv: "mval p B q = rval p B rm sign X"
    unfolding rv using mval_pack [of q p 0 B] q_le by simp
  have m: "m = q" "fl = (if (td = 0 \<or> e < -1 \<or> n + rp_inc g rm sign < 2 ^ (p + g + 1)) \<and> n' mod 2 ^ g \<noteq> 0
      then 2 else 0) OR (if n' mod 2 ^ g \<noteq> 0 then 1 else 0)"
    using core e by (simp_all add: rp_core_def Let_def n'_def q_def)
  have "int q \<le> 1 * 2 ^ p" using q_le by (simp add: int_le_pow)
  also have "\<dots> < (2 * B + 1) * 2 ^ p" using B by (intro mult_strict_right_mono) auto
  finally have "int m < (2 * B + 1) * 2 ^ p" using m by simp
  then show ?thesis using nov mv m exact rp_tiny [OF inp e] by (simp add: rounds_to_def)
qed

lemma rp_overflow:
  assumes inp: "rp_input p g B e n y X" and rv: "rval p B rm sign X = real (rp_round g rm sign n) * 2 powi (e + 1 - B - p)"
  shows "2 powi (B + 1) \<le> rval p B rm sign X \<longleftrightarrow>
    2 * B - 1 < e \<or> e = 2 * B - 1 \<and> 2 ^ (p + g + 1) \<le> n + rp_inc g rm sign"
proof (cases rule: linorder_cases [of e "2 * B - 1"])
  let ?q = "rp_round g rm sign n"
  case less
  have "real ?q * 2 powi (e + 1 - B - p) \<le> 2 powi (e + 2 - B)" by (rule rp_round_range [OF inp])
  also have "\<dots> < 2 powi (B + 1)" using less by (intro power_int_strict_increasing) auto
  finally show ?thesis using less by (simp add: rv)
next
  let ?q = "rp_round g rm sign n"
  case equal
  have "2 powi (B + 1) = 2 powi (e + 1 - B - p) * (2::real) ^ (p + 1)" using equal by (intro powi_shift) simp
  then have "2 powi (B + 1) \<le> rval p B rm sign X \<longleftrightarrow> 2 ^ (p + 1) \<le> real ?q"
    unfolding rv by (simp add: mult.commute [of "real ?q"])
  also have "\<dots> \<longleftrightarrow> 2 ^ (p + 1) \<le> ?q" by (rule pow_le_real)
  finally show ?thesis using equal rp_carry [of g p rm sign n] inp by (simp add: rp_input_def)
next
  case greater
  have "2 powi (B + 1) \<le> (2::real) powi (e + 1 - B)" using greater by (intro power_int_increasing) auto
  with rp_round_range(3) [OF inp, of rm sign] greater show ?thesis by (simp add: rv)
qed

lemma rp_normal_bound:
  assumes inp: "rp_input p g B e n y X" and e: "0 \<le> e" "\<not> 2 * B - 1 < e"
    and nc: "e = 2 * B - 1 \<Longrightarrow> rp_round g rm sign n < 2 ^ (p + 1)"
  shows "int (nat e * 2 ^ p + rp_round g rm sign n) < (2 * B + 1) * 2 ^ p"
proof (cases "e = 2 * B - 1")
  case True
  from nc [OF True] have "\<not> 2 ^ (p + 1) \<le> int (rp_round g rm sign n)" by (simp only: pow_le_int not_le)
  then have "int (rp_round g rm sign n) < 2 * 2 ^ p" by simp
  moreover have "int (nat e * 2 ^ p + rp_round g rm sign n) = (2 * B - 1) * 2 ^ p + int (rp_round g rm sign n)"
    using True e by simp
  ultimately show ?thesis by (simp add: algebra_simps)
next
  case False
  then have "e * 2 ^ p \<le> (2 * B - 2) * 2 ^ p" using e by (intro mult_right_mono) auto
  moreover have "int (rp_round g rm sign n) \<le> 2 * 2 ^ p"
    using rp_round_range(2) [OF inp, of rm sign] int_le_pow [of "rp_round g rm sign n" "p + 1"] by simp
  ultimately have "int (nat e * 2 ^ p + rp_round g rm sign n) \<le> 2 * B * 2 ^ p" using e by (simp add: algebra_simps)
  also have "\<dots> < (2 * B + 1) * 2 ^ p" by simp
  finally show ?thesis .
qed

lemma rp_core_normal:
  assumes inp: "rp_input p g B e n y X" and e: "\<not> e < 0"
    and core: "rp_core p g B rm td sign e n = (m, fl)"
  shows "rounds_to p B rm td sign X m fl"
proof -
  define q where "q = rp_round g rm sign n"
  have B: "1 \<le> B" and g: "0 < g" "1 < g" using inp by (simp_all add: rp_input_def)
  have fe: "fexp p B X = e + 1 - B - p" using e rp_input_log [OF inp] by (simp add: fexp_def)
  note r = rp_input_round [OF inp]
  have rv: "rval p B rm sign X = real q * 2 powi (e + 1 - B - p)" by (simp add: rval_def fe r q_def)
  note ov = rp_overflow [OF inp rv [unfolded q_def]]
  have exact: "rval p B rm sign X = X \<longleftrightarrow> n mod 2 ^ g = 0"
    using rval_eq_iff [of p B rm sign X "e + 1 - B - p"] rv r by (simp add: q_def)
  have ge1: "2 powi (1 - B) \<le> (2::real) powi (e + 1 - B)" using e by (intro power_int_increasing) auto
  have nt: "\<not> tiny p B td rm sign X"
    using rp_input_range(3) [OF inp] ge1 rp_round_range(3) [OF inp, of rm sign]
    by (auto simp: tiny_def rp_input_log [OF inp] r)
  have inc0: "rp_inc g rm sign = 0 \<longleftrightarrow> \<not> (rm = 0 \<or> rm = 4 \<or> rm = (if sign then 2 else 3))"
    using g one_less_power [of "2::nat" g] by (auto simp: rp_inc_def)
  show ?thesis
  proof (cases "2 powi (B + 1) \<le> rval p B rm sign X")
    case over: True
    have "0 < (2 * B + 1) * 2 ^ p" using B by simp
    then have "int (nat ((2 * B + 1) * 2 ^ p) - of_bool c) = (2 * B + 1) * 2 ^ p - of_bool c" for c by auto
    moreover have "m = nat ((2 * B + 1) * 2 ^ p) - of_bool (rp_inc g rm sign = 0)" "fl = 5"
      using over [unfolded ov] e core by (auto simp: rp_core_def)
    ultimately show ?thesis using over by (simp only: rounds_to_def inc0 if_True)
  next
    case nov: False
    have m: "m = nat e * 2 ^ p + q" "fl = (if n mod 2 ^ g \<noteq> 0 then 1 else 0)"
      using nov [unfolded ov] e core by (simp_all add: rp_core_def q_def split: if_splits)
    have "int m < (2 * B + 1) * 2 ^ p" unfolding m q_def
      by (rule rp_normal_bound [OF inp]) (use nov [unfolded ov] e rp_carry [OF g(1), of p rm sign n] in auto)
    moreover have "mval p B m = rval p B rm sign X"
      unfolding m rv using e rp_round_range(1,2) [OF inp] by (intro mval_pack) (auto simp: q_def)
    ultimately show ?thesis using nov nt exact m(2) by (simp add: rounds_to_def)
  qed
qed

text \<open>
  The packing algorithm is correctly rounded: it returns the encoding of the exact value rounded in
  the given mode to the format, and the flags of the standard.
\<close>

lemma rp_core_correct:
  "rp_input p g B e n y X \<Longrightarrow> rp_core p g B rm td sign e n = (m, fl) \<Longrightarrow> rounds_to p B rm td sign X m fl"
  using rp_core_subnormal rp_core_normal by (cases "e < 0") metis+

end
