(* ===== verification/SF_Primitives.thy ===== *)
theory SF_Primitives
  imports SF_Core Rounding
begin

text \<open>
  The integer primitives of softfloat as functions on natural numbers: the shifts that jam lost bits
  into the lowest bit compute \<open>jam\<close>, the table-driven leading-zero counts normalise their argument,
  and the 128-bit addition, subtraction and multiplication from 64-bit words are exact.
\<close>

lemma unat_drop_bit [simp]: "unat (drop_bit n (a :: 'a::len word)) = unat a div 2 ^ n"
proof -
  have "unat (drop_bit n a) = drop_bit n (unat a)" by (rule unat_drop_bit_eq)
  then show ?thesis by (simp add: drop_bit_eq_div)
qed

lemma unat_push_bit: "unat (push_bit n (a :: 'a::len word)) = unat a * 2 ^ n mod 2 ^ LENGTH('a)"
proof -
  have "unat (push_bit n a) = take_bit LENGTH('a) (push_bit n (unat a))"
    by (simp add: unsigned_push_bit_eq)
  then show ?thesis by (simp add: take_bit_eq_mod push_bit_eq_mult)
qed

lemma unat_push_bit_small:
  "unat (a :: 'a::len word) * 2 ^ n < 2 ^ LENGTH('a) \<Longrightarrow> unat (push_bit n a) = unat a * 2 ^ n"
  by (simp add: unat_push_bit)

lemma unat_and_mask: "unat ((a :: 'a::len word) AND mask n) = unat a mod 2 ^ n"
proof -
  have "unat (take_bit n a) = take_bit n (unat a)" by (simp add: unsigned_take_bit_eq)
  then show ?thesis by (metis take_bit_eq_mask take_bit_eq_mod)
qed

lemma unat_or_bool:
  "unat ((a :: 'a::len word) OR of_bool b) = (if b \<and> even (unat a) then unat a + 1 else unat a)"
  by (simp add: unsigned_or_eq or_Suc_0_eq)

lemma word_eq_0_unat: "(a :: 'a::len word) = 0 \<longleftrightarrow> unat a = 0"
  by (simp add: unat_eq_0)

lemma shortShiftRightJam64: 
  assumes "d < 64"
  shows "unat (softfloat_shortShiftRightJam64 a d) = jam (unat a) d"
proof -
  have "push_bit d (1::u64) - 1 = mask d"
    by (simp add: mask_eq_exp_minus_1 push_bit_eq_mult)
  then have "(a AND (push_bit d 1 - 1) \<noteq> 0) \<longleftrightarrow> \<not> 2 ^ d dvd unat a"
    by (metis word_eq_0_unat unat_and_mask dvd_eq_mod_eq_0)
  then show ?thesis
    by (auto simp: softfloat_shortShiftRightJam64_def jam_def unat_or_bool)
qed

lemma jam_small: "n < 2 ^ Suc d \<Longrightarrow> jam n d = of_bool (n \<noteq> 0)"
proof -
  assume n: "n < 2 ^ Suc d"
  then have q: "n div 2 ^ d = 0 \<or> n div 2 ^ d = 1"
    using less_mult_imp_div_less [of n 2 "2 ^ d"] by auto
  show ?thesis
  proof (cases "n div 2 ^ d = 0")
    case True
    then have "n < 2 ^ d" by (simp add: div_eq_0_iff)
    then have "2 ^ d dvd n \<longleftrightarrow> n = 0" by (auto dest: dvd_imp_le)
    then show ?thesis using True by (simp add: jam_def)
  next
    case False
    with q have "n div 2 ^ d = 1" by simp
    moreover from this have "n \<noteq> 0" by (metis div_0 zero_neq_one)
    ultimately show ?thesis by (simp add: jam_def)
  qed
qed

lemma neg_and_mask:
  assumes "0 < unat (d :: 'a::len word)" "unat d < 2 ^ n" "n < LENGTH('a)"
  shows "unat (- d AND mask n) = 2 ^ n - unat d"
proof -
  have lt: "(2::nat) ^ n < 2 ^ LENGTH('a)" using assms(3) by simp
  have dv: "(2::nat) ^ n dvd 2 ^ LENGTH('a)" using assms(3) by (simp add: le_imp_power_dvd)
  have "unat (- d) = 2 ^ LENGTH('a) - unat d"
    by (rule unat_neg [OF assms(1)])
  then have "unat (- d AND mask n) = (2 ^ LENGTH('a) - unat d) mod 2 ^ n"
    by (simp add: unat_and_mask)
  also have "\<dots> = ((2 ^ LENGTH('a) - 2 ^ n) + (2 ^ n - unat d)) mod 2 ^ n"
    using assms(2) lt by simp
  also have "\<dots> = (2 ^ n - unat d) mod 2 ^ n"
    using dv by (metis dvd_diff_nat dvd_refl mod_add_left_eq add_0 dvd_imp_mod_0)
  finally show ?thesis using assms(1) by simp
qed

lemma push_bit_zero_iff:
  assumes "k \<le> LENGTH('a)"
  shows "push_bit (LENGTH('a) - k) (a :: 'a::len word) = 0 \<longleftrightarrow> 2 ^ k dvd unat a"
proof -
  have "push_bit (LENGTH('a) - k) a = 0 \<longleftrightarrow> 2 ^ k * 2 ^ (LENGTH('a) - k) dvd unat a * 2 ^ (LENGTH('a) - k)"
    using assms by (simp add: word_eq_0_unat unat_push_bit dvd_eq_mod_eq_0 flip: power_add)
  then show ?thesis by simp
qed

lemma jam_word:
  fixes a :: "'a::len word" and d :: "'b::len word"
  assumes "LENGTH('a) = 2 ^ n" "n < LENGTH('b)" "0 < unat d" "unat d < 2 ^ n"
  shows "unat (drop_bit (unat d) a OR of_bool (push_bit (unat (- d AND mask n)) a \<noteq> 0)) =
    jam (unat a) (unat d)"
proof -
  have "push_bit (unat (- d AND mask n)) a = 0 \<longleftrightarrow> 2 ^ unat d dvd unat a"
    using push_bit_zero_iff [of "unat d" a] assms by (simp add: neg_and_mask)
  then show ?thesis by (auto simp: jam_def unat_or_bool)
qed

lemma jam_word_big:
  assumes "LENGTH('a) \<le> Suc d"
  shows "jam (unat (a :: 'a::len word)) d = of_bool (a \<noteq> 0)"
proof -
  have "unat a < 2 ^ Suc d"
    using less_le_trans [OF unat_lt2p [of a]] assms by (metis one_le_numeral power_increasing)
  from jam_small [OF this] show ?thesis by (simp add: word_eq_0_unat)
qed

lemma shiftRightJam32:
  assumes "d \<noteq> 0"
  shows "unat (softfloat_shiftRightJam32 a d) = jam (unat a) (unat d)"
  using assms jam_word [where a = a and n = 5 and d = d] jam_word_big [of "unat d" a]
  by (auto simp: softfloat_shiftRightJam32_def unat_gt_0 word_less_nat_alt mask_eq_exp_minus_1)

lemma shiftRightJam64:
  assumes "d \<noteq> 0"
  shows "unat (softfloat_shiftRightJam64 a d) = jam (unat a) (unat d)"
  using assms jam_word [where a = a and n = 6 and d = d] jam_word_big [of "unat d" a]
  by (auto simp: softfloat_shiftRightJam64_def unat_gt_0 word_less_nat_alt mask_eq_exp_minus_1)

lemma clz8_table:
  "list_all (\<lambda>i. let t = softfloat_countLeadingZeros8 ! i
     in t \<le> 7 \<and> 128 \<le> i * 2 ^ t \<and> (i + 1) * 2 ^ t \<le> 256) [1..<256]"
  by code_simp

lemma clz8_zero: "softfloat_countLeadingZeros8 ! 0 = 8"
  by (simp add: softfloat_countLeadingZeros8_def)

lemma clz8_entry:
  assumes "0 < i" "i < 256"
  shows "softfloat_countLeadingZeros8 ! i \<le> 7"
    "128 \<le> i * 2 ^ (softfloat_countLeadingZeros8 ! i)"
    "(i + 1) * 2 ^ (softfloat_countLeadingZeros8 ! i) \<le> 256"
  using clz8_table assms by (auto simp: list_all_iff Let_def)

text \<open>A count of leading zeros \<open>c\<close> of a value of \<open>w\<close> bits moves its leading one to the top.\<close>

definition clz_ok :: "nat \<Rightarrow> nat \<Rightarrow> nat \<Rightarrow> bool" where
  "clz_ok w n c \<longleftrightarrow> (if n = 0 then c = w else 2 ^ (w - 1) \<le> n * 2 ^ c \<and> n * 2 ^ c < 2 ^ w)"

lemma clz8_top:
  assumes "2 ^ k \<le> y" "y < 2 ^ (k + 8)"
  shows "clz_ok (k + 8) y (softfloat_countLeadingZeros8 ! (y div 2 ^ k))"
proof -
  define i t where "i = y div 2 ^ k" and "t = softfloat_countLeadingZeros8 ! i"
  have "y div 2 ^ k < 256" using assms(2) by (intro less_mult_imp_div_less) (simp add: power_add mult.commute)
  moreover have "0 < i" using assms(1) by (simp add: i_def div_greater_zero_iff)
  ultimately have t: "t \<le> 7" "128 \<le> i * 2 ^ t" "(i + 1) * 2 ^ t \<le> 256"
    using clz8_entry [of i] by (auto simp: t_def i_def)
  have y: "i * 2 ^ k \<le> y" "y < (i + 1) * 2 ^ k"
    by (simp_all add: i_def) (metis dividend_less_times_div mult.commute add.commute mult_Suc zero_less_numeral zero_less_power)
  have "128 * 2 ^ k \<le> (i * 2 ^ t) * 2 ^ k" using t(2) by (rule mult_le_mono1)
  also have "\<dots> = (i * 2 ^ k) * 2 ^ t" by (simp add: mult_ac)
  also have "\<dots> \<le> y * 2 ^ t" using y(1) by (rule mult_le_mono1)
  finally have lo: "2 ^ (k + 7) \<le> y * 2 ^ t" by (simp add: power_add mult.commute)
  have "y * 2 ^ t < ((i + 1) * 2 ^ k) * 2 ^ t" using y(2) by simp
  also have "\<dots> = ((i + 1) * 2 ^ t) * 2 ^ k" by (simp only: mult_ac)
  also have "\<dots> \<le> 256 * 2 ^ k" using t(3) by (rule mult_le_mono1)
  finally have "y * 2 ^ t < 2 ^ (k + 8)" by (simp add: power_add mult.commute)
  moreover have "y \<noteq> 0" using \<open>0 < i\<close> by (metis div_0 i_def less_irrefl)
  ultimately show ?thesis
    using lo unfolding i_def [symmetric] t_def [symmetric] by (simp add: clz_ok_def add.commute)
qed

lemma clz_ok_less: "clz_ok w n c \<Longrightarrow> n \<noteq> 0 \<Longrightarrow> c < w"
proof -
  assume "clz_ok w n c" "n \<noteq> 0"
  then have "n * 2 ^ c < 2 ^ w" by (simp add: clz_ok_def)
  moreover have "2 ^ c \<le> n * 2 ^ c" using \<open>n \<noteq> 0\<close> by simp
  ultimately have "(2::nat) ^ c < 2 ^ w" by linarith
  then show "c < w" by simp
qed

lemma clz_ok_shift: "clz_ok w (n * 2 ^ m) c \<Longrightarrow> n \<noteq> 0 \<Longrightarrow> clz_ok w n (m + c)"
  by (simp add: clz_ok_def power_add mult_ac)

lemma clz_ok_high:
  assumes "clz_ok w (n div 2 ^ k) c" "n div 2 ^ k \<noteq> 0"
  shows "clz_ok (w + k) n c"
proof -
  have c: "c < w" by (rule clz_ok_less [OF assms])
  have b: "2 ^ (w - 1) \<le> n div 2 ^ k * 2 ^ c" "n div 2 ^ k * 2 ^ c < 2 ^ w"
    using assms by (auto simp: clz_ok_def)
  have "2 ^ (w - 1) * 2 ^ k \<le> (n div 2 ^ k * 2 ^ c) * 2 ^ k" using b(1) by (rule mult_le_mono1)
  also have "\<dots> = (n div 2 ^ k * 2 ^ k) * 2 ^ c" by (simp add: mult_ac)
  also have "\<dots> \<le> n * 2 ^ c" by (rule mult_le_mono1) simp
  finally have lo: "2 ^ (w - 1 + k) \<le> n * 2 ^ c" by (simp add: power_add)
  have "n div 2 ^ k < 2 ^ (w - c)"
  proof -
    have "(2::nat) ^ w = 2 ^ (w - c) * 2 ^ c" using c by (simp flip: power_add)
    with b(2) show ?thesis by simp
  qed
  then have "n < 2 ^ (w - c) * 2 ^ k" by (simp add: div_less_iff_less_mult)
  then have "n * 2 ^ c < 2 ^ (w - c) * 2 ^ k * 2 ^ c" by simp
  also have "\<dots> = 2 ^ (w + k)" using c by (simp flip: power_add)
  finally have "n * 2 ^ c < 2 ^ (w + k)" .
  moreover have "n \<noteq> 0" using assms(2) by (metis div_0)
  ultimately show ?thesis using lo c by (simp add: clz_ok_def)
qed

lemma clz32_body:
  assumes "unat (a :: u32) \<noteq> 0"
  shows "clz_ok 32 (unat a)
    (let (count, a) = (if a < 0x10000 then (16, push_bit 16 a) else (0, a));
          (count, a) = (if a < 0x1000000 then (count + 8, push_bit 8 a) else (count, a))
      in count + softfloat_countLeadingZeros8 ! unat (drop_bit 24 a))"
proof -
  have step: "clz_ok 32 n (m + softfloat_countLeadingZeros8 ! (n * 2 ^ m div 2 ^ 24))"
    if "n \<noteq> 0" "2 ^ 24 \<le> n * 2 ^ m" "n * 2 ^ m < 2 ^ 32" for n m :: nat
    using clz8_top [of 24 "n * 2 ^ m"] that by (intro clz_ok_shift) simp_all
  have lt: "unat a < 2 ^ 32" using unat_lt2p [of a] by simp
  show ?thesis
    using assms lt step [of "unat a" 0] step [of "unat a" 8] step [of "unat a" 16] step [of "unat a" 24]
    by (auto simp: Let_def word_less_nat_alt unat_push_bit split: if_splits)
qed

lemma countLeadingZeros32: "clz_ok 32 (unat a) (softfloat_countLeadingZeros32 a)"
proof (cases "unat a = 0")
  case True
  then have "a = 0" by (simp add: word_eq_0_unat)
  then show ?thesis by (simp add: clz_ok_def softfloat_countLeadingZeros32_def clz8_zero)
next
  case False
  from clz32_body [OF this] show ?thesis by (simp add: softfloat_countLeadingZeros32_def)
qed

lemma countLeadingZeros64_split:
  "softfloat_countLeadingZeros64 a =
    (if ucast (drop_bit 32 a) = (0 :: u32) then 32 + softfloat_countLeadingZeros32 (ucast a)
     else softfloat_countLeadingZeros32 (ucast (drop_bit 32 a)))"
  by (simp add: softfloat_countLeadingZeros64_def softfloat_countLeadingZeros32_def Let_def)

lemma countLeadingZeros64: "clz_ok 64 (unat a) (softfloat_countLeadingZeros64 a)"
proof -
  have lt: "unat a < 2 ^ 64" using unat_lt2p [of a] by simp
  then have hi: "unat (ucast (drop_bit 32 a) :: u32) = unat a div 2 ^ 32"
    by (simp add: unsigned_ucast_eq take_bit_eq_mod less_mult_imp_div_less)
  show ?thesis
  proof (cases "unat a div 2 ^ 32 = 0")
    case True
    then have small: "unat (ucast a :: u32) = unat a"
      by (simp add: unsigned_ucast_eq take_bit_eq_mod div_eq_0_iff)
    from True hi have "softfloat_countLeadingZeros64 a = 32 + softfloat_countLeadingZeros32 (ucast a)"
      by (simp add: countLeadingZeros64_split word_eq_0_unat)
    moreover have "clz_ok 32 (unat a) (softfloat_countLeadingZeros32 (ucast a))"
      using countLeadingZeros32 [of "ucast a"] small by simp
    ultimately show ?thesis by (auto simp: clz_ok_def power_add)
  next
    case False
    with hi have "softfloat_countLeadingZeros64 a = softfloat_countLeadingZeros32 (ucast (drop_bit 32 a))"
      by (simp add: countLeadingZeros64_split word_eq_0_unat)
    then show ?thesis
      using clz_ok_high [of 32 "unat a" 32] countLeadingZeros32 [of "ucast (drop_bit 32 a)"] hi False by simp
  qed
qed

lemma countLeadingZeros16: "clz_ok 16 (unat a) (softfloat_countLeadingZeros16 a)"
proof -
  have lt: "unat a < 2 ^ 16" using unat_lt2p [of a] by simp
  show ?thesis
  proof (cases "0x100 \<le> a")
    case True
    then have "2 ^ 8 \<le> unat a" by (simp add: word_le_nat_alt)
    with clz8_top [of 8 "unat a"] lt True show ?thesis
      by (simp add: softfloat_countLeadingZeros16_def)
  next
    case False
    then have a: "unat a < 256" by (simp add: word_le_nat_alt)
    show ?thesis
    proof (cases "unat a = 0")
      case True
      with False show ?thesis by (simp add: softfloat_countLeadingZeros16_def clz8_zero clz_ok_def)
    next
      case nz: False
      with clz8_top [of 0 "unat a"] a have "clz_ok 8 (unat a) (softfloat_countLeadingZeros8 ! unat a)" by simp
      with nz False show ?thesis
        by (auto simp: softfloat_countLeadingZeros16_def clz_ok_def power_add)
    qed
  qed
qed

section \<open>Words of 128 bits\<close>

definition u128_val :: "uint128 \<Rightarrow> nat" where
  "u128_val z = unat (u128_v64 z) * 2 ^ 64 + unat (u128_v0 z)"

abbreviation (input) join128 :: "u64 \<Rightarrow> u64 \<Rightarrow> nat" where
  "join128 a64 a0 \<equiv> unat a64 * 2 ^ 64 + unat a0"

lemma join_mod: "y < 2 ^ n \<Longrightarrow> (x mod 2 ^ m) * 2 ^ n + y = (x * 2 ^ n + y) mod (2 ^ (m + n) :: nat)"
proof -
  assume y: "y < 2 ^ n"
  have "(x * 2 ^ n + y) mod 2 ^ (m + n) = 2 ^ n * ((x * 2 ^ n + y) div 2 ^ n mod 2 ^ m) + (x * 2 ^ n + y) mod 2 ^ n"
    by (simp add: power_add mult.commute [of "2 ^ m"] mod_mult2_eq)
  also have "\<dots> = (x mod 2 ^ m) * 2 ^ n + y" using y by simp
  finally show ?thesis ..
qed

lemma unat_plus: "unat (a + b :: 'a::len word) = (unat a + unat b) mod 2 ^ LENGTH('a)"
  by (simp add: unat_word_ariths)

lemma add_mod_cases: "x < N \<Longrightarrow> y < N \<Longrightarrow> (x + y) mod N = (if x + y < N then x + y else x + y - N :: nat)"
  by (auto simp: le_mod_geq)

lemma unat_plus_cases:
  "unat (a + b :: 'a::len word) =
    (if unat a + unat b < 2 ^ LENGTH('a) then unat a + unat b else unat a + unat b - 2 ^ LENGTH('a))"
  unfolding unat_plus by (rule add_mod_cases [OF unat_lt2p unat_lt2p])

lemma unat_minus_cases:
  "unat (a - b :: 'a::len word) = (if unat b \<le> unat a then unat a - unat b else unat a + 2 ^ LENGTH('a) - unat b)"
proof -
  have "unat a = unat ((a - b) + b)" by simp
  then have "unat a = (if unat (a - b) + unat b < 2 ^ LENGTH('a) then unat (a - b) + unat b
      else unat (a - b) + unat b - 2 ^ LENGTH('a))"
    by (simp only: unat_plus_cases)
  moreover have "unat (a - b) < 2 ^ LENGTH('a)" by (rule unat_lt2p)
  ultimately show ?thesis by (auto simp del: unsigned_less split: if_splits)
qed

lemma add_carry: "unat (a + b :: 'a::len word) + of_bool (a + b < a) * 2 ^ LENGTH('a) = unat a + unat b"
proof -
  have "unat b < 2 ^ LENGTH('a)" by (rule unat_lt2p)
  then show ?thesis unfolding word_less_nat_alt unat_plus_cases by (auto simp del: unsigned_less)
qed

lemma sub_borrow: "unat (a - b :: 'a::len word) + unat b = unat a + of_bool (a < b) * 2 ^ LENGTH('a)"
proof -
  have "unat b < 2 ^ LENGTH('a)" by (rule unat_lt2p)
  then show ?thesis unfolding word_less_nat_alt unat_minus_cases by (auto simp del: unsigned_less)
qed

lemma unat_of_bool_word [simp]: "unat (of_bool b :: 'a::len word) = of_bool b"
  by simp

lemma add128: "u128_val (softfloat_add128 a64 a0 b64 b0) = (join128 a64 a0 + join128 b64 b0) mod 2 ^ 128"
proof -
  define c where "c = (of_bool (a0 + b0 < a0) :: nat)"
  have hi: "unat (a64 + b64 + of_bool (a0 + b0 < a0)) = (unat a64 + unat b64 + c) mod 2 ^ 64"
    by (simp add: unat_plus mod_add_left_eq c_def)
  have lt: "unat (a0 + b0) < 2 ^ 64" using unat_lt2p [of "a0 + b0"] by simp
  have lo: "unat (a0 + b0) + c * 2 ^ 64 = unat a0 + unat b0"
    using add_carry [of a0 b0, folded c_def] by simp
  have "u128_val (softfloat_add128 a64 a0 b64 b0) =
      (unat a64 + unat b64 + c) mod 2 ^ 64 * 2 ^ 64 + unat (a0 + b0)"
    by (simp only: u128_val_def softfloat_add128_def Let_def uint128.simps hi)
  also have "\<dots> = ((unat a64 + unat b64 + c) * 2 ^ 64 + unat (a0 + b0)) mod 2 ^ (64 + 64)"
    by (rule join_mod [OF lt])
  also have "(unat a64 + unat b64 + c) * 2 ^ 64 + unat (a0 + b0) = join128 a64 a0 + join128 b64 b0"
    using lo by (simp add: add_mult_distrib)
  finally show ?thesis by simp
qed

lemma sub128:
  assumes "join128 b64 b0 \<le> join128 a64 a0"
  shows "u128_val (softfloat_sub128 a64 a0 b64 b0) = join128 a64 a0 - join128 b64 b0"
proof -
  let ?b = "of_bool (a0 < b0) :: nat"
  have b0: "unat (a0 - b0) + unat b0 = unat a0 + ?b * 2 ^ 64"
    using sub_borrow [of a0 b0] by simp
  have lt: "unat a0 < 2 ^ 64" "unat b0 < 2 ^ 64" using unat_lt2p [of a0] unat_lt2p [of b0] by simp_all
  have ge: "unat b64 + ?b \<le> unat a64"
  proof (cases "a0 < b0")
    case True
    have "unat b64 * 2 ^ 64 < unat a64 * 2 ^ 64" using assms True by (simp add: word_less_nat_alt)
    then show ?thesis by simp
  next
    case False
    have "unat b64 * 2 ^ 64 < Suc (unat a64) * 2 ^ 64" using assms lt by simp
    then have "unat b64 < Suc (unat a64)" by (simp only: mult_less_cancel2)
    then show ?thesis using False by simp
  qed
  have "unat (a64 - b64 - of_bool (a0 < b0)) = unat a64 - unat b64 - ?b"
    using ge unat_minus_cases [of a64 b64] unat_minus_cases [of "a64 - b64" "of_bool (a0 < b0)"] by simp
  with b0 ge show ?thesis
    by (simp add: u128_val_def softfloat_sub128_def)
qed

text \<open>The product of two 32-bit halves fits 64 bits.\<close>

lemma unat_ucast32 [simp]: "unat (ucast (x :: u32) :: u64) = unat x"
proof -
  have "unat x < 2 ^ 64" using less_trans [OF unat_lt2p [of x], of "2 ^ 64"] by simp
  then show ?thesis by (simp add: unsigned_ucast_eq take_bit_nat_eq_self)
qed

lemma unat_lo32: "unat (ucast (a :: u64) :: u32) = unat a mod 2 ^ 32"
  by (simp add: unsigned_ucast_eq take_bit_eq_mod)

lemma unat_hi32: "unat (ucast (drop_bit 32 (a :: u64)) :: u32) = unat a div 2 ^ 32"
proof -
  have "unat a < 2 ^ 64" using unat_lt2p [of a] by simp
  then show ?thesis by (simp add: unsigned_ucast_eq take_bit_eq_mod less_mult_imp_div_less)
qed

lemma mult_le_sq: "x < m \<Longrightarrow> y < (m::nat) \<Longrightarrow> x * y + 2 * m \<le> m * m + 1"
proof -
  assume "x < m" "y < m"
  then have "x * y \<le> (m - 1) * (m - 1)" by (intro mult_le_mono) auto
  also have "\<dots> + 2 * m = m * m + 1"
    using \<open>x < m\<close> by (cases m) (auto simp: algebra_simps)
  finally show ?thesis by simp
qed

lemma unat_mult32: "unat (ucast (x :: u32) * ucast (y :: u32) :: u64) = unat x * unat y"
proof -
  have "unat x < 2 ^ 32" "unat y < 2 ^ 32" using unat_lt2p [of x] unat_lt2p [of y] by simp_all
  from mult_le_sq [OF this] have "unat x * unat y < 2 ^ 64" by simp
  then show ?thesis by (simp add: unat_word_ariths)
qed

lemma or_high_low: "unat b < 2 ^ n \<Longrightarrow> push_bit n a OR b = push_bit n a + (b :: 'a::len word)"
proof -
  assume "unat b < 2 ^ n"
  then have "take_bit n b = b"
    using \<open>unat b < 2 ^ n\<close> by (metis unat_and_mask mod_less take_bit_eq_mask word_unat_eq_iff)
  moreover have "push_bit n a AND take_bit n b = 0" by (auto simp: bit_eq_iff bit_simps)
  ultimately have "push_bit n a AND b = 0" by simp
  then show ?thesis by (simp add: disjunctive_add_eq_or)
qed

lemma mul64To128: "u128_val (softfloat_mul64To128 a b) = unat a * unat b"
proof -
  define a32 a0 b32 b0 where d: "a32 = (ucast (drop_bit 32 a) :: u32)" "a0 = (ucast a :: u32)"
    "b32 = (ucast (drop_bit 32 b) :: u32)" "b0 = (ucast b :: u32)"
  define mid1 mid z0 where m: "mid1 = (ucast a32 * ucast b0 :: u64)" "mid = mid1 + ucast a0 * ucast b32"
    "z0 = ucast a0 * ucast b0 + push_bit 32 mid"
  have ab: "unat a = unat a32 * 2 ^ 32 + unat a0" "unat b = unat b32 * 2 ^ 32 + unat b0"
    unfolding d unat_hi32 unfolding unat_lo32 by simp_all
  define c1 c2 where c: "c1 = (of_bool (mid < mid1) :: nat)" "c2 = (of_bool (z0 < push_bit 32 mid) :: nat)"
  have mid: "unat mid + c1 * 2 ^ 64 = unat a32 * unat b0 + unat a0 * unat b32"
    using add_carry [of mid1 "ucast a0 * ucast b32"]
    unfolding m(2) [symmetric] unfolding c(1) [symmetric] unfolding m(1) unat_mult32 by simp
  have sh: "unat (push_bit 32 mid) = unat mid mod 2 ^ 32 * 2 ^ 32"
  proof -
    have "unat mid * 2 ^ 32 mod 2 ^ (32 + 32) = unat mid mod 2 ^ 32 * 2 ^ 32"
      using join_mod [of 0 32 "unat mid" 32] by simp
    then show ?thesis by (simp add: unat_push_bit)
  qed
  have z0: "unat z0 + c2 * 2 ^ 64 = unat a0 * unat b0 + unat mid mod 2 ^ 32 * 2 ^ 32"
  proof -
    have z0_eq: "push_bit 32 mid + ucast a0 * ucast b0 = z0" by (simp only: m add.commute)
    show ?thesis
      using add_carry [of "push_bit 32 mid" "ucast a0 * ucast b0"]
      unfolding z0_eq c(2) [symmetric] sh unat_mult32 by simp
  qed
  have lt: "unat (drop_bit 32 mid) < 2 ^ 32"
    using unat_lt2p [of mid] by (simp add: less_mult_imp_div_less)
  define Z where "Z = unat a32 * unat b32 + c1 * 2 ^ 32 + unat mid div 2 ^ 32 + c2"
  have or: "unat (push_bit 32 (of_bool (mid < mid1)) OR drop_bit 32 mid) = c1 * 2 ^ 32 + unat mid div 2 ^ 32"
    using or_high_low [OF lt, of "of_bool (mid < mid1)"] lt
    by (cases "mid < mid1") (simp_all add: c unat_plus unat_push_bit)
  have "unat (ucast a32 * ucast b32 + (push_bit 32 (of_bool (mid < mid1)) OR drop_bit 32 mid)
      + of_bool (z0 < push_bit 32 mid)) = Z mod 2 ^ 64"
    by (simp only: unat_plus or) (simp add: Z_def unat_mult32 c mod_simps add.assoc)
  then have "u128_val (softfloat_mul64To128 a b) = Z mod 2 ^ 64 * 2 ^ 64 + unat z0"
    unfolding u128_val_def softfloat_mul64To128_def Let_def d [symmetric] m [symmetric] by simp
  also have "\<dots> = (Z * 2 ^ 64 + unat z0) mod 2 ^ (64 + 64)"
    using unat_lt2p [of z0] by (intro join_mod) simp
  also have "Z * 2 ^ 64 + unat z0 = unat a * unat b"
  proof -
    define q r where "q = unat mid div 2 ^ 32" and "r = unat mid mod 2 ^ 32"
    have qr: "q * 2 ^ 32 + r + c1 * 2 ^ 64 = unat a32 * unat b0 + unat a0 * unat b32"
      using mid by (simp add: q_def r_def)
    have "(unat a32 * unat b0 + unat a0 * unat b32) * 2 ^ 32 = q * 2 ^ 64 + r * 2 ^ 32 + c1 * 2 ^ 96"
      unfolding qr [symmetric] by (simp add: algebra_simps)
    then show ?thesis
      using z0 unfolding Z_def ab q_def [symmetric] r_def [symmetric] by (simp add: algebra_simps)
  qed
  also have "unat a * unat b mod 2 ^ (64 + 64) = unat a * unat b"
    using mult_strict_mono' [OF unat_lt2p [of a] unat_lt2p [of b]] by simp
  finally show ?thesis .
qed

end
