(* ===== verification/SF_F16.thy ===== *)
theory SF_F16
  imports SF_Core
begin

text \<open>
  Half precision and the rounding of \<open>bfloat16\<close>: the counterparts of the single-precision routines
  for 16-bit values. The magnitude routines of this format align the operands in 32 bits and treat
  operands more than 13 binary orders apart separately (\<open>addEpsilon\<close>, \<open>subEpsilon\<close>).
\<close>

section \<open>Fields\<close>

definition signF16UI :: "u64 \<Rightarrow> bool" where
  "signF16UI a \<longleftrightarrow> drop_bit 15 (ucast a :: u16) \<noteq> 0"

definition expF16UI :: "u64 \<Rightarrow> int" where
  "expF16UI a = uint (drop_bit 10 a AND 0x1F)"

definition fracF16UI :: "u64 \<Rightarrow> u64" where
  "fracF16UI a = a AND 0x03FF"

definition packToF16UI :: "bool \<Rightarrow> int \<Rightarrow> u64 \<Rightarrow> u64" where
  "packToF16UI sign exp sig =
     push_bit 15 (of_bool sign) + push_bit 10 (ucast (of_int exp :: u16)) + sig"

definition isNaNF16UI :: "u64 \<Rightarrow> bool" where
  "isNaNF16UI a \<longleftrightarrow> NOT a AND 0x7C00 = 0 \<and> a AND 0x03FF \<noteq> 0"

definition defaultNaNF16UI :: u64 where
  "defaultNaNF16UI = 0x7E00"

definition softfloat_isSigNaNF16UI :: "u64 \<Rightarrow> bool" where
  "softfloat_isSigNaNF16UI uiA \<longleftrightarrow> uiA AND 0x7E00 = 0x7C00 \<and> uiA AND 0x01FF \<noteq> 0"

definition softfloat_f16UIToCommonNaN :: "u64 \<Rightarrow> sf_state \<Rightarrow> sf_state" where
  "softfloat_f16UIToCommonNaN uiA s =
     (if uiA AND 0x0200 = 0 then softfloat_raiseFlags softfloat_flag_invalid s else s)"

definition softfloat_commonNaNToF16UI :: u64 where
  "softfloat_commonNaNToF16UI = defaultNaNF16UI"

definition signBF16UI :: "u64 \<Rightarrow> bool" where
  "signBF16UI a \<longleftrightarrow> drop_bit 15 (ucast a :: u16) \<noteq> 0"

definition expBF16UI :: "u64 \<Rightarrow> int" where
  "expBF16UI a = uint (drop_bit 7 a AND 0xFF)"

definition fracBF16UI :: "u64 \<Rightarrow> u64" where
  "fracBF16UI a = a AND 0x07F"

definition packToBF16UI :: "bool \<Rightarrow> int \<Rightarrow> u64 \<Rightarrow> u64" where
  "packToBF16UI sign exp sig =
     push_bit 15 (of_bool sign) + push_bit 7 (ucast (of_int exp :: u16)) + sig"

definition defaultNaNBF16UI :: u64 where
  "defaultNaNBF16UI = 0x7FC0"

definition softfloat_bf16UIToCommonNaN :: "u64 \<Rightarrow> sf_state \<Rightarrow> sf_state" where
  "softfloat_bf16UIToCommonNaN uiA s =
     (if uiA AND 0x040 = 0 then softfloat_raiseFlags softfloat_flag_invalid s else s)"

definition softfloat_commonNaNToBF16UI :: u64 where
  "softfloat_commonNaNToBF16UI = defaultNaNBF16UI"

definition softfloat_propagateNaNF16UI :: "u64 \<Rightarrow> u64 \<Rightarrow> sf_state \<Rightarrow> u64 \<times> sf_state" where
  "softfloat_propagateNaNF16UI uiA uiB s =
     (let s = (if softfloat_isSigNaNF16UI uiA \<or> softfloat_isSigNaNF16UI uiB
               then softfloat_raiseFlags softfloat_flag_invalid s else s)
      in (defaultNaNF16UI, s))"

definition softfloat_normSubnormalF16Sig :: "u64 \<Rightarrow> exp_sig" where
  "softfloat_normSubnormalF16Sig sig =
     (let shiftDist = int (softfloat_countLeadingZeros16 (ucast sig)) - 5
      in \<lparr> es_exp = 1 - shiftDist, es_sig = push_bit (nat shiftDist) sig \<rparr>)"

section \<open>Rounding and packing\<close>

definition softfloat_roundPackToF16 :: "bool \<Rightarrow> int \<Rightarrow> u64 \<Rightarrow> sf_state \<Rightarrow> float16_t \<times> sf_state" where
  "softfloat_roundPackToF16 sign exp sig s =
     (let roundingMode = softfloat_roundingMode s;
          roundNearEven = (roundingMode = softfloat_round_near_even);
          roundIncrement =
            (if \<not> roundNearEven \<and> roundingMode \<noteq> softfloat_round_near_maxMag
             then if roundingMode = (if sign then softfloat_round_min else softfloat_round_max)
                  then 0xF else 0
             else 0x8) :: u64;
          roundBits = sig AND 0xF;
          isBig = 0x1D \<le> (of_int exp :: u32)
      in if isBig \<and> \<not> exp < 0 \<and> (0x1D < exp \<or> 0x8000 \<le> sig + roundIncrement) then
           (ucast (packToF16UI sign 0x1F 0 - of_bool (roundIncrement = 0)),
            softfloat_raiseFlags (softfloat_flag_overflow OR softfloat_flag_inexact) s)
         else
           let (exp, sig, roundBits, s) =
                 (if isBig \<and> exp < 0 then
                    let isTiny = (softfloat_detectTininess s = softfloat_tininess_beforeRounding
                          \<or> exp < -1 \<or> sig + roundIncrement < 0x8000);
                        sig = ucast (softfloat_shiftRightJam32 (ucast sig) (of_int (- exp)));
                        roundBits = sig AND 0xF
                    in (0, sig, roundBits,
                        if isTiny \<and> roundBits \<noteq> 0 then softfloat_raiseFlags softfloat_flag_underflow s else s)
                  else (exp, sig, roundBits, s));
               sig = drop_bit 4 (sig + roundIncrement);
               s = (if roundBits \<noteq> 0 then softfloat_raiseFlags softfloat_flag_inexact s else s)
           in if roundBits \<noteq> 0 \<and> roundingMode = softfloat_round_odd then
                (ucast (packToF16UI sign exp (sig OR 1)), s)
              else
                let sig = sig AND NOT (of_bool (roundBits XOR 8 = 0 \<and> roundNearEven));
                    exp = (if sig = 0 then 0 else exp)
                in (ucast (packToF16UI sign exp sig), s))"

definition softfloat_normRoundPackToF16 :: "bool \<Rightarrow> int \<Rightarrow> u64 \<Rightarrow> sf_state \<Rightarrow> float16_t \<times> sf_state" where
  "softfloat_normRoundPackToF16 sign exp sig s =
     (let shiftDist = int (softfloat_countLeadingZeros16 (ucast sig)) - 1;
          exp = exp - shiftDist
      in if 4 \<le> shiftDist \<and> (of_int exp :: u32) < 0x1D then
           (ucast (packToF16UI sign (if sig \<noteq> 0 then exp else 0) (push_bit (nat (shiftDist - 4)) sig)), s)
         else softfloat_roundPackToF16 sign exp (push_bit (nat shiftDist) sig) s)"

definition softfloat_roundPackToBF16 :: "bool \<Rightarrow> int \<Rightarrow> u64 \<Rightarrow> sf_state \<Rightarrow> float16_t \<times> sf_state" where
  "softfloat_roundPackToBF16 sign exp sig s =
     (let roundingMode = softfloat_roundingMode s;
          roundNearEven = (roundingMode = softfloat_round_near_even);
          roundIncrement =
            (if \<not> roundNearEven \<and> roundingMode \<noteq> softfloat_round_near_maxMag
             then if roundingMode = (if sign then softfloat_round_min else softfloat_round_max)
                  then 0x7F else 0
             else 0x40) :: u64;
          roundBits = sig AND 0x7F;
          isBig = 0xFD \<le> (of_int exp :: u32)
      in if isBig \<and> \<not> exp < 0 \<and> (0xFD < exp \<or> 0x8000 \<le> sig + roundIncrement) then
           (ucast (packToBF16UI sign 0xFF 0 - of_bool (roundIncrement = 0)),
            softfloat_raiseFlags (softfloat_flag_overflow OR softfloat_flag_inexact) s)
         else
           let (exp, sig, roundBits, s) =
                 (if isBig \<and> exp < 0 then
                    let isTiny = (softfloat_detectTininess s = softfloat_tininess_beforeRounding
                          \<or> exp < -1 \<or> sig + roundIncrement < 0x8000);
                        sig = ucast (softfloat_shiftRightJam32 (ucast sig) (of_int (- exp)));
                        roundBits = sig AND 0x7F
                    in (0, sig, roundBits,
                        if isTiny \<and> roundBits \<noteq> 0 then softfloat_raiseFlags softfloat_flag_underflow s else s)
                  else (exp, sig, roundBits, s));
               sig = drop_bit 7 (sig + roundIncrement);
               s = (if roundBits \<noteq> 0 then softfloat_raiseFlags softfloat_flag_inexact s else s)
           in if roundBits \<noteq> 0 \<and> roundingMode = softfloat_round_odd then
                (ucast (packToBF16UI sign exp (sig OR 1)), s)
              else
                let sig = sig AND NOT (of_bool (roundBits XOR 0x40 = 0 \<and> roundNearEven));
                    exp = (if sig = 0 then 0 else exp)
                in (ucast (packToBF16UI sign exp sig), s))"

section \<open>Addition and subtraction\<close>

definition softfloat_addMagsF16 :: "u64 \<Rightarrow> u64 \<Rightarrow> sf_state \<Rightarrow> float16_t \<times> sf_state" where
  "softfloat_addMagsF16 uiA uiB s =
     (let expA = expF16UI uiA;
          sigA = fracF16UI uiA;
          expB = expF16UI uiB;
          sigB = fracF16UI uiB;
          expDiff = expA - expB;
          propagateNaN = (let (uiZ, s) = softfloat_propagateNaNF16UI uiA uiB s in (ucast uiZ, s));
          addEpsilon = (\<lambda>uiZ.
            let roundingMode = softfloat_roundingMode s;
                (uiZ, s) =
                  (if roundingMode \<noteq> softfloat_round_near_even then
                     if roundingMode = (if signF16UI uiZ then softfloat_round_min else softfloat_round_max) then
                       let uiZ = uiZ + 1
                       in (uiZ, if ucast (push_bit 1 uiZ) = (0xF800 :: u16)
                                then softfloat_raiseFlags (softfloat_flag_overflow OR softfloat_flag_inexact) s
                                else s)
                     else if roundingMode = softfloat_round_odd then (uiZ OR 1, s)
                     else (uiZ, s)
                   else (uiZ, s))
            in (ucast uiZ, softfloat_raiseFlags softfloat_flag_inexact s))
      in if expDiff = 0 then
           if expA = 0 then (ucast (uiA + sigB), s)
           else if expA = 0x1F then
             if sigA OR sigB \<noteq> 0 then propagateNaN else (ucast uiA, s)
           else
             let signZ = signF16UI uiA;
                 expZ = expA;
                 sigZ = 0x0800 + sigA + sigB
             in if sigZ AND 1 = 0 \<and> expZ < 0x1E
                then (ucast (packToF16UI signZ expZ (drop_bit 1 sigZ)), s)
                else softfloat_roundPackToF16 signZ expZ (push_bit 3 sigZ) s
         else
           let signZ = signF16UI uiA
           in if expDiff < 0 \<and> expB = 0x1F then
                if sigB \<noteq> 0 then propagateNaN else (ucast (packToF16UI signZ 0x1F 0), s)
              else if expDiff \<le> -13 then
                let uiZ = packToF16UI signZ expB sigB
                in if of_int expA OR sigA \<noteq> 0 then addEpsilon uiZ else (ucast uiZ, s)
              else if \<not> expDiff < 0 \<and> expA = 0x1F then
                if sigA \<noteq> 0 then propagateNaN else (ucast uiA, s)
              else if 13 \<le> expDiff then
                if of_int expB OR sigB \<noteq> 0 then addEpsilon uiA else (ucast uiA, s)
              else
                let (expZ, sigX, sigY, shiftDist) =
                      (if expDiff < 0
                       then (expB, sigB OR 0x0400, sigA + (if expA \<noteq> 0 then 0x0400 else sigA), 19 + expDiff)
                       else (expA, sigA OR 0x0400, sigB + (if expB \<noteq> 0 then 0x0400 else sigB), 19 - expDiff));
                    sig32Z = push_bit 19 sigX + push_bit (nat shiftDist) sigY;
                    (expZ, sig32Z) =
                      (if sig32Z < 0x40000000 then (expZ - 1, push_bit 1 sig32Z) else (expZ, sig32Z));
                    sigZ = drop_bit 16 sig32Z
                in if sig32Z AND 0xFFFF \<noteq> 0 then softfloat_roundPackToF16 signZ expZ (sigZ OR 1) s
                   else if sigZ AND 0xF = 0 \<and> expZ < 0x1E
                   then (ucast (packToF16UI signZ expZ (drop_bit 4 sigZ)), s)
                   else softfloat_roundPackToF16 signZ expZ sigZ s)"

definition softfloat_subMagsF16 :: "u64 \<Rightarrow> u64 \<Rightarrow> sf_state \<Rightarrow> float16_t \<times> sf_state" where
  "softfloat_subMagsF16 uiA uiB s =
     (let expA = expF16UI uiA;
          sigA = fracF16UI uiA;
          expB = expF16UI uiB;
          sigB = fracF16UI uiB;
          expDiff = expA - expB;
          propagateNaN = (let (uiZ, s) = softfloat_propagateNaNF16UI uiA uiB s in (ucast uiZ, s));
          subEpsilon = (\<lambda>uiZ.
            let roundingMode = softfloat_roundingMode s;
                uiZ =
                  (if roundingMode \<noteq> softfloat_round_near_even then
                     if roundingMode = softfloat_round_minMag
                       \<or> roundingMode = (if signF16UI uiZ then softfloat_round_max else softfloat_round_min)
                     then uiZ - 1
                     else if roundingMode = softfloat_round_odd then (uiZ - 1) OR 1
                     else uiZ
                   else uiZ)
            in (ucast uiZ, softfloat_raiseFlags softfloat_flag_inexact s))
      in if expDiff = 0 then
           if expA = 0x1F then
             if sigA OR sigB \<noteq> 0 then propagateNaN
             else (ucast defaultNaNF16UI, softfloat_raiseFlags softfloat_flag_invalid s)
           else
             let sigDiff = uint sigA - uint sigB
             in if sigDiff = 0 then
                  (ucast (packToF16UI (softfloat_roundingMode s = softfloat_round_min) 0 0), s)
                else
                  let expA = (if expA \<noteq> 0 then expA - 1 else expA);
                      signZ = signF16UI uiA;
                      (signZ, sigDiff) = (if sigDiff < 0 then (\<not> signZ, - sigDiff) else (signZ, sigDiff));
                      shiftDist = int (softfloat_countLeadingZeros16 (of_int sigDiff)) - 5;
                      expZ = expA - shiftDist;
                      (shiftDist, expZ) = (if expZ < 0 then (expA, 0) else (shiftDist, expZ));
                      sigZ = push_bit (nat shiftDist) (of_int sigDiff)
                  in (ucast (packToF16UI signZ expZ sigZ), s)
         else
           let signZ = (if expDiff < 0 then \<not> signF16UI uiA else signF16UI uiA)
           in if expDiff < 0 \<and> expB = 0x1F then
                if sigB \<noteq> 0 then propagateNaN else (ucast (packToF16UI signZ 0x1F 0), s)
              else if expDiff \<le> -13 then
                let uiZ = packToF16UI signZ expB sigB
                in if of_int expA OR sigA \<noteq> 0 then subEpsilon uiZ else (ucast uiZ, s)
              else if \<not> expDiff < 0 \<and> expA = 0x1F then
                if sigA \<noteq> 0 then propagateNaN else (ucast uiA, s)
              else if 13 \<le> expDiff then
                if of_int expB OR sigB \<noteq> 0 then subEpsilon uiA else (ucast uiA, s)
              else
                let (expZ, sigX, sigY, expDiff) =
                      (if expDiff < 0
                       then (expA + 19, sigB OR 0x0400, sigA + (if expA \<noteq> 0 then 0x0400 else sigA), - expDiff)
                       else (expB + 19, sigA OR 0x0400, sigB + (if expB \<noteq> 0 then 0x0400 else sigB), expDiff));
                    sig32Z = push_bit (nat expDiff) sigX - sigY;
                    shiftDist = int (softfloat_countLeadingZeros32 (ucast sig32Z)) - 1;
                    sig32Z = push_bit (nat shiftDist) sig32Z;
                    expZ = expZ - shiftDist;
                    sigZ = drop_bit 16 sig32Z
                in if sig32Z AND 0xFFFF \<noteq> 0 then softfloat_roundPackToF16 signZ expZ (sigZ OR 1) s
                   else if sigZ AND 0xF = 0 \<and> (of_int expZ :: u32) < 0x1E
                   then (ucast (packToF16UI signZ expZ (drop_bit 4 sigZ)), s)
                   else softfloat_roundPackToF16 signZ expZ sigZ s)"

definition f16_add :: "float16_t \<Rightarrow> float16_t \<Rightarrow> sf_state \<Rightarrow> float16_t \<times> sf_state" where
  "f16_add a b s =
     (let uiA = ucast a; uiB = ucast b
      in if signF16UI (uiA XOR uiB) then softfloat_subMagsF16 uiA uiB s
         else softfloat_addMagsF16 uiA uiB s)"

definition f16_sub :: "float16_t \<Rightarrow> float16_t \<Rightarrow> sf_state \<Rightarrow> float16_t \<times> sf_state" where
  "f16_sub a b s =
     (let uiA = ucast a; uiB = ucast b
      in if signF16UI (uiA XOR uiB) then softfloat_addMagsF16 uiA uiB s
         else softfloat_subMagsF16 uiA uiB s)"

section \<open>Multiplication\<close>

definition f16_mul :: "float16_t \<Rightarrow> float16_t \<Rightarrow> sf_state \<Rightarrow> float16_t \<times> sf_state" where
  "f16_mul a b s =
     (let uiA = ucast a;
          signA = signF16UI uiA;
          expA = expF16UI uiA;
          sigA = fracF16UI uiA;
          uiB = ucast b;
          signB = signF16UI uiB;
          expB = expF16UI uiB;
          sigB = fracF16UI uiB;
          signZ = (signA \<noteq> signB);
          propagateNaN = (let (uiZ, s) = softfloat_propagateNaNF16UI uiA uiB s in (ucast uiZ, s));
          infArg = (\<lambda>magBits. if magBits = 0
            then (ucast defaultNaNF16UI, softfloat_raiseFlags softfloat_flag_invalid s)
            else (ucast (packToF16UI signZ 0x1F 0), s));
          zero = (ucast (packToF16UI signZ 0 0), s)
      in if expA = 0x1F then
           if sigA \<noteq> 0 \<or> expB = 0x1F \<and> sigB \<noteq> 0 then propagateNaN
           else infArg (of_int expB OR sigB)
         else if expB = 0x1F then
           if sigB \<noteq> 0 then propagateNaN else infArg (of_int expA OR sigA)
         else if expA = 0 \<and> sigA = 0 then zero
         else if expB = 0 \<and> sigB = 0 then zero
         else
           let (expA, sigA) =
                 (if expA = 0 then
                    let normExpSig = softfloat_normSubnormalF16Sig sigA in (es_exp normExpSig, es_sig normExpSig)
                  else (expA, sigA));
               (expB, sigB) =
                 (if expB = 0 then
                    let normExpSig = softfloat_normSubnormalF16Sig sigB in (es_exp normExpSig, es_sig normExpSig)
                  else (expB, sigB));
               expZ = expA + expB - 0xF;
               sigA = push_bit 4 (sigA OR 0x0400);
               sigB = push_bit 5 (sigB OR 0x0400);
               sig32Z = sigA * sigB;
               sigZ = drop_bit 16 sig32Z;
               sigZ = (if sig32Z AND 0xFFFF \<noteq> 0 then sigZ OR 1 else sigZ);
               (expZ, sigZ) = (if sigZ < 0x4000 then (expZ - 1, push_bit 1 sigZ) else (expZ, sigZ))
           in softfloat_roundPackToF16 signZ expZ sigZ s)"

section \<open>Comparisons\<close>

definition f16_eq :: "float16_t \<Rightarrow> float16_t \<Rightarrow> sf_state \<Rightarrow> bool \<times> sf_state" where
  "f16_eq a b s =
     (let uiA = ucast a; uiB = ucast b
      in if isNaNF16UI uiA \<or> isNaNF16UI uiB then
           (False, if softfloat_isSigNaNF16UI uiA \<or> softfloat_isSigNaNF16UI uiB
                   then softfloat_raiseFlags softfloat_flag_invalid s else s)
         else (uiA = uiB \<or> (ucast (push_bit 1 (uiA OR uiB)) :: u16) = 0, s))"

definition f16_eq_signaling :: "float16_t \<Rightarrow> float16_t \<Rightarrow> sf_state \<Rightarrow> bool \<times> sf_state" where
  "f16_eq_signaling a b s =
     (let uiA = ucast a; uiB = ucast b
      in if isNaNF16UI uiA \<or> isNaNF16UI uiB then
           (False, softfloat_raiseFlags softfloat_flag_invalid s)
         else (uiA = uiB \<or> (ucast (push_bit 1 (uiA OR uiB)) :: u16) = 0, s))"

definition f16_le :: "float16_t \<Rightarrow> float16_t \<Rightarrow> sf_state \<Rightarrow> bool \<times> sf_state" where
  "f16_le a b s =
     (let uiA = ucast a; uiB = ucast b
      in if isNaNF16UI uiA \<or> isNaNF16UI uiB then
           (False, softfloat_raiseFlags softfloat_flag_invalid s)
         else
           let signA = signF16UI uiA; signB = signF16UI uiB
           in (if signA \<noteq> signB then signA \<or> (ucast (push_bit 1 (uiA OR uiB)) :: u16) = 0
               else uiA = uiB \<or> signA \<noteq> (uiA < uiB), s))"

definition f16_le_quiet :: "float16_t \<Rightarrow> float16_t \<Rightarrow> sf_state \<Rightarrow> bool \<times> sf_state" where
  "f16_le_quiet a b s =
     (let uiA = ucast a; uiB = ucast b
      in if isNaNF16UI uiA \<or> isNaNF16UI uiB then
           (False, if softfloat_isSigNaNF16UI uiA \<or> softfloat_isSigNaNF16UI uiB
                   then softfloat_raiseFlags softfloat_flag_invalid s else s)
         else
           let signA = signF16UI uiA; signB = signF16UI uiB
           in (if signA \<noteq> signB then signA \<or> (ucast (push_bit 1 (uiA OR uiB)) :: u16) = 0
               else uiA = uiB \<or> signA \<noteq> (uiA < uiB), s))"

definition f16_lt :: "float16_t \<Rightarrow> float16_t \<Rightarrow> sf_state \<Rightarrow> bool \<times> sf_state" where
  "f16_lt a b s =
     (let uiA = ucast a; uiB = ucast b
      in if isNaNF16UI uiA \<or> isNaNF16UI uiB then
           (False, softfloat_raiseFlags softfloat_flag_invalid s)
         else
           let signA = signF16UI uiA; signB = signF16UI uiB
           in (if signA \<noteq> signB then signA \<and> (ucast (push_bit 1 (uiA OR uiB)) :: u16) \<noteq> 0
               else uiA \<noteq> uiB \<and> signA \<noteq> (uiA < uiB), s))"

definition f16_lt_quiet :: "float16_t \<Rightarrow> float16_t \<Rightarrow> sf_state \<Rightarrow> bool \<times> sf_state" where
  "f16_lt_quiet a b s =
     (let uiA = ucast a; uiB = ucast b
      in if isNaNF16UI uiA \<or> isNaNF16UI uiB then
           (False, if softfloat_isSigNaNF16UI uiA \<or> softfloat_isSigNaNF16UI uiB
                   then softfloat_raiseFlags softfloat_flag_invalid s else s)
         else
           let signA = signF16UI uiA; signB = signF16UI uiB
           in (if signA \<noteq> signB then signA \<and> (ucast (push_bit 1 (uiA OR uiB)) :: u16) \<noteq> 0
               else uiA \<noteq> uiB \<and> signA \<noteq> (uiA < uiB), s))"

definition f16_max :: "float16_t \<Rightarrow> float16_t \<Rightarrow> sf_state \<Rightarrow> float16_t \<times> sf_state" where
  "f16_max a b s =
     (let (lt, s) = f16_lt_quiet b a s;
          (greater, s) = (if lt then (True, s) else let (e, s) = f16_eq b a s in (e \<and> signF16UI (ucast b), s))
      in if isNaNF16UI (ucast a) \<and> isNaNF16UI (ucast b) then (ucast defaultNaNF16UI, s)
         else (if greater \<or> isNaNF16UI (ucast b) then a else b, s))"

definition f16_min :: "float16_t \<Rightarrow> float16_t \<Rightarrow> sf_state \<Rightarrow> float16_t \<times> sf_state" where
  "f16_min a b s =
     (let (lt, s) = f16_lt_quiet a b s;
          (less, s) = (if lt then (True, s) else let (e, s) = f16_eq a b s in (e \<and> signF16UI (ucast a), s))
      in if isNaNF16UI (ucast a) \<and> isNaNF16UI (ucast b) then (ucast defaultNaNF16UI, s)
         else (if less \<or> isNaNF16UI (ucast b) then a else b, s))"

section \<open>Classification and rounding to an integral value\<close>

definition f16_isSignalingNaN :: "float16_t \<Rightarrow> bool" where
  "f16_isSignalingNaN a = softfloat_isSigNaNF16UI (ucast a)"

definition f16_classify :: "float16_t \<Rightarrow> u64" where
  "f16_classify a =
     (let uiA = ucast a;
          infOrNaN = (expF16UI uiA = 0x1F);
          subnormalOrZero = (expF16UI uiA = 0);
          sign = signF16UI uiA;
          fracZero = (fracF16UI uiA = 0);
          isNaN = isNaNF16UI uiA;
          isSNaN = softfloat_isSigNaNF16UI uiA
      in push_bit 0 (of_bool (sign \<and> infOrNaN \<and> fracZero)) OR
         push_bit 1 (of_bool (sign \<and> \<not> infOrNaN \<and> \<not> subnormalOrZero)) OR
         push_bit 2 (of_bool (sign \<and> subnormalOrZero \<and> \<not> fracZero)) OR
         push_bit 3 (of_bool (sign \<and> subnormalOrZero \<and> fracZero)) OR
         push_bit 7 (of_bool (\<not> sign \<and> infOrNaN \<and> fracZero)) OR
         push_bit 6 (of_bool (\<not> sign \<and> \<not> infOrNaN \<and> \<not> subnormalOrZero)) OR
         push_bit 5 (of_bool (\<not> sign \<and> subnormalOrZero \<and> \<not> fracZero)) OR
         push_bit 4 (of_bool (\<not> sign \<and> subnormalOrZero \<and> fracZero)) OR
         push_bit 8 (of_bool (isNaN \<and> isSNaN)) OR
         push_bit 9 (of_bool (isNaN \<and> \<not> isSNaN)))"

definition f16_roundToInt :: "float16_t \<Rightarrow> u8 \<Rightarrow> bool \<Rightarrow> sf_state \<Rightarrow> float16_t \<times> sf_state" where
  "f16_roundToInt a roundingMode exact s =
     (let uiA = ucast a;
          exp = expF16UI uiA
      in if exp \<le> 0xE then
           if (ucast (push_bit 1 uiA) :: u16) = 0 then (a, s)
           else
             let s = (if exact then softfloat_raiseFlags softfloat_flag_inexact s else s);
                 uiZ = uiA AND packToF16UI True 0 0;
                 uiZ =
                   (if roundingMode = softfloat_round_near_even \<and> fracF16UI uiA = 0 then uiZ
                    else if roundingMode = softfloat_round_near_even
                       \<or> roundingMode = softfloat_round_near_maxMag then
                      if exp = 0xE then uiZ OR packToF16UI False 0xF 0 else uiZ
                    else if roundingMode = softfloat_round_min then
                      if uiZ \<noteq> 0 then packToF16UI True 0xF 0 else uiZ
                    else if roundingMode = softfloat_round_max then
                      if uiZ = 0 then packToF16UI False 0xF 0 else uiZ
                    else uiZ)
             in (ucast uiZ, s)
         else if 0x19 \<le> exp then
           if exp = 0x1F \<and> fracF16UI uiA \<noteq> 0
           then let (uiZ, s) = softfloat_propagateNaNF16UI uiA 0 s in (ucast uiZ, s)
           else (a, s)
         else
           let lastBitMask = push_bit (nat (0x19 - exp)) 1;
               roundBitsMask = lastBitMask - 1;
               uiZ =
                 (if roundingMode = softfloat_round_near_maxMag then uiA + drop_bit 1 lastBitMask
                  else if roundingMode = softfloat_round_near_even then
                    let uiZ = uiA + drop_bit 1 lastBitMask
                    in if uiZ AND roundBitsMask = 0 then uiZ AND NOT lastBitMask else uiZ
                  else if roundingMode = (if signF16UI uiA then softfloat_round_min else softfloat_round_max)
                  then uiA + roundBitsMask
                  else uiA);
               uiZ = uiZ AND NOT roundBitsMask;
               s = (if exact \<and> uiZ \<noteq> uiA then softfloat_raiseFlags softfloat_flag_inexact s else s)
           in (ucast uiZ, s))"

end
