(* ===== verification/SF_F32.thy ===== *)
theory SF_F32
  imports SF_Core
begin

text \<open>
  Single precision: the field macros of \<open>internals.h\<close> and \<open>specialize.h\<close> for 32-bit values, rounding
  and packing, addition, subtraction, multiplication, comparisons, classification and rounding to
  an integral value. \<open>goto\<close> targets are branches that end in the value they label.
\<close>

section \<open>Fields\<close>

definition signF32UI :: "u64 \<Rightarrow> bool" where
  "signF32UI a \<longleftrightarrow> drop_bit 31 (ucast a :: u32) \<noteq> 0"

definition expF32UI :: "u64 \<Rightarrow> int" where
  "expF32UI a = uint (drop_bit 23 a AND 0xFF)"

definition fracF32UI :: "u64 \<Rightarrow> u64" where
  "fracF32UI a = a AND 0x007FFFFF"

definition packToF32UI :: "bool \<Rightarrow> int \<Rightarrow> u64 \<Rightarrow> u64" where
  "packToF32UI sign exp sig =
     ucast (push_bit 31 (of_bool sign :: u32) + push_bit 23 (of_int exp :: u32)) + sig"

definition isNaNF32UI :: "u64 \<Rightarrow> bool" where
  "isNaNF32UI a \<longleftrightarrow> NOT a AND 0x7F800000 = 0 \<and> a AND 0x007FFFFF \<noteq> 0"

definition defaultNaNF32UI :: u64 where
  "defaultNaNF32UI = 0x7FC00000"

definition softfloat_isSigNaNF32UI :: "u64 \<Rightarrow> bool" where
  "softfloat_isSigNaNF32UI uiA \<longleftrightarrow> uiA AND 0x7FC00000 = 0x7F800000 \<and> uiA AND 0x003FFFFF \<noteq> 0"

definition softfloat_f32UIToCommonNaN :: "u64 \<Rightarrow> sf_state \<Rightarrow> sf_state" where
  "softfloat_f32UIToCommonNaN uiA s =
     (if uiA AND 0x00400000 = 0 then softfloat_raiseFlags softfloat_flag_invalid s else s)"

definition softfloat_commonNaNToF32UI :: u64 where
  "softfloat_commonNaNToF32UI = defaultNaNF32UI"

definition softfloat_propagateNaNF32UI :: "u64 \<Rightarrow> u64 \<Rightarrow> sf_state \<Rightarrow> u64 \<times> sf_state" where
  "softfloat_propagateNaNF32UI uiA uiB s =
     (let s = (if softfloat_isSigNaNF32UI uiA \<or> softfloat_isSigNaNF32UI uiB
               then softfloat_raiseFlags softfloat_flag_invalid s else s)
      in (defaultNaNF32UI, s))"

definition softfloat_normSubnormalF32Sig :: "u64 \<Rightarrow> exp_sig" where
  "softfloat_normSubnormalF32Sig sig =
     (let shiftDist = int (softfloat_countLeadingZeros32 (ucast sig)) - 8
      in \<lparr> es_exp = 1 - shiftDist, es_sig = push_bit (nat shiftDist) sig \<rparr>)"

section \<open>Rounding and packing\<close>

definition softfloat_roundPackToF32 :: "bool \<Rightarrow> int \<Rightarrow> u64 \<Rightarrow> sf_state \<Rightarrow> float32_t \<times> sf_state" where
  "softfloat_roundPackToF32 sign exp sig s =
     (let roundingMode = softfloat_roundingMode s;
          roundNearEven = (roundingMode = softfloat_round_near_even);
          roundIncrement =
            (if \<not> roundNearEven \<and> roundingMode \<noteq> softfloat_round_near_maxMag
             then if roundingMode = (if sign then softfloat_round_min else softfloat_round_max)
                  then 0x7F else 0
             else 0x40) :: u64;
          roundBits = sig AND 0x7F;
          isBig = 0xFD \<le> (of_int exp :: u32)
      in if isBig \<and> \<not> exp < 0 \<and> (0xFD < exp \<or> 0x80000000 \<le> sig + roundIncrement) then
           (ucast (packToF32UI sign 0xFF 0 - of_bool (roundIncrement = 0)),
            softfloat_raiseFlags (softfloat_flag_overflow OR softfloat_flag_inexact) s)
         else
           let (exp, sig, roundBits, s) =
                 (if isBig \<and> exp < 0 then
                    let isTiny = (softfloat_detectTininess s = softfloat_tininess_beforeRounding
                          \<or> exp < -1 \<or> sig + roundIncrement < 0x80000000);
                        sig = ucast (softfloat_shiftRightJam32 (ucast sig) (of_int (- exp)));
                        roundBits = sig AND 0x7F
                    in (0, sig, roundBits,
                        if isTiny \<and> roundBits \<noteq> 0 then softfloat_raiseFlags softfloat_flag_underflow s else s)
                  else (exp, sig, roundBits, s));
               sig = drop_bit 7 (sig + roundIncrement);
               s = (if roundBits \<noteq> 0 then softfloat_raiseFlags softfloat_flag_inexact s else s)
           in if roundBits \<noteq> 0 \<and> roundingMode = softfloat_round_odd then
                (ucast (packToF32UI sign exp (sig OR 1)), s)
              else
                let sig = sig AND NOT (of_bool (roundBits XOR 0x40 = 0 \<and> roundNearEven));
                    exp = (if sig = 0 then 0 else exp)
                in (ucast (packToF32UI sign exp sig), s))"

definition softfloat_normRoundPackToF32 :: "bool \<Rightarrow> int \<Rightarrow> u64 \<Rightarrow> sf_state \<Rightarrow> float32_t \<times> sf_state" where
  "softfloat_normRoundPackToF32 sign exp sig s =
     (let shiftDist = int (softfloat_countLeadingZeros32 (ucast sig)) - 1;
          exp = exp - shiftDist
      in if 7 \<le> shiftDist \<and> (of_int exp :: u32) < 0xFD then
           (ucast (packToF32UI sign (if sig \<noteq> 0 then exp else 0) (push_bit (nat (shiftDist - 7)) sig)), s)
         else softfloat_roundPackToF32 sign exp (push_bit (nat shiftDist) sig) s)"

section \<open>Addition and subtraction\<close>

definition softfloat_addMagsF32 :: "u64 \<Rightarrow> u64 \<Rightarrow> sf_state \<Rightarrow> float32_t \<times> sf_state" where
  "softfloat_addMagsF32 uiA uiB s =
     (let expA = expF32UI uiA;
          sigA = fracF32UI uiA;
          expB = expF32UI uiB;
          sigB = fracF32UI uiB;
          expDiff = expA - expB;
          propagateNaN = (let (uiZ, s) = softfloat_propagateNaNF32UI uiA uiB s in (ucast uiZ, s))
      in if expDiff = 0 then
           if expA = 0 then (ucast (uiA + sigB), s)
           else if expA = 0xFF then
             if sigA OR sigB \<noteq> 0 then propagateNaN else (ucast uiA, s)
           else
             let signZ = signF32UI uiA;
                 expZ = expA;
                 sigZ = 0x01000000 + sigA + sigB
             in if sigZ AND 1 = 0 \<and> expZ < 0xFE
                then (ucast (packToF32UI signZ expZ (drop_bit 1 sigZ)), s)
                else softfloat_roundPackToF32 signZ expZ (push_bit 6 sigZ) s
         else
           let signZ = signF32UI uiA;
               sigA = push_bit 6 sigA;
               sigB = push_bit 6 sigB
           in if expDiff < 0 \<and> expB = 0xFF then
                if sigB \<noteq> 0 then propagateNaN else (ucast (packToF32UI signZ 0xFF 0), s)
              else if \<not> expDiff < 0 \<and> expA = 0xFF then
                if sigA \<noteq> 0 then propagateNaN else (ucast uiA, s)
              else
                let (expZ, sigA, sigB) =
                      (if expDiff < 0 then
                         let sigA = sigA + (if expA \<noteq> 0 then 0x20000000 else sigA);
                             sigA = ucast (softfloat_shiftRightJam32 (ucast sigA) (of_int (- expDiff)))
                         in (expB, sigA, sigB)
                       else
                         let sigB = sigB + (if expB \<noteq> 0 then 0x20000000 else sigB);
                             sigB = ucast (softfloat_shiftRightJam32 (ucast sigB) (of_int expDiff))
                         in (expA, sigA, sigB));
                    sigZ = 0x20000000 + sigA + sigB;
                    (expZ, sigZ) = (if sigZ < 0x40000000 then (expZ - 1, push_bit 1 sigZ) else (expZ, sigZ))
                in softfloat_roundPackToF32 signZ expZ sigZ s)"

definition softfloat_subMagsF32 :: "u64 \<Rightarrow> u64 \<Rightarrow> sf_state \<Rightarrow> float32_t \<times> sf_state" where
  "softfloat_subMagsF32 uiA uiB s =
     (let expA = expF32UI uiA;
          sigA = fracF32UI uiA;
          expB = expF32UI uiB;
          sigB = fracF32UI uiB;
          expDiff = expA - expB;
          propagateNaN = (let (uiZ, s) = softfloat_propagateNaNF32UI uiA uiB s in (ucast uiZ, s))
      in if expDiff = 0 then
           if expA = 0xFF then
             if sigA OR sigB \<noteq> 0 then propagateNaN
             else (ucast defaultNaNF32UI, softfloat_raiseFlags softfloat_flag_invalid s)
           else
             let sigDiff = uint sigA - uint sigB
             in if sigDiff = 0 then
                  (ucast (packToF32UI (softfloat_roundingMode s = softfloat_round_min) 0 0), s)
                else
                  let expA = (if expA \<noteq> 0 then expA - 1 else expA);
                      signZ = signF32UI uiA;
                      (signZ, sigDiff) = (if sigDiff < 0 then (\<not> signZ, - sigDiff) else (signZ, sigDiff));
                      shiftDist = int (softfloat_countLeadingZeros32 (of_int sigDiff)) - 8;
                      expZ = expA - shiftDist;
                      (shiftDist, expZ) = (if expZ < 0 then (expA, 0) else (shiftDist, expZ))
                  in (ucast (packToF32UI signZ expZ (push_bit (nat shiftDist) (of_int sigDiff))), s)
         else
           let signZ = signF32UI uiA;
               sigA = push_bit 7 sigA;
               sigB = push_bit 7 sigB
           in if expDiff < 0 then
                let signZ = (\<not> signZ)
                in if expB = 0xFF then
                     if sigB \<noteq> 0 then propagateNaN else (ucast (packToF32UI signZ 0xFF 0), s)
                   else
                     let expZ = expB - 1;
                         sigX = sigB OR 0x40000000;
                         sigY = sigA + (if expA \<noteq> 0 then 0x40000000 else sigA);
                         expDiff = - expDiff
                     in softfloat_normRoundPackToF32 signZ expZ
                          (sigX - ucast (softfloat_shiftRightJam32 (ucast sigY) (of_int expDiff))) s
              else
                if expA = 0xFF then
                  if sigA \<noteq> 0 then propagateNaN else (ucast uiA, s)
                else
                  let expZ = expA - 1;
                      sigX = sigA OR 0x40000000;
                      sigY = sigB + (if expB \<noteq> 0 then 0x40000000 else sigB)
                  in softfloat_normRoundPackToF32 signZ expZ
                       (sigX - ucast (softfloat_shiftRightJam32 (ucast sigY) (of_int expDiff))) s)"

definition f32_add :: "float32_t \<Rightarrow> float32_t \<Rightarrow> sf_state \<Rightarrow> float32_t \<times> sf_state" where
  "f32_add a b s =
     (let uiA = ucast a; uiB = ucast b
      in if signF32UI (uiA XOR uiB) then softfloat_subMagsF32 uiA uiB s
         else softfloat_addMagsF32 uiA uiB s)"

definition f32_sub :: "float32_t \<Rightarrow> float32_t \<Rightarrow> sf_state \<Rightarrow> float32_t \<times> sf_state" where
  "f32_sub a b s =
     (let uiA = ucast a; uiB = ucast b
      in if signF32UI (uiA XOR uiB) then softfloat_addMagsF32 uiA uiB s
         else softfloat_subMagsF32 uiA uiB s)"

section \<open>Multiplication\<close>

definition f32_mul :: "float32_t \<Rightarrow> float32_t \<Rightarrow> sf_state \<Rightarrow> float32_t \<times> sf_state" where
  "f32_mul a b s =
     (let uiA = ucast a;
          signA = signF32UI uiA;
          expA = expF32UI uiA;
          sigA = fracF32UI uiA;
          uiB = ucast b;
          signB = signF32UI uiB;
          expB = expF32UI uiB;
          sigB = fracF32UI uiB;
          signZ = (signA \<noteq> signB);
          propagateNaN = (let (uiZ, s) = softfloat_propagateNaNF32UI uiA uiB s in (ucast uiZ, s));
          infArg = (\<lambda>magBits. if magBits = 0
            then (ucast defaultNaNF32UI, softfloat_raiseFlags softfloat_flag_invalid s)
            else (ucast (packToF32UI signZ 0xFF 0), s));
          zero = (ucast (packToF32UI signZ 0 0), s)
      in if expA = 0xFF then
           if sigA \<noteq> 0 \<or> expB = 0xFF \<and> sigB \<noteq> 0 then propagateNaN
           else infArg (of_int expB OR sigB)
         else if expB = 0xFF then
           if sigB \<noteq> 0 then propagateNaN else infArg (of_int expA OR sigA)
         else if expA = 0 \<and> sigA = 0 then zero
         else if expB = 0 \<and> sigB = 0 then zero
         else
           let (expA, sigA) =
                 (if expA = 0 then
                    let normExpSig = softfloat_normSubnormalF32Sig sigA in (es_exp normExpSig, es_sig normExpSig)
                  else (expA, sigA));
               (expB, sigB) =
                 (if expB = 0 then
                    let normExpSig = softfloat_normSubnormalF32Sig sigB in (es_exp normExpSig, es_sig normExpSig)
                  else (expB, sigB));
               expZ = expA + expB - 0x7F;
               sigA = push_bit 7 (sigA OR 0x00800000);
               sigB = push_bit 8 (sigB OR 0x00800000);
               sigZ = softfloat_shortShiftRightJam64 (sigA * sigB) 32;
               (expZ, sigZ) = (if sigZ < 0x40000000 then (expZ - 1, push_bit 1 sigZ) else (expZ, sigZ))
           in softfloat_roundPackToF32 signZ expZ sigZ s)"

section \<open>Comparisons\<close>

definition f32_eq :: "float32_t \<Rightarrow> float32_t \<Rightarrow> sf_state \<Rightarrow> bool \<times> sf_state" where
  "f32_eq a b s =
     (let uiA = ucast a; uiB = ucast b
      in if isNaNF32UI uiA \<or> isNaNF32UI uiB then
           (False, if softfloat_isSigNaNF32UI uiA \<or> softfloat_isSigNaNF32UI uiB
                   then softfloat_raiseFlags softfloat_flag_invalid s else s)
         else (uiA = uiB \<or> (ucast (push_bit 1 (uiA OR uiB)) :: u32) = 0, s))"

definition f32_eq_signaling :: "float32_t \<Rightarrow> float32_t \<Rightarrow> sf_state \<Rightarrow> bool \<times> sf_state" where
  "f32_eq_signaling a b s =
     (let uiA = ucast a; uiB = ucast b
      in if isNaNF32UI uiA \<or> isNaNF32UI uiB then
           (False, softfloat_raiseFlags softfloat_flag_invalid s)
         else (uiA = uiB \<or> (ucast (push_bit 1 (uiA OR uiB)) :: u32) = 0, s))"

definition f32_le :: "float32_t \<Rightarrow> float32_t \<Rightarrow> sf_state \<Rightarrow> bool \<times> sf_state" where
  "f32_le a b s =
     (let uiA = ucast a; uiB = ucast b
      in if isNaNF32UI uiA \<or> isNaNF32UI uiB then
           (False, softfloat_raiseFlags softfloat_flag_invalid s)
         else
           let signA = signF32UI uiA; signB = signF32UI uiB
           in (if signA \<noteq> signB then signA \<or> (ucast (push_bit 1 (uiA OR uiB)) :: u32) = 0
               else uiA = uiB \<or> signA \<noteq> (uiA < uiB), s))"

definition f32_le_quiet :: "float32_t \<Rightarrow> float32_t \<Rightarrow> sf_state \<Rightarrow> bool \<times> sf_state" where
  "f32_le_quiet a b s =
     (let uiA = ucast a; uiB = ucast b
      in if isNaNF32UI uiA \<or> isNaNF32UI uiB then
           (False, if softfloat_isSigNaNF32UI uiA \<or> softfloat_isSigNaNF32UI uiB
                   then softfloat_raiseFlags softfloat_flag_invalid s else s)
         else
           let signA = signF32UI uiA; signB = signF32UI uiB
           in (if signA \<noteq> signB then signA \<or> (ucast (push_bit 1 (uiA OR uiB)) :: u32) = 0
               else uiA = uiB \<or> signA \<noteq> (uiA < uiB), s))"

definition f32_lt :: "float32_t \<Rightarrow> float32_t \<Rightarrow> sf_state \<Rightarrow> bool \<times> sf_state" where
  "f32_lt a b s =
     (let uiA = ucast a; uiB = ucast b
      in if isNaNF32UI uiA \<or> isNaNF32UI uiB then
           (False, softfloat_raiseFlags softfloat_flag_invalid s)
         else
           let signA = signF32UI uiA; signB = signF32UI uiB
           in (if signA \<noteq> signB then signA \<and> (ucast (push_bit 1 (uiA OR uiB)) :: u32) \<noteq> 0
               else uiA \<noteq> uiB \<and> signA \<noteq> (uiA < uiB), s))"

definition f32_lt_quiet :: "float32_t \<Rightarrow> float32_t \<Rightarrow> sf_state \<Rightarrow> bool \<times> sf_state" where
  "f32_lt_quiet a b s =
     (let uiA = ucast a; uiB = ucast b
      in if isNaNF32UI uiA \<or> isNaNF32UI uiB then
           (False, if softfloat_isSigNaNF32UI uiA \<or> softfloat_isSigNaNF32UI uiB
                   then softfloat_raiseFlags softfloat_flag_invalid s else s)
         else
           let signA = signF32UI uiA; signB = signF32UI uiB
           in (if signA \<noteq> signB then signA \<and> (ucast (push_bit 1 (uiA OR uiB)) :: u32) \<noteq> 0
               else uiA \<noteq> uiB \<and> signA \<noteq> (uiA < uiB), s))"

definition f32_max :: "float32_t \<Rightarrow> float32_t \<Rightarrow> sf_state \<Rightarrow> float32_t \<times> sf_state" where
  "f32_max a b s =
     (let (lt, s) = f32_lt_quiet b a s;
          (greater, s) = (if lt then (True, s) else let (e, s) = f32_eq b a s in (e \<and> signF32UI (ucast b), s))
      in if isNaNF32UI (ucast a) \<and> isNaNF32UI (ucast b) then (ucast defaultNaNF32UI, s)
         else (if greater \<or> isNaNF32UI (ucast b) then a else b, s))"

definition f32_min :: "float32_t \<Rightarrow> float32_t \<Rightarrow> sf_state \<Rightarrow> float32_t \<times> sf_state" where
  "f32_min a b s =
     (let (lt, s) = f32_lt_quiet a b s;
          (less, s) = (if lt then (True, s) else let (e, s) = f32_eq a b s in (e \<and> signF32UI (ucast a), s))
      in if isNaNF32UI (ucast a) \<and> isNaNF32UI (ucast b) then (ucast defaultNaNF32UI, s)
         else (if less \<or> isNaNF32UI (ucast b) then a else b, s))"

section \<open>Classification and rounding to an integral value\<close>

definition f32_isSignalingNaN :: "float32_t \<Rightarrow> bool" where
  "f32_isSignalingNaN a = softfloat_isSigNaNF32UI (ucast a)"

definition f32_classify :: "float32_t \<Rightarrow> u64" where
  "f32_classify a =
     (let uiA = ucast a;
          infOrNaN = (expF32UI uiA = 0xFF);
          subnormalOrZero = (expF32UI uiA = 0);
          sign = signF32UI uiA;
          fracZero = (fracF32UI uiA = 0);
          isNaN = isNaNF32UI uiA;
          isSNaN = softfloat_isSigNaNF32UI uiA
      in push_bit 0 (of_bool (sign \<and> infOrNaN \<and> fracZero)) OR
         push_bit 1 (of_bool (sign \<and> \<not> infOrNaN \<and> \<not> subnormalOrZero)) OR
         push_bit 2 (of_bool (sign \<and> subnormalOrZero \<and> \<not> fracZero)) OR
         push_bit 3 (of_bool (sign \<and> subnormalOrZero \<and> fracZero)) OR
         push_bit 7 (of_bool (\<not> sign \<and> infOrNaN \<and> fracZero)) OR
         push_bit 6 (of_bool (\<not> sign \<and> \<not> infOrNaN \<and> \<not> subnormalOrZero)) OR
         push_bit 5 (of_bool (\<not> sign \<and> subnormalOrZero \<and> \<not> fracZero)) OR
         push_bit 4 (of_bool (\<not> sign \<and> subnormalOrZero \<and> fracZero)) OR
         push_bit 8 (of_bool (isNaN \<and> isSNaN)) OR
         push_bit 9 (of_bool (isNaN \<and> \<not> isSNaN)))"

definition f32_roundToInt :: "float32_t \<Rightarrow> u8 \<Rightarrow> bool \<Rightarrow> sf_state \<Rightarrow> float32_t \<times> sf_state" where
  "f32_roundToInt a roundingMode exact s =
     (let uiA = ucast a;
          exp = expF32UI uiA
      in if exp \<le> 0x7E then
           if (ucast (push_bit 1 uiA) :: u32) = 0 then (a, s)
           else
             let s = (if exact then softfloat_raiseFlags softfloat_flag_inexact s else s);
                 uiZ = uiA AND packToF32UI True 0 0;
                 uiZ =
                   (if roundingMode = softfloat_round_near_even \<and> fracF32UI uiA = 0 then uiZ
                    else if roundingMode = softfloat_round_near_even
                       \<or> roundingMode = softfloat_round_near_maxMag then
                      if exp = 0x7E then uiZ OR packToF32UI False 0x7F 0 else uiZ
                    else if roundingMode = softfloat_round_min then
                      if uiZ \<noteq> 0 then packToF32UI True 0x7F 0 else uiZ
                    else if roundingMode = softfloat_round_max then
                      if uiZ = 0 then packToF32UI False 0x7F 0 else uiZ
                    else uiZ)
             in (ucast uiZ, s)
         else if 0x96 \<le> exp then
           if exp = 0xFF \<and> fracF32UI uiA \<noteq> 0
           then let (uiZ, s) = softfloat_propagateNaNF32UI uiA 0 s in (ucast uiZ, s)
           else (a, s)
         else
           let lastBitMask = push_bit (nat (0x96 - exp)) 1;
               roundBitsMask = lastBitMask - 1;
               uiZ =
                 (if roundingMode = softfloat_round_near_maxMag then uiA + drop_bit 1 lastBitMask
                  else if roundingMode = softfloat_round_near_even then
                    let uiZ = uiA + drop_bit 1 lastBitMask
                    in if uiZ AND roundBitsMask = 0 then uiZ AND NOT lastBitMask else uiZ
                  else if roundingMode = (if signF32UI uiA then softfloat_round_min else softfloat_round_max)
                  then uiA + roundBitsMask
                  else uiA);
               uiZ = uiZ AND NOT roundBitsMask;
               s = (if exact \<and> uiZ \<noteq> uiA then softfloat_raiseFlags softfloat_flag_inexact s else s)
           in (ucast uiZ, s))"

end
