(* ===== verification/SF_F64.thy ===== *)
theory SF_F64
  imports SF_Core
begin

text \<open>
  Double precision: the counterparts of the single-precision routines for 64-bit values. The
  magnitude routines of this format take the sign of the result as an argument.
\<close>

section \<open>Fields\<close>

definition signF64UI :: "u64 \<Rightarrow> bool" where
  "signF64UI a \<longleftrightarrow> drop_bit 63 a \<noteq> 0"

definition expF64UI :: "u64 \<Rightarrow> int" where
  "expF64UI a = uint (drop_bit 52 a AND 0x7FF)"

definition fracF64UI :: "u64 \<Rightarrow> u64" where
  "fracF64UI a = a AND 0x000FFFFFFFFFFFFF"

definition packToF64UI :: "bool \<Rightarrow> int \<Rightarrow> u64 \<Rightarrow> u64" where
  "packToF64UI sign exp sig = push_bit 63 (of_bool sign) + push_bit 52 (of_int exp) + sig"

definition isNaNF64UI :: "u64 \<Rightarrow> bool" where
  "isNaNF64UI a \<longleftrightarrow> NOT a AND 0x7FF0000000000000 = 0 \<and> a AND 0x000FFFFFFFFFFFFF \<noteq> 0"

definition defaultNaNF64UI :: u64 where
  "defaultNaNF64UI = 0x7FF8000000000000"

definition softfloat_isSigNaNF64UI :: "u64 \<Rightarrow> bool" where
  "softfloat_isSigNaNF64UI uiA \<longleftrightarrow>
     uiA AND 0x7FF8000000000000 = 0x7FF0000000000000 \<and> uiA AND 0x0007FFFFFFFFFFFF \<noteq> 0"

definition softfloat_f64UIToCommonNaN :: "u64 \<Rightarrow> sf_state \<Rightarrow> sf_state" where
  "softfloat_f64UIToCommonNaN uiA s =
     (if uiA AND 0x0008000000000000 = 0 then softfloat_raiseFlags softfloat_flag_invalid s else s)"

definition softfloat_commonNaNToF64UI :: u64 where
  "softfloat_commonNaNToF64UI = defaultNaNF64UI"

definition softfloat_propagateNaNF64UI :: "u64 \<Rightarrow> u64 \<Rightarrow> sf_state \<Rightarrow> u64 \<times> sf_state" where
  "softfloat_propagateNaNF64UI uiA uiB s =
     (let s = (if softfloat_isSigNaNF64UI uiA \<or> softfloat_isSigNaNF64UI uiB
               then softfloat_raiseFlags softfloat_flag_invalid s else s)
      in (defaultNaNF64UI, s))"

definition softfloat_normSubnormalF64Sig :: "u64 \<Rightarrow> exp_sig" where
  "softfloat_normSubnormalF64Sig sig =
     (let shiftDist = int (softfloat_countLeadingZeros64 sig) - 11
      in \<lparr> es_exp = 1 - shiftDist, es_sig = push_bit (nat shiftDist) sig \<rparr>)"

section \<open>Rounding and packing\<close>

definition softfloat_roundPackToF64 :: "bool \<Rightarrow> int \<Rightarrow> u64 \<Rightarrow> sf_state \<Rightarrow> float64_t \<times> sf_state" where
  "softfloat_roundPackToF64 sign exp sig s =
     (let roundingMode = softfloat_roundingMode s;
          roundNearEven = (roundingMode = softfloat_round_near_even);
          roundIncrement =
            (if \<not> roundNearEven \<and> roundingMode \<noteq> softfloat_round_near_maxMag
             then if roundingMode = (if sign then softfloat_round_min else softfloat_round_max)
                  then 0x3FF else 0
             else 0x200) :: u64;
          roundBits = sig AND 0x3FF;
          isBig = 0x7FD \<le> (of_int exp :: u16)
      in if isBig \<and> \<not> exp < 0 \<and> (0x7FD < exp \<or> 0x8000000000000000 \<le> sig + roundIncrement) then
           (packToF64UI sign 0x7FF 0 - of_bool (roundIncrement = 0),
            softfloat_raiseFlags (softfloat_flag_overflow OR softfloat_flag_inexact) s)
         else
           let (exp, sig, roundBits, s) =
                 (if isBig \<and> exp < 0 then
                    let isTiny = (softfloat_detectTininess s = softfloat_tininess_beforeRounding
                          \<or> exp < -1 \<or> sig + roundIncrement < 0x8000000000000000);
                        sig = softfloat_shiftRightJam64 sig (of_int (- exp));
                        roundBits = sig AND 0x3FF
                    in (0, sig, roundBits,
                        if isTiny \<and> roundBits \<noteq> 0 then softfloat_raiseFlags softfloat_flag_underflow s else s)
                  else (exp, sig, roundBits, s));
               sig = drop_bit 10 (sig + roundIncrement);
               s = (if roundBits \<noteq> 0 then softfloat_raiseFlags softfloat_flag_inexact s else s)
           in if roundBits \<noteq> 0 \<and> roundingMode = softfloat_round_odd then
                (packToF64UI sign exp (sig OR 1), s)
              else
                let sig = sig AND NOT (of_bool (roundBits XOR 0x200 = 0 \<and> roundNearEven));
                    exp = (if sig = 0 then 0 else exp)
                in (packToF64UI sign exp sig, s))"

definition softfloat_normRoundPackToF64 :: "bool \<Rightarrow> int \<Rightarrow> u64 \<Rightarrow> sf_state \<Rightarrow> float64_t \<times> sf_state" where
  "softfloat_normRoundPackToF64 sign exp sig s =
     (let shiftDist = int (softfloat_countLeadingZeros64 sig) - 1;
          exp = exp - shiftDist
      in if 10 \<le> shiftDist \<and> (of_int exp :: u32) < 0x7FD then
           (packToF64UI sign (if sig \<noteq> 0 then exp else 0) (push_bit (nat (shiftDist - 10)) sig), s)
         else softfloat_roundPackToF64 sign exp (push_bit (nat shiftDist) sig) s)"

section \<open>Addition and subtraction\<close>

definition softfloat_addMagsF64 :: "u64 \<Rightarrow> u64 \<Rightarrow> bool \<Rightarrow> sf_state \<Rightarrow> float64_t \<times> sf_state" where
  "softfloat_addMagsF64 uiA uiB signZ s =
     (let expA = expF64UI uiA;
          sigA = fracF64UI uiA;
          expB = expF64UI uiB;
          sigB = fracF64UI uiB;
          expDiff = expA - expB;
          propagateNaN = softfloat_propagateNaNF64UI uiA uiB s
      in if expDiff = 0 then
           if expA = 0 then (uiA + sigB, s)
           else if expA = 0x7FF then
             if sigA OR sigB \<noteq> 0 then propagateNaN else (uiA, s)
           else
             let expZ = expA;
                 sigZ = 0x0020000000000000 + sigA + sigB;
                 sigZ = push_bit 9 sigZ
             in softfloat_roundPackToF64 signZ expZ sigZ s
         else
           let sigA = push_bit 9 sigA;
               sigB = push_bit 9 sigB
           in if expDiff < 0 \<and> expB = 0x7FF then
                if sigB \<noteq> 0 then propagateNaN else (packToF64UI signZ 0x7FF 0, s)
              else if \<not> expDiff < 0 \<and> expA = 0x7FF then
                if sigA \<noteq> 0 then propagateNaN else (uiA, s)
              else
                let (expZ, sigA, sigB) =
                      (if expDiff < 0 then
                         let sigA = (if expA \<noteq> 0 then sigA + 0x2000000000000000 else push_bit 1 sigA);
                             sigA = softfloat_shiftRightJam64 sigA (of_int (- expDiff))
                         in (expB, sigA, sigB)
                       else
                         let sigB = (if expB \<noteq> 0 then sigB + 0x2000000000000000 else push_bit 1 sigB);
                             sigB = softfloat_shiftRightJam64 sigB (of_int expDiff)
                         in (expA, sigA, sigB));
                    sigZ = 0x2000000000000000 + sigA + sigB;
                    (expZ, sigZ) =
                      (if sigZ < 0x4000000000000000 then (expZ - 1, push_bit 1 sigZ) else (expZ, sigZ))
                in softfloat_roundPackToF64 signZ expZ sigZ s)"

text \<open>The \<open>int_fast64_t\<close> difference of two 52-bit fractions is the integer difference.\<close>

definition softfloat_subMagsF64 :: "u64 \<Rightarrow> u64 \<Rightarrow> bool \<Rightarrow> sf_state \<Rightarrow> float64_t \<times> sf_state" where
  "softfloat_subMagsF64 uiA uiB signZ s =
     (let expA = expF64UI uiA;
          sigA = fracF64UI uiA;
          expB = expF64UI uiB;
          sigB = fracF64UI uiB;
          expDiff = expA - expB;
          propagateNaN = softfloat_propagateNaNF64UI uiA uiB s
      in if expDiff = 0 then
           if expA = 0x7FF then
             if sigA OR sigB \<noteq> 0 then propagateNaN
             else (defaultNaNF64UI, softfloat_raiseFlags softfloat_flag_invalid s)
           else
             let sigDiff = uint sigA - uint sigB
             in if sigDiff = 0 then
                  (packToF64UI (softfloat_roundingMode s = softfloat_round_min) 0 0, s)
                else
                  let expA = (if expA \<noteq> 0 then expA - 1 else expA);
                      (signZ, sigDiff) = (if sigDiff < 0 then (\<not> signZ, - sigDiff) else (signZ, sigDiff));
                      shiftDist = int (softfloat_countLeadingZeros64 (of_int sigDiff)) - 11;
                      expZ = expA - shiftDist;
                      (shiftDist, expZ) = (if expZ < 0 then (expA, 0) else (shiftDist, expZ))
                  in (packToF64UI signZ expZ (push_bit (nat shiftDist) (of_int sigDiff)), s)
         else
           let sigA = push_bit 10 sigA;
               sigB = push_bit 10 sigB
           in if expDiff < 0 then
                let signZ = (\<not> signZ)
                in if expB = 0x7FF then
                     if sigB \<noteq> 0 then propagateNaN else (packToF64UI signZ 0x7FF 0, s)
                   else
                     let sigA = sigA + (if expA \<noteq> 0 then 0x4000000000000000 else sigA);
                         sigA = softfloat_shiftRightJam64 sigA (of_int (- expDiff));
                         sigB = sigB OR 0x4000000000000000;
                         expZ = expB;
                         sigZ = sigB - sigA
                     in softfloat_normRoundPackToF64 signZ (expZ - 1) sigZ s
              else
                if expA = 0x7FF then
                  if sigA \<noteq> 0 then propagateNaN else (uiA, s)
                else
                  let sigB = sigB + (if expB \<noteq> 0 then 0x4000000000000000 else sigB);
                      sigB = softfloat_shiftRightJam64 sigB (of_int expDiff);
                      sigA = sigA OR 0x4000000000000000;
                      expZ = expA;
                      sigZ = sigA - sigB
                  in softfloat_normRoundPackToF64 signZ (expZ - 1) sigZ s)"

definition f64_add :: "float64_t \<Rightarrow> float64_t \<Rightarrow> sf_state \<Rightarrow> float64_t \<times> sf_state" where
  "f64_add a b s =
     (let uiA = a; signA = signF64UI uiA; uiB = b; signB = signF64UI uiB
      in if signA = signB then softfloat_addMagsF64 uiA uiB signA s
         else softfloat_subMagsF64 uiA uiB signA s)"

definition f64_sub :: "float64_t \<Rightarrow> float64_t \<Rightarrow> sf_state \<Rightarrow> float64_t \<times> sf_state" where
  "f64_sub a b s =
     (let uiA = a; signA = signF64UI uiA; uiB = b; signB = signF64UI uiB
      in if signA = signB then softfloat_subMagsF64 uiA uiB signA s
         else softfloat_addMagsF64 uiA uiB signA s)"

section \<open>Multiplication\<close>

definition f64_mul :: "float64_t \<Rightarrow> float64_t \<Rightarrow> sf_state \<Rightarrow> float64_t \<times> sf_state" where
  "f64_mul a b s =
     (let uiA = a;
          signA = signF64UI uiA;
          expA = expF64UI uiA;
          sigA = fracF64UI uiA;
          uiB = b;
          signB = signF64UI uiB;
          expB = expF64UI uiB;
          sigB = fracF64UI uiB;
          signZ = (signA \<noteq> signB);
          propagateNaN = softfloat_propagateNaNF64UI uiA uiB s;
          infArg = (\<lambda>magBits. if magBits = 0
            then (defaultNaNF64UI, softfloat_raiseFlags softfloat_flag_invalid s)
            else (packToF64UI signZ 0x7FF 0, s));
          zero = (packToF64UI signZ 0 0, s)
      in if expA = 0x7FF then
           if sigA \<noteq> 0 \<or> expB = 0x7FF \<and> sigB \<noteq> 0 then propagateNaN
           else infArg (of_int expB OR sigB)
         else if expB = 0x7FF then
           if sigB \<noteq> 0 then propagateNaN else infArg (of_int expA OR sigA)
         else if expA = 0 \<and> sigA = 0 then zero
         else if expB = 0 \<and> sigB = 0 then zero
         else
           let (expA, sigA) =
                 (if expA = 0 then
                    let normExpSig = softfloat_normSubnormalF64Sig sigA in (es_exp normExpSig, es_sig normExpSig)
                  else (expA, sigA));
               (expB, sigB) =
                 (if expB = 0 then
                    let normExpSig = softfloat_normSubnormalF64Sig sigB in (es_exp normExpSig, es_sig normExpSig)
                  else (expB, sigB));
               expZ = expA + expB - 0x3FF;
               sigA = push_bit 10 (sigA OR 0x0010000000000000);
               sigB = push_bit 11 (sigB OR 0x0010000000000000);
               sig128Z = softfloat_mul64To128 sigA sigB;
               sigZ = u128_v64 sig128Z OR of_bool (u128_v0 sig128Z \<noteq> 0);
               (expZ, sigZ) = (if sigZ < 0x4000000000000000 then (expZ - 1, push_bit 1 sigZ) else (expZ, sigZ))
           in softfloat_roundPackToF64 signZ expZ sigZ s)"

section \<open>Comparisons\<close>

definition f64_eq :: "float64_t \<Rightarrow> float64_t \<Rightarrow> sf_state \<Rightarrow> bool \<times> sf_state" where
  "f64_eq a b s =
     (let uiA = a; uiB = b
      in if isNaNF64UI uiA \<or> isNaNF64UI uiB then
           (False, if softfloat_isSigNaNF64UI uiA \<or> softfloat_isSigNaNF64UI uiB
                   then softfloat_raiseFlags softfloat_flag_invalid s else s)
         else (uiA = uiB \<or> (uiA OR uiB) AND 0x7FFFFFFFFFFFFFFF = 0, s))"

definition f64_eq_signaling :: "float64_t \<Rightarrow> float64_t \<Rightarrow> sf_state \<Rightarrow> bool \<times> sf_state" where
  "f64_eq_signaling a b s =
     (let uiA = a; uiB = b
      in if isNaNF64UI uiA \<or> isNaNF64UI uiB then
           (False, softfloat_raiseFlags softfloat_flag_invalid s)
         else (uiA = uiB \<or> (uiA OR uiB) AND 0x7FFFFFFFFFFFFFFF = 0, s))"

definition f64_le :: "float64_t \<Rightarrow> float64_t \<Rightarrow> sf_state \<Rightarrow> bool \<times> sf_state" where
  "f64_le a b s =
     (let uiA = a; uiB = b
      in if isNaNF64UI uiA \<or> isNaNF64UI uiB then
           (False, softfloat_raiseFlags softfloat_flag_invalid s)
         else
           let signA = signF64UI uiA; signB = signF64UI uiB
           in (if signA \<noteq> signB then signA \<or> (uiA OR uiB) AND 0x7FFFFFFFFFFFFFFF = 0
               else uiA = uiB \<or> signA \<noteq> (uiA < uiB), s))"

definition f64_le_quiet :: "float64_t \<Rightarrow> float64_t \<Rightarrow> sf_state \<Rightarrow> bool \<times> sf_state" where
  "f64_le_quiet a b s =
     (let uiA = a; uiB = b
      in if isNaNF64UI uiA \<or> isNaNF64UI uiB then
           (False, if softfloat_isSigNaNF64UI uiA \<or> softfloat_isSigNaNF64UI uiB
                   then softfloat_raiseFlags softfloat_flag_invalid s else s)
         else
           let signA = signF64UI uiA; signB = signF64UI uiB
           in (if signA \<noteq> signB then signA \<or> (uiA OR uiB) AND 0x7FFFFFFFFFFFFFFF = 0
               else uiA = uiB \<or> signA \<noteq> (uiA < uiB), s))"

definition f64_lt :: "float64_t \<Rightarrow> float64_t \<Rightarrow> sf_state \<Rightarrow> bool \<times> sf_state" where
  "f64_lt a b s =
     (let uiA = a; uiB = b
      in if isNaNF64UI uiA \<or> isNaNF64UI uiB then
           (False, softfloat_raiseFlags softfloat_flag_invalid s)
         else
           let signA = signF64UI uiA; signB = signF64UI uiB
           in (if signA \<noteq> signB then signA \<and> (uiA OR uiB) AND 0x7FFFFFFFFFFFFFFF \<noteq> 0
               else uiA \<noteq> uiB \<and> signA \<noteq> (uiA < uiB), s))"

definition f64_lt_quiet :: "float64_t \<Rightarrow> float64_t \<Rightarrow> sf_state \<Rightarrow> bool \<times> sf_state" where
  "f64_lt_quiet a b s =
     (let uiA = a; uiB = b
      in if isNaNF64UI uiA \<or> isNaNF64UI uiB then
           (False, if softfloat_isSigNaNF64UI uiA \<or> softfloat_isSigNaNF64UI uiB
                   then softfloat_raiseFlags softfloat_flag_invalid s else s)
         else
           let signA = signF64UI uiA; signB = signF64UI uiB
           in (if signA \<noteq> signB then signA \<and> (uiA OR uiB) AND 0x7FFFFFFFFFFFFFFF \<noteq> 0
               else uiA \<noteq> uiB \<and> signA \<noteq> (uiA < uiB), s))"

definition f64_max :: "float64_t \<Rightarrow> float64_t \<Rightarrow> sf_state \<Rightarrow> float64_t \<times> sf_state" where
  "f64_max a b s =
     (let (lt, s) = f64_lt_quiet b a s;
          (greater, s) = (if lt then (True, s) else let (e, s) = f64_eq b a s in (e \<and> signF64UI b, s))
      in if isNaNF64UI a \<and> isNaNF64UI b then (defaultNaNF64UI, s)
         else (if greater \<or> isNaNF64UI b then a else b, s))"

definition f64_min :: "float64_t \<Rightarrow> float64_t \<Rightarrow> sf_state \<Rightarrow> float64_t \<times> sf_state" where
  "f64_min a b s =
     (let (lt, s) = f64_lt_quiet a b s;
          (less, s) = (if lt then (True, s) else let (e, s) = f64_eq a b s in (e \<and> signF64UI a, s))
      in if isNaNF64UI a \<and> isNaNF64UI b then (defaultNaNF64UI, s)
         else (if less \<or> isNaNF64UI b then a else b, s))"

section \<open>Classification and rounding to an integral value\<close>

definition f64_isSignalingNaN :: "float64_t \<Rightarrow> bool" where
  "f64_isSignalingNaN a = softfloat_isSigNaNF64UI a"

definition f64_classify :: "float64_t \<Rightarrow> u64" where
  "f64_classify a =
     (let uiA = a;
          infOrNaN = (expF64UI uiA = 0x7FF);
          subnormalOrZero = (expF64UI uiA = 0);
          sign = signF64UI uiA;
          fracZero = (fracF64UI uiA = 0);
          isNaN = isNaNF64UI uiA;
          isSNaN = softfloat_isSigNaNF64UI uiA
      in push_bit 0 (of_bool (sign \<and> infOrNaN \<and> fracZero)) OR
         push_bit 1 (of_bool (sign \<and> \<not> infOrNaN \<and> \<not> subnormalOrZero)) OR
         push_bit 2 (of_bool (sign \<and> subnormalOrZero \<and> \<not> fracZero)) OR
         push_bit 3 (of_bool (sign \<and> subnormalOrZero \<and> fracZero)) OR
         push_bit 7 (of_bool (\<not> sign \<and> infOrNaN \<and> fracZero)) OR
         push_bit 6 (of_bool (\<not> sign \<and> \<not> infOrNaN \<and> \<not> subnormalOrZero)) OR
         push_bit 5 (of_bool (\<not> sign \<and> subnormalOrZero \<and> \<not> fracZero)) OR
         push_bit 4 (of_bool (\<not> sign \<and> subnormalOrZero \<and> fracZero)) OR
         push_bit 8 (of_bool (isNaN \<and> isSNaN)) OR
         push_bit 9 (of_bool (isNaN \<and> \<not> isSNaN)))"

definition f64_roundToInt :: "float64_t \<Rightarrow> u8 \<Rightarrow> bool \<Rightarrow> sf_state \<Rightarrow> float64_t \<times> sf_state" where
  "f64_roundToInt a roundingMode exact s =
     (let uiA = a;
          exp = expF64UI uiA
      in if exp \<le> 0x3FE then
           if uiA AND 0x7FFFFFFFFFFFFFFF = 0 then (a, s)
           else
             let s = (if exact then softfloat_raiseFlags softfloat_flag_inexact s else s);
                 uiZ = uiA AND packToF64UI True 0 0;
                 uiZ =
                   (if roundingMode = softfloat_round_near_even \<and> fracF64UI uiA = 0 then uiZ
                    else if roundingMode = softfloat_round_near_even
                       \<or> roundingMode = softfloat_round_near_maxMag then
                      if exp = 0x3FE then uiZ OR packToF64UI False 0x3FF 0 else uiZ
                    else if roundingMode = softfloat_round_min then
                      if uiZ \<noteq> 0 then packToF64UI True 0x3FF 0 else uiZ
                    else if roundingMode = softfloat_round_max then
                      if uiZ = 0 then packToF64UI False 0x3FF 0 else uiZ
                    else uiZ)
             in (uiZ, s)
         else if 0x433 \<le> exp then
           if exp = 0x7FF \<and> fracF64UI uiA \<noteq> 0
           then softfloat_propagateNaNF64UI uiA 0 s
           else (a, s)
         else
           let lastBitMask = push_bit (nat (0x433 - exp)) 1;
               roundBitsMask = lastBitMask - 1;
               uiZ =
                 (if roundingMode = softfloat_round_near_maxMag then uiA + drop_bit 1 lastBitMask
                  else if roundingMode = softfloat_round_near_even then
                    let uiZ = uiA + drop_bit 1 lastBitMask
                    in if uiZ AND roundBitsMask = 0 then uiZ AND NOT lastBitMask else uiZ
                  else if roundingMode = (if signF64UI uiA then softfloat_round_min else softfloat_round_max)
                  then uiA + roundBitsMask
                  else uiA);
               uiZ = uiZ AND NOT roundBitsMask;
               s = (if exact \<and> uiZ \<noteq> uiA then softfloat_raiseFlags softfloat_flag_inexact s else s)
           in (uiZ, s))"

end
