(* ===== verification/SF_Pack.thy ===== *)
theory SF_Pack
  imports SF_Primitives SF_F16 SF_F32 SF_F64
begin

text \<open>
  The routines \<open>softfloat_roundPackToF16\<close>, \<open>BF16\<close>, \<open>F32\<close> and \<open>F64\<close> are one algorithm on 64-bit words,
  \<open>rp_word\<close>, with the number of fraction and guard bits, the bias, the packing macro and the jamming
  shift as parameters. The locale \<open>float_format\<close> states what the algorithm relies on; inside it
  \<open>rp_word\<close> is refined to \<open>rp_core\<close> and so shown to round correctly. Its four interpretations
  discharge the laws for the packing macros and shifts of the formats.
\<close>

section \<open>The packing algorithm on 64-bit words\<close>

definition rp_word_inc :: "nat \<Rightarrow> u8 \<Rightarrow> bool \<Rightarrow> u64" where
  "rp_word_inc g rm sign =
     (if rm \<noteq> 0 \<and> rm \<noteq> 4 then if rm = (if sign then 2 else 3) then mask g else 0 else push_bit (g - 1) 1)"

definition rp_word_round :: "nat \<Rightarrow> u8 \<Rightarrow> bool \<Rightarrow> u64 \<Rightarrow> u64" where
  "rp_word_round g rm sign x =
     (let z = drop_bit g (x + rp_word_inc g rm sign); rb = x AND mask g
      in if rb \<noteq> 0 \<and> rm = 5 then z OR 1
         else z AND NOT (of_bool (rb XOR push_bit (g - 1) 1 = 0 \<and> rm = 0)))"

definition rp_word ::
  "nat \<Rightarrow> nat \<Rightarrow> int \<Rightarrow> (bool \<Rightarrow> int \<Rightarrow> u64 \<Rightarrow> 'f::len word) \<Rightarrow> (u64 \<Rightarrow> int \<Rightarrow> u64) \<Rightarrow>
   bool \<Rightarrow> int \<Rightarrow> u64 \<Rightarrow> sf_state \<Rightarrow> 'f word \<times> sf_state" where
  "rp_word p g B pack shr sign e sig s =
     (let rm = softfloat_roundingMode s; sum = sig + rp_word_inc g rm sign; top = push_bit (p + g + 1) 1
      in if \<not> e < 0 \<and> (2 * B - 1 < e \<or> e = 2 * B - 1 \<and> top \<le> sum) then
           (pack sign (2 * B + 1) 0 - of_bool (rp_word_inc g rm sign = 0), softfloat_raiseFlags 5 s)
         else
           let x = (if e < 0 then shr sig (- e) else sig);
               rb = x AND mask g;
               z = rp_word_round g rm sign x;
               isTiny = (softfloat_detectTininess s = 0 \<or> e < -1 \<or> sum < top);
               s = (if e < 0 \<and> isTiny \<and> rb \<noteq> 0 then softfloat_raiseFlags 2 s else s);
               s = (if rb \<noteq> 0 then softfloat_raiseFlags 1 s else s)
           in (pack sign (if z = 0 then 0 else if e < 0 then 0 else e) z, s))"

lemma unat_and_not_mask: "unat ((a :: 'a::len word) AND NOT (mask n)) = unat a - unat a mod 2 ^ n"
proof -
  have "a AND NOT (mask n) = push_bit n (drop_bit n a)" by (rule bit_word_eqI) (auto simp: bit_simps)
  moreover have "unat a div 2 ^ n * 2 ^ n < 2 ^ LENGTH('a)"
    by (rule le_less_trans [OF div_times_less_eq_dividend unat_lt2p])
  ultimately show ?thesis by (simp add: unat_push_bit minus_mod_eq_div_mult)
qed

lemma unat_and_not_bool:
  "unat ((a :: 'a::len word) AND NOT (of_bool b)) = (if b then unat a - unat a mod 2 else unat a)"
  using unat_and_not_mask [of a 1] by simp

lemma unat_mask: "unat (mask n :: u64) = 2 ^ n - 1" if "n \<le> 64"
  using uint_mask_eq [where 'a = 64, of n] that by (simp add: min_def mask_eq_exp_minus_1 nat_diff_distrib nat_power_eq flip: nat_uint_eq)

lemma unat_exp: "unat (push_bit n 1 :: u64) = 2 ^ n" if "n < 64"
proof -
  have "(2::nat) ^ n < 2 ^ 64" using that by (rule power_strict_increasing) simp
  then show ?thesis using unat_push_bit [of n "1 :: u64"] by (simp del: push_bit_of_1)
qed

lemma unat_rp_word_inc:
  "0 < g \<Longrightarrow> g < 64 \<Longrightarrow> unat (rp_word_inc g rm sign) = rp_inc g rm sign"
  using unat_mask [of g] unat_exp [of "g - 1"] by (simp add: rp_word_inc_def rp_inc_def)

lemma rp_inc_less: "0 < g \<Longrightarrow> rp_inc g rm sign < 2 ^ g"
  by (cases g) (auto simp: rp_inc_def)

lemma word_xor_zero: "a XOR b = 0 \<longleftrightarrow> a = (b :: 'a::len word)"
  by (metis bit.xor_self xor.left_neutral xor.assoc xor.right_neutral)

lemma unat_rp_word_round:
  assumes g: "0 < g" "g < 64" and x: "unat x + 2 ^ g \<le> 2 ^ 64"
  shows "unat (rp_word_round g rm sign x) = rp_round g rm sign (unat x)"
    "x AND mask g = 0 \<longleftrightarrow> unat x mod 2 ^ g = 0"
    "unat (x + rp_word_inc g rm sign) = unat x + rp_inc g rm sign"
proof -
  show sum: "unat (x + rp_word_inc g rm sign) = unat x + rp_inc g rm sign"
    using x rp_inc_less [OF g(1), of rm sign] unat_rp_word_inc [OF g, of rm sign] unat_plus_cases [of x "rp_word_inc g rm sign"]
    by simp
  have rb: "x AND mask g = 0 \<longleftrightarrow> unat x mod 2 ^ g = 0"
    by (simp add: word_eq_0_unat unat_and_mask)
  then show "x AND mask g = 0 \<longleftrightarrow> unat x mod 2 ^ g = 0" .
  have half: "(x AND mask g) XOR push_bit (g - 1) 1 = 0 \<longleftrightarrow> unat x mod 2 ^ g = 2 ^ (g - 1)"
    unfolding word_xor_zero using unat_exp [of "g - 1"] g unat_and_mask [of x g] by (metis less_imp_diff_less word_unat_eq_iff)
  have "z OR 1 = z OR of_bool True" for z :: u64 by simp
  then show "unat (rp_word_round g rm sign x) = rp_round g rm sign (unat x)"
    unfolding rp_word_round_def rp_round_def Let_def rb half
    by (simp only: unat_or_bool unat_and_not_bool unat_drop_bit sum split: if_split) auto
qed


section \<open>The contract of a format\<close>

text \<open>
  What the packing algorithm relies on: \<open>pack\<close> puts sign, exponent and significand side by side, a
  significand that carries into the exponent included, and \<open>shr\<close> shifts right with jamming.
\<close>

locale float_format =
  fixes p g :: nat and B :: int and pack :: "bool \<Rightarrow> int \<Rightarrow> u64 \<Rightarrow> 'f::len word" and shr :: "u64 \<Rightarrow> int \<Rightarrow> u64"
  assumes guard: "2 \<le> g" "p + g < 63" and bias: "1 \<le> B" and width: "(2 * B + 2) * 2 ^ p = 2 ^ (LENGTH('f) - 1)"
    and pack: "0 \<le> e \<Longrightarrow> e * 2 ^ p + uint x < 2 ^ (LENGTH('f) - 1) \<Longrightarrow>
      int (unat (pack sign e x)) = of_bool sign * 2 ^ (LENGTH('f) - 1) + e * 2 ^ p + uint x"
    and shr: "0 < d \<Longrightarrow> d < 2 ^ 16 \<Longrightarrow> unat x < 2 ^ (p + g + 1) \<Longrightarrow> unat (shr x d) = jam (unat x) (nat d)"
begin

lemma pack_unat:
  assumes "0 \<le> e" "int m = e * 2 ^ p + uint x" "int m < (2 * B + 2) * 2 ^ p"
  shows "unat (pack sign e x) = of_bool sign * 2 ^ (LENGTH('f) - 1) + m"
proof -
  have "int (unat (pack sign e x)) = int (of_bool sign * 2 ^ (LENGTH('f) - 1) + m)"
    using pack [of e x sign] assms width by simp
  then show ?thesis by (simp only: of_nat_eq_iff)
qed

lemma jam_bound:
  assumes "n < 2 ^ (p + g + 1)" "0 < d"
  shows "jam n d \<le> 2 ^ (p + g)"
proof -
  have "n div 2 ^ d \<le> n div 2 ^ 1" using assms by (intro div_le_mono2 power_increasing) auto
  also have "\<dots> < 2 ^ (p + g)" using assms(1) by (simp add: less_mult_imp_div_less)
  finally show ?thesis by (simp add: jam_def)
qed

lemma sum_bound: "unat x < 2 ^ (p + g + 1) \<Longrightarrow> unat x + 2 ^ g \<le> 2 ^ 64"
proof -
  assume "unat x < 2 ^ (p + g + 1)"
  moreover have "(2::nat) ^ (p + g + 1) \<le> 2 ^ 63" "(2::nat) ^ g \<le> 2 ^ 63"
    using guard by (intro power_increasing; simp)+
  ultimately show ?thesis by simp
qed

lemma core_bound:
  assumes "2 ^ (p + g) \<le> n" "n < 2 ^ (p + g + 1)" "rp_core p g B rm td sign e n = (m, fl)"
  shows "int m < (2 * B + 2) * 2 ^ p"
proof -
  have "rp_input p g B e n (real n) (real n * 2 powi (e + 1 - B - int (p + g)))"
    using assms guard bias by (simp add: rp_input_def)
  from rp_core_correct [OF this assms(3)] have "int m \<le> (2 * B + 1) * 2 ^ p"
    by (auto simp: rounds_to_def split: if_splits)
  also have "\<dots> < (2 * B + 2) * 2 ^ p" by simp
  finally show ?thesis .
qed

lemma raise_raise: "softfloat_raiseFlags f (softfloat_raiseFlags f' s) = softfloat_raiseFlags (f' OR f) s"
  by (simp add: softfloat_raiseFlags_def or.assoc)

lemma raise_zero: "softfloat_raiseFlags 0 s = s"
  by (simp add: softfloat_raiseFlags_def)

lemma top_le: "push_bit (p + g + 1) 1 \<le> (x :: u64) \<longleftrightarrow> 2 ^ (p + g + 1) \<le> unat x"
  using unat_exp [of "p + g + 1"] guard by (simp add: word_le_nat_alt del: push_bit_of_1)

lemma inc_zero: "rp_word_inc g rm sign = 0 \<longleftrightarrow> rp_inc g rm sign = 0"
  using unat_rp_word_inc [of g rm sign] guard by (simp add: word_eq_0_unat)

lemma rp_word_over:
  assumes "\<not> e < 0 \<and> (2 * B - 1 < e \<or> e = 2 * B - 1 \<and> 2 ^ (p + g + 1) \<le> unat sig + rp_inc g rm sign)"
    and "unat sig < 2 ^ (p + g + 1)" "softfloat_roundingMode s = rm"
    and core: "rp_core p g B rm (softfloat_detectTininess s) sign e (unat sig) = (m, fl)"
  shows "unat (fst (rp_word p g B pack shr sign e sig s)) = of_bool sign * 2 ^ (LENGTH('f) - 1) + m"
    "snd (rp_word p g B pack shr sign e sig s) = softfloat_raiseFlags fl s"
proof -
  have g: "0 < g" "g < 64" using guard by auto
  define M where "M = nat ((2 * B + 1) * 2 ^ p)"
  have M: "int M = (2 * B + 1) * 2 ^ p" "0 < M" using bias by (simp_all add: M_def)
  have m: "m = M - of_bool (rp_inc g rm sign = 0)" "fl = 5" using core assms(1) by (auto simp: rp_core_def M_def)
  have "unat (pack sign (2 * B + 1) 0) = of_bool sign * 2 ^ (LENGTH('f) - 1) + M"
    using M(1) bias by (intro pack_unat) (auto simp: algebra_simps)
  moreover have w: "rp_word p g B pack shr sign e sig s =
      (pack sign (2 * B + 1) 0 - of_bool (rp_inc g rm sign = 0), softfloat_raiseFlags 5 s)"
    using assms(1,3) unfolding rp_word_def Let_def top_le inc_zero
    by (simp only: unat_rp_word_round(3) [OF g sum_bound [OF assms(2)]]) simp
  ultimately show "unat (fst (rp_word p g B pack shr sign e sig s)) = of_bool sign * 2 ^ (LENGTH('f) - 1) + m"
    using M(2) by (simp add: unat_minus_cases m)
  show "snd (rp_word p g B pack shr sign e sig s) = softfloat_raiseFlags fl s" by (simp add: w m)
qed

lemma rp_word_normal:
  assumes "\<not> e < 0" "\<not> (2 * B - 1 < e \<or> e = 2 * B - 1 \<and> 2 ^ (p + g + 1) \<le> unat sig + rp_inc g rm sign)"
    and sig: "2 ^ (p + g) \<le> unat sig" "unat sig < 2 ^ (p + g + 1)" and rm: "softfloat_roundingMode s = rm"
    and core: "rp_core p g B rm (softfloat_detectTininess s) sign e (unat sig) = (m, fl)"
  shows "unat (fst (rp_word p g B pack shr sign e sig s)) = of_bool sign * 2 ^ (LENGTH('f) - 1) + m"
    "snd (rp_word p g B pack shr sign e sig s) = softfloat_raiseFlags fl s"
proof -
  have g: "0 < g" "g < 64" using guard by auto
  define z where "z = rp_word_round g rm sign sig"
  note r = unat_rp_word_round [OF g sum_bound [OF sig(2)]]
  have m: "m = nat e * 2 ^ p + unat z" "fl = of_bool (unat sig mod 2 ^ g \<noteq> 0)"
    using core assms(1,2) by (simp_all add: rp_core_def r(1) z_def split: if_splits)
  have "rp_input p g B e (unat sig) (real (unat sig)) (real (unat sig) * 2 powi (e + 1 - B - int (p + g)))"
    using sig guard bias by (simp add: rp_input_def)
  from less_le_trans [OF _ rp_round_range(1) [OF this, of rm sign], of 0] have "z \<noteq> 0"
    by (simp add: z_def word_eq_0_unat r(1))
  then have w: "rp_word p g B pack shr sign e sig s =
      (pack sign e z, if unat sig mod 2 ^ g \<noteq> 0 then softfloat_raiseFlags 1 s else s)"
    unfolding rp_word_def Let_def rm top_le r(3) using assms(1,2) by (auto simp: r(2) z_def)
  show "snd (rp_word p g B pack shr sign e sig s) = softfloat_raiseFlags fl s"
    by (simp add: w m raise_zero)
  have "int m < (2 * B + 2) * 2 ^ p" by (rule core_bound [OF sig core])
  then show "unat (fst (rp_word p g B pack shr sign e sig s)) = of_bool sign * 2 ^ (LENGTH('f) - 1) + m"
    unfolding w fst_conv using assms(1) m(1) by (intro pack_unat) simp_all
qed

lemma rp_word_subnormal:
  assumes e: "e < 0" "- (2 ^ 15) \<le> e"
    and sig: "2 ^ (p + g) \<le> unat sig" "unat sig < 2 ^ (p + g + 1)" and rm: "softfloat_roundingMode s = rm"
    and core: "rp_core p g B rm (softfloat_detectTininess s) sign e (unat sig) = (m, fl)"
  shows "unat (fst (rp_word p g B pack shr sign e sig s)) = of_bool sign * 2 ^ (LENGTH('f) - 1) + m"
    "snd (rp_word p g B pack shr sign e sig s) = softfloat_raiseFlags fl s"
proof -
  have g: "0 < g" "g < 64" using guard by auto
  define x where "x = shr sig (- e)"
  define z where "z = rp_word_round g rm sign x"
  have x: "unat x = jam (unat sig) (nat (- e))" using e sig by (simp add: x_def shr)
  have "unat x < 2 ^ (p + g + 1)" 
    unfolding x by (rule le_less_trans [OF jam_bound [OF sig(2)]]) (use e in auto)
  note r = unat_rp_word_round [OF g sum_bound [OF this]]
  note rs = unat_rp_word_round [OF g sum_bound [OF sig(2)]]
  define tin where "tin \<longleftrightarrow> softfloat_detectTininess s = 0 \<or> e < -1 \<or> unat sig + rp_inc g rm sign < 2 ^ (p + g + 1)"
  have m: "m = unat z" "fl = (if tin \<and> unat x mod 2 ^ g \<noteq> 0 then 2 else 0) OR (if unat x mod 2 ^ g \<noteq> 0 then 1 else 0)"
    using core e(1) by (simp_all add: rp_core_def Let_def tin_def r(1) z_def x)
  have lt: "y < push_bit (p + g + 1) 1 \<longleftrightarrow> unat y < 2 ^ (p + g + 1)" for y :: u64
    using top_le [of y] by (metis not_le)
  have w: "rp_word p g B pack shr sign e sig s =
      (pack sign 0 z, let s = (if tin \<and> unat x mod 2 ^ g \<noteq> 0 then softfloat_raiseFlags 2 s else s)
         in if unat x mod 2 ^ g \<noteq> 0 then softfloat_raiseFlags 1 s else s)"
    unfolding rp_word_def Let_def rm lt rs(3) tin_def using e(1) by (simp add: x_def [symmetric] r(2) z_def)
  show "snd (rp_word p g B pack shr sign e sig s) = softfloat_raiseFlags fl s"
    by (simp add: w m raise_zero raise_raise Let_def)
  have "int m < (2 * B + 2) * 2 ^ p" by (rule core_bound [OF sig core])
  then show "unat (fst (rp_word p g B pack shr sign e sig s)) = of_bool sign * 2 ^ (LENGTH('f) - 1) + m"
    unfolding w fst_conv using m(1) by (intro pack_unat) simp_all
qed

text \<open>A routine that computes as \<open>rp_word\<close> is correctly rounded.\<close>

lemma rp_word_correct:
  assumes inp: "rp_input p g B e (unat sig) y X" and e: "- (2 ^ 15) \<le> e"
    and eq: "rp_word p g B pack shr sign e sig s = (z, s')"
  shows "\<exists>m fl. unat z = of_bool sign * 2 ^ (LENGTH('f) - 1) + m \<and> s' = softfloat_raiseFlags fl s \<and>
    rounds_to p B (softfloat_roundingMode s) (softfloat_detectTininess s) sign X m fl"
proof -
  have sig: "2 ^ (p + g) \<le> unat sig" "unat sig < 2 ^ (p + g + 1)" using inp by (simp_all add: rp_input_def)
  obtain m fl where core: "rp_core p g B (softfloat_roundingMode s) (softfloat_detectTininess s) sign e (unat sig) = (m, fl)"
    by (metis surj_pair)
  have "unat (fst (rp_word p g B pack shr sign e sig s)) = of_bool sign * 2 ^ (LENGTH('f) - 1) + m \<and>
    snd (rp_word p g B pack shr sign e sig s) = softfloat_raiseFlags fl s"
    using rp_word_over [OF _ sig(2) refl core] rp_word_normal [OF _ _ sig refl core]
      rp_word_subnormal [OF _ e sig refl core] by blast
  then show ?thesis using rp_core_correct [OF inp core] by (auto simp: eq)
qed

end


section \<open>The four formats\<close>


lemma uint_push_bit: "uint (push_bit n (a :: 'a::len word)) = uint a * 2 ^ n mod 2 ^ LENGTH('a)"
  using unsigned_push_bit_eq [where 'a = int, of n a] by (simp only: take_bit_eq_mod push_bit_eq_mult)

lemma uint_ucast: "uint (ucast (a :: 'a::len word) :: 'b::len word) = uint a mod 2 ^ LENGTH('b)"
  by (simp add: unsigned_ucast_eq take_bit_eq_mod)

lemma unat_small_cast: "unat (a :: 'a::len word) < 2 ^ LENGTH('b) \<Longrightarrow> unat (ucast a :: 'b::len word) = unat a"
  by (simp add: unsigned_ucast_eq take_bit_nat_eq_self)

lemmas pack_arith = uint_push_bit uint_ucast uint_word_ariths(1) uint_word_of_int

lemma jam32:
  assumes "0 < d" "d < 2 ^ 16" "unat x < 2 ^ n" "n \<le> 32"
  shows "unat (softfloat_shiftRightJam32 (ucast (x :: u64)) (of_int d)) = jam (unat x) (nat d)"
proof -
  have x: "unat (ucast x :: u32) = unat x" 
    using assms(3) power_increasing [OF assms(4), of "2::nat"] by (intro unat_small_cast) simp
  have "uint (of_int d :: u64) = d" using assms(1,2) by (simp add: uint_word_of_int)
  then have d: "unat (of_int d :: u64) = nat d" "(of_int d :: u64) \<noteq> 0"
    using assms(1) by (auto simp: unat_eq_nat_uint)
  then show ?thesis by (simp add: shiftRightJam32 x)
qed

lemma jam64:
  assumes "0 < d" "d < 2 ^ 16"
  shows "unat (softfloat_shiftRightJam64 x (of_int d)) = jam (unat x) (nat d)"
proof -
  have "uint (of_int d :: u64) = d" using assms(1,2) by (simp add: uint_word_of_int)
  then have d: "unat (of_int d :: u64) = nat d" "(of_int d :: u64) \<noteq> 0"
    using assms(1) by (auto simp: unat_eq_nat_uint)
  then show ?thesis by (simp add: shiftRightJam64)
qed

lemma exp_bound: "e * 2 ^ p + uint x < 2 ^ (p + k) \<Longrightarrow> e < 2 ^ k"
proof -
  assume "e * 2 ^ p + uint x < 2 ^ (p + k)"
  with uint_nonnegative [of x] have "e * 2 ^ p < 2 ^ k * 2 ^ p"
    by (metis add.commute add_increasing le_less_trans mult.commute order_refl power_add)
  then show ?thesis by simp
qed

lemma packF32:
  assumes "0 \<le> e" "e * 2 ^ 23 + uint x < 2 ^ 31"
  shows "uint (ucast (packToF32UI sign e x) :: u32) = of_bool sign * 2 ^ 31 + e * 2 ^ 23 + uint x"
proof -
  have "e < 256" using exp_bound [of e 23 x 8] assms by simp
  then show ?thesis using assms by (cases sign) (simp_all add: packToF32UI_def pack_arith)
qed

lemma packF64:
  assumes "0 \<le> e" "e * 2 ^ 52 + uint x < 2 ^ 63"
  shows "uint (packToF64UI sign e x) = of_bool sign * 2 ^ 63 + e * 2 ^ 52 + uint x"
proof -
  have "e < 2048" using exp_bound [of e 52 x 11] assms by simp
  then show ?thesis using assms by (cases sign) (simp_all add: packToF64UI_def pack_arith)
qed

lemma packF16:
  assumes "0 \<le> e" "e * 2 ^ 10 + uint x < 2 ^ 15"
  shows "uint (ucast (packToF16UI sign e x) :: u16) = of_bool sign * 2 ^ 15 + e * 2 ^ 10 + uint x"
proof -
  have "e < 32" using exp_bound [of e 10 x 5] assms by simp
  then show ?thesis using assms by (cases sign) (simp_all add: packToF16UI_def pack_arith)
qed

lemma packBF16:
  assumes "0 \<le> e" "e * 2 ^ 7 + uint x < 2 ^ 15"
  shows "uint (ucast (packToBF16UI sign e x) :: u16) = of_bool sign * 2 ^ 15 + e * 2 ^ 7 + uint x"
proof -
  have "e < 256" using exp_bound [of e 7 x 8] assms by simp
  then show ?thesis using assms by (cases sign) (simp_all add: packToBF16UI_def pack_arith)
qed

interpretation f16: float_format 10 4 15 "\<lambda>sign e x. ucast (packToF16UI sign e x) :: u16"
  "\<lambda>x d. ucast (softfloat_shiftRightJam32 (ucast x) (of_int d))"
  by unfold_locales (simp_all add: packF16 jam32 [where n = 15])

interpretation bf16: float_format 7 7 127 "\<lambda>sign e x. ucast (packToBF16UI sign e x) :: u16"
  "\<lambda>x d. ucast (softfloat_shiftRightJam32 (ucast x) (of_int d))"
  by unfold_locales (simp_all add: packBF16 jam32 [where n = 15])

interpretation f32: float_format 23 7 127 "\<lambda>sign e x. ucast (packToF32UI sign e x) :: u32"
  "\<lambda>x d. ucast (softfloat_shiftRightJam32 (ucast x) (of_int d))"
  by unfold_locales (simp_all add: packF32 jam32 [where n = 31])

interpretation f64: float_format 52 10 1023 packToF64UI "\<lambda>x d. softfloat_shiftRightJam64 x (of_int d)"
  by unfold_locales (simp_all add: packF64 jam64)


section \<open>The packing routines are the algorithm\<close>


lemma isBig_iff:
  assumes "- (2 ^ 15) \<le> e" "e < 2 ^ 15" "uint (k :: 'a::len word) < 2 ^ 15" "16 \<le> LENGTH('a)"
  shows "k \<le> of_int e \<longleftrightarrow> e < 0 \<or> uint k \<le> e"
proof -
  have l: "2 ^ 16 \<le> (2::int) ^ LENGTH('a)" using assms(4) by (intro power_increasing) auto
  have "uint (of_int e :: 'a word) = (if e < 0 then e + 2 ^ LENGTH('a) else e)"
    using assms(1,2) l mod_pos_pos_trivial [of "e + 2 ^ LENGTH('a)" "2 ^ LENGTH('a)"]
    by (simp add: uint_word_of_int)
  then show ?thesis using assms(1-3) l by (simp add: word_le_def)
qed

lemma ucast_minus_bool:
  assumes "LENGTH('b) \<le> LENGTH('a)"
  shows "ucast (a - of_bool c :: 'a::len word) = (ucast a - of_bool c :: 'b::len word)"
proof -
  have "(2::int) ^ LENGTH('b) dvd 2 ^ LENGTH('a)" using assms by (rule le_imp_power_dvd)
  then show ?thesis
    by (cases c) (simp_all add: word_uint_eq_iff uint_ucast uint_word_ariths mod_mod_cancel mod_simps)
qed

lemma or_one_not_zero: "z OR 1 \<noteq> (0 :: u64)"
  using unat_or_bool [of z True] by (auto simp: word_eq_0_unat odd_pos split: if_splits)

lemmas rp_word_unfold = rp_word_def rp_word_round_def Let_def

lemma roundPackToF16_word:
  assumes "- (2 ^ 15) \<le> e" "e < 2 ^ 15"
  shows "softfloat_roundPackToF16 sign e sig s =
    rp_word 10 4 15 (\<lambda>sign e x. ucast (packToF16UI sign e x)) (\<lambda>x d. ucast (softfloat_shiftRightJam32 (ucast x) (of_int d))) sign e sig s"
proof -
  have big: "(29 :: u32) \<le> of_int e \<longleftrightarrow> e < 0 \<or> 29 \<le> e"
    using isBig_iff [of e "29 :: u32"] assms by simp
  have m: "mask 4 = (15 :: u64)" "push_bit (4 - 1) 1 = (8 :: u64)"
    "push_bit (10 + 4 + 1) 1 = (32768 :: u64)"
    by (simp_all add: mask_eq_exp_minus_1)
  define inc where "inc = rp_word_inc 4 (softfloat_roundingMode s) sign"
  note inc = inc_def [unfolded rp_word_inc_def m, symmetric]
  show ?thesis
    unfolding softfloat_roundPackToF16_def rp_word_unfold big inc_def [symmetric] inc m
    by (cases "e < 0"; cases "e = 29"; simp add: or_one_not_zero ucast_minus_bool)
qed

lemma roundPackToBF16_word:
  assumes "- (2 ^ 15) \<le> e" "e < 2 ^ 15"
  shows "softfloat_roundPackToBF16 sign e sig s =
    rp_word 7 7 127 (\<lambda>sign e x. ucast (packToBF16UI sign e x)) (\<lambda>x d. ucast (softfloat_shiftRightJam32 (ucast x) (of_int d))) sign e sig s"
proof -
  have big: "(253 :: u32) \<le> of_int e \<longleftrightarrow> e < 0 \<or> 253 \<le> e"
    using isBig_iff [of e "253 :: u32"] assms by simp
  have m: "mask 7 = (127 :: u64)" "push_bit (7 - 1) 1 = (64 :: u64)"
    "push_bit (7 + 7 + 1) 1 = (32768 :: u64)"
    by (simp_all add: mask_eq_exp_minus_1)
  define inc where "inc = rp_word_inc 7 (softfloat_roundingMode s) sign"
  note inc = inc_def [unfolded rp_word_inc_def m, symmetric]
  show ?thesis
    unfolding softfloat_roundPackToBF16_def rp_word_unfold big inc_def [symmetric] inc m
    by (cases "e < 0"; cases "e = 253"; simp add: or_one_not_zero ucast_minus_bool)
qed

lemma roundPackToF32_word:
  assumes "- (2 ^ 15) \<le> e" "e < 2 ^ 15"
  shows "softfloat_roundPackToF32 sign e sig s =
    rp_word 23 7 127 (\<lambda>sign e x. ucast (packToF32UI sign e x)) (\<lambda>x d. ucast (softfloat_shiftRightJam32 (ucast x) (of_int d))) sign e sig s"
proof -
  have big: "(253 :: u32) \<le> of_int e \<longleftrightarrow> e < 0 \<or> 253 \<le> e"
    using isBig_iff [of e "253 :: u32"] assms by simp
  have m: "mask 7 = (127 :: u64)" "push_bit (7 - 1) 1 = (64 :: u64)"
    "push_bit (23 + 7 + 1) 1 = (2147483648 :: u64)"
    by (simp_all add: mask_eq_exp_minus_1)
  define inc where "inc = rp_word_inc 7 (softfloat_roundingMode s) sign"
  note inc = inc_def [unfolded rp_word_inc_def m, symmetric]
  show ?thesis
    unfolding softfloat_roundPackToF32_def rp_word_unfold big inc_def [symmetric] inc m
    by (cases "e < 0"; cases "e = 253"; simp add: or_one_not_zero ucast_minus_bool)
qed

lemma roundPackToF64_word:
  assumes "- (2 ^ 15) \<le> e" "e < 2 ^ 15"
  shows "softfloat_roundPackToF64 sign e sig s =
    rp_word 52 10 1023 packToF64UI (\<lambda>x d. softfloat_shiftRightJam64 x (of_int d)) sign e sig s"
proof -
  have big: "(2045 :: u16) \<le> of_int e \<longleftrightarrow> e < 0 \<or> 2045 \<le> e"
    using isBig_iff [of e "2045 :: u16"] assms by simp
  have m: "mask 10 = (1023 :: u64)" "push_bit (10 - 1) 1 = (512 :: u64)"
    "push_bit (52 + 10 + 1) 1 = (9223372036854775808 :: u64)"
    by (simp_all add: mask_eq_exp_minus_1)
  define inc where "inc = rp_word_inc 10 (softfloat_roundingMode s) sign"
  note inc = inc_def [unfolded rp_word_inc_def m, symmetric]
  show ?thesis
    unfolding softfloat_roundPackToF64_def rp_word_unfold big inc_def [symmetric] inc m
    by (cases "e < 0"; cases "e = 2045"; simp add: or_one_not_zero )
qed


end
