(* ===== verification/SF_Value.thy ===== *)
theory SF_Value
  imports SF_Pack
begin

text \<open>
  The meaning of an encoding: sign (\<open>neg\<close>), magnitude (\<open>mag\<close>), value (\<open>fval\<close>), finiteness and NaNs, and
  what it means that an operation returns the correctly rounded result of an exact value
  (\<open>correctly_rounded\<close>, \<open>float_result\<close>). The locale \<open>float_fields\<close> states how the field macros of a format
  read an encoding; it is interpreted for the three formats the arithmetic operates on.
\<close>

section \<open>Values\<close>

definition neg :: "'f::len word \<Rightarrow> bool" where
  "neg a \<longleftrightarrow> 2 ^ (LENGTH('f) - 1) \<le> unat a"

definition mag :: "'f::len word \<Rightarrow> nat" where
  "mag a = unat a mod 2 ^ (LENGTH('f) - 1)"

definition fval :: "nat \<Rightarrow> int \<Rightarrow> 'f::len word \<Rightarrow> real" where
  "fval p B a = (if neg a then - mval p B (mag a) else mval p B (mag a))"

definition is_fin :: "nat \<Rightarrow> int \<Rightarrow> 'f::len word \<Rightarrow> bool" where
  "is_fin p B a \<longleftrightarrow> int (mag a) < (2 * B + 1) * 2 ^ p"

definition is_nan :: "nat \<Rightarrow> int \<Rightarrow> 'f::len word \<Rightarrow> bool" where
  "is_nan p B a \<longleftrightarrow> (2 * B + 1) * 2 ^ p < int (mag a)"

definition is_snan :: "nat \<Rightarrow> int \<Rightarrow> 'f::len word \<Rightarrow> bool" where
  "is_snan p B a \<longleftrightarrow> is_nan p B a \<and> mag a mod 2 ^ p < 2 ^ (p - 1)"

definition correctly_rounded ::
  "nat \<Rightarrow> int \<Rightarrow> bool \<Rightarrow> real \<Rightarrow> sf_state \<Rightarrow> 'f::len word \<times> sf_state \<Rightarrow> bool" where
  "correctly_rounded p B sign X s r \<longleftrightarrow> neg (fst r) = sign \<and>
     (\<exists>fl. snd r = softfloat_raiseFlags fl s \<and>
        rounds_to p B (softfloat_roundingMode s) (softfloat_detectTininess s) sign X (mag (fst r)) fl)"

text \<open>
  The result of an operation whose exact value is \<open>x\<close>: an exact zero has the sign that the standard
  prescribes for the operation and raises nothing, any other value is rounded.
\<close>

definition float_result ::
  "nat \<Rightarrow> int \<Rightarrow> real \<Rightarrow> bool \<Rightarrow> sf_state \<Rightarrow> 'f::len word \<times> sf_state \<Rightarrow> bool" where
  "float_result p B x zsign s r \<longleftrightarrow>
     (if x = 0 then neg (fst r) = zsign \<and> mag (fst r) = 0 \<and> snd r = s
      else correctly_rounded p B (x < 0) \<bar>x\<bar> s r)"

lemma len_split: "(2::nat) ^ LENGTH('f::len) = 2 * 2 ^ (LENGTH('f) - 1)"
  by (metis Suc_diff_1 len_gt_0 power_Suc)

lemma unat_split: "unat (a :: 'f::len word) = of_bool (neg a) * 2 ^ (LENGTH('f) - 1) + mag a"
proof -
  have "unat a < 2 * 2 ^ (LENGTH('f) - 1)" using unat_lt2p [of a] len_split [where 'f = 'f] by simp
  then show ?thesis by (auto simp: neg_def mag_def mod_if [of "unat a"] le_mod_geq)
qed

lemma mag_less: "mag (a :: 'f::len word) < 2 ^ (LENGTH('f) - 1)"
  by (simp add: mag_def)

lemma neg_mag_eqI:
  assumes "unat (a :: 'f::len word) = of_bool sign * 2 ^ (LENGTH('f) - 1) + m" "m < 2 ^ (LENGTH('f) - 1)"
  shows "neg a = sign" "mag a = m"
  using assms by (auto simp: neg_def mag_def)

lemma mval_nonneg: "0 \<le> mval p B m"
  by (simp add: mval_def)

lemma mval_zero [simp]: "mval p B m = 0 \<longleftrightarrow> m = 0"
proof -
  have "2 ^ p + real (m mod 2 ^ p) \<noteq> 0" by (rule less_imp_neq [symmetric]) (simp add: add_pos_nonneg)
  then show ?thesis using not_less_zero [of "2 ^ p"] by (cases "m = 0") (auto simp: mval_def)
qed

lemma mval_pos: "0 < mval p B m \<longleftrightarrow> 0 < m"
  by (metis mval_nonneg mval_zero less_le neq0_conv)

lemma int_div_less: "int m < k * 2 ^ p \<Longrightarrow> int (m div 2 ^ p) < k"
proof (rule ccontr)
  assume m: "int m < k * 2 ^ p" and "\<not> int (m div 2 ^ p) < k"
  then have "k * 2 ^ p \<le> int (m div 2 ^ p) * 2 ^ p" by (intro mult_right_mono) auto
  also have "\<dots> = int (m div 2 ^ p * 2 ^ p)" by simp
  also have "\<dots> \<le> int m" by (simp only: of_nat_le_iff div_times_less_eq_dividend)
  finally show False using m by simp
qed

lemma abs_fval: "\<bar>fval p B a\<bar> = mval p B (mag a)"
  by (simp add: fval_def mval_nonneg)

lemma fval_zero [simp]: "fval p B a = 0 \<longleftrightarrow> mag a = 0"
  by (simp add: fval_def)

lemma mval_eq:
  "mval p B m = (if m div 2 ^ p = 0 then real m * 2 powi (1 - B - p)
     else real (2 ^ p + m mod 2 ^ p) * 2 powi (int (m div 2 ^ p) - B - p))"
  by (simp add: mval_def div_eq_0_iff)

section \<open>Exact results\<close>

lemma mval_normal_range:
  assumes "2 ^ p \<le> m"
  shows "2 powi (int (m div 2 ^ p) - B) \<le> mval p B m" "mval p B m < 2 powi (int (m div 2 ^ p) - B + 1)"
proof -
  let ?E = "int (m div 2 ^ p) - B"
  have v: "mval p B m = real (2 ^ p + m mod 2 ^ p) * 2 powi (?E - p)" using assms by (simp add: mval_def)
  have P: "2 powi ?E = 2 powi (?E - p) * (2::real) ^ p" "2 powi (?E + 1) = 2 powi (?E - p) * (2::real) ^ (p + 1)"
    by (rule powi_shift; simp)+
  show "2 powi ?E \<le> mval p B m" unfolding v P by (simp add: mult.commute)
  have "m mod 2 ^ p < 2 ^ p" by simp
  then have "real (2 ^ p + m mod 2 ^ p) < 2 ^ (p + 1)"
    by (metis add.commute add_less_cancel_right mult_2 of_nat_less_iff of_nat_numeral of_nat_power power_Suc Suc_eq_plus1)
  then show "mval p B m < 2 powi (?E + 1)" unfolding v P by (simp add: mult.commute)
qed

lemma mval_subnormal_less:
  assumes "m < 2 ^ p"
  shows "mval p B m < 2 powi (1 - B)"
proof -
  have "2 powi (1 - B) = 2 powi (1 - B - p) * (2::real) ^ p" by (rule powi_shift) simp
  moreover have "real m < 2 ^ p" using assms by (metis of_nat_less_iff of_nat_numeral of_nat_power)
  ultimately show ?thesis using assms by (simp add: mval_def mult.commute)
qed

lemma rval_exact:
  assumes "0 < m"
  shows "rval p B rm sign (mval p B m) = mval p B m"
proof -
  define X where "X = mval p B m"
  have pos: "0 < X" using assms by (simp add: X_def mval_pos)
  have "\<exists>k::nat. X = real k * 2 powi (fexp p B X)"
  proof (cases "m < 2 ^ p")
    case True
    have "(2::real) powi (1 - B) = 2 powr of_int (1 - B)" by (rule powr_real_of_int' [symmetric]) simp_all
    then have "log 2 X < of_int (1 - B)"
      using mval_subnormal_less [OF True, of B, folded X_def] pos by (simp only: log_less_iff)
    then have "\<lfloor>log 2 X\<rfloor> \<le> - B" by (simp add: floor_le_iff)
    then have "fexp p B X = 1 - B - p" by (simp add: fexp_def)
    then show ?thesis using True by (auto simp: X_def mval_def)
  next
    case False
    then have "2 ^ p \<le> m" by simp
    from floor_log2 [OF mval_normal_range [OF this]] have l: "\<lfloor>log 2 X\<rfloor> = int (m div 2 ^ p) - B" by (simp add: X_def)
    moreover have "1 \<le> m div 2 ^ p" using False by (simp add: Suc_le_eq div_greater_zero_iff)
    ultimately have "fexp p B X = int (m div 2 ^ p) - B - p" by (simp add: fexp_def)
    moreover have "X = real (2 ^ p + m mod 2 ^ p) * 2 powi (int (m div 2 ^ p) - B - p)"
      using False by (simp add: X_def mval_def)
    ultimately show ?thesis by metis
  qed
  then obtain k :: nat where k: "X = real k * 2 powi (fexp p B X)" by blast
  have "X / 2 powi (fexp p B X) = real_of_int (int k)" by (subst k) simp
  then have "real_of_int (rnd rm sign (X / 2 powi (fexp p B X))) = X / 2 powi (fexp p B X)"
    unfolding rnd_exact by (metis floor_of_int)
  then show ?thesis unfolding X_def [symmetric] rval_def by simp
qed

lemma mval_less_overflow:
  assumes "int m < (2 * B + 1) * 2 ^ p" "1 \<le> B"
  shows "mval p B m < 2 powi (B + 1)"
proof (cases "m < 2 ^ p")
  case True
  have "mval p B m < 2 powi (1 - B)" by (rule mval_subnormal_less [OF True])
  also have "\<dots> \<le> 2 powi (B + 1)" using assms(2) by (intro power_int_increasing) auto
  finally show ?thesis .
next
  case False
  have "int (m div 2 ^ p) < 2 * B + 1" using assms(1) by (rule int_div_less)
  then have "2 powi (int (m div 2 ^ p) - B + 1) \<le> (2::real) powi (B + 1)" by (intro power_int_increasing) auto
  with mval_normal_range(2) [of p m B] False show ?thesis by simp
qed

lemma rounds_to_exact:
  assumes "0 < m" "int m < (2 * B + 1) * 2 ^ p" "1 \<le> B"
  shows "rounds_to p B rm td sign (mval p B m) m 0"
  using mval_less_overflow [OF assms(2,3)] rval_exact [OF assms(1), of p B rm sign] assms(2)
  by (simp add: rounds_to_def)


lemma correctly_rounded_exact:
  assumes "unat z = of_bool sign * 2 ^ (LENGTH('f) - 1) + m" "m < 2 ^ (LENGTH('f) - 1)"
    and "0 < m" "int m < (2 * B + 1) * 2 ^ p" "1 \<le> B" "mval p B m = X"
  shows "correctly_rounded p B sign X s (z :: 'f::len word, s)"
proof -
  have "s = softfloat_raiseFlags 0 s" by (simp add: softfloat_raiseFlags_def)
  then show ?thesis using neg_mag_eqI [OF assms(1,2)] rounds_to_exact [OF assms(3-5)] assms(6)
    unfolding correctly_rounded_def by auto
qed

context float_format
begin

lemma rp_word_rounded:
  assumes inp: "rp_input p g B e (unat sig) y X" and e: "- (2 ^ 15) \<le> e"
  shows "correctly_rounded p B sign X s (rp_word p g B pack shr sign e sig s)"
proof -
  obtain z s' where eq: "rp_word p g B pack shr sign e sig s = (z, s')" by (metis surj_pair)
  from rp_word_correct [OF inp e eq] obtain m fl where *:
    "unat z = of_bool sign * 2 ^ (LENGTH('f) - 1) + m" "s' = softfloat_raiseFlags fl s"
    "rounds_to p B (softfloat_roundingMode s) (softfloat_detectTininess s) sign X m fl" by blast
  have "int m \<le> (2 * B + 1) * 2 ^ p" using *(3) by (auto simp: rounds_to_def split: if_splits)
  also have "\<dots> < (2 * B + 2) * 2 ^ p" by simp
  finally have "int m < int (2 ^ (LENGTH('f) - 1))" using width by simp
  then have "m < 2 ^ (LENGTH('f) - 1)" by (simp only: of_nat_less_iff)
  from neg_mag_eqI [OF *(1) this] show ?thesis using *(2,3) by (auto simp: correctly_rounded_def eq)
qed

end

text \<open>The four packing routines round correctly.\<close>

lemma roundPackToF16_rounded:
  "rp_input 10 4 15 e (unat sig) y X \<Longrightarrow> - (2 ^ 15) \<le> e \<Longrightarrow> e < 2 ^ 15 \<Longrightarrow>
    correctly_rounded 10 15 sign X s (softfloat_roundPackToF16 sign e sig s)"
  unfolding roundPackToF16_word by (rule f16.rp_word_rounded)

lemma roundPackToBF16_rounded:
  "rp_input 7 7 127 e (unat sig) y X \<Longrightarrow> - (2 ^ 15) \<le> e \<Longrightarrow> e < 2 ^ 15 \<Longrightarrow>
    correctly_rounded 7 127 sign X s (softfloat_roundPackToBF16 sign e sig s)"
  unfolding roundPackToBF16_word by (rule bf16.rp_word_rounded)

lemma roundPackToF32_rounded:
  "rp_input 23 7 127 e (unat sig) y X \<Longrightarrow> - (2 ^ 15) \<le> e \<Longrightarrow> e < 2 ^ 15 \<Longrightarrow>
    correctly_rounded 23 127 sign X s (softfloat_roundPackToF32 sign e sig s)"
  unfolding roundPackToF32_word by (rule f32.rp_word_rounded)

lemma roundPackToF64_rounded:
  "rp_input 52 10 1023 e (unat sig) y X \<Longrightarrow> - (2 ^ 15) \<le> e \<Longrightarrow> e < 2 ^ 15 \<Longrightarrow>
    correctly_rounded 52 1023 sign X s (softfloat_roundPackToF64 sign e sig s)"
  unfolding roundPackToF64_word by (rule f64.rp_word_rounded)

section \<open>Fields\<close>

text \<open>A NaN has an exponent field of ones and a fraction that is not zero.\<close>

lemma is_nan_fields:
  assumes "int (mag a) < (2 * B + 2) * 2 ^ p" "0 \<le> B"
  shows "is_nan p B a \<longleftrightarrow> int (mag a div 2 ^ p) = 2 * B + 1 \<and> mag a mod 2 ^ p \<noteq> 0"
proof -
  have "int (mag a div 2 ^ p) < 2 * B + 2" using assms(1) by (rule int_div_less)
  moreover have m: "int (mag a) = int (mag a div 2 ^ p) * 2 ^ p + int (mag a mod 2 ^ p)"
    using arg_cong [OF div_mult_mod_eq [of "mag a" "2 ^ p"], of int, symmetric] by (simp only: of_nat_add of_nat_mult of_nat_power of_nat_numeral)
  moreover have "int (mag a div 2 ^ p) < 2 * B + 1 \<Longrightarrow> int (mag a) < (2 * B + 1) * 2 ^ p"
  proof -
    assume "int (mag a div 2 ^ p) < 2 * B + 1"
    then have "(int (mag a div 2 ^ p) + 1) * 2 ^ p \<le> (2 * B + 1) * 2 ^ p" by (intro mult_right_mono) auto
    moreover have "int (mag a mod 2 ^ p) < 2 ^ p" by (simp add: zmod_int)
    moreover have "(int (mag a div 2 ^ p) + 1) * 2 ^ p = int (mag a div 2 ^ p) * 2 ^ p + 2 ^ p" by (simp add: distrib_right)
    ultimately show ?thesis using m by linarith
  qed
  ultimately show ?thesis by (cases "int (mag a div 2 ^ p) = 2 * B + 1") (auto simp: is_nan_def)
qed

lemma or_top_add: "unat f < 2 ^ p \<Longrightarrow> p < 63 \<Longrightarrow> unat (f OR push_bit p 1 :: u64) = unat f + 2 ^ p"
proof -
  assume f: "unat f < 2 ^ p" and p: "p < 63"
  have "(2::nat) ^ p \<le> 2 ^ 62" using p by (intro power_increasing) auto
  then show ?thesis
    using or_high_low [OF f, of 1] unat_exp [of p] f p
    by (simp add: or.commute [of f] unat_plus_cases del: push_bit_of_1)
qed

lemma or_top_self: "2 ^ p \<le> unat f \<Longrightarrow> unat f < 2 ^ (p + 1) \<Longrightarrow> f OR push_bit p 1 = (f :: u64)"
proof -
  assume "2 ^ p \<le> unat f" "unat f < 2 ^ (p + 1)"
  then have "unat f div 2 ^ p = 1" by (intro div_nat_eqI) auto
  then have "unat (drop_bit p f) = 1" by simp
  then have "drop_bit p f = 1" by (metis unat_1 word_unat_eq_iff)
  then have "bit f p" by (simp add: bit_iff_odd_drop_bit)
  then show ?thesis by (intro bit_word_eqI) (auto simp: bit_simps)
qed

text \<open>
  The field macros of a format read the encoding \<open>ui a\<close> of a value; the normalisation of a subnormal
  significand moves its leading one to bit \<open>p\<close>.
\<close>

locale float_fields =
  fixes p :: nat and B :: int and ui :: "'f::len word \<Rightarrow> u64"
    and signUI :: "u64 \<Rightarrow> bool" and expUI :: "u64 \<Rightarrow> int" and fracUI :: "u64 \<Rightarrow> u64" and norm :: "u64 \<Rightarrow> exp_sig"
  assumes size: "p < 63" "1 \<le> B" and len: "LENGTH('f) \<le> 64" and width: "(2 * B + 2) * 2 ^ p = 2 ^ (LENGTH('f) - 1)"
    and sign: "signUI (ui a) \<longleftrightarrow> neg a"
    and exp: "expUI (ui a) = int (mag a div 2 ^ p)"
    and frac: "unat (fracUI (ui a)) = mag a mod 2 ^ p"
    and norm: "0 < unat f \<Longrightarrow> unat f < 2 ^ p \<Longrightarrow>
      \<exists>c\<le>p. es_exp (norm f) = 1 - int c \<and> unat (es_sig (norm f)) = unat f * 2 ^ c \<and>
        2 ^ p \<le> unat f * 2 ^ c \<and> unat f * 2 ^ c < 2 ^ (p + 1)"
begin

text \<open>Exponent and significand after the normalisation at the start of the arithmetic operations.\<close>

lemma unpack_value:
  assumes "0 < mag a" "is_fin p B a"
    and u: "(if expUI (ui a) = 0 then (es_exp (norm (fracUI (ui a))), es_sig (norm (fracUI (ui a))))
      else (expUI (ui a), fracUI (ui a))) = (e, f)"
  defines "S \<equiv> unat (f OR push_bit p 1)"
  shows "2 ^ p \<le> S \<and> S < 2 ^ (p + 1) \<and> mval p B (mag a) = real S * 2 powi (e - B - p) \<and> 1 - int p \<le> e \<and> e \<le> 2 * B"
proof (cases "mag a < 2 ^ p")
  case True
  then have "expUI (ui a) = 0" "unat (fracUI (ui a)) = mag a" by (simp_all add: exp frac)
  moreover from this norm [of "fracUI (ui a)"] True assms(1) obtain c where "c \<le> p" "es_exp (norm (fracUI (ui a))) = 1 - int c"
    "unat (es_sig (norm (fracUI (ui a)))) = mag a * 2 ^ c" "2 ^ p \<le> mag a * 2 ^ c" "mag a * 2 ^ c < 2 ^ (p + 1)"
    by auto
  ultimately have c: "c \<le> p" "e = 1 - int c" "unat f = mag a * 2 ^ c" "2 ^ p \<le> unat f" "unat f < 2 ^ (p + 1)"
    using u by auto
  have "S = unat f" using or_top_self [OF c(4,5)] by (simp add: S_def)
  moreover have "2 powi (1 - B - p) = 2 powi (e - B - p) * (2::real) ^ c" using c(2) by (intro powi_shift) simp
  ultimately show ?thesis using c size(2) True by (auto simp: mval_def)
next
  case False
  define E where "E = mag a div 2 ^ p"
  have E: "0 < E" "int E < 2 * B + 1"
    using False assms(2) int_div_less [of "mag a" "2 * B + 1" p] by (auto simp: E_def is_fin_def div_greater_zero_iff)
  then have c: "e = int E" "unat f = mag a mod 2 ^ p" using u frac by (auto simp: exp E_def)
  then have "unat f < 2 ^ p" by simp
  from or_top_add [OF this] size have "S = 2 ^ p + mag a mod 2 ^ p" by (simp add: S_def c add.commute)
  moreover have "mval p B (mag a) = real (2 ^ p + mag a mod 2 ^ p) * 2 powi (e - B - p)"
    using False by (simp add: mval_def c E_def)
  ultimately show ?thesis using E size(2) c(1) by simp
qed

lemma exp_top_iff: "expUI (ui a) = 2 * B + 1 \<longleftrightarrow> \<not> is_fin p B a"
proof -
  have "int (mag a) < int (2 ^ (LENGTH('f) - 1))" by (simp only: of_nat_less_iff mag_less)
  then have "int (mag a) < (2 * B + 2) * 2 ^ p" using width by simp
  then have u: "int (mag a div 2 ^ p) < 2 * B + 2" by (rule int_div_less)
  have m: "int (mag a div 2 ^ p) * 2 ^ p \<le> int (mag a)"
  proof -
    have "int (mag a div 2 ^ p * 2 ^ p) \<le> int (mag a)" by (simp only: of_nat_le_iff div_times_less_eq_dividend)
    then show ?thesis by (simp only: of_nat_mult of_nat_power of_nat_numeral)
  qed
  show ?thesis
  proof
    assume "expUI (ui a) = 2 * B + 1"
    then show "\<not> is_fin p B a" using m by (simp add: exp is_fin_def)
  next
    assume f: "\<not> is_fin p B a"
    then have "(2 * B + 1) * 2 ^ p \<le> int (mag a)" by (simp add: is_fin_def)
    moreover have "int (nat (2 * B + 1) * 2 ^ p) = (2 * B + 1) * 2 ^ p" using size(2) by simp
    ultimately have "nat (2 * B + 1) * 2 ^ p \<le> mag a" by (metis of_nat_le_iff)
    then have "nat (2 * B + 1) \<le> mag a div 2 ^ p" by (simp add: less_eq_div_iff_mult_less_eq)
    then show "expUI (ui a) = 2 * B + 1" using u by (simp add: exp)
  qed
qed

lemma exp_frac_zero: "expUI (ui a) = 0 \<and> fracUI (ui a) = 0 \<longleftrightarrow> mag a = 0"
  by (auto simp: exp word_eq_0_unat frac div_eq_0_iff)

lemma mag_bits_zero: "of_int (expUI (ui a)) OR fracUI (ui a) = 0 \<longleftrightarrow> mag a = 0"
proof -
  have "mag a div 2 ^ p \<le> mag a" by simp
  also have "mag a < 2 ^ (LENGTH('f) - 1)" by (rule mag_less)
  also have "\<dots> \<le> 2 ^ 64" using len by (intro power_increasing) auto
  finally have "unat (of_nat (mag a div 2 ^ p) :: u64) = mag a div 2 ^ p" by (simp add: unat_of_nat)
  then have "(of_int (expUI (ui a)) :: u64) = 0 \<longleftrightarrow> mag a div 2 ^ p = 0" by (simp add: exp word_eq_0_unat)
  moreover have "x OR y = 0 \<longleftrightarrow> x = 0 \<and> y = (0 :: u64)" for x y by (auto simp: bit_eq_iff bit_simps)
  ultimately show ?thesis using exp_frac_zero [of a] by (simp add: exp)
qed

lemma nan_iff: "is_nan p B a \<longleftrightarrow> expUI (ui a) = 2 * B + 1 \<and> fracUI (ui a) \<noteq> 0"
proof -
  have "int (mag a) < int (2 ^ (LENGTH('f) - 1))" by (simp only: of_nat_less_iff mag_less)
  then have "int (mag a) < (2 * B + 2) * 2 ^ p" using width by simp
  from is_nan_fields [OF this] size(2) show ?thesis by (simp add: exp word_eq_0_unat frac)
qed

end

section \<open>The fields of the formats\<close>

lemma div_mod_fields: "(n div 2 ^ p) mod 2 ^ k = (n mod 2 ^ (p + k)) div (2 ^ p :: nat)"
  by (simp add: power_add mod_mult2_eq)

lemma mod_fields: "n mod 2 ^ (p + k) mod 2 ^ p = n mod (2 ^ p :: nat)"
  by (simp add: mod_mod_cancel le_imp_power_dvd)

lemma uint_and_mask: "uint ((a :: 'a::len word) AND mask n) = int (unat a mod 2 ^ n)"
  by (metis uint_nat unat_and_mask)

lemma neg_drop_bit: "drop_bit (LENGTH('f) - 1) (a :: 'f::len word) \<noteq> 0 \<longleftrightarrow> neg a"
  by (simp add: word_eq_0_unat neg_def div_eq_0_iff not_less)

lemma clz_norm:
  assumes "clz_ok w n c" "0 < n" "n < 2 ^ p" "p + k + 1 = w"
  shows "k < c" "c - k \<le> p" "2 ^ p \<le> n * 2 ^ (c - k)" "n * 2 ^ (c - k) < 2 ^ (p + 1)"
proof -
  have b: "2 ^ (w - 1) \<le> n * 2 ^ c" "n * 2 ^ c < 2 ^ w" using assms(1,2) by (simp_all add: clz_ok_def)
  show k: "k < c"
  proof (rule ccontr)
    assume "\<not> k < c"
    then have "n * 2 ^ c < 2 ^ p * 2 ^ k" using assms(3) by (intro mult_less_le_imp_less) (auto intro: power_increasing)
    then show False using b(1) by (simp add: power_add flip: assms(4))
  qed
  then have c: "(2::nat) ^ c = 2 ^ (c - k) * 2 ^ k" by (simp flip: power_add)
  have "2 ^ p * 2 ^ k \<le> n * 2 ^ (c - k) * 2 ^ k" using b(1) assms(4) c by (simp add: power_add mult.assoc flip: assms(4))
  then show "2 ^ p \<le> n * 2 ^ (c - k)" by simp
  have "n * 2 ^ (c - k) * 2 ^ k < 2 ^ (p + 1) * 2 ^ k" using b(2) c by (simp add: power_add mult_ac flip: assms(4))
  then show u: "n * 2 ^ (c - k) < 2 ^ (p + 1)" by simp
  have "2 ^ (c - k) \<le> n * 2 ^ (c - k)" using assms(2) by simp
  then have "(2::nat) ^ (c - k) < 2 ^ (p + 1)" using u by (rule le_less_trans)
  then have "c - k < p + 1" by (rule power_less_imp_less_exp [rotated]) simp
  then show "c - k \<le> p" by simp
qed

lemma norm_law:
  assumes "clz_ok w (unat f) c" "0 < unat f" "unat f < 2 ^ p" "p + k + 1 = w" "p < 63"
  defines "r \<equiv> (let shiftDist = int c - int k in \<lparr> es_exp = 1 - shiftDist, es_sig = push_bit (nat shiftDist) f \<rparr>)"
  shows "\<exists>c\<le>p. es_exp r = 1 - int c \<and> unat (es_sig r) = unat f * 2 ^ c \<and>
        2 ^ p \<le> unat f * 2 ^ c \<and> unat f * 2 ^ c < 2 ^ (p + 1)"
proof (intro exI conjI)
  note n = clz_norm [OF assms(1-4)]
  show "c - k \<le> p" "2 ^ p \<le> unat f * 2 ^ (c - k)" "unat f * 2 ^ (c - k) < 2 ^ (p + 1)" by (rule n)+
  show "es_exp r = 1 - int (c - k)" using n(1) by (simp add: r_def Let_def of_nat_diff)
  have "(2::nat) ^ (p + 1) \<le> 2 ^ 64" using assms(5) by (intro power_increasing) auto
  then have "unat f * 2 ^ (c - k) < 2 ^ LENGTH(64)" using n(4) by simp
  from unat_push_bit_small [OF this] show "unat (es_sig r) = unat f * 2 ^ (c - k)"
    using n(1) by (simp add: r_def Let_def nat_diff_distrib')
qed

lemma mask_numeral: "(0x7F :: u64) = mask 7" "(0x1F :: u64) = mask 5" "(0x3FF :: u64) = mask 10" "(0xFF :: u64) = mask 8" "(0x7FFFFF :: u64) = mask 23"
    "(0x7FF :: u64) = mask 11" "(0xFFFFFFFFFFFFF :: u64) = mask 52"
  by (simp_all add: mask_eq_exp_minus_1)

lemma ucast_ucast32 [simp]: "ucast (ucast (a :: u32) :: u64) = a"
  by (simp add: word_unat_eq_iff unat_lo32 unat_lt2p [where 'a = 32, simplified])

lemma unat_ucast16 [simp]: "unat (ucast (a :: u16) :: u64) = unat a"
proof -
  have "unat a < 2 ^ 16" using unat_lt2p [of a] by simp
  then show ?thesis by (intro unat_small_cast) simp
qed

lemma ucast_ucast16 [simp]: "ucast (ucast (a :: u16) :: u64) = a"
  using unat_lt2p [of a] by (simp add: word_unat_eq_iff unat_small_cast)

interpretation f32v: float_fields 23 127 "ucast :: u32 \<Rightarrow> u64" signF32UI expF32UI fracF32UI softfloat_normSubnormalF32Sig
proof unfold_locales
  fix a :: u32 and f :: u64
  show "signF32UI (ucast a) \<longleftrightarrow> neg a" using neg_drop_bit [of a] by (simp add: signF32UI_def)
  show "expF32UI (ucast a) = int (mag a div 2 ^ 23)"
    using div_mod_fields [of "unat a" 23 8] by (simp add: expF32UI_def mask_numeral uint_and_mask mag_def)
  show "unat (fracF32UI (ucast a)) = mag a mod 2 ^ 23"
    using mod_fields [of "unat a" 23 8] by (simp add: fracF32UI_def mask_numeral unat_and_mask mag_def)
  assume f: "0 < unat f" "unat f < 2 ^ 23"
  then have "clz_ok 32 (unat f) (softfloat_countLeadingZeros32 (ucast f))"
    using countLeadingZeros32 [of "ucast f"] unat_small_cast [of f, where 'b = 32] by simp
  from norm_law [OF this f, of 8] show "\<exists>c\<le>23. es_exp (softfloat_normSubnormalF32Sig f) = 1 - int c \<and>
      unat (es_sig (softfloat_normSubnormalF32Sig f)) = unat f * 2 ^ c \<and> 2 ^ 23 \<le> unat f * 2 ^ c \<and> unat f * 2 ^ c < 2 ^ (23 + 1)"
    by (simp add: softfloat_normSubnormalF32Sig_def)
qed simp_all

interpretation f64v: float_fields 52 1023 "\<lambda>a. a" signF64UI expF64UI fracF64UI softfloat_normSubnormalF64Sig
proof unfold_locales
  fix a f :: u64
  show "signF64UI a \<longleftrightarrow> neg a" using neg_drop_bit [of a] by (simp add: signF64UI_def)
  show "expF64UI a = int (mag a div 2 ^ 52)"
    using div_mod_fields [of "unat a" 52 11] by (simp add: expF64UI_def mask_numeral uint_and_mask mag_def)
  show "unat (fracF64UI a) = mag a mod 2 ^ 52"
    using mod_fields [of "unat a" 52 11] by (simp add: fracF64UI_def mask_numeral unat_and_mask mag_def)
  assume f: "0 < unat f" "unat f < 2 ^ 52"
  from norm_law [OF countLeadingZeros64 f, of 11] show "\<exists>c\<le>52. es_exp (softfloat_normSubnormalF64Sig f) = 1 - int c \<and>
      unat (es_sig (softfloat_normSubnormalF64Sig f)) = unat f * 2 ^ c \<and> 2 ^ 52 \<le> unat f * 2 ^ c \<and> unat f * 2 ^ c < 2 ^ (52 + 1)"
    by (simp add: softfloat_normSubnormalF64Sig_def)
qed simp_all

interpretation f16v: float_fields 10 15 "ucast :: u16 \<Rightarrow> u64" signF16UI expF16UI fracF16UI softfloat_normSubnormalF16Sig
proof unfold_locales
  fix a :: u16 and f :: u64
  show "signF16UI (ucast a) \<longleftrightarrow> neg a" using neg_drop_bit [of a] by (simp add: signF16UI_def)
  show "expF16UI (ucast a) = int (mag a div 2 ^ 10)"
    using div_mod_fields [of "unat a" 10 5] by (simp add: expF16UI_def mask_numeral uint_and_mask mag_def)
  show "unat (fracF16UI (ucast a)) = mag a mod 2 ^ 10"
    using mod_fields [of "unat a" 10 5] by (simp add: fracF16UI_def mask_numeral unat_and_mask mag_def)
  assume f: "0 < unat f" "unat f < 2 ^ 10"
  then have "clz_ok 16 (unat f) (softfloat_countLeadingZeros16 (ucast f))"
    using countLeadingZeros16 [of "ucast f"] unat_small_cast [of f, where 'b = 16] by simp
  from norm_law [OF this f, of 5] show "\<exists>c\<le>10. es_exp (softfloat_normSubnormalF16Sig f) = 1 - int c \<and>
      unat (es_sig (softfloat_normSubnormalF16Sig f)) = unat f * 2 ^ c \<and> 2 ^ 10 \<le> unat f * 2 ^ c \<and> unat f * 2 ^ c < 2 ^ (10 + 1)"
    by (simp add: softfloat_normSubnormalF16Sig_def)
qed simp_all
section \<open>NaN tests\<close>


lemma and_field: "(a :: 'a::len word) AND push_bit n (mask k) = push_bit n (drop_bit n a AND mask k)"
  by (rule bit_word_eqI) (auto simp: bit_simps)

lemma unat_and_field:
  "n + k \<le> LENGTH('a) \<Longrightarrow> unat ((a :: 'a::len word) AND push_bit n (mask k)) = (unat a div 2 ^ n mod 2 ^ k) * 2 ^ n"
proof -
  assume l: "n + k \<le> LENGTH('a)"
  have "unat a div 2 ^ n mod 2 ^ k < 2 ^ k" by simp
  then have "(unat a div 2 ^ n mod 2 ^ k) * 2 ^ n < 2 ^ k * 2 ^ n" by (intro mult_strict_right_mono) auto
  also have "\<dots> \<le> 2 ^ LENGTH('a)" using l by (simp only: flip: power_add) (rule power_increasing, auto)
  finally show ?thesis unfolding and_field by (simp only: unat_push_bit unat_and_mask unat_drop_bit mod_less)
qed

lemma not_and_field: "NOT (a :: 'a::len word) AND m = 0 \<longleftrightarrow> a AND m = m"
  by (auto simp: bit_eq_iff bit_simps)

lemma half_div: "0 < h \<Longrightarrow> m div h = 2 * c \<longleftrightarrow> m div (2 * h) = c \<and> m mod (2 * h) < (h::nat)"
  unfolding mult.commute [of 2 h] div_mult2_eq mod_mult2_eq by (cases "even (m div h)") (auto simp: odd_iff_mod_2_eq_one)

lemma half_mod: "m mod (2 * h) < h \<Longrightarrow> m mod h = m mod (2 * (h::nat))"
  by (metis mod_less mod_mult_self4 mod_mod_cancel dvd_triv_right)

text \<open>The NaN tests of a format: an exponent field of \<open>k\<close> ones above \<open>p\<close> fraction bits.\<close>

lemma nan_test:
  fixes a :: "'f::len word" and w :: u64
  assumes "unat w = unat a" "LENGTH('f) = Suc (p + k)" "2 * B + 2 = 2 ^ k" "0 < k" "p + k < 64" "0 < p"
  shows "NOT w AND push_bit p (mask k) = 0 \<and> w AND mask p \<noteq> 0 \<longleftrightarrow> is_nan p B a"
    "w AND push_bit (p - 1) (mask (k + 1)) = push_bit p (mask k) \<and> w AND mask (p - 1) \<noteq> 0 \<longleftrightarrow> is_snan p B a"
proof -
  have mk: "(mask k :: u64) AND mask k = mask k" "push_bit p (mask k :: u64) AND push_bit p (mask k) = push_bit p (mask k)" by simp_all
  have um: "unat (mask l :: u64) = 2 ^ l - 1" if "l \<le> 64" for l using that by (rule unat_mask)
  have "(2 ^ k - 1) * 2 ^ p < (2::nat) ^ k * 2 ^ p" by simp
  also have "\<dots> \<le> 2 ^ 64" using assms(5) by (simp only: flip: power_add) (rule power_increasing, auto)
  finally have M: "unat (push_bit p (mask k :: u64)) = (2 ^ k - 1) * 2 ^ p"
    using um [of k] assms(5) by (simp add: unat_push_bit)
  have mag: "mag a = unat w mod 2 ^ (p + k)" by (simp add: mag_def assms(1,2))
  have e: "w AND push_bit p (mask k) = push_bit p (mask k) \<longleftrightarrow> mag a div 2 ^ p = 2 ^ k - 1"
    unfolding word_unat_eq_iff M mag using assms(5) by (simp add: unat_and_field div_mod_fields)
  have f: "w AND mask p \<noteq> 0 \<longleftrightarrow> mag a mod 2 ^ p \<noteq> 0"
    by (simp add: word_eq_0_unat unat_and_mask mag mod_fields)
  have "mag a < 2 ^ (p + k)" by (simp add: mag)
  then have "int (mag a) < int (2 ^ (p + k))" by (simp only: of_nat_less_iff)
  then have lt: "int (mag a) < (2 * B + 2) * 2 ^ p" using assms(3) by (simp add: power_add mult.commute)
  have B: "0 \<le> B" using assms(3,4) self_le_power [of "2::int" k] by simp
  have top: "int (mag a div 2 ^ p) = 2 * B + 1 \<longleftrightarrow> mag a div 2 ^ p = 2 ^ k - 1"
  proof -
    have "2 * B + 1 = int (2 ^ k - 1)" using assms(3) by (simp add: of_nat_diff)
    then show ?thesis by (simp only: of_nat_eq_iff)
  qed
  show n: "NOT w AND push_bit p (mask k) = 0 \<and> w AND mask p \<noteq> 0 \<longleftrightarrow> is_nan p B a"
    unfolding not_and_field e f is_nan_fields [OF lt B] top ..
  have p: "(2::nat) ^ p = 2 * 2 ^ (p - 1)" "p + k = p - 1 + (k + 1)" using assms(6) by (cases p; simp)+
  have M': "unat (push_bit p (mask k :: u64)) = (2 * (2 ^ k - 1)) * 2 ^ (p - 1)" unfolding M p(1) by simp
  have "w AND push_bit (p - 1) (mask (k + 1)) = push_bit p (mask k) \<longleftrightarrow> mag a div 2 ^ (p - 1) = 2 * (2 ^ k - 1)"
    unfolding word_unat_eq_iff M' mag p(2) div_mod_fields [symmetric]
    using assms(5,6) unat_and_field [of "p - 1" "k + 1" w] by simp
  moreover have "w AND mask (p - 1) \<noteq> 0 \<longleftrightarrow> mag a mod 2 ^ (p - 1) \<noteq> 0"
    unfolding mag p(2) mod_fields by (simp add: word_eq_0_unat unat_and_mask)
  moreover have "mag a div 2 ^ (p - 1) = 2 * (2 ^ k - 1) \<longleftrightarrow> mag a div 2 ^ p = 2 ^ k - 1 \<and> mag a mod 2 ^ p < 2 ^ (p - 1)"
    unfolding p(1) by (rule half_div) simp
  moreover have "mag a mod 2 ^ p < 2 ^ (p - 1) \<Longrightarrow> mag a mod 2 ^ (p - 1) = mag a mod 2 ^ p"
    unfolding p(1) by (rule half_mod)
  ultimately show "w AND push_bit (p - 1) (mask (k + 1)) = push_bit p (mask k) \<and> w AND mask (p - 1) \<noteq> 0 \<longleftrightarrow> is_snan p B a"
    unfolding is_snan_def is_nan_fields [OF lt B] top by auto
qed

lemma f32_isNaN [simp]: "isNaNF32UI (ucast (a :: u32)) \<longleftrightarrow> is_nan 23 127 a"
  using nan_test(1) [of "ucast a" a 23 8 127] by (simp add: isNaNF32UI_def mask_eq_exp_minus_1)

lemma f32_isSigNaN [simp]: "softfloat_isSigNaNF32UI (ucast (a :: u32)) \<longleftrightarrow> is_snan 23 127 a"
  using nan_test(2) [of "ucast a" a 23 8 127] by (simp add: softfloat_isSigNaNF32UI_def mask_eq_exp_minus_1)

lemma f64_isNaN [simp]: "isNaNF64UI a \<longleftrightarrow> is_nan 52 1023 a"
  using nan_test(1) [of a a 52 11 1023] by (simp add: isNaNF64UI_def mask_eq_exp_minus_1)

lemma f64_isSigNaN [simp]: "softfloat_isSigNaNF64UI a \<longleftrightarrow> is_snan 52 1023 a"
  using nan_test(2) [of a a 52 11 1023] by (simp add: softfloat_isSigNaNF64UI_def mask_eq_exp_minus_1)

lemma f16_isNaN [simp]: "isNaNF16UI (ucast (a :: u16)) \<longleftrightarrow> is_nan 10 15 a"
  using nan_test(1) [of "ucast a" a 10 5 15] by (simp add: isNaNF16UI_def mask_eq_exp_minus_1)

lemma f16_isSigNaN [simp]: "softfloat_isSigNaNF16UI (ucast (a :: u16)) \<longleftrightarrow> is_snan 10 15 a"
  using nan_test(2) [of "ucast a" a 10 5 15] by (simp add: softfloat_isSigNaNF16UI_def mask_eq_exp_minus_1)


end
