(* ===== verification/SF_Mul.thy ===== *)
theory SF_Mul
  imports SF_Value
begin

text \<open>
  Multiplication in half, single and double precision: the jammed product of the significands is a
  valid input of the packing algorithm, so that finite operands give the correctly rounded product;
  zeros, infinities and NaNs are covered by \<open>*_mul_zero\<close> and \<open>*_mul_special\<close>.
\<close>


lemma jam_less: "n < 2 ^ (d + m) \<Longrightarrow> 0 < m \<Longrightarrow> jam n d < 2 ^ m"
proof -
  assume "n < 2 ^ (d + m)" and m: "0 < m"
  then have q: "n div 2 ^ d < 2 ^ m" by (simp add: less_mult_imp_div_less power_add mult.commute)
  moreover have "even (2 ^ m :: nat)" using m by simp
  ultimately have "even (n div 2 ^ d) \<Longrightarrow> n div 2 ^ d + 1 < 2 ^ m"
    by (metis Suc_eq_plus1 Suc_lessI even_Suc)
  with q show ?thesis by (auto simp: jam_def)
qed

lemma jam_ge: "2 ^ (d + m) \<le> n \<Longrightarrow> 2 ^ m \<le> jam n d"
proof -
  assume "2 ^ (d + m) \<le> n"
  then have "2 ^ m \<le> n div 2 ^ d" by (simp add: less_eq_div_iff_mult_less_eq power_add mult.commute)
  then show ?thesis by (auto simp: jam_def)
qed

text \<open>
  A significand with its leading bit at \<open>p + g - 1\<close> or \<open>p + g\<close> that agrees with the exact value up to
  its lowest bit, after the final normalisation by one bit.
\<close>

lemma norm1_input:
  assumes g: "3 \<le> g" and B: "1 \<le> B" and cl: "same_class 2 y (real n)"
    and n: "2 ^ (p + g - 1) \<le> n" "n < 2 ^ (p + g + 1)" and X: "X = y * 2 powi (e + 1 - B - int (p + g))"
    and e': "e' = (if n < 2 ^ (p + g) then e - 1 else e)" and n': "n' = (if n < 2 ^ (p + g) then 2 * n else n)"
  shows "rp_input p g B e' n' (if n < 2 ^ (p + g) then 2 * y else y) X"
proof (cases "n < 2 ^ (p + g)")
  case True
  have "2 * 2 ^ (p + g - 1) = (2::nat) ^ (p + g)" using g by (simp flip: power_Suc)
  then have "2 ^ (p + g) \<le> 2 * n" using n(1) by simp
  moreover have "same_class (2 * 2) (2 * y) (2 * real n)" using cl same_class_scale [of 2 2 y "real n"] by simp
  then have "same_class (2 ^ 2 * real (2 ^ (g - 3))) (2 * y) (real (2 * n))" by (intro same_class_coarse) auto
  moreover have "2 ^ 2 * real (2 ^ (g - 3)) = 2 ^ (g - 1)" 
  proof -
    have "g - 1 = 2 + (g - 3)" using g by simp
    then show ?thesis by (metis of_nat_numeral of_nat_power power_add)
  qed
  moreover have "2 powi (e + 1 - B - int (p + g)) = 2 powi (e - 1 + 1 - B - int (p + g)) * (2::real) ^ 1" by (intro powi_shift) simp
  ultimately show ?thesis using True g B X by (simp add: rp_input_def e' n')
next
  case False
  have "same_class (2 * real (2 ^ (g - 2))) y (real n)" using cl by (intro same_class_coarse) auto
  moreover have "2 * real (2 ^ (g - 2)) = 2 ^ (g - 1)" using half_unit [of "g - 1"] g by simp
  ultimately show ?thesis using False g B X n(2) by (simp add: rp_input_def e' n')
qed

lemma norm1_word:
  assumes "unat (sig :: u64) < 2 ^ (k + 1)" "k < 63" "unat tp = 2 ^ k"
    and "(if sig < tp then (e - 1, push_bit 1 sig) else (e, sig)) = (e', sig')"
  shows "e' = (if unat sig < 2 ^ k then e - 1 else e)" "unat sig' = (if unat sig < 2 ^ k then 2 * unat sig else unat sig)"
proof -
  have k: "(2::nat) ^ k \<le> 2 ^ 62" using assms(2) by (intro power_increasing) auto
  have c: "sig < tp \<longleftrightarrow> unat sig < 2 ^ k" by (simp add: word_less_nat_alt assms(3))
  show "e' = (if unat sig < 2 ^ k then e - 1 else e)" using assms(4) by (simp only: c split: if_splits) auto
  have "unat sig < 2 ^ k \<Longrightarrow> unat (push_bit 1 sig) = 2 * unat sig"
    using k by (subst unat_push_bit_small) auto
  then show "unat sig' = (if unat sig < 2 ^ k then 2 * unat sig else unat sig)"
    using assms(4) by (simp only: c split: if_splits) auto
qed

text \<open>The product of two significands, scaled to the position of the guard bits.\<close>

lemma mul_input:
  fixes eA eB B :: int and p :: nat
  assumes A: "2 ^ p \<le> SA" "SA < 2 ^ (p + 1)" and S: "2 ^ p \<le> SB" "SB < 2 ^ (p + 1)"
    and jk: "p + j + 1 = k + g" and g: "3 \<le> g" and B: "1 \<le> B" and n: "n = jam (SA * SB * 2 ^ j) k"
    and X: "X = (real SA * 2 powi (eA - B - p)) * (real SB * 2 powi (eB - B - p))"
    and e': "e' = (if n < 2 ^ (p + g) then eA + eB - B - 1 else eA + eB - B)" and n': "n' = (if n < 2 ^ (p + g) then 2 * n else n)"
  shows "n < 2 ^ (p + g + 1)" "\<exists>y. rp_input p g B e' n' y X"
proof -
  define N where "N = SA * SB * 2 ^ j"
  have "2 ^ p * 2 ^ p \<le> SA * SB" "SA * SB < 2 ^ (p + 1) * 2 ^ (p + 1)"
    by (rule mult_le_mono mult_strict_mono'; use A S in simp)+
  then have "2 ^ p * 2 ^ p * 2 ^ j \<le> N" "N < 2 ^ (p + 1) * 2 ^ (p + 1) * 2 ^ j" by (simp_all add: N_def)
  moreover have "p + p + j = k + (p + g - 1)" "p + 1 + (p + 1) + j = k + (p + g + 1)" using jk g by auto
  ultimately have N: "2 ^ (k + (p + g - 1)) \<le> N" "N < 2 ^ (k + (p + g + 1))" by (metis power_add)+
  from jam_less [OF N(2)] show n_less: "n < 2 ^ (p + g + 1)" by (simp add: n N_def)
  have n_ge: "2 ^ (p + g - 1) \<le> n" using jam_ge [OF N(1)] by (simp add: n N_def)
  have cl: "same_class 2 (real N / 2 ^ k) (real n)" unfolding n N_def by (rule jam_class)
  have "2 powi (eA - B - p) * 2 powi (eB - B - p) * 2 ^ k = 2 powi (eA + eB - B + 1 - B - int (p + g)) * (2::real) ^ j"
  proof -
    have "(eA - B - p) + (eB - B - p) + int k = eA + eB - B + 1 - B - int (p + g) + int j" using jk by simp
    then show ?thesis by (metis power_int_add power_int_of_nat zero_neq_numeral)
  qed
  then have "X = real N / 2 ^ k * 2 powi (eA + eB - B + 1 - B - int (p + g))"
    unfolding X N_def by (simp add: eq_divide_eq) (simp add: mult_ac)
  from norm1_input [OF g B cl n_ge n_less this e' n'] show "\<exists>y. rp_input p g B e' n' y X" by blast
qed

section \<open>Multiplication\<close>

lemma scaled_product:
  assumes "unat wA < 2 ^ (p + 1)" "unat wB < 2 ^ (p + 1)" "2 * p + 2 + i + j \<le> 64"
  shows "unat (push_bit i wA * push_bit j wB :: u64) = unat wA * unat wB * 2 ^ (i + j)"
proof -
  have s: "unat w * 2 ^ l < 2 ^ m" if "unat w < 2 ^ (p + 1)" "p + 1 + l \<le> m" for w :: u64 and l m
  proof -
    have "unat w * 2 ^ l < 2 ^ (p + 1) * 2 ^ l" using that(1) by simp
    also have "\<dots> \<le> 2 ^ m" using that(2) by (simp only: flip: power_add) (rule power_increasing, auto)
    finally show ?thesis .
  qed
  have pb: "unat (push_bit i wA) = unat wA * 2 ^ i" "unat (push_bit j wB) = unat wB * 2 ^ j"
    using s [OF assms(1), of i 64] s [OF assms(2), of j 64] assms(3) by (simp_all add: unat_push_bit_small)
  have "unat wA * 2 ^ i * (unat wB * 2 ^ j) < 2 ^ (p + 1 + i) * 2 ^ (p + 1 + j)"
    by (rule mult_strict_mono'; use s [OF assms(1), of i "p + 1 + i"] s [OF assms(2), of j "p + 1 + j"] in simp)
  also have "\<dots> = 2 ^ (2 * p + 2 + i + j)" by (simp flip: power_add)
  also have "\<dots> \<le> 2 ^ 64" using assms(3) by (rule power_increasing) simp
  finally have lt: "unat wA * 2 ^ i * (unat wB * 2 ^ j) < 2 ^ 64" .
  have "unat (push_bit i wA * push_bit j wB) = unat wA * 2 ^ i * (unat wB * 2 ^ j) mod 2 ^ 64"
    by (simp only: unat_word_ariths(2) pb) simp
  also have "\<dots> = unat wA * 2 ^ i * (unat wB * 2 ^ j)" using lt by (rule mod_less)
  finally show ?thesis by (simp add: power_add mult_ac)
qed

lemma jam_high: "unat (u128_v64 z OR of_bool (u128_v0 z \<noteq> 0)) = jam (u128_val z) 64"
proof -
  have "unat (u128_v0 z) < 2 ^ 64" using unat_lt2p [of "u128_v0 z"] by simp
  then have "u128_val z div 2 ^ 64 = unat (u128_v64 z)" "u128_val z mod 2 ^ 64 = unat (u128_v0 z)"
    by (simp_all add: u128_val_def)
  then show ?thesis by (auto simp: jam_def unat_or_bool dvd_eq_mod_eq_0 word_eq_0_unat)
qed

lemma jam_mask16:
  "unat (if x AND 0xFFFF \<noteq> 0 then drop_bit 16 x OR 1 else drop_bit 16 x :: u64) = jam (unat x) 16"
proof -
  have "(0xFFFF :: u64) = mask 16" by (simp add: mask_eq_exp_minus_1)
  then have "x AND 0xFFFF = 0 \<longleftrightarrow> 2 ^ 16 dvd unat x"
    using unat_and_mask [of x 16] by (simp add: word_eq_0_unat dvd_eq_mod_eq_0)
  then show ?thesis using unat_or_bool [of "drop_bit 16 x" True] by (auto simp: jam_def)
qed

lemma f16_mul_nonzero:
  assumes a: "0 < mag a" "is_fin 10 15 a" and b: "0 < mag b" "is_fin 10 15 b"
  shows "correctly_rounded 10 15 (neg a \<noteq> neg b) (mval 10 15 (mag a) * mval 10 15 (mag b)) s (f16_mul a b s)"
proof -
  obtain eA fA where ua: "(if expF16UI (ucast a) = 0 then (es_exp (softfloat_normSubnormalF16Sig (fracF16UI (ucast a))),
      es_sig (softfloat_normSubnormalF16Sig (fracF16UI (ucast a)))) else (expF16UI (ucast a), fracF16UI (ucast a))) = (eA, fA)"
    by (metis surj_pair)
  obtain eB fB where ub: "(if expF16UI (ucast b) = 0 then (es_exp (softfloat_normSubnormalF16Sig (fracF16UI (ucast b))),
      es_sig (softfloat_normSubnormalF16Sig (fracF16UI (ucast b)))) else (expF16UI (ucast b), fracF16UI (ucast b))) = (eB, fB)"
    by (metis surj_pair)
  define wA wB where w: "wA = fA OR 0x400" "wB = fB OR 0x400"
  have tp: "push_bit 10 1 = (0x400 :: u64)" by simp
  note A = f16v.unpack_value [OF a ua, unfolded tp, folded w]
  note Bv = f16v.unpack_value [OF b ub, unfolded tp, folded w]
  define sig where "sig = (if (push_bit 4 wA * push_bit 5 wB) AND 0xFFFF \<noteq> 0 then drop_bit 16 (push_bit 4 wA * push_bit 5 wB) OR 1 else drop_bit 16 (push_bit 4 wA * push_bit 5 wB))"
  obtain e sg where n: "(if sig < 0x4000 then (eA + eB - 15 - 1, push_bit 1 sig) else (eA + eB - 15, sig)) = (e, sg)"
    by (metis surj_pair)
  have fin: "expF16UI (ucast a) \<noteq> 31" "expF16UI (ucast b) \<noteq> 31"
    using f16v.exp_top_iff [of a] f16v.exp_top_iff [of b] a b by auto
  have nz: "\<not> (expF16UI (ucast a) = 0 \<and> fracF16UI (ucast a) = 0)" "\<not> (expF16UI (ucast b) = 0 \<and> fracF16UI (ucast b) = 0)"
    using f16v.exp_frac_zero [of a] f16v.exp_frac_zero [of b] a b by auto
  have "f16_mul a b s = softfloat_roundPackToF16 (neg a \<noteq> neg b) e sg s"
    unfolding f16_mul_def Let_def
    by (simp only: fin nz if_False ua ub prod.case w [symmetric] sig_def [symmetric] n f16v.sign)
  moreover have "- (2 ^ 15) \<le> e" "e < 2 ^ 15" using n A Bv by (auto split: if_splits)
  moreover have "\<exists>y. rp_input 10 4 15 e (unat sg) y (mval 10 15 (mag a) * mval 10 15 (mag b))"
  proof -
    define SA SB where S: "SA = unat wA" "SB = unat wB"
    have A': "2 ^ 10 \<le> SA" "SA < 2 ^ (10 + 1)" and B': "2 ^ 10 \<le> SB" "SB < 2 ^ (10 + 1)" using A Bv by (simp_all add: S)
    have X: "mval 10 15 (mag a) * mval 10 15 (mag b) = (real SA * 2 powi (eA - 15 - int 10)) * (real SB * 2 powi (eB - 15 - int 10))"
      using A Bv by (simp add: S)
    have "unat (push_bit 4 wA * push_bit 5 wB) = SA * SB * 2 ^ 9"
      using scaled_product [of wA 10 wB 4 5] A' B' by (simp add: S)
    then have sig: "unat sig = jam (SA * SB * 2 ^ 9) 16" unfolding sig_def by (simp only: jam_mask16)
    note I = mul_input [OF A' B' _ _ _ sig X]
    have "unat sig < 2 ^ (14 + 1)" using I(1) by simp
    from norm1_word [OF this _ _ n] I(2) show ?thesis by simp
  qed
  ultimately show ?thesis using roundPackToF16_rounded by metis
qed

lemma f32_mul_nonzero:
  assumes a: "0 < mag a" "is_fin 23 127 a" and b: "0 < mag b" "is_fin 23 127 b"
  shows "correctly_rounded 23 127 (neg a \<noteq> neg b) (mval 23 127 (mag a) * mval 23 127 (mag b)) s (f32_mul a b s)"
proof -
  obtain eA fA where ua: "(if expF32UI (ucast a) = 0 then (es_exp (softfloat_normSubnormalF32Sig (fracF32UI (ucast a))),
      es_sig (softfloat_normSubnormalF32Sig (fracF32UI (ucast a)))) else (expF32UI (ucast a), fracF32UI (ucast a))) = (eA, fA)"
    by (metis surj_pair)
  obtain eB fB where ub: "(if expF32UI (ucast b) = 0 then (es_exp (softfloat_normSubnormalF32Sig (fracF32UI (ucast b))),
      es_sig (softfloat_normSubnormalF32Sig (fracF32UI (ucast b)))) else (expF32UI (ucast b), fracF32UI (ucast b))) = (eB, fB)"
    by (metis surj_pair)
  define wA wB where w: "wA = fA OR 0x800000" "wB = fB OR 0x800000"
  have tp: "push_bit 23 1 = (0x800000 :: u64)" by simp
  note A = f32v.unpack_value [OF a ua, unfolded tp, folded w]
  note Bv = f32v.unpack_value [OF b ub, unfolded tp, folded w]
  define sig where "sig = softfloat_shortShiftRightJam64 (push_bit 7 wA * push_bit 8 wB) 32"
  obtain e sg where n: "(if sig < 0x40000000 then (eA + eB - 127 - 1, push_bit 1 sig) else (eA + eB - 127, sig)) = (e, sg)"
    by (metis surj_pair)
  have fin: "expF32UI (ucast a) \<noteq> 255" "expF32UI (ucast b) \<noteq> 255"
    using f32v.exp_top_iff [of a] f32v.exp_top_iff [of b] a b by auto
  have nz: "\<not> (expF32UI (ucast a) = 0 \<and> fracF32UI (ucast a) = 0)" "\<not> (expF32UI (ucast b) = 0 \<and> fracF32UI (ucast b) = 0)"
    using f32v.exp_frac_zero [of a] f32v.exp_frac_zero [of b] a b by auto
  have "f32_mul a b s = softfloat_roundPackToF32 (neg a \<noteq> neg b) e sg s"
    unfolding f32_mul_def Let_def
    by (simp only: fin nz if_False ua ub prod.case w [symmetric] sig_def [symmetric] n f32v.sign)
  moreover have "- (2 ^ 15) \<le> e" "e < 2 ^ 15" using n A Bv by (auto split: if_splits)
  moreover have "\<exists>y. rp_input 23 7 127 e (unat sg) y (mval 23 127 (mag a) * mval 23 127 (mag b))"
  proof -
    define SA SB where S: "SA = unat wA" "SB = unat wB"
    have A': "2 ^ 23 \<le> SA" "SA < 2 ^ (23 + 1)" and B': "2 ^ 23 \<le> SB" "SB < 2 ^ (23 + 1)" using A Bv by (simp_all add: S)
    have X: "mval 23 127 (mag a) * mval 23 127 (mag b) = (real SA * 2 powi (eA - 127 - int 23)) * (real SB * 2 powi (eB - 127 - int 23))"
      using A Bv by (simp add: S)
    have "unat (push_bit 7 wA * push_bit 8 wB) = SA * SB * 2 ^ 15"
      using scaled_product [of wA 23 wB 7 8] A' B' by (simp add: S)
    then have sig: "unat sig = jam (SA * SB * 2 ^ 15) 32" unfolding sig_def by (simp only: shortShiftRightJam64)
    note I = mul_input [OF A' B' _ _ _ sig X]
    have "unat sig < 2 ^ (30 + 1)" using I(1) by simp
    from norm1_word [OF this _ _ n] I(2) show ?thesis by simp
  qed
  ultimately show ?thesis using roundPackToF32_rounded by metis
qed

lemma f64_mul_nonzero:
  assumes a: "0 < mag a" "is_fin 52 1023 a" and b: "0 < mag b" "is_fin 52 1023 b"
  shows "correctly_rounded 52 1023 (neg a \<noteq> neg b) (mval 52 1023 (mag a) * mval 52 1023 (mag b)) s (f64_mul a b s)"
proof -
  obtain eA fA where ua: "(if expF64UI a = 0 then (es_exp (softfloat_normSubnormalF64Sig (fracF64UI a)),
      es_sig (softfloat_normSubnormalF64Sig (fracF64UI a))) else (expF64UI a, fracF64UI a)) = (eA, fA)"
    by (metis surj_pair)
  obtain eB fB where ub: "(if expF64UI b = 0 then (es_exp (softfloat_normSubnormalF64Sig (fracF64UI b)),
      es_sig (softfloat_normSubnormalF64Sig (fracF64UI b))) else (expF64UI b, fracF64UI b)) = (eB, fB)"
    by (metis surj_pair)
  define wA wB where w: "wA = fA OR 0x10000000000000" "wB = fB OR 0x10000000000000"
  have tp: "push_bit 52 1 = (0x10000000000000 :: u64)" by simp
  note A = f64v.unpack_value [OF a ua, unfolded tp, folded w]
  note Bv = f64v.unpack_value [OF b ub, unfolded tp, folded w]
  define sig where "sig = u128_v64 (softfloat_mul64To128 (push_bit 10 wA) (push_bit 11 wB)) OR of_bool (u128_v0 (softfloat_mul64To128 (push_bit 10 wA) (push_bit 11 wB)) \<noteq> 0)"
  obtain e sg where n: "(if sig < 0x4000000000000000 then (eA + eB - 1023 - 1, push_bit 1 sig) else (eA + eB - 1023, sig)) = (e, sg)"
    by (metis surj_pair)
  have fin: "expF64UI a \<noteq> 2047" "expF64UI b \<noteq> 2047"
    using f64v.exp_top_iff [of a] f64v.exp_top_iff [of b] a b by auto
  have nz: "\<not> (expF64UI a = 0 \<and> fracF64UI a = 0)" "\<not> (expF64UI b = 0 \<and> fracF64UI b = 0)"
    using f64v.exp_frac_zero [of a] f64v.exp_frac_zero [of b] a b by auto
  have "f64_mul a b s = softfloat_roundPackToF64 (neg a \<noteq> neg b) e sg s"
    unfolding f64_mul_def Let_def
    by (simp only: fin nz if_False ua ub prod.case w [symmetric] sig_def [symmetric] n f64v.sign)
  moreover have "- (2 ^ 15) \<le> e" "e < 2 ^ 15" using n A Bv by (auto split: if_splits)
  moreover have "\<exists>y. rp_input 52 10 1023 e (unat sg) y (mval 52 1023 (mag a) * mval 52 1023 (mag b))"
  proof -
    define SA SB where S: "SA = unat wA" "SB = unat wB"
    have A': "2 ^ 52 \<le> SA" "SA < 2 ^ (52 + 1)" and B': "2 ^ 52 \<le> SB" "SB < 2 ^ (52 + 1)" using A Bv by (simp_all add: S)
    have X: "mval 52 1023 (mag a) * mval 52 1023 (mag b) = (real SA * 2 powi (eA - 1023 - int 52)) * (real SB * 2 powi (eB - 1023 - int 52))"
      using A Bv by (simp add: S)
    have "unat (push_bit 10 wA) * unat (push_bit 11 wB) = SA * SB * 2 ^ 21"
      using A' B' by (simp add: S unat_push_bit_small)
    then have sig: "unat sig = jam (SA * SB * 2 ^ 21) 64"
      unfolding sig_def jam_high mul64To128 by simp
    note I = mul_input [OF A' B' _ _ _ sig X]
    have "unat sig < 2 ^ (62 + 1)" using I(1) by simp
    from norm1_word [OF this _ _ n] I(2) show ?thesis by simp
  qed
  ultimately show ?thesis using roundPackToF64_rounded by metis
qed


section \<open>Zeros, infinities and NaNs\<close>

lemma fval_mult_sign:
  assumes "fval p B a * fval p B b \<noteq> 0"
  shows "0 < mag a" "0 < mag b" "fval p B a * fval p B b < 0 \<longleftrightarrow> neg a \<noteq> neg b"
proof -
  show m: "0 < mag a" "0 < mag b" using assms by auto
  then have "0 < mval p B (mag a)" "0 < mval p B (mag b)" by (simp_all add: mval_pos)
  then show "fval p B a * fval p B b < 0 \<longleftrightarrow> neg a \<noteq> neg b"
    by (auto simp: fval_def mult_less_0_iff not_less)
qed

lemma abs_fval_mult: "\<bar>fval p B a * fval p B b\<bar> = mval p B (mag a) * mval p B (mag b)"
  by (simp add: abs_mult abs_fval)

context float_format
begin

lemma pack_zero: "neg (pack sign 0 0) = sign" "mag (pack sign 0 0) = 0"
  using neg_mag_eqI [of "pack sign 0 0" sign 0] pack_unat [of 0 0 0 sign] bias by simp_all

end

lemma f16_mul_zero:
  assumes "mag a = 0 \<or> mag b = 0" "is_fin 10 15 a" "is_fin 10 15 b"
  shows "f16_mul a b s = (ucast (packToF16UI (neg a \<noteq> neg b) 0 0), s)"
proof -
  have "expF16UI (ucast a) \<noteq> 31" "expF16UI (ucast b) \<noteq> 31"
    using f16v.exp_top_iff [of a] f16v.exp_top_iff [of b] assms(2,3) by auto
  moreover have "expF16UI (ucast a) = 0 \<and> fracF16UI (ucast a) = 0 \<or> expF16UI (ucast b) = 0 \<and> fracF16UI (ucast b) = 0"
    using assms(1) f16v.exp_frac_zero [of a] f16v.exp_frac_zero [of b] by auto
  ultimately show ?thesis unfolding f16_mul_def Let_def f16v.sign
    by (elim disjE conjE) (simp_all only: if_False if_True simp_thms if_cancel)
qed

lemma f16_mul_special:
  assumes "\<not> (is_fin 10 15 a \<and> is_fin 10 15 b)"
  shows "f16_mul a b s =
    (if is_nan 10 15 a \<or> is_nan 10 15 b
     then (0x7E00, if is_snan 10 15 a \<or> is_snan 10 15 b then softfloat_raiseFlags softfloat_flag_invalid s else s)
     else if mag a = 0 \<or> mag b = 0 then (0x7E00, softfloat_raiseFlags softfloat_flag_invalid s)
     else (ucast (packToF16UI (neg a \<noteq> neg b) 31 0), s))"
proof -
  have t: "expF16UI (ucast x) = 31 \<longleftrightarrow> \<not> is_fin 10 15 x" for x :: "float16_t" using f16v.exp_top_iff [of x] by simp
  have n: "is_nan 10 15 x \<longleftrightarrow> \<not> is_fin 10 15 x \<and> fracF16UI (ucast x) \<noteq> 0" for x :: "float16_t" using f16v.nan_iff [of x] by (simp add: t)
  have z: "mag x = 0 \<Longrightarrow> is_fin 10 15 x" for x :: "float16_t" by (simp add: is_fin_def)
  show ?thesis
    using assms z [of a] z [of b] unfolding f16_mul_def Let_def t f16v.mag_bits_zero f16v.sign softfloat_propagateNaNF16UI_def
    by (auto simp: n defaultNaNF16UI_def)
qed

lemma f32_mul_zero:
  assumes "mag a = 0 \<or> mag b = 0" "is_fin 23 127 a" "is_fin 23 127 b"
  shows "f32_mul a b s = (ucast (packToF32UI (neg a \<noteq> neg b) 0 0), s)"
proof -
  have "expF32UI (ucast a) \<noteq> 255" "expF32UI (ucast b) \<noteq> 255"
    using f32v.exp_top_iff [of a] f32v.exp_top_iff [of b] assms(2,3) by auto
  moreover have "expF32UI (ucast a) = 0 \<and> fracF32UI (ucast a) = 0 \<or> expF32UI (ucast b) = 0 \<and> fracF32UI (ucast b) = 0"
    using assms(1) f32v.exp_frac_zero [of a] f32v.exp_frac_zero [of b] by auto
  ultimately show ?thesis unfolding f32_mul_def Let_def f32v.sign
    by (elim disjE conjE) (simp_all only: if_False if_True simp_thms if_cancel)
qed

lemma f32_mul_special:
  assumes "\<not> (is_fin 23 127 a \<and> is_fin 23 127 b)"
  shows "f32_mul a b s =
    (if is_nan 23 127 a \<or> is_nan 23 127 b
     then (0x7FC00000, if is_snan 23 127 a \<or> is_snan 23 127 b then softfloat_raiseFlags softfloat_flag_invalid s else s)
     else if mag a = 0 \<or> mag b = 0 then (0x7FC00000, softfloat_raiseFlags softfloat_flag_invalid s)
     else (ucast (packToF32UI (neg a \<noteq> neg b) 255 0), s))"
proof -
  have t: "expF32UI (ucast x) = 255 \<longleftrightarrow> \<not> is_fin 23 127 x" for x :: "float32_t" using f32v.exp_top_iff [of x] by simp
  have n: "is_nan 23 127 x \<longleftrightarrow> \<not> is_fin 23 127 x \<and> fracF32UI (ucast x) \<noteq> 0" for x :: "float32_t" using f32v.nan_iff [of x] by (simp add: t)
  have z: "mag x = 0 \<Longrightarrow> is_fin 23 127 x" for x :: "float32_t" by (simp add: is_fin_def)
  show ?thesis
    using assms z [of a] z [of b] unfolding f32_mul_def Let_def t f32v.mag_bits_zero f32v.sign softfloat_propagateNaNF32UI_def
    by (auto simp: n defaultNaNF32UI_def)
qed

lemma f64_mul_zero:
  assumes "mag a = 0 \<or> mag b = 0" "is_fin 52 1023 a" "is_fin 52 1023 b"
  shows "f64_mul a b s = (packToF64UI (neg a \<noteq> neg b) 0 0, s)"
proof -
  have "expF64UI a \<noteq> 2047" "expF64UI b \<noteq> 2047"
    using f64v.exp_top_iff [of a] f64v.exp_top_iff [of b] assms(2,3) by auto
  moreover have "expF64UI a = 0 \<and> fracF64UI a = 0 \<or> expF64UI b = 0 \<and> fracF64UI b = 0"
    using assms(1) f64v.exp_frac_zero [of a] f64v.exp_frac_zero [of b] by auto
  ultimately show ?thesis unfolding f64_mul_def Let_def f64v.sign
    by (elim disjE conjE) (simp_all only: if_False if_True simp_thms if_cancel)
qed

lemma f64_mul_special:
  assumes "\<not> (is_fin 52 1023 a \<and> is_fin 52 1023 b)"
  shows "f64_mul a b s =
    (if is_nan 52 1023 a \<or> is_nan 52 1023 b
     then (0x7FF8000000000000, if is_snan 52 1023 a \<or> is_snan 52 1023 b then softfloat_raiseFlags softfloat_flag_invalid s else s)
     else if mag a = 0 \<or> mag b = 0 then (0x7FF8000000000000, softfloat_raiseFlags softfloat_flag_invalid s)
     else (packToF64UI (neg a \<noteq> neg b) 2047 0, s))"
proof -
  have t: "expF64UI x = 2047 \<longleftrightarrow> \<not> is_fin 52 1023 x" for x :: "float64_t" using f64v.exp_top_iff [of x] by simp
  have n: "is_nan 52 1023 x \<longleftrightarrow> \<not> is_fin 52 1023 x \<and> fracF64UI x \<noteq> 0" for x :: "float64_t" using f64v.nan_iff [of x] by (simp add: t)
  have z: "mag x = 0 \<Longrightarrow> is_fin 52 1023 x" for x :: "float64_t" by (simp add: is_fin_def)
  show ?thesis
    using assms z [of a] z [of b] unfolding f64_mul_def Let_def t f64v.mag_bits_zero f64v.sign softfloat_propagateNaNF64UI_def
    by (auto simp: n defaultNaNF64UI_def)
qed

theorem f16_mul_correct:
  assumes "is_fin 10 15 a" "is_fin 10 15 b"
  shows "float_result 10 15 (fval 10 15 a * fval 10 15 b) (neg a \<noteq> neg b) s (f16_mul a b s)"
proof (cases "fval 10 15 a * fval 10 15 b = 0")
  case True
  then show ?thesis using f16_mul_zero [OF _ assms, of s] f16.pack_zero [of "neg a \<noteq> neg b"]
    by (simp add: float_result_def)
next
  case False
  then show ?thesis using f16_mul_nonzero [of a b s] fval_mult_sign [OF False] assms
    by (simp add: float_result_def abs_fval_mult)
qed

theorem f32_mul_correct:
  assumes "is_fin 23 127 a" "is_fin 23 127 b"
  shows "float_result 23 127 (fval 23 127 a * fval 23 127 b) (neg a \<noteq> neg b) s (f32_mul a b s)"
proof (cases "fval 23 127 a * fval 23 127 b = 0")
  case True
  then show ?thesis using f32_mul_zero [OF _ assms, of s] f32.pack_zero [of "neg a \<noteq> neg b"]
    by (simp add: float_result_def)
next
  case False
  then show ?thesis using f32_mul_nonzero [of a b s] fval_mult_sign [OF False] assms
    by (simp add: float_result_def abs_fval_mult)
qed

theorem f64_mul_correct:
  assumes "is_fin 52 1023 a" "is_fin 52 1023 b"
  shows "float_result 52 1023 (fval 52 1023 a * fval 52 1023 b) (neg a \<noteq> neg b) s (f64_mul a b s)"
proof (cases "fval 52 1023 a * fval 52 1023 b = 0")
  case True
  then show ?thesis using f64_mul_zero [OF _ assms, of s] f64.pack_zero [of "neg a \<noteq> neg b"]
    by (simp add: float_result_def)
next
  case False
  then show ?thesis using f64_mul_nonzero [of a b s] fval_mult_sign [OF False] assms
    by (simp add: float_result_def abs_fval_mult)
qed

end
