(* ===== verification/SF_Align.thy ===== *)
theory SF_Align
  imports SF_Value SF_Mul
begin

text \<open>
  What the additions of the formats have in common: significands aligned at their exponent fields, the
  effect of the jammed shift of the smaller operand on sum and difference, the exact results of equal
  exponents, the normalisation after a cancellation, and the order of magnitudes.
\<close>

section \<open>Aligned significands\<close>

text \<open>The significand of a value aligned at its exponent field.\<close>

definition aligned :: "nat \<Rightarrow> nat \<Rightarrow> nat" where
  "aligned p m = (if m div 2 ^ p \<noteq> 0 then 2 ^ p + m mod 2 ^ p else 2 * (m mod 2 ^ p))"

lemma aligned_less: "aligned p m < 2 ^ (p + 1)"
proof -
  have "m mod 2 ^ p < 2 ^ p" by simp
  then show ?thesis unfolding aligned_def by (simp del: mod_less_divisor)
qed

lemma aligned_ge: "m div 2 ^ p \<noteq> 0 \<Longrightarrow> 2 ^ p \<le> aligned p m"
  by (simp add: aligned_def)

lemma mval_aligned: "mval p B m = real (aligned p m) * 2 powi (int (m div 2 ^ p) - B - p)"
proof (cases "m div 2 ^ p = 0")
  case True
  have "2 powi (1 - B - p) = 2 powi (0 - B - p) * (2::real) ^ 1" by (rule powi_shift) simp
  then show ?thesis using True by (simp add: mval_eq aligned_def div_eq_0_iff)
qed (simp add: mval_eq aligned_def)

lemma mval_scaled:
  "mval p B m = real (aligned p m * 2 ^ i) * 2 powi (int (m div 2 ^ p) - B - p - i)"
proof -
  have "2 powi (int (m div 2 ^ p) - B - p) = 2 powi (int (m div 2 ^ p) - B - p - i) * (2::real) ^ i"
    by (rule powi_shift) simp
  then show ?thesis by (simp add: mval_aligned)
qed

lemma jam_div_class_add:
  "same_class 2 (real (2 * k) + real W / 2 ^ d) (real (2 * k + jam W d))"
  using same_class_add [OF jam_class [of W d], of "int k"] by (simp add: mult.commute)

lemma jam_div_class_sub:
  assumes "jam W d \<le> 2 * k"
  shows "same_class 2 (real (2 * k) - real W / 2 ^ d) (real (2 * k - jam W d))"
  using same_class_neg [OF jam_class [of W d], of "int k"] assms by (simp add: mult.commute of_nat_diff)

lemma jam_shifted:
  assumes "0 < d" "0 < p + i"
  shows "jam (aligned p b * 2 ^ i) d < 2 ^ (p + i)"
proof -
  have "aligned p b * 2 ^ i < 2 ^ (p + 1) * 2 ^ i" using aligned_less [of p b] by simp
  also have "\<dots> \<le> 2 ^ (d + (p + i))" using assms(1) by (simp only: flip: power_add) (rule power_increasing, auto)
  finally show ?thesis using assms(2) by (rule jam_less)
qed

text \<open>Magnitudes with different exponents are added after the smaller one is shifted with jamming.\<close>

lemma add_far_input:
  fixes a b p :: nat and B :: int
  assumes E: "b div 2 ^ p < a div 2 ^ p" and d: "d = a div 2 ^ p - b div 2 ^ p" and g: "3 \<le> g" and B: "1 \<le> B"
    and n: "n = aligned p a * 2 ^ (g - 1) + jam (aligned p b * 2 ^ (g - 1)) d"
    and e': "e' = (if n < 2 ^ (p + g) then int (a div 2 ^ p) - 1 else int (a div 2 ^ p))"
    and n': "n' = (if n < 2 ^ (p + g) then 2 * n else n)"
  shows "n < 2 ^ (p + g + 1)" "\<exists>y. rp_input p g B e' n' y (mval p B a + mval p B b)"
proof -
  define i where "i = g - 1"
  have i: "g = i + 1" "0 < i" using g by (simp_all add: i_def)
  have a: "2 ^ p * 2 ^ i \<le> aligned p a * 2 ^ i" using aligned_ge [of a p] E by simp
  have lt: "aligned p x * 2 ^ i < 2 ^ (p + 1) * 2 ^ i" for x using aligned_less [of p x] by simp
  have "jam (aligned p b * 2 ^ i) d < 2 ^ (p + i)" using E d i by (intro jam_shifted) auto
  then have j: "jam (aligned p b * 2 ^ i) d < 2 ^ p * 2 ^ i" by (simp add: power_add)
  have "aligned p a * 2 ^ i < 2 * (2 ^ p * 2 ^ i)" using lt [of a] by simp
  moreover have P: "2 ^ (p + g + 1) = 4 * (2 ^ p * 2 ^ i :: nat)" by (simp add: i power_add)
  ultimately show n1: "n < 2 ^ (p + g + 1)" unfolding P n i_def [symmetric] using j by linarith
  have "2 ^ (p + g - 1) = (2 ^ p * 2 ^ i :: nat)" by (simp add: i power_add)
  then have n0: "2 ^ (p + g - 1) \<le> n" unfolding n i_def [symmetric] using a by linarith
  obtain k where k: "aligned p a * 2 ^ i = 2 * k" using i(2) by (cases i) auto
  define y where "y = real (2 * k) + real (aligned p b * 2 ^ i) / 2 ^ d"
  have cl: "same_class 2 y (real n)" unfolding y_def n using jam_div_class_add [of k "aligned p b * 2 ^ i" d] k i by simp
  have "2 powi (int (a div 2 ^ p) - B - p - i) = 2 powi (int (b div 2 ^ p) - B - p - i) * (2::real) ^ d"
    using E d by (intro powi_shift) simp
  then have "mval p B a + mval p B b = y * 2 powi (int (a div 2 ^ p) - B - p - i)"
    unfolding mval_scaled [of p B a i] mval_scaled [of p B b i] y_def k by (simp add: distrib_right)
  also have "int (a div 2 ^ p) - B - p - i = int (a div 2 ^ p) + 1 - B - int (p + g)" by (simp add: i)
  finally have "mval p B a + mval p B b = y * 2 powi (int (a div 2 ^ p) + 1 - B - int (p + g))" .
  from norm1_input [OF g B cl n0 n1 this e' n'] show "\<exists>y. rp_input p g B e' n' y (mval p B a + mval p B b)" by blast
qed

text \<open>
  The difference of magnitudes with different exponents: unless the exponents are adjacent, at most one
  leading bit is lost; when more are, nothing was shifted out.
\<close>

lemma sub_far:
  fixes a b p :: nat
  assumes E: "b div 2 ^ p < a div 2 ^ p" and d: "d = a div 2 ^ p - b div 2 ^ p" and g: "2 \<le> g"
    and y: "y = real (aligned p a * 2 ^ g) - real (aligned p b * 2 ^ g) / 2 ^ d"
    and j: "j = jam (aligned p b * 2 ^ g) d" and n: "n = aligned p a * 2 ^ g - j"
  shows "j < aligned p a * 2 ^ g" "n < 2 ^ (p + g + 1)" "same_class 2 y (real n)"
    "n < 2 ^ (p + g - 1) \<Longrightarrow> y = real n" 
proof -
  have a: "2 ^ (p + g) \<le> aligned p a * 2 ^ g" using aligned_ge [of a p] E by (simp add: power_add)
  have lt: "aligned p x * 2 ^ g < 2 ^ (p + 1) * 2 ^ g" for x using aligned_less [of p x] by simp
  have half: "2 ^ g = 2 * (2::nat) ^ (g - 1)" "2 ^ (p + g) = 2 * (2::nat) ^ (p + g - 1)" using g by (simp_all flip: power_Suc)
  have exact: "j = aligned p b * 2 ^ (g - 1)" "real (aligned p b * 2 ^ g) / 2 ^ d = real j" if "d = 1"
    by (simp_all add: j that half jam_def)
  have far: "j \<le> 2 ^ (p + g - 1)" if "d \<noteq> 1"
  proof (cases "d \<le> p + g")
    case True
    have "aligned p b * 2 ^ g < 2 ^ (d + (p + g + 1 - d))" using lt [of b] True by (simp add: power_add)
    from jam_less [OF this] True have "j < 2 ^ (p + g + 1 - d)" by (simp add: j)
    also have "\<dots> \<le> 2 ^ (p + g - 1)" using that E d by (intro power_increasing) auto
    finally show ?thesis by simp
  next
    case False
    have "aligned p b * 2 ^ g < 2 ^ (p + g + 1)" using lt [of b] by (simp add: power_add)
    also have "\<dots> \<le> 2 ^ Suc d" using False by (intro power_increasing) auto
    finally show ?thesis using g by (simp add: j jam_small)
  qed
  have near: "j < 2 ^ (p + g)" if "d = 1"
    using aligned_less [of p b] half by (simp add: exact [OF that] power_add)
  have "(2::nat) ^ (p + g - 1) < 2 ^ (p + g)" using half by simp
  then show j_less: "j < aligned p a * 2 ^ g" using near far a by (cases "d = 1") linarith+
  show "n < 2 ^ (p + g + 1)" unfolding n using lt [of a] by (intro le_less_trans [OF diff_le_self]) (simp add: power_add)
  obtain k where k: "aligned p a * 2 ^ g = 2 * k" unfolding half by (metis mult.left_commute)
  show "same_class 2 y (real n)"
    unfolding y n j k using jam_div_class_sub [of "aligned p b * 2 ^ g" d k] j_less by (simp add: j k)
  assume "n < 2 ^ (p + g - 1)"
  with a far half j_less have "d = 1" by (cases "d = 1") (auto simp: n)
  then show "y = real n" unfolding y exact(2) [OF \<open>d = 1\<close>] n using j_less by (simp add: of_nat_diff)
qed

text \<open>Normalisation of a difference: its leading one is moved to the bit below the top.\<close>

lemma clz_below_top:
  assumes "clz_ok (k + 2) n c" "0 < n" "n < 2 ^ (k + 1)"
  shows "1 \<le> c" "2 ^ k \<le> n * 2 ^ (c - 1)" "n * 2 ^ (c - 1) < 2 ^ (k + 1)"
proof -
  have b: "2 ^ (k + 1) \<le> n * 2 ^ c" "n * 2 ^ c < 2 ^ (k + 2)" using assms(1,2) by (simp_all add: clz_ok_def)
  show c: "1 \<le> c" using b(1) assms(3) by (cases c) auto
  then have "(2::nat) ^ c = 2 * 2 ^ (c - 1)" by (simp flip: power_Suc)
  then show "2 ^ k \<le> n * 2 ^ (c - 1)" "n * 2 ^ (c - 1) < 2 ^ (k + 1)" using b by simp_all
qed

lemma norm_round_input:
  assumes g: "3 \<le> g" and B: "1 \<le> B" and cl: "same_class 2 y (real n)"
    and ex: "n < 2 ^ (p + g - 1) \<Longrightarrow> y = real n"
    and b: "2 ^ (p + g) \<le> n * 2 ^ sd" "n * 2 ^ sd < 2 ^ (p + g + 1)"
    and X: "X = y * 2 powi (e + 1 - B - int (p + g))"
  shows "rp_input p g B (e - sd) (n * 2 ^ sd) (y * 2 ^ sd) X"
proof -
  have "same_class (2 ^ (g - 1)) (y * 2 ^ sd) (real (n * 2 ^ sd))"
  proof (cases "n < 2 ^ (p + g - 1)")
    case True
    then show ?thesis by (simp add: ex)
  next
    case False
    have "sd \<le> 1"
    proof (rule ccontr)
      assume "\<not> sd \<le> 1"
      then have "(2::nat) ^ 2 \<le> 2 ^ sd" by (intro power_increasing) auto
      then have "2 ^ (p + g - 1) * 2 ^ 2 \<le> n * 2 ^ sd" using False by (intro mult_le_mono) auto
      moreover have "2 ^ (p + g - 1) * 2 ^ 2 = (2::nat) ^ (p + g + 1)" using g by (simp only: flip: power_add) simp
      ultimately show False using b(2) by simp
    qed
    have "same_class (2 ^ sd * 2) (2 ^ sd * y) (2 ^ sd * real n)" using cl same_class_scale [of "2 ^ sd" 2 y "real n"] by simp
    then have "same_class (2 ^ sd * 2 * real (2 ^ (g - 2 - sd))) (y * 2 ^ sd) (real (n * 2 ^ sd))"
      by (intro same_class_coarse) (simp_all add: mult.commute)
    moreover have "2 ^ sd * 2 * real (2 ^ (g - 2 - sd)) = 2 ^ (g - 1)"
    proof -
      have "g - 1 = sd + 1 + (g - 2 - sd)" using g \<open>sd \<le> 1\<close> by simp
      then show ?thesis by (metis of_nat_numeral of_nat_power power_add power_one_right)
    qed
    ultimately show ?thesis by simp
  qed
  moreover have "2 powi (e + 1 - B - int (p + g)) = 2 powi (e - sd + 1 - B - int (p + g)) * (2::real) ^ sd"
    by (intro powi_shift) simp
  ultimately show ?thesis using g B b X by (simp add: rp_input_def)
qed

lemma norm_pack_exact:
  assumes ex: "y = real n" and b: "2 ^ (p + g) \<le> n * 2 ^ sd" "n * 2 ^ sd < 2 ^ (p + g + 1)" and sd: "g \<le> sd"
    and e: "0 \<le> e - sd" "e - sd < 2 * B - 1" and X: "X = y * 2 powi (e + 1 - B - int (p + g))"
    and m: "m = nat (e - sd) * 2 ^ p + n * 2 ^ (sd - g)"
  shows "mval p B m = X" "int m < (2 * B + 1) * 2 ^ p" "0 < m"
proof -
  let ?q = "n * 2 ^ (sd - g)"
  have q: "n * 2 ^ sd = ?q * 2 ^ g" using sd by (simp flip: power_add)
  have "2 ^ p * 2 ^ g \<le> ?q * 2 ^ g" using b(1) unfolding q by (simp add: power_add)
  then have q1: "2 ^ p \<le> ?q" by simp
  have "?q * 2 ^ g < 2 ^ (p + 1) * 2 ^ g" using b(2) unfolding q by (simp add: power_add)
  then have q2: "?q < 2 ^ (p + 1)" by simp
  have "mval p B m = real ?q * 2 powi (e - sd + 1 - B - p)"
    unfolding m using q1 q2 e(1) by (intro mval_pack) auto
  moreover have "2 powi (e + 1 - B - int (p + g)) = 2 powi (e - sd + 1 - B - p) * (2::real) ^ (sd - g)"
    using sd by (intro powi_shift) simp
  ultimately show "mval p B m = X" by (simp add: X ex)
  have "int ?q < 2 * 2 ^ p" using q2 by (metis of_nat_less_iff of_nat_numeral of_nat_power power_add power_one_right mult.commute)
  moreover have "(e - sd) * 2 ^ p \<le> (2 * B - 2) * 2 ^ p" using e(2) by (intro mult_right_mono) auto
  ultimately have "(e - sd) * 2 ^ p + int ?q < (2 * B - 2) * 2 ^ p + 2 * 2 ^ p" by (rule add_le_less_mono [rotated])
  also have "\<dots> < (2 * B + 1) * 2 ^ p" by (simp add: algebra_simps)
  finally show "int m < (2 * B + 1) * 2 ^ p" using e(1) by (simp add: m)
  have "(0::nat) < 2 ^ p" by simp
  also note q1
  also have "?q \<le> m" by (simp add: m)
  finally show "0 < m" .
qed

context float_format
begin

lemma pack_exact:
  assumes "0 \<le> e" "m = nat e * 2 ^ p + unat x" "0 < m" "int m < (2 * B + 1) * 2 ^ p" "mval p B m = X"
  shows "correctly_rounded p B sign X s (pack sign e x, s)"
proof -
  have lt: "int m < (2 * B + 2) * 2 ^ p" using assms(4) by (rule less_trans) simp
  then have "int m < int (2 ^ (LENGTH('f) - 1))" using width by simp
  then have "m < 2 ^ (LENGTH('f) - 1)" by (simp only: of_nat_less_iff)
  moreover have "int m = e * 2 ^ p + uint x" using assms(1) by (simp add: assms(2))
  ultimately show ?thesis
    by (intro correctly_rounded_exact [OF pack_unat [OF assms(1) _ lt]]) (use assms bias in auto)
qed

lemma norm_round_word:
  assumes c: "clz_ok (p + g + 2) (unat sig) c" and n: "0 < unat sig" "unat sig < 2 ^ (p + g + 1)" and g: "3 \<le> g"
    and cl: "same_class 2 y (real (unat sig))" and ex: "unat sig < 2 ^ (p + g - 1) \<Longrightarrow> y = real (unat sig)"
    and X: "X = y * 2 powi (e + 1 - B - int (p + g))" and sd: "sd = int c - 1" and e: "- (2 ^ 15) \<le> e - sd"
  shows "0 \<le> sd"
    "int g \<le> sd \<Longrightarrow> 0 \<le> e - sd \<Longrightarrow> e - sd < 2 * B - 1 \<Longrightarrow>
       correctly_rounded p B sign X s (pack sign (e - sd) (push_bit (nat (sd - int g)) sig), s)"
    "correctly_rounded p B sign X s (rp_word p g B pack shr sign (e - sd) (push_bit (nat sd) sig) s)"
proof -
  define k where "k = c - 1"
  note b = clz_below_top [OF c n, folded k_def]
  have sdk: "sd = int k" using b(1) sd by (simp add: k_def)
  then show "0 \<le> sd" by simp
  have "(2::nat) ^ (p + g + 1) \<le> 2 ^ 63" using guard by (intro power_increasing) auto
  then have lt: "unat sig * 2 ^ k < 2 ^ LENGTH(64)" using b(3) by simp
  show "correctly_rounded p B sign X s (rp_word p g B pack shr sign (e - sd) (push_bit (nat sd) sig) s)"
    using norm_round_input [OF g bias cl ex b(2,3) X] e sdk unat_push_bit_small [OF lt] by (intro rp_word_rounded) auto
  assume a: "int g \<le> sd" "0 \<le> e - sd" "e - sd < 2 * B - 1"
  have "unat sig * 2 ^ g \<le> unat sig * 2 ^ k" using a(1) sdk by (intro mult_le_mono power_increasing) auto
  also note b(3)
  also have "(2::nat) ^ (p + g + 1) = 2 ^ (p + 1) * 2 ^ g" by (simp add: power_add)
  finally have "unat sig < 2 ^ (p + 1)" by simp
  also have "\<dots> \<le> 2 ^ (p + g - 1)" using g by (intro power_increasing) auto
  finally have y: "y = real (unat sig)" by (rule ex)
  have "unat sig * 2 ^ (k - g) \<le> unat sig * 2 ^ k" by (intro mult_le_mono power_increasing) auto
  from unat_push_bit_small [OF le_less_trans [OF this lt]] show "correctly_rounded p B sign X s (pack sign (e - sd) (push_bit (nat (sd - int g)) sig), s)"
    using norm_pack_exact [OF y b(2,3) _ _ _ X refl] a unfolding sdk
    by (intro pack_exact) (auto simp: nat_diff_distrib')
qed

end

section \<open>Operands with equal exponents\<close>

lemma add_subnormal: "a < 2 ^ p \<Longrightarrow> b < 2 ^ p \<Longrightarrow> mval p B (a + b) = mval p B a + mval p B b"
  using mval_pack [of "a + b" p 0 B] by (simp add: mval_def distrib_right)

lemma add_equal_input:
  fixes a b p :: nat and B :: int
  assumes E: "a div 2 ^ p = E" "b div 2 ^ p = E" "E \<noteq> 0" and g: "2 \<le> g" and B: "1 \<le> B"
    and n: "n = (aligned p a + aligned p b) * 2 ^ (g - 1)"
  shows "rp_input p g B (int E) n (real n) (mval p B a + mval p B b)"
proof -
  define i where "i = g - 1"
  have i: "g = i + 1" using g by (simp add: i_def)
  have l: "2 ^ p \<le> aligned p a" "2 ^ p \<le> aligned p b" using aligned_ge [of a p] aligned_ge [of b p] E by auto
  have u: "aligned p a < 2 ^ (p + 1)" "aligned p b < 2 ^ (p + 1)" by (rule aligned_less)+
  have "2 ^ (p + 1) * 2 ^ i \<le> n" unfolding n i_def [symmetric] using l by (intro mult_le_mono1) simp
  moreover have "n < 2 ^ (p + 2) * 2 ^ i" unfolding n i_def [symmetric] using u by (intro mult_strict_right_mono) auto
  moreover have "mval p B a + mval p B b = real n * 2 powi (int E + 1 - B - int (p + g))"
    unfolding mval_scaled [of p B a i] mval_scaled [of p B b i] E n by (simp add: i algebra_simps)
  ultimately show ?thesis using g B by (simp add: rp_input_def i power_add)
qed

lemma add_equal_even:
  fixes a b p :: nat and B :: int
  assumes E: "a div 2 ^ p = E" "b div 2 ^ p = E" "E \<noteq> 0" "int E < 2 * B" and q: "aligned p a + aligned p b = 2 * q"
    and m: "m = E * 2 ^ p + q"
  shows "mval p B m = mval p B a + mval p B b" "int m < (2 * B + 1) * 2 ^ p" "0 < m"
proof -
  have "2 ^ p \<le> aligned p a" "2 ^ p \<le> aligned p b" using aligned_ge [of a p] aligned_ge [of b p] E by auto
  then have l: "2 ^ p \<le> q" using q by simp
  have u: "q < 2 ^ (p + 1)" using q aligned_less [of p a] aligned_less [of p b] by simp
  have "mval p B m = real q * 2 powi (int E + 1 - B - p)"
    using mval_pack [of q p "int E" B] l u by (simp add: m)
  also have "2 powi (int E + 1 - B - p) = 2 powi (int E - B - p) * (2::real) ^ 1" by (rule powi_shift) simp
  also have "real q * (2 powi (int E - B - p) * 2 ^ 1) = real (2 * q) * 2 powi (int E - B - p)" by simp
  also have "\<dots> = mval p B a + mval p B b" unfolding mval_aligned [of p B a] mval_aligned [of p B b] E q [symmetric]
    by (simp add: distrib_right)
  finally show "mval p B m = mval p B a + mval p B b" .
  have "int q < 2 * 2 ^ p" using u by (metis of_nat_less_iff of_nat_numeral of_nat_power power_add power_one_right mult.commute)
  moreover have "int E * 2 ^ p \<le> (2 * B - 1) * 2 ^ p" using E(4) by (intro mult_right_mono) auto
  ultimately have "int E * 2 ^ p + int q < (2 * B - 1) * 2 ^ p + 2 * 2 ^ p" by (rule add_le_less_mono [rotated])
  also have "\<dots> = (2 * B + 1) * 2 ^ p" by (simp add: algebra_simps)
  finally show "int m < (2 * B + 1) * 2 ^ p" by (simp add: m)
  show "0 < m" using E(3) by (simp add: m)
qed

lemma sub_equal:
  fixes a b p :: nat
  assumes "a div 2 ^ p = E" "b div 2 ^ p = E"
  shows "mval p B a - mval p B b = real_of_int (int (a mod 2 ^ p) - int (b mod 2 ^ p)) * 2 powi (max (int E) 1 - B - p)"
proof (cases "E = 0")
  case True
  with assms have "a < 2 ^ p" "b < 2 ^ p" by (simp_all add: div_eq_0_iff)
  then show ?thesis using True by (simp add: mval_def left_diff_distrib)
next
  case False
  then have "max (int E) 1 = int E" by simp
  with False assms show ?thesis by (simp add: mval_eq left_diff_distrib [symmetric])
qed

context float_format
begin

lemma sub_equal_word:
  assumes c: "clz_ok (p + k + 1) (unat D) c" and D: "0 < unat D" "unat D < 2 ^ p" and e: "0 \<le> e" "e < 2 * B"
    and sd: "sd = int c - int k" and r: "(if e - sd < 0 then (e, 0) else (sd, e - sd)) = (sd', eZ)"
    and X: "X = real (unat D) * 2 powi (e + 1 - B - p)"
  shows "correctly_rounded p B sign X s (pack sign eZ (push_bit (nat sd') D), s)"
proof -
  note b = clz_norm [OF c D refl]
  define q where "q = unat D * 2 ^ nat sd'"
  have "1 < 2 * B" using bias by simp
  then have sd': "0 \<le> sd'" "sd' \<le> int (c - k)" "0 \<le> eZ" "eZ < 2 * B - 1" "eZ = 0 \<or> sd' = int (c - k)" "sd' + eZ = e"
    using r sd b(1) e by (auto split: if_splits)
  have "q \<le> unat D * 2 ^ (c - k)" unfolding q_def using sd'(1,2) by (intro mult_le_mono2 power_increasing) auto
  with b(4) have q: "q < 2 ^ (p + 1)" by simp
  have q2: "eZ = 0 \<or> 2 ^ p \<le> q" using sd'(5) b(3) by (auto simp: q_def)
  have "(2::nat) ^ (p + 1) \<le> 2 ^ 64" using guard by (intro power_increasing) auto
  then have "unat D * 2 ^ nat sd' < 2 ^ LENGTH(64)" using q by (simp add: q_def)
  from unat_push_bit_small [OF this] have u: "unat (push_bit (nat sd') D) = q" by (simp add: q_def)
  have "mval p B (nat eZ * 2 ^ p + q) = real q * 2 powi (eZ + 1 - B - p)" using q q2 sd'(3) by (intro mval_pack) auto
  moreover have "2 powi (e + 1 - B - p) = 2 powi (eZ + 1 - B - p) * (2::real) ^ nat sd'" using sd' by (intro powi_shift) simp
  ultimately have v: "mval p B (nat eZ * 2 ^ p + q) = X" by (simp add: X q_def)
  have "int q < 2 * 2 ^ p" using q by (metis of_nat_less_iff of_nat_numeral of_nat_power power_add power_one_right mult.commute)
  moreover have "eZ * 2 ^ p \<le> (2 * B - 2) * 2 ^ p" using sd'(4) by (intro mult_right_mono) auto
  ultimately have "eZ * 2 ^ p + int q < (2 * B - 2) * 2 ^ p + 2 * 2 ^ p" by (rule add_le_less_mono [rotated])
  also have "\<dots> < (2 * B + 1) * 2 ^ p" by (simp add: algebra_simps)
  finally have m: "int (nat eZ * 2 ^ p + q) < (2 * B + 1) * 2 ^ p" using sd'(3) by simp
  have "0 < q" using D(1) by (simp add: q_def)
  then show ?thesis using sd'(3) u m v by (intro pack_exact [OF _ refl]) auto
qed

end

section \<open>Reading the operands\<close>

context float_fields
begin

lemma frac_less: "unat (fracUI (ui a)) < 2 ^ p"
  by (simp add: frac)

lemma exp_diff: "expUI (ui a) - expUI (ui b) = 0 \<longleftrightarrow> mag a div 2 ^ p = mag b div 2 ^ p"
  "expUI (ui a) - expUI (ui b) < 0 \<longleftrightarrow> mag a div 2 ^ p < mag b div 2 ^ p"
  by (simp_all add: exp)

end

text \<open>The significands of the operands, aligned at their exponent fields.\<close>

context float_fields
begin

lemma sig_bounds:
  assumes "p + k + 2 \<le> 64"
  shows "unat (push_bit k (fracUI (ui a))) = unat (fracUI (ui a)) * 2 ^ k" "unat (fracUI (ui a)) * 2 ^ k < 2 ^ (p + k)"
    "unat (push_bit (p + k) 1 :: u64) = 2 ^ (p + k)" "2 * 2 ^ (p + k) < (2::nat) ^ 64"
proof -
  have "2 ^ (p + k + 2) \<le> (2::nat) ^ 64" using assms by (intro power_increasing) auto
  then show t: "2 * 2 ^ (p + k) < (2::nat) ^ 64" by simp
  show f: "unat (fracUI (ui a)) * 2 ^ k < 2 ^ (p + k)" using frac_less [of a] by (simp add: power_add)
  show "unat (push_bit (p + k) 1 :: u64) = 2 ^ (p + k)" using assms by (intro unat_exp) auto
  show "unat (push_bit k (fracUI (ui a))) = unat (fracUI (ui a)) * 2 ^ k" using f t by (intro unat_push_bit_small) simp
qed

lemma big_sig:
  assumes "expUI (ui a) \<noteq> 0" "p + k + 2 \<le> 64"
  shows "unat (push_bit (p + k) 1 + push_bit k (fracUI (ui a))) = aligned p (mag a) * 2 ^ k"
    "unat (push_bit k (fracUI (ui a)) OR push_bit (p + k) 1) = aligned p (mag a) * 2 ^ k"
proof -
  define w where "w = push_bit k (fracUI (ui a))"
  note b = sig_bounds(1,2) [OF assms(2), of a, folded w_def] sig_bounds(3,4) [OF assms(2)]
  have al: "aligned p (mag a) = 2 ^ p + unat (fracUI (ui a))" using assms(1) by (simp add: exp aligned_def frac)
  show s: "unat (push_bit (p + k) 1 + push_bit k (fracUI (ui a))) = aligned p (mag a) * 2 ^ k"
  proof -
    have "unat (push_bit (p + k) 1 :: u64) + unat w < 2 ^ LENGTH(64)" using b by simp
    then have "unat (push_bit (p + k) 1 + w) = 2 ^ (p + k) + unat (fracUI (ui a)) * 2 ^ k"
      unfolding unat_plus_cases [of "push_bit (p + k) 1" w] using b by (simp only: if_True)
    then show ?thesis unfolding w_def [symmetric] al by (simp add: power_add distrib_right)
  qed
  have "push_bit (p + k) 1 OR w = push_bit (p + k) 1 + w" by (rule or_high_low) (simp add: b)
  then show "unat (push_bit k (fracUI (ui a)) OR push_bit (p + k) 1) = aligned p (mag a) * 2 ^ k"
    using s unfolding w_def [symmetric] by (simp only: or.commute)
qed

lemma small_sig:
  assumes "p + k + 2 \<le> 64"
  shows "unat (push_bit k (fracUI (ui a)) + (if expUI (ui a) \<noteq> 0 then push_bit (p + k) 1 else push_bit k (fracUI (ui a)))) =
    aligned p (mag a) * 2 ^ k"
proof (cases "expUI (ui a) = 0")
  case True
  define w where "w = push_bit k (fracUI (ui a))"
  note b = sig_bounds(1,2) [OF assms, of a, folded w_def] sig_bounds(3,4) [OF assms]
  have "aligned p (mag a) = 2 * unat (fracUI (ui a))" using True by (simp add: exp aligned_def frac)
  moreover have "unat (w + w) = 2 * (unat (fracUI (ui a)) * 2 ^ k)"
    using unat_plus_cases [of w w] b by simp
  ultimately show ?thesis unfolding w_def [symmetric] using True by simp
next
  case False
  with big_sig(1) [OF False assms] show ?thesis by (simp only: add.commute [of "push_bit k _"]) simp
qed

end

lemma double_word: "push_bit 1 w = w + (w :: u64)"
  by (simp add: mult.commute)

lemma and_one_even: "z AND 1 = 0 \<longleftrightarrow> even (unat (z :: u64))"
  using unat_and_mask [of z 1] by (simp add: word_eq_0_unat even_iff_mod_2_eq_zero)

section \<open>Order and value of magnitudes\<close>

lemma mval_strict_mono:
  assumes "m < m'"
  shows "mval p B m < mval p B m'"
proof (cases "m div 2 ^ p = m' div 2 ^ p")
  case True
  have "m mod 2 ^ p < m' mod 2 ^ p"
    using assms True by (metis add_less_cancel_left div_mult_mod_eq)
  then have "aligned p m < aligned p m'" using True by (simp add: aligned_def)
  then show ?thesis unfolding mval_aligned True by simp
next
  case False
  with assms have E: "m div 2 ^ p < m' div 2 ^ p" by (metis div_le_mono le_neq_implies_less less_imp_le_nat)
  then have "2 ^ p \<le> m'" by (metis div_less less_nat_zero_code not_le)
  then have hi: "2 powi (int (m' div 2 ^ p) - B) \<le> mval p B m'" by (rule mval_normal_range)
  have "mval p B m < 2 powi (int (m' div 2 ^ p) - B)"
  proof (cases "m < 2 ^ p")
    case True
    have "mval p B m < 2 powi (1 - B)" by (rule mval_subnormal_less [OF True])
    also have "\<dots> \<le> 2 powi (int (m' div 2 ^ p) - B)" using E by (intro power_int_increasing) auto
    finally show ?thesis .
  next
    case False
    then have "mval p B m < 2 powi (int (m div 2 ^ p) - B + 1)" by (intro mval_normal_range) simp
    also have "\<dots> \<le> 2 powi (int (m' div 2 ^ p) - B)" using E by (intro power_int_increasing) auto
    finally show ?thesis .
  qed
  with hi show ?thesis by simp
qed

lemma mval_less_iff [simp]: "mval p B m < mval p B m' \<longleftrightarrow> m < m'"
  by (metis mval_strict_mono linorder_neqE_nat less_asym less_irrefl)

lemma mval_le_iff [simp]: "mval p B m \<le> mval p B m' \<longleftrightarrow> m \<le> m'"
  by (meson mval_less_iff not_le)

lemma mval_eq_iff [simp]: "mval p B m = mval p B m' \<longleftrightarrow> m = m'"
  by (metis mval_less_iff less_irrefl linorder_neqE_nat)

lemma sub_far_value:
  fixes a b p :: nat and B :: int
  assumes E: "b div 2 ^ p < a div 2 ^ p" and d: "d = a div 2 ^ p - b div 2 ^ p"
  shows "mval p B a - mval p B b = (real (aligned p a * 2 ^ g) - real (aligned p b * 2 ^ g) / 2 ^ d) *
    2 powi (int (a div 2 ^ p) - 1 + 1 - B - int (p + g))"
proof -
  have "2 powi (int (a div 2 ^ p) - B - p - g) = 2 powi (int (b div 2 ^ p) - B - p - g) * (2::real) ^ d"
    using E d by (intro powi_shift) simp
  moreover have "int (a div 2 ^ p) - 1 + 1 - B - int (p + g) = int (a div 2 ^ p) - B - p - g" by simp
  ultimately show ?thesis
    unfolding mval_scaled [of p B a g] mval_scaled [of p B b g] by (simp only: left_diff_distrib) simp
qed

lemma unat_of_int_small:
  assumes "0 \<le> k" "k < 2 ^ LENGTH('a)"
  shows "unat (of_int k :: 'a::len word) = nat k"
  using assms by (simp add: unat_eq_nat_uint uint_word_of_int)

lemma same_div_less: "a div n = b div n \<Longrightarrow> a < b \<longleftrightarrow> a mod n < b mod (n::nat)"
  by (metis add_less_cancel_left div_mult_mod_eq)

lemma same_div_eq: "a div n = b div n \<Longrightarrow> a = b \<longleftrightarrow> a mod n = b mod (n::nat)"
  by (metis div_mult_mod_eq)

lemma neg_bit: "neg (a :: 'f::len word) \<longleftrightarrow> bit a (LENGTH('f) - 1)"
proof -
  have "unat a < 2 * 2 ^ (LENGTH('f) - 1)" using unat_lt2p [of a] len_split [where 'f = 'f] by simp
  then have "unat a div 2 ^ (LENGTH('f) - 1) = 0 \<or> unat a div 2 ^ (LENGTH('f) - 1) = 1"
    using less_mult_imp_div_less [of "unat a" 2 "2 ^ (LENGTH('f) - 1)"] by auto
  moreover have "neg a \<longleftrightarrow> unat a div 2 ^ (LENGTH('f) - 1) \<noteq> 0" by (simp add: neg_def div_eq_0_iff not_less)
  ultimately have "neg a \<longleftrightarrow> odd (unat a div 2 ^ (LENGTH('f) - 1))" by auto
  also have "\<dots> \<longleftrightarrow> bit (unat a) (LENGTH('f) - 1)" by (simp add: bit_iff_odd)
  also have "\<dots> \<longleftrightarrow> bit a (LENGTH('f) - 1)" by (simp add: bit_simps)
  finally show ?thesis .
qed

lemma neg_xor: "neg (a XOR b) \<longleftrightarrow> neg a \<noteq> neg b"
  by (simp add: neg_bit bit_xor_iff)

lemma ucast_xor: "ucast a XOR ucast b = (ucast (a XOR b :: 'a::len word) :: 'b::len word)"
  by (rule bit_word_eqI) (auto simp: bit_simps)

section \<open>Infinities\<close>

lemma word_or_zero: "x OR y = 0 \<longleftrightarrow> x = 0 \<and> y = (0 :: 'a::len word)"
  by (auto simp: bit_eq_iff bit_simps)

context float_format
begin

lemma pack_inf:
  assumes "\<not> is_fin p B a" "\<not> is_nan p B a"
  shows "pack (neg a) (2 * B + 1) 0 = a"
proof -
  have m: "int (mag a) = (2 * B + 1) * 2 ^ p" using assms by (simp add: is_fin_def is_nan_def)
  have "unat (pack (neg a) (2 * B + 1) 0) = unat a"
    using pack_unat [of "2 * B + 1" "mag a" 0 "neg a"] unat_split [of a] m bias by simp
  then show ?thesis by (simp only: word_unat_eq_iff)
qed

end

context float_fields
begin

lemma frac_shift_zero:
  assumes "p + k + 2 \<le> 64"
  shows "push_bit k (fracUI (ui a)) = 0 \<longleftrightarrow> fracUI (ui a) = 0"
  using sig_bounds(1) [OF assms, of a] by (simp add: word_eq_0_unat)

lemma fin_frac: "is_fin p B a \<Longrightarrow> \<not> is_nan p B a"
  by (simp add: is_fin_def is_nan_def)

end

end
