(* ===== verification/SF_Add32.thy ===== *)
theory SF_Add32
  imports SF_Align
begin

text \<open>
  Addition and subtraction in single precision, one lemma per path of \<open>softfloat_addMagsF32\<close> and
  \<open>softfloat_subMagsF32\<close>: equal exponents, the exponents of either operand larger, exact cancellation.
\<close>

section \<open>Magnitudes\<close>

lemma f32_add_equal:
  fixes a b :: u32
  assumes fin: "is_fin 23 127 a" "is_fin 23 127 b" and E: "mag a div 2 ^ 23 = E" "mag b div 2 ^ 23 = E" and nz: "0 < mag a + mag b"
  shows "correctly_rounded 23 127 (neg a) (mval 23 127 (mag a) + mval 23 127 (mag b)) s
    (softfloat_addMagsF32 (ucast a) (ucast b) s)"
proof -
  note fr = f32v.frac_less [of a] f32v.frac_less [of b]
  have ex: "expF32UI (ucast a) = int E" "expF32UI (ucast b) = int E" using E by (simp_all add: f32v.exp)
  have E2: "int E < 255" using int_div_less [of "mag a" 255 23] fin(1) E(1) by (simp add: is_fin_def)
  then have E255: "int E \<noteq> 255" by simp
  show ?thesis
  proof (cases "E = 0")
    case True
    define z where "z = (ucast (ucast a + fracF32UI (ucast b)) :: u32)"
    have m: "mag a < 2 ^ 23" "mag b < 2 ^ 23" using E True by (simp_all add: div_eq_0_iff)
    then have fb: "unat (fracF32UI (ucast b)) = mag b" by (simp add: f32v.frac)
    have "unat z = of_bool (neg a) * 2 ^ 31 + (mag a + mag b)"
    proof -
      have "unat (ucast a + fracF32UI (ucast b) :: u64) = of_bool (neg a) * 2 ^ 31 + (mag a + mag b)"
        using m unat_split [of a] by (simp add: unat_plus_cases fb)
      then show ?thesis unfolding z_def using m by (subst unat_small_cast) auto
    qed
    then have "correctly_rounded 23 127 (neg a) (mval 23 127 (mag a) + mval 23 127 (mag b)) s (z, s)"
      using m nz by (intro correctly_rounded_exact [where m = "mag a + mag b"]) (auto simp: add_subnormal)
    then show ?thesis unfolding softfloat_addMagsF32_def Let_def ex using True by (simp add: z_def)
  next
    case False
    define z where "z = 0x01000000 + fracF32UI (ucast a) + fracF32UI (ucast b)"
    have z: "unat z = aligned 23 (mag a) + aligned 23 (mag b)"
    proof -
      have "unat z = 2 ^ 24 + unat (fracF32UI (ucast a)) + unat (fracF32UI (ucast b))"
        using fr by (simp add: z_def unat_plus_cases)
      then show ?thesis using False E by (simp add: aligned_def f32v.frac)
    qed
    have e1: "z AND 1 = 0 \<longleftrightarrow> even (unat z)" by (rule and_one_even)
    have eq: "softfloat_addMagsF32 (ucast a) (ucast b) s = (if z AND 1 = 0 \<and> int E < 0xFE
        then (ucast (packToF32UI (neg a) (int E) (drop_bit 1 z)), s)
        else softfloat_roundPackToF32 (neg a) (int E) (push_bit 6 z) s)"
      unfolding softfloat_addMagsF32_def Let_def ex f32v.sign z_def 
      by (simp only: diff_self simp_thms if_True if_False of_nat_eq_0_iff False E255)
    show ?thesis
    proof (cases "even (unat z) \<and> int E < 0xFE")
      case True
      then obtain q where q: "unat z = 2 * q" by auto
      note ev = add_equal_even [OF E False, of 127, OF _ q [unfolded z] refl]
      have "correctly_rounded 23 127 (neg a) (mval 23 127 (mag a) + mval 23 127 (mag b)) s (ucast (packToF32UI (neg a) (int E) (drop_bit 1 z)) :: u32, s)"
        using ev True by (intro f32.pack_exact [OF _ refl]) (auto simp: q)
      then show ?thesis unfolding eq e1 using True by simp
    next
      case odd: False
      have "unat (push_bit 6 z) = (aligned 23 (mag a) + aligned 23 (mag b)) * 2 ^ (7 - 1)"
        using aligned_less [of 23 "mag a"] aligned_less [of 23 "mag b"] by (subst unat_push_bit_small) (auto simp: z)
      from add_equal_input [OF E False _ _ this, of 127]
      have "rp_input 23 7 127 (int E) (unat (push_bit 6 z)) (real (unat (push_bit 6 z))) (mval 23 127 (mag a) + mval 23 127 (mag b))" by simp
      from roundPackToF32_rounded [OF this, of "neg a" s] show ?thesis unfolding eq e1 using odd E2 by auto
    qed
  qed
qed

lemma f32_add_far:
  fixes a b :: u32
  assumes "is_fin 23 127 a" "is_fin 23 127 b" and E: "mag b div 2 ^ 23 < mag a div 2 ^ 23"
  shows "correctly_rounded 23 127 (neg a) (mval 23 127 (mag a) + mval 23 127 (mag b)) s
      (softfloat_addMagsF32 (ucast a) (ucast b) s)"
    "correctly_rounded 23 127 (neg b) (mval 23 127 (mag a) + mval 23 127 (mag b)) s
      (softfloat_addMagsF32 (ucast b) (ucast a) s)"
proof -
  define EA EB where EE: "EA = mag a div 2 ^ 23" "EB = mag b div 2 ^ 23"
  have ex: "expF32UI (ucast a) = int EA" "expF32UI (ucast b) = int EB" by (simp_all add: f32v.exp EE)
  have E2: "int EA < 255" using int_div_less [of "mag a" 255 23] assms(1) by (simp add: is_fin_def EE)
  have lt: "EB < EA" using E by (simp add: EE)
  define d where "d = int EA - int EB"
  define wA where "wA = push_bit 6 (fracF32UI (ucast a))"
  define wB where "wB = push_bit 6 (fracF32UI (ucast b)) +
    (if int EB \<noteq> 0 then 0x20000000 else push_bit 6 (fracF32UI (ucast b)))"
  define z where "z = 0x20000000 + wA + ucast (softfloat_shiftRightJam32 (ucast wB) (of_int d))"
  obtain e sg where n: "(if z < 0x40000000 then (int EA - 1, push_bit 1 z) else (int EA, z)) = (e, sg)" by (metis surj_pair)
  have A: "unat (0x20000000 + wA) = aligned 23 (mag a) * 2 ^ 6"
    using f32v.big_sig(1) [of a 6] lt by (simp add: wA_def ex)
  have Bv: "unat wB = aligned 23 (mag b) * 2 ^ 6"
  proof -
    have "push_bit (23 + 6) 1 = (0x20000000 :: u64)" by simp
    from f32v.small_sig [of 6 b, unfolded this ex] show ?thesis unfolding wB_def by simp
  qed
  have J: "unat (softfloat_shiftRightJam32 (ucast wB) (of_int d)) = jam (aligned 23 (mag b) * 2 ^ 6) (nat d)"
    using jam32 [of d wB 30] aligned_less [of 23 "mag b"] lt E2 by (simp add: Bv d_def)
  have "d = int (EA - EB)" using lt by (simp add: d_def of_nat_diff)
  then have d: "nat d = mag a div 2 ^ 23 - mag b div 2 ^ 23" by (simp add: EE)
  have J': "jam (aligned 23 (mag b) * 2 ^ 6) (nat d) < 2 ^ 32" 
    using unat_lt2p [of "softfloat_shiftRightJam32 (ucast wB) (of_int d)"] J by simp
  have zu: "unat z = aligned 23 (mag a) * 2 ^ (7 - 1) + jam (aligned 23 (mag b) * 2 ^ (7 - 1)) (nat d)"
    unfolding z_def unat_plus_cases [of "0x20000000 + wA"] A unat_ucast32 J using J' aligned_less [of 23 "mag a"] by simp
  note I = add_far_input [OF E d _ _ zu, of 127, folded EE]
  have "unat z < 2 ^ (30 + 1)" using I(1) by simp
  from norm1_word [OF this _ _ n] I(2) have "\<exists>y. rp_input 23 7 127 e (unat sg) y (mval 23 127 (mag a) + mval 23 127 (mag b))"
    by simp
  then obtain y where inp: "rp_input 23 7 127 e (unat sg) y (mval 23 127 (mag a) + mval 23 127 (mag b))" ..
  have e: "- (2 ^ 15) \<le> e" "e < 2 ^ 15" using n lt E2 by (auto split: if_splits)
  note R = roundPackToF32_rounded [OF inp e]
  have c: "d \<noteq> 0" "\<not> d < 0" "int EB - int EA \<noteq> 0" "int EB - int EA < 0"
    "- (int EB - int EA) = d" "int EA - int EB = d" "int EA \<noteq> 255" using lt E2 by (simp_all add: d_def)
  have z': "0x20000000 + ucast (softfloat_shiftRightJam32 (ucast wB) (of_int d)) + wA = z" by (simp add: z_def add.assoc add.commute)
  show "correctly_rounded 23 127 (neg a) (mval 23 127 (mag a) + mval 23 127 (mag b)) s
      (softfloat_addMagsF32 (ucast a) (ucast b) s)"
    unfolding softfloat_addMagsF32_def Let_def ex f32v.sign wA_def [symmetric] wB_def [symmetric]
    using R by (simp only: c if_True if_False simp_thms prod.case z_def [symmetric] n)
  show "correctly_rounded 23 127 (neg b) (mval 23 127 (mag a) + mval 23 127 (mag b)) s
      (softfloat_addMagsF32 (ucast b) (ucast a) s)"
    unfolding softfloat_addMagsF32_def Let_def ex f32v.sign wA_def [symmetric] wB_def [symmetric]
    using R by (simp only: c if_True if_False simp_thms prod.case z' n)
qed

lemma f32_normRoundPack:
  assumes n: "0 < unat sig" "unat sig < 2 ^ 31" and cl: "same_class 2 y (real (unat sig))"
    and ex: "unat sig < 2 ^ 29 \<Longrightarrow> y = real (unat sig)" and X: "X = y * 2 powi (e + 1 - 127 - int (23 + 7))" and e: "0 \<le> e" "e < 2 ^ 14"
  shows "correctly_rounded 23 127 sign X s (softfloat_normRoundPackToF32 sign e sig s)"
proof -
  define c where "c = softfloat_countLeadingZeros32 (ucast sig)"
  have "unat (ucast sig :: u32) = unat sig" using n by (intro unat_small_cast) simp
  then have c: "clz_ok (23 + 7 + 2) (unat sig) c" using countLeadingZeros32 [of "ucast sig"] by (simp add: c_def)
  have "c \<le> 32" using clz_ok_less [OF c] n by simp
  then have b: "- (2 ^ 15) \<le> e - (int c - 1)" "e - (int c - 1) < 2 ^ 15" using e by simp_all
  note N = f32.norm_round_word [OF c _ _ _ cl _ X refl b(1)]
  have lt: "(of_int (e - (int c - 1)) :: u32) < 0xFD \<longleftrightarrow> 0 \<le> e - (int c - 1) \<and> e - (int c - 1) < 253"
    using isBig_iff [OF b, of "0xFD :: u32"] by (auto simp: not_le [symmetric])
  have "sig \<noteq> 0" using n by auto
  then show ?thesis
    using N n ex unfolding softfloat_normRoundPackToF32_def c_def [symmetric] Let_def lt roundPackToF32_word [OF b] by simp
qed

lemma f32_sub_far:
  fixes a b :: u32
  assumes "is_fin 23 127 a" "is_fin 23 127 b" and E: "mag b div 2 ^ 23 < mag a div 2 ^ 23"
  shows "correctly_rounded 23 127 (neg a) (mval 23 127 (mag a) - mval 23 127 (mag b)) s
      (softfloat_subMagsF32 (ucast a) (ucast b) s)"
    "correctly_rounded 23 127 (\<not> neg b) (mval 23 127 (mag a) - mval 23 127 (mag b)) s
      (softfloat_subMagsF32 (ucast b) (ucast a) s)"
proof -
  define EA EB where EE: "EA = mag a div 2 ^ 23" "EB = mag b div 2 ^ 23"
  have ex: "expF32UI (ucast a) = int EA" "expF32UI (ucast b) = int EB" by (simp_all add: f32v.exp EE)
  have E2: "int EA < 255" using int_div_less [of "mag a" 255 23] assms(1) by (simp add: is_fin_def EE)
  have lt: "EB < EA" using E by (simp add: EE)
  define d where "d = int EA - int EB"
  define wA where "wA = push_bit 7 (fracF32UI (ucast a)) OR 0x40000000"
  define wB where "wB = push_bit 7 (fracF32UI (ucast b)) +
    (if int EB \<noteq> 0 then 0x40000000 else push_bit 7 (fracF32UI (ucast b)))"
  define z where "z = wA - ucast (softfloat_shiftRightJam32 (ucast wB) (of_int d))"
  have tp: "push_bit (23 + 7) 1 = (0x40000000 :: u64)" by simp
  have A: "unat wA = aligned 23 (mag a) * 2 ^ 7"
    using f32v.big_sig(2) [of a 7, unfolded tp] lt by (simp add: wA_def ex)
  have Bv: "unat wB = aligned 23 (mag b) * 2 ^ 7"
    using f32v.small_sig [of 7 b, unfolded tp ex] by (simp add: wB_def)
  have J: "unat (softfloat_shiftRightJam32 (ucast wB) (of_int d)) = jam (aligned 23 (mag b) * 2 ^ 7) (nat d)"
    using jam32 [of d wB 31] aligned_less [of 23 "mag b"] lt E2 by (simp add: Bv d_def)
  have "d = int (EA - EB)" using lt by (simp add: d_def of_nat_diff)
  then have d: "nat d = mag a div 2 ^ 23 - mag b div 2 ^ 23" by (simp add: EE)
  note S = sub_far [OF E d _ refl refl refl, of 7]
  have zu: "unat z = aligned 23 (mag a) * 2 ^ 7 - jam (aligned 23 (mag b) * 2 ^ 7) (nat d)"
    unfolding z_def unat_minus_cases A unat_ucast32 J using S(1) by simp
  have X: "mval 23 127 (mag a) - mval 23 127 (mag b) =
      (real (aligned 23 (mag a) * 2 ^ 7) - real (aligned 23 (mag b) * 2 ^ 7) / 2 ^ nat d) *
      2 powi (int EA - 1 + 1 - 127 - int (23 + 7))"
    by (rule sub_far_value [OF E d, of 127 7, folded EE]) 
  have R: "correctly_rounded 23 127 sg (mval 23 127 (mag a) - mval 23 127 (mag b)) s
      (softfloat_normRoundPackToF32 sg (int EA - 1) z s)" for sg
    by (rule f32_normRoundPack [OF _ _ _ _ X]) (use S zu lt E2 in auto)
  have c: "d \<noteq> 0" "\<not> d < 0" "int EB - int EA \<noteq> 0" "int EB - int EA < 0"
    "- (int EB - int EA) = d" "int EA - int EB = d" "int EA \<noteq> 255" using lt E2 by (simp_all add: d_def)
  show "correctly_rounded 23 127 (neg a) (mval 23 127 (mag a) - mval 23 127 (mag b)) s
      (softfloat_subMagsF32 (ucast a) (ucast b) s)"
    unfolding softfloat_subMagsF32_def Let_def ex f32v.sign wA_def [symmetric] wB_def [symmetric]
    using R by (simp only: c if_True if_False simp_thms prod.case z_def [symmetric])
  show "correctly_rounded 23 127 (\<not> neg b) (mval 23 127 (mag a) - mval 23 127 (mag b)) s
      (softfloat_subMagsF32 (ucast b) (ucast a) s)"
    unfolding softfloat_subMagsF32_def Let_def ex f32v.sign wA_def [symmetric] wB_def [symmetric]
    using R by (simp only: c if_True if_False simp_thms prod.case z_def [symmetric])
qed

lemma f32_sub_equal:
  fixes a b :: u32
  assumes fin: "is_fin 23 127 a" and E: "mag a div 2 ^ 23 = E" "mag b div 2 ^ 23 = E"
  shows "mag a \<noteq> mag b \<Longrightarrow> correctly_rounded 23 127 (if mag a < mag b then \<not> neg a else neg a)
      \<bar>mval 23 127 (mag a) - mval 23 127 (mag b)\<bar> s (softfloat_subMagsF32 (ucast a) (ucast b) s)"
    "mag a = mag b \<Longrightarrow> softfloat_subMagsF32 (ucast a) (ucast b) s =
      (ucast (packToF32UI (softfloat_roundingMode s = softfloat_round_min) 0 0), s)"
proof -
  have ex: "expF32UI (ucast a) = int E" "expF32UI (ucast b) = int E" using E by (simp_all add: f32v.exp)
  have E2: "int E < 255" using int_div_less [of "mag a" 255 23] fin E(1) by (simp add: is_fin_def)
  then have E255: "int E \<noteq> 255" by simp
  define D where "D = int (mag a mod 2 ^ 23) - int (mag b mod 2 ^ 23)"
  have D: "uint (fracF32UI (ucast a)) - uint (fracF32UI (ucast b)) = D"
    unfolding D_def f32v.frac [symmetric] by simp
  have less: "mag a < mag b \<longleftrightarrow> D < 0" "mag a = mag b \<longleftrightarrow> D = 0"
    using same_div_less [of "mag a" "2 ^ 23" "mag b"] same_div_eq [of "mag a" "2 ^ 23" "mag b"] E by (simp_all add: D_def)
  show "mag a = mag b \<Longrightarrow> softfloat_subMagsF32 (ucast a) (ucast b) s =
      (ucast (packToF32UI (softfloat_roundingMode s = softfloat_round_min) 0 0), s)"
    unfolding softfloat_subMagsF32_def Let_def ex D less by (simp only: diff_self simp_thms if_True if_False E255)
  assume "mag a \<noteq> mag b"
  then have nz: "D \<noteq> 0" by (simp add: less)
  have bd: "\<bar>D\<bar> < 2 ^ 23" by (simp add: D_def)
  define e where "e = (if int E \<noteq> 0 then int E - 1 else int E)"
  define sd where "sd = int (softfloat_countLeadingZeros32 (of_int \<bar>D\<bar>)) - 8"
  obtain sd' eZ where r: "(if e - sd < 0 then (e, 0) else (sd, e - sd)) = (sd', eZ)" by (metis surj_pair)
  define sg where "sg = (if D < 0 then \<not> neg a else neg a)"
  have sw: "(if D < 0 then (\<not> neg a, - D) else (neg a, D)) = (sg, \<bar>D\<bar>)" by (simp add: sg_def)
  have eq: "softfloat_subMagsF32 (ucast a) (ucast b) s =
      (ucast (packToF32UI sg eZ (push_bit (nat sd') (of_int \<bar>D\<bar>))), s)"
    unfolding softfloat_subMagsF32_def Let_def ex D f32v.sign e_def [symmetric]
    by (simp only: diff_self simp_thms if_True if_False E255 nz sw prod.case sd_def [symmetric] r)
  have u: "unat (of_int \<bar>D\<bar> :: u64) = nat \<bar>D\<bar>" "unat (of_int \<bar>D\<bar> :: u32) = nat \<bar>D\<bar>"
    using bd by (simp_all add: unat_of_int_small)
  have c: "clz_ok (23 + 8 + 1) (unat (of_int \<bar>D\<bar> :: u64)) (softfloat_countLeadingZeros32 (of_int \<bar>D\<bar>))"
    using countLeadingZeros32 [of "of_int \<bar>D\<bar>"] by (simp add: u)
  have X: "\<bar>mval 23 127 (mag a) - mval 23 127 (mag b)\<bar> = real (unat (of_int \<bar>D\<bar> :: u64)) * 2 powi (e + 1 - 127 - int 23)"
  proof -
    have "e + 1 = max (int E) 1" by (simp add: e_def)
    then show ?thesis unfolding sub_equal [OF E, of 127, folded D_def] u by (simp add: abs_mult)
  qed
  show "correctly_rounded 23 127 (if mag a < mag b then \<not> neg a else neg a)
      \<bar>mval 23 127 (mag a) - mval 23 127 (mag b)\<bar> s (softfloat_subMagsF32 (ucast a) (ucast b) s)"
    unfolding eq less sg_def [symmetric]
    by (rule f32.sub_equal_word [OF c _ _ _ _ _ r X]) (use u bd nz E2 in \<open>auto simp: e_def sd_def\<close>)
qed

lemma f32_addMags:
  fixes a b :: u32
  assumes "is_fin 23 127 a" "is_fin 23 127 b"
  shows "float_result 23 127 (if neg a then - (mval 23 127 (mag a) + mval 23 127 (mag b)) else mval 23 127 (mag a) + mval 23 127 (mag b))
    (neg a) s (softfloat_addMagsF32 (ucast a) (ucast b) s)"
proof (cases "mag a + mag b = 0")
  case True
  then have "expF32UI (ucast a) = 0" "expF32UI (ucast b) = 0" "fracF32UI (ucast b) = 0"
    using f32v.exp_frac_zero [of a] f32v.exp_frac_zero [of b] by auto
  then have "softfloat_addMagsF32 (ucast a) (ucast b) s = (a, s)" by (simp add: softfloat_addMagsF32_def)
  then show ?thesis using True by (simp add: float_result_def)
next
  case False
  have "correctly_rounded 23 127 (neg a) (mval 23 127 (mag a) + mval 23 127 (mag b)) s (softfloat_addMagsF32 (ucast a) (ucast b) s)"
    using f32_add_equal [OF assms refl, of s] f32_add_far(1) [OF assms, of s] f32_add_far(2) [OF assms(2,1), of s] False
    by (cases "mag a div 2 ^ 23" "mag b div 2 ^ 23" rule: linorder_cases) (auto simp: add.commute)
  moreover have "0 < mval 23 127 (mag a) + mval 23 127 (mag b)"
    using False mval_nonneg [of 23 127] by (metis add_pos_nonneg add_nonneg_pos mval_pos neq0_conv add_is_0)
  ultimately show ?thesis by (auto simp: float_result_def add.commute)
qed

lemma f32_subMags:
  fixes a b :: u32
  assumes "is_fin 23 127 a" "is_fin 23 127 b"
  shows "float_result 23 127 (if neg a then - (mval 23 127 (mag a) - mval 23 127 (mag b)) else mval 23 127 (mag a) - mval 23 127 (mag b))
    (softfloat_roundingMode s = softfloat_round_min) s (softfloat_subMagsF32 (ucast a) (ucast b) s)"
proof (cases "mag a = mag b")
  case True
  then show ?thesis using f32_sub_equal(2) [OF assms(1) refl _ True, of s] f32.pack_zero [of "softfloat_roundingMode s = 2"]
    by (simp add: float_result_def)
next
  case False
  have mono: "m div 2 ^ 23 < m' div 2 ^ 23 \<Longrightarrow> m < (m'::nat)" for m m' by (metis div_le_mono not_le)
  have "correctly_rounded 23 127 (if mag a < mag b then \<not> neg a else neg a)
      \<bar>mval 23 127 (mag a) - mval 23 127 (mag b)\<bar> s (softfloat_subMagsF32 (ucast a) (ucast b) s)"
  proof (cases "mag a div 2 ^ 23" "mag b div 2 ^ 23" rule: linorder_cases)
    case less
    then show ?thesis using f32_sub_far(2) [OF assms(2,1) less, of s] mono [OF less] by (simp add: less_imp_le)
  next
    case equal
    then show ?thesis using f32_sub_equal(1) [OF assms(1) refl _ False, of s] by simp
  next
    case greater
    then show ?thesis using f32_sub_far(1) [OF assms greater, of s] mono [OF greater] by (simp add: less_imp_le)
  qed
  moreover have "mval 23 127 (mag a) - mval 23 127 (mag b) \<noteq> 0" "mval 23 127 (mag a) - mval 23 127 (mag b) < 0 \<longleftrightarrow> mag a < mag b"
    "mval 23 127 (mag b) - mval 23 127 (mag a) < 0 \<longleftrightarrow> \<not> mag a < mag b"
    using False by auto
  ultimately show ?thesis by (cases "neg a") (auto simp: float_result_def abs_minus_commute)
qed

section \<open>Infinities and NaNs\<close>

lemma f32_exp_top: "expF32UI (ucast x) = 255 \<longleftrightarrow> \<not> is_fin 23 127 x" for x :: u32
  using f32v.exp_top_iff [of x] by simp

lemma f32_exp_fin: "is_fin 23 127 x \<Longrightarrow> expF32UI (ucast x) < 255" for x :: u32
  using int_div_less [of "mag x" 255 23] by (simp add: f32v.exp is_fin_def)

lemma f32_frac_shift:
  "push_bit 6 (fracF32UI (ucast x)) = 0 \<longleftrightarrow> fracF32UI (ucast x) = 0"
  "push_bit 7 (fracF32UI (ucast x)) = 0 \<longleftrightarrow> fracF32UI (ucast x) = 0" for x :: u32
  using f32v.frac_shift_zero [of 6 x] f32v.frac_shift_zero [of 7 x] by simp_all

lemma f32_add_special:
  assumes "\<not> (is_fin 23 127 a \<and> is_fin 23 127 b)"
  shows "f32_add a b s =
    (if is_nan 23 127 a \<or> is_nan 23 127 b
     then (0x7FC00000, if is_snan 23 127 a \<or> is_snan 23 127 b then softfloat_raiseFlags softfloat_flag_invalid s else s)
     else if \<not> is_fin 23 127 a \<and> \<not> is_fin 23 127 b \<and> neg a \<noteq> neg b then (0x7FC00000, softfloat_raiseFlags softfloat_flag_invalid s)
     else (if is_fin 23 127 a then b else a, s))"
proof -
  note e' = f32_exp_fin
  have sg: "signF32UI (ucast a XOR ucast b) \<longleftrightarrow> neg a \<noteq> neg b" by (simp only: ucast_xor f32v.sign neg_xor)
  have n: "is_nan 23 127 x \<longleftrightarrow> \<not> is_fin 23 127 x \<and> fracF32UI (ucast x) \<noteq> 0" for x :: u32
    using f32v.nan_iff [of x] f32_exp_top by simp
  have i: "\<not> is_fin 23 127 x \<Longrightarrow> fracF32UI (ucast x) = 0 \<Longrightarrow> ucast (packToF32UI (neg x) 255 0) = x" for x :: u32
    using f32.pack_inf [of x] n [of x] by simp
  note D = f32_add_def Let_def sg softfloat_addMagsF32_def softfloat_subMagsF32_def softfloat_propagateNaNF32UI_def defaultNaNF32UI_def
  consider "\<not> is_fin 23 127 a" "\<not> is_fin 23 127 b" | "\<not> is_fin 23 127 a" "is_fin 23 127 b" | "is_fin 23 127 a" "\<not> is_fin 23 127 b"
    using assms by blast
  then show ?thesis
  proof cases
    case 1
    then have "expF32UI (ucast a) = 255" "expF32UI (ucast b) = 255" by (simp_all add: f32_exp_top)
    then show ?thesis using 1 unfolding D by (simp add: n word_or_zero)
  next
    case 2
    then have e: "expF32UI (ucast a) = 255" "\<not> 255 < expF32UI (ucast b)" "expF32UI (ucast b) \<noteq> 255" "255 \<noteq> expF32UI (ucast b)"
      using e' [of b] by (simp_all add: f32_exp_top)
    show ?thesis using 2 unfolding D by (simp add: n f32_frac_shift e)
  next
    case 3
    then have e: "expF32UI (ucast b) = 255" "expF32UI (ucast a) < 255" "expF32UI (ucast a) \<noteq> 255" "255 \<noteq> expF32UI (ucast a)"
      using e' [of a] by (simp_all add: f32_exp_top)
    show ?thesis using 3 i [of b] unfolding D by (cases "neg a"; cases "neg b"; simp add: n f32_frac_shift e f32v.sign)
  qed
qed

lemma f32_sub_special:
  assumes "\<not> (is_fin 23 127 a \<and> is_fin 23 127 b)"
  shows "f32_sub a b s =
    (if is_nan 23 127 a \<or> is_nan 23 127 b
     then (0x7FC00000, if is_snan 23 127 a \<or> is_snan 23 127 b then softfloat_raiseFlags softfloat_flag_invalid s else s)
     else if \<not> is_fin 23 127 a \<and> \<not> is_fin 23 127 b \<and> neg a = neg b then (0x7FC00000, softfloat_raiseFlags softfloat_flag_invalid s)
     else (if is_fin 23 127 a then ucast (packToF32UI (\<not> neg b) 255 0) else a, s))"
proof -
  note e' = f32_exp_fin
  have sg: "signF32UI (ucast a XOR ucast b) \<longleftrightarrow> neg a \<noteq> neg b" by (simp only: ucast_xor f32v.sign neg_xor)
  have n: "is_nan 23 127 x \<longleftrightarrow> \<not> is_fin 23 127 x \<and> fracF32UI (ucast x) \<noteq> 0" for x :: u32
    using f32v.nan_iff [of x] f32_exp_top by simp
  have i: "\<not> is_fin 23 127 x \<Longrightarrow> fracF32UI (ucast x) = 0 \<Longrightarrow> ucast (packToF32UI (neg x) 255 0) = x" for x :: u32
    using f32.pack_inf [of x] n [of x] by simp
  note D = f32_sub_def Let_def sg softfloat_addMagsF32_def softfloat_subMagsF32_def softfloat_propagateNaNF32UI_def defaultNaNF32UI_def
  consider "\<not> is_fin 23 127 a" "\<not> is_fin 23 127 b" | "\<not> is_fin 23 127 a" "is_fin 23 127 b" | "is_fin 23 127 a" "\<not> is_fin 23 127 b"
    using assms by blast
  then show ?thesis
  proof cases
    case 1
    then have "expF32UI (ucast a) = 255" "expF32UI (ucast b) = 255" by (simp_all add: f32_exp_top)
    then show ?thesis using 1 unfolding D by (simp add: n word_or_zero)
  next
    case 2
    then have e: "expF32UI (ucast a) = 255" "\<not> 255 < expF32UI (ucast b)" "expF32UI (ucast b) \<noteq> 255" "255 \<noteq> expF32UI (ucast b)"
      using e' [of b] by (simp_all add: f32_exp_top)
    show ?thesis using 2 unfolding D by (simp add: n f32_frac_shift e)
  next
    case 3
    then have e: "expF32UI (ucast b) = 255" "expF32UI (ucast a) < 255" "expF32UI (ucast a) \<noteq> 255" "255 \<noteq> expF32UI (ucast a)"
      using e' [of a] by (simp_all add: f32_exp_top)
    show ?thesis using 3 i [of b] unfolding D by (cases "neg a"; cases "neg b"; simp add: n f32_frac_shift e f32v.sign)
  qed
qed

section \<open>Addition and subtraction\<close>

theorem f32_add_correct:
  assumes "is_fin 23 127 a" "is_fin 23 127 b"
  shows "float_result 23 127 (fval 23 127 a + fval 23 127 b)
    (if neg a = neg b then neg a else softfloat_roundingMode s = softfloat_round_min) s (f32_add a b s)"
proof -
  have "signF32UI (ucast a XOR ucast b) \<longleftrightarrow> neg a \<noteq> neg b" by (simp only: ucast_xor f32v.sign neg_xor)
  then show ?thesis using f32_addMags [OF assms, of s] f32_subMags [OF assms, of s]
    by (auto simp: f32_add_def fval_def)
qed

theorem f32_sub_correct:
  assumes "is_fin 23 127 a" "is_fin 23 127 b"
  shows "float_result 23 127 (fval 23 127 a - fval 23 127 b)
    (if neg a \<noteq> neg b then neg a else softfloat_roundingMode s = softfloat_round_min) s (f32_sub a b s)"
proof -
  have "signF32UI (ucast a XOR ucast b) \<longleftrightarrow> neg a \<noteq> neg b" by (simp only: ucast_xor f32v.sign neg_xor)
  then show ?thesis using f32_addMags [OF assms, of s] f32_subMags [OF assms, of s]
    by (auto simp: f32_sub_def fval_def)
qed

end
