(* ===== verification/SF_Add64.thy ===== *)
theory SF_Add64
  imports SF_Align
begin

text \<open>
  Addition and subtraction in double precision. The magnitude routines of this format take the sign of
  the result as an argument.
\<close>

section \<open>Magnitudes\<close>

lemma f64_add_equal:
  fixes a b :: u64
  assumes fin: "is_fin 52 1023 a" "is_fin 52 1023 b" and E: "mag a div 2 ^ 52 = E" "mag b div 2 ^ 52 = E" and nz: "0 < mag a + mag b"
  shows "correctly_rounded 52 1023 (neg a) (mval 52 1023 (mag a) + mval 52 1023 (mag b)) s
    (softfloat_addMagsF64 a b (neg a) s)"
proof -
  note fr = f64v.frac_less [of a] f64v.frac_less [of b]
  have ex: "expF64UI a = int E" "expF64UI b = int E" using E by (simp_all add: f64v.exp)
  have E2: "int E < 2047" using int_div_less [of "mag a" 2047 52] fin(1) E(1) by (simp add: is_fin_def)
  then have E2047: "int E \<noteq> 2047" by simp
  show ?thesis
  proof (cases "E = 0")
    case True
    define z where "z = a + fracF64UI b"
    have m: "mag a < 2 ^ 52" "mag b < 2 ^ 52" using E True by (simp_all add: div_eq_0_iff)
    then have fb: "unat (fracF64UI b) = mag b" by (simp add: f64v.frac)
    have "unat z = of_bool (neg a) * 2 ^ 63 + (mag a + mag b)"
      using m unat_split [of a] by (simp add: z_def unat_plus_cases fb)
    then have "correctly_rounded 52 1023 (neg a) (mval 52 1023 (mag a) + mval 52 1023 (mag b)) s (z, s)"
      using m nz by (intro correctly_rounded_exact [where m = "mag a + mag b"]) (auto simp: add_subnormal)
    then show ?thesis unfolding softfloat_addMagsF64_def Let_def ex using True by (simp add: z_def)
  next
    case False
    define z where "z = 0x0020000000000000 + fracF64UI a + fracF64UI b"
    have z: "unat z = aligned 52 (mag a) + aligned 52 (mag b)"
    proof -
      have "unat z = 2 ^ 53 + unat (fracF64UI a) + unat (fracF64UI b)"
        using fr by (simp add: z_def unat_plus_cases)
      then show ?thesis using False E by (simp add: aligned_def f64v.frac)
    qed
    have eq: "softfloat_addMagsF64 a b (neg a) s = softfloat_roundPackToF64 (neg a) (int E) (push_bit 9 z) s"
      unfolding softfloat_addMagsF64_def Let_def ex z_def
      by (simp only: diff_self simp_thms if_True if_False of_nat_eq_0_iff False E2047)
    have "unat (push_bit 9 z) = (aligned 52 (mag a) + aligned 52 (mag b)) * 2 ^ (10 - 1)"
      using aligned_less [of 52 "mag a"] aligned_less [of 52 "mag b"] by (subst unat_push_bit_small) (auto simp: z)
    from add_equal_input [OF E False _ _ this, of 1023]
    have "rp_input 52 10 1023 (int E) (unat (push_bit 9 z)) (real (unat (push_bit 9 z))) (mval 52 1023 (mag a) + mval 52 1023 (mag b))" by simp
    from roundPackToF64_rounded [OF this, of "neg a" s] show ?thesis unfolding eq using E2 by auto
  qed
qed

lemma f64_add_far:
  fixes a b :: u64
  assumes "is_fin 52 1023 a" "is_fin 52 1023 b" and E: "mag b div 2 ^ 52 < mag a div 2 ^ 52"
  shows "correctly_rounded 52 1023 (neg a) (mval 52 1023 (mag a) + mval 52 1023 (mag b)) s
      (softfloat_addMagsF64 a b (neg a) s)"
    "correctly_rounded 52 1023 (neg b) (mval 52 1023 (mag a) + mval 52 1023 (mag b)) s
      (softfloat_addMagsF64 b a (neg b) s)"
proof -
  define EA EB where EE: "EA = mag a div 2 ^ 52" "EB = mag b div 2 ^ 52"
  have ex: "expF64UI a = int EA" "expF64UI b = int EB" by (simp_all add: f64v.exp EE)
  have E2: "int EA < 2047" using int_div_less [of "mag a" 2047 52] assms(1) by (simp add: is_fin_def EE)
  have lt: "EB < EA" using E by (simp add: EE)
  define d where "d = int EA - int EB"
  define wA where "wA = push_bit 9 (fracF64UI a)"
  define wB where "wB = (if int EB \<noteq> 0 then push_bit 9 (fracF64UI b) + 0x2000000000000000
    else push_bit 1 (push_bit 9 (fracF64UI b)))"
  define z where "z = 0x2000000000000000 + wA + softfloat_shiftRightJam64 wB (of_int d)"
  obtain e zg where n: "(if z < 0x4000000000000000 then (int EA - 1, push_bit 1 z) else (int EA, z)) = (e, zg)" by (metis surj_pair)
  have A: "unat (0x2000000000000000 + wA) = aligned 52 (mag a) * 2 ^ 9"
    using f64v.big_sig(1) [of a 9] lt by (simp add: wA_def ex)
  have Bv: "unat wB = aligned 52 (mag b) * 2 ^ 9"
  proof -
    have "push_bit (52 + 9) 1 = (0x2000000000000000 :: u64)" by simp
    from f64v.small_sig [of 9 b, unfolded this ex] show ?thesis
      unfolding wB_def double_word by (cases "EB = 0") simp_all
  qed
  have J: "unat (softfloat_shiftRightJam64 wB (of_int d)) = jam (aligned 52 (mag b) * 2 ^ 9) (nat d)"
    using jam64 [of d wB] lt E2 by (simp add: Bv d_def)
  have "d = int (EA - EB)" using lt by (simp add: d_def of_nat_diff)
  then have d: "nat d = mag a div 2 ^ 52 - mag b div 2 ^ 52" by (simp add: EE)
  have J': "jam (aligned 52 (mag b) * 2 ^ 9) (nat d) < 2 ^ (52 + 9)"
    using lt by (intro jam_shifted) (auto simp: d_def)
  have zu: "unat z = aligned 52 (mag a) * 2 ^ (10 - 1) + jam (aligned 52 (mag b) * 2 ^ (10 - 1)) (nat d)"
    unfolding z_def unat_plus_cases [of "0x2000000000000000 + wA"] A J using J' aligned_less [of 52 "mag a"] by simp
  note I = add_far_input [OF E d _ _ zu, of 1023, folded EE]
  have "unat z < 2 ^ (62 + 1)" using I(1) by simp
  from norm1_word [OF this _ _ n] I(2) have "\<exists>y. rp_input 52 10 1023 e (unat zg) y (mval 52 1023 (mag a) + mval 52 1023 (mag b))"
    by simp
  then obtain y where inp: "rp_input 52 10 1023 e (unat zg) y (mval 52 1023 (mag a) + mval 52 1023 (mag b))" ..
  have e: "- (2 ^ 15) \<le> e" "e < 2 ^ 15" using n lt E2 by (auto split: if_splits)
  note R = roundPackToF64_rounded [OF inp e]
  have c: "d \<noteq> 0" "\<not> d < 0" "int EB - int EA \<noteq> 0" "int EB - int EA < 0"
    "- (int EB - int EA) = d" "int EA - int EB = d" "int EA \<noteq> 2047" using lt E2 by (simp_all add: d_def)
  have z': "0x2000000000000000 + softfloat_shiftRightJam64 wB (of_int d) + wA = z" by (simp add: z_def add.assoc add.commute)
  show "correctly_rounded 52 1023 (neg a) (mval 52 1023 (mag a) + mval 52 1023 (mag b)) s
      (softfloat_addMagsF64 a b (neg a) s)"
    unfolding softfloat_addMagsF64_def Let_def ex f64v.sign wA_def [symmetric] wB_def [symmetric]
    using R by (simp only: c if_True if_False simp_thms prod.case z_def [symmetric] n)
  show "correctly_rounded 52 1023 (neg b) (mval 52 1023 (mag a) + mval 52 1023 (mag b)) s
      (softfloat_addMagsF64 b a (neg b) s)"
    unfolding softfloat_addMagsF64_def Let_def ex f64v.sign wA_def [symmetric] wB_def [symmetric]
    using R by (simp only: c if_True if_False simp_thms prod.case z' n)
qed

lemma f64_normRoundPack:
  assumes n: "0 < unat sig" "unat sig < 2 ^ 63" and cl: "same_class 2 y (real (unat sig))"
    and ex: "unat sig < 2 ^ 61 \<Longrightarrow> y = real (unat sig)" and X: "X = y * 2 powi (e + 1 - 1023 - int (52 + 10))" and e: "0 \<le> e" "e < 2 ^ 14"
  shows "correctly_rounded 52 1023 sign X s (softfloat_normRoundPackToF64 sign e sig s)"
proof -
  define c where "c = softfloat_countLeadingZeros64 sig"
  have c: "clz_ok (52 + 10 + 2) (unat sig) c" using countLeadingZeros64 [of sig] by (simp add: c_def)
  have "c \<le> 64" using clz_ok_less [OF c] n by simp
  then have b: "- (2 ^ 15) \<le> e - (int c - 1)" "e - (int c - 1) < 2 ^ 15" using e by simp_all
  note N = f64.norm_round_word [OF c _ _ _ cl _ X refl b(1)]
  have lt: "(of_int (e - (int c - 1)) :: u32) < 0x7FD \<longleftrightarrow> 0 \<le> e - (int c - 1) \<and> e - (int c - 1) < 2045"
    using isBig_iff [OF b, of "0x7FD :: u32"] by (auto simp: not_le [symmetric])
  have "sig \<noteq> 0" using n by auto
  then show ?thesis
    using N n ex unfolding softfloat_normRoundPackToF64_def c_def [symmetric] Let_def lt roundPackToF64_word [OF b] by simp
qed

lemma f64_sub_far:
  fixes a b :: u64
  assumes "is_fin 52 1023 a" "is_fin 52 1023 b" and E: "mag b div 2 ^ 52 < mag a div 2 ^ 52"
  shows "correctly_rounded 52 1023 (neg a) (mval 52 1023 (mag a) - mval 52 1023 (mag b)) s
      (softfloat_subMagsF64 a b (neg a) s)"
    "correctly_rounded 52 1023 (\<not> neg b) (mval 52 1023 (mag a) - mval 52 1023 (mag b)) s
      (softfloat_subMagsF64 b a (neg b) s)"
proof -
  define EA EB where EE: "EA = mag a div 2 ^ 52" "EB = mag b div 2 ^ 52"
  have ex: "expF64UI a = int EA" "expF64UI b = int EB" by (simp_all add: f64v.exp EE)
  have E2: "int EA < 2047" using int_div_less [of "mag a" 2047 52] assms(1) by (simp add: is_fin_def EE)
  have lt: "EB < EA" using E by (simp add: EE)
  define d where "d = int EA - int EB"
  define wA where "wA = push_bit 10 (fracF64UI a) OR 0x4000000000000000"
  define wB where "wB = push_bit 10 (fracF64UI b) +
    (if int EB \<noteq> 0 then 0x4000000000000000 else push_bit 10 (fracF64UI b))"
  define z where "z = wA - softfloat_shiftRightJam64 wB (of_int d)"
  have tp: "push_bit (52 + 10) 1 = (0x4000000000000000 :: u64)" by simp
  have A: "unat wA = aligned 52 (mag a) * 2 ^ 10"
    using f64v.big_sig(2) [of a 10, unfolded tp] lt by (simp add: wA_def ex)
  have Bv: "unat wB = aligned 52 (mag b) * 2 ^ 10"
    using f64v.small_sig [of 10 b, unfolded tp ex] by (simp add: wB_def)
  have J: "unat (softfloat_shiftRightJam64 wB (of_int d)) = jam (aligned 52 (mag b) * 2 ^ 10) (nat d)"
    using jam64 [of d wB] lt E2 by (simp add: Bv d_def)
  have "d = int (EA - EB)" using lt by (simp add: d_def of_nat_diff)
  then have d: "nat d = mag a div 2 ^ 52 - mag b div 2 ^ 52" by (simp add: EE)
  note S = sub_far [OF E d _ refl refl refl, of 10]
  have zu: "unat z = aligned 52 (mag a) * 2 ^ 10 - jam (aligned 52 (mag b) * 2 ^ 10) (nat d)"
    unfolding z_def unat_minus_cases A J using S(1) by simp
  have X: "mval 52 1023 (mag a) - mval 52 1023 (mag b) =
      (real (aligned 52 (mag a) * 2 ^ 10) - real (aligned 52 (mag b) * 2 ^ 10) / 2 ^ nat d) *
      2 powi (int EA - 1 + 1 - 1023 - int (52 + 10))"
    by (rule sub_far_value [OF E d, of 1023 10, folded EE]) 
  have R: "correctly_rounded 52 1023 sg (mval 52 1023 (mag a) - mval 52 1023 (mag b)) s
      (softfloat_normRoundPackToF64 sg (int EA - 1) z s)" for sg
    by (rule f64_normRoundPack [OF _ _ _ _ X]) (use S zu lt E2 in auto)
  have c: "d \<noteq> 0" "\<not> d < 0" "int EB - int EA \<noteq> 0" "int EB - int EA < 0"
    "- (int EB - int EA) = d" "int EA - int EB = d" "int EA \<noteq> 2047" using lt E2 by (simp_all add: d_def)
  show "correctly_rounded 52 1023 (neg a) (mval 52 1023 (mag a) - mval 52 1023 (mag b)) s
      (softfloat_subMagsF64 a b (neg a) s)"
    unfolding softfloat_subMagsF64_def Let_def ex f64v.sign wA_def [symmetric] wB_def [symmetric]
    using R by (simp only: c if_True if_False simp_thms prod.case z_def [symmetric])
  show "correctly_rounded 52 1023 (\<not> neg b) (mval 52 1023 (mag a) - mval 52 1023 (mag b)) s
      (softfloat_subMagsF64 b a (neg b) s)"
    unfolding softfloat_subMagsF64_def Let_def ex f64v.sign wA_def [symmetric] wB_def [symmetric]
    using R by (simp only: c if_True if_False simp_thms prod.case z_def [symmetric])
qed

lemma f64_sub_equal:
  fixes a b :: u64
  assumes fin: "is_fin 52 1023 a" and E: "mag a div 2 ^ 52 = E" "mag b div 2 ^ 52 = E"
  shows "mag a \<noteq> mag b \<Longrightarrow> correctly_rounded 52 1023 (if mag a < mag b then \<not> neg a else neg a)
      \<bar>mval 52 1023 (mag a) - mval 52 1023 (mag b)\<bar> s (softfloat_subMagsF64 a b (neg a) s)"
    "mag a = mag b \<Longrightarrow> softfloat_subMagsF64 a b (neg a) s =
      (packToF64UI (softfloat_roundingMode s = softfloat_round_min) 0 0, s)"
proof -
  have ex: "expF64UI a = int E" "expF64UI b = int E" using E by (simp_all add: f64v.exp)
  have E2: "int E < 2047" using int_div_less [of "mag a" 2047 52] fin E(1) by (simp add: is_fin_def)
  then have E2047: "int E \<noteq> 2047" by simp
  define D where "D = int (mag a mod 2 ^ 52) - int (mag b mod 2 ^ 52)"
  have D: "uint (fracF64UI a) - uint (fracF64UI b) = D"
    unfolding D_def f64v.frac [symmetric] by simp
  have less: "mag a < mag b \<longleftrightarrow> D < 0" "mag a = mag b \<longleftrightarrow> D = 0"
    using same_div_less [of "mag a" "2 ^ 52" "mag b"] same_div_eq [of "mag a" "2 ^ 52" "mag b"] E by (simp_all add: D_def)
  show "mag a = mag b \<Longrightarrow> softfloat_subMagsF64 a b (neg a) s =
      (packToF64UI (softfloat_roundingMode s = softfloat_round_min) 0 0, s)"
    unfolding softfloat_subMagsF64_def Let_def ex D less by (simp only: diff_self simp_thms if_True if_False E2047)
  assume "mag a \<noteq> mag b"
  then have nz: "D \<noteq> 0" by (simp add: less)
  have bd: "\<bar>D\<bar> < 2 ^ 52" by (simp add: D_def)
  define e where "e = (if int E \<noteq> 0 then int E - 1 else int E)"
  define sd where "sd = int (softfloat_countLeadingZeros64 (of_int \<bar>D\<bar>)) - 11"
  obtain sd' eZ where r: "(if e - sd < 0 then (e, 0) else (sd, e - sd)) = (sd', eZ)" by (metis surj_pair)
  define sg where "sg = (if D < 0 then \<not> neg a else neg a)"
  have sw: "(if D < 0 then (\<not> neg a, - D) else (neg a, D)) = (sg, \<bar>D\<bar>)" by (simp add: sg_def)
  have eq: "softfloat_subMagsF64 a b (neg a) s =
      ((packToF64UI sg eZ (push_bit (nat sd') (of_int \<bar>D\<bar>))), s)"
    unfolding softfloat_subMagsF64_def Let_def ex D f64v.sign e_def [symmetric]
    by (simp only: diff_self simp_thms if_True if_False E2047 nz sw prod.case sd_def [symmetric] r)
  have u: "unat (of_int \<bar>D\<bar> :: u64) = nat \<bar>D\<bar>"
    using bd by (simp add: unat_of_int_small)
  have c: "clz_ok (52 + 11 + 1) (unat (of_int \<bar>D\<bar> :: u64)) (softfloat_countLeadingZeros64 (of_int \<bar>D\<bar>))"
    using countLeadingZeros64 [of "of_int \<bar>D\<bar>"] by simp
  have X: "\<bar>mval 52 1023 (mag a) - mval 52 1023 (mag b)\<bar> = real (unat (of_int \<bar>D\<bar> :: u64)) * 2 powi (e + 1 - 1023 - int 52)"
  proof -
    have "e + 1 = max (int E) 1" by (simp add: e_def)
    then show ?thesis unfolding sub_equal [OF E, of 1023, folded D_def] u by (simp add: abs_mult)
  qed
  show "correctly_rounded 52 1023 (if mag a < mag b then \<not> neg a else neg a)
      \<bar>mval 52 1023 (mag a) - mval 52 1023 (mag b)\<bar> s (softfloat_subMagsF64 a b (neg a) s)"
    unfolding eq less sg_def [symmetric]
    by (rule f64.sub_equal_word [OF c _ _ _ _ _ r X]) (use u bd nz E2 in \<open>auto simp: e_def sd_def\<close>)
qed

lemma f64_addMags:
  fixes a b :: u64
  assumes "is_fin 52 1023 a" "is_fin 52 1023 b"
  shows "float_result 52 1023 (if neg a then - (mval 52 1023 (mag a) + mval 52 1023 (mag b)) else mval 52 1023 (mag a) + mval 52 1023 (mag b))
    (neg a) s (softfloat_addMagsF64 a b (neg a) s)"
proof (cases "mag a + mag b = 0")
  case True
  then have "expF64UI a = 0" "expF64UI b = 0" "fracF64UI b = 0"
    using f64v.exp_frac_zero [of a] f64v.exp_frac_zero [of b] by auto
  then have "softfloat_addMagsF64 a b (neg a) s = (a, s)" by (simp add: softfloat_addMagsF64_def)
  then show ?thesis using True by (simp add: float_result_def)
next
  case False
  have "correctly_rounded 52 1023 (neg a) (mval 52 1023 (mag a) + mval 52 1023 (mag b)) s (softfloat_addMagsF64 a b (neg a) s)"
    using f64_add_equal [OF assms refl, of s] f64_add_far(1) [OF assms, of s] f64_add_far(2) [OF assms(2,1), of s] False
    by (cases "mag a div 2 ^ 52" "mag b div 2 ^ 52" rule: linorder_cases) (auto simp: add.commute)
  moreover have "0 < mval 52 1023 (mag a) + mval 52 1023 (mag b)"
    using False mval_nonneg [of 52 1023] by (metis add_pos_nonneg add_nonneg_pos mval_pos neq0_conv add_is_0)
  ultimately show ?thesis by (auto simp: float_result_def add.commute)
qed

lemma f64_subMags:
  fixes a b :: u64
  assumes "is_fin 52 1023 a" "is_fin 52 1023 b"
  shows "float_result 52 1023 (if neg a then - (mval 52 1023 (mag a) - mval 52 1023 (mag b)) else mval 52 1023 (mag a) - mval 52 1023 (mag b))
    (softfloat_roundingMode s = softfloat_round_min) s (softfloat_subMagsF64 a b (neg a) s)"
proof (cases "mag a = mag b")
  case True
  then show ?thesis using f64_sub_equal(2) [OF assms(1) refl _ True, of s] f64.pack_zero [of "softfloat_roundingMode s = 2"]
    by (simp add: float_result_def)
next
  case False
  have mono: "m div 2 ^ 52 < m' div 2 ^ 52 \<Longrightarrow> m < (m'::nat)" for m m' by (metis div_le_mono not_le)
  have "correctly_rounded 52 1023 (if mag a < mag b then \<not> neg a else neg a)
      \<bar>mval 52 1023 (mag a) - mval 52 1023 (mag b)\<bar> s (softfloat_subMagsF64 a b (neg a) s)"
  proof (cases "mag a div 2 ^ 52" "mag b div 2 ^ 52" rule: linorder_cases)
    case less
    then show ?thesis using f64_sub_far(2) [OF assms(2,1) less, of s] mono [OF less] by (simp add: less_imp_le)
  next
    case equal
    then show ?thesis using f64_sub_equal(1) [OF assms(1) refl _ False, of s] by simp
  next
    case greater
    then show ?thesis using f64_sub_far(1) [OF assms greater, of s] mono [OF greater] by (simp add: less_imp_le)
  qed
  moreover have "mval 52 1023 (mag a) - mval 52 1023 (mag b) \<noteq> 0" "mval 52 1023 (mag a) - mval 52 1023 (mag b) < 0 \<longleftrightarrow> mag a < mag b"
    "mval 52 1023 (mag b) - mval 52 1023 (mag a) < 0 \<longleftrightarrow> \<not> mag a < mag b"
    using False by auto
  ultimately show ?thesis by (cases "neg a") (auto simp: float_result_def abs_minus_commute)
qed

section \<open>Infinities and NaNs\<close>

lemma f64_exp_top: "expF64UI x = 2047 \<longleftrightarrow> \<not> is_fin 52 1023 x" for x :: u64
  using f64v.exp_top_iff [of x] by simp

lemma f64_exp_fin: "is_fin 52 1023 x \<Longrightarrow> expF64UI x < 2047" for x :: u64
  using int_div_less [of "mag x" 2047 52] by (simp add: f64v.exp is_fin_def)

lemma f64_frac_shift:
  "push_bit 9 (fracF64UI x) = 0 \<longleftrightarrow> fracF64UI x = 0"
  "push_bit 10 (fracF64UI x) = 0 \<longleftrightarrow> fracF64UI x = 0" for x :: u64
  using f64v.frac_shift_zero [of 9 x] f64v.frac_shift_zero [of 10 x] by simp_all

lemma f64_add_special:
  assumes "\<not> (is_fin 52 1023 a \<and> is_fin 52 1023 b)"
  shows "f64_add a b s =
    (if is_nan 52 1023 a \<or> is_nan 52 1023 b
     then (0x7FF8000000000000, if is_snan 52 1023 a \<or> is_snan 52 1023 b then softfloat_raiseFlags softfloat_flag_invalid s else s)
     else if \<not> is_fin 52 1023 a \<and> \<not> is_fin 52 1023 b \<and> neg a \<noteq> neg b then (0x7FF8000000000000, softfloat_raiseFlags softfloat_flag_invalid s)
     else (if is_fin 52 1023 a then b else a, s))"
proof -
  note e' = f64_exp_fin
  have n: "is_nan 52 1023 x \<longleftrightarrow> \<not> is_fin 52 1023 x \<and> fracF64UI x \<noteq> 0" for x :: u64
    using f64v.nan_iff [of x] f64_exp_top by simp
  have i: "\<not> is_fin 52 1023 x \<Longrightarrow> fracF64UI x = 0 \<Longrightarrow> packToF64UI (neg x) 2047 0 = x" for x :: u64
    using f64.pack_inf [of x] n [of x] by simp
  note D = f64_add_def Let_def f64v.sign softfloat_addMagsF64_def softfloat_subMagsF64_def softfloat_propagateNaNF64UI_def defaultNaNF64UI_def
  consider "\<not> is_fin 52 1023 a" "\<not> is_fin 52 1023 b" | "\<not> is_fin 52 1023 a" "is_fin 52 1023 b" | "is_fin 52 1023 a" "\<not> is_fin 52 1023 b"
    using assms by blast
  then show ?thesis
  proof cases
    case 1
    then have "expF64UI a = 2047" "expF64UI b = 2047" by (simp_all add: f64_exp_top)
    then show ?thesis using 1 unfolding D by (simp add: n word_or_zero)
  next
    case 2
    then have e: "expF64UI a = 2047" "\<not> 2047 < expF64UI b" "expF64UI b \<noteq> 2047" "2047 \<noteq> expF64UI b"
      using e' [of b] by (simp_all add: f64_exp_top)
    show ?thesis using 2 unfolding D by (simp add: n f64_frac_shift e)
  next
    case 3
    then have e: "expF64UI b = 2047" "expF64UI a < 2047" "expF64UI a \<noteq> 2047" "2047 \<noteq> expF64UI a"
      using e' [of a] by (simp_all add: f64_exp_top)
    show ?thesis using 3 i [of b] unfolding D by (cases "neg a"; cases "neg b"; simp add: n f64_frac_shift e f64v.sign)
  qed
qed

lemma f64_sub_special:
  assumes "\<not> (is_fin 52 1023 a \<and> is_fin 52 1023 b)"
  shows "f64_sub a b s =
    (if is_nan 52 1023 a \<or> is_nan 52 1023 b
     then (0x7FF8000000000000, if is_snan 52 1023 a \<or> is_snan 52 1023 b then softfloat_raiseFlags softfloat_flag_invalid s else s)
     else if \<not> is_fin 52 1023 a \<and> \<not> is_fin 52 1023 b \<and> neg a = neg b then (0x7FF8000000000000, softfloat_raiseFlags softfloat_flag_invalid s)
     else (if is_fin 52 1023 a then packToF64UI (\<not> neg b) 2047 0 else a, s))"
proof -
  note e' = f64_exp_fin
  have n: "is_nan 52 1023 x \<longleftrightarrow> \<not> is_fin 52 1023 x \<and> fracF64UI x \<noteq> 0" for x :: u64
    using f64v.nan_iff [of x] f64_exp_top by simp
  have i: "\<not> is_fin 52 1023 x \<Longrightarrow> fracF64UI x = 0 \<Longrightarrow> packToF64UI (neg x) 2047 0 = x" for x :: u64
    using f64.pack_inf [of x] n [of x] by simp
  note D = f64_sub_def Let_def f64v.sign softfloat_addMagsF64_def softfloat_subMagsF64_def softfloat_propagateNaNF64UI_def defaultNaNF64UI_def
  consider "\<not> is_fin 52 1023 a" "\<not> is_fin 52 1023 b" | "\<not> is_fin 52 1023 a" "is_fin 52 1023 b" | "is_fin 52 1023 a" "\<not> is_fin 52 1023 b"
    using assms by blast
  then show ?thesis
  proof cases
    case 1
    then have "expF64UI a = 2047" "expF64UI b = 2047" by (simp_all add: f64_exp_top)
    then show ?thesis using 1 unfolding D by (simp add: n word_or_zero)
  next
    case 2
    then have e: "expF64UI a = 2047" "\<not> 2047 < expF64UI b" "expF64UI b \<noteq> 2047" "2047 \<noteq> expF64UI b"
      using e' [of b] by (simp_all add: f64_exp_top)
    show ?thesis using 2 unfolding D by (simp add: n f64_frac_shift e)
  next
    case 3
    then have e: "expF64UI b = 2047" "expF64UI a < 2047" "expF64UI a \<noteq> 2047" "2047 \<noteq> expF64UI a"
      using e' [of a] by (simp_all add: f64_exp_top)
    show ?thesis using 3 i [of b] unfolding D by (cases "neg a"; cases "neg b"; simp add: n f64_frac_shift e f64v.sign)
  qed
qed

section \<open>Addition and subtraction\<close>

theorem f64_add_correct:
  assumes "is_fin 52 1023 a" "is_fin 52 1023 b"
  shows "float_result 52 1023 (fval 52 1023 a + fval 52 1023 b)
    (if neg a = neg b then neg a else softfloat_roundingMode s = softfloat_round_min) s (f64_add a b s)"
proof -
  show ?thesis using f64_addMags [OF assms, of s] f64_subMags [OF assms, of s]
    by (auto simp: f64_add_def fval_def f64v.sign)
qed

theorem f64_sub_correct:
  assumes "is_fin 52 1023 a" "is_fin 52 1023 b"
  shows "float_result 52 1023 (fval 52 1023 a - fval 52 1023 b)
    (if neg a \<noteq> neg b then neg a else softfloat_roundingMode s = softfloat_round_min) s (f64_sub a b s)"
proof -
  show ?thesis using f64_addMags [OF assms, of s] f64_subMags [OF assms, of s]
    by (auto simp: f64_sub_def fval_def f64v.sign)
qed

end
