(* ===== verification/SF_Compare.thy ===== *)
theory SF_Compare
  imports SF_Align
begin

text \<open>
  Comparisons, minimum, maximum and classification. On operands that are not NaN the comparisons of the
  encodings agree with the order of the values; \<open>fval\<close> reads an infinity as the power of two above all
  finite values, so that infinities are ordered as the standard requires.
\<close>

section \<open>The order of values and encodings\<close>

lemma fval_less:
  "fval p B a < fval p B b \<longleftrightarrow>
    (if neg a \<noteq> neg b then neg a \<and> \<not> (mag a = 0 \<and> mag b = 0)
     else if neg a then mag b < mag a else mag a < mag b)"
proof -
  have "- x < y \<longleftrightarrow> \<not> (x = 0 \<and> y = 0)" "\<not> x < - y" if "0 \<le> x" "0 \<le> y" for x y :: real using that by auto
  then show ?thesis using mval_nonneg [of p B "mag a"] mval_nonneg [of p B "mag b"] by (auto simp: fval_def)
qed

lemma fval_eq: "fval p B a = fval p B b \<longleftrightarrow> a = b \<or> mag a = 0 \<and> mag b = 0" for a b :: "'f::len word"
proof -
  have "neg a = neg b \<Longrightarrow> mag a = mag b \<Longrightarrow> a = b"
    unfolding word_unat_eq_iff by (subst (1 2) unat_split) simp
  then have "a = b \<longleftrightarrow> neg a = neg b \<and> mag a = mag b" by auto
  moreover have "- x = y \<longleftrightarrow> x = 0 \<and> y = 0" "x = - y \<longleftrightarrow> x = 0 \<and> y = 0" if "0 \<le> x" "0 \<le> y" for x y :: real using that by auto
  then have "fval p B a = fval p B b \<longleftrightarrow> (if neg a = neg b then mag a = mag b else mag a = 0 \<and> mag b = 0)"
    using mval_nonneg [of p B "mag a"] mval_nonneg [of p B "mag b"] by (simp add: fval_def)
  ultimately show ?thesis by auto
qed

lemma same_sign_less: "neg a = neg b \<Longrightarrow> a < b \<longleftrightarrow> mag a < mag b" for a b :: "'f::len word"
  using unat_split [of a] unat_split [of b] by (simp add: word_less_nat_alt)

lemma mag_or: "mag (a OR b) = 0 \<longleftrightarrow> mag a = 0 \<and> mag b = 0" for a b :: "'f::len word"
proof -
  have "mag x = unat (x AND mask (LENGTH('f) - 1))" for x :: "'f word" by (simp add: mag_def unat_and_mask)
  moreover have "(a OR b) AND m = (a AND m) OR (b AND m)" for m by (rule bit_word_eqI) (auto simp: bit_simps)
  ultimately show ?thesis by (simp add: word_or_zero flip: word_eq_0_unat)
qed

lemma ucast_or: "ucast a OR ucast b = (ucast (a OR b :: 'a::len word) :: 'b::len word)"
  by (rule bit_word_eqI) (auto simp: bit_simps)

lemma both_zero32: "(ucast (push_bit 1 (ucast a OR ucast b :: u64)) :: u32) = 0 \<longleftrightarrow> mag a = 0 \<and> mag b = 0" for a b :: u32
proof -
  have "unat (ucast (push_bit 1 (ucast x :: u64)) :: u32) = 2 * mag x" for x :: u32
  proof -
    have "unat x * 2 < 2 ^ 64" using unat_lt2p [of x] by simp
    then have "unat (push_bit 1 (ucast x :: u64)) = unat x * 2" by (subst unat_push_bit_small) auto
    then show ?thesis using mult_mod_right [of 2 "unat x" "2 ^ 31"] by (simp only: unat_lo32 mag_def mult.commute [of "unat x" 2]) simp
  qed
  then show ?thesis unfolding ucast_or mag_or [symmetric] by (simp add: word_eq_0_unat)
qed

lemma both_zero16: "(ucast (push_bit 1 (ucast a OR ucast b :: u64)) :: u16) = 0 \<longleftrightarrow> mag a = 0 \<and> mag b = 0" for a b :: u16
proof -
  have "unat (ucast (push_bit 1 (ucast x :: u64)) :: u16) = 2 * mag x" for x :: u16
  proof -
    have "unat x * 2 < 2 ^ 64" using unat_lt2p [of x] by simp
    then have "unat (push_bit 1 (ucast x :: u64)) = unat x * 2" by (subst unat_push_bit_small) auto
    then show ?thesis using mult_mod_right [of 2 "unat x" "2 ^ 15"]
      by (simp only: unsigned_ucast_eq take_bit_eq_mod mag_def mult.commute [of "unat x" 2]) simp
  qed
  then show ?thesis unfolding ucast_or mag_or [symmetric] by (simp add: word_eq_0_unat)
qed

lemma both_zero64: "(a OR b) AND 0x7FFFFFFFFFFFFFFF = 0 \<longleftrightarrow> mag a = 0 \<and> mag b = 0" for a b :: u64
proof -
  have "(0x7FFFFFFFFFFFFFFF :: u64) = mask 63" by (simp add: mask_eq_exp_minus_1)
  then show ?thesis unfolding mag_or [symmetric] word_eq_0_unat by (simp only: unat_and_mask mag_def) simp
qed

lemma ucast_less32: "(ucast a :: u64) < ucast b \<longleftrightarrow> a < b" "(ucast a :: u64) = ucast b \<longleftrightarrow> a = b" for a b :: u32
  by (simp_all add: word_less_nat_alt word_unat_eq_iff)

lemma ucast_less16: "(ucast a :: u64) < ucast b \<longleftrightarrow> a < b" "(ucast a :: u64) = ucast b \<longleftrightarrow> a = b" for a b :: u16
  by (simp_all add: word_less_nat_alt word_unat_eq_iff)

lemma le_by_bits:
  "fval p B a \<le> fval p B b \<longleftrightarrow>
    (if neg a \<noteq> neg b then neg a \<or> mag a = 0 \<and> mag b = 0 else a = b \<or> neg a \<noteq> (a < b))" for a b :: "'f::len word"
  using fval_less [of p B a b] fval_eq [of p B a b] same_sign_less [of a b] same_sign_less [of b a]
  by (cases "neg a = neg b") (auto simp: order_le_less)

lemma less_by_bits:
  "fval p B a < fval p B b \<longleftrightarrow>
    (if neg a \<noteq> neg b then neg a \<and> \<not> (mag a = 0 \<and> mag b = 0) else a \<noteq> b \<and> neg a \<noteq> (a < b))" for a b :: "'f::len word"
  using fval_less [of p B a b] same_sign_less [of a b] same_sign_less [of b a]
  by (cases "neg a = neg b") auto

section \<open>Comparisons\<close>

lemmas f16_compare_defs = f16_eq_def f16_eq_signaling_def f16_le_def f16_le_quiet_def f16_lt_def f16_lt_quiet_def

lemma f16_compare_numbers:
  assumes "\<not> is_nan 10 15 a" "\<not> is_nan 10 15 b"
  shows "f16_eq a b s = (fval 10 15 a = fval 10 15 b, s)" "f16_eq_signaling a b s = (fval 10 15 a = fval 10 15 b, s)"
    "f16_le a b s = (fval 10 15 a \<le> fval 10 15 b, s)" "f16_le_quiet a b s = (fval 10 15 a \<le> fval 10 15 b, s)"
    "f16_lt a b s = (fval 10 15 a < fval 10 15 b, s)" "f16_lt_quiet a b s = (fval 10 15 a < fval 10 15 b, s)"
  using assms unfolding f16_compare_defs Let_def le_by_bits less_by_bits fval_eq
  by (simp_all only: f16_isNaN both_zero16 ucast_less16 f16v.sign de_Morgan_disj if_False simp_thms)

lemma f16_compare_nan:
  assumes "is_nan 10 15 a \<or> is_nan 10 15 b"
  shows "f16_eq a b s = (False, if is_snan 10 15 a \<or> is_snan 10 15 b then softfloat_raiseFlags softfloat_flag_invalid s else s)"
    "f16_le_quiet a b s = (False, if is_snan 10 15 a \<or> is_snan 10 15 b then softfloat_raiseFlags softfloat_flag_invalid s else s)"
    "f16_lt_quiet a b s = (False, if is_snan 10 15 a \<or> is_snan 10 15 b then softfloat_raiseFlags softfloat_flag_invalid s else s)"
    "f16_eq_signaling a b s = (False, softfloat_raiseFlags softfloat_flag_invalid s)"
    "f16_le a b s = (False, softfloat_raiseFlags softfloat_flag_invalid s)"
    "f16_lt a b s = (False, softfloat_raiseFlags softfloat_flag_invalid s)"
  using assms unfolding f16_compare_defs Let_def by (simp_all only: f16_isNaN f16_isSigNaN if_True simp_thms)

lemmas f32_compare_defs = f32_eq_def f32_eq_signaling_def f32_le_def f32_le_quiet_def f32_lt_def f32_lt_quiet_def

lemma f32_compare_numbers:
  assumes "\<not> is_nan 23 127 a" "\<not> is_nan 23 127 b"
  shows "f32_eq a b s = (fval 23 127 a = fval 23 127 b, s)" "f32_eq_signaling a b s = (fval 23 127 a = fval 23 127 b, s)"
    "f32_le a b s = (fval 23 127 a \<le> fval 23 127 b, s)" "f32_le_quiet a b s = (fval 23 127 a \<le> fval 23 127 b, s)"
    "f32_lt a b s = (fval 23 127 a < fval 23 127 b, s)" "f32_lt_quiet a b s = (fval 23 127 a < fval 23 127 b, s)"
  using assms unfolding f32_compare_defs Let_def le_by_bits less_by_bits fval_eq
  by (simp_all only: f32_isNaN both_zero32 ucast_less32 f32v.sign de_Morgan_disj if_False simp_thms)

lemma f32_compare_nan:
  assumes "is_nan 23 127 a \<or> is_nan 23 127 b"
  shows "f32_eq a b s = (False, if is_snan 23 127 a \<or> is_snan 23 127 b then softfloat_raiseFlags softfloat_flag_invalid s else s)"
    "f32_le_quiet a b s = (False, if is_snan 23 127 a \<or> is_snan 23 127 b then softfloat_raiseFlags softfloat_flag_invalid s else s)"
    "f32_lt_quiet a b s = (False, if is_snan 23 127 a \<or> is_snan 23 127 b then softfloat_raiseFlags softfloat_flag_invalid s else s)"
    "f32_eq_signaling a b s = (False, softfloat_raiseFlags softfloat_flag_invalid s)"
    "f32_le a b s = (False, softfloat_raiseFlags softfloat_flag_invalid s)"
    "f32_lt a b s = (False, softfloat_raiseFlags softfloat_flag_invalid s)"
  using assms unfolding f32_compare_defs Let_def by (simp_all only: f32_isNaN f32_isSigNaN if_True simp_thms)

lemmas f64_compare_defs = f64_eq_def f64_eq_signaling_def f64_le_def f64_le_quiet_def f64_lt_def f64_lt_quiet_def

lemma f64_compare_numbers:
  assumes "\<not> is_nan 52 1023 a" "\<not> is_nan 52 1023 b"
  shows "f64_eq a b s = (fval 52 1023 a = fval 52 1023 b, s)" "f64_eq_signaling a b s = (fval 52 1023 a = fval 52 1023 b, s)"
    "f64_le a b s = (fval 52 1023 a \<le> fval 52 1023 b, s)" "f64_le_quiet a b s = (fval 52 1023 a \<le> fval 52 1023 b, s)"
    "f64_lt a b s = (fval 52 1023 a < fval 52 1023 b, s)" "f64_lt_quiet a b s = (fval 52 1023 a < fval 52 1023 b, s)"
  using assms unfolding f64_compare_defs Let_def le_by_bits less_by_bits fval_eq
  by (simp_all only: f64_isNaN both_zero64 f64v.sign de_Morgan_disj if_False simp_thms)

lemma f64_compare_nan:
  assumes "is_nan 52 1023 a \<or> is_nan 52 1023 b"
  shows "f64_eq a b s = (False, if is_snan 52 1023 a \<or> is_snan 52 1023 b then softfloat_raiseFlags softfloat_flag_invalid s else s)"
    "f64_le_quiet a b s = (False, if is_snan 52 1023 a \<or> is_snan 52 1023 b then softfloat_raiseFlags softfloat_flag_invalid s else s)"
    "f64_lt_quiet a b s = (False, if is_snan 52 1023 a \<or> is_snan 52 1023 b then softfloat_raiseFlags softfloat_flag_invalid s else s)"
    "f64_eq_signaling a b s = (False, softfloat_raiseFlags softfloat_flag_invalid s)"
    "f64_le a b s = (False, softfloat_raiseFlags softfloat_flag_invalid s)"
    "f64_lt a b s = (False, softfloat_raiseFlags softfloat_flag_invalid s)"
  using assms unfolding f64_compare_defs Let_def by (simp_all only: f64_isNaN f64_isSigNaN if_True simp_thms)

section \<open>Minimum, maximum and classification\<close>

lemma raise_again: "softfloat_raiseFlags f (softfloat_raiseFlags f s) = softfloat_raiseFlags f s"
  by (simp add: softfloat_raiseFlags_def or.assoc)

definition float_class :: "nat \<Rightarrow> int \<Rightarrow> 'f::len word \<Rightarrow> nat" where
  "float_class p B a =
     (if is_nan p B a then if is_snan p B a then 8 else 9
      else if \<not> is_fin p B a then if neg a then 0 else 7
      else if mag a = 0 then if neg a then 3 else 4
      else if mag a < 2 ^ p then if neg a then 2 else 5
      else if neg a then 1 else 6)"

lemma f16_max_eq:
  "f16_max a b s =
    (if is_nan 10 15 a \<and> is_nan 10 15 b then 0x7E00 else if is_nan 10 15 b then a else if is_nan 10 15 a then b
     else if fval 10 15 b < fval 10 15 a \<or> fval 10 15 b = fval 10 15 a \<and> neg b then a else b,
     if is_snan 10 15 a \<or> is_snan 10 15 b then softfloat_raiseFlags softfloat_flag_invalid s else s)"
proof (cases "is_nan 10 15 a \<or> is_nan 10 15 b")
  case True
  then show ?thesis
    using f16_compare_nan [of a b] f16_compare_nan [of b a] by (auto simp: f16_max_def Let_def raise_again defaultNaNF16UI_def)
next
  case False
  then have "\<not> is_snan 10 15 a" "\<not> is_snan 10 15 b" by (simp_all add: is_snan_def)
  then show ?thesis
    using False f16_compare_numbers [of a b] f16_compare_numbers [of b a] by (simp add: f16_max_def Let_def f16v.sign)
qed

lemma f16_min_eq:
  "f16_min a b s =
    (if is_nan 10 15 a \<and> is_nan 10 15 b then 0x7E00 else if is_nan 10 15 b then a else if is_nan 10 15 a then b
     else if fval 10 15 a < fval 10 15 b \<or> fval 10 15 a = fval 10 15 b \<and> neg a then a else b,
     if is_snan 10 15 a \<or> is_snan 10 15 b then softfloat_raiseFlags softfloat_flag_invalid s else s)"
proof (cases "is_nan 10 15 a \<or> is_nan 10 15 b")
  case True
  then show ?thesis
    using f16_compare_nan [of a b] f16_compare_nan [of b a] by (auto simp: f16_min_def Let_def raise_again defaultNaNF16UI_def)
next
  case False
  then have "\<not> is_snan 10 15 a" "\<not> is_snan 10 15 b" by (simp_all add: is_snan_def)
  then show ?thesis
    using False f16_compare_numbers [of a b] f16_compare_numbers [of b a] by (simp add: f16_min_def Let_def f16v.sign)
qed

lemma f16_classify_eq: "f16_classify a = 2 ^ float_class 10 15 a"
proof -
  have z: "expF16UI (ucast a) = 0 \<longleftrightarrow> mag a < 2 ^ 10" by (simp add: f16v.exp div_eq_0_iff)
  have t: "expF16UI (ucast a) = 31 \<longleftrightarrow> \<not> is_fin 10 15 a" using f16v.exp_top_iff [of a] by simp
  have n: "is_nan 10 15 a \<longleftrightarrow> \<not> is_fin 10 15 a \<and> fracF16UI (ucast a) \<noteq> 0" using f16v.nan_iff [of a] by (simp add: t)
  have f: "mag a < 2 ^ 10 \<Longrightarrow> fracF16UI (ucast a) = 0 \<longleftrightarrow> mag a = 0" by (simp add: word_eq_0_unat f16v.frac)
  have i: "mag a < 2 ^ 10 \<Longrightarrow> is_fin 10 15 a" by (simp add: is_fin_def)
  have "is_snan 10 15 a \<Longrightarrow> is_nan 10 15 a" by (simp add: is_snan_def)
  then show ?thesis
    unfolding f16_classify_def Let_def z t float_class_def f16_isNaN f16_isSigNaN f16v.sign
    using n f i by (cases "neg a"; cases "is_fin 10 15 a"; cases "mag a < 2 ^ 10"; cases "mag a = 0"; cases "is_snan 10 15 a") auto
qed

lemma f32_max_eq:
  "f32_max a b s =
    (if is_nan 23 127 a \<and> is_nan 23 127 b then 0x7FC00000 else if is_nan 23 127 b then a else if is_nan 23 127 a then b
     else if fval 23 127 b < fval 23 127 a \<or> fval 23 127 b = fval 23 127 a \<and> neg b then a else b,
     if is_snan 23 127 a \<or> is_snan 23 127 b then softfloat_raiseFlags softfloat_flag_invalid s else s)"
proof (cases "is_nan 23 127 a \<or> is_nan 23 127 b")
  case True
  then show ?thesis
    using f32_compare_nan [of a b] f32_compare_nan [of b a] by (auto simp: f32_max_def Let_def raise_again defaultNaNF32UI_def)
next
  case False
  then have "\<not> is_snan 23 127 a" "\<not> is_snan 23 127 b" by (simp_all add: is_snan_def)
  then show ?thesis
    using False f32_compare_numbers [of a b] f32_compare_numbers [of b a] by (simp add: f32_max_def Let_def f32v.sign)
qed

lemma f32_min_eq:
  "f32_min a b s =
    (if is_nan 23 127 a \<and> is_nan 23 127 b then 0x7FC00000 else if is_nan 23 127 b then a else if is_nan 23 127 a then b
     else if fval 23 127 a < fval 23 127 b \<or> fval 23 127 a = fval 23 127 b \<and> neg a then a else b,
     if is_snan 23 127 a \<or> is_snan 23 127 b then softfloat_raiseFlags softfloat_flag_invalid s else s)"
proof (cases "is_nan 23 127 a \<or> is_nan 23 127 b")
  case True
  then show ?thesis
    using f32_compare_nan [of a b] f32_compare_nan [of b a] by (auto simp: f32_min_def Let_def raise_again defaultNaNF32UI_def)
next
  case False
  then have "\<not> is_snan 23 127 a" "\<not> is_snan 23 127 b" by (simp_all add: is_snan_def)
  then show ?thesis
    using False f32_compare_numbers [of a b] f32_compare_numbers [of b a] by (simp add: f32_min_def Let_def f32v.sign)
qed

lemma f32_classify_eq: "f32_classify a = 2 ^ float_class 23 127 a"
proof -
  have z: "expF32UI (ucast a) = 0 \<longleftrightarrow> mag a < 2 ^ 23" by (simp add: f32v.exp div_eq_0_iff)
  have t: "expF32UI (ucast a) = 255 \<longleftrightarrow> \<not> is_fin 23 127 a" using f32v.exp_top_iff [of a] by simp
  have n: "is_nan 23 127 a \<longleftrightarrow> \<not> is_fin 23 127 a \<and> fracF32UI (ucast a) \<noteq> 0" using f32v.nan_iff [of a] by (simp add: t)
  have f: "mag a < 2 ^ 23 \<Longrightarrow> fracF32UI (ucast a) = 0 \<longleftrightarrow> mag a = 0" by (simp add: word_eq_0_unat f32v.frac)
  have i: "mag a < 2 ^ 23 \<Longrightarrow> is_fin 23 127 a" by (simp add: is_fin_def)
  have "is_snan 23 127 a \<Longrightarrow> is_nan 23 127 a" by (simp add: is_snan_def)
  then show ?thesis
    unfolding f32_classify_def Let_def z t float_class_def f32_isNaN f32_isSigNaN f32v.sign
    using n f i by (cases "neg a"; cases "is_fin 23 127 a"; cases "mag a < 2 ^ 23"; cases "mag a = 0"; cases "is_snan 23 127 a") auto
qed

lemma f64_max_eq:
  "f64_max a b s =
    (if is_nan 52 1023 a \<and> is_nan 52 1023 b then 0x7FF8000000000000 else if is_nan 52 1023 b then a else if is_nan 52 1023 a then b
     else if fval 52 1023 b < fval 52 1023 a \<or> fval 52 1023 b = fval 52 1023 a \<and> neg b then a else b,
     if is_snan 52 1023 a \<or> is_snan 52 1023 b then softfloat_raiseFlags softfloat_flag_invalid s else s)"
proof (cases "is_nan 52 1023 a \<or> is_nan 52 1023 b")
  case True
  then show ?thesis
    using f64_compare_nan [of a b] f64_compare_nan [of b a] by (auto simp: f64_max_def Let_def raise_again defaultNaNF64UI_def)
next
  case False
  then have "\<not> is_snan 52 1023 a" "\<not> is_snan 52 1023 b" by (simp_all add: is_snan_def)
  then show ?thesis
    using False f64_compare_numbers [of a b] f64_compare_numbers [of b a] by (simp add: f64_max_def Let_def f64v.sign)
qed

lemma f64_min_eq:
  "f64_min a b s =
    (if is_nan 52 1023 a \<and> is_nan 52 1023 b then 0x7FF8000000000000 else if is_nan 52 1023 b then a else if is_nan 52 1023 a then b
     else if fval 52 1023 a < fval 52 1023 b \<or> fval 52 1023 a = fval 52 1023 b \<and> neg a then a else b,
     if is_snan 52 1023 a \<or> is_snan 52 1023 b then softfloat_raiseFlags softfloat_flag_invalid s else s)"
proof (cases "is_nan 52 1023 a \<or> is_nan 52 1023 b")
  case True
  then show ?thesis
    using f64_compare_nan [of a b] f64_compare_nan [of b a] by (auto simp: f64_min_def Let_def raise_again defaultNaNF64UI_def)
next
  case False
  then have "\<not> is_snan 52 1023 a" "\<not> is_snan 52 1023 b" by (simp_all add: is_snan_def)
  then show ?thesis
    using False f64_compare_numbers [of a b] f64_compare_numbers [of b a] by (simp add: f64_min_def Let_def f64v.sign)
qed

lemma f64_classify_eq: "f64_classify a = 2 ^ float_class 52 1023 a"
proof -
  have z: "expF64UI a = 0 \<longleftrightarrow> mag a < 2 ^ 52" by (simp add: f64v.exp div_eq_0_iff)
  have t: "expF64UI a = 2047 \<longleftrightarrow> \<not> is_fin 52 1023 a" using f64v.exp_top_iff [of a] by simp
  have n: "is_nan 52 1023 a \<longleftrightarrow> \<not> is_fin 52 1023 a \<and> fracF64UI a \<noteq> 0" using f64v.nan_iff [of a] by (simp add: t)
  have f: "mag a < 2 ^ 52 \<Longrightarrow> fracF64UI a = 0 \<longleftrightarrow> mag a = 0" by (simp add: word_eq_0_unat f64v.frac)
  have i: "mag a < 2 ^ 52 \<Longrightarrow> is_fin 52 1023 a" by (simp add: is_fin_def)
  have "is_snan 52 1023 a \<Longrightarrow> is_nan 52 1023 a" by (simp add: is_snan_def)
  then show ?thesis
    unfolding f64_classify_def Let_def z t float_class_def f64_isNaN f64_isSigNaN f64v.sign
    using n f i by (cases "neg a"; cases "is_fin 52 1023 a"; cases "mag a < 2 ^ 52"; cases "mag a = 0"; cases "is_snan 52 1023 a") auto
qed

end
