(* ===== verification/SF_Convert.thy ===== *)
theory SF_Convert
  imports SF_F16 SF_F32 SF_F64
begin

text \<open>
  Conversions between the floating-point formats and the integers. A signed result is an
  \<^typ>\<open>int\<close>, an unsigned one the \<^typ>\<open>64 word\<close> that \<open>uint_fast32_t\<close> or \<open>uint_fast64_t\<close> holds.
  The results for NaN and overflow are those of \<open>specialize.h\<close>; as \<open>i32_fromNaN\<close> is
  \<open>i32_fromPosOverflow\<close> (and likewise for the other types), the preprocessor selects \<open>sign = 0\<close> for
  a NaN operand.
\<close>

section \<open>Rounding a fixed-point magnitude to an integer\<close>

definition softfloat_roundToI32 :: "bool \<Rightarrow> u64 \<Rightarrow> u8 \<Rightarrow> bool \<Rightarrow> sf_state \<Rightarrow> int \<times> sf_state" where
  "softfloat_roundToI32 sign sig roundingMode exact s =
     (let roundNearEven = (roundingMode = softfloat_round_near_even);
          roundIncrement =
            (if \<not> roundNearEven \<and> roundingMode \<noteq> softfloat_round_near_maxMag
             then if roundingMode = (if sign then softfloat_round_min else softfloat_round_max)
                  then 0xFFF else 0
             else 0x800) :: u64;
          roundBits = sig AND 0xFFF;
          sig = sig + roundIncrement;
          invalid = (if sign then - 0x80000000 else 0x7FFFFFFF,
            softfloat_raiseFlags softfloat_flag_invalid s)
      in if sig AND 0xFFFFF00000000000 \<noteq> 0 then invalid
         else
           let sig32 = drop_bit 12 sig;
               sig32 = sig32 AND NOT (of_bool (roundBits XOR 0x800 = 0 \<and> roundNearEven));
               z = sint (ucast (if sign then - sig32 else sig32) :: u32)
           in if z \<noteq> 0 \<and> (z < 0) \<noteq> sign then invalid
              else (z, if exact \<and> roundBits \<noteq> 0 then softfloat_raiseFlags softfloat_flag_inexact s else s))"

definition softfloat_roundToUI32 :: "bool \<Rightarrow> u64 \<Rightarrow> u8 \<Rightarrow> bool \<Rightarrow> sf_state \<Rightarrow> u64 \<times> sf_state" where
  "softfloat_roundToUI32 sign sig roundingMode exact s =
     (let roundNearEven = (roundingMode = softfloat_round_near_even);
          roundIncrement =
            (if \<not> roundNearEven \<and> roundingMode \<noteq> softfloat_round_near_maxMag
             then if roundingMode = (if sign then softfloat_round_min else softfloat_round_max)
                  then 0xFFF else 0
             else 0x800) :: u64;
          roundBits = sig AND 0xFFF;
          sig = sig + roundIncrement;
          invalid = (if sign then 0 else 0xFFFFFFFF, softfloat_raiseFlags softfloat_flag_invalid s)
      in if sig AND 0xFFFFF00000000000 \<noteq> 0 then invalid
         else
           let z = drop_bit 12 sig;
               z = z AND NOT (of_bool (roundBits XOR 0x800 = 0 \<and> roundNearEven))
           in if sign \<and> z \<noteq> 0 then invalid
              else (z, if exact \<and> roundBits \<noteq> 0 then softfloat_raiseFlags softfloat_flag_inexact s else s))"

definition softfloat_roundToI64 :: "bool \<Rightarrow> u64 \<Rightarrow> u64 \<Rightarrow> u8 \<Rightarrow> bool \<Rightarrow> sf_state \<Rightarrow> int \<times> sf_state" where
  "softfloat_roundToI64 sign sig sigExtra roundingMode exact s =
     (let roundNearEven = (roundingMode = softfloat_round_near_even);
          doIncrement =
            (if \<not> roundNearEven \<and> roundingMode \<noteq> softfloat_round_near_maxMag
             then roundingMode = (if sign then softfloat_round_min else softfloat_round_max) \<and> sigExtra \<noteq> 0
             else 0x8000000000000000 \<le> sigExtra);
          invalid = (if sign then - 0x8000000000000000 else 0x7FFFFFFFFFFFFFFF,
            softfloat_raiseFlags softfloat_flag_invalid s)
      in if doIncrement \<and> sig + 1 = 0 then invalid
         else
           let sig = (if doIncrement
                      then (sig + 1) AND NOT (of_bool (sigExtra AND 0x7FFFFFFFFFFFFFFF = 0 \<and> roundNearEven))
                      else sig);
               z = sint (if sign then - sig else sig)
           in if z \<noteq> 0 \<and> (z < 0) \<noteq> sign then invalid
              else (z, if exact \<and> sigExtra \<noteq> 0 then softfloat_raiseFlags softfloat_flag_inexact s else s))"

definition softfloat_roundToUI64 :: "bool \<Rightarrow> u64 \<Rightarrow> u64 \<Rightarrow> u8 \<Rightarrow> bool \<Rightarrow> sf_state \<Rightarrow> u64 \<times> sf_state" where
  "softfloat_roundToUI64 sign sig sigExtra roundingMode exact s =
     (let roundNearEven = (roundingMode = softfloat_round_near_even);
          doIncrement =
            (if \<not> roundNearEven \<and> roundingMode \<noteq> softfloat_round_near_maxMag
             then roundingMode = (if sign then softfloat_round_min else softfloat_round_max) \<and> sigExtra \<noteq> 0
             else 0x8000000000000000 \<le> sigExtra);
          invalid = (if sign then 0 else 0xFFFFFFFFFFFFFFFF, softfloat_raiseFlags softfloat_flag_invalid s)
      in if doIncrement \<and> sig + 1 = 0 then invalid
         else
           let sig = (if doIncrement
                      then (sig + 1) AND NOT (of_bool (sigExtra AND 0x7FFFFFFFFFFFFFFF = 0 \<and> roundNearEven))
                      else sig)
           in if sign \<and> sig \<noteq> 0 then invalid
              else (sig, if exact \<and> sigExtra \<noteq> 0 then softfloat_raiseFlags softfloat_flag_inexact s else s))"

section \<open>Single precision to integers\<close>

definition f32_to_i32 :: "float32_t \<Rightarrow> u8 \<Rightarrow> bool \<Rightarrow> sf_state \<Rightarrow> int \<times> sf_state" where
  "f32_to_i32 a roundingMode exact s =
     (let uiA = ucast a;
          sign = signF32UI uiA;
          exp = expF32UI uiA;
          sig = fracF32UI uiA;
          sign = (if exp = 0xFF \<and> sig \<noteq> 0 then False else sign);
          sig = (if exp \<noteq> 0 then sig OR 0x00800000 else sig);
          sig64 = push_bit 32 sig;
          shiftDist = 0xAA - exp;
          sig64 = (if 0 < shiftDist then softfloat_shiftRightJam64 sig64 (of_int shiftDist) else sig64)
      in softfloat_roundToI32 sign sig64 roundingMode exact s)"

definition f32_to_ui32 :: "float32_t \<Rightarrow> u8 \<Rightarrow> bool \<Rightarrow> sf_state \<Rightarrow> u64 \<times> sf_state" where
  "f32_to_ui32 a roundingMode exact s =
     (let uiA = ucast a;
          sign = signF32UI uiA;
          exp = expF32UI uiA;
          sig = fracF32UI uiA;
          sign = (if exp = 0xFF \<and> sig \<noteq> 0 then False else sign);
          sig = (if exp \<noteq> 0 then sig OR 0x00800000 else sig);
          sig64 = push_bit 32 sig;
          shiftDist = 0xAA - exp;
          sig64 = (if 0 < shiftDist then softfloat_shiftRightJam64 sig64 (of_int shiftDist) else sig64)
      in softfloat_roundToUI32 sign sig64 roundingMode exact s)"

definition f32_to_i64 :: "float32_t \<Rightarrow> u8 \<Rightarrow> bool \<Rightarrow> sf_state \<Rightarrow> int \<times> sf_state" where
  "f32_to_i64 a roundingMode exact s =
     (let uiA = ucast a;
          sign = signF32UI uiA;
          exp = expF32UI uiA;
          sig = fracF32UI uiA;
          shiftDist = 0xBE - exp
      in if shiftDist < 0 then
           (if exp = 0xFF \<and> sig \<noteq> 0 then 0x7FFFFFFFFFFFFFFF
               else if sign then - 0x8000000000000000 else 0x7FFFFFFFFFFFFFFF,
            softfloat_raiseFlags softfloat_flag_invalid s)
         else
           let sig = (if exp \<noteq> 0 then sig OR 0x00800000 else sig);
               sig64 = push_bit 40 sig;
               (sig64, extra) =
                 (if shiftDist \<noteq> 0 then
                    let sig64Extra = softfloat_shiftRightJam64Extra sig64 0 (of_int shiftDist)
                    in (ue_v sig64Extra, ue_extra sig64Extra)
                  else (sig64, 0))
           in softfloat_roundToI64 sign sig64 extra roundingMode exact s)"

definition f32_to_ui64 :: "float32_t \<Rightarrow> u8 \<Rightarrow> bool \<Rightarrow> sf_state \<Rightarrow> u64 \<times> sf_state" where
  "f32_to_ui64 a roundingMode exact s =
     (let uiA = ucast a;
          sign = signF32UI uiA;
          exp = expF32UI uiA;
          sig = fracF32UI uiA;
          shiftDist = 0xBE - exp
      in if shiftDist < 0 then
           (if exp = 0xFF \<and> sig \<noteq> 0 then 0xFFFFFFFFFFFFFFFF
               else if sign then 0 else 0xFFFFFFFFFFFFFFFF,
            softfloat_raiseFlags softfloat_flag_invalid s)
         else
           let sig = (if exp \<noteq> 0 then sig OR 0x00800000 else sig);
               sig64 = push_bit 40 sig;
               (sig64, extra) =
                 (if shiftDist \<noteq> 0 then
                    let sig64Extra = softfloat_shiftRightJam64Extra sig64 0 (of_int shiftDist)
                    in (ue_v sig64Extra, ue_extra sig64Extra)
                  else (sig64, 0))
           in softfloat_roundToUI64 sign sig64 extra roundingMode exact s)"

definition f32_to_i16 :: "float32_t \<Rightarrow> u8 \<Rightarrow> bool \<Rightarrow> sf_state \<Rightarrow> int \<times> sf_state" where
  "f32_to_i16 a roundingMode exact s =
     (let old_flags = softfloat_exceptionFlags s;
          (sig32, s) = f32_to_i32 a roundingMode exact s
      in if sig32 > 32767 then (0x7FFF, s\<lparr>softfloat_exceptionFlags := old_flags OR softfloat_flag_invalid\<rparr>)
         else if sig32 < - 32768 then (- 0x7FFF - 1, s\<lparr>softfloat_exceptionFlags := old_flags OR softfloat_flag_invalid\<rparr>)
         else (sig32, s))"

definition f32_to_ui16 :: "float32_t \<Rightarrow> u8 \<Rightarrow> bool \<Rightarrow> sf_state \<Rightarrow> u64 \<times> sf_state" where
  "f32_to_ui16 a roundingMode exact s =
     (let old_flags = softfloat_exceptionFlags s;
          (sig32, s) = f32_to_ui32 a roundingMode exact s
      in if sig32 > 65535 then (0xFFFF, s\<lparr>softfloat_exceptionFlags := old_flags OR softfloat_flag_invalid\<rparr>)
         else (sig32, s))"

definition f32_to_i32_r_minMag :: "float32_t \<Rightarrow> bool \<Rightarrow> sf_state \<Rightarrow> int \<times> sf_state" where
  "f32_to_i32_r_minMag a exact s =
     (let uiA = ucast a;
          exp = expF32UI uiA;
          sig = fracF32UI uiA;
          shiftDist = 0x9E - exp
      in if 32 \<le> shiftDist then
           (0, if exact \<and> of_int exp OR sig \<noteq> 0 then softfloat_raiseFlags softfloat_flag_inexact s else s)
         else
           let sign = signF32UI uiA
           in if shiftDist \<le> 0 then
                if uiA = packToF32UI True 0x9E 0 then (- 0x7FFFFFFF - 1, s)
                else
                  (if exp = 0xFF \<and> sig \<noteq> 0 then 0x7FFFFFFF
               else if sign then - 0x80000000 else 0x7FFFFFFF,
            softfloat_raiseFlags softfloat_flag_invalid s)
              else
                let sig = push_bit 8 (sig OR 0x00800000);
                    absZ = drop_bit (nat shiftDist) sig
                in (if sign then - sint absZ else sint absZ,
                    if exact \<and> push_bit (nat shiftDist) absZ \<noteq> sig then softfloat_raiseFlags softfloat_flag_inexact s else s))"

definition f32_to_ui32_r_minMag :: "float32_t \<Rightarrow> bool \<Rightarrow> sf_state \<Rightarrow> u64 \<times> sf_state" where
  "f32_to_ui32_r_minMag a exact s =
     (let uiA = ucast a;
          exp = expF32UI uiA;
          sig = fracF32UI uiA;
          shiftDist = 0x9E - exp
      in if 32 \<le> shiftDist then
           (0, if exact \<and> of_int exp OR sig \<noteq> 0 then softfloat_raiseFlags softfloat_flag_inexact s else s)
         else
           let sign = signF32UI uiA
           in if sign \<or> shiftDist < 0 then
                (if exp = 0xFF \<and> sig \<noteq> 0 then 0xFFFFFFFF
               else if sign then 0 else 0xFFFFFFFF,
            softfloat_raiseFlags softfloat_flag_invalid s)
              else
                let sig = push_bit 8 (sig OR 0x00800000);
                    z = drop_bit (nat shiftDist) sig
                in (z, if exact \<and> push_bit (nat shiftDist) z \<noteq> sig then softfloat_raiseFlags softfloat_flag_inexact s else s))"

definition f32_to_i64_r_minMag :: "float32_t \<Rightarrow> bool \<Rightarrow> sf_state \<Rightarrow> int \<times> sf_state" where
  "f32_to_i64_r_minMag a exact s =
     (let uiA = ucast a;
          exp = expF32UI uiA;
          sig = fracF32UI uiA;
          shiftDist = 0xBE - exp
      in if 64 \<le> shiftDist then
           (0, if exact \<and> of_int exp OR sig \<noteq> 0 then softfloat_raiseFlags softfloat_flag_inexact s else s)
         else
           let sign = signF32UI uiA
           in if shiftDist \<le> 0 then
                if uiA = packToF32UI True 0xBE 0 then (- 0x7FFFFFFFFFFFFFFF - 1, s)
                else
                  (if exp = 0xFF \<and> sig \<noteq> 0 then 0x7FFFFFFFFFFFFFFF
               else if sign then - 0x8000000000000000 else 0x7FFFFFFFFFFFFFFF,
            softfloat_raiseFlags softfloat_flag_invalid s)
              else
                let sig = sig OR 0x00800000;
                    sig64 = push_bit 40 sig;
                    absZ = drop_bit (nat shiftDist) sig64;
                    shiftDist = 40 - shiftDist
                in (if sign then - sint absZ else sint absZ,
                    if exact \<and> shiftDist < 0 \<and> (ucast (push_bit (unat (of_int shiftDist AND 31 :: u64)) sig) :: u32) \<noteq> 0
                    then softfloat_raiseFlags softfloat_flag_inexact s else s))"

definition f32_to_ui64_r_minMag :: "float32_t \<Rightarrow> bool \<Rightarrow> sf_state \<Rightarrow> u64 \<times> sf_state" where
  "f32_to_ui64_r_minMag a exact s =
     (let uiA = ucast a;
          exp = expF32UI uiA;
          sig = fracF32UI uiA;
          shiftDist = 0xBE - exp
      in if 64 \<le> shiftDist then
           (0, if exact \<and> of_int exp OR sig \<noteq> 0 then softfloat_raiseFlags softfloat_flag_inexact s else s)
         else
           let sign = signF32UI uiA
           in if sign \<or> shiftDist < 0 then
                (if exp = 0xFF \<and> sig \<noteq> 0 then 0xFFFFFFFFFFFFFFFF
               else if sign then 0 else 0xFFFFFFFFFFFFFFFF,
            softfloat_raiseFlags softfloat_flag_invalid s)
              else
                let sig = sig OR 0x00800000;
                    sig64 = push_bit 40 sig;
                    z = drop_bit (nat shiftDist) sig64;
                    shiftDist = 40 - shiftDist
                in (z,
                    if exact \<and> shiftDist < 0 \<and> (ucast (push_bit (unat (of_int shiftDist AND 31 :: u64)) sig) :: u32) \<noteq> 0
                    then softfloat_raiseFlags softfloat_flag_inexact s else s))"

section \<open>Double precision to integers\<close>

definition f64_to_i32 :: "float64_t \<Rightarrow> u8 \<Rightarrow> bool \<Rightarrow> sf_state \<Rightarrow> int \<times> sf_state" where
  "f64_to_i32 a roundingMode exact s =
     (let uiA = a;
          sign = signF64UI uiA;
          exp = expF64UI uiA;
          sig = fracF64UI uiA;
          sign = (if exp = 0x7FF \<and> sig \<noteq> 0 then False else sign);
          sig = (if exp \<noteq> 0 then sig OR 0x0010000000000000 else sig);
          shiftDist = 0x427 - exp;
          sig = (if 0 < shiftDist then softfloat_shiftRightJam64 sig (of_int shiftDist) else sig)
      in softfloat_roundToI32 sign sig roundingMode exact s)"

definition f64_to_ui32 :: "float64_t \<Rightarrow> u8 \<Rightarrow> bool \<Rightarrow> sf_state \<Rightarrow> u64 \<times> sf_state" where
  "f64_to_ui32 a roundingMode exact s =
     (let uiA = a;
          sign = signF64UI uiA;
          exp = expF64UI uiA;
          sig = fracF64UI uiA;
          sign = (if exp = 0x7FF \<and> sig \<noteq> 0 then False else sign);
          sig = (if exp \<noteq> 0 then sig OR 0x0010000000000000 else sig);
          shiftDist = 0x427 - exp;
          sig = (if 0 < shiftDist then softfloat_shiftRightJam64 sig (of_int shiftDist) else sig)
      in softfloat_roundToUI32 sign sig roundingMode exact s)"

definition f64_to_i64 :: "float64_t \<Rightarrow> u8 \<Rightarrow> bool \<Rightarrow> sf_state \<Rightarrow> int \<times> sf_state" where
  "f64_to_i64 a roundingMode exact s =
     (let uiA = a;
          sign = signF64UI uiA;
          exp = expF64UI uiA;
          sig = fracF64UI uiA;
          sig = (if exp \<noteq> 0 then sig OR 0x0010000000000000 else sig);
          shiftDist = 0x433 - exp
      in if shiftDist < -11 then
           (if exp = 0x7FF \<and> fracF64UI uiA \<noteq> 0 then 0x7FFFFFFFFFFFFFFF
               else if sign then - 0x8000000000000000 else 0x7FFFFFFFFFFFFFFF,
            softfloat_raiseFlags softfloat_flag_invalid s)
         else
           let sigExtra =
                 (if shiftDist \<le> 0 then \<lparr> ue_v = push_bit (nat (- shiftDist)) sig, ue_extra = 0 \<rparr>
                  else softfloat_shiftRightJam64Extra sig 0 (of_int shiftDist))
           in softfloat_roundToI64 sign (ue_v sigExtra) (ue_extra sigExtra) roundingMode exact s)"

definition f64_to_ui64 :: "float64_t \<Rightarrow> u8 \<Rightarrow> bool \<Rightarrow> sf_state \<Rightarrow> u64 \<times> sf_state" where
  "f64_to_ui64 a roundingMode exact s =
     (let uiA = a;
          sign = signF64UI uiA;
          exp = expF64UI uiA;
          sig = fracF64UI uiA;
          sig = (if exp \<noteq> 0 then sig OR 0x0010000000000000 else sig);
          shiftDist = 0x433 - exp
      in if shiftDist < -11 then
           (if exp = 0x7FF \<and> fracF64UI uiA \<noteq> 0 then 0xFFFFFFFFFFFFFFFF
               else if sign then 0 else 0xFFFFFFFFFFFFFFFF,
            softfloat_raiseFlags softfloat_flag_invalid s)
         else
           let sigExtra =
                 (if shiftDist \<le> 0 then \<lparr> ue_v = push_bit (nat (- shiftDist)) sig, ue_extra = 0 \<rparr>
                  else softfloat_shiftRightJam64Extra sig 0 (of_int shiftDist))
           in softfloat_roundToUI64 sign (ue_v sigExtra) (ue_extra sigExtra) roundingMode exact s)"

definition f64_to_i32_r_minMag :: "float64_t \<Rightarrow> bool \<Rightarrow> sf_state \<Rightarrow> int \<times> sf_state" where
  "f64_to_i32_r_minMag a exact s =
     (let uiA = a;
          exp = expF64UI uiA;
          sig = fracF64UI uiA;
          shiftDist = 0x433 - exp
      in if 53 \<le> shiftDist then
           (0, if exact \<and> of_int exp OR sig \<noteq> 0 then softfloat_raiseFlags softfloat_flag_inexact s else s)
         else
           let sign = signF64UI uiA
           in if shiftDist < 22 then
                if sign \<and> exp = 0x41E \<and> sig < 0x0000000000200000 then
                  (- 0x7FFFFFFF - 1, if exact \<and> sig \<noteq> 0 then softfloat_raiseFlags softfloat_flag_inexact s else s)
                else
                  (if exp = 0x7FF \<and> sig \<noteq> 0 then 0x7FFFFFFF
               else if sign then - 0x80000000 else 0x7FFFFFFF,
            softfloat_raiseFlags softfloat_flag_invalid s)
              else
                let sig = sig OR 0x0010000000000000;
                    absZ = drop_bit (nat shiftDist) sig
                in (if sign then - sint absZ else sint absZ,
                    if exact \<and> push_bit (nat shiftDist) absZ \<noteq> sig then softfloat_raiseFlags softfloat_flag_inexact s else s))"

definition f64_to_ui32_r_minMag :: "float64_t \<Rightarrow> bool \<Rightarrow> sf_state \<Rightarrow> u64 \<times> sf_state" where
  "f64_to_ui32_r_minMag a exact s =
     (let uiA = a;
          exp = expF64UI uiA;
          sig = fracF64UI uiA;
          shiftDist = 0x433 - exp
      in if 53 \<le> shiftDist then
           (0, if exact \<and> of_int exp OR sig \<noteq> 0 then softfloat_raiseFlags softfloat_flag_inexact s else s)
         else
           let sign = signF64UI uiA
           in if sign \<or> shiftDist < 21 then
                (if exp = 0x7FF \<and> sig \<noteq> 0 then 0xFFFFFFFF
               else if sign then 0 else 0xFFFFFFFF,
            softfloat_raiseFlags softfloat_flag_invalid s)
              else
                let sig = sig OR 0x0010000000000000;
                    z = drop_bit (nat shiftDist) sig
                in (z, if exact \<and> push_bit (nat shiftDist) z \<noteq> sig then softfloat_raiseFlags softfloat_flag_inexact s else s))"

definition f64_to_i64_r_minMag :: "float64_t \<Rightarrow> bool \<Rightarrow> sf_state \<Rightarrow> int \<times> sf_state" where
  "f64_to_i64_r_minMag a exact s =
     (let uiA = a;
          sign = signF64UI uiA;
          exp = expF64UI uiA;
          sig = fracF64UI uiA;
          shiftDist = 0x433 - exp
      in if shiftDist \<le> 0 then
           if shiftDist < -10 then
             if uiA = packToF64UI True 0x43E 0 then (- 0x7FFFFFFFFFFFFFFF - 1, s)
             else
               (if exp = 0x7FF \<and> sig \<noteq> 0 then 0x7FFFFFFFFFFFFFFF
               else if sign then - 0x8000000000000000 else 0x7FFFFFFFFFFFFFFF,
            softfloat_raiseFlags softfloat_flag_invalid s)
           else
             let sig = sig OR 0x0010000000000000;
                 absZ = push_bit (nat (- shiftDist)) sig
             in (if sign then - sint absZ else sint absZ, s)
         else if 53 \<le> shiftDist then
           (0, if exact \<and> of_int exp OR sig \<noteq> 0 then softfloat_raiseFlags softfloat_flag_inexact s else s)
         else
           let sig = sig OR 0x0010000000000000;
               absZ = drop_bit (nat shiftDist) sig
           in (if sign then - sint absZ else sint absZ,
               if exact \<and> push_bit (nat shiftDist) absZ \<noteq> sig then softfloat_raiseFlags softfloat_flag_inexact s else s))"

definition f64_to_ui64_r_minMag :: "float64_t \<Rightarrow> bool \<Rightarrow> sf_state \<Rightarrow> u64 \<times> sf_state" where
  "f64_to_ui64_r_minMag a exact s =
     (let uiA = a;
          exp = expF64UI uiA;
          sig = fracF64UI uiA;
          shiftDist = 0x433 - exp
      in if 53 \<le> shiftDist then
           (0, if exact \<and> of_int exp OR sig \<noteq> 0 then softfloat_raiseFlags softfloat_flag_inexact s else s)
         else
           let sign = signF64UI uiA
           in if sign \<or> shiftDist < -11 then
                (if exp = 0x7FF \<and> sig \<noteq> 0 then 0xFFFFFFFFFFFFFFFF
               else if sign then 0 else 0xFFFFFFFFFFFFFFFF,
            softfloat_raiseFlags softfloat_flag_invalid s)
              else if shiftDist \<le> 0 then
                (push_bit (nat (- shiftDist)) (sig OR 0x0010000000000000), s)
              else
                let sig = sig OR 0x0010000000000000;
                    z = drop_bit (nat shiftDist) sig
                in (z, if exact \<and> push_bit (unat (of_int (- shiftDist) AND 63 :: u64)) sig \<noteq> 0 then softfloat_raiseFlags softfloat_flag_inexact s else s))"

section \<open>Half precision to integers\<close>

definition f16_to_i32 :: "float16_t \<Rightarrow> u8 \<Rightarrow> bool \<Rightarrow> sf_state \<Rightarrow> int \<times> sf_state" where
  "f16_to_i32 a roundingMode exact s =
     (let uiA = ucast a;
          sign = signF16UI uiA;
          exp = expF16UI uiA;
          frac = fracF16UI uiA
      in if exp = 0x1F then
           (if exp = 0x1F \<and> frac \<noteq> 0 then 0x7FFFFFFF
               else if sign then - 0x80000000 else 0x7FFFFFFF,
            softfloat_raiseFlags softfloat_flag_invalid s)
         else if exp \<noteq> 0 then
           let sig32 = frac OR 0x0400;
               shiftDist = exp - 0x19
           in if 0 \<le> shiftDist then
                let sig32 = push_bit (nat shiftDist) sig32
                in (if sign then - sint sig32 else sint sig32, s)
              else
                let shiftDist = exp - 0x0D;
                    sig32 = (if 0 < shiftDist then push_bit (nat shiftDist) sig32 else sig32)
                in softfloat_roundToI32 sign sig32 roundingMode exact s
         else softfloat_roundToI32 sign frac roundingMode exact s)"

definition f16_to_i64 :: "float16_t \<Rightarrow> u8 \<Rightarrow> bool \<Rightarrow> sf_state \<Rightarrow> int \<times> sf_state" where
  "f16_to_i64 a roundingMode exact s =
     (let uiA = ucast a;
          sign = signF16UI uiA;
          exp = expF16UI uiA;
          frac = fracF16UI uiA
      in if exp = 0x1F then
           (if exp = 0x1F \<and> frac \<noteq> 0 then 0x7FFFFFFFFFFFFFFF
               else if sign then - 0x8000000000000000 else 0x7FFFFFFFFFFFFFFF,
            softfloat_raiseFlags softfloat_flag_invalid s)
         else if exp \<noteq> 0 then
           let sig32 = frac OR 0x0400;
               shiftDist = exp - 0x19
           in if 0 \<le> shiftDist then
                let sig32 = push_bit (nat shiftDist) sig32
                in (if sign then - sint sig32 else sint sig32, s)
              else
                let shiftDist = exp - 0x0D;
                    sig32 = (if 0 < shiftDist then push_bit (nat shiftDist) sig32 else sig32)
                in softfloat_roundToI32 sign sig32 roundingMode exact s
         else softfloat_roundToI32 sign frac roundingMode exact s)"

definition f16_to_ui32 :: "float16_t \<Rightarrow> u8 \<Rightarrow> bool \<Rightarrow> sf_state \<Rightarrow> u64 \<times> sf_state" where
  "f16_to_ui32 a roundingMode exact s =
     (let uiA = ucast a;
          sign = signF16UI uiA;
          exp = expF16UI uiA;
          frac = fracF16UI uiA
      in if exp = 0x1F then
           (if exp = 0x1F \<and> frac \<noteq> 0 then 0xFFFFFFFF
               else if sign then 0 else 0xFFFFFFFF,
            softfloat_raiseFlags softfloat_flag_invalid s)
         else if exp \<noteq> 0 then
           let sig32 = frac OR 0x0400;
               shiftDist = exp - 0x19
           in if 0 \<le> shiftDist \<and> \<not> sign then (push_bit (nat shiftDist) sig32, s)
              else
                let shiftDist = exp - 0x0D;
                    sig32 = (if 0 < shiftDist then push_bit (nat shiftDist) sig32 else sig32)
                in softfloat_roundToUI32 sign sig32 roundingMode exact s
         else softfloat_roundToUI32 sign frac roundingMode exact s)"

definition f16_to_ui64 :: "float16_t \<Rightarrow> u8 \<Rightarrow> bool \<Rightarrow> sf_state \<Rightarrow> u64 \<times> sf_state" where
  "f16_to_ui64 a roundingMode exact s =
     (let uiA = ucast a;
          sign = signF16UI uiA;
          exp = expF16UI uiA;
          frac = fracF16UI uiA
      in if exp = 0x1F then
           (if exp = 0x1F \<and> frac \<noteq> 0 then 0xFFFFFFFFFFFFFFFF
               else if sign then 0 else 0xFFFFFFFFFFFFFFFF,
            softfloat_raiseFlags softfloat_flag_invalid s)
         else if exp \<noteq> 0 then
           let sig32 = frac OR 0x0400;
               shiftDist = exp - 0x19
           in if 0 \<le> shiftDist \<and> \<not> sign then (push_bit (nat shiftDist) sig32, s)
              else
                let shiftDist = exp - 0x0D;
                    sig32 = (if 0 < shiftDist then push_bit (nat shiftDist) sig32 else sig32)
                in softfloat_roundToUI32 sign sig32 roundingMode exact s
         else softfloat_roundToUI32 sign frac roundingMode exact s)"

definition f16_to_i8 :: "float16_t \<Rightarrow> u8 \<Rightarrow> bool \<Rightarrow> sf_state \<Rightarrow> int \<times> sf_state" where
  "f16_to_i8 a roundingMode exact s =
     (let old_flags = softfloat_exceptionFlags s;
          (sig32, s) = f16_to_i32 a roundingMode exact s
      in if sig32 > 127 then (0x7F, s\<lparr>softfloat_exceptionFlags := old_flags OR softfloat_flag_invalid\<rparr>)
         else if sig32 < - 128 then (- 0x7F - 1, s\<lparr>softfloat_exceptionFlags := old_flags OR softfloat_flag_invalid\<rparr>)
         else (sig32, s))"

definition f16_to_ui8 :: "float16_t \<Rightarrow> u8 \<Rightarrow> bool \<Rightarrow> sf_state \<Rightarrow> u64 \<times> sf_state" where
  "f16_to_ui8 a roundingMode exact s =
     (let old_flags = softfloat_exceptionFlags s;
          (sig32, s) = f16_to_ui32 a roundingMode exact s
      in if sig32 > 255 then (0xFF, s\<lparr>softfloat_exceptionFlags := old_flags OR softfloat_flag_invalid\<rparr>)
         else (sig32, s))"

definition f16_to_i16 :: "float16_t \<Rightarrow> u8 \<Rightarrow> bool \<Rightarrow> sf_state \<Rightarrow> int \<times> sf_state" where
  "f16_to_i16 a roundingMode exact s =
     (let old_flags = softfloat_exceptionFlags s;
          (sig32, s) = f16_to_i32 a roundingMode exact s
      in if sig32 > 32767 then (0x7FFF, s\<lparr>softfloat_exceptionFlags := old_flags OR softfloat_flag_invalid\<rparr>)
         else if sig32 < - 32768 then (- 0x7FFF - 1, s\<lparr>softfloat_exceptionFlags := old_flags OR softfloat_flag_invalid\<rparr>)
         else (sig32, s))"

definition f16_to_ui16 :: "float16_t \<Rightarrow> u8 \<Rightarrow> bool \<Rightarrow> sf_state \<Rightarrow> u64 \<times> sf_state" where
  "f16_to_ui16 a roundingMode exact s =
     (let old_flags = softfloat_exceptionFlags s;
          (sig32, s) = f16_to_ui32 a roundingMode exact s
      in if sig32 > 65535 then (0xFFFF, s\<lparr>softfloat_exceptionFlags := old_flags OR softfloat_flag_invalid\<rparr>)
         else (sig32, s))"

definition f16_to_i32_r_minMag :: "float16_t \<Rightarrow> bool \<Rightarrow> sf_state \<Rightarrow> int \<times> sf_state" where
  "f16_to_i32_r_minMag a exact s =
     (let uiA = ucast a;
          exp = expF16UI uiA;
          frac = fracF16UI uiA;
          shiftDist = exp - 0x0F
      in if shiftDist < 0 then
           (0, if exact \<and> of_int exp OR frac \<noteq> 0 then softfloat_raiseFlags softfloat_flag_inexact s else s)
         else
           let sign = signF16UI uiA
           in if exp = 0x1F then
                (if exp = 0x1F \<and> frac \<noteq> 0 then 0x7FFFFFFF
               else if sign then - 0x80000000 else 0x7FFFFFFF,
            softfloat_raiseFlags softfloat_flag_invalid s)
              else
                let alignedSig = push_bit (nat shiftDist) (frac OR 0x0400);
                    s = (if exact \<and> alignedSig AND 0x3FF \<noteq> 0 then softfloat_raiseFlags softfloat_flag_inexact s else s);
                    alignedSig = drop_bit 10 alignedSig
                in (if sign then - sint alignedSig else sint alignedSig, s))"

definition f16_to_i64_r_minMag :: "float16_t \<Rightarrow> bool \<Rightarrow> sf_state \<Rightarrow> int \<times> sf_state" where
  "f16_to_i64_r_minMag a exact s =
     (let uiA = ucast a;
          exp = expF16UI uiA;
          frac = fracF16UI uiA;
          shiftDist = exp - 0x0F
      in if shiftDist < 0 then
           (0, if exact \<and> of_int exp OR frac \<noteq> 0 then softfloat_raiseFlags softfloat_flag_inexact s else s)
         else
           let sign = signF16UI uiA
           in if exp = 0x1F then
                (if exp = 0x1F \<and> frac \<noteq> 0 then 0x7FFFFFFFFFFFFFFF
               else if sign then - 0x8000000000000000 else 0x7FFFFFFFFFFFFFFF,
            softfloat_raiseFlags softfloat_flag_invalid s)
              else
                let alignedSig = push_bit (nat shiftDist) (frac OR 0x0400);
                    s = (if exact \<and> alignedSig AND 0x3FF \<noteq> 0 then softfloat_raiseFlags softfloat_flag_inexact s else s);
                    alignedSig = drop_bit 10 alignedSig
                in (if sign then - sint alignedSig else sint alignedSig, s))"

definition f16_to_ui32_r_minMag :: "float16_t \<Rightarrow> bool \<Rightarrow> sf_state \<Rightarrow> u64 \<times> sf_state" where
  "f16_to_ui32_r_minMag a exact s =
     (let uiA = ucast a;
          exp = expF16UI uiA;
          frac = fracF16UI uiA;
          shiftDist = exp - 0x0F
      in if shiftDist < 0 then
           (0, if exact \<and> of_int exp OR frac \<noteq> 0 then softfloat_raiseFlags softfloat_flag_inexact s else s)
         else
           let sign = signF16UI uiA
           in if sign \<or> exp = 0x1F then
                (if exp = 0x1F \<and> frac \<noteq> 0 then 0xFFFFFFFF
               else if sign then 0 else 0xFFFFFFFF,
            softfloat_raiseFlags softfloat_flag_invalid s)
              else
                let alignedSig = push_bit (nat shiftDist) (frac OR 0x0400)
                in (drop_bit 10 alignedSig, if exact \<and> alignedSig AND 0x3FF \<noteq> 0 then softfloat_raiseFlags softfloat_flag_inexact s else s))"

definition f16_to_ui64_r_minMag :: "float16_t \<Rightarrow> bool \<Rightarrow> sf_state \<Rightarrow> u64 \<times> sf_state" where
  "f16_to_ui64_r_minMag a exact s =
     (let uiA = ucast a;
          exp = expF16UI uiA;
          frac = fracF16UI uiA;
          shiftDist = exp - 0x0F
      in if shiftDist < 0 then
           (0, if exact \<and> of_int exp OR frac \<noteq> 0 then softfloat_raiseFlags softfloat_flag_inexact s else s)
         else
           let sign = signF16UI uiA
           in if sign \<or> exp = 0x1F then
                (if exp = 0x1F \<and> frac \<noteq> 0 then 0xFFFFFFFFFFFFFFFF
               else if sign then 0 else 0xFFFFFFFFFFFFFFFF,
            softfloat_raiseFlags softfloat_flag_invalid s)
              else
                let alignedSig = push_bit (nat shiftDist) (frac OR 0x0400)
                in (drop_bit 10 alignedSig, if exact \<and> alignedSig AND 0x3FF \<noteq> 0 then softfloat_raiseFlags softfloat_flag_inexact s else s))"

section \<open>Integers to floating point\<close>

text \<open>
  A signed operand is the word that holds it. \<open>-(uint_fast32_t) a\<close> negates after sign extension to
  64 bits.
\<close>

definition i32_to_f32 :: "u32 \<Rightarrow> sf_state \<Rightarrow> float32_t \<times> sf_state" where
  "i32_to_f32 a s =
     (let sign = sint a < 0
      in if a AND 0x7FFFFFFF = 0 then (if sign then ucast (packToF32UI True 0x9E 0) else 0, s)
         else
           let absA = (if sign then - scast a else scast a) :: u64
           in softfloat_normRoundPackToF32 sign 0x9C absA s)"

definition ui32_to_f32 :: "u32 \<Rightarrow> sf_state \<Rightarrow> float32_t \<times> sf_state" where
  "ui32_to_f32 a s =
     (if a = 0 then (0, s)
      else if a AND 0x80000000 \<noteq> 0 then softfloat_roundPackToF32 False 0x9D (ucast (drop_bit 1 a OR (a AND 1))) s
      else softfloat_normRoundPackToF32 False 0x9C (ucast a) s)"

definition i64_to_f32 :: "u64 \<Rightarrow> sf_state \<Rightarrow> float32_t \<times> sf_state" where
  "i64_to_f32 a s =
     (let sign = sint a < 0;
          absA = (if sign then - a else a);
          shiftDist = int (softfloat_countLeadingZeros64 absA) - 40
      in if 0 \<le> shiftDist then
           (if a \<noteq> 0 then ucast (packToF32UI sign (0x95 - shiftDist) (push_bit (nat shiftDist) absA)) else 0, s)
         else
           let shiftDist = shiftDist + 7;
               sig = (if shiftDist < 0 then softfloat_shortShiftRightJam64 absA (nat (- shiftDist))
                      else push_bit (nat shiftDist) absA)
           in softfloat_roundPackToF32 sign (0x9C - shiftDist) sig s)"

definition ui64_to_f32 :: "u64 \<Rightarrow> sf_state \<Rightarrow> float32_t \<times> sf_state" where
  "ui64_to_f32 a s =
     (let shiftDist = int (softfloat_countLeadingZeros64 a) - 40
      in if 0 \<le> shiftDist then
           (if a \<noteq> 0 then ucast (packToF32UI False (0x95 - shiftDist) (push_bit (nat shiftDist) a)) else 0, s)
         else
           let shiftDist = shiftDist + 7;
               sig = (if shiftDist < 0 then softfloat_shortShiftRightJam64 a (nat (- shiftDist))
                      else push_bit (nat shiftDist) a)
           in softfloat_roundPackToF32 False (0x9C - shiftDist) sig s)"

definition i32_to_f64 :: "u32 \<Rightarrow> float64_t" where
  "i32_to_f64 a =
     (if a = 0 then 0
      else
        let sign = sint a < 0;
            absA = (if sign then - scast a else scast a) :: u64;
            shiftDist = int (softfloat_countLeadingZeros32 (ucast absA)) + 21
        in packToF64UI sign (0x432 - shiftDist) (push_bit (nat shiftDist) absA))"

definition ui32_to_f64 :: "u32 \<Rightarrow> float64_t" where
  "ui32_to_f64 a =
     (if a = 0 then 0
      else
        let shiftDist = int (softfloat_countLeadingZeros32 a) + 21
        in packToF64UI False (0x432 - shiftDist) (push_bit (nat shiftDist) (ucast a)))"

definition i64_to_f64 :: "u64 \<Rightarrow> sf_state \<Rightarrow> float64_t \<times> sf_state" where
  "i64_to_f64 a s =
     (let sign = sint a < 0
      in if a AND 0x7FFFFFFFFFFFFFFF = 0 then (if sign then packToF64UI True 0x43E 0 else 0, s)
         else
           let absA = (if sign then - a else a)
           in softfloat_normRoundPackToF64 sign 0x43C absA s)"

definition ui64_to_f64 :: "u64 \<Rightarrow> sf_state \<Rightarrow> float64_t \<times> sf_state" where
  "ui64_to_f64 a s =
     (if a = 0 then (0, s)
      else if a AND 0x8000000000000000 \<noteq> 0 then
        softfloat_roundPackToF64 False 0x43D (softfloat_shortShiftRightJam64 a 1) s
      else softfloat_normRoundPackToF64 False 0x43C a s)"

definition i32_to_f16 :: "u32 \<Rightarrow> sf_state \<Rightarrow> float16_t \<times> sf_state" where
  "i32_to_f16 a s =
     (let sign = sint a < 0;
          absA = (if sign then - scast a else scast a) :: u64;
          shiftDist = int (softfloat_countLeadingZeros32 (ucast absA)) - 21
      in if 0 \<le> shiftDist then
           (if a \<noteq> 0 then ucast (packToF16UI sign (0x18 - shiftDist) (push_bit (nat shiftDist) absA)) else 0, s)
         else
           let shiftDist = shiftDist + 4;
               sig = (if shiftDist < 0
                      then drop_bit (nat (- shiftDist)) absA
                        OR of_bool ((ucast (push_bit (unat (of_int shiftDist AND 31 :: u64)) absA) :: u32) \<noteq> 0)
                      else push_bit (nat shiftDist) absA)
           in softfloat_roundPackToF16 sign (0x1C - shiftDist) sig s)"

definition ui32_to_f16 :: "u32 \<Rightarrow> sf_state \<Rightarrow> float16_t \<times> sf_state" where
  "ui32_to_f16 a s =
     (let shiftDist = int (softfloat_countLeadingZeros32 a) - 21
      in if 0 \<le> shiftDist then
           (if a \<noteq> 0 then ucast (packToF16UI False (0x18 - shiftDist) (push_bit (nat shiftDist) (ucast a))) else 0, s)
         else
           let shiftDist = shiftDist + 4;
               sig = (if shiftDist < 0
                      then ucast (drop_bit (nat (- shiftDist)) a
                        OR of_bool (push_bit (unat (of_int shiftDist AND 31 :: u64)) a \<noteq> 0))
                      else push_bit (nat shiftDist) (ucast a))
           in softfloat_roundPackToF16 False (0x1C - shiftDist) sig s)"

definition i64_to_f16 :: "u64 \<Rightarrow> sf_state \<Rightarrow> float16_t \<times> sf_state" where
  "i64_to_f16 a s =
     (let sign = sint a < 0;
          absA = (if sign then - a else a);
          shiftDist = int (softfloat_countLeadingZeros64 absA) - 53
      in if 0 \<le> shiftDist then
           (if a \<noteq> 0 then ucast (packToF16UI sign (0x18 - shiftDist) (push_bit (nat shiftDist) absA)) else 0, s)
         else
           let shiftDist = shiftDist + 4;
               sig = (if shiftDist < 0 then softfloat_shortShiftRightJam64 absA (nat (- shiftDist))
                      else push_bit (nat shiftDist) absA)
           in softfloat_roundPackToF16 sign (0x1C - shiftDist) sig s)"

definition ui64_to_f16 :: "u64 \<Rightarrow> sf_state \<Rightarrow> float16_t \<times> sf_state" where
  "ui64_to_f16 a s =
     (let shiftDist = int (softfloat_countLeadingZeros64 a) - 53
      in if 0 \<le> shiftDist then
           (if a \<noteq> 0 then ucast (packToF16UI False (0x18 - shiftDist) (push_bit (nat shiftDist) a)) else 0, s)
         else
           let shiftDist = shiftDist + 4;
               sig = (if shiftDist < 0 then softfloat_shortShiftRightJam64 a (nat (- shiftDist))
                      else push_bit (nat shiftDist) a)
           in softfloat_roundPackToF16 False (0x1C - shiftDist) sig s)"

section \<open>Between the formats\<close>

definition f32_to_f64 :: "float32_t \<Rightarrow> sf_state \<Rightarrow> float64_t \<times> sf_state" where
  "f32_to_f64 a s =
     (let uiA = ucast a;
          sign = signF32UI uiA;
          exp = expF32UI uiA;
          frac = fracF32UI uiA
      in if exp = 0xFF then
           if frac \<noteq> 0 then (softfloat_commonNaNToF64UI, softfloat_f32UIToCommonNaN uiA s)
           else (packToF64UI sign 0x7FF 0, s)
         else if exp = 0 \<and> frac = 0 then (packToF64UI sign 0 0, s)
         else
           let (exp, frac) =
                 (if exp = 0 then
                    let normExpSig = softfloat_normSubnormalF32Sig frac in (es_exp normExpSig - 1, es_sig normExpSig)
                  else (exp, frac))
           in (packToF64UI sign (exp + 0x380) (push_bit 29 frac), s))"

definition f16_to_f32 :: "float16_t \<Rightarrow> sf_state \<Rightarrow> float32_t \<times> sf_state" where
  "f16_to_f32 a s =
     (let uiA = ucast a;
          sign = signF16UI uiA;
          exp = expF16UI uiA;
          frac = fracF16UI uiA
      in if exp = 0x1F then
           if frac \<noteq> 0 then (ucast softfloat_commonNaNToF32UI, softfloat_f16UIToCommonNaN uiA s)
           else (ucast (packToF32UI sign 0xFF 0), s)
         else if exp = 0 \<and> frac = 0 then (ucast (packToF32UI sign 0 0), s)
         else
           let (exp, frac) =
                 (if exp = 0 then
                    let normExpSig = softfloat_normSubnormalF16Sig frac in (es_exp normExpSig - 1, es_sig normExpSig)
                  else (exp, frac))
           in (ucast (packToF32UI sign (exp + 0x70) (push_bit 13 frac)), s))"

definition f16_to_f64 :: "float16_t \<Rightarrow> sf_state \<Rightarrow> float64_t \<times> sf_state" where
  "f16_to_f64 a s =
     (let uiA = ucast a;
          sign = signF16UI uiA;
          exp = expF16UI uiA;
          frac = fracF16UI uiA
      in if exp = 0x1F then
           if frac \<noteq> 0 then (softfloat_commonNaNToF64UI, softfloat_f16UIToCommonNaN uiA s)
           else (packToF64UI sign 0x7FF 0, s)
         else if exp = 0 \<and> frac = 0 then (packToF64UI sign 0 0, s)
         else
           let (exp, frac) =
                 (if exp = 0 then
                    let normExpSig = softfloat_normSubnormalF16Sig frac in (es_exp normExpSig - 1, es_sig normExpSig)
                  else (exp, frac))
           in (packToF64UI sign (exp + 0x3F0) (push_bit 42 frac), s))"

definition f32_to_f16 :: "float32_t \<Rightarrow> sf_state \<Rightarrow> float16_t \<times> sf_state" where
  "f32_to_f16 a s =
     (let uiA = ucast a;
          sign = signF32UI uiA;
          exp = expF32UI uiA;
          frac = fracF32UI uiA
      in if exp = 0xFF then
           if frac \<noteq> 0 then (ucast softfloat_commonNaNToF16UI, softfloat_f32UIToCommonNaN uiA s)
           else (ucast (packToF16UI sign 0x1F 0), s)
         else
           let frac16 = drop_bit 9 frac OR of_bool (frac AND 0x1FF \<noteq> 0)
           in if of_int exp OR frac16 = 0 then (ucast (packToF16UI sign 0 0), s)
              else softfloat_roundPackToF16 sign (exp - 0x71) (frac16 OR 0x4000) s)"

definition f64_to_f32 :: "float64_t \<Rightarrow> sf_state \<Rightarrow> float32_t \<times> sf_state" where
  "f64_to_f32 a s =
     (let uiA = a;
          sign = signF64UI uiA;
          exp = expF64UI uiA;
          frac = fracF64UI uiA
      in if exp = 0x7FF then
           if frac \<noteq> 0 then (ucast softfloat_commonNaNToF32UI, softfloat_f64UIToCommonNaN uiA s)
           else (ucast (packToF32UI sign 0xFF 0), s)
         else
           let frac32 = softfloat_shortShiftRightJam64 frac 22
           in if of_int exp OR frac32 = 0 then (ucast (packToF32UI sign 0 0), s)
              else softfloat_roundPackToF32 sign (exp - 0x381) (frac32 OR 0x40000000) s)"

definition f64_to_f16 :: "float64_t \<Rightarrow> sf_state \<Rightarrow> float16_t \<times> sf_state" where
  "f64_to_f16 a s =
     (let uiA = a;
          sign = signF64UI uiA;
          exp = expF64UI uiA;
          frac = fracF64UI uiA
      in if exp = 0x7FF then
           if frac \<noteq> 0 then (ucast softfloat_commonNaNToF16UI, softfloat_f64UIToCommonNaN uiA s)
           else (ucast (packToF16UI sign 0x1F 0), s)
         else
           let frac16 = softfloat_shortShiftRightJam64 frac 38
           in if of_int exp OR frac16 = 0 then (ucast (packToF16UI sign 0 0), s)
              else softfloat_roundPackToF16 sign (exp - 0x3F1) (frac16 OR 0x4000) s)"

definition bf16_to_f32 :: "float16_t \<Rightarrow> sf_state \<Rightarrow> float32_t \<times> sf_state" where
  "bf16_to_f32 a s =
     (let uiA = ucast a;
          sign = signBF16UI uiA;
          exp = expBF16UI uiA;
          frac = fracBF16UI uiA
      in if exp = 0xFF then
           if frac \<noteq> 0 then (ucast softfloat_commonNaNToF32UI, softfloat_bf16UIToCommonNaN uiA s)
           else (ucast (packToF32UI sign 0xFF 0), s)
         else (ucast (packToF32UI sign exp (push_bit 16 frac)), s))"

definition f32_to_bf16 :: "float32_t \<Rightarrow> sf_state \<Rightarrow> float16_t \<times> sf_state" where
  "f32_to_bf16 a s =
     (let uiA = ucast a;
          sign = signF32UI uiA;
          exp = expF32UI uiA;
          frac = fracF32UI uiA
      in if exp = 0xFF then
           if frac \<noteq> 0 then (ucast softfloat_commonNaNToBF16UI, softfloat_f32UIToCommonNaN uiA s)
           else (ucast (packToBF16UI sign 0xFF 0), s)
         else if of_int exp OR frac = 0 then (ucast (packToBF16UI sign 0 0), s)
         else
           let (exp, frac) =
                 (if exp = 0 then
                    let normExpSig = softfloat_normSubnormalF32Sig frac in (es_exp normExpSig, es_sig normExpSig)
                  else (exp, frac));
               frac16 = drop_bit 9 frac OR of_bool (frac AND 0x1FF \<noteq> 0)
           in softfloat_roundPackToBF16 sign (exp - 1) (frac16 OR 0x4000) s)"

end
