(* ===== verification/SF_ToInt.thy ===== *)
theory SF_ToInt
  imports SF_Align SF_Convert
begin

text \<open>
  Conversions of single and double precision numbers to 32-bit integers: \<open>softfloat_roundToI32\<close> and
  \<open>softfloat_roundToUI32\<close> round a fixed-point magnitude, and the conversions give the rounded value, or the bound
  with the invalid flag.
\<close>

section \<open>Rounding to an integer\<close>

text \<open>
  The result of converting the number with magnitude \<open>X\<close> and the given sign to an integer between
  \<open>lo\<close> and \<open>hi\<close>: the rounded value, or the bound on that side with the invalid flag.
\<close>

definition to_int_result :: "int \<Rightarrow> int \<Rightarrow> u8 \<Rightarrow> bool \<Rightarrow> bool \<Rightarrow> real \<Rightarrow> sf_state \<Rightarrow> int \<times> sf_state" where
  "to_int_result lo hi rm exact sign X s =
     (let z = (if sign then - rnd rm sign X else rnd rm sign X)
      in if lo \<le> z \<and> z \<le> hi
         then (z, if exact \<and> of_int (rnd rm sign X) \<noteq> X then softfloat_raiseFlags softfloat_flag_inexact s else s)
         else (if sign then lo else hi, softfloat_raiseFlags softfloat_flag_invalid s))"

lemma sint_cases: "sint (w :: 'a::len word) = (if uint w < 2 ^ (LENGTH('a) - 1) then uint w else uint w - 2 ^ LENGTH('a))"
proof -
  have L: "(2::int) ^ LENGTH('a) = 2 * 2 ^ (LENGTH('a) - 1)" by (metis Suc_diff_1 len_gt_0 power_Suc)
  have u: "0 \<le> uint w" "uint w < 2 * 2 ^ (LENGTH('a) - 1)" using uint_lt2p [of w] L by simp_all
  have "bit (uint w) (LENGTH('a) - 1) \<longleftrightarrow> 2 ^ (LENGTH('a) - 1) \<le> uint w"
  proof (cases "2 ^ (LENGTH('a) - 1) \<le> uint w")
    case True
    then have "uint w div 2 ^ (LENGTH('a) - 1) = 1" using u by (intro int_div_pos_eq [where r = "uint w - 2 ^ (LENGTH('a) - 1)"]) auto
    then show ?thesis using True by (simp add: bit_iff_odd)
  next
    case False
    then have "uint w div 2 ^ (LENGTH('a) - 1) = 0" using u by (intro div_pos_pos_trivial) auto
    then show ?thesis using False by (simp add: bit_iff_odd)
  qed
  then show ?thesis
    unfolding sint_uint signed_take_bit_eq_take_bit_minus using uint_lt2p [of w] by (auto simp: take_bit_eq_mod)
qed

lemma sint_ucast32:
  assumes "unat (q :: u64) < 2 ^ 32"
  shows "sint (ucast q :: u32) = (if unat q < 2 ^ 31 then int (unat q) else int (unat q) - 2 ^ 32)"
    "sint (ucast (- q) :: u32) = (if unat q \<le> 2 ^ 31 then - int (unat q) else 2 ^ 32 - int (unat q))"
proof -
  define n where "n = unat q"
  have n: "n < 2 ^ 32" using assms by (simp add: n_def)
  have uc: "unat (ucast q :: u32) = n" unfolding n_def using assms by (intro unat_small_cast) simp
  then have u: "uint (ucast q :: u32) = int n" by (metis uint_nat)
  then show "sint (ucast q :: u32) = (if unat q < 2 ^ 31 then int (unat q) else int (unat q) - 2 ^ 32)"
    unfolding sint_cases u n_def [symmetric] by simp
  have "(ucast (- q) :: u32) = - ucast q"
    by (simp add: word_uint_eq_iff uint_ucast uint_word_ariths mod_simps mod_mod_cancel)
  then have "unat (ucast (- q) :: u32) = (if n = 0 then 0 else 2 ^ 32 - n)"
    using unat_neg [of "ucast q :: u32"] uc by (cases "ucast q = (0 :: u32)") (auto simp: unat_eq_0 unat_gt_0)
  then have "int (unat (ucast (- q) :: u32)) = (if n = 0 then 0 else 2 ^ 32 - int n)" using n by auto
  then have "uint (ucast (- q) :: u32) = (if n = 0 then 0 else 2 ^ 32 - int n)" by (metis uint_nat)
  then show "sint (ucast (- q) :: u32) = (if unat q \<le> 2 ^ 31 then - int (unat q) else 2 ^ 32 - int (unat q))"
    unfolding sint_cases n_def [symmetric] using n by auto
qed

lemma rp_round_less:
  assumes "0 < g"
  shows "rp_round g rm sign n < 2 ^ Suc k \<longleftrightarrow> n + rp_inc g rm sign < 2 ^ (Suc k + g)"
  using rp_carry [OF assms, of k rm sign n] by (simp add: not_le [symmetric])

text \<open>The computation shared by the roundings to 32 bits: a magnitude with 12 fraction bits.\<close>

lemma round12:
  fixes sign :: bool
  assumes cl: "same_class (1 / 2) X (real (unat sig) / 2 ^ 12)" and n: "unat sig + 2 ^ 12 \<le> 2 ^ 64" and rm: "rm \<noteq> 5"
  defines "q \<equiv> rp_round 12 rm sign (unat sig)" and "w \<equiv> rp_word_round 12 rm sign sig"
  shows "rnd rm sign X = int q" "real_of_int (int q) = X \<longleftrightarrow> sig AND 0xFFF = 0" "unat w = q"
    "(if rm \<noteq> 0 \<and> rm \<noteq> 4 then if rm = (if sign then 2 else 3) then 0xFFF else 0 else 0x800) = rp_word_inc 12 rm sign"
    "drop_bit 12 (sig + rp_word_inc 12 rm sign) AND NOT (of_bool ((sig AND 0xFFF) XOR 0x800 = 0 \<and> rm = 0)) = w"
    "(sig + rp_word_inc 12 rm sign) AND 0xFFFFF00000000000 \<noteq> 0 \<longleftrightarrow> \<not> q < 2 ^ 32"
proof -
  note W = unat_rp_word_round [of 12 sig, OF _ _ n]
  show rnd: "rnd rm sign X = int q"
    using rnd_class [OF cl, of rm sign] rp_round_rnd [of 12 rm sign "unat sig"] by (simp add: q_def)
  have "of_int (rnd rm sign X) = X \<longleftrightarrow> unat sig mod 2 ^ 12 = 0"
    unfolding rnd_exact exact_class [OF cl] nat_exact ..
  moreover have "(0xFFF :: u64) = mask 12" by (simp add: mask_eq_exp_minus_1)
  ultimately show "real_of_int (int q) = X \<longleftrightarrow> sig AND 0xFFF = 0"
    using unat_and_mask [of sig 12] by (simp add: word_eq_0_unat rnd)
  show "unat w = q" using W(1) by (simp add: w_def q_def)
  show "(if rm \<noteq> 0 \<and> rm \<noteq> 4 then if rm = (if sign then 2 else 3) then 0xFFF else 0 else 0x800) = rp_word_inc 12 rm sign"
    by (simp add: rp_word_inc_def mask_eq_exp_minus_1)
  show "drop_bit 12 (sig + rp_word_inc 12 rm sign) AND NOT (of_bool ((sig AND 0xFFF) XOR 0x800 = 0 \<and> rm = 0)) = w"
    using rm by (simp add: w_def rp_word_round_def Let_def mask_eq_exp_minus_1)
  have "(0xFFFFF00000000000 :: u64) = push_bit 44 (mask 20)" by (simp add: mask_eq_exp_minus_1)
  then have "(x AND 0xFFFFF00000000000 = 0) \<longleftrightarrow> unat x < 2 ^ 44" for x :: u64
    using unat_and_field [of 44 20 x] unat_lt2p [of x] by (simp add: word_eq_0_unat less_mult_imp_div_less div_eq_0_iff)
  then show "(sig + rp_word_inc 12 rm sign) AND 0xFFFFF00000000000 \<noteq> 0 \<longleftrightarrow> \<not> q < 2 ^ 32"
    using W(3) [of rm sign] rp_round_less [of 12 rm sign "unat sig" 31] by (simp add: q_def)
qed

lemma roundToI32_word:
  assumes "same_class (1 / 2) X (real (unat sig) / 2 ^ 12)" "unat sig + 2 ^ 12 \<le> 2 ^ 64" "rm \<noteq> 5"
  shows "softfloat_roundToI32 sign sig rm exact s = to_int_result (- (2 ^ 31)) (2 ^ 31 - 1) rm exact sign X s"
proof -
  note F = round12 [where sign = sign, OF assms]
  show ?thesis
    unfolding softfloat_roundToI32_def to_int_result_def Let_def F(4,5,6) F(1) F(2)
    using sint_ucast32 [of "rp_word_round 12 rm sign sig", unfolded F(3)]
    by (cases "rp_round 12 rm sign (unat sig) < 2 ^ 32"; cases sign) auto
qed

lemma roundToUI32_word:
  assumes "same_class (1 / 2) X (real (unat sig) / 2 ^ 12)" "unat sig + 2 ^ 12 \<le> 2 ^ 64" "rm \<noteq> 5"
  shows "softfloat_roundToUI32 sign sig rm exact s =
    map_prod of_int id (to_int_result 0 (2 ^ 32 - 1) rm exact sign X s)"
proof -
  note F = round12 [where sign = sign, OF assms]
  have w: "rp_word_round 12 rm sign sig = of_int (int (rp_round 12 rm sign (unat sig)))" unfolding F(3) [symmetric] by simp
  have z: "rp_word_round 12 rm sign sig = 0 \<longleftrightarrow> rp_round 12 rm sign (unat sig) = 0" unfolding word_eq_0_unat F(3) ..
  show ?thesis
    unfolding softfloat_roundToUI32_def to_int_result_def Let_def F(4,5,6) F(1) F(2)
    using w z by (cases "rp_round 12 rm sign (unat sig) < 2 ^ 32"; cases sign) auto
qed

lemma to_int_big:
  assumes "of_int (hi + 2) \<le> X" "- hi - 1 \<le> lo" "lo \<le> hi"
  shows "to_int_result lo hi rm exact sign X s = (if sign then lo else hi, softfloat_raiseFlags softfloat_flag_invalid s)"
  using rnd_ge [OF assms(1), of rm sign] assms(2,3) by (auto simp: to_int_result_def Let_def)

lemma small_class: "0 < x \<Longrightarrow> x < 1 / 2 \<Longrightarrow> 0 < y \<Longrightarrow> y < 1 / 2 \<Longrightarrow> same_class (1 / 2) x y"
proof -
  have "\<lfloor>z / (1 / 2)\<rfloor> = 0 \<and> z / (1 / 2) \<notin> \<int>" if "0 < z" "z < 1 / 2" for z :: real
  proof -
    have "\<lfloor>z / (1 / 2)\<rfloor> = 0" using that by (simp add: floor_eq_iff)
    then show ?thesis using that by (simp add: Ints_floor_iff)
  qed
  then show "0 < x \<Longrightarrow> x < 1 / 2 \<Longrightarrow> 0 < y \<Longrightarrow> y < 1 / 2 \<Longrightarrow> same_class (1 / 2) x y" by (simp add: same_class_def)
qed

lemma jam_le: "jam n d \<le> n"
proof (cases "2 ^ d dvd n \<or> odd (n div 2 ^ d)")
  case True
  then show ?thesis by (simp add: jam_def)
next
  case False
  then have "n \<noteq> 0" "d \<noteq> 0" by (auto intro!: gr0I)
  then have "n div 2 ^ d < n" using one_less_power [of "2::nat" d] by (intro div_less_dividend) auto
  with False show ?thesis by (simp add: jam_def)
qed

lemma jam_fixed:
  assumes "X = real W / 2 ^ d / 2 ^ 12"
  shows "same_class (1 / 2) X (real (jam W d) / 2 ^ 12)"
proof -
  have "same_class (1 / 2 ^ 12 * 2) (1 / 2 ^ 12 * (real W / 2 ^ d)) (1 / 2 ^ 12 * real (jam W d))"
    using jam_class [of W d] same_class_scale [of "1 / 2 ^ 12" 2 "real W / 2 ^ d" "real (jam W d)"] by simp
  from same_class_coarse [OF this, of "2 ^ 10"] show ?thesis by (simp add: assms mult.commute)
qed


section \<open>The conversions to 32-bit integers\<close>

context float_fields
begin

text \<open>The significand with its hidden bit, shifted left by \<open>k\<close> bits and right with jamming to 12 fraction bits.\<close>

lemma to_int_sig:
  fixes a :: "'f word"
  assumes k: "46 \<le> p + k" and K: "K = B + int (p + k) - 12" "13 \<le> B"
    and S: "S = unat (if expUI (ui a) \<noteq> 0 then fracUI (ui a) OR push_bit p 1 else fracUI (ui a))"
    and n: "n = (if 0 < K - expUI (ui a) then jam (S * 2 ^ k) (nat (K - expUI (ui a))) else S * 2 ^ k)"
  shows "S < 2 ^ (p + 1)" "expUI (ui a) < K \<Longrightarrow> same_class (1 / 2) (mval p B (mag a)) (real n / 2 ^ 12)"
    "K \<le> expUI (ui a) \<Longrightarrow> 2 ^ 34 \<le> real n / 2 ^ 12 \<and> 2 ^ 34 \<le> mval p B (mag a)"
proof -
  define E where "E = mag a div 2 ^ p"
  have e: "expUI (ui a) = int E" by (simp add: exp E_def)
  have top: "unat (fracUI (ui a) OR push_bit p 1) = 2 ^ p + mag a mod 2 ^ p"
    using or_top_add [OF frac_less [of a]] size(1) by (simp add: frac)
  then have S1: "E \<noteq> 0 \<Longrightarrow> S = 2 ^ p + mag a mod 2 ^ p" and S0: "E = 0 \<Longrightarrow> S = mag a mod 2 ^ p"
    by (simp_all add: S e frac del: push_bit_of_1)
  have "mag a mod 2 ^ p < 2 ^ p" "(2::nat) ^ (p + 1) = 2 * 2 ^ p" by simp_all
  moreover have "S \<le> 2 ^ p + mag a mod 2 ^ p" using S1 S0 by (cases "E = 0") simp_all
  ultimately show lt: "S < 2 ^ (p + 1)" by linarith
  have v1: "mval p B (mag a) = real S * 2 powi (int E - B - p)" if "E \<noteq> 0"
    using that by (simp add: mval_eq E_def S1 [OF that])
  show "same_class (1 / 2) (mval p B (mag a)) (real n / 2 ^ 12)" if "expUI (ui a) < K"
  proof (cases "E = 0")
    case True
    then have m: "mag a < 2 ^ p" "S = mag a" using S0 by (simp_all add: E_def div_eq_0_iff)
    have "S * 2 ^ k < 2 ^ p * 2 ^ k" using m by simp
    also have "\<dots> \<le> 2 ^ Suc (nat K)" unfolding power_add [symmetric] using K by (intro power_increasing) auto
    finally have n1: "n = of_bool (S * 2 ^ k \<noteq> 0)" using jam_small [of "S * 2 ^ k" "nat K"] K by (simp add: n e True)
    have "mval p B (mag a) < 2 powi (1 - B)" by (rule mval_subnormal_less [OF m(1)])
    also have "\<dots> \<le> 2 powi (-2)" using K(2) by (intro power_int_increasing) auto
    finally have "mval p B (mag a) < 1 / 2" by simp
    then show ?thesis using small_class [of "mval p B (mag a)" "1 / 2 ^ 12"] m n1 mval_zero [of p B "mag a"]
      by (cases "mag a = 0") (simp_all add: mval_pos del: mval_zero)
  next
    case False
    define d where "d = nat (K - int E)"
    have d: "K - int E = int d" "0 < d" using that by (simp_all add: d_def e)
    have n1: "n = jam (S * 2 ^ k) d" using that by (simp add: n e d_def)
    have "2 powi (int E - B - p) * 2 ^ d * 2 ^ 12 = (2::real) ^ k"
    proof -
      have "int E - B - p + int d + 12 = int k" using d(1) K(1) by simp
      then show ?thesis by (metis power_int_add power_int_of_nat of_nat_numeral zero_neq_numeral)
    qed
    then have "mval p B (mag a) = real (S * 2 ^ k) / 2 ^ d / 2 ^ 12" by (simp add: v1 [OF False] eq_divide_eq)
    from jam_fixed [OF this] show ?thesis by (simp add: n1)
  qed
  assume KE: "K \<le> expUI (ui a)"
  then have E0: "E \<noteq> 0" using K k by (simp add: e)
  have "2 ^ (p + k) \<le> n" using KE S1 [OF E0] by (simp add: n power_add)
  moreover have "(2::nat) ^ 46 \<le> 2 ^ (p + k)" using k by (intro power_increasing) auto
  ultimately have "2 ^ 46 \<le> n" by linarith
  then have "(2::real) ^ 46 \<le> real n" by (simp only: pow_le_real)
  then have n1: "(2::real) ^ 34 \<le> real n / 2 ^ 12" by simp
  have "2 powi int 34 \<le> (2::real) powi (int E - B)" using KE K k by (intro power_int_increasing) (auto simp: e)
  also have "\<dots> \<le> mval p B (mag a)" unfolding E_def using E0 by (intro mval_normal_range) (simp add: E_def div_eq_0_iff not_less)
  finally show "2 ^ 34 \<le> real n / 2 ^ 12 \<and> 2 ^ 34 \<le> mval p B (mag a)" using n1 by simp
qed

end


text \<open>A NaN converts like the largest positive number.\<close>

lemma f32_to_sig:
  fixes a :: u32
  defines "S \<equiv> (if expF32UI (ucast a) \<noteq> 0 then fracF32UI (ucast a) OR 0x00800000 else fracF32UI (ucast a))"
  defines "w \<equiv> (if 0 < 0xAA - expF32UI (ucast a) then softfloat_shiftRightJam64 (push_bit 32 S) (of_int (0xAA - expF32UI (ucast a))) else push_bit 32 S)"
  shows "unat w + 2 ^ 12 \<le> 2 ^ 64"
    "expF32UI (ucast a) < 0xAA \<Longrightarrow> same_class (1 / 2) (mval 23 127 (mag a)) (real (unat w) / 2 ^ 12)"
    "0xAA \<le> expF32UI (ucast a) \<Longrightarrow> 2 ^ 34 \<le> real (unat w) / 2 ^ 12 \<and> 2 ^ 34 \<le> mval 23 127 (mag a)"
proof -
  define n where "n = (if 0 < 0xAA - expF32UI (ucast a) then jam (unat S * 2 ^ 32) (nat (0xAA - expF32UI (ucast a))) else unat S * 2 ^ 32)"
  have S: "unat S = unat (if expF32UI (ucast a) \<noteq> 0 then fracF32UI (ucast a) OR push_bit 23 1 else fracF32UI (ucast a))" by (simp add: S_def)
  note F = f32v.to_int_sig [of 32 "0xAA" "unat S" a n, OF _ _ _ S n_def]
  have lt: "unat S < 2 ^ 24" using F(1) by simp
  then have sh: "unat (push_bit 32 S) = unat S * 2 ^ 32" by (intro unat_push_bit_small) simp
  have "0 \<le> expF32UI (ucast a)" by (simp add: f32v.exp)
  then have w: "unat w = n"
    using jam64 [of "0xAA - expF32UI (ucast a)" "push_bit 32 S"] by (simp add: w_def n_def sh)
  have "n \<le> unat S * 2 ^ 32" by (simp add: n_def jam_le)
  then show "unat w + 2 ^ 12 \<le> 2 ^ 64" using lt by (simp add: w)
  show "expF32UI (ucast a) < 0xAA \<Longrightarrow> same_class (1 / 2) (mval 23 127 (mag a)) (real (unat w) / 2 ^ 12)"
    "0xAA \<le> expF32UI (ucast a) \<Longrightarrow> 2 ^ 34 \<le> real (unat w) / 2 ^ 12 \<and> 2 ^ 34 \<le> mval 23 127 (mag a)"
    using F(2,3) by (simp_all add: w)
qed


lemma f64_to_sig:
  fixes a :: u64
  defines "S \<equiv> (if expF64UI a \<noteq> 0 then fracF64UI a OR 0x0010000000000000 else fracF64UI a)"
  defines "w \<equiv> (if 0 < 0x427 - expF64UI a then softfloat_shiftRightJam64 S (of_int (0x427 - expF64UI a)) else S)"
  shows "unat w + 2 ^ 12 \<le> 2 ^ 64"
    "expF64UI a < 0x427 \<Longrightarrow> same_class (1 / 2) (mval 52 1023 (mag a)) (real (unat w) / 2 ^ 12)"
    "0x427 \<le> expF64UI a \<Longrightarrow> 2 ^ 34 \<le> real (unat w) / 2 ^ 12 \<and> 2 ^ 34 \<le> mval 52 1023 (mag a)"
proof -
  define n where "n = (if 0 < 0x427 - expF64UI a then jam (unat S * 2 ^ 0) (nat (0x427 - expF64UI a)) else unat S * 2 ^ 0)"
  have S: "unat S = unat (if expF64UI a \<noteq> 0 then fracF64UI a OR push_bit 52 1 else fracF64UI a)" by (simp add: S_def)
  note F = f64v.to_int_sig [of 0 "0x427" "unat S" a n, OF _ _ _ S n_def]
  have lt: "unat S < 2 ^ 53" using F(1) by simp
  have "0 \<le> expF64UI a" by (simp add: f64v.exp)
  then have w: "unat w = n" using jam64 [of "0x427 - expF64UI a" S] by (simp add: w_def n_def)
  have "n \<le> unat S" by (simp add: n_def jam_le)
  then show "unat w + 2 ^ 12 \<le> 2 ^ 64" using lt by (simp add: w)
  show "expF64UI a < 0x427 \<Longrightarrow> same_class (1 / 2) (mval 52 1023 (mag a)) (real (unat w) / 2 ^ 12)"
    "0x427 \<le> expF64UI a \<Longrightarrow> 2 ^ 34 \<le> real (unat w) / 2 ^ 12 \<and> 2 ^ 34 \<le> mval 52 1023 (mag a)"
    using F(2,3) by (simp_all add: w)
qed

lemma round32_of_sig:
  assumes "unat w + 2 ^ 12 \<le> 2 ^ 64" "rm \<noteq> 5"
    and "c \<Longrightarrow> same_class (1 / 2) X (real (unat w) / 2 ^ 12)" "\<not> c \<Longrightarrow> 2 ^ 34 \<le> real (unat w) / 2 ^ 12 \<and> 2 ^ 34 \<le> X"
  shows "softfloat_roundToI32 sign w rm exact s = to_int_result (- (2 ^ 31)) (2 ^ 31 - 1) rm exact sign X s"
    "softfloat_roundToUI32 sign w rm exact s = map_prod of_int id (to_int_result 0 (2 ^ 32 - 1) rm exact sign X s)"
proof -
  have "\<not> c \<Longrightarrow> to_int_result lo hi rm exact sign X s = to_int_result lo hi rm exact sign (real (unat w) / 2 ^ 12) s"
    if "- hi - 1 \<le> lo" "lo \<le> hi" "hi + 2 \<le> 2 ^ 34" for lo hi
  proof -
    assume nc: "\<not> c"
    have "real_of_int (hi + 2) \<le> real_of_int (2 ^ 34)" using that(3) by (simp only: of_int_le_iff)
    then have "real_of_int (hi + 2) \<le> X" "real_of_int (hi + 2) \<le> real (unat w) / 2 ^ 12" using assms(4) [OF nc] by simp_all
    then show ?thesis using that by (simp only: to_int_big)
  qed
  then show "softfloat_roundToI32 sign w rm exact s = to_int_result (- (2 ^ 31)) (2 ^ 31 - 1) rm exact sign X s"
    "softfloat_roundToUI32 sign w rm exact s = map_prod of_int id (to_int_result 0 (2 ^ 32 - 1) rm exact sign X s)"
    using roundToI32_word [OF _ assms(1,2)] roundToUI32_word [OF _ assms(1,2)] assms(3) by (cases c; simp)+
qed

theorem f32_to_i32_correct:
  assumes "\<not> is_nan 23 127 a" "rm \<noteq> softfloat_round_odd"
  shows "f32_to_i32 a rm exact s = to_int_result (- (2 ^ 31)) (2 ^ 31 - 1) rm exact (neg a) \<bar>fval 23 127 a\<bar> s"
    "f32_to_ui32 a rm exact s = map_prod of_int id (to_int_result 0 (2 ^ 32 - 1) rm exact (neg a) \<bar>fval 23 127 a\<bar> s)"
proof -
  have nn: "\<not> (expF32UI (ucast a) = 255 \<and> fracF32UI (ucast a) \<noteq> 0)" using f32v.nan_iff [of a] assms(1) by simp
  note R = round32_of_sig [OF f32_to_sig(1) [of a] assms(2), of "expF32UI (ucast a) < 0xAA" "mval 23 127 (mag a)" "neg a" exact s]
  show "f32_to_i32 a rm exact s = to_int_result (- (2 ^ 31)) (2 ^ 31 - 1) rm exact (neg a) \<bar>fval 23 127 a\<bar> s"
    unfolding f32_to_i32_def Let_def abs_fval f32v.sign using nn R(1) f32_to_sig(2,3) [of a] by (simp only: if_False)
  show "f32_to_ui32 a rm exact s = map_prod of_int id (to_int_result 0 (2 ^ 32 - 1) rm exact (neg a) \<bar>fval 23 127 a\<bar> s)"
    unfolding f32_to_ui32_def Let_def abs_fval f32v.sign using nn R(2) f32_to_sig(2,3) [of a] by (simp only: if_False)
qed

theorem f64_to_i32_correct:
  assumes "\<not> is_nan 52 1023 a" "rm \<noteq> softfloat_round_odd"
  shows "f64_to_i32 a rm exact s = to_int_result (- (2 ^ 31)) (2 ^ 31 - 1) rm exact (neg a) \<bar>fval 52 1023 a\<bar> s"
    "f64_to_ui32 a rm exact s = map_prod of_int id (to_int_result 0 (2 ^ 32 - 1) rm exact (neg a) \<bar>fval 52 1023 a\<bar> s)"
proof -
  have nn: "\<not> (expF64UI a = 2047 \<and> fracF64UI a \<noteq> 0)" using f64v.nan_iff [of a] assms(1) by simp
  note R = round32_of_sig [OF f64_to_sig(1) [of a] assms(2), of "expF64UI a < 0x427" "mval 52 1023 (mag a)" "neg a" exact s]
  show "f64_to_i32 a rm exact s = to_int_result (- (2 ^ 31)) (2 ^ 31 - 1) rm exact (neg a) \<bar>fval 52 1023 a\<bar> s"
    unfolding f64_to_i32_def Let_def abs_fval f64v.sign using nn R(1) f64_to_sig(2,3) [of a] by (simp only: if_False)
  show "f64_to_ui32 a rm exact s = map_prod of_int id (to_int_result 0 (2 ^ 32 - 1) rm exact (neg a) \<bar>fval 52 1023 a\<bar> s)"
    unfolding f64_to_ui32_def Let_def abs_fval f64v.sign using nn R(2) f64_to_sig(2,3) [of a] by (simp only: if_False)
qed

theorem f32_to_i32_nan:
  assumes "is_nan 23 127 a" "rm \<noteq> softfloat_round_odd"
  shows "f32_to_i32 a rm exact s = (2 ^ 31 - 1, softfloat_raiseFlags softfloat_flag_invalid s)"
    "f32_to_ui32 a rm exact s = (2 ^ 32 - 1, softfloat_raiseFlags softfloat_flag_invalid s)"
proof -
  have nn: "expF32UI (ucast a) = 255 \<and> fracF32UI (ucast a) \<noteq> 0" using f32v.nan_iff [of a] assms(1) by simp
  have nc: "\<not> expF32UI (ucast a) < 0xAA" using nn by simp
  note R = round32_of_sig [OF f32_to_sig(1) [of a] assms(2), of "expF32UI (ucast a) < 0xAA" "mval 23 127 (mag a)" False exact s]
  have X: "2 ^ 34 \<le> mval 23 127 (mag a)" using f32_to_sig(3) [of a] nn by simp
  have B: "to_int_result lo hi rm exact False (mval 23 127 (mag a)) s = (hi, softfloat_raiseFlags softfloat_flag_invalid s)"
    if "- hi - 1 \<le> lo" "lo \<le> hi" "real_of_int (hi + 2) \<le> 2 ^ 34" for lo hi
    using to_int_big [of hi "mval 23 127 (mag a)" lo] X that by simp
  show "f32_to_i32 a rm exact s = (2 ^ 31 - 1, softfloat_raiseFlags softfloat_flag_invalid s)"
    unfolding f32_to_i32_def Let_def using nn R(1) f32_to_sig(3) [of a] B [of "2 ^ 31 - 1" "- (2 ^ 31)"] by (simp only: if_True) simp
  show "f32_to_ui32 a rm exact s = (2 ^ 32 - 1, softfloat_raiseFlags softfloat_flag_invalid s)"
    unfolding f32_to_ui32_def Let_def using nn R(2) f32_to_sig(3) [of a] B [of "2 ^ 32 - 1" 0] by (simp only: if_True) simp
qed

end
