(* ===== verification/SF_Properties.thy ===== *)
theory SF_Properties
  imports SF_Add32 SF_Add64 SF_Compare SF_ToInt
begin

text \<open>
  The properties of the floating-point library: the operations of the formats against the values that their operands
  encode. \<open>fval p B a\<close> is the real number that the word \<open>a\<close> encodes with \<open>p\<close> fraction bits and bias \<open>B\<close>;
  \<open>float_result\<close> says that a result is the correctly rounded value in the rounding mode of the state, with the
  exception flags of the standard, and that an exact zero has the given sign.
\<close>

text \<open>
  C20: addition and subtraction in double precision. On finite operands \<open>f64_add\<close> and \<open>f64_sub\<close> return the correctly
  rounded exact sum and difference in every rounding mode and raise exactly the flags the rounding calls for; an exact
  zero is negative only where the operands' signs or the rounding towards minus infinity demand it.
\<close>

theorem f64_add_sub_rounded:
  assumes "is_fin 52 1023 a" "is_fin 52 1023 b"
  shows "float_result 52 1023 (fval 52 1023 a + fval 52 1023 b)
      (if neg a = neg b then neg a else softfloat_roundingMode s = softfloat_round_min) s (f64_add a b s) \<and>
    float_result 52 1023 (fval 52 1023 a - fval 52 1023 b)
      (if neg a \<noteq> neg b then neg a else softfloat_roundingMode s = softfloat_round_min) s (f64_sub a b s)"
  using f64_add_correct [OF assms] f64_sub_correct [OF assms] by blast

theorem f64_add_sub_rounded_witness:
  "float_result 52 1023 (fval 52 1023 (0x3FF0000000000000 :: float64_t) + fval 52 1023 (0x4000000000000000 :: float64_t)) False
     softfloat_state_init (f64_add 0x3FF0000000000000 0x4000000000000000 softfloat_state_init)"
  using f64_add_sub_rounded [of "0x3FF0000000000000" "0x4000000000000000" softfloat_state_init]
  by (simp add: is_fin_def mag_def neg_def)

text \<open>
  Addition and subtraction in single precision are correctly rounded on finite operands, with the signs of exact
  zeros and the flags of the standard.
\<close>

lemma f32_add_sub_rounded:
  assumes "is_fin 23 127 a" "is_fin 23 127 b"
  shows "float_result 23 127 (fval 23 127 a + fval 23 127 b)
      (if neg a = neg b then neg a else softfloat_roundingMode s = softfloat_round_min) s (f32_add a b s) \<and>
    float_result 23 127 (fval 23 127 a - fval 23 127 b)
      (if neg a \<noteq> neg b then neg a else softfloat_roundingMode s = softfloat_round_min) s (f32_sub a b s)"
  using f32_add_correct [OF assms] f32_sub_correct [OF assms] by blast

text \<open>
  C22: multiplication in double precision. On finite operands, subnormal ones included, \<open>f64_mul\<close> returns the correctly
  rounded product, whose sign is the exclusive or of the operands' signs.
\<close>

theorem f64_mul_rounded:
  assumes "is_fin 52 1023 a" "is_fin 52 1023 b"
  shows "float_result 52 1023 (fval 52 1023 a * fval 52 1023 b) (neg a \<noteq> neg b) s (f64_mul a b s)"
  by (rule f64_mul_correct [OF assms])

theorem f64_mul_rounded_witness:
  "float_result 52 1023 (fval 52 1023 (0xC008000000000000 :: float64_t) * fval 52 1023 (0x0000000000000001 :: float64_t)) True
     softfloat_state_init (f64_mul 0xC008000000000000 0x0000000000000001 softfloat_state_init)"
  using f64_mul_rounded [of "0xC008000000000000" "0x0000000000000001" softfloat_state_init]
  by (simp add: is_fin_def mag_def neg_def)

text \<open>
  Multiplication in single and in half precision is correctly rounded on finite operands.
\<close>

lemma f32_f16_mul_rounded:
  assumes "is_fin 23 127 a" "is_fin 23 127 b" "is_fin 10 15 c" "is_fin 10 15 d"
  shows "float_result 23 127 (fval 23 127 a * fval 23 127 b) (neg a \<noteq> neg b) s (f32_mul a b s) \<and>
    float_result 10 15 (fval 10 15 c * fval 10 15 d) (neg c \<noteq> neg d) s (f16_mul c d s)"
  using f32_mul_correct [OF assms(1,2)] f16_mul_correct [OF assms(3,4)] by blast

text \<open>
  C24: comparisons in single precision. On operands that are not NaN the six comparisons agree with the order of the
  encoded values (zeros of both signs are equal, infinities are beyond all numbers) and raise nothing.
\<close>

theorem f32_comparisons:
  assumes "\<not> is_nan 23 127 a" "\<not> is_nan 23 127 b"
  shows "f32_eq a b s = (fval 23 127 a = fval 23 127 b, s) \<and> f32_eq_signaling a b s = (fval 23 127 a = fval 23 127 b, s) \<and>
    f32_le a b s = (fval 23 127 a \<le> fval 23 127 b, s) \<and> f32_le_quiet a b s = (fval 23 127 a \<le> fval 23 127 b, s) \<and>
    f32_lt a b s = (fval 23 127 a < fval 23 127 b, s) \<and> f32_lt_quiet a b s = (fval 23 127 a < fval 23 127 b, s)"
  using f32_compare_numbers [OF assms] by blast

theorem f32_comparisons_witness:
  "f32_lt 0x3F800000 0x7F800000 softfloat_state_init =
     (fval 23 127 (0x3F800000 :: float32_t) < fval 23 127 (0x7F800000 :: float32_t), softfloat_state_init)"
  using f32_comparisons [of "0x3F800000" "0x7F800000" softfloat_state_init] by (simp add: is_nan_def mag_def)

text \<open>
  C25: operands that are not numbers. With a NaN or an infinity as operand, single-precision addition and subtraction
  return the default NaN for a NaN operand (invalid is raised when it signals) and for opposite infinities (invalid is
  raised), and an infinite operand otherwise, which a subtraction negates if it is the second one.
\<close>

theorem f32_add_sub_invalid:
  assumes "\<not> (is_fin 23 127 a \<and> is_fin 23 127 b)"
  shows "f32_add a b s =
      (if is_nan 23 127 a \<or> is_nan 23 127 b
       then (0x7FC00000, if is_snan 23 127 a \<or> is_snan 23 127 b then softfloat_raiseFlags softfloat_flag_invalid s else s)
       else if \<not> is_fin 23 127 a \<and> \<not> is_fin 23 127 b \<and> neg a \<noteq> neg b then (0x7FC00000, softfloat_raiseFlags softfloat_flag_invalid s)
       else (if is_fin 23 127 a then b else a, s)) \<and>
    f32_sub a b s =
      (if is_nan 23 127 a \<or> is_nan 23 127 b
       then (0x7FC00000, if is_snan 23 127 a \<or> is_snan 23 127 b then softfloat_raiseFlags softfloat_flag_invalid s else s)
       else if \<not> is_fin 23 127 a \<and> \<not> is_fin 23 127 b \<and> neg a = neg b then (0x7FC00000, softfloat_raiseFlags softfloat_flag_invalid s)
       else (if is_fin 23 127 a then ucast (packToF32UI (\<not> neg b) 255 0) else a, s))"
  using f32_add_special [OF assms] f32_sub_special [OF assms] by blast

theorem f32_add_sub_invalid_witness:
  "f32_add 0x7F800000 0xFF800000 softfloat_state_init = (0x7FC00000, softfloat_raiseFlags softfloat_flag_invalid softfloat_state_init)"
  using f32_add_sub_invalid [of "0x7F800000" "0xFF800000" softfloat_state_init]
  by (simp add: is_fin_def is_nan_def is_snan_def mag_def neg_def)

text \<open>
  C26: conversion to 32-bit integers. A number, an infinity included, converts to the value rounded in the given mode if
  that is in range, with inexact raised on request; otherwise to the nearest bound of the type, with invalid raised.
  Rounding to odd, which these routines do not implement, is excluded.
\<close>

theorem f64_to_int32:
  assumes "\<not> is_nan 52 1023 a" "rm \<noteq> softfloat_round_odd"
  shows "f64_to_i32 a rm exact s = to_int_result (- (2 ^ 31)) (2 ^ 31 - 1) rm exact (neg a) \<bar>fval 52 1023 a\<bar> s \<and>
    f64_to_ui32 a rm exact s = map_prod of_int id (to_int_result 0 (2 ^ 32 - 1) rm exact (neg a) \<bar>fval 52 1023 a\<bar> s)"
  using f64_to_i32_correct [OF assms] by blast

theorem f64_to_int32_witness:
  "f64_to_i32 0xC004000000000000 softfloat_round_minMag True softfloat_state_init =
     to_int_result (- (2 ^ 31)) (2 ^ 31 - 1) softfloat_round_minMag True True \<bar>fval 52 1023 (0xC004000000000000 :: float64_t)\<bar> softfloat_state_init"
  using f64_to_int32 [of "0xC004000000000000" softfloat_round_minMag True softfloat_state_init]
  by (simp add: is_nan_def mag_def neg_def)

end
