(* ===== verification/Cache_Sim.thy ===== *)
theory Cache_Sim
  imports Branch_Hash
begin

text \<open>
  The cache model of the simulator (\<open>riscv-isa-sim/riscv/cachesim.h\<close> and \<open>cachesim.cc\<close>): a set-associative
  cache with pseudo-random replacement, a fully associative variant that keeps its tags in a map, and
  the tracers that feed instruction fetches and data accesses to them.

  \<open>fa_cache_sim_t\<close> derives from \<open>cache_sim_t\<close>: its record extends the record of the base class. The
  two virtual member functions and the dereferencing of the pointers they return are arguments of the
  member functions of the base class that call them; so is the miss handler, another cache or none.
  The value \<^const>\<open>None\<close> stands for undefined behaviour (an access outside the tag array, a division by
  zero, a null pointer dereferenced) or for a loop that does not end. The log to \<open>stderr\<close> is not modelled.
\<close>

section \<open>Definitions\<close>

subsection \<open>The shift register\<close>

definition lfsr_next :: "u32 \<Rightarrow> u32" where
  "lfsr_next reg = drop_bit 1 reg XOR (- (reg AND 1) AND 0xd0000001)"

subsection \<open>State and construction\<close>

definition VALID :: u64 where "VALID = push_bit 63 1"
definition DIRTY :: u64 where "DIRTY = push_bit 62 1"

record cache_sim_t =
  lfsr :: u32
  sets :: u64
  ways :: u64
  linesz :: u64
  idx_shift :: nat
  tags :: "u64 list"
  read_accesses :: u64
  read_misses :: u64
  bytes_read :: u64
  write_accesses :: u64
  write_misses :: u64
  bytes_written :: u64
  writebacks :: u64

text \<open>\<open>std::map\<close> iterates in the order of its keys: an association list with ascending keys.\<close>

record fa_cache_sim_t = cache_sim_t +
  fa_tags :: "(u64 \<times> u64) list"

datatype cache_error = Usage_exit | Bad_alloc | Undefined_atoi

text \<open>
  \<open>init\<close>: the configuration is checked (\<open>help\<close> ends the program) and the tags are allocated; an array
  of more than \<open>PTRDIFF_MAX\<close> bytes cannot be.
\<close>

definition cache_init :: "u64 \<Rightarrow> u64 \<Rightarrow> u64 \<Rightarrow> cache_error + cache_sim_t" where
  "cache_init n w l =
     (if n = 0 \<or> n AND (n - 1) \<noteq> 0 then Inl Usage_exit
      else if l < 8 \<or> l AND (l - 1) \<noteq> 0 then Inl Usage_exit
      else if 2 ^ 60 \<le> unat (n * w) then Inl Bad_alloc
      else Inr \<lparr> lfsr = 1, sets = n, ways = w, linesz = l, idx_shift = log2_pow2 (unat l),
                 tags = replicate (unat (n * w)) 0,
                 read_accesses = 0, read_misses = 0, bytes_read = 0,
                 write_accesses = 0, write_misses = 0, bytes_written = 0, writebacks = 0 \<rparr>)"

definition fa_cache_init :: "u64 \<Rightarrow> u64 \<Rightarrow> cache_error + fa_cache_sim_t" where
  "fa_cache_init w l = map_sum id (\<lambda>c. cache_sim_t.extend c (fa_cache_sim_t.fields [])) (cache_init 1 w l)"

text \<open>\<open>strchr(s, ':')\<close>, split at the character found: what precedes it and what follows it.\<close>

primrec split_colon :: "string \<Rightarrow> (string \<times> string) option" where
  "split_colon [] = None"
| "split_colon (x # xs) = (if x = CHR '':'' then Some ([], xs) else map_option (\<lambda>(a, b). (x # a, b)) (split_colon xs))"

definition is_digit :: "char \<Rightarrow> bool" where
  "is_digit x \<longleftrightarrow> 48 \<le> (of_char x :: nat) \<and> (of_char x :: nat) \<le> 57"

definition atoi_digits :: "string \<Rightarrow> int" where
  "atoi_digits xs = foldl (\<lambda>n x. 10 * n + (of_char x - 48)) 0 (takeWhile is_digit xs)"

definition is_space :: "char \<Rightarrow> bool" where
  "is_space x \<longleftrightarrow> x = CHR '' '' \<or> 9 \<le> (of_char x :: nat) \<and> (of_char x :: nat) \<le> 13"

text \<open>The behaviour of \<open>atoi\<close> on a number that is not an \<open>int\<close> is undefined.\<close>

definition atoi :: "string \<Rightarrow> cache_error + int" where
  "atoi s =
     (let s = dropWhile is_space s;
          n = (case s of [] \<Rightarrow> 0
               | x # xs \<Rightarrow> if x = CHR ''-'' then - atoi_digits xs
                          else if x = CHR ''+'' then atoi_digits xs else atoi_digits s)
      in if - (2 ^ 31) \<le> n \<and> n < 2 ^ 31 then Inr n else Inl Undefined_atoi)"

datatype cache_object = Plain_cache cache_sim_t | Fa_cache fa_cache_sim_t

definition cache_construct :: "string \<Rightarrow> cache_error + cache_object" where
  "cache_construct config =
     (case split_colon config of None \<Rightarrow> Inl Usage_exit
      | Some (a, wp) \<Rightarrow> (case split_colon wp of None \<Rightarrow> Inl Usage_exit
        | Some (b, bp) \<Rightarrow>
            (case (atoi (a @ '':''), atoi (b @ '':''), atoi bp) of
               (Inr n, Inr w, Inr l) \<Rightarrow>
                 (if 4 < (of_int w :: u64) \<and> (of_int n :: u64) = 1
                  then map_sum id Fa_cache (fa_cache_init (of_int w) (of_int l))
                  else map_sum id Plain_cache (cache_init (of_int n) (of_int w) (of_int l)))
             | _ \<Rightarrow> Inl Undefined_atoi)))"

subsection \<open>The tag store of the base class\<close>

text \<open>The pointer to a tag is its index in the array.\<close>

primrec check_ways :: "u64 list \<Rightarrow> u64 \<Rightarrow> nat \<Rightarrow> nat \<Rightarrow> nat option option" where
  "check_ways ts tag p 0 = Some None"
| "check_ways ts tag p (Suc n) =
     do { t \<leftarrow> vec_at ts (int p);
          if tag = t AND NOT DIRTY then Some (Some p) else check_ways ts tag (Suc p) n }"

definition sa_check_tag :: "'z cache_sim_t_scheme \<Rightarrow> u64 \<Rightarrow> nat option option" where
  "sa_check_tag c addr =
     (let idx = drop_bit (idx_shift c) addr AND (sets c - 1);
          tag = drop_bit (idx_shift c) addr OR VALID
      in check_ways (tags c) tag (unat (idx * ways c)) (unat (ways c)))"

definition sa_victimize :: "'z cache_sim_t_scheme \<Rightarrow> u64 \<Rightarrow> (u64 \<times> 'z cache_sim_t_scheme) option" where
  "sa_victimize c addr =
     (if ways c = 0 then None
      else let idx = drop_bit (idx_shift c) addr AND (sets c - 1);
               reg = lfsr_next (lfsr c);
               way = ucast reg mod ways c;
               i = int (unat (idx * ways c + way))
           in do { victim \<leftarrow> vec_at (tags c) i;
                   ts \<leftarrow> vec_set (tags c) i (drop_bit (idx_shift c) addr OR VALID);
                   Some (victim, c\<lparr>lfsr := reg, tags := ts\<rparr>) })"

definition sa_get :: "'z cache_sim_t_scheme \<Rightarrow> nat \<Rightarrow> u64 option" where
  "sa_get c p = vec_at (tags c) (int p)"

definition sa_set :: "'z cache_sim_t_scheme \<Rightarrow> nat \<Rightarrow> u64 \<Rightarrow> 'z cache_sim_t_scheme option" where
  "sa_set c p t = map_option (\<lambda>ts. c\<lparr>tags := ts\<rparr>) (vec_set (tags c) (int p) t)"

subsection \<open>The tag store of the fully associative cache\<close>

text \<open>The pointer to a tag points into the node of the map that has the key.\<close>

primrec map_put :: "'k::linorder \<Rightarrow> 'v \<Rightarrow> ('k \<times> 'v) list \<Rightarrow> ('k \<times> 'v) list" where
  "map_put k v [] = [(k, v)]"
| "map_put k v (e # es) =
     (if k < fst e then (k, v) # e # es else if k = fst e then (k, v) # es else e # map_put k v es)"

definition fa_check_tag :: "'z fa_cache_sim_t_scheme \<Rightarrow> u64 \<Rightarrow> u64 option option" where
  "fa_check_tag c addr =
     Some (case map_of (fa_tags c) (drop_bit (idx_shift c) addr) of None \<Rightarrow> None
           | Some _ \<Rightarrow> Some (drop_bit (idx_shift c) addr))"

definition fa_victimize :: "'z fa_cache_sim_t_scheme \<Rightarrow> u64 \<Rightarrow> (u64 \<times> 'z fa_cache_sim_t_scheme) option" where
  "fa_victimize c addr =
     (let line = drop_bit (idx_shift c) addr
      in if length (fa_tags c) = unat (ways c)
         then if ways c = 0 then None
              else let reg = lfsr_next (lfsr c);
                       n = unat (ucast reg mod ways c :: u64)
                   in do { e \<leftarrow> vec_at (fa_tags c) (int n);
                           Some (snd e, c\<lparr>lfsr := reg,
                             fa_tags := map_put line (line OR VALID) (take n (fa_tags c) @ drop (Suc n) (fa_tags c))\<rparr>) }
         else Some (0, c\<lparr>fa_tags := map_put line (line OR VALID) (fa_tags c)\<rparr>))"

definition fa_get :: "'z fa_cache_sim_t_scheme \<Rightarrow> u64 \<Rightarrow> u64 option" where
  "fa_get c k = map_of (fa_tags c) k"

definition fa_set :: "'z fa_cache_sim_t_scheme \<Rightarrow> u64 \<Rightarrow> u64 \<Rightarrow> 'z fa_cache_sim_t_scheme option" where
  "fa_set c k t = (if map_of (fa_tags c) k = None then None else Some (c\<lparr>fa_tags := map_put k t (fa_tags c)\<rparr>))"

subsection \<open>Accesses\<close>

definition count_access :: "'z cache_sim_t_scheme \<Rightarrow> u64 \<Rightarrow> bool \<Rightarrow> 'z cache_sim_t_scheme" where
  "count_access c bytes store =
     (if store then c\<lparr>write_accesses := write_accesses c + 1, bytes_written := bytes_written c + bytes\<rparr>
      else c\<lparr>read_accesses := read_accesses c + 1, bytes_read := bytes_read c + bytes\<rparr>)"

definition count_miss :: "'z cache_sim_t_scheme \<Rightarrow> bool \<Rightarrow> 'z cache_sim_t_scheme" where
  "count_miss c store =
     (if store then c\<lparr>write_misses := write_misses c + 1\<rparr> else c\<lparr>read_misses := read_misses c + 1\<rparr>)"

definition count_writeback :: "'z cache_sim_t_scheme \<Rightarrow> 'z cache_sim_t_scheme" where
  "count_writeback c = c\<lparr>writebacks := writebacks c + 1\<rparr>"

type_synonym 'm handler = "'m \<Rightarrow> u64 \<Rightarrow> u64 \<Rightarrow> bool \<Rightarrow> 'm option"

text \<open>The access of a cache without a miss handler.\<close>

definition no_handler :: "unit handler" where
  "no_handler m addr bytes store = Some m"

definition cache_access ::
  "('z cache_sim_t_scheme \<Rightarrow> u64 \<Rightarrow> 'p option option) \<Rightarrow>
   ('z cache_sim_t_scheme \<Rightarrow> 'p \<Rightarrow> u64 option) \<Rightarrow>
   ('z cache_sim_t_scheme \<Rightarrow> 'p \<Rightarrow> u64 \<Rightarrow> 'z cache_sim_t_scheme option) \<Rightarrow>
   ('z cache_sim_t_scheme \<Rightarrow> u64 \<Rightarrow> (u64 \<times> 'z cache_sim_t_scheme) option) \<Rightarrow>
   'm handler \<Rightarrow> ('z cache_sim_t_scheme \<times> 'm) handler" where
  "cache_access check_tag get_tag set_tag victimize mh = (\<lambda>(c, m) addr bytes store.
     do { let c = count_access c bytes store;
          hit_way \<leftarrow> check_tag c addr;
          case hit_way of
            Some p \<Rightarrow>
              if store then do { t \<leftarrow> get_tag c p; c \<leftarrow> set_tag c p (t OR DIRTY); Some (c, m) }
              else Some (c, m)
          | None \<Rightarrow>
              do { (victim, c) \<leftarrow> victimize (count_miss c store) addr;
                   (c, m) \<leftarrow> (if victim AND (VALID OR DIRTY) = VALID OR DIRTY
                     then do { let dirty_addr = push_bit (idx_shift c) (victim AND NOT (VALID OR DIRTY));
                               m \<leftarrow> mh m dirty_addr (linesz c) True;
                               Some (count_writeback c, m) }
                     else Some (c, m));
                   m \<leftarrow> mh m (addr AND NOT (linesz c - 1)) (linesz c) False;
                   if store
                   then do { hit_way \<leftarrow> check_tag c addr;
                             p \<leftarrow> hit_way;
                             t \<leftarrow> get_tag c p;
                             c \<leftarrow> set_tag c p (t OR DIRTY);
                             Some (c, m) }
                   else Some (c, m) } })"

definition sa_access :: "'m handler \<Rightarrow> ('z cache_sim_t_scheme \<times> 'm) handler" where
  "sa_access = cache_access sa_check_tag sa_get sa_set sa_victimize"

definition fa_access :: "'m handler \<Rightarrow> ('z fa_cache_sim_t_scheme \<times> 'm) handler" where
  "fa_access = cache_access fa_check_tag fa_get fa_set fa_victimize"

subsection \<open>Cleaning and invalidating\<close>

definition ci_line ::
  "('z cache_sim_t_scheme \<Rightarrow> u64 \<Rightarrow> 'p option option) \<Rightarrow>
   ('z cache_sim_t_scheme \<Rightarrow> 'p \<Rightarrow> u64 option) \<Rightarrow>
   ('z cache_sim_t_scheme \<Rightarrow> 'p \<Rightarrow> u64 \<Rightarrow> 'z cache_sim_t_scheme option) \<Rightarrow>
   bool \<Rightarrow> bool \<Rightarrow> 'z cache_sim_t_scheme \<Rightarrow> u64 \<Rightarrow> 'z cache_sim_t_scheme option" where
  "ci_line check_tag get_tag set_tag clean inval c cur_addr =
     do { hit_way \<leftarrow> check_tag c cur_addr;
          case hit_way of
            None \<Rightarrow> Some c
          | Some p \<Rightarrow>
              do { t \<leftarrow> get_tag c p;
                   c \<leftarrow> (if clean \<and> t AND DIRTY \<noteq> 0 then set_tag (count_writeback c) p (t AND NOT DIRTY) else Some c);
                   t \<leftarrow> get_tag c p;
                   if inval then set_tag c p (t AND NOT VALID) else Some c } }"

partial_function (option) ci_loop ::
  "('c \<Rightarrow> u64 \<Rightarrow> 'c option) \<Rightarrow> u64 \<Rightarrow> 'c \<Rightarrow> u64 \<Rightarrow> u64 \<Rightarrow> 'c option" where
  "ci_loop body l c cur_addr end_addr =
     (if cur_addr < end_addr then do { c \<leftarrow> body c cur_addr; ci_loop body l c (cur_addr + l) end_addr } else Some c)"

type_synonym 'm ci_handler = "'m \<Rightarrow> u64 \<Rightarrow> u64 \<Rightarrow> bool \<Rightarrow> bool \<Rightarrow> 'm option"

definition no_ci_handler :: "unit ci_handler" where
  "no_ci_handler m addr bytes clean inval = Some m"

definition cache_clean_invalidate ::
  "('z cache_sim_t_scheme \<Rightarrow> u64 \<Rightarrow> 'p option option) \<Rightarrow>
   ('z cache_sim_t_scheme \<Rightarrow> 'p \<Rightarrow> u64 option) \<Rightarrow>
   ('z cache_sim_t_scheme \<Rightarrow> 'p \<Rightarrow> u64 \<Rightarrow> 'z cache_sim_t_scheme option) \<Rightarrow>
   'm ci_handler \<Rightarrow> ('z cache_sim_t_scheme \<times> 'm) ci_handler" where
  "cache_clean_invalidate check_tag get_tag set_tag mh = (\<lambda>(c, m) addr bytes clean inval.
     do { let start_addr = addr AND NOT (linesz c - 1);
          let end_addr = (addr + bytes + linesz c - 1) AND NOT (linesz c - 1);
          c \<leftarrow> ci_loop (ci_line check_tag get_tag set_tag clean inval) (linesz c) c start_addr end_addr;
          m \<leftarrow> mh m addr bytes clean inval;
          Some (c, m) })"

definition sa_clean_invalidate :: "'m ci_handler \<Rightarrow> ('z cache_sim_t_scheme \<times> 'm) ci_handler" where
  "sa_clean_invalidate = cache_clean_invalidate sa_check_tag sa_get sa_set"

definition fa_clean_invalidate :: "'m ci_handler \<Rightarrow> ('z fa_cache_sim_t_scheme \<times> 'm) ci_handler" where
  "fa_clean_invalidate = cache_clean_invalidate fa_check_tag fa_get fa_set"

section \<open>The shift register never stops\<close>

lemma word_bits_eq: "(a :: 'a::len word) = b \<longleftrightarrow> (\<forall>n. bit a n = bit b n)"
  by (metis bit_word_eqI)

lemma lfsr_next_bits:
  "lfsr_next reg = drop_bit 1 reg XOR (if odd reg then 0xd0000001 else 0)"
proof -
  have "- (reg AND 1) = (if odd reg then - 1 else 0)"
    by (simp add: and_one_eq mod2_eq_if)
  then show ?thesis by (simp add: lfsr_next_def)
qed

lemma lfsr_bit31: "bit (lfsr_next reg) 31 \<longleftrightarrow> odd reg"
proof -
  have "\<not> bit reg 32" using bit_imp_le_length [of reg 32] by auto
  then show ?thesis by (simp add: lfsr_next_bits bit_simps)
qed

lemma drop_bit_one_eq:
  assumes "drop_bit 1 a = drop_bit 1 (b :: 'a::len word)" "odd a \<longleftrightarrow> odd b"
  shows "a = b"
proof -
  have "bit a (Suc n) = bit b (Suc n)" for n
    using assms(1) bit_drop_bit_eq [of 1 a] bit_drop_bit_eq [of 1 b] by (metis comp_apply plus_1_eq_Suc)
  then have "bit a n = bit b n" for n using assms(2) by (cases n) (auto simp: bit_0)
  then show "a = b" by (simp add: word_bits_eq)
qed

lemma lfsr_next_inj: "lfsr_next a = lfsr_next b \<Longrightarrow> a = b"
proof -
  assume eq: "lfsr_next a = lfsr_next b"
  then have o: "odd a \<longleftrightarrow> odd b" using lfsr_bit31 by metis
  have "(x XOR y) XOR y = x" for x y :: u32 by (simp add: xor.assoc)
  then have "x XOR y = z XOR y \<Longrightarrow> x = z" for x y z :: u32 by metis
  then have "drop_bit 1 a = drop_bit 1 b" using eq o unfolding lfsr_next_bits by (cases "odd a") auto
  then show "a = b" using o by (rule drop_bit_one_eq)
qed

lemma lfsr_next_nonzero: "reg \<noteq> 0 \<Longrightarrow> lfsr_next reg \<noteq> 0"
  using lfsr_next_inj [of reg 0] by (auto simp: lfsr_next_bits)

section \<open>Tags\<close>

text \<open>A tag word holds the line number, the valid bit and the dirty bit.\<close>

definition tag_line :: "u64 \<Rightarrow> u64" where
  "tag_line t = t AND NOT (VALID OR DIRTY)"

abbreviation is_valid :: "u64 \<Rightarrow> bool" where "is_valid t \<equiv> bit t 63"
abbreviation is_dirty :: "u64 \<Rightarrow> bool" where "is_dirty t \<equiv> bit t 62"

named_theorems tag_simps \<open>fields of a tag word\<close>

lemma bit_VALID [tag_simps]: "bit VALID n \<longleftrightarrow> n = 63"
  unfolding VALID_def bit_push_bit_iff bit_1_iff using bit_imp_le_length by auto

lemma bit_DIRTY [tag_simps]: "bit DIRTY n \<longleftrightarrow> n = 62"
  unfolding DIRTY_def bit_push_bit_iff bit_1_iff using bit_imp_le_length by auto

lemma bit_tag_line [tag_simps]: "bit (tag_line t) n \<longleftrightarrow> bit t n \<and> n \<noteq> 62 \<and> n \<noteq> 63"
  by (auto simp: tag_line_def bit_simps tag_simps dest: bit_imp_le_length)

lemma tag_bits [tag_simps]:
  "is_valid (t OR VALID)" "is_dirty (t OR VALID) = is_dirty t"
  "is_valid (t OR DIRTY) = is_valid t" "is_dirty (t OR DIRTY)"
  "is_valid (t AND NOT DIRTY) = is_valid t" "\<not> is_dirty (t AND NOT DIRTY)"
  "\<not> is_valid (t AND NOT VALID)" "is_dirty (t AND NOT VALID) = is_dirty t"
  by (auto simp: bit_simps tag_simps)

lemma tag_line_set [tag_simps]:
  "tag_line (t OR VALID) = tag_line t" "tag_line (t OR DIRTY) = tag_line t"
  "tag_line (t AND NOT DIRTY) = tag_line t" "tag_line (t AND NOT VALID) = tag_line t"
  by (auto intro!: bit_word_eqI simp: bit_simps tag_simps)

lemma tag_test [tag_simps]:
  "t AND DIRTY \<noteq> 0 \<longleftrightarrow> is_dirty t" "t AND (VALID OR DIRTY) = VALID OR DIRTY \<longleftrightarrow> is_valid t \<and> is_dirty t"
  by (auto simp: word_bits_eq bit_simps tag_simps)

lemma tag_match:
  assumes "tag_line l = l"
  shows "l OR VALID = t AND NOT DIRTY \<longleftrightarrow> is_valid t \<and> tag_line t = l"
proof -
  have l: "\<not> bit l 62" "\<not> bit l 63" using bit_tag_line [of l] assms by metis+
  show ?thesis
  proof
    assume "l OR VALID = t AND NOT DIRTY"
    then have *: "bit (l OR VALID) n = bit (t AND NOT DIRTY) n" for n by simp
    have "is_valid t" using * [of 63] by (simp add: bit_simps tag_simps)
    moreover have "bit (tag_line t) n = bit l n" for n
      using * [of n] l by (cases "n = 62"; cases "n = 63") (auto simp: bit_simps tag_simps dest: bit_imp_le_length)
    ultimately show "is_valid t \<and> tag_line t = l" by (simp add: word_bits_eq)
  next
    assume "is_valid t \<and> tag_line t = l"
    then have v: "is_valid t" and *: "bit l n = bit (tag_line t) n" for n by simp_all
    have "bit (l OR VALID) n = bit (t AND NOT DIRTY) n" for n
      using * [of n] v by (cases "n = 62"; cases "n = 63") (auto simp: bit_simps tag_simps dest: bit_imp_le_length)
    then show "l OR VALID = t AND NOT DIRTY" unfolding word_bits_eq by blast
  qed
qed

lemma tag_line_small: "3 \<le> s \<Longrightarrow> tag_line (drop_bit s a) = drop_bit s a"
  using bit_imp_le_length [of a "s + 62"] bit_imp_le_length [of a "s + 63"]
  by (auto intro!: bit_word_eqI simp: bit_simps tag_simps)

end
