(* ===== verification/Cache_Contract.thy ===== *)
theory Cache_Contract
  imports Cache_Sim
begin

text \<open>
  What a tag store promises to the member functions of \<open>cache_sim_t\<close>, as a locale, and the abstract
  cache they implement with it: a partial map from line numbers to dirty bits, whose steps are hits,
  fills and evictions. Both tag stores of the source satisfy the contract.
\<close>

section \<open>The abstract cache\<close>

datatype cache_event = Hit | Miss | Miss_writeback

type_synonym lines = "u64 \<Rightarrow> bool option"

text \<open>
  One access to address \<open>a\<close> of a cache with lines of \<open>2 ^ s\<close> bytes. A miss may evict any line: the
  policy is not part of the abstraction. The handler below is told of the line written back, by its
  address, and then of the line that is fetched.
\<close>

inductive cache_step :: "nat \<Rightarrow> 'm handler \<Rightarrow> lines \<times> 'm \<Rightarrow> u64 \<Rightarrow> bool \<Rightarrow> cache_event \<Rightarrow> lines \<times> 'm \<Rightarrow> bool"
  for s mh where
  hit: "L (drop_bit s a) = Some d \<Longrightarrow> cache_step s mh (L, m) a store Hit (L(drop_bit s a \<mapsto> d \<or> store), m)"
| fill: "L (drop_bit s a) = None \<Longrightarrow> mh m (a AND NOT (mask s)) (2 ^ s) False = Some m' \<Longrightarrow>
    cache_step s mh (L, m) a store Miss (L(drop_bit s a \<mapsto> store), m')"
| evict: "L (drop_bit s a) = None \<Longrightarrow> L v = Some False \<Longrightarrow> mh m (a AND NOT (mask s)) (2 ^ s) False = Some m' \<Longrightarrow>
    cache_step s mh (L, m) a store Miss (L(v := None, drop_bit s a \<mapsto> store), m')"
| evict_dirty: "L (drop_bit s a) = None \<Longrightarrow> L v = Some True \<Longrightarrow> mh m (push_bit s v) (2 ^ s) True = Some m1 \<Longrightarrow>
    mh m1 (a AND NOT (mask s)) (2 ^ s) False = Some m' \<Longrightarrow>
    cache_step s mh (L, m) a store Miss_writeback (L(v := None, drop_bit s a \<mapsto> store), m')"

inductive_cases cache_stepE: "cache_step s mh (L, m) a store e (L', m')"

text \<open>What one access adds to the statistics.\<close>

definition add_event :: "u64 \<Rightarrow> bool \<Rightarrow> cache_event \<Rightarrow> 'z cache_sim_t_scheme \<Rightarrow> 'z cache_sim_t_scheme" where
  "add_event bytes store e c =
     (let c = count_access c bytes store;
          c = (if e = Hit then c else count_miss c store)
      in if e = Miss_writeback then count_writeback c else c)"

definition stats :: "'z cache_sim_t_scheme \<Rightarrow> u64 list" where
  "stats c = [read_accesses c, read_misses c, bytes_read c, write_accesses c, write_misses c, bytes_written c, writebacks c]"

definition geometry :: "'z cache_sim_t_scheme \<Rightarrow> u64 \<times> u64 \<times> u64 \<times> nat" where
  "geometry c = (sets c, ways c, linesz c, idx_shift c)"

lemmas count_defs = count_access_def count_miss_def count_writeback_def

lemma geometry_count [simp]:
  "geometry (count_access c n st) = geometry c" "geometry (count_miss c st) = geometry c"
  "geometry (count_writeback c) = geometry c"
  by (simp_all add: geometry_def count_defs)

lemma stats_count:
  "stats c = stats c' \<Longrightarrow> stats (count_writeback c) = stats (count_writeback c')"
  by (simp add: stats_def count_defs)

text \<open>A handler that is always defined on the states that satisfy its invariant.\<close>

definition handler_ok :: "('m \<Rightarrow> bool) \<Rightarrow> 'm handler \<Rightarrow> bool" where
  "handler_ok I mh \<longleftrightarrow> (\<forall>m a n st. I m \<longrightarrow> (\<exists>m'. mh m a n st = Some m' \<and> I m'))"

lemma handler_okE:
  assumes "handler_ok I mh" "I m"
  obtains m' where "mh m a n st = Some m'" "I m'"
  using assms unfolding handler_ok_def by blast

lemma handler_ok_none: "handler_ok (\<lambda>_. True) no_handler"
  by (simp add: handler_ok_def no_handler_def)

section \<open>The contract of a tag store\<close>

locale tag_store =
  fixes check_tag :: "'z cache_sim_t_scheme \<Rightarrow> u64 \<Rightarrow> 'p option option"
    and get_tag :: "'z cache_sim_t_scheme \<Rightarrow> 'p \<Rightarrow> u64 option"
    and set_tag :: "'z cache_sim_t_scheme \<Rightarrow> 'p \<Rightarrow> u64 \<Rightarrow> 'z cache_sim_t_scheme option"
    and victimize :: "'z cache_sim_t_scheme \<Rightarrow> u64 \<Rightarrow> (u64 \<times> 'z cache_sim_t_scheme) option"
    and invar :: "'z cache_sim_t_scheme \<Rightarrow> bool"
    and lines :: "'z cache_sim_t_scheme \<Rightarrow> lines"
  assumes invar_count: "invar (count_access c n st) = invar c" "invar (count_miss c st) = invar c"
      "invar (count_writeback c) = invar c"
    and lines_count: "lines (count_access c n st) = lines c" "lines (count_miss c st) = lines c"
      "lines (count_writeback c) = lines c"
    and shape: "invar c \<Longrightarrow> 3 \<le> idx_shift c \<and> idx_shift c < 64 \<and> linesz c = 2 ^ idx_shift c"
    and line_range: "invar c \<Longrightarrow> lines c l \<noteq> None \<Longrightarrow> unat l < 2 ^ (64 - idx_shift c)"
    and capacity: "invar c \<Longrightarrow> finite (dom (lines c)) \<and> card (dom (lines c)) \<le> unat (sets c) * unat (ways c)"
    and check_miss: "invar c \<Longrightarrow> lines c (drop_bit (idx_shift c) a) = None \<Longrightarrow> check_tag c a = Some None"
    and check_hit: "invar c \<Longrightarrow> lines c (drop_bit (idx_shift c) a) = Some d \<Longrightarrow>
      \<exists>p t. check_tag c a = Some (Some p) \<and> get_tag c p = Some t \<and> is_valid t \<and> is_dirty t = d"
    and set_flags: "invar c \<Longrightarrow> check_tag c a = Some (Some p) \<Longrightarrow> get_tag c p = Some t \<Longrightarrow>
      tag_line t' = tag_line t \<Longrightarrow> is_valid t' \<Longrightarrow>
      \<exists>c'. set_tag c p t' = Some c' \<and> invar c' \<and> lines c' = (lines c)(drop_bit (idx_shift c) a \<mapsto> is_dirty t')
        \<and> get_tag c' p = Some t' \<and> stats c' = stats c \<and> geometry c' = geometry c"
    and victim: "invar c \<Longrightarrow> lines c (drop_bit (idx_shift c) a) = None \<Longrightarrow>
      \<exists>v c'. victimize c a = Some (v, c') \<and> invar c' \<and> stats c' = stats c \<and> geometry c' = geometry c \<and>
        (if is_valid v then lines c (tag_line v) = Some (is_dirty v) \<and>
            lines c' = (lines c)(tag_line v := None, drop_bit (idx_shift c) a \<mapsto> False)
         else lines c' = (lines c)(drop_bit (idx_shift c) a \<mapsto> False))"
begin

abbreviation access :: "'m handler \<Rightarrow> ('z cache_sim_t_scheme \<times> 'm) handler" where
  "access \<equiv> cache_access check_tag get_tag set_tag victimize"

text \<open>Setting the dirty bit through the pointer that \<open>check_tag\<close> returns.\<close>

lemma mark_dirty:
  assumes c: "invar c" and l: "lines c (drop_bit (idx_shift c) a) = Some d"
  obtains p t c' where "check_tag c a = Some (Some p)" "get_tag c p = Some t" "set_tag c p (t OR DIRTY) = Some c'"
    "invar c'" "lines c' = (lines c)(drop_bit (idx_shift c) a \<mapsto> True)" "stats c' = stats c" "geometry c' = geometry c"
proof -
  obtain p t where pt: "check_tag c a = Some (Some p)" "get_tag c p = Some t" "is_valid t"
    using check_hit [OF c l] by blast
  from set_flags [OF c pt(1,2), of "t OR DIRTY"] pt that show ?thesis by (auto simp: tag_simps)
qed

lemma access_hit:
  assumes c: "invar c" and l: "lines c (drop_bit (idx_shift c) a) = Some d"
  shows "\<exists>c'. access mh (c, m) a n st = Some (c', m) \<and> invar c' \<and>
    lines c' = (lines c)(drop_bit (idx_shift c) a \<mapsto> d \<or> st) \<and>
    stats c' = stats (add_event n st Hit c) \<and> geometry c' = geometry c"
proof -
  define c0 where "c0 = count_access c n st"
  have c0: "invar c0" "lines c0 = lines c" "geometry c0 = geometry c" "idx_shift c0 = idx_shift c"
    "stats (add_event n st Hit c) = stats c0"
    using c by (simp_all add: c0_def invar_count lines_count add_event_def) (simp add: count_defs)
  obtain p t c1 where h: "check_tag c0 a = Some (Some p)" "get_tag c0 p = Some t" "set_tag c0 p (t OR DIRTY) = Some c1"
    "invar c1" "lines c1 = (lines c0)(drop_bit (idx_shift c0) a \<mapsto> True)" "stats c1 = stats c0" "geometry c1 = geometry c0"
    using mark_dirty [OF c0(1), of a d] l c0 by auto
  have "(lines c)(drop_bit (idx_shift c) a \<mapsto> d) = lines c" using l by (rule map_upd_triv)
  then show ?thesis using h c0 by (simp add: cache_access_def c0_def [symmetric])
qed

text \<open>The end of a miss: with the line present, a store marks it dirty.\<close>

lemma finish_miss:
  assumes c: "invar c" and l: "lines c (drop_bit (idx_shift c) a) = Some False"
  shows "\<exists>c'. (if st then do { hit_way \<leftarrow> check_tag c a; p \<leftarrow> hit_way; t \<leftarrow> get_tag c p; c \<leftarrow> set_tag c p (t OR DIRTY); Some (c, m) }
      else Some (c, m)) = Some (c', m) \<and> invar c' \<and> lines c' = (lines c)(drop_bit (idx_shift c) a \<mapsto> st) \<and>
      stats c' = stats c \<and> geometry c' = geometry c"
proof (cases st)
  case True
  obtain p t c' where "check_tag c a = Some (Some p)" "get_tag c p = Some t" "set_tag c p (t OR DIRTY) = Some c'"
    "invar c'" "lines c' = (lines c)(drop_bit (idx_shift c) a \<mapsto> True)" "stats c' = stats c" "geometry c' = geometry c"
    by (rule mark_dirty [OF c l])
  with True show ?thesis by simp
next
  case False
  have "(lines c)(drop_bit (idx_shift c) a \<mapsto> False) = lines c" using l by (rule map_upd_triv)
  with False c show ?thesis by simp
qed

lemma access_miss:
  assumes c: "invar c" and l: "lines c (drop_bit (idx_shift c) a) = None" and mh: "handler_ok I mh" "I m"
  shows "\<exists>c' m' e. access mh (c, m) a n st = Some (c', m') \<and> invar c' \<and> I m' \<and>
    cache_step (idx_shift c) mh (lines c, m) a st e (lines c', m') \<and>
    stats c' = stats (add_event n st e c) \<and> geometry c' = geometry c"
proof -
  define c0 where "c0 = count_miss (count_access c n st) st"
  have c0: "invar c0" "lines c0 = lines c" "geometry c0 = geometry c" "idx_shift c0 = idx_shift c"
    "check_tag (count_access c n st) a = Some None"
    using c l check_miss [of "count_access c n st" a]
    by (simp_all add: c0_def invar_count lines_count) (simp_all add: count_defs)
  obtain v c1 where v: "victimize c0 a = Some (v, c1)" "invar c1" "stats c1 = stats c0" "geometry c1 = geometry c0"
    and vl: "if is_valid v then lines c (tag_line v) = Some (is_dirty v) \<and>
            lines c1 = (lines c)(tag_line v := None, drop_bit (idx_shift c) a \<mapsto> False)
         else lines c1 = (lines c)(drop_bit (idx_shift c) a \<mapsto> False)"
    using victim [of c0 a, unfolded c0(2,4), OF c0(1) l] by blast
  define wb where "wb = (is_valid v \<and> is_dirty v)"
  define c2 where "c2 = (if wb then count_writeback c1 else c1)"
  have c2: "invar c2" "lines c2 = lines c1" "geometry c2 = geometry c"
    using v c0(3) by (simp_all add: c2_def invar_count lines_count)
  have g: "idx_shift c1 = idx_shift c" "idx_shift c2 = idx_shift c" "linesz c1 = 2 ^ idx_shift c" "linesz c2 = 2 ^ idx_shift c"
    using c2(3) v(4) c0(3) shape [OF c] by (simp_all add: geometry_def)
  have m: "2 ^ idx_shift c - 1 = (mask (idx_shift c) :: u64)" by (simp add: mask_eq_exp_minus_1)
  define m1 where "m1 = (if wb then mh m (push_bit (idx_shift c) (tag_line v)) (2 ^ idx_shift c) True else Some m)"
  obtain m1' where m1': "m1 = Some m1'" "I m1'"
    unfolding m1_def using mh by (cases wb) (auto elim: handler_okE)
  obtain m2 where m2: "mh m1' (a AND NOT (mask (idx_shift c))) (2 ^ idx_shift c) False = Some m2" "I m2"
    using handler_okE [OF mh(1) m1'(2)] by blast
  have "lines c2 (drop_bit (idx_shift c2) a) = Some False" using vl by (auto simp: c2(2) g split: if_splits)
  from finish_miss [OF c2(1) this, of st m2] obtain c3 where c3:
    "(if st then do { hit_way \<leftarrow> check_tag c2 a; p \<leftarrow> hit_way; t \<leftarrow> get_tag c2 p; c \<leftarrow> set_tag c2 p (t OR DIRTY); Some (c, m2) }
      else Some (c2, m2)) = Some (c3, m2)" "invar c3" "lines c3 = (lines c1)(drop_bit (idx_shift c) a \<mapsto> st)"
      "stats c3 = stats c2" "geometry c3 = geometry c"
    by (auto simp: c2 g)
  define e where "e = (if wb then Miss_writeback else Miss)"
  have st: "stats c3 = stats (add_event n st e c)"
    using c3(4) v(3) stats_count [OF v(3)] by (simp add: c2_def add_event_def Let_def e_def c0_def)
  have vt: "v AND (VALID OR DIRTY) = VALID OR DIRTY \<longleftrightarrow> wb" by (simp only: tag_simps wb_def)
  have w2: "wb \<Longrightarrow> count_writeback c1 = c2" "\<not> wb \<Longrightarrow> c1 = c2" by (simp_all add: c2_def)
  have acc: "access mh (c, m) a n st = Some (c3, m2)"
  proof (cases wb)
    case True
    then show ?thesis
      unfolding cache_access_def Let_def prod.case c0(5) bind.bind_lunit option.case c0_def [symmetric] v(1) vt w2(1) [OF True]
      using m1' m2(1) c3(1) by (simp only: if_True bind.bind_lunit prod.case g m1_def m tag_line_def)
  next
    case False
    then show ?thesis
      unfolding cache_access_def Let_def prod.case c0(5) bind.bind_lunit option.case c0_def [symmetric] v(1) vt w2(2) [OF False]
      using m1' m2(1) c3(1) by (simp only: if_False bind.bind_lunit prod.case g m1_def m option.inject)
  qed
  have "cache_step (idx_shift c) mh (lines c, m) a st e (lines c3, m2)"
  proof (cases "is_valid v")
    case True
    then show ?thesis
      using vl l m1' m2(1) by (cases "is_dirty v") (auto simp: e_def wb_def m1_def c3(3) intro: cache_step.intros)
  next
    case False
    then show ?thesis using vl l m1' m2(1) by (auto simp: e_def wb_def m1_def c3(3) intro: cache_step.intros)
  qed
  with acc c3 m2 st show ?thesis by blast
qed

theorem access_refines:
  assumes "invar c" "handler_ok I mh" "I m"
  shows "\<exists>c' m' e. access mh (c, m) a n st = Some (c', m') \<and> invar c' \<and> I m' \<and>
    cache_step (idx_shift c) mh (lines c, m) a st e (lines c', m') \<and>
    stats c' = stats (add_event n st e c) \<and> geometry c' = geometry c"
proof (cases "lines c (drop_bit (idx_shift c) a)")
  case None
  then show ?thesis using assms by (intro access_miss)
next
  case (Some d)
  from access_hit [OF assms(1) Some, of mh m n st] cache_step.hit [of "lines c" "idx_shift c" a, OF Some] assms(3)
  show ?thesis by metis
qed

text \<open>Thus a cache is itself a handler for the caches above it.\<close>

lemma access_handler: "handler_ok I mh \<Longrightarrow> handler_ok (\<lambda>(c, m). invar c \<and> I m) (access mh)"
  unfolding handler_ok_def [of "\<lambda>(c, m). invar c \<and> I m"] using access_refines by (fastforce simp del: split_paired_All)

lemma access_present:
  assumes "invar c" "handler_ok I mh" "I m" "access mh (c, m) a n st = Some (c', m')"
  shows "lines c' (drop_bit (idx_shift c') a) \<noteq> None"
    "access mh (c', m') a n' False = Some (count_access c' n' False, m')"
proof -
  from access_refines [OF assms(1-3), of a n st] assms(4)
  have c': "invar c'" and "geometry c' = geometry c" and step: "\<exists>e. cache_step (idx_shift c) mh (lines c, m) a st e (lines c', m')"
    by auto
  then have g: "idx_shift c' = idx_shift c" by (simp add: geometry_def)
  from step show p: "lines c' (drop_bit (idx_shift c') a) \<noteq> None" by (auto simp: g elim!: cache_stepE)
  then obtain d where d: "lines c' (drop_bit (idx_shift c') a) = Some d" by blast
  have "idx_shift (count_access c' n' False) = idx_shift c'" by (simp add: count_defs)
  then obtain q where "check_tag (count_access c' n' False) a = Some (Some q)"
    using check_hit [of "count_access c' n' False" a d] c' d by (auto simp: invar_count lines_count)
  then show "access mh (c', m') a n' False = Some (count_access c' n' False, m')"
    by (simp add: cache_access_def)
qed

end

end
