(* ===== verification/Cache_Tags.thy ===== *)
theory Cache_Tags
  imports Cache_Contract
begin

text \<open>
  The two tag stores of \<open>cachesim.cc\<close> keep the contract of \<open>tag_store\<close>: the array of the base class,
  which looks a line up in the ways of its set, and the map of the fully associative cache.
\<close>

section \<open>The tag array\<close>

definition tag_map :: "u64 list \<Rightarrow> lines" where
  "tag_map ts l = map_option (\<lambda>t. is_dirty t) (find (\<lambda>t. is_valid t \<and> tag_line t = l) ts)"

definition unique_tags :: "u64 list \<Rightarrow> bool" where
  "unique_tags ts \<longleftrightarrow> distinct (map tag_line (filter (\<lambda>t. is_valid t) ts))"

definition set_index :: "'z cache_sim_t_scheme \<Rightarrow> u64 \<Rightarrow> nat" where
  "set_index c l = unat (l AND (sets c - 1))"

definition cache_shape :: "'z cache_sim_t_scheme \<Rightarrow> bool" where
  "cache_shape c \<longleftrightarrow> 3 \<le> idx_shift c \<and> idx_shift c < 64 \<and> linesz c = 2 ^ idx_shift c \<and>
     sets c \<noteq> 0 \<and> sets c AND (sets c - 1) = 0 \<and> ways c \<noteq> 0 \<and> unat (sets c) * unat (ways c) < 2 ^ 60"

definition sa_wf :: "'z cache_sim_t_scheme \<Rightarrow> bool" where
  "sa_wf c \<longleftrightarrow> cache_shape c \<and> length (tags c) = unat (sets c) * unat (ways c) \<and> unique_tags (tags c) \<and>
     (\<forall>i \<in> {0..<length (tags c)}. is_valid (tags c ! i) \<longrightarrow>
        set_index c (tag_line (tags c ! i)) = i div unat (ways c) \<and> unat (tag_line (tags c ! i)) < 2 ^ (64 - idx_shift c))"

definition sa_lines :: "'z cache_sim_t_scheme \<Rightarrow> lines" where
  "sa_lines c = tag_map (tags c)"

lemma unique_tags_nth:
  "unique_tags ts \<longleftrightarrow> (\<forall>i<length ts. \<forall>j<length ts. is_valid (ts ! i) \<longrightarrow> is_valid (ts ! j) \<longrightarrow>
     tag_line (ts ! i) = tag_line (ts ! j) \<longrightarrow> i = j)"
proof (induction ts)
  case (Cons t ts)
  have "unique_tags (t # ts) \<longleftrightarrow> (is_valid t \<longrightarrow> (\<forall>j<length ts. is_valid (ts ! j) \<longrightarrow> tag_line (ts ! j) \<noteq> tag_line t)) \<and> unique_tags ts"
    by (auto simp: unique_tags_def in_set_conv_nth image_iff)
  then show ?case unfolding Cons.IH by (simp add: All_less_Suc2) fastforce
qed (simp add: unique_tags_def)

lemma tag_map_Some:
  assumes "unique_tags ts"
  shows "tag_map ts l = Some d \<longleftrightarrow> (\<exists>i<length ts. is_valid (ts ! i) \<and> tag_line (ts ! i) = l \<and> is_dirty (ts ! i) = d)"
proof
  assume "tag_map ts l = Some d"
  then show "\<exists>i<length ts. is_valid (ts ! i) \<and> tag_line (ts ! i) = l \<and> is_dirty (ts ! i) = d"
    by (auto simp: tag_map_def find_Some_iff)
next
  assume "\<exists>i<length ts. is_valid (ts ! i) \<and> tag_line (ts ! i) = l \<and> is_dirty (ts ! i) = d"
  then obtain i where i: "i < length ts" "is_valid (ts ! i)" "tag_line (ts ! i) = l" "is_dirty (ts ! i) = d" by blast
  have "\<not> (is_valid (ts ! j) \<and> tag_line (ts ! j) = l)" if "j < i" for j
    using assms [unfolded unique_tags_nth, rule_format, of i j] i that by auto
  then have "find (\<lambda>t. is_valid t \<and> tag_line t = l) ts = Some (ts ! i)"
    unfolding find_Some_iff using i by (intro exI [of _ i]) simp
  with i show "tag_map ts l = Some d" by (simp add: tag_map_def)
qed

lemma tag_map_None: "tag_map ts l = None \<longleftrightarrow> (\<forall>t \<in> set ts. is_valid t \<longrightarrow> tag_line t \<noteq> l)"
  by (auto simp: tag_map_def find_None_iff)

lemma map_eqI: "(\<And>x y. f x = Some y \<longleftrightarrow> g x = Some y) \<Longrightarrow> f = g"
  by (rule ext) (metis option.exhaust)

lemma tag_map_update:
  assumes u: "unique_tags ts" and i: "i < length ts"
    and t: "is_valid t \<Longrightarrow> \<forall>j<length ts. j \<noteq> i \<longrightarrow> is_valid (ts ! j) \<longrightarrow> tag_line (ts ! j) \<noteq> tag_line t"
  shows "unique_tags (ts[i := t])"
    "tag_map (ts[i := t]) =
      (let L = (if is_valid (ts ! i) then (tag_map ts)(tag_line (ts ! i) := None) else tag_map ts)
       in if is_valid t then L(tag_line t \<mapsto> is_dirty t) else L)" (is "_ = ?R")
proof -
  show u': "unique_tags (ts[i := t])"
    using u t i unfolding unique_tags_nth by (auto simp: nth_list_update)
  have "tag_map (ts[i := t]) l = Some d \<longleftrightarrow> ?R l = Some d" for l d
  proof (cases "is_valid t \<and> tag_line t = l")
    case True
    then show ?thesis unfolding tag_map_Some [OF u'] using i t by (auto simp: nth_list_update)
  next
    case False
    have n: "tag_map (ts[i := t]) l = Some d \<longleftrightarrow>
        (\<exists>j<length ts. j \<noteq> i \<and> is_valid (ts ! j) \<and> tag_line (ts ! j) = l \<and> is_dirty (ts ! j) = d)"
      unfolding tag_map_Some [OF u'] using i False by (auto simp: nth_list_update)
    show ?thesis
    proof (cases "is_valid (ts ! i) \<and> tag_line (ts ! i) = l")
      case True
      then have "\<not> (j < length ts \<and> j \<noteq> i \<and> is_valid (ts ! j) \<and> tag_line (ts ! j) = l)" for j
        using u i unfolding unique_tags_nth by metis
      then have "\<not> (\<exists>j<length ts. j \<noteq> i \<and> is_valid (ts ! j) \<and> tag_line (ts ! j) = l \<and> is_dirty (ts ! j) = d)" by blast
      moreover have "?R l = None" using True False by (auto simp: Let_def)
      ultimately show ?thesis unfolding n by simp
    next
      case other: False
      have "?R l = tag_map ts l" using False other by (auto simp: Let_def)
      then show ?thesis unfolding n using tag_map_Some [OF u, of l d] other by auto
    qed
  qed
  then show "tag_map (ts[i := t]) = ?R" by (rule map_eqI)
qed

lemma card_tag_map: "finite (dom (tag_map ts)) \<and> card (dom (tag_map ts)) \<le> length ts"
proof -
  have "dom (tag_map ts) \<subseteq> tag_line ` set ts" using tag_map_None [of ts] by (auto simp: image_iff) (metis option.distinct(1))
  moreover have "card (tag_line ` set ts) \<le> length ts" by (metis card_image_le card_length finite_set le_trans)
  ultimately show ?thesis by (meson card_mono finite_imageI finite_set finite_subset le_trans)
qed

lemma check_ways_find:
  "p + n \<le> length ts \<Longrightarrow> check_ways ts tag p n = Some (find (\<lambda>i. tag = ts ! i AND NOT DIRTY) [p..<p + n])"
  by (induction n arbitrary: p) (simp_all add: vec_simps upt_conv_Cons del: upt_Suc)

lemma set_index_less: "cache_shape c \<Longrightarrow> set_index c l < unat (sets c)"
proof -
  assume "cache_shape c"
  then have "sets c \<noteq> 0" by (simp add: cache_shape_def)
  then have "unat (sets c - 1) < unat (sets c)" by (simp add: unat_gt_0 unat_minus_one)
  moreover have "unat (l AND (sets c - 1)) \<le> unat (sets c - 1)" by (rule word_and_le1 [THEN word_le_nat_alt [THEN iffD1]])
  ultimately show ?thesis by (simp add: set_index_def)
qed

lemma set_block:
  assumes "cache_shape c"
  shows "set_index c l * unat (ways c) + unat (ways c) \<le> unat (sets c) * unat (ways c)"
    "unat ((l AND (sets c - 1)) * ways c) = set_index c l * unat (ways c)"
    "x < ways c \<Longrightarrow> unat ((l AND (sets c - 1)) * ways c + x) = set_index c l * unat (ways c) + unat x"
proof -
  have "(set_index c l + 1) * unat (ways c) \<le> unat (sets c) * unat (ways c)"
    using set_index_less [OF assms, of l] by (intro mult_le_mono1) simp
  then show b: "set_index c l * unat (ways c) + unat (ways c) \<le> unat (sets c) * unat (ways c)" by simp
  have lt: "unat (sets c) * unat (ways c) < 2 ^ 60" using assms by (simp add: cache_shape_def)
  show i: "unat ((l AND (sets c - 1)) * ways c) = set_index c l * unat (ways c)"
    using b lt by (simp add: set_index_def unat_word_ariths)
  show "unat ((l AND (sets c - 1)) * ways c + x) = set_index c l * unat (ways c) + unat x" if "x < ways c"
    using b lt i that by (simp add: unat_word_ariths(1) word_less_nat_alt)
qed

lemma sa_shape: "sa_wf c \<Longrightarrow> cache_shape c" by (simp add: sa_wf_def)

text \<open>A line can only be in its own set, so the search through that set is complete.\<close>

lemma sa_check_tag_eq:
  fixes c :: "'z cache_sim_t_scheme"
  assumes wf: "sa_wf c"
  defines "l \<equiv> \<lambda>a. drop_bit (idx_shift c) a"
  shows "\<exists>r. sa_check_tag c a = Some r \<and>
    (case r of None \<Rightarrow> sa_lines c (l a) = None
     | Some p \<Rightarrow> p < length (tags c) \<and> is_valid (tags c ! p) \<and> tag_line (tags c ! p) = l a)"
proof -
  note sh = sa_shape [OF wf]
  define w where "w = unat (ways c)"
  define b where "b = set_index c (l a) * w"
  have bl: "b + w \<le> length (tags c)" using set_block(1) [OF sh, of "l a"] wf by (simp add: b_def w_def sa_wf_def)
  have tl: "tag_line (l a) = l a" using sh by (simp add: l_def tag_line_small cache_shape_def)
  have m: "(l a OR VALID = t AND NOT DIRTY) \<longleftrightarrow> is_valid t \<and> tag_line t = l a" for t by (rule tag_match [OF tl])
  define r where "r = find (\<lambda>i. is_valid (tags c ! i) \<and> tag_line (tags c ! i) = l a) [b..<b + w]"
  have r: "sa_check_tag c a = Some r"
    using check_ways_find [OF bl, of "l a OR VALID"] set_block(2) [OF sh, of "l a"]
    by (simp add: sa_check_tag_def Let_def l_def [symmetric] b_def w_def m r_def)
  have "case r of None \<Rightarrow> sa_lines c (l a) = None
     | Some p \<Rightarrow> p < length (tags c) \<and> is_valid (tags c ! p) \<and> tag_line (tags c ! p) = l a"
  proof (cases r)
    case None
    have "\<not> (is_valid (tags c ! i) \<and> tag_line (tags c ! i) = l a)" if i: "i < length (tags c)" for i
    proof
      assume h: "is_valid (tags c ! i) \<and> tag_line (tags c ! i) = l a"
      then have "set_index c (l a) = i div w" using wf i by (auto simp: sa_wf_def w_def)
      moreover have "0 < w" using sh by (simp add: w_def cache_shape_def unat_gt_0)
      ultimately have "i \<in> {b..<b + w}" by (auto simp: b_def) (metis div_mod_decomp mod_less_divisor add.commute nat_add_left_cancel_less mult.commute)
      with None h show False by (auto simp: r_def find_None_iff)
    qed
    then show ?thesis using None by (auto simp: sa_lines_def tag_map_None in_set_conv_nth)
  next
    case (Some p)
    then have "p \<in> set [b..<b + w]" "is_valid (tags c ! p) \<and> tag_line (tags c ! p) = l a"
      by (auto simp: r_def find_Some_iff)
    with Some bl show ?thesis by simp
  qed
  with r show ?thesis by blast
qed

lemma sa_wf_update:
  assumes wf: "sa_wf c" and i: "i < length (tags c)" and c': "tags c' = (tags c)[i := t]" "geometry c' = geometry c"
    and t: "is_valid t \<Longrightarrow> set_index c (tag_line t) = i div unat (ways c) \<and> unat (tag_line t) < 2 ^ (64 - idx_shift c) \<and>
      (\<forall>j<length (tags c). j \<noteq> i \<longrightarrow> is_valid (tags c ! j) \<longrightarrow> tag_line (tags c ! j) \<noteq> tag_line t)"
  shows "sa_wf c'"
    "sa_lines c' = (let L = (if is_valid (tags c ! i) then (sa_lines c)(tag_line (tags c ! i) := None) else sa_lines c)
       in if is_valid t then L(tag_line t \<mapsto> is_dirty t) else L)"
proof -
  have u: "unique_tags (tags c)" using wf by (simp add: sa_wf_def)
  have t': "is_valid t \<Longrightarrow> \<forall>j<length (tags c). j \<noteq> i \<longrightarrow> is_valid (tags c ! j) \<longrightarrow> tag_line (tags c ! j) \<noteq> tag_line t"
    using t by blast
  have g: "sets c' = sets c" "ways c' = ways c" "idx_shift c' = idx_shift c" "linesz c' = linesz c"
    using c'(2) by (simp_all add: geometry_def)
  show "sa_wf c'"
    unfolding sa_wf_def cache_shape_def set_index_def g c'(1)
    using wf t i tag_map_update(1) [OF u i t'] by (auto simp: sa_wf_def cache_shape_def set_index_def nth_list_update)
  show "sa_lines c' = (let L = (if is_valid (tags c ! i) then (sa_lines c)(tag_line (tags c ! i) := None) else sa_lines c)
       in if is_valid t then L(tag_line t \<mapsto> is_dirty t) else L)"
    unfolding sa_lines_def c'(1) by (rule tag_map_update(2) [OF u i t'])
qed

lemma sa_wf_count [simp]:
  "sa_wf (count_access c n st) = sa_wf c" "sa_wf (count_miss c st) = sa_wf c" "sa_wf (count_writeback c) = sa_wf c"
  by (simp_all add: sa_wf_def cache_shape_def set_index_def count_defs)

lemma sa_lines_count [simp]:
  "sa_lines (count_access c n st) = sa_lines c" "sa_lines (count_miss c st) = sa_lines c" "sa_lines (count_writeback c) = sa_lines c"
  by (simp_all add: sa_lines_def count_defs)

lemma sa_lines_Some:
  "sa_wf c \<Longrightarrow> sa_lines c l = Some d \<longleftrightarrow>
    (\<exists>i<length (tags c). is_valid (tags c ! i) \<and> tag_line (tags c ! i) = l \<and> is_dirty (tags c ! i) = d)"
  by (simp add: sa_lines_def tag_map_Some sa_wf_def)

lemma sa_placed:
  "sa_wf c \<Longrightarrow> i < length (tags c) \<Longrightarrow> is_valid (tags c ! i) \<Longrightarrow>
    set_index c (tag_line (tags c ! i)) = i div unat (ways c) \<and> unat (tag_line (tags c ! i)) < 2 ^ (64 - idx_shift c)"
  by (simp add: sa_wf_def)

lemma sa_unique:
  "sa_wf c \<Longrightarrow> i < length (tags c) \<Longrightarrow> j < length (tags c) \<Longrightarrow> is_valid (tags c ! i) \<Longrightarrow> is_valid (tags c ! j) \<Longrightarrow>
    tag_line (tags c ! i) = tag_line (tags c ! j) \<Longrightarrow> i = j"
  by (simp add: sa_wf_def unique_tags_nth)

lemma sa_check_hit:
  assumes wf: "sa_wf c" and l: "sa_lines c (drop_bit (idx_shift c) a) = Some d"
  shows "\<exists>p t. sa_check_tag c a = Some (Some p) \<and> sa_get c p = Some t \<and> is_valid t \<and> is_dirty t = d"
proof -
  obtain p where p: "sa_check_tag c a = Some (Some p)" "p < length (tags c)" "is_valid (tags c ! p)"
    "tag_line (tags c ! p) = drop_bit (idx_shift c) a"
    using sa_check_tag_eq [OF wf, of a] l by (auto split: option.splits)
  from l obtain i where "i < length (tags c)" "is_valid (tags c ! i)" "tag_line (tags c ! i) = drop_bit (idx_shift c) a" "is_dirty (tags c ! i) = d"
    unfolding sa_lines_Some [OF wf] by blast
  then have "is_dirty (tags c ! p) = d" using sa_unique [OF wf, of i p] p by simp
  with p show ?thesis by (simp add: sa_get_def vec_simps)
qed

lemma sa_write:
  assumes wf: "sa_wf c" and p: "p < length (tags c)" "is_valid (tags c ! p)" and t': "tag_line t' = tag_line (tags c ! p)"
    and c': "tags c' = (tags c)[p := t']" "geometry c' = geometry c"
  shows "sa_wf c'" "sa_lines c' = (sa_lines c)(tag_line t' := if is_valid t' then Some (is_dirty t') else None)"
proof -
  have "set_index c (tag_line t') = p div unat (ways c) \<and> unat (tag_line t') < 2 ^ (64 - idx_shift c) \<and>
      (\<forall>j<length (tags c). j \<noteq> p \<longrightarrow> is_valid (tags c ! j) \<longrightarrow> tag_line (tags c ! j) \<noteq> tag_line t')"
    using sa_placed [OF wf p] sa_unique [OF wf p(1) _ p(2)] unfolding t' by metis
  note U = sa_wf_update [OF wf p(1) c' this]
  show "sa_wf c'" by (rule U(1))
  show "sa_lines c' = (sa_lines c)(tag_line t' := if is_valid t' then Some (is_dirty t') else None)"
    using U(2) t' p by (simp add: Let_def fun_upd_upd)
qed

lemma sa_set_flags:
  assumes wf: "sa_wf c" and p: "sa_check_tag c a = Some (Some p)" "sa_get c p = Some t" and t': "tag_line t' = tag_line t" "is_valid t'"
  shows "\<exists>c'. sa_set c p t' = Some c' \<and> sa_wf c' \<and> sa_lines c' = (sa_lines c)(drop_bit (idx_shift c) a \<mapsto> is_dirty t') \<and>
    sa_get c' p = Some t' \<and> stats c' = stats c \<and> geometry c' = geometry c"
proof -
  have h: "p < length (tags c)" "is_valid (tags c ! p)" "tag_line (tags c ! p) = drop_bit (idx_shift c) a" "t = tags c ! p"
    using sa_check_tag_eq [OF wf, of a] p by (auto simp: sa_get_def vec_at_Some_iff)
  define c' where "c' = c\<lparr>tags := (tags c)[p := t']\<rparr>"
  have e: "sa_set c p t' = Some c'" "sa_get c' p = Some t'" using h(1) by (simp_all add: sa_set_def sa_get_def c'_def vec_simps)
  have g: "geometry c' = geometry c" "stats c' = stats c" by (simp_all add: c'_def geometry_def stats_def)
  have "tag_line t' = tag_line (tags c ! p)" "tags c' = (tags c)[p := t']" using t' h by (simp_all add: c'_def)
  from sa_write [OF wf h(1,2) this g(1)] show ?thesis using e g h t' by simp
qed

lemma unat_drop_bit_div: "unat (drop_bit n (a :: 'a::len word)) = unat a div 2 ^ n"
  by (metis unat_drop_bit_eq drop_bit_eq_div)

lemma line_less:
  assumes "s \<le> 64"
  shows "unat (drop_bit s (a :: u64)) < 2 ^ (64 - s)"
proof -
  have "2 ^ 64 = (2::nat) ^ (64 - s) * 2 ^ s" using assms by (simp flip: power_add)
  then have "unat a < 2 ^ (64 - s) * 2 ^ s" using unat_lt2p [of a] by simp
  then show ?thesis unfolding unat_drop_bit_div by (rule less_mult_imp_div_less)
qed

lemma sa_victim:
  assumes wf: "sa_wf c" and l: "sa_lines c (drop_bit (idx_shift c) a) = None"
  shows "\<exists>v c'. sa_victimize c a = Some (v, c') \<and> sa_wf c' \<and> stats c' = stats c \<and> geometry c' = geometry c \<and>
        (if is_valid v then sa_lines c (tag_line v) = Some (is_dirty v) \<and>
            sa_lines c' = (sa_lines c)(tag_line v := None, drop_bit (idx_shift c) a \<mapsto> False)
         else sa_lines c' = (sa_lines c)(drop_bit (idx_shift c) a \<mapsto> False))"
proof -
  note sh = sa_shape [OF wf]
  define l where "l = drop_bit (idx_shift c) a"
  define w :: u64 where "w = ucast (lfsr_next (lfsr c)) mod ways c"
  define i where "i = set_index c l * unat (ways c) + unat w"
  have w0: "ways c \<noteq> 0" using sh by (simp add: cache_shape_def)
  then have wl: "w < ways c" by (simp add: w_def word_mod_less_divisor word_gt_0)
  have ie: "unat ((l AND (sets c - 1)) * ways c + w) = i" using set_block(3) [OF sh wl, of l] by (simp add: i_def)
  have il: "i < length (tags c)"
    using set_block(1) [OF sh, of l] wl wf by (simp add: i_def sa_wf_def word_less_nat_alt)
  have id: "i div unat (ways c) = set_index c l" using wl by (simp add: i_def word_less_nat_alt)
  define c' where "c' = c\<lparr>lfsr := lfsr_next (lfsr c), tags := (tags c)[i := l OR VALID]\<rparr>"
  have v: "sa_victimize c a = Some (tags c ! i, c')"
    using w0 il ie by (simp add: sa_victimize_def Let_def l_def [symmetric] w_def [symmetric] vec_simps c'_def)
  have g: "geometry c' = geometry c" "stats c' = stats c" by (simp_all add: c'_def geometry_def stats_def)
  have tl: "tag_line l = l" "\<not> is_dirty l" 
    using sh tag_line_small [of "idx_shift c" a] bit_tag_line [of l 62] by (simp_all add: l_def cache_shape_def)
  have lb: "unat l < 2 ^ (64 - idx_shift c)" using sh by (simp add: l_def line_less cache_shape_def)
  have nl: "\<forall>j<length (tags c). is_valid (tags c ! j) \<longrightarrow> tag_line (tags c ! j) \<noteq> l"
    using assms(2) by (simp add: sa_lines_def tag_map_None l_def)
  then have T: "set_index c (tag_line (l OR VALID)) = i div unat (ways c) \<and> unat (tag_line (l OR VALID)) < 2 ^ (64 - idx_shift c) \<and>
      (\<forall>j<length (tags c). j \<noteq> i \<longrightarrow> is_valid (tags c ! j) \<longrightarrow> tag_line (tags c ! j) \<noteq> tag_line (l OR VALID))"
    using lb id by (simp add: tag_simps tl)
  note U = sa_wf_update [OF wf il _ g(1), of "l OR VALID", OF _ T]
  have "sa_wf c'" by (rule U(1)) (simp add: c'_def)
  moreover have "sa_lines c' = (let L = (if is_valid (tags c ! i) then (sa_lines c)(tag_line (tags c ! i) := None) else sa_lines c) in L(l \<mapsto> False))"
    using U(2) tl by (simp add: c'_def tag_simps)
  moreover have "is_valid (tags c ! i) \<Longrightarrow> sa_lines c (tag_line (tags c ! i)) = Some (is_dirty (tags c ! i))"
    using sa_lines_Some [OF wf] il by auto
  ultimately show ?thesis using v g unfolding l_def [symmetric] by (intro exI [of _ "tags c ! i"] exI [of _ c']) (simp add: Let_def)
qed

interpretation sa: tag_store sa_check_tag sa_get sa_set sa_victimize sa_wf sa_lines
proof unfold_locales
  fix c :: "'z cache_sim_t_scheme"
  assume wf: "sa_wf c"
  show "3 \<le> idx_shift c \<and> idx_shift c < 64 \<and> linesz c = 2 ^ idx_shift c" using sa_shape [OF wf] by (simp add: cache_shape_def)
  show "finite (dom (sa_lines c)) \<and> card (dom (sa_lines c)) \<le> unat (sets c) * unat (ways c)"
    using card_tag_map [of "tags c"] wf by (simp add: sa_lines_def sa_wf_def)
  show "unat l < 2 ^ (64 - idx_shift c)" if "sa_lines c l \<noteq> None" for l
    using that sa_placed [OF wf] by (auto simp: sa_lines_Some [OF wf])
  show "sa_check_tag c a = Some None" if "sa_lines c (drop_bit (idx_shift c) a) = None" for a
    using sa_check_tag_eq [OF wf, of a] that by (auto simp: sa_lines_def tag_map_None split: option.splits)
  show "\<exists>p t. sa_check_tag c a = Some (Some p) \<and> sa_get c p = Some t \<and> is_valid t \<and> is_dirty t = d"
    if "sa_lines c (drop_bit (idx_shift c) a) = Some d" for a d using that by (rule sa_check_hit [OF wf])
  show "\<exists>c'. sa_set c p t' = Some c' \<and> sa_wf c' \<and> sa_lines c' = (sa_lines c)(drop_bit (idx_shift c) a \<mapsto> is_dirty t') \<and>
      sa_get c' p = Some t' \<and> stats c' = stats c \<and> geometry c' = geometry c"
    if "sa_check_tag c a = Some (Some p)" "sa_get c p = Some t" "tag_line t' = tag_line t" "is_valid t'" for a p t t'
    using sa_set_flags [OF wf that] .
  show "\<exists>v c'. sa_victimize c a = Some (v, c') \<and> sa_wf c' \<and> stats c' = stats c \<and> geometry c' = geometry c \<and>
        (if is_valid v then sa_lines c (tag_line v) = Some (is_dirty v) \<and>
            sa_lines c' = (sa_lines c)(tag_line v := None, drop_bit (idx_shift c) a \<mapsto> False)
         else sa_lines c' = (sa_lines c)(drop_bit (idx_shift c) a \<mapsto> False))"
    if "sa_lines c (drop_bit (idx_shift c) a) = None" for a using that by (rule sa_victim [OF wf])
qed simp_all

section \<open>The map of the fully associative cache\<close>

abbreviation sorted_keys :: "('k::linorder \<times> 'v) list \<Rightarrow> bool" where
  "sorted_keys es \<equiv> sorted_wrt (<) (map fst es)"

lemma sorted_keys_distinct: "sorted_keys es \<Longrightarrow> distinct (map fst es)"
  by (metis strict_sorted_iff)

lemma set_map_put: "sorted_keys es \<Longrightarrow> set (map_put k v es) = insert (k, v) {e \<in> set es. fst e \<noteq> k}"
  by (induction es) auto

lemma sorted_map_put: "sorted_keys es \<Longrightarrow> sorted_keys (map_put k v es)"
  by (induction es) (auto simp: set_map_put)

lemma map_of_map_put: "map_of (map_put k v es) = (map_of es)(k \<mapsto> v)"
  by (induction es) auto

lemma length_map_put: "sorted_keys es \<Longrightarrow> length (map_put k v es) = (if map_of es k = None then Suc (length es) else length es)"
  by (induction es) (auto simp: map_of_eq_None_iff)

lemma map_of_remove_nth:
  assumes "distinct (map fst es)" "n < length es"
  shows "map_of (take n es @ drop (Suc n) es) = (map_of es)(fst (es ! n) := None)"
  using assms
proof (induction es arbitrary: n)
  case (Cons e es)
  show ?case
  proof (cases n)
    case 0
    with Cons.prems show ?thesis by (auto simp: map_of_eq_None_iff fun_upd_def fun_eq_iff)
  next
    case (Suc m)
    with Cons.prems have "fst e \<noteq> fst (es ! m)" by (metis distinct.simps(2) length_Cons list.simps(9) nth_map nth_mem Suc_less_eq length_map)
    with Cons Suc show ?thesis by (auto simp: fun_upd_twist)
  qed
qed simp

lemma sorted_remove_nth:
  assumes "sorted_wrt P xs"
  shows "sorted_wrt P (take n xs @ drop (Suc n) xs)"
proof -
  have "sorted_wrt P (take n xs @ drop n xs)" using assms by simp
  moreover have "set (drop (Suc n) xs) \<subseteq> set (drop n xs)" by (rule set_drop_subset_set_drop) simp
  ultimately show ?thesis using assms unfolding sorted_wrt_append by (auto simp: sorted_wrt_drop)
qed

definition fa_wf :: "'z fa_cache_sim_t_scheme \<Rightarrow> bool" where
  "fa_wf c \<longleftrightarrow> cache_shape c \<and> length (fa_tags c) \<le> unat (sets c) * unat (ways c) \<and> sets c = 1 \<and> sorted_keys (fa_tags c) \<and>
     (\<forall>(k, t) \<in> set (fa_tags c). is_valid t \<and> tag_line t = k \<and> unat k < 2 ^ (64 - idx_shift c))"

definition fa_lines :: "'z fa_cache_sim_t_scheme \<Rightarrow> lines" where
  "fa_lines c l = map_option (\<lambda>t. is_dirty t) (map_of (fa_tags c) l)"

lemma fa_wf_count [simp]:
  "fa_wf (count_access c n st) = fa_wf c" "fa_wf (count_miss c st) = fa_wf c" "fa_wf (count_writeback c) = fa_wf c"
  by (simp_all add: fa_wf_def cache_shape_def count_defs)

lemma fa_lines_count [simp]:
  "fa_lines (count_access c n st) = fa_lines c" "fa_lines (count_miss c st) = fa_lines c" "fa_lines (count_writeback c) = fa_lines c"
  by (simp_all add: fa_lines_def fun_eq_iff count_defs)

lemma fa_entry: "fa_wf c \<Longrightarrow> map_of (fa_tags c) k = Some t \<Longrightarrow> is_valid t \<and> tag_line t = k \<and> unat k < 2 ^ (64 - idx_shift c)"
  by (auto simp: fa_wf_def dest!: map_of_SomeD)

lemma fa_lines_eq:
  "map_of (fa_tags c') = (map_of (fa_tags c))(k \<mapsto> t) \<Longrightarrow> fa_lines c' = (fa_lines c)(k \<mapsto> is_dirty t)"
  by (auto simp: fa_lines_def fun_eq_iff)

lemma fa_put_wf:
  assumes wf: "fa_wf c" and t: "is_valid t" "tag_line t = k" "unat k < 2 ^ (64 - idx_shift c)"
    and c': "geometry c' = geometry c" "fa_tags c' = map_put k t es" and es: "sorted_keys es" "set es \<subseteq> set (fa_tags c)"
    and len: "length (map_put k t es) \<le> unat (ways c)"
  shows "fa_wf c'"
proof -
  have g: "sets c' = sets c" "ways c' = ways c" "idx_shift c' = idx_shift c" "linesz c' = linesz c"
    using c'(1) by (simp_all add: geometry_def)
  show ?thesis
    unfolding fa_wf_def cache_shape_def g c'(2)
    using wf t es len by (auto simp: fa_wf_def cache_shape_def set_map_put sorted_map_put)
qed

lemma fa_set_flags:
  assumes wf: "fa_wf c" and p: "fa_check_tag c a = Some (Some p)" "fa_get c p = Some t" and t': "tag_line t' = tag_line t" "is_valid t'"
  shows "\<exists>c'. fa_set c p t' = Some c' \<and> fa_wf c' \<and> fa_lines c' = (fa_lines c)(drop_bit (idx_shift c) a \<mapsto> is_dirty t') \<and>
    fa_get c' p = Some t' \<and> stats c' = stats c \<and> geometry c' = geometry c"
proof -
  have h: "p = drop_bit (idx_shift c) a" "map_of (fa_tags c) p = Some t"
    using p by (auto simp: fa_check_tag_def fa_get_def split: option.splits)
  note e = fa_entry [OF wf h(2)]
  define c' where "c' = c\<lparr>fa_tags := map_put p t' (fa_tags c)\<rparr>"
  have so: "sorted_keys (fa_tags c)" "length (fa_tags c) \<le> unat (ways c)" using wf by (auto simp: fa_wf_def)
  have g: "geometry c' = geometry c" "stats c' = stats c" by (simp_all add: c'_def geometry_def stats_def)
  have "fa_wf c'"
    using t' e h(2) so by (intro fa_put_wf [OF wf t'(2) _ _ g(1)]) (auto simp: c'_def length_map_put)
  moreover have "fa_lines c' = (fa_lines c)(p \<mapsto> is_dirty t')"
    by (rule fa_lines_eq) (simp add: c'_def map_of_map_put)
  ultimately show ?thesis using h g by (intro exI [of _ c']) (simp add: fa_set_def fa_get_def c'_def map_of_map_put)
qed

lemma fa_victim:
  assumes wf: "fa_wf c" and l: "fa_lines c (drop_bit (idx_shift c) a) = None"
  shows "\<exists>v c'. fa_victimize c a = Some (v, c') \<and> fa_wf c' \<and> stats c' = stats c \<and> geometry c' = geometry c \<and>
        (if is_valid v then fa_lines c (tag_line v) = Some (is_dirty v) \<and>
            fa_lines c' = (fa_lines c)(tag_line v := None, drop_bit (idx_shift c) a \<mapsto> False)
         else fa_lines c' = (fa_lines c)(drop_bit (idx_shift c) a \<mapsto> False))"
proof -
  define l where "l = drop_bit (idx_shift c) a"
  have sh: "cache_shape c" "sorted_keys (fa_tags c)" "length (fa_tags c) \<le> unat (ways c)" using wf by (auto simp: fa_wf_def)
  have tl: "is_valid (l OR VALID)" "tag_line (l OR VALID) = l" "\<not> is_dirty (l OR VALID)" "unat l < 2 ^ (64 - idx_shift c)"
    using sh(1) tag_line_small [of "idx_shift c" a] bit_tag_line [of l 62] by (simp_all add: l_def cache_shape_def tag_simps line_less)
  have nl: "map_of (fa_tags c) l = None" using assms(2) by (simp add: fa_lines_def l_def)
  show ?thesis
  proof (cases "length (fa_tags c) = unat (ways c)")
    case False
    define c' where "c' = c\<lparr>fa_tags := map_put l (l OR VALID) (fa_tags c)\<rparr>"
    have g: "geometry c' = geometry c" "stats c' = stats c" by (simp_all add: c'_def geometry_def stats_def)
    have "fa_wf c'" using sh nl False tl by (intro fa_put_wf [OF wf tl(1,2,4) g(1)]) (auto simp: c'_def length_map_put)
    moreover have "fa_lines c' = (fa_lines c)(l \<mapsto> is_dirty (l OR VALID))"
      by (rule fa_lines_eq) (simp add: c'_def map_of_map_put)
    ultimately show ?thesis
      using False g tl by (intro exI [of _ 0] exI [of _ c']) (simp add: fa_victimize_def l_def [symmetric] c'_def)
  next
    case True
    define w :: u64 where "w = ucast (lfsr_next (lfsr c)) mod ways c"
    define es where "es = take (unat w) (fa_tags c) @ drop (Suc (unat w)) (fa_tags c)"
    define v where "v = snd (fa_tags c ! unat w)"
    define c' where "c' = c\<lparr>lfsr := lfsr_next (lfsr c), fa_tags := map_put l (l OR VALID) es\<rparr>"
    have w0: "ways c \<noteq> 0" using sh by (simp add: cache_shape_def)
    then have wl: "unat w < length (fa_tags c)"
      using True by (simp add: w_def word_mod_less_divisor word_gt_0 flip: word_less_nat_alt)
    have fv: "fa_victimize c a = Some (v, c')"
      using True w0 wl by (simp add: fa_victimize_def Let_def l_def [symmetric] w_def [symmetric] vec_simps v_def c'_def es_def)
    have g: "geometry c' = geometry c" "stats c' = stats c" by (simp_all add: c'_def geometry_def stats_def)
    note di = sorted_keys_distinct [OF sh(2)]
    have "fa_tags c ! unat w \<in> set (fa_tags c)" using wl by simp
    then have mv: "map_of (fa_tags c) (fst (fa_tags c ! unat w)) = Some v" using di by (simp add: v_def)
    note ev = fa_entry [OF wf mv]
    have me: "map_of es = (map_of (fa_tags c))(tag_line v := None)"
      unfolding es_def using map_of_remove_nth [OF di wl] ev by simp
    have se: "sorted_keys es" unfolding es_def map_append take_map [symmetric] drop_map [symmetric] by (rule sorted_remove_nth [OF sh(2)])
    have "map_of es l = None" using nl me by simp
    then have "length (map_put l (l OR VALID) es) \<le> unat (ways c)" using wl True unfolding length_map_put [OF se] by (simp add: es_def)
    moreover have "set es \<subseteq> set (fa_tags c)" by (auto simp: es_def dest: in_set_takeD in_set_dropD)
    ultimately have "fa_wf c'" by (intro fa_put_wf [OF wf tl(1,2,4) g(1) _ se]) (simp_all add: c'_def)
    moreover have "fa_lines c' = (fa_lines c)(tag_line v := None, l \<mapsto> False)"
      using me tl(3) by (simp add: fun_eq_iff fa_lines_def c'_def map_of_map_put)
    moreover have "fa_lines c (tag_line v) = Some (is_dirty v)" using mv ev by (simp add: fa_lines_def)
    ultimately show ?thesis using fv g ev unfolding l_def [symmetric] by auto
  qed
qed

interpretation fa: tag_store fa_check_tag fa_get fa_set fa_victimize fa_wf fa_lines
proof unfold_locales
  fix c :: "'z fa_cache_sim_t_scheme"
  assume wf: "fa_wf c"
  show "3 \<le> idx_shift c \<and> idx_shift c < 64 \<and> linesz c = 2 ^ idx_shift c" using wf by (simp add: fa_wf_def cache_shape_def)
  have "dom (fa_lines c) = fst ` set (fa_tags c)" by (auto simp: fa_lines_def dom_def map_of_eq_None_iff image_iff)
  then show "finite (dom (fa_lines c)) \<and> card (dom (fa_lines c)) \<le> unat (sets c) * unat (ways c)"
    using wf card_length [of "map fst (fa_tags c)"] by (auto simp: fa_wf_def)
  show "unat l < 2 ^ (64 - idx_shift c)" if "fa_lines c l \<noteq> None" for l
    using that fa_entry [OF wf, of l] by (auto simp: fa_lines_def)
  show "fa_check_tag c a = Some None" if "fa_lines c (drop_bit (idx_shift c) a) = None" for a
    using that by (simp add: fa_lines_def fa_check_tag_def)
  show "\<exists>p t. fa_check_tag c a = Some (Some p) \<and> fa_get c p = Some t \<and> is_valid t \<and> is_dirty t = d"
    if "fa_lines c (drop_bit (idx_shift c) a) = Some d" for a d
    using that fa_entry [OF wf] by (auto simp: fa_lines_def fa_check_tag_def fa_get_def)
  show "\<exists>c'. fa_set c p t' = Some c' \<and> fa_wf c' \<and> fa_lines c' = (fa_lines c)(drop_bit (idx_shift c) a \<mapsto> is_dirty t') \<and>
      fa_get c' p = Some t' \<and> stats c' = stats c \<and> geometry c' = geometry c"
    if "fa_check_tag c a = Some (Some p)" "fa_get c p = Some t" "tag_line t' = tag_line t" "is_valid t'" for a p t t'
    using fa_set_flags [OF wf that] .
  show "\<exists>v c'. fa_victimize c a = Some (v, c') \<and> fa_wf c' \<and> stats c' = stats c \<and> geometry c' = geometry c \<and>
        (if is_valid v then fa_lines c (tag_line v) = Some (is_dirty v) \<and>
            fa_lines c' = (fa_lines c)(tag_line v := None, drop_bit (idx_shift c) a \<mapsto> False)
         else fa_lines c' = (fa_lines c)(drop_bit (idx_shift c) a \<mapsto> False))"
    if "fa_lines c (drop_bit (idx_shift c) a) = None" for a using that by (rule fa_victim [OF wf])
qed simp_all

end
