(* ===== verification/Cache_Clean.thy ===== *)
theory Cache_Clean
  imports Cache_Tags
begin

text \<open>
  \<open>clean_invalidate\<close>: the loop over the lines of an address range ends, and on the set-associative cache
  it cleans and invalidates exactly these lines. On the fully associative cache invalidation has no
  effect on the lookup, as the map is searched by its keys and the valid bit is not read.
\<close>

section \<open>The loop\<close>

lemmas ci_loop_rec = ci_loop.simps

lemma ci_loop_done [simp]: "\<not> cur < end_addr \<Longrightarrow> ci_loop body l c cur end_addr = Some c"
  by (simp add: ci_loop_rec [of body l c cur])

lemma ci_loop_step: "cur < end_addr \<Longrightarrow>
    ci_loop body l c cur end_addr = do { c \<leftarrow> body c cur; ci_loop body l c (cur + l) end_addr }"
  by (simp add: ci_loop_rec [of body l c cur])

text \<open>
  From one multiple of the line size to another the loop visits the lines in between, whatever the body
  does, as long as it is defined and keeps its invariant.
\<close>

lemma unat_pow2:
  assumes "s < 64"
  shows "unat (2 ^ s :: u64) = 2 ^ s"
proof -
  have "(2::nat) ^ s < 2 ^ 64" using assms by (intro power_strict_increasing) auto
  then show ?thesis using unat_word_of_nat_small [of "2 ^ s", where ?'a = 64] by simp
qed

lemma ci_loop_lines:
  fixes cur end_addr :: u64
  assumes body: "\<And>c a. I c \<Longrightarrow> \<exists>c'. body c a = Some c' \<and> I c' \<and> f c' = (f c)(drop_bit s a := g (f c (drop_bit s a)))"
    and idem: "s < 64" and "I c" "unat cur = i * 2 ^ s" "unat end_addr = (i + k) * 2 ^ s"
  shows "\<exists>c'. ci_loop body (2 ^ s) c cur end_addr = Some c' \<and> I c' \<and>
    (\<forall>l. f c' l = (if i \<le> unat l \<and> unat l < i + k then g (f c l) else f c l))"
  using assms(3-)
proof (induction k arbitrary: c cur i)
  case 0
  then have "cur = end_addr" by (simp add: word_unat_eq_iff)
  then show ?case using 0 by auto
next
  case (Suc k)
  have lt: "i * 2 ^ s + 2 ^ s \<le> unat end_addr" using Suc.prems(3) by (simp add: algebra_simps)
  then have cur: "cur < end_addr" using Suc.prems(2) by (simp add: word_less_nat_alt) (meson less_le_trans less_add_same_cancel1 zero_less_numeral zero_less_power)
  have p: "unat (2 ^ s :: u64) = 2 ^ s" using idem by (rule unat_pow2)
  have "unat cur + 2 ^ s < 2 ^ 64" using lt Suc.prems(2) unat_lt2p [of end_addr] by simp
  then have "unat (cur + 2 ^ s) = unat cur + 2 ^ s" unfolding unat_word_ariths(1) p by simp
  then have cur': "unat (cur + 2 ^ s) = (i + 1) * 2 ^ s" using Suc.prems(2) by simp
  have li: "unat (drop_bit s cur) = i" using Suc.prems(2) unat_drop_bit_div [of s cur] by simp
  obtain c1 where c1: "body c cur = Some c1" "I c1" "f c1 = (f c)(drop_bit s cur := g (f c (drop_bit s cur)))"
    using body [OF Suc.prems(1)] by blast
  obtain c' where c': "ci_loop body (2 ^ s) c1 (cur + 2 ^ s) end_addr = Some c'" "I c'"
    "\<forall>l. f c' l = (if i + 1 \<le> unat l \<and> unat l < i + 1 + k then g (f c1 l) else f c1 l)"
    using Suc.IH [OF c1(2) cur'] Suc.prems(3) by auto
  have "f c' l = (if i \<le> unat l \<and> unat l < i + Suc k then g (f c l) else f c l)" for l
  proof -
    have "l = drop_bit s cur \<longleftrightarrow> unat l = i" using li by (simp add: word_unat_eq_iff)
    then show ?thesis using c'(3) c1(3) by (cases "unat l = i") auto
  qed
  then show ?case using c1(1) c'(1,2) cur by (auto simp: ci_loop_step)
qed

lemma and_not_mask_eq: "(a :: 'a::len word) AND NOT (mask s) = push_bit s (drop_bit s a)"
  by (rule bit_word_eqI) (auto simp: bit_simps)

lemma unat_line_start:
  assumes "s < 64"
  shows "unat ((a :: u64) AND NOT (mask s)) = unat a div 2 ^ s * 2 ^ s"
proof -
  have "unat a div 2 ^ s * 2 ^ s < 2 ^ 64" using unat_lt2p [of a] by (auto intro: le_less_trans [OF div_times_less_eq_dividend])
  then show ?thesis
    unfolding and_not_mask_eq using unat_drop_bit_div [of s a]
    unfolding unsigned_push_bit_eq by (simp only: push_bit_eq_mult take_bit_eq_mod) simp
qed

section \<open>The set-associative cache\<close>

definition ci_effect :: "bool \<Rightarrow> bool \<Rightarrow> bool option \<Rightarrow> bool option" where
  "ci_effect clean inval r = (if inval then None else map_option (\<lambda>d. d \<and> \<not> clean) r)"

lemma sa_ci_line:
  assumes wf: "sa_wf c"
  shows "\<exists>c'. ci_line sa_check_tag sa_get sa_set clean inval c a = Some c' \<and> (sa_wf c' \<and> geometry c' = geometry c) \<and>
    sa_lines c' = (sa_lines c)(drop_bit (idx_shift c) a := ci_effect clean inval (sa_lines c (drop_bit (idx_shift c) a)))"
proof (cases "sa_lines c (drop_bit (idx_shift c) a)")
  case None
  then show ?thesis
    using wf sa.check_miss [OF wf None] by (simp add: ci_line_def ci_effect_def fun_upd_idem)
next
  case (Some d)
  obtain p where p: "sa_check_tag c a = Some (Some p)" "p < length (tags c)" "is_valid (tags c ! p)"
    "tag_line (tags c ! p) = drop_bit (idx_shift c) a" "is_dirty (tags c ! p) = d"
    using sa_check_tag_eq [OF wf, of a] sa.check_hit [OF wf Some] by (auto simp: sa_get_def vec_at_Some_iff)
  define t where "t = tags c ! p"
  define wb where "wb = (clean \<and> is_dirty t)"
  define t1 where "t1 = (if wb then t AND NOT DIRTY else t)"
  define t2 where "t2 = (if inval then t1 AND NOT VALID else t1)"
  define c' where "c' = (if wb then count_writeback c else c)\<lparr>tags := (tags c)[p := t2]\<rparr>"
  have t2: "tag_line t2 = tag_line (tags c ! p)" "is_valid t2 = (\<not> inval)" "is_dirty t2 = (d \<and> \<not> clean)"
    using p by (auto simp: t2_def t1_def wb_def t_def tag_simps)
  have ci: "ci_line sa_check_tag sa_get sa_set clean inval c a = Some c'"
    using p(1,2) by (cases inval; cases wb)
      (auto simp: ci_line_def sa_get_def sa_set_def vec_simps c'_def t2_def t1_def wb_def t_def tag_simps count_defs)
  have "tags c' = (tags c)[p := t2]" "geometry c' = geometry c" by (simp_all add: c'_def geometry_def count_defs)
  from sa_write [OF wf p(2,3) t2(1) this] ci this(2) show ?thesis using t2 p(4) Some by (simp add: ci_effect_def)
qed

lemma ci_range:
  fixes addr bytes :: u64
  assumes s: "s < 64" and nw: "unat addr + unat bytes + 2 ^ s - 1 < 2 ^ 64"
  defines "i \<equiv> unat addr div 2 ^ s" and "j \<equiv> (unat addr + unat bytes + 2 ^ s - 1) div 2 ^ s"
  shows "i \<le> j" "unat (addr AND NOT (mask s)) = i * 2 ^ s" "unat ((addr + bytes + 2 ^ s - 1) AND NOT (mask s)) = (i + (j - i)) * 2 ^ s"
proof -
  have "unat addr \<le> unat addr + unat bytes + 2 ^ s - 1" using one_le_power [of "2::nat" s] by linarith
  then show ij: "i \<le> j" unfolding i_def j_def by (rule div_le_mono)
  have "(of_nat (unat addr + unat bytes + 2 ^ s - 1) :: u64) = addr + bytes + 2 ^ s - 1"
    using one_le_power [of "2::nat" s] by (subst of_nat_diff) (linarith, simp)
  then have "unat (addr + bytes + 2 ^ s - 1) = unat addr + unat bytes + 2 ^ s - 1"
    using unat_word_of_nat_small [of "unat addr + unat bytes + 2 ^ s - 1", where ?'a = 64] nw by simp
  then show "unat (addr AND NOT (mask s)) = i * 2 ^ s" "unat ((addr + bytes + 2 ^ s - 1) AND NOT (mask s)) = (i + (j - i)) * 2 ^ s"
    using ij s by (simp_all add: unat_line_start i_def j_def)
qed

theorem sa_clean_invalidate_lines:
  fixes c :: "'z cache_sim_t_scheme"
  assumes wf: "sa_wf c" and mh: "mh m addr bytes clean inval = Some m'"
    and nw: "unat addr + unat bytes + 2 ^ idx_shift c - 1 < 2 ^ 64"
  shows "\<exists>c'. sa_clean_invalidate mh (c, m) addr bytes clean inval = Some (c', m') \<and> sa_wf c' \<and>
    (\<forall>l. sa_lines c' l =
      (if unat addr div 2 ^ idx_shift c \<le> unat l \<and> unat l < (unat addr + unat bytes + 2 ^ idx_shift c - 1) div 2 ^ idx_shift c
       then ci_effect clean inval (sa_lines c l) else sa_lines c l))"
proof -
  define s where "s = idx_shift c"
  have s: "s < 64" "linesz c = 2 ^ s" using sa_shape [OF wf] by (simp_all add: cache_shape_def s_def)
  note R = ci_range [OF s(1) nw [folded s_def]]
  have body: "\<exists>x'. ci_line sa_check_tag sa_get sa_set clean inval x a = Some x' \<and> (sa_wf x' \<and> geometry x' = geometry c) \<and>
       sa_lines x' = (sa_lines x)(drop_bit s a := ci_effect clean inval (sa_lines x (drop_bit s a)))"
    if "sa_wf x \<and> geometry x = geometry c" for x :: "'z cache_sim_t_scheme" and a
  proof -
    have "idx_shift x = s" using that by (simp add: s_def geometry_def)
    then show ?thesis using sa_ci_line [of x clean inval a] that by simp
  qed
  have "2 ^ s - 1 = (mask s :: u64)" by (simp add: mask_eq_exp_minus_1)
  then show ?thesis
    using ci_loop_lines [where I = "\<lambda>x. sa_wf x \<and> geometry x = geometry c" and f = sa_lines and c = c, OF body s(1) _ R(2,3)] wf R(1) mh
    by (auto simp: sa_clean_invalidate_def cache_clean_invalidate_def s(2) s_def [symmetric])
qed

section \<open>The fully associative cache\<close>

lemma fa_check_tag_dom:
  "fa_check_tag c a = Some (if drop_bit (idx_shift c) a \<in> dom (map_of (fa_tags c)) then Some (drop_bit (idx_shift c) a) else None)"
  by (auto simp: fa_check_tag_def split: option.splits)

lemma fa_ci_line:
  "\<exists>c'. ci_line fa_check_tag fa_get fa_set clean inval c a = Some c' \<and>
    dom (map_of (fa_tags c')) = dom (map_of (fa_tags c)) \<and> geometry c' = geometry c"
proof (cases "map_of (fa_tags c) (drop_bit (idx_shift c) a)")
  case None
  then show ?thesis by (simp add: ci_line_def fa_check_tag_def)
next
  case (Some t)
  have set: "\<exists>c'. fa_set x k u = Some c' \<and> dom (map_of (fa_tags c')) = dom (map_of (fa_tags x)) \<and> geometry c' = geometry x"
    if "k \<in> dom (map_of (fa_tags x))" for x :: "'z fa_cache_sim_t_scheme" and k u
    using that by (auto simp: fa_set_def map_of_map_put geometry_def insert_absorb dom_def)
  obtain c1 where c1: "(if clean \<and> t AND DIRTY \<noteq> 0 then fa_set (count_writeback c) (drop_bit (idx_shift c) a) (t AND NOT DIRTY) else Some c) = Some c1"
    "dom (map_of (fa_tags c1)) = dom (map_of (fa_tags c))" "geometry c1 = geometry c"
  proof -
    have "drop_bit (idx_shift c) a \<in> dom (map_of (fa_tags (count_writeback c)))" "fa_tags (count_writeback c) = fa_tags c"
      using Some by (auto simp: count_defs)
    then show ?thesis
      using set [of "drop_bit (idx_shift c) a" "count_writeback c" "t AND NOT DIRTY"] that
      by (cases "clean \<and> t AND DIRTY \<noteq> 0") auto
  qed
  obtain t1 where t1: "map_of (fa_tags c1) (drop_bit (idx_shift c) a) = Some t1" using c1(2) Some by blast
  then have "drop_bit (idx_shift c) a \<in> dom (map_of (fa_tags c1))" by blast
  from set [OF this, of "t1 AND NOT VALID"] show ?thesis
    using Some c1 t1 by (cases inval) (auto simp: ci_line_def fa_check_tag_def fa_get_def)
qed

theorem fa_invalidate_no_effect:
  fixes c :: "'z fa_cache_sim_t_scheme"
  assumes c: "cache_shape c" and mh: "mh m addr bytes clean inval = Some m'"
    and nw: "unat addr + unat bytes + 2 ^ idx_shift c - 1 < 2 ^ 64"
  shows "\<exists>c'. fa_clean_invalidate mh (c, m) addr bytes clean inval = Some (c', m') \<and> (\<forall>a. fa_check_tag c' a = fa_check_tag c a)"
proof -
  define s where "s = idx_shift c"
  have s: "s < 64" "linesz c = 2 ^ s" using c by (simp_all add: cache_shape_def s_def)
  note R = ci_range [OF s(1) nw [folded s_def]]
  have body: "\<exists>x'. ci_line fa_check_tag fa_get fa_set clean inval x a = Some x' \<and>
       (dom (map_of (fa_tags x')) = dom (map_of (fa_tags c)) \<and> geometry x' = geometry c) \<and> (\<lambda>_. ()) = (\<lambda>_. ())(drop_bit s a := ())"
    if "dom (map_of (fa_tags x)) = dom (map_of (fa_tags c)) \<and> geometry x = geometry c" for x :: "'z fa_cache_sim_t_scheme" and a
    using fa_ci_line [of clean inval x a] that by (auto simp: fun_eq_iff)
  have "2 ^ s - 1 = (mask s :: u64)" by (simp add: mask_eq_exp_minus_1)
  then show ?thesis
    using ci_loop_lines [where I = "\<lambda>x. dom (map_of (fa_tags x)) = dom (map_of (fa_tags c)) \<and> geometry x = geometry c"
        and f = "\<lambda>_ _. ()" and g = "\<lambda>_. ()" and c = c and body = "ci_line fa_check_tag fa_get fa_set clean inval", OF body s(1) _ R(2,3)] mh
    by (auto simp: fa_clean_invalidate_def cache_clean_invalidate_def s(2) fa_check_tag_dom geometry_def)
qed

end
