(* ===== verification/Cache_Run.thy ===== *)
theory Cache_Run
  imports Cache_Clean
begin

text \<open>
  Sequences of accesses and the objects \<open>cache_sim_t::construct\<close> makes: the bounds on the statistics of a
  run, and that every configuration string the constructor accepts gives a well-formed cache.
\<close>

section \<open>Runs\<close>

primrec cache_run :: "'c handler \<Rightarrow> 'c \<Rightarrow> (u64 \<times> u64 \<times> bool) list \<Rightarrow> 'c option" where
  "cache_run acc c [] = Some c"
| "cache_run acc c (x # xs) = do { c \<leftarrow> acc c (fst x) (fst (snd x)) (snd (snd x)); cache_run acc c xs }"

definition dirty_lines :: "lines \<Rightarrow> u64 set" where
  "dirty_lines L = {l. L l = Some True}"

abbreviation stores :: "(u64 \<times> u64 \<times> bool) list \<Rightarrow> nat" where
  "stores xs \<equiv> length (filter (\<lambda>x. snd (snd x)) xs)"

text \<open>A line is written back only after a store has made it dirty.\<close>

lemma card_dirty_le:
  assumes "dirty_lines L' \<subseteq> (if st then insert x D else D)" "finite D"
  shows "card (dirty_lines L') \<le> card D + of_bool st"
proof -
  have "card (dirty_lines L') \<le> card (if st then insert x D else D)" using assms by (intro card_mono) auto
  then show ?thesis using assms(2) by (cases st) (auto simp: card_insert_if split: if_splits)
qed

lemma dirty_step:
  assumes "cache_step s mh (L, m) a st e (L', m')" "finite (dirty_lines L)"
  shows "card (dirty_lines L') + of_bool (e = Miss_writeback) \<le> card (dirty_lines L) + of_bool st"
proof (cases "e = Miss_writeback")
  case True
  with assms(1) obtain v where v: "L v = Some True" "L' = L(v := None, drop_bit s a \<mapsto> st)" by (auto elim!: cache_stepE)
  have "dirty_lines L' \<subseteq> (if st then insert (drop_bit s a) (dirty_lines L - {v}) else dirty_lines L - {v})"
    by (auto simp: v(2) dirty_lines_def split: if_splits)
  from card_dirty_le [OF this] assms(2) have "card (dirty_lines L') \<le> card (dirty_lines L - {v}) + of_bool st" by simp
  moreover have "card (dirty_lines L) = Suc (card (dirty_lines L - {v}))"
    using v(1) assms(2) by (intro card.remove) (simp_all add: dirty_lines_def)
  ultimately show ?thesis using True by simp
next
  case False
  with assms(1) have "dirty_lines L' \<subseteq> (if st then insert (drop_bit s a) (dirty_lines L) else dirty_lines L)"
    by (auto simp: dirty_lines_def elim!: cache_stepE split: if_splits)
  from card_dirty_le [OF this assms(2)] False show ?thesis by simp
qed

text \<open>The statistics that the accesses of a run with the given events add up to.\<close>

definition count_events :: "(cache_event \<Rightarrow> bool) \<Rightarrow> (bool \<Rightarrow> bool) \<Rightarrow> (u64 \<times> u64 \<times> bool) list \<Rightarrow> cache_event list \<Rightarrow> nat" where
  "count_events P Q xs es = length (filter (\<lambda>(x, e). P e \<and> Q (snd (snd x))) (zip xs es))"

lemma count_events_simps [simp]:
  "count_events P Q [] [] = 0"
  "count_events P Q (x # xs) (e # es) = of_bool (P e \<and> Q (snd (snd x))) + count_events P Q xs es"
  by (simp_all add: count_events_def)

definition run_stats :: "(u64 \<times> u64 \<times> bool) list \<Rightarrow> cache_event list \<Rightarrow> 'z cache_sim_t_scheme \<Rightarrow> 'z cache_sim_t_scheme \<Rightarrow> bool" where
  "run_stats xs es c c' \<longleftrightarrow>
     read_accesses c' = read_accesses c + of_nat (length xs - stores xs) \<and>
     write_accesses c' = write_accesses c + of_nat (stores xs) \<and>
     read_misses c' = read_misses c + of_nat (count_events (\<lambda>e. e \<noteq> Hit) (\<lambda>st. \<not> st) xs es) \<and>
     write_misses c' = write_misses c + of_nat (count_events (\<lambda>e. e \<noteq> Hit) (\<lambda>st. st) xs es) \<and>
     writebacks c' = writebacks c + of_nat (count_events (\<lambda>e. e = Miss_writeback) (\<lambda>_. True) xs es)"

lemma stores_le: "stores xs \<le> length xs" by simp

lemma run_stats_step:
  assumes "stats c1 = stats (add_event n st e c)" "run_stats xs es c1 c'"
  shows "run_stats ((a, n, st) # xs) (e # es) c c'"
  using assms stores_le [of xs] by (cases e; cases st) (auto simp: run_stats_def stats_def add_event_def count_defs Suc_diff_le)

context tag_store
begin

lemma finite_dirty: "invar c \<Longrightarrow> finite (dirty_lines (lines c))"
  using capacity [of c] by (auto simp: dirty_lines_def dom_def intro: finite_subset [rotated])

theorem run_accounts:
  assumes mh: "handler_ok I mh" and "invar c" "I m"
  shows "\<exists>c' m' es. cache_run (access mh) (c, m) xs = Some (c', m') \<and> invar c' \<and> I m' \<and> geometry c' = geometry c \<and>
    length es = length xs \<and> run_stats xs es c c' \<and>
    card (dirty_lines (lines c')) + count_events (\<lambda>e. e = Miss_writeback) (\<lambda>_. True) xs es \<le> card (dirty_lines (lines c)) + stores xs"
  using assms(2,3)
proof (induction xs arbitrary: c m)
  case Nil
  then show ?case by (intro exI [of _ c] exI [of _ m] exI [of _ "[]"]) (simp add: run_stats_def)
next
  case (Cons x xs)
  obtain a n st where x: "x = (a, n, st)" by (cases x)
  obtain c1 m1 e where s: "access mh (c, m) a n st = Some (c1, m1)" "invar c1" "I m1"
    "cache_step (idx_shift c) mh (lines c, m) a st e (lines c1, m1)" "stats c1 = stats (add_event n st e c)" "geometry c1 = geometry c"
    using access_refines [OF Cons.prems(1) mh Cons.prems(2)] by blast
  obtain c' m' es where r: "cache_run (access mh) (c1, m1) xs = Some (c', m')" "invar c'" "I m'" "geometry c' = geometry c1"
    "length es = length xs" "run_stats xs es c1 c'"
    "card (dirty_lines (lines c')) + count_events (\<lambda>e. e = Miss_writeback) (\<lambda>_. True) xs es \<le> card (dirty_lines (lines c1)) + stores xs"
    using Cons.IH [OF s(2,3)] by blast
  have "card (dirty_lines (lines c')) + count_events (\<lambda>e. e = Miss_writeback) (\<lambda>_. True) (x # xs) (e # es)
      \<le> card (dirty_lines (lines c)) + stores (x # xs)"
    using r(7) dirty_step [OF s(4) finite_dirty [OF Cons.prems(1)]]
    by (cases st; cases "e = Miss_writeback") (simp_all add: x)
  moreover have "run_stats (x # xs) (e # es) c c'" unfolding x by (rule run_stats_step [OF s(5) r(6)])
  ultimately show ?case using s r by (intro exI [of _ c'] exI [of _ m'] exI [of _ "e # es"]) (simp add: x)
qed

lemma run_handler_defined:
  assumes "handler_ok I mh" "invar c" "I m"
  shows "cache_run (access mh) (c, m) xs \<noteq> None"
  using run_accounts [OF assms, of xs] by auto

end

section \<open>Construction\<close>

lemma pow2_word:
  fixes n :: u64
  assumes "n \<noteq> 0" "n AND (n - 1) = 0"
  shows "unat n = 2 ^ log2_pow2 (unat n)" "log2_pow2 (unat n) < 64"
proof -
  define k where "k = log2_pow2 (unat n)"
  have n0: "0 < unat n" using assms(1) by (simp add: unat_gt_0)
  then have b: "2 ^ k \<le> unat n" "unat n < 2 ^ Suc k" using log2_pow2_bounds [of "unat n"] by (simp_all add: k_def)
  have "(2::nat) ^ k < 2 ^ 64" using b(1) unat_lt2p [of n] by simp
  then show "log2_pow2 (unat n) < 64" unfolding k_def by (rule power_less_imp_less_exp [rotated]) simp
  have bit: "bit w k" if "2 ^ k \<le> unat w" "unat w < 2 ^ Suc k" for w :: u64
  proof -
    have "unat w div 2 ^ k = 1" using that by (intro div_nat_eqI) auto
    then have "bit (unat w) k" unfolding bit_iff_odd by simp
    then show ?thesis by (simp add: bit_unsigned_iff)
  qed
  have "unat (n - 1) = unat n - 1" using assms(1) by (rule unat_minus_one)
  moreover have "unat n - 1 < 2 ^ Suc k" using b(2) by simp
  ultimately have "\<not> 2 ^ k \<le> unat n - 1"
    using bit [OF b] bit [of "n - 1"] assms(2) bit_and_iff [of n "n - 1" k] by auto
  then show "unat n = 2 ^ log2_pow2 (unat n)" using b(1) n0 unfolding k_def [symmetric] by simp
qed

lemma pow2_unat:
  assumes "unat (n :: u64) = 2 ^ k"
  shows "n = 2 ^ k"
proof -
  have "n = of_nat (unat n)" by simp
  then show ?thesis unfolding assms by simp
qed

text \<open>What \<open>init\<close> accepts.\<close>

lemma cache_init_Inr:
  assumes "cache_init n w l = Inr c"
  shows "sets c = n" "ways c = w" "linesz c = l" "tags c = replicate (unat (n * w)) 0" "unat (n * w) < 2 ^ 60"
    "n \<noteq> 0" "n AND (n - 1) = 0" "3 \<le> idx_shift c" "idx_shift c < 64" "linesz c = 2 ^ idx_shift c" "writebacks c = 0"
proof -
  have c: "n \<noteq> 0" "n AND (n - 1) = 0" "\<not> l < 8" "l AND (l - 1) = 0" "unat (n * w) < 2 ^ 60" "idx_shift c = log2_pow2 (unat l)"
    "sets c = n" "ways c = w" "linesz c = l" "tags c = replicate (unat (n * w)) 0" "writebacks c = 0"
    using assms by (auto simp: cache_init_def split: if_splits)
  then show "sets c = n" "ways c = w" "linesz c = l" "tags c = replicate (unat (n * w)) 0" "unat (n * w) < 2 ^ 60"
    "n \<noteq> 0" "n AND (n - 1) = 0" "writebacks c = 0" by simp_all
  have "l \<noteq> 0" using c(3) by auto
  note L = pow2_word [OF this c(4)]
  show "idx_shift c < 64" "linesz c = 2 ^ idx_shift c" using L pow2_unat c by auto
  have "2 ^ 3 \<le> unat l" using c(3) by (simp add: word_less_nat_alt)
  then have "(2::nat) ^ 3 \<le> 2 ^ idx_shift c" using L(1) c by simp
  then show "3 \<le> idx_shift c" by (rule power_le_imp_le_exp [rotated]) simp
qed

lemma cache_init_wf:
  assumes "cache_init n w l = Inr c" "w \<noteq> 0" "unat n * unat w < 2 ^ 64"
  shows "sa_wf c" "sa_lines c = Map.empty"
proof -
  note I = cache_init_Inr [OF assms(1)]
  have m: "unat (n * w) = unat n * unat w" using assms(3) by (simp add: unat_word_ariths(2))
  show "sa_wf c" using I m assms(2) by (simp add: sa_wf_def cache_shape_def unique_tags_def)
  show "sa_lines c = Map.empty" using I by (auto simp: sa_lines_def fun_eq_iff tag_map_None)
qed

lemma atoi_range: "atoi s = Inr n \<Longrightarrow> - (2 ^ 31) \<le> n \<and> n < 2 ^ 31"
  by (auto simp: atoi_def Let_def split: if_splits)

text \<open>A size read by \<open>atoi\<close>: a negative number becomes one of the largest 64-bit values.\<close>

lemma size_cases:
  assumes "- (2 ^ 31) \<le> n" "n < 2 ^ 31"
  obtains "0 \<le> n" "unat (of_int n :: u64) = nat n" "nat n < 2 ^ 31"
    | v where "(of_int n :: u64) = - of_nat v" "0 < v" "v \<le> 2 ^ 31"
proof (cases "0 \<le> n")
  case True
  then have "(of_int n :: u64) = of_nat (nat n)" by simp
  moreover have "nat n < 2 ^ 31" using True assms by simp
  ultimately show ?thesis using that(1) True unat_word_of_nat_small [of "nat n", where ?'a = 64] by simp
next
  case False
  then show ?thesis using that(2) [of "nat (- n)"] assms by simp
qed

lemma unat_minus_small:
  assumes "0 < k" "k \<le> 2 ^ 62"
  shows "unat (- of_nat k :: u64) = 2 ^ 64 - k"
proof -
  have "unat (of_nat k :: u64) = k" using assms by (intro unat_word_of_nat_small) simp
  then show ?thesis using unat_neg [of "of_nat k :: u64"] assms(1) by simp
qed

lemma size_no_wrap:
  assumes n: "- (2 ^ 31) \<le> n" "n < 2 ^ 31" and w: "- (2 ^ 31) \<le> w" "w < 2 ^ 31"
    and p: "(of_int n :: u64) \<noteq> 0" "(of_int n :: u64) AND (of_int n - 1) = 0" and lt: "unat (of_int n * of_int w :: u64) < 2 ^ 60"
  shows "unat (of_int n :: u64) * unat (of_int w :: u64) < 2 ^ 64"
proof -
  define k where "k = log2_pow2 (unat (of_int n :: u64))"
  note P = pow2_word [OF p, folded k_def]
  have "(2::nat) ^ k \<le> 2 ^ 63" using P(2) by (intro power_increasing) auto
  from n have nl: "unat (of_int n :: u64) < 2 ^ 31"
  proof (cases rule: size_cases)
    case (2 v)
    then have "unat (of_int n :: u64) = 2 ^ 64 - v" using unat_minus_small [of v] by simp
    with P(1) \<open>2 ^ k \<le> 2 ^ 63\<close> 2 show ?thesis by simp
  qed simp
  from w show ?thesis
  proof (cases rule: size_cases)
    case 1
    have "unat (of_int n :: u64) * unat (of_int w :: u64) \<le> 2 ^ 31 * 2 ^ 31" using nl 1 by (intro mult_le_mono) auto
    then show ?thesis by simp
  next
    case (2 v)
    define m where "m = unat (of_int n :: u64)"
    have "0 < m" using p(1) by (simp add: m_def unat_gt_0)
    moreover have "m * v \<le> 2 ^ 31 * 2 ^ 31" using nl 2 by (intro mult_le_mono) (auto simp: m_def)
    moreover have "(of_int n * of_int w :: u64) = - of_nat (m * v)" using 2(1) by (simp add: m_def)
    ultimately have "unat (of_int n * of_int w :: u64) = 2 ^ 64 - m * v" using unat_minus_small [of "m * v"] 2(2) by simp
    then show ?thesis using lt \<open>m * v \<le> 2 ^ 31 * 2 ^ 31\<close> by simp
  qed
qed

definition object_wf :: "cache_object \<Rightarrow> bool" where
  "object_wf ob = (case ob of Plain_cache c \<Rightarrow> sa_wf c | Fa_cache c \<Rightarrow> fa_wf c)"

definition object_ways :: "cache_object \<Rightarrow> u64" where
  "object_ways ob = (case ob of Plain_cache c \<Rightarrow> ways c | Fa_cache c \<Rightarrow> ways c)"

definition object_lines :: "cache_object \<Rightarrow> lines" where
  "object_lines ob = (case ob of Plain_cache c \<Rightarrow> sa_lines c | Fa_cache c \<Rightarrow> fa_lines c)"

lemma fa_cache_init_wf:
  assumes "fa_cache_init w l = Inr c" "w \<noteq> 0"
  shows "fa_wf c" "fa_lines c = Map.empty"
proof -
  obtain b where b: "cache_init 1 w l = Inr b" "c = cache_sim_t.extend b (fa_cache_sim_t.fields [])"
    using assms(1) by (cases "cache_init 1 w l") (auto simp: fa_cache_init_def)
  note I = cache_init_Inr [OF b(1)]
  have g: "sets c = sets b" "ways c = ways b" "linesz c = linesz b" "idx_shift c = idx_shift b" "fa_tags c = []"
    by (simp_all add: b(2) cache_sim_t.defs fa_cache_sim_t.defs)
  show "fa_wf c" unfolding fa_wf_def cache_shape_def g using I assms(2) by simp
  show "fa_lines c = Map.empty" by (simp add: fa_lines_def fun_eq_iff g)
qed

theorem construct_wf:
  assumes "cache_construct config = Inr ob" "object_ways ob \<noteq> 0"
  shows "object_wf ob \<and> object_lines ob = Map.empty"
proof -
  obtain a wp b bp n w l where p: "split_colon config = Some (a, wp)" "split_colon wp = Some (b, bp)"
    "atoi (a @ '':'') = Inr n" "atoi (b @ '':'') = Inr w" "atoi bp = Inr l"
    using assms(1) by (auto simp: cache_construct_def split: option.splits sum.splits)
  note R = atoi_range [OF p(3)] atoi_range [OF p(4)]
  show ?thesis
  proof (cases "4 < (of_int w :: u64) \<and> (of_int n :: u64) = 1")
    case True
    then obtain c where "fa_cache_init (of_int w) (of_int l) = Inr c" "ob = Fa_cache c"
      using assms(1) p by (auto simp: cache_construct_def map_sum_def split: sum.splits)
    moreover have "(of_int w :: u64) \<noteq> 0" using True by auto
    ultimately show ?thesis using fa_cache_init_wf by (simp add: object_wf_def object_lines_def)
  next
    case False
    then obtain c where c: "cache_init (of_int n) (of_int w) (of_int l) = Inr c" "ob = Plain_cache c"
      using assms(1) p by (auto simp: cache_construct_def map_sum_def split: sum.splits)
    note I = cache_init_Inr [OF c(1)]
    have "unat (of_int n :: u64) * unat (of_int w :: u64) < 2 ^ 64"
      using R I by (intro size_no_wrap) auto
    then show ?thesis using cache_init_wf [OF c(1)] assms(2) I c(2) by (simp add: object_wf_def object_lines_def object_ways_def)
  qed
qed

end
