(* ===== verification/Cache_System.thy ===== *)
theory Cache_System
  imports Cache_Run
begin

text \<open>
  The caches of a simulation: an instruction cache and a data cache, each optional, over an optional shared
  second level (\<open>spike_main/spike.cc\<close>, \<open>memtracer.h\<close> and the tracer classes of \<open>cachesim.h\<close>).
\<close>

section \<open>Definitions\<close>

definition object_access :: "'m handler \<Rightarrow> (cache_object \<times> 'm) handler" where
  "object_access mh = (\<lambda>(ob, m) addr bytes store.
     case ob of
       Plain_cache c \<Rightarrow> map_option (\<lambda>(c, m). (Plain_cache c, m)) (sa_access mh (c, m) addr bytes store)
     | Fa_cache c \<Rightarrow> map_option (\<lambda>(c, m). (Fa_cache c, m)) (fa_access mh (c, m) addr bytes store))"

definition object_clean_invalidate :: "'m ci_handler \<Rightarrow> (cache_object \<times> 'm) ci_handler" where
  "object_clean_invalidate mh = (\<lambda>(ob, m) addr bytes clean inval.
     case ob of
       Plain_cache c \<Rightarrow> map_option (\<lambda>(c, m). (Plain_cache c, m)) (sa_clean_invalidate mh (c, m) addr bytes clean inval)
     | Fa_cache c \<Rightarrow> map_option (\<lambda>(c, m). (Fa_cache c, m)) (fa_clean_invalidate mh (c, m) addr bytes clean inval))"

record cache_system =
  ic :: "cache_object option"
  dc :: "cache_object option"
  l2 :: "cache_object option"

text \<open>The miss handler of the first level is the second level, if there is one.\<close>

definition l2_access :: "cache_object option handler" where
  "l2_access o2 addr bytes store =
     (case o2 of None \<Rightarrow> Some None
      | Some c \<Rightarrow> map_option (\<lambda>(c, m). Some c) (object_access no_handler (c, ()) addr bytes store))"

definition l2_clean_invalidate :: "cache_object option ci_handler" where
  "l2_clean_invalidate o2 addr bytes clean inval =
     (case o2 of None \<Rightarrow> Some None
      | Some c \<Rightarrow> map_option (\<lambda>(c, m). Some c) (object_clean_invalidate no_ci_handler (c, ()) addr bytes clean inval))"

definition ic_interested :: "access_type \<Rightarrow> bool" where
  "ic_interested type \<longleftrightarrow> type = FETCH"

definition dc_interested :: "access_type \<Rightarrow> bool" where
  "dc_interested type \<longleftrightarrow> type = LOAD \<or> type = STORE"

definition ic_trace :: "cache_system \<Rightarrow> u64 \<Rightarrow> u64 \<Rightarrow> access_type \<Rightarrow> cache_system option" where
  "ic_trace s addr bytes type =
     (case ic s of None \<Rightarrow> Some s
      | Some c \<Rightarrow>
          if type = FETCH
          then do { (c, m) \<leftarrow> object_access l2_access (c, l2 s) addr bytes False; Some (s\<lparr>ic := Some c, l2 := m\<rparr>) }
          else Some s)"

definition dc_trace :: "cache_system \<Rightarrow> u64 \<Rightarrow> u64 \<Rightarrow> access_type \<Rightarrow> cache_system option" where
  "dc_trace s addr bytes type =
     (case dc s of None \<Rightarrow> Some s
      | Some c \<Rightarrow>
          if type = LOAD \<or> type = STORE
          then do { (c, m) \<leftarrow> object_access l2_access (c, l2 s) addr bytes (type = STORE); Some (s\<lparr>dc := Some c, l2 := m\<rparr>) }
          else Some s)"

text \<open>The list of tracers: the instruction cache is hooked before the data cache.\<close>

definition tracer_trace :: "cache_system \<Rightarrow> u64 \<Rightarrow> u64 \<Rightarrow> access_type \<Rightarrow> cache_system option" where
  "tracer_trace s addr bytes type = do { s \<leftarrow> ic_trace s addr bytes type; dc_trace s addr bytes type }"

definition tracer_interested :: "cache_system \<Rightarrow> access_type \<Rightarrow> bool" where
  "tracer_interested s type \<longleftrightarrow> ic s \<noteq> None \<and> ic_interested type \<or> dc s \<noteq> None \<and> dc_interested type"

definition tracer_clean_invalidate :: "cache_system \<Rightarrow> u64 \<Rightarrow> u64 \<Rightarrow> bool \<Rightarrow> bool \<Rightarrow> cache_system option" where
  "tracer_clean_invalidate s addr bytes clean inval =
     do { s \<leftarrow> (case ic s of None \<Rightarrow> Some s
            | Some c \<Rightarrow> do { (c, m) \<leftarrow> object_clean_invalidate l2_clean_invalidate (c, l2 s) addr bytes clean inval;
                            Some (s\<lparr>ic := Some c, l2 := m\<rparr>) });
          (case dc s of None \<Rightarrow> Some s
            | Some c \<Rightarrow> do { (c, m) \<leftarrow> object_clean_invalidate l2_clean_invalidate (c, l2 s) addr bytes clean inval;
                            Some (s\<lparr>dc := Some c, l2 := m\<rparr>) }) }"

section \<open>Every access of a well-formed system is defined\<close>

definition option_wf :: "cache_object option \<Rightarrow> bool" where
  "option_wf o2 = (case o2 of None \<Rightarrow> True | Some c \<Rightarrow> object_wf c)"

definition system_wf :: "cache_system \<Rightarrow> bool" where
  "system_wf s \<longleftrightarrow> option_wf (ic s) \<and> option_wf (dc s) \<and> option_wf (l2 s)"

definition object_shift :: "cache_object \<Rightarrow> nat" where
  "object_shift ob = (case ob of Plain_cache c \<Rightarrow> idx_shift c | Fa_cache c \<Rightarrow> idx_shift c)"

lemma object_access_refines:
  assumes "object_wf ob" "handler_ok I mh" "I m"
  shows "\<exists>ob' m' e. object_access mh (ob, m) a n st = Some (ob', m') \<and> object_wf ob' \<and> I m' \<and>
    cache_step (object_shift ob) mh (object_lines ob, m) a st e (object_lines ob', m')"
proof (cases ob)
  case (Plain_cache c)
  then have "sa_wf c" using assms(1) by (simp add: object_wf_def)
  from sa.access_refines [OF this assms(2,3), of a n st] Plain_cache show ?thesis
    by (auto simp: object_access_def sa_access_def object_wf_def object_lines_def object_shift_def)
next
  case (Fa_cache c)
  then have "fa_wf c" using assms(1) by (simp add: object_wf_def)
  from fa.access_refines [OF this assms(2,3), of a n st] Fa_cache show ?thesis
    by (auto simp: object_access_def fa_access_def object_wf_def object_lines_def object_shift_def)
qed

lemma l2_handler: "handler_ok option_wf l2_access"
  unfolding handler_ok_def
proof (intro allI impI)
  fix m a n st assume m: "option_wf m"
  show "\<exists>m'. l2_access m a n st = Some m' \<and> option_wf m'"
  proof (cases m)
    case (Some c)
    then have "object_wf c" using m by (simp add: option_wf_def)
    from object_access_refines [OF this handler_ok_none, of "()" a n st] Some show ?thesis
      by (auto simp: l2_access_def option_wf_def)
  qed (simp add: l2_access_def option_wf_def)
qed

theorem tracer_trace_defined:
  assumes "system_wf s"
  shows "\<exists>s'. tracer_trace s addr bytes type = Some s' \<and> system_wf s' \<and>
    (\<not> tracer_interested s type \<longrightarrow> s' = s)"
proof -
  have one: "\<exists>c' m'. object_access l2_access (c, m) addr bytes st = Some (c', m') \<and> object_wf c' \<and> option_wf m'"
    if "object_wf c" "option_wf m" for c m st
    using object_access_refines [OF that(1) l2_handler that(2), of addr bytes st] by blast
  have "\<exists>s1. ic_trace s addr bytes type = Some s1 \<and> system_wf s1 \<and> dc s1 = dc s \<and> (ic s \<noteq> None \<and> ic_interested type \<or> s1 = s)"
  proof (cases "ic s")
    case (Some c)
    with assms have "object_wf c" "option_wf (l2 s)" by (simp_all add: system_wf_def option_wf_def)
    from one [OF this, of False] assms Some show ?thesis
      by (cases "type = FETCH") (auto simp: ic_trace_def system_wf_def option_wf_def ic_interested_def)
  qed (simp add: ic_trace_def assms)
  then obtain s1 where s1: "ic_trace s addr bytes type = Some s1" "system_wf s1" "dc s1 = dc s" "ic s \<noteq> None \<and> ic_interested type \<or> s1 = s" by blast
  have "\<exists>s2. dc_trace s1 addr bytes type = Some s2 \<and> system_wf s2 \<and> (dc s1 \<noteq> None \<and> dc_interested type \<or> s2 = s1)"
  proof (cases "dc s1")
    case (Some c)
    with s1(2) have "object_wf c" "option_wf (l2 s1)" by (simp_all add: system_wf_def option_wf_def)
    from one [OF this, of "type = STORE"] s1(2) Some show ?thesis
      by (cases "type = LOAD \<or> type = STORE") (auto simp: dc_trace_def system_wf_def option_wf_def dc_interested_def)
  qed (simp add: dc_trace_def s1)
  with s1 show ?thesis by (auto simp: tracer_trace_def tracer_interested_def)
qed

end
