(* ===== verification/Cache_Config.thy ===== *)
theory Cache_Config
  imports Cache_System
begin

text \<open>
  Configuration strings: writing the three numbers of a cache in decimal and constructing the cache from the
  string gives a cache of this geometry.
\<close>

fun decimal :: "nat \<Rightarrow> string" where
  "decimal n = (if n < 10 then [char_of (48 + n)] else decimal (n div 10) @ [char_of (48 + n mod 10)])"

declare decimal.simps [simp del]

definition config_string :: "nat \<Rightarrow> nat \<Rightarrow> nat \<Rightarrow> string" where
  "config_string n w l = decimal n @ '':'' @ decimal w @ '':'' @ decimal l"

lemma digit_char: "d < 10 \<Longrightarrow> is_digit (char_of (48 + d :: nat)) \<and> (of_char (char_of (48 + d :: nat)) :: int) = 48 + int d"
proof -
  assume d: "d < 10"
  have "(of_char (char_of (48 + d)) :: nat) = 48 + d" using d by simp
  moreover from this have "(of_char (char_of (48 + d)) :: int) = int (48 + d)" by (metis of_nat_of_char)
  ultimately show ?thesis using d by (simp add: is_digit_def)
qed

lemma decimal_digits: "\<forall>x \<in> set (decimal n). is_digit x"
proof (induction n rule: decimal.induct)
  case (1 n)
  show ?case
  proof (cases "n < 10")
    case True
    then show ?thesis using digit_char [of n] by (simp add: decimal.simps [of n])
  next
    case False
    then show ?thesis using 1 digit_char [of "n mod 10"] by (simp add: decimal.simps [of n])
  qed
qed

lemma decimal_value: "foldl (\<lambda>n x. 10 * n + (of_char x - 48)) 0 (decimal n) = int n"
proof (induction n rule: decimal.induct)
  case (1 n)
  show ?case
  proof (cases "n < 10")
    case True
    then show ?thesis using digit_char [of n] by (simp add: decimal.simps [of n])
  next
    case False
    have "10 * int (n div 10) + int (n mod 10) = int n" by presburger
    with False show ?thesis using 1 digit_char [of "n mod 10"] by (simp add: decimal.simps [of n])
  qed
qed

lemma decimal_Cons: obtains x xs where "decimal n = x # xs" "is_digit x"
proof -
  have "decimal n \<noteq> []" by (simp add: decimal.simps [of n])
  then show ?thesis using that decimal_digits [of n] by (cases "decimal n") auto
qed

lemma is_digit_not:
  assumes "is_digit x"
  shows "\<not> is_space x" "x \<noteq> CHR ''-''" "x \<noteq> CHR ''+''" "x \<noteq> CHR '':''"
  using assms by (auto simp: is_digit_def is_space_def)

lemma atoi_digit_start:
  assumes "is_digit x"
  shows "atoi (x # xs) = (if - (2 ^ 31) \<le> atoi_digits (x # xs) \<and> atoi_digits (x # xs) < 2 ^ 31 then Inr (atoi_digits (x # xs)) else Inl Undefined_atoi)"
proof -
  have "dropWhile is_space (x # xs) = x # xs" using is_digit_not(1) [OF assms] by simp
  then show ?thesis unfolding atoi_def Let_def by (simp only: list.case is_digit_not(2,3) [OF assms] if_False)
qed

lemma atoi_decimal:
  assumes "n < 2 ^ 31" "r = [] \<or> \<not> is_digit (hd r)"
  shows "atoi (decimal n @ r) = Inr (int n)"
proof -
  obtain x xs where d: "decimal n = x # xs" "is_digit x" by (rule decimal_Cons)
  have "takeWhile is_digit (decimal n @ r) = decimal n"
    using decimal_digits [of n] assms(2) by (cases r) (auto simp: takeWhile_append)
  then have v: "atoi_digits (decimal n @ r) = int n" using decimal_value [of n] by (simp add: atoi_digits_def)
  have e: "decimal n @ r = x # (xs @ r)" by (simp add: d(1))
  have "0 \<le> int n" "int n < 2 ^ 31" using assms(1) by simp_all
  then show ?thesis using atoi_digit_start [OF d(2), of "xs @ r"] v unfolding e by force
qed

lemma split_colon_append: "CHR '':'' \<notin> set a \<Longrightarrow> split_colon (a @ CHR '':'' # b) = Some (a, b)"
  by (induction a) auto

lemma split_decimal: "split_colon (decimal n @ CHR '':'' # b) = Some (decimal n, b)"
proof (rule split_colon_append)
  show "CHR '':'' \<notin> set (decimal n)" using decimal_digits [of n] by (auto simp: is_digit_def)
qed

definition object_geometry :: "cache_object \<Rightarrow> u64 \<times> u64 \<times> u64 \<times> nat" where
  "object_geometry ob = (case ob of Plain_cache c \<Rightarrow> geometry c | Fa_cache c \<Rightarrow> geometry c)"

lemma pow2_and_pred:
  assumes "a < 64"
  shows "(2 ^ a :: u64) \<noteq> 0" "(2 ^ a :: u64) AND (2 ^ a - 1) = 0"
proof -
  show "(2 ^ a :: u64) \<noteq> 0" using unat_pow2 [OF assms] by (metis unat_0 power_eq_0_iff zero_neq_numeral)
  show "(2 ^ a :: u64) AND (2 ^ a - 1) = 0"
    unfolding mask_eq_exp_minus_1 [symmetric] by (rule bit_word_eqI) (auto simp: bit_simps)
qed

lemma cache_init_pow2:
  assumes "a < 31" "3 \<le> b" "b < 31" "w < 2 ^ 31" "2 ^ a * w < 2 ^ 60"
  shows "\<exists>c. cache_init (2 ^ a) (of_nat w) (2 ^ b) = Inr c \<and> geometry c = (2 ^ a, of_nat w, 2 ^ b, b)"
proof -
  have "unat (of_nat w :: u64) = w" using assms(4) by (intro unat_word_of_nat_small) simp
  moreover have "unat (2 ^ a :: u64) = 2 ^ a" using assms(1) by (intro unat_pow2) simp
  ultimately have "unat (2 ^ a * of_nat w :: u64) = 2 ^ a * w" using assms(5) by (simp add: unat_word_ariths(2))
  moreover have l: "unat (2 ^ b :: u64) = 2 ^ b" using assms(3) by (intro unat_pow2) simp
  moreover have "\<not> (2 ^ b :: u64) < 8"
    using power_increasing [of 3 b "2::nat"] assms(2) l by (simp add: word_less_nat_alt)
  ultimately show ?thesis
    using pow2_and_pred [of a] pow2_and_pred [of b] assms by (simp add: cache_init_def geometry_def not_le [symmetric])
qed

theorem construct_config:
  assumes "a < 31" "3 \<le> b" "b < 31" "0 < w" "w < 2 ^ 31" "2 ^ a * w < 2 ^ 60"
  shows "\<exists>ob. cache_construct (config_string (2 ^ a) w (2 ^ b)) = Inr ob \<and> object_geometry ob = (2 ^ a, of_nat w, 2 ^ b, b) \<and> object_wf ob"
proof -
  have lt: "(2::nat) ^ a < 2 ^ 31" "(2::nat) ^ b < 2 ^ 31" using assms by (intro power_strict_increasing; simp)+
  have nd: "\<not> is_digit CHR '':''" by (simp add: is_digit_def)
  have A: "atoi (decimal (2 ^ a) @ '':'') = Inr (2 ^ a)" "atoi (decimal w @ '':'') = Inr (int w)" "atoi (decimal (2 ^ b)) = Inr (2 ^ b)"
    using atoi_decimal [OF lt(1), of "'':''"] atoi_decimal [OF assms(5), of "'':''"] atoi_decimal [OF lt(2), of "[]"] nd by simp_all
  obtain c where c: "cache_init (2 ^ a) (of_nat w) (2 ^ b) = Inr c" "geometry c = (2 ^ a, of_nat w, 2 ^ b, b)"
    using cache_init_pow2 [OF assms(1-3,5,6)] by blast
  have w: "unat (of_nat w :: u64) = w" using assms(5) by (intro unat_word_of_nat_small) simp
  then have w0: "(of_nat w :: u64) \<noteq> 0" using assms(4) by auto
  have "\<exists>ob. cache_construct (config_string (2 ^ a) w (2 ^ b)) = Inr ob \<and> object_geometry ob = (2 ^ a, of_nat w, 2 ^ b, b)"
  proof (cases "4 < (of_nat w :: u64) \<and> (2 ^ a :: u64) = 1")
    case True
    then show ?thesis using c A
      by (simp add: cache_construct_def config_string_def split_decimal fa_cache_init_def object_geometry_def geometry_def cache_sim_t.defs)
  next
    case False
    then show ?thesis using c A
      by (auto simp: cache_construct_def config_string_def split_decimal object_geometry_def)
  qed
  then obtain ob where ob: "cache_construct (config_string (2 ^ a) w (2 ^ b)) = Inr ob" "object_geometry ob = (2 ^ a, of_nat w, 2 ^ b, b)" by blast
  then have "object_ways ob \<noteq> 0" using w0 by (cases ob) (auto simp: object_geometry_def object_ways_def geometry_def)
  with construct_wf [OF ob(1)] ob show ?thesis by blast
qed

end
