(* ===== verification/Cache_Properties.thy ===== *)
theory Cache_Properties
  imports Cache_Config
begin

text \<open>The properties of the cache model, stated over the objects that the constructor makes.\<close>

section \<open>A small cache\<close>

text \<open>Two sets of two ways with lines of 64 bytes, and a fully associative cache of five lines of eight bytes.\<close>

definition small_cache :: cache_sim_t where
  "small_cache = \<lparr> lfsr = 1, sets = 2, ways = 2, linesz = 64, idx_shift = 6, tags = replicate 4 0,
     read_accesses = 0, read_misses = 0, bytes_read = 0, write_accesses = 0, write_misses = 0, bytes_written = 0, writebacks = 0 \<rparr>"

definition small_fa_cache :: fa_cache_sim_t where
  "small_fa_cache = \<lparr> lfsr = 1, sets = 1, ways = 5, linesz = 8, idx_shift = 3, tags = replicate 5 0,
     read_accesses = 0, read_misses = 0, bytes_read = 0, write_accesses = 0, write_misses = 0, bytes_written = 0, writebacks = 0,
     fa_tags = [(2, 2 OR VALID), (7, 7 OR VALID)] \<rparr>"

lemma small_cache_wf: "sa_wf small_cache" "sa_lines small_cache = Map.empty" "writebacks small_cache = 0" "idx_shift small_cache = 6"
proof -
  show "sa_wf small_cache" by (auto simp: small_cache_def sa_wf_def cache_shape_def unique_tags_def)
  show "sa_lines small_cache = Map.empty" by (auto simp: small_cache_def sa_lines_def fun_eq_iff tag_map_None)
qed (simp_all add: small_cache_def)

lemma small_fa_cache_shape: "cache_shape small_fa_cache" "idx_shift small_fa_cache = 3"
  by (simp_all add: small_fa_cache_def cache_shape_def)

section \<open>Accesses\<close>

text \<open>
  C27: every access refines the abstract cache. On a well-formed cache of either kind over a miss handler that is always
  defined, \<open>cache_sim_t::access\<close> is defined (no access outside the tags, no null pointer dereferenced), leaves a
  well-formed cache, and performs one step of the abstract cache: a hit, a fill of a free way, or an eviction, where the
  handler is told the address of a dirty victim before the line is fetched.
\<close>

theorem cache_access_refines:
  assumes "object_wf ob" "handler_ok I mh" "I m"
  shows "\<exists>ob' m' e. object_access mh (ob, m) a n st = Some (ob', m') \<and> object_wf ob' \<and> I m' \<and>
    cache_step (object_shift ob) mh (object_lines ob, m) a st e (object_lines ob', m')"
  by (rule object_access_refines [OF assms])

theorem cache_access_refines_witness:
  "\<exists>ob' m' e. object_access no_handler (Plain_cache small_cache, ()) 0x1040 4 True = Some (ob', m') \<and> object_wf ob' \<and>
    cache_step 6 no_handler (Map.empty, ()) 0x1040 True e (object_lines ob', m')"
proof -
  have "object_wf (Plain_cache small_cache)" using small_cache_wf by (simp add: object_wf_def)
  from cache_access_refines [OF this handler_ok_none, of "()" "0x1040" 4 True] show ?thesis
    using small_cache_wf by (simp add: object_shift_def object_lines_def)
qed

text \<open>
  What has been accessed is in the cache. Directly after any access of the set-associative cache, a load from the
  same address hits: it only counts the access, and the miss handler is not called.
\<close>

lemma access_then_hit:
  assumes "sa_wf c" "handler_ok I mh" "I m" "sa_access mh (c, m) a n st = Some (c', m')"
  shows "sa_access mh (c', m') a n' False = Some (count_access c' n' False, m')"
  using sa.access_present(2) [OF assms(1-3)] assms(4) by (simp add: sa_access_def)

text \<open>
  The statistics of a run. Any sequence of accesses to a cold set-associative cache without a miss handler is
  defined; it counts every store, and it counts at most as many write-backs as there were stores, as a line is written
  back only after a store has made it dirty.
\<close>

lemma writebacks_bounded:
  assumes "sa_wf c" "sa_lines c = Map.empty" "writebacks c = 0" "write_accesses c = 0" "length xs < 2 ^ 64"
  shows "\<exists>c'. cache_run (sa_access no_handler) (c, ()) xs = Some (c', ()) \<and> sa_wf c' \<and>
    unat (write_accesses c') = stores xs \<and> unat (writebacks c') \<le> stores xs"
proof -
  obtain c' es where r: "cache_run (sa_access no_handler) (c, ()) xs = Some (c', ())" "sa_wf c'" "run_stats xs es c c'"
    "card (dirty_lines (sa_lines c')) + count_events (\<lambda>e. e = Miss_writeback) (\<lambda>_. True) xs es \<le> card (dirty_lines (sa_lines c)) + stores xs"
    using sa.run_accounts [OF handler_ok_none assms(1), of "()" xs] by (auto simp: sa_access_def)
  have "dirty_lines (sa_lines c) = {}" using assms(2) by (simp add: dirty_lines_def)
  then have k: "count_events (\<lambda>e. e = Miss_writeback) (\<lambda>_. True) xs es \<le> stores xs" using r(4) by simp
  have "stores xs < 2 ^ 64" using stores_le [of xs] assms(5) by linarith
  then have "unat (write_accesses c') = stores xs"
    "unat (writebacks c') = count_events (\<lambda>e. e = Miss_writeback) (\<lambda>_. True) xs es"
    using r(3) k assms(3,4) unat_word_of_nat_small [of "stores xs", where ?'a = 64]
      unat_word_of_nat_small [of "count_events (\<lambda>e. e = Miss_writeback) (\<lambda>_. True) xs es", where ?'a = 64]
    by (simp_all add: run_stats_def)
  with r k show ?thesis by auto
qed

section \<open>Cleaning and invalidating\<close>

text \<open>
  C30: on a range that does not reach the end of the address space, \<open>clean_invalidate\<close> on the set-associative cache ends
  and treats exactly the lines of the range: each loses
  its dirty bit when cleaning and is absent afterwards when invalidating; all other lines are as before.
\<close>

theorem clean_invalidate_range:
  fixes c :: "'z cache_sim_t_scheme"
  assumes "sa_wf c" "mh m addr bytes clean inval = Some m'" "unat addr + unat bytes + 2 ^ idx_shift c - 1 < 2 ^ 64"
  shows "\<exists>c'. sa_clean_invalidate mh (c, m) addr bytes clean inval = Some (c', m') \<and> sa_wf c' \<and>
    (\<forall>l. sa_lines c' l =
      (if unat addr div 2 ^ idx_shift c \<le> unat l \<and> unat l < (unat addr + unat bytes + 2 ^ idx_shift c - 1) div 2 ^ idx_shift c
       then ci_effect clean inval (sa_lines c l) else sa_lines c l))"
  using assms by (rule sa_clean_invalidate_lines)

theorem clean_invalidate_range_witness:
  "\<exists>c'. sa_clean_invalidate no_ci_handler (small_cache, ()) 0x40 0x80 True True = Some (c', ()) \<and> sa_wf c'"
  using clean_invalidate_range [OF small_cache_wf(1), of no_ci_handler "()" "0x40" "0x80" True True "()"]
  by (auto simp: no_ci_handler_def small_cache_wf(4))

text \<open>
  On the fully associative cache \<open>clean_invalidate\<close> does not invalidate. Whatever the range and the flags, afterwards
  the same lines are found as before: the valid bit it clears is not looked at, as the map is searched by line number.
\<close>

lemma fa_invalidate_still_hits:
  fixes c :: "'z fa_cache_sim_t_scheme"
  assumes "cache_shape c" "mh m addr bytes clean inval = Some m'" "unat addr + unat bytes + 2 ^ idx_shift c - 1 < 2 ^ 64"
  shows "\<exists>c'. fa_clean_invalidate mh (c, m) addr bytes clean inval = Some (c', m') \<and> (\<forall>a. fa_check_tag c' a = fa_check_tag c a)"
  using assms by (rule fa_invalidate_no_effect)

section \<open>Configurations and the tracers\<close>

text \<open>
  C32: every cache that \<open>cache_sim_t::construct\<close> makes from a configuration string, and that has at least one way, is well
  formed and empty; negative or overflowing numbers in the string are rejected before the tags are allocated.
\<close>

theorem constructed_cache_wf:
  assumes "cache_construct config = Inr ob" "object_ways ob \<noteq> 0"
  shows "object_wf ob \<and> object_lines ob = Map.empty"
  by (rule construct_wf [OF assms])

theorem constructed_cache_wf_witness:
  "\<exists>ob. cache_construct (config_string 64 4 64) = Inr ob \<and> object_wf ob \<and> object_lines ob = Map.empty"
proof -
  obtain ob where ob: "cache_construct (config_string 64 4 64) = Inr ob" "object_geometry ob = (64, 4, 64, 6)"
    using construct_config [of 6 6 4] by auto
  then have "object_ways ob \<noteq> 0" by (cases ob) (auto simp: object_geometry_def object_ways_def geometry_def)
  from constructed_cache_wf [OF ob(1) this] ob(1) show ?thesis by blast
qed

text \<open>
  Round trip of configurations. Writing the number of sets, ways and the line size of a permitted cache in decimal,
  separated by colons, and constructing a cache from the string gives a well-formed cache of this geometry.
\<close>

lemma config_roundtrip:
  assumes "a < 31" "3 \<le> b" "b < 31" "0 < w" "w < 2 ^ 31" "2 ^ a * w < 2 ^ 60"
  shows "\<exists>ob. cache_construct (config_string (2 ^ a) w (2 ^ b)) = Inr ob \<and> object_geometry ob = (2 ^ a, of_nat w, 2 ^ b, b) \<and> object_wf ob"
  by (rule construct_config [OF assms])

text \<open>
  The caches of a simulation. With any combination of well-formed first-level caches over a shared second level, every
  memory access that the tracers are told of is defined and leaves well-formed caches; an access of a type that no tracer
  is interested in changes nothing.
\<close>

lemma traced_access_defined:
  assumes "system_wf s"
  shows "\<exists>s'. tracer_trace s addr bytes type = Some s' \<and> system_wf s' \<and> (\<not> tracer_interested s type \<longrightarrow> s' = s)"
  by (rule tracer_trace_defined [OF assms])

end
