(* ===== verification/Devices.thy ===== *)
theory Devices
  imports Prelude
begin

text \<open>
  The memory-mapped side of the simulator (\<open>riscv-isa-sim/riscv/devices.h\<close>, \<open>devices.cc\<close>, \<open>rom.cc\<close>): byte access to
  registers, the sparse main memory, the boot ROM, and the bus that finds the device of an address.
  A load that is refused (the function returns \<open>false\<close>) gives \<^const>\<open>None\<close> beside the state of the device. Lengths (\<open>size_t\<close>) are \<^typ>\<open>nat\<close>,
  addresses (\<open>reg_t\<close>) 64-bit words with the wrap-around of the source.
\<close>

section \<open>Definitions\<close>

subsection \<open>Little-endian registers\<close>

text \<open>The bit position of byte \<open>i\<close> of an access at \<open>addr\<close> to a register of type \<^typ>\<open>'a word\<close>.\<close>

definition le_shift :: "'a::len itself \<Rightarrow> u64 \<Rightarrow> nat \<Rightarrow> nat" where
  "le_shift t addr i = 8 * (unat (addr + of_nat i) mod (LENGTH('a) div 8))"

definition write_le_byte :: "u64 \<Rightarrow> u8 list \<Rightarrow> nat \<Rightarrow> 'a::len word \<Rightarrow> 'a word" where
  "write_le_byte addr bytes i w =
     (let shift = le_shift TYPE('a) addr i
      in (w AND NOT (push_bit shift 0xFF)) OR push_bit shift (ucast (bytes ! i)))"

text \<open>The assertion \<open>len \<le> sizeof(T)\<close> aborts the program: \<^const>\<open>None\<close>.\<close>

definition write_little_endian_reg :: "'a::len word \<Rightarrow> u64 \<Rightarrow> u8 list \<Rightarrow> 'a word option" where
  "write_little_endian_reg w addr bytes =
     (if length bytes \<le> LENGTH('a) div 8 then Some (fold (write_le_byte addr bytes) [0..<length bytes] w) else None)"

definition read_little_endian_reg :: "'a::len word \<Rightarrow> u64 \<Rightarrow> nat \<Rightarrow> u8 list option" where
  "read_little_endian_reg w addr len =
     (if len \<le> LENGTH('a) div 8 then Some (map (\<lambda>i. ucast (drop_bit (le_shift TYPE('a) addr i) w)) [0..<len]) else None)"

subsection \<open>Main memory\<close>

record mem_t =
  sz :: u64
  sparse_memory_map :: "u64 \<Rightarrow> u8 list option"

definition mem_new :: "u64 \<Rightarrow> mem_t option" where
  "mem_new n = (if n = 0 \<or> n mod 4096 \<noteq> 0 then None else Some \<lparr> sz = n, sparse_memory_map = Map.empty \<rparr>)"

text \<open>\<open>contents\<close>: the page of an address, allocated and cleared at the first access.\<close>

definition mem_contents :: "mem_t \<Rightarrow> u64 \<Rightarrow> u8 list \<times> mem_t" where
  "mem_contents m addr =
     (let ppn = drop_bit 12 addr
      in case sparse_memory_map m ppn of
           None \<Rightarrow> (replicate 4096 0, m\<lparr>sparse_memory_map := (sparse_memory_map m)(ppn \<mapsto> replicate 4096 0)\<rparr>)
         | Some page \<Rightarrow> (page, m))"

abbreviation (input) page_offset :: "u64 \<Rightarrow> nat" where "page_offset addr \<equiv> unat addr mod 4096"

function mem_load_loop :: "mem_t \<Rightarrow> u64 \<Rightarrow> nat \<Rightarrow> u8 list \<times> mem_t" where
  "mem_load_loop m addr len =
     (if 0 < len then
        let n = min (4096 - page_offset addr) len;
            (page, m) = mem_contents m addr;
            (bytes, m) = mem_load_loop m (addr + of_nat n) (len - n)
        in (take n (drop (page_offset addr) page) @ bytes, m)
      else ([], m))"
  by auto
termination
proof (relation "measure (\<lambda>(m, addr, len). len)")
  fix m :: mem_t and addr :: u64 and len n :: nat and x y page m1
  assume "0 < len" "n = min (4096 - page_offset addr) len"
  moreover have "page_offset addr < 4096" by simp
  ultimately show "((m1, addr + of_nat n, len - n), m, addr, len) \<in> measure (\<lambda>(m, addr, len). len)" by simp
qed simp

declare mem_load_loop.simps [simp del]

function mem_store_loop :: "mem_t \<Rightarrow> u64 \<Rightarrow> u8 list \<Rightarrow> mem_t" where
  "mem_store_loop m addr bytes =
     (if bytes \<noteq> [] then
        let n = min (4096 - page_offset addr) (length bytes);
            off = page_offset addr;
            (page, m) = mem_contents m addr;
            page = take off page @ take n bytes @ drop (off + n) page
        in mem_store_loop (m\<lparr>sparse_memory_map := (sparse_memory_map m)(drop_bit 12 addr \<mapsto> page)\<rparr>)
             (addr + of_nat n) (drop n bytes)
      else m)"
  by auto
termination
proof (relation "measure (\<lambda>(m, addr, bytes). length bytes)")
  fix m :: mem_t and addr :: u64 and bytes :: "u8 list" and n off x y page m1 page'
  assume "bytes \<noteq> []" "n = min (4096 - page_offset addr) (length bytes)"
  moreover have "page_offset addr < 4096" by simp
  ultimately show "((m1\<lparr>sparse_memory_map := (sparse_memory_map m1)(drop_bit 12 addr \<mapsto> page')\<rparr>, addr + of_nat n, drop n bytes), m, addr, bytes)
      \<in> measure (\<lambda>(m, addr, bytes). length bytes)" by simp
qed simp

declare mem_store_loop.simps [simp del]

definition mem_in_range :: "mem_t \<Rightarrow> u64 \<Rightarrow> nat \<Rightarrow> bool" where
  "mem_in_range m addr len \<longleftrightarrow> \<not> (addr + of_nat len < addr \<or> sz m < addr + of_nat len)"

definition mem_load :: "mem_t \<Rightarrow> u64 \<Rightarrow> nat \<Rightarrow> u8 list option \<times> mem_t" where
  "mem_load m addr len = (if mem_in_range m addr len then apfst Some (mem_load_loop m addr len) else (None, m))"

definition mem_store :: "mem_t \<Rightarrow> u64 \<Rightarrow> u8 list \<Rightarrow> bool \<times> mem_t" where
  "mem_store m addr bytes = (if mem_in_range m addr (length bytes) then (True, mem_store_loop m addr bytes) else (False, m))"

subsection \<open>The boot ROM\<close>

datatype rom_result = Rom_refused | Rom_undefined | Rom_bytes "u8 list"

text \<open>The test \<open>addr + len > data.size()\<close> wraps; copying from outside the vector is undefined.\<close>

definition rom_load :: "u8 list \<Rightarrow> u64 \<Rightarrow> nat \<Rightarrow> rom_result" where
  "rom_load data addr len =
     (if (of_nat (length data) :: u64) < addr + of_nat len then Rom_refused
      else if length data < unat addr + len then Rom_undefined
      else Rom_bytes (take len (drop (unat addr) data)))"

definition rom_store :: "u8 list \<Rightarrow> u64 \<Rightarrow> u8 list \<Rightarrow> bool \<times> u8 list" where
  "rom_store data addr bytes = (False, data)"

subsection \<open>The bus\<close>

text \<open>The devices in ascending order of their base addresses, as \<open>std::map\<close> keeps them.\<close>

primrec bus_add_device :: "u64 \<Rightarrow> 'd \<Rightarrow> (u64 \<times> 'd) list \<Rightarrow> (u64 \<times> 'd) list" where
  "bus_add_device addr dev [] = [(addr, dev)]"
| "bus_add_device addr dev (e # es) =
     (if addr < fst e then (addr, dev) # e # es
      else if addr = fst e then (addr, dev) # es
      else e # bus_add_device addr dev es)"

text \<open>The entry before \<open>upper_bound(addr)\<close>.\<close>

primrec bus_find_device :: "u64 \<Rightarrow> (u64 \<times> 'd) list \<Rightarrow> (u64 \<times> 'd) option" where
  "bus_find_device addr [] = None"
| "bus_find_device addr (e # es) =
     (if addr < fst e then None
      else case bus_find_device addr es of None \<Rightarrow> Some e | Some r \<Rightarrow> Some r)"

definition bus_load :: "('d \<Rightarrow> u64 \<Rightarrow> nat \<Rightarrow> u8 list option \<times> 'd) \<Rightarrow> (u64 \<times> 'd) list \<Rightarrow> u64 \<Rightarrow> nat \<Rightarrow> u8 list option \<times> (u64 \<times> 'd) list" where
  "bus_load dev_load devices addr len =
     (case bus_find_device addr devices of
        None \<Rightarrow> (None, devices)
      | Some (base, dev) \<Rightarrow>
          let (bytes, dev) = dev_load dev (addr - base) len in (bytes, bus_add_device base dev devices))"

definition bus_store :: "('d \<Rightarrow> u64 \<Rightarrow> u8 list \<Rightarrow> bool \<times> 'd) \<Rightarrow> (u64 \<times> 'd) list \<Rightarrow> u64 \<Rightarrow> u8 list \<Rightarrow> bool \<times> (u64 \<times> 'd) list" where
  "bus_store dev_store devices addr bytes =
     (case bus_find_device addr devices of
        None \<Rightarrow> (False, devices)
      | Some (base, dev) \<Rightarrow>
          let (ok, dev) = dev_store dev (addr - base) bytes in (ok, bus_add_device base dev devices))"

end
