(* ===== verification/Device_Memory.thy ===== *)
theory Device_Memory
  imports Devices
begin

text \<open>
  Byte-level facts of the devices: registers read back what was written to them, and the sparse memory behaves as
  one flat array of bytes.
\<close>

section \<open>Little-endian registers\<close>

definition reg_byte :: "nat \<Rightarrow> 'a::len word \<Rightarrow> u8" where
  "reg_byte k w = ucast (drop_bit (8 * k) w)"

lemma bit_reg_byte: "bit (reg_byte k w) n \<longleftrightarrow> n < 8 \<and> bit w (8 * k + n)"
  by (auto simp: reg_byte_def bit_simps dest: bit_imp_le_length)

lemma reg_byte_set:
  fixes w :: "'a::len word"
  assumes k: "8 * k + 8 \<le> LENGTH('a)"
  shows "reg_byte j ((w AND NOT (push_bit (8 * k) 0xFF)) OR push_bit (8 * k) (ucast b)) = (if j = k then b else reg_byte j w)"
proof (rule bit_word_eqI)
  have ff: "(0xFF :: 'a word) = mask 8" by (simp add: mask_eq_exp_minus_1)
  fix n assume "n < LENGTH(8)"
  then have n: "n < 8" by simp
  show "bit (reg_byte j ((w AND NOT (push_bit (8 * k) 0xFF)) OR push_bit (8 * k) (ucast b))) n = bit (if j = k then b else reg_byte j w) n"
  proof (cases "8 * j + n < LENGTH('a)")
    case True
    have "j = k \<or> 8 * j + n < 8 * k \<or> 8 * k + 8 \<le> 8 * j + n" using n by linarith
    then show ?thesis
      using True n k unfolding ff by (auto simp: bit_simps bit_reg_byte dest: bit_imp_le_length)
  next
    case False
    then have "j \<noteq> k" "\<not> bit w (8 * j + n)" using k n by (auto dest: bit_imp_le_length)
    then show ?thesis using False n by (auto simp: bit_reg_byte dest: bit_imp_le_length)
  qed
qed

definition le_pos :: "'a::len itself \<Rightarrow> u64 \<Rightarrow> nat \<Rightarrow> nat" where
  "le_pos t addr i = unat (addr + of_nat i) mod (LENGTH('a) div 8)"

lemma le_shift_pos: "le_shift TYPE('a::len) addr i = 8 * le_pos TYPE('a) addr i"
  by (simp add: le_shift_def le_pos_def)

lemma le_pos_less: "8 \<le> LENGTH('a) \<Longrightarrow> 8 * le_pos TYPE('a::len) addr i + 8 \<le> LENGTH('a)"
proof -
  assume "8 \<le> LENGTH('a)"
  then have "le_pos TYPE('a) addr i < LENGTH('a) div 8" unfolding le_pos_def by (intro mod_less_divisor) simp
  then show ?thesis by linarith
qed

lemma le_pos_inj:
  assumes d: "LENGTH('a::len) div 8 dvd 2 ^ 64" and "i < j" "j < LENGTH('a) div 8"
  shows "le_pos TYPE('a) addr i \<noteq> le_pos TYPE('a) addr j"
proof
  define S where "S = LENGTH('a) div 8"
  assume "le_pos TYPE('a) addr i = le_pos TYPE('a) addr j"
  then have "(unat addr + i) mod 2 ^ 64 mod S = (unat addr + j) mod 2 ^ 64 mod S"
    by (simp add: le_pos_def S_def unat_word_ariths unat_of_nat mod_simps)
  then have "(unat addr + i) mod S = (unat addr + j) mod S" using d by (simp add: S_def mod_mod_cancel)
  then have "S dvd (unat addr + j) - (unat addr + i)" using assms(2) by (intro mod_eq_dvd_iff_nat [THEN iffD1]) simp_all
  then have "S dvd j - i" by simp
  moreover have "0 < j - i" "j - i < S" using assms(2,3) by (simp_all add: S_def less_imp_diff_less)
  ultimately show False using nat_dvd_not_less by blast
qed

lemma reg_byte_write:
  fixes w :: "'a::len word"
  assumes "8 \<le> LENGTH('a)"
  shows "reg_byte j (write_le_byte addr bytes i w) = (if j = le_pos TYPE('a) addr i then bytes ! i else reg_byte j w)"
  unfolding write_le_byte_def Let_def le_shift_pos by (rule reg_byte_set [OF le_pos_less [OF assms]])

lemma reg_byte_fold:
  fixes w :: "'a::len word"
  assumes a: "8 \<le> LENGTH('a)" "LENGTH('a) div 8 dvd 2 ^ 64" and "n \<le> LENGTH('a) div 8" "i < n"
  shows "reg_byte (le_pos TYPE('a) addr i) (fold (write_le_byte addr bytes) [0..<n] w) = bytes ! i"
  using assms(3,4)
proof (induction n)
  case (Suc n)
  then show ?case using le_pos_inj [OF a(2), of i n addr] by (auto simp: reg_byte_write [OF a(1)] less_Suc_eq)
qed simp

lemma reg_byte_fold_other:
  fixes w :: "'a::len word"
  assumes a: "8 \<le> LENGTH('a)" and "\<forall>i<n. le_pos TYPE('a) addr i \<noteq> j"
  shows "reg_byte j (fold (write_le_byte addr bytes) [0..<n] w) = reg_byte j w"
  using assms(2) by (induction n) (auto simp: reg_byte_write [OF a] less_Suc_eq)

theorem le_reg_roundtrip:
  fixes w :: "'a::len word"
  assumes "8 \<le> LENGTH('a)" "LENGTH('a) div 8 dvd 2 ^ 64" "write_little_endian_reg w addr bytes = Some w'"
  shows "read_little_endian_reg w' addr (length bytes) = Some bytes"
proof -
  have l: "length bytes \<le> LENGTH('a) div 8" and w': "w' = fold (write_le_byte addr bytes) [0..<length bytes] w"
    using assms(3) by (auto simp: write_little_endian_reg_def split: if_splits)
  have "map (\<lambda>i. ucast (drop_bit (le_shift TYPE('a) addr i) w')) [0..<length bytes] = bytes"
  proof (rule nth_equalityI)
    fix i assume "i < length (map (\<lambda>i. ucast (drop_bit (le_shift TYPE('a) addr i) w') :: u8) [0..<length bytes])"
    then have "i < length bytes" by simp
    from reg_byte_fold [OF assms(1,2) l this, of addr bytes w]
    show "map (\<lambda>i. ucast (drop_bit (le_shift TYPE('a) addr i) w')) [0..<length bytes] ! i = bytes ! i"
      using \<open>i < length bytes\<close> by (simp add: w' reg_byte_def le_shift_pos)
  qed simp
  then show ?thesis using l by (simp add: read_little_endian_reg_def)
qed

section \<open>Main memory\<close>

definition mem_byte :: "mem_t \<Rightarrow> u64 \<Rightarrow> u8" where
  "mem_byte m a = (case sparse_memory_map m (drop_bit 12 a) of None \<Rightarrow> 0 | Some page \<Rightarrow> page ! page_offset a)"

definition mem_wf :: "mem_t \<Rightarrow> bool" where
  "mem_wf m \<longleftrightarrow> (\<forall>page \<in> ran (sparse_memory_map m). length page = 4096)"

lemma mem_wf_page: "mem_wf m \<Longrightarrow> sparse_memory_map m p = Some page \<Longrightarrow> length page = 4096"
  by (auto simp: mem_wf_def ran_def)

lemma mem_contents_eq:
  assumes "mem_wf m" "mem_contents m addr = (page, m')"
  shows "length page = 4096" "mem_wf m'" "mem_byte m' = mem_byte m" "sz m' = sz m" "sparse_memory_map m' (drop_bit 12 addr) = Some page"
    "\<And>a. drop_bit 12 a = drop_bit 12 addr \<Longrightarrow> page ! page_offset a = mem_byte m a"
  using assms mem_wf_page [OF assms(1)]
  by (auto simp: mem_contents_def Let_def mem_wf_def mem_byte_def fun_eq_iff ran_def split: option.splits if_splits)

lemma in_page:
  fixes addr :: u64
  assumes "i < 4096 - page_offset addr"
  shows "drop_bit 12 (addr + of_nat i) = drop_bit 12 addr" "page_offset (addr + of_nat i) = page_offset addr + i"
    "unat (addr + of_nat i) = unat addr + i"
proof -
  define a where "a = unat addr"
  have a: "a = 4096 * (a div 4096) + a mod 4096" "a mod 4096 + i < 4096" using assms by (simp_all add: a_def)
  have "a div 4096 < 2 ^ 52" using unat_lt2p [of addr] by (simp add: a_def less_mult_imp_div_less)
  then have "4096 * (a div 4096) + 4096 \<le> 2 ^ 64" by simp
  then have lt: "a + i < 2 ^ 64" using a by linarith
  have "unat (of_nat i :: u64) = i" using assms by (intro unat_word_of_nat_small) simp
  then show u: "unat (addr + of_nat i) = unat addr + i" using lt by (simp add: unat_word_ariths(1) a_def)
  have d: "(a + i) div 4096 = a div 4096" "(a + i) mod 4096 = a mod 4096 + i"
    using a(2) div_add1_eq [of a i 4096] mod_add_left_eq [of a 4096 i, symmetric] by simp_all
  have "unat (drop_bit 12 w) = unat w div 4096" for w :: u64 using unat_drop_bit_eq [of 12 w] drop_bit_eq_div [of 12 "unat w"] by simp
  then show "drop_bit 12 (addr + of_nat i) = drop_bit 12 addr" using d(1) u by (simp add: word_unat_eq_iff a_def)
  show "page_offset (addr + of_nat i) = page_offset addr + i" using d(2) u by (simp add: a_def)
qed

lemma mem_load_loop_bytes:
  assumes "mem_wf m"
  shows "fst (mem_load_loop m addr len) = map (\<lambda>i. mem_byte m (addr + of_nat i)) [0..<len] \<and>
    mem_byte (snd (mem_load_loop m addr len)) = mem_byte m \<and> mem_wf (snd (mem_load_loop m addr len)) \<and> sz (snd (mem_load_loop m addr len)) = sz m"
  using assms
proof (induction m addr len rule: mem_load_loop.induct)
  case (1 m addr len)
  show ?case
  proof (cases "0 < len")
    case True
    define n where "n = min (4096 - page_offset addr) len"
    obtain page m1 where c: "mem_contents m addr = (page, m1)" by fastforce
    obtain bytes m2 where r: "mem_load_loop m1 (addr + of_nat n) (len - n) = (bytes, m2)" by fastforce
    note C = mem_contents_eq [OF "1.prems" c]
    have IH: "bytes = map (\<lambda>i. mem_byte m (addr + of_nat n + of_nat i)) [0..<len - n] \<and> mem_byte m2 = mem_byte m \<and> mem_wf m2 \<and> sz m2 = sz m"
      using "1.IH" [OF True n_def c [symmetric] refl C(2)] r C(3,4) by simp
    have "take n (drop (page_offset addr) page) = map (\<lambda>i. mem_byte m (addr + of_nat i)) [0..<n]"
    proof (rule nth_equalityI)
      fix i assume "i < length (take n (drop (page_offset addr) page))"
      then have i: "i < n" by simp
      then have "i < 4096 - page_offset addr" by (simp add: n_def)
      note P = in_page [OF this]
      show "take n (drop (page_offset addr) page) ! i = map (\<lambda>i. mem_byte m (addr + of_nat i)) [0..<n] ! i"
        using C(6) [OF P(1)] P(2) i C(1) by (simp add: n_def)
    qed (simp add: C(1) n_def)
    moreover have "[0..<len] = [0..<n] @ map (\<lambda>i. i + n) [0..<len - n]"
      using upt_add_eq_append [of 0 n "len - n"] map_add_upt [of n "len - n"] by (simp add: n_def)
    moreover have "mem_load_loop m addr len = (take n (drop (page_offset addr) page) @ bytes, m2)"
      using True c r by (simp add: mem_load_loop.simps [of m addr len] n_def Let_def)
    ultimately show ?thesis using IH by (simp add: comp_def ac_simps)
  qed (use "1.prems" in \<open>simp add: mem_load_loop.simps [of m addr 0]\<close>)
qed

lemma page_store:
  assumes wf: "mem_wf m" and c: "mem_contents m addr = (page, m1)" and n: "n \<le> length bytes" "n \<le> 4096 - page_offset addr"
  defines "m2 \<equiv> m1\<lparr>sparse_memory_map := (sparse_memory_map m1)(drop_bit 12 addr \<mapsto>
      take (page_offset addr) page @ take n bytes @ drop (page_offset addr + n) page)\<rparr>"
  shows "mem_wf m2" "sz m2 = sz m" "mem_byte m2 a = (if unat (a - addr) < n then bytes ! unat (a - addr) else mem_byte m a)"
proof -
  note C = mem_contents_eq [OF wf c]
  show "mem_wf m2" using C(1,2) n by (auto simp: m2_def mem_wf_def ran_def)
  show "sz m2 = sz m" using C(4) by (simp add: m2_def)
  define o1 where "o1 = page_offset addr"
  have o1: "o1 < 4096" by (simp add: o1_def)
  show "mem_byte m2 a = (if unat (a - addr) < n then bytes ! unat (a - addr) else mem_byte m a)"
  proof (cases "drop_bit 12 a = drop_bit 12 addr")
    case False
    have "\<not> unat (a - addr) < n" using in_page(1) [of "unat (a - addr)" addr] n(2) False by auto
    then show ?thesis using False C(3) by (simp add: m2_def mem_byte_def fun_eq_iff)
  next
    case True
    have b: "mem_byte m2 a = (take o1 page @ take n bytes @ drop (o1 + n) page) ! page_offset a"
      by (simp add: m2_def mem_byte_def True o1_def)
    show ?thesis
    proof (cases "unat (a - addr) < n")
      case lt: True
      then have "page_offset a = o1 + unat (a - addr)" using in_page(2) [of "unat (a - addr)" addr] n(2) by (simp add: o1_def)
      then show ?thesis using b lt C(1) o1 n by (simp add: nth_append o1_def)
    next
      case ge: False
      have "page_offset a < o1 \<or> o1 + n \<le> page_offset a"
      proof (rule ccontr)
        assume "\<not> ?thesis"
        then have i: "o1 \<le> page_offset a" "page_offset a - o1 < n" by auto
        have "unat a = unat addr + (page_offset a - o1)"
        proof -
          have "unat a div 4096 = unat addr div 4096"
            using True unat_drop_bit_eq [of 12 a] unat_drop_bit_eq [of 12 addr] drop_bit_eq_div [of 12 "unat a"] drop_bit_eq_div [of 12 "unat addr"] by simp
          then show ?thesis using i(1) div_mult_mod_eq [of "unat a" 4096] div_mult_mod_eq [of "unat addr" 4096] unfolding o1_def by linarith
        qed
        then have "unat (a - addr) = page_offset a - o1" by (simp add: unat_sub_if')
        with i ge show False by simp
      qed
      then show ?thesis using b ge C(1) C(6) [OF True] o1 n by (auto simp: nth_append o1_def)
    qed
  qed
qed

lemma mem_store_loop_bytes:
  assumes "mem_wf m" "length bytes < 2 ^ 64"
  shows "mem_wf (mem_store_loop m addr bytes) \<and> sz (mem_store_loop m addr bytes) = sz m \<and>
    (\<forall>a. mem_byte (mem_store_loop m addr bytes) a = (if unat (a - addr) < length bytes then bytes ! unat (a - addr) else mem_byte m a))"
  using assms
proof (induction m addr bytes rule: mem_store_loop.induct)
  case (1 m addr bytes)
  show ?case
  proof (cases "bytes = []")
    case False
    define n where "n = min (4096 - page_offset addr) (length bytes)"
    obtain page m1 where c: "mem_contents m addr = (page, m1)" by fastforce
    define m2 where "m2 = m1\<lparr>sparse_memory_map := (sparse_memory_map m1)(drop_bit 12 addr \<mapsto>
      take (page_offset addr) page @ take n bytes @ drop (page_offset addr + n) page)\<rparr>"
    note P = page_store [OF "1.prems"(1) c, of n bytes, folded m2_def]
    have n: "n \<le> length bytes" "n \<le> 4096 - page_offset addr" "0 < n" using False by (auto simp: n_def)
    have IH: "mem_wf (mem_store_loop m2 (addr + of_nat n) (drop n bytes)) \<and> sz (mem_store_loop m2 (addr + of_nat n) (drop n bytes)) = sz m2 \<and>
      (\<forall>a. mem_byte (mem_store_loop m2 (addr + of_nat n) (drop n bytes)) a =
        (if unat (a - (addr + of_nat n)) < length (drop n bytes) then drop n bytes ! unat (a - (addr + of_nat n)) else mem_byte m2 a))"
      unfolding m2_def by (rule "1.IH" [OF False n_def refl c [symmetric] refl]) (use P(1) n "1.prems"(2) in \<open>simp_all add: m2_def\<close>)
    have e: "mem_store_loop m addr bytes = mem_store_loop m2 (addr + of_nat n) (drop n bytes)"
      using False c by (simp add: mem_store_loop.simps [of m addr bytes] Let_def m2_def n_def)
    have "mem_byte (mem_store_loop m addr bytes) a = (if unat (a - addr) < length bytes then bytes ! unat (a - addr) else mem_byte m a)" for a
    proof -
      have nn: "unat (of_nat n :: u64) = n" using n "1.prems"(2) by (intro unat_word_of_nat_small) simp
      have s: "unat (a - (addr + of_nat n)) = (if n \<le> unat (a - addr) then unat (a - addr) - n else unat (a - addr) + 2 ^ 64 - n)"
        unfolding diff_diff_eq [symmetric] unat_sub_if' [of "a - addr"] nn by simp
      show ?thesis using IH P(3) [of a] n s "1.prems"(2) unfolding e by auto
    qed
    then show ?thesis using IH P(2) n unfolding e by simp
  qed (use "1.prems" in \<open>simp add: mem_store_loop.simps [of m addr "[]"]\<close>)
qed

text \<open>The range check rejects exactly the accesses that wrap or leave the memory.\<close>

lemma mem_in_range_iff:
  assumes "len < 2 ^ 64"
  shows "mem_in_range m addr len \<longleftrightarrow> unat addr + len < 2 ^ 64 \<and> unat addr + len \<le> unat (sz m)"
proof -
  have n: "unat (of_nat len :: u64) = len" using assms by (intro unat_word_of_nat_small) simp
  have u: "unat (addr + of_nat len) = (if unat addr + len < 2 ^ 64 then unat addr + len else unat addr + len - 2 ^ 64)"
  proof (cases "unat addr + len < 2 ^ 64")
    case False
    then have "(unat addr + len) mod 2 ^ 64 = unat addr + len - 2 ^ 64"
      using unat_lt2p [of addr] assms by (simp add: mod_if)
    then show ?thesis using False n by (simp add: unat_word_ariths(1))
  qed (simp add: unat_word_ariths(1) n)
  show ?thesis using unat_lt2p [of addr] assms by (auto simp: mem_in_range_def word_less_nat_alt u)
qed

theorem mem_store_load:
  assumes wf: "mem_wf m" and l: "length bytes < 2 ^ 64" and r: "unat addr + length bytes < 2 ^ 64" "unat addr + length bytes \<le> unat (sz m)"
  shows "\<exists>m'. mem_store m addr bytes = (True, m') \<and> mem_wf m' \<and> fst (mem_load m' addr (length bytes)) = Some bytes \<and>
    (\<forall>a. \<not> unat (a - addr) < length bytes \<longrightarrow> mem_byte m' a = mem_byte m a)"
proof -
  define m' where "m' = mem_store_loop m addr bytes"
  note S = mem_store_loop_bytes [OF wf l, of addr, folded m'_def]
  have R: "mem_in_range m addr (length bytes)" "mem_in_range m' addr (length bytes)" using r S by (simp_all add: mem_in_range_iff [OF l])
  have "fst (mem_load_loop m' addr (length bytes)) = map (\<lambda>i. mem_byte m' (addr + of_nat i)) [0..<length bytes]"
    using mem_load_loop_bytes S by blast
  also have "\<dots> = bytes"
  proof (rule nth_equalityI)
    fix i assume "i < length (map (\<lambda>i. mem_byte m' (addr + of_nat i)) [0..<length bytes])"
    then have i: "i < length bytes" by simp
    then have "unat (of_nat i :: u64) = i" using l by (intro unat_word_of_nat_small) simp
    then show "map (\<lambda>i. mem_byte m' (addr + of_nat i)) [0..<length bytes] ! i = bytes ! i" using i S by simp
  qed simp
  finally have "fst (mem_load m' addr (length bytes)) = Some bytes" using R(2) by (simp add: mem_load_def)
  then show ?thesis using R(1) S by (auto simp: mem_store_def m'_def)
qed

section \<open>The bus\<close>

lemma bus_find_sound:
  "sorted_wrt (<) (map fst ds) \<Longrightarrow> bus_find_device addr ds = Some (base, dev) \<longleftrightarrow>
    (base, dev) \<in> set ds \<and> base \<le> addr \<and> (\<forall>b \<in> fst ` set ds. b \<le> addr \<longrightarrow> b \<le> base)"
proof (induction ds arbitrary: base dev)
  case (Cons e ds)
  have s: "sorted_wrt (<) (map fst ds)" "\<forall>b \<in> fst ` set ds. fst e < b" using Cons.prems by auto
  show ?case
  proof (cases "addr < fst e")
    case True
    then show ?thesis using s(2) by auto
  next
    case False
    show ?thesis
    proof (cases "bus_find_device addr ds")
      case None
      have "\<forall>b \<in> fst ` set ds. \<not> b \<le> addr"
      proof (rule ccontr)
        assume "\<not> ?thesis"
        then obtain b where b: "b \<in> {b \<in> fst ` set ds. b \<le> addr}" by blast
        define M where "M = Max {b \<in> fst ` set ds. b \<le> addr}"
        have "M \<in> {b \<in> fst ` set ds. b \<le> addr}" unfolding M_def by (rule Max_in) (use b in auto)
        moreover have "\<forall>c \<in> {b \<in> fst ` set ds. b \<le> addr}. c \<le> M" unfolding M_def by simp
        ultimately obtain d where "(M, d) \<in> set ds" "M \<le> addr" "\<forall>c \<in> fst ` set ds. c \<le> addr \<longrightarrow> c \<le> M" by auto
        then show False using Cons.IH [OF s(1), of M d] None by auto
      qed
      then show ?thesis using None False by (cases e) (auto simp: not_less)
    next
      case (Some r)
      obtain b d where r: "r = (b, d)" by (cases r)
      then have R: "(b, d) \<in> set ds" "b \<le> addr" "\<forall>c \<in> fst ` set ds. c \<le> addr \<longrightarrow> c \<le> b" using Cons.IH [OF s(1), of b d] Some by auto
      have "fst e < b" using s(2) R(1) by force
      then show ?thesis using Some r R False Cons.IH [OF s(1), of base dev] by (auto simp: not_less)
    qed
  qed
qed simp

lemma bus_replace: "sorted_wrt (<) (map fst ds) \<Longrightarrow> base \<in> fst ` set ds \<Longrightarrow> map fst (bus_add_device base dev ds) = map fst ds"
  by (induction ds) auto

end
