(* ===== verification/Harts.thy ===== *)
theory Harts
  imports Device_Memory
begin

text \<open>
  What the interrupt controllers touch of a hart: the pending register \<open>mip\<close> and the time counter
  (\<open>riscv-isa-sim/riscv/csrs.cc\<close>). \<open>sim->get_harts()\<close> is a map from hart numbers; a write through a hart pointer
  updates the entry.
\<close>

text \<open>\<open>1 << IRQ_...\<close> of \<open>encoding.h\<close>.\<close>

definition irq_bit :: "nat \<Rightarrow> u64" where
  "irq_bit n = push_bit n 1"

abbreviation (input) MIP_MSIP :: u64 where "MIP_MSIP \<equiv> irq_bit 3"
abbreviation (input) MIP_STIP :: u64 where "MIP_STIP \<equiv> irq_bit 5"
abbreviation (input) MIP_VSTIP :: u64 where "MIP_VSTIP \<equiv> irq_bit 6"
abbreviation (input) MIP_MTIP :: u64 where "MIP_MTIP \<equiv> irq_bit 7"
abbreviation (input) MIP_SEIP :: u64 where "MIP_SEIP \<equiv> irq_bit 9"
abbreviation (input) MIP_MEIP :: u64 where "MIP_MEIP \<equiv> irq_bit 11"

record hart_t =
  mip :: u64
  shadow_val :: u64
  sstc_enabled :: bool
  stimecmp :: u64
  vstimecmp :: u64
  htimedelta :: u64

type_synonym harts = "u64 \<Rightarrow> hart_t option"

definition backdoor_write_with_mask :: "u64 \<Rightarrow> u64 \<Rightarrow> hart_t \<Rightarrow> hart_t" where
  "backdoor_write_with_mask m val h = h\<lparr>mip := (mip h AND NOT m) OR (val AND m)\<rparr>"

definition time_sync :: "u64 \<Rightarrow> hart_t \<Rightarrow> hart_t" where
  "time_sync val h =
     (let h = h\<lparr>shadow_val := val\<rparr>
      in if sstc_enabled h
         then backdoor_write_with_mask (MIP_STIP OR MIP_VSTIP)
           ((if stimecmp h \<le> shadow_val h then MIP_STIP else 0) OR
            (if vstimecmp h \<le> shadow_val h + htimedelta h then MIP_VSTIP else 0)) h
         else h)"

definition hart_update :: "u64 \<Rightarrow> (hart_t \<Rightarrow> hart_t) \<Rightarrow> harts \<Rightarrow> harts" where
  "hart_update hid f hs = hs(hid := map_option f (hs hid))"

lemma bit_backdoor:
  "bit (mip (backdoor_write_with_mask m val h)) n \<longleftrightarrow> (if bit m n then bit val n else bit (mip h) n)"
  by (auto simp: backdoor_write_with_mask_def bit_simps dest: bit_imp_le_length)

lemma bit_irq_bit [simp]: "bit (irq_bit n) k \<longleftrightarrow> k = n \<and> n < 64"
  unfolding irq_bit_def bit_push_bit_iff bit_1_iff by (auto dest: bit_imp_le_length)

lemma irq_bit_test:
  assumes "n < 64"
  shows "w AND irq_bit n \<noteq> 0 \<longleftrightarrow> bit w n"
proof -
  have "w AND irq_bit n = 0 \<longleftrightarrow> (\<forall>k. \<not> bit (w AND irq_bit n) k)" by (metis bit_0_eq bit_word_eqI bot_apply bot_bool_def)
  then show ?thesis using assms by (auto simp: bit_and_iff)
qed

lemma bit_backdoor_one:
  "n < 64 \<Longrightarrow> bit (mip (backdoor_write_with_mask (irq_bit n) (if c then irq_bit n else 0) h)) k \<longleftrightarrow> (if k = n then c else bit (mip h) k)"
  unfolding bit_backdoor by auto

lemma time_sync_bits: "k \<noteq> 5 \<Longrightarrow> k \<noteq> 6 \<Longrightarrow> bit (mip (time_sync val h)) k \<longleftrightarrow> bit (mip h) k"
  by (simp add: time_sync_def Let_def bit_backdoor bit_or_iff)

lemma time_sync_shadow [simp]: "shadow_val (time_sync val h) = val"
  by (simp add: time_sync_def Let_def backdoor_write_with_mask_def)

lemma backdoor_shadow [simp]: "shadow_val (backdoor_write_with_mask m v h) = shadow_val h"
  by (simp add: backdoor_write_with_mask_def)

text \<open>Two states of the harts that differ only in the given bits of \<open>mip\<close> and in the time counters.\<close>

definition same_bits :: "nat set \<Rightarrow> harts \<Rightarrow> harts \<Rightarrow> bool" where
  "same_bits K hs hs' \<longleftrightarrow> dom hs' = dom hs \<and>
     (\<forall>i h h'. hs i = Some h \<longrightarrow> hs' i = Some h' \<longrightarrow> (\<forall>k \<in> K. bit (mip h') k = bit (mip h) k))"

lemma same_bits_refl [simp]: "same_bits K hs hs"
  by (simp add: same_bits_def)

lemma same_bits_trans: "same_bits K a b \<Longrightarrow> same_bits K b c \<Longrightarrow> same_bits K a c"
  unfolding same_bits_def by (auto simp: dom_def set_eq_iff) (metis not_None_eq)+

lemma same_bits_update:
  assumes "\<And>h k. k \<in> K \<Longrightarrow> bit (mip (f h)) k = bit (mip h) k"
  shows "same_bits K hs (hart_update i f hs)"
  using assms by (auto simp: same_bits_def hart_update_def dom_def split: if_splits)

end
