(* ===== verification/Plic.thy ===== *)
theory Plic
  imports Harts
begin

text \<open>
  The platform-level interrupt controller (\<open>riscv-isa-sim/riscv/plic.cc\<close>). The bit arrays of a context are lists of
  32 words, the priorities lists of 1024 bytes; \<open>plic_wf\<close> states these lengths and that \<open>num_ids\<close> does not exceed
  them, which the constructor does not check. A context names its hart by number.
\<close>

section \<open>Definitions\<close>

record plic_context_t =
  proc :: u64
  mmode :: bool
  priority_threshold :: u8
  enable :: "u32 list"
  pending :: "u32 list"
  pending_priority :: "u8 list"
  claimed :: "u32 list"

record plic_t =
  contexts :: "plic_context_t list"
  num_ids :: u32
  num_ids_word :: u32
  max_prio :: u32
  priority :: "u8 list"
  level :: "u32 list"

type_synonym plic_state = "plic_t \<times> harts"

abbreviation (input) PENDING_BASE :: u64 where "PENDING_BASE \<equiv> 0x1000"
abbreviation (input) ENABLE_BASE :: u64 where "ENABLE_BASE \<equiv> 0x2000"
abbreviation (input) ENABLE_PER_HART :: u64 where "ENABLE_PER_HART \<equiv> 0x80"
abbreviation (input) CONTEXT_BASE :: u64 where "CONTEXT_BASE \<equiv> 0x200000"
abbreviation (input) CONTEXT_PER_HART :: u64 where "CONTEXT_PER_HART \<equiv> 0x1000"
abbreviation (input) REG_SIZE :: u64 where "REG_SIZE \<equiv> 0x1000000"

definition plic_context_new :: "u64 \<Rightarrow> bool \<Rightarrow> plic_context_t" where
  "plic_context_new p m =
     \<lparr> proc = p, mmode = m, priority_threshold = 0, enable = replicate 32 0, pending = replicate 32 0,
       pending_priority = replicate 1024 0, claimed = replicate 32 0 \<rparr>"

text \<open>The harts in ascending order of their numbers, each with whether it has supervisor mode.\<close>

definition plic_new :: "(u64 \<times> bool) list \<Rightarrow> u32 \<Rightarrow> plic_t" where
  "plic_new hs ndev =
     \<lparr> contexts = concat (map (\<lambda>(h, s). plic_context_new h True # (if s then [plic_context_new h False] else [])) hs),
       num_ids = ndev + 1, num_ids_word = (ndev + 1 + (32 - 1)) div 32, max_prio = 15,
       priority = replicate 1024 0, level = replicate 32 0 \<rparr>"

text \<open>\<open>1 << j\<close> in 32 bits.\<close>

definition id_mask :: "nat \<Rightarrow> u32" where
  "id_mask j = push_bit j 1"

definition best_pending_bit :: "plic_t \<Rightarrow> plic_context_t \<Rightarrow> nat \<Rightarrow> nat \<Rightarrow> nat \<times> u8 \<Rightarrow> nat \<times> u8" where
  "best_pending_bit p c i j = (\<lambda>(best_id, best_id_prio).
     let i32 = i * 32 + j
     in if unat (num_ids p) \<le> i32 \<or> pending c ! i AND id_mask j = 0 \<or> claimed c ! i AND id_mask j \<noteq> 0 then (best_id, best_id_prio)
        else if best_id = 0 \<or> best_id_prio < pending_priority c ! i32 then (i32, pending_priority c ! i32)
        else (best_id, best_id_prio))"

definition best_pending_word :: "plic_t \<Rightarrow> plic_context_t \<Rightarrow> nat \<Rightarrow> nat \<times> u8 \<Rightarrow> nat \<times> u8" where
  "best_pending_word p c i b = (if pending c ! i = 0 then b else fold (best_pending_bit p c i) [0..<32] b)"

definition context_best_pending :: "plic_t \<Rightarrow> plic_context_t \<Rightarrow> nat" where
  "context_best_pending p c = fst (fold (best_pending_word p c) [0..<unat (num_ids_word p)] (0, 0))"

definition context_update :: "plic_t \<Rightarrow> plic_context_t \<Rightarrow> harts \<Rightarrow> harts" where
  "context_update p c hs =
     (let best_id = context_best_pending p c;
          m = (if mmode c then MIP_MEIP else MIP_SEIP)
      in hart_update (proc c) (backdoor_write_with_mask m (if best_id \<noteq> 0 then m else 0)) hs)"

text \<open>Operations on a context are given by its index; the context is written back into the vector.\<close>

definition set_context :: "nat \<Rightarrow> plic_context_t \<Rightarrow> plic_t \<Rightarrow> plic_t" where
  "set_context n c p = p\<lparr>contexts := (contexts p)[n := c]\<rparr>"

definition context_claim :: "nat \<Rightarrow> plic_state \<Rightarrow> u32 \<times> plic_state" where
  "context_claim n = (\<lambda>(p, hs).
     let c = contexts p ! n;
         best_id = context_best_pending p c;
         w = best_id div 32;
         c = (if best_id \<noteq> 0 then c\<lparr>claimed := (claimed c)[w := claimed c ! w OR id_mask (best_id mod 32)]\<rparr> else c)
     in (of_nat best_id, (set_context n c p, context_update p c hs)))"

definition priority_read :: "plic_t \<Rightarrow> u64 \<Rightarrow> u32" where
  "priority_read p offset =
     (let i = (ucast (drop_bit 2 offset) :: u32)
      in if 0 < i \<and> i < num_ids p then ucast (priority p ! unat i) else 0)"

definition priority_write :: "plic_t \<Rightarrow> u64 \<Rightarrow> u32 \<Rightarrow> plic_t" where
  "priority_write p offset val =
     (let i = (ucast (drop_bit 2 offset) :: u32)
      in if 0 < i \<and> i < num_ids p then p\<lparr>priority := (priority p)[unat i := ucast (val AND 15)]\<rparr> else p)"

definition pending_read :: "plic_t \<Rightarrow> u64 \<Rightarrow> u32" where
  "pending_read p offset =
     (let id_word = (ucast (drop_bit 2 offset) :: u32)
      in if id_word < num_ids_word p then fold (\<lambda>c val. val OR pending c ! unat id_word) (contexts p) 0 else 0)"

definition context_enable_read :: "plic_t \<Rightarrow> plic_context_t \<Rightarrow> u64 \<Rightarrow> u32" where
  "context_enable_read p c offset =
     (let id_word = (ucast (drop_bit 2 offset) :: u32)
      in if id_word < num_ids_word p then enable c ! unat id_word else 0)"

definition enable_bit :: "plic_t \<Rightarrow> nat \<Rightarrow> u32 \<Rightarrow> u32 \<Rightarrow> nat \<Rightarrow> plic_context_t \<Rightarrow> plic_context_t" where
  "enable_bit p w new_val xor_val i c =
     (let i32 = w * 32 + i
      in if xor_val AND id_mask i = 0 then c
         else if new_val AND id_mask i \<noteq> 0 \<and> level p ! w AND id_mask i \<noteq> 0
         then c\<lparr>pending := (pending c)[w := pending c ! w OR id_mask i],
                pending_priority := (pending_priority c)[i32 := priority p ! i32]\<rparr>
         else if new_val AND id_mask i = 0
         then c\<lparr>pending := (pending c)[w := pending c ! w AND NOT (id_mask i)],
                pending_priority := (pending_priority c)[i32 := 0],
                claimed := (claimed c)[w := claimed c ! w AND NOT (id_mask i)]\<rparr>
         else c)"

definition context_enable_write :: "nat \<Rightarrow> u64 \<Rightarrow> u32 \<Rightarrow> plic_state \<Rightarrow> plic_state" where
  "context_enable_write n offset val = (\<lambda>(p, hs).
     let id_word = (ucast (drop_bit 2 offset) :: u32);
         w = unat id_word;
         c = contexts p ! n
     in if num_ids_word p \<le> id_word then (p, hs)
        else let old_val = enable c ! w;
                 new_val = (if id_word = 0 then val AND NOT 1 else val);
                 c = c\<lparr>enable := (enable c)[w := new_val]\<rparr>;
                 c = fold (enable_bit p w new_val (old_val XOR new_val)) [0..<32] c
             in (set_context n c p, context_update p c hs))"

definition context_read :: "nat \<Rightarrow> u64 \<Rightarrow> plic_state \<Rightarrow> u32 \<times> plic_state" where
  "context_read n offset = (\<lambda>(p, hs).
     if offset = 0 then (ucast (priority_threshold (contexts p ! n)), (p, hs))
     else if offset = 4 then context_claim n (p, hs)
     else (0, (p, hs)))"

definition context_write :: "nat \<Rightarrow> u64 \<Rightarrow> u32 \<Rightarrow> plic_state \<Rightarrow> bool \<times> plic_state" where
  "context_write n offset val = (\<lambda>(p, hs).
     let c = contexts p ! n
     in if offset = 0 then
          (let val = val AND 15
           in if val \<le> max_prio p
              then let c = c\<lparr>priority_threshold := ucast val\<rparr> in (True, (set_context n c p, context_update p c hs))
              else (False, (p, hs)))
        else if offset = 4 then
          (let w = unat val div 32; m = id_mask (unat val mod 32)
           in if val < num_ids p \<and> enable c ! w AND m \<noteq> 0
              then let c = c\<lparr>claimed := (claimed c)[w := claimed c ! w AND NOT m]\<rparr> in (True, (set_context n c p, context_update p c hs))
              else (True, (p, hs)))
        else (False, (p, hs)))"

text \<open>The loop of \<open>set_interrupt_level\<close> ends (\<open>break\<close>) at the first context that has the source enabled.\<close>

definition set_context_level :: "plic_t \<Rightarrow> nat \<Rightarrow> bool \<Rightarrow> plic_context_t \<Rightarrow> plic_context_t" where
  "set_context_level p i lvl c =
     (let w = i div 32; m = id_mask (i mod 32)
      in if lvl then c\<lparr>pending := (pending c)[w := pending c ! w OR m],
                       pending_priority := (pending_priority c)[i := priority p ! i]\<rparr>
         else c\<lparr>pending := (pending c)[w := pending c ! w AND NOT m],
                pending_priority := (pending_priority c)[i := 0],
                claimed := (claimed c)[w := claimed c ! w AND NOT m]\<rparr>)"

primrec level_contexts :: "plic_t \<Rightarrow> nat \<Rightarrow> bool \<Rightarrow> nat list \<Rightarrow> harts \<Rightarrow> plic_state" where
  "level_contexts p i lvl [] hs = (p, hs)"
| "level_contexts p i lvl (n # ns) hs =
     (let c = contexts p ! n
      in if enable c ! (i div 32) AND id_mask (i mod 32) \<noteq> 0
         then let c = set_context_level p i lvl c in (set_context n c p, context_update p c hs)
         else level_contexts p i lvl ns hs)"

definition set_interrupt_level :: "u32 \<Rightarrow> bool \<Rightarrow> plic_state \<Rightarrow> plic_state" where
  "set_interrupt_level i lvl = (\<lambda>(p, hs).
     if i \<le> 0 \<or> num_ids p \<le> i then (p, hs)
     else let w = unat i div 32;
              m = id_mask (unat i mod 32);
              p = p\<lparr>level := (level p)[w := (if lvl then level p ! w OR m else level p ! w AND NOT m)]\<rparr>
          in level_contexts p (unat i) lvl [0..<length (contexts p)] hs)"

subsection \<open>Register access\<close>

text \<open>A word load: the result \<open>false\<close> is \<^const>\<open>None\<close>.\<close>

definition plic_load_word :: "u64 \<Rightarrow> plic_state \<Rightarrow> u32 option \<times> plic_state" where
  "plic_load_word addr = (\<lambda>(p, hs).
     if addr < PENDING_BASE then (Some (priority_read p addr), (p, hs))
     else if addr < ENABLE_BASE then (Some (pending_read p (addr - PENDING_BASE)), (p, hs))
     else if addr < CONTEXT_BASE then
       (let cntx = (addr - ENABLE_BASE) div ENABLE_PER_HART
        in if unat cntx < length (contexts p)
           then (Some (context_enable_read p (contexts p ! unat cntx) (addr - (cntx * ENABLE_PER_HART + ENABLE_BASE))), (p, hs))
           else (None, (p, hs)))
     else if addr < REG_SIZE then
       (let cntx = (addr - CONTEXT_BASE) div CONTEXT_PER_HART
        in if unat cntx < length (contexts p)
           then apfst Some (context_read (unat cntx) (addr - (cntx * CONTEXT_PER_HART + CONTEXT_BASE)) (p, hs))
           else (None, (p, hs)))
     else (None, (p, hs)))"

definition plic_store_word :: "u64 \<Rightarrow> u32 \<Rightarrow> plic_state \<Rightarrow> bool \<times> plic_state" where
  "plic_store_word addr val = (\<lambda>(p, hs).
     if addr < ENABLE_BASE then (True, (priority_write p addr val, hs))
     else if addr < CONTEXT_BASE then
       (let cntx = (addr - ENABLE_BASE) div ENABLE_PER_HART
        in if unat cntx < length (contexts p)
           then (True, context_enable_write (unat cntx) (addr - (cntx * ENABLE_PER_HART + ENABLE_BASE)) val (p, hs))
           else (False, (p, hs)))
     else if addr < REG_SIZE then
       (let cntx = (addr - CONTEXT_BASE) div CONTEXT_PER_HART
        in if unat cntx < length (contexts p)
           then context_write (unat cntx) (addr - (cntx * CONTEXT_PER_HART + CONTEXT_BASE)) val (p, hs)
           else (False, (p, hs)))
     else (False, (p, hs)))"

text \<open>
  The code passes the offset inside the window to \<open>read_little_endian_reg\<close>; the bases and strides of the windows are
  multiples of four, so that the byte positions are those of the address.
\<close>

definition word_bytes :: "u32 \<Rightarrow> u64 \<Rightarrow> u8 list" where
  "word_bytes val addr = the (read_little_endian_reg val addr 4)"

definition bytes_word :: "u64 \<Rightarrow> u8 list \<Rightarrow> u32" where
  "bytes_word addr bytes = the (write_little_endian_reg 0 addr bytes)"

definition plic_load4 :: "u64 \<Rightarrow> plic_state \<Rightarrow> u8 list option \<times> plic_state" where
  "plic_load4 addr s = (let (r, s) = plic_load_word addr s in (map_option (\<lambda>val. word_bytes val addr) r, s))"

definition plic_load :: "u64 \<Rightarrow> nat \<Rightarrow> plic_state \<Rightarrow> u8 list option \<times> plic_state" where
  "plic_load addr len s =
     (if len = 4 then plic_load4 addr s
      else if len = 8
      then let (r, s) = plic_load4 addr s
           in case r of None \<Rightarrow> (None, s)
              | Some lo \<Rightarrow> let (r, s) = plic_load4 (addr + 4) s in (map_option (\<lambda>hi. lo @ hi) r, s)
      else (None, s))"

definition plic_store4 :: "u64 \<Rightarrow> u8 list \<Rightarrow> plic_state \<Rightarrow> bool \<times> plic_state" where
  "plic_store4 addr bytes s = plic_store_word addr (bytes_word addr bytes) s"

definition plic_store :: "u64 \<Rightarrow> u8 list \<Rightarrow> plic_state \<Rightarrow> bool \<times> plic_state" where
  "plic_store addr bytes s =
     (if length bytes = 4 then plic_store4 addr bytes s
      else if length bytes = 8
      then let (ok, s) = plic_store4 addr (take 4 bytes) s
           in if ok then plic_store4 (addr + 4) (drop 4 bytes) s else (False, s)
      else (False, s))"

end
