(* ===== verification/Plic_Best.thy ===== *)
theory Plic_Best
  imports Plic
begin

text \<open>
  The choice of the interrupt: \<open>context_best_pending\<close> finds the pending, unclaimed source of highest priority, and
  the one with the smallest number among several.
\<close>

lemma bit_id_mask [simp]: "bit (id_mask j) k \<longleftrightarrow> k = j \<and> j < 32"
  unfolding id_mask_def bit_push_bit_iff bit_1_iff by (auto dest: bit_imp_le_length)

lemma id_mask_test [simp]: "j < 32 \<Longrightarrow> w AND id_mask j = 0 \<longleftrightarrow> \<not> bit w j"
proof -
  assume "j < 32"
  have "w AND id_mask j = 0 \<longleftrightarrow> (\<forall>k. \<not> bit (w AND id_mask j) k)" by (metis bit_0_eq bit_word_eqI bot_apply bot_bool_def)
  then show ?thesis using \<open>j < 32\<close> by (auto simp: bit_and_iff)
qed

definition ready :: "plic_t \<Rightarrow> plic_context_t \<Rightarrow> nat \<Rightarrow> bool" where
  "ready p c i \<longleftrightarrow> i < unat (num_ids p) \<and> bit (pending c ! (i div 32)) (i mod 32) \<and> \<not> bit (claimed c ! (i div 32)) (i mod 32)"

definition best_step :: "plic_t \<Rightarrow> plic_context_t \<Rightarrow> nat \<Rightarrow> nat \<times> u8 \<Rightarrow> nat \<times> u8" where
  "best_step p c i b = (if ready p c i \<and> (fst b = 0 \<or> snd b < pending_priority c ! i) then (i, pending_priority c ! i) else b)"

lemma best_pending_bit_step: "j < 32 \<Longrightarrow> best_pending_bit p c i j b = best_step p c (i * 32 + j) b"
  by (cases b) (auto simp: best_pending_bit_def best_step_def ready_def Let_def)

lemma fold_idle: "(\<And>x. x \<in> set xs \<Longrightarrow> f x b = b) \<Longrightarrow> fold f xs b = b"
  by (induction xs) auto

lemma best_pending_word_fold: "best_pending_word p c i b = fold (best_step p c) [i * 32..<i * 32 + 32] b"
proof -
  have "[i * 32..<i * 32 + 32] = map (\<lambda>j. i * 32 + j) [0..<32]" using map_add_upt [of "i * 32" 32] by (simp add: add.commute)
  then have "fold (best_step p c) [i * 32..<i * 32 + 32] b = fold (\<lambda>j. best_step p c (i * 32 + j)) [0..<32] b" by (simp add: fold_map comp_def)
  also have "\<dots> = fold (best_pending_bit p c i) [0..<32] b" by (intro fold_cong) (auto simp: best_pending_bit_step)
  finally have e: "fold (best_pending_bit p c i) [0..<32] b = fold (best_step p c) [i * 32..<i * 32 + 32] b" ..
  show ?thesis
  proof (cases "pending c ! i = 0")
    case True
    have "best_step p c x b = b" if "x \<in> set [i * 32..<i * 32 + 32]" for x
    proof -
      have "x div 32 = i" using that by (auto intro: div_nat_eqI)
      then show ?thesis using True by (simp add: best_step_def ready_def)
    qed
    from fold_idle [of "[i * 32..<i * 32 + 32]" "best_step p c", OF this] True show ?thesis by (simp add: best_pending_word_def)
  next
    case False
    then show ?thesis by (simp add: best_pending_word_def e)
  qed
qed

lemma context_best_pending_fold: "context_best_pending p c = fst (fold (best_step p c) [0..<unat (num_ids_word p) * 32] (0, 0))"
proof -
  have "fold (best_pending_word p c) [0..<n] b = fold (best_step p c) [0..<n * 32] b" for n b
  proof (induction n)
    case (Suc n)
    have "[0..<Suc n * 32] = [0..<n * 32] @ [n * 32..<n * 32 + 32]" using upt_add_eq_append [of 0 "n * 32" 32] by (simp add: add.commute)
    then show ?case using Suc by (simp add: best_pending_word_fold)
  qed simp
  then show ?thesis by (simp add: context_best_pending_def)
qed

definition is_best :: "plic_t \<Rightarrow> plic_context_t \<Rightarrow> nat \<Rightarrow> bool" where
  "is_best p c b \<longleftrightarrow>
     (if b = 0 then \<forall>i. \<not> ready p c i
      else ready p c b \<and> (\<forall>i. ready p c i \<longrightarrow> pending_priority c ! i < pending_priority c ! b \<or>
        pending_priority c ! i = pending_priority c ! b \<and> b \<le> i))"

lemma best_fold:
  assumes "\<not> ready p c 0"
  shows "let (b, pr) = fold (best_step p c) [0..<n] (0, 0) in
    if b = 0 then pr = 0 \<and> (\<forall>i<n. \<not> ready p c i)
    else b < n \<and> ready p c b \<and> pr = pending_priority c ! b \<and> (\<forall>i<n. ready p c i \<longrightarrow> pending_priority c ! i < pr \<or> pending_priority c ! i = pr \<and> b \<le> i)"
proof (induction n)
  case (Suc n)
  obtain b pr where f: "fold (best_step p c) [0..<n] (0, 0) = (b, pr)" by fastforce
  have n0: "ready p c n \<Longrightarrow> n \<noteq> 0" using assms by (cases n) auto
  show ?case
  proof (cases "ready p c n \<and> (b = 0 \<or> pr < pending_priority c ! n)")
    case True
    then have "fold (best_step p c) [0..<Suc n] (0, 0) = (n, pending_priority c ! n)" by (simp add: f best_step_def)
    then show ?thesis using True n0 Suc f by (auto simp: Let_def less_Suc_eq split: if_splits)
  next
    case False
    then have "fold (best_step p c) [0..<Suc n] (0, 0) = (b, pr)" by (auto simp: f best_step_def)
    moreover have "ready p c n \<Longrightarrow> b \<noteq> 0 \<and> (pending_priority c ! n < pr \<or> pending_priority c ! n = pr)"
      using False by (metis less_linear)
    ultimately show ?thesis using Suc f by (auto simp: Let_def less_Suc_eq)
  qed
qed simp

lemma context_best_pending_is_best:
  assumes "\<not> ready p c 0" "unat (num_ids p) \<le> unat (num_ids_word p) * 32"
  shows "is_best p c (context_best_pending p c)"
proof -
  have r: "ready p c i \<Longrightarrow> i < unat (num_ids_word p) * 32" for i using assms(2) by (simp add: ready_def)
  obtain b pr where "fold (best_step p c) [0..<unat (num_ids_word p) * 32] (0, 0) = (b, pr)" by fastforce
  then show ?thesis using best_fold [OF assms(1), of "unat (num_ids_word p) * 32"] r
    by (auto simp: is_best_def context_best_pending_fold Let_def split: if_splits)
qed

lemma is_best_unique: "is_best p c a \<Longrightarrow> is_best p c b \<Longrightarrow> a = b"
  unfolding is_best_def by (auto split: if_splits) (metis le_antisym less_irrefl less_asym)

lemma best_cong:
  assumes "num_ids p' = num_ids p" "num_ids_word p' = num_ids_word p" "pending c' = pending c" "claimed c' = claimed c"
    "pending_priority c' = pending_priority c"
  shows "context_best_pending p' c' = context_best_pending p c"
proof -
  have r: "ready p' c' i = ready p c i" for i by (simp add: ready_def assms)
  have "best_step p' c' = best_step p c" by (intro ext) (simp only: best_step_def r assms)
  then show ?thesis using assms by (simp add: context_best_pending_fold)
qed

end
