(* ===== verification/Plic_Inv.thy ===== *)
theory Plic_Inv
  imports Plic_Best
begin

text \<open>
  The invariant of the controller: pending sources are enabled, claimed sources are pending, and the external
  interrupt bits of the harts agree with the contexts. Every operation keeps it.
\<close>

section \<open>The invariant\<close>

definition ctx_wf :: "plic_context_t \<Rightarrow> bool" where
  "ctx_wf c \<longleftrightarrow> length (enable c) = 32 \<and> length (pending c) = 32 \<and> length (claimed c) = 32 \<and>
     length (pending_priority c) = 1024 \<and> \<not> bit (enable c ! 0) 0 \<and>
     (\<forall>w \<in> {0..<32}. pending c ! w AND NOT (enable c ! w) = 0 \<and> claimed c ! w AND NOT (pending c ! w) = 0)"

definition plic_wf :: "plic_t \<Rightarrow> bool" where
  "plic_wf p \<longleftrightarrow> 0 < num_ids p \<and> unat (num_ids p) \<le> 1024 \<and> unat (num_ids_word p) = (unat (num_ids p) + 31) div 32 \<and>
     max_prio p = 15 \<and> length (priority p) = 1024 \<and> length (level p) = 32 \<and>
     list_all ctx_wf (contexts p) \<and> distinct (map (\<lambda>c. (proc c, mmode c)) (contexts p))"

abbreviation ctx_bit :: "plic_context_t \<Rightarrow> nat" where
  "ctx_bit c \<equiv> (if mmode c then 11 else 9)"

definition mip_ok :: "plic_t \<Rightarrow> harts \<Rightarrow> bool" where
  "mip_ok p hs \<longleftrightarrow> (\<forall>c \<in> set (contexts p). case hs (proc c) of None \<Rightarrow> True
     | Some h \<Rightarrow> bit (mip h) (ctx_bit c) \<longleftrightarrow> context_best_pending p c \<noteq> 0)"

definition plic_inv :: "plic_state \<Rightarrow> bool" where
  "plic_inv = (\<lambda>(p, hs). plic_wf p \<and> mip_ok p hs)"

lemma nth_update_cases: "j < length xs \<Longrightarrow> xs[i := x] ! j = (if i = j then x else xs ! j)"
  by (cases "i = j") auto

lemma mip_ok_cong:
  assumes "contexts p' = contexts p" "num_ids p' = num_ids p" "num_ids_word p' = num_ids_word p"
  shows "mip_ok p' hs = mip_ok p hs"
proof -
  have "context_best_pending p' c = context_best_pending p c" for c by (rule best_cong) (simp_all add: assms)
  then show ?thesis unfolding mip_ok_def assms(1) by presburger
qed

lemma subset_bits: "(a :: u32) AND NOT b = 0 \<longleftrightarrow> (\<forall>j<32. bit a j \<longrightarrow> bit b j)"
proof -
  have "a AND NOT b = 0 \<longleftrightarrow> (\<forall>k. \<not> bit (a AND NOT b) k)" by (metis bit_0_eq bit_word_eqI bot_apply bot_bool_def)
  then show ?thesis by (auto simp: bit_and_iff bit_not_iff dest: bit_imp_le_length)
qed

lemma ctx_wfI:
  assumes "length (enable c) = 32" "length (pending c) = 32" "length (claimed c) = 32" "length (pending_priority c) = 1024"
    "\<not> bit (enable c ! 0) 0"
    "\<And>w j. w < 32 \<Longrightarrow> j < 32 \<Longrightarrow> (bit (pending c ! w) j \<longrightarrow> bit (enable c ! w) j) \<and> (bit (claimed c ! w) j \<longrightarrow> bit (pending c ! w) j)"
  shows "ctx_wf c"
  using assms by (simp add: ctx_wf_def subset_bits)

lemma ctx_wfD:
  assumes "ctx_wf c"
  shows "length (enable c) = 32" "length (pending c) = 32" "length (claimed c) = 32" "length (pending_priority c) = 1024"
    "\<not> bit (enable c ! 0) 0"
    "w < 32 \<Longrightarrow> j < 32 \<Longrightarrow> bit (pending c ! w) j \<Longrightarrow> bit (enable c ! w) j"
    "w < 32 \<Longrightarrow> j < 32 \<Longrightarrow> bit (claimed c ! w) j \<Longrightarrow> bit (pending c ! w) j"
  using assms by (simp_all add: ctx_wf_def subset_bits)

lemma ctx_wf_ready0: "ctx_wf c \<Longrightarrow> \<not> ready p c 0"
  using ctx_wfD(5) [of c] ctx_wfD(6) [of c 0 0] by (auto simp: ready_def)

lemma plic_wf_ids: "plic_wf p \<Longrightarrow> unat (num_ids p) \<le> unat (num_ids_word p) * 32"
  by (simp add: plic_wf_def)

lemma wf_best: "plic_wf p \<Longrightarrow> ctx_wf c \<Longrightarrow> is_best p c (context_best_pending p c)"
  by (intro context_best_pending_is_best ctx_wf_ready0 plic_wf_ids)

lemma nth_ctx_wf: "plic_wf p \<Longrightarrow> n < length (contexts p) \<Longrightarrow> ctx_wf (contexts p ! n)"
  by (simp add: plic_wf_def list_all_length)

text \<open>The step all operations share: one context is replaced and its hart updated.\<close>

lemma replace_context:
  assumes inv: "plic_inv (p, hs)" and n: "n < length (contexts p)" and c: "ctx_wf c"
    and k: "proc c = proc (contexts p ! n)" "mmode c = mmode (contexts p ! n)"
  shows "plic_inv (set_context n c p, context_update p c hs)"
proof -
  have wf: "plic_wf p" and mo: "mip_ok p hs" using inv by (simp_all add: plic_inv_def)
  define p' where "p' = set_context n c p"
  have b: "context_best_pending p' x = context_best_pending p x" for x by (rule best_cong) (simp_all add: p'_def set_context_def)
  have keys: "map (\<lambda>c. (proc c, mmode c)) (contexts p') = map (\<lambda>c. (proc c, mmode c)) (contexts p)"
    using k n by (simp add: p'_def set_context_def map_update list_update_same_conv)
  have "list_all ctx_wf (contexts p')" using wf c by (simp add: p'_def set_context_def plic_wf_def list_all_update)
  then have "plic_wf p'" using wf keys by (simp add: plic_wf_def) (simp add: p'_def set_context_def)
  moreover have "mip_ok p' (context_update p c hs)"
    unfolding mip_ok_def
  proof
    fix x assume "x \<in> set (contexts p')"
    then obtain j where j: "j < length (contexts p)" "x = contexts p' ! j" by (auto simp: in_set_conv_nth p'_def set_context_def)
    show "case context_update p c hs (proc x) of None \<Rightarrow> True | Some h \<Rightarrow> bit (mip h) (ctx_bit x) \<longleftrightarrow> context_best_pending p' x \<noteq> 0"
    proof (cases "j = n")
      case True
      then have "x = c" using j n by (simp add: p'_def set_context_def)
      then show ?thesis by (auto simp: context_update_def Let_def hart_update_def bit_backdoor b split: option.splits)
    next
      case False
      then have x: "x = contexts p ! j" using j by (simp add: p'_def set_context_def)
      have "(proc x, mmode x) \<noteq> (proc c, mmode c)"
      proof -
        have "distinct (map (\<lambda>c. (proc c, mmode c)) (contexts p))" using wf by (simp add: plic_wf_def)
        from nth_eq_iff_index_eq [OF this, of j n] False j(1) n k show ?thesis unfolding x by simp
      qed
      then have d: "proc x = proc c \<Longrightarrow> ctx_bit x \<noteq> ctx_bit c" by (cases "mmode x"; cases "mmode c") auto
      have o: "case hs (proc x) of None \<Rightarrow> True | Some h \<Rightarrow> bit (mip h) (ctx_bit x) \<longleftrightarrow> context_best_pending p x \<noteq> 0"
        using mo j(1) unfolding x mip_ok_def by (metis nth_mem)
      have u: "context_update p c hs = hart_update (proc c) (backdoor_write_with_mask (irq_bit (ctx_bit c)) (if context_best_pending p c \<noteq> 0 then irq_bit (ctx_bit c) else 0)) hs"
        by (simp add: context_update_def Let_def)
      show ?thesis
      proof (cases "hs (proc x)")
        case (Some h)
        then have B: "bit (mip h) (ctx_bit x) \<longleftrightarrow> context_best_pending p x \<noteq> 0" using o by simp
        show ?thesis
          unfolding u hart_update_def b using Some B d bit_backdoor [of "irq_bit (ctx_bit c)" _ h "ctx_bit x"]
          by (cases "proc x = proc c") simp_all
      next
        case None
        then show ?thesis unfolding u hart_update_def by (cases "proc x = proc c") simp_all
      qed
    qed
  qed
  ultimately show ?thesis by (simp add: plic_inv_def p'_def)
qed

section \<open>The operations\<close>

lemma best_less: "plic_wf p \<Longrightarrow> ctx_wf c \<Longrightarrow> context_best_pending p c \<noteq> 0 \<Longrightarrow> ready p c (context_best_pending p c)"
  using wf_best by (auto simp: is_best_def split: if_splits)

lemma ready_index: "plic_wf p \<Longrightarrow> ready p c i \<Longrightarrow> i div 32 < 32 \<and> i < 1024"
  by (auto simp: ready_def plic_wf_def)

lemma word_ctx_wf:
  assumes c: "ctx_wf c" and w: "w < 32"
    and b: "\<And>j. j < 32 \<Longrightarrow> (bit P j \<longrightarrow> bit (enable c ! w) j) \<and> (bit C j \<longrightarrow> bit P j)" and l: "length pp = 1024"
  shows "ctx_wf (c\<lparr>pending := (pending c)[w := P], pending_priority := pp, claimed := (claimed c)[w := C]\<rparr>)"
proof (rule ctx_wfI)
  note D = ctx_wfD [OF c]
  fix v j :: nat assume v: "v < 32" "j < 32"
  show "(bit (pending (c\<lparr>pending := (pending c)[w := P], pending_priority := pp, claimed := (claimed c)[w := C]\<rparr>) ! v) j \<longrightarrow>
         bit (enable (c\<lparr>pending := (pending c)[w := P], pending_priority := pp, claimed := (claimed c)[w := C]\<rparr>) ! v) j) \<and>
        (bit (claimed (c\<lparr>pending := (pending c)[w := P], pending_priority := pp, claimed := (claimed c)[w := C]\<rparr>) ! v) j \<longrightarrow>
         bit (pending (c\<lparr>pending := (pending c)[w := P], pending_priority := pp, claimed := (claimed c)[w := C]\<rparr>) ! v) j)"
    using b [OF v(2)] D(6,7) [OF v] v D(2,3) by (cases "w = v") (simp_all add: nth_update_cases)
qed (use ctx_wfD [OF c] l in simp_all)

lemma claim_ctx_wf:
  assumes "ctx_wf c" "w < 32" "j < 32" "bit (pending c ! w) j"
  shows "ctx_wf (c\<lparr>claimed := (claimed c)[w := claimed c ! w OR id_mask j]\<rparr>)"
  using word_ctx_wf [OF assms(1,2), of "pending c ! w" "claimed c ! w OR id_mask j" "pending_priority c"] ctx_wfD [OF assms(1)] assms
  by (simp add: bit_or_iff)

lemma context_claim_inv:
  assumes inv: "plic_inv s" and n: "n < length (contexts (fst s))"
  shows "plic_inv (snd (context_claim n s))"
proof -
  obtain p hs where s: "s = (p, hs)" by fastforce
  have wf: "plic_wf p" using inv by (simp add: s plic_inv_def)
  have c: "ctx_wf (contexts p ! n)" using nth_ctx_wf [OF wf] n by (simp add: s)
  note r = best_less [OF wf c]
  show ?thesis
    using r ready_index [OF wf r] c inv n claim_ctx_wf [OF c, of "context_best_pending p (contexts p ! n) div 32" "context_best_pending p (contexts p ! n) mod 32"]
    by (auto simp: s context_claim_def Let_def ready_def intro!: replace_context)
qed

lemma clear_claim_wf:
  "ctx_wf c \<Longrightarrow> ctx_wf (c\<lparr>claimed := (claimed c)[w := claimed c ! w AND m]\<rparr>)"
  using ctx_wfD [of c] by (intro ctx_wfI) (auto simp: nth_update_cases bit_and_iff split: if_splits)

lemma context_write_inv:
  assumes inv: "plic_inv s" and n: "n < length (contexts (fst s))"
  shows "plic_inv (snd (context_write n offset val s))"
proof -
  obtain p hs where s: "s = (p, hs)" by fastforce
  have c: "ctx_wf (contexts p ! n)" using nth_ctx_wf inv n by (simp add: s plic_inv_def)
  have t: "ctx_wf (c\<lparr>priority_threshold := x\<rparr>) = ctx_wf c" for c x by (simp add: ctx_wf_def)
  show ?thesis
    using c inv n clear_claim_wf [OF c] by (auto simp: s context_write_def Let_def t intro!: replace_context)
qed

lemma level_ctx_wf:
  assumes c: "ctx_wf c" and i: "i div 32 < 32" and e: "bit (enable c ! (i div 32)) (i mod 32)"
  shows "ctx_wf (set_context_level p i lvl c)"
proof -
  define w where "w = i div 32"
  note D = ctx_wfD [OF c] and W = word_ctx_wf [OF c i [folded w_def]]
  show ?thesis
  proof (cases lvl)
    case True
    have "ctx_wf (c\<lparr>pending := (pending c)[w := pending c ! w OR id_mask (i mod 32)],
        pending_priority := (pending_priority c)[i := priority p ! i], claimed := (claimed c)[w := claimed c ! w]\<rparr>)"
      using D i e by (intro W) (auto simp: bit_or_iff w_def)
    then show ?thesis using True by (simp add: set_context_level_def Let_def w_def)
  next
    case False
    have "ctx_wf (c\<lparr>pending := (pending c)[w := pending c ! w AND NOT (id_mask (i mod 32))],
        pending_priority := (pending_priority c)[i := 0], claimed := (claimed c)[w := claimed c ! w AND NOT (id_mask (i mod 32))]\<rparr>)"
      using D i by (intro W) (auto simp: bit_and_iff bit_not_iff w_def)
    then show ?thesis using False by (simp add: set_context_level_def Let_def w_def)
  qed
qed

lemma level_contexts_inv:
  assumes inv: "plic_inv (p, hs)" and i: "i < 1024" and ns: "\<forall>n \<in> set ns. n < length (contexts p)"
  shows "plic_inv (level_contexts p i lvl ns hs)"
  using ns
proof (induction ns)
  case (Cons n ns)
  have c: "ctx_wf (contexts p ! n)" using nth_ctx_wf inv Cons.prems by (simp add: plic_inv_def)
  have k: "proc (set_context_level p i lvl c) = proc c" "mmode (set_context_level p i lvl c) = mmode c" for c
    by (simp_all add: set_context_level_def Let_def)
  have "i div 32 < 32" using i by simp
  then show ?case
    using Cons inv level_ctx_wf [OF c, of i p lvl] k by (auto simp: Let_def intro!: replace_context)
qed (use inv in simp)

lemma set_interrupt_level_inv:
  assumes "plic_inv s"
  shows "plic_inv (set_interrupt_level i lvl s)"
proof -
  obtain p hs where s: "s = (p, hs)" by fastforce
  have wf: "plic_wf p" "mip_ok p hs" using assms by (simp_all add: s plic_inv_def)
  have L: "plic_inv (p\<lparr>level := xs\<rparr>, hs)" if "length xs = 32" for xs
  proof -
    have "mip_ok (p\<lparr>level := xs\<rparr>) hs" using wf(2) mip_ok_cong [of "p\<lparr>level := xs\<rparr>" p hs] by simp
    then show ?thesis using wf(1) that by (simp add: plic_inv_def plic_wf_def)
  qed
  show ?thesis
  proof (cases "i \<le> 0 \<or> num_ids p \<le> i")
    case False
    then have "unat i < 1024" using wf by (simp add: plic_wf_def word_less_nat_alt word_le_nat_alt)
    then show ?thesis
      using False wf unfolding s set_interrupt_level_def prod.case if_not_P [OF False] Let_def
      by (intro level_contexts_inv L) (simp_all add: plic_wf_def)
  qed (use assms in \<open>auto simp: s set_interrupt_level_def\<close>)
qed

text \<open>Writing the enable bits: the loop has treated the bits below \<open>k\<close>.\<close>

definition enable_loop_inv :: "plic_context_t \<Rightarrow> nat \<Rightarrow> u32 \<Rightarrow> nat \<Rightarrow> plic_context_t \<Rightarrow> bool" where
  "enable_loop_inv c w new k c' \<longleftrightarrow>
     proc c' = proc c \<and> mmode c' = mmode c \<and> enable c' = (enable c)[w := new] \<and>
     length (pending_priority c') = 1024 \<and>
     (\<exists>P C. pending c' = (pending c)[w := P] \<and> claimed c' = (claimed c)[w := C] \<and>
        (\<forall>j<32. if j < k then (bit P j \<longrightarrow> bit new j) \<and> (bit C j \<longrightarrow> bit P j)
               else bit P j = bit (pending c ! w) j \<and> bit C j = bit (claimed c ! w) j))"

lemma enable_loop_step:
  assumes c: "ctx_wf c" and w: "w < 32" and k: "k < 32" and x: "x = enable c ! w XOR new"
    and inv: "enable_loop_inv c w new k c'"
  shows "enable_loop_inv c w new (Suc k) (enable_bit p w new x k c')"
proof -
  note D = ctx_wfD [OF c]
  obtain P C where I: "pending c' = (pending c)[w := P]" "claimed c' = (claimed c)[w := C]"
    "\<forall>j<32. if j < k then (bit P j \<longrightarrow> bit new j) \<and> (bit C j \<longrightarrow> bit P j)
       else bit P j = bit (pending c ! w) j \<and> bit C j = bit (claimed c ! w) j"
    and F: "proc c' = proc c" "mmode c' = mmode c" "enable c' = (enable c)[w := new]" "length (pending_priority c') = 1024"
    using inv by (auto simp: enable_loop_inv_def)
  have P: "pending c' ! w = P" "claimed c' ! w = C" using I(1,2) D(2,3) w by simp_all
  have old: "bit P k \<longrightarrow> bit (enable c ! w) k" "bit C k \<longrightarrow> bit P k"
    using I(3) k D(6,7) [OF w k] by (auto split: if_splits)
  have xk: "bit x k \<longleftrightarrow> bit (enable c ! w) k \<noteq> bit new k" by (simp add: x bit_xor_iff)
  define P' where "P' = (if \<not> bit x k then P else if bit new k then (if bit (level p ! w) k then P OR id_mask k else P) else P AND NOT (id_mask k))"
  define C' where "C' = (if bit x k \<and> \<not> bit new k then C AND NOT (id_mask k) else C)"
  have e: "pending (enable_bit p w new x k c') = (pending c)[w := P'] \<and> claimed (enable_bit p w new x k c') = (claimed c)[w := C']"
    using k I(1,2) P by (simp add: enable_bit_def Let_def P'_def C'_def)
  have bits: "\<forall>j<32. if j < Suc k then (bit P' j \<longrightarrow> bit new j) \<and> (bit C' j \<longrightarrow> bit P' j)
       else bit P' j = bit (pending c ! w) j \<and> bit C' j = bit (claimed c ! w) j"
  proof (intro allI impI)
    fix j :: nat assume j: "j < 32"
    show "if j < Suc k then (bit P' j \<longrightarrow> bit new j) \<and> (bit C' j \<longrightarrow> bit P' j)
       else bit P' j = bit (pending c ! w) j \<and> bit C' j = bit (claimed c ! w) j"
    proof (cases "j = k")
      case True
      then show ?thesis using old xk k by (auto simp: P'_def C'_def bit_or_iff bit_and_iff bit_not_iff)
    next
      case False
      then have "bit P' j = bit P j" "bit C' j = bit C j" using j by (auto simp: P'_def C'_def bit_or_iff bit_and_iff bit_not_iff)
      then show ?thesis using I(3) j False by (auto simp: less_Suc_eq)
    qed
  qed
  have "proc (enable_bit p w new x k c') = proc c" "mmode (enable_bit p w new x k c') = mmode c"
    "enable (enable_bit p w new x k c') = (enable c)[w := new]" "length (pending_priority (enable_bit p w new x k c')) = 1024"
    using F by (simp_all add: enable_bit_def Let_def)
  with e bits show ?thesis unfolding enable_loop_inv_def by blast
qed

lemma enable_loop:
  assumes c: "ctx_wf c" and w: "w < 32" and x: "x = enable c ! w XOR new" and k: "k \<le> 32"
  shows "enable_loop_inv c w new k (fold (enable_bit p w new x) [0..<k] (c\<lparr>enable := (enable c)[w := new]\<rparr>))"
  using k
proof (induction k)
  case 0
  have "enable_loop_inv c w new 0 (c\<lparr>enable := (enable c)[w := new]\<rparr>)"
    unfolding enable_loop_inv_def using ctx_wfD [OF c] by (intro conjI exI [of _ "pending c ! w"] exI [of _ "claimed c ! w"]) simp_all
  then show ?case by simp
next
  case (Suc k)
  then show ?case using enable_loop_step [OF c w _ x] by simp
qed

lemma enable_ctx_wf:
  assumes c: "ctx_wf c" and w: "w < 32" and n: "w = 0 \<longrightarrow> \<not> bit new 0" and inv: "enable_loop_inv c w new 32 c'"
  shows "ctx_wf c'"
proof -
  note D = ctx_wfD [OF c]
  obtain P C where I: "pending c' = (pending c)[w := P]" "claimed c' = (claimed c)[w := C]"
    "\<forall>j<32. (bit P j \<longrightarrow> bit new j) \<and> (bit C j \<longrightarrow> bit P j)"
    and F: "enable c' = (enable c)[w := new]" "length (pending_priority c') = 1024"
    using inv by (auto simp: enable_loop_inv_def)
  show ?thesis
  proof (rule ctx_wfI)
    show "\<not> bit (enable c' ! 0) 0" using D(1,5) n w by (simp add: F nth_update_cases)
    fix v j :: nat assume v: "v < 32" "j < 32"
    show "(bit (pending c' ! v) j \<longrightarrow> bit (enable c' ! v) j) \<and> (bit (claimed c' ! v) j \<longrightarrow> bit (pending c' ! v) j)"
      using I F D v by (cases "v = w") (auto simp: nth_update_cases)
  qed (use D I F in simp_all)
qed

lemma context_enable_write_inv:
  assumes inv: "plic_inv s" and n: "n < length (contexts (fst s))"
  shows "plic_inv (context_enable_write n offset val s)"
proof -
  obtain p hs where s: "s = (p, hs)" by fastforce
  have wf: "plic_wf p" using inv by (simp add: s plic_inv_def)
  have c: "ctx_wf (contexts p ! n)" using nth_ctx_wf [OF wf] n by (simp add: s)
  define iw where "iw = (ucast (drop_bit 2 offset) :: u32)"
  define w where "w = unat iw"
  define new where "new = (if iw = 0 then val AND NOT 1 else val)"
  show ?thesis
  proof (cases "num_ids_word p \<le> iw")
    case True
    then show ?thesis using inv by (simp add: s context_enable_write_def Let_def iw_def)
  next
    case False
    then have "w < unat (num_ids_word p)" by (simp add: w_def word_le_nat_alt)
    moreover have "(unat (num_ids p) + 31) div 32 \<le> (1024 + 31) div 32" using wf by (intro div_le_mono) (simp add: plic_wf_def)
    ultimately have w: "w < 32" using wf by (simp add: plic_wf_def)
    have n0: "w = 0 \<longrightarrow> \<not> bit new 0" by (simp add: w_def new_def unat_eq_0 bit_simps)
    define c' where "c' = fold (enable_bit p w new (enable (contexts p ! n) ! w XOR new)) [0..<32] ((contexts p ! n)\<lparr>enable := (enable (contexts p ! n))[w := new]\<rparr>)"
    have L: "enable_loop_inv (contexts p ! n) w new 32 c'" unfolding c'_def by (rule enable_loop [OF c w refl]) simp
    have "context_enable_write n offset val s = (set_context n c' p, context_update p c' hs)"
      using False by (simp add: s context_enable_write_def Let_def iw_def [symmetric] w_def [symmetric] new_def [symmetric] c'_def)
    moreover have "proc c' = proc (contexts p ! n)" "mmode c' = mmode (contexts p ! n)" using L by (simp_all add: enable_loop_inv_def)
    ultimately show ?thesis using replace_context [OF inv [unfolded s] _ enable_ctx_wf [OF c w n0 L]] n by (simp add: s)
  qed
qed

lemma priority_write_inv:
  assumes "plic_inv (p, hs)"
  shows "plic_inv (priority_write p offset val, hs)"
proof -
  have "mip_ok (priority_write p offset val) hs"
    using assms mip_ok_cong [of "priority_write p offset val" p hs] by (simp add: plic_inv_def priority_write_def Let_def)
  then show ?thesis using assms by (simp add: plic_inv_def plic_wf_def priority_write_def Let_def)
qed

section \<open>Register accesses and reachable states\<close>

lemma context_read_inv: "plic_inv s \<Longrightarrow> n < length (contexts (fst s)) \<Longrightarrow> plic_inv (snd (context_read n offset s))"
  using context_claim_inv [of s n] by (cases s) (simp add: context_read_def)

lemma plic_load_word_inv: "plic_inv s \<Longrightarrow> plic_inv (snd (plic_load_word addr s))"
  by (cases s) (simp add: plic_load_word_def Let_def context_read_inv)

lemma plic_store_word_inv: "plic_inv s \<Longrightarrow> plic_inv (snd (plic_store_word addr val s))"
  by (cases s) (simp add: plic_store_word_def Let_def context_write_inv context_enable_write_inv priority_write_inv)

lemma plic_load4_inv: "plic_inv s \<Longrightarrow> plic_inv (snd (plic_load4 addr s))"
  using plic_load_word_inv [of s addr] by (simp add: plic_load4_def case_prod_beta Let_def)

lemma plic_store4_inv: "plic_inv s \<Longrightarrow> plic_inv (snd (plic_store4 addr bytes s))"
  by (simp add: plic_store4_def plic_store_word_inv)

lemma plic_load_inv: "plic_inv s \<Longrightarrow> plic_inv (snd (plic_load addr len s))"
  using plic_load4_inv by (auto simp: plic_load_def case_prod_beta Let_def split: option.splits)

lemma plic_store_inv: "plic_inv s \<Longrightarrow> plic_inv (snd (plic_store addr bytes s))"
  using plic_store4_inv by (auto simp: plic_store_def case_prod_beta Let_def)

inductive plic_step :: "plic_state \<Rightarrow> plic_state \<Rightarrow> bool" where
  load: "plic_step s (snd (plic_load addr len s))"
| store: "plic_step s (snd (plic_store addr bytes s))"
| raise: "plic_step s (set_interrupt_level i lvl s)"

inductive_cases plic_stepE: "plic_step s s'"

lemma plic_step_inv: "plic_step s s' \<Longrightarrow> plic_inv s \<Longrightarrow> plic_inv s'"
  by (auto elim!: plic_stepE simp: plic_load_inv plic_store_inv set_interrupt_level_inv)

lemma plic_reach_inv: "plic_step\<^sup>*\<^sup>* s s' \<Longrightarrow> plic_inv s \<Longrightarrow> plic_inv s'"
  by (induction rule: rtranclp_induct) (auto intro: plic_step_inv)

end
