(* ===== verification/Clint.thy ===== *)
theory Clint
  imports Harts
begin

text \<open>
  The core-local interruptor (\<open>riscv-isa-sim/riscv/clint.cc\<close>): software interrupts, the timer and its compare
  registers. The wall clock (\<open>gettimeofday\<close>) is an argument, the sequence of its readings; the record counts how
  many have been taken. The operations act on the device and the harts together.
\<close>

section \<open>Definitions\<close>

record clint_t =
  freq_hz :: u64
  real_time :: bool
  real_time_ref_secs :: u64
  real_time_ref_usecs :: u64
  mtime :: u64
  mtimecmp :: "u64 \<Rightarrow> u64"
  clock_reads :: nat

type_synonym wall_clock = "nat \<Rightarrow> u64 \<times> u64"
type_synonym clint_state = "clint_t \<times> harts"

abbreviation (input) MTIMECMP_BASE :: u64 where "MTIMECMP_BASE \<equiv> 0x4000"
abbreviation (input) MTIME_BASE :: u64 where "MTIME_BASE \<equiv> 0xbff8"
abbreviation (input) CLINT_SIZE :: u64 where "CLINT_SIZE \<equiv> 0xc0000"

definition clint_tick :: "wall_clock \<Rightarrow> u64 \<Rightarrow> clint_state \<Rightarrow> clint_state" where
  "clint_tick wall rtc_ticks = (\<lambda>(c, hs).
     let c = (if real_time c
              then let (tv_sec, tv_usec) = wall (clock_reads c);
                       diff_usecs = (tv_sec - real_time_ref_secs c) * 1000000 + (tv_usec - real_time_ref_usecs c)
                   in c\<lparr>mtime := diff_usecs * freq_hz c div 1000000, clock_reads := Suc (clock_reads c)\<rparr>
              else c\<lparr>mtime := mtime c + rtc_ticks\<rparr>)
     in (c, \<lambda>hart_id. map_option (\<lambda>h.
          backdoor_write_with_mask MIP_MTIP (if mtimecmp c hart_id \<le> mtime c then MIP_MTIP else 0)
            (time_sync (mtime c) h)) (hs hart_id)))"

definition clint_new :: "wall_clock \<Rightarrow> u64 \<Rightarrow> bool \<Rightarrow> harts \<Rightarrow> clint_state" where
  "clint_new wall freq rt hs =
     clint_tick wall 0
       (\<lparr> freq_hz = freq, real_time = rt, real_time_ref_secs = fst (wall 0), real_time_ref_usecs = snd (wall 0),
          mtime = 0, mtimecmp = (\<lambda>_. 0), clock_reads = 1 \<rparr>, hs)"

text \<open>
  The body of \<open>load\<close> after its tick. The outer option is an assertion of \<open>read_little_endian_reg\<close> that fails,
  the inner one the result \<open>false\<close>.
\<close>

definition clint_load_body :: "clint_state \<Rightarrow> u64 \<Rightarrow> nat \<Rightarrow> u8 list option option" where
  "clint_load_body = (\<lambda>(c, hs) addr len.
     if addr < MTIMECMP_BASE then
       let hart_id = addr div 4;
           res = (of_bool (case hs hart_id of None \<Rightarrow> False | Some h \<Rightarrow> mip h AND MIP_MSIP \<noteq> 0) :: u32)
       in map_option Some (read_little_endian_reg res addr len)
     else if addr < MTIME_BASE then
       let hart_id = (addr - MTIMECMP_BASE) div 8;
           res = (if hs hart_id \<noteq> None then mtimecmp c hart_id else 0)
       in map_option Some (read_little_endian_reg res addr len)
     else if addr < MTIME_BASE + 8 then map_option Some (read_little_endian_reg (mtime c) addr len)
     else if addr + of_nat len \<le> CLINT_SIZE then Some (Some (replicate len 0))
     else Some None)"

text \<open>One call of \<open>load\<close> that does not split into two.\<close>

definition clint_load_word :: "wall_clock \<Rightarrow> u64 \<Rightarrow> nat \<Rightarrow> clint_state \<Rightarrow> (u8 list option \<times> clint_state) option" where
  "clint_load_word wall addr len s =
     (let s = clint_tick wall 0 s in map_option (\<lambda>r. (r, s)) (clint_load_body s addr len))"

definition clint_load :: "wall_clock \<Rightarrow> u64 \<Rightarrow> nat \<Rightarrow> clint_state \<Rightarrow> (u8 list option \<times> clint_state) option" where
  "clint_load wall addr len s =
     (if 8 < len then Some (None, s)
      else if addr < MTIMECMP_BASE \<and> len = 8
      then let s = clint_tick wall 0 s
           in do { (r, s) \<leftarrow> clint_load_word wall addr 4 s;
                   case r of None \<Rightarrow> Some (None, s)
                   | Some lo \<Rightarrow> do { (r, s) \<leftarrow> clint_load_word wall (addr + 4) 4 s;
                                    Some (map_option (\<lambda>hi. lo @ hi) r, s) } }
      else clint_load_word wall addr len s)"

definition clint_store_word :: "wall_clock \<Rightarrow> u64 \<Rightarrow> u8 list \<Rightarrow> clint_state \<Rightarrow> (bool \<times> clint_state) option" where
  "clint_store_word wall addr bytes = (\<lambda>(c, hs).
     if addr < MTIMECMP_BASE then
       (if addr mod 4 = 0
        then do { msip \<leftarrow> write_little_endian_reg (0 :: u32) addr bytes;
                  let hs = (if hs (addr div 4) \<noteq> None
                            then hart_update (addr div 4) (backdoor_write_with_mask MIP_MSIP (if odd msip then MIP_MSIP else 0)) hs
                            else hs);
                  Some (True, clint_tick wall 0 (c, hs)) }
        else Some (True, clint_tick wall 0 (c, hs)))
     else if addr < MTIME_BASE then
       (let hart_id = (addr - MTIMECMP_BASE) div 8
        in if hs hart_id \<noteq> None
           then do { cmp \<leftarrow> write_little_endian_reg (mtimecmp c hart_id) addr bytes;
                     Some (True, clint_tick wall 0 (c\<lparr>mtimecmp := (mtimecmp c)(hart_id := cmp)\<rparr>, hs)) }
           else Some (True, clint_tick wall 0 (c, hs)))
     else if addr < MTIME_BASE + 8 then
       do { t \<leftarrow> write_little_endian_reg (mtime c) addr bytes; Some (True, clint_tick wall 0 (c\<lparr>mtime := t\<rparr>, hs)) }
     else if addr + of_nat (length bytes) \<le> CLINT_SIZE then Some (True, clint_tick wall 0 (c, hs))
     else Some (False, (c, hs)))"

definition clint_store :: "wall_clock \<Rightarrow> u64 \<Rightarrow> u8 list \<Rightarrow> clint_state \<Rightarrow> (bool \<times> clint_state) option" where
  "clint_store wall addr bytes s =
     (if 8 < length bytes then Some (False, s)
      else if addr < MTIMECMP_BASE \<and> length bytes = 8
      then do { (ok, s) \<leftarrow> clint_store_word wall addr (take 4 bytes) s;
                if ok then clint_store_word wall (addr + 4) (drop 4 bytes) s else Some (False, s) }
      else clint_store_word wall addr bytes s)"

section \<open>The timer interrupt follows the compare register\<close>

text \<open>The pending bit of the machine timer of every hart says whether its deadline has passed.\<close>

definition timer_synced :: "clint_state \<Rightarrow> bool" where
  "timer_synced = (\<lambda>(c, hs). \<forall>i h. hs i = Some h \<longrightarrow> (bit (mip h) 7 \<longleftrightarrow> mtimecmp c i \<le> mtime c) \<and> shadow_val h = mtime c)"

lemma tick_synced: "timer_synced (clint_tick wall n s)"
  by (cases s) (auto simp: clint_tick_def timer_synced_def Let_def bit_backdoor split: prod.splits)

lemma tick_mtimecmp [simp]: "mtimecmp (fst (clint_tick wall n s)) = mtimecmp (fst s)"
  by (cases s) (auto simp: clint_tick_def Let_def split: prod.splits)

lemma tick_dom [simp]: "(snd (clint_tick wall n s) i = None) = (snd s i = None)"
  by (cases s) (auto simp: clint_tick_def Let_def split: prod.splits)

text \<open>The bits of \<open>mip\<close> that the device does not drive.\<close>

abbreviation clint_frame :: "nat set" where "clint_frame \<equiv> - {3, 5, 6, 7}"

lemma tick_frame: "same_bits clint_frame (snd s) (snd (clint_tick wall n s))"
  by (cases s) (auto simp: clint_tick_def Let_def same_bits_def dom_def bit_backdoor time_sync_bits split: prod.splits)

lemma load_word_cases:
  "clint_load_word wall addr len s = Some (r, s') \<Longrightarrow> s' = clint_tick wall 0 s \<and> clint_load_body s' addr len = Some r"
  by (auto simp: clint_load_word_def Let_def)

lemma store_word_synced: "clint_store_word wall addr bytes s = Some (True, s') \<Longrightarrow> timer_synced s'"
  by (cases s) (auto simp: clint_store_word_def Let_def bind_eq_Some_conv tick_synced split: if_splits)

lemma store_word_frame:
  "clint_store_word wall addr bytes s = Some (ok, s') \<Longrightarrow> same_bits clint_frame (snd s) (snd s')"
proof -
  assume st: "clint_store_word wall addr bytes s = Some (ok, s')"
  obtain c hs where s: "s = (c, hs)" by fastforce
  have u: "same_bits clint_frame hs (snd (clint_tick wall 0 (c, hart_update i (backdoor_write_with_mask MIP_MSIP v) hs)))" for i v
  proof (rule same_bits_trans)
    show "same_bits clint_frame hs (hart_update i (backdoor_write_with_mask MIP_MSIP v) hs)"
      by (rule same_bits_update) (simp add: bit_backdoor)
    show "same_bits clint_frame (hart_update i (backdoor_write_with_mask MIP_MSIP v) hs)
      (snd (clint_tick wall 0 (c, hart_update i (backdoor_write_with_mask MIP_MSIP v) hs)))"
      using tick_frame [of "(c, hart_update i (backdoor_write_with_mask MIP_MSIP v) hs)"] by simp
  qed
  have t: "same_bits clint_frame hs (snd (clint_tick wall 0 (c', hs)))" for c' using tick_frame [of "(c', hs)"] by simp
  show ?thesis
    using st u t by (auto simp: s clint_store_word_def Let_def bind_eq_Some_conv split: if_splits)
qed

lemma clint_store_cases:
  assumes "clint_store wall addr bytes s = Some (ok, s')"
  obtains "\<not> ok" "s' = s" | "clint_store_word wall addr bytes s = Some (ok, s')"
    | "\<not> ok" "clint_store_word wall addr (take 4 bytes) s = Some (False, s')"
    | s1 where "clint_store_word wall addr (take 4 bytes) s = Some (True, s1)" "clint_store_word wall (addr + 4) (drop 4 bytes) s1 = Some (ok, s')"
proof (cases "8 < length bytes")
  case True
  then show thesis using assms that(1) by (simp add: clint_store_def)
next
  case False
  show thesis
  proof (cases "addr < MTIMECMP_BASE \<and> length bytes = 8")
    case True
    then obtain ok1 s1 where "clint_store_word wall addr (take 4 bytes) s = Some (ok1, s1)"
      "(if ok1 then clint_store_word wall (addr + 4) (drop 4 bytes) s1 else Some (False, s1)) = Some (ok, s')"
      using assms by (auto simp: clint_store_def bind_eq_Some_conv)
    then show thesis using that(3,4) by (cases ok1) auto
  next
    case no: False
    have "clint_store_word wall addr bytes s = Some (ok, s')"
      using assms unfolding clint_store_def if_not_P [OF False] if_not_P [OF no] .
    then show thesis by (rule that(2))
  qed
qed

theorem clint_store_keeps:
  assumes "clint_store wall addr bytes s = Some (ok, s')"
  shows "same_bits clint_frame (snd s) (snd s') \<and> (ok \<longrightarrow> timer_synced s')"
  using assms
proof (cases rule: clint_store_cases)
  case (4 s1)
  from store_word_frame [OF 4(1)] store_word_frame [OF 4(2)] have "same_bits clint_frame (snd s) (snd s')" by (rule same_bits_trans)
  with 4(2) show ?thesis using store_word_synced by (cases ok) simp_all
qed (auto dest: store_word_frame store_word_synced)

theorem clint_load_keeps:
  assumes "clint_load wall addr len s = Some (r, s')" "len \<le> 8"
  shows "same_bits clint_frame (snd s) (snd s') \<and> timer_synced s' \<and> mtimecmp (fst s') = mtimecmp (fst s)"
proof -
  have w: "same_bits clint_frame (snd s0) (snd s1) \<and> timer_synced s1 \<and> mtimecmp (fst s1) = mtimecmp (fst s0)"
    if "clint_load_word wall a l s0 = Some (q, s1)" for a l s0 q s1
    using load_word_cases [OF that] tick_frame tick_synced by simp
  show ?thesis
  proof (cases "addr < MTIMECMP_BASE \<and> len = 8")
    case False
    then have "clint_load_word wall addr len s = Some (r, s')" using assms by (auto simp: clint_load_def split: if_splits)
    from w [OF this] show ?thesis .
  next
    case True
    then obtain q s1 where 1: "clint_load_word wall addr 4 (clint_tick wall 0 s) = Some (q, s1)"
      and 2: "s' = s1 \<or> (\<exists>q'. clint_load_word wall (addr + 4) 4 s1 = Some (q', s'))"
      using assms by (auto simp: clint_load_def Let_def bind_eq_Some_conv split: option.splits)
    note A = w [OF 1]
    have "same_bits clint_frame (snd s) (snd s1)" using A tick_frame same_bits_trans by blast
    with 2 show ?thesis
    proof (elim disjE exE)
      assume "s' = s1"
      then show ?thesis using A \<open>same_bits clint_frame (snd s) (snd s1)\<close> by simp
    next
      fix q' assume "clint_load_word wall (addr + 4) 4 s1 = Some (q', s')"
      from w [OF this] show ?thesis using A same_bits_trans [OF \<open>same_bits clint_frame (snd s) (snd s1)\<close>] by simp
    qed
  qed
qed

text \<open>What is written to a compare register is read back.\<close>

theorem mtimecmp_roundtrip:
  assumes a: "MTIMECMP_BASE \<le> addr" "addr < MTIME_BASE" and h: "hs ((addr - MTIMECMP_BASE) div 8) \<noteq> None"
    and l: "length bytes \<le> 8"
  shows "\<exists>s'. clint_store wall addr bytes (c, hs) = Some (True, s') \<and>
    (\<exists>s''. clint_load wall' addr (length bytes) s' = Some (Some bytes, s''))"
proof -
  define i where "i = (addr - MTIMECMP_BASE) div 8"
  obtain cmp where cmp: "write_little_endian_reg (mtimecmp c i) addr bytes = Some cmp" using l by (simp add: write_little_endian_reg_def)
  define s' where "s' = clint_tick wall 0 (c\<lparr>mtimecmp := (mtimecmp c)(i := cmp)\<rparr>, hs)"
  have na: "\<not> addr < MTIMECMP_BASE" using a(1) by (simp add: not_less)
  have st: "clint_store wall addr bytes (c, hs) = Some (True, s')"
    using na a h l cmp by (simp add: clint_store_def clint_store_word_def Let_def i_def [symmetric] s'_def)
  define s'' where "s'' = clint_tick wall' 0 s'"
  have "snd s'' i \<noteq> None" "mtimecmp (fst s'') i = cmp" using h by (simp_all add: s''_def s'_def i_def)
  then have "clint_load_body s'' addr (length bytes) = Some (Some bytes)"
    using na a le_reg_roundtrip [OF _ _ cmp] by (cases s'') (auto simp: clint_load_body_def Let_def i_def [symmetric])
  then have "clint_load wall' addr (length bytes) s' = Some (Some bytes, s'')"
    using na l by (simp add: clint_load_def clint_load_word_def Let_def s''_def)
  with st show ?thesis by blast
qed

end
