(* ===== verification/Plic_Claim.thy ===== *)
theory Plic_Claim
  imports Plic_Inv Clint
begin

text \<open>
  What software sees of the controller: the initial state, the claim and completion protocol, which context a level
  change reaches, the effect of the threshold, and the bits of \<open>mip\<close> that the two interrupt devices share out.
\<close>

section \<open>The initial state\<close>

lemma ctx_new_wf: "ctx_wf (plic_context_new h m)"
  by (auto simp: plic_context_new_def ctx_wf_def)

lemma best_new:
  assumes "unat (num_ids p) \<le> 1024" "unat (num_ids p) \<le> unat (num_ids_word p) * 32"
  shows "context_best_pending p (plic_context_new h m) = 0"
proof -
  have "\<not> ready p (plic_context_new h m) i" for i using assms(1) by (auto simp: ready_def plic_context_new_def)
  then show ?thesis
    using context_best_pending_is_best [of p "plic_context_new h m", OF _ assms(2)] by (auto simp: is_best_def split: if_splits)
qed

definition harts_quiet :: "(u64 \<times> bool) list \<Rightarrow> harts \<Rightarrow> bool" where
  "harts_quiet ids hs \<longleftrightarrow> (\<forall>i \<in> fst ` set ids. case hs i of None \<Rightarrow> True | Some h \<Rightarrow> \<not> bit (mip h) 9 \<and> \<not> bit (mip h) 11)"

lemma plic_new_contexts: "c \<in> set (contexts (plic_new ids ndev)) \<Longrightarrow> \<exists>h m. c = plic_context_new h m \<and> h \<in> fst ` set ids"
  by (auto simp: plic_new_def split: if_splits) (force simp: image_iff)+

lemma plic_new_keys:
  "distinct (map fst ids) \<Longrightarrow> distinct (map (\<lambda>c. (proc c, mmode c)) (contexts (plic_new ids ndev)))"
proof (induction ids)
  case (Cons e ids)
  obtain h s where e: "e = (h, s)" by (cases e)
  have "h \<notin> proc ` set (contexts (plic_new ids ndev))"
  proof
    assume "h \<in> proc ` set (contexts (plic_new ids ndev))"
    then obtain c where "c \<in> set (contexts (plic_new ids ndev))" "proc c = h" by blast
    with plic_new_contexts [OF this(1)] have "h \<in> fst ` set ids" by (force simp: plic_context_new_def)
    then show False using Cons.prems by (simp add: e)
  qed
  moreover have "contexts (plic_new (e # ids) ndev) = plic_context_new h True # (if s then [plic_context_new h False] else []) @ contexts (plic_new ids ndev)"
    by (simp add: plic_new_def e)
  ultimately show ?case using Cons by (auto simp: plic_context_new_def)
qed (simp add: plic_new_def)

theorem plic_new_inv:
  assumes "unat ndev < 1024" "distinct (map fst ids)" "harts_quiet ids hs"
  shows "plic_inv (plic_new ids ndev, hs)"
proof -
  define p where "p = plic_new ids ndev"
  have n: "unat (num_ids p) = unat ndev + 1" using assms(1) by (simp add: p_def plic_new_def unat_word_ariths)
  have w: "unat (num_ids_word p) = (unat (num_ids p) + 31) div 32"
    using assms(1) by (simp add: n) (simp add: p_def plic_new_def unat_word_ariths unat_div)
  have "0 < num_ids p" using n by (simp add: word_less_nat_alt)
  moreover have "list_all ctx_wf (contexts p)"
    unfolding list_all_iff
  proof
    fix c assume "c \<in> set (contexts p)"
    from plic_new_contexts [OF this [unfolded p_def]] show "ctx_wf c" using ctx_new_wf by blast
  qed
  moreover have "max_prio p = 15" "length (priority p) = 1024" "length (level p) = 32" by (simp_all add: p_def plic_new_def)
  ultimately have wf: "plic_wf p"
    using n w assms(1) plic_new_keys [OF assms(2), of ndev] by (simp add: plic_wf_def p_def [symmetric])
  have "mip_ok p hs"
    unfolding mip_ok_def
  proof
    fix c assume "c \<in> set (contexts p)"
    from plic_new_contexts [OF this [unfolded p_def]] obtain h m where c: "c = plic_context_new h m" "h \<in> fst ` set ids" by blast
    have "context_best_pending p c = 0" unfolding c(1) using wf by (intro best_new plic_wf_ids) (simp_all add: plic_wf_def)
    then show "case hs (proc c) of None \<Rightarrow> True | Some h \<Rightarrow> bit (mip h) (ctx_bit c) \<longleftrightarrow> context_best_pending p c \<noteq> 0"
      using assms(3) c by (auto simp: harts_quiet_def plic_context_new_def split: option.splits)
  qed
  with wf show ?thesis by (simp add: plic_inv_def p_def)
qed

section \<open>Claim and completion\<close>

lemma backdoor_same:
  assumes "bit (mip h) n \<longleftrightarrow> b" "n < 64"
  shows "backdoor_write_with_mask (irq_bit n) (if b then irq_bit n else 0) h = h"
proof -
  have "mip (backdoor_write_with_mask (irq_bit n) (if b then irq_bit n else 0) h) = mip h"
    using assms by (intro bit_word_eqI) (auto simp: bit_backdoor)
  then show ?thesis by (simp add: backdoor_write_with_mask_def)
qed

lemma backdoor_twice:
  "backdoor_write_with_mask m v (backdoor_write_with_mask m v' h) = backdoor_write_with_mask m v h"
proof -
  have "mip (backdoor_write_with_mask m v (backdoor_write_with_mask m v' h)) = mip (backdoor_write_with_mask m v h)"
    by (intro bit_word_eqI) (simp add: bit_backdoor)
  then show ?thesis by (simp add: backdoor_write_with_mask_def)
qed

lemma context_update_eq:
  "context_update p c hs = hart_update (proc c) (backdoor_write_with_mask (irq_bit (ctx_bit c)) (if context_best_pending p c \<noteq> 0 then irq_bit (ctx_bit c) else 0)) hs"
  by (simp add: context_update_def Let_def)

lemma context_update_cong:
  assumes "proc c' = proc c" "mmode c' = mmode c" "context_best_pending p' c' = context_best_pending p c"
  shows "context_update p' c' hs = context_update p c hs"
  by (simp only: context_update_eq assms)

text \<open>Updating a context whose interrupt bit is right changes nothing.\<close>

lemma context_update_id:
  assumes "mip_ok p hs" "n < length (contexts p)"
  shows "context_update p (contexts p ! n) hs = hs"
proof -
  have "case hs (proc (contexts p ! n)) of None \<Rightarrow> True
     | Some h \<Rightarrow> bit (mip h) (ctx_bit (contexts p ! n)) \<longleftrightarrow> context_best_pending p (contexts p ! n) \<noteq> 0"
    using assms unfolding mip_ok_def by (metis nth_mem)
  then show ?thesis
    unfolding context_update_eq hart_update_def
    using backdoor_same [of _ "ctx_bit (contexts p ! n)" "context_best_pending p (contexts p ! n) \<noteq> 0"]
    by (cases "hs (proc (contexts p ! n))") (auto intro: fun_upd_idem)
qed

lemma context_update_twice:
  "proc c' = proc c \<Longrightarrow> mmode c' = mmode c \<Longrightarrow> context_update p c (context_update p c' hs) = context_update p c hs"
  unfolding context_update_eq hart_update_def by (simp add: option.map_comp comp_def backdoor_twice)

theorem claim_then_complete:
  assumes inv: "plic_inv (p, hs)" and n: "n < length (contexts p)"
    and claim: "context_claim n (p, hs) = (i, s')" "i \<noteq> 0"
  shows "context_write n 4 i s' = (True, (p, hs)) \<and> context_best_pending (fst s') (contexts (fst s') ! n) \<noteq> unat i"
proof -
  have wf: "plic_wf p" and mo: "mip_ok p hs" using inv by (simp_all add: plic_inv_def)
  define c where "c = contexts p ! n"
  define b where "b = context_best_pending p c"
  define w where "w = b div 32"
  define m where "m = id_mask (b mod 32)"
  define c' where "c' = c\<lparr>claimed := (claimed c)[w := claimed c ! w OR m]\<rparr>"
  have cw: "ctx_wf c" using nth_ctx_wf [OF wf n] by (simp add: c_def)
  have ib: "i = of_nat b" using claim(1) by (simp add: context_claim_def Let_def b_def c_def)
  then have b0: "b \<noteq> 0" using claim(2) by (cases "b = 0") simp_all
  have r: "ready p c b" using best_less [OF wf cw] b0 by (simp add: b_def)
  note R = ready_index [OF wf r]
  have ub: "unat i = b" unfolding ib using R by (intro unat_word_of_nat_small) simp
  have s': "s' = (set_context n c' p, context_update p c' hs)"
    using claim(1) b0 by (simp add: context_claim_def Let_def c_def [symmetric] b_def [symmetric] w_def c'_def m_def)
  have w32: "w < 32" using R by (simp add: w_def)
  have bits: "bit (enable c ! w) (b mod 32)" "\<not> bit (claimed c ! w) (b mod 32)"
    using r ctx_wfD(6) [OF cw w32, of "b mod 32"] by (simp_all add: ready_def w_def)
  have undo: "(claimed c ! w OR m) AND NOT m = claimed c ! w"
    using bits(2) by (intro bit_word_eqI) (auto simp: m_def bit_or_iff bit_and_iff bit_not_iff)
  have cc: "c'\<lparr>claimed := (claimed c')[w := claimed c' ! w AND NOT m]\<rparr> = c"
    using undo ctx_wfD(3) [OF cw] w32 by (simp add: c'_def)
  have ctx: "contexts (set_context n c' p) ! n = c'" using n by (simp add: set_context_def)
  have p: "set_context n c (set_context n c' p) = p" by (simp add: set_context_def c_def)
  have "b < unat (num_ids p)" using r by (simp add: ready_def)
  then have lt: "i < num_ids (set_context n c' p)" using ub by (simp add: word_less_nat_alt set_context_def)
  have en: "enable c' ! w AND m \<noteq> 0" using bits(1) by (simp add: c'_def m_def)
  have "context_update (set_context n c' p) c (context_update p c' hs) = context_update p c (context_update p c' hs)"
    by (intro context_update_cong best_cong) (simp_all add: set_context_def)
  also have "\<dots> = hs" using context_update_twice [of c' c p hs] context_update_id [OF mo n] by (simp add: c'_def c_def)
  finally have hs: "context_update (set_context n c' p) c (context_update p c' hs) = hs" .
  have compl: "context_write n 4 i s' = (True, (p, hs))"
    using lt en cc p hs by (simp add: s' context_write_def Let_def ctx ub w_def [symmetric] m_def [symmetric])
  have "\<not> ready (set_context n c' p) c' b"
    using w32 ctx_wfD(3) [OF cw] by (simp add: ready_def c'_def w_def m_def bit_or_iff)
  moreover have "plic_wf (set_context n c' p)" using context_claim_inv [OF inv, of n] n claim(1) by (simp add: s' plic_inv_def)
  moreover have "ctx_wf c'" unfolding c'_def m_def using claim_ctx_wf [OF cw w32, of "b mod 32"] r by (simp add: ready_def w_def)
  ultimately have "context_best_pending (set_context n c' p) c' \<noteq> b" using best_less [of "set_context n c' p" c'] b0 by auto
  then have "context_best_pending (fst s') (contexts (fst s') ! n) \<noteq> unat i" by (simp add: s' ctx ub)
  with compl show ?thesis ..
qed

section \<open>Level changes and the threshold\<close>

theorem level_reaches_first_only:
  assumes n: "k < n" "n < length (contexts p)" and en: "bit (enable (contexts p ! k) ! (unat i div 32)) (unat i mod 32)"
  shows "contexts (fst (set_interrupt_level i lvl (p, hs))) ! n = contexts p ! n"
proof -
  have "contexts (fst (level_contexts q (unat i) lvl ns hs)) ! n = contexts q ! n"
    if "sorted_wrt (<) ns" "k \<in> set ns" "bit (enable (contexts q ! k) ! (unat i div 32)) (unat i mod 32)" for q ns
    using that
  proof (induction ns)
    case (Cons a ns)
    then have "a \<le> k" by auto
    then show ?case using Cons n by (auto simp: Let_def set_context_def)
  qed simp
  from this [of "[0..<length (contexts p)]" "p\<lparr>level := _\<rparr>"] n en show ?thesis
    by (auto simp: set_interrupt_level_def Let_def sorted_wrt_upt)
qed

theorem threshold_has_no_effect:
  assumes "plic_inv (p, hs)" "n < length (contexts p)"
  shows "snd (snd (context_write n 0 val (p, hs))) = hs"
proof -
  have "mip_ok p hs" using assms by (simp add: plic_inv_def)
  from context_update_id [OF this assms(2)]
  have "context_update p ((contexts p ! n)\<lparr>priority_threshold := t\<rparr>) hs = hs" for t
    using context_update_cong [of "(contexts p ! n)\<lparr>priority_threshold := t\<rparr>" "contexts p ! n" p p hs]
      best_cong [of p p "(contexts p ! n)\<lparr>priority_threshold := t\<rparr>" "contexts p ! n"] by simp
  then show ?thesis by (simp add: context_write_def Let_def)
qed

section \<open>The bits of the two devices\<close>

abbreviation plic_frame :: "nat set" where "plic_frame \<equiv> - {9, 11}"

lemma context_update_frame: "same_bits plic_frame hs (context_update p c hs)"
  unfolding context_update_eq by (rule same_bits_update) (auto simp: bit_backdoor)

lemma level_contexts_frame: "same_bits plic_frame hs (snd (level_contexts p i lvl ns hs))"
  by (induction ns) (simp_all add: Let_def context_update_frame)

lemma set_interrupt_level_frame: "same_bits plic_frame (snd s) (snd (set_interrupt_level i lvl s))"
  by (cases s) (simp add: set_interrupt_level_def Let_def level_contexts_frame)

lemma plic_load_word_frame: "same_bits plic_frame (snd s) (snd (snd (plic_load_word addr s)))"
  by (cases s) (simp add: plic_load_word_def context_read_def context_claim_def Let_def context_update_frame)

lemma plic_store_word_frame: "same_bits plic_frame (snd s) (snd (snd (plic_store_word addr val s)))"
  by (cases s) (simp add: plic_store_word_def context_write_def context_enable_write_def Let_def context_update_frame)

end
