(* ===== verification/Uart.thy ===== *)
theory Uart
  imports Plic_Claim
begin

text \<open>
  The serial port (\<open>riscv-isa-sim/riscv/ns16550.cc\<close>). The interrupt controller it drives is an argument, as is what
  the terminal delivers at a tick; the bytes sent to the terminal are collected in the record. \<open>dlm\<close> and
  \<open>interrupts\<close> keep the widths of the source; \<open>dlm\<close> is not initialised by the constructor and is an argument of it.
\<close>

section \<open>Definitions\<close>

record ns16550_t =
  interrupt_id :: u32
  reg_shift :: nat
  reg_io_width :: nat
  rx_queue :: "u8 list"
  dll :: u8
  dlm :: u8
  iir :: u8
  ier :: u8
  fcr :: u8
  lcr :: u8
  mcr :: u8
  lsr :: u8
  msr :: u8
  scr :: u8
  backoff_counter :: nat
  term_out :: "u8 list"

abbreviation (input) UART_LSR_DR :: u8 where "UART_LSR_DR \<equiv> 0x01"
abbreviation (input) UART_LSR_BI :: u8 where "UART_LSR_BI \<equiv> 0x10"
abbreviation (input) UART_LSR_THRE :: u8 where "UART_LSR_THRE \<equiv> 0x20"
abbreviation (input) UART_LSR_TEMT :: u8 where "UART_LSR_TEMT \<equiv> 0x40"
abbreviation (input) UART_FCR_ENABLE_FIFO :: u8 where "UART_FCR_ENABLE_FIFO \<equiv> 0x01"
abbreviation (input) UART_FCR_CLEAR_RCVR :: u8 where "UART_FCR_CLEAR_RCVR \<equiv> 0x02"
abbreviation (input) UART_FCR_CLEAR_XMIT :: u8 where "UART_FCR_CLEAR_XMIT \<equiv> 0x04"
abbreviation (input) UART_LCR_DLAB :: u8 where "UART_LCR_DLAB \<equiv> 0x80"
abbreviation (input) UART_MCR_LOOP :: u8 where "UART_MCR_LOOP \<equiv> 0x10"
abbreviation (input) UART_IER_RDI :: u8 where "UART_IER_RDI \<equiv> 0x01"
abbreviation (input) UART_IER_THRI :: u8 where "UART_IER_THRI \<equiv> 0x02"
abbreviation (input) UART_IIR_NO_INT :: u8 where "UART_IIR_NO_INT \<equiv> 0x01"
abbreviation (input) UART_IIR_THRI :: u8 where "UART_IIR_THRI \<equiv> 0x02"
abbreviation (input) UART_IIR_RDI :: u8 where "UART_IIR_RDI \<equiv> 0x04"

definition uart_new :: "u32 \<Rightarrow> nat \<Rightarrow> nat \<Rightarrow> u8 \<Rightarrow> ns16550_t" where
  "uart_new iid sh width d =
     \<lparr> interrupt_id = iid, reg_shift = sh, reg_io_width = width, rx_queue = [], dll = 0x0C, dlm = d,
       iir = UART_IIR_NO_INT, ier = 0, fcr = 0, lcr = 0, mcr = 0x08, lsr = UART_LSR_TEMT OR UART_LSR_THRE,
       msr = 0x80 OR 0x20 OR 0x10, scr = 0, backoff_counter = 0, term_out = [] \<rparr>"

text \<open>The two requests to clear a queue are looked up in \<open>lcr\<close>.\<close>

definition uart_clear :: "ns16550_t \<Rightarrow> ns16550_t" where
  "uart_clear u =
     (let u = (if lcr u AND UART_FCR_CLEAR_RCVR \<noteq> 0
               then u\<lparr>lcr := lcr u AND NOT UART_FCR_CLEAR_RCVR, rx_queue := [], lsr := lsr u AND NOT UART_LSR_DR\<rparr>
               else u)
      in if lcr u AND UART_FCR_CLEAR_XMIT \<noteq> 0
         then u\<lparr>lcr := lcr u AND NOT UART_FCR_CLEAR_XMIT, lsr := lsr u OR (UART_LSR_TEMT OR UART_LSR_THRE)\<rparr>
         else u)"

definition uart_interrupts :: "ns16550_t \<Rightarrow> u8" where
  "uart_interrupts u =
     (if ier u AND UART_IER_RDI \<noteq> 0 \<and> lsr u AND UART_LSR_DR \<noteq> 0 then UART_IIR_RDI else 0) OR
     (if ier u AND UART_IER_THRI \<noteq> 0 \<and> lsr u AND UART_LSR_TEMT \<noteq> 0 then UART_IIR_THRI else 0)"

definition update_interrupt :: "(u32 \<Rightarrow> bool \<Rightarrow> 'c \<Rightarrow> 'c) \<Rightarrow> ns16550_t \<times> 'c \<Rightarrow> ns16550_t \<times> 'c" where
  "update_interrupt set_level = (\<lambda>(u, ctl).
     let u = uart_clear u;
         interrupts = uart_interrupts u;
         u' = u\<lparr>iir := (if interrupts = 0 then UART_IIR_NO_INT else interrupts)\<rparr>
     in (if ier u AND UART_IER_THRI = 0 then u'\<lparr>lsr := lsr u' OR (UART_LSR_TEMT OR UART_LSR_THRE)\<rparr> else u',
         set_level (interrupt_id u) (interrupts \<noteq> 0) ctl))"

definition rx_byte :: "ns16550_t \<Rightarrow> u8 \<times> ns16550_t" where
  "rx_byte u =
     (case rx_queue u of
        [] \<Rightarrow> (0, u\<lparr>lsr := lsr u AND NOT UART_LSR_DR\<rparr>)
      | b # q \<Rightarrow>
          if lsr u AND UART_LSR_BI \<noteq> 0 then (0, u\<lparr>lsr := lsr u AND NOT UART_LSR_BI\<rparr>)
          else (b, if q = [] then u\<lparr>rx_queue := q, lsr := lsr u AND NOT UART_LSR_DR\<rparr> else u\<lparr>rx_queue := q\<rparr>))"

definition tx_byte :: "u8 \<Rightarrow> ns16550_t \<Rightarrow> ns16550_t" where
  "tx_byte val u = u\<lparr>lsr := lsr u OR (UART_LSR_TEMT OR UART_LSR_THRE), term_out := term_out u @ [val]\<rparr>"

definition rx_push :: "u8 \<Rightarrow> ns16550_t \<Rightarrow> ns16550_t" where
  "rx_push val u = u\<lparr>rx_queue := rx_queue u @ [val], lsr := lsr u OR UART_LSR_DR\<rparr>"

definition uart_load :: "(u32 \<Rightarrow> bool \<Rightarrow> 'c \<Rightarrow> 'c) \<Rightarrow> u64 \<Rightarrow> nat \<Rightarrow> ns16550_t \<times> 'c \<Rightarrow> u8 option \<times> (ns16550_t \<times> 'c)" where
  "uart_load set_level addr len = (\<lambda>(u, ctl).
     if reg_io_width u \<noteq> len then (None, (u, ctl))
     else let r = unat (drop_bit (reg_shift u) addr AND 7)
          in if r = 0 then
               (let (val, u) = (if lcr u AND UART_LCR_DLAB \<noteq> 0 then (dll u, u) else rx_byte u)
                in (Some val, update_interrupt set_level (u, ctl)))
             else if r = 1 then (Some (if lcr u AND UART_LCR_DLAB \<noteq> 0 then dlm u else ier u), (u, ctl))
             else if r = 2 then (Some (iir u OR 0xc0), (u, ctl))
             else if r = 3 then (Some (lcr u), (u, ctl))
             else if r = 4 then (Some (mcr u), (u, ctl))
             else if r = 5 then (Some (lsr u), (u, ctl))
             else if r = 6 then (Some (msr u), (u, ctl))
             else (Some (scr u), (u, ctl)))"

definition uart_store :: "(u32 \<Rightarrow> bool \<Rightarrow> 'c \<Rightarrow> 'c) \<Rightarrow> u64 \<Rightarrow> nat \<Rightarrow> u8 \<Rightarrow> ns16550_t \<times> 'c \<Rightarrow> bool \<times> (ns16550_t \<times> 'c)" where
  "uart_store set_level addr len val = (\<lambda>(u, ctl).
     if reg_io_width u \<noteq> len then (False, (u, ctl))
     else let r = unat (drop_bit (reg_shift u) addr AND 7)
          in if r = 0 then
               (let u = (if lcr u AND UART_LCR_DLAB \<noteq> 0 then u\<lparr>dll := val\<rparr>
                         else if mcr u AND UART_MCR_LOOP \<noteq> 0
                         then (if length (rx_queue u) < 64 then rx_push val u else u)
                         else tx_byte val u)
                in (True, update_interrupt set_level (u, ctl)))
             else if r = 1 then
               (True, update_interrupt set_level
                  (if lcr u AND UART_LCR_DLAB = 0 then u\<lparr>ier := val AND 0x0f\<rparr> else u\<lparr>dlm := val\<rparr>, ctl))
             else if r = 2 then (True, update_interrupt set_level (u\<lparr>fcr := val\<rparr>, ctl))
             else if r = 3 then (True, update_interrupt set_level (u\<lparr>lcr := val\<rparr>, ctl))
             else if r = 4 then (True, update_interrupt set_level (u\<lparr>mcr := val\<rparr>, ctl))
             else if r = 5 then (True, (u, ctl))
             else if r = 6 then (True, (u, ctl))
             else (True, (u\<lparr>scr := val\<rparr>, ctl)))"

text \<open>A tick; \<open>rc\<close> is what \<open>canonical_terminal_t::read()\<close> returns, negative when there is no input.\<close>

definition uart_tick :: "(u32 \<Rightarrow> bool \<Rightarrow> 'c \<Rightarrow> 'c) \<Rightarrow> int \<Rightarrow> ns16550_t \<times> 'c \<Rightarrow> ns16550_t \<times> 'c" where
  "uart_tick set_level rc = (\<lambda>(u, ctl).
     if fcr u AND UART_FCR_ENABLE_FIFO = 0 \<or> mcr u AND UART_MCR_LOOP \<noteq> 0 \<or> 64 \<le> length (rx_queue u) then (u, ctl)
     else if 0 < backoff_counter u \<and> backoff_counter u < 16 then (u\<lparr>backoff_counter := backoff_counter u + 1\<rparr>, ctl)
     else if rc < 0 then (u\<lparr>backoff_counter := 1\<rparr>, ctl)
     else update_interrupt set_level (rx_push (of_int rc) (u\<lparr>backoff_counter := 0\<rparr>), ctl))"

section \<open>The interface of an interrupt controller\<close>

locale interrupt_controller =
  fixes set_level :: "u32 \<Rightarrow> bool \<Rightarrow> 'c \<Rightarrow> 'c" and ctl_inv :: "'c \<Rightarrow> bool"
  assumes set_level_inv: "ctl_inv ctl \<Longrightarrow> ctl_inv (set_level i lvl ctl)"
begin

lemma update_ctl: "ctl_inv (snd s) \<Longrightarrow> ctl_inv (snd (update_interrupt set_level s))"
  by (cases s) (simp add: update_interrupt_def Let_def set_level_inv)

lemma load_ctl: "ctl_inv (snd s) \<Longrightarrow> ctl_inv (snd (snd (uart_load set_level addr len s)))"
  using update_ctl by (cases s) (auto simp: uart_load_def Let_def case_prod_beta)

lemma store_ctl: "ctl_inv (snd s) \<Longrightarrow> ctl_inv (snd (snd (uart_store set_level addr len val s)))"
  using update_ctl by (cases s) (auto simp: uart_store_def Let_def)

lemma tick_ctl: "ctl_inv (snd s) \<Longrightarrow> ctl_inv (snd (uart_tick set_level rc s))"
  using update_ctl by (cases s) (auto simp: uart_tick_def Let_def)

end

interpretation plic: interrupt_controller set_interrupt_level plic_inv
  by unfold_locales (rule set_interrupt_level_inv)

end
