(* ===== verification/Uart_Fifo.thy ===== *)
theory Uart_Fifo
  imports Uart
begin

text \<open>
  The receive queue of the serial port: the data-ready bit says whether it holds a byte, in loopback mode it is a
  first-in first-out queue, and it is emptied by a write to the line control register.
\<close>

section \<open>Bits of the registers\<close>

lemma byte_test:
  fixes x :: u8
  shows "x AND 1 = 0 \<longleftrightarrow> \<not> bit x 0" "x AND 2 = 0 \<longleftrightarrow> \<not> bit x 1" "x AND 4 = 0 \<longleftrightarrow> \<not> bit x 2" "x AND 0x10 = 0 \<longleftrightarrow> \<not> bit x 4"
    "x AND 0x80 = 0 \<longleftrightarrow> \<not> bit x 7"
proof -
  have t: "x AND push_bit n 1 = 0 \<longleftrightarrow> \<not> bit x n" if "n < 8" for n
  proof -
    have "x AND push_bit n 1 = 0 \<longleftrightarrow> (\<forall>k. \<not> bit (x AND push_bit n 1) k)" by (metis bit_0_eq bit_word_eqI bot_apply bot_bool_def)
    then show ?thesis using that by (auto simp: bit_and_iff bit_push_bit_iff bit_1_iff simp del: push_bit_of_1 dest: bit_imp_le_length)
  qed
  show "x AND 1 = 0 \<longleftrightarrow> \<not> bit x 0" "x AND 2 = 0 \<longleftrightarrow> \<not> bit x 1" "x AND 4 = 0 \<longleftrightarrow> \<not> bit x 2" "x AND 0x10 = 0 \<longleftrightarrow> \<not> bit x 4"
    "x AND 0x80 = 0 \<longleftrightarrow> \<not> bit x 7"
    using t [of 0] t [of 1] t [of 2] t [of 4] t [of 7] by simp_all
qed

definition uart_wf :: "ns16550_t \<Rightarrow> bool" where
  "uart_wf u \<longleftrightarrow> (bit (lsr u) 0 \<longleftrightarrow> rx_queue u \<noteq> []) \<and> \<not> bit (lsr u) 4 \<and> length (rx_queue u) \<le> 64"

lemma lsr_bits [simp]:
  "bit (x OR 0x60 :: u8) 0 = bit x 0" "bit (x OR 0x60 :: u8) 4 = bit x 4" "bit (x OR 1 :: u8) 0" "bit (x OR 1 :: u8) 4 = bit x 4"
  "\<not> bit (x AND NOT 1 :: u8) 0" "bit (x AND NOT 1 :: u8) 4 = bit x 4" 
  unfolding bit_or_iff bit_and_iff bit_not_iff by simp_all

lemma lsr_bits_num [simp]:
  "\<not> bit (x AND - 2 :: u8) 0" "bit (x AND - 2 :: u8) 4 = bit x 4"
  using lsr_bits(5,6) [of x] by simp_all

section \<open>The invariant of the queue\<close>

lemma uart_clear_wf: "uart_wf u \<Longrightarrow> uart_wf (uart_clear u)"
  by (simp add: uart_wf_def uart_clear_def Let_def)

lemma update_interrupt_wf: "uart_wf u \<Longrightarrow> uart_wf (fst (update_interrupt set_level (u, ctl)))"
  using uart_clear_wf [of u] by (simp add: update_interrupt_def Let_def uart_wf_def)

lemma rx_push_wf: "uart_wf u \<Longrightarrow> length (rx_queue u) < 64 \<Longrightarrow> uart_wf (rx_push b u)"
  by (simp add: uart_wf_def rx_push_def)

lemma rx_byte_wf: "uart_wf u \<Longrightarrow> uart_wf (snd (rx_byte u))"
  by (cases "rx_queue u") (simp_all add: uart_wf_def rx_byte_def byte_test)

lemma uart_load_wf:
  assumes "uart_wf (fst s)"
  shows "uart_wf (fst (snd (uart_load set_level addr len s)))"
proof -
  obtain u ctl where s: "s = (u, ctl)" by (cases s)
  show ?thesis
    using assms rx_byte_wf [of u] by (simp add: s uart_load_def Let_def case_prod_beta update_interrupt_wf)
qed

lemma uart_wf_fields [simp]:
  "uart_wf (u\<lparr>dll := a\<rparr>) = uart_wf u" "uart_wf (u\<lparr>dlm := a\<rparr>) = uart_wf u" "uart_wf (u\<lparr>ier := a\<rparr>) = uart_wf u"
  "uart_wf (u\<lparr>fcr := a\<rparr>) = uart_wf u" "uart_wf (u\<lparr>lcr := a\<rparr>) = uart_wf u" "uart_wf (u\<lparr>mcr := a\<rparr>) = uart_wf u"
  "uart_wf (u\<lparr>scr := a\<rparr>) = uart_wf u" "uart_wf (u\<lparr>backoff_counter := n\<rparr>) = uart_wf u" "uart_wf (tx_byte a u) = uart_wf u"
  by (simp_all add: uart_wf_def tx_byte_def)

lemma uart_store_wf:
  assumes "uart_wf (fst s)"
  shows "uart_wf (fst (snd (uart_store set_level addr len val s)))"
proof -
  obtain u ctl where s: "s = (u, ctl)" by (cases s)
  show ?thesis
    using assms rx_push_wf [of u val] by (simp add: s uart_store_def Let_def update_interrupt_wf)
qed

lemma uart_tick_wf:
  assumes "uart_wf (fst s)"
  shows "uart_wf (fst (uart_tick set_level rc s))"
proof -
  obtain u ctl where s: "s = (u, ctl)" by (cases s)
  show ?thesis
    using assms rx_push_wf [of "u\<lparr>backoff_counter := 0\<rparr>" "of_int rc"] by (simp add: s uart_tick_def Let_def update_interrupt_wf)
qed

section \<open>Loopback\<close>

text \<open>Loopback mode with the divisor latch closed and no bit of \<open>lcr\<close> that \<open>update_interrupt\<close> takes for a clear request.\<close>

definition loopback :: "ns16550_t \<Rightarrow> bool" where
  "loopback u \<longleftrightarrow> uart_wf u \<and> bit (mcr u) 4 \<and> \<not> bit (lcr u) 7 \<and> \<not> bit (lcr u) 1 \<and> \<not> bit (lcr u) 2"

lemma update_loopback:
  assumes "loopback u"
  shows "loopback (fst (update_interrupt set_level (u, ctl)))" "rx_queue (fst (update_interrupt set_level (u, ctl))) = rx_queue u"
    "reg_io_width (fst (update_interrupt set_level (u, ctl))) = reg_io_width u"
proof -
  have "uart_clear u = u" using assms by (simp add: loopback_def uart_clear_def byte_test Let_def)
  then show "loopback (fst (update_interrupt set_level (u, ctl)))" "rx_queue (fst (update_interrupt set_level (u, ctl))) = rx_queue u"
    "reg_io_width (fst (update_interrupt set_level (u, ctl))) = reg_io_width u"
    using assms by (simp_all add: loopback_def update_interrupt_def Let_def uart_wf_def)
qed

lemma send_byte:
  assumes "loopback u" "length (rx_queue u) < 64"
  shows "\<exists>u' ctl'. uart_store set_level 0 (reg_io_width u) b (u, ctl) = (True, (u', ctl')) \<and> loopback u' \<and>
    rx_queue u' = rx_queue u @ [b] \<and> reg_io_width u' = reg_io_width u"
proof -
  have l: "loopback (rx_push b u)" using assms rx_push_wf [of u b] by (simp add: loopback_def) (simp add: rx_push_def)
  have "uart_store set_level 0 (reg_io_width u) b (u, ctl) = (True, update_interrupt set_level (rx_push b u, ctl))"
    using assms by (simp add: uart_store_def loopback_def byte_test)
  with update_loopback [OF l, of set_level ctl] show ?thesis
    by (cases "update_interrupt set_level (rx_push b u, ctl)") (simp add: rx_push_def)
qed

lemma receive_byte:
  assumes "loopback u" "rx_queue u = b # q"
  shows "\<exists>u' ctl'. uart_load set_level 0 (reg_io_width u) (u, ctl) = (Some b, (u', ctl')) \<and> loopback u' \<and>
    rx_queue u' = q \<and> reg_io_width u' = reg_io_width u"
proof -
  obtain u1 where u1: "rx_byte u = (b, u1)" "rx_queue u1 = q" "mcr u1 = mcr u" "lcr u1 = lcr u" "reg_io_width u1 = reg_io_width u"
    using assms by (auto simp: rx_byte_def loopback_def uart_wf_def byte_test)
  then have l: "loopback u1" using assms rx_byte_wf [of u] by (simp add: loopback_def)
  have "uart_load set_level 0 (reg_io_width u) (u, ctl) = (Some b, update_interrupt set_level (u1, ctl))"
    using assms u1 by (simp add: uart_load_def loopback_def byte_test)
  with update_loopback [OF l, of set_level ctl] u1 show ?thesis
    by (cases "update_interrupt set_level (u1, ctl)") simp
qed

primrec uart_send :: "(u32 \<Rightarrow> bool \<Rightarrow> 'c \<Rightarrow> 'c) \<Rightarrow> u8 list \<Rightarrow> ns16550_t \<times> 'c \<Rightarrow> ns16550_t \<times> 'c" where
  "uart_send set_level [] s = s"
| "uart_send set_level (b # bs) s = uart_send set_level bs (snd (uart_store set_level 0 (reg_io_width (fst s)) b s))"

primrec uart_receive :: "(u32 \<Rightarrow> bool \<Rightarrow> 'c \<Rightarrow> 'c) \<Rightarrow> nat \<Rightarrow> ns16550_t \<times> 'c \<Rightarrow> u8 option list \<times> (ns16550_t \<times> 'c)" where
  "uart_receive set_level 0 s = ([], s)"
| "uart_receive set_level (Suc n) s =
     (let (r, s) = uart_load set_level 0 (reg_io_width (fst s)) s; (rs, s) = uart_receive set_level n s in (r # rs, s))"

lemma send_bytes:
  "loopback (fst s) \<Longrightarrow> length (rx_queue (fst s)) + length bs \<le> 64 \<Longrightarrow>
    loopback (fst (uart_send set_level bs s)) \<and> rx_queue (fst (uart_send set_level bs s)) = rx_queue (fst s) @ bs"
proof (induction bs arbitrary: s)
  case (Cons b bs)
  obtain u ctl where s: "s = (u, ctl)" by (cases s)
  obtain u' ctl' where "uart_store set_level 0 (reg_io_width u) b (u, ctl) = (True, (u', ctl'))" "loopback u'" "rx_queue u' = rx_queue u @ [b]"
    using send_byte [of u set_level b ctl] Cons.prems by (auto simp: s)
  with Cons.IH [of "(u', ctl')"] Cons.prems show ?case by (simp add: s)
qed simp

lemma receive_bytes:
  "loopback (fst s) \<Longrightarrow> fst (uart_receive set_level (length (rx_queue (fst s))) s) = map Some (rx_queue (fst s))"
proof (induction "rx_queue (fst s)" arbitrary: s)
  case (Cons b q)
  obtain u ctl where s: "s = (u, ctl)" by (cases s)
  obtain u' ctl' where "uart_load set_level 0 (reg_io_width u) (u, ctl) = (Some b, (u', ctl'))" "loopback u'" "rx_queue u' = q"
    using receive_byte [of u b q set_level ctl] Cons.prems Cons.hyps(2) by (auto simp: s)
  moreover have "rx_queue u = b # q" using Cons.hyps(2) by (simp add: s)
  ultimately show ?case using Cons.hyps(1) [of "(u', ctl')"] by (simp add: s case_prod_beta Let_def)
qed simp

theorem loopback_fifo:
  assumes "loopback u" "length (rx_queue u) + length bs \<le> 64"
  shows "fst (uart_receive set_level (length (rx_queue u) + length bs) (uart_send set_level bs (u, ctl))) = map Some (rx_queue u @ bs)"
  using send_bytes [of "(u, ctl)" bs set_level] receive_bytes [of "uart_send set_level bs (u, ctl)" set_level] assms by simp

section \<open>The control registers\<close>

theorem line_control_clears_queue:
  assumes "drop_bit (reg_shift u) addr AND 7 = 3"
  shows "rx_queue (fst (snd (uart_store set_level addr (reg_io_width u) val (u, ctl)))) = (if bit val 1 then [] else rx_queue u) \<and>
    lcr (fst (snd (uart_store set_level addr (reg_io_width u) val (u, ctl)))) = val AND NOT 6"
proof -
  have b: "lcr (uart_clear (u\<lparr>lcr := val\<rparr>)) = val AND NOT 6"
  proof (rule bit_word_eqI)
    fix n assume "n < LENGTH(8)"
    then have "n \<in> {0, 1, 2, 3, 4, 5, 6, 7}" by auto
    then show "bit (lcr (uart_clear (u\<lparr>lcr := val\<rparr>))) n = bit (val AND NOT 6) n"
      by (elim insertE) (auto simp: uart_clear_def Let_def byte_test bit_and_iff bit_not_iff)
  qed
  moreover have "rx_queue (uart_clear (u\<lparr>lcr := val\<rparr>)) = (if bit val 1 then [] else rx_queue u)"
    by (simp add: uart_clear_def Let_def byte_test)
  ultimately show ?thesis using assms by (simp add: uart_store_def update_interrupt_def Let_def)
qed

theorem fifo_control_keeps_queue:
  assumes "drop_bit (reg_shift u) addr AND 7 = 2" "\<not> bit (lcr u) 1"
  shows "rx_queue (fst (snd (uart_store set_level addr (reg_io_width u) val (u, ctl)))) = rx_queue u"
  using assms by (simp add: uart_store_def update_interrupt_def uart_clear_def Let_def byte_test)

end
