(* ===== verification/Device_Properties.thy ===== *)
theory Device_Properties
  imports Uart_Fifo
begin

text \<open>The properties of the devices: memory, timer, interrupt controller and serial port.\<close>

section \<open>Memory\<close>

text \<open>
  C33: memory round trip. A store inside the memory succeeds, a load of the same range returns the bytes that were stored,
  across page boundaries and on pages not yet allocated, and no byte outside the range changes.
\<close>

theorem memory_roundtrip:
  assumes "mem_wf m" "length bytes < 2 ^ 64" "unat addr + length bytes < 2 ^ 64" "unat addr + length bytes \<le> unat (sz m)"
  shows "\<exists>m'. mem_store m addr bytes = (True, m') \<and> mem_wf m' \<and> fst (mem_load m' addr (length bytes)) = Some bytes \<and>
    (\<forall>a. \<not> unat (a - addr) < length bytes \<longrightarrow> mem_byte m' a = mem_byte m a)"
  by (rule mem_store_load [OF assms])

theorem memory_roundtrip_witness:
  "\<exists>m'. mem_store \<lparr> sz = 0x2000, sparse_memory_map = Map.empty \<rparr> 0xFFE [1, 2, 3, 4] = (True, m') \<and>
    fst (mem_load m' 0xFFE 4) = Some [1, 2, 3, 4]"
proof -
  have l: "length [1, 2, 3, 4 :: u8] = 4" by simp
  have "mem_wf \<lparr> sz = 0x2000, sparse_memory_map = Map.empty \<rparr>" by (simp add: mem_wf_def)
  from memory_roundtrip [OF this, of "[1, 2, 3, 4]" "0xFFE"] show ?thesis unfolding l by auto
qed

text \<open>
  Refused accesses. A load or store is refused exactly when its range wraps around the address space or leaves the
  memory, and then the memory is unchanged.
\<close>

lemma memory_refused:
  assumes "length bytes < 2 ^ 64"
  shows "(fst (mem_store m addr bytes) \<longleftrightarrow> unat addr + length bytes < 2 ^ 64 \<and> unat addr + length bytes \<le> unat (sz m)) \<and>
    (\<not> fst (mem_store m addr bytes) \<longrightarrow> mem_store m addr bytes = (False, m) \<and> mem_load m addr (length bytes) = (None, m))"
  using mem_in_range_iff [OF assms, of m addr] by (simp add: mem_store_def mem_load_def)

section \<open>The timer\<close>

text \<open>
  C34: the timer interrupt. After every store the core-local interruptor accepts, the timer bit of \<open>mip\<close> of each hart says
  whether the time has reached the compare register of the hart, the harts see the device's time, and no bit of
  \<open>mip\<close> but the software and timer bits has changed.
\<close>

theorem clint_store_synced:
  assumes "clint_store wall addr bytes s = Some (True, s')"
  shows "timer_synced s' \<and> same_bits clint_frame (snd s) (snd s')"
  using clint_store_keeps [OF assms] by simp

definition small_hart :: hart_t where
  "small_hart = \<lparr> mip = 0, shadow_val = 0, sstc_enabled = False, stimecmp = 0, vstimecmp = 0, htimedelta = 0 \<rparr>"

definition small_clint :: clint_state where
  "small_clint = clint_new (\<lambda>_. (0, 0)) 10000000 False [0 \<mapsto> small_hart]"

theorem clint_store_synced_witness:
  "\<exists>s'. clint_store (\<lambda>_. (0, 0)) 0x4000 [16, 0, 0, 0, 0, 0, 0, 0] small_clint = Some (True, s') \<and> timer_synced s'"
proof -
  obtain c hs where s: "small_clint = (c, hs)" by (cases small_clint)
  have "hs 0 \<noteq> None" using s tick_dom [of _ 0 _ 0] by (auto simp: small_clint_def clint_new_def clint_tick_def Let_def)
  then obtain s' where "clint_store (\<lambda>_. (0, 0)) 0x4000 [16, 0, 0, 0, 0, 0, 0, 0] small_clint = Some (True, s')"
    using mtimecmp_roundtrip [of "0x4000" hs "[16, 0, 0, 0, 0, 0, 0, 0]" "\<lambda>_. (0, 0)" c "\<lambda>_. (0, 0)"] by (auto simp: s)
  with clint_store_synced [OF this] show ?thesis by blast
qed

section \<open>The interrupt controller\<close>

definition small_plic :: plic_state where
  "small_plic = (plic_new [(0, True)] 31, [0 \<mapsto> small_hart])"

lemma small_plic_inv: "plic_inv small_plic" "length (contexts (fst small_plic)) = 2"
proof -
  show "plic_inv small_plic"
    unfolding small_plic_def by (rule plic_new_inv) (simp_all add: harts_quiet_def small_hart_def)
  show "length (contexts (fst small_plic)) = 2" by (simp add: small_plic_def plic_new_def)
qed

text \<open>
  The machine context of a hart after the source 5 was enabled and given the priority 1, the threshold of the context set to 7, and the
  source raised.
\<close>

definition raised_plic :: plic_state where
  "raised_plic = set_interrupt_level 5 True (snd (plic_store 0x200000 [7, 0, 0, 0] (snd (plic_store 0x14 [1, 0, 0, 0]
     (snd (plic_store 0x2000 [0x20, 0, 0, 0] small_plic))))))"

lemma raised_plic_reached: "plic_step\<^sup>*\<^sup>* small_plic raised_plic"
  unfolding raised_plic_def by (meson plic_step.intros rtranclp.intros)

lemma enable_bits_quiet: "level p ! w = 0 \<Longrightarrow> fold (enable_bit p w v v) js c = c"
  by (induction js) (simp_all add: enable_bit_def Let_def)

lemma enable_quiet:
  assumes "level p ! 0 = 0" "enable (contexts p ! n) ! 0 = 0" "num_ids_word p \<noteq> 0" "v AND NOT 1 = v"
  shows "fst (context_enable_write n 0 v (p, hs)) = set_context n ((contexts p ! n)\<lparr>enable := (enable (contexts p ! n))[0 := v]\<rparr>) p"
  using assms enable_bits_quiet [of p 0 v] by (simp add: context_enable_write_def Let_def del: upt_rec_numeral)

lemma raised_words:
  "bytes_word 0x2000 [0x20, 0, 0, 0] = 0x20" "bytes_word 0x14 [1, 0, 0, 0] = 1" "bytes_word 0x200000 [7, 0, 0, 0] = 7"
  by (simp_all add: bytes_word_def write_little_endian_reg_def write_le_byte_def le_shift_def upt_conv_Cons)

lemma raised_plic_eq:
  "fst raised_plic = (plic_new [(0, True)] 31)\<lparr>priority := (replicate 1024 0)[5 := 1], level := (replicate 32 0)[0 := 0x20],
     contexts := [(plic_context_new 0 True)\<lparr>priority_threshold := 7, enable := (replicate 32 0)[0 := 0x20],
        pending := (replicate 32 0)[0 := 0x20], pending_priority := (replicate 1024 0)[5 := 1]\<rparr>, plic_context_new 0 False]\<rparr>"
proof -
  let ?c = "(plic_context_new 0 True)\<lparr>enable := (replicate 32 0)[0 := 0x20]\<rparr>"
  let ?p = "(plic_new [(0, True)] 31)\<lparr>contexts := [?c, plic_context_new 0 False]\<rparr>"
  have "fst (snd (plic_store 0x2000 [0x20, 0, 0, 0] small_plic)) =
      fst (context_enable_write 0 0 0x20 (plic_new [(0, True)] 31, [0 \<mapsto> small_hart]))"
    by (simp add: plic_store_def plic_store4_def plic_store_word_def raised_words small_plic_def Let_def plic_new_def del: upt_rec_numeral)
  also have "\<dots> = ?p" by (subst enable_quiet) (simp_all add: set_context_def plic_new_def plic_context_new_def)
  finally obtain hs1 where s1: "snd (plic_store 0x2000 [0x20, 0, 0, 0] small_plic) = (?p, hs1)" by (metis prod.collapse)
  have s2: "snd (plic_store 0x14 [1, 0, 0, 0] (?p, hs1)) = (?p\<lparr>priority := (replicate 1024 0)[5 := 1]\<rparr>, hs1)"
    by (simp add: plic_store_def plic_store4_def plic_store_word_def raised_words priority_write_def Let_def plic_new_def)
  obtain hs3 where s3: "snd (plic_store 0x200000 [7, 0, 0, 0] (?p\<lparr>priority := (replicate 1024 0)[5 := 1]\<rparr>, hs1)) =
      (?p\<lparr>priority := (replicate 1024 0)[5 := 1], contexts := [?c\<lparr>priority_threshold := 7\<rparr>, plic_context_new 0 False]\<rparr>, hs3)"
    by (simp add: plic_store_def plic_store4_def plic_store_word_def raised_words context_write_def set_context_def Let_def plic_new_def)
  have "id_mask 5 = 0x20" by (simp add: id_mask_def push_bit_eq_mult)
  then show ?thesis unfolding raised_plic_def s1 s2 s3
    by (simp add: set_interrupt_level_def Let_def plic_new_def plic_context_new_def set_context_level_def set_context_def
        upt_conv_Cons)
qed

lemma raised_ready: "ready (fst raised_plic) (contexts (fst raised_plic) ! 0) i \<longleftrightarrow> i = 5"
proof (cases "i < 32")
  case True
  have "(0x20 :: u32) = id_mask 5" by (simp add: id_mask_def push_bit_eq_mult)
  then have "bit (0x20 :: u32) i \<longleftrightarrow> i = 5" by (simp only: bit_id_mask) auto
  then show ?thesis using True by (simp add: raised_plic_eq ready_def plic_new_def plic_context_new_def)
qed (auto simp: raised_plic_eq ready_def plic_new_def plic_context_new_def)

lemma raised_plic_hart: "\<exists>h. snd raised_plic 0 = Some h"
proof -
  have dom: "same_bits K hs hs' \<Longrightarrow> dom hs' = dom hs" for K hs hs' by (simp add: same_bits_def)
  have "dom (snd (snd (plic_store addr [a, b, c, d] s))) = dom (snd s)" for addr a b c d s
    using dom [OF plic_store_word_frame] by (simp add: plic_store_def plic_store4_def)
  then have "dom (snd raised_plic) = dom (snd small_plic)" unfolding raised_plic_def dom [OF set_interrupt_level_frame] by simp
  then show ?thesis by (auto simp: small_plic_def dom_def set_eq_iff)
qed

lemma raised_plic_inv: "plic_inv raised_plic" "0 < length (contexts (fst raised_plic))"
proof -
  show "plic_inv raised_plic" by (rule plic_reach_inv [OF raised_plic_reached small_plic_inv(1)])
  show "0 < length (contexts (fst raised_plic))" by (simp add: raised_plic_eq)
qed

text \<open>
  C35: the source that a context is offered. \<open>context_best_pending\<close> returns a pending and unclaimed source whose priority
  is the highest, the lowest numbered one among equals, and 0 exactly when there is none.
\<close>

theorem best_pending_source:
  assumes "plic_inv (p, hs)" "n < length (contexts p)"
  shows "is_best p (contexts p ! n) (context_best_pending p (contexts p ! n))"
  using assms by (intro wf_best nth_ctx_wf) (simp_all add: plic_inv_def)

theorem best_pending_source_witness: "context_best_pending (fst raised_plic) (contexts (fst raised_plic) ! 0) = 5"
  using best_pending_source [of "fst raised_plic" "snd raised_plic" 0] raised_plic_inv raised_ready
  by (auto simp: is_best_def split: if_splits)

text \<open>
  C36: external interrupts are signalled faithfully. In every state that loads, stores and level changes reach from the
  initial one, the external interrupt bit of \<open>mip\<close> that belongs to a context is set exactly when some source is pending
  and unclaimed in it; pending sources are enabled and claimed ones pending. The priority threshold of the context takes no
  part in this, although the comment at \<open>plic.cc:64\<close> calls it the priority over which the hart takes an interrupt: the
  example below signals a source of priority 1 to a context of threshold 7.
\<close>

theorem external_interrupt_faithful:
  assumes "unat ndev < 1024" "distinct (map fst ids)" "harts_quiet ids hs" "plic_step\<^sup>*\<^sup>* (plic_new ids ndev, hs) (p', hs')"
    "n < length (contexts p')" "hs' (proc (contexts p' ! n)) = Some h"
  shows "(bit (mip h) (ctx_bit (contexts p' ! n)) \<longleftrightarrow> (\<exists>i. ready p' (contexts p' ! n) i)) \<and> ctx_wf (contexts p' ! n)"
proof -
  have inv: "plic_inv (p', hs')" using plic_reach_inv [OF assms(4) plic_new_inv [OF assms(1-3)]] .
  have "bit (mip h) (ctx_bit (contexts p' ! n)) \<longleftrightarrow> context_best_pending p' (contexts p' ! n) \<noteq> 0"
    using inv assms(5,6) nth_mem [OF assms(5)] unfolding plic_inv_def mip_ok_def by fastforce
  moreover have "ctx_wf (contexts p' ! n)" "is_best p' (contexts p' ! n) (context_best_pending p' (contexts p' ! n))"
    using inv assms(5) by (auto simp: plic_inv_def intro: wf_best nth_ctx_wf)
  ultimately show ?thesis by (auto simp: is_best_def split: if_splits)
qed

theorem external_interrupt_faithful_witness:
  "\<exists>h c. snd raised_plic 0 = Some h \<and> c = contexts (fst raised_plic) ! 0 \<and> bit (mip h) 11 \<and> ready (fst raised_plic) c 5 \<and>
     pending_priority c ! 5 < priority_threshold c"
proof -
  have ctx: "proc (contexts (fst raised_plic) ! 0) = 0" "mmode (contexts (fst raised_plic) ! 0)"
    "pending_priority (contexts (fst raised_plic) ! 0) ! 5 < priority_threshold (contexts (fst raised_plic) ! 0)"
    by (simp_all add: raised_plic_eq plic_context_new_def)
  have "harts_quiet [(0, True)] [0 \<mapsto> small_hart]" by (simp add: harts_quiet_def small_hart_def)
  note faithful = external_interrupt_faithful [of 31 "[(0, True)]" "[0 \<mapsto> small_hart]" "fst raised_plic" "snd raised_plic" 0, OF _ _ this]
  obtain h where h: "snd raised_plic 0 = Some h" using raised_plic_hart by blast
  then show ?thesis using faithful [of h] raised_plic_reached raised_plic_inv(2) ctx raised_ready by (simp add: small_plic_def)
qed

text \<open>
  C37: claim and completion. Claiming a source takes it away from the context (it is not offered again while claimed), and
  completing it right away restores the controller and the harts exactly.
\<close>

theorem claim_complete_roundtrip:
  assumes "plic_inv (p, hs)" "n < length (contexts p)" "context_claim n (p, hs) = (i, s')" "i \<noteq> 0"
  shows "context_write n 4 i s' = (True, (p, hs)) \<and> context_best_pending (fst s') (contexts (fst s') ! n) \<noteq> unat i"
  by (rule claim_then_complete [OF assms])

lemma raised_plic_claim: "fst (context_claim 0 raised_plic) = 5"
proof -
  have "is_best (fst raised_plic) (contexts (fst raised_plic) ! 0) 5" using raised_ready by (simp add: is_best_def)
  moreover have "is_best (fst raised_plic) (contexts (fst raised_plic) ! 0) (context_best_pending (fst raised_plic) (contexts (fst raised_plic) ! 0))"
    using raised_plic_inv by (intro wf_best nth_ctx_wf) (simp_all add: plic_inv_def case_prod_beta)
  ultimately show ?thesis using is_best_unique by (fastforce simp: context_claim_def case_prod_beta Let_def)
qed

theorem claim_complete_roundtrip_witness:
  "context_write 0 4 5 (snd (context_claim 0 raised_plic)) = (True, raised_plic)"
proof -
  obtain p hs where s: "raised_plic = (p, hs)" by (cases raised_plic)
  have "context_claim 0 (p, hs) = (5, snd (context_claim 0 raised_plic))"
    using raised_plic_claim by (metis prod.collapse s)
  from claim_complete_roundtrip [OF _ _ this] raised_plic_inv show ?thesis by (simp add: s)
qed

text \<open>
  A level change reaches one context only. Once a context has a source enabled, raising or lowering the source leaves
  every later context as it was, whether that context has the source enabled or pending or not.
\<close>

lemma level_change_first_context:
  assumes "k < n" "n < length (contexts p)" "bit (enable (contexts p ! k) ! (unat i div 32)) (unat i mod 32)"
  shows "contexts (fst (set_interrupt_level i lvl (p, hs))) ! n = contexts p ! n"
  by (rule level_reaches_first_only [OF assms])

text \<open>
  The threshold has no effect. Writing the priority threshold of a context never changes an interrupt bit of any hart,
  whatever the priorities of the pending sources.
\<close>

lemma threshold_ignored:
  assumes "plic_inv (p, hs)" "n < length (contexts p)"
  shows "snd (snd (context_write n 0 val (p, hs))) = hs"
  by (rule threshold_has_no_effect [OF assms])

section \<open>The serial port\<close>

text \<open>
  The serial port over the interrupt controller. Every load, store and tick of the port keeps the invariant of its
  queue (data-ready exactly when a byte is waiting, at most 64 bytes) and the invariant of the controller it drives.
\<close>

lemma uart_on_plic:
  assumes "uart_wf u" "plic_inv ctl"
  shows "uart_wf (fst (snd (uart_load set_interrupt_level addr len (u, ctl)))) \<and> plic_inv (snd (snd (uart_load set_interrupt_level addr len (u, ctl)))) \<and>
    uart_wf (fst (snd (uart_store set_interrupt_level addr len val (u, ctl)))) \<and> plic_inv (snd (snd (uart_store set_interrupt_level addr len val (u, ctl)))) \<and>
    uart_wf (fst (uart_tick set_interrupt_level rc (u, ctl))) \<and> plic_inv (snd (uart_tick set_interrupt_level rc (u, ctl)))"
  using uart_load_wf [of "(u, ctl)"] uart_store_wf [of "(u, ctl)"] uart_tick_wf [of "(u, ctl)"]
    plic.load_ctl [of "(u, ctl)"] plic.store_ctl [of "(u, ctl)"] plic.tick_ctl [of "(u, ctl)"] assms by simp

lemma uart_new_wf: "uart_wf (uart_new i sh w d)"
  by (simp add: uart_wf_def uart_new_def)

text \<open>
  C40: loopback is first in, first out. In loopback mode, with the divisor latch closed and bits 1 and 2 of the line
  control register clear, bytes sent while the queue has room are received in the order they were sent, after those that
  were waiting.
\<close>

theorem uart_loopback_fifo:
  assumes "loopback u" "length (rx_queue u) + length bs \<le> 64"
  shows "fst (uart_receive set_level (length (rx_queue u) + length bs) (uart_send set_level bs (u, ctl))) = map Some (rx_queue u @ bs)"
  by (rule loopback_fifo [OF assms])

theorem uart_loopback_fifo_witness:
  "fst (uart_receive set_interrupt_level 3 (uart_send set_interrupt_level [7, 8, 9] ((uart_new 1 0 1 0)\<lparr>mcr := 0x18\<rparr>, small_plic))) =
     [Some 7, Some 8, Some 9]"
proof -
  have "loopback ((uart_new 1 0 1 0)\<lparr>mcr := 0x18\<rparr>)" using uart_new_wf by (simp add: loopback_def) (simp add: uart_new_def)
  from uart_loopback_fifo [OF this, of "[7, 8, 9]" set_interrupt_level small_plic] show ?thesis by (simp add: uart_new_def numeral_3_eq_3)
qed

text \<open>
  The line control register doubles as the queue control. Writing the line control register drops all received bytes
  when bit 1 of the value is set, which is so for words of 7 and 8 bits, and the register never keeps bits 1 and 2; the
  clear request of the queue control register is without effect.
\<close>

lemma line_control_write:
  assumes "drop_bit (reg_shift u) addr AND 7 = 3"
  shows "rx_queue (fst (snd (uart_store set_level addr (reg_io_width u) val (u, ctl)))) = (if bit val 1 then [] else rx_queue u) \<and>
    lcr (fst (snd (uart_store set_level addr (reg_io_width u) val (u, ctl)))) = val AND NOT 6"
  by (rule line_control_clears_queue [OF assms])

end
