(* ===== verification/Pmp.thy ===== *)
theory Pmp
  imports Prelude
begin

text \<open>
  Physical memory protection: the registers \<open>pmpaddr\<close>, \<open>pmpcfg\<close> and \<open>mseccfg\<close> with their write rules
  (\<open>riscv-isa-sim/riscv/csrs.cc\<close>) and the check of an access (\<open>mmu_t::pmp_ok\<close>, \<open>mmu_t::pmp_homogeneous\<close> in \<open>mmu.cc\<close>).
  Every successful write flushes the translation cache, whose tags are part of the state.
\<close>

section \<open>Definitions\<close>

subsection \<open>The translation cache\<close>

text \<open>A tag of all ones is an empty entry. The data of an entry are the offsets to the host and the physical address.\<close>

record tlb_t =
  tlb_insn_tag :: "u64 list"
  tlb_load_tag :: "u64 list"
  tlb_store_tag :: "u64 list"
  tlb_data :: "(u64 \<times> u64) list"
  icache_tag :: "u64 list"

definition flush_icache :: "tlb_t \<Rightarrow> tlb_t" where
  "flush_icache t = t\<lparr>icache_tag := replicate 1024 (- 1)\<rparr>"

definition flush_tlb :: "tlb_t \<Rightarrow> tlb_t" where
  "flush_tlb t =
     flush_icache (t\<lparr>tlb_insn_tag := replicate 256 (- 1), tlb_load_tag := replicate 256 (- 1), tlb_store_tag := replicate 256 (- 1)\<rparr>)"

subsection \<open>Registers\<close>

text \<open>The index \<open>pmpidx\<close> of a register is its position in the array \<open>state->pmpaddr\<close>.\<close>

record pmpaddr_csr_t =
  pmp_val :: u64
  pmp_cfg :: u8

record pmp_t =
  pmpaddr :: "pmpaddr_csr_t list"
  mseccfg :: u64
  n_pmp :: nat
  lg_pmp_granularity :: nat
  pmp_xlen :: nat
  pmp_tlb :: tlb_t

abbreviation (input) PMP_R :: "'a::len word" where "PMP_R \<equiv> 0x01"
abbreviation (input) PMP_W :: "'a::len word" where "PMP_W \<equiv> 0x02"
abbreviation (input) PMP_X :: "'a::len word" where "PMP_X \<equiv> 0x04"
abbreviation (input) PMP_A :: "'a::len word" where "PMP_A \<equiv> 0x18"
abbreviation (input) PMP_L :: "'a::len word" where "PMP_L \<equiv> 0x80"
abbreviation (input) PMP_TOR :: "'a::len word" where "PMP_TOR \<equiv> 0x08"
abbreviation (input) PMP_NA4 :: "'a::len word" where "PMP_NA4 \<equiv> 0x10"
abbreviation (input) PMP_NAPOT :: "'a::len word" where "PMP_NAPOT \<equiv> 0x18"
abbreviation (input) MSECCFG_MML :: u64 where "MSECCFG_MML \<equiv> 1"
abbreviation (input) MSECCFG_MMWP :: u64 where "MSECCFG_MMWP \<equiv> 2"
abbreviation (input) MSECCFG_RLB :: u64 where "MSECCFG_RLB \<equiv> 4"
abbreviation (input) max_pmp :: nat where "max_pmp \<equiv> 64"
abbreviation (input) PRV_M :: u64 where "PRV_M \<equiv> 3"
abbreviation (input) PRV_S :: u64 where "PRV_S \<equiv> 1"

definition get_mml :: "pmp_t \<Rightarrow> bool" where "get_mml p \<longleftrightarrow> mseccfg p AND MSECCFG_MML \<noteq> 0"

definition get_mmwp :: "pmp_t \<Rightarrow> bool" where "get_mmwp p \<longleftrightarrow> mseccfg p AND MSECCFG_MMWP \<noteq> 0"

definition get_rlb :: "pmp_t \<Rightarrow> bool" where "get_rlb p \<longleftrightarrow> mseccfg p AND MSECCFG_RLB \<noteq> 0"

definition pmp_tor_mask :: "pmp_t \<Rightarrow> u64" where
  "pmp_tor_mask p = - push_bit (lg_pmp_granularity p - 2) 1"

definition pmp_mode :: "pmp_t \<Rightarrow> nat \<Rightarrow> u8" where
  "pmp_mode p i = pmp_cfg (pmpaddr p ! i) AND PMP_A"

definition is_locked :: "pmp_t \<Rightarrow> nat \<Rightarrow> bool" where
  "is_locked p i \<longleftrightarrow> pmp_cfg (pmpaddr p ! i) AND PMP_L \<noteq> 0"

definition tor_paddr :: "pmp_t \<Rightarrow> nat \<Rightarrow> u64" where
  "tor_paddr p i = push_bit 2 (pmp_val (pmpaddr p ! i) AND pmp_tor_mask p)"

definition tor_base_paddr :: "pmp_t \<Rightarrow> nat \<Rightarrow> u64" where
  "tor_base_paddr p i = (if i = 0 then 0 else tor_paddr p (i - 1))"

definition napot_mask :: "pmp_t \<Rightarrow> nat \<Rightarrow> u64" where
  "napot_mask p i =
     (let is_na4 = (pmp_mode p i = PMP_NA4);
          m = push_bit 1 (pmp_val (pmpaddr p ! i)) OR of_bool (\<not> is_na4) OR NOT (pmp_tor_mask p)
      in push_bit 2 (NOT (m AND NOT (m + 1))))"

definition match4 :: "pmp_t \<Rightarrow> nat \<Rightarrow> u64 \<Rightarrow> bool" where
  "match4 p i addr =
     (if pmp_mode p i = 0 then False
      else if pmp_mode p i = PMP_TOR then tor_base_paddr p i \<le> addr \<and> addr < tor_paddr p i
      else (addr XOR tor_paddr p i) AND napot_mask p i = 0)"

text \<open>An argument that is not an aligned power of two aborts the program: \<^const>\<open>None\<close>.\<close>

definition subset_match :: "pmp_t \<Rightarrow> nat \<Rightarrow> u64 \<Rightarrow> u64 \<Rightarrow> bool option" where
  "subset_match p i addr len =
     (if (addr OR len) AND (len - 1) \<noteq> 0 then None
      else
        let base = tor_base_paddr p i;
            tor = tor_paddr p i
        in if pmp_mode p i = 0 then Some False
           else
             let is_tor = (pmp_mode p i = PMP_TOR);
                 begins_after_lower = (base \<le> addr);
                 begins_after_upper = (tor \<le> addr);
                 ends_before_lower = (addr AND - len < base AND - len);
                 ends_before_upper = (addr AND - len < tor AND - len);
                 tor_homogeneous = (ends_before_lower \<or> begins_after_upper \<or> begins_after_lower \<and> ends_before_upper);
                 mask_homogeneous = (NOT (push_bit 1 (napot_mask p i)) AND len \<noteq> 0);
                 napot_homogeneous = (mask_homogeneous \<or> (addr XOR tor) div len \<noteq> 0)
             in Some (\<not> (if is_tor then tor_homogeneous else napot_homogeneous)))"

definition access_ok :: "pmp_t \<Rightarrow> nat \<Rightarrow> access_type \<Rightarrow> u64 \<Rightarrow> bool" where
  "access_ok p i type mode =
     (let c = pmp_cfg (pmpaddr p ! i);
          cfgx = (c AND PMP_X \<noteq> 0);
          cfgw = (c AND PMP_W \<noteq> 0);
          cfgr = (c AND PMP_R \<noteq> 0);
          cfgl = (c AND PMP_L \<noteq> 0);
          prvm = (mode = PRV_M);
          typer = (type = LOAD);
          typex = (type = FETCH);
          typew = (type = STORE);
          normal_rwx = (typer \<and> cfgr \<or> typew \<and> cfgw \<or> typex \<and> cfgx)
      in if get_mml p then
           if cfgx \<and> cfgw \<and> cfgr \<and> cfgl then typer
           else
             let mml_shared_region = (\<not> cfgr \<and> cfgw);
                 mml_chk_normal = (prvm = cfgl \<and> normal_rwx);
                 mml_chk_shared =
                   (\<not> cfgl \<and> cfgx \<and> (typer \<or> typew) \<or>
                    \<not> cfgl \<and> \<not> cfgx \<and> (typer \<or> typew \<and> prvm) \<or>
                    cfgl \<and> typex \<or>
                    cfgl \<and> typer \<and> cfgx \<and> prvm)
             in if mml_shared_region then mml_chk_shared else mml_chk_normal
         else (prvm \<and> \<not> cfgl) \<or> normal_rwx)"

subsection \<open>Register accesses\<close>

definition pmpaddr_read :: "pmp_t \<Rightarrow> nat \<Rightarrow> u64" where
  "pmpaddr_read p i =
     (if PMP_NAPOT \<le> pmp_mode p i
      then pmp_val (pmpaddr p ! i) OR drop_bit 1 (NOT (pmp_tor_mask p))
      else pmp_val (pmpaddr p ! i) AND pmp_tor_mask p)"

definition next_locked_and_tor :: "pmp_t \<Rightarrow> nat \<Rightarrow> bool" where
  "next_locked_and_tor p i =
     (if max_pmp \<le> i + 1 then False
      else let lock_bypass = get_rlb p;
               next_locked = (\<not> lock_bypass \<and> is_locked p (i + 1));
               next_tor = (pmp_mode p (i + 1) = PMP_TOR)
           in next_locked \<and> next_tor)"

definition pmpaddr_write :: "nat \<Rightarrow> u64 \<Rightarrow> pmp_t \<Rightarrow> bool \<times> pmp_t" where
  "pmpaddr_write i v p =
     (if n_pmp p = 0 then (False, p)
      else
        let lock_bypass = get_rlb p;
            locked = (\<not> lock_bypass \<and> is_locked p i)
        in if i < n_pmp p \<and> \<not> locked \<and> \<not> next_locked_and_tor p i
           then (True, p\<lparr>pmpaddr := (pmpaddr p)[i := (pmpaddr p ! i)\<lparr>pmp_val := v AND (push_bit 54 1 - 1)\<rparr>],
                         pmp_tlb := flush_tlb (pmp_tlb p)\<rparr>)
           else (False, p))"

definition pmpcfg_read :: "pmp_t \<Rightarrow> nat \<Rightarrow> u64" where
  "pmpcfg_read p n =
     (let i0 = n * 4
      in fold (\<lambda>i cfg_res. if i < max_pmp then cfg_res OR push_bit (8 * (i - i0)) (ucast (pmp_cfg (pmpaddr p ! i))) else cfg_res)
           [i0..<i0 + pmp_xlen p div 8] 0)"

text \<open>The configuration byte that is stored for a written byte.\<close>

definition pmpcfg_legalize :: "pmp_t \<Rightarrow> u8 \<Rightarrow> u8" where
  "pmpcfg_legalize p b =
     (let c = b AND (PMP_R OR PMP_W OR PMP_X OR PMP_A OR PMP_L);
          c = (if \<not> get_mml p then c AND (NOT PMP_W OR (if c AND PMP_R \<noteq> 0 then PMP_W else 0)) else c)
      in if lg_pmp_granularity p \<noteq> 2 \<and> c AND PMP_A = PMP_NA4 then c OR PMP_NAPOT else c)"

definition pmpcfg_allowed :: "pmp_t \<Rightarrow> u8 \<Rightarrow> bool" where
  "pmpcfg_allowed p c =
     (let cfgx = (c AND PMP_X \<noteq> 0);
          cfgw = (c AND PMP_W \<noteq> 0);
          cfgr = (c AND PMP_R \<noteq> 0)
      in get_rlb p \<or> \<not> (get_mml p \<and> c AND PMP_L \<noteq> 0 \<and> \<not> (cfgx \<and> cfgw \<and> cfgr) \<and> (cfgx \<or> cfgw \<and> \<not> cfgr)))"

definition pmpcfg_write_entry :: "nat \<Rightarrow> u8 \<Rightarrow> pmp_t \<Rightarrow> pmp_t" where
  "pmpcfg_write_entry i b p =
     (if get_rlb p \<or> \<not> is_locked p i then
        let c = pmpcfg_legalize p b
        in if pmpcfg_allowed p c then p\<lparr>pmpaddr := (pmpaddr p)[i := (pmpaddr p ! i)\<lparr>pmp_cfg := c\<rparr>]\<rparr> else p
      else p)"

definition pmpcfg_write :: "nat \<Rightarrow> u64 \<Rightarrow> pmp_t \<Rightarrow> bool \<times> pmp_t" where
  "pmpcfg_write n v p =
     (if n_pmp p = 0 then (False, p)
      else
        let i0 = n * 4;
            (write_success, p) =
              fold (\<lambda>i (write_success, p).
                  if i < n_pmp p then (True, pmpcfg_write_entry i (ucast (drop_bit (8 * (i - i0)) v)) p)
                  else (write_success, p))
                [i0..<i0 + pmp_xlen p div 8] (False, p)
        in (write_success, p\<lparr>pmp_tlb := flush_tlb (pmp_tlb p)\<rparr>))"

definition mseccfg_write :: "u64 \<Rightarrow> pmp_t \<Rightarrow> bool \<times> pmp_t" where
  "mseccfg_write v p =
     (if n_pmp p = 0 then (False, p)
      else
        let pmplock_recorded = list_ex (is_locked p) [0..<n_pmp p];
            new_val = mseccfg p;
            new_val = (if \<not> (pmplock_recorded \<and> mseccfg p AND MSECCFG_RLB = 0)
                       then (new_val AND NOT MSECCFG_RLB) OR (v AND MSECCFG_RLB) else new_val);
            new_val = new_val OR (v AND MSECCFG_MMWP);
            new_val = new_val OR (v AND MSECCFG_MML)
        in (True, p\<lparr>mseccfg := new_val, pmp_tlb := flush_tlb (pmp_tlb p)\<rparr>))"

subsection \<open>Configuration and reset\<close>

definition set_pmp_num :: "u64 \<Rightarrow> pmp_t \<Rightarrow> pmp_t option" where
  "set_pmp_num n p = (if of_nat max_pmp < n then None else Some (p\<lparr>n_pmp := unat n\<rparr>))"

text \<open>\<open>ctz\<close> of \<open>arith.h\<close>: a binary search for the lowest set bit.\<close>

definition ctz_step :: "nat \<Rightarrow> nat \<times> u64 \<Rightarrow> nat \<times> u64" where
  "ctz_step k = (\<lambda>(res, v). if push_bit (64 - k) v = 0 then (res + k, drop_bit k v) else (res, v))"

definition ctz :: "u64 \<Rightarrow> nat" where
  "ctz v = (if v = 0 then 0 else fst (fold ctz_step [32, 16, 8, 4, 2, 1] (0, v)))"

definition set_pmp_granularity :: "u64 \<Rightarrow> pmp_t \<Rightarrow> pmp_t option" where
  "set_pmp_granularity gran p =
     (if gran < 4 \<or> gran AND (gran - 1) \<noteq> 0 then None else Some (p\<lparr>lg_pmp_granularity := ctz gran\<rparr>))"

text \<open>The registers after \<open>state_t::reset\<close>, and the two writes of \<open>processor_t::reset\<close> (\<open>put_csr\<close> cuts a value to \<open>xlen\<close> bits).\<close>

definition pmp_state_reset :: "pmp_t \<Rightarrow> pmp_t" where
  "pmp_state_reset p = p\<lparr>pmpaddr := replicate max_pmp \<lparr>pmp_val = 0, pmp_cfg = 0\<rparr>, mseccfg := 0\<rparr>"

definition pmp_reset :: "pmp_t \<Rightarrow> pmp_t" where
  "pmp_reset p =
     (let p = pmp_state_reset p
      in if 0 < n_pmp p
         then snd (pmpcfg_write 0 (PMP_R OR PMP_W OR PMP_X OR PMP_NAPOT)
                (snd (pmpaddr_write 0 (take_bit (pmp_xlen p) (- 1)) p)))
         else p)"

subsection \<open>Checking an access\<close>

text \<open>The first bytes of the four-byte steps of an access.\<close>

definition sector_offsets :: "nat \<Rightarrow> nat list" where
  "sector_offsets len = map (\<lambda>k. 4 * k) [0..<(len + 3) div 4]"

definition sector_loop :: "pmp_t \<Rightarrow> nat \<Rightarrow> u64 \<Rightarrow> nat \<Rightarrow> bool \<times> bool" where
  "sector_loop p i addr len =
     fold (\<lambda>offset (any_match, all_match).
         let cur_addr = addr + of_nat offset;
             match = match4 p i cur_addr
         in (any_match \<or> match, all_match \<and> match))
       (sector_offsets len) (False, True)"

primrec pmp_ok_loop :: "pmp_t \<Rightarrow> u64 \<Rightarrow> nat \<Rightarrow> access_type \<Rightarrow> u64 \<Rightarrow> nat list \<Rightarrow> bool" where
  "pmp_ok_loop p addr len type mode [] =
     (mode = PRV_M \<and> \<not> get_mmwp p \<and> (\<not> get_mml p \<or> (type = LOAD \<or> type = STORE)))"
| "pmp_ok_loop p addr len type mode (i # is) =
     (let (any_match, all_match) = sector_loop p i addr len
      in if any_match then (if \<not> all_match then False else access_ok p i type mode)
         else pmp_ok_loop p addr len type mode is)"

definition pmp_ok :: "pmp_t \<Rightarrow> u64 \<Rightarrow> nat \<Rightarrow> access_type \<Rightarrow> u64 \<Rightarrow> bool" where
  "pmp_ok p addr len type mode =
     (if n_pmp p = 0 then True else pmp_ok_loop p addr len type mode [0..<n_pmp p])"

primrec pmp_homogeneous_loop :: "pmp_t \<Rightarrow> u64 \<Rightarrow> u64 \<Rightarrow> nat list \<Rightarrow> bool option" where
  "pmp_homogeneous_loop p addr len [] = Some True"
| "pmp_homogeneous_loop p addr len (i # is) =
     do { m \<leftarrow> subset_match p i addr len;
          if m then Some False else pmp_homogeneous_loop p addr len is }"

definition pmp_homogeneous :: "pmp_t \<Rightarrow> u64 \<Rightarrow> u64 \<Rightarrow> bool option" where
  "pmp_homogeneous p addr len =
     (if (addr OR len) AND (len - 1) \<noteq> 0 then None else pmp_homogeneous_loop p addr len [0..<n_pmp p])"

end
