(* ===== verification/Simif.thy ===== *)
theory Simif
  imports Prelude
begin

text \<open>
  The interface \<open>simif_t\<close> through which a memory management unit reaches the memory and the devices of the simulator
  (\<open>riscv-isa-sim/riscv/simif.h\<close>). The functions of an object of this class are the fields of a record. The code uses
  the pointer that \<open>addr_to_mem\<close> returns at once, to copy bytes of one page; the two steps are one field here, which gives
  \<open>Null_pointer\<close> where \<open>addr_to_mem\<close> does, and \<open>Outside_page\<close> where the copy would leave the page, which is undefined.
\<close>

datatype 'a host = Null_pointer | Outside_page | Host 'a

record 's simif_t =
  host_load :: "u64 \<Rightarrow> nat \<Rightarrow> 's \<Rightarrow> u8 list host \<times> 's"
  host_store :: "u64 \<Rightarrow> u8 list \<Rightarrow> 's \<Rightarrow> unit host \<times> 's"
  sim_mmio_load :: "u64 \<Rightarrow> nat \<Rightarrow> 's \<Rightarrow> u8 list option \<times> 's"
  sim_mmio_store :: "u64 \<Rightarrow> u8 list \<Rightarrow> 's \<Rightarrow> bool \<times> 's"

text \<open>
  What the memory management unit relies on. \<open>byte s a\<close> is the byte at the physical address \<open>a\<close> if that is memory.
  Memory comes in whole pages; reading does not change it, writing changes the bytes written, and accesses to
  devices leave it alone.
\<close>

locale simif =
  fixes I :: "'s simif_t" and sim_inv :: "'s \<Rightarrow> bool" and byte :: "'s \<Rightarrow> u64 \<Rightarrow> u8 option"
  assumes byte_page: "sim_inv s \<Longrightarrow> drop_bit 12 a = drop_bit 12 b \<Longrightarrow> byte s a = None \<longleftrightarrow> byte s b = None"
    and load_mem: "sim_inv s \<Longrightarrow> byte s a \<noteq> None \<Longrightarrow> unat a mod 4096 + n \<le> 4096 \<Longrightarrow>
      \<exists>s'. host_load I a n s = (Host (map (\<lambda>i. the (byte s (a + of_nat i))) [0..<n]), s') \<and> sim_inv s' \<and> byte s' = byte s"
    and load_null: "sim_inv s \<Longrightarrow> byte s a = None \<Longrightarrow> \<exists>s'. host_load I a n s = (Null_pointer, s') \<and> sim_inv s' \<and> byte s' = byte s"
    and store_mem: "sim_inv s \<Longrightarrow> byte s a \<noteq> None \<Longrightarrow> unat a mod 4096 + length bytes \<le> 4096 \<Longrightarrow>
      \<exists>s'. host_store I a bytes s = (Host (), s') \<and> sim_inv s' \<and>
        byte s' = (\<lambda>x. if unat (x - a) < length bytes then Some (bytes ! unat (x - a)) else byte s x)"
    and store_null: "sim_inv s \<Longrightarrow> byte s a = None \<Longrightarrow> \<exists>s'. host_store I a bytes s = (Null_pointer, s') \<and> sim_inv s' \<and> byte s' = byte s"
    and mmio_load_keeps: "sim_inv s \<Longrightarrow> byte s a = None \<Longrightarrow> unat a mod 4096 + n \<le> 4096 \<Longrightarrow> sim_mmio_load I a n s = (r, s') \<Longrightarrow> sim_inv s' \<and> byte s' = byte s"
    and mmio_store_keeps: "sim_inv s \<Longrightarrow> byte s a = None \<Longrightarrow> unat a mod 4096 + length bytes \<le> 4096 \<Longrightarrow> sim_mmio_store I a bytes s = (ok, s') \<Longrightarrow> sim_inv s' \<and> byte s' = byte s"

end
