(* ===== verification/Mmu.thy ===== *)
theory Mmu
  imports Pmp Simif
begin

text \<open>
  Address translation: \<open>mmu_t::translate\<close>, \<open>walk\<close> and \<open>s2xlate\<close> with the page-table accesses they make
  (\<open>riscv-isa-sim/riscv/mmu.cc\<close> and \<open>mmu.h\<close>), over an object of class \<open>simif_t\<close>. A function that may throw returns an error
  or a value beside the new state of the memory. The target is little-endian, as in a build without
  \<open>RISCV_ENABLE_DUAL_ENDIAN\<close>.
\<close>

section \<open>Definitions\<close>

subsection \<open>Traps\<close>

datatype trap_cause =
    Instruction_access_fault | Load_access_fault | Store_access_fault
  | Instruction_page_fault | Load_page_fault | Store_page_fault
  | Instruction_guest_page_fault | Load_guest_page_fault | Store_guest_page_fault
  | Load_address_misaligned | Store_address_misaligned

record mem_trap_t =
  which :: trap_cause
  gva :: bool
  tval :: u64
  tval2 :: u64
  tinst :: u64

datatype mmu_error = Trap mem_trap_t | Aborted | Undefined_behaviour

type_synonym ('s, 'a) mmu_m = "'s \<Rightarrow> (mmu_error + 'a) \<times> 's"

definition mreturn :: "'a \<Rightarrow> ('s, 'a) mmu_m" where
  "mreturn x s = (Inr x, s)"

definition mfail :: "mmu_error \<Rightarrow> ('s, 'a) mmu_m" where
  "mfail e s = (Inl e, s)"

definition mbind :: "('s, 'a) mmu_m \<Rightarrow> ('a \<Rightarrow> ('s, 'b) mmu_m) \<Rightarrow> ('s, 'b) mmu_m" where
  "mbind m f s = (case m s of (Inl e, s') \<Rightarrow> (Inl e, s') | (Inr x, s') \<Rightarrow> f x s')"

definition throw_trap :: "trap_cause \<Rightarrow> bool \<Rightarrow> u64 \<Rightarrow> u64 \<Rightarrow> u64 \<Rightarrow> ('s, 'a) mmu_m" where
  "throw_trap c g t t2 ti = mfail (Trap \<lparr>which = c, gva = g, tval = t, tval2 = t2, tinst = ti\<rparr>)"

definition throw_access_exception :: "bool \<Rightarrow> u64 \<Rightarrow> access_type \<Rightarrow> ('s, 'a) mmu_m" where
  "throw_access_exception virt addr type =
     throw_trap (case type of FETCH \<Rightarrow> Instruction_access_fault | LOAD \<Rightarrow> Load_access_fault | STORE \<Rightarrow> Store_access_fault) virt addr 0 0"

subsection \<open>State of the hart that translation reads\<close>

text \<open>\<open>satp->readvirt(virt)\<close> and \<open>sstatus->readvirt(virt)\<close> choose between the register and its virtualised copy.\<close>

record mmu_csrs =
  pmp :: pmp_t
  satp :: u64
  vsatp :: u64
  hgatp :: u64
  sstatus :: u64
  vsstatus :: u64
  menvcfg :: u64
  henvcfg :: u64
  const_xlen :: nat
  xlen :: nat
  ext_svnapot :: bool
  debug_mode :: bool
  prv :: u64
  virt_mode :: bool
  mstatus :: u64
  mnstatus :: "u64 option"
  hstatus :: u64

record xlate_flags_t =
  forced_virt :: bool
  hlvx :: bool
  lr :: bool

record mem_access_info_t =
  vaddr :: u64
  effective_priv :: u64
  effective_virt :: bool
  flags :: xlate_flags_t
  acc_type :: access_type

text \<open>A test of \<open>mnstatus\<close> passes where the hart has no such register.\<close>

definition in_mprv :: "mmu_csrs \<Rightarrow> bool" where
  "in_mprv c \<longleftrightarrow> \<not> (case mnstatus c of None \<Rightarrow> False | Some r \<Rightarrow> r AND 0x8 = 0) \<and> \<not> debug_mode c \<and> mstatus c AND 0x20000 \<noteq> 0"

definition generate_access_info :: "mmu_csrs \<Rightarrow> u64 \<Rightarrow> access_type \<Rightarrow> xlate_flags_t \<Rightarrow> mem_access_info_t" where
  "generate_access_info c addr type xlate_flags =
     (let virt = virt_mode c;
          mode = prv c;
          (virt, mode) =
            (if type \<noteq> FETCH \<and> in_mprv c then
               let mode = drop_bit 11 (mstatus c) AND 3
               in (if drop_bit 39 (mstatus c) AND 1 \<noteq> 0 \<and> mode \<noteq> PRV_M then True else virt, mode)
             else (virt, mode));
          (virt, mode) =
            (if type \<noteq> FETCH \<and> forced_virt xlate_flags then (True, drop_bit 8 (hstatus c) AND 1) else (virt, mode))
      in \<lparr>vaddr = addr, effective_priv = mode, effective_virt = virt, flags = xlate_flags, acc_type = type\<rparr>)"

definition is_special_access :: "xlate_flags_t \<Rightarrow> bool" where
  "is_special_access f \<longleftrightarrow> forced_virt f \<or> hlvx f \<or> lr f"

definition split_misaligned_access :: "mem_access_info_t \<Rightarrow> u64 \<Rightarrow> mem_access_info_t" where
  "split_misaligned_access info offset = info\<lparr>vaddr := vaddr info + offset\<rparr>"

abbreviation (input) MSTATUS_SUM :: u64 where "MSTATUS_SUM \<equiv> 0x00040000"
abbreviation (input) MSTATUS_MXR :: u64 where "MSTATUS_MXR \<equiv> 0x00080000"
abbreviation (input) ENVCFG_ADUE :: u64 where "ENVCFG_ADUE \<equiv> 0x2000000000000000"
abbreviation (input) ENVCFG_PBMTE :: u64 where "ENVCFG_PBMTE \<equiv> 0x4000000000000000"
abbreviation (input) PTE_V :: u64 where "PTE_V \<equiv> 0x001"
abbreviation (input) PTE_R :: u64 where "PTE_R \<equiv> 0x002"
abbreviation (input) PTE_W :: u64 where "PTE_W \<equiv> 0x004"
abbreviation (input) PTE_X :: u64 where "PTE_X \<equiv> 0x008"
abbreviation (input) PTE_U :: u64 where "PTE_U \<equiv> 0x010"
abbreviation (input) PTE_A :: u64 where "PTE_A \<equiv> 0x040"
abbreviation (input) PTE_D :: u64 where "PTE_D \<equiv> 0x080"
abbreviation (input) PTE_RSVD :: u64 where "PTE_RSVD \<equiv> 0x1FC0000000000000"
abbreviation (input) PTE_PBMT :: u64 where "PTE_PBMT \<equiv> 0x6000000000000000"
abbreviation (input) PTE_N :: u64 where "PTE_N \<equiv> 0x8000000000000000"
abbreviation (input) PTE_ATTR :: u64 where "PTE_ATTR \<equiv> 0xFFC0000000000000"

definition PTE_TABLE :: "u64 \<Rightarrow> bool" where
  "PTE_TABLE pte \<longleftrightarrow> pte AND (PTE_V OR PTE_R OR PTE_W OR PTE_X) = PTE_V"

definition pte_ppn :: "u64 \<Rightarrow> u64" where
  "pte_ppn pte = drop_bit 10 (pte AND NOT PTE_ATTR)"

subsection \<open>Translation modes\<close>

record vm_info =
  levels :: nat
  idxbits :: nat
  widenbits :: nat
  ptesize :: nat
  ptbase :: u64

definition no_vm :: vm_info where
  "no_vm = \<lparr>levels = 0, idxbits = 0, widenbits = 0, ptesize = 0, ptbase = 0\<rparr>"

text \<open>A mode that the source does not list aborts the program: \<^const>\<open>None\<close>.\<close>

definition decode_vm_info :: "nat \<Rightarrow> bool \<Rightarrow> u64 \<Rightarrow> u64 \<Rightarrow> vm_info option" where
  "decode_vm_info xl stage2 pr sa =
     (let mode32 = drop_bit 31 (sa AND 0x80000000);
          mode64 = drop_bit 60 sa;
          base32 = push_bit 12 (sa AND 0x003FFFFF);
          base64 = push_bit 12 (sa AND 0x00000FFFFFFFFFFF)
      in if pr = PRV_M then Some no_vm
         else if \<not> stage2 \<and> pr \<le> PRV_S \<and> xl = 32 then
           (if mode32 = 0 then Some no_vm
            else if mode32 = 1 then Some \<lparr>levels = 2, idxbits = 10, widenbits = 0, ptesize = 4, ptbase = base32\<rparr>
            else None)
         else if \<not> stage2 \<and> pr \<le> PRV_S \<and> xl = 64 then
           (if mode64 = 0 then Some no_vm
            else if mode64 = 8 then Some \<lparr>levels = 3, idxbits = 9, widenbits = 0, ptesize = 8, ptbase = base64\<rparr>
            else if mode64 = 9 then Some \<lparr>levels = 4, idxbits = 9, widenbits = 0, ptesize = 8, ptbase = base64\<rparr>
            else if mode64 = 10 then Some \<lparr>levels = 5, idxbits = 9, widenbits = 0, ptesize = 8, ptbase = base64\<rparr>
            else if mode64 = 11 then Some \<lparr>levels = 6, idxbits = 9, widenbits = 0, ptesize = 8, ptbase = base64\<rparr>
            else None)
         else if stage2 \<and> xl = 32 then
           (if mode32 = 0 then Some no_vm
            else if mode32 = 1 then Some \<lparr>levels = 2, idxbits = 10, widenbits = 2, ptesize = 4, ptbase = base32\<rparr>
            else None)
         else if stage2 \<and> xl = 64 then
           (if mode64 = 0 then Some no_vm
            else if mode64 = 8 then Some \<lparr>levels = 3, idxbits = 9, widenbits = 2, ptesize = 8, ptbase = base64\<rparr>
            else if mode64 = 9 then Some \<lparr>levels = 4, idxbits = 9, widenbits = 2, ptesize = 8, ptbase = base64\<rparr>
            else if mode64 = 10 then Some \<lparr>levels = 5, idxbits = 9, widenbits = 2, ptesize = 8, ptbase = base64\<rparr>
            else None)
         else None)"

subsection \<open>Access to devices and to page-table entries\<close>

text \<open>\<open>memcpy\<close> between a buffer and a little-endian number.\<close>

definition le_word :: "u8 list \<Rightarrow> u64" where
  "le_word bytes = foldr (\<lambda>b w. ucast b OR push_bit 8 w) bytes 0"

definition le_bytes :: "nat \<Rightarrow> u64 \<Rightarrow> u8 list" where
  "le_bytes n w = map (\<lambda>i. ucast (drop_bit (8 * i) w)) [0..<n]"

definition mmio_ok :: "mmu_csrs \<Rightarrow> u64 \<Rightarrow> bool" where
  "mmio_ok c paddr \<longleftrightarrow> \<not> (0 \<le> paddr \<and> paddr \<le> 0x1000 - 1 \<and> \<not> debug_mode c)"

definition mmio_aligned :: "u64 \<Rightarrow> nat \<Rightarrow> bool" where
  "mmio_aligned paddr len \<longleftrightarrow> (of_nat len AND (of_nat len - 1) :: u64) = 0 \<and> paddr AND (of_nat len - 1) = 0"

definition mmio_load_one :: "'s simif_t \<Rightarrow> mmu_csrs \<Rightarrow> u64 \<Rightarrow> nat \<Rightarrow> 's \<Rightarrow> u8 list option \<times> 's" where
  "mmio_load_one I c paddr len s = (if \<not> mmio_ok c paddr then (None, s) else sim_mmio_load I paddr len s)"

primrec mmio_load_bytes :: "'s simif_t \<Rightarrow> mmu_csrs \<Rightarrow> u64 \<Rightarrow> nat list \<Rightarrow> 's \<Rightarrow> u8 list option \<times> 's" where
  "mmio_load_bytes I c paddr [] s = (Some [], s)"
| "mmio_load_bytes I c paddr (i # is) s =
     (case mmio_load_one I c (paddr + of_nat i) 1 s of
        (None, s) \<Rightarrow> (None, s)
      | (Some b, s) \<Rightarrow> apfst (map_option (\<lambda>bs. b @ bs)) (mmio_load_bytes I c paddr is s))"

definition mmio_load :: "'s simif_t \<Rightarrow> mmu_csrs \<Rightarrow> u64 \<Rightarrow> nat \<Rightarrow> 's \<Rightarrow> u8 list option \<times> 's" where
  "mmio_load I c paddr len s =
     (if mmio_aligned paddr len then mmio_load_one I c paddr len s else mmio_load_bytes I c paddr [0..<len] s)"

definition mmio_store_one :: "'s simif_t \<Rightarrow> mmu_csrs \<Rightarrow> u64 \<Rightarrow> u8 list \<Rightarrow> 's \<Rightarrow> bool \<times> 's" where
  "mmio_store_one I c paddr bytes s = (if \<not> mmio_ok c paddr then (False, s) else sim_mmio_store I paddr bytes s)"

primrec mmio_store_bytes :: "'s simif_t \<Rightarrow> mmu_csrs \<Rightarrow> u64 \<Rightarrow> u8 list \<Rightarrow> nat list \<Rightarrow> 's \<Rightarrow> bool \<times> 's" where
  "mmio_store_bytes I c paddr bytes [] s = (True, s)"
| "mmio_store_bytes I c paddr bytes (i # is) s =
     (case mmio_store_one I c (paddr + of_nat i) [bytes ! i] s of
        (False, s) \<Rightarrow> (False, s)
      | (True, s) \<Rightarrow> mmio_store_bytes I c paddr bytes is s)"

definition mmio_store :: "'s simif_t \<Rightarrow> mmu_csrs \<Rightarrow> u64 \<Rightarrow> u8 list \<Rightarrow> 's \<Rightarrow> bool \<times> 's" where
  "mmio_store I c paddr bytes s =
     (if mmio_aligned paddr (length bytes) then mmio_store_one I c paddr bytes s
      else mmio_store_bytes I c paddr bytes [0..<length bytes] s)"

definition pte_load :: "'s simif_t \<Rightarrow> mmu_csrs \<Rightarrow> u64 \<Rightarrow> u64 \<Rightarrow> bool \<Rightarrow> access_type \<Rightarrow> nat \<Rightarrow> ('s, u64) mmu_m" where
  "pte_load I c pte_paddr addr virt trap_type n s =
     (if \<not> pmp_ok (pmp c) pte_paddr n LOAD PRV_S then throw_access_exception virt addr trap_type s
      else case host_load I pte_paddr n s of
             (Host bytes, s) \<Rightarrow> mreturn (le_word bytes) s
           | (Outside_page, s) \<Rightarrow> mfail Undefined_behaviour s
           | (Null_pointer, s) \<Rightarrow>
               (case mmio_load I c pte_paddr n s of
                  (Some bytes, s) \<Rightarrow> mreturn (le_word bytes) s
                | (None, s) \<Rightarrow> throw_access_exception virt addr trap_type s))"

definition pte_store :: "'s simif_t \<Rightarrow> mmu_csrs \<Rightarrow> u64 \<Rightarrow> u64 \<Rightarrow> u64 \<Rightarrow> bool \<Rightarrow> access_type \<Rightarrow> nat \<Rightarrow> ('s, unit) mmu_m" where
  "pte_store I c pte_paddr new_pte addr virt trap_type n s =
     (if \<not> pmp_ok (pmp c) pte_paddr n STORE PRV_S then throw_access_exception virt addr trap_type s
      else case host_store I pte_paddr (le_bytes n new_pte) s of
             (Host _, s) \<Rightarrow> mreturn () s
           | (Outside_page, s) \<Rightarrow> mfail Undefined_behaviour s
           | (Null_pointer, s) \<Rightarrow>
               (case mmio_store I c pte_paddr (le_bytes n new_pte) s of
                  (True, s) \<Rightarrow> mreturn () s
                | (False, s) \<Rightarrow> throw_access_exception virt addr trap_type s))"

subsection \<open>The decisions about an entry\<close>

text \<open>The chain of tests of one turn of the loops: leave the loop, go to the next table, or use the entry.\<close>

datatype pte_action = Pte_break | Pte_table | Pte_leaf

text \<open>The permission test that both stages make.\<close>

definition pte_denied :: "access_type \<Rightarrow> bool \<Rightarrow> bool \<Rightarrow> u64 \<Rightarrow> bool" where
  "pte_denied type hx mxr pte =
     (if type = FETCH \<or> hx then pte AND PTE_X = 0
      else if type = LOAD then pte AND PTE_R = 0 \<and> \<not> (mxr \<and> pte AND PTE_X \<noteq> 0)
      else \<not> (pte AND PTE_R \<noteq> 0 \<and> pte AND PTE_W \<noteq> 0))"

definition s2_check :: "bool \<Rightarrow> bool \<Rightarrow> bool \<Rightarrow> access_type \<Rightarrow> bool \<Rightarrow> nat \<Rightarrow> u64 \<Rightarrow> pte_action" where
  "s2_check svnapot pbmte mxr type hx ptshift pte =
     (if pte AND PTE_RSVD \<noteq> 0 then Pte_break
      else if \<not> svnapot \<and> pte AND PTE_N \<noteq> 0 then Pte_break
      else if \<not> pbmte \<and> pte AND PTE_PBMT \<noteq> 0 then Pte_break
      else if pte AND PTE_PBMT = PTE_PBMT then Pte_break
      else if PTE_TABLE pte then
        (if pte AND (PTE_D OR PTE_A OR PTE_U OR PTE_N OR PTE_PBMT) \<noteq> 0 then Pte_break else Pte_table)
      else if pte AND PTE_V = 0 \<or> pte AND PTE_R = 0 \<and> pte AND PTE_W \<noteq> 0 then Pte_break
      else if pte AND PTE_U = 0 then Pte_break
      else if pte_denied type hx mxr pte then Pte_break
      else if pte_ppn pte AND (push_bit ptshift 1 - 1) \<noteq> 0 then Pte_break
      else Pte_leaf)"

definition walk_check :: "bool \<Rightarrow> bool \<Rightarrow> bool \<Rightarrow> bool \<Rightarrow> bool \<Rightarrow> access_type \<Rightarrow> bool \<Rightarrow> nat \<Rightarrow> u64 \<Rightarrow> pte_action" where
  "walk_check svnapot pbmte s_mode sum_bit mxr type hx ptshift pte =
     (if pte AND PTE_RSVD \<noteq> 0 then Pte_break
      else if \<not> svnapot \<and> pte AND PTE_N \<noteq> 0 then Pte_break
      else if \<not> pbmte \<and> pte AND PTE_PBMT \<noteq> 0 then Pte_break
      else if pte AND PTE_PBMT = PTE_PBMT then Pte_break
      else if PTE_TABLE pte then
        (if pte AND (PTE_D OR PTE_A OR PTE_U OR PTE_N OR PTE_PBMT) \<noteq> 0 then Pte_break else Pte_table)
      else if (if pte AND PTE_U \<noteq> 0 then s_mode \<and> (type = FETCH \<or> \<not> sum_bit) else \<not> s_mode) then Pte_break
      else if pte AND PTE_V = 0 \<or> pte AND PTE_R = 0 \<and> pte AND PTE_W \<noteq> 0 then Pte_break
      else if pte_denied type hx mxr pte then Pte_break
      else if pte_ppn pte AND (push_bit ptshift 1 - 1) \<noteq> 0 then Pte_break
      else Pte_leaf)"

definition pte_ad :: "access_type \<Rightarrow> u64" where
  "pte_ad type = PTE_A OR (if type = STORE then PTE_D else 0)"

definition pte_napot_bits :: "u64 \<Rightarrow> nat" where
  "pte_napot_bits pte = (if pte AND PTE_N \<noteq> 0 then ctz (pte_ppn pte) + 1 else 0)"

definition pte_napot_bad :: "nat \<Rightarrow> u64 \<Rightarrow> bool" where
  "pte_napot_bad i pte \<longleftrightarrow>
     pte AND PTE_N \<noteq> 0 \<and> (pte_ppn pte = 0 \<or> i \<noteq> 0) \<or> pte_napot_bits pte \<noteq> 0 \<and> pte_napot_bits pte \<noteq> 4"

definition pte_page_base :: "nat \<Rightarrow> u64 \<Rightarrow> u64 \<Rightarrow> u64" where
  "pte_page_base ptshift pte addr =
     (let vpn = drop_bit 12 addr;
          napot = push_bit (pte_napot_bits pte) 1 - 1
      in push_bit 12 ((pte_ppn pte AND NOT napot) OR (vpn AND napot) OR (vpn AND (push_bit ptshift 1 - 1))))"

subsection \<open>The walks\<close>

definition s2_fault :: "access_type \<Rightarrow> u64 \<Rightarrow> u64 \<Rightarrow> u64 \<Rightarrow> ('s, 'a) mmu_m" where
  "s2_fault trap_type gv gpa ti =
     throw_trap (case trap_type of FETCH \<Rightarrow> Instruction_guest_page_fault | LOAD \<Rightarrow> Load_guest_page_fault | STORE \<Rightarrow> Store_guest_page_fault)
       True gv (drop_bit 2 gpa) ti"

primrec s2_loop :: "'s simif_t \<Rightarrow> mmu_csrs \<Rightarrow> vm_info \<Rightarrow> u64 \<Rightarrow> u64 \<Rightarrow> access_type \<Rightarrow> access_type \<Rightarrow> bool \<Rightarrow> bool \<Rightarrow> u64 \<Rightarrow> nat \<Rightarrow> u64 \<Rightarrow> ('s, u64) mmu_m" where
  "s2_loop I c vm gv gpa type trap_type hx mxr ti 0 base = s2_fault trap_type gv gpa ti"
| "s2_loop I c vm gv gpa type trap_type hx mxr ti (Suc i) base =
     (let ptshift = i * idxbits vm;
          ibits = (if i = levels vm - 1 then idxbits vm + widenbits vm else idxbits vm);
          idx = drop_bit (12 + ptshift) gpa AND (push_bit ibits 1 - 1);
          pte_paddr = base + idx * of_nat (ptesize vm)
      in mbind (pte_load I c pte_paddr gv True trap_type (ptesize vm)) (\<lambda>pte.
           let pbmte = (menvcfg c AND ENVCFG_PBMTE \<noteq> 0);
               hade = (menvcfg c AND ENVCFG_ADUE \<noteq> 0);
               ad = pte_ad type
           in case s2_check (ext_svnapot c) pbmte mxr type hx ptshift pte of
                Pte_break \<Rightarrow> s2_fault trap_type gv gpa ti
              | Pte_table \<Rightarrow> s2_loop I c vm gv gpa type trap_type hx mxr ti i (push_bit 12 (pte_ppn pte))
              | Pte_leaf \<Rightarrow>
                  if pte AND ad \<noteq> ad \<and> \<not> hade then s2_fault trap_type gv gpa ti
                  else mbind (if pte AND ad \<noteq> ad then pte_store I c pte_paddr (pte OR ad) gv True type (ptesize vm) else mreturn ())
                    (\<lambda>_. if pte_napot_bad i pte then s2_fault trap_type gv gpa ti
                         else mreturn (pte_page_base ptshift pte gpa OR (gpa AND (push_bit 12 1 - 1))))))"

definition s2xlate :: "'s simif_t \<Rightarrow> mmu_csrs \<Rightarrow> u64 \<Rightarrow> u64 \<Rightarrow> access_type \<Rightarrow> access_type \<Rightarrow> bool \<Rightarrow> bool \<Rightarrow> bool \<Rightarrow> ('s, u64) mmu_m" where
  "s2xlate I c gv gpa type trap_type virt hx is_for_vs_pt_addr =
     (if \<not> virt then mreturn gpa
      else case decode_vm_info (const_xlen c) True 0 (hgatp c) of
             None \<Rightarrow> mfail Aborted
           | Some vm \<Rightarrow>
               if levels vm = 0 then mreturn gpa
               else
                 let maxgpabits = levels vm * idxbits vm + widenbits vm + 12;
                     maxgpa = push_bit maxgpabits 1 - 1;
                     mxr = (sstatus c AND MSTATUS_MXR \<noteq> 0);
                     ti = (if is_for_vs_pt_addr then 0x2000 else 0)
                       OR (if const_xlen c = 64 \<and> is_for_vs_pt_addr then 0x1000 else 0)
                       OR (if type = STORE \<and> is_for_vs_pt_addr then 0x0020 else 0)
                 in if gpa AND NOT maxgpa = 0
                    then s2_loop I c vm gv gpa type trap_type hx mxr ti (levels vm) (ptbase vm)
                    else s2_fault trap_type gv gpa ti)"

definition walk_fault :: "access_type \<Rightarrow> bool \<Rightarrow> u64 \<Rightarrow> ('s, 'a) mmu_m" where
  "walk_fault type virt addr =
     throw_trap (case type of FETCH \<Rightarrow> Instruction_page_fault | LOAD \<Rightarrow> Load_page_fault | STORE \<Rightarrow> Store_page_fault) virt addr 0 0"

primrec walk_loop :: "'s simif_t \<Rightarrow> mmu_csrs \<Rightarrow> vm_info \<Rightarrow> mem_access_info_t \<Rightarrow> nat \<Rightarrow> u64 \<Rightarrow> ('s, u64) mmu_m" where
  "walk_loop I c vm info 0 base = walk_fault (acc_type info) (effective_virt info) (vaddr info)"
| "walk_loop I c vm info (Suc i) base =
     (let type = acc_type info;
          addr = vaddr info;
          virt = effective_virt info;
          s_mode = (effective_priv info = PRV_S);
          sum_bit = ((if virt then vsstatus c else sstatus c) AND MSTATUS_SUM \<noteq> 0);
          mxr = ((sstatus c OR (if virt then vsstatus c else sstatus c)) AND MSTATUS_MXR \<noteq> 0);
          ptshift = i * idxbits vm;
          idx = drop_bit (12 + ptshift) addr AND (push_bit (idxbits vm) 1 - 1);
          gpte = base + idx * of_nat (ptesize vm)
      in mbind (s2xlate I c addr gpte LOAD type virt False True) (\<lambda>pte_paddr.
         mbind (pte_load I c pte_paddr addr virt type (ptesize vm)) (\<lambda>pte.
           let pbmte = ((if virt then henvcfg c else menvcfg c) AND ENVCFG_PBMTE \<noteq> 0);
               hade = ((if virt then henvcfg c else menvcfg c) AND ENVCFG_ADUE \<noteq> 0);
               ad = pte_ad type
           in case walk_check (ext_svnapot c) pbmte s_mode sum_bit mxr type (hlvx (flags info)) ptshift pte of
                Pte_break \<Rightarrow> walk_fault type virt addr
              | Pte_table \<Rightarrow> walk_loop I c vm info i (push_bit 12 (pte_ppn pte))
              | Pte_leaf \<Rightarrow>
                  if pte AND ad \<noteq> ad \<and> \<not> hade then walk_fault type virt addr
                  else mbind (if pte AND ad \<noteq> ad
                              then mbind (s2xlate I c addr gpte STORE type virt False True) (\<lambda>_.
                                     pte_store I c pte_paddr (pte OR ad) addr virt type (ptesize vm))
                              else mreturn ())
                    (\<lambda>_. if pte_napot_bad i pte then walk_fault type virt addr
                         else
                           let phys = pte_page_base ptshift pte addr OR (addr AND (push_bit 12 1 - 1))
                           in mbind (s2xlate I c addr phys type type virt (hlvx (flags info)) False)
                                (\<lambda>r. mreturn (r AND NOT (push_bit 12 1 - 1)))))))"

text \<open>A shift by 64 or more is undefined; it occurs for the mode \<open>SATP_MODE_SV64\<close> only.\<close>

definition walk :: "'s simif_t \<Rightarrow> mmu_csrs \<Rightarrow> mem_access_info_t \<Rightarrow> ('s, u64) mmu_m" where
  "walk I c info =
     (let type = acc_type info;
          addr = vaddr info;
          virt = effective_virt info;
          page_mask = push_bit 12 1 - 1
      in case decode_vm_info (const_xlen c) False (effective_priv info) (if virt then vsatp c else satp c) of
           None \<Rightarrow> mfail Aborted
         | Some vm \<Rightarrow>
             if levels vm = 0 then
               mbind (s2xlate I c addr (addr AND (push_bit (xlen c - 1) 2 - 1)) type type virt (hlvx (flags info)) False)
                 (\<lambda>r. mreturn (r AND NOT page_mask))
             else
               let va_bits = 12 + levels vm * idxbits vm
               in if 64 < va_bits then mfail Undefined_behaviour
                  else
                    let m = push_bit (xlen c - (va_bits - 1)) 1 - 1;
                        masked_msbs = drop_bit (va_bits - 1) addr AND m;
                        lv = (if masked_msbs \<noteq> 0 \<and> masked_msbs \<noteq> m then 0 else levels vm)
                    in walk_loop I c vm info lv (ptbase vm))"

definition mmu_translate :: "'s simif_t \<Rightarrow> mmu_csrs \<Rightarrow> mem_access_info_t \<Rightarrow> nat \<Rightarrow> ('s, u64) mmu_m" where
  "mmu_translate I c info len =
     mbind (walk I c info) (\<lambda>page.
       let paddr = page OR (vaddr info AND (push_bit 12 1 - 1))
       in if \<not> pmp_ok (pmp c) paddr len (acc_type info) (effective_priv info)
          then throw_access_exception (effective_virt info) (vaddr info) (acc_type info)
          else mreturn paddr)"

end
