(* ===== verification/Mmu_Access.thy ===== *)
theory Mmu_Access
  imports Mmu Cache_System
begin

text \<open>
  Loads and stores within one page (\<open>load_slow_path_intrapage\<close>, \<open>store_slow_path_intrapage\<close>) with the translation cache
  (\<open>refill_tlb\<close>) and the cache tracers. A pointer into the memory of the host is represented by the physical address
  that it stands for, so that both offsets of an entry of the translation cache are the same number.
\<close>

section \<open>Definitions\<close>

record mmu_t =
  load_reservation_address :: u64
  tracer :: cache_system
  check_triggers_fetch :: bool
  check_triggers_load :: bool
  check_triggers_store :: bool

abbreviation (input) TLB_CHECK_TRIGGERS :: u64 where "TLB_CHECK_TRIGGERS \<equiv> 0x8000000000000000"

text \<open>The translation cache of the hart, which the registers of the protection unit flush.\<close>

definition hart_tlb :: "mmu_csrs \<Rightarrow> tlb_t" where
  "hart_tlb c = pmp_tlb (pmp c)"

definition set_hart_tlb :: "tlb_t \<Rightarrow> mmu_csrs \<Rightarrow> mmu_csrs" where
  "set_hart_tlb t c = c\<lparr>pmp := (pmp c)\<lparr>pmp_tlb := t\<rparr>\<rparr>"

definition tlb_index :: "u64 \<Rightarrow> nat" where
  "tlb_index addr = unat (drop_bit 12 addr mod 256)"

text \<open>The entry of the other page that shares the index is dropped from all three tag arrays.\<close>

definition tlb_evict :: "nat \<Rightarrow> u64 \<Rightarrow> tlb_t \<Rightarrow> tlb_t" where
  "tlb_evict idx expected_tag t =
     (let drop = (\<lambda>tg. if tg ! idx AND NOT TLB_CHECK_TRIGGERS \<noteq> expected_tag then tg[idx := - 1] else tg)
      in t\<lparr>tlb_load_tag := drop (tlb_load_tag t), tlb_store_tag := drop (tlb_store_tag t), tlb_insn_tag := drop (tlb_insn_tag t)\<rparr>)"

definition tlb_set_tag :: "access_type \<Rightarrow> nat \<Rightarrow> u64 \<Rightarrow> tlb_t \<Rightarrow> tlb_t" where
  "tlb_set_tag type idx tag t =
     (case type of
        FETCH \<Rightarrow> t\<lparr>tlb_insn_tag := (tlb_insn_tag t)[idx := tag]\<rparr>
      | STORE \<Rightarrow> t\<lparr>tlb_store_tag := (tlb_store_tag t)[idx := tag]\<rparr>
      | LOAD \<Rightarrow> t\<lparr>tlb_load_tag := (tlb_load_tag t)[idx := tag]\<rparr>)"

definition refill_tlb :: "u64 \<Rightarrow> u64 \<Rightarrow> access_type \<Rightarrow> mmu_t \<Rightarrow> mmu_csrs \<Rightarrow> ((u64 \<times> u64) \<times> mmu_csrs) option" where
  "refill_tlb va paddr type m c =
     (let idx = tlb_index va;
          expected_tag = drop_bit 12 va;
          entry = (paddr - va, paddr - va)
      in if in_mprv c then Some (entry, c)
         else
           let t = tlb_evict idx expected_tag (hart_tlb c);
               tag = (if check_triggers_fetch m \<and> type = FETCH \<or> check_triggers_load m \<and> type = LOAD \<or> check_triggers_store m \<and> type = STORE
                      then expected_tag OR TLB_CHECK_TRIGGERS else expected_tag)
           in do { hom \<leftarrow> pmp_homogeneous (pmp c) (paddr AND NOT (4096 - 1)) 4096;
                   let t = (if hom then tlb_set_tag type idx tag t else t);
                   Some (entry, set_hart_tlb (t\<lparr>tlb_data := (tlb_data t)[idx := entry]\<rparr>) c) })"

definition tlb_hit :: "u64 list \<Rightarrow> u64 \<Rightarrow> bool" where
  "tlb_hit tg addr \<longleftrightarrow> drop_bit 12 addr = tg ! tlb_index addr AND NOT TLB_CHECK_TRIGGERS"

text \<open>\<open>simif_t::reservable\<close>.\<close>

definition reservable :: "'s simif_t \<Rightarrow> u64 \<Rightarrow> 's \<Rightarrow> bool \<times> 's" where
  "reservable I paddr s = (case host_load I paddr 0 s of (Null_pointer, s) \<Rightarrow> (False, s) | (_, s) \<Rightarrow> (True, s))"

type_synonym hart_mmu = "mmu_csrs \<times> mmu_t"

text \<open>What follows a copy from or to memory: the tracers see the access, or the translation is cached.\<close>

definition after_host_access :: "u64 \<Rightarrow> nat \<Rightarrow> mem_access_info_t \<Rightarrow> hart_mmu \<Rightarrow> hart_mmu option" where
  "after_host_access paddr len info = (\<lambda>(c, m).
     if tracer_interested (tracer m) (acc_type info)
     then map_option (\<lambda>t. (c, m\<lparr>tracer := t\<rparr>)) (tracer_trace (tracer m) paddr (of_nat len) (acc_type info))
     else if \<not> is_special_access (flags info)
     then map_option (\<lambda>(_, c). (c, m)) (refill_tlb (vaddr info) paddr (acc_type info) m c)
     else Some (c, m))"

definition load_slow_path_intrapage :: "'s simif_t \<Rightarrow> nat \<Rightarrow> mem_access_info_t \<Rightarrow> hart_mmu \<Rightarrow> ('s, u8 list \<times> hart_mmu) mmu_m" where
  "load_slow_path_intrapage I len info = (\<lambda>(c, m) s.
     let addr = vaddr info;
         load_fault = throw_trap Load_access_fault (effective_virt info) addr 0 0;
         reserve = (\<lambda>paddr (c, m). if lr (flags info) then (c, m\<lparr>load_reservation_address := paddr\<rparr>) else (c, m))
     in if \<not> is_special_access (flags info) \<and> tlb_hit (tlb_load_tag (hart_tlb c)) addr then
          (case host_load I (fst (tlb_data (hart_tlb c) ! tlb_index addr) + addr) len s of
             (Host bytes, s) \<Rightarrow> mreturn (bytes, (c, m)) s
           | (_, s) \<Rightarrow> mfail Undefined_behaviour s)
        else
          mbind (mmu_translate I c info len) (\<lambda>paddr s.
            case (if lr (flags info) then reservable I paddr s else (True, s)) of
              (False, s) \<Rightarrow> load_fault s
            | (True, s) \<Rightarrow>
                (case host_load I paddr len s of
                   (Host bytes, s) \<Rightarrow>
                     (case after_host_access paddr len info (c, m) of
                        None \<Rightarrow> mfail Undefined_behaviour s
                      | Some h \<Rightarrow> mreturn (bytes, reserve paddr h) s)
                 | (Outside_page, s) \<Rightarrow> mfail Undefined_behaviour s
                 | (Null_pointer, s) \<Rightarrow>
                     (case mmio_load I c paddr len s of
                        (Some bytes, s) \<Rightarrow> mreturn (bytes, reserve paddr (c, m)) s
                      | (None, s) \<Rightarrow> load_fault s))) s)"

definition store_slow_path_intrapage :: "'s simif_t \<Rightarrow> u8 list \<Rightarrow> mem_access_info_t \<Rightarrow> bool \<Rightarrow> hart_mmu \<Rightarrow> ('s, hart_mmu) mmu_m" where
  "store_slow_path_intrapage I bytes info actually_store = (\<lambda>(c, m) s.
     let addr = vaddr info;
         len = length bytes
     in if \<not> is_special_access (flags info) \<and> tlb_hit (tlb_store_tag (hart_tlb c)) addr then
          (if actually_store then
             (case host_store I (fst (tlb_data (hart_tlb c) ! tlb_index addr) + addr) bytes s of
                (Host _, s) \<Rightarrow> mreturn (c, m) s
              | (_, s) \<Rightarrow> mfail Undefined_behaviour s)
           else mreturn (c, m) s)
        else
          mbind (mmu_translate I c info len) (\<lambda>paddr s.
            if actually_store then
              (case host_store I paddr bytes s of
                 (Host _, s) \<Rightarrow>
                   (case after_host_access paddr len info (c, m) of
                      None \<Rightarrow> mfail Undefined_behaviour s
                    | Some h \<Rightarrow> mreturn h s)
               | (Outside_page, s) \<Rightarrow> mfail Undefined_behaviour s
               | (Null_pointer, s) \<Rightarrow>
                   (case mmio_store I c paddr bytes s of
                      (True, s) \<Rightarrow> mreturn (c, m) s
                    | (False, s) \<Rightarrow> throw_trap Store_access_fault (effective_virt info) addr 0 0 s))
            else mreturn (c, m) s) s)"

end
