(* ===== verification/Sim_Bus.thy ===== *)
theory Sim_Bus
  imports Simif Device_Memory
begin

text \<open>
  The simulator as the object behind \<open>simif_t\<close> (\<open>riscv-isa-sim/riscv/sim.cc\<close>): memories and devices on one bus. The
  devices other than memories are arguments, as they are virtual functions in the source.
\<close>

section \<open>Definitions\<close>

datatype 'd sim_device = Mem_device mem_t | Io_device 'd

type_synonym 'd bus = "(u64 \<times> 'd sim_device) list"

definition paddr_ok :: "u64 \<Rightarrow> bool" where
  "paddr_ok addr \<longleftrightarrow> drop_bit 56 addr = 0"

definition dev_load :: "('d \<Rightarrow> u64 \<Rightarrow> nat \<Rightarrow> u8 list option \<times> 'd) \<Rightarrow> 'd sim_device \<Rightarrow> u64 \<Rightarrow> nat \<Rightarrow> u8 list option \<times> 'd sim_device" where
  "dev_load io_load d addr len =
     (case d of Mem_device m \<Rightarrow> apsnd Mem_device (mem_load m addr len) | Io_device x \<Rightarrow> apsnd Io_device (io_load x addr len))"

definition dev_store :: "('d \<Rightarrow> u64 \<Rightarrow> u8 list \<Rightarrow> bool \<times> 'd) \<Rightarrow> 'd sim_device \<Rightarrow> u64 \<Rightarrow> u8 list \<Rightarrow> bool \<times> 'd sim_device" where
  "dev_store io_store d addr bytes =
     (case d of Mem_device m \<Rightarrow> apsnd Mem_device (mem_store m addr bytes) | Io_device x \<Rightarrow> apsnd Io_device (io_store x addr bytes))"

text \<open>\<open>addr_to_mem\<close>: the base and the memory that an address belongs to.\<close>

definition addr_to_mem :: "u64 \<Rightarrow> 'd bus \<Rightarrow> (u64 \<times> mem_t) option" where
  "addr_to_mem paddr devs =
     (if \<not> paddr_ok paddr then None
      else case bus_find_device paddr devs of
             Some (base, Mem_device m) \<Rightarrow> if paddr - base < sz m then Some (base, m) else None
           | _ \<Rightarrow> None)"

definition sim_host_load :: "u64 \<Rightarrow> nat \<Rightarrow> 'd bus \<Rightarrow> u8 list host \<times> 'd bus" where
  "sim_host_load paddr len devs =
     (case addr_to_mem paddr devs of
        None \<Rightarrow> (Null_pointer, devs)
      | Some (base, m) \<Rightarrow>
          let (page, m) = mem_contents m (paddr - base);
              off = page_offset (paddr - base);
              devs = bus_add_device base (Mem_device m) devs
          in if off + len \<le> 4096 then (Host (take len (drop off page)), devs) else (Outside_page, devs))"

definition sim_host_store :: "u64 \<Rightarrow> u8 list \<Rightarrow> 'd bus \<Rightarrow> unit host \<times> 'd bus" where
  "sim_host_store paddr bytes devs =
     (case addr_to_mem paddr devs of
        None \<Rightarrow> (Null_pointer, devs)
      | Some (base, m) \<Rightarrow>
          let (page, m) = mem_contents m (paddr - base);
              off = page_offset (paddr - base)
          in if off + length bytes \<le> 4096
             then (Host (), bus_add_device base (Mem_device (m\<lparr>sparse_memory_map :=
                      (sparse_memory_map m)(drop_bit 12 (paddr - base) \<mapsto> take off page @ bytes @ drop (off + length bytes) page)\<rparr>)) devs)
             else (Outside_page, bus_add_device base (Mem_device m) devs))"

definition sim_mmio_range :: "u64 \<Rightarrow> nat \<Rightarrow> bool" where
  "sim_mmio_range paddr len \<longleftrightarrow> \<not> (paddr + of_nat len < paddr \<or> \<not> paddr_ok (paddr + of_nat len - 1))"

definition sim_t_mmio_load :: "('d \<Rightarrow> u64 \<Rightarrow> nat \<Rightarrow> u8 list option \<times> 'd) \<Rightarrow> u64 \<Rightarrow> nat \<Rightarrow> 'd bus \<Rightarrow> u8 list option \<times> 'd bus" where
  "sim_t_mmio_load io_load paddr len devs =
     (if \<not> sim_mmio_range paddr len then (None, devs) else bus_load (dev_load io_load) devs paddr len)"

definition sim_t_mmio_store :: "('d \<Rightarrow> u64 \<Rightarrow> u8 list \<Rightarrow> bool \<times> 'd) \<Rightarrow> u64 \<Rightarrow> u8 list \<Rightarrow> 'd bus \<Rightarrow> bool \<times> 'd bus" where
  "sim_t_mmio_store io_store paddr bytes devs =
     (if \<not> sim_mmio_range paddr (length bytes) then (False, devs) else bus_store (dev_store io_store) devs paddr bytes)"

definition sim_t :: "('d \<Rightarrow> u64 \<Rightarrow> nat \<Rightarrow> u8 list option \<times> 'd) \<Rightarrow> ('d \<Rightarrow> u64 \<Rightarrow> u8 list \<Rightarrow> bool \<times> 'd) \<Rightarrow> 'd bus simif_t" where
  "sim_t io_load io_store =
     \<lparr>host_load = sim_host_load, host_store = sim_host_store,
      sim_mmio_load = sim_t_mmio_load io_load, sim_mmio_store = sim_t_mmio_store io_store\<rparr>"

section \<open>The bytes on the bus\<close>

definition bus_wf :: "'d bus \<Rightarrow> bool" where
  "bus_wf devs \<longleftrightarrow> sorted_wrt (<) (map fst devs) \<and>
     (\<forall>(base, d) \<in> set devs. unat base mod 4096 = 0 \<and> (\<forall>m. d = Mem_device m \<longrightarrow> mem_wf m \<and> unat (sz m) mod 4096 = 0))"

definition bus_byte :: "'d bus \<Rightarrow> u64 \<Rightarrow> u8 option" where
  "bus_byte devs a = (case addr_to_mem a devs of None \<Rightarrow> None | Some (base, m) \<Rightarrow> Some (mem_byte m (a - base)))"

lemma bus_find_in: "bus_find_device a devs = Some (b, d) \<Longrightarrow> (b, d) \<in> set devs \<and> b \<le> a"
  by (induction devs) (auto simp: not_less split: if_splits option.splits)

lemma bus_find_cong: "\<forall>e \<in> set devs. a < fst e \<longleftrightarrow> b < fst e \<Longrightarrow> bus_find_device a devs = bus_find_device b devs"
  by (induction devs) auto

lemma bus_find_replace:
  assumes "sorted_wrt (<) (map fst devs)" "base \<in> fst ` set devs"
  shows "bus_find_device a (bus_add_device base d devs) =
    map_option (\<lambda>(b, e). (b, if b = base then d else e)) (bus_find_device a devs)"
  using assms
proof (induction devs)
  case (Cons e es)
  show ?case
  proof (cases "base = fst e")
    case True
    have "b \<noteq> base" if "bus_find_device a es = Some (b, x)" for b x
      using bus_find_in [OF that] Cons.prems(1) True by auto
    then show ?thesis using True by (cases e) (auto split: option.split)
  next
    case False
    then have "fst e < base" using Cons.prems by auto
    then show ?thesis using Cons False by (cases e) (auto split: option.split)
  qed
qed simp

lemma set_bus_replace:
  assumes "sorted_wrt (<) (map fst devs)" "base \<in> fst ` set devs"
  shows "set (bus_add_device base d devs) \<subseteq> insert (base, d) (set devs)"
  using assms by (induction devs) auto

lemma addr_to_mem_iff:
  "addr_to_mem a devs = Some (base, m) \<longleftrightarrow> paddr_ok a \<and> bus_find_device a devs = Some (base, Mem_device m) \<and> a - base < sz m"
  by (auto simp: addr_to_mem_def split: option.splits sim_device.splits if_splits)

text \<open>Replacing a memory by one of the same size.\<close>

lemma bus_update:
  assumes wf: "bus_wf devs" and find: "addr_to_mem a devs = Some (base, m)" and m': "mem_wf m'" "sz m' = sz m"
  shows "bus_wf (bus_add_device base (Mem_device m') devs)"
    and "addr_to_mem x (bus_add_device base (Mem_device m') devs) = map_option (\<lambda>(b, e). (b, if b = base then m' else e)) (addr_to_mem x devs)"
proof -
  have sorted: "sorted_wrt (<) (map fst devs)" and dev: "bus_find_device a devs = Some (base, Mem_device m)"
    using wf find by (auto simp: bus_wf_def addr_to_mem_iff)
  have mem: "(base, Mem_device m) \<in> set devs" using bus_find_in [OF dev] by simp
  then have key: "base \<in> fst ` set devs" by force
  show "bus_wf (bus_add_device base (Mem_device m') devs)"
    unfolding bus_wf_def
  proof (intro conjI ballI)
    show "sorted_wrt (<) (map fst (bus_add_device base (Mem_device m') devs))" using bus_replace [OF sorted key] sorted by simp
    fix e assume "e \<in> set (bus_add_device base (Mem_device m') devs)"
    then have "e = (base, Mem_device m') \<or> e \<in> set devs" using set_bus_replace [OF sorted key, of "Mem_device m'"] by blast
    then show "case e of (base, d) \<Rightarrow> unat base mod 4096 = 0 \<and> (\<forall>m. d = Mem_device m \<longrightarrow> mem_wf m \<and> unat (sz m) mod 4096 = 0)"
      using wf [unfolded bus_wf_def, THEN conjunct2] mem m' by (elim disjE) (auto dest: bspec)
  qed
  have same: "e = Mem_device m" if "bus_find_device x devs = Some (base, e)" for e
    using bus_find_in [OF that] mem sorted by (metis eq_key_imp_eq_value strict_sorted_iff)
  show "addr_to_mem x (bus_add_device base (Mem_device m') devs) = map_option (\<lambda>(b, e). (b, if b = base then m' else e)) (addr_to_mem x devs)"
    unfolding addr_to_mem_def bus_find_replace [OF sorted key]
    using same m'(2) by (auto split: option.split sim_device.split)
qed

lemma addr_to_mem_unique:
  assumes "bus_wf devs" "addr_to_mem a devs = Some (base, m)" "addr_to_mem x devs = Some (base, m')"
  shows "m' = m"
proof -
  have "(base, Mem_device m) \<in> set devs" "(base, Mem_device m') \<in> set devs"
    using assms(2,3) bus_find_in by (fastforce simp: addr_to_mem_iff)+
  moreover have "distinct (map fst devs)" using assms(1) by (simp add: bus_wf_def strict_sorted_iff)
  ultimately show ?thesis using eq_key_imp_eq_value by fastforce
qed

lemma bus_byte_update:
  assumes "bus_wf devs" "addr_to_mem a devs = Some (base, m)" "mem_wf m'" "sz m' = sz m"
  shows "bus_byte (bus_add_device base (Mem_device m') devs) x =
    (case addr_to_mem x devs of None \<Rightarrow> None | Some (b, e) \<Rightarrow> Some (mem_byte (if b = base then m' else e) (x - b)))"
  unfolding bus_byte_def bus_update(2) [OF assms] by (auto split: option.split)

lemma page_less_iff:
  fixes a b :: nat
  assumes "b mod 4096 = 0"
  shows "a < b \<longleftrightarrow> a div 4096 < b div 4096"
proof -
  have "b = b div 4096 * 4096" using assms by (simp add: mod_eq_0_iff_dvd)
  then show ?thesis by (metis div_less_iff_less_mult zero_less_numeral)
qed

lemma unat_drop12: "drop_bit 12 a = drop_bit 12 b \<longleftrightarrow> unat a div 4096 = unat (b :: u64) div 4096"
proof -
  have "unat (drop_bit 12 w) = unat w div 4096" for w :: u64 using unat_drop_bit_eq [of 12 w] drop_bit_eq_div [of 12 "unat w"] by simp
  then show ?thesis by (metis word_unat_eq_iff)
qed

lemma page_paddr_ok:
  assumes "drop_bit 12 a = drop_bit 12 (b :: u64)"
  shows "paddr_ok a = paddr_ok b"
proof -
  have "drop_bit 56 a = drop_bit 56 b" using arg_cong [OF assms, of "drop_bit 44"] by simp
  then show ?thesis unfolding paddr_ok_def by simp
qed

text \<open>Addresses of one page belong to the same memory.\<close>

lemma addr_to_mem_page:
  assumes wf: "bus_wf devs" and page: "drop_bit 12 a = drop_bit 12 (b :: u64)"
  shows "addr_to_mem a devs = addr_to_mem b devs"
proof -
  have p: "unat a div 4096 = unat b div 4096" using page unat_drop12 by blast
  note ok = page_paddr_ok [OF page]
  have "a < fst e \<longleftrightarrow> b < fst e" if "e \<in> set devs" for e
  proof -
    have "unat (fst e) mod 4096 = 0" using wf that by (auto simp: bus_wf_def)
    then show ?thesis unfolding word_less_nat_alt by (simp only: page_less_iff p)
  qed
  then have find: "bus_find_device a devs = bus_find_device b devs" by (intro bus_find_cong) simp
  have "a - base < sz m \<longleftrightarrow> b - base < sz m" if "bus_find_device a devs = Some (base, Mem_device m)" for base m
  proof -
    have in_set: "(base, Mem_device m) \<in> set devs" "base \<le> a" "base \<le> b" using bus_find_in that find by metis+
    then have al: "unat base mod 4096 = 0" "unat (sz m) mod 4096 = 0" using wf by (auto simp: bus_wf_def)
    have "unat (a - base) div 4096 = unat a div 4096 - unat base div 4096" "unat (b - base) div 4096 = unat b div 4096 - unat base div 4096"
      using in_set(2,3) al(1) by (auto simp: unat_sub div_diff mod_eq_0_iff_dvd)
    then show ?thesis unfolding word_less_nat_alt page_less_iff [OF al(2)] using p by simp
  qed
  then show ?thesis unfolding addr_to_mem_def ok find by (auto split: option.split sim_device.split)
qed

lemma addr_to_mem_base:
  assumes "bus_wf devs" "addr_to_mem a devs = Some (base, m)"
  shows "unat base mod 4096 = 0" "mem_wf m" "page_offset (a - base) = page_offset a"
proof -
  have dev: "(base, Mem_device m) \<in> set devs" "base \<le> a"
    using assms(2) bus_find_in [of a devs base "Mem_device m"] by (auto simp: addr_to_mem_iff)
  then show "unat base mod 4096 = 0" and "mem_wf m" using assms(1) by (auto simp: bus_wf_def)
  have "unat (a - base) = unat a - unat base" "unat base \<le> unat a" using dev(2) by (simp_all add: unat_sub word_le_nat_alt)
  then show "page_offset (a - base) = page_offset a"
    using \<open>unat base mod 4096 = 0\<close> mod_add_self2 by (metis dvd_imp_mod_0 le_add_diff_inverse mod_0_imp_dvd mod_add_left_eq add_0)
qed

lemma bus_byte_page:
  assumes "bus_wf devs" "drop_bit 12 a = drop_bit 12 b" "addr_to_mem a devs = Some (base, m)"
  shows "bus_byte devs b = Some (mem_byte m (b - base))"
proof -
  have "addr_to_mem b devs = Some (base, m)" using addr_to_mem_page [OF assms(1,2)] assms(3) by metis
  then show ?thesis by (simp add: bus_byte_def)
qed

lemma in_page_of:
  fixes a :: u64
  assumes "page_offset a + n \<le> 4096" "i < n"
  shows "drop_bit 12 (a + of_nat i) = drop_bit 12 a"
  using assms by (intro in_page) simp

lemma sim_host_load_bytes:
  assumes wf: "bus_wf devs" and byte: "bus_byte devs a \<noteq> None" and page: "page_offset a + n \<le> 4096"
  shows "\<exists>devs'. sim_host_load a n devs = (Host (map (\<lambda>i. the (bus_byte devs (a + of_nat i))) [0..<n]), devs') \<and> bus_wf devs' \<and> bus_byte devs' = bus_byte devs"
proof -
  obtain base m where find: "addr_to_mem a devs = Some (base, m)" using byte by (auto simp: bus_byte_def split: option.splits)
  note base = addr_to_mem_base [OF wf find]
  obtain pg m' where cont: "mem_contents m (a - base) = (pg, m')" by fastforce
  note C = mem_contents_eq [OF base(2) cont]
  let ?devs = "bus_add_device base (Mem_device m') devs"
  note U = bus_update [OF wf find C(2,4)]
  have "bus_byte ?devs x = bus_byte devs x" for x
    using bus_byte_update [OF wf find C(2,4), of x] addr_to_mem_unique [OF wf find, of x] C(3)
    by (auto simp: bus_byte_def [of devs] split: option.split)
  then have "bus_byte ?devs = bus_byte devs" by (rule ext)
  moreover have "take n (drop (page_offset (a - base)) pg) = map (\<lambda>i. the (bus_byte devs (a + of_nat i))) [0..<n]"
  proof (rule nth_equalityI)
    show "length (take n (drop (page_offset (a - base)) pg)) = length (map (\<lambda>i. the (bus_byte devs (a + of_nat i))) [0..<n])"
      using C(1) page base(3) by simp
    fix i assume "i < length (take n (drop (page_offset (a - base)) pg))"
    then have i: "i < n" by simp
    have p: "i < 4096 - page_offset (a - base)" using i page base(3) by simp
    have "take n (drop (page_offset (a - base)) pg) ! i = pg ! page_offset ((a - base) + of_nat i)"
      using i C(1) p in_page(2) [OF p] by simp
    also have "\<dots> = mem_byte m ((a - base) + of_nat i)" by (rule C(6)) (rule in_page(1) [OF p])
    also have "(a - base) + of_nat i = (a + of_nat i) - base" by simp
    also have "mem_byte m (a + of_nat i - base) = the (bus_byte devs (a + of_nat i))"
      using bus_byte_page [OF wf _ find, of "a + of_nat i"] in_page_of [OF page i] by simp
    finally show "take n (drop (page_offset (a - base)) pg) ! i = map (\<lambda>i. the (bus_byte devs (a + of_nat i))) [0..<n] ! i"
      using i by simp
  qed
  ultimately show ?thesis using find cont U(1) page base(3) by (simp add: sim_host_load_def)
qed

lemma sim_host_store_bytes:
  assumes wf: "bus_wf devs" and byte: "bus_byte devs a \<noteq> None" and page: "page_offset a + length bytes \<le> 4096"
  shows "\<exists>devs'. sim_host_store a bytes devs = (Host (), devs') \<and> bus_wf devs' \<and>
    bus_byte devs' = (\<lambda>x. if unat (x - a) < length bytes then Some (bytes ! unat (x - a)) else bus_byte devs x)"
proof -
  obtain base m where find: "addr_to_mem a devs = Some (base, m)" using byte by (auto simp: bus_byte_def split: option.splits)
  note base = addr_to_mem_base [OF wf find]
  obtain pg m' where cont: "mem_contents m (a - base) = (pg, m')" by fastforce
  let ?off = "page_offset (a - base)"
  define m2 where "m2 = m'\<lparr>sparse_memory_map := (sparse_memory_map m')(drop_bit 12 (a - base) \<mapsto> take ?off pg @ bytes @ drop (?off + length bytes) pg)\<rparr>"
  have S: "mem_wf m2" "sz m2 = sz m" "mem_byte m2 y = (if unat (y - (a - base)) < length bytes then bytes ! unat (y - (a - base)) else mem_byte m y)" for y
    using page_store(1,2) [OF base(2) cont, where n = "length bytes" and bytes = bytes]
      page_store(3) [OF base(2) cont, where n = "length bytes" and bytes = bytes and a = y] page base(3) by (simp_all add: m2_def)
  note U = bus_update [OF wf find S(1,2)]
  have "bus_byte (bus_add_device base (Mem_device m2) devs) x =
      (if unat (x - a) < length bytes then Some (bytes ! unat (x - a)) else bus_byte devs x)" for x
  proof (cases "unat (x - a) < length bytes")
    case True
    then have "drop_bit 12 (a + of_nat (unat (x - a))) = drop_bit 12 a" by (rule in_page_of [OF page])
    then have "addr_to_mem x devs = Some (base, m)" using addr_to_mem_page [OF wf, of a x] find by simp
    then show ?thesis using True bus_byte_update [OF wf find S(1,2), of x] S(3) [of "x - base"] by simp
  next
    case False
    then show ?thesis
      using bus_byte_update [OF wf find S(1,2), of x] addr_to_mem_unique [OF wf find, of x] S(3) [of "x - base"]
      by (auto simp: bus_byte_def [of devs] split: option.split)
  qed
  moreover have "sim_host_store a bytes devs = (Host (), bus_add_device base (Mem_device m2) devs)"
    using find cont page base(3) by (simp add: sim_host_store_def m2_def Let_def)
  ultimately show ?thesis using U(1) by (simp add: fun_eq_iff)
qed

lemma bus_add_same: "sorted_wrt (<) (map fst devs) \<Longrightarrow> (base, d) \<in> set devs \<Longrightarrow> bus_add_device base d devs = devs"
proof (induction devs)
  case (Cons e es)
  then show ?case by (cases "base = fst e") auto
qed simp

text \<open>Replacing a device that is not a memory.\<close>

lemma bus_update_io:
  assumes wf: "bus_wf devs" and find: "bus_find_device a devs = Some (base, Io_device x)"
  shows "bus_wf (bus_add_device base (Io_device x') devs) \<and> bus_byte (bus_add_device base (Io_device x') devs) = bus_byte devs"
proof -
  have sorted: "sorted_wrt (<) (map fst devs)" using wf by (simp add: bus_wf_def)
  have dev: "(base, Io_device x) \<in> set devs" using bus_find_in [OF find] by simp
  then have key: "base \<in> fst ` set devs" by force
  have "bus_wf (bus_add_device base (Io_device x') devs)"
    using wf dev set_bus_replace [OF sorted key, of "Io_device x'"]
    unfolding bus_wf_def bus_replace [OF sorted key] by fastforce
  moreover have "e = Io_device x" if "bus_find_device y devs = Some (base, e)" for y e
    using bus_find_in [OF that] dev sorted by (metis eq_key_imp_eq_value strict_sorted_iff)
  then have "addr_to_mem y (bus_add_device base (Io_device x') devs) = addr_to_mem y devs" for y
    unfolding addr_to_mem_def bus_find_replace [OF sorted key] by (auto split: option.split sim_device.split)
  ultimately show ?thesis by (simp add: bus_byte_def fun_eq_iff)
qed

text \<open>An access that does not start in memory does not reach a memory.\<close>

lemma not_in_mem:
  assumes wf: "bus_wf devs" and io: "bus_byte devs a = None" and page: "page_offset a + n \<le> 4096" and range: "sim_mmio_range a n"
    and find: "bus_find_device a devs = Some (base, Mem_device m)"
  shows "n = 0 \<or> \<not> mem_in_range m (a - base) n"
proof (rule disjCI)
  assume "\<not> \<not> mem_in_range m (a - base) n"
  then have in_range: "mem_in_range m (a - base) n" by simp
  show "n = 0"
  proof (rule ccontr)
    assume n: "n \<noteq> 0"
    then have last: "a + of_nat n - 1 = a + of_nat (n - 1)" by simp
    have "paddr_ok (a + of_nat n - 1)" using range unfolding sim_mmio_range_def by blast
    moreover have "paddr_ok (a + of_nat (n - 1)) = paddr_ok a" using n by (intro page_paddr_ok in_page_of [OF page]) simp
    ultimately have "paddr_ok a" unfolding last by blast
    then have "sz m \<le> a - base" using io find by (auto simp: bus_byte_def addr_to_mem_def not_less split: if_splits)
    moreover have "n < 2 ^ 64" using page by simp
    ultimately show False using in_range n by (simp add: mem_in_range_iff word_le_nat_alt)
  qed
qed

lemma sim_mmio_load_keeps:
  assumes wf: "bus_wf devs" and io: "bus_byte devs a = None" and page: "page_offset a + n \<le> 4096"
    and load: "sim_t_mmio_load io_load a n devs = (r, devs')"
  shows "bus_wf devs' \<and> bus_byte devs' = bus_byte devs"
proof (cases "sim_mmio_range a n")
  case True
  show ?thesis
  proof (cases "bus_find_device a devs")
    case None
    then show ?thesis using load wf True by (simp add: sim_t_mmio_load_def bus_load_def)
  next
    case (Some e)
    obtain base d where e: "e = (base, d)" by (cases e)
    show ?thesis
    proof (cases d)
      case (Io_device x)
      then show ?thesis using load Some e True bus_update_io [OF wf, of a base x]
        by (cases "io_load x (a - base) n") (auto simp: sim_t_mmio_load_def bus_load_def dev_load_def)
    next
      case (Mem_device m)
      then have "mem_load m (a - base) n = (fst (mem_load m (a - base) n), m)"
        using not_in_mem [OF wf io page True] Some e by (auto simp: mem_load_def mem_load_loop.simps)
      then have "snd (dev_load io_load d (a - base) n) = d" using Mem_device by (simp add: dev_load_def) (metis snd_conv)
      moreover have "bus_add_device base d devs = devs"
        using wf bus_find_in [of a devs base d] Some e by (intro bus_add_same) (auto simp: bus_wf_def)
      ultimately show ?thesis using load Some e True wf by (auto simp: sim_t_mmio_load_def bus_load_def split: prod.splits)
    qed
  qed
qed (use load wf in \<open>simp add: sim_t_mmio_load_def\<close>)

lemma sim_mmio_store_keeps:
  assumes wf: "bus_wf devs" and io: "bus_byte devs a = None" and page: "page_offset a + length bytes \<le> 4096"
    and store: "sim_t_mmio_store io_store a bytes devs = (ok, devs')"
  shows "bus_wf devs' \<and> bus_byte devs' = bus_byte devs"
proof (cases "sim_mmio_range a (length bytes)")
  case True
  show ?thesis
  proof (cases "bus_find_device a devs")
    case None
    then show ?thesis using store wf True by (simp add: sim_t_mmio_store_def bus_store_def)
  next
    case (Some e)
    obtain base d where e: "e = (base, d)" by (cases e)
    show ?thesis
    proof (cases d)
      case (Io_device x)
      then show ?thesis using store Some e True bus_update_io [OF wf, of a base x]
        by (cases "io_store x (a - base) bytes") (auto simp: sim_t_mmio_store_def bus_store_def dev_store_def)
    next
      case (Mem_device m)
      then have "snd (mem_store m (a - base) bytes) = m"
        using not_in_mem [OF wf io page True] Some e by (auto simp: mem_store_def mem_store_loop.simps)
      then have "snd (dev_store io_store d (a - base) bytes) = d" using Mem_device by (simp add: dev_store_def)
      moreover have "bus_add_device base d devs = devs"
        using wf bus_find_in [of a devs base d] Some e by (intro bus_add_same) (auto simp: bus_wf_def)
      ultimately show ?thesis using store Some e True wf by (auto simp: sim_t_mmio_store_def bus_store_def split: prod.splits)
    qed
  qed
qed (use store wf in \<open>simp add: sim_t_mmio_store_def\<close>)

lemma sim_t_fields [simp]:
  "host_load (sim_t io_load io_store) = sim_host_load" "host_store (sim_t io_load io_store) = sim_host_store"
  "sim_mmio_load (sim_t io_load io_store) = sim_t_mmio_load io_load" "sim_mmio_store (sim_t io_load io_store) = sim_t_mmio_store io_store"
  by (simp_all add: sim_t_def)

lemma sim_host_null:
  assumes "bus_wf devs" "bus_byte devs a = None"
  shows "\<exists>devs'. sim_host_load a n devs = (Null_pointer, devs') \<and> bus_wf devs' \<and> bus_byte devs' = bus_byte devs"
    and "\<exists>devs'. sim_host_store a bytes devs = (Null_pointer, devs') \<and> bus_wf devs' \<and> bus_byte devs' = bus_byte devs"
  using assms by (auto simp: sim_host_load_def sim_host_store_def bus_byte_def split: option.splits)

lemma bus_byte_same_page:
  assumes "bus_wf devs" "drop_bit 12 a = drop_bit 12 b"
  shows "bus_byte devs a = None \<longleftrightarrow> bus_byte devs b = None"
  using addr_to_mem_page [OF assms] by (auto simp: bus_byte_def split: option.splits)

text \<open>The simulator keeps the contract.\<close>

interpretation sim: simif "sim_t io_load io_store" bus_wf bus_byte for io_load io_store
  by (unfold_locales, unfold sim_t_fields)
    (fact bus_byte_same_page sim_host_load_bytes sim_host_null sim_host_store_bytes sim_mmio_load_keeps sim_mmio_store_keeps)+

end
