(* ===== verification/Mmu_Spec.thy ===== *)
theory Mmu_Spec
  imports Mmu Sim_Bus
begin

text \<open>
  The translation of an address as a function of the bytes of the memory, and the proof that the walk computes it
  on every object that keeps the contract of \<open>simif_t\<close>. This covers the translation of one stage; in the second stage
  of a virtual machine the walk reads its tables through \<open>s2xlate\<close>.
\<close>

section \<open>Words in memory\<close>

definition mem_word :: "(u64 \<Rightarrow> u8 option) \<Rightarrow> u64 \<Rightarrow> nat \<Rightarrow> u64" where
  "mem_word b a n = le_word (map (\<lambda>i. the (b (a + of_nat i))) [0..<n])"

definition put_bytes :: "(u64 \<Rightarrow> u8 option) \<Rightarrow> u64 \<Rightarrow> u8 list \<Rightarrow> u64 \<Rightarrow> u8 option" where
  "put_bytes b a bytes = (\<lambda>x. if unat (x - a) < length bytes then Some (bytes ! unat (x - a)) else b x)"

lemma bit_le_word: "bit (le_word bytes) n \<longleftrightarrow> n < 64 \<and> n div 8 < length bytes \<and> bit (bytes ! (n div 8)) (n mod 8)"
proof (induction bytes arbitrary: n)
  case (Cons b bytes)
  have *: "le_word (b # bytes) = ucast b OR push_bit 8 (le_word bytes)" by (simp add: le_word_def)
  show ?case
  proof (cases "n < 8")
    case True
    then show ?thesis unfolding * by (simp add: bit_or_iff bit_push_bit_iff bit_ucast_iff)
  next
    case False
    then have "n div 8 = Suc ((n - 8) div 8)" "n mod 8 = (n - 8) mod 8" by (simp_all add: le_div_geq le_mod_geq)
    moreover have "\<not> bit b n" using False by (auto dest: bit_imp_le_length)
    ultimately show ?thesis using False unfolding * by (auto simp: bit_or_iff bit_push_bit_iff bit_ucast_iff Cons.IH)
  qed
qed (simp add: le_word_def)

lemma length_le_bytes [simp]: "length (le_bytes n w) = n"
  by (simp add: le_bytes_def)

lemma le_word_le_bytes: "n \<le> 8 \<Longrightarrow> le_word (le_bytes n w) = take_bit (8 * n) w"
proof (rule bit_word_eqI)
  fix k assume "n \<le> 8" "k < LENGTH(64)"
  moreover have "8 * (k div 8) + k mod 8 = k" by simp
  moreover have "k div 8 < n \<longleftrightarrow> k < 8 * n" by (simp add: div_less_iff_less_mult mult.commute)
  ultimately show "bit (le_word (le_bytes n w)) k = bit (take_bit (8 * n) w) k"
    by (auto simp: bit_le_word le_bytes_def bit_ucast_iff bit_drop_bit_eq bit_take_bit_iff)
qed

lemma offset_cancel: "i < 2 ^ 64 \<Longrightarrow> unat ((a + of_nat i) - a :: u64) = i"
  by (simp add: unat_word_of_nat_small)

lemma mem_word_put_same:
  assumes "n \<le> 8"
  shows "mem_word (put_bytes b a (le_bytes n w)) a n = take_bit (8 * n) w"
proof -
  have "map (\<lambda>i. the (put_bytes b a (le_bytes n w) (a + of_nat i))) [0..<n] = le_bytes n w"
    using assms by (intro nth_equalityI) (simp_all add: put_bytes_def unat_word_of_nat_small le_bytes_def)
  then show ?thesis using assms by (simp add: mem_word_def le_word_le_bytes)
qed

lemma aligned_offset:
  assumes "n dvd 4096" "n \<le> 8" "unat (x :: u64) mod n = 0" "j < n"
  shows "unat (x + of_nat j) mod n = j"
proof -
  have n64: "n dvd 2 ^ 64" using assms(1) dvd_trans [of n 4096 "2 ^ 64"] by simp
  have "unat (x + of_nat j) = (unat x + j) mod 2 ^ 64"
    using assms(2,4) by (simp add: unat_word_ariths unat_word_of_nat_small)
  then have "unat (x + of_nat j) mod n = (unat x + j) mod n" using n64 by (simp only: mod_mod_cancel)
  also have "\<dots> = j" using assms(3,4) by (metis add.left_neutral mod_add_left_eq mod_less)
  finally show ?thesis .
qed

text \<open>Aligned words at different addresses do not overlap.\<close>

lemma aligned_apart:
  assumes "n dvd 4096" "n \<le> 8" "unat a mod n = 0" "unat a' mod n = 0" "a \<noteq> a'" "i < n"
  shows "\<not> unat (a' + of_nat i - a :: u64) < n"
proof
  assume lt: "unat (a' + of_nat i - a) < n"
  define k where "k = unat (a' + of_nat i - a)"
  have eq: "a' + of_nat i = a + of_nat k" by (simp add: k_def)
  have "unat (a' + of_nat i) mod n = i" by (rule aligned_offset [OF assms(1,2,4,6)])
  moreover have "unat (a + of_nat k) mod n = k" by (rule aligned_offset [OF assms(1,2,3)]) (use lt k_def in simp)
  ultimately have "i = k" unfolding eq by simp
  then show False using eq assms(5) by simp
qed

lemma mem_word_put_other:
  assumes "n dvd 4096" "n \<le> 8" "unat a mod n = 0" "unat a' mod n = 0" "a \<noteq> a'"
  shows "mem_word (put_bytes b a (le_bytes n w)) a' n = mem_word b a' n"
proof -
  have "map (\<lambda>i. the (put_bytes b a (le_bytes n w) (a' + of_nat i))) [0..<n] = map (\<lambda>i. the (b (a' + of_nat i))) [0..<n]"
    using aligned_apart [OF assms] by (simp add: put_bytes_def)
  then show ?thesis unfolding mem_word_def by (simp only:)
qed

section \<open>The specification\<close>

text \<open>The slot of the entry of level \<open>i\<close> in the table at \<open>base\<close>.\<close>

definition pt_slot :: "vm_info \<Rightarrow> u64 \<Rightarrow> nat \<Rightarrow> u64 \<Rightarrow> u64" where
  "pt_slot vm addr i base =
     base + (drop_bit (12 + i * idxbits vm) addr AND (push_bit (idxbits vm) 1 - 1)) * of_nat (ptesize vm)"

definition pt_check :: "mmu_csrs \<Rightarrow> vm_info \<Rightarrow> mem_access_info_t \<Rightarrow> nat \<Rightarrow> u64 \<Rightarrow> pte_action" where
  "pt_check c vm info i pte =
     walk_check (ext_svnapot c) (menvcfg c AND ENVCFG_PBMTE \<noteq> 0) (effective_priv info = PRV_S) (sstatus c AND MSTATUS_SUM \<noteq> 0)
       (sstatus c AND MSTATUS_MXR \<noteq> 0) (acc_type info) (hlvx (flags info)) (i * idxbits vm) pte"

text \<open>
  Searching the tables: the level, the address and the contents of the entry that decides, or the reason why there is
  none: an entry that ends the search, one that protection hides, or one that a device would have to supply.
\<close>

datatype pt_result = Pt_found nat u64 u64 | Pt_broken | Pt_hidden | Pt_device

primrec pt_find :: "mmu_csrs \<Rightarrow> vm_info \<Rightarrow> mem_access_info_t \<Rightarrow> (u64 \<Rightarrow> u8 option) \<Rightarrow> nat \<Rightarrow> u64 \<Rightarrow> pt_result" where
  "pt_find c vm info b 0 base = Pt_broken"
| "pt_find c vm info b (Suc i) base =
     (let a = pt_slot vm (vaddr info) i base; pte = mem_word b a (ptesize vm)
      in if \<not> pmp_ok (pmp c) a (ptesize vm) LOAD PRV_S then Pt_hidden
         else if b a = None then Pt_device
         else case pt_check c vm info i pte of
                Pte_break \<Rightarrow> Pt_broken
              | Pte_table \<Rightarrow> pt_find c vm info b i (push_bit 12 (pte_ppn pte))
              | Pte_leaf \<Rightarrow> Pt_found i a pte)"

definition access_error :: "mem_access_info_t \<Rightarrow> mmu_error" where
  "access_error info = Trap \<lparr>which = (case acc_type info of FETCH \<Rightarrow> Instruction_access_fault | LOAD \<Rightarrow> Load_access_fault | STORE \<Rightarrow> Store_access_fault),
     gva = effective_virt info, tval = vaddr info, tval2 = 0, tinst = 0\<rparr>"

definition page_error :: "mem_access_info_t \<Rightarrow> mmu_error" where
  "page_error info = Trap \<lparr>which = (case acc_type info of FETCH \<Rightarrow> Instruction_page_fault | LOAD \<Rightarrow> Load_page_fault | STORE \<Rightarrow> Store_page_fault),
     gva = effective_virt info, tval = vaddr info, tval2 = 0, tinst = 0\<rparr>"

text \<open>
  The outcome of the search and the bytes of memory after it: the accessed bit and, for a store, the dirty bit of the
  entry are set, if the hart does this on its own.
\<close>

definition pt_outcome :: "mmu_csrs \<Rightarrow> vm_info \<Rightarrow> mem_access_info_t \<Rightarrow> (u64 \<Rightarrow> u8 option) \<Rightarrow> pt_result \<Rightarrow> (mmu_error + u64) \<times> (u64 \<Rightarrow> u8 option)" where
  "pt_outcome c vm info b r =
     (case r of
        Pt_found i a pte \<Rightarrow>
          (let ad = pte_ad (acc_type info); update = (pte AND ad \<noteq> ad)
           in if update \<and> menvcfg c AND ENVCFG_ADUE = 0 then (Inl (page_error info), b)
              else if update \<and> \<not> pmp_ok (pmp c) a (ptesize vm) STORE PRV_S then (Inl (access_error info), b)
              else
                let b' = (if update then put_bytes b a (le_bytes (ptesize vm) (pte OR ad)) else b)
                in if pte_napot_bad i pte then (Inl (page_error info), b')
                   else (Inr (pte_page_base (i * idxbits vm) pte (vaddr info)), b'))
      | Pt_broken \<Rightarrow> (Inl (page_error info), b)
      | Pt_hidden \<Rightarrow> (Inl (access_error info), b)
      | Pt_device \<Rightarrow> (Inl Undefined_behaviour, b))"

text \<open>The levels to search, none if the address is not the sign extension of its lower bits.\<close>

definition pt_levels :: "mmu_csrs \<Rightarrow> vm_info \<Rightarrow> u64 \<Rightarrow> nat" where
  "pt_levels c vm addr =
     (let va_bits = 12 + levels vm * idxbits vm;
          m = push_bit (xlen c - (va_bits - 1)) 1 - 1;
          masked_msbs = drop_bit (va_bits - 1) addr AND m
      in if masked_msbs \<noteq> 0 \<and> masked_msbs \<noteq> m then 0 else levels vm)"

definition stage1_vm :: "mmu_csrs \<Rightarrow> mem_access_info_t \<Rightarrow> vm_info option" where
  "stage1_vm c info = decode_vm_info (const_xlen c) False (effective_priv info) (satp c)"

definition pt_search :: "mmu_csrs \<Rightarrow> vm_info \<Rightarrow> mem_access_info_t \<Rightarrow> (u64 \<Rightarrow> u8 option) \<Rightarrow> pt_result" where
  "pt_search c vm info b = pt_find c vm info b (pt_levels c vm (vaddr info)) (ptbase vm)"

section \<open>Refinement\<close>

definition vm_wf :: "vm_info \<Rightarrow> bool" where
  "vm_wf vm \<longleftrightarrow> 2 ^ idxbits vm * ptesize vm = 4096 \<and> (ptesize vm = 4 \<or> ptesize vm = 8)"

lemma pt_slot_in_page:
  assumes "vm_wf vm" "unat base mod 4096 = 0"
  shows "unat (pt_slot vm addr i base) mod ptesize vm = 0"
    and "unat (pt_slot vm addr i base) mod 4096 + ptesize vm \<le> 4096"
proof -
  let ?n = "ptesize vm" and ?idx = "drop_bit (12 + i * idxbits vm) addr AND (push_bit (idxbits vm) 1 - 1)"
  have vm: "2 ^ idxbits vm * ?n = 4096" "?n = 4 \<or> ?n = 8" using assms(1) by (auto simp: vm_wf_def)
  then have "(2 :: nat) ^ idxbits vm < 2 ^ LENGTH(64)" by auto
  then have "unat ?idx < 2 ^ idxbits vm"
    using word_and_mask_less [of "2 ^ idxbits vm" "drop_bit (12 + i * idxbits vm) addr"] by (simp add: push_bit_eq_mult)
  then have "(unat ?idx + 1) * ?n \<le> 4096" unfolding vm(1) [symmetric] by (intro mult_le_mono1) simp
  then have le: "unat ?idx * ?n + ?n \<le> 4096" by simp
  have "?idx * of_nat ?n = of_nat (unat ?idx * ?n)" by simp
  then have slot: "pt_slot vm addr i base = base + of_nat (unat ?idx * ?n)" unfolding pt_slot_def by simp
  have "unat ?idx * ?n < 4096" using le vm(2) by auto
  then have page: "page_offset (pt_slot vm addr i base) = unat ?idx * ?n"
    unfolding slot using in_page(2) [of "unat ?idx * ?n" base] assms(2) by simp
  then show "unat (pt_slot vm addr i base) mod 4096 + ?n \<le> 4096" using le by simp
  have "unat (pt_slot vm addr i base) mod 4096 mod ?n = 0" unfolding page by simp
  moreover have "?n dvd 4096" using vm(2) by auto
  ultimately show "unat (pt_slot vm addr i base) mod ?n = 0" by (simp only: mod_mod_cancel)
qed

lemma push12_page: "unat (push_bit 12 w :: u64) mod 4096 = 0"
proof -
  have "take_bit 12 (push_bit 12 w) = 0" by (rule bit_word_eqI) (auto simp: bit_simps)
  then have "take_bit 12 (unat (push_bit 12 w)) = 0" by (metis unsigned_0 unsigned_take_bit_eq)
  then show ?thesis by (simp add: take_bit_eq_mod)
qed

lemma mbind_mreturn: "mbind (mreturn x) f = f x"
  by (simp add: mbind_def mreturn_def fun_eq_iff)

lemma mbind_cases: "m s = (Inr x, s') \<Longrightarrow> mbind m f s = f x s'" "m s = (Inl e, s') \<Longrightarrow> mbind m f s = (Inl e, s')"
  by (simp_all add: mbind_def)

lemma page_base_offset:
  "(pte_page_base sh p v OR (v AND (push_bit 12 1 - 1))) AND NOT (push_bit 12 1 - 1) = pte_page_base sh p v"
proof -
  have m: "push_bit 12 1 - 1 = (mask 12 :: u64)" by (simp only: push_bit_eq_mult mask_eq_exp_minus_1 mult_1)
  have "(push_bit 12 x OR (v AND mask 12)) AND NOT (mask 12) = push_bit 12 x" for x :: u64
    by (rule bit_word_eqI, unfold bit_and_iff bit_or_iff bit_not_iff bit_push_bit_iff bit_mask_iff) auto
  then show ?thesis unfolding pte_page_base_def Let_def m by blast
qed

lemma decode_vm_wf:
  assumes "decode_vm_info xl stage2 pr sa = Some vm" "levels vm \<noteq> 0"
  shows "vm_wf vm" "unat (ptbase vm) mod 4096 = 0"
  using assms by (auto simp: decode_vm_info_def Let_def no_vm_def vm_wf_def push12_page simp del: push_bit_and split: if_splits)

text \<open>One turn of the loop when the second stage is off.\<close>

lemma walk_loop_stage1:
  assumes "\<not> effective_virt info"
  shows "walk_loop I c vm info (Suc i) base =
    mbind (pte_load I c (pt_slot vm (vaddr info) i base) (vaddr info) False (acc_type info) (ptesize vm)) (\<lambda>pte.
      case pt_check c vm info i pte of
        Pte_break \<Rightarrow> walk_fault (acc_type info) False (vaddr info)
      | Pte_table \<Rightarrow> walk_loop I c vm info i (push_bit 12 (pte_ppn pte))
      | Pte_leaf \<Rightarrow>
          if pte AND pte_ad (acc_type info) \<noteq> pte_ad (acc_type info) \<and> menvcfg c AND ENVCFG_ADUE = 0
          then walk_fault (acc_type info) False (vaddr info)
          else mbind (if pte AND pte_ad (acc_type info) \<noteq> pte_ad (acc_type info)
                      then pte_store I c (pt_slot vm (vaddr info) i base) (pte OR pte_ad (acc_type info)) (vaddr info) False (acc_type info) (ptesize vm)
                      else mreturn ())
            (\<lambda>_. if pte_napot_bad i pte then walk_fault (acc_type info) False (vaddr info)
                 else mreturn (pte_page_base (i * idxbits vm) pte (vaddr info))))"
  using assms
  unfolding walk_loop.simps Let_def s2xlate_def pt_slot_def pt_check_def
  by (simp only: if_False if_True not_False_eq_True simp_thms mbind_mreturn page_base_offset or.idem)

context simif
begin

text \<open>Page-table entries are read from memory, and written to it.\<close>

lemma pte_load_refines:
  assumes "sim_inv s" "byte s a \<noteq> None" "unat a mod 4096 + n \<le> 4096" "pmp_ok (pmp c) a n LOAD PRV_S"
  shows "\<exists>s'. pte_load I c a addr virt type n s = (Inr (mem_word (byte s) a n), s') \<and> sim_inv s' \<and> byte s' = byte s"
  using load_mem [OF assms(1-3)] assms(4) by (auto simp: pte_load_def mreturn_def mem_word_def)

lemma pte_store_refines:
  assumes "sim_inv s" "byte s a \<noteq> None" "unat a mod 4096 + n \<le> 4096" "pmp_ok (pmp c) a n STORE PRV_S"
  shows "\<exists>s'. pte_store I c a w addr virt type n s = (Inr (), s') \<and> sim_inv s' \<and> byte s' = put_bytes (byte s) a (le_bytes n w)"
  using store_mem [OF assms(1,2), of "le_bytes n w"] assms(3,4) by (auto simp: pte_store_def mreturn_def put_bytes_def)

lemma walk_fault_outcome:
  "\<not> effective_virt info \<Longrightarrow> walk_fault (acc_type info) False (vaddr info) s = (Inl (page_error info), s)"
  by (simp add: walk_fault_def throw_trap_def mfail_def page_error_def)

lemma access_outcome:
  "\<not> effective_virt info \<Longrightarrow> throw_access_exception False (vaddr info) (acc_type info) s = (Inl (access_error info), s)"
  by (simp add: throw_access_exception_def throw_trap_def mfail_def access_error_def)

lemma walk_loop_refines:
  assumes "vm_wf vm" "\<not> effective_virt info" "sim_inv s" "unat base mod 4096 = 0" "pt_find c vm info (byte s) n base \<noteq> Pt_device"
  shows "\<exists>r s'. walk_loop I c vm info n base s = (r, s') \<and> sim_inv s' \<and>
    (r, byte s') = pt_outcome c vm info (byte s) (pt_find c vm info (byte s) n base)"
  using assms(3-5)
proof (induction n arbitrary: s base)
  case 0
  then show ?case using assms(2) by (simp add: walk_fault_outcome pt_outcome_def)
next
  case (Suc i)
  let ?a = "pt_slot vm (vaddr info) i base"
  let ?pte = "mem_word (byte s) ?a (ptesize vm)"
  note page = pt_slot_in_page(2) [OF assms(1) Suc.prems(2), of "vaddr info" i]
  show ?case
  proof (cases "pmp_ok (pmp c) ?a (ptesize vm) LOAD PRV_S")
    case False
    then have "pte_load I c ?a (vaddr info) False (acc_type info) (ptesize vm) s = (Inl (access_error info), s)"
      using assms(2) by (simp add: pte_load_def access_outcome)
    then show ?thesis unfolding walk_loop_stage1 [OF assms(2)]
      using False Suc.prems(1) by (simp add: mbind_cases Let_def pt_outcome_def)
  next
    case True
    then have mem: "byte s ?a \<noteq> None" using Suc.prems(3) by (auto simp: Let_def split: if_splits)
    obtain s1 where load: "pte_load I c ?a (vaddr info) False (acc_type info) (ptesize vm) s = (Inr ?pte, s1)"
      and s1: "sim_inv s1" "byte s1 = byte s"
      using pte_load_refines [OF Suc.prems(1) mem page True] by blast
    have bind: "mbind (pte_load I c ?a (vaddr info) False (acc_type info) (ptesize vm)) f s = f ?pte s1" for f :: "u64 \<Rightarrow> ('s, u64) mmu_m"
      by (simp add: mbind_def load)
    note walk = walk_loop_stage1 [OF assms(2), of I c vm i base, THEN fun_cong, of s, unfolded bind]
    show ?thesis
    proof (cases "pt_check c vm info i ?pte")
      case Pte_break
      then have broken: "pt_find c vm info (byte s) (Suc i) base = Pt_broken" using True mem by (auto simp: Let_def)
      show ?thesis unfolding walk broken
        using assms(2) s1 Pte_break by (simp add: walk_fault_outcome pt_outcome_def)
    next
      case Pte_table
      let ?b = "push_bit 12 (pte_ppn ?pte)"
      have "pt_find c vm info (byte s1) i ?b = pt_find c vm info (byte s) (Suc i) base"
        using s1 True mem Pte_table by (auto simp: Let_def)
      then show ?thesis unfolding walk
        using Suc.IH [OF s1(1) push12_page, of "pte_ppn ?pte"] Suc.prems(3) s1(2) Pte_table by simp
    next
      case Pte_leaf
      then have found: "pt_find c vm info (byte s) (Suc i) base = Pt_found i ?a ?pte" using True mem by (simp add: Let_def)
      let ?ad = "pte_ad (acc_type info)"
      let ?store = "pte_store I c ?a (?pte OR ?ad) (vaddr info) False (acc_type info) (ptesize vm)"
      have denied: "?store s1 = (Inl (access_error info), s1)" if "\<not> pmp_ok (pmp c) ?a (ptesize vm) STORE PRV_S"
        using assms(2) that by (simp add: pte_store_def access_outcome)
      have stored: "\<exists>s2. ?store s1 = (Inr (), s2) \<and> sim_inv s2 \<and> byte s2 = put_bytes (byte s) ?a (le_bytes (ptesize vm) (?pte OR ?ad))"
        if "pmp_ok (pmp c) ?a (ptesize vm) STORE PRV_S"
        using pte_store_refines [OF s1(1) _ page that] mem s1(2) by metis
      show ?thesis
      proof (cases "?pte AND ?ad = ?ad")
        case True
        then show ?thesis unfolding walk found
          using Pte_leaf s1 assms(2) by (simp add: pt_outcome_def Let_def mbind_mreturn walk_fault_outcome) (simp add: mreturn_def)
      next
        case False
        show ?thesis
        proof (cases "pmp_ok (pmp c) ?a (ptesize vm) STORE PRV_S")
          case pmp: True
          obtain s2 where "?store s1 = (Inr (), s2)" "sim_inv s2" "byte s2 = put_bytes (byte s) ?a (le_bytes (ptesize vm) (?pte OR ?ad))"
            using stored [OF pmp] by blast
          then show ?thesis unfolding walk found
            using Pte_leaf s1 assms(2) False pmp
            by (simp add: pt_outcome_def Let_def mbind_cases walk_fault_outcome) (simp add: mreturn_def)
        next
          case pmp: False
          then show ?thesis unfolding walk found
            using Pte_leaf s1 assms(2) False denied [OF pmp] by (simp add: pt_outcome_def Let_def mbind_cases walk_fault_outcome)
        qed
      qed
    qed
  qed
qed

text \<open>
  The walk of the first stage computes the specification, and leaves memory as specified. A search that needs a device
  is left out: the value a device gives is not a function of the memory.
\<close>

lemma walk_refines:
  assumes "\<not> effective_virt info" "sim_inv s" "stage1_vm c info = Some vm" "levels vm \<noteq> 0" "12 + levels vm * idxbits vm \<le> 64"
    "pt_search c vm info (byte s) \<noteq> Pt_device"
  shows "\<exists>r s'. walk I c info s = (r, s') \<and> sim_inv s' \<and> (r, byte s') = pt_outcome c vm info (byte s) (pt_search c vm info (byte s))"
proof -
  have vm: "vm_wf vm" "unat (ptbase vm) mod 4096 = 0" using decode_vm_wf [of _ False] assms(3,4) by (auto simp: stage1_vm_def)
  have "walk I c info = walk_loop I c vm info (pt_levels c vm (vaddr info)) (ptbase vm)"
    using assms(1,3-5) unfolding walk_def stage1_vm_def pt_levels_def Let_def by simp
  then show ?thesis using walk_loop_refines [OF vm(1) assms(1,2) vm(2), of c "pt_levels c vm (vaddr info)"] assms(6)
    by (simp add: pt_search_def)
qed

lemma walk_bare:
  assumes "\<not> effective_virt info" "stage1_vm c info = Some vm" "levels vm = 0"
  shows "walk I c info s = (Inr ((vaddr info AND (push_bit (xlen c - 1) 2 - 1)) AND NOT (push_bit 12 1 - 1)), s)"
  using assms unfolding walk_def stage1_vm_def s2xlate_def Let_def by (simp only: if_False if_True option.case not_False_eq_True simp_thms mbind_mreturn) (simp add: mreturn_def)

end

end
