(* ===== verification/Mmu_Facts.thy ===== *)
theory Mmu_Facts
  imports Mmu_Spec
begin

text \<open>
  What the specification of the translation gives: a second walk repeats the first, the entry that decides grants
  the access, and the result is a page of the physical address space.
\<close>

section \<open>Repeating a walk\<close>

text \<open>Setting the accessed and the dirty bit does not change what an entry says otherwise.\<close>

lemma or_ad_and: "pte_ad t AND m = 0 \<Longrightarrow> (pte OR pte_ad t) AND m = pte AND m"
  by (simp add: bit.conj_disj_distrib2)

lemma ad_masks:
  "pte_ad t AND PTE_RSVD = 0" "pte_ad t AND PTE_N = 0" "pte_ad t AND PTE_PBMT = 0" "pte_ad t AND (PTE_V OR PTE_R OR PTE_W OR PTE_X) = 0"
  "pte_ad t AND PTE_U = 0" "pte_ad t AND PTE_V = 0" "pte_ad t AND PTE_R = 0" "pte_ad t AND PTE_W = 0" "pte_ad t AND PTE_X = 0"
  by (cases t; simp add: pte_ad_def)+

lemma pte_ppn_or_ad: "pte_ppn (pte OR pte_ad t) = pte_ppn pte"
proof -
  have "drop_bit 10 (pte_ad t) = 0" by (cases t) (simp_all add: pte_ad_def)
  then have "drop_bit 10 ((pte OR pte_ad t) AND NOT PTE_ATTR) = drop_bit 10 (pte AND NOT PTE_ATTR)"
    by (simp only: drop_bit_and drop_bit_or bit.disj_zero_right)
  then show ?thesis by (simp only: pte_ppn_def)
qed

lemmas or_ad_simps = or_ad_and [OF ad_masks(1)] or_ad_and [OF ad_masks(2)] or_ad_and [OF ad_masks(3)] or_ad_and [OF ad_masks(4)]
  or_ad_and [OF ad_masks(5)] or_ad_and [OF ad_masks(6)] or_ad_and [OF ad_masks(7)] or_ad_and [OF ad_masks(8)] or_ad_and [OF ad_masks(9)]
  pte_ppn_or_ad

lemma pt_check_or_ad: "\<not> PTE_TABLE pte \<Longrightarrow> pt_check c vm info i (pte OR pte_ad t) = pt_check c vm info i pte"
  by (simp only: pt_check_def walk_check_def PTE_TABLE_def pte_denied_def or_ad_simps if_False simp_thms)

lemma leaf_not_table: "pt_check c vm info i pte = Pte_leaf \<Longrightarrow> \<not> PTE_TABLE pte"
  by (auto simp: pt_check_def walk_check_def split: if_splits)

lemma check_table: "pt_check c vm info i pte = Pte_table \<Longrightarrow> PTE_TABLE pte"
  by (auto simp: pt_check_def walk_check_def split: if_splits)

lemma napot_or_ad: "pte_napot_bad i (pte OR pte_ad t) = pte_napot_bad i pte" "pte_page_base sh (pte OR pte_ad t) a = pte_page_base sh pte a"
  unfolding pte_napot_bad_def pte_page_base_def pte_napot_bits_def or_ad_simps by simp_all

lemma ad_set: "(pte OR pte_ad t) AND pte_ad t = pte_ad t"
  by (rule bit_word_eqI) (auto simp: bit_simps)

lemma pt_found:
  assumes "vm_wf vm" "pt_find c vm info b n base = Pt_found i a pte" "unat base mod 4096 = 0"
  shows "pt_check c vm info i pte = Pte_leaf" "pte = mem_word b a (ptesize vm)" "b a \<noteq> None" "unat a mod ptesize vm = 0" "i < n"
proof -
  have "pt_check c vm info i pte = Pte_leaf \<and> pte = mem_word b a (ptesize vm) \<and> b a \<noteq> None \<and> unat a mod ptesize vm = 0 \<and> i < n"
    using assms(2,3)
    by (induction n arbitrary: base)
      (auto simp: Let_def push12_page pt_slot_in_page [OF assms(1)] less_SucI split: if_splits pte_action.splits)
  then show "pt_check c vm info i pte = Pte_leaf" "pte = mem_word b a (ptesize vm)" "b a \<noteq> None" "unat a mod ptesize vm = 0" "i < n"
    by blast+
qed

lemma mem_word_small: "n \<le> 8 \<Longrightarrow> take_bit (8 * n) (mem_word b a n) = mem_word b a n"
  unfolding mem_word_def by (rule bit_word_eqI) (auto simp: bit_take_bit_iff bit_le_word)

lemma pt_entry_written:
  assumes "vm_wf vm" "pte = mem_word b a (ptesize vm)"
  shows "mem_word (put_bytes b a (le_bytes (ptesize vm) (pte OR pte_ad t))) a (ptesize vm) = pte OR pte_ad t"
proof -
  have n: "ptesize vm \<le> 8" using assms(1) by (auto simp: vm_wf_def)
  have "take_bit (8 * ptesize vm) (pte_ad t) = pte_ad t" using assms(1) by (cases t) (auto simp: vm_wf_def pte_ad_def)
  then show ?thesis using mem_word_put_same [OF n] mem_word_small [OF n, of b a] assms(2) by (simp add: take_bit_or)
qed

text \<open>
  Setting these bits in an entry that is not a pointer to a table changes no search but in the contents it reports for this
  entry, whatever the address that is searched for.
\<close>

definition pt_marked :: "u64 \<Rightarrow> access_type \<Rightarrow> pt_result \<Rightarrow> pt_result" where
  "pt_marked a t r = (case r of Pt_found i x pte \<Rightarrow> Pt_found i x (if x = a then pte OR pte_ad t else pte) | _ \<Rightarrow> r)"

lemma pt_find_marked:
  assumes vm: "vm_wf vm" and a: "unat a mod ptesize vm = 0" "b a \<noteq> None" "\<not> PTE_TABLE (mem_word b a (ptesize vm))"
    and base: "unat base mod 4096 = 0"
  shows "pt_find c vm info (put_bytes b a (le_bytes (ptesize vm) (mem_word b a (ptesize vm) OR pte_ad t))) n base =
    pt_marked a t (pt_find c vm info b n base)"
proof -
  let ?n = "ptesize vm" and ?pte = "mem_word b a (ptesize vm)"
  let ?b = "put_bytes b a (le_bytes ?n (?pte OR pte_ad t))"
  have n: "?n dvd 4096" "?n \<le> 8" "0 < ?n" using vm by (auto simp: vm_wf_def)
  have same: "mem_word ?b a ?n = ?pte OR pte_ad t" by (rule pt_entry_written [OF vm refl])
  have at: "?b a \<noteq> None" using n by (simp add: put_bytes_def)
  have other: "mem_word ?b x ?n = mem_word b x ?n" "?b x = b x" if "x \<noteq> a" "unat x mod ?n = 0" for x
    using mem_word_put_other [OF n(1,2) a(1)] that aligned_apart [OF n(1,2) a(1) that(2), of 0] n(3) by (auto simp: put_bytes_def)
  show ?thesis using base
  proof (induction n arbitrary: base)
    case (Suc j)
    let ?x = "pt_slot vm (vaddr info) j base"
    show ?case
    proof (cases "?x = a")
      case True
      have "pt_check c vm info j ?pte \<noteq> Pte_table" using a(3) check_table by blast
      then show ?thesis using True same at a(2) pt_check_or_ad [OF a(3), of c vm info j t]
        by (auto simp: pt_marked_def Let_def split: pte_action.split)
    next
      case False
      note O = other [OF False pt_slot_in_page(1) [OF vm Suc.prems]]
      show ?thesis using Suc.IH [OF push12_page] False unfolding pt_find.simps Let_def O
        by (auto simp: pt_marked_def split: pte_action.split)
    qed
  qed (simp add: pt_marked_def)
qed

lemma pt_find_updated:
  assumes vm: "vm_wf vm" and found: "pt_find c vm info b n base = Pt_found i a pte" and base: "unat base mod 4096 = 0"
  shows "pt_find c vm info (put_bytes b a (le_bytes (ptesize vm) (pte OR pte_ad t))) n base = Pt_found i a (pte OR pte_ad t)"
proof -
  note F = pt_found [OF vm found base]
  show ?thesis using pt_find_marked [where b = b and a = a, OF vm F(4,3) _ base, of c info t n] leaf_not_table [OF F(1)] found F(2) by (simp add: pt_marked_def)
qed

lemma pt_repeat:
  assumes vm: "vm_wf vm" "unat (ptbase vm) mod 4096 = 0" and first: "pt_outcome c vm info b (pt_search c vm info b) = (Inr r, b')"
  shows "pt_outcome c vm info b' (pt_search c vm info b') = (Inr r, b')"
proof -
  obtain i a pte where found: "pt_search c vm info b = Pt_found i a pte"
    using first by (cases "pt_search c vm info b") (auto simp: pt_outcome_def)
  let ?ad = "pte_ad (acc_type info)"
  show ?thesis
  proof (cases "pte AND ?ad = ?ad")
    case True
    then have "b' = b" using first found by (auto simp: pt_outcome_def Let_def split: if_splits)
    then show ?thesis using first by simp
  next
    case False
    then have b': "b' = put_bytes b a (le_bytes (ptesize vm) (pte OR ?ad))" and r: "r = pte_page_base (i * idxbits vm) pte (vaddr info)"
      and nb: "\<not> pte_napot_bad i pte"
      using first found by (auto simp: pt_outcome_def Let_def split: if_splits)
    have "pt_search c vm info b' = Pt_found i a (pte OR ?ad)"
      using pt_find_updated [OF vm(1) found [unfolded pt_search_def] vm(2)] unfolding b' pt_search_def by blast
    then show ?thesis using r nb by (simp add: pt_outcome_def ad_set napot_or_ad Let_def)
  qed
qed

section \<open>The entry that decides\<close>

text \<open>The rights that an entry gives.\<close>

definition pte_grants :: "mmu_csrs \<Rightarrow> mem_access_info_t \<Rightarrow> u64 \<Rightarrow> bool" where
  "pte_grants c info pte \<longleftrightarrow>
     bit pte 0 \<and>
     (acc_type info = FETCH \<or> hlvx (flags info) \<longrightarrow> bit pte 3) \<and>
     (acc_type info = LOAD \<and> \<not> hlvx (flags info) \<longrightarrow> bit pte 1 \<or> bit (sstatus c) 19 \<and> bit pte 3) \<and>
     (acc_type info = STORE \<and> \<not> hlvx (flags info) \<longrightarrow> bit pte 1 \<and> bit pte 2) \<and>
     (effective_priv info = PRV_S \<longrightarrow> bit pte 4 \<longrightarrow> acc_type info \<noteq> FETCH \<and> bit (sstatus c) 18) \<and>
     (effective_priv info \<noteq> PRV_S \<longrightarrow> bit pte 4)"

lemma and_bit:
  "(w :: u64) AND 1 = 0 \<longleftrightarrow> \<not> bit w 0" "w AND 2 = 0 \<longleftrightarrow> \<not> bit w 1" "w AND 4 = 0 \<longleftrightarrow> \<not> bit w 2" "w AND 8 = 0 \<longleftrightarrow> \<not> bit w 3"
  "w AND 0x10 = 0 \<longleftrightarrow> \<not> bit w 4" "w AND 0x40000 = 0 \<longleftrightarrow> \<not> bit w 18" "w AND 0x80000 = 0 \<longleftrightarrow> \<not> bit w 19"
  using and_exp_eq_0_iff_not_bit [of w 0] and_exp_eq_0_iff_not_bit [of w 1] and_exp_eq_0_iff_not_bit [of w 2] and_exp_eq_0_iff_not_bit [of w 3]
    and_exp_eq_0_iff_not_bit [of w 4] and_exp_eq_0_iff_not_bit [of w 18] and_exp_eq_0_iff_not_bit [of w 19] by simp_all

lemma leaf_grants:
  assumes "pt_check c vm info i pte = Pte_leaf"
  shows "pte_grants c info pte"
proof -
  have 1: "\<not> (if pte AND PTE_U \<noteq> 0 then effective_priv info = PRV_S \<and> (acc_type info = FETCH \<or> \<not> sstatus c AND MSTATUS_SUM \<noteq> 0) else effective_priv info \<noteq> PRV_S)"
    and 2: "pte AND PTE_V \<noteq> 0" and 3: "\<not> pte_denied (acc_type info) (hlvx (flags info)) (sstatus c AND MSTATUS_MXR \<noteq> 0) pte"
    using assms unfolding pt_check_def walk_check_def by (auto split: if_splits)
  show ?thesis using 1 2 3 unfolding pte_grants_def pte_denied_def and_bit by (cases "acc_type info") (auto split: if_splits)
qed

text \<open>
  The entries that the tables hold for a virtual address, from the root on: the slot of the root that the topmost index field
  selects, and, below a valid entry without rights, the slot that the next index field selects in the page it points to.
\<close>

definition table_slot :: "vm_info \<Rightarrow> u64 \<Rightarrow> nat \<Rightarrow> u64 \<Rightarrow> u64" where
  "table_slot vm v i base = base + of_nat (unat v div 2 ^ (12 + i * idxbits vm) mod 2 ^ idxbits vm * ptesize vm)"

inductive pt_reaches :: "vm_info \<Rightarrow> (u64 \<Rightarrow> u8 option) \<Rightarrow> u64 \<Rightarrow> nat \<Rightarrow> u64 \<Rightarrow> bool" for vm b v where
  root: "levels vm = Suc i \<Longrightarrow> pt_reaches vm b v i (table_slot vm v i (ptbase vm))"
| below: "pt_reaches vm b v (Suc i) a \<Longrightarrow> pte = mem_word b a (ptesize vm) \<Longrightarrow> bit pte 0 \<Longrightarrow> \<not> bit pte 1 \<Longrightarrow> \<not> bit pte 2 \<Longrightarrow> \<not> bit pte 3 \<Longrightarrow>
    pt_reaches vm b v i (table_slot vm v i (of_nat (unat pte div 2 ^ 10 mod 2 ^ 44 * 4096)))"

lemma unat_field: "unat (take_bit n (drop_bit m w) :: u64) = unat w div 2 ^ m mod 2 ^ n"
proof -
  have "unat (take_bit n (drop_bit m w)) = take_bit n (drop_bit m (unat w))"
    by (rule bit_eqI) (auto simp: bit_unsigned_iff bit_take_bit_iff bit_drop_bit_eq dest: bit_imp_le_length)
  then show ?thesis by (simp only: take_bit_eq_mod drop_bit_eq_div)
qed

lemma field_of_nat: "take_bit n (drop_bit m w) = (of_nat (unat w div 2 ^ m mod 2 ^ n) :: u64)"
proof -
  have "of_nat (unat (take_bit n (drop_bit m w))) = take_bit n (drop_bit m w)" by simp
  then show ?thesis unfolding unat_field by (rule sym)
qed

lemma pt_slot_eq:
  assumes "vm_wf vm"
  shows "pt_slot vm v i base = table_slot vm v i base"
proof -
  have "push_bit (idxbits vm) 1 - 1 = (mask (idxbits vm) :: u64)" by (simp only: push_bit_eq_mult mask_eq_exp_minus_1 mult_1)
  then have "drop_bit (12 + i * idxbits vm) v AND (push_bit (idxbits vm) 1 - 1) = take_bit (idxbits vm) (drop_bit (12 + i * idxbits vm) v)"
    by (simp only: take_bit_eq_mask)
  also have "\<dots> = of_nat (unat v div 2 ^ (12 + i * idxbits vm) mod 2 ^ idxbits vm)"
    by (rule field_of_nat)
  finally show ?thesis unfolding pt_slot_def table_slot_def by (simp only: of_nat_mult)
qed

lemma next_table: "push_bit 12 (pte_ppn pte) = of_nat (unat pte div 2 ^ 10 mod 2 ^ 44 * 4096)"
proof -
  have attr: "PTE_ATTR = NOT (mask 54)" by (simp add: mask_eq_exp_minus_1)
  have "pte_ppn pte = take_bit 44 (drop_bit 10 pte)"
    unfolding pte_ppn_def attr by (rule bit_word_eqI) (auto simp: bit_drop_bit_eq bit_take_bit_iff bit_and_iff bit_mask_iff)
  then have "pte_ppn pte = of_nat (unat pte div 2 ^ 10 mod 2 ^ 44)" by (simp only: field_of_nat)
  then show ?thesis by (simp only: of_nat_mult push_bit_eq_mult) simp
qed

lemma table_bits:
  assumes "PTE_TABLE pte"
  shows "bit pte 0" "\<not> bit pte 1" "\<not> bit pte 2" "\<not> bit pte 3"
proof -
  have "bit (pte AND 0xF) n = bit (1 :: u64) n" for n using assms by (simp add: PTE_TABLE_def)
  from this [of 0] this [of 1] this [of 2] this [of 3] show "bit pte 0" "\<not> bit pte 1" "\<not> bit pte 2" "\<not> bit pte 3" by (simp_all add: bit_and_iff)
qed

lemma pt_find_reaches:
  assumes vm: "vm_wf vm" and found: "pt_find c vm info b n base = Pt_found i a pte"
    and start: "\<And>j. n = Suc j \<Longrightarrow> pt_reaches vm b (vaddr info) j (table_slot vm (vaddr info) j base)"
  shows "pt_reaches vm b (vaddr info) i a"
  using found start
proof (induction n arbitrary: base)
  case (Suc j)
  let ?a = "table_slot vm (vaddr info) j base"
  let ?pte = "mem_word b ?a (ptesize vm)"
  have here: "pt_reaches vm b (vaddr info) j ?a" by (rule Suc.prems(2)) simp
  consider "pt_check c vm info j ?pte = Pte_leaf" "i = j" "a = ?a"
    | "pt_check c vm info j ?pte = Pte_table" "pt_find c vm info b j (push_bit 12 (pte_ppn ?pte)) = Pt_found i a pte"
    using Suc.prems(1) by (auto simp: Let_def pt_slot_eq [OF vm] split: if_splits pte_action.splits)
  then show ?case
  proof cases
    case 2
    have "pt_reaches vm b (vaddr info) k (table_slot vm (vaddr info) k (push_bit 12 (pte_ppn ?pte)))" if "j = Suc k" for k
      unfolding next_table using here that table_bits [OF check_table [OF 2(1)]] by (intro pt_reaches.below [OF _ refl]) simp_all
    then show ?thesis by (rule Suc.IH [OF 2(2)])
  qed (use here in simp)
qed simp

lemma pt_search_reaches: "vm_wf vm \<Longrightarrow> pt_search c vm info b = Pt_found i a pte \<Longrightarrow> pt_reaches vm b (vaddr info) i a"
  unfolding pt_search_def by (erule pt_find_reaches) (auto simp: pt_levels_def Let_def intro: pt_reaches.root split: if_splits)

section \<open>The page that results\<close>

lemma pte_page_base_bounds:
  assumes "\<not> pte_napot_bad i pte" "sh \<le> 44"
  shows "drop_bit 56 (pte_page_base sh pte a) = 0" "take_bit 12 (pte_page_base sh pte a) = 0"
proof -
  have nap: "pte_napot_bits pte = 0 \<or> pte_napot_bits pte = 4" using assms(1) by (auto simp: pte_napot_bad_def)
  have msk: "push_bit k 1 - 1 = (mask k :: u64)" for k by (simp only: push_bit_eq_mult mask_eq_exp_minus_1 mult_1)
  have attr: "PTE_ATTR = NOT (mask 54)" by (simp add: mask_eq_exp_minus_1)
  have ppn: "bit (pte_ppn pte) n \<Longrightarrow> n < 44" for n
    unfolding pte_ppn_def attr by (auto simp: bit_drop_bit_eq bit_and_iff bit_mask_iff)
  have "bit (pte_page_base sh pte a) n \<Longrightarrow> 12 \<le> n \<and> n < 56" for n
    unfolding pte_page_base_def Let_def msk using nap ppn [of "n - 12"] assms(2)
    by (auto simp: bit_push_bit_iff bit_or_iff bit_and_iff bit_not_iff bit_mask_iff)
  then show "drop_bit 56 (pte_page_base sh pte a) = 0" "take_bit 12 (pte_page_base sh pte a) = 0"
    by (auto intro!: bit_word_eqI simp: bit_drop_bit_eq bit_take_bit_iff) (force)+
qed

text \<open>
  The address that an entry of level \<open>i\<close> maps a virtual address to: the low bits are those of the virtual address, up to the size of
  the page (of 64 kilobytes if bit 63 of the entry is set), the others are the page number of the entry.
\<close>

definition pte_maps :: "vm_info \<Rightarrow> nat \<Rightarrow> u64 \<Rightarrow> u64 \<Rightarrow> u64 \<Rightarrow> bool" where
  "pte_maps vm i pte v p \<longleftrightarrow>
     (let k = (if bit pte 63 then 16 else 12 + i * idxbits vm)
      in \<forall>n. bit p n \<longleftrightarrow> (if n < k then bit v n else n < 56 \<and> bit pte (n - 2)))"

lemma pte_ppn_bit: "bit (pte_ppn pte) n \<longleftrightarrow> n < 44 \<and> bit pte (n + 10)"
proof -
  have attr: "PTE_ATTR = NOT (mask 54)" by (simp add: mask_eq_exp_minus_1)
  show ?thesis unfolding pte_ppn_def attr by (auto simp: bit_drop_bit_eq bit_and_iff bit_mask_iff add.commute dest: bit_imp_le_length)
qed

lemma page_base_maps:
  assumes leaf: "pt_check c vm info i pte = Pte_leaf" and good: "\<not> pte_napot_bad i pte"
  shows "pte_maps vm i pte v (pte_page_base (i * idxbits vm) pte v OR (v AND mask 12))"
proof -
  have msk: "push_bit k 1 - 1 = (mask k :: u64)" for k by (simp only: push_bit_eq_mult mask_eq_exp_minus_1 mult_1)
  have nbit: "pte AND PTE_N \<noteq> 0 \<longleftrightarrow> bit pte 63" using and_exp_eq_0_iff_not_bit [of pte 63] by simp
  have "pte_ppn pte AND mask (i * idxbits vm) = 0"
    using leaf unfolding pt_check_def walk_check_def msk by (auto split: if_splits)
  then have low: "\<not> bit (pte_ppn pte) n" if "n < i * idxbits vm" "n < 64" for n
    using that bit_and_iff [of "pte_ppn pte" "mask (i * idxbits vm)" n] by (simp add: bit_mask_iff)
  have v: "bit v n \<Longrightarrow> n < 64" for n using bit_imp_le_length [of v n] by simp
  show ?thesis
  proof (cases "bit pte 63")
    case True
    then have i: "i = 0" "pte_napot_bits pte = 4" using good unfolding pte_napot_bad_def nbit pte_napot_bits_def by auto
    show ?thesis unfolding pte_maps_def pte_page_base_def Let_def msk i
      using True v
      by (auto simp: bit_or_iff bit_push_bit_iff bit_and_iff bit_not_iff bit_mask_iff bit_drop_bit_eq pte_ppn_bit)
  next
    case False
    then have z: "pte_napot_bits pte = 0" unfolding pte_napot_bits_def nbit by simp
    have low': "\<not> bit pte (n - 2)" if "n < 12 + i * idxbits vm" "12 \<le> n" "n - 12 < 44" for n
      using low [of "n - 12"] that by (auto simp: pte_ppn_bit)
    have v': "bit v n \<Longrightarrow> n - 12 < 64" for n using v by (meson diff_le_self le_less_trans)
    show ?thesis unfolding pte_maps_def pte_page_base_def Let_def msk z
      using False low' v v'
      by (auto simp: bit_or_iff bit_push_bit_iff bit_and_iff bit_not_iff bit_mask_iff bit_drop_bit_eq pte_ppn_bit)
  qed
qed

lemma vm_idxbits: "stage1_vm c info = Some vm \<Longrightarrow> levels vm \<noteq> 0 \<Longrightarrow> 9 \<le> idxbits vm"
  by (auto simp: stage1_vm_def decode_vm_info_def Let_def no_vm_def split: if_splits)

lemma page_base_in_range:
  assumes "stage1_vm c info = Some vm" "levels vm \<noteq> 0" "12 + levels vm * idxbits vm \<le> 64" "i < levels vm" "\<not> pte_napot_bad i pte"
  shows "paddr_ok (pte_page_base (i * idxbits vm) pte v OR (v AND mask 12))"
proof -
  have "Suc i * idxbits vm \<le> levels vm * idxbits vm" using assms(4) by (intro mult_le_mono1) simp
  then have "i * idxbits vm \<le> 44" using assms(3) vm_idxbits [OF assms(1,2)] by simp
  then have "drop_bit 56 (pte_page_base (i * idxbits vm) pte v) = 0" by (rule pte_page_base_bounds [OF assms(5)])
  moreover have "drop_bit 56 (v AND mask 12) = 0" by (rule bit_word_eqI) (auto simp: bit_drop_bit_eq bit_and_iff bit_mask_iff)
  ultimately show ?thesis unfolding paddr_ok_def drop_bit_or by simp
qed

lemma non_canonical_msbs:
  assumes "bit v n \<noteq> bit v (va - 1)" "va \<le> n" "n < xl" "xl \<le> 64"
  shows "drop_bit (va - 1) v AND (push_bit (xl - (va - 1)) 1 - 1) \<noteq> (0 :: u64)"
    and "drop_bit (va - 1) v AND (push_bit (xl - (va - 1)) 1 - 1) \<noteq> (push_bit (xl - (va - 1)) 1 - 1 :: u64)"
proof -
  let ?m = "push_bit (xl - (va - 1)) 1 - 1 :: u64" and ?k = "n - (va - 1)"
  have m: "?m = mask (xl - (va - 1))" by (simp only: push_bit_eq_mult mask_eq_exp_minus_1 mult_1)
  have n: "va - 1 + ?k = n" "?k < xl - (va - 1)" "0 < xl - (va - 1)" using assms(2,3) by simp_all
  have low: "bit (drop_bit (va - 1) v AND ?m) 0 \<longleftrightarrow> bit v (va - 1)" "bit ?m 0"
    using n(3) unfolding m by (auto simp: bit_and_iff bit_drop_bit_eq bit_mask_iff)
  have high: "bit (drop_bit (va - 1) v AND ?m) ?k \<longleftrightarrow> bit v n"
    using n unfolding m bit_and_iff bit_drop_bit_eq o_apply bit_mask_iff by (auto dest: bit_imp_le_length)
  show "drop_bit (va - 1) v AND ?m \<noteq> 0" using low(1) high assms(1) by auto
  show "drop_bit (va - 1) v AND ?m \<noteq> ?m"
  proof
    assume eq: "drop_bit (va - 1) v AND ?m = ?m"
    have "bit v (va - 1)" using low unfolding eq by simp
    moreover have "bit ?m ?k \<longleftrightarrow> bit v n" using high unfolding eq .
    ultimately show False using assms n(2) unfolding m bit_mask_iff by auto
  qed
qed

end
