(* ===== verification/Pmp_Regions.thy ===== *)
theory Pmp_Regions
  imports Pmp
begin

text \<open>
  What an entry of the protection unit covers: an interval of addresses whose bounds are multiples of four. The bit
  tricks of \<open>napot_mask\<close> compute the size of a naturally aligned region from the trailing ones of the register.
\<close>

section \<open>Trailing ones\<close>

definition trailing_ones :: "u64 \<Rightarrow> nat" where
  "trailing_ones m = length (takeWhile (bit m) [0..<64])"

lemma trailing_ones_le: "trailing_ones m \<le> 64"
  unfolding trailing_ones_def using length_takeWhile_le [of "bit m" "[0..<64]"] by simp

lemma trailing_ones_bit: "j < trailing_ones m \<Longrightarrow> bit m j"
  unfolding trailing_ones_def
  using length_takeWhile_le [of "bit m" "[0..<64]"]
  by (metis (no_types, lifting) length_upt nth_mem nth_upt order_less_le_trans plus_nat.add_0 set_takeWhileD takeWhile_nth diff_zero)

lemma trailing_ones_end: "\<not> bit m (trailing_ones m)"
proof (cases "trailing_ones m < 64")
  case True
  then show ?thesis unfolding trailing_ones_def
    using nth_length_takeWhile [of "bit m" "[0..<64]"] by simp
next
  case False
  then show ?thesis by (auto dest: bit_imp_le_length)
qed

lemma low_ones_mask: "(m :: u64) AND NOT (m + 1) = mask (trailing_ones m)"
proof -
  define k where "k = trailing_ones m"
  have low: "bit m j" if "j < k" for j using that trailing_ones_bit k_def by simp
  have kend: "\<not> bit m k" unfolding k_def by (rule trailing_ones_end)
  define q where "q = m AND NOT (mask (Suc k))"
  have m: "m = mask k OR q"
  proof (rule bit_word_eqI)
    fix n assume n: "n < LENGTH(64)"
    have "n < k \<or> n = k \<or> k < n" by arith
    then show "bit m n = bit (mask k OR q) n"
      using low kend n unfolding q_def by (auto simp: bit_simps)
  qed
  have qlow: "bit q n \<longleftrightarrow> k < n \<and> bit m n" for n
    unfolding q_def by (auto simp: bit_simps dest: bit_imp_le_length)
  have "mask k AND q = 0"
    by (rule bit_word_eqI) (auto simp: bit_simps qlow)
  then have "m = mask k + q" using m by (simp add: disjunctive_add_eq_or)
  then have "m + 1 = 2 ^ k + q" by (simp add: mask_eq_exp_minus_1)
  moreover have "2 ^ k AND q = 0"
    by (rule bit_word_eqI) (auto simp: bit_simps qlow)
  ultimately have "m + 1 = 2 ^ k OR q" by (simp add: disjunctive_add_eq_or)
  then have 1: "bit (m + 1) n \<longleftrightarrow> n = k \<and> k < 64 \<or> k < n \<and> bit m n" for n
    by (auto simp: bit_simps qlow)
  have "bit (m AND NOT (m + 1)) n = bit (mask k :: u64) n" if "n < 64" for n
    using that low [of n] kend unfolding bit_and_iff bit_not_iff 1
    by (cases n k rule: linorder_cases) (auto simp: bit_simps)
  then show ?thesis unfolding k_def [symmetric] by (intro bit_word_eqI) simp
qed

section \<open>Intervals\<close>

lemma pmp_tor_mask_eq: "pmp_tor_mask p = NOT (mask (lg_pmp_granularity p - 2))"
  unfolding pmp_tor_mask_def by (simp add: push_bit_eq_mult mask_eq_exp_minus_1 minus_eq_not_plus_1 not_diff_distrib)

text \<open>The binary logarithm of the size of the region of a naturally aligned entry.\<close>

definition napot_order :: "pmp_t \<Rightarrow> nat \<Rightarrow> nat" where
  "napot_order p i =
     trailing_ones (push_bit 1 (pmp_val (pmpaddr p ! i)) OR of_bool (pmp_mode p i \<noteq> PMP_NA4) OR NOT (pmp_tor_mask p)) + 2"

lemma napot_mask_bit: "bit (napot_mask p i) n \<longleftrightarrow> napot_order p i \<le> n \<and> n < 64"
  unfolding napot_mask_def napot_order_def Let_def low_ones_mask by (auto simp: bit_simps)

lemma word_drop_eq_iff:
  fixes a b :: "'a::len word"
  shows "drop_bit s a = drop_bit s b \<longleftrightarrow> (\<forall>n < LENGTH('a). s \<le> n \<longrightarrow> bit a n = bit b n)"
proof
  assume eq: "drop_bit s a = drop_bit s b"
  have "bit a n = bit b n" if "s \<le> n" for n
    using arg_cong [OF eq, of "\<lambda>w. bit w (n - s)"] that by (simp add: bit_drop_bit_eq)
  then show "\<forall>n < LENGTH('a). s \<le> n \<longrightarrow> bit a n = bit b n" by simp
next
  assume eq: "\<forall>n < LENGTH('a). s \<le> n \<longrightarrow> bit a n = bit b n"
  have "bit a (s + n) = bit b (s + n)" for n
    using eq bit_imp_le_length [of a "s + n"] bit_imp_le_length [of b "s + n"] by (cases "s + n < LENGTH('a)") auto
  then show "drop_bit s a = drop_bit s b" by (intro bit_word_eqI) (simp add: bit_drop_bit_eq)
qed

lemma unat_div_eq_iff:
  fixes a b :: "'a::len word"
  shows "unat a div 2 ^ s = unat b div 2 ^ s \<longleftrightarrow> drop_bit s a = drop_bit s b"
  by (metis drop_bit_eq_div unat_drop_bit_eq word_unat_eq_iff)

lemma napot_match:
  "(addr XOR t) AND napot_mask p i = 0 \<longleftrightarrow> unat addr div 2 ^ napot_order p i = unat t div 2 ^ napot_order p i"
proof -
  have "(addr XOR t) AND napot_mask p i = 0 \<longleftrightarrow> (\<forall>n < 64. bit ((addr XOR t) AND napot_mask p i) n = bit (0 :: u64) n)"
    using bit_word_eqI [of "(addr XOR t) AND napot_mask p i" 0] by auto
  then show ?thesis unfolding unat_div_eq_iff word_drop_eq_iff by (auto simp: bit_and_iff bit_xor_iff napot_mask_bit)
qed

lemma div_eq_iff_interval:
  fixes a b :: nat
  assumes "0 < d"
  shows "a div d = b div d \<longleftrightarrow> b div d * d \<le> a \<and> a < b div d * d + d"
  using assms by (metis add.commute div_nat_eqI div_times_less_eq_dividend dividend_less_div_times mult.commute mult_Suc)

text \<open>The interval of an entry: its first address, and the address after its last one.\<close>

definition pmp_interval :: "pmp_t \<Rightarrow> nat \<Rightarrow> nat \<times> nat" where
  "pmp_interval p i =
     (if pmp_mode p i = 0 then (0, 0)
      else if pmp_mode p i = PMP_TOR then (unat (tor_base_paddr p i), unat (tor_paddr p i))
      else let d = 2 ^ napot_order p i; b = unat (tor_paddr p i) div d * d in (b, b + d))"

definition pmp_covers :: "pmp_t \<Rightarrow> nat \<Rightarrow> nat \<Rightarrow> bool" where
  "pmp_covers p i a \<longleftrightarrow> fst (pmp_interval p i) \<le> a \<and> a < snd (pmp_interval p i)"

lemma match4_interval: "match4 p i addr \<longleftrightarrow> pmp_covers p i (unat addr)"
  unfolding match4_def pmp_covers_def pmp_interval_def Let_def napot_match
  by (simp add: word_le_nat_alt word_less_nat_alt div_eq_iff_interval [of "2 ^ napot_order p i"])

lemma tor_paddr_dvd: "4 dvd unat (tor_paddr p i)"
proof -
  have "take_bit 2 (tor_paddr p i) = 0" unfolding tor_paddr_def by (rule bit_word_eqI) (auto simp: bit_simps)
  then have "take_bit 2 (unat (tor_paddr p i)) = 0" by (metis unsigned_0 unsigned_take_bit_eq)
  then show ?thesis by (simp add: take_bit_eq_mod mod_eq_0_iff_dvd)
qed

lemma pmp_interval_dvd: "4 dvd fst (pmp_interval p i)" "4 dvd snd (pmp_interval p i)"
proof -
  have "(4::nat) dvd 2 ^ napot_order p i" using le_imp_power_dvd [of 2 "napot_order p i" "2::nat"] by (simp add: napot_order_def)
  then show "4 dvd fst (pmp_interval p i)" "4 dvd snd (pmp_interval p i)"
    by (simp_all add: pmp_interval_def Let_def tor_base_paddr_def tor_paddr_dvd)
qed

text \<open>An entry covers a byte exactly when it covers the first byte of its four-byte sector.\<close>

lemma pmp_covers_sector: "pmp_covers p i (4 * (a div 4)) \<longleftrightarrow> pmp_covers p i a"
proof -
  have "fst (pmp_interval p i) \<le> 4 * (a div 4) \<longleftrightarrow> fst (pmp_interval p i) \<le> a"
       "4 * (a div 4) < snd (pmp_interval p i) \<longleftrightarrow> a < snd (pmp_interval p i)"
    using pmp_interval_dvd [of p i] by (auto elim!: dvdE)
  then show ?thesis by (simp add: pmp_covers_def)
qed

end
