(* ===== verification/Pmp_Check.thy ===== *)
theory Pmp_Check
  imports Pmp_Regions
begin

text \<open>
  The check of an access against a reference that looks at every byte, and the test that lets the translation cache
  keep a page: in a homogeneous page every access is treated alike.
\<close>

section \<open>The reference\<close>

definition pmp_decide :: "pmp_t \<Rightarrow> nat \<Rightarrow> nat \<Rightarrow> access_type \<Rightarrow> u64 \<Rightarrow> bool" where
  "pmp_decide p a len type mode =
     (case find (\<lambda>i. list_ex (pmp_covers p i) [a..<a + len]) [0..<n_pmp p] of
        Some i \<Rightarrow> list_all (pmp_covers p i) [a..<a + len] \<and> access_ok p i type mode
      | None \<Rightarrow> n_pmp p = 0 \<or> mode = PRV_M \<and> \<not> get_mmwp p \<and> (get_mml p \<longrightarrow> type \<noteq> FETCH))"

lemma set_sector_offsets: "set (sector_offsets len) = {4 * k | k. 4 * k < len}"
  unfolding sector_offsets_def by auto

lemma fold_any_all:
  "fold (\<lambda>x (any, all). let m = P x in (any \<or> m, all \<and> m)) xs (any0, all0) = (any0 \<or> list_ex P xs, all0 \<and> list_all P xs)"
  by (induction xs arbitrary: any0 all0) (auto simp: Let_def)

lemma sector_loop_eq:
  assumes "unat addr + len \<le> 2 ^ 64"
  shows "sector_loop p i addr len =
    (\<exists>k. 4 * k < len \<and> pmp_covers p i (unat addr + 4 * k), \<forall>k. 4 * k < len \<longrightarrow> pmp_covers p i (unat addr + 4 * k))"
proof -
  have "match4 p i (addr + of_nat (4 * k)) \<longleftrightarrow> pmp_covers p i (unat addr + 4 * k)" if "4 * k < len" for k
  proof -
    have "unat (addr + of_nat (4 * k)) = unat addr + 4 * k"
      using assms that by (subst unat_add_lem [THEN iffD1]) (simp_all add: unat_word_of_nat_small del: of_nat_mult)
    then show ?thesis by (simp only: match4_interval)
  qed
  moreover have "sector_loop p i addr len =
    (list_ex (\<lambda>o'. match4 p i (addr + of_nat o')) (sector_offsets len),
     list_all (\<lambda>o'. match4 p i (addr + of_nat o')) (sector_offsets len))"
    unfolding sector_loop_def using fold_any_all [of "\<lambda>o'. match4 p i (addr + of_nat o')" "sector_offsets len" False True]
    by (simp add: Let_def)
  ultimately show ?thesis unfolding list_ex_iff list_all_iff set_sector_offsets by auto
qed

text \<open>The sectors that the loop visits are those of the bytes of the access, unless the access ends in a sector that is not visited.\<close>

definition sectors_visited :: "nat \<Rightarrow> nat \<Rightarrow> bool" where
  "sectors_visited a len \<longleftrightarrow> a mod 4 + len \<le> 4 * ((len + 3) div 4)"

lemma sector_of_byte:
  fixes a x len :: nat
  assumes "sectors_visited a len" "a \<le> x" "x < a + len"
  obtains k where "4 * k < len" "4 * ((a + 4 * k) div 4) = 4 * (x div 4)"
proof
  let ?k = "x div 4 - a div 4"
  have "x div 4 * 4 \<le> x" "a = a div 4 * 4 + a mod 4" by simp_all
  then have "?k < (len + 3) div 4" using assms unfolding sectors_visited_def by linarith
  moreover have "(len + 3) div 4 * 4 \<le> len + 3" by (rule div_times_less_eq_dividend)
  ultimately show "4 * ?k < len" by linarith
  show "4 * ((a + 4 * ?k) div 4) = 4 * (x div 4)" using assms(2) by (simp add: div_le_mono)
qed

lemma sectors_covered:
  assumes "sectors_visited a len"
  shows "(\<exists>k. 4 * k < len \<and> pmp_covers p i (a + 4 * k)) \<longleftrightarrow> list_ex (pmp_covers p i) [a..<a + len]"
    and "(\<forall>k. 4 * k < len \<longrightarrow> pmp_covers p i (a + 4 * k)) \<longleftrightarrow> list_all (pmp_covers p i) [a..<a + len]"
proof -
  have *: "\<exists>k. 4 * k < len \<and> (pmp_covers p i (a + 4 * k) \<longleftrightarrow> pmp_covers p i x)" if "a \<le> x" "x < a + len" for x
    using sector_of_byte [OF assms that] pmp_covers_sector by metis
  show "(\<exists>k. 4 * k < len \<and> pmp_covers p i (a + 4 * k)) \<longleftrightarrow> list_ex (pmp_covers p i) [a..<a + len]"
    unfolding list_ex_iff using * by auto blast
  show "(\<forall>k. 4 * k < len \<longrightarrow> pmp_covers p i (a + 4 * k)) \<longleftrightarrow> list_all (pmp_covers p i) [a..<a + len]"
    unfolding list_all_iff using * by auto blast
qed

lemma pmp_ok_loop_find:
  assumes "\<And>i. sector_loop p i addr len = (E i, A i)"
  shows "pmp_ok_loop p addr len type mode is =
    (case find E is of
       Some i \<Rightarrow> A i \<and> access_ok p i type mode
     | None \<Rightarrow> mode = PRV_M \<and> \<not> get_mmwp p \<and> (get_mml p \<longrightarrow> type \<noteq> FETCH))"
proof (induction "is")
  case Nil
  show ?case by (cases type) auto
next
  case (Cons i "is")
  then show ?case using assms [of i] by (auto simp: Let_def)
qed

lemma pmp_ok_decide:
  assumes "unat addr + len \<le> 2 ^ 64" "sectors_visited (unat addr) len"
  shows "pmp_ok p addr len type mode = pmp_decide p (unat addr) len type mode"
proof -
  have "sector_loop p i addr len =
      (list_ex (pmp_covers p i) [unat addr..<unat addr + len], list_all (pmp_covers p i) [unat addr..<unat addr + len])" for i
    unfolding sector_loop_eq [OF assms(1)] sectors_covered [OF assms(2), symmetric] ..
  then show ?thesis unfolding pmp_ok_def pmp_decide_def
    by (cases "n_pmp p = 0") (simp_all add: pmp_ok_loop_find split: option.split)
qed

lemma sectors_visited_aligned: "a mod 4 = 0 \<Longrightarrow> sectors_visited a len"
  unfolding sectors_visited_def by simp

lemma sectors_visited_natural:
  assumes "len \<in> {1, 2, 4, 8}" "a mod len = 0"
  shows "sectors_visited a len"
  using assms unfolding sectors_visited_def by auto presburger+

section \<open>Homogeneous pages\<close>

lemma power2_word_simps:
  assumes "s < 64"
  shows "unat (2 ^ s :: u64) = 2 ^ s" "- (2 ^ s :: u64) = NOT (mask s)" "(2 ^ s :: u64) - 1 = mask s"
proof -
  have "(2 :: nat) ^ s < 2 ^ LENGTH(64)" using assms by (intro power_strict_increasing) simp_all
  then show "unat (2 ^ s :: u64) = 2 ^ s"
    using unat_word_of_nat_small [of "2 ^ s", where 'a = 64] by simp
qed (simp_all add: mask_eq_exp_minus_1 minus_eq_not_plus_1 not_diff_distrib)

lemma div_div_pow: "s \<le> t \<Longrightarrow> (x :: nat) div 2 ^ t = x div 2 ^ s div 2 ^ (t - s)"
  by (simp flip: div_mult2_eq power_add)

text \<open>The page of an address: all addresses with the same bits from \<open>s\<close> on.\<close>

lemma subset_match_homogeneous:
  assumes sm: "subset_match p i addr (2 ^ s) = Some False" and s: "s < 64"
    and x: "x div 2 ^ s = unat addr div 2 ^ s"
  shows "pmp_covers p i x \<longleftrightarrow> pmp_covers p i (unat addr)"
proof -
  let ?d = "2 ^ s :: nat"
  have al: "(addr OR 2 ^ s) AND mask s = 0"
    using sm s by (auto simp: subset_match_def power2_word_simps split: if_splits)
  have "addr AND NOT (mask s) = addr"
  proof (rule bit_word_eqI)
    fix n assume n: "n < LENGTH(64)"
    have "\<not> bit ((addr OR 2 ^ s) AND mask s) n" unfolding al by simp
    then show "bit (addr AND NOT (mask s)) n = bit addr n" using n by (auto simp: bit_simps)
  qed
  with unat_clear_low [of addr s] have addr: "unat addr = unat addr div ?d * ?d" by simp
  have le: "unat addr \<le> x" "x < unat addr + ?d"
    using x addr div_eq_iff_interval [of ?d x "unat addr"] by simp_all
  consider "pmp_mode p i = 0" | "pmp_mode p i = PMP_TOR" | "pmp_mode p i \<noteq> 0" "pmp_mode p i \<noteq> PMP_TOR" by blast
  then show ?thesis
  proof cases
    case 1
    then show ?thesis by (simp add: pmp_covers_def pmp_interval_def)
  next
    case 2
    let ?b = "unat (tor_base_paddr p i)" and ?t = "unat (tor_paddr p i)"
    have below: "y < b" if "unat addr div ?d * ?d < b div ?d * ?d" "y div ?d = unat addr div ?d" for b y
    proof -
      have "y div ?d < b div ?d" using that by simp
      then show ?thesis by (metis div_le_mono leD linorder_le_less_linear)
    qed
    have cov: "pmp_covers p i y \<longleftrightarrow> ?b \<le> y \<and> y < ?t" for y
      using 2 unfolding pmp_covers_def pmp_interval_def by simp
    have "unat addr div ?d * ?d < ?b div ?d * ?d \<or> ?t \<le> unat addr \<or> ?b \<le> unat addr \<and> unat addr div ?d * ?d < ?t div ?d * ?d"
      using sm s 2 by (simp add: subset_match_def Let_def power2_word_simps word_le_nat_alt word_less_nat_alt unat_clear_low split: if_splits)
    then show ?thesis
    proof (elim disjE conjE)
      assume "unat addr div ?d * ?d < ?b div ?d * ?d"
      from below [OF this x] below [OF this refl] show ?thesis unfolding cov by simp
    next
      assume "?t \<le> unat addr"
      then show ?thesis unfolding cov using le(1) by simp
    next
      assume "?b \<le> unat addr" and t: "unat addr div ?d * ?d < ?t div ?d * ?d"
      then show ?thesis unfolding cov using below [OF t x] below [OF t refl] le(1) by simp
    qed
  next
    case 3
    let ?o = "napot_order p i" and ?t = "unat (tor_paddr p i)"
    have cov: "pmp_covers p i y \<longleftrightarrow> y div 2 ^ ?o = ?t div 2 ^ ?o" for y
      using 3 unfolding pmp_covers_def pmp_interval_def Let_def by (simp add: div_eq_iff_interval)
    show ?thesis
    proof (cases "s \<le> ?o")
      case True
      then show ?thesis unfolding cov using x by (simp add: div_div_pow)
    next
      case False
      then have "NOT (push_bit 1 (napot_mask p i)) AND 2 ^ s = 0"
        by (intro bit_word_eqI, unfold bit_and_iff bit_not_iff bit_push_bit_iff napot_mask_bit) (auto simp: bit_simps)
      then have "(addr XOR tor_paddr p i) div 2 ^ s \<noteq> 0"
        using sm 3 by (auto simp: subset_match_def Let_def split: if_splits)
      then have "drop_bit s (addr XOR tor_paddr p i) \<noteq> 0" by (simp add: drop_bit_eq_div)
      then have "drop_bit s addr \<noteq> drop_bit s (tor_paddr p i)" unfolding drop_bit_xor by (rule contrapos_nn) simp
      then have ne: "unat addr div ?d \<noteq> ?t div ?d" unfolding unat_div_eq_iff .
      then have "y div 2 ^ ?o \<noteq> ?t div 2 ^ ?o" if "y div ?d = unat addr div ?d" for y
        using False ne that by (auto simp: div_div_pow [of ?o s])
      then show ?thesis unfolding cov using x by blast
    qed
  qed
qed

lemma pmp_homogeneous_loop_covers:
  assumes "pmp_homogeneous_loop p addr (2 ^ s) is = Some True" "i \<in> set is" "s < 64" "x div 2 ^ s = unat addr div 2 ^ s"
  shows "pmp_covers p i x \<longleftrightarrow> pmp_covers p i (unat addr)"
  using assms(1,2)
proof (induction "is")
  case (Cons j "is")
  from Cons.prems(1) have sm: "subset_match p j addr (2 ^ s) = Some False" and rest: "pmp_homogeneous_loop p addr (2 ^ s) is = Some True"
    by (auto split: bind_splits if_splits)
  show ?case
  proof (cases "i = j")
    case True
    then show ?thesis using subset_match_homogeneous [OF sm assms(3,4)] by simp
  next
    case False
    then show ?thesis using Cons.IH [OF rest] Cons.prems(2) by simp
  qed
qed simp

lemma pmp_ok_homogeneous:
  assumes h: "pmp_homogeneous p addr (2 ^ s) = Some True" and s: "s < 64"
    and a: "0 < len" "unat a div 2 ^ s = unat addr div 2 ^ s" "(unat a + len - 1) div 2 ^ s = unat addr div 2 ^ s"
  shows "pmp_ok p a len type mode = pmp_decide p (unat addr) 1 type mode"
proof -
  have "pmp_homogeneous_loop p addr (2 ^ s) [0..<n_pmp p] = Some True"
    using h by (simp add: pmp_homogeneous_def split: if_splits)
  note hom = pmp_homogeneous_loop_covers [OF this _ s]
  have page: "x div 2 ^ s = unat addr div 2 ^ s" if "unat a \<le> x" "x \<le> unat a + len - 1" for x
    using div_le_mono [OF that(1), of "2 ^ s"] div_le_mono [OF that(2), of "2 ^ s"] a by simp
  have "unat a + len \<le> 2 ^ 64"
  proof (rule ccontr)
    assume "\<not> ?thesis"
    moreover have "unat a < 2 ^ 64" using unat_lt2p [of a] by simp
    ultimately have "2 ^ 64 div 2 ^ s = unat addr div 2 ^ s" using page [of "2 ^ 64"] by simp
    moreover have "unat addr div 2 ^ s < 2 ^ 64 div 2 ^ s"
    proof -
      have e: "(2 :: nat) ^ 64 = 2 ^ (64 - s) * 2 ^ s" using s by (simp flip: power_add)
      have "unat addr div 2 ^ s < 2 ^ (64 - s)"
        by (rule less_mult_imp_div_less) (use e unat_lt2p [of addr] in simp)
      then show ?thesis unfolding e by simp
    qed
    ultimately show False by simp
  qed
  note loop = sector_loop_eq [OF this]
  have "sector_loop p i a len = (pmp_covers p i (unat addr), pmp_covers p i (unat addr))" if "i < n_pmp p" for i
  proof -
    have c: "pmp_covers p i (unat a + 4 * k) \<longleftrightarrow> pmp_covers p i (unat addr)" if "4 * k < len" for k
      using that \<open>i < n_pmp p\<close> by (intro hom page) simp_all
    have "4 * 0 < len" using a(1) by simp
    then show ?thesis unfolding loop using c by blast
  qed
  then have "pmp_ok_loop p a len type mode is = (case find (\<lambda>i. pmp_covers p i (unat addr)) is of
       Some i \<Rightarrow> pmp_covers p i (unat addr) \<and> access_ok p i type mode
     | None \<Rightarrow> mode = PRV_M \<and> \<not> get_mmwp p \<and> (get_mml p \<longrightarrow> type \<noteq> FETCH))" if "set is \<subseteq> {..<n_pmp p}" for "is"
    using that
  proof (induction "is")
    case Nil
    show ?case by (cases type) auto
  qed (simp add: Let_def)
  note loop_all = this [of "[0..<n_pmp p]"]
  show ?thesis
    unfolding pmp_ok_def pmp_decide_def using loop_all by (cases "n_pmp p = 0") (simp_all add: atLeast0LessThan split: option.split)
qed

end
