(* ===== verification/Mmu_Tlb.thy ===== *)
theory Mmu_Tlb
  imports Mmu_Access Mmu_Facts Pmp_Check
begin

text \<open>
  The translation cache and what it holds: translation does not look at it, a second walk in the same page repeats the first, and a
  refill stores what the walk found.
\<close>

section \<open>Translation does not look at the cache\<close>

lemma pmp_ok_tlb: "pmp_ok (p\<lparr>pmp_tlb := t\<rparr>) = pmp_ok p"
proof -
  have "match4 (p\<lparr>pmp_tlb := t\<rparr>) = match4 p"
    by (simp add: fun_eq_iff match4_def tor_base_paddr_def tor_paddr_def pmp_mode_def napot_mask_def pmp_tor_mask_def)
  then have "sector_loop (p\<lparr>pmp_tlb := t\<rparr>) = sector_loop p" by (simp add: fun_eq_iff sector_loop_def)
  moreover have "access_ok (p\<lparr>pmp_tlb := t\<rparr>) = access_ok p" by (simp add: fun_eq_iff access_ok_def get_mml_def Let_def)
  ultimately have "pmp_ok_loop (p\<lparr>pmp_tlb := t\<rparr>) a n ty mo is = pmp_ok_loop p a n ty mo is" for a n ty mo "is"
    by (induction "is") (simp_all add: get_mml_def get_mmwp_def)
  then show ?thesis by (simp add: fun_eq_iff pmp_ok_def)
qed

lemma pmp_homogeneous_tlb: "pmp_homogeneous (p\<lparr>pmp_tlb := t\<rparr>) = pmp_homogeneous p"
proof -
  have "subset_match (p\<lparr>pmp_tlb := t\<rparr>) = subset_match p"
    by (simp add: fun_eq_iff subset_match_def Let_def tor_base_paddr_def tor_paddr_def pmp_mode_def napot_mask_def pmp_tor_mask_def)
  then have step: "subset_match (p\<lparr>pmp_tlb := t\<rparr>) i a n = subset_match p i a n" for i a n by simp
  have "pmp_homogeneous_loop (p\<lparr>pmp_tlb := t\<rparr>) a n is = pmp_homogeneous_loop p a n is" for a n "is"
  proof (induction "is")
    case (Cons i "is")
    show ?case unfolding pmp_homogeneous_loop.simps step Cons.IH ..
  qed simp
  then show ?thesis by (simp add: fun_eq_iff pmp_homogeneous_def)
qed

lemma set_hart_tlb_homogeneous: "pmp_homogeneous (pmp (set_hart_tlb t c)) = pmp_homogeneous (pmp c)"
  by (simp add: set_hart_tlb_def pmp_homogeneous_tlb)

lemma set_hart_tlb_fields [simp]:
  "satp (set_hart_tlb t c) = satp c" "vsatp (set_hart_tlb t c) = vsatp c" "hgatp (set_hart_tlb t c) = hgatp c"
  "sstatus (set_hart_tlb t c) = sstatus c" "vsstatus (set_hart_tlb t c) = vsstatus c" "menvcfg (set_hart_tlb t c) = menvcfg c"
  "henvcfg (set_hart_tlb t c) = henvcfg c" "const_xlen (set_hart_tlb t c) = const_xlen c" "xlen (set_hart_tlb t c) = xlen c"
  "ext_svnapot (set_hart_tlb t c) = ext_svnapot c" "debug_mode (set_hart_tlb t c) = debug_mode c" "mstatus (set_hart_tlb t c) = mstatus c"
  "mnstatus (set_hart_tlb t c) = mnstatus c" "hart_tlb (set_hart_tlb t c) = t" "pmp_ok (pmp (set_hart_tlb t c)) = pmp_ok (pmp c)"
  by (simp_all add: set_hart_tlb_def hart_tlb_def pmp_ok_tlb)

lemma mmio_tlb [simp]: "mmio_load I (set_hart_tlb t c) = mmio_load I c" "mmio_store I (set_hart_tlb t c) = mmio_store I c"
proof -
  have one: "mmio_load_one I (set_hart_tlb t c) = mmio_load_one I c" "mmio_store_one I (set_hart_tlb t c) = mmio_store_one I c"
    by (simp_all add: fun_eq_iff mmio_load_one_def mmio_store_one_def mmio_ok_def)
  have "mmio_load_bytes I (set_hart_tlb t c) a is s = mmio_load_bytes I c a is s" for a "is" s
    by (induction "is" arbitrary: s) (simp_all add: one split: prod.split option.split)
  moreover have "mmio_store_bytes I (set_hart_tlb t c) a bs is s = mmio_store_bytes I c a bs is s" for a bs "is" s
    by (induction "is" arbitrary: s) (simp_all add: one split: prod.split bool.split)
  ultimately show "mmio_load I (set_hart_tlb t c) = mmio_load I c" "mmio_store I (set_hart_tlb t c) = mmio_store I c"
    by (simp_all add: fun_eq_iff mmio_load_def mmio_store_def one)
qed

lemma pte_access_tlb [simp]: "pte_load I (set_hart_tlb t c) = pte_load I c" "pte_store I (set_hart_tlb t c) = pte_store I c"
  unfolding fun_eq_iff pte_load_def pte_store_def mmio_tlb set_hart_tlb_fields by simp_all

lemma s2xlate_tlb [simp]: "s2xlate I (set_hart_tlb t c) = s2xlate I c"
proof -
  have loop: "s2_loop I (set_hart_tlb t c) vm gv gpa ty tt hx mxr ti n base = s2_loop I c vm gv gpa ty tt hx mxr ti n base" for vm gv gpa ty tt hx mxr ti n base
  proof (induction n arbitrary: base)
    case (Suc i)
    show ?case unfolding s2_loop.simps Suc.IH by (simp only: set_hart_tlb_fields pte_access_tlb)
  qed simp
  show ?thesis unfolding fun_eq_iff s2xlate_def loop set_hart_tlb_fields by simp
qed

lemma walk_tlb [simp]: "walk I (set_hart_tlb t c) = walk I c"
proof -
  have loop: "walk_loop I (set_hart_tlb t c) vm info n base = walk_loop I c vm info n base" for vm info n base
  proof (induction n arbitrary: base)
    case (Suc i)
    show ?case unfolding walk_loop.simps Suc.IH by (simp only: set_hart_tlb_fields pte_access_tlb s2xlate_tlb)
  qed simp
  show ?thesis unfolding fun_eq_iff walk_def loop set_hart_tlb_fields s2xlate_tlb by simp
qed

lemma mmu_translate_tlb [simp]: "mmu_translate I (set_hart_tlb t c) = mmu_translate I c"
  unfolding fun_eq_iff mmu_translate_def walk_tlb set_hart_tlb_fields by simp

section \<open>One page\<close>

lemma drop_bit_page:
  assumes "drop_bit 12 v = drop_bit 12 (w :: u64)"
  shows "drop_bit (12 + k) v = drop_bit (12 + k) w"
proof -
  have "drop_bit k (drop_bit 12 v) = drop_bit k (drop_bit 12 w)" by (rule arg_cong [OF assms])
  then show ?thesis by (simp only: drop_bit_drop_bit add.commute)
qed

lemma pt_find_page:
  assumes "drop_bit 12 v = drop_bit 12 (vaddr info)"
  shows "pt_find c vm (info\<lparr>vaddr := v\<rparr>) b n base = pt_find c vm info b n base"
proof -
  have "pt_slot vm v i base = pt_slot vm (vaddr info) i base" for i base
    unfolding pt_slot_def drop_bit_page [OF assms] ..
  moreover have "pt_check c vm (info\<lparr>vaddr := v\<rparr>) = pt_check c vm info" by (simp add: fun_eq_iff pt_check_def)
  ultimately show ?thesis by (induction n arbitrary: base) (simp_all add: Let_def split: pte_action.split)
qed

lemma pt_search_page:
  assumes "drop_bit 12 v = drop_bit 12 (vaddr info)" "0 < levels vm * idxbits vm"
  shows "pt_search c vm (info\<lparr>vaddr := v\<rparr>) b = pt_search c vm info b"
proof -
  obtain k where k: "12 + levels vm * idxbits vm - 1 = 12 + k" using assms(2) by (metis Suc_pred add_Suc_right diff_Suc_1)
  have "pt_levels c vm v = pt_levels c vm (vaddr info)"
    unfolding pt_levels_def Let_def k drop_bit_page [OF assms(1)] ..
  then show ?thesis by (simp add: pt_search_def pt_find_page [OF assms(1)])
qed

text \<open>The walk of the first stage as a function of the bytes of memory, with translation on or off.\<close>

definition abs_walk :: "mmu_csrs \<Rightarrow> mem_access_info_t \<Rightarrow> (u64 \<Rightarrow> u8 option) \<Rightarrow> (mmu_error + u64) \<times> (u64 \<Rightarrow> u8 option)" where
  "abs_walk c info b =
     (case stage1_vm c info of
        None \<Rightarrow> (Inl Aborted, b)
      | Some vm \<Rightarrow>
          if levels vm = 0 then (Inr ((vaddr info AND (push_bit (xlen c - 1) 2 - 1)) AND NOT (push_bit 12 1 - 1)), b)
          else pt_outcome c vm info b (pt_search c vm info b))"

definition tables_in_memory :: "mmu_csrs \<Rightarrow> mem_access_info_t \<Rightarrow> (u64 \<Rightarrow> u8 option) \<Rightarrow> bool" where
  "tables_in_memory c info b \<longleftrightarrow>
     (case stage1_vm c info of
        None \<Rightarrow> True
      | Some vm \<Rightarrow> levels vm \<noteq> 0 \<longrightarrow> 12 + levels vm * idxbits vm \<le> 64 \<and> pt_search c vm info b \<noteq> Pt_device)"

lemma low12: "push_bit 12 1 - 1 = (mask 12 :: u64)"
  by (simp only: push_bit_eq_mult mask_eq_exp_minus_1 mult_1)

lemma same_page_bits:
  assumes "drop_bit 12 v = drop_bit 12 (w :: u64)" "12 \<le> n"
  shows "bit v n = bit w n"
proof -
  have "bit (drop_bit 12 v) (n - 12) = bit (drop_bit 12 w) (n - 12)" by (rule arg_cong [OF assms(1)])
  then show ?thesis using assms(2) by (simp only: bit_drop_bit_eq o_apply le_add_diff_inverse)
qed

lemma page_parts:
  assumes "drop_bit 12 v = drop_bit 12 (w :: u64)" "r AND mask 12 = 0"
  shows "(r OR (w AND mask 12)) - w + v = r OR (v AND mask 12)"
proof -
  have or: "r OR (x AND mask 12) = r + (x AND mask 12)" for x
  proof -
    have "r AND (x AND mask 12) = (r AND mask 12) AND x" by (simp only: ac_simps)
    then have "r AND (x AND mask 12) = 0" using assms(2) by simp
    then show ?thesis by (simp add: disjunctive_add_eq_or)
  qed
  have split: "x = (x AND NOT (mask 12)) + (x AND mask 12)" for x :: u64
  proof -
    have "(x AND NOT (mask 12)) AND (x AND mask 12) = 0" by (rule bit_word_eqI) (auto simp: bit_and_iff bit_not_iff)
    then have "(x AND NOT (mask 12)) + (x AND mask 12) = (x AND NOT (mask 12)) OR (x AND mask 12)" by (rule disjunctive_add_eq_or)
    also have "\<dots> = x" by (rule bit_word_eqI) (auto simp: bit_and_iff bit_not_iff bit_or_iff)
    finally show ?thesis by simp
  qed
  have hi: "v AND NOT (mask 12) = w AND NOT (mask 12)"
    using same_page_bits [OF assms(1)] by (intro bit_word_eqI) (auto simp: bit_and_iff bit_not_iff bit_mask_iff)
  have "v - w = (v AND mask 12) - (w AND mask 12)"
    using split [of v] split [of w] unfolding hi by (metis add_diff_cancel_left)
  then show ?thesis unfolding or by (simp add: algebra_simps)
qed

lemma vm_levels_idx: "stage1_vm c info = Some vm \<Longrightarrow> levels vm \<noteq> 0 \<Longrightarrow> 0 < levels vm * idxbits vm"
  by (auto simp: stage1_vm_def decode_vm_info_def Let_def no_vm_def split: if_splits)

lemma abs_walk_again:
  assumes first: "abs_walk c info b = (Inr r, b')" and tabs: "tables_in_memory c info b" and page: "drop_bit 12 v = drop_bit 12 (vaddr info)"
  shows "abs_walk c (info\<lparr>vaddr := v\<rparr>) b' = (Inr r, b')" "tables_in_memory c (info\<lparr>vaddr := v\<rparr>) b'"
proof -
  obtain vm where vm: "stage1_vm c info = Some vm" using first by (auto simp: abs_walk_def split: option.splits)
  have vm': "stage1_vm c (info\<lparr>vaddr := v\<rparr>) = Some vm" using vm by (simp add: stage1_vm_def)
  have "abs_walk c (info\<lparr>vaddr := v\<rparr>) b' = (Inr r, b') \<and> tables_in_memory c (info\<lparr>vaddr := v\<rparr>) b'"
  proof (cases "levels vm = 0")
    case True
    have "(v AND m) AND NOT (push_bit 12 1 - 1) = (vaddr info AND m) AND NOT (push_bit 12 1 - 1)" for m
      unfolding low12 using same_page_bits [OF page] by (intro bit_word_eqI) (auto simp: bit_and_iff bit_not_iff bit_mask_iff)
    from this [of "push_bit (xlen c - 1) 2 - 1"] show ?thesis using first vm vm' True by (simp add: abs_walk_def tables_in_memory_def)
  next
    case False
    note S = pt_search_page [OF page vm_levels_idx [OF vm False]]
    have wf: "vm_wf vm" "unat (ptbase vm) mod 4096 = 0" using decode_vm_wf vm False by (auto simp: stage1_vm_def)
    have "pt_outcome c vm info b (pt_search c vm info b) = (Inr r, b')" using first vm False by (simp add: abs_walk_def)
    note again = pt_repeat [OF wf this]
    then obtain i a pte where found: "pt_search c vm info b' = Pt_found i a pte"
      by (cases "pt_search c vm info b'") (auto simp: pt_outcome_def)
    have "pte_page_base sh p v = pte_page_base sh p (vaddr info)" for sh p by (simp only: pte_page_base_def page)
    then have "pt_outcome c vm (info\<lparr>vaddr := v\<rparr>) b' (Pt_found i a pte) = (Inr r, b')"
      using again unfolding found by (auto simp: pt_outcome_def Let_def split: if_splits)
    then show ?thesis using vm vm' False tabs by (simp add: abs_walk_def tables_in_memory_def S found)
  qed
  then show "abs_walk c (info\<lparr>vaddr := v\<rparr>) b' = (Inr r, b')" "tables_in_memory c (info\<lparr>vaddr := v\<rparr>) b'" by blast+
qed

lemma abs_walk_aligned:
  assumes "abs_walk c info b = (Inr r, b')"
  shows "r AND mask 12 = 0"
proof -
  have "push_bit 12 x AND mask 12 = 0" for x :: u64
    by (rule bit_word_eqI) (auto simp: bit_and_iff bit_push_bit_iff bit_mask_iff)
  then have "pte_page_base sh p v AND mask 12 = 0" for sh p v
    unfolding pte_page_base_def Let_def by blast
  moreover have "(x AND NOT (mask 12)) AND mask 12 = 0" for x :: u64
    by (rule bit_word_eqI) (auto simp: bit_and_iff bit_not_iff)
  ultimately show ?thesis using assms unfolding abs_walk_def low12
    by (auto simp: pt_outcome_def Let_def split: option.splits if_splits pt_result.splits)
qed

context simif
begin

lemma walk_abs:
  assumes "\<not> effective_virt info" "sim_inv s" "tables_in_memory c info (byte s)"
  shows "\<exists>r s'. walk I c info s = (r, s') \<and> sim_inv s' \<and> (r, byte s') = abs_walk c info (byte s)"
proof (cases "stage1_vm c info")
  case None
  then show ?thesis using assms(1,2) by (simp add: abs_walk_def walk_def stage1_vm_def Let_def mfail_def)
next
  case (Some vm)
  then show ?thesis using walk_bare [OF assms(1) Some] walk_refines [OF assms(1,2) Some] assms(2,3)
    by (cases "levels vm = 0") (auto simp: abs_walk_def tables_in_memory_def)
qed

text \<open>A translation that succeeds, seen from the bytes of memory.\<close>

lemma translate_abs:
  assumes "\<not> effective_virt info" "sim_inv s" "tables_in_memory c info (byte s)"
  shows "mmu_translate I c info len s = (Inr paddr, s') \<longleftrightarrow>
    (\<exists>r. walk I c info s = (Inr r, s') \<and> abs_walk c info (byte s) = (Inr r, byte s') \<and> sim_inv s' \<and>
       paddr = r OR (vaddr info AND mask 12) \<and> pmp_ok (pmp c) paddr len (acc_type info) (effective_priv info))"
  using walk_abs [OF assms] unfolding mmu_translate_def low12
  by (auto simp: mbind_def Let_def throw_access_exception_def throw_trap_def mfail_def mreturn_def split: if_splits sum.splits)

end

section \<open>The cache\<close>

definition tlb_wf :: "tlb_t \<Rightarrow> bool" where
  "tlb_wf t \<longleftrightarrow> length (tlb_load_tag t) = 256 \<and> length (tlb_store_tag t) = 256 \<and> length (tlb_insn_tag t) = 256 \<and> length (tlb_data t) = 256"

lemma tlb_index_less: "tlb_index a < 256"
proof -
  have "unat (drop_bit 12 a mod 256) = unat (drop_bit 12 a) mod 256" by (simp add: unat_mod)
  then show ?thesis by (simp add: tlb_index_def)
qed

lemma tlb_index_page: "drop_bit 12 v = drop_bit 12 w \<Longrightarrow> tlb_index v = tlb_index w"
  unfolding tlb_index_def by simp

text \<open>An empty tag matches no page.\<close>

lemma empty_tag: "(- 1 :: u64) AND NOT TLB_CHECK_TRIGGERS \<noteq> drop_bit 12 a"
proof
  assume eq: "(- 1 :: u64) AND NOT TLB_CHECK_TRIGGERS = drop_bit 12 a"
  have "bit ((- 1 :: u64) AND NOT TLB_CHECK_TRIGGERS) 62" by simp
  then have "bit (drop_bit 12 a) 62" unfolding eq .
  then show False by (auto simp: bit_drop_bit_eq dest: bit_imp_le_length)
qed

lemma no_hit_flushed: "\<not> tlb_hit (tlb_load_tag (flush_tlb t)) v" "\<not> tlb_hit (tlb_store_tag (flush_tlb t)) v"
  using empty_tag [of v] tlb_index_less [of v] by (auto simp: tlb_hit_def flush_tlb_def flush_icache_def)

text \<open>What a refill after a miss leaves behind.\<close>

lemma refill_hit:
  assumes refill: "refill_tlb va paddr LOAD m c = Some (e, c')" and wf: "tlb_wf (hart_tlb c)"
    and miss: "\<not> tlb_hit (tlb_load_tag (hart_tlb c)) va" and page: "drop_bit 12 v = drop_bit 12 va"
    and hit: "tlb_hit (tlb_load_tag (hart_tlb c')) v"
  shows "pmp_homogeneous (pmp c) (paddr AND NOT (4096 - 1)) 4096 = Some True"
    and "fst (tlb_data (hart_tlb c') ! tlb_index v) = paddr - va" and "\<exists>t. c' = set_hart_tlb t c"
proof -
  let ?idx = "tlb_index va"
  have idx: "tlb_index v = ?idx" by (rule tlb_index_page [OF page])
  have mprv: "\<not> in_mprv c"
  proof
    assume "in_mprv c"
    then have "c' = c" using refill by (simp add: refill_tlb_def Let_def)
    then show False using hit miss page idx by (simp add: tlb_hit_def)
  qed
  obtain hom where hom: "pmp_homogeneous (pmp c) (paddr AND NOT (4096 - 1)) 4096 = Some hom"
    using refill mprv by (auto simp: refill_tlb_def Let_def split: bind_splits)
  define t where "t = tlb_evict ?idx (drop_bit 12 va) (hart_tlb c)"
  define tag where "tag = (if check_triggers_load m then drop_bit 12 va OR TLB_CHECK_TRIGGERS else drop_bit 12 va)"
  have c': "c' = set_hart_tlb ((if hom then tlb_set_tag LOAD ?idx tag t else t)\<lparr>tlb_data :=
      (tlb_data (if hom then tlb_set_tag LOAD ?idx tag t else t))[?idx := (paddr - va, paddr - va)]\<rparr>) c"
    using refill mprv hom by (auto simp: refill_tlb_def Let_def t_def tag_def)
  have len: "length (tlb_data t) = 256" using wf by (simp add: t_def tlb_evict_def Let_def tlb_wf_def)
  have "tlb_load_tag t ! ?idx = - 1"
    using miss wf tlb_index_less [of va] by (auto simp: t_def tlb_evict_def Let_def tlb_hit_def tlb_wf_def)
  then have "hom" using hit empty_tag [of v] idx unfolding c' by (cases hom) (auto simp: tlb_hit_def)
  then show "pmp_homogeneous (pmp c) (paddr AND NOT (4096 - 1)) 4096 = Some True" using hom by simp
  show "fst (tlb_data (hart_tlb c') ! tlb_index v) = paddr - va" unfolding c' idx
    using len tlb_index_less [of va] by (simp add: tlb_set_tag_def)
  show "\<exists>t. c' = set_hart_tlb t c" using c' by blast
qed

section \<open>Pages and loads\<close>

lemma page_or:
  assumes "r AND mask 12 = (0 :: u64)"
  shows "drop_bit 12 (r OR (v AND mask 12)) = drop_bit 12 r" "unat (r OR (v AND mask 12)) mod 4096 = unat v mod 4096"
    "(r OR (v AND mask 12)) AND NOT (4096 - 1) = r"
proof -
  have low: "\<not> bit r n" if "n < 12" for n
  proof
    assume "bit r n"
    then have "bit (r AND mask 12) n" using that by (auto simp: bit_and_iff bit_mask_iff dest: bit_imp_le_length)
    then show False unfolding assms by simp
  qed
  then have high: "bit r n \<Longrightarrow> 12 \<le> n" for n using not_less by blast
  show "drop_bit 12 (r OR (v AND mask 12)) = drop_bit 12 r"
    by (rule bit_word_eqI, unfold bit_drop_bit_eq) (auto simp: bit_or_iff bit_and_iff bit_mask_iff)
  have "take_bit 12 (r OR (v AND mask 12)) = take_bit 12 v"
    using low by (intro bit_word_eqI) (auto simp: bit_take_bit_iff bit_or_iff bit_and_iff bit_mask_iff)
  then have "take_bit 12 (unat (r OR (v AND mask 12))) = take_bit 12 (unat v)" by (metis unsigned_take_bit_eq)
  then show "unat (r OR (v AND mask 12)) mod 4096 = unat v mod 4096" by (simp add: take_bit_eq_mod)
  have m: "(4096 :: u64) - 1 = mask 12" by (simp add: mask_eq_exp_minus_1)
  show "(r OR (v AND mask 12)) AND NOT (4096 - 1) = r" unfolding m
    using high by (intro bit_word_eqI) (auto simp: bit_not_iff bit_or_iff bit_and_iff bit_mask_iff not_less)
qed

lemma homogeneous_page:
  assumes hom: "pmp_homogeneous p r 4096 = Some True" and r: "r AND mask 12 = 0"
    and n: "0 < n" "unat v mod 4096 + n \<le> 4096"
  shows "pmp_ok p (r OR (v AND mask 12)) n type mode = pmp_decide p (unat r) 1 type mode"
proof (rule pmp_ok_homogeneous [of p r 12])
  let ?a = "r OR (v AND mask 12)"
  note P = page_or [OF r, of v]
  show "pmp_homogeneous p r (2 ^ 12) = Some True" using hom by simp
  show a: "unat ?a div 2 ^ 12 = unat r div 2 ^ 12" using P(1) unat_drop12 by fastforce
  obtain k where k: "unat ?a mod 4096 + n = Suc k" "k < 4096" using n P(2) by (metis Suc_le_eq Suc_pred add_gr_0)
  then have "unat ?a + n - 1 = 4096 * (unat ?a div 4096) + k" using mult_div_mod_eq [of 4096 "unat ?a"] by linarith
  then have "(unat ?a + n - 1) div 4096 = unat ?a div 4096" using k(2) by simp
  then show "(unat ?a + n - 1) div 2 ^ 12 = unat r div 2 ^ 12" using a by simp
qed (use n in simp_all)

context simif
begin

lemma load_slow:
  assumes "\<not> is_special_access (flags info)" "\<not> tlb_hit (tlb_load_tag (hart_tlb c)) (vaddr info)"
  shows "load_slow_path_intrapage I len info (c, m) s =
    mbind (mmu_translate I c info len) (\<lambda>paddr s.
      case host_load I paddr len s of
        (Host bytes, s) \<Rightarrow>
          (case after_host_access paddr len info (c, m) of
             None \<Rightarrow> mfail Undefined_behaviour s
           | Some h \<Rightarrow> mreturn (bytes, h) s)
      | (Outside_page, s) \<Rightarrow> mfail Undefined_behaviour s
      | (Null_pointer, s) \<Rightarrow>
          (case mmio_load I c paddr len s of
             (Some bytes, s) \<Rightarrow> mreturn (bytes, (c, m)) s
           | (None, s) \<Rightarrow> throw_trap Load_access_fault (effective_virt info) (vaddr info) 0 0 s)) s"
proof -
  have "\<not> lr (flags info)" using assms(1) by (simp add: is_special_access_def)
  then show ?thesis using assms unfolding load_slow_path_intrapage_def Let_def
    by (simp add: split_beta cong: option.case_cong host.case_cong)
qed

end

end
