(* ===== verification/Mmu_Loads.thy ===== *)
theory Mmu_Loads
  imports Mmu_Tlb
begin

text \<open>
  The translation cache is transparent for loads: as long as the registers stay and only loads are made, what is cached agrees with
  the page tables, although the loads set accessed bits in them, so that no load can tell the cache from a flushed one.
\<close>

section \<open>Runs of loads\<close>

definition load_info :: "mmu_csrs \<Rightarrow> u64 \<Rightarrow> mem_access_info_t" where
  "load_info c v = generate_access_info c v LOAD \<lparr>forced_virt = False, hlvx = False, lr = False\<rparr>"

lemma load_info_fields [simp]:
  "vaddr (load_info c v) = v" "acc_type (load_info c v) = LOAD" "\<not> is_special_access (flags (load_info c v))"
  by (simp_all add: load_info_def generate_access_info_def is_special_access_def split_beta Let_def)

lemma load_info_vaddr: "(load_info c w)\<lparr>vaddr := v\<rparr> = load_info c v"
  by (simp add: load_info_def generate_access_info_def split_beta Let_def)

lemma load_info_mode: "effective_virt (load_info c v) = effective_virt (load_info c w)" "effective_priv (load_info c v) = effective_priv (load_info c w)"
  by (simp_all add: load_info_def generate_access_info_def split_beta Let_def)

lemma load_info_tlb [simp]: "load_info (set_hart_tlb t c) = load_info c" "in_mprv (set_hart_tlb t c) = in_mprv c"
proof -
  show mprv: "in_mprv (set_hart_tlb t c) = in_mprv c" by (simp add: in_mprv_def)
  have "virt_mode (set_hart_tlb t c) = virt_mode c" "prv (set_hart_tlb t c) = prv c" by (simp_all add: set_hart_tlb_def)
  then show "load_info (set_hart_tlb t c) = load_info c"
    unfolding fun_eq_iff load_info_def generate_access_info_def mprv set_hart_tlb_fields by simp
qed

text \<open>A sequence of loads within pages, each given by its address and length; a load that traps leaves the hart as it is.\<close>

definition load_after :: "hart_mmu \<Rightarrow> mmu_error + u8 list \<times> hart_mmu \<Rightarrow> hart_mmu" where
  "load_after h r = (case r of Inl e \<Rightarrow> h | Inr (bytes, h') \<Rightarrow> h')"

primrec load_run :: "'s simif_t \<Rightarrow> (u64 \<times> nat) list \<Rightarrow> hart_mmu \<Rightarrow> 's \<Rightarrow> hart_mmu \<times> 's" where
  "load_run I [] h s = (h, s)"
| "load_run I (x # xs) h s =
     (let (r, s') = load_slow_path_intrapage I (snd x) (load_info (fst h) (fst x)) h s
      in load_run I xs (load_after h r) s')"

section \<open>Accessed bits\<close>

text \<open>What a walk changes: the bits of the entry it ends at.\<close>

lemma abs_walk_effect:
  assumes "abs_walk c info b = (x, b')" "b' \<noteq> b"
  shows "\<exists>vm i a pte. stage1_vm c info = Some vm \<and> levels vm \<noteq> 0 \<and> pt_search c vm info b = Pt_found i a pte \<and>
    b' = put_bytes b a (le_bytes (ptesize vm) (pte OR pte_ad (acc_type info)))"
  using assms by (auto simp: abs_walk_def pt_outcome_def Let_def split: option.splits if_splits pt_result.splits)

lemma or_absorb: "pte AND ad = ad \<Longrightarrow> pte OR ad = pte" for pte ad :: u64
proof -
  assume ad: "pte AND ad = ad"
  have "pte OR (pte AND ad) = pte" by (rule bit_word_eqI) (auto simp: bit_or_iff bit_and_iff)
  then show ?thesis using ad by simp
qed

text \<open>A walk that changes nothing ends at an entry whose bits are set.\<close>

lemma pt_outcome_same:
  assumes vm: "vm_wf vm" and found: "pt_find c vm info b n base = Pt_found i a pte" "unat base mod 4096 = 0"
    and out: "pt_outcome c vm info b (Pt_found i a pte) = (Inr r, b)"
  shows "pte AND pte_ad (acc_type info) = pte_ad (acc_type info)" "r = pte_page_base (i * idxbits vm) pte (vaddr info)" "\<not> pte_napot_bad i pte"
proof -
  let ?ad = "pte_ad (acc_type info)"
  note F = pt_found [OF vm found]
  show set: "pte AND ?ad = ?ad"
  proof (rule ccontr)
    assume no: "pte AND ?ad \<noteq> ?ad"
    then have "b = put_bytes b a (le_bytes (ptesize vm) (pte OR ?ad))"
      using out by (auto simp: pt_outcome_def Let_def split: if_splits)
    then have "pte = pte OR ?ad" using pt_entry_written [OF vm F(2), of "acc_type info"] F(2) by simp
    then show False using no ad_set [of pte "acc_type info"] by simp
  qed
  then show "r = pte_page_base (i * idxbits vm) pte (vaddr info)" "\<not> pte_napot_bad i pte"
    using out by (auto simp: pt_outcome_def Let_def split: if_splits)
qed

text \<open>A load leaves the translations of all other loads alone.\<close>

lemma abs_walk_kept:
  assumes walk: "abs_walk c (load_info c w) b = (x, b')"
  shows "tables_in_memory c (load_info c v) b \<Longrightarrow> tables_in_memory c (load_info c v) b'"
    and "abs_walk c (load_info c v) b = (Inr r, b) \<Longrightarrow> abs_walk c (load_info c v) b' = (Inr r, b')"
    and "b y \<noteq> None \<Longrightarrow> b' y \<noteq> None"
proof -
  have "(tables_in_memory c (load_info c v) b \<longrightarrow> tables_in_memory c (load_info c v) b') \<and>
    (abs_walk c (load_info c v) b = (Inr r, b) \<longrightarrow> abs_walk c (load_info c v) b' = (Inr r, b')) \<and> (b y \<noteq> None \<longrightarrow> b' y \<noteq> None)"
  proof (cases "b' = b")
    case False
    then obtain vm i a pte where vm: "stage1_vm c (load_info c w) = Some vm" "levels vm \<noteq> 0"
      and found: "pt_search c vm (load_info c w) b = Pt_found i a pte" and b': "b' = put_bytes b a (le_bytes (ptesize vm) (pte OR pte_ad LOAD))"
      using abs_walk_effect [OF walk] by auto
    have vm': "stage1_vm c (load_info c v) = Some vm" using vm(1) by (simp add: stage1_vm_def load_info_mode(2) [of c v w])
    have wf: "vm_wf vm" "unat (ptbase vm) mod 4096 = 0" using decode_vm_wf vm by (auto simp: stage1_vm_def)
    note F = pt_found [OF wf(1) found [unfolded pt_search_def] wf(2)]
    have search: "pt_search c vm (load_info c v) b' = pt_marked a LOAD (pt_search c vm (load_info c v) b)"
      unfolding b' pt_search_def
      by (rule pt_find_marked [where b = b and a = a, OF wf(1) F(4,3), folded F(2), OF leaf_not_table [OF F(1)] wf(2)])
    have "abs_walk c (load_info c v) b' = (Inr r, b')" if same: "abs_walk c (load_info c v) b = (Inr r, b)"
    proof -
      have out: "pt_outcome c vm (load_info c v) b (pt_search c vm (load_info c v) b) = (Inr r, b)" using same vm' vm(2) by (simp add: abs_walk_def)
      then obtain j d p where p: "pt_search c vm (load_info c v) b = Pt_found j d p"
        by (cases "pt_search c vm (load_info c v) b") (auto simp: pt_outcome_def)
      note S = pt_outcome_same [OF wf(1) p [unfolded pt_search_def] wf(2) out [unfolded p]]
      have "pt_search c vm (load_info c v) b' = Pt_found j d p"
        unfolding search p using or_absorb [OF S(1)] by (simp add: pt_marked_def)
      then show ?thesis using vm' vm(2) S by (simp add: abs_walk_def pt_outcome_def)
    qed
    moreover have "tables_in_memory c (load_info c v) b'" if "tables_in_memory c (load_info c v) b"
      using that vm' search by (auto simp: tables_in_memory_def pt_marked_def split: pt_result.splits)
    ultimately show ?thesis using b' by (simp add: put_bytes_def)
  qed simp
  then show "tables_in_memory c (load_info c v) b \<Longrightarrow> tables_in_memory c (load_info c v) b'"
    "abs_walk c (load_info c v) b = (Inr r, b) \<Longrightarrow> abs_walk c (load_info c v) b' = (Inr r, b')" "b y \<noteq> None \<Longrightarrow> b' y \<noteq> None"
    by blast+
qed

section \<open>What is cached\<close>

text \<open>
  Every page that the cache holds for loads is the one that a walk finds, without setting any bit; protection treats the page as one
  and allows all loads in it, and the page is memory.
\<close>

definition tlb_sound :: "mmu_csrs \<Rightarrow> (u64 \<Rightarrow> u8 option) \<Rightarrow> bool" where
  "tlb_sound c b \<longleftrightarrow> (\<forall>v. tlb_hit (tlb_load_tag (hart_tlb c)) v \<longrightarrow>
     (\<exists>r. abs_walk c (load_info c v) b = (Inr r, b) \<and> fst (tlb_data (hart_tlb c) ! tlb_index v) + v = r OR (v AND mask 12) \<and>
       pmp_homogeneous (pmp c) r 4096 = Some True \<and>
       (\<forall>n. 0 < n \<longrightarrow> unat v mod 4096 + n \<le> 4096 \<longrightarrow> pmp_ok (pmp c) (r OR (v AND mask 12)) n LOAD (effective_priv (load_info c v))) \<and>
       b r \<noteq> None))"

lemma sound_flushed: "hart_tlb c = flush_tlb t \<Longrightarrow> tlb_sound c b"
  by (simp add: tlb_sound_def no_hit_flushed)

lemma sound_walk: "tlb_sound c b \<Longrightarrow> abs_walk c (load_info c w) b = (x, b') \<Longrightarrow> tlb_sound c b'"
  unfolding tlb_sound_def by (meson abs_walk_kept)

lemma abs_walk_tlb [simp]: "abs_walk (set_hart_tlb t c) = abs_walk c" "tables_in_memory (set_hart_tlb t c) = tables_in_memory c"
proof -
  have check: "pt_check (set_hart_tlb t c) = pt_check c" by (simp add: fun_eq_iff pt_check_def)
  have "pt_find (set_hart_tlb t c) vm info b n base = pt_find c vm info b n base" for vm info b n base
  proof (induction n arbitrary: base)
    case (Suc n)
    show ?case unfolding pt_find.simps Suc.IH check set_hart_tlb_fields ..
  qed simp
  then have search: "pt_search (set_hart_tlb t c) = pt_search c" by (simp add: fun_eq_iff pt_search_def pt_levels_def)
  have outcome: "pt_outcome (set_hart_tlb t c) = pt_outcome c" unfolding fun_eq_iff pt_outcome_def set_hart_tlb_fields by simp
  have stage: "stage1_vm (set_hart_tlb t c) = stage1_vm c" by (simp add: fun_eq_iff stage1_vm_def)
  show "abs_walk (set_hart_tlb t c) = abs_walk c" "tables_in_memory (set_hart_tlb t c) = tables_in_memory c"
    unfolding fun_eq_iff abs_walk_def tables_in_memory_def set_hart_tlb_fields search outcome stage by simp_all
qed

lemma tag_page: "(drop_bit 12 w OR TLB_CHECK_TRIGGERS) AND NOT TLB_CHECK_TRIGGERS = drop_bit 12 w" "drop_bit 12 w AND NOT TLB_CHECK_TRIGGERS = drop_bit 12 w"
proof -
  have "TLB_CHECK_TRIGGERS = 2 ^ 63" by simp
  then have c: "bit TLB_CHECK_TRIGGERS n \<longleftrightarrow> n = 63" for n using bit_exp_iff [where 'a = "64 word", of 63 n] by auto
  have top: "n \<noteq> 63" if "bit (drop_bit 12 w) n" for n using that by (auto simp: bit_drop_bit_eq dest: bit_imp_le_length)
  show "(drop_bit 12 w OR TLB_CHECK_TRIGGERS) AND NOT TLB_CHECK_TRIGGERS = drop_bit 12 w" "drop_bit 12 w AND NOT TLB_CHECK_TRIGGERS = drop_bit 12 w"
    by (rule bit_word_eqI, simp only: bit_and_iff bit_or_iff bit_not_iff c possible_bit_word, use top in blast)+
qed

text \<open>What a refill after a miss changes.\<close>

lemma refill_cases:
  assumes refill: "refill_tlb w paddr LOAD m c = Some (e, c')" and wf: "tlb_wf (hart_tlb c)"
    and miss: "\<not> tlb_hit (tlb_load_tag (hart_tlb c)) w"
  shows "\<exists>t. c' = set_hart_tlb t c \<and> tlb_wf t \<and> (\<forall>v. tlb_hit (tlb_load_tag t) v \<longrightarrow> drop_bit 12 v = drop_bit 12 w \<or>
    tlb_hit (tlb_load_tag (hart_tlb c)) v \<and> tlb_data t ! tlb_index v = tlb_data (hart_tlb c) ! tlb_index v)"
proof (cases "in_mprv c")
  case True
  then have "c' = c" using refill by (simp add: refill_tlb_def Let_def)
  then show ?thesis using wf by (intro exI [of _ "hart_tlb c"]) (simp add: set_hart_tlb_def hart_tlb_def)
next
  case False
  let ?i = "tlb_index w" and ?g = "hart_tlb c"
  define tag where "tag = (if check_triggers_load m then drop_bit 12 w OR TLB_CHECK_TRIGGERS else drop_bit 12 w)"
  obtain hom where hom: "pmp_homogeneous (pmp c) (paddr AND NOT (4096 - 1)) 4096 = Some hom"
    using refill False by (auto simp: refill_tlb_def Let_def split: bind_splits)
  define t where "t = (if hom then tlb_set_tag LOAD ?i tag (tlb_evict ?i (drop_bit 12 w) ?g) else tlb_evict ?i (drop_bit 12 w) ?g)"
  let ?t = "t\<lparr>tlb_data := (tlb_data t)[?i := (paddr - w, paddr - w)]\<rparr>"
  have c': "c' = set_hart_tlb ?t c" using refill False hom by (auto simp: refill_tlb_def Let_def t_def tag_def)
  have out: "tlb_load_tag ?g ! ?i AND NOT TLB_CHECK_TRIGGERS \<noteq> drop_bit 12 w" using miss by (auto simp: tlb_hit_def)
  have tags: "tlb_load_tag t = (tlb_load_tag ?g)[?i := if hom then tag else - 1]" "tlb_data t = tlb_data ?g"
    using out by (simp_all add: t_def tlb_set_tag_def tlb_evict_def Let_def)
  have len: "tlb_wf ?t" using wf by (simp add: t_def tlb_set_tag_def tlb_evict_def Let_def tlb_wf_def)
  have page: "drop_bit 12 v = drop_bit 12 w" if "tlb_hit (tlb_load_tag t) v" "tlb_index v = ?i" for v
    using that empty_tag [of v] tag_page [of w] wf tlb_index_less [of w] by (auto simp: tlb_hit_def tags tag_def tlb_wf_def split: if_splits)
  have "drop_bit 12 v = drop_bit 12 w \<or> tlb_hit (tlb_load_tag ?g) v \<and> tlb_data ?t ! tlb_index v = tlb_data ?g ! tlb_index v"
    if "tlb_hit (tlb_load_tag t) v" for v
    using that page by (cases "tlb_index v = ?i") (auto simp: tlb_hit_def tags)
  then show ?thesis using c' len by (intro exI [of _ ?t]) simp
qed

lemma refill_sound:
  assumes refill: "refill_tlb w paddr LOAD m c = Some (e, c')" and wf: "tlb_wf (hart_tlb c)" and miss: "\<not> tlb_hit (tlb_load_tag (hart_tlb c)) w"
    and sound: "tlb_sound c b" and walk: "abs_walk c (load_info c w) b = (Inr r, b)" "tables_in_memory c (load_info c w) b"
    and paddr: "paddr = r OR (w AND mask 12)" "pmp_ok (pmp c) paddr len LOAD (effective_priv (load_info c w))" "b r \<noteq> None"
    and len: "0 < len" "unat w mod 4096 + len \<le> 4096"
  shows "\<exists>t. c' = set_hart_tlb t c \<and> tlb_wf t \<and> tlb_sound c' b"
proof -
  obtain t where t: "c' = set_hart_tlb t c" "tlb_wf t"
    and hits: "\<And>v. tlb_hit (tlb_load_tag t) v \<Longrightarrow> drop_bit 12 v = drop_bit 12 w \<or>
      tlb_hit (tlb_load_tag (hart_tlb c)) v \<and> tlb_data t ! tlb_index v = tlb_data (hart_tlb c) ! tlb_index v"
    using refill_cases [OF refill wf miss] by blast
  note al = abs_walk_aligned [OF walk(1)]
  note P = page_or [OF al, of w, folded paddr(1)]
  have "\<exists>r. abs_walk c (load_info c v) b = (Inr r, b) \<and> fst (tlb_data t ! tlb_index v) + v = r OR (v AND mask 12) \<and>
       pmp_homogeneous (pmp c) r 4096 = Some True \<and>
       (\<forall>n. 0 < n \<longrightarrow> unat v mod 4096 + n \<le> 4096 \<longrightarrow> pmp_ok (pmp c) (r OR (v AND mask 12)) n LOAD (effective_priv (load_info c v))) \<and> b r \<noteq> None"
    if hit: "tlb_hit (tlb_load_tag t) v" for v
  proof (cases "drop_bit 12 v = drop_bit 12 w")
    case True
    note R = refill_hit [OF refill wf miss True, unfolded t(1) set_hart_tlb_fields, OF hit]
    have hom: "pmp_homogeneous (pmp c) r 4096 = Some True" using R(1) P(3) by simp
    have "abs_walk c (load_info c v) b = (Inr r, b)"
      using abs_walk_again(1) [OF walk, of v] True by (simp add: load_info_vaddr)
    moreover have "fst (tlb_data t ! tlb_index v) + v = r OR (v AND mask 12)" unfolding R(2) paddr(1) by (rule page_parts [OF True al])
    moreover have "pmp_ok (pmp c) (r OR (v AND mask 12)) n LOAD (effective_priv (load_info c v))" if "0 < n" "unat v mod 4096 + n \<le> 4096" for n
      using paddr(2) unfolding paddr(1) homogeneous_page [OF hom al len] homogeneous_page [OF hom al that] load_info_mode(2) [of c v w] .
    ultimately show ?thesis using hom paddr(3) by blast
  next
    case False
    then have "tlb_hit (tlb_load_tag (hart_tlb c)) v" and data: "tlb_data t ! tlb_index v = tlb_data (hart_tlb c) ! tlb_index v" using hits [OF hit] by blast+
    then show ?thesis using sound [unfolded tlb_sound_def] unfolding data by blast
  qed
  then have "tlb_sound c' b" unfolding t(1) tlb_sound_def set_hart_tlb_fields load_info_tlb abs_walk_tlb set_hart_tlb_homogeneous by blast
  then show ?thesis using t by blast
qed

lemma refill_defined: "refill_tlb v p LOAD m (set_hart_tlb t c) = None \<longleftrightarrow> refill_tlb v p LOAD m c = None"
  unfolding refill_tlb_def Let_def load_info_tlb set_hart_tlb_homogeneous by (simp split: bind_splits)

section \<open>Transparency\<close>

text \<open>What a load from an address must satisfy: it stays in a page, and the tables for its address are in memory.\<close>

definition load_ok :: "mmu_csrs \<Rightarrow> (u64 \<Rightarrow> u8 option) \<Rightarrow> u64 \<times> nat \<Rightarrow> bool" where
  "load_ok c b x \<longleftrightarrow> 0 < snd x \<and> unat (fst x) mod 4096 + snd x \<le> 4096 \<and> tables_in_memory c (load_info c (fst x)) b"

context simif
begin

lemma mmio_one_keeps:
  assumes "sim_inv s" "byte s a = None" "unat a mod 4096 + n \<le> 4096" "mmio_load_one I c a n s = (r, s')"
  shows "sim_inv s' \<and> byte s' = byte s"
  using mmio_load_keeps [OF assms(1-3)] assms by (auto simp: mmio_load_one_def split: if_splits)

lemma mmio_bytes_keep:
  assumes "sim_inv s" "byte s a = None" "unat a mod 4096 + n \<le> 4096" "\<forall>i \<in> set is. i < n" "mmio_load_bytes I c a is s = (r, s')"
  shows "sim_inv s' \<and> byte s' = byte s"
  using assms
proof (induction "is" arbitrary: s r s')
  case (Cons i "is")
  have i: "i < 4096 - unat a mod 4096" using Cons.prems(3,4) by auto
  have "byte s (a + of_nat i) = None" using byte_page [OF Cons.prems(1), of "a + of_nat i" a] in_page(1) [of i a] i Cons.prems(2) by simp
  moreover have "unat (a + of_nat i) mod 4096 + 1 \<le> 4096" using mod_less_divisor [of 4096 "unat (a + of_nat i)"] by linarith
  moreover obtain r1 s1 where one: "mmio_load_one I c (a + of_nat i) 1 s = (r1, s1)" by (cases "mmio_load_one I c (a + of_nat i) 1 s")
  ultimately have s1: "sim_inv s1" "byte s1 = byte s" using mmio_one_keeps [OF Cons.prems(1)] by blast+
  obtain r2 s2 where two: "mmio_load_bytes I c a is s1 = (r2, s2)" by (cases "mmio_load_bytes I c a is s1")
  show ?case using Cons.IH [OF s1(1) _ Cons.prems(3) _ two] Cons.prems(2,4,5) s1 one two by (cases r1) auto
qed simp

lemma mmio_keeps:
  assumes "sim_inv s" "byte s a = None" "unat a mod 4096 + n \<le> 4096" "mmio_load I c a n s = (r, s')"
  shows "sim_inv s' \<and> byte s' = byte s"
  using assms mmio_one_keeps [OF assms(1-3)] mmio_bytes_keep [OF assms(1-3), of "[0..<n]"] by (auto simp: mmio_load_def split: if_splits)

lemma load_hit:
  assumes hit: "tlb_hit (tlb_load_tag (hart_tlb c)) v" and sound: "tlb_sound c (byte s)" and s: "sim_inv s" and n: "0 < n" "unat v mod 4096 + n \<le> 4096"
  obtains r d s' where "abs_walk c (load_info c v) (byte s) = (Inr r, byte s)" "pmp_homogeneous (pmp c) r 4096 = Some True"
    "pmp_ok (pmp c) (r OR (v AND mask 12)) n LOAD (effective_priv (load_info c v))"
    "\<And>s1. sim_inv s1 \<Longrightarrow> byte s1 = byte s \<Longrightarrow> \<exists>s2. host_load I (r OR (v AND mask 12)) n s1 = (Host d, s2) \<and> sim_inv s2 \<and> byte s2 = byte s"
    "load_slow_path_intrapage I n (load_info c v) (c, m) s = (Inr (d, (c, m)), s')" "sim_inv s'" "byte s' = byte s"
proof -
  obtain r where r: "abs_walk c (load_info c v) (byte s) = (Inr r, byte s)" "fst (tlb_data (hart_tlb c) ! tlb_index v) + v = r OR (v AND mask 12)"
    "pmp_homogeneous (pmp c) r 4096 = Some True" "pmp_ok (pmp c) (r OR (v AND mask 12)) n LOAD (effective_priv (load_info c v))" "byte s r \<noteq> None"
    using sound hit n unfolding tlb_sound_def by blast
  let ?p = "r OR (v AND mask 12)"
  let ?d = "map (\<lambda>i. the (byte s (?p + of_nat i))) [0..<n]"
  note P = page_or [OF abs_walk_aligned [OF r(1)], of v]
  have load: "\<exists>s2. host_load I ?p n s1 = (Host ?d, s2) \<and> sim_inv s2 \<and> byte s2 = byte s" if "sim_inv s1" "byte s1 = byte s" for s1
    using load_mem [OF that(1), of ?p n] byte_page [OF that(1), of ?p r] P r(5) that(2) n(2) by auto
  obtain s' where s': "host_load I ?p n s = (Host ?d, s')" "sim_inv s'" "byte s' = byte s" using load [OF s refl] by blast
  have "load_slow_path_intrapage I n (load_info c v) (c, m) s = (Inr (?d, (c, m)), s')"
    using hit r(2) s'(1) unfolding load_slow_path_intrapage_def Let_def by (simp add: mreturn_def)
  then show ?thesis using that r load s' by blast
qed

text \<open>Every load keeps the cache sound, and the tables of all addresses in memory.\<close>

lemma load_step:
  assumes s: "sim_inv s" and tlb: "tlb_wf (hart_tlb c)" "tlb_sound c (byte s)" "\<not> tracer_interested (tracer m) LOAD" "\<not> effective_virt (load_info c v)"
    and ok: "load_ok c (byte s) (v, n)" and run: "load_slow_path_intrapage I n (load_info c v) (c, m) s = (res, s')"
  shows "sim_inv s' \<and> (\<forall>w. tables_in_memory c (load_info c w) (byte s) \<longrightarrow> tables_in_memory c (load_info c w) (byte s')) \<and>
    (\<exists>t. load_after (c, m) res = (set_hart_tlb t c, m) \<and> tlb_wf t \<and> tlb_sound (set_hart_tlb t c) (byte s'))"
proof -
  have id: "set_hart_tlb (hart_tlb c) c = c" by (simp add: set_hart_tlb_def hart_tlb_def)
  have len: "0 < n" "unat v mod 4096 + n \<le> 4096" and tabs: "tables_in_memory c (load_info c v) (byte s)" using ok by (simp_all add: load_ok_def)
  show ?thesis
  proof (cases "tlb_hit (tlb_load_tag (hart_tlb c)) v")
    case True
    from load_hit [OF this tlb(2) s len, of m] obtain d s2 where
      "load_slow_path_intrapage I n (load_info c v) (c, m) s = (Inr (d, (c, m)), s2)" "sim_inv s2" "byte s2 = byte s" by metis
    then show ?thesis using run tlb id by (intro conjI exI [of _ "hart_tlb c"]) (auto simp: load_after_def)
  next
    case miss: False
    obtain x s1 where walk: "walk I c (load_info c v) s = (x, s1)" "sim_inv s1" "(x, byte s1) = abs_walk c (load_info c v) (byte s)"
      using walk_abs [OF tlb(4) s tabs] by blast
    note W = walk(3) [symmetric]
    have kept: "tlb_sound c (byte s1)" "\<And>w. tables_in_memory c (load_info c w) (byte s) \<Longrightarrow> tables_in_memory c (load_info c w) (byte s1)"
      using sound_walk [OF tlb(2) W] abs_walk_kept(1) [OF W] by blast+
    have same: ?thesis if "sim_inv s'" "byte s' = byte s1" "load_after (c, m) res = (c, m)"
      using that kept tlb id by (intro conjI exI [of _ "hart_tlb c"]) auto
    show ?thesis
    proof (cases x)
      case (Inl e)
      then have "res = Inl e" "s' = s1" using run walk(1) unfolding load_slow [of "load_info c v" c n m s, simplified, OF miss] mmu_translate_def by (simp_all add: mbind_def)
      then show ?thesis using walk(2) by (intro same) (simp_all add: load_after_def)
    next
      case (Inr r)
      let ?p = "r OR (v AND mask 12)"
      note P = page_or [OF abs_walk_aligned [OF W [unfolded Inr]], of v]
      have again: "abs_walk c (load_info c v) (byte s1) = (Inr r, byte s1)" "tables_in_memory c (load_info c v) (byte s1)"
        using abs_walk_again [OF W [unfolded Inr] tabs, of v] by (simp_all add: load_info_vaddr)
      show ?thesis
      proof (cases "pmp_ok (pmp c) ?p n LOAD (effective_priv (load_info c v))")
        case False
        then have "\<exists>e. res = Inl e" "s' = s1" using run walk(1) Inr unfolding load_slow [of "load_info c v" c n m s, simplified, OF miss] mmu_translate_def low12
          by (auto simp: mbind_def throw_access_exception_def throw_trap_def mfail_def Let_def)
        then show ?thesis using walk(2) by (intro same) (auto simp: load_after_def)
      next
        case pmp: True
        then have tr: "mmu_translate I c (load_info c v) n s = (Inr ?p, s1)"
          using walk(1) Inr unfolding mmu_translate_def low12 by (simp add: mbind_def mreturn_def Let_def)
        note slow = run [unfolded load_slow [of "load_info c v" c n m s, simplified, OF miss] mbind_def tr prod.case sum.case]
        show ?thesis
        proof (cases "byte s1 ?p = None")
          case True
          obtain s2 where s2: "host_load I ?p n s1 = (Null_pointer, s2)" "sim_inv s2" "byte s2 = byte s1" using load_null [OF walk(2) True] by blast
          obtain o3 s3 where s3: "mmio_load I c ?p n s2 = (o3, s3)" by (cases "mmio_load I c ?p n s2")
          have "sim_inv s3 \<and> byte s3 = byte s2" by (rule mmio_keeps [OF s2(2) _ _ s3]) (use True s2(3) P(2) len(2) in simp_all)
          moreover have "s' = s3" "load_after (c, m) res = (c, m)"
            using slow s2 s3 by (cases o3; auto simp: mreturn_def throw_trap_def mfail_def load_after_def)+
          ultimately show ?thesis using s2 by (intro same) simp_all
        next
          case False
          obtain d s2 where s2: "host_load I ?p n s1 = (Host d, s2)" "sim_inv s2" "byte s2 = byte s1"
            using load_mem [OF walk(2) False, of n] P(2) len(2) by auto
          show ?thesis
          proof (cases "refill_tlb v ?p LOAD m c")
            case None
            then have "\<exists>e. res = Inl e" "s' = s2" using slow s2(1) tlb(3) by (auto simp: after_host_access_def mfail_def)
            then show ?thesis using s2 by (intro same) (auto simp: load_after_def)
          next
            case (Some y)
            then obtain e c' where y: "refill_tlb v ?p LOAD m c = Some (e, c')" by (cases y) auto
            have res: "res = Inr (d, (c', m))" "s' = s2" using slow s2(1) tlb(3) y by (auto simp: after_host_access_def mreturn_def)
            have "byte s1 r \<noteq> None" using byte_page [OF walk(2), of ?p r] P(1) False by simp
            from refill_sound [OF y tlb(1) miss kept(1) again refl pmp this len] show ?thesis
              using s2 kept(2) by (auto simp: load_after_def res)
          qed
        qed
      qed
    qed
  qed
qed

text \<open>The bytes that a load returns, or its trap, are those of the load that finds the cache flushed.\<close>

lemma load_same:
  assumes s: "sim_inv s" and tlb: "tlb_sound c (byte s)" "\<not> tracer_interested (tracer m) LOAD" "\<not> effective_virt (load_info c v)"
    and ok: "load_ok c (byte s) (v, n)"
  defines "one \<equiv> load_slow_path_intrapage I n (load_info c v) (c, m) s"
    and "two \<equiv> load_slow_path_intrapage I n (load_info c v) (set_hart_tlb (flush_tlb (hart_tlb c)) c, m) s"
  shows "map_sum id fst (fst one) = map_sum id fst (fst two) \<and> byte (snd one) = byte (snd two)"
proof -
  let ?c = "set_hart_tlb (flush_tlb (hart_tlb c)) c"
  have len: "0 < n" "unat v mod 4096 + n \<le> 4096" and tabs: "tables_in_memory c (load_info c v) (byte s)" using ok by (simp_all add: load_ok_def)
  have cold: "\<not> tlb_hit (tlb_load_tag (hart_tlb ?c)) v" by (simp add: no_hit_flushed)
  note slow = load_slow [of "load_info c v" ?c n m s, simplified, OF cold [simplified]]
  show ?thesis
  proof (cases "tlb_hit (tlb_load_tag (hart_tlb c)) v")
    case True
    obtain r d s' where r: "abs_walk c (load_info c v) (byte s) = (Inr r, byte s)" "pmp_homogeneous (pmp c) r 4096 = Some True"
      "pmp_ok (pmp c) (r OR (v AND mask 12)) n LOAD (effective_priv (load_info c v))"
      and load: "\<And>s1. sim_inv s1 \<Longrightarrow> byte s1 = byte s \<Longrightarrow> \<exists>s2. host_load I (r OR (v AND mask 12)) n s1 = (Host d, s2) \<and> sim_inv s2 \<and> byte s2 = byte s"
      and one: "load_slow_path_intrapage I n (load_info c v) (c, m) s = (Inr (d, (c, m)), s')" "byte s' = byte s"
      by (rule load_hit [OF True tlb(1) s len, of m]) blast
    let ?p = "r OR (v AND mask 12)"
    obtain s1 where s1: "mmu_translate I c (load_info c v) n s = (Inr ?p, s1)" "sim_inv s1" "byte s1 = byte s"
      using walk_abs [OF tlb(3) s tabs] r translate_abs [OF tlb(3) s tabs, of n ?p] by auto
    obtain s2 where s2: "host_load I ?p n s1 = (Host d, s2)" "byte s2 = byte s" using load [OF s1(2,3)] by blast
    have "pmp_homogeneous (pmp ?c) (?p AND NOT (4096 - 1)) 4096 = Some True"
      unfolding set_hart_tlb_homogeneous page_or(3) [OF abs_walk_aligned [OF r(1)], of v] by (rule r(2))
    then have "\<exists>h. after_host_access ?p n (load_info c v) (?c, m) = Some h"
      using tlb(2) by (cases "in_mprv ?c") (auto simp: after_host_access_def refill_tlb_def Let_def)
    then obtain h where "after_host_access ?p n (load_info c v) (?c, m) = Some h" by blast
    then have "two = (Inr (d, h), s2)" unfolding two_def slow using s1(1) s2(1) by (simp add: mbind_def mreturn_def)
    then show ?thesis using one s2(2) by (simp add: one_def)
  next
    case False
    have "map_sum id fst (fst one) = map_sum id fst (fst two) \<and> snd one = snd two"
      unfolding one_def two_def slow load_slow [of "load_info c v" c n m s, simplified, OF False] mmu_translate_tlb mmio_tlb
      using tlb(2) refill_defined [of v _ m "flush_tlb (hart_tlb c)" c]
      by (auto dest: refill_defined [where t = "flush_tlb (hart_tlb c)", THEN iffD2] simp: mbind_def mreturn_def mfail_def throw_trap_def after_host_access_def split: prod.splits sum.splits host.splits option.splits)
    then show ?thesis by simp
  qed
qed

lemma run_inv:
  assumes "load_run I ops (c, m) s = (h, s')" "sim_inv s" "tlb_wf (hart_tlb c)" "tlb_sound c (byte s)" "\<not> tracer_interested (tracer m) LOAD"
    "\<not> effective_virt (load_info c v)" "\<forall>x \<in> set ops. load_ok c (byte s) x" "load_ok c (byte s) (v, n)"
  shows "sim_inv s' \<and> (\<exists>t. h = (set_hart_tlb t c, m) \<and> tlb_wf t \<and> tlb_sound (set_hart_tlb t c) (byte s')) \<and> load_ok c (byte s') (v, n)"
  using assms
proof (induction ops arbitrary: c s)
  case Nil
  have "set_hart_tlb (hart_tlb c) c = c" by (simp add: set_hart_tlb_def hart_tlb_def)
  then show ?case using Nil by (auto intro!: exI [of _ "hart_tlb c"])
next
  case (Cons x ops)
  obtain w k where x: "x = (w, k)" by (cases x)
  obtain res s1 where one: "load_slow_path_intrapage I k (load_info c w) (c, m) s = (res, s1)" by (cases "load_slow_path_intrapage I k (load_info c w) (c, m) s")
  have virt: "\<not> effective_virt (load_info c w)" using Cons.prems(6) load_info_mode(1) [of c v w] by simp
  have "load_ok c (byte s) (w, k)" using Cons.prems(7) x by simp
  from load_step [OF Cons.prems(2-5) virt this one] obtain t where
    s1: "sim_inv s1" "\<And>u. tables_in_memory c (load_info c u) (byte s) \<Longrightarrow> tables_in_memory c (load_info c u) (byte s1)"
    and t: "load_after (c, m) res = (set_hart_tlb t c, m)" "tlb_wf t" "tlb_sound (set_hart_tlb t c) (byte s1)" by blast
  have rest: "load_run I ops (set_hart_tlb t c, m) s1 = (h, s')" using Cons.prems(1) by (simp add: x one t(1))
  have again: "set_hart_tlb t' (set_hart_tlb t c) = set_hart_tlb t' c" for t' by (simp add: set_hart_tlb_def)
  have keep: "load_ok (set_hart_tlb t c) (byte s1) y" if "load_ok c (byte s) y" for y using that s1(2) by (simp add: load_ok_def)
  from Cons.IH [OF rest s1(1)] t(2,3) Cons.prems(5-8) keep show ?case by (auto simp: again load_ok_def)
qed

text \<open>After any sequence of loads that started with an empty cache, no load can tell the cache from a flushed one.\<close>

lemma loads_transparent:
  assumes "load_run I ops (c, m) s = ((c', m'), s')" "sim_inv s" "tlb_wf t" "hart_tlb c = flush_tlb t" "\<not> tracer_interested (tracer m) LOAD"
    "\<not> effective_virt (load_info c v)" "\<forall>x \<in> set ((v, n) # ops). load_ok c (byte s) x"
  defines "one \<equiv> load_slow_path_intrapage I n (load_info c' v) (c', m') s'"
    and "two \<equiv> load_slow_path_intrapage I n (load_info c' v) (set_hart_tlb (flush_tlb (hart_tlb c')) c', m') s'"
  shows "map_sum id fst (fst one) = map_sum id fst (fst two) \<and> byte (snd one) = byte (snd two)"
proof -
  have "tlb_wf (hart_tlb c)" using assms(3,4) by (simp add: tlb_wf_def flush_tlb_def flush_icache_def)
  with run_inv [OF assms(1,2) _ sound_flushed [OF assms(4)] assms(5,6)] assms(7) obtain t' where
    "sim_inv s'" "c' = set_hart_tlb t' c" "m' = m" "tlb_sound c' (byte s')" "load_ok c (byte s') (v, n)" by auto
  then show ?thesis using load_same [of s' c' m' v n] assms(5,6) unfolding one_def two_def by (simp add: load_ok_def)
qed

end

end
