(* ===== verification/Pmp_Regs.thy ===== *)
theory Pmp_Regs
  imports Pmp_Check
begin

text \<open>
  The registers over time: what every write keeps, entries that are locked for good, and the state after reset.
\<close>

section \<open>Well-formed registers\<close>

definition pmp_entry_wf :: "pmp_t \<Rightarrow> pmpaddr_csr_t \<Rightarrow> bool" where
  "pmp_entry_wf p e \<longleftrightarrow> pmp_val e < 2 ^ 54 \<and> pmp_cfg e AND 0x60 = 0 \<and>
     (\<not> get_mml p \<longrightarrow> pmp_cfg e AND PMP_W \<noteq> 0 \<longrightarrow> pmp_cfg e AND PMP_R \<noteq> 0) \<and>
     (lg_pmp_granularity p \<noteq> 2 \<longrightarrow> pmp_cfg e AND PMP_A \<noteq> PMP_NA4)"

definition pmp_wf :: "pmp_t \<Rightarrow> bool" where
  "pmp_wf p \<longleftrightarrow> length (pmpaddr p) = max_pmp \<and> n_pmp p \<le> max_pmp \<and> 2 \<le> lg_pmp_granularity p \<and> lg_pmp_granularity p \<le> 63 \<and>
     (pmp_xlen p = 32 \<or> pmp_xlen p = 64) \<and> list_all (pmp_entry_wf p) (pmpaddr p)"

text \<open>The writes that software can make.\<close>

datatype pmp_write = Write_pmpaddr nat u64 | Write_pmpcfg nat u64 | Write_mseccfg u64

definition pmp_apply :: "pmp_write \<Rightarrow> pmp_t \<Rightarrow> pmp_t" where
  "pmp_apply w p =
     (case w of Write_pmpaddr i v \<Rightarrow> snd (pmpaddr_write i v p)
      | Write_pmpcfg n v \<Rightarrow> snd (pmpcfg_write n v p)
      | Write_mseccfg v \<Rightarrow> snd (mseccfg_write v p))"

text \<open>A write to \<open>pmpcfg\<close> is a sequence of writes to entries.\<close>

lemma pmpcfg_write_cases:
  assumes entry: "\<And>i b q. Q q \<Longrightarrow> i < n_pmp q \<Longrightarrow> Q (pmpcfg_write_entry i b q)" and p: "Q p"
    and flush: "\<And>q. Q q \<Longrightarrow> Q (q\<lparr>pmp_tlb := flush_tlb (pmp_tlb q)\<rparr>)"
  shows "Q (snd (pmpcfg_write n v p))"
proof -
  let ?f = "\<lambda>i (write_success, p). if i < n_pmp p then (True, pmpcfg_write_entry i (ucast (drop_bit (8 * (i - n * 4)) v)) p) else (write_success, p)"
  have "Q (snd (fold ?f is (ok, p)))" for "is" ok
    using p by (induction "is" arbitrary: ok p) (auto intro: entry)
  then show ?thesis unfolding pmpcfg_write_def Let_def using p flush by (auto split: prod.split simp: split_beta)
qed

lemma u8_eq_iff:
  "(a :: u8) = b \<longleftrightarrow> bit a 0 = bit b 0 \<and> bit a 1 = bit b 1 \<and> bit a 2 = bit b 2 \<and> bit a 3 = bit b 3 \<and>
     bit a 4 = bit b 4 \<and> bit a 5 = bit b 5 \<and> bit a 6 = bit b 6 \<and> bit a 7 = bit b 7"
  (is "_ \<longleftrightarrow> ?bits")
proof
  assume ?bits
  show "a = b"
  proof (rule bit_word_eqI)
    fix n assume "n < LENGTH(8)"
    then have "n = 0 \<or> n = 1 \<or> n = 2 \<or> n = 3 \<or> n = 4 \<or> n = 5 \<or> n = 6 \<or> n = 7" by (simp, arith)
    with \<open>?bits\<close> show "bit a n = bit b n" by (elim disjE) simp_all
  qed
qed simp

lemma cfg_fields:
  "(c :: u8) AND PMP_R = 0 \<longleftrightarrow> \<not> bit c 0" "c AND PMP_W = 0 \<longleftrightarrow> \<not> bit c 1" "c AND PMP_X = 0 \<longleftrightarrow> \<not> bit c 2"
  "c AND PMP_L = 0 \<longleftrightarrow> \<not> bit c 7" "c AND 0x60 = 0 \<longleftrightarrow> \<not> bit c 5 \<and> \<not> bit c 6"
  "c AND PMP_A = 0 \<longleftrightarrow> \<not> bit c 3 \<and> \<not> bit c 4" "c AND PMP_A = PMP_TOR \<longleftrightarrow> bit c 3 \<and> \<not> bit c 4"
  "c AND PMP_A = PMP_NA4 \<longleftrightarrow> \<not> bit c 3 \<and> bit c 4" "c AND PMP_A = PMP_NAPOT \<longleftrightarrow> bit c 3 \<and> bit c 4"
  by (simp_all add: u8_eq_iff bit_and_iff)

lemma legalize_bits:
  "bit (pmpcfg_legalize p b) 0 \<longleftrightarrow> bit b 0"
  "bit (pmpcfg_legalize p b) 1 \<longleftrightarrow> bit b 1 \<and> (get_mml p \<or> bit b 0)"
  "bit (pmpcfg_legalize p b) 2 \<longleftrightarrow> bit b 2"
  "bit (pmpcfg_legalize p b) 3 \<longleftrightarrow> bit b 3 \<or> lg_pmp_granularity p \<noteq> 2 \<and> bit b 4"
  "bit (pmpcfg_legalize p b) 4 \<longleftrightarrow> bit b 4"
  "\<not> bit (pmpcfg_legalize p b) 5" "\<not> bit (pmpcfg_legalize p b) 6"
  "bit (pmpcfg_legalize p b) 7 \<longleftrightarrow> bit b 7"
  by (auto simp: pmpcfg_legalize_def Let_def cfg_fields bit_and_iff bit_or_iff bit_not_iff)

lemma mseccfg_fields:
  "get_mml p \<longleftrightarrow> bit (mseccfg p) 0" "get_mmwp p \<longleftrightarrow> bit (mseccfg p) 1" "get_rlb p \<longleftrightarrow> bit (mseccfg p) 2"
  using and_exp_eq_0_iff_not_bit [of "mseccfg p" 0] and_exp_eq_0_iff_not_bit [of "mseccfg p" 1] and_exp_eq_0_iff_not_bit [of "mseccfg p" 2]
  by (simp_all add: get_mml_def get_mmwp_def get_rlb_def)

lemma mseccfg_write_fields:
  assumes "n_pmp p \<noteq> 0"
  shows "get_mml (snd (mseccfg_write v p)) \<longleftrightarrow> get_mml p \<or> bit v 0"
    and "get_mmwp (snd (mseccfg_write v p)) \<longleftrightarrow> get_mmwp p \<or> bit v 1"
    and "get_rlb (snd (mseccfg_write v p)) \<longleftrightarrow> (if (\<exists>i < n_pmp p. is_locked p i) \<and> \<not> get_rlb p then False else bit v 2)"
  using assms unfolding mseccfg_fields mseccfg_write_def
  by (auto simp: Let_def bit_simps list_ex_iff mseccfg_fields(3) [unfolded get_rlb_def])

lemma pmp_entry_wf_cfg:
  "pmp_val e < 2 ^ 54 \<Longrightarrow> pmp_entry_wf p (e\<lparr>pmp_cfg := pmpcfg_legalize p b\<rparr>)"
  by (auto simp: pmp_entry_wf_def cfg_fields legalize_bits simp del: One_nat_def)

lemma pmp_wf_entry: "pmp_wf p \<Longrightarrow> i < n_pmp p \<Longrightarrow> pmp_entry_wf p (pmpaddr p ! i)"
  by (auto simp: pmp_wf_def list_all_length)

lemma pmpcfg_write_entry_wf: "pmp_wf p \<Longrightarrow> i < n_pmp p \<Longrightarrow> pmp_wf (pmpcfg_write_entry i b p)"
proof -
  assume wf: "pmp_wf p" and i: "i < n_pmp p"
  have "pmp_entry_wf p (pmpaddr p ! i)" using wf i by (rule pmp_wf_entry)
  then have "pmp_entry_wf p ((pmpaddr p ! i)\<lparr>pmp_cfg := pmpcfg_legalize p b\<rparr>)"
    by (intro pmp_entry_wf_cfg) (simp add: pmp_entry_wf_def)
  moreover have "pmp_entry_wf (p\<lparr>pmpaddr := x\<rparr>) = pmp_entry_wf p" for x
    by (intro ext) (simp add: pmp_entry_wf_def get_mml_def)
  ultimately show ?thesis using wf
    by (auto simp: pmpcfg_write_entry_def Let_def pmp_wf_def intro: list_all_update)
qed

lemma pmpaddr_write_wf: "pmp_wf p \<Longrightarrow> pmp_wf (snd (pmpaddr_write i v p))"
proof (cases "i < n_pmp p")
  case True
  assume wf: "pmp_wf p"
  have "v AND (push_bit 54 1 - 1) < 2 ^ 54"
    using and_mask_less' [of 54 v] by (simp add: mask_eq_exp_minus_1)
  moreover have "pmp_entry_wf p (pmpaddr p ! i)" using wf True by (rule pmp_wf_entry)
  ultimately have "pmp_entry_wf p ((pmpaddr p ! i)\<lparr>pmp_val := v AND (push_bit 54 1 - 1)\<rparr>)"
    by (simp add: pmp_entry_wf_def)
  moreover have "pmp_entry_wf (p\<lparr>pmpaddr := x, pmp_tlb := t\<rparr>) = pmp_entry_wf p" for x t
    by (intro ext) (simp add: pmp_entry_wf_def get_mml_def)
  ultimately show ?thesis using wf
    unfolding pmpaddr_write_def Let_def by (auto simp: pmp_wf_def simp del: push_bit_of_1 intro!: list_all_update)
qed (simp add: pmpaddr_write_def Let_def)

lemma mseccfg_write_wf: "pmp_wf p \<Longrightarrow> pmp_wf (snd (mseccfg_write v p))"
proof (cases "n_pmp p = 0")
  case False
  assume wf: "pmp_wf p"
  have "pmp_entry_wf p e \<Longrightarrow> pmp_entry_wf (snd (mseccfg_write v p)) e" for e
    using mseccfg_write_fields(1) [OF False, of v] by (auto simp: pmp_entry_wf_def mseccfg_write_def Let_def)
  then have "list_all (pmp_entry_wf (snd (mseccfg_write v p))) (pmpaddr p)"
    using wf by (auto simp: pmp_wf_def list_all_iff)
  then show ?thesis using wf by (auto simp: pmp_wf_def mseccfg_write_def Let_def)
qed (simp add: mseccfg_write_def)

lemma pmp_wf_flush: "pmp_wf (p\<lparr>pmp_tlb := t\<rparr>) \<longleftrightarrow> pmp_wf p"
  by (simp add: pmp_wf_def pmp_entry_wf_def [abs_def] get_mml_def)

lemma pmp_apply_wf: "pmp_wf p \<Longrightarrow> pmp_wf (pmp_apply w p)"
proof (cases w)
  case (Write_pmpcfg n v)
  assume "pmp_wf p"
  then have "pmp_wf (snd (pmpcfg_write n v p))"
    by (intro pmpcfg_write_cases [of pmp_wf]) (simp_all add: pmpcfg_write_entry_wf pmp_wf_flush)
  then show ?thesis using Write_pmpcfg by (simp add: pmp_apply_def)
qed (simp_all add: pmp_apply_def pmpaddr_write_wf mseccfg_write_wf)

section \<open>Locked entries\<close>

text \<open>What is fixed while the entry \<open>i\<close> is locked and locks cannot be bypassed: its register, and the lower bound it takes from its predecessor.\<close>

definition lock_kept :: "pmp_t \<Rightarrow> nat \<Rightarrow> pmp_t \<Rightarrow> bool" where
  "lock_kept p i q \<longleftrightarrow> n_pmp q = n_pmp p \<and> lg_pmp_granularity q = lg_pmp_granularity p \<and> length (pmpaddr q) = length (pmpaddr p) \<and>
     \<not> get_rlb q \<and> (get_mml p \<longrightarrow> get_mml q) \<and> (get_mmwp p \<longrightarrow> get_mmwp q) \<and> pmpaddr q ! i = pmpaddr p ! i \<and>
     (pmp_mode p i = PMP_TOR \<longrightarrow> i \<noteq> 0 \<longrightarrow> pmp_val (pmpaddr q ! (i - 1)) = pmp_val (pmpaddr p ! (i - 1)))"

lemma lock_kept_refl: "\<not> get_rlb p \<Longrightarrow> lock_kept p i p"
  by (simp add: lock_kept_def)

lemma lock_kept_trans: "lock_kept p i q \<Longrightarrow> lock_kept q i r \<Longrightarrow> lock_kept p i r"
  by (auto simp: lock_kept_def pmp_mode_def)

lemma lock_kept_is_locked: "lock_kept p i q \<Longrightarrow> is_locked q i \<longleftrightarrow> is_locked p i"
  by (simp add: lock_kept_def is_locked_def)

lemma lock_kept_interval:
  assumes "lock_kept p i q"
  shows "pmp_interval q i = pmp_interval p i"
  using assms
  by (cases "i = 0") (auto simp: lock_kept_def pmp_interval_def tor_base_paddr_def tor_paddr_def napot_order_def pmp_mode_def pmp_tor_mask_def)

lemma pmpaddr_write_lock_kept:
  assumes "is_locked p i" "\<not> get_rlb p" "i < max_pmp"
  shows "lock_kept p i (snd (pmpaddr_write j v p))"
proof -
  have "next_locked_and_tor p (i - 1)" if "pmp_mode p i = PMP_TOR" "i \<noteq> 0"
    using assms that by (simp add: next_locked_and_tor_def)
  then show ?thesis using assms
    by (auto simp: lock_kept_def pmpaddr_write_def Let_def nth_update_if get_rlb_def get_mml_def get_mmwp_def)
qed

lemma pmpcfg_write_entry_lock_kept:
  assumes "is_locked p i" "\<not> get_rlb p"
  shows "lock_kept p i (pmpcfg_write_entry j b p)"
  using assms
  by (auto simp: lock_kept_def pmpcfg_write_entry_def Let_def nth_update_if get_rlb_def get_mml_def get_mmwp_def)

lemma pmpcfg_write_lock_kept:
  assumes "is_locked p i" "\<not> get_rlb p"
  shows "lock_kept p i (snd (pmpcfg_write n v p))"
proof (rule pmpcfg_write_cases)
  fix j b q
  assume "lock_kept p i q" "j < n_pmp q"
  then show "lock_kept p i (pmpcfg_write_entry j b q)"
    using assms(1) by (intro lock_kept_trans [OF _ pmpcfg_write_entry_lock_kept]) (simp_all add: lock_kept_is_locked, simp add: lock_kept_def)
next
  fix q assume "lock_kept p i q"
  then show "lock_kept p i (q\<lparr>pmp_tlb := flush_tlb (pmp_tlb q)\<rparr>)"
    by (simp add: lock_kept_def get_rlb_def get_mml_def get_mmwp_def)
qed (simp add: lock_kept_refl assms)

lemma mseccfg_write_lock_kept:
  assumes "is_locked p i" "\<not> get_rlb p" "i < n_pmp p"
  shows "lock_kept p i (snd (mseccfg_write v p))"
proof -
  have "n_pmp p \<noteq> 0" using assms by simp
  note fields = mseccfg_write_fields [OF this, of v]
  have "\<exists>x t. snd (mseccfg_write v p) = p\<lparr>mseccfg := x, pmp_tlb := t\<rparr>"
    using assms(3) unfolding mseccfg_write_def Let_def by (simp split del: if_split) blast
  then obtain x t where w: "snd (mseccfg_write v p) = p\<lparr>mseccfg := x, pmp_tlb := t\<rparr>" by blast
  have "\<not> get_rlb (snd (mseccfg_write v p))" using fields(3) assms by auto
  then show ?thesis using fields(1,2) unfolding w by (simp add: lock_kept_def)
qed

lemma pmp_writes_lock_kept:
  assumes "is_locked p i" "\<not> get_rlb p" "i < n_pmp p" "n_pmp p \<le> max_pmp"
  shows "lock_kept p i (fold pmp_apply ws p)"
proof (induction ws rule: rev_induct)
  case (snoc w ws)
  let ?q = "fold pmp_apply ws p"
  have "is_locked ?q i" "\<not> get_rlb ?q" "i < n_pmp ?q" "i < max_pmp"
    using snoc assms by (simp_all add: lock_kept_is_locked) (simp_all add: lock_kept_def)
  then have "lock_kept ?q i (pmp_apply w ?q)"
    by (cases w) (simp_all add: pmp_apply_def pmpaddr_write_lock_kept pmpcfg_write_lock_kept mseccfg_write_lock_kept)
  then show ?case using snoc lock_kept_trans by simp
qed (simp add: lock_kept_refl assms)

section \<open>Reset\<close>

lemma trailing_ones_ge:
  assumes "\<And>j. j < k \<Longrightarrow> bit m j"
  shows "k \<le> trailing_ones m"
  using assms trailing_ones_end [of m] not_less by blast

lemma legalize_open: "pmpcfg_legalize p 0x1F = 0x1F" "pmpcfg_legalize p 0 = 0"
  by (simp_all add: u8_eq_iff legalize_bits [unfolded One_nat_def])

lemma pmp_state_reset_entries [simp]:
  "i < max_pmp \<Longrightarrow> pmpaddr (pmp_state_reset p) ! i = \<lparr>pmp_val = 0, pmp_cfg = 0\<rparr>"
  "length (pmpaddr (pmp_state_reset p)) = max_pmp" "\<not> get_rlb (pmp_state_reset p)" "\<not> get_mml (pmp_state_reset p)"
  "n_pmp (pmp_state_reset p) = n_pmp p" "pmp_xlen (pmp_state_reset p) = pmp_xlen p"
  by (simp_all add: pmp_state_reset_def get_rlb_def get_mml_def)

lemma pmpcfg_write_entry_frame [simp]:
  "n_pmp (pmpcfg_write_entry i b p) = n_pmp p" "lg_pmp_granularity (pmpcfg_write_entry i b p) = lg_pmp_granularity p"
  "mseccfg (pmpcfg_write_entry i b p) = mseccfg p" "pmp_xlen (pmpcfg_write_entry i b p) = pmp_xlen p"
  by (simp_all add: pmpcfg_write_entry_def Let_def)

text \<open>The entry \<open>0\<close> after a write to the first configuration register.\<close>

lemma pmpcfg_write_first:
  assumes "0 < n_pmp p" "8 \<le> pmp_xlen p"
  shows "pmpaddr (snd (pmpcfg_write 0 v p)) ! 0 = pmpaddr (pmpcfg_write_entry 0 (ucast v) p) ! 0"
    and "n_pmp (snd (pmpcfg_write 0 v p)) = n_pmp p" and "mseccfg (snd (pmpcfg_write 0 v p)) = mseccfg p"
    and "lg_pmp_granularity (snd (pmpcfg_write 0 v p)) = lg_pmp_granularity p"
proof -
  let ?f = "\<lambda>i (write_success, p). if i < n_pmp p then (True, pmpcfg_write_entry i (ucast (drop_bit (8 * (i - 0)) v)) p) else (write_success, p)"
  have rest: "pmpaddr (snd (fold ?f is (ok, q))) ! 0 = pmpaddr q ! 0" if "0 \<notin> set is" for "is" ok q
    using that
  proof (induction "is" arbitrary: ok q)
    case (Cons i "is")
    have "pmpaddr (pmpcfg_write_entry i b q) ! 0 = pmpaddr q ! 0" for b
      using Cons.prems by (simp add: pmpcfg_write_entry_def Let_def nth_update_if)
    then show ?case using Cons by simp
  qed simp
  have "[0..<pmp_xlen p div 8] = 0 # [1..<pmp_xlen p div 8]" using assms(2) by (simp add: upt_conv_Cons)
  then show "pmpaddr (snd (pmpcfg_write 0 v p)) ! 0 = pmpaddr (pmpcfg_write_entry 0 (ucast v) p) ! 0"
    using assms(1) rest [of "[1..<pmp_xlen p div 8]"] by (simp add: pmpcfg_write_def Let_def split_beta)
  show "n_pmp (snd (pmpcfg_write 0 v p)) = n_pmp p" "mseccfg (snd (pmpcfg_write 0 v p)) = mseccfg p"
    "lg_pmp_granularity (snd (pmpcfg_write 0 v p)) = lg_pmp_granularity p"
    by (rule pmpcfg_write_cases; simp)+
qed

lemma pmp_reset_first:
  assumes "0 < n_pmp p" "8 \<le> pmp_xlen p"
  shows "pmpaddr (pmp_reset p) ! 0 = \<lparr>pmp_val = take_bit (pmp_xlen p) (- 1) AND mask 54, pmp_cfg = 0x1F\<rparr>"
    and "n_pmp (pmp_reset p) = n_pmp p" "\<not> get_mml (pmp_reset p)"
proof -
  let ?p1 = "pmp_state_reset p"
  let ?p2 = "snd (pmpaddr_write 0 (take_bit (pmp_xlen p) (- 1)) ?p1)"
  have p2: "pmpaddr ?p2 ! 0 = \<lparr>pmp_val = take_bit (pmp_xlen p) (- 1) AND mask 54, pmp_cfg = 0\<rparr>"
    "n_pmp ?p2 = n_pmp p" "mseccfg ?p2 = 0" "pmp_xlen ?p2 = pmp_xlen p"
    using assms(1) by (simp_all add: pmpaddr_write_def Let_def is_locked_def next_locked_and_tor_def pmp_mode_def mask_eq_exp_minus_1)
      (simp_all add: pmp_state_reset_def)
  have len: "length (pmpaddr ?p2) = max_pmp" by (simp add: pmpaddr_write_def Let_def)
  have reset: "pmp_reset p = snd (pmpcfg_write 0 0x1F ?p2)"
    unfolding pmp_reset_def Let_def using assms(1) by simp
  have "pmpaddr (pmpcfg_write_entry 0 0x1F ?p2) ! 0 = (pmpaddr ?p2 ! 0)\<lparr>pmp_cfg := 0x1F\<rparr>"
    using p2 len by (simp add: pmpcfg_write_entry_def Let_def is_locked_def legalize_open pmpcfg_allowed_def get_mml_def)
  then show "pmpaddr (pmp_reset p) ! 0 = \<lparr>pmp_val = take_bit (pmp_xlen p) (- 1) AND mask 54, pmp_cfg = 0x1F\<rparr>"
    "n_pmp (pmp_reset p) = n_pmp p" "\<not> get_mml (pmp_reset p)"
    unfolding reset using assms p2 by (simp_all add: pmpcfg_write_first get_mml_def)
qed

lemma pmp_reset_covers:
  assumes "0 < n_pmp p" "8 \<le> pmp_xlen p" "pmp_xlen p \<le> 64" "a < 2 ^ (min (pmp_xlen p) 54 + 3)"
  shows "pmp_covers (pmp_reset p) 0 a"
proof -
  let ?q = "pmp_reset p" and ?b = "min (pmp_xlen p) 54"
  note first = pmp_reset_first [OF assms(1,2)]
  have val: "pmp_val (pmpaddr ?q ! 0) = mask ?b"
    unfolding first by (rule bit_word_eqI) (auto simp: bit_simps)
  have mode: "pmp_mode ?q 0 = PMP_NAPOT" unfolding pmp_mode_def first by simp
  have "?b + 1 \<le> trailing_ones (push_bit 1 (pmp_val (pmpaddr ?q ! 0)) OR of_bool (pmp_mode ?q 0 \<noteq> PMP_NA4) OR NOT (pmp_tor_mask ?q))"
  proof (rule trailing_ones_ge)
    fix j assume j: "j < ?b + 1"
    have "bit (push_bit 1 (mask ?b :: u64)) j \<or> bit (of_bool True :: u64) j"
      unfolding bit_push_bit_iff using j by (auto simp: bit_simps)
    then show "bit (push_bit 1 (pmp_val (pmpaddr ?q ! 0)) OR of_bool (pmp_mode ?q 0 \<noteq> PMP_NA4) OR NOT (pmp_tor_mask ?q)) j"
      unfolding val mode bit_or_iff by auto
  qed
  then have ord: "?b + 3 \<le> napot_order ?q 0" unfolding napot_order_def by simp
  have le: "(2 :: nat) ^ (?b + 3) \<le> 2 ^ napot_order ?q 0" using ord by (rule power_increasing) simp
  have "unat (tor_paddr ?q 0) < 2 ^ (?b + 3)"
  proof -
    have "bit (tor_paddr ?q 0) n \<Longrightarrow> n < ?b + 3" for n
      unfolding tor_paddr_def val bit_push_bit_iff bit_and_iff by (auto simp: bit_simps)
    then have "drop_bit (?b + 3) (tor_paddr ?q 0) = 0"
      by (intro bit_word_eqI) (force simp: bit_drop_bit_eq)
    then have "unat (tor_paddr ?q 0) div 2 ^ (?b + 3) = 0"
      using unat_drop_bit_eq [of "?b + 3" "tor_paddr ?q 0"] by (simp add: drop_bit_eq_div)
    then show ?thesis by (simp add: div_eq_0_iff)
  qed
  then have "unat (tor_paddr ?q 0) div 2 ^ napot_order ?q 0 = 0" using le by (intro div_less) linarith
  moreover have "a < 2 ^ napot_order ?q 0" using assms(4) le by (rule order_less_le_trans)
  ultimately show ?thesis unfolding pmp_covers_def pmp_interval_def using mode by (simp add: Let_def)
qed

lemma pmp_reset_open:
  assumes "8 \<le> pmp_xlen p" "pmp_xlen p \<le> 64" "0 < len" "unat addr + len \<le> 2 ^ (min (pmp_xlen p) 54 + 3)"
  shows "pmp_ok (pmp_reset p) addr len type mode"
proof (cases "n_pmp p = 0")
  case True
  then show ?thesis by (simp add: pmp_ok_def pmp_reset_def)
next
  case False
  then have n: "0 < n_pmp p" by simp
  note first = pmp_reset_first [OF n assms(1)]
  have "(2 :: nat) ^ (min (pmp_xlen p) 54 + 3) \<le> 2 ^ 64" by (rule power_increasing) simp_all
  then have b: "unat addr + len \<le> 2 ^ 64" using assms(4) by linarith
  have cov: "pmp_covers (pmp_reset p) 0 (unat addr + 4 * k)" if "4 * k < len" for k
    using that assms by (intro pmp_reset_covers n) simp_all
  have "4 * 0 < len" using assms(3) by simp
  with cov have "sector_loop (pmp_reset p) 0 addr len = (True, True)"
    unfolding sector_loop_eq [OF b] by blast
  moreover have "access_ok (pmp_reset p) 0 type mode"
    using first by (cases type) (simp_all add: access_ok_def Let_def)
  ultimately show ?thesis using n by (simp add: pmp_ok_def first upt_conv_Cons)
qed

end
