(* ===== verification/Pmp_Properties.thy ===== *)
theory Pmp_Properties
  imports Pmp_Regs
begin

text \<open>The properties of the protection unit.\<close>

section \<open>Accesses\<close>

definition example_tlb :: tlb_t where
  "example_tlb = \<lparr>tlb_insn_tag = replicate 256 (- 1), tlb_load_tag = replicate 256 (- 1), tlb_store_tag = replicate 256 (- 1),
     tlb_data = replicate 256 (0, 0), icache_tag = replicate 1024 (- 1)\<rparr>"

text \<open>A unit with two entries in use: the first is locked and lets only reads into the addresses below 0x1004.\<close>

definition example_pmp :: pmp_t where
  "example_pmp = \<lparr>pmpaddr = \<lparr>pmp_val = 0x401, pmp_cfg = 0x89\<rparr> # replicate 63 \<lparr>pmp_val = 0, pmp_cfg = 0\<rparr>, mseccfg = 0, n_pmp = 2,
     lg_pmp_granularity = 2, pmp_xlen = 64, pmp_tlb = example_tlb\<rparr>"

lemma example_pmp_wf: "pmp_wf example_pmp"
  by (simp add: pmp_wf_def example_pmp_def pmp_entry_wf_def list_all_iff)

text \<open>
  C17: the check looks at every byte. For an access of 1, 2, 4 or 8 bytes at a multiple of its size the decision is
  that of the reference: the first entry that covers a byte of the access decides, and it must cover all of them.
\<close>

theorem pmp_check_every_byte:
  assumes "len \<in> {1, 2, 4, 8}" "unat addr mod len = 0"
  shows "pmp_ok p addr len type mode = pmp_decide p (unat addr) len type mode"
proof (rule pmp_ok_decide)
  show "sectors_visited (unat addr) len" by (rule sectors_visited_natural [OF assms])
  have "len dvd 2 ^ 64" using assms(1) by (auto intro: dvdI [of _ _ "2 ^ 63"] dvdI [of _ _ "2 ^ 62"] dvdI [of _ _ "2 ^ 61"])
  then obtain k where k: "2 ^ 64 = len * k" by blast
  moreover obtain j where j: "unat addr = len * j" using assms(2) by (auto simp: mod_eq_0_iff_dvd)
  moreover have "unat addr < 2 ^ 64" using unat_lt2p [of addr] by simp
  ultimately have "len * j < len * k" by simp
  then have "len * Suc j \<le> len * k" by (intro mult_le_mono2) simp
  then show "unat addr + len \<le> 2 ^ 64" unfolding k j by simp
qed

theorem pmp_check_every_byte_witness:
  "pmp_ok example_pmp 0x1000 8 LOAD PRV_S = pmp_decide example_pmp 0x1000 8 LOAD PRV_S \<and> \<not> pmp_ok example_pmp 0x1000 8 LOAD PRV_S"
proof -
  have "\<not> pmp_ok example_pmp 0x1000 8 LOAD PRV_S" by code_simp
  then show ?thesis using pmp_check_every_byte [of 8 "0x1000" example_pmp LOAD PRV_S] by simp
qed

text \<open>
  C23: uniform pages. When \<open>pmp_homogeneous\<close> accepts an aligned block, any two accesses inside the block, of any length and
  alignment, are both allowed or both refused. This is what lets the translation cache skip the check on a hit.
\<close>

theorem pmp_page_uniform:
  assumes "pmp_homogeneous p base (2 ^ s) = Some True" "s < 64"
    and "0 < len" "unat a div 2 ^ s = unat base div 2 ^ s" "(unat a + len - 1) div 2 ^ s = unat base div 2 ^ s"
    and "0 < len'" "unat a' div 2 ^ s = unat base div 2 ^ s" "(unat a' + len' - 1) div 2 ^ s = unat base div 2 ^ s"
  shows "pmp_ok p a len type mode = pmp_ok p a' len' type mode"
  unfolding pmp_ok_homogeneous [OF assms(1,2,3-5)] pmp_ok_homogeneous [OF assms(1,2,6-8)] ..

theorem pmp_page_uniform_witness: "pmp_ok example_pmp 0x123 2 STORE PRV_S = pmp_ok example_pmp 0xFF8 8 STORE PRV_S"
proof -
  have "pmp_homogeneous example_pmp 0 (2 ^ 12) = Some True" by code_simp
  from pmp_page_uniform [OF this, of 2 "0x123" 8 "0xFF8"] show ?thesis by simp
qed

text \<open>
  C39: accesses that are not aligned. Of an access of up to four bytes only the first byte is checked, so a load of four
  bytes at 0x1002 is allowed by an entry that ends at 0x1004 although the byte at 0x1004 may not be read.
\<close>

theorem unaligned_tail_unchecked:
  "(\<forall>p addr len type mode. len \<in> {1, 2, 3, 4} \<longrightarrow> pmp_ok p addr len type mode = pmp_ok p addr 1 type mode) \<and>
   (\<exists>p. pmp_wf p \<and> pmp_ok p 0x1002 4 LOAD PRV_S \<and> \<not> pmp_ok p 0x1004 1 LOAD PRV_S)"
proof
  have offsets: "sector_offsets len = [0]" if "len \<in> {1, 2, 3, 4}" for len
    using that unfolding sector_offsets_def by auto
  have loop: "sector_loop p i addr len = sector_loop p i addr 1" if "len \<in> {1, 2, 3, 4}" for p i addr len
    unfolding sector_loop_def offsets [OF that] by (simp add: offsets)
  have ok: "pmp_ok p addr len type mode = pmp_ok p addr 1 type mode" if "len \<in> {1, 2, 3, 4}" for p addr len type mode
  proof -
    have "pmp_ok_loop p addr len type mode is = pmp_ok_loop p addr 1 type mode is" for "is"
      by (induction "is") (simp_all only: pmp_ok_loop.simps loop [OF that])
    then show ?thesis by (simp only: pmp_ok_def)
  qed
  show "\<forall>p addr len type mode. len \<in> {1, 2, 3, 4} \<longrightarrow> pmp_ok p addr len type mode = pmp_ok p addr 1 type mode"
    by (intro allI impI) (rule ok)
  have "pmp_ok example_pmp 0x1002 4 LOAD PRV_S" "\<not> pmp_ok example_pmp 0x1004 1 LOAD PRV_S" by code_simp+
  then show "\<exists>p. pmp_wf p \<and> pmp_ok p 0x1002 4 LOAD PRV_S \<and> \<not> pmp_ok p 0x1004 1 LOAD PRV_S"
    using example_pmp_wf by blast
qed

theorem unaligned_tail_unchecked_witness: "pmp_ok example_pmp 0x1002 4 LOAD PRV_S = pmp_ok example_pmp 0x1002 1 LOAD PRV_S"
  using unaligned_tail_unchecked by blast

section \<open>Registers\<close>

text \<open>
  Legal registers. From reset on, after any sequence of writes to the registers of the unit, there are 64 entries, the
  address registers have at most 54 bits, the reserved bits of a configuration are clear, no entry is writable without
  being readable before \<open>MML\<close> is set, and no entry has a size below the granularity.
\<close>

lemma pmp_registers_legal:
  assumes "n_pmp p \<le> 64" "2 \<le> lg_pmp_granularity p" "lg_pmp_granularity p \<le> 63" "pmp_xlen p = 32 \<or> pmp_xlen p = 64"
  shows "pmp_wf (fold pmp_apply ws (pmp_reset p))"
proof -
  have "pmp_wf (pmp_state_reset p)" using assms by (simp add: pmp_wf_def pmp_state_reset_def pmp_entry_wf_def list_all_iff)
  then have "pmp_wf (pmp_reset p)"
    using pmp_apply_wf [of _ "Write_pmpaddr _ _"] pmp_apply_wf [of _ "Write_pmpcfg _ _"] by (simp add: pmp_reset_def pmp_apply_def Let_def)
  then show ?thesis by (induction ws rule: rev_induct) (simp_all add: pmp_apply_wf)
qed

text \<open>
  C28: locked entries. Once an entry is locked and the lock bypass is off, no sequence of writes to the registers of the
  unit changes the entry, the interval of addresses it covers or the lock, and none turns the bypass on or relaxes \<open>MML\<close>
  or \<open>MMWP\<close>.
\<close>

theorem locked_entry_fixed:
  assumes "is_locked p i" "\<not> get_rlb p" "i < n_pmp p" "n_pmp p \<le> 64"
  shows "let q = fold pmp_apply ws p
    in pmpaddr q ! i = pmpaddr p ! i \<and> pmp_interval q i = pmp_interval p i \<and> is_locked q i \<and> \<not> get_rlb q \<and>
       (get_mml p \<longrightarrow> get_mml q) \<and> (get_mmwp p \<longrightarrow> get_mmwp q)"
  using pmp_writes_lock_kept [OF assms, of ws] lock_kept_interval lock_kept_is_locked assms(1)
  by (simp add: Let_def) (simp add: lock_kept_def)

theorem locked_entry_fixed_witness:
  "pmp_interval (fold pmp_apply [Write_mseccfg 4, Write_pmpcfg 0 0, Write_pmpaddr 0 0] example_pmp) 0 = (0, 0x1004)"
proof -
  have "is_locked example_pmp 0" "\<not> get_rlb example_pmp" "0 < n_pmp example_pmp" "n_pmp example_pmp \<le> 64"
    by (simp_all add: example_pmp_def is_locked_def get_rlb_def)
  moreover have "pmp_interval example_pmp 0 = (0, 0x1004)"
    by (simp add: example_pmp_def pmp_interval_def pmp_mode_def tor_base_paddr_def tor_paddr_def pmp_tor_mask_def)
  ultimately show ?thesis using locked_entry_fixed [of example_pmp 0] unfolding Let_def by metis
qed

end
