(* ===== verification/Mmu_Properties.thy ===== *)
theory Mmu_Properties
  imports Mmu_Loads Pmp_Properties
begin

text \<open>The properties of address translation and of the translation cache, on the bus of the simulator.\<close>

section \<open>An example\<close>

text \<open>
  A memory of two pages at 0x80000000 whose first page is a root table. Its first entry maps the first gigabyte of the
  virtual addresses to the physical addresses from 0x80000000 on, for the supervisor, with the accessed bit clear.
\<close>

definition example_bus :: "unit bus" where
  "example_bus = [(0x80000000, Mem_device \<lparr>sz = 0x2000, sparse_memory_map = [0 \<mapsto> [0x8F, 0, 0, 0x20, 0, 0, 0, 0] @ replicate 4088 0]\<rparr>)]"

abbreviation example_sim :: "unit bus simif_t" where
  "example_sim \<equiv> sim_t (\<lambda>d addr len. (None, d)) (\<lambda>d addr bytes. (False, d))"

definition example_csrs :: mmu_csrs where
  "example_csrs = \<lparr>pmp = \<lparr>pmpaddr = replicate 64 \<lparr>pmp_val = 0, pmp_cfg = 0\<rparr>, mseccfg = 0, n_pmp = 0, lg_pmp_granularity = 2, pmp_xlen = 64,
       pmp_tlb = example_tlb\<rparr>,
     satp = 0x8000000000080000, vsatp = 0, hgatp = 0, sstatus = 0, vsstatus = 0, menvcfg = 0x2000000000000000, henvcfg = 0,
     const_xlen = 64, xlen = 64, ext_svnapot = False, debug_mode = False, prv = 1, virt_mode = False, mstatus = 0, mnstatus = None, hstatus = 0\<rparr>"

abbreviation example_load :: "u64 \<Rightarrow> mem_access_info_t" where
  "example_load addr \<equiv> generate_access_info example_csrs addr LOAD \<lparr>forced_virt = False, hlvx = False, lr = False\<rparr>"

lemma example_load_fields [simp]:
  "vaddr (example_load a) = a" "effective_virt (example_load a) = False" "acc_type (example_load a) = LOAD" "effective_priv (example_load a) = 1"
  "\<not> is_special_access \<lparr>forced_virt = False, hlvx = False, lr = False\<rparr>" "flags (example_load a) = \<lparr>forced_virt = False, hlvx = False, lr = False\<rparr>"
  by (simp_all add: generate_access_info_def example_csrs_def is_special_access_def in_mprv_def)

definition example_vm :: vm_info where
  "example_vm = \<lparr>levels = 3, idxbits = 9, widenbits = 0, ptesize = 8, ptbase = 0x80000000\<rparr>"

lemma example_stage1: "stage1_vm example_csrs (example_load a) = Some example_vm"
proof -
  have "decode_vm_info 64 False 1 0x8000000000080000 = Some example_vm" by (simp add: decode_vm_info_def example_vm_def Let_def)
  moreover have "const_xlen example_csrs = 64" "satp example_csrs = 0x8000000000080000" by (simp_all add: example_csrs_def)
  ultimately show ?thesis unfolding stage1_vm_def by simp
qed

lemma example_vm_fields: "levels example_vm = 3" "idxbits example_vm = 9"
  by (simp_all add: example_vm_def)

lemma example_bus_wf: "bus_wf example_bus"
  by (simp add: bus_wf_def example_bus_def mem_wf_def)

lemma example_ok: "pmp_ok (pmp example_csrs) addr len type mode" "menvcfg example_csrs = 0x2000000000000000"
  by (simp_all add: pmp_ok_def example_csrs_def)

lemma example_search: "pt_search example_csrs example_vm (example_load 0x1234) (bus_byte example_bus) = Pt_found 2 0x80000000 0x2000008F"
  by code_simp

section \<open>The walk\<close>

text \<open>
  C2: the walk refines its specification. With one stage of translation and page tables in memory, the loop over the
  levels, which loads entries through the bus, checks them one by one and writes the accessed and dirty bits back, has
  the outcome that the specification gives as a function of the bytes of memory: the same page or the same trap, and the
  same bytes afterwards. It never runs into undefined behaviour.
\<close>

theorem walk_refines_search:
  assumes "\<not> effective_virt info" "bus_wf s" "stage1_vm c info = Some vm" "levels vm \<noteq> 0" "12 + levels vm * idxbits vm \<le> 64"
    "pt_search c vm info (bus_byte s) \<noteq> Pt_device"
  shows "\<exists>r s'. walk (sim_t io_load io_store) c info s = (r, s') \<and> bus_wf s' \<and>
    (r, bus_byte s') = pt_outcome c vm info (bus_byte s) (pt_search c vm info (bus_byte s))"
  by (rule sim.walk_refines [OF assms])

lemma example_outcome:
  "pt_outcome example_csrs example_vm (example_load 0x1234) b (Pt_found 2 0x80000000 0x2000008F) =
     (Inr 0x80001000, put_bytes b 0x80000000 [0xCF, 0, 0, 0x20, 0, 0, 0, 0])"
proof -
  have "pte_page_base 18 0x2000008F 0x1234 = 0x80001000" "le_bytes 8 0x200000CF = [0xCF, 0, 0, 0x20, 0, 0, 0, 0]" "\<not> pte_napot_bad 2 0x2000008F"
    by code_simp+
  then show ?thesis by (simp add: pt_outcome_def pte_ad_def example_vm_def example_ok)
qed

theorem walk_refines_search_witness:
  "\<exists>s'. walk example_sim example_csrs (example_load 0x1234) example_bus = (Inr 0x80001000, s') \<and> bus_byte s' 0x80000000 = Some 0xCF"
proof -
  have "put_bytes b 0x80000000 [0xCF, 0, 0, 0x20, 0, 0, 0, 0] 0x80000000 = Some 0xCF" for b by (simp add: put_bytes_def)
  then show ?thesis
    using walk_refines_search [of "example_load 0x1234" example_bus example_csrs example_vm "\<lambda>d addr len. (None, d)" "\<lambda>d addr bytes. (False, d)"]
      example_bus_wf example_stage1 example_search by (auto simp: example_vm_fields example_outcome)
qed

text \<open>
  C12: what a translation grants. With one stage of translation and page tables that are not in devices: if an address is translated, then
  the entry that the index fields of the address lead to from the root table of \<open>satp\<close>, through valid pointers, is valid and gives the
  right that the access needs to the privilege mode it is made in, the physical address is the page of that entry with the offset of the
  virtual one and fits into 56 bits, protection allows the access there, and afterwards the entry has its accessed bit set, and its
  dirty bit if the access is a store.
\<close>

theorem translation_granted:
  assumes "mmu_translate (sim_t io_load io_store) c info len s = (Inr paddr, s')" "\<not> effective_virt info" "bus_wf s"
    "stage1_vm c info = Some vm" "levels vm \<noteq> 0" "12 + levels vm * idxbits vm \<le> 64" "pt_search c vm info (bus_byte s) \<noteq> Pt_device"
  shows "\<exists>i a pte. pt_reaches vm (bus_byte s) (vaddr info) i a \<and> i < levels vm \<and> pte = mem_word (bus_byte s) a (ptesize vm) \<and>
    pte_grants c info pte \<and> pte_maps vm i pte (vaddr info) paddr \<and> paddr_ok paddr \<and>
    pmp_ok (pmp c) paddr len (acc_type info) (effective_priv info) \<and>
    mem_word (bus_byte s') a (ptesize vm) = pte OR pte_ad (acc_type info)"
proof -
  have vm: "vm_wf vm" "unat (ptbase vm) mod 4096 = 0" using decode_vm_wf [of _ False] assms(4,5) by (auto simp: stage1_vm_def)
  have tabs: "tables_in_memory c info (bus_byte s)" using assms by (simp add: tables_in_memory_def)
  obtain r where r: "abs_walk c info (bus_byte s) = (Inr r, bus_byte s')" "paddr = r OR (vaddr info AND mask 12)"
    and ok: "pmp_ok (pmp c) paddr len (acc_type info) (effective_priv info)"
    using sim.translate_abs [OF assms(2,3) tabs, THEN iffD1, OF assms(1)] by blast
  let ?ad = "pte_ad (acc_type info)"
  have out: "pt_outcome c vm info (bus_byte s) (pt_search c vm info (bus_byte s)) = (Inr r, bus_byte s')"
    using r(1) assms(4,5) by (simp add: abs_walk_def)
  then obtain i a pte where found: "pt_search c vm info (bus_byte s) = Pt_found i a pte"
    by (cases "pt_search c vm info (bus_byte s)") (auto simp: pt_outcome_def)
  note F = pt_found [OF vm(1) found [unfolded pt_search_def] vm(2)]
  have res: "r = pte_page_base (i * idxbits vm) pte (vaddr info)" "\<not> pte_napot_bad i pte"
    "bus_byte s' = (if pte AND ?ad = ?ad then bus_byte s else put_bytes (bus_byte s) a (le_bytes (ptesize vm) (pte OR ?ad)))"
    using out unfolding found by (auto simp: pt_outcome_def Let_def split: if_splits)
  have i: "i < levels vm" using F(5) by (auto simp: pt_levels_def Let_def split: if_splits)
  have "mem_word (bus_byte s') a (ptesize vm) = pte OR ?ad"
  proof (cases "pte AND ?ad = ?ad")
    case True
    moreover have "pte OR (pte AND ?ad) = pte" by (rule bit_word_eqI) (auto simp: bit_or_iff bit_and_iff)
    ultimately have "pte OR ?ad = pte" by simp
    then show ?thesis using res(3) True F(2) by simp
  next
    case False
    then show ?thesis using res(3) pt_entry_written [OF vm(1) F(2)] by simp
  qed
  moreover have "paddr_ok paddr"
    unfolding r(2) res(1) by (rule page_base_in_range [OF assms(4-6) i res(2)])
  moreover have "pte_maps vm i pte (vaddr info) paddr" unfolding r(2) res(1) by (rule page_base_maps [OF F(1) res(2)])
  ultimately show ?thesis using i F(2) ok leaf_grants [OF F(1)] pt_search_reaches [OF vm(1) found] by blast
qed

lemma example_walk:
  "\<exists>s'. walk (sim_t io_load io_store) example_csrs (example_load 0x1234) example_bus = (Inr 0x80001000, s') \<and> bus_wf s' \<and> bus_byte s' 0x80001234 \<noteq> None"
proof -
  have "bus_byte example_bus 0x80001234 \<noteq> None" by (simp add: bus_byte_def addr_to_mem_def paddr_ok_def example_bus_def)
  then have "put_bytes (bus_byte example_bus) 0x80000000 [0xCF, 0, 0, 0x20, 0, 0, 0, 0] 0x80001234 \<noteq> None" by (simp add: put_bytes_def)
  then show ?thesis
    using sim.walk_refines [of "example_load 0x1234" example_bus example_csrs example_vm, where io_load = io_load and io_store = io_store]
      example_bus_wf example_stage1 example_search
    by (auto simp: example_outcome example_vm_fields)
qed

lemma example_translate:
  "\<exists>s'. mmu_translate (sim_t io_load io_store) example_csrs (example_load 0x1234) 4 example_bus = (Inr 0x80001234, s') \<and> bus_wf s' \<and> bus_byte s' 0x80001234 \<noteq> None"
proof -
  have "0x80001000 OR (0x1234 AND (push_bit 12 1 - 1)) = (0x80001234 :: u64)" by code_simp
  then show ?thesis using example_walk [of io_load io_store] by (auto simp: mmu_translate_def mbind_def mreturn_def example_ok Let_def)
qed

theorem translation_granted_witness:
  "\<exists>s' i a pte. mmu_translate example_sim example_csrs (example_load 0x1234) 4 example_bus = (Inr 0x80001234, s') \<and>
    pt_reaches example_vm (bus_byte example_bus) 0x1234 i a \<and> pte_grants example_csrs (example_load 0x1234) pte \<and>
    pte_maps example_vm i pte 0x1234 0x80001234"
proof -
  obtain s' where t: "mmu_translate example_sim example_csrs (example_load 0x1234) 4 example_bus = (Inr 0x80001234, s')"
    using example_translate by blast
  from translation_granted [OF this _ example_bus_wf example_stage1] example_search
  have "\<exists>i a pte. pt_reaches example_vm (bus_byte example_bus) 0x1234 i a \<and> pte_grants example_csrs (example_load 0x1234) pte \<and>
      pte_maps example_vm i pte 0x1234 0x80001234" by (simp add: example_vm_fields) blast
  with t show ?thesis by blast
qed

text \<open>
  Addresses that are not canonical. If a bit of the virtual address above the translated ones differs from the
  highest translated bit, the access takes the page fault of its kind with the address as trap value, with or without a
  second stage, before any table is read: the state of the simulator is unchanged.
\<close>

lemma non_canonical_faults:
  assumes "decode_vm_info (const_xlen c) False (effective_priv info) (if effective_virt info then vsatp c else satp c) = Some vm"
    "0 < levels vm" "va_bits = 12 + levels vm * idxbits vm" "va_bits \<le> xlen c" "xlen c \<le> 64"
    "va_bits \<le> n" "n < xlen c" "bit (vaddr info) n \<noteq> bit (vaddr info) (va_bits - 1)"
  shows "mmu_translate I c info len s = (Inl (page_error info), s)"
proof -
  have "pt_levels c vm (vaddr info) = 0" unfolding pt_levels_def Let_def assms(3) [symmetric]
    using non_canonical_msbs [OF assms(8,6,7,5)] by simp
  then have "walk I c info s = walk_loop I c vm info 0 (ptbase vm) s"
    using assms(1-5) unfolding walk_def pt_levels_def Let_def by simp
  then show ?thesis by (simp add: mmu_translate_def mbind_def walk_fault_def throw_trap_def mfail_def page_error_def)
qed

section \<open>The translation cache\<close>

text \<open>
  C19: the cache is transparent for loads. Start with a flushed translation cache and make any sequence of loads, with the registers of the
  hart unchanged, one stage of translation, no cache model that traces loads, every load inside a page and the page tables of all
  addresses involved not in devices. Then every further load, whether it hits the cache or not, returns the bytes or takes the trap that
  the same load returns or takes after a flush, which translates and checks the address again, and both leave the same bytes in
  memory. The loads of the sequence may trap, replace entries of the cache and set accessed bits in the tables.
\<close>

theorem tlb_hit_transparent:
  assumes "load_run (sim_t io_load io_store) ops (c, m) s = ((c', m'), s')" "bus_wf s" "tlb_wf t" "hart_tlb c = flush_tlb t"
    "\<not> tracer_interested (tracer m) LOAD" "\<not> effective_virt (load_info c v)" "\<forall>x \<in> set ((v, n) # ops). load_ok c (bus_byte s) x"
  shows "let one = load_slow_path_intrapage (sim_t io_load io_store) n (load_info c' v) (c', m') s';
             two = load_slow_path_intrapage (sim_t io_load io_store) n (load_info c' v) (set_hart_tlb (flush_tlb (hart_tlb c')) c', m') s'
         in map_sum id fst (fst one) = map_sum id fst (fst two) \<and> bus_byte (snd one) = bus_byte (snd two)"
  unfolding Let_def by (rule sim.loads_transparent [OF assms])

definition example_mmu :: mmu_t where
  "example_mmu = \<lparr>load_reservation_address = 0, tracer = \<lparr>ic = None, dc = None, l2 = None\<rparr>, check_triggers_fetch = False, check_triggers_load = False, check_triggers_store = False\<rparr>"

lemma example_fill:
  "\<exists>bytes c' s'. load_slow_path_intrapage (sim_t io_load io_store) 4 (example_load 0x1234) (example_csrs, example_mmu) example_bus =
     (Inr (bytes, (c', example_mmu)), s') \<and> tlb_hit (tlb_load_tag (hart_tlb c')) 0x1FF8"
proof -
  let ?c = example_csrs
  have idx: "tlb_index 0x1234 = 1" "tlb_index 0x1FF8 = 1" by (simp_all add: tlb_index_def)
  have tags: "hart_tlb ?c = example_tlb" "tlb_load_tag example_tlb = replicate 256 (- 1)" "tlb_data example_tlb = replicate 256 (0, 0)"
    by (simp_all add: hart_tlb_def example_csrs_def example_tlb_def)
  obtain s1 where t: "mmu_translate (sim_t io_load io_store) ?c (example_load 0x1234) 4 example_bus = (Inr 0x80001234, s1)"
    "bus_wf s1" "bus_byte s1 0x80001234 \<noteq> None" using example_translate by blast
  obtain data s2 where h: "sim_host_load 0x80001234 4 s1 = (Host data, s2)"
    using sim.load_mem [OF t(2,3), of 4] by auto
  have hom: "pmp_homogeneous (pmp ?c) 0x80001000 4096 = Some True" by (simp add: pmp_homogeneous_def example_csrs_def)
  have "\<not> in_mprv ?c" by (simp add: in_mprv_def example_csrs_def)
  define t where "t = tlb_set_tag LOAD 1 1 (tlb_evict 1 1 example_tlb)"
  define c' where "c' = set_hart_tlb (t\<lparr>tlb_data := (tlb_data t)[1 := (0x80000000, 0x80000000)]\<rparr>) ?c"
  have r: "refill_tlb 0x1234 0x80001234 LOAD example_mmu ?c = Some ((0x80000000, 0x80000000), c')"
    using hom \<open>\<not> in_mprv ?c\<close> by (simp add: refill_tlb_def Let_def idx tags(1) example_mmu_def c'_def t_def)
  have c': "tlb_load_tag (hart_tlb c') ! 1 = 1"
    by (simp add: c'_def t_def tlb_set_tag_def tlb_evict_def Let_def tags)
  have "after_host_access 0x80001234 4 (example_load 0x1234) (?c, example_mmu) = Some (c', example_mmu)"
    using r by (simp add: after_host_access_def tracer_interested_def example_mmu_def)
  moreover have "\<not> tlb_hit (tlb_load_tag (hart_tlb ?c)) 0x1234" by (simp add: tlb_hit_def idx tags)
  ultimately have "load_slow_path_intrapage (sim_t io_load io_store) 4 (example_load 0x1234) (?c, example_mmu) example_bus =
      (Inr (data, (c', example_mmu)), s2)"
    using t h by (simp add: sim.load_slow mbind_def mreturn_def)
  moreover have "tlb_hit (tlb_load_tag (hart_tlb c')) 0x1FF8" using c' by (simp add: tlb_hit_def idx)
  ultimately show ?thesis by blast
qed

text \<open>The second load hits the entry that the first one filled.\<close>

theorem tlb_hit_transparent_witness:
  "\<exists>c' s'. load_run example_sim [(0x1234, 4)] (example_csrs, example_mmu) example_bus = ((c', example_mmu), s') \<and>
    tlb_hit (tlb_load_tag (hart_tlb c')) 0x1FF8 \<and>
    map_sum id fst (fst (load_slow_path_intrapage example_sim 8 (load_info c' 0x1FF8) (c', example_mmu) s')) =
    map_sum id fst (fst (load_slow_path_intrapage example_sim 8 (load_info c' 0x1FF8) (set_hart_tlb (flush_tlb (hart_tlb c')) c', example_mmu) s'))"
proof -
  have info: "example_load v = load_info example_csrs v" for v by (simp add: load_info_def)
  obtain bytes c' s' where fill: "load_slow_path_intrapage example_sim 4 (example_load 0x1234) (example_csrs, example_mmu) example_bus =
     (Inr (bytes, (c', example_mmu)), s')" and hit: "tlb_hit (tlb_load_tag (hart_tlb c')) 0x1FF8" using example_fill by blast
  then have run: "load_run example_sim [(0x1234, 4)] (example_csrs, example_mmu) example_bus = ((c', example_mmu), s')"
    by (simp add: info load_after_def)
  have tlb: "tlb_wf example_tlb" "hart_tlb example_csrs = flush_tlb example_tlb"
    by (simp_all add: tlb_wf_def hart_tlb_def example_csrs_def example_tlb_def flush_tlb_def flush_icache_def)
  have "pt_search example_csrs example_vm (example_load 0x1FF8) (bus_byte example_bus) = Pt_found 2 0x80000000 0x2000008F"
    using pt_search_page [of "0x1FF8" "example_load 0x1234" example_vm example_csrs] example_search
    by (simp add: info load_info_vaddr example_vm_fields)
  then have ok: "\<forall>x \<in> set [(0x1FF8, 8), (0x1234, 4)]. load_ok example_csrs (bus_byte example_bus) x"
    using example_search by (simp add: load_ok_def tables_in_memory_def example_stage1 example_vm_fields info [symmetric])
  have "\<not> tracer_interested (tracer example_mmu) LOAD" "\<not> effective_virt (load_info example_csrs 0x1FF8)"
    by (simp_all add: tracer_interested_def example_mmu_def info [symmetric])
  from tlb_hit_transparent [OF run example_bus_wf tlb this ok] run hit show ?thesis unfolding Let_def by blast
qed

end
