(* ===== verification/Triggers.thy ===== *)
theory Triggers
  imports Prelude
begin

text \<open>
  The trigger module (\<open>riscv-isa-sim/riscv/triggers.h\<close>, \<open>triggers.cc\<close>): address, data, instruction-count, interrupt and
  exception triggers with their registers \<open>tdata1\<close> to \<open>tdata3\<close>. A failed assertion, an index outside the vector of triggers and
  a shift that C++ leaves undefined make an operation \<^const>\<open>None\<close>. The subclasses of \<open>trigger_t\<close> are the constructors of a datatype,
  and their virtual functions are case distinctions.
\<close>

section \<open>Definitions\<close>

subsection \<open>Fields of registers\<close>

definition get_field :: "u64 \<Rightarrow> u64 \<Rightarrow> u64" where
  "get_field reg m = (reg AND m) div (m AND NOT (push_bit 1 m))"

definition set_field :: "u64 \<Rightarrow> u64 \<Rightarrow> u64 \<Rightarrow> u64" where
  "set_field reg m v = (reg AND NOT m) OR ((v * (m AND NOT (push_bit 1 m))) AND m)"

abbreviation get_flag :: "u64 \<Rightarrow> u64 \<Rightarrow> bool" where
  "get_flag reg m \<equiv> get_field reg m \<noteq> 0"

abbreviation set_flag :: "u64 \<Rightarrow> u64 \<Rightarrow> bool \<Rightarrow> u64" where
  "set_flag reg m b \<equiv> set_field reg m (of_bool b)"

subsection \<open>Enumerations\<close>

datatype operation_t = OPERATION_EXECUTE | OPERATION_STORE | OPERATION_LOAD

datatype action_t = ACTION_DEBUG_EXCEPTION | ACTION_DEBUG_MODE | ACTION_TRACE_START | ACTION_TRACE_STOP | ACTION_TRACE_EMIT

primrec action_num :: "action_t \<Rightarrow> nat" where
  "action_num ACTION_DEBUG_EXCEPTION = 0"
| "action_num ACTION_DEBUG_MODE = 1"
| "action_num ACTION_TRACE_START = 2"
| "action_num ACTION_TRACE_STOP = 3"
| "action_num ACTION_TRACE_EMIT = 4"

text \<open>Actions are compared by their numbers.\<close>

instantiation action_t :: linorder
begin

definition less_eq_action_t :: "action_t \<Rightarrow> action_t \<Rightarrow> bool" where
  "less_eq_action_t a b \<longleftrightarrow> action_num a \<le> action_num b"

definition less_action_t :: "action_t \<Rightarrow> action_t \<Rightarrow> bool" where
  "less_action_t a b \<longleftrightarrow> action_num a < action_num b"

instance
proof
  fix a b :: action_t
  assume "a \<le> b" "b \<le> a"
  then show "a = b" by (cases a; cases b) (simp_all add: less_eq_action_t_def)
qed (auto simp: less_eq_action_t_def less_action_t_def)

end

definition action_of :: "u64 \<Rightarrow> action_t" where
  "action_of v =
     (if v = 1 then ACTION_DEBUG_MODE else if v = 2 then ACTION_TRACE_START else if v = 3 then ACTION_TRACE_STOP
      else if v = 4 then ACTION_TRACE_EMIT else ACTION_DEBUG_EXCEPTION)"

datatype timing_t = TIMING_BEFORE | TIMING_AFTER

datatype sselect_t = SSELECT_IGNORE | SSELECT_SCONTEXT | SSELECT_ASID

datatype mhselect_mode_t = MHSELECT_MODE_IGNORE | MHSELECT_MODE_MCONTEXT | MHSELECT_MODE_VMID

datatype match_t = MATCH_EQUAL | MATCH_NAPOT | MATCH_GE | MATCH_LT | MATCH_MASK_LOW | MATCH_MASK_HIGH

primrec match_num :: "match_t \<Rightarrow> u64" where
  "match_num MATCH_EQUAL = 0"
| "match_num MATCH_NAPOT = 1"
| "match_num MATCH_GE = 2"
| "match_num MATCH_LT = 3"
| "match_num MATCH_MASK_LOW = 4"
| "match_num MATCH_MASK_HIGH = 5"

primrec sselect_num :: "sselect_t \<Rightarrow> u64" where
  "sselect_num SSELECT_IGNORE = 0"
| "sselect_num SSELECT_SCONTEXT = 1"
| "sselect_num SSELECT_ASID = 2"

type_synonym match_result_t = "timing_t \<times> action_t"

subsection \<open>State\<close>

record mcontrol_common_t =
  mc_dmode :: bool
  mc_action :: action_t
  mc_hit :: bool
  mc_select :: bool
  mc_timing :: bool
  mc_chain :: bool
  mc_match :: match_t
  mc_execute :: bool
  mc_store :: bool
  mc_load :: bool

record icount_t =
  ic_dmode :: bool
  ic_hit :: bool
  ic_count :: u32
  ic_count_read_value :: u32
  ic_pending :: bool
  ic_pending_read_value :: bool
  ic_action :: action_t

record trap_common_t =
  tp_dmode :: bool
  tp_hit :: bool
  tp_action :: action_t

datatype trigger_kind =
    Disabled bool
  | Mcontrol mcontrol_common_t
  | Mcontrol6 mcontrol_common_t
  | Icount icount_t
  | Itrigger trap_common_t bool
  | Etrigger trap_common_t

text \<open>The members of the class \<open>trigger_t\<close>, and the subclass. A type \<open>unsigned\<close> has 32 bits.\<close>

record trigger_t =
  tdata2 :: u64
  tr_vs :: bool
  tr_vu :: bool
  tr_m :: bool
  tr_s :: bool
  tr_u :: bool
  sselect :: sselect_t
  svalue :: u32
  sbytemask :: u32
  mhselect :: u32
  mhvalue :: u32
  kind :: trigger_kind

text \<open>What the module reads of the processor.\<close>

record trig_hart =
  th_prv :: u64
  th_prev_prv :: u64
  th_v :: bool
  th_prev_v :: bool
  th_scontext :: u64
  th_satp :: u64
  th_mcontext :: u64
  th_hgatp :: u64
  th_mstatus :: u64
  th_sstatus :: u64
  th_vsstatus :: u64
  th_medeleg :: u64
  th_hedeleg :: u64
  th_debug_mode :: bool
  th_xlen :: nat
  th_const_xlen :: nat
  th_ext_h :: bool
  th_ext_s :: bool
  th_ext_u :: bool

text \<open>A new object: members without an initialiser are zero.\<close>

definition mcontrol_new :: mcontrol_common_t where
  "mcontrol_new = \<lparr>mc_dmode = False, mc_action = ACTION_DEBUG_EXCEPTION, mc_hit = False, mc_select = False, mc_timing = False,
     mc_chain = False, mc_match = MATCH_EQUAL, mc_execute = False, mc_store = False, mc_load = False\<rparr>"

definition icount_new :: icount_t where
  "icount_new = \<lparr>ic_dmode = False, ic_hit = False, ic_count = 1, ic_count_read_value = 1, ic_pending = False,
     ic_pending_read_value = False, ic_action = ACTION_DEBUG_EXCEPTION\<rparr>"

definition trap_new :: trap_common_t where
  "trap_new = \<lparr>tp_dmode = False, tp_hit = False, tp_action = ACTION_DEBUG_EXCEPTION\<rparr>"

definition trigger_new :: "trigger_kind \<Rightarrow> trigger_t" where
  "trigger_new k = \<lparr>tdata2 = 0, tr_vs = False, tr_vu = False, tr_m = False, tr_s = False, tr_u = False, sselect = SSELECT_IGNORE,
     svalue = 0, sbytemask = 0, mhselect = 0, mhvalue = 0, kind = k\<rparr>"

definition module_new :: "nat \<Rightarrow> trigger_t list" where
  "module_new n = replicate n (trigger_new (Disabled False))"

subsection \<open>Virtual functions\<close>

definition get_dmode :: "trigger_t \<Rightarrow> bool" where
  "get_dmode t = (case kind t of Disabled d \<Rightarrow> d | Mcontrol c \<Rightarrow> mc_dmode c | Mcontrol6 c \<Rightarrow> mc_dmode c | Icount c \<Rightarrow> ic_dmode c
     | Itrigger c _ \<Rightarrow> tp_dmode c | Etrigger c \<Rightarrow> tp_dmode c)"

definition get_chain :: "trigger_t \<Rightarrow> bool" where
  "get_chain t = (case kind t of Mcontrol c \<Rightarrow> mc_chain c | Mcontrol6 c \<Rightarrow> mc_chain c | _ \<Rightarrow> False)"

definition get_execute :: "trigger_t \<Rightarrow> bool" where
  "get_execute t = (case kind t of Mcontrol c \<Rightarrow> mc_execute c | Mcontrol6 c \<Rightarrow> mc_execute c | _ \<Rightarrow> False)"

definition get_store :: "trigger_t \<Rightarrow> bool" where
  "get_store t = (case kind t of Mcontrol c \<Rightarrow> mc_store c | Mcontrol6 c \<Rightarrow> mc_store c | _ \<Rightarrow> False)"

definition get_load :: "trigger_t \<Rightarrow> bool" where
  "get_load t = (case kind t of Mcontrol c \<Rightarrow> mc_load c | Mcontrol6 c \<Rightarrow> mc_load c | _ \<Rightarrow> False)"

definition get_action :: "trigger_t \<Rightarrow> action_t" where
  "get_action t = (case kind t of Disabled _ \<Rightarrow> ACTION_DEBUG_EXCEPTION | Mcontrol c \<Rightarrow> mc_action c | Mcontrol6 c \<Rightarrow> mc_action c
     | Icount c \<Rightarrow> ic_action c | Itrigger c _ \<Rightarrow> tp_action c | Etrigger c \<Rightarrow> tp_action c)"

definition icount_check_needed :: "trigger_t \<Rightarrow> bool" where
  "icount_check_needed t = (case kind t of Icount c \<Rightarrow> 0 < ic_count c \<or> ic_pending c | _ \<Rightarrow> False)"

subsection \<open>Registers \<open>tdata2\<close> and \<open>tdata3\<close>\<close>

definition legalize_action :: "u64 \<Rightarrow> u64 \<Rightarrow> u64 \<Rightarrow> action_t" where
  "legalize_action v action_mask dmode_mask =
     (let act = get_field v action_mask
      in if 4 < act \<or> act = 1 \<and> get_field v dmode_mask = 0 then ACTION_DEBUG_EXCEPTION else action_of act)"

definition CSR_TEXTRA_MHVALUE :: "nat \<Rightarrow> u64" where
  "CSR_TEXTRA_MHVALUE xl = (if xl = 32 then 0xfc000000 else 0xfff8000000000000)"

definition CSR_TEXTRA_MHSELECT :: "nat \<Rightarrow> u64" where
  "CSR_TEXTRA_MHSELECT xl = (if xl = 32 then 0x3800000 else 0x7000000000000)"

definition CSR_TEXTRA_SBYTEMASK :: "nat \<Rightarrow> u64" where
  "CSR_TEXTRA_SBYTEMASK xl = (if xl = 32 then 0xc0000 else 0x1f000000000)"

definition CSR_TEXTRA_SVALUE :: "nat \<Rightarrow> u64" where
  "CSR_TEXTRA_SVALUE xl = (if xl = 32 then 0x3fffc else 0xffffffffc)"

text \<open>The constants \<open>CSR_TEXTRA32_SSELECT\<close> and \<open>CSR_TEXTRA64_SSELECT\<close> are equal.\<close>

abbreviation (input) CSR_TEXTRA_SSELECT :: u64 where "CSR_TEXTRA_SSELECT \<equiv> 3"

text \<open>The legal value of the field, what it selects, and whether the compared value is shifted.\<close>

definition interpret_mhselect :: "bool \<Rightarrow> trigger_t \<Rightarrow> (u32 \<times> mhselect_mode_t \<times> bool option) option" where
  "interpret_mhselect h_enabled t =
     (if mhselect t < 8 then
        let legal = (if h_enabled then [0, 1, 2, 0, 4, 5, 6, 4] else [0, 0, 0, 0, 4, 4, 4, 4]) ! unat (mhselect t)
        in [Some (0, MHSELECT_MODE_IGNORE, None), Some (1, MHSELECT_MODE_MCONTEXT, Some True), Some (2, MHSELECT_MODE_VMID, Some True), None,
            Some (4, MHSELECT_MODE_MCONTEXT, Some False), Some (5, MHSELECT_MODE_MCONTEXT, Some True),
            Some (6, MHSELECT_MODE_VMID, Some True), None] ! legal
      else None)"

definition compare_val :: "u32 \<Rightarrow> bool \<Rightarrow> u32 \<Rightarrow> u32" where
  "compare_val sel shift_mhvalue v = (if shift_mhvalue then push_bit 1 v OR drop_bit 2 sel else v)"

definition legalize_mhselect :: "bool \<Rightarrow> trigger_t \<Rightarrow> u32 option" where
  "legalize_mhselect h_enabled t = map_option fst (interpret_mhselect h_enabled t)"

definition tdata3_read :: "trig_hart \<Rightarrow> trigger_t \<Rightarrow> u64 option" where
  "tdata3_read h t =
     do { sel \<leftarrow> legalize_mhselect (th_ext_h h) t;
          let xl = th_xlen h;
          let r = set_field 0 (CSR_TEXTRA_MHVALUE xl) (ucast (mhvalue t));
          let r = set_field r (CSR_TEXTRA_MHSELECT xl) (ucast sel);
          let r = set_field r (CSR_TEXTRA_SBYTEMASK xl) (ucast (sbytemask t));
          let r = set_field r (CSR_TEXTRA_SVALUE xl) (ucast (svalue t));
          Some (set_field r CSR_TEXTRA_SSELECT (sselect_num (sselect t))) }"

definition sselect_of :: "u64 \<Rightarrow> sselect_t" where
  "sselect_of v = (if v = 1 then SSELECT_SCONTEXT else if v = 2 then SSELECT_ASID else SSELECT_IGNORE)"

definition tdata3_write :: "trig_hart \<Rightarrow> u64 \<Rightarrow> trigger_t \<Rightarrow> trigger_t" where
  "tdata3_write h v t =
     (let xl = th_xlen h
      in t\<lparr>mhvalue := ucast (get_field v (CSR_TEXTRA_MHVALUE xl)),
           mhselect := ucast (get_field v (CSR_TEXTRA_MHSELECT xl)),
           sbytemask := ucast (get_field v (CSR_TEXTRA_SBYTEMASK xl)),
           svalue := (if th_ext_s h then ucast (get_field v (CSR_TEXTRA_SVALUE xl)) else 0),
           sselect := (if th_ext_s h \<and> get_field v CSR_TEXTRA_SSELECT \<le> 2 then sselect_of (get_field v CSR_TEXTRA_SSELECT) else SSELECT_IGNORE)\<rparr>)"

definition tdata2_write :: "u64 \<Rightarrow> trigger_t \<Rightarrow> trigger_t" where
  "tdata2_write v t = t\<lparr>tdata2 := v\<rparr>"

subsection \<open>Register \<open>tdata1\<close>\<close>

definition TDATA1_TYPE :: "nat \<Rightarrow> u64" where
  "TDATA1_TYPE xl = push_bit (xl - 4) 0xf"

definition TDATA1_DMODE :: "nat \<Rightarrow> u64" where
  "TDATA1_DMODE xl = push_bit (xl - 5) 1"

definition TDATA1_HIT :: "nat \<Rightarrow> u64" where
  "TDATA1_HIT xl = push_bit (xl - 6) 1"

definition legalize_match :: "u64 \<Rightarrow> match_t" where
  "legalize_match v =
     (if v = 1 then MATCH_NAPOT else if v = 2 then MATCH_GE else if v = 3 then MATCH_LT else if v = 4 then MATCH_MASK_LOW
      else if v = 5 then MATCH_MASK_HIGH else MATCH_EQUAL)"

definition legalize_timing :: "u64 \<Rightarrow> u64 \<Rightarrow> u64 \<Rightarrow> u64 \<Rightarrow> u64 \<Rightarrow> bool" where
  "legalize_timing v timing_mask select_mask execute_mask load_mask =
     (if get_flag v select_mask \<and> get_flag v load_mask then True
      else if get_flag v execute_mask then False
      else get_flag v timing_mask)"

definition mcontrol_read :: "trig_hart \<Rightarrow> trigger_t \<Rightarrow> mcontrol_common_t \<Rightarrow> u64" where
  "mcontrol_read h t c =
     (let xl = th_xlen h;
          v = set_field 0 (TDATA1_TYPE xl) 2;
          v = set_flag v (TDATA1_DMODE xl) (mc_dmode c);
          v = set_field v (push_bit (xl - 11) 0x3f) 0;
          v = set_flag v 0x100000 (mc_hit c);
          v = set_flag v 0x80000 (mc_select c);
          v = set_flag v 0x40000 (mc_timing c);
          v = set_field v 0x3f000 (of_nat (action_num (mc_action c)));
          v = set_flag v 0x800 (mc_chain c);
          v = set_field v 0x780 (match_num (mc_match c));
          v = set_flag v 0x40 (tr_m t);
          v = set_flag v 0x10 (tr_s t);
          v = set_flag v 8 (tr_u t);
          v = set_flag v 4 (mc_execute c);
          v = set_flag v 2 (mc_store c)
      in set_flag v 1 (mc_load c))"

definition mcontrol6_read :: "trig_hart \<Rightarrow> trigger_t \<Rightarrow> mcontrol_common_t \<Rightarrow> u64" where
  "mcontrol6_read h t c =
     (let xl = th_const_xlen h;
          v = set_field 0 (TDATA1_TYPE xl) 6;
          v = set_flag v (TDATA1_DMODE xl) (mc_dmode c);
          v = set_flag v 0x1000000 (th_ext_h h \<and> tr_vs t);
          v = set_flag v 0x800000 (th_ext_h h \<and> tr_vu t);
          v = set_flag v 0x400000 (mc_hit c);
          v = set_flag v 0x200000 (mc_select c);
          v = set_flag v 0x100000 (mc_timing c);
          v = set_field v 0xf000 (of_nat (action_num (mc_action c)));
          v = set_flag v 0x800 (mc_chain c);
          v = set_field v 0x780 (match_num (mc_match c));
          v = set_flag v 0x40 (tr_m t);
          v = set_flag v 0x10 (tr_s t);
          v = set_flag v 8 (tr_u t);
          v = set_flag v 4 (mc_execute c);
          v = set_flag v 2 (mc_store c)
      in set_flag v 1 (mc_load c))"

definition icount_read :: "trig_hart \<Rightarrow> trigger_t \<Rightarrow> icount_t \<Rightarrow> u64" where
  "icount_read h t c =
     (let xl = th_xlen h;
          v = set_field 0 (TDATA1_TYPE xl) 3;
          v = set_flag v (TDATA1_DMODE xl) (ic_dmode c);
          v = set_flag v 0x4000000 (th_ext_h h \<and> tr_vs t);
          v = set_flag v 0x2000000 (th_ext_h h \<and> tr_vu t);
          v = set_flag v 0x1000000 (ic_hit c);
          v = set_field v 0xfffc00 (ucast (ic_count_read_value c));
          v = set_flag v 0x200 (tr_m t);
          v = set_flag v 0x100 (ic_pending_read_value c);
          v = set_flag v 0x80 (tr_s t);
          v = set_flag v 0x40 (tr_u t)
      in set_field v 0x3f (of_nat (action_num (ic_action c))))"

definition itrigger_read :: "trig_hart \<Rightarrow> trigger_t \<Rightarrow> trap_common_t \<Rightarrow> bool \<Rightarrow> u64" where
  "itrigger_read h t c nmi =
     (let xl = th_xlen h;
          v = set_field 0 (TDATA1_TYPE xl) 4;
          v = set_flag v (TDATA1_DMODE xl) (tp_dmode c);
          v = set_flag v (TDATA1_HIT xl) (tp_hit c);
          v = set_flag v 0x1000 (th_ext_h h \<and> tr_vs t);
          v = set_flag v 0x800 (th_ext_h h \<and> tr_vu t);
          v = set_flag v 0x400 nmi;
          v = set_flag v 0x200 (tr_m t);
          v = set_flag v 0x80 (tr_s t);
          v = set_flag v 0x40 (tr_u t)
      in set_field v 0x3f (of_nat (action_num (tp_action c))))"

definition etrigger_read :: "trig_hart \<Rightarrow> trigger_t \<Rightarrow> trap_common_t \<Rightarrow> u64" where
  "etrigger_read h t c =
     (let xl = th_xlen h;
          v = set_field 0 (TDATA1_TYPE xl) 5;
          v = set_flag v (TDATA1_DMODE xl) (tp_dmode c);
          v = set_flag v (TDATA1_HIT xl) (tp_hit c);
          v = set_flag v 0x1000 (th_ext_h h \<and> tr_vs t);
          v = set_flag v 0x800 (th_ext_h h \<and> tr_vu t);
          v = set_flag v 0x200 (tr_m t);
          v = set_flag v 0x80 (tr_s t);
          v = set_flag v 0x40 (tr_u t)
      in set_field v 0x3f (of_nat (action_num (tp_action c))))"

definition trigger_tdata1_read :: "trig_hart \<Rightarrow> trigger_t \<Rightarrow> u64" where
  "trigger_tdata1_read h t =
     (case kind t of
        Disabled d \<Rightarrow> set_flag (set_field 0 (TDATA1_TYPE (th_xlen h)) 15) (TDATA1_DMODE (th_xlen h)) d
      | Mcontrol c \<Rightarrow> mcontrol_read h t c
      | Mcontrol6 c \<Rightarrow> mcontrol6_read h t c
      | Icount c \<Rightarrow> icount_read h t c
      | Itrigger c nmi \<Rightarrow> itrigger_read h t c nmi
      | Etrigger c \<Rightarrow> etrigger_read h t c)"

definition mcontrol_write :: "trig_hart \<Rightarrow> u64 \<Rightarrow> bool \<Rightarrow> trigger_t \<Rightarrow> mcontrol_common_t \<Rightarrow> trigger_t option" where
  "mcontrol_write h v allow_chain t c =
     (let xl = th_xlen h
      in if get_field v (TDATA1_TYPE xl) \<noteq> 2 then None
         else Some (t\<lparr>
           tr_m := get_flag v 0x40,
           tr_s := th_ext_s h \<and> get_flag v 0x10,
           tr_u := th_ext_u h \<and> get_flag v 8,
           kind := Mcontrol (c\<lparr>
             mc_dmode := get_flag v (TDATA1_DMODE xl),
             mc_hit := get_flag v 0x100000,
             mc_select := get_flag v 0x80000,
             mc_timing := legalize_timing v 0x40000 0x80000 4 1,
             mc_action := legalize_action v 0x3f000 (TDATA1_DMODE xl),
             mc_chain := allow_chain \<and> get_flag v 0x800,
             mc_match := legalize_match (get_field v 0x780),
             mc_execute := get_flag v 4,
             mc_store := get_flag v 2,
             mc_load := get_flag v 1\<rparr>)\<rparr>))"

definition mcontrol6_write :: "trig_hart \<Rightarrow> u64 \<Rightarrow> bool \<Rightarrow> trigger_t \<Rightarrow> mcontrol_common_t \<Rightarrow> trigger_t option" where
  "mcontrol6_write h v allow_chain t c =
     (let xl = th_const_xlen h
      in if get_field v (TDATA1_TYPE xl) \<noteq> 6 then None
         else Some (t\<lparr>
           tr_vs := get_flag v 0x1000000,
           tr_vu := get_flag v 0x800000,
           tr_m := get_flag v 0x40,
           tr_s := th_ext_s h \<and> get_flag v 0x10,
           tr_u := th_ext_u h \<and> get_flag v 8,
           kind := Mcontrol6 (c\<lparr>
             mc_dmode := get_flag v (TDATA1_DMODE xl),
             mc_hit := get_flag v 0x400000,
             mc_select := get_flag v 0x200000,
             mc_timing := legalize_timing v 0x100000 0x200000 4 1,
             mc_action := legalize_action v 0xf000 (TDATA1_DMODE xl),
             mc_chain := allow_chain \<and> get_flag v 0x800,
             mc_match := legalize_match (get_field v 0x780),
             mc_execute := get_flag v 4,
             mc_store := get_flag v 2,
             mc_load := get_flag v 1\<rparr>)\<rparr>))"

definition icount_write :: "trig_hart \<Rightarrow> u64 \<Rightarrow> trigger_t \<Rightarrow> icount_t \<Rightarrow> trigger_t option" where
  "icount_write h v t c =
     (let xl = th_xlen h; count = ucast (get_field v 0xfffc00); pending = get_flag v 0x100
      in if get_field v (TDATA1_TYPE xl) \<noteq> 3 then None
         else Some (t\<lparr>
           tr_vs := get_flag v 0x4000000,
           tr_vu := get_flag v 0x2000000,
           tr_m := get_flag v 0x200,
           tr_s := th_ext_s h \<and> get_flag v 0x80,
           tr_u := th_ext_u h \<and> get_flag v 0x40,
           kind := Icount (c\<lparr>
             ic_dmode := th_debug_mode h \<and> get_flag v (TDATA1_DMODE xl),
             ic_hit := get_flag v 0x1000000,
             ic_count := count,
             ic_count_read_value := count,
             ic_pending := pending,
             ic_pending_read_value := pending,
             ic_action := legalize_action v 0x3f (TDATA1_DMODE xl)\<rparr>)\<rparr>))"

definition trap_write :: "trig_hart \<Rightarrow> u64 \<Rightarrow> trap_common_t \<Rightarrow> trap_common_t" where
  "trap_write h v c =
     (let xl = th_xlen h
      in c\<lparr>tp_dmode := get_flag v (TDATA1_DMODE xl), tp_hit := get_flag v (TDATA1_HIT xl), tp_action := legalize_action v 0x3f (TDATA1_DMODE xl)\<rparr>)"

definition trap_modes_write :: "trig_hart \<Rightarrow> u64 \<Rightarrow> trigger_t \<Rightarrow> trigger_t" where
  "trap_modes_write h v t = t\<lparr>tr_vs := get_flag v 0x1000, tr_vu := get_flag v 0x800, tr_m := get_flag v 0x200,
     tr_s := th_ext_s h \<and> get_flag v 0x80, tr_u := th_ext_u h \<and> get_flag v 0x40\<rparr>"

definition trigger_tdata1_write :: "trig_hart \<Rightarrow> u64 \<Rightarrow> bool \<Rightarrow> trigger_t \<Rightarrow> trigger_t option" where
  "trigger_tdata1_write h v allow_chain t =
     (case kind t of
        Disabled _ \<Rightarrow> Some (t\<lparr>kind := Disabled (get_flag v (TDATA1_DMODE (th_xlen h)))\<rparr>)
      | Mcontrol c \<Rightarrow> mcontrol_write h v allow_chain t c
      | Mcontrol6 c \<Rightarrow> mcontrol6_write h v allow_chain t c
      | Icount c \<Rightarrow> icount_write h v t c
      | Itrigger c _ \<Rightarrow>
          if get_field v (TDATA1_TYPE (th_xlen h)) \<noteq> 4 then None
          else Some ((trap_modes_write h v t)\<lparr>kind := Itrigger (trap_write h v c) (get_flag v 0x400)\<rparr>)
      | Etrigger c \<Rightarrow>
          if get_field v (TDATA1_TYPE (th_xlen h)) \<noteq> 5 then None
          else Some ((trap_modes_write h v t)\<lparr>kind := Etrigger (trap_write h v c)\<rparr>))"

subsection \<open>The module\<close>

definition kind_of_type :: "u64 \<Rightarrow> trigger_kind" where
  "kind_of_type ty =
     (if ty = 2 then Mcontrol mcontrol_new else if ty = 3 then Icount icount_new else if ty = 4 then Itrigger trap_new False
      else if ty = 5 then Etrigger trap_new else if ty = 6 then Mcontrol6 mcontrol_new else Disabled False)"

definition tdata1_read :: "trig_hart \<Rightarrow> trigger_t list \<Rightarrow> nat \<Rightarrow> u64 option" where
  "tdata1_read h ts i = (if i < length ts then Some (trigger_tdata1_read h (ts ! i)) else None)"

definition allow_chain_write :: "trig_hart \<Rightarrow> u64 \<Rightarrow> trigger_t list \<Rightarrow> nat \<Rightarrow> bool" where
  "allow_chain_write h v ts i \<longleftrightarrow> \<not> (i + 1 < length ts \<and> get_dmode (ts ! (i + 1)) \<and> get_field v (TDATA1_DMODE (th_xlen h)) = 0)"

definition tdata1_write :: "trig_hart \<Rightarrow> nat \<Rightarrow> u64 \<Rightarrow> trigger_t list \<Rightarrow> (bool \<times> trigger_t list) option" where
  "tdata1_write h i v ts =
     (if \<not> i < length ts then None
      else if get_dmode (ts ! i) \<and> \<not> th_debug_mode h then Some (False, ts)
      else
        let xl = th_xlen h;
            allow_chain = allow_chain_write h v ts i;
            tdata1 = (if \<not> th_debug_mode h then set_field v (TDATA1_DMODE xl) 0 else v)
        in if 0 < i \<and> \<not> get_dmode (ts ! (i - 1)) \<and> get_chain (ts ! (i - 1)) \<and> get_flag tdata1 (TDATA1_DMODE xl) then Some (False, ts)
           else do { d3 \<leftarrow> tdata3_read h (ts ! i);
                     t \<leftarrow> trigger_tdata1_write h tdata1 allow_chain (trigger_new (kind_of_type (get_field v (TDATA1_TYPE xl))));
                     Some (True, ts[i := tdata3_write h d3 (tdata2_write (tdata2 (ts ! i)) t)]) })"

definition module_tdata2_write :: "trig_hart \<Rightarrow> nat \<Rightarrow> u64 \<Rightarrow> trigger_t list \<Rightarrow> (bool \<times> trigger_t list) option" where
  "module_tdata2_write h i v ts =
     (if \<not> i < length ts then None
      else if get_dmode (ts ! i) \<and> \<not> th_debug_mode h then Some (False, ts)
      else Some (True, ts[i := tdata2_write v (ts ! i)]))"

definition module_tdata3_write :: "trig_hart \<Rightarrow> nat \<Rightarrow> u64 \<Rightarrow> trigger_t list \<Rightarrow> (bool \<times> trigger_t list) option" where
  "module_tdata3_write h i v ts =
     (if \<not> i < length ts then None
      else if get_dmode (ts ! i) \<and> \<not> th_debug_mode h then Some (False, ts)
      else Some (True, ts[i := tdata3_write h v (ts ! i)]))"

definition tselect_write :: "u64 \<Rightarrow> trigger_t list \<Rightarrow> u64 \<Rightarrow> u64" where
  "tselect_write v ts tselect = (if v < of_nat (length ts) then v else tselect)"

subsection \<open>Matching\<close>

text \<open>A privilege mode other than the three fails an assertion.\<close>

definition mode_match :: "trigger_t \<Rightarrow> u64 \<Rightarrow> bool \<Rightarrow> bool option" where
  "mode_match t p v =
     (if p = 3 then Some (tr_m t)
      else if p = 1 then Some (if v then tr_vs t else tr_s t)
      else if p = 0 then Some (if v then tr_vu t else tr_u t)
      else None)"

text \<open>The mask of the context comparison, without the bytes that \<open>sbytemask\<close> excludes.\<close>

definition svalue_mask :: "nat \<Rightarrow> u32 \<Rightarrow> u64" where
  "svalue_mask xl bm =
     fold (\<lambda>i m. if bm AND push_bit i 1 \<noteq> 0 then m AND NOT (push_bit (8 * i) 0xff) else m) [0..<5]
       (push_bit (if xl = 32 then 16 else 34) 1 - 1)"

definition sselect_match :: "trig_hart \<Rightarrow> trigger_t \<Rightarrow> bool" where
  "sselect_match h t =
     (case sselect t of
        SSELECT_IGNORE \<Rightarrow> True
      | SSELECT_SCONTEXT \<Rightarrow>
          (let m = svalue_mask (th_xlen h) (sbytemask t) in th_scontext h AND m = ucast (svalue t) AND m)
      | SSELECT_ASID \<Rightarrow>
          (let asid = get_field (th_satp h) (if th_xlen h = 32 then 0x7FC00000 else 0x0FFFF00000000000)
           in asid = ucast (svalue t AND (push_bit (if th_xlen h = 32 then 9 else 16) 1 - 1))))"

definition textra_match :: "trig_hart \<Rightarrow> trigger_t \<Rightarrow> bool option" where
  "textra_match h t =
     (if \<not> sselect_match h t then Some False
      else do {
        (sel, mode, shift) \<leftarrow> interpret_mhselect (th_ext_h h) t;
        case mode of
          MHSELECT_MODE_IGNORE \<Rightarrow> Some True
        | MHSELECT_MODE_MCONTEXT \<Rightarrow>
            do { sh \<leftarrow> shift;
                 let m = push_bit ((if th_xlen h = 32 then 6 else 13) + 1) 1 - 1;
                 Some (th_mcontext h AND m = ucast (compare_val sel sh (mhvalue t))) }
        | MHSELECT_MODE_VMID \<Rightarrow>
            do { sh \<leftarrow> shift;
                 let vmid = get_field (th_hgatp h) (if th_xlen h = 32 then 0x1FC00000 else 0x03FFF00000000000);
                 Some (vmid = ucast (compare_val sel sh (mhvalue t) AND (push_bit (if th_xlen h = 32 then 7 else 14) 1 - 1))) } })"

definition common_match :: "trig_hart \<Rightarrow> bool \<Rightarrow> trigger_t \<Rightarrow> bool option" where
  "common_match h use_prev_prv t =
     do { mm \<leftarrow> mode_match t (if use_prev_prv then th_prev_prv h else th_prv h) (if use_prev_prv then th_prev_v h else th_v h);
          if mm then textra_match h t else Some False }"

definition allow_action :: "trig_hart \<Rightarrow> trigger_t \<Rightarrow> bool" where
  "allow_action h t =
     (if get_action t = ACTION_DEBUG_EXCEPTION then
        let mstatus_mie = (th_mstatus h AND 8 \<noteq> 0);
            sstatus_sie = (th_sstatus h AND 2 \<noteq> 0);
            vsstatus_sie = (th_vsstatus h AND 2 \<noteq> 0);
            medeleg_breakpoint = (drop_bit 3 (th_medeleg h) AND 1 \<noteq> 0);
            hedeleg_breakpoint = (drop_bit 3 (th_hedeleg h) AND 1 \<noteq> 0)
        in (th_prv h \<noteq> 3 \<or> mstatus_mie) \<and>
           (th_prv h \<noteq> 1 \<or> th_v h \<or> \<not> medeleg_breakpoint \<or> sstatus_sie) \<and>
           (th_prv h \<noteq> 1 \<or> \<not> th_v h \<or> \<not> medeleg_breakpoint \<or> \<not> hedeleg_breakpoint \<or> vsstatus_sie)
      else True)"

text \<open>\<open>cto\<close> of \<open>arith.h\<close>: a loop that shifts while the lowest bit is set.\<close>

function cto :: "u64 \<Rightarrow> nat" where
  "cto w = (if w AND 1 = 1 then Suc (cto (drop_bit 1 w)) else 0)"
  by auto
termination
proof (relation "measure unat")
  fix w :: u64
  assume "w AND 1 = 1"
  then have "w \<noteq> 0" by auto
  then have "unat w div 2 < unat w" by (simp add: unat_gt_0)
  moreover have "unat (drop_bit 1 w) = unat w div 2" using unat_drop_bit_eq [of 1 w] drop_bit_eq_div [of 1 "unat w"] by simp
  ultimately show "(drop_bit 1 w, w) \<in> measure unat" by simp
qed simp

declare cto.simps [simp del]

text \<open>The mask of \<open>MATCH_NAPOT\<close> is computed in the type \<open>int\<close>, where a shift by 31 or more has no defined result.\<close>

definition mcontrol_simple_match :: "nat \<Rightarrow> u64 \<Rightarrow> u64 \<Rightarrow> match_t \<Rightarrow> bool option" where
  "mcontrol_simple_match xl d2 v ma =
     (case ma of
        MATCH_EQUAL \<Rightarrow> Some (v = d2)
      | MATCH_NAPOT \<Rightarrow>
          if 31 \<le> cto d2 + 1 then None
          else let m = NOT (push_bit (cto d2 + 1) 1 - 1) in Some (v AND m = d2 AND m)
      | MATCH_GE \<Rightarrow> Some (d2 \<le> v)
      | MATCH_LT \<Rightarrow> Some (v < d2)
      | MATCH_MASK_LOW \<Rightarrow> (let m = drop_bit (xl div 2) d2 in Some (v AND m = d2 AND m))
      | MATCH_MASK_HIGH \<Rightarrow> (let m = drop_bit (xl div 2) d2 in Some (drop_bit (xl div 2) v AND m = d2 AND m)))"

definition mcontrol_detect :: "trig_hart \<Rightarrow> operation_t \<Rightarrow> u64 \<Rightarrow> u64 option \<Rightarrow> trigger_t \<Rightarrow> mcontrol_common_t \<Rightarrow> (match_result_t option \<times> mcontrol_common_t) option" where
  "mcontrol_detect h operation address data t c =
     (if operation = OPERATION_EXECUTE \<and> \<not> mc_execute c \<or> operation = OPERATION_STORE \<and> \<not> mc_store c \<or> operation = OPERATION_LOAD \<and> \<not> mc_load c
      then Some (None, c)
      else do {
        cm \<leftarrow> common_match h False t;
        if \<not> cm then Some (None, c)
        else case (if mc_select c then data else Some address) of
               None \<Rightarrow> Some (None, c)
             | Some v \<Rightarrow>
                 do { let v = (if th_xlen h = 32 then v AND 0xffffffff else v);
                      sm \<leftarrow> mcontrol_simple_match (th_xlen h) (tdata2 t) v (mc_match c);
                      Some (if sm \<and> allow_action h t
                            then (Some (if mc_timing c then TIMING_AFTER else TIMING_BEFORE, mc_action c), c\<lparr>mc_hit := True\<rparr>)
                            else (None, c)) } })"

definition trigger_detect_memory :: "trig_hart \<Rightarrow> operation_t \<Rightarrow> u64 \<Rightarrow> u64 option \<Rightarrow> trigger_t \<Rightarrow> (match_result_t option \<times> trigger_t) option" where
  "trigger_detect_memory h operation address data t =
     (case kind t of
        Mcontrol c \<Rightarrow> map_option (apsnd (\<lambda>c. t\<lparr>kind := Mcontrol c\<rparr>)) (mcontrol_detect h operation address data t c)
      | Mcontrol6 c \<Rightarrow> map_option (apsnd (\<lambda>c. t\<lparr>kind := Mcontrol6 c\<rparr>)) (mcontrol_detect h operation address data t c)
      | _ \<Rightarrow> Some (None, t))"

text \<open>The stronger of two results: the earlier one unless the later has the higher action.\<close>

definition better_match :: "match_result_t option \<Rightarrow> match_result_t option \<Rightarrow> match_result_t option" where
  "better_match ret result =
     (case result of None \<Rightarrow> ret | Some r \<Rightarrow> (case ret of None \<Rightarrow> result | Some q \<Rightarrow> if snd q < snd r then result else ret))"

primrec detect_memory_loop :: "trig_hart \<Rightarrow> operation_t \<Rightarrow> u64 \<Rightarrow> u64 option \<Rightarrow> trigger_t list \<Rightarrow> bool \<Rightarrow> match_result_t option \<Rightarrow>
    (match_result_t option \<times> trigger_t list) option" where
  "detect_memory_loop h operation address data [] chain_ok ret = Some (ret, [])"
| "detect_memory_loop h operation address data (t # ts) chain_ok ret =
     (if \<not> chain_ok then
        map_option (apsnd (Cons t)) (detect_memory_loop h operation address data ts (\<not> get_chain t) ret)
      else do {
        (result, t') \<leftarrow> trigger_detect_memory h operation address data t;
        let ret = (if \<not> get_chain t' then better_match ret result else ret);
        map_option (apsnd (Cons t'))
          (detect_memory_loop h operation address data ts (result \<noteq> None \<or> \<not> get_chain t') ret) })"

definition detect_memory_access_match :: "trig_hart \<Rightarrow> operation_t \<Rightarrow> u64 \<Rightarrow> u64 option \<Rightarrow> trigger_t list \<Rightarrow> (match_result_t option \<times> trigger_t list) option" where
  "detect_memory_access_match h operation address data ts =
     (if th_debug_mode h then Some (None, ts) else detect_memory_loop h operation address data ts True None)"

subsection \<open>Instruction counts\<close>

definition stash_read_values :: "trigger_t \<Rightarrow> trigger_t" where
  "stash_read_values t =
     (case kind t of
        Icount c \<Rightarrow> t\<lparr>kind := Icount (c\<lparr>ic_count_read_value := ic_count c, ic_pending_read_value := ic_pending c\<rparr>)\<rparr>
      | _ \<Rightarrow> t)"

definition detect_icount_fire :: "trig_hart \<Rightarrow> trigger_t \<Rightarrow> (match_result_t option \<times> trigger_t) option" where
  "detect_icount_fire h t =
     (case kind t of
        Icount c \<Rightarrow>
          do { cm \<leftarrow> common_match h False t;
               Some (if \<not> cm \<or> \<not> allow_action h t then (None, t)
                     else if ic_pending c then (Some (TIMING_BEFORE, ic_action c), t\<lparr>kind := Icount (c\<lparr>ic_pending := False, ic_hit := True\<rparr>)\<rparr>)
                     else (None, t)) }
      | _ \<Rightarrow> Some (None, t))"

definition detect_icount_decrement :: "trig_hart \<Rightarrow> trigger_t \<Rightarrow> trigger_t option" where
  "detect_icount_decrement h t =
     (case kind t of
        Icount c \<Rightarrow>
          do { cm \<leftarrow> common_match h False t;
               Some (if \<not> cm \<or> \<not> allow_action h t then t
                     else if 1 \<le> ic_count c
                     then t\<lparr>kind := Icount (c\<lparr>ic_pending := (ic_count c = 1 \<or> ic_pending c), ic_count := ic_count c - 1\<rparr>)\<rparr>
                     else t) }
      | _ \<Rightarrow> Some t)"

primrec detect_loop :: "(trigger_t \<Rightarrow> (match_result_t option \<times> trigger_t) option) \<Rightarrow> trigger_t list \<Rightarrow> match_result_t option \<Rightarrow>
    (match_result_t option \<times> trigger_t list) option" where
  "detect_loop f [] ret = Some (ret, [])"
| "detect_loop f (t # ts) ret =
     do { (result, t') \<leftarrow> f t;
          map_option (apsnd (Cons t')) (detect_loop f ts (better_match ret result)) }"

primrec decrement_loop :: "trig_hart \<Rightarrow> trigger_t list \<Rightarrow> trigger_t list option" where
  "decrement_loop h [] = Some []"
| "decrement_loop h (t # ts) = do { t' \<leftarrow> detect_icount_decrement h t; map_option (Cons t') (decrement_loop h ts) }"

definition detect_icount_match :: "trig_hart \<Rightarrow> trigger_t list \<Rightarrow> (match_result_t option \<times> trigger_t list) option" where
  "detect_icount_match h ts =
     (let ts = map stash_read_values ts
      in if th_debug_mode h then Some (None, ts)
         else do {
           (ret, ts) \<leftarrow> detect_loop (detect_icount_fire h) ts None;
           if (case ret of None \<Rightarrow> True | Some r \<Rightarrow> snd r \<noteq> ACTION_DEBUG_MODE)
           then map_option (Pair ret) (decrement_loop h ts)
           else Some (ret, ts) })"

subsection \<open>Traps\<close>

definition trap_simple_match :: "trigger_t \<Rightarrow> bool \<Rightarrow> nat \<Rightarrow> bool" where
  "trap_simple_match t interrupt n =
     (case kind t of
        Itrigger c nmi \<Rightarrow> interrupt \<and> (n = 0 \<and> nmi \<or> drop_bit n (tdata2 t) AND 1 \<noteq> 0)
      | Etrigger c \<Rightarrow> \<not> interrupt \<and> drop_bit n (tdata2 t) AND 1 \<noteq> 0
      | _ \<Rightarrow> False)"

definition trap_set_hit :: "trigger_t \<Rightarrow> trigger_t" where
  "trap_set_hit t =
     (case kind t of
        Itrigger c nmi \<Rightarrow> t\<lparr>kind := Itrigger (c\<lparr>tp_hit := True\<rparr>) nmi\<rparr>
      | Etrigger c \<Rightarrow> t\<lparr>kind := Etrigger (c\<lparr>tp_hit := True\<rparr>)\<rparr>
      | _ \<Rightarrow> t)"

definition is_trap_trigger :: "trigger_t \<Rightarrow> bool" where
  "is_trap_trigger t = (case kind t of Itrigger _ _ \<Rightarrow> True | Etrigger _ \<Rightarrow> True | _ \<Rightarrow> False)"

definition trigger_detect_trap :: "trig_hart \<Rightarrow> u64 \<Rightarrow> trigger_t \<Rightarrow> (match_result_t option \<times> trigger_t) option" where
  "trigger_detect_trap h cause t =
     (if \<not> is_trap_trigger t then Some (None, t)
      else do {
        cm \<leftarrow> common_match h True t;
        if \<not> cm then Some (None, t)
        else
          let top = push_bit (th_xlen h - 1) 1;
              interrupt = (cause AND top \<noteq> 0);
              n = cause AND NOT top
          in if \<not> n < of_nat (th_xlen h) then None
             else Some (if trap_simple_match t interrupt (unat n) \<and> allow_action h t
                        then (Some (TIMING_AFTER, get_action t), trap_set_hit t) else (None, t)) })"

definition detect_trap_match :: "trig_hart \<Rightarrow> u64 \<Rightarrow> trigger_t list \<Rightarrow> (match_result_t option \<times> trigger_t list) option" where
  "detect_trap_match h cause ts =
     (if th_debug_mode h then Some (None, ts) else detect_loop (trigger_detect_trap h cause) ts None)"

text \<open>The kinds of trigger that a module offers.\<close>

definition tinfo_read :: u64 where
  "tinfo_read = push_bit 2 1 OR push_bit 3 1 OR push_bit 4 1 OR push_bit 5 1 OR push_bit 6 1 OR push_bit 15 1"

end
