(* ===== verification/Trigger_Writes.thy ===== *)
theory Trigger_Writes
  imports Triggers
begin

text \<open>
  The registers of the trigger module: fields of a register, what a write leaves in a trigger, and the rules that protect
  the triggers of a debugger.
\<close>

section \<open>Fields\<close>

text \<open>A mask of \<open>n\<close> adjacent bits from position \<open>k\<close> on.\<close>

definition fld :: "nat \<Rightarrow> nat \<Rightarrow> u64" where
  "fld k n = push_bit k (mask n)"

lemma bit_fld: "bit (fld k n) i \<longleftrightarrow> i < 64 \<and> k \<le> i \<and> i < k + n"
  by (auto simp: fld_def bit_push_bit_iff bit_mask_iff)

lemma fld_low: "0 < n \<Longrightarrow> k < 64 \<Longrightarrow> fld k n AND NOT (push_bit 1 (fld k n)) = 2 ^ k"
  by (rule bit_word_eqI, unfold bit_and_iff bit_not_iff bit_push_bit_iff bit_fld bit_exp_iff) (auto simp: possible_bit_word)

lemma get_field_fld: "0 < n \<Longrightarrow> k < 64 \<Longrightarrow> get_field r (fld k n) = take_bit n (drop_bit k r)"
proof -
  assume nk: "0 < n" "k < 64"
  have "get_field r (fld k n) = drop_bit k (r AND fld k n)" unfolding get_field_def fld_low [OF nk] by (simp add: drop_bit_eq_div)
  also have "\<dots> = take_bit n (drop_bit k r)"
    by (rule bit_word_eqI) (auto simp: bit_drop_bit_eq bit_and_iff bit_fld bit_take_bit_iff dest: bit_imp_le_length)
  finally show ?thesis .
qed

lemma set_field_fld: "0 < n \<Longrightarrow> k < 64 \<Longrightarrow> set_field r (fld k n) v = (r AND NOT (fld k n)) OR (push_bit k v AND fld k n)"
  unfolding set_field_def by (simp only: fld_low) (simp only: push_bit_eq_mult)

lemma get_set_same:
  assumes "0 < n" "k + n \<le> 64"
  shows "get_field (set_field r (fld k n) v) (fld k n) = take_bit n v"
proof -
  have "k < 64" using assms by simp
  then show ?thesis using assms unfolding get_field_fld [OF assms(1) \<open>k < 64\<close>] set_field_fld [OF assms(1) \<open>k < 64\<close>]
    by (intro bit_word_eqI) (auto simp: bit_take_bit_iff bit_drop_bit_eq bit_or_iff bit_and_iff bit_not_iff bit_push_bit_iff bit_fld)
qed

lemma get_set_other:
  assumes "0 < n" "k < 64" "0 < n'" "k' < 64" "k + n \<le> k' \<or> k' + n' \<le> k"
  shows "get_field (set_field r (fld k n) v) (fld k' n') = get_field r (fld k' n')"
  using assms(5) unfolding get_field_fld [OF assms(3,4)] set_field_fld [OF assms(1,2)]
  by (intro bit_word_eqI) (auto simp: bit_take_bit_iff bit_drop_bit_eq bit_or_iff bit_and_iff bit_not_iff bit_push_bit_iff bit_fld dest: bit_imp_le_length)

lemma get_field_0: "get_field 0 m = 0"
  by (simp add: get_field_def)

lemma masks_fld:
  "xl \<le> 64 \<Longrightarrow> 11 \<le> xl \<Longrightarrow> TDATA1_TYPE xl = fld (xl - 4) 4" "TDATA1_DMODE xl = fld (xl - 5) 1" "TDATA1_HIT xl = fld (xl - 6) 1"
  by (simp_all add: TDATA1_TYPE_def TDATA1_DMODE_def TDATA1_HIT_def fld_def mask_eq_exp_minus_1)

lemma const_masks_fld:
  "(0x4000000 :: u64) = fld 26 1" "(0x2000000 :: u64) = fld 25 1" "(0x1000000 :: u64) = fld 24 1" "(0x800000 :: u64) = fld 23 1"
  "(0x400000 :: u64) = fld 22 1" "(0x200000 :: u64) = fld 21 1" "(0x100000 :: u64) = fld 20 1" "(0x80000 :: u64) = fld 19 1"
  "(0x40000 :: u64) = fld 18 1" "(0x1000 :: u64) = fld 12 1" "(0x800 :: u64) = fld 11 1" "(0x400 :: u64) = fld 10 1" "(0x200 :: u64) = fld 9 1"
  "(0x100 :: u64) = fld 8 1" "(0x80 :: u64) = fld 7 1" "(0x40 :: u64) = fld 6 1" "(0x10 :: u64) = fld 4 1" "(8 :: u64) = fld 3 1" "(4 :: u64) = fld 2 1"
  "(2 :: u64) = fld 1 1" "(1 :: u64) = fld 0 1" "(0x3f000 :: u64) = fld 12 6" "(0xf000 :: u64) = fld 12 4" "(0x780 :: u64) = fld 7 4"
  "(0xfffc00 :: u64) = fld 10 14" "(0x3f :: u64) = fld 0 6" "(3 :: u64) = fld 0 2"
  by (simp_all add: fld_def mask_eq_exp_minus_1)

section \<open>What a write leaves\<close>

lemma set_dmode_type: "11 \<le> xl \<Longrightarrow> xl \<le> 64 \<Longrightarrow> get_field (set_field v (TDATA1_DMODE xl) x) (TDATA1_TYPE xl) = get_field v (TDATA1_TYPE xl)"
  unfolding masks_fld by (rule get_set_other) auto

lemma set_dmode_zero: "11 \<le> xl \<Longrightarrow> xl \<le> 64 \<Longrightarrow> get_field (set_field v (TDATA1_DMODE xl) 0) (TDATA1_DMODE xl) = 0"
  unfolding masks_fld by (subst get_set_same) auto

text \<open>The widths of the registers: the module is used with the two register widths and does not change between them.\<close>

definition hart_widths :: "trig_hart \<Rightarrow> bool" where
  "hart_widths h \<longleftrightarrow> th_const_xlen h = th_xlen h \<and> (th_xlen h = 32 \<or> th_xlen h = 64)"

definition trigger_wf :: "trigger_t \<Rightarrow> bool" where
  "trigger_wf t \<longleftrightarrow> mhselect t < 8"

lemma hart_widths_bounds: "hart_widths h \<Longrightarrow> 11 \<le> th_xlen h \<and> th_xlen h \<le> 64 \<and> th_const_xlen h = th_xlen h"
  by (auto simp: hart_widths_def)

lemma interpret_defined: "trigger_wf t \<Longrightarrow> \<exists>sel mode shift. interpret_mhselect b t = Some (sel, mode, shift) \<and> (mode = MHSELECT_MODE_IGNORE \<or> shift \<noteq> None)"
proof -
  assume "trigger_wf t"
  then have "unat (mhselect t) < 8" by (simp add: trigger_wf_def word_less_nat_alt)
  then have "unat (mhselect t) \<in> {0, 1, 2, 3, 4, 5, 6, 7}" by auto
  moreover have "mhselect t < 8" using \<open>trigger_wf t\<close> by (simp add: trigger_wf_def)
  moreover have "\<exists>sel mode shift. [Some (0, MHSELECT_MODE_IGNORE, None), Some (1, MHSELECT_MODE_MCONTEXT, Some True), Some (2, MHSELECT_MODE_VMID, Some True), None,
      Some (4, MHSELECT_MODE_MCONTEXT, Some False), Some (5, MHSELECT_MODE_MCONTEXT, Some True), Some (6, MHSELECT_MODE_VMID, Some True), None] ! i =
      Some (sel :: u32, mode, shift) \<and> (mode = MHSELECT_MODE_IGNORE \<or> shift \<noteq> None)" if "i \<in> {0, 1, 2, 4, 5, 6}" for i
    using that by auto
  moreover have "(if b then [0, 1, 2, 0, 4, 5, 6, 4] else [0, 0, 0, 0, 4, 4, 4, 4]) ! i \<in> {0, 1, 2, 4, 5, 6 :: nat}" if "i \<in> {0, 1, 2, 3, 4, 5, 6, 7}" for i
    using that by auto
  ultimately show ?thesis unfolding interpret_mhselect_def Let_def by simp
qed

lemma tdata3_read_defined: "trigger_wf t \<Longrightarrow> tdata3_read h t \<noteq> None"
  using interpret_defined [of t "th_ext_h h"] by (auto simp: tdata3_read_def legalize_mhselect_def Let_def)

lemma tdata3_write_wf: "th_xlen h = 32 \<or> th_xlen h = 64 \<Longrightarrow> trigger_wf (tdata3_write h v t)"
proof -
  assume xl: "th_xlen h = 32 \<or> th_xlen h = 64"
  have m: "(0x3800000 :: u64) = fld 23 3" "(0x7000000000000 :: u64) = fld 48 3" by (simp_all add: fld_def mask_eq_exp_minus_1)
  have "get_field v (CSR_TEXTRA_MHSELECT (th_xlen h)) < 2 ^ 3"
  proof -
    have "\<exists>w. get_field v (CSR_TEXTRA_MHSELECT (th_xlen h)) = take_bit 3 w"
      using xl by (auto simp: CSR_TEXTRA_MHSELECT_def m get_field_fld)
    then show ?thesis using and_mask_less' [of 3, where ?'a = 64] by (auto simp: take_bit_eq_mask)
  qed
  then have "unat (get_field v (CSR_TEXTRA_MHSELECT (th_xlen h))) < 8" by (simp add: word_less_nat_alt)
  then have "unat (ucast (get_field v (CSR_TEXTRA_MHSELECT (th_xlen h))) :: u32) < 8"
    by (simp add: unsigned_ucast_eq take_bit_eq_mod)
  then show ?thesis by (simp add: trigger_wf_def tdata3_write_def Let_def word_less_nat_alt)
qed

lemma trigger_tdata1_write_defined:
  assumes "hart_widths h"
  shows "trigger_tdata1_write h (if b then set_field v (TDATA1_DMODE (th_xlen h)) 0 else v) ac (trigger_new (kind_of_type (get_field v (TDATA1_TYPE (th_xlen h))))) \<noteq> None"
  using hart_widths_bounds [OF assms]
  by (auto simp: trigger_tdata1_write_def kind_of_type_def trigger_new_def mcontrol_write_def mcontrol6_write_def icount_write_def Let_def set_dmode_type)

text \<open>The value that reaches the trigger: outside debug mode the bit \<open>dmode\<close> is cleared.\<close>

abbreviation legal_tdata1 :: "trig_hart \<Rightarrow> u64 \<Rightarrow> u64" where
  "legal_tdata1 h v \<equiv> if \<not> th_debug_mode h then set_field v (TDATA1_DMODE (th_xlen h)) 0 else v"

lemma tdata1_write_cases:
  assumes "tdata1_write h i v ts = Some (b, ts')"
  shows "\<not> b \<and> ts' = ts \<or>
    b \<and> i < length ts \<and> (get_dmode (ts ! i) \<longrightarrow> th_debug_mode h) \<and>
    (0 < i \<and> get_chain (ts ! (i - 1)) \<and> get_flag (legal_tdata1 h v) (TDATA1_DMODE (th_xlen h)) \<longrightarrow> get_dmode (ts ! (i - 1))) \<and>
    (\<exists>d3 t0. trigger_tdata1_write h (legal_tdata1 h v) (allow_chain_write h v ts i)
        (trigger_new (kind_of_type (get_field v (TDATA1_TYPE (th_xlen h))))) = Some t0 \<and>
      tdata3_read h (ts ! i) = Some d3 \<and> ts' = ts[i := tdata3_write h d3 (tdata2_write (tdata2 (ts ! i)) t0)])"
proof (cases "\<not> b \<and> ts' = ts")
  case False
  then show ?thesis using assms unfolding tdata1_write_def Let_def
    by (simp split: if_split_asm bind_split_asm) blast+
qed simp

text \<open>The flags of the trigger that a write makes.\<close>

lemma written_flags:
  assumes "hart_widths h" "trigger_tdata1_write h v ac (trigger_new k) = Some t"
  shows "get_dmode t \<Longrightarrow> get_flag v (TDATA1_DMODE (th_xlen h))"
    and "get_chain t \<Longrightarrow> ac \<and> (get_flag v (TDATA1_DMODE (th_xlen h)) \<longleftrightarrow> get_dmode t)"
  using assms hart_widths_bounds [OF assms(1)]
  by (cases k; auto simp: trigger_tdata1_write_def trigger_new_def mcontrol_write_def mcontrol6_write_def icount_write_def
      trap_write_def trap_modes_write_def Let_def get_dmode_def get_chain_def split: if_splits)+

lemma tdata23_flags [simp]:
  "get_dmode (tdata3_write h d t) = get_dmode t" "get_chain (tdata3_write h d t) = get_chain t"
  "get_dmode (tdata2_write v t) = get_dmode t" "get_chain (tdata2_write v t) = get_chain t"
  by (simp_all add: tdata3_write_def tdata2_write_def get_dmode_def get_chain_def Let_def)

section \<open>Chains and the debugger\<close>

text \<open>No trigger of the debugger is chained to one that software controls.\<close>

definition chain_safe :: "trigger_t list \<Rightarrow> bool" where
  "chain_safe ts \<longleftrightarrow> (\<forall>i. Suc i < length ts \<longrightarrow> get_dmode (ts ! Suc i) \<longrightarrow> get_chain (ts ! i) \<longrightarrow> get_dmode (ts ! i))"

lemma tdata1_write_chain_safe:
  assumes h: "hart_widths h" and safe: "chain_safe ts" and w: "tdata1_write h i v ts = Some (b, ts')"
    and dm: "th_debug_mode h \<or> \<not> get_flag v (TDATA1_DMODE (th_xlen h))"
  shows "chain_safe ts'"
proof (cases "ts' = ts")
  case True
  then show ?thesis using safe by simp
next
  case False
  note xl = hart_widths_bounds [OF h]
  obtain d3 t0 where t0: "trigger_tdata1_write h (legal_tdata1 h v) (allow_chain_write h v ts i)
        (trigger_new (kind_of_type (get_field v (TDATA1_TYPE (th_xlen h))))) = Some t0"
    and ts': "ts' = ts[i := tdata3_write h d3 (tdata2_write (tdata2 (ts ! i)) t0)]" and i: "i < length ts"
    and prev: "0 < i \<Longrightarrow> get_chain (ts ! (i - 1)) \<Longrightarrow> get_flag (legal_tdata1 h v) (TDATA1_DMODE (th_xlen h)) \<Longrightarrow> get_dmode (ts ! (i - 1))"
    using tdata1_write_cases [OF w] False by blast
  note F = written_flags [OF h t0]
  have bits: "get_flag (legal_tdata1 h v) (TDATA1_DMODE (th_xlen h)) \<longleftrightarrow> get_flag v (TDATA1_DMODE (th_xlen h))"
    using dm xl set_dmode_zero by auto
  show ?thesis unfolding chain_safe_def
  proof (intro allI impI)
    fix j
    assume j: "Suc j < length ts'" "get_dmode (ts' ! Suc j)" "get_chain (ts' ! j)"
    consider (same) "j = i" | (below) "Suc j = i" | (other) "j \<noteq> i" "Suc j \<noteq> i" by blast
    then show "get_dmode (ts' ! j)"
    proof cases
      case same
      then have next_t: "get_dmode (ts ! Suc i)" "Suc i < length ts" and chain: "get_chain t0" using j i ts' by auto
      then have "get_flag v (TDATA1_DMODE (th_xlen h))" using F(2) by (auto simp: allow_chain_write_def)
      then show ?thesis using F(2) [OF chain] bits same i ts' by simp
    next
      case below
      then have "get_dmode t0" "get_chain (ts ! j)" using j i ts' by auto
      then show ?thesis using prev below F(1) ts' by auto
    next
      case other
      then show ?thesis using j i ts' safe by (simp add: chain_safe_def)
    qed
  qed
qed

end
