(* ===== verification/Trigger_Warl.thy ===== *)
theory Trigger_Warl
  imports Trigger_Writes
begin

text \<open>Reading \<open>tdata1\<close> back: the fields of the value that a trigger shows, and what writing this value changes.\<close>

section \<open>Fields of a value under construction\<close>

lemma field_other: "m AND m' = 0 \<Longrightarrow> get_field (set_field r m v) m' = get_field r m'"
proof -
  assume 0: "m AND m' = 0"
  have "bit m n \<Longrightarrow> \<not> bit m' n" for n using arg_cong [OF 0, of "\<lambda>w. bit w n"] by (simp add: bit_and_iff)
  then have "set_field r m v AND m' = r AND m'"
    unfolding set_field_def by (intro bit_word_eqI) (auto simp: bit_and_iff bit_or_iff bit_not_iff)
  then show ?thesis by (simp only: get_field_def)
qed

lemma flag_same: "m \<noteq> 0 \<Longrightarrow> m AND NOT (push_bit 1 m) = m \<Longrightarrow> get_field (set_flag r m b) m = of_bool b"
proof -
  assume m: "m \<noteq> 0" "m AND NOT (push_bit 1 m) = m"
  have "set_flag r m b AND m = of_bool b * m"
    unfolding set_field_def m(2) by (cases b) (auto simp: bit.conj_disj_distrib2 and.assoc)
  then have "get_field (set_flag r m b) m = of_bool b * m div m" by (simp only: get_field_def m(2))
  moreover have "unat m div unat m = 1" using m(1) by (intro div_self) (simp add: unat_eq_zero)
  ultimately show ?thesis by (cases b) (simp_all add: word_arith_nat_div)
qed

lemma field_same:
  "get_field (set_field r 0x3f000 v) 0x3f000 = take_bit 6 v" "get_field (set_field r 0xf000 v) 0xf000 = take_bit 4 v"
  "get_field (set_field r 0x780 v) 0x780 = take_bit 4 v" "get_field (set_field r 0xfffc00 v) 0xfffc00 = take_bit 14 v"
  "get_field (set_field r 0x3f v) 0x3f = take_bit 6 v"
  "get_field (set_field r 0xF000000000000000 v) 0xF000000000000000 = take_bit 4 v"
  "get_field (set_field r 0xF0000000 v) 0xF0000000 = take_bit 4 v"
proof -
  have m: "(0x3f000 :: u64) = fld 12 6" "(0xf000 :: u64) = fld 12 4" "(0x780 :: u64) = fld 7 4" "(0xfffc00 :: u64) = fld 10 14"
    "(0x3f :: u64) = fld 0 6" "(0xF000000000000000 :: u64) = fld 60 4" "(0xF0000000 :: u64) = fld 28 4"
    by (simp_all add: fld_def mask_eq_exp_minus_1)
  show "get_field (set_field r 0x3f000 v) 0x3f000 = take_bit 6 v" "get_field (set_field r 0xf000 v) 0xf000 = take_bit 4 v"
  "get_field (set_field r 0x780 v) 0x780 = take_bit 4 v" "get_field (set_field r 0xfffc00 v) 0xfffc00 = take_bit 14 v"
  "get_field (set_field r 0x3f v) 0x3f = take_bit 6 v"
  "get_field (set_field r 0xF000000000000000 v) 0xF000000000000000 = take_bit 4 v"
  "get_field (set_field r 0xF0000000 v) 0xF0000000 = take_bit 4 v"
    unfolding m by (rule get_set_same; simp)+
qed

lemma tdata1_masks:
  "TDATA1_TYPE 64 = 0xF000000000000000" "TDATA1_TYPE 32 = 0xF0000000" "TDATA1_DMODE 64 = 0x800000000000000" "TDATA1_DMODE 32 = 0x8000000"
  "TDATA1_HIT 64 = 0x400000000000000" "TDATA1_HIT 32 = 0x4000000"
  by (simp_all add: TDATA1_TYPE_def TDATA1_DMODE_def TDATA1_HIT_def)

lemma take_action: "take_bit 6 (of_nat (action_num a) :: u64) = of_nat (action_num a)" "take_bit 4 (of_nat (action_num a) :: u64) = of_nat (action_num a)"
  by (cases a; simp)+

lemma take_match: "take_bit 4 (match_num x) = match_num x"
  by (cases x) simp_all

lemma legalize_match_num: "legalize_match (match_num x) = x"
  by (cases x) (simp_all add: legalize_match_def)

lemma action_of_num: "action_of (of_nat (action_num a)) = a" "\<not> 4 < (of_nat (action_num a) :: u64)" "(of_nat (action_num a) :: u64) = 1 \<longleftrightarrow> a = ACTION_DEBUG_MODE"
  by (cases a; simp add: action_of_def)+

lemmas field_rules = field_other flag_same field_same take_action take_match tdata1_masks

lemma set_dmode_clear: "11 \<le> xl \<Longrightarrow> xl \<le> 64 \<Longrightarrow> get_field r (TDATA1_DMODE xl) = 0 \<Longrightarrow> set_field r (TDATA1_DMODE xl) 0 = r"
proof -
  assume xl: "11 \<le> xl" "xl \<le> 64" and z: "get_field r (TDATA1_DMODE xl) = 0"
  have k: "xl - 5 < 64" "(0 :: nat) < 1" using xl by simp_all
  have "take_bit 1 (drop_bit (xl - 5) r) = 0" using z unfolding masks_fld get_field_fld [OF k(2,1)] .
  moreover have "bit (take_bit 1 (drop_bit (xl - 5) r)) 0 \<longleftrightarrow> bit r (xl - 5)" unfolding bit_take_bit_iff bit_drop_bit_eq by simp
  ultimately have "\<not> bit r (xl - 5)" by simp
  then have "r AND NOT (fld (xl - 5) 1) = r"
    by (intro bit_word_eqI) (auto simp: bit_and_iff bit_not_iff bit_fld le_less_Suc_eq)
  then show ?thesis unfolding masks_fld set_field_fld [OF k(2,1)] by simp
qed

section \<open>Writing back what was read\<close>

text \<open>The choices that the write rules have made in a trigger.\<close>

definition action_legal :: "action_t \<Rightarrow> bool \<Rightarrow> bool" where
  "action_legal a dmode \<longleftrightarrow> (a = ACTION_DEBUG_MODE \<longrightarrow> dmode)"

definition timing_legal :: "mcontrol_common_t \<Rightarrow> bool" where
  "timing_legal c \<longleftrightarrow> (if mc_select c \<and> mc_load c then mc_timing c else mc_execute c \<longrightarrow> \<not> mc_timing c)"

definition trigger_legal :: "trig_hart \<Rightarrow> trigger_t \<Rightarrow> bool" where
  "trigger_legal h t \<longleftrightarrow> (tr_s t \<longrightarrow> th_ext_s h) \<and> (tr_u t \<longrightarrow> th_ext_u h) \<and> (get_dmode t \<longrightarrow> th_debug_mode h) \<and> action_legal (get_action t) (get_dmode t) \<and>
     (case kind t of
        Mcontrol c \<Rightarrow> timing_legal c
      | Mcontrol6 c \<Rightarrow> timing_legal c
      | Icount c \<Rightarrow> ic_count_read_value c < 2 ^ 14
      | _ \<Rightarrow> True)"

lemma action_back:
  assumes "get_field r m = of_nat (action_num a)" "get_field r d = of_bool dm" "action_legal a dm"
  shows "legalize_action r m d = a"
  using assms unfolding legalize_action_def by (cases a) (simp_all add: action_of_def action_legal_def)

lemma timing_back:
  assumes "get_field r mt = of_bool (mc_timing c)" "get_field r ms = of_bool (mc_select c)" "get_field r me = of_bool (mc_execute c)"
    "get_field r ml = of_bool (mc_load c)" "timing_legal c"
  shows "legalize_timing r mt ms me ml = mc_timing c"
  using assms unfolding legalize_timing_def timing_legal_def by (simp split: if_splits)

lemma of_bool_flag [simp]: "(of_bool b :: u64) = 0 \<longleftrightarrow> \<not> b"
  by (cases b) simp_all

lemma mcontrol_back:
  assumes xl: "th_xlen h = 32 \<or> th_xlen h = 64" and legal: "trigger_legal h t" "kind t = Mcontrol c" "mc_chain c \<Longrightarrow> ac"
  shows "mcontrol_write h (mcontrol_read h t c) ac t' c' = Some (t'\<lparr>tr_m := tr_m t, tr_s := tr_s t, tr_u := tr_u t, kind := Mcontrol c\<rparr>)"
proof -
  let ?r = "mcontrol_read h t c"
  have 1: "get_field ?r (TDATA1_TYPE (th_xlen h)) = 2" "get_field ?r (TDATA1_DMODE (th_xlen h)) = of_bool (mc_dmode c)"
    "get_field ?r 0x100000 = of_bool (mc_hit c)" "get_field ?r 0x80000 = of_bool (mc_select c)" "get_field ?r 0x40000 = of_bool (mc_timing c)"
    "get_field ?r 0x3f000 = of_nat (action_num (mc_action c))" "get_field ?r 0x800 = of_bool (mc_chain c)" "get_field ?r 0x780 = match_num (mc_match c)"
    "get_field ?r 0x40 = of_bool (tr_m t)" "get_field ?r 0x10 = of_bool (tr_s t)" "get_field ?r 8 = of_bool (tr_u t)"
    "get_field ?r 4 = of_bool (mc_execute c)" "get_field ?r 2 = of_bool (mc_store c)" "get_field ?r 1 = of_bool (mc_load c)"
    by (rule disjE [OF xl]; simp add: mcontrol_read_def Let_def field_rules)+
  have L: "timing_legal c" "action_legal (mc_action c) (mc_dmode c)" "(th_ext_s h \<and> tr_s t) = tr_s t" "(th_ext_u h \<and> tr_u t) = tr_u t" "(ac \<and> mc_chain c) = mc_chain c"
    using legal by (auto simp: trigger_legal_def get_action_def get_dmode_def)
  note time = timing_back [OF 1(5,4,12,14) L(1)] and act = action_back [OF 1(6,2) L(2)]
  show ?thesis unfolding mcontrol_write_def Let_def time act 1 L by (simp add: legalize_match_num L)
qed

lemma mcontrol6_back:
  assumes xl: "th_const_xlen h = 32 \<or> th_const_xlen h = 64" and legal: "trigger_legal h t" "kind t = Mcontrol6 c" "mc_chain c \<Longrightarrow> ac"
  shows "mcontrol6_write h (mcontrol6_read h t c) ac t' c' =
    Some (t'\<lparr>tr_vs := th_ext_h h \<and> tr_vs t, tr_vu := th_ext_h h \<and> tr_vu t, tr_m := tr_m t, tr_s := tr_s t, tr_u := tr_u t, kind := Mcontrol6 c\<rparr>)"
proof -
  let ?r = "mcontrol6_read h t c"
  have 1: "get_field ?r (TDATA1_TYPE (th_const_xlen h)) = 6" "get_field ?r (TDATA1_DMODE (th_const_xlen h)) = of_bool (mc_dmode c)"
    "get_field ?r 0x400000 = of_bool (mc_hit c)" "get_field ?r 0x200000 = of_bool (mc_select c)" "get_field ?r 0x100000 = of_bool (mc_timing c)"
    "get_field ?r 0xf000 = of_nat (action_num (mc_action c))" "get_field ?r 0x800 = of_bool (mc_chain c)" "get_field ?r 0x780 = match_num (mc_match c)"
    "get_field ?r 0x40 = of_bool (tr_m t)" "get_field ?r 0x10 = of_bool (tr_s t)" "get_field ?r 8 = of_bool (tr_u t)"
    "get_field ?r 4 = of_bool (mc_execute c)" "get_field ?r 2 = of_bool (mc_store c)" "get_field ?r 1 = of_bool (mc_load c)"
    "get_field ?r 0x1000000 = of_bool (th_ext_h h \<and> tr_vs t)" "get_field ?r 0x800000 = of_bool (th_ext_h h \<and> tr_vu t)"
    by (rule disjE [OF xl]; simp add: mcontrol6_read_def Let_def field_rules)+
  have L: "timing_legal c" "action_legal (mc_action c) (mc_dmode c)" "(th_ext_s h \<and> tr_s t) = tr_s t" "(th_ext_u h \<and> tr_u t) = tr_u t" "(ac \<and> mc_chain c) = mc_chain c"
    using legal by (auto simp: trigger_legal_def get_action_def get_dmode_def)
  note time = timing_back [OF 1(5,4,12,14) L(1)] and act = action_back [OF 1(6,2) L(2)]
  show ?thesis unfolding mcontrol6_write_def Let_def time act 1 L by (simp add: legalize_match_num L)
qed

lemma icount_back:
  assumes xl: "th_xlen h = 32 \<or> th_xlen h = 64" and legal: "trigger_legal h t" "kind t = Icount c"
  shows "icount_write h (icount_read h t c) t' c' =
    Some (t'\<lparr>tr_vs := th_ext_h h \<and> tr_vs t, tr_vu := th_ext_h h \<and> tr_vu t, tr_m := tr_m t, tr_s := tr_s t, tr_u := tr_u t,
      kind := Icount (c\<lparr>ic_count := ic_count_read_value c, ic_pending := ic_pending_read_value c\<rparr>)\<rparr>)"
proof -
  let ?r = "icount_read h t c"
  have 1: "get_field ?r (TDATA1_TYPE (th_xlen h)) = 3" "get_field ?r (TDATA1_DMODE (th_xlen h)) = of_bool (ic_dmode c)"
    "get_field ?r 0x1000000 = of_bool (ic_hit c)" "get_field ?r 0xfffc00 = take_bit 14 (ucast (ic_count_read_value c))"
    "get_field ?r 0x100 = of_bool (ic_pending_read_value c)" "get_field ?r 0x3f = of_nat (action_num (ic_action c))"
    "get_field ?r 0x200 = of_bool (tr_m t)" "get_field ?r 0x80 = of_bool (tr_s t)" "get_field ?r 0x40 = of_bool (tr_u t)"
    "get_field ?r 0x4000000 = of_bool (th_ext_h h \<and> tr_vs t)" "get_field ?r 0x2000000 = of_bool (th_ext_h h \<and> tr_vu t)"
    by (rule disjE [OF xl]; simp add: icount_read_def Let_def field_rules)+
  have L: "action_legal (ic_action c) (ic_dmode c)" "(th_ext_s h \<and> tr_s t) = tr_s t" "(th_ext_u h \<and> tr_u t) = tr_u t" "(th_debug_mode h \<and> ic_dmode c) = ic_dmode c"
    "ic_count_read_value c < 2 ^ 14"
    using legal by (auto simp: trigger_legal_def get_action_def get_dmode_def)
  have count: "ucast (take_bit 14 (ucast (ic_count_read_value c) :: u64)) = ic_count_read_value c"
  proof -
    have "take_bit 14 (ic_count_read_value c) = ic_count_read_value c" using L(5) by (simp add: take_bit_eq_mask less_mask_eq)
    then have "n < 14" if "bit (ic_count_read_value c) n" for n using that by (metis bit_take_bit_iff)
    then show ?thesis by (intro bit_word_eqI) (auto simp: bit_ucast_iff bit_take_bit_iff)
  qed
  note act = action_back [OF 1(6,2) L(1)]
  show ?thesis unfolding icount_write_def Let_def act 1 count by (simp add: L)
qed

lemma trap_fields_back:
  assumes "get_field r (TDATA1_DMODE (th_xlen h)) = of_bool (tp_dmode c)" "get_field r (TDATA1_HIT (th_xlen h)) = of_bool (tp_hit c)"
    "get_field r 0x3f = of_nat (action_num (tp_action c))"
    "get_field r 0x200 = of_bool (tr_m t)" "get_field r 0x80 = of_bool (tr_s t)" "get_field r 0x40 = of_bool (tr_u t)"
    "get_field r 0x1000 = of_bool (th_ext_h h \<and> tr_vs t)" "get_field r 0x800 = of_bool (th_ext_h h \<and> tr_vu t)"
    and legal: "trigger_legal h t" "get_action t = tp_action c" "get_dmode t = tp_dmode c"
  shows "trap_modes_write h r t' =
      t'\<lparr>tr_vs := th_ext_h h \<and> tr_vs t, tr_vu := th_ext_h h \<and> tr_vu t, tr_m := tr_m t, tr_s := tr_s t, tr_u := tr_u t\<rparr>"
    and "trap_write h r c' = c"
proof -
  have L: "action_legal (tp_action c) (tp_dmode c)" "(th_ext_s h \<and> tr_s t) = tr_s t" "(th_ext_u h \<and> tr_u t) = tr_u t"
    using legal by (auto simp: trigger_legal_def)
  show "trap_modes_write h r t' =
      t'\<lparr>tr_vs := th_ext_h h \<and> tr_vs t, tr_vu := th_ext_h h \<and> tr_vu t, tr_m := tr_m t, tr_s := tr_s t, tr_u := tr_u t\<rparr>"
    unfolding trap_modes_write_def assms(4-8) by (simp add: L)
  show "trap_write h r c' = c" unfolding trap_write_def Let_def action_back [OF assms(3,1) L(1)] assms(1-3) by simp
qed

lemma itrigger_back:
  assumes xl: "th_xlen h = 32 \<or> th_xlen h = 64" and legal: "trigger_legal h t" "kind t = Itrigger c nmi"
  shows "get_field (itrigger_read h t c nmi) (TDATA1_TYPE (th_xlen h)) = 4" "get_flag (itrigger_read h t c nmi) 0x400 = nmi"
    and "trap_modes_write h (itrigger_read h t c nmi) t' =
      t'\<lparr>tr_vs := th_ext_h h \<and> tr_vs t, tr_vu := th_ext_h h \<and> tr_vu t, tr_m := tr_m t, tr_s := tr_s t, tr_u := tr_u t\<rparr>"
    and "trap_write h (itrigger_read h t c nmi) c' = c"
proof -
  let ?r = "itrigger_read h t c nmi"
  have 1: "get_field ?r (TDATA1_DMODE (th_xlen h)) = of_bool (tp_dmode c)" "get_field ?r (TDATA1_HIT (th_xlen h)) = of_bool (tp_hit c)"
    "get_field ?r 0x3f = of_nat (action_num (tp_action c))"
    "get_field ?r 0x200 = of_bool (tr_m t)" "get_field ?r 0x80 = of_bool (tr_s t)" "get_field ?r 0x40 = of_bool (tr_u t)"
    "get_field ?r 0x1000 = of_bool (th_ext_h h \<and> tr_vs t)" "get_field ?r 0x800 = of_bool (th_ext_h h \<and> tr_vu t)"
    by (rule disjE [OF xl]; simp add: itrigger_read_def Let_def field_rules)+
  have "get_field ?r 0x400 = of_bool nmi" by (rule disjE [OF xl]; simp add: itrigger_read_def Let_def field_rules)
  then show "get_flag ?r 0x400 = nmi" by simp
  show "get_field ?r (TDATA1_TYPE (th_xlen h)) = 4" by (rule disjE [OF xl]; simp add: itrigger_read_def Let_def field_rules)
  have "get_action t = tp_action c" "get_dmode t = tp_dmode c" using legal(2) by (simp_all add: get_action_def get_dmode_def)
  note wb = trap_fields_back [OF 1 legal(1) this]
  show "trap_modes_write h ?r t' =
      t'\<lparr>tr_vs := th_ext_h h \<and> tr_vs t, tr_vu := th_ext_h h \<and> tr_vu t, tr_m := tr_m t, tr_s := tr_s t, tr_u := tr_u t\<rparr>"
    and "trap_write h ?r c' = c" by (rule wb)+
qed

lemma etrigger_back:
  assumes xl: "th_xlen h = 32 \<or> th_xlen h = 64" and legal: "trigger_legal h t" "kind t = Etrigger c"
  shows "get_field (etrigger_read h t c) (TDATA1_TYPE (th_xlen h)) = 5"
    and "trap_modes_write h (etrigger_read h t c) t' =
      t'\<lparr>tr_vs := th_ext_h h \<and> tr_vs t, tr_vu := th_ext_h h \<and> tr_vu t, tr_m := tr_m t, tr_s := tr_s t, tr_u := tr_u t\<rparr>"
    and "trap_write h (etrigger_read h t c) c' = c"
proof -
  let ?r = "etrigger_read h t c"
  have 1: "get_field ?r (TDATA1_DMODE (th_xlen h)) = of_bool (tp_dmode c)" "get_field ?r (TDATA1_HIT (th_xlen h)) = of_bool (tp_hit c)"
    "get_field ?r 0x3f = of_nat (action_num (tp_action c))"
    "get_field ?r 0x200 = of_bool (tr_m t)" "get_field ?r 0x80 = of_bool (tr_s t)" "get_field ?r 0x40 = of_bool (tr_u t)"
    "get_field ?r 0x1000 = of_bool (th_ext_h h \<and> tr_vs t)" "get_field ?r 0x800 = of_bool (th_ext_h h \<and> tr_vu t)"
    by (rule disjE [OF xl]; simp add: etrigger_read_def Let_def field_rules)+
  show "get_field ?r (TDATA1_TYPE (th_xlen h)) = 5" by (rule disjE [OF xl]; simp add: etrigger_read_def Let_def field_rules)
  have "get_action t = tp_action c" "get_dmode t = tp_dmode c" using legal(2) by (simp_all add: get_action_def get_dmode_def)
  note wb = trap_fields_back [OF 1 legal(1) this]
  show "trap_modes_write h ?r t' =
      t'\<lparr>tr_vs := th_ext_h h \<and> tr_vs t, tr_vu := th_ext_h h \<and> tr_vu t, tr_m := tr_m t, tr_s := tr_s t, tr_u := tr_u t\<rparr>"
    and "trap_write h ?r c' = c" by (rule wb)+
qed

lemma read_types:
  assumes "hart_widths h"
  shows "get_field (mcontrol_read h t c) (TDATA1_TYPE (th_xlen h)) = 2" "get_field (mcontrol6_read h t c) (TDATA1_TYPE (th_xlen h)) = 6"
    "get_field (icount_read h t i) (TDATA1_TYPE (th_xlen h)) = 3"
    "get_field (set_flag (set_field 0 (TDATA1_TYPE (th_xlen h)) 15) (TDATA1_DMODE (th_xlen h)) d) (TDATA1_TYPE (th_xlen h)) = 15"
    "get_field (set_flag (set_field 0 (TDATA1_TYPE (th_xlen h)) 15) (TDATA1_DMODE (th_xlen h)) d) (TDATA1_DMODE (th_xlen h)) = of_bool d"
  using assms unfolding hart_widths_def
  by (elim conjE disjE; simp add: mcontrol_read_def mcontrol6_read_def icount_read_def Let_def field_rules)+

lemma read_dmode:
  assumes "hart_widths h"
  shows "get_field (trigger_tdata1_read h t) (TDATA1_DMODE (th_xlen h)) = of_bool (get_dmode t)"
  using assms unfolding hart_widths_def
  by (cases "kind t"; elim conjE disjE; simp add: trigger_tdata1_read_def get_dmode_def mcontrol_read_def mcontrol6_read_def icount_read_def
      itrigger_read_def etrigger_read_def Let_def field_rules)

text \<open>Writing back what was read makes a trigger that reads the same.\<close>

lemma read_back:
  assumes h: "hart_widths h" and legal: "trigger_legal h t" "get_chain t \<Longrightarrow> ac"
  defines "r \<equiv> trigger_tdata1_read h t"
  shows "\<exists>t1. trigger_tdata1_write h r ac (trigger_new (kind_of_type (get_field r (TDATA1_TYPE (th_xlen h))))) = Some t1 \<and> trigger_tdata1_read h t1 = r"
proof -
  have xl: "th_xlen h = 32 \<or> th_xlen h = 64" "th_const_xlen h = 32 \<or> th_const_xlen h = 64" using h by (auto simp: hart_widths_def)
  show ?thesis
  proof (cases "kind t")
    case (Disabled d)
    then show ?thesis unfolding r_def
      by (simp add: trigger_tdata1_read_def read_types [OF h] kind_of_type_def trigger_tdata1_write_def trigger_new_def)
  next
    case (Mcontrol c)
    then have "mc_chain c \<Longrightarrow> ac" using legal(2) by (simp add: get_chain_def)
    note wb = mcontrol_back [OF xl(1) legal(1) Mcontrol this]
    show ?thesis using Mcontrol unfolding r_def
      by (simp add: trigger_tdata1_read_def read_types [OF h] kind_of_type_def trigger_tdata1_write_def trigger_new_def wb)
        (simp add: mcontrol_read_def)
  next
    case (Mcontrol6 c)
    then have "mc_chain c \<Longrightarrow> ac" using legal(2) by (simp add: get_chain_def)
    note wb = mcontrol6_back [OF xl(2) legal(1) Mcontrol6 this]
    show ?thesis using Mcontrol6 unfolding r_def
      by (simp add: trigger_tdata1_read_def read_types [OF h] kind_of_type_def trigger_tdata1_write_def trigger_new_def wb)
        (simp add: mcontrol6_read_def Let_def)
  next
    case (Icount c)
    note wb = icount_back [OF xl(1) legal(1) Icount]
    show ?thesis using Icount unfolding r_def
      by (simp add: trigger_tdata1_read_def read_types [OF h] kind_of_type_def trigger_tdata1_write_def trigger_new_def wb)
        (simp add: icount_read_def Let_def)
  next
    case (Itrigger c nmi)
    note wb = itrigger_back [OF xl(1) legal(1) Itrigger]
    show ?thesis using Itrigger unfolding r_def
      by (simp add: trigger_tdata1_read_def kind_of_type_def trigger_tdata1_write_def trigger_new_def wb)
        (simp add: itrigger_read_def Let_def)
  next
    case (Etrigger c)
    note wb = etrigger_back [OF xl(1) legal(1) Etrigger]
    show ?thesis using Etrigger unfolding r_def
      by (simp add: trigger_tdata1_read_def kind_of_type_def trigger_tdata1_write_def trigger_new_def wb)
        (simp add: etrigger_read_def Let_def)
  qed
qed

lemma legalize_action_legal: "action_legal (legalize_action v m d) (get_flag v d)"
  by (auto simp: legalize_action_def action_legal_def action_of_def Let_def split: if_splits)

lemma count_field_less: "(ucast (get_field v 0xfffc00) :: u32) < 2 ^ 14"
proof -
  have "get_field v 0xfffc00 = take_bit 14 (drop_bit 10 v)" unfolding const_masks_fld(25) by (rule get_field_fld) simp_all
  then have "(ucast (get_field v 0xfffc00) :: u32) = take_bit 14 (ucast (drop_bit 10 v))"
    by (intro bit_word_eqI) (auto simp: bit_ucast_iff bit_take_bit_iff)
  then show ?thesis using and_mask_less' [of 14 "ucast (drop_bit 10 v) :: u32"] by (simp add: take_bit_eq_mask)
qed

lemma written_legal:
  assumes h: "hart_widths h" and w: "trigger_tdata1_write h (legal_tdata1 h v) ac (trigger_new k) = Some t"
  shows "trigger_legal h t"
proof -
  note xl = hart_widths_bounds [OF h]
  have dm: "get_dmode t \<Longrightarrow> th_debug_mode h" using written_flags(1) [OF h w] xl set_dmode_zero by (auto split: if_splits)
  have icd: "get_flag (legal_tdata1 h v) (TDATA1_DMODE (th_xlen h)) \<Longrightarrow> th_debug_mode h" using xl set_dmode_zero by (auto split: if_splits)
  define u where "u = legal_tdata1 h v"
  have A: "action_legal (legalize_action u m d) (get_flag u d)" for m d by (rule legalize_action_legal)
  have "action_legal (get_action t) (get_dmode t)"
    using w xl A icd unfolding u_def [symmetric]
    by (cases k) (auto simp: trigger_tdata1_write_def trigger_new_def mcontrol_write_def mcontrol6_write_def icount_write_def
        trap_write_def trap_modes_write_def Let_def get_dmode_def get_action_def action_legal_def split: if_splits)
  moreover have "case kind t of Mcontrol c \<Rightarrow> timing_legal c | Mcontrol6 c \<Rightarrow> timing_legal c | Icount c \<Rightarrow> ic_count_read_value c < 2 ^ 14 | _ \<Rightarrow> True"
    using w count_field_less [of u] unfolding u_def [symmetric]
    by (cases k) (auto simp: trigger_tdata1_write_def trigger_new_def mcontrol_write_def mcontrol6_write_def icount_write_def
        trap_write_def trap_modes_write_def Let_def timing_legal_def legalize_timing_def split: if_splits)
  moreover have "(tr_s t \<longrightarrow> th_ext_s h) \<and> (tr_u t \<longrightarrow> th_ext_u h)"
    using w unfolding u_def [symmetric]
    by (cases k) (auto simp: trigger_tdata1_write_def trigger_new_def mcontrol_write_def mcontrol6_write_def icount_write_def
        trap_write_def trap_modes_write_def Let_def split: if_splits)
  ultimately show ?thesis using dm unfolding trigger_legal_def by blast
qed

lemma tdata23_read [simp]: "trigger_tdata1_read h (tdata3_write h' d t) = trigger_tdata1_read h t" "trigger_tdata1_read h (tdata2_write v t) = trigger_tdata1_read h t"
  by (simp_all add: trigger_tdata1_read_def tdata3_write_def tdata2_write_def Let_def mcontrol_read_def mcontrol6_read_def icount_read_def
      itrigger_read_def etrigger_read_def split: trigger_kind.split)

lemma tdata1_write_back:
  assumes h: "hart_widths h" and w: "tdata1_write h i v ts = Some (True, ts')"
    and dm: "th_debug_mode h \<or> \<not> get_flag v (TDATA1_DMODE (th_xlen h))"
  shows "\<exists>r ts''. tdata1_read h ts' i = Some r \<and> tdata1_write h i r ts' = Some (True, ts'') \<and> tdata1_read h ts'' i = Some r"
proof -
  note xl = hart_widths_bounds [OF h]
  obtain d3 t0 where t0: "trigger_tdata1_write h (legal_tdata1 h v) (allow_chain_write h v ts i)
        (trigger_new (kind_of_type (get_field v (TDATA1_TYPE (th_xlen h))))) = Some t0"
    and ts': "ts' = ts[i := tdata3_write h d3 (tdata2_write (tdata2 (ts ! i)) t0)]" and i: "i < length ts"
    and prev: "0 < i \<and> get_chain (ts ! (i - 1)) \<and> get_flag (legal_tdata1 h v) (TDATA1_DMODE (th_xlen h)) \<longrightarrow> get_dmode (ts ! (i - 1))"
    using tdata1_write_cases [OF w] by auto
  let ?d = "TDATA1_DMODE (th_xlen h)" and ?r = "trigger_tdata1_read h t0"
  note F = written_flags [OF h t0] and legal = written_legal [OF h t0]
  have read: "tdata1_read h ts' i = Some ?r" using i ts' by (simp add: tdata1_read_def)
  have deb: "get_dmode t0 \<Longrightarrow> th_debug_mode h" using legal by (simp add: trigger_legal_def)
  have dr: "get_field ?r ?d = of_bool (get_dmode t0)" by (rule read_dmode [OF h])
  have lr: "legal_tdata1 h ?r = ?r"
  proof (cases "th_debug_mode h")
    case False
    then have "get_field ?r ?d = 0" using dr deb by (cases "get_dmode t0") auto
    then show ?thesis using set_dmode_clear xl by simp
  qed simp
  have bits: "get_flag (legal_tdata1 h v) ?d \<longleftrightarrow> get_flag v ?d" using dm xl set_dmode_zero by auto
  have chain: "allow_chain_write h ?r ts' i" if "get_chain t0"
    using F(2) [OF that] bits i dr unfolding ts' allow_chain_write_def by auto
  obtain t1 where t1: "trigger_tdata1_write h ?r (allow_chain_write h ?r ts' i) (trigger_new (kind_of_type (get_field ?r (TDATA1_TYPE (th_xlen h))))) = Some t1"
    and r1: "trigger_tdata1_read h t1 = ?r" using read_back [OF h legal chain] by blast
  have ti: "ts' ! i = tdata3_write h d3 (tdata2_write (tdata2 (ts ! i)) t0)" "length ts' = length ts" "0 < i \<Longrightarrow> ts' ! (i - 1) = ts ! (i - 1)" using i ts' by auto
  have "trigger_wf (ts' ! i)" unfolding ti by (rule tdata3_write_wf) (use h in \<open>auto simp: hart_widths_def\<close>)
  then obtain d where d: "tdata3_read h (ts' ! i) = Some d" using tdata3_read_defined by blast
  have p: "0 < i \<Longrightarrow> get_chain (ts' ! (i - 1)) \<Longrightarrow> get_dmode t0 \<Longrightarrow> get_dmode (ts' ! (i - 1))"
    using prev F(1) ti(3) by auto
  have "tdata1_write h i ?r ts' = Some (True, ts'[i := tdata3_write h d (tdata2_write (tdata2 (ts' ! i)) t1)])"
    using i ti(2) d p t1 deb dr unfolding tdata1_write_def Let_def lr by (auto simp: ti(1))
  then show ?thesis using read r1 i ti(2) by (auto simp: tdata1_read_def)
qed

end
