(* ===== verification/Trigger_Match.thy ===== *)
theory Trigger_Match
  imports Trigger_Writes
begin

text \<open>
  Matching: chains of triggers against a specification, the instruction counter over time, and what software that runs
  outside debug mode can change of the triggers of a debugger.
\<close>

section \<open>Chains\<close>

text \<open>
  A chain is a maximal run of triggers in which all but the last have the chain bit set. A run at the end of the module
  whose last trigger has the bit set is no chain and never fires.
\<close>

fun trigger_chains :: "trigger_t list \<Rightarrow> trigger_t list list" where
  "trigger_chains [] = []"
| "trigger_chains (t # ts) =
     (if get_chain t then (case trigger_chains ts of [] \<Rightarrow> [] | c # cs \<Rightarrow> (t # c) # cs) else [t] # trigger_chains ts)"

abbreviation fires :: "trig_hart \<Rightarrow> operation_t \<Rightarrow> u64 \<Rightarrow> u64 option \<Rightarrow> trigger_t \<Rightarrow> match_result_t option" where
  "fires h operation address data t \<equiv> Option.bind (trigger_detect_memory h operation address data t) fst"

text \<open>A chain fires when all its triggers match, with the result of its last trigger.\<close>

definition chain_result :: "(trigger_t \<Rightarrow> match_result_t option) \<Rightarrow> trigger_t list \<Rightarrow> match_result_t option" where
  "chain_result f c = (if \<forall>t \<in> set c. f t \<noteq> None then f (last c) else None)"

definition best_chain :: "(trigger_t \<Rightarrow> match_result_t option) \<Rightarrow> trigger_t list \<Rightarrow> match_result_t option \<Rightarrow> match_result_t option" where
  "best_chain f ts ret = fold (\<lambda>c r. better_match r (chain_result f c)) (trigger_chains ts) ret"

text \<open>Matching does not change the chain bit.\<close>

lemma mcontrol_detect_state:
  assumes "mcontrol_detect h operation address data t c = Some (r, c')"
  shows "c' = c \<or> c' = c\<lparr>mc_hit := True\<rparr>"
proof -
  let ?other = "operation = OPERATION_EXECUTE \<and> \<not> mc_execute c \<or> operation = OPERATION_STORE \<and> \<not> mc_store c \<or> operation = OPERATION_LOAD \<and> \<not> mc_load c"
  show ?thesis
  proof (cases ?other)
    case False
    then obtain cm where cm: "common_match h False t = Some cm" using assms unfolding mcontrol_detect_def by (auto split: bind_split_asm)
    show ?thesis using assms unfolding mcontrol_detect_def if_not_P [OF False] cm
      by (simp split: if_split_asm option.split_asm bind_split_asm)
  qed (use assms in \<open>simp add: mcontrol_detect_def\<close>)
qed

lemma detect_chain:
  assumes "trigger_detect_memory h operation address data t = Some (r, t')"
  shows "get_chain t' = get_chain t"
  using assms unfolding trigger_detect_memory_def get_chain_def
  by (cases "kind t") (auto dest!: mcontrol_detect_state)

lemma chains_nonempty: "c \<in> set (trigger_chains ts) \<Longrightarrow> c \<noteq> []"
proof (induction ts arbitrary: c)
  case (Cons t ts)
  then show ?case by (cases "trigger_chains ts") (auto split: if_splits)
qed simp

lemma best_chain_skip:
  assumes "f t = None" "get_chain t"
  shows "best_chain f (t # ts) ret = fold (\<lambda>c r. better_match r (chain_result f c)) (tl (trigger_chains ts)) ret"
  using assms by (cases "trigger_chains ts") (auto simp: best_chain_def chain_result_def better_match_def)

lemma best_chain_continue:
  assumes "f t \<noteq> None" "get_chain t"
  shows "best_chain f (t # ts) ret = best_chain f ts ret"
proof (cases "trigger_chains ts")
  case (Cons c cs)
  then have "c \<noteq> []" using chains_nonempty [of c ts] by simp
  then have "chain_result f (t # c) = chain_result f c" using assms(1) by (auto simp: chain_result_def)
  then show ?thesis using assms(2) Cons by (simp add: best_chain_def)
qed (use assms in \<open>simp add: best_chain_def\<close>)

lemma detect_loop_chains:
  assumes "\<forall>t \<in> set ts. trigger_detect_memory h operation address data t \<noteq> None"
  shows "\<exists>ts'. detect_memory_loop h operation address data ts ok ret =
      Some (if ok then best_chain (fires h operation address data) ts ret
            else fold (\<lambda>c r. better_match r (chain_result (fires h operation address data) c)) (tl (trigger_chains ts)) ret, ts') \<and>
    length ts' = length ts"
  using assms
proof (induction ts arbitrary: ok ret)
  case (Cons t ts)
  let ?f = "fires h operation address data"
  obtain r t' where d: "trigger_detect_memory h operation address data t = Some (r, t')" using Cons.prems by auto
  have IH: "\<exists>ts'. detect_memory_loop h operation address data ts ok ret =
      Some (if ok then best_chain ?f ts ret else fold (\<lambda>c r. better_match r (chain_result ?f c)) (tl (trigger_chains ts)) ret, ts') \<and>
    length ts' = length ts" for ok ret
    using Cons by simp
  note same = detect_chain [OF d]
  show ?case
  proof (cases ok)
    case False
    then show ?thesis using IH [of "\<not> get_chain t" ret] by (auto simp: best_chain_def split: list.split)
  next
    case True
    show ?thesis
    proof (cases "get_chain t")
      case False
      have "chain_result ?f [t] = r" using d by (cases r) (auto simp: chain_result_def)
      then have "best_chain ?f (t # ts) ret = best_chain ?f ts (better_match ret r)" using False by (simp add: best_chain_def)
      then show ?thesis using IH [of True "better_match ret r"] True False d same by auto
    next
      case chain: True
      show ?thesis
      proof (cases r)
        case None
        then have "best_chain ?f (t # ts) ret = fold (\<lambda>c r. better_match r (chain_result ?f c)) (tl (trigger_chains ts)) ret"
          using best_chain_skip [of ?f t ts ret] chain d by simp
        then show ?thesis using IH [of False ret] True chain d same None by auto
      next
        case (Some x)
        then have "best_chain ?f (t # ts) ret = best_chain ?f ts ret" using best_chain_continue [of ?f t ts ret] chain d by simp
        then show ?thesis using IH [of True ret] True chain d same Some by auto
      qed
    qed
  qed
qed (simp add: best_chain_def)

text \<open>The result has the highest action among the chains that fire.\<close>

lemma better_match_max:
  "better_match r q = None \<longleftrightarrow> r = None \<and> q = None"
  "better_match r q = Some x \<Longrightarrow> (r = Some x \<or> q = Some x) \<and> (\<forall>y. r = Some y \<or> q = Some y \<longrightarrow> snd y \<le> snd x)"
  by (auto simp: better_match_def split: option.splits if_splits)

lemma fold_better:
  "fold (\<lambda>c r. better_match r (g c)) cs r = None \<longleftrightarrow> r = None \<and> (\<forall>c \<in> set cs. g c = None)"
  "fold (\<lambda>c r. better_match r (g c)) cs r = Some x \<Longrightarrow>
     (r = Some x \<or> (\<exists>c \<in> set cs. g c = Some x)) \<and> (\<forall>y. r = Some y \<or> (\<exists>c \<in> set cs. g c = Some y) \<longrightarrow> snd y \<le> snd x)"
proof (induction cs arbitrary: r)
  case (Cons c cs)
  { case 1 then show ?case using Cons.IH(1) [of "better_match r (g c)"] better_match_max(1) by auto }
  { case 2
    then have IH: "(better_match r (g c) = Some x \<or> (\<exists>c \<in> set cs. g c = Some x)) \<and>
        (\<forall>y. better_match r (g c) = Some y \<or> (\<exists>c \<in> set cs. g c = Some y) \<longrightarrow> snd y \<le> snd x)"
      using Cons.IH(2) [of "better_match r (g c)"] by simp
    have up: "snd y \<le> snd x" if "r = Some y \<or> g c = Some y" for y
    proof -
      have "better_match r (g c) \<noteq> None" unfolding better_match_max(1) using that by auto
      then obtain z where z: "better_match r (g c) = Some z" by blast
      then have "snd y \<le> snd z" using better_match_max(2) [OF z] that by blast
      also have "\<dots> \<le> snd x" using IH z by blast
      finally show ?thesis .
    qed
    have "r = Some x \<or> (\<exists>c' \<in> set (c # cs). g c' = Some x)"
      using IH better_match_max(2) [of r "g c" x] by (metis list.set_intros)
    then show ?case using IH up by auto }
qed simp_all

section \<open>The instruction counter\<close>

lemma common_match_kind [simp]: "common_match h b (t\<lparr>kind := k\<rparr>) = common_match h b t"
  by (cases t) (simp only: common_match_def mode_match_def textra_match_def sselect_match_def interpret_mhselect_def
      trigger_t.select_convs trigger_t.update_convs)

lemma allow_action_kind: "get_action (t\<lparr>kind := k\<rparr>) = get_action t \<Longrightarrow> allow_action h (t\<lparr>kind := k\<rparr>) = allow_action h t"
  unfolding allow_action_def by simp

text \<open>The results of successive instructions.\<close>

primrec icount_run :: "trig_hart \<Rightarrow> nat \<Rightarrow> trigger_t list \<Rightarrow> (match_result_t option list \<times> trigger_t list) option" where
  "icount_run h 0 ts = Some ([], ts)"
| "icount_run h (Suc n) ts =
     do { (r, ts) \<leftarrow> detect_icount_match h ts;
          map_option (apfst (Cons r)) (icount_run h n ts) }"

text \<open>
  A trigger that does not fire in the next \<open>k\<close> instructions: it does not count instructions, or it counts them in other modes or may not act,
  or it is not pending and its count is exhausted or not yet used up then.
\<close>

definition icount_quiet :: "trig_hart \<Rightarrow> nat \<Rightarrow> trigger_t \<Rightarrow> bool" where
  "icount_quiet h k u =
     (case kind u of
        Icount c \<Rightarrow>
          (case common_match h False u of
             None \<Rightarrow> False
           | Some b \<Rightarrow> k = 0 \<or> \<not> b \<or> \<not> allow_action h u \<or> \<not> ic_pending c \<and> (ic_count c = 0 \<or> k \<le> unat (ic_count c)))
      | _ \<Rightarrow> True)"

text \<open>The trigger after an instruction in which nothing fires.\<close>

definition icount_after :: "trig_hart \<Rightarrow> trigger_t \<Rightarrow> trigger_t" where
  "icount_after h u = (case detect_icount_decrement h (stash_read_values u) of None \<Rightarrow> u | Some u' \<Rightarrow> u')"

lemma allow_icount: "kind u = Icount c \<Longrightarrow> ic_action c' = ic_action c \<Longrightarrow> allow_action h (u\<lparr>kind := Icount c'\<rparr>) = allow_action h u"
  by (rule allow_action_kind) (simp add: get_action_def)

lemma quiet_decrement_defined: "icount_quiet h k u \<Longrightarrow> detect_icount_decrement h (stash_read_values u) = Some (icount_after h u)"
  by (auto simp: icount_quiet_def icount_after_def detect_icount_decrement_def stash_read_values_def allow_icount
      split: trigger_kind.splits option.splits)

lemma fire_quiet: "icount_quiet h (Suc k) u \<Longrightarrow> detect_icount_fire h (stash_read_values u) = Some (None, stash_read_values u)"
  by (auto simp: icount_quiet_def detect_icount_fire_def stash_read_values_def allow_icount split: trigger_kind.splits option.splits)

lemma after_quiet:
  assumes "icount_quiet h (Suc k) u"
  shows "icount_quiet h k (icount_after h u)"
proof (cases "\<exists>c. kind u = Icount c")
  case True
  then obtain c where c: "kind u = Icount c" by blast
  obtain b where b: "common_match h False u = Some b" using assms c by (auto simp: icount_quiet_def split: option.splits)
  have "unat (ic_count c - 1) = unat (ic_count c) - 1" if "1 \<le> ic_count c" using that by (simp add: unat_sub word_le_nat_alt)
  then show ?thesis
    using assms c b
    by (auto simp: icount_quiet_def icount_after_def detect_icount_decrement_def stash_read_values_def allow_icount word_le_nat_alt unat_eq_0)
qed (use assms in \<open>auto simp: icount_quiet_def icount_after_def detect_icount_decrement_def stash_read_values_def split: trigger_kind.splits\<close>)

lemma quiet_sooner: "icount_quiet h (Suc k) u \<Longrightarrow> icount_quiet h k u"
  by (auto simp: icount_quiet_def split: trigger_kind.splits option.splits)

lemma fire_loop_quiet:
  "list_all (icount_quiet h (Suc k)) us \<Longrightarrow>
     detect_loop (detect_icount_fire h) (map stash_read_values us @ ts) ret =
     map_option (apsnd ((@) (map stash_read_values us))) (detect_loop (detect_icount_fire h) ts ret)"
proof (induction us)
  case Nil
  then show ?case by (cases "detect_loop (detect_icount_fire h) ts ret") auto
next
  case (Cons u us)
  then show ?case
    by (cases "detect_loop (detect_icount_fire h) ts ret") (auto simp: fire_quiet better_match_def)
qed

lemma decrement_loop_quiet: "list_all (icount_quiet h k) us \<Longrightarrow> decrement_loop h (map stash_read_values us) = Some (map (icount_after h) us)"
proof (induction us)
  case (Cons u us)
  then show ?case using quiet_decrement_defined [of h k u] by simp
qed simp

lemma decrement_loop_append:
  "decrement_loop h (us @ ts) = Option.bind (decrement_loop h us) (\<lambda>us'. map_option ((@) us') (decrement_loop h ts))"
  by (induction us; cases "decrement_loop h ts") (auto split: bind_split)

text \<open>An instruction in which nothing fires, and one in which one trigger fires.\<close>

lemma quiet_step:
  assumes "list_all (icount_quiet h (Suc k)) us" "\<not> th_debug_mode h"
  shows "detect_icount_match h us = Some (None, map (icount_after h) us)"
  using fire_loop_quiet [OF assms(1), of "[]" None] decrement_loop_quiet [OF assms(1)] assms(2)
  by (simp add: detect_icount_match_def)

lemma firing_step:
  assumes t: "kind t = Icount c" "common_match h False t = Some True" "allow_action h t" "ic_pending c" and "\<not> th_debug_mode h"
    and q: "list_all (icount_quiet h (Suc k)) us" "list_all (icount_quiet h (Suc k)) vs"
  shows "\<exists>ts'. detect_icount_match h (us @ t # vs) = Some (Some (TIMING_BEFORE, ic_action c), ts')"
proof -
  let ?c = "c\<lparr>ic_count_read_value := ic_count c, ic_pending_read_value := ic_pending c\<rparr>"
  let ?t = "t\<lparr>kind := Icount (?c\<lparr>ic_pending := False, ic_hit := True\<rparr>)\<rparr>"
  have fire: "detect_icount_fire h (stash_read_values t) = Some (Some (TIMING_BEFORE, ic_action c), ?t)"
    using t by (simp add: detect_icount_fire_def stash_read_values_def allow_icount)
  obtain t' where dec: "detect_icount_decrement h ?t = Some t'" using t by (simp add: detect_icount_decrement_def)
  have "detect_loop (detect_icount_fire h) (map stash_read_values (us @ t # vs)) None =
      Some (Some (TIMING_BEFORE, ic_action c), map stash_read_values us @ ?t # map stash_read_values vs)"
    using fire_loop_quiet [OF q(1)] fire_loop_quiet [OF q(2), of "[]"] fire by (simp add: better_match_def)
  moreover have "decrement_loop h (map stash_read_values us @ ?t # map stash_read_values vs) \<noteq> None"
    using decrement_loop_quiet [OF q(1)] decrement_loop_quiet [OF q(2)] dec by (simp add: decrement_loop_append)
  ultimately show ?thesis using assms(5) by (auto simp: detect_icount_match_def)
qed

lemma icount_fires:
  assumes "kind t = Icount c" "common_match h False t = Some True" "allow_action h t" "\<not> th_debug_mode h" "\<not> ic_pending c" "unat (ic_count c) = Suc n"
    and "list_all (icount_quiet h (n + 2)) us" "list_all (icount_quiet h (n + 2)) vs"
  shows "\<exists>ts'. icount_run h (n + 2) (us @ t # vs) = Some (replicate (Suc n) None @ [Some (TIMING_BEFORE, ic_action c)], ts')"
  using assms
proof (induction n arbitrary: t c us vs)
  case 0
  let ?c = "c\<lparr>ic_count_read_value := 1, ic_pending_read_value := False, ic_pending := True, ic_count := 0\<rparr>"
  have one: "ic_count c = 1" using 0 by (simp add: word_unat_eq_iff)
  have t': "icount_after h t = t\<lparr>kind := Icount ?c\<rparr>"
    using 0 one by (simp add: icount_after_def detect_icount_decrement_def stash_read_values_def allow_icount)
  have quiet: "list_all (icount_quiet h (Suc (Suc 0))) us" "list_all (icount_quiet h (Suc (Suc 0))) vs" using 0 by (simp_all add: numeral_2_eq_2)
  then have "list_all (icount_quiet h (Suc 0)) us" "list_all (icount_quiet h (Suc 0)) vs"
    by (auto simp: list_all_iff intro: quiet_sooner)
  moreover have "icount_quiet h (Suc 0) t" using 0(1-5) one by (simp add: icount_quiet_def)
  ultimately have "list_all (icount_quiet h (Suc 0)) (us @ t # vs)" by simp
  then have first: "detect_icount_match h (us @ t # vs) = Some (None, map (icount_after h) us @ t\<lparr>kind := Icount ?c\<rparr> # map (icount_after h) vs)"
    using quiet_step 0(4) t' by fastforce
  have "list_all (icount_quiet h (Suc 0)) (map (icount_after h) us)" "list_all (icount_quiet h (Suc 0)) (map (icount_after h) vs)"
    using quiet by (simp_all add: list_all_iff after_quiet)
  with firing_step [of "t\<lparr>kind := Icount ?c\<rparr>" ?c h] 0
  have "\<exists>ts'. detect_icount_match h (map (icount_after h) us @ t\<lparr>kind := Icount ?c\<rparr> # map (icount_after h) vs) = Some (Some (TIMING_BEFORE, ic_action c), ts')"
    by (simp add: allow_icount)
  then show ?case using first by (auto simp: numeral_2_eq_2)
next
  case (Suc n)
  let ?c = "c\<lparr>ic_count_read_value := ic_count c, ic_pending_read_value := False, ic_count := ic_count c - 1\<rparr>"
  have ge: "1 \<le> ic_count c" "ic_count c \<noteq> 1" using Suc.prems(6) by (auto simp: word_le_nat_alt)
  have t': "icount_after h t = t\<lparr>kind := Icount ?c\<rparr>"
    using Suc.prems(1-5) ge by (simp add: icount_after_def detect_icount_decrement_def stash_read_values_def allow_icount)
  have "icount_quiet h (Suc (Suc n)) t" using Suc.prems by (simp add: icount_quiet_def)
  moreover have "list_all (icount_quiet h (Suc (Suc n))) us" "list_all (icount_quiet h (Suc (Suc n))) vs"
    using Suc.prems(7,8) by (auto simp: list_all_iff intro: quiet_sooner)
  ultimately have "list_all (icount_quiet h (Suc (Suc n))) (us @ t # vs)" by simp
  then have first: "detect_icount_match h (us @ t # vs) = Some (None, map (icount_after h) us @ t\<lparr>kind := Icount ?c\<rparr> # map (icount_after h) vs)"
    using quiet_step Suc.prems(4) t' by fastforce
  have "list_all (icount_quiet h (n + 2)) (map (icount_after h) us)" "list_all (icount_quiet h (n + 2)) (map (icount_after h) vs)"
    using Suc.prems(7,8) after_quiet [of h "n + 2"] by (simp_all add: list_all_iff)
  moreover have "unat (ic_count ?c) = Suc n" using Suc.prems(6) ge(1) by (simp add: unat_sub word_le_nat_alt)
  ultimately show ?case
    using Suc.IH [of "t\<lparr>kind := Icount ?c\<rparr>" ?c "map (icount_after h) us" "map (icount_after h) vs"] Suc.prems(1-5) first by (auto simp: allow_icount)
qed

section \<open>Triggers of a debugger\<close>

text \<open>A trigger without the fields that matching changes.\<close>

definition trigger_config :: "trigger_t \<Rightarrow> trigger_t" where
  "trigger_config t =
     (case kind t of
        Disabled d \<Rightarrow> t
      | Mcontrol c \<Rightarrow> t\<lparr>kind := Mcontrol (c\<lparr>mc_hit := False\<rparr>)\<rparr>
      | Mcontrol6 c \<Rightarrow> t\<lparr>kind := Mcontrol6 (c\<lparr>mc_hit := False\<rparr>)\<rparr>
      | Icount c \<Rightarrow> t\<lparr>kind := Icount (c\<lparr>ic_hit := False, ic_count := 0, ic_count_read_value := 0, ic_pending := False, ic_pending_read_value := False\<rparr>)\<rparr>
      | Itrigger c nmi \<Rightarrow> t\<lparr>kind := Itrigger (c\<lparr>tp_hit := False\<rparr>) nmi\<rparr>
      | Etrigger c \<Rightarrow> t\<lparr>kind := Etrigger (c\<lparr>tp_hit := False\<rparr>)\<rparr>)"

lemma config_dmode: "get_dmode (trigger_config t) = get_dmode t"
  by (simp add: trigger_config_def get_dmode_def split: trigger_kind.split)

datatype trigger_op =
    Write_tdata1 nat u64
  | Write_tdata2 nat u64
  | Write_tdata3 nat u64
  | Memory_access operation_t u64 "u64 option"
  | Instruction
  | Trap_taken u64

definition trigger_step :: "trig_hart \<times> trigger_op \<Rightarrow> trigger_t list \<Rightarrow> trigger_t list option" where
  "trigger_step = (\<lambda>(h, op) ts.
     case op of
       Write_tdata1 i v \<Rightarrow> map_option snd (tdata1_write h i v ts)
     | Write_tdata2 i v \<Rightarrow> map_option snd (module_tdata2_write h i v ts)
     | Write_tdata3 i v \<Rightarrow> map_option snd (module_tdata3_write h i v ts)
     | Memory_access a x d \<Rightarrow> map_option snd (detect_memory_access_match h a x d ts)
     | Instruction \<Rightarrow> map_option snd (detect_icount_match h ts)
     | Trap_taken c \<Rightarrow> map_option snd (detect_trap_match h c ts))"

fun trigger_run :: "(trig_hart \<times> trigger_op) list \<Rightarrow> trigger_t list \<Rightarrow> trigger_t list option" where
  "trigger_run [] ts = Some ts"
| "trigger_run (x # xs) ts = Option.bind (trigger_step x ts) (trigger_run xs)"

abbreviation same_configs :: "trigger_t list \<Rightarrow> trigger_t list \<Rightarrow> bool" where
  "same_configs ts ts' \<equiv> map trigger_config ts' = map trigger_config ts"

lemma detect_memory_config:
  assumes "trigger_detect_memory h operation address data t = Some (r, t')"
  shows "trigger_config t' = trigger_config t"
  using assms unfolding trigger_detect_memory_def trigger_config_def
  by (cases "kind t") (auto dest!: mcontrol_detect_state)

lemma detect_memory_loop_config:
  "detect_memory_loop h operation address data ts ok ret = Some (r, ts') \<Longrightarrow> same_configs ts ts'"
proof (induction ts arbitrary: ok ret ts')
  case (Cons t ts)
  show ?case
  proof (cases ok)
    case True
    then show ?thesis using Cons by (auto simp: detect_memory_config split: bind_split_asm)
  next
    case False
    then show ?thesis using Cons by auto
  qed
qed simp

lemma detect_loop_config:
  assumes "\<And>t r t'. f t = Some (r, t') \<Longrightarrow> trigger_config t' = trigger_config t"
  shows "detect_loop f ts ret = Some (r, ts') \<Longrightarrow> same_configs ts ts'"
  by (induction ts arbitrary: ret ts') (auto intro!: assms split: bind_split_asm)

lemma icount_config:
  "detect_icount_fire h t = Some (r, t') \<Longrightarrow> trigger_config t' = trigger_config t"
  "detect_icount_decrement h t = Some t' \<Longrightarrow> trigger_config t' = trigger_config t"
  "trigger_config (stash_read_values t) = trigger_config t"
  by (auto simp: detect_icount_fire_def detect_icount_decrement_def stash_read_values_def trigger_config_def
      split: trigger_kind.split_asm trigger_kind.split bind_split_asm if_split_asm)

lemma decrement_loop_config: "decrement_loop h ts = Some ts' \<Longrightarrow> same_configs ts ts'"
  by (induction ts arbitrary: ts') (auto dest: icount_config(2) split: bind_split_asm)

lemma trap_config: "trigger_detect_trap h c t = Some (r, t') \<Longrightarrow> trigger_config t' = trigger_config t"
  by (auto simp: trigger_detect_trap_def trap_set_hit_def trigger_config_def Let_def
      split: trigger_kind.split_asm trigger_kind.split bind_split_asm if_split_asm)

lemma detect_configs:
  "detect_memory_access_match h a x d ts = Some (r, ts') \<Longrightarrow> same_configs ts ts'"
  "detect_icount_match h ts = Some (r, ts') \<Longrightarrow> same_configs ts ts'"
  "detect_trap_match h c ts = Some (r, ts') \<Longrightarrow> same_configs ts ts'"
proof -
  show "detect_memory_access_match h a x d ts = Some (r, ts') \<Longrightarrow> same_configs ts ts'"
    by (auto simp: detect_memory_access_match_def detect_memory_loop_config split: if_splits)
  show "detect_trap_match h c ts = Some (r, ts') \<Longrightarrow> same_configs ts ts'"
    using detect_loop_config [of "trigger_detect_trap h c"] trap_config by (auto simp: detect_trap_match_def split: if_splits)
  have stash: "same_configs ts (map stash_read_values ts)" by (simp add: icount_config(3))
  assume "detect_icount_match h ts = Some (r, ts')"
  then show "same_configs ts ts'" unfolding detect_icount_match_def Let_def
    using detect_loop_config [of "detect_icount_fire h", OF icount_config(1)] decrement_loop_config stash
    by (auto split: if_split_asm bind_split_asm option.split_asm simp del: map_map)
qed

lemma step_keeps_dmode:
  assumes "trigger_step (h, op) ts = Some ts'" "\<not> th_debug_mode h" "i < length ts" "get_dmode (ts ! i)"
  shows "i < length ts' \<and> trigger_config (ts' ! i) = trigger_config (ts ! i)"
proof -
  have configs: ?thesis if "same_configs ts ts'"
    using that assms(3) by (metis length_map nth_map)
  have kept: ?thesis if "ts' = ts \<or> (\<exists>j t. ts' = ts[j := t] \<and> j \<noteq> i)" using that assms(3) by auto
  show ?thesis
  proof (cases op)
    case (Write_tdata1 j v)
    then show ?thesis using assms tdata1_write_cases [of h j v ts _ ts'] by (intro kept) (auto simp: trigger_step_def)
  next
    case (Write_tdata2 j v)
    then show ?thesis using assms by (intro kept) (auto simp: trigger_step_def module_tdata2_write_def split: if_splits)
  next
    case (Write_tdata3 j v)
    then show ?thesis using assms by (intro kept) (auto simp: trigger_step_def module_tdata3_write_def split: if_splits)
  qed (use assms detect_configs in \<open>auto simp: trigger_step_def intro!: configs\<close>)
qed

lemma run_keeps_dmode:
  assumes "trigger_run ops ts = Some ts'" "\<forall>(h, op) \<in> set ops. \<not> th_debug_mode h" "i < length ts" "get_dmode (ts ! i)"
  shows "i < length ts' \<and> trigger_config (ts' ! i) = trigger_config (ts ! i)"
  using assms
proof (induction ops arbitrary: ts)
  case (Cons x ops)
  obtain h op where x: "x = (h, op)" by fastforce
  obtain ts1 where 1: "trigger_step (h, op) ts = Some ts1" "trigger_run ops ts1 = Some ts'" using Cons.prems(1) x by (auto split: bind_split_asm)
  have s: "i < length ts1 \<and> trigger_config (ts1 ! i) = trigger_config (ts ! i)"
    using step_keeps_dmode [OF 1(1)] Cons.prems x by simp
  then have "get_dmode (ts1 ! i)" using Cons.prems(4) config_dmode by metis
  then show ?case using Cons.IH [OF 1(2)] s Cons.prems by simp
qed simp

end
