(* ===== verification/Trigger_Properties.thy ===== *)
theory Trigger_Properties
  imports Trigger_Warl Trigger_Match
begin

text \<open>The properties of the trigger module.\<close>

section \<open>Examples\<close>

text \<open>A 64-bit hart in machine mode with interrupts enabled, and the same hart in debug mode.\<close>

definition example_hart :: trig_hart where
  "example_hart = \<lparr>th_prv = 3, th_prev_prv = 3, th_v = False, th_prev_v = False, th_scontext = 0, th_satp = 0, th_mcontext = 0, th_hgatp = 0,
     th_mstatus = 8, th_sstatus = 0, th_vsstatus = 0, th_medeleg = 0, th_hedeleg = 0, th_debug_mode = False, th_xlen = 64, th_const_xlen = 64,
     th_ext_h = False, th_ext_s = True, th_ext_u = True\<rparr>"

definition debug_hart :: trig_hart where
  "debug_hart = example_hart\<lparr>th_debug_mode := True\<rparr>"

lemma example_widths: "hart_widths example_hart" "hart_widths debug_hart"
  by (simp_all add: hart_widths_def example_hart_def debug_hart_def)

text \<open>An address trigger on loads in machine mode, chained to the next trigger, and an instruction counter.\<close>

definition load_trigger :: "bool \<Rightarrow> bool \<Rightarrow> u64 \<Rightarrow> trigger_t" where
  "load_trigger dm chain a = (trigger_new (Mcontrol (mcontrol_new\<lparr>mc_dmode := dm, mc_chain := chain, mc_load := True\<rparr>)))\<lparr>tdata2 := a, tr_m := True\<rparr>"

definition count_trigger :: "u32 \<Rightarrow> trigger_t" where
  "count_trigger n = (trigger_new (Icount (icount_new\<lparr>ic_count := n\<rparr>)))\<lparr>tr_m := True\<rparr>"

section \<open>Matching\<close>

text \<open>
  C1: chains. On a memory access outside debug mode the loop over the triggers reports a match exactly when all triggers of
  some chain match; what it reports is the result of the last trigger of such a chain, and no chain that matches has a
  higher action.
\<close>

theorem memory_match_of_chains:
  assumes "\<not> th_debug_mode h" "\<forall>t \<in> set ts. trigger_detect_memory h operation address data t \<noteq> None"
  shows "\<exists>r ts'. detect_memory_access_match h operation address data ts = Some (r, ts') \<and> length ts' = length ts \<and>
    (r = None \<longleftrightarrow> (\<forall>c \<in> set (trigger_chains ts). chain_result (fires h operation address data) c = None)) \<and>
    (\<forall>x. r = Some x \<longrightarrow> (\<exists>c \<in> set (trigger_chains ts). chain_result (fires h operation address data) c = Some x) \<and>
      (\<forall>y. \<forall>c \<in> set (trigger_chains ts). chain_result (fires h operation address data) c = Some y \<longrightarrow> snd y \<le> snd x))"
proof -
  let ?g = "chain_result (fires h operation address data)"
  obtain ts' where "detect_memory_access_match h operation address data ts = Some (best_chain (fires h operation address data) ts None, ts')"
    "length ts' = length ts"
    using detect_loop_chains [OF assms(2), of True None] assms(1) by (auto simp: detect_memory_access_match_def)
  moreover note fold_better(1) [of ?g "trigger_chains ts" None]
  moreover note fold_better(2) [of ?g "trigger_chains ts" None]
  ultimately show ?thesis unfolding best_chain_def by fastforce
qed

theorem memory_match_of_chains_witness:
  "\<exists>r ts'. detect_memory_access_match example_hart OPERATION_LOAD 0x80 None [load_trigger False True 0x80, load_trigger False False 0x90] = Some (r, ts') \<and> r = None"
proof -
  let ?ts = "[load_trigger False True 0x80, load_trigger False False 0x90]"
  have 1: "fires example_hart OPERATION_LOAD 0x80 None (load_trigger False False 0x90) = None"
    "get_chain (load_trigger False True 0x80)" "\<not> get_chain (load_trigger False False 0x90)" by code_simp+
  have 2: "\<forall>t \<in> set ?ts. trigger_detect_memory example_hart OPERATION_LOAD 0x80 None t \<noteq> None" by code_simp
  have "trigger_chains ?ts = [?ts]" using 1 by simp
  moreover have "chain_result (fires example_hart OPERATION_LOAD 0x80 None) ?ts = None" using 1 by (simp add: chain_result_def)
  ultimately show ?thesis using memory_match_of_chains [OF _ 2] by (auto simp: example_hart_def)
qed

text \<open>
  Ranges. A trigger with \<open>MATCH_NAPOT\<close> whose \<open>tdata2\<close> is a multiple of \<open>2 ^ (n + 1)\<close> plus \<open>2 ^ n - 1\<close> matches exactly the
  addresses of that block of \<open>2 ^ (n + 1)\<close> bytes if \<open>n\<close> is below 30. From 30 on the mask is shifted out of an \<open>int\<close> and the comparison is
  undefined.
\<close>

lemma cto_eq: "(\<And>i. i < n \<Longrightarrow> bit w i) \<Longrightarrow> \<not> bit w n \<Longrightarrow> cto w = n"
proof (induction n arbitrary: w)
  case 0
  then have "w AND 1 \<noteq> 1" by (metis and_one_eq even_iff_mod_2_eq_zero bit_0 zero_neq_one)
  then show ?case by (subst cto.simps) simp
next
  case (Suc n)
  have "odd w" using Suc.prems(1) [of 0] by (simp add: bit_0)
  then have "w AND 1 = 1" by (simp add: and_one_eq odd_iff_mod_2_eq_one)
  moreover have "cto (drop_bit 1 w) = n"
    by (rule Suc.IH) (use Suc.prems in \<open>auto simp: bit_drop_bit_eq\<close>)
  ultimately show ?case by (subst cto.simps) simp
qed

lemma napot_trigger_range:
  assumes "n < 63" "unat base mod 2 ^ (n + 1) = 0"
  shows "mcontrol_simple_match xl (base + (2 ^ n - 1)) v MATCH_NAPOT =
    (if n < 30 then Some (unat base \<le> unat v \<and> unat v < unat base + 2 ^ (n + 1)) else None)"
proof -
  have low: "\<not> bit base i" if "i \<le> n" for i
  proof -
    have "take_bit (n + 1) (unat base) = 0" using assms(2) by (simp add: take_bit_eq_mod)
    then have "bit (take_bit (n + 1) (unat base)) i = False" by simp
    then show ?thesis using that by (simp add: bit_take_bit_iff bit_unsigned_iff)
  qed
  have "base AND mask n = 0" using low by (intro bit_word_eqI) (auto simp: bit_and_iff bit_mask_iff)
  then have sum: "base + (2 ^ n - 1) = base OR mask n" by (simp add: disjunctive_add_eq_or mask_eq_exp_minus_1)
  have cto: "cto (base OR mask n) = n" using assms(1) low by (intro cto_eq) (auto simp: bit_or_iff bit_mask_iff)
  have m: "push_bit (n + 1) 1 - 1 = (mask (n + 1) :: u64)" by (simp only: push_bit_eq_mult mask_eq_exp_minus_1 mult_1)
  have "(base OR mask n) AND NOT (mask (n + 1)) = base AND NOT (mask (n + 1))"
    by (rule bit_word_eqI) (auto simp: bit_and_iff bit_or_iff bit_not_iff bit_mask_iff)
  also have "\<dots> = base" using low by (intro bit_word_eqI) (auto simp: bit_and_iff bit_not_iff bit_mask_iff le_less_Suc_eq)
  finally have b: "(base OR mask n) AND NOT (mask (n + 1)) = base" .
  have "v AND NOT (mask (n + 1)) = base \<longleftrightarrow> unat base \<le> unat v \<and> unat v < unat base + 2 ^ (n + 1)"
    by (rule clear_low_eq_iff [OF assms(2)])
  then show ?thesis unfolding mcontrol_simple_match_def match_t.case sum cto Let_def m b by (auto simp: b)
qed

text \<open>
  C29: counting instructions. In a module of any number of triggers, an instruction-count trigger with the count \<open>n + 1\<close> that is not pending
  leaves the next \<open>n + 1\<close> instructions that are executed in its modes alone, and fires before the one after them, when no other trigger
  fires in these \<open>n + 2\<close> instructions: each of them does not count instructions, counts them in other modes or may not act, or is not pending
  and its count is zero or at least \<open>n + 2\<close>. All of the instructions are executed outside debug mode in the same mode of the hart.
\<close>

theorem icount_fires_after_count:
  assumes "kind t = Icount c" "common_match h False t = Some True" "allow_action h t" "\<not> th_debug_mode h" "\<not> ic_pending c" "unat (ic_count c) = Suc n"
    and "list_all (icount_quiet h (n + 2)) us" "list_all (icount_quiet h (n + 2)) vs"
  shows "\<exists>ts'. icount_run h (n + 2) (us @ t # vs) = Some (replicate (Suc n) None @ [Some (TIMING_BEFORE, ic_action c)], ts')"
  by (rule icount_fires [OF assms])

text \<open>A module of four triggers: one on loads, one that is disabled, and two counters.\<close>

theorem icount_fires_after_count_witness:
  "\<exists>ts'. icount_run example_hart 5 [load_trigger False False 0x80, count_trigger 4, trigger_new (Disabled False), count_trigger 5] =
     Some ([None, None, None, None, Some (TIMING_BEFORE, ACTION_DEBUG_EXCEPTION)], ts')"
proof -
  let ?us = "[load_trigger False False 0x80]" and ?vs = "[trigger_new (Disabled False), count_trigger 5]"
  have "common_match example_hart False (count_trigger 4) = Some True" "allow_action example_hart (count_trigger 4)"
    "list_all (icount_quiet example_hart (3 + 2)) ?us" "list_all (icount_quiet example_hart (3 + 2)) ?vs" by code_simp+
  then have "\<exists>ts'. icount_run example_hart (3 + 2) (?us @ count_trigger 4 # ?vs) =
      Some (replicate (Suc 3) None @ [Some (TIMING_BEFORE, ic_action (icount_new\<lparr>ic_count := 4\<rparr>))], ts')"
    by (intro icount_fires_after_count) (simp_all add: count_trigger_def trigger_new_def icount_new_def example_hart_def)
  moreover have "replicate (Suc 3) None @ [Some (TIMING_BEFORE, ic_action (icount_new\<lparr>ic_count := 4\<rparr>))] =
      [None, None, None, None, Some (TIMING_BEFORE, ACTION_DEBUG_EXCEPTION)]" by (simp add: icount_new_def numeral_3_eq_3)
  moreover have "(3 :: nat) + 2 = 5" "?us @ count_trigger 4 # ?vs = [load_trigger False False 0x80, count_trigger 4, trigger_new (Disabled False), count_trigger 5]"
    by simp_all
  ultimately show ?thesis by metis
qed

section \<open>Registers\<close>

text \<open>
  C6: triggers of a debugger. Outside debug mode no sequence of register writes, memory accesses, instructions and traps, made
  by harts in any mode, changes what a trigger with \<open>dmode\<close> set is configured to do. Only its hit bit and its counter move.
\<close>

theorem debugger_trigger_kept:
  assumes "trigger_run ops ts = Some ts'" "\<forall>(h, op) \<in> set ops. \<not> th_debug_mode h" "i < length ts" "get_dmode (ts ! i)"
  shows "i < length ts' \<and> trigger_config (ts' ! i) = trigger_config (ts ! i)"
  by (rule run_keeps_dmode [OF assms])

theorem debugger_trigger_kept_witness:
  "case trigger_run [(example_hart, Write_tdata1 0 0), (example_hart, Memory_access OPERATION_LOAD 0x80 None)] [load_trigger True False 0x80] of
     None \<Rightarrow> False | Some ts' \<Rightarrow> trigger_config (ts' ! 0) = load_trigger True False 0x80"
proof -
  let ?ops = "[(example_hart, Write_tdata1 0 0), (example_hart, Memory_access OPERATION_LOAD 0x80 None)]" and ?ts = "[load_trigger True False 0x80]"
  have "trigger_run ?ops ?ts \<noteq> None" by code_simp
  then obtain ts' where run: "trigger_run ?ops ?ts = Some ts'" by blast
  from debugger_trigger_kept [OF this, of 0] have "trigger_config (ts' ! 0) = load_trigger True False 0x80"
    by (simp add: example_hart_def load_trigger_def trigger_new_def mcontrol_new_def get_dmode_def trigger_config_def)
  with run show ?thesis by simp
qed

text \<open>
  C18: chains into a debugger's trigger. A write to \<open>tdata1\<close> never chains a trigger that software controls to a trigger with \<open>dmode\<close>
  set, when it is made in debug mode or with the bit \<open>dmode\<close> of the value clear. A write by software with this bit set does: the
  bit is ignored, but the test that should clear the chain bit still sees it.
\<close>

theorem chain_into_debugger:
  "(\<forall>h i v ts b ts'. hart_widths h \<and> chain_safe ts \<and> tdata1_write h i v ts = Some (b, ts') \<and>
      (th_debug_mode h \<or> \<not> get_flag v (TDATA1_DMODE (th_xlen h))) \<longrightarrow> chain_safe ts') \<and>
   (\<exists>h v ts ts'. hart_widths h \<and> chain_safe ts \<and> tdata1_write h 0 v ts = Some (True, ts') \<and> \<not> chain_safe ts')"
proof
  show "\<forall>h i v ts b ts'. hart_widths h \<and> chain_safe ts \<and> tdata1_write h i v ts = Some (b, ts') \<and>
      (th_debug_mode h \<or> \<not> get_flag v (TDATA1_DMODE (th_xlen h))) \<longrightarrow> chain_safe ts'"
    using tdata1_write_chain_safe by blast
  let ?ts = "[trigger_new (Disabled False), load_trigger True False 0x80]" and ?v = "0x2800000000000841"
  have safe: "chain_safe ?ts" by (auto simp: chain_safe_def less_Suc_eq trigger_new_def get_chain_def)
  have "case tdata1_write example_hart 0 ?v ?ts of Some (b, ts') \<Rightarrow> b \<and> length ts' = 2 \<and> get_dmode (ts' ! 1) \<and> get_chain (ts' ! 0) \<and> \<not> get_dmode (ts' ! 0) | None \<Rightarrow> False"
    by code_simp
  then obtain ts' where "tdata1_write example_hart 0 ?v ?ts = Some (True, ts')" "length ts' = 2" "get_dmode (ts' ! Suc 0)" "get_chain (ts' ! 0)" "\<not> get_dmode (ts' ! 0)"
    by (auto split: option.splits)
  then show "\<exists>h v ts ts'. hart_widths h \<and> chain_safe ts \<and> tdata1_write h 0 v ts = Some (True, ts') \<and> \<not> chain_safe ts'"
    using safe example_widths(1) unfolding chain_safe_def by (metis One_nat_def lessI numeral_2_eq_2)
qed

theorem chain_into_debugger_witness:
  "case tdata1_write debug_hart 0 0x2000000000000841 [trigger_new (Disabled False), load_trigger True False 0x80] of
     None \<Rightarrow> False | Some (b, ts') \<Rightarrow> chain_safe ts'"
proof -
  let ?ts = "[trigger_new (Disabled False), load_trigger True False 0x80]"
  have "chain_safe ?ts" by (auto simp: chain_safe_def less_Suc_eq trigger_new_def get_chain_def)
  moreover have "th_debug_mode debug_hart" by (simp add: debug_hart_def)
  moreover have "tdata1_write debug_hart 0 0x2000000000000841 ?ts \<noteq> None" by code_simp
  then obtain b ts' where w: "tdata1_write debug_hart 0 0x2000000000000841 ?ts = Some (b, ts')" by auto
  ultimately have "chain_safe ts'" using chain_into_debugger [THEN conjunct1] example_widths(2) by blast
  with w show ?thesis by simp
qed

text \<open>
  A value that software writes with the bit \<open>dmode\<close> set, before a trigger of the debugger, is not legal in this sense: the register then shows a
  chain bit that writing it back clears.
\<close>

lemma software_dmode_value_not_kept:
  "case tdata1_write example_hart 0 0x2800000000000841 [trigger_new (Disabled False), load_trigger True False 0x80] of
     Some (True, ts') \<Rightarrow> (case tdata1_read example_hart ts' 0 of
       Some r \<Rightarrow> (case tdata1_write example_hart 0 r ts' of Some (True, ts'') \<Rightarrow> tdata1_read example_hart ts'' 0 \<noteq> Some r | _ \<Rightarrow> False)
     | None \<Rightarrow> False)
   | _ \<Rightarrow> False"
  by code_simp

text \<open>
  C21: legal values. After a write to \<open>tdata1\<close> that was accepted and was made in debug mode or with the bit \<open>dmode\<close> of the value clear, writing
  back the value that the register shows is accepted and changes nothing that the register shows, for all kinds of trigger and both
  register widths. (For a write by software with that bit set it does not hold: \<open>software_dmode_value_not_kept\<close>.)
\<close>

theorem tdata1_legal_values:
  assumes "hart_widths h" "tdata1_write h i v ts = Some (True, ts')" "th_debug_mode h \<or> \<not> get_flag v (TDATA1_DMODE (th_xlen h))"
  shows "\<exists>r ts''. tdata1_read h ts' i = Some r \<and> tdata1_write h i r ts' = Some (True, ts'') \<and> tdata1_read h ts'' i = Some r"
  by (rule tdata1_write_back [OF assms])

theorem tdata1_legal_values_witness:
  "case tdata1_write debug_hart 0 0x6800000000301FFF (module_new 2) of
     None \<Rightarrow> False
   | Some (b, ts') \<Rightarrow> (\<exists>r ts''. tdata1_read debug_hart ts' 0 = Some r \<and> tdata1_write debug_hart 0 r ts' = Some (True, ts'') \<and> tdata1_read debug_hart ts'' 0 = Some r)"
proof -
  have "case tdata1_write debug_hart 0 0x6800000000301FFF (module_new 2) of None \<Rightarrow> False | Some (b, ts') \<Rightarrow> b" by code_simp
  then obtain ts' where "tdata1_write debug_hart 0 0x6800000000301FFF (module_new 2) = Some (True, ts')" by (auto split: option.splits)
  then show ?thesis using tdata1_legal_values [OF example_widths(2), of 0 "0x6800000000301FFF" "module_new 2" ts'] by (simp add: debug_hart_def)
qed

end
