(* ===== verification/Mmu_Port.thy ===== *)
theory Mmu_Port
  imports Mmu_Access Triggers
begin

text \<open>
  The memory port of a hart (\<open>mmu.h\<close>, \<open>mmu.cc\<close>): loads and stores of any alignment with the trigger checks around them, load
  reservations and atomic operations. An access may throw a trap or a matched trigger; the state that has changed until
  then stays changed.
\<close>

section \<open>Definitions\<close>

record matched_t =
  mt_operation :: operation_t
  mt_address :: u64
  mt_action :: action_t
  mt_gva :: bool

datatype port_error = Mem_error mmu_error | Matched matched_t

text \<open>The registers that only the trigger module reads.\<close>

record trig_regs =
  tr_prev_prv :: u64
  tr_prev_v :: bool
  tr_scontext :: u64
  tr_mcontext :: u64
  tr_medeleg :: u64
  tr_hedeleg :: u64
  tr_ext_h :: bool
  tr_ext_s :: bool
  tr_ext_u :: bool

record port_t =
  csrs :: mmu_csrs
  mmu :: mmu_t
  TM :: "trigger_t list"
  regs :: trig_regs
  matched_trigger :: "matched_t option"
  check_triggers_icount :: bool
  misaligned :: bool
  blocksz :: u64
  log_commits :: bool
  log_mem_read :: "(u64 \<times> u64 \<times> nat) list"
  log_mem_write :: "(u64 \<times> u64 \<times> nat) list"

text \<open>\<open>satp->read()\<close> and \<open>sstatus->read()\<close> give the virtualised copies in a guest.\<close>

definition trig_view :: "port_t \<Rightarrow> trig_hart" where
  "trig_view p =
     (let c = csrs p; r = regs p
      in \<lparr>th_prv = prv c, th_prev_prv = tr_prev_prv r, th_v = virt_mode c, th_prev_v = tr_prev_v r, th_scontext = tr_scontext r,
          th_satp = (if virt_mode c then vsatp c else satp c), th_mcontext = tr_mcontext r, th_hgatp = hgatp c,
          th_mstatus = mstatus c, th_sstatus = (if virt_mode c then vsstatus c else sstatus c), th_vsstatus = vsstatus c,
          th_medeleg = tr_medeleg r, th_hedeleg = tr_hedeleg r, th_debug_mode = debug_mode c, th_xlen = xlen c,
          th_const_xlen = const_xlen c, th_ext_h = tr_ext_h r, th_ext_s = tr_ext_s r, th_ext_u = tr_ext_u r\<rparr>)"

text \<open>Computations that may throw, on a state that keeps its changes.\<close>

type_synonym ('st, 'a) effect = "'st \<Rightarrow> (port_error + 'a) \<times> 'st"

type_synonym ('s, 'a) port_m = "(port_t \<times> 's, 'a) effect"

definition preturn :: "'a \<Rightarrow> ('st, 'a) effect" where
  "preturn x = Pair (Inr x)"

definition pfail :: "port_error \<Rightarrow> ('st, 'a) effect" where
  "pfail e = Pair (Inl e)"

definition pbind :: "('st, 'a) effect \<Rightarrow> ('a \<Rightarrow> ('st, 'b) effect) \<Rightarrow> ('st, 'b) effect" where
  "pbind m f ps = (case m ps of (Inl e, ps') \<Rightarrow> (Inl e, ps') | (Inr x, ps') \<Rightarrow> f x ps')"

definition ptrap :: "trap_cause \<Rightarrow> bool \<Rightarrow> u64 \<Rightarrow> u64 \<Rightarrow> u64 \<Rightarrow> ('st, 'a) effect" where
  "ptrap c g t t2 ti = pfail (Mem_error (Trap \<lparr>which = c, gva = g, tval = t, tval2 = t2, tinst = ti\<rparr>))"

text \<open>An access inside one page changes the registers and the object \<open>mmu_t\<close> only if it succeeds.\<close>

definition in_page :: "(hart_mmu \<Rightarrow> ('s, 'a \<times> hart_mmu) mmu_m) \<Rightarrow> ('s, 'a) port_m" where
  "in_page f = (\<lambda>(p, s).
     case f (csrs p, mmu p) s of
       (Inl e, s) \<Rightarrow> (Inl (Mem_error e), (p, s))
     | (Inr (x, (c, m)), s) \<Rightarrow> (Inr x, (p\<lparr>csrs := c, mmu := m\<rparr>, s)))"

definition with_csrs :: "(mmu_csrs \<Rightarrow> ('s, 'a) mmu_m) \<Rightarrow> ('s, 'a) port_m" where
  "with_csrs f = (\<lambda>(p, s). apfst (map_sum Mem_error id) (apsnd (Pair p) (f (csrs p) s)))"

subsection \<open>Triggers\<close>

definition check_triggers :: "operation_t \<Rightarrow> u64 \<Rightarrow> bool \<Rightarrow> u64 \<Rightarrow> u64 option \<Rightarrow> ('s, unit) port_m" where
  "check_triggers operation address virt t data = (\<lambda>(p, s).
     if matched_trigger p \<noteq> None then preturn () (p, s)
     else case detect_memory_access_match (trig_view p) operation address data (TM p) of
            None \<Rightarrow> pfail (Mem_error Undefined_behaviour) (p, s)
          | Some (r, ts) \<Rightarrow>
              let p = p\<lparr>TM := ts\<rparr>
              in case r of
                   None \<Rightarrow> preturn () (p, s)
                 | Some (TIMING_BEFORE, a) \<Rightarrow> pfail (Matched \<lparr>mt_operation = operation, mt_address = t, mt_action = a, mt_gva = virt\<rparr>) (p, s)
                 | Some (TIMING_AFTER, a) \<Rightarrow>
                     preturn () (p\<lparr>csrs := set_hart_tlb (flush_icache (hart_tlb (csrs p))) (csrs p),
                                   matched_trigger := Some \<lparr>mt_operation = operation, mt_address = t, mt_action = a, mt_gva = virt\<rparr>\<rparr>, s))"

text \<open>Other lengths abort the program.\<close>

definition reg_from_bytes :: "nat \<Rightarrow> u8 list \<Rightarrow> u64 option" where
  "reg_from_bytes len bytes = (if len \<in> {1, 2, 4, 8} then Some (le_word (take len bytes)) else None)"

text \<open>The checks of the data, eight bytes at a time.\<close>

function check_data :: "operation_t \<Rightarrow> u64 \<Rightarrow> bool \<Rightarrow> nat \<Rightarrow> u8 list \<Rightarrow> ('s, unit) port_m" where
  "check_data operation addr virt len bytes =
     (case reg_from_bytes (if 8 < len then 8 else len) bytes of
        None \<Rightarrow> pfail (Mem_error Aborted)
      | Some d \<Rightarrow>
          if 8 < len then
            pbind (check_triggers operation addr virt addr (Some d)) (\<lambda>_. check_data operation addr virt (len - 8) (drop 8 bytes))
          else check_triggers operation addr virt addr (Some d))"
  by auto
termination by (relation "measure (\<lambda>(_, _, _, len, _). len)") simp_all

declare check_data.simps [simp del]

subsection \<open>Loads and stores\<close>

definition is_aligned :: "u64 \<Rightarrow> nat \<Rightarrow> bool" where
  "is_aligned addr len \<longleftrightarrow> addr AND (of_nat len - 1) = 0"

definition len_page0 :: "u64 \<Rightarrow> nat \<Rightarrow> nat" where
  "len_page0 addr len = min len (4096 - unat addr mod 4096)"

definition load_slow_path :: "'s simif_t \<Rightarrow> u64 \<Rightarrow> nat \<Rightarrow> xlate_flags_t \<Rightarrow> ('s, u8 list) port_m" where
  "load_slow_path I addr len xlate_flags = (\<lambda>(p, s).
     let info = generate_access_info (csrs p) addr LOAD xlate_flags;
         virt = effective_virt info
     in pbind (check_triggers OPERATION_LOAD addr virt addr None) (\<lambda>_.
        pbind
          (if is_aligned addr len then in_page (load_slow_path_intrapage I len info)
           else if \<not> misaligned p then ptrap Load_address_misaligned virt addr 0 0
           else if lr (flags info) then ptrap Load_access_fault virt addr 0 0
           else
             let n = len_page0 addr len
             in pbind (in_page (load_slow_path_intrapage I n info)) (\<lambda>b0.
                if n \<noteq> len
                then pbind (in_page (load_slow_path_intrapage I (len - n) (split_misaligned_access info (of_nat n)))) (\<lambda>b1. preturn (b0 @ b1))
                else preturn b0)) (\<lambda>bytes.
        pbind (check_data OPERATION_LOAD addr virt len bytes) (\<lambda>_. preturn bytes))) (p, s))"

text \<open>Where the code passes no bytes, because nothing is stored, the list of bytes only gives the length.\<close>

definition store_slow_path :: "'s simif_t \<Rightarrow> u64 \<Rightarrow> u8 list \<Rightarrow> xlate_flags_t \<Rightarrow> bool \<Rightarrow> bool \<Rightarrow> ('s, unit) port_m" where
  "store_slow_path I addr bytes xlate_flags actually_store require_alignment = (\<lambda>(p, s).
     let info = generate_access_info (csrs p) addr STORE xlate_flags;
         virt = effective_virt info;
         len = length bytes;
         page_store = (\<lambda>bs i. in_page (\<lambda>h s. apfst (map_sum id (Pair ())) (store_slow_path_intrapage I bs i actually_store h s)))
     in pbind (if actually_store then check_data OPERATION_STORE addr virt len bytes else preturn ()) (\<lambda>_.
        if \<not> is_aligned addr len then
          if \<not> misaligned p then ptrap Store_address_misaligned virt addr 0 0
          else if require_alignment then ptrap Store_access_fault virt addr 0 0
          else
            let n = len_page0 addr len
            in pbind (page_store (take n bytes) info) (\<lambda>_.
               if n \<noteq> len then page_store (drop n bytes) (split_misaligned_access info (of_nat n)) else preturn ())
        else page_store bytes info) (p, s))"

definition load :: "'s simif_t \<Rightarrow> nat \<Rightarrow> u64 \<Rightarrow> xlate_flags_t \<Rightarrow> ('s, u64) port_m" where
  "load I len addr xlate_flags =
     pbind (\<lambda>(p, s).
         let t = hart_tlb (csrs p); vpn = drop_bit 12 addr
         in if \<not> is_special_access xlate_flags \<and> is_aligned addr len \<and> tlb_load_tag t ! tlb_index addr = vpn then
              (case host_load I (fst (tlb_data t ! tlb_index addr) + addr) len s of
                 (Host bytes, s) \<Rightarrow> (Inr bytes, (p, s))
               | (_, s) \<Rightarrow> (Inl (Mem_error Undefined_behaviour), (p, s)))
            else load_slow_path I addr len xlate_flags (p, s))
       (\<lambda>bytes (p, s).
         (Inr (le_word bytes), ((if log_commits p then p\<lparr>log_mem_read := log_mem_read p @ [(addr, 0, len)]\<rparr> else p), s)))"

definition store :: "'s simif_t \<Rightarrow> nat \<Rightarrow> u64 \<Rightarrow> u64 \<Rightarrow> xlate_flags_t \<Rightarrow> ('s, unit) port_m" where
  "store I len addr v xlate_flags =
     pbind (\<lambda>(p, s).
         let t = hart_tlb (csrs p); vpn = drop_bit 12 addr
         in if \<not> is_special_access xlate_flags \<and> is_aligned addr len \<and> tlb_store_tag t ! tlb_index addr = vpn then
              (case host_store I (fst (tlb_data t ! tlb_index addr) + addr) (le_bytes len v) s of
                 (Host _, s) \<Rightarrow> (Inr (), (p, s))
               | (_, s) \<Rightarrow> (Inl (Mem_error Undefined_behaviour), (p, s)))
            else store_slow_path I addr (le_bytes len v) xlate_flags True False (p, s))
       (\<lambda>_ (p, s).
         (Inr (), ((if log_commits p then p\<lparr>log_mem_write := log_mem_write p @ [(addr, v, len)]\<rparr> else p), s)))"

abbreviation (input) plain_access :: xlate_flags_t where
  "plain_access \<equiv> \<lparr>forced_virt = False, hlvx = False, lr = False\<rparr>"

definition load_reserved :: "'s simif_t \<Rightarrow> nat \<Rightarrow> u64 \<Rightarrow> ('s, u64) port_m" where
  "load_reserved I len addr = load I len addr \<lparr>forced_virt = False, hlvx = False, lr = True\<rparr>"

definition guest_load :: "'s simif_t \<Rightarrow> nat \<Rightarrow> u64 \<Rightarrow> ('s, u64) port_m" where
  "guest_load I len addr = load I len addr \<lparr>forced_virt = True, hlvx = False, lr = False\<rparr>"

definition guest_load_x :: "'s simif_t \<Rightarrow> nat \<Rightarrow> u64 \<Rightarrow> ('s, u64) port_m" where
  "guest_load_x I len addr = load I len addr \<lparr>forced_virt = True, hlvx = True, lr = False\<rparr>"

definition guest_store :: "'s simif_t \<Rightarrow> nat \<Rightarrow> u64 \<Rightarrow> u64 \<Rightarrow> ('s, unit) port_m" where
  "guest_store I len addr v = store I len addr v \<lparr>forced_virt = True, hlvx = False, lr = False\<rparr>"

subsection \<open>Atomic operations\<close>

definition load_to_store_cause :: "trap_cause \<Rightarrow> trap_cause" where
  "load_to_store_cause c =
     (case c of
        Load_address_misaligned \<Rightarrow> Store_address_misaligned
      | Load_page_fault \<Rightarrow> Store_page_fault
      | Load_access_fault \<Rightarrow> Store_access_fault
      | Load_guest_page_fault \<Rightarrow> Store_guest_page_fault
      | _ \<Rightarrow> c)"

text \<open>The trap that is thrown for a guest page fault has the flag \<open>gva\<close> set, as the one that is caught.\<close>

definition convert_load_traps_to_store_traps :: "('st, 'a) effect \<Rightarrow> ('st, 'a) effect" where
  "convert_load_traps_to_store_traps body ps =
     (case body ps of
        (Inl (Mem_error (Trap t)), ps) \<Rightarrow> (Inl (Mem_error (Trap (t\<lparr>which := load_to_store_cause (which t)\<rparr>))), ps)
      | r \<Rightarrow> r)"

definition amo :: "'s simif_t \<Rightarrow> nat \<Rightarrow> u64 \<Rightarrow> (u64 \<Rightarrow> u64) \<Rightarrow> ('s, u64) port_m" where
  "amo I len addr f = convert_load_traps_to_store_traps
     (pbind (store_slow_path I addr (replicate len 0) plain_access False True) (\<lambda>_.
      pbind (load I len addr plain_access) (\<lambda>lhs.
      pbind (store I len addr (f lhs) plain_access) (\<lambda>_. preturn lhs))))"

definition amo_compare_and_swap :: "'s simif_t \<Rightarrow> nat \<Rightarrow> u64 \<Rightarrow> u64 \<Rightarrow> u64 \<Rightarrow> ('s, u64) port_m" where
  "amo_compare_and_swap I len addr expected swap = convert_load_traps_to_store_traps
     (pbind (store_slow_path I addr (replicate len 0) plain_access False True) (\<lambda>_.
      pbind (load I len addr plain_access) (\<lambda>lhs.
      pbind (if lhs = expected then store I len addr swap plain_access else preturn ()) (\<lambda>_. preturn lhs))))"

definition yield_load_reservation :: "('s, unit) port_m" where
  "yield_load_reservation = (\<lambda>(p, s). (Inr (), (p\<lparr>mmu := (mmu p)\<lparr>load_reservation_address := - 1\<rparr>\<rparr>, s)))"

definition check_load_reservation :: "'s simif_t \<Rightarrow> u64 \<Rightarrow> nat \<Rightarrow> ('s, bool) port_m" where
  "check_load_reservation I va len =
     pbind (if \<not> is_aligned va len then store_slow_path I va (replicate len 0) plain_access False True else preturn ()) (\<lambda>_.
     pbind (with_csrs (\<lambda>c. mmu_translate I c (generate_access_info c va STORE plain_access) 1)) (\<lambda>paddr (p, s).
       case reservable I paddr s of
         (True, s) \<Rightarrow> (Inr (load_reservation_address (mmu p) = paddr), (p, s))
       | (False, s) \<Rightarrow> ptrap Store_access_fault (virt_mode (csrs p)) va 0 0 (p, s)))"

definition store_conditional :: "'s simif_t \<Rightarrow> nat \<Rightarrow> u64 \<Rightarrow> u64 \<Rightarrow> ('s, bool) port_m" where
  "store_conditional I len addr v =
     pbind (check_load_reservation I addr len) (\<lambda>have_reservation.
     pbind (if have_reservation then store I len addr v plain_access else preturn ()) (\<lambda>_.
     pbind yield_load_reservation (\<lambda>_. preturn have_reservation)))"

subsection \<open>Quad-precision values\<close>

definition store_float128 :: "'s simif_t \<Rightarrow> u64 \<Rightarrow> u64 \<times> u64 \<Rightarrow> ('s, unit) port_m" where
  "store_float128 I addr v = (\<lambda>(p, s).
     if \<not> is_aligned addr 16 \<and> \<not> misaligned p then ptrap Store_address_misaligned (virt_mode (csrs p)) addr 0 0 (p, s)
     else pbind (store I 8 addr (fst v) plain_access) (\<lambda>_. store I 8 (addr + 8) (snd v) plain_access) (p, s))"

definition load_float128 :: "'s simif_t \<Rightarrow> u64 \<Rightarrow> ('s, u64 \<times> u64) port_m" where
  "load_float128 I addr = (\<lambda>(p, s).
     if \<not> is_aligned addr 16 \<and> \<not> misaligned p then ptrap Load_address_misaligned (virt_mode (csrs p)) addr 0 0 (p, s)
     else pbind (load I 8 addr plain_access) (\<lambda>v0. pbind (load I 8 (addr + 8) plain_access) (\<lambda>v1. preturn (v0, v1))) (p, s))"

subsection \<open>Cache blocks\<close>

primrec cbo_zero_loop :: "'s simif_t \<Rightarrow> u64 \<Rightarrow> u64 \<Rightarrow> nat list \<Rightarrow> ('s, unit) port_m" where
  "cbo_zero_loop I addr base [] = preturn ()"
| "cbo_zero_loop I addr base (offset # offsets) =
     pbind (check_triggers OPERATION_STORE (base + of_nat offset) False addr None) (\<lambda>_.
     pbind (store I 1 (base + of_nat offset) 0 plain_access) (\<lambda>_. cbo_zero_loop I addr base offsets))"

definition cbo_zero :: "'s simif_t \<Rightarrow> u64 \<Rightarrow> ('s, unit) port_m" where
  "cbo_zero I addr = (\<lambda>(p, s). cbo_zero_loop I addr (addr AND NOT (blocksz p - 1)) [0..<unat (blocksz p)] (p, s))"

primrec check_block :: "u64 \<Rightarrow> u64 \<Rightarrow> nat list \<Rightarrow> ('s, unit) port_m" where
  "check_block addr base [] = preturn ()"
| "check_block addr base (offset # offsets) =
     pbind (check_triggers OPERATION_STORE (base + of_nat offset) False addr None) (\<lambda>_. check_block addr base offsets)"

definition clean_inval :: "'s simif_t \<Rightarrow> u64 \<Rightarrow> bool \<Rightarrow> bool \<Rightarrow> ('s, unit) port_m" where
  "clean_inval I addr clean inval = (\<lambda>(p, s).
     pbind (check_block addr (addr AND NOT (blocksz p - 1)) [0..<unat (blocksz p)]) (\<lambda>_.
     convert_load_traps_to_store_traps
       (pbind (with_csrs (\<lambda>c. mmu_translate I c (generate_access_info c addr LOAD plain_access) 1)) (\<lambda>paddr (p, s).
          case reservable I paddr s of
            (False, s) \<Rightarrow> ptrap Store_access_fault (virt_mode (csrs p)) addr 0 0 (p, s)
          | (True, s) \<Rightarrow>
              if tracer_interested (tracer (mmu p)) LOAD then
                (case tracer_clean_invalidate (tracer (mmu p)) paddr (blocksz p) clean inval of
                   None \<Rightarrow> (Inl (Mem_error Undefined_behaviour), (p, s))
                 | Some tr \<Rightarrow> (Inr (), (p\<lparr>mmu := (mmu p)\<lparr>tracer := tr\<rparr>\<rparr>, s)))
              else (Inr (), (p, s))))) (p, s))"

text \<open>A new tracer is registered with a flush, so that the next accesses reach it.\<close>

definition register_memtracer :: "(cache_system \<Rightarrow> cache_system) \<Rightarrow> port_t \<Rightarrow> port_t" where
  "register_memtracer hook p =
     p\<lparr>csrs := set_hart_tlb (flush_tlb (hart_tlb (csrs p))) (csrs p), mmu := (mmu p)\<lparr>tracer := hook (tracer (mmu p))\<rparr>\<rparr>"

text \<open>\<open>processor_t::trigger_updated\<close>, which every write to a trigger calls.\<close>

definition trigger_updated :: "port_t \<Rightarrow> port_t" where
  "trigger_updated p =
     p\<lparr>csrs := set_hart_tlb (flush_tlb (hart_tlb (csrs p))) (csrs p),
       mmu := (mmu p)\<lparr>check_triggers_fetch := list_ex get_execute (TM p), check_triggers_load := list_ex get_load (TM p),
                      check_triggers_store := list_ex get_store (TM p)\<rparr>,
       check_triggers_icount := list_ex icount_check_needed (TM p)\<rparr>"

end
