(* ===== verification/Mmu_Memory.thy ===== *)
theory Mmu_Memory
  imports Mmu_Port Mmu_Tlb
begin

text \<open>
  The memory port of a hart that does not translate addresses refines a flat memory of bytes with one reservation: loads,
  stores, reservations and atomic operations of any alignment, through the translation cache and the cache tracers, give
  the results and the traps of the specification. The refinement is compositional in the operations of the port.
\<close>

section \<open>The flat memory\<close>

type_synonym flat = "(u64 \<Rightarrow> u8 option) \<times> u64"

definition flat_trap :: "trap_cause \<Rightarrow> u64 \<Rightarrow> (flat, 'a) effect" where
  "flat_trap c a = ptrap c False a 0 0"

definition flat_load :: "bool \<Rightarrow> bool \<Rightarrow> nat \<Rightarrow> u64 \<Rightarrow> (flat, u64) effect" where
  "flat_load mis reserve len a = (\<lambda>(b, r).
     if is_aligned a len then (Inr (mem_word b a len), (b, if reserve then a else r))
     else if \<not> mis then flat_trap Load_address_misaligned a (b, r)
     else if reserve then flat_trap Load_access_fault a (b, r)
     else (Inr (mem_word b a len), (b, r)))"

definition flat_store :: "bool \<Rightarrow> nat \<Rightarrow> u64 \<Rightarrow> u64 \<Rightarrow> (flat, unit) effect" where
  "flat_store mis len a v = (\<lambda>(b, r).
     if \<not> is_aligned a len \<and> \<not> mis then flat_trap Store_address_misaligned a (b, r)
     else (Inr (), (put_bytes b a (le_bytes len v), r)))"

text \<open>Atomic operations must be aligned.\<close>

definition flat_atomic :: "bool \<Rightarrow> nat \<Rightarrow> u64 \<Rightarrow> (flat, 'a) effect \<Rightarrow> (flat, 'a) effect" where
  "flat_atomic mis len a body =
     (if is_aligned a len then body else if mis then flat_trap Store_access_fault a else flat_trap Store_address_misaligned a)"

datatype mem_op =
    Op_load nat u64
  | Op_store nat u64 u64
  | Op_load_reserved nat u64
  | Op_store_conditional nat u64 u64
  | Op_amo nat u64 "u64 \<Rightarrow> u64"
  | Op_compare_and_swap nat u64 u64 u64

primrec flat_op :: "bool \<Rightarrow> mem_op \<Rightarrow> (flat, u64) effect" where
  "flat_op mis (Op_load len a) = flat_load mis False len a"
| "flat_op mis (Op_store len a v) = pbind (flat_store mis len a v) (\<lambda>_. preturn 0)"
| "flat_op mis (Op_load_reserved len a) = flat_load mis True len a"
| "flat_op mis (Op_store_conditional len a v) = flat_atomic mis len a (\<lambda>(b, r).
     (Inr (of_bool (r = a)), (if r = a then put_bytes b a (le_bytes len v) else b, - 1)))"
| "flat_op mis (Op_amo len a f) = flat_atomic mis len a (\<lambda>(b, r).
     (Inr (mem_word b a len), (put_bytes b a (le_bytes len (f (mem_word b a len))), r)))"
| "flat_op mis (Op_compare_and_swap len a x v) = flat_atomic mis len a (\<lambda>(b, r).
     (Inr (mem_word b a len), (if mem_word b a len = x then put_bytes b a (le_bytes len v) else b, r)))"

primrec port_op :: "'s simif_t \<Rightarrow> mem_op \<Rightarrow> ('s, u64) port_m" where
  "port_op I (Op_load len a) = load I len a plain_access"
| "port_op I (Op_store len a v) = pbind (store I len a v plain_access) (\<lambda>_. preturn 0)"
| "port_op I (Op_load_reserved len a) = load_reserved I len a"
| "port_op I (Op_store_conditional len a v) = pbind (store_conditional I len a v) (\<lambda>ok. preturn (of_bool ok))"
| "port_op I (Op_amo len a f) = amo I len a f"
| "port_op I (Op_compare_and_swap len a x v) = amo_compare_and_swap I len a x v"

text \<open>A sequence of operations goes on after a trap.\<close>

primrec run_ops :: "('op \<Rightarrow> 'st \<Rightarrow> 'r \<times> 'st) \<Rightarrow> 'op list \<Rightarrow> 'st \<Rightarrow> 'r list \<times> 'st" where
  "run_ops f [] st = ([], st)"
| "run_ops f (op # ops) st = (let (r, st) = f op st; (rs, st) = run_ops f ops st in (r # rs, st))"

primrec op_range :: "mem_op \<Rightarrow> nat \<times> u64" where
  "op_range (Op_load len a) = (len, a)"
| "op_range (Op_store len a v) = (len, a)"
| "op_range (Op_load_reserved len a) = (len, a)"
| "op_range (Op_store_conditional len a v) = (len, a)"
| "op_range (Op_amo len a f) = (len, a)"
| "op_range (Op_compare_and_swap len a x v) = (len, a)"

text \<open>An access of a permitted length to memory.\<close>

definition in_memory :: "u64 set \<Rightarrow> nat \<times> u64 \<Rightarrow> bool" where
  "in_memory D = (\<lambda>(len, a). len \<in> {1, 2, 4, 8} \<and> (\<forall>i < len. a + of_nat i \<in> D))"

section \<open>Refinement of effects\<close>

definition refines :: "('x \<Rightarrow> 'y \<Rightarrow> bool) \<Rightarrow> ('x \<Rightarrow> 'r \<times> 'x) \<Rightarrow> ('y \<Rightarrow> 'r \<times> 'y) \<Rightarrow> bool" where
  "refines R f g \<longleftrightarrow> (\<forall>x y. R x y \<longrightarrow> fst (f x) = fst (g y) \<and> R (snd (f x)) (snd (g y)))"

named_theorems refinement

lemma refines_return [refinement]: "refines R (preturn v) (preturn v)"
  by (simp add: refines_def preturn_def)

lemma refines_fail [refinement]: "refines R (pfail e) (pfail e)"
  by (simp add: refines_def pfail_def)

lemma refines_trap [refinement]: "refines R (ptrap c False a 0 0) (flat_trap c a)"
  by (simp add: ptrap_def flat_trap_def refines_fail)

lemma refines_bind:
  assumes "refines R f g" "\<And>v. refines R (k v) (l v)"
  shows "refines R (pbind f k) (pbind g l)"
  unfolding refines_def
proof (intro allI impI)
  fix x y assume R: "R x y"
  obtain r x' y' where f: "f x = (r, x')" "g y = (r, y')" "R x' y'"
    using assms(1) R unfolding refines_def by (metis prod.collapse)
  then show "fst (pbind f k x) = fst (pbind g l y) \<and> R (snd (pbind f k x)) (snd (pbind g l y))"
    using assms(2) by (cases r) (auto simp: pbind_def refines_def)
qed

lemma refines_convert:
  assumes "refines R f g"
  shows "refines R (convert_load_traps_to_store_traps f) (convert_load_traps_to_store_traps g)"
  unfolding refines_def
proof (intro allI impI)
  fix x y assume R: "R x y"
  obtain r x' y' where f: "f x = (r, x')" "g y = (r, y')" "R x' y'"
    using assms R unfolding refines_def by (metis prod.collapse)
  show "fst (convert_load_traps_to_store_traps f x) = fst (convert_load_traps_to_store_traps g y) \<and>
      R (snd (convert_load_traps_to_store_traps f x)) (snd (convert_load_traps_to_store_traps g y))"
    unfolding convert_load_traps_to_store_traps_def f(1,2) using f(3) by (auto split: sum.split port_error.split mmu_error.split)
qed

lemma refines_run:
  assumes "\<And>op. op \<in> set ops \<Longrightarrow> refines R (f op) (g op)"
  shows "refines R (run_ops f ops) (run_ops g ops)"
  using assms
proof (induction ops)
  case (Cons op ops)
  show ?case unfolding refines_def
  proof (intro allI impI)
    fix x y assume R: "R x y"
    obtain r x' y' where 1: "f op x = (r, x')" "g op y = (r, y')" "R x' y'"
      using Cons.prems [of op] R unfolding refines_def by (metis list.set_intros(1) prod.collapse)
    have "refines R (run_ops f ops) (run_ops g ops)" using Cons by simp
    with 1 show "fst (run_ops f (op # ops) x) = fst (run_ops g (op # ops) y) \<and> R (snd (run_ops f (op # ops) x)) (snd (run_ops g (op # ops) y))"
      unfolding refines_def by (simp add: split_beta)
  qed
qed (simp add: refines_def)

section \<open>The relation\<close>

text \<open>A hart whose loads and stores are not translated, and which protection lets access everything.\<close>

definition bare_hart :: "mmu_csrs \<Rightarrow> bool" where
  "bare_hart c \<longleftrightarrow> \<not> virt_mode c \<and> \<not> in_mprv c \<and> xlen c = 64 \<and>
     (\<exists>vm. decode_vm_info (const_xlen c) False (prv c) (satp c) = Some vm \<and> levels vm = 0) \<and>
     (\<forall>a n type. pmp_ok (pmp c) a n type (prv c))"

text \<open>No access matches a trigger.\<close>

definition quiet :: "port_t \<Rightarrow> bool" where
  "quiet p \<longleftrightarrow> (\<forall>operation a d. detect_memory_access_match (trig_view p) operation a d (TM p) = Some (None, TM p))"

text \<open>The cached translations are the identity on pages of memory.\<close>

definition tlb_identity :: "u64 set \<Rightarrow> tlb_t \<Rightarrow> bool" where
  "tlb_identity D t \<longleftrightarrow> tlb_wf t \<and>
     (\<forall>v. tlb_hit (tlb_load_tag t) v \<or> tlb_hit (tlb_store_tag t) v \<longrightarrow> fst (tlb_data t ! tlb_index v) = 0 \<and> v \<in> D)"

definition hart_ok :: "u64 set \<Rightarrow> hart_mmu \<Rightarrow> bool" where
  "hart_ok D = (\<lambda>(c, m). bare_hart c \<and> tlb_identity D (hart_tlb c) \<and> system_wf (tracer m))"

definition port_sim :: "('s \<Rightarrow> bool) \<Rightarrow> ('s \<Rightarrow> u64 \<Rightarrow> u8 option) \<Rightarrow> u64 set \<Rightarrow> bool \<Rightarrow> port_t \<times> 's \<Rightarrow> flat \<Rightarrow> bool" where
  "port_sim sinv byte D mis = (\<lambda>(p, s) x.
     sinv s \<and> x = (byte s, load_reservation_address (mmu p)) \<and> dom (byte s) = D \<and> misaligned p = mis \<and> quiet p \<and> hart_ok D (csrs p, mmu p))"

lemma set_hart_tlb_more [simp]:
  "prv (set_hart_tlb t c) = prv c" "virt_mode (set_hart_tlb t c) = virt_mode c" "hstatus (set_hart_tlb t c) = hstatus c"
  "in_mprv (set_hart_tlb t c) = in_mprv c" "bare_hart (set_hart_tlb t c) = bare_hart c"
  by (simp_all add: in_mprv_def bare_hart_def) (simp_all add: set_hart_tlb_def)

lemma trig_view_tlb [simp]: "trig_view (p\<lparr>csrs := set_hart_tlb t (csrs p), mmu := m\<rparr>) = trig_view p"
  by (simp add: trig_view_def Let_def)

lemma quiet_update [simp]:
  "quiet (p\<lparr>csrs := set_hart_tlb t (csrs p)\<rparr>) = quiet p"
  "quiet (p\<lparr>mmu := m\<rparr>) = quiet p" "quiet (p\<lparr>log_mem_read := l\<rparr>) = quiet p" "quiet (p\<lparr>log_mem_write := l\<rparr>) = quiet p"
  by (simp_all add: quiet_def) (simp_all add: trig_view_def Let_def)

lemma quiet_check: "quiet p \<Longrightarrow> check_triggers operation a virt t d (p, s) = (Inr (), (p, s))"
  by (simp add: quiet_def check_triggers_def preturn_def Let_def)

lemma quiet_data:
  "quiet p \<Longrightarrow> len \<in> {1, 2, 4, 8} \<Longrightarrow> check_data operation a virt len bytes (p, s) = (Inr (), (p, s))"
  by (subst check_data.simps) (auto simp: reg_from_bytes_def quiet_check)

lemma homogeneous_defined: "pmp_homogeneous p (a AND NOT (4096 - 1)) 4096 \<noteq> None"
proof -
  have m: "(4096 :: u64) - 1 = mask 12" "(4096 :: u64) = 2 ^ 12" by (simp_all add: mask_eq_exp_minus_1)
  have "((a AND NOT (mask 12)) OR 2 ^ 12) AND mask 12 = 0"
    by (rule bit_word_eqI, unfold bit_and_iff bit_or_iff bit_not_iff bit_mask_iff bit_exp_iff) auto
  then have ok: "((a AND NOT (4096 - 1)) OR 4096) AND (4096 - 1) = 0" unfolding m(1) unfolding m(2) .
  have step: "subset_match p i (a AND NOT (4096 - 1)) 4096 \<noteq> None" for i unfolding subset_match_def ok Let_def by (simp del: not_None_eq)
  have "pmp_homogeneous_loop p (a AND NOT (4096 - 1)) 4096 is \<noteq> None" for "is"
    by (induction "is") (use step in \<open>auto split: bind_splits\<close>)
  then show ?thesis unfolding pmp_homogeneous_def ok by simp
qed

lemma bit_check_triggers: "bit TLB_CHECK_TRIGGERS n \<longleftrightarrow> n = 63"
proof -
  have "TLB_CHECK_TRIGGERS = 2 ^ 63" by simp
  then show ?thesis by (simp only: bit_exp_iff) (auto simp: possible_bit_def)
qed

lemma tag_no_check: "drop_bit 12 (v :: u64) AND NOT TLB_CHECK_TRIGGERS = drop_bit 12 v"
  by (rule bit_word_eqI, unfold bit_and_iff bit_not_iff bit_check_triggers) (auto simp: bit_drop_bit_eq dest: bit_imp_le_length)

lemma tlb_hit_tag: "tg ! tlb_index v = drop_bit 12 v \<Longrightarrow> tlb_hit tg v"
  unfolding tlb_hit_def by (simp only: tag_no_check)

lemma clear_check: "(drop_bit 12 v OR TLB_CHECK_TRIGGERS) AND NOT TLB_CHECK_TRIGGERS = drop_bit 12 (v :: u64)"
  by (rule bit_word_eqI, unfold bit_and_iff bit_or_iff bit_not_iff bit_check_triggers) (auto simp: bit_drop_bit_eq dest: bit_imp_le_length)

text \<open>Refilling with the identity keeps it.\<close>

lemma refill_identity:
  assumes t: "tlb_identity D (hart_tlb c)" and page: "\<And>v. drop_bit 12 v = drop_bit 12 va \<Longrightarrow> v \<in> D" and type: "type \<noteq> FETCH"
  shows "\<exists>t. refill_tlb va va type m c = Some ((0, 0), set_hart_tlb t c) \<and> tlb_identity D t"
proof (cases "in_mprv c")
  case True
  then show ?thesis using t by (intro exI [of _ "hart_tlb c"]) (simp add: refill_tlb_def set_hart_tlb_def hart_tlb_def)
next
  case False
  let ?i = "tlb_index va" and ?T = "hart_tlb c"
  define tag where "tag = (if check_triggers_fetch m \<and> type = FETCH \<or> check_triggers_load m \<and> type = LOAD \<or> check_triggers_store m \<and> type = STORE
    then drop_bit 12 va OR TLB_CHECK_TRIGGERS else drop_bit 12 va)"
  obtain hom where hom: "pmp_homogeneous (pmp c) (va AND NOT (4096 - 1)) 4096 = Some hom" using homogeneous_defined by blast
  define E where "E = tlb_evict ?i (drop_bit 12 va) ?T"
  define t' where "t' = (if hom then tlb_set_tag type ?i tag E else E)"
  have refill: "refill_tlb va va type m c = Some ((0, 0), set_hart_tlb (t'\<lparr>tlb_data := (tlb_data t')[?i := (0, 0)]\<rparr>) c)"
    using False hom by (simp add: refill_tlb_def Let_def t'_def E_def tag_def)
  have wf: "tlb_wf ?T" using t by (simp add: tlb_identity_def)
  then have wfE: "tlb_wf E" by (simp add: tlb_wf_def E_def tlb_evict_def Let_def)
  then have wf': "tlb_wf t'" using type by (auto simp: tlb_wf_def t'_def tlb_set_tag_def split: access_type.split)
  have data: "tlb_data t' = tlb_data ?T" by (auto simp: t'_def E_def tlb_set_tag_def tlb_evict_def Let_def split: access_type.split)
  have tags: "tlb_load_tag t' ! j = tlb_load_tag ?T ! j" "tlb_store_tag t' ! j = tlb_store_tag ?T ! j" if "j \<noteq> ?i" for j
    using that by (auto simp: t'_def E_def tlb_set_tag_def tlb_evict_def Let_def split: access_type.split)
  have tagc: "tag AND NOT TLB_CHECK_TRIGGERS = drop_bit 12 va" unfolding tag_def using clear_check [of va] tag_no_check [of va] by presburger
  have here: "tg ! ?i AND NOT TLB_CHECK_TRIGGERS = drop_bit 12 va \<or> tg ! ?i = - 1" if "tg = tlb_load_tag t' \<or> tg = tlb_store_tag t'" for tg
  proof -
    have E: "tg ! ?i AND NOT TLB_CHECK_TRIGGERS = drop_bit 12 va \<or> tg ! ?i = - 1" if "tg = tlb_load_tag E \<or> tg = tlb_store_tag E" for tg
      using that wf tlb_index_less [of va] by (auto simp: E_def tlb_evict_def Let_def tlb_wf_def)
    show ?thesis using that E [of tg] tagc wfE tlb_index_less [of va] type
      by (cases type) (auto simp: t'_def tlb_set_tag_def tlb_wf_def split: if_splits)
  qed
  have "fst ((tlb_data t')[?i := (0, 0)] ! tlb_index v) = 0 \<and> v \<in> D" if h: "tlb_hit tg v" and tg: "tg = tlb_load_tag t' \<or> tg = tlb_store_tag t'" for tg v
  proof (cases "tlb_index v = ?i")
    case True
    then have "drop_bit 12 v = drop_bit 12 va" using h here [OF tg] empty_tag [of v] unfolding tlb_hit_def by metis
    then have "v \<in> D" by (rule page)
    then show ?thesis using True wf' tlb_index_less [of va] by (simp add: tlb_wf_def)
  next
    case False
    then have "tlb_hit (tlb_load_tag ?T) v \<or> tlb_hit (tlb_store_tag ?T) v" using h tg tags [of "tlb_index v"] by (auto simp: tlb_hit_def)
    then show ?thesis using t False data by (auto simp: tlb_identity_def)
  qed
  then have "tlb_identity D (t'\<lparr>tlb_data := (tlb_data t')[?i := (0, 0)]\<rparr>)" using wf' by (auto simp: tlb_identity_def tlb_wf_def)
  then show ?thesis using refill by blast
qed

section \<open>Accesses inside one page\<close>

text \<open>An access that a hart without translation makes.\<close>

definition identity_info :: "mmu_csrs \<Rightarrow> u64 \<Rightarrow> access_type \<Rightarrow> mem_access_info_t \<Rightarrow> bool" where
  "identity_info c a type info \<longleftrightarrow> vaddr info = a \<and> acc_type info = type \<and> \<not> effective_virt info \<and> effective_priv info = prv c"

lemma identity_generate:
  "bare_hart c \<Longrightarrow> \<not> forced_virt fl \<Longrightarrow> identity_info c a type (generate_access_info c a type fl)"
  "flags (generate_access_info c a type fl) = fl"
  by (simp_all add: identity_info_def generate_access_info_def bare_hart_def split_beta Let_def)

lemma identity_split:
  "identity_info c a type info \<Longrightarrow> identity_info c (a + n) type (split_misaligned_access info n)"
  "flags (split_misaligned_access info n) = flags info"
  by (simp_all add: identity_info_def split_misaligned_access_def)

lemma identity_info_tlb [simp]: "identity_info (set_hart_tlb t c) a type info = identity_info c a type info"
  by (simp add: identity_info_def)

lemma set_same_tlb: "set_hart_tlb (hart_tlb c) c = c"
  by (simp add: set_hart_tlb_def hart_tlb_def)

text \<open>What an access may change of a hart.\<close>

definition hart_step :: "u64 set \<Rightarrow> hart_mmu \<Rightarrow> hart_mmu \<Rightarrow> bool" where
  "hart_step D = (\<lambda>(c, m) (c', m'). \<exists>t. c' = set_hart_tlb t c \<and> tlb_identity D t \<and> system_wf (tracer m'))"

lemma hart_step_refl: "hart_ok D h \<Longrightarrow> hart_step D h h"
  by (cases h) (auto simp: hart_ok_def hart_step_def intro: exI [of _ "hart_tlb (fst h)"] simp: set_same_tlb)

lemma hart_step_ok: "hart_step D h h' \<Longrightarrow> hart_ok D h \<Longrightarrow> hart_ok D h'"
  by (cases h; cases h') (auto simp: hart_ok_def hart_step_def)

lemma hart_step_trans: "hart_step D h h' \<Longrightarrow> hart_step D h' h'' \<Longrightarrow> hart_step D h h''"
  by (cases h; cases h'; cases h'') (auto simp: hart_step_def set_hart_tlb_def)

abbreviation bytes_at :: "(u64 \<Rightarrow> u8 option) \<Rightarrow> u64 \<Rightarrow> nat \<Rightarrow> u8 list" where
  "bytes_at b a n \<equiv> map (\<lambda>i. the (b (a + of_nat i))) [0..<n]"

context simif
begin

lemma page_dom: "sim_inv s \<Longrightarrow> byte s a \<noteq> None \<Longrightarrow> drop_bit 12 v = drop_bit 12 a \<Longrightarrow> v \<in> dom (byte s)"
  using byte_page [of s v a] by (auto simp: domIff)

lemma translate_identity:
  assumes "bare_hart c" "identity_info c a type info"
  shows "mmu_translate I c info n s = (Inr a, s)"
proof -
  obtain vm where vm: "stage1_vm c info = Some vm" "levels vm = 0"
    using assms by (auto simp: bare_hart_def identity_info_def stage1_vm_def)
  have i: "vaddr info = a" "\<not> effective_virt info" "effective_priv info = prv c" using assms(2) by (simp_all add: identity_info_def)
  have "push_bit (xlen c - 1) 2 - 1 = (- 1 :: u64)" using assms(1) by (simp add: bare_hart_def push_bit_eq_mult)
  then have "walk I c info s = (Inr (a AND NOT (mask 12)), s)"
    using walk_bare [OF i(2) vm, where s = s] i(1) unfolding low12 by simp
  moreover have "(a AND NOT (mask 12)) OR (a AND mask 12) = a"
    by (rule bit_word_eqI) (auto simp: bit_and_iff bit_or_iff bit_not_iff)
  ultimately show ?thesis using assms(1) i unfolding mmu_translate_def mbind_def low12
    by (simp add: mreturn_def bare_hart_def)
qed

lemma after_access:
  assumes "hart_ok D (c, m)" "identity_info c a type info" "type \<noteq> FETCH" "sim_inv s" "byte s a \<noteq> None" "dom (byte s) = D"
  shows "\<exists>c' m'. after_host_access a n info (c, m) = Some (c', m') \<and> hart_step D (c, m) (c', m') \<and>
    load_reservation_address m' = load_reservation_address m"
proof -
  have i: "vaddr info = a" "acc_type info = type" using assms(2) by (simp_all add: identity_info_def)
  have h: "tlb_identity D (hart_tlb c)" "system_wf (tracer m)" using assms(1) by (simp_all add: hart_ok_def)
  obtain tr where tr: "tracer_trace (tracer m) a (of_nat n) type = Some tr" "system_wf tr" using tracer_trace_defined [OF h(2)] by blast
  obtain t where t: "refill_tlb a a type m c = Some ((0, 0), set_hart_tlb t c)" "tlb_identity D t"
    using refill_identity [OF h(1) _ assms(3), of a m] page_dom [OF assms(4,5)] assms(6) by blast
  have "hart_step D (c, m) (c, m\<lparr>tracer := tr\<rparr>)" using h tr by (auto simp: hart_step_def set_same_tlb intro: exI [of _ "hart_tlb c"])
  moreover have "hart_step D (c, m) (set_hart_tlb t c, m)" using h t by (auto simp: hart_step_def)
  moreover note hart_step_refl [OF assms(1)]
  ultimately show ?thesis using i tr t by (simp add: after_host_access_def)
qed

lemma hit_identity:
  assumes "hart_ok (dom (byte s)) (c, m)" "tlb_hit (tlb_load_tag (hart_tlb c)) a \<or> tlb_hit (tlb_store_tag (hart_tlb c)) a"
  shows "fst (tlb_data (hart_tlb c) ! tlb_index a) + a = a" "byte s a \<noteq> None"
  using assms by (auto simp: hart_ok_def tlb_identity_def)

lemma load_intrapage:
  assumes ok: "hart_ok (dom (byte s)) (c, m)" and i: "identity_info c a LOAD info" and s: "sim_inv s" "byte s a \<noteq> None"
    and n: "unat a mod 4096 + n \<le> 4096" "\<not> forced_virt (flags info)" "\<not> hlvx (flags info)"
  shows "\<exists>c' m' s'. load_slow_path_intrapage I n info (c, m) s = (Inr (bytes_at (byte s) a n, (c', m')), s') \<and> sim_inv s' \<and> byte s' = byte s \<and>
    hart_step (dom (byte s)) (c, m) (c', m') \<and> load_reservation_address m' = (if lr (flags info) then a else load_reservation_address m)"
proof -
  have va: "vaddr info = a" using i by (simp add: identity_info_def)
  have "bare_hart c" using ok by (simp add: hart_ok_def)
  note tr = translate_identity [OF this i]
  obtain s1 where s1: "host_load I a n s = (Host (bytes_at (byte s) a n), s1)" "sim_inv s1" "byte s1 = byte s"
    using load_mem [OF s n(1)] by blast
  show ?thesis
  proof (cases "\<not> is_special_access (flags info) \<and> tlb_hit (tlb_load_tag (hart_tlb c)) a")
    case True
    then have "load_slow_path_intrapage I n info (c, m) s = (Inr (bytes_at (byte s) a n, (c, m)), s1)"
      using va s1 hit_identity(1) [OF ok] by (simp add: load_slow_path_intrapage_def mreturn_def)
    moreover have "\<not> lr (flags info)" using True by (simp add: is_special_access_def)
    ultimately show ?thesis using s1 hart_step_refl [OF ok] by auto
  next
    case False
    obtain c' m' where h: "after_host_access a n info (c, m) = Some (c', m')" "hart_step (dom (byte s)) (c, m) (c', m')"
      "load_reservation_address m' = load_reservation_address m"
      using after_access [OF ok i _ s refl, of n] by blast
    let ?m = "if lr (flags info) then m'\<lparr>load_reservation_address := a\<rparr> else m'"
    obtain s0 where s0: "(if lr (flags info) then reservable I a s else (True, s)) = (True, s0)" "sim_inv s0" "byte s0 = byte s"
      using load_mem [OF s, of 0] s(1) by (cases "lr (flags info)") (fastforce simp: reservable_def)+
    obtain s2 where s2: "host_load I a n s0 = (Host (bytes_at (byte s) a n), s2)" "sim_inv s2" "byte s2 = byte s"
      using load_mem [OF s0(2) _ n(1)] s(2) s0(3) by auto
    have "load_slow_path_intrapage I n info (c, m) s = (Inr (bytes_at (byte s) a n, (c', ?m)), s2)"
      using False va unfolding load_slow_path_intrapage_def Let_def split_conv
      by (simp add: mbind_def tr s0(1) s2(1) h(1) mreturn_def) blast
    moreover have "hart_step (dom (byte s)) (c, m) (c', ?m)" using h(2) by (auto simp: hart_step_def)
    ultimately show ?thesis using s2 h(3) by (intro exI [of _ c'] exI [of _ ?m] exI [of _ s2]) auto
  qed
qed

lemma store_intrapage:
  assumes ok: "hart_ok (dom (byte s)) (c, m)" and i: "identity_info c a STORE info" and s: "sim_inv s" "byte s a \<noteq> None"
    and n: "unat a mod 4096 + length bs \<le> 4096"
  shows "\<exists>c' m' s'. store_slow_path_intrapage I bs info really (c, m) s = (Inr (c', m'), s') \<and> sim_inv s' \<and>
    byte s' = (if really then put_bytes (byte s) a bs else byte s) \<and>
    hart_step (dom (byte s)) (c, m) (c', m') \<and> load_reservation_address m' = load_reservation_address m"
proof -
  have va: "vaddr info = a" using i by (simp add: identity_info_def)
  have "bare_hart c" using ok by (simp add: hart_ok_def)
  note tr = translate_identity [OF this i]
  obtain s1 where s1: "host_store I a bs s = (Host (), s1)" "sim_inv s1" "byte s1 = put_bytes (byte s) a bs"
    using store_mem [OF s n] unfolding put_bytes_def by blast
  obtain c' m' where h: "after_host_access a (length bs) info (c, m) = Some (c', m')" "hart_step (dom (byte s)) (c, m) (c', m')"
    "load_reservation_address m' = load_reservation_address m"
    using after_access [OF ok i _ s refl, of "length bs"] by blast
  show ?thesis
  proof (cases "\<not> is_special_access (flags info) \<and> tlb_hit (tlb_store_tag (hart_tlb c)) a")
    case True
    then have "store_slow_path_intrapage I bs info really (c, m) s = (Inr (c, m), if really then s1 else s)"
      using va s1 hit_identity(1) [OF ok] by (simp add: store_slow_path_intrapage_def mreturn_def)
    then show ?thesis using s1 s hart_step_refl [OF ok] by auto
  next
    case False
    then have "store_slow_path_intrapage I bs info really (c, m) s = (if really then (Inr (c', m'), s1) else (Inr (c, m), s))"
      using va unfolding store_slow_path_intrapage_def Let_def split_conv by (simp add: mbind_def tr s1(1) h(1) mreturn_def) blast
    then show ?thesis using s1 s h hart_step_refl [OF ok] by auto
  qed
qed

end

section \<open>Accesses of the port\<close>

lemma bytes_at_append: "bytes_at b a n @ bytes_at b (a + of_nat n) k = bytes_at b a (n + k)"
  by (rule nth_equalityI) (auto simp: nth_append add.assoc [symmetric] of_nat_diff)

lemma put_bytes_append:
  assumes "length xs + length ys < 2 ^ 64"
  shows "put_bytes (put_bytes b a xs) (a + of_nat (length xs)) ys = put_bytes b a (xs @ ys)"
proof (rule ext)
  fix x
  define d where "d = unat (x - a)"
  have x: "x = a + of_nat d" by (simp add: d_def)
  have len: "unat (of_nat (length xs) :: u64) = length xs" using assms by (simp add: unat_word_of_nat_small)
  have d: "d < 2 ^ 64" unfolding d_def using unsigned_less [of "x - a"] by simp
  have sub: "x - (a + of_nat (length xs)) = of_nat d - of_nat (length xs)" by (simp add: x)
  show "put_bytes (put_bytes b a xs) (a + of_nat (length xs)) ys x = put_bytes b a (xs @ ys) x"
  proof (cases "length xs \<le> d")
    case True
    then have "unat (x - (a + of_nat (length xs))) = d - length xs"
      unfolding sub using d by (simp add: of_nat_diff [symmetric] unat_word_of_nat_small del: of_nat_diff)
    then show ?thesis using True by (auto simp: put_bytes_def d_def [symmetric] nth_append)
  next
    case False
    have "\<not> unat (x - (a + of_nat (length xs))) < length ys"
    proof
      define j where "j = unat (x - (a + of_nat (length xs)))"
      assume "unat (x - (a + of_nat (length xs))) < length ys"
      then have j: "j < length ys" by (simp add: j_def)
      have "of_nat j = x - (a + of_nat (length xs))" by (simp add: j_def)
      then have "x - a = of_nat (length xs + j)" by simp
      moreover have "unat (of_nat (length xs + j) :: u64) = length xs + j" using j assms by (intro unat_word_of_nat_small) simp
      ultimately have "d = length xs + j" unfolding d_def by simp
      then show False using False by simp
    qed
    then show ?thesis using False by (auto simp: put_bytes_def d_def [symmetric] nth_append)
  qed
qed

lemma dom_put_bytes: "\<forall>i < length xs. a + of_nat i \<in> dom b \<Longrightarrow> dom (put_bytes b a xs) = dom b"
proof -
  assume h: "\<forall>i < length xs. a + of_nat i \<in> dom b"
  have "x \<in> dom b" if "unat (x - a) < length xs" for x
    using h [rule_format, OF that] by simp
  then show ?thesis by (auto simp: put_bytes_def dom_def)
qed

lemma aligned_in_page: "is_aligned a len \<Longrightarrow> len \<in> {1, 2, 4, 8} \<Longrightarrow> unat a mod 4096 + len \<le> 4096"
proof -
  assume h: "is_aligned a len" "len \<in> {1, 2, 4, 8}"
  then obtain k where k: "len = 2 ^ k" "k \<le> 3" by (auto intro: that [of 0] that [of 1] that [of 2] that [of 3])
  have "(of_nat len :: u64) - 1 = mask k" unfolding k(1) by (simp add: mask_eq_exp_minus_1)
  then have "take_bit k a = 0" using h(1) by (simp add: is_aligned_def take_bit_eq_mask)
  then have "take_bit k (unat a) = 0" by (metis unsigned_0 unsigned_take_bit_eq)
  then have "len dvd unat a" unfolding k(1) by (simp add: take_bit_eq_0_iff)
  moreover have d: "len dvd 4096" using h(2) by auto
  ultimately have "len dvd 4096 - unat a mod 4096"
    by (metis dvd_diff_nat dvd_mod)
  moreover have "0 < 4096 - unat a mod 4096" by simp
  ultimately have "len \<le> 4096 - unat a mod 4096" by (rule dvd_imp_le)
  then show ?thesis by (simp add: less_imp_le)
qed

lemma len_page0_cases:
  assumes "0 < len"
  shows "0 < len_page0 a len" "len_page0 a len \<le> len" "unat a mod 4096 + len_page0 a len \<le> 4096"
    "len \<le> 8 \<Longrightarrow> len_page0 a len \<noteq> len \<Longrightarrow> unat (a + of_nat (len_page0 a len)) mod 4096 + (len - len_page0 a len) \<le> 4096"
proof -
  have lt: "unat a mod 4096 < 4096" by simp
  show "0 < len_page0 a len" "len_page0 a len \<le> len" "unat a mod 4096 + len_page0 a len \<le> 4096"
    using assms lt by (auto simp: len_page0_def min_def)
  assume "len \<le> 8" "len_page0 a len \<noteq> len"
  then have n: "len_page0 a len = 4096 - unat a mod 4096" by (auto simp: len_page0_def min_def split: if_splits)
  have "unat (a + of_nat d) = (unat a + d) mod 2 ^ 64" if "d \<le> 4096" for d
    using that by (simp add: unat_word_ariths unat_word_of_nat_small)
  from this [of "4096 - unat a mod 4096"] have "unat (a + of_nat (len_page0 a len)) = (unat a + (4096 - unat a mod 4096)) mod 2 ^ 64" unfolding n by (simp only: diff_le_self simp_thms)
  moreover have "unat a + (4096 - unat a mod 4096) = 4096 * (unat a div 4096 + 1)"
    using mult_div_mod_eq [of 4096 "unat a"] le_add_diff_inverse [OF less_imp_le [OF lt]] by (simp only: distrib_left mult_1_right)
  then have "(unat a + (4096 - unat a mod 4096)) mod 4096 = 0" by (simp only: mod_mult_self1_is_0)
  ultimately have "unat (a + of_nat (len_page0 a len)) mod 4096 = 0"
    by (simp add: mod_mod_cancel)
  then show "unat (a + of_nat (len_page0 a len)) mod 4096 + (len - len_page0 a len) \<le> 4096" using \<open>len \<le> 8\<close> by simp
qed

text \<open>A step of the port that an access inside a page makes.\<close>

definition port_step :: "u64 set \<Rightarrow> port_t \<Rightarrow> port_t \<Rightarrow> bool" where
  "port_step D p p' \<longleftrightarrow> (\<exists>c m. p' = p\<lparr>csrs := c, mmu := m\<rparr> \<and> hart_step D (csrs p, mmu p) (c, m))"

lemma port_step_keeps:
  assumes "port_step D p p'" "quiet p" "hart_ok D (csrs p, mmu p)"
  shows "quiet p'" "hart_ok D (csrs p', mmu p')" "misaligned p' = misaligned p"
  using assms hart_step_ok [of D "(csrs p, mmu p)"] by (auto simp: port_step_def) (auto simp: hart_step_def)

lemma port_step_refl: "hart_ok D (csrs p, mmu p) \<Longrightarrow> port_step D p p"
  unfolding port_step_def by (rule exI [of _ "csrs p"], rule exI [of _ "mmu p"]) (simp add: hart_step_refl)

lemma port_step_trans: "port_step D p p' \<Longrightarrow> port_step D p' p'' \<Longrightarrow> port_step D p p''"
  unfolding port_step_def by auto (metis hart_step_trans)

lemma port_step_info [simp]: "port_step D p p' \<Longrightarrow> identity_info (csrs p') a type info = identity_info (csrs p) a type info"
  by (auto simp: port_step_def hart_step_def)

text \<open>What an access of the slow path does to a flat memory, whether or not it stores.\<close>

definition flat_access :: "bool \<Rightarrow> bool \<Rightarrow> bool \<Rightarrow> u8 list \<Rightarrow> u64 \<Rightarrow> (flat, unit) effect" where
  "flat_access mis req really bs a = (\<lambda>(b, r).
     if \<not> is_aligned a (length bs) \<and> \<not> mis then flat_trap Store_address_misaligned a (b, r)
     else if \<not> is_aligned a (length bs) \<and> req then flat_trap Store_access_fault a (b, r)
     else (Inr (), (if really then put_bytes b a bs else b, r)))"

lemmas flat_atomic_simps = flat_atomic_def flat_access_def flat_load_def flat_store_def flat_trap_def ptrap_def pfail_def preturn_def pbind_def
  convert_load_traps_to_store_traps_def load_to_store_cause_def

lemma refines_if: "refines R f g \<Longrightarrow> refines R f' g' \<Longrightarrow> refines R (if c then f else f') (if c then g else g')"
  by simp

context simif
begin

abbreviation "resv p \<equiv> load_reservation_address (mmu p)"

lemma port_load_page:
  assumes ok: "hart_ok (dom (byte s)) (csrs p, mmu p)" and i: "identity_info (csrs p) a LOAD info" and s: "sim_inv s" "byte s a \<noteq> None"
    and n: "unat a mod 4096 + n \<le> 4096" "\<not> forced_virt (flags info)" "\<not> hlvx (flags info)"
  shows "\<exists>p' s'. in_page (load_slow_path_intrapage I n info) (p, s) = (Inr (bytes_at (byte s) a n), (p', s')) \<and> sim_inv s' \<and> byte s' = byte s \<and>
    port_step (dom (byte s)) p p' \<and> resv p' = (if lr (flags info) then a else resv p)"
proof -
  from load_intrapage [OF ok i s n] obtain c' m' s' where
    "load_slow_path_intrapage I n info (csrs p, mmu p) s = (Inr (bytes_at (byte s) a n, (c', m')), s')" "sim_inv s'" "byte s' = byte s"
    "hart_step (dom (byte s)) (csrs p, mmu p) (c', m')" "load_reservation_address m' = (if lr (flags info) then a else resv p)" by blast
  then show ?thesis
    by (intro exI [of _ "p\<lparr>csrs := c', mmu := m'\<rparr>"] exI [of _ s']) (auto simp: in_page_def port_step_def)
qed

lemma port_store_page:
  assumes ok: "hart_ok (dom (byte s)) (csrs p, mmu p)" and i: "identity_info (csrs p) a STORE info" and s: "sim_inv s" "byte s a \<noteq> None"
    and n: "unat a mod 4096 + length bs \<le> 4096"
  shows "\<exists>p' s'. in_page (\<lambda>h s. apfst (map_sum id (Pair ())) (store_slow_path_intrapage I bs info really h s)) (p, s) = (Inr (), (p', s')) \<and>
    sim_inv s' \<and> byte s' = (if really then put_bytes (byte s) a bs else byte s) \<and> port_step (dom (byte s)) p p' \<and> resv p' = resv p"
proof -
  from store_intrapage [OF ok i s n, of really] obtain c' m' s' where
    "store_slow_path_intrapage I bs info really (csrs p, mmu p) s = (Inr (c', m'), s')" "sim_inv s'"
    "byte s' = (if really then put_bytes (byte s) a bs else byte s)"
    "hart_step (dom (byte s)) (csrs p, mmu p) (c', m')" "load_reservation_address m' = resv p" by blast
  then show ?thesis
    by (intro exI [of _ "p\<lparr>csrs := c', mmu := m'\<rparr>"] exI [of _ s']) (auto simp: in_page_def port_step_def)
qed

lemma load_slow_path_sim:
  assumes R: "port_sim sim_inv byte D mis (p, s) (b, r)" and len: "in_memory D (len, a)"
    and fl: "\<not> forced_virt fl" "\<not> hlvx fl"
  shows "\<exists>p' s' r'. load_slow_path I a len fl (p, s) =
      (map_sum id (\<lambda>_. bytes_at b a len) (fst (flat_load mis (lr fl) len a (b, r))), (p', s')) \<and>
      snd (flat_load mis (lr fl) len a (b, r)) = (b, r') \<and> port_sim sim_inv byte D mis (p', s') (b, r')"
proof -
  have P: "sim_inv s" "b = byte s" "r = resv p" "dom (byte s) = D" "misaligned p = mis" "quiet p" "hart_ok (dom (byte s)) (csrs p, mmu p)"
    using R by (auto simp: port_sim_def)
  have n: "len \<in> {1, 2, 4, 8}" "\<And>i. i < len \<Longrightarrow> byte s (a + of_nat i) \<noteq> None" "0 < len" "len \<le> 8"
    using len P(4) by (auto simp: in_memory_def)
  define info where "info = generate_access_info (csrs p) a LOAD fl"
  have "bare_hart (csrs p)" using P(7) by (simp add: hart_ok_def)
  note i = identity_generate(1) [OF this fl(1), of a LOAD, folded info_def] identity_generate(2) [of "csrs p" a LOAD fl, folded info_def]
  have virt: "\<not> effective_virt info" using i(1) by (simp add: identity_info_def)
  have fli: "\<not> forced_virt (flags info)" "\<not> hlvx (flags info)" using fl i(2) by simp_all
  have a: "byte s a \<noteq> None" using n(2) [of 0] n(3) by simp
  let ?k = "len_page0 a len"
  have again: "port_sim sim_inv byte D mis (p', s') (b, resv p')"
    if "port_step (dom (byte s)) p p'" "sim_inv s'" "byte s' = byte s" for p' s'
    using port_step_keeps [OF that(1) P(6,7)] that P by (auto simp: port_sim_def)
  have unfold: "load_slow_path I a len fl (p, s) = pbind
          (if is_aligned a len then in_page (load_slow_path_intrapage I len info)
           else if \<not> mis then ptrap Load_address_misaligned False a 0 0
           else if lr fl then ptrap Load_access_fault False a 0 0
           else pbind (in_page (load_slow_path_intrapage I ?k info)) (\<lambda>b0.
                if ?k \<noteq> len
                then pbind (in_page (load_slow_path_intrapage I (len - ?k) (split_misaligned_access info (of_nat ?k)))) (\<lambda>b1. preturn (b0 @ b1))
                else preturn b0)) (\<lambda>bytes. pbind (check_data OPERATION_LOAD a False len bytes) (\<lambda>_. preturn bytes)) (p, s)"
    unfolding load_slow_path_def split_conv info_def [symmetric] Let_def pbind_def [of "check_triggers OPERATION_LOAD a (effective_virt info) a None"]
    using virt P(5) i(2) by (simp add: quiet_check [OF P(6)])
  have fin: "\<exists>p' s' r'. load_slow_path I a len fl (p, s) = (Inr (bytes_at b a len), (p', s')) \<and> (b, resv p1) = (b, r') \<and> port_sim sim_inv byte D mis (p', s') (b, r')"
    if "B (p, s) = (Inr (bytes_at b a len), (p1, s1))" "port_step (dom (byte s)) p p1" "sim_inv s1" "byte s1 = byte s"
      "load_slow_path I a len fl (p, s) = pbind B (\<lambda>bytes. pbind (check_data OPERATION_LOAD a False len bytes) (\<lambda>_. preturn bytes)) (p, s)" for B p1 s1
    using again [OF that(2-4)] that(1,5)
    by (simp add: pbind_def quiet_data [OF port_step_keeps(1) [OF that(2) P(6,7)] n(1)] preturn_def)
  show ?thesis
  proof (cases "is_aligned a len")
    case True
    note page = aligned_in_page [OF True n(1)]
    obtain p' s' where 1: "in_page (load_slow_path_intrapage I len info) (p, s) = (Inr (bytes_at (byte s) a len), (p', s'))" "sim_inv s'" "byte s' = byte s"
      "port_step (dom (byte s)) p p'" "resv p' = (if lr fl then a else resv p)"
      using port_load_page [OF P(7) i(1) P(1) a page fli] i(2) by auto
    have u: "load_slow_path I a len fl (p, s) = pbind (in_page (load_slow_path_intrapage I len info))
        (\<lambda>bytes. pbind (check_data OPERATION_LOAD a False len bytes) (\<lambda>_. preturn bytes)) (p, s)"
      unfolding unfold using True by simp
    show ?thesis using fin [OF _ 1(4,2,3) u] 1(1,5) True P(2,3) by (simp add: flat_load_def)
  next
    case False
    show ?thesis
    proof (cases "mis \<and> \<not> lr fl")
      case True
      let ?i = "split_misaligned_access info (of_nat ?k)"
      define B where "B = pbind (in_page (load_slow_path_intrapage I ?k info)) (\<lambda>b0.
          if ?k \<noteq> len then pbind (in_page (load_slow_path_intrapage I (len - ?k) ?i)) (\<lambda>b1. preturn (b0 @ b1)) else preturn b0)"
      note L = len_page0_cases [OF n(3), of a]
      obtain p1 s1 where 1: "in_page (load_slow_path_intrapage I ?k info) (p, s) = (Inr (bytes_at (byte s) a ?k), (p1, s1))" "sim_inv s1" "byte s1 = byte s"
        "port_step (dom (byte s)) p p1" "resv p1 = resv p"
        using port_load_page [OF P(7) i(1) P(1) a L(3) fli] i(2) True by auto
      note K = port_step_keeps [OF 1(4) P(6,7)]
      have "\<exists>p2 s2. B (p, s) = (Inr (bytes_at b a len), (p2, s2)) \<and> port_step (dom (byte s)) p p2 \<and> sim_inv s2 \<and> byte s2 = byte s \<and> resv p2 = resv p"
      proof (cases "?k = len")
        case k: True
        then have "B (p, s) = (Inr (bytes_at b a len), (p1, s1))"
          using 1(1) P(2) by (simp add: B_def pbind_def preturn_def)
        then show ?thesis using 1 by blast
      next
        case k: False
        have i2: "identity_info (csrs p1) (a + of_nat ?k) LOAD ?i" using identity_split(1) [OF i(1)] 1(4) by simp
        have k2: "?k < len" using k L(2) by simp
        obtain p2 s2 where 2: "in_page (load_slow_path_intrapage I (len - ?k) ?i) (p1, s1) =
            (Inr (bytes_at (byte s) (a + of_nat ?k) (len - ?k)), (p2, s2))" "sim_inv s2" "byte s2 = byte s"
          "port_step (dom (byte s)) p1 p2" "resv p2 = resv p"
          using port_load_page [of s1 p1, OF _ i2 1(2) _ L(4) [OF n(4) k]] K(2) 1(3,5) n(2) [OF k2] fli i(2) True
          by (auto simp: identity_split(2))
        have "bytes_at (byte s) a ?k @ bytes_at (byte s) (a + of_nat ?k) (len - ?k) = bytes_at (byte s) a len"
          using bytes_at_append [of "byte s" a ?k "len - ?k"] L(2) by simp
        then have "B (p, s) = (Inr (bytes_at b a len), (p2, s2))"
          using 1(1) 2(1) k P(2) by (simp add: B_def pbind_def preturn_def)
        then show ?thesis using 2 port_step_trans [OF 1(4) 2(4)] by blast
      qed
      then obtain p2 s2 where 2: "B (p, s) = (Inr (bytes_at b a len), (p2, s2))" "port_step (dom (byte s)) p p2" "sim_inv s2" "byte s2 = byte s" "resv p2 = resv p"
        by blast
      have u: "load_slow_path I a len fl (p, s) = pbind B (\<lambda>bytes. pbind (check_data OPERATION_LOAD a False len bytes) (\<lambda>_. preturn bytes)) (p, s)"
        unfolding unfold B_def using False True by simp
      show ?thesis using fin [OF 2(1-4) u] 2(5) False True P(3) by (simp add: flat_load_def)
    next
      case err: False
      then show ?thesis unfolding unfold using False R
        by (auto simp: pbind_def flat_load_def ptrap_def flat_trap_def pfail_def)
    qed
  qed
qed

lemma port_sim_update:
  assumes "port_sim sim_inv byte D mis (p, s) (b, r)" "port_step D p p'" "sim_inv s'" "dom (byte s') = D"
  shows "port_sim sim_inv byte D mis (p', s') (byte s', resv p')"
  using assms port_step_keeps [OF assms(2)] by (auto simp: port_sim_def)

lemma store_slow_path_sim:
  assumes len: "in_memory D (length bs, a)" and fl: "\<not> forced_virt fl"
  shows "refines (port_sim sim_inv byte D mis) (store_slow_path I a bs fl really req) (flat_access mis req really bs a)"
  unfolding refines_def
proof (intro allI impI, clarify)
  fix p s b r assume R: "port_sim sim_inv byte D mis (p, s) (b, r)"
  have P: "sim_inv s" "b = byte s" "r = resv p" "dom (byte s) = D" "misaligned p = mis" "quiet p" "hart_ok (dom (byte s)) (csrs p, mmu p)"
    using R by (auto simp: port_sim_def)
  have n: "length bs \<in> {1, 2, 4, 8}" "\<And>i. i < length bs \<Longrightarrow> byte s (a + of_nat i) \<noteq> None" "0 < length bs" "length bs \<le> 8"
    using len P(4) by (auto simp: in_memory_def)
  define info where "info = generate_access_info (csrs p) a STORE fl"
  have "bare_hart (csrs p)" using P(7) by (simp add: hart_ok_def)
  note i = identity_generate(1) [OF this fl, of a STORE, folded info_def]
  have virt: "\<not> effective_virt info" using i by (simp add: identity_info_def)
  have a: "byte s a \<noteq> None" using n(2) [of 0] n(3) by simp
  let ?k = "len_page0 a (length bs)"
  let ?put = "\<lambda>bs i. in_page (\<lambda>h s. apfst (map_sum id (Pair ())) (store_slow_path_intrapage I bs i really h s))"
  let ?i = "split_misaligned_access info (of_nat ?k)"
  define B where "B = (if \<not> is_aligned a (length bs) then
       if \<not> mis then ptrap Store_address_misaligned False a 0 0
       else if req then ptrap Store_access_fault False a 0 0
       else pbind (?put (take ?k bs) info) (\<lambda>_. if ?k \<noteq> length bs then ?put (drop ?k bs) ?i else preturn ())
     else ?put bs info)"
  have unfold: "store_slow_path I a bs fl really req (p, s) = B (p, s)"
    unfolding store_slow_path_def split_conv info_def [symmetric] Let_def B_def pbind_def [of "if really then _ else _"]
    using virt P(5) by (simp add: quiet_data [OF P(6) n(1)] preturn_def)
  have fin: "fst (store_slow_path I a bs fl really req (p, s)) = fst (flat_access mis req really bs a (b, r)) \<and>
      port_sim sim_inv byte D mis (snd (store_slow_path I a bs fl really req (p, s))) (snd (flat_access mis req really bs a (b, r)))"
    if "B (p, s) = (Inr (), (p1, s1))" "port_step (dom (byte s)) p p1" "sim_inv s1" "byte s1 = (if really then put_bytes (byte s) a bs else byte s)" "resv p1 = resv p"
      "is_aligned a (length bs) \<or> mis \<and> \<not> req" for p1 s1
  proof -
    have "dom (byte s1) = D" using that(4) P(4) dom_put_bytes [of bs a "byte s"] n(2) by auto
    from port_sim_update [OF R that(2) [unfolded P(4)] that(3) this] that P show ?thesis by (auto simp: flat_access_def unfold)
  qed
  show "fst (store_slow_path I a bs fl really req (p, s)) = fst (flat_access mis req really bs a (b, r)) \<and>
      port_sim sim_inv byte D mis (snd (store_slow_path I a bs fl really req (p, s))) (snd (flat_access mis req really bs a (b, r)))"
  proof (cases "is_aligned a (length bs)")
    case True
    obtain p1 s1 where "?put bs info (p, s) = (Inr (), (p1, s1))" "sim_inv s1" "byte s1 = (if really then put_bytes (byte s) a bs else byte s)"
      "port_step (dom (byte s)) p p1" "resv p1 = resv p"
      using port_store_page [OF P(7) i P(1) a aligned_in_page [OF True n(1)], of really] by blast
    then show ?thesis using True by (intro fin [of p1 s1]) (simp_all add: B_def)
  next
    case False
    show ?thesis
    proof (cases "mis \<and> \<not> req")
      case True
      note L = len_page0_cases [OF n(3), of a]
      have tk: "length (take ?k bs) = ?k" using L(2) by simp
      obtain p1 s1 where 1: "?put (take ?k bs) info (p, s) = (Inr (), (p1, s1))" "sim_inv s1"
        "byte s1 = (if really then put_bytes (byte s) a (take ?k bs) else byte s)" "port_step (dom (byte s)) p p1" "resv p1 = resv p"
        using port_store_page [OF P(7) i P(1) a, of "take ?k bs" really] L(3) tk by auto
      show ?thesis
      proof (cases "?k = length bs")
        case k: True
        then show ?thesis using 1 False True by (intro fin [of p1 s1]) (simp_all add: B_def pbind_def preturn_def)
      next
        case k: False
        have k2: "?k < length bs" using k L(2) by simp
        have dom: "dom (byte s1) = dom (byte s)" using 1(3) dom_put_bytes [of "take ?k bs" a "byte s"] n(2) by auto
        have ok: "hart_ok (dom (byte s1)) (csrs p1, mmu p1)" using port_step_keeps(2) [OF 1(4) P(6,7)] dom by simp
        have i2: "identity_info (csrs p1) (a + of_nat ?k) STORE ?i" using identity_split(1) [OF i] 1(4) by simp
        have mem: "byte s1 (a + of_nat ?k) \<noteq> None" using n(2) [OF k2] dom by (auto simp: domIff)
        obtain p2 s2 where 2: "?put (drop ?k bs) ?i (p1, s1) = (Inr (), (p2, s2))" "sim_inv s2"
          "byte s2 = (if really then put_bytes (byte s1) (a + of_nat ?k) (drop ?k bs) else byte s1)" "port_step (dom (byte s)) p1 p2" "resv p2 = resv p"
          using port_store_page [OF ok i2 1(2) mem, of "drop ?k bs" really] L(4) [OF n(4) k] 1(5) dom by auto
        have "put_bytes (put_bytes (byte s) a (take ?k bs)) (a + of_nat ?k) (drop ?k bs) = put_bytes (byte s) a bs"
          using put_bytes_append [of "take ?k bs" "drop ?k bs" "byte s" a] tk n(4) by simp
        then have "byte s2 = (if really then put_bytes (byte s) a bs else byte s)" using 1(3) 2(3) by simp
        moreover have "B (p, s) = (Inr (), (p2, s2))" using 1(1) 2(1) k False True by (simp add: B_def pbind_def)
        ultimately show ?thesis using 2 port_step_trans [OF 1(4) 2(4)] True by (intro fin [of p2 s2]) simp_all
      qed
    next
      case err: False
      then show ?thesis unfolding unfold B_def using False R by (auto simp: flat_access_def ptrap_def flat_trap_def pfail_def)
    qed
  qed
qed

text \<open>Loads and stores with the fast path in front.\<close>

lemma load_sim:
  assumes len: "in_memory D (len, a)" and fl: "\<not> forced_virt fl" "\<not> hlvx fl"
  shows "refines (port_sim sim_inv byte D mis) (load I len a fl) (flat_load mis (lr fl) len a)"
  unfolding refines_def
proof (intro allI impI, clarify)
  fix p s b r assume R: "port_sim sim_inv byte D mis (p, s) (b, r)"
  have P: "sim_inv s" "b = byte s" "r = resv p" "dom (byte s) = D" "misaligned p = mis" "quiet p" "hart_ok (dom (byte s)) (csrs p, mmu p)"
    using R by (auto simp: port_sim_def)
  have n: "len \<in> {1, 2, 4, 8}" using len by (simp add: in_memory_def)
  have log: "port_sim sim_inv byte D mis (p'\<lparr>log_mem_read := l\<rparr>, s') x = port_sim sim_inv byte D mis (p', s') x" for p' l s' x
    by (simp add: port_sim_def)
  let ?fast = "\<not> is_special_access fl \<and> is_aligned a len \<and> tlb_load_tag (hart_tlb (csrs p)) ! tlb_index a = drop_bit 12 a"
  show "fst (load I len a fl (p, s)) = fst (flat_load mis (lr fl) len a (b, r)) \<and>
      port_sim sim_inv byte D mis (snd (load I len a fl (p, s))) (snd (flat_load mis (lr fl) len a (b, r)))"
  proof (cases ?fast)
    case True
    then have hit: "tlb_hit (tlb_load_tag (hart_tlb (csrs p))) a" by (simp add: tlb_hit_tag)
    note H = hit_identity [OF P(7) disjI1 [OF hit]]
    obtain s1 where s1: "host_load I a len s = (Host (bytes_at (byte s) a len), s1)" "sim_inv s1" "byte s1 = byte s"
      using load_mem [OF P(1) H(2)] aligned_in_page [OF _ n] True by blast
    then have "port_sim sim_inv byte D mis (p, s1) (b, r)" using R by (simp add: port_sim_def)
    moreover have "\<not> lr fl" using True by (simp add: is_special_access_def)
    ultimately show ?thesis using True s1 H(1) P(2)
      by (simp add: load_def pbind_def flat_load_def mem_word_def Let_def log)
  next
    case False
    obtain p' s' r' where slow: "load_slow_path I a len fl (p, s) =
        (map_sum id (\<lambda>_. bytes_at b a len) (fst (flat_load mis (lr fl) len a (b, r))), (p', s'))"
      "snd (flat_load mis (lr fl) len a (b, r)) = (b, r')" "port_sim sim_inv byte D mis (p', s') (b, r')"
      using load_slow_path_sim [OF R len fl] by blast
    have "load I len a fl (p, s) = pbind (load_slow_path I a len fl) (\<lambda>bytes (p, s).
        (Inr (le_word bytes), ((if log_commits p then p\<lparr>log_mem_read := log_mem_read p @ [(a, 0, len)]\<rparr> else p), s))) (p, s)"
      unfolding load_def pbind_def Let_def split_conv by (simp only: if_not_P [OF False])
    moreover have "v = mem_word b a len" if "fst (flat_load mis (lr fl) len a (b, r)) = Inr v" for v
      using that by (auto simp: flat_load_def flat_trap_def ptrap_def pfail_def split: if_splits)
    ultimately show ?thesis using slow
      by (cases "fst (flat_load mis (lr fl) len a (b, r))") (auto simp: pbind_def mem_word_def log)
  qed
qed

lemma store_sim:
  assumes len: "in_memory D (len, a)"
  shows "refines (port_sim sim_inv byte D mis) (store I len a v plain_access) (flat_store mis len a v)"
  unfolding refines_def
proof (intro allI impI, clarify)
  fix p s b r assume R: "port_sim sim_inv byte D mis (p, s) (b, r)"
  have P: "sim_inv s" "b = byte s" "r = resv p" "dom (byte s) = D" "misaligned p = mis" "quiet p" "hart_ok (dom (byte s)) (csrs p, mmu p)"
    using R by (auto simp: port_sim_def)
  have n: "len \<in> {1, 2, 4, 8}" using len by (simp add: in_memory_def)
  have log: "port_sim sim_inv byte D mis (p'\<lparr>log_mem_write := l\<rparr>, s') x = port_sim sim_inv byte D mis (p', s') x" for p' l s' x
    by (simp add: port_sim_def)
  have flat: "flat_store mis len a v (b, r) = flat_access mis False True (le_bytes len v) a (b, r)"
    by (auto simp: flat_store_def flat_access_def)
  let ?fast = "\<not> is_special_access plain_access \<and> is_aligned a len \<and> tlb_store_tag (hart_tlb (csrs p)) ! tlb_index a = drop_bit 12 a"
  show "fst (store I len a v plain_access (p, s)) = fst (flat_store mis len a v (b, r)) \<and>
      port_sim sim_inv byte D mis (snd (store I len a v plain_access (p, s))) (snd (flat_store mis len a v (b, r)))"
  proof (cases ?fast)
    case True
    then have hit: "tlb_hit (tlb_store_tag (hart_tlb (csrs p))) a" by (simp add: tlb_hit_tag)
    note H = hit_identity [OF P(7) disjI2 [OF hit]]
    obtain s1 where s1: "host_store I a (le_bytes len v) s = (Host (), s1)" "sim_inv s1" "byte s1 = put_bytes (byte s) a (le_bytes len v)"
      using store_mem [OF P(1) H(2), of "le_bytes len v"] aligned_in_page [OF _ n] True unfolding put_bytes_def by auto
    moreover have "dom (put_bytes (byte s) a (le_bytes len v)) = dom (byte s)"
      using len P(4) by (intro dom_put_bytes) (auto simp: in_memory_def)
    ultimately have "port_sim sim_inv byte D mis (p, s1) (put_bytes b a (le_bytes len v), r)" using R P(2) by (simp add: port_sim_def)
    then show ?thesis using True s1 H(1)
      by (simp add: store_def pbind_def flat_store_def Let_def is_special_access_def log)
  next
    case False
    have slow: "fst (store_slow_path I a (le_bytes len v) plain_access True False (p, s)) = fst (flat_store mis len a v (b, r))"
      "port_sim sim_inv byte D mis (snd (store_slow_path I a (le_bytes len v) plain_access True False (p, s))) (snd (flat_store mis len a v (b, r)))"
      using store_slow_path_sim [of D "le_bytes len v" a plain_access mis True False] len R unfolding flat refines_def by auto
    have "store I len a v plain_access (p, s) = pbind (store_slow_path I a (le_bytes len v) plain_access True False)
        (\<lambda>_ (p, s). (Inr (), ((if log_commits p then p\<lparr>log_mem_write := log_mem_write p @ [(a, v, len)]\<rparr> else p), s))) (p, s)"
      unfolding store_def pbind_def Let_def split_conv by (simp only: if_not_P [OF False])
    then show ?thesis using slow
      by (cases "store_slow_path I a (le_bytes len v) plain_access True False (p, s)"; cases "fst (flat_store mis len a v (b, r))")
        (auto simp: pbind_def log)
  qed
qed

text \<open>Atomic operations.\<close>

lemma amo_sim:
  assumes "in_memory D (len, a)"
  shows "refines (port_sim sim_inv byte D mis) (amo I len a f) (flat_op mis (Op_amo len a f))"
proof -
  have "refines (port_sim sim_inv byte D mis) (amo I len a f) (convert_load_traps_to_store_traps
     (pbind (flat_access mis True False (replicate len 0) a) (\<lambda>_. pbind (flat_load mis False len a) (\<lambda>lhs.
      pbind (flat_store mis len a (f lhs)) (\<lambda>_. preturn lhs)))))"
    unfolding amo_def
    using assms store_slow_path_sim [of D "replicate len 0" a plain_access mis False True] load_sim [OF assms, of plain_access mis]
    by (intro refines_convert refines_bind refinement store_sim) simp_all
  also have "convert_load_traps_to_store_traps
     (pbind (flat_access mis True False (replicate len 0) a) (\<lambda>_. pbind (flat_load mis False len a) (\<lambda>lhs.
      pbind (flat_store mis len a (f lhs)) (\<lambda>_. preturn lhs)))) = flat_op mis (Op_amo len a f)"
    by (auto simp: fun_eq_iff flat_atomic_simps)
  finally show ?thesis .
qed

lemma compare_and_swap_sim:
  assumes "in_memory D (len, a)"
  shows "refines (port_sim sim_inv byte D mis) (amo_compare_and_swap I len a x v) (flat_op mis (Op_compare_and_swap len a x v))"
proof -
  have "refines (port_sim sim_inv byte D mis) (amo_compare_and_swap I len a x v) (convert_load_traps_to_store_traps
     (pbind (flat_access mis True False (replicate len 0) a) (\<lambda>_. pbind (flat_load mis False len a) (\<lambda>lhs.
      pbind (if lhs = x then flat_store mis len a v else preturn ()) (\<lambda>_. preturn lhs)))))"
    unfolding amo_compare_and_swap_def
    using assms store_slow_path_sim [of D "replicate len 0" a plain_access mis False True] load_sim [OF assms, of plain_access mis]
    by (intro refines_convert refines_bind refines_if refinement store_sim) simp_all
  also have "convert_load_traps_to_store_traps
     (pbind (flat_access mis True False (replicate len 0) a) (\<lambda>_. pbind (flat_load mis False len a) (\<lambda>lhs.
      pbind (if lhs = x then flat_store mis len a v else preturn ()) (\<lambda>_. preturn lhs)))) = flat_op mis (Op_compare_and_swap len a x v)"
    by (auto simp: fun_eq_iff flat_atomic_simps)
  finally show ?thesis .
qed

lemma reservation_sim:
  assumes "in_memory D (len, a)"
  shows "refines (port_sim sim_inv byte D mis) (check_load_reservation I a len) (flat_atomic mis len a (\<lambda>(b, r). (Inr (r = a), (b, r))))"
proof (cases "is_aligned a len")
  case True
  show ?thesis unfolding refines_def
  proof (intro allI impI, clarify)
    fix p s b r assume R: "port_sim sim_inv byte D mis (p, s) (b, r)"
    have P: "sim_inv s" "b = byte s" "r = resv p" "dom (byte s) = D" "bare_hart (csrs p)" using R by (auto simp: port_sim_def hart_ok_def)
    have "byte s a \<noteq> None" using assms P(4) by (force simp: in_memory_def dest: spec [of _ 0])
    then obtain s1 where s1: "reservable I a s = (True, s1)" "sim_inv s1" "byte s1 = byte s"
      using load_mem [OF P(1), of a 0] by (fastforce simp: reservable_def)
    then have "port_sim sim_inv byte D mis (p, s1) (b, r)" using R by (simp add: port_sim_def)
    then show "fst (check_load_reservation I a len (p, s)) = fst (flat_atomic mis len a (\<lambda>(b, r). (Inr (r = a), (b, r))) (b, r)) \<and>
        port_sim sim_inv byte D mis (snd (check_load_reservation I a len (p, s))) (snd (flat_atomic mis len a (\<lambda>(b, r). (Inr (r = a), (b, r))) (b, r)))"
      using True s1(1) P(3) translate_identity [OF P(5) identity_generate(1) [OF P(5)]]
      by (simp add: check_load_reservation_def pbind_def preturn_def with_csrs_def flat_atomic_def)
  qed
next
  case False
  have "refines (port_sim sim_inv byte D mis) (pbind (store_slow_path I a (replicate len 0) plain_access False True) k)
      (pbind (flat_access mis True False (replicate len 0) a) (\<lambda>_. preturn False))" for k :: "unit \<Rightarrow> ('s, bool) port_m"
    using store_slow_path_sim [of D "replicate len 0" a plain_access mis False True] assms False
    unfolding refines_def pbind_def flat_access_def flat_trap_def ptrap_def pfail_def by (fastforce split: prod.splits sum.splits)
  moreover have "pbind (flat_access mis True False (replicate len 0) a) (\<lambda>_. preturn False) = flat_atomic mis len a (\<lambda>(b, r). (Inr (r = a), (b, r)))"
    using False by (auto simp: fun_eq_iff flat_atomic_simps)
  ultimately show ?thesis using False by (simp add: check_load_reservation_def)
qed

lemma store_conditional_sim:
  assumes "in_memory D (len, a)"
  shows "refines (port_sim sim_inv byte D mis) (pbind (store_conditional I len a v) (\<lambda>ok. preturn (of_bool ok))) (flat_op mis (Op_store_conditional len a v))"
proof -
  have yield: "refines (port_sim sim_inv byte D mis) yield_load_reservation (\<lambda>(b, r). (Inr (), (b, - 1)))"
    by (auto simp: refines_def yield_load_reservation_def port_sim_def hart_ok_def)
  have "refines (port_sim sim_inv byte D mis) (pbind (store_conditional I len a v) (\<lambda>ok. preturn (of_bool ok)))
     (pbind (pbind (flat_atomic mis len a (\<lambda>(b, r). (Inr (r = a), (b, r)))) (\<lambda>h.
        pbind (if h then flat_store mis len a v else preturn ()) (\<lambda>_. pbind (\<lambda>(b, r). (Inr (), (b, - 1))) (\<lambda>_. preturn h)))) (\<lambda>ok. preturn (of_bool ok)))"
    unfolding store_conditional_def
    by (intro refines_bind refines_if refinement store_sim reservation_sim yield assms)
  also have "pbind (pbind (flat_atomic mis len a (\<lambda>(b, r). (Inr (r = a), (b, r)))) (\<lambda>h.
        pbind (if h then flat_store mis len a v else preturn ()) (\<lambda>_. pbind (\<lambda>(b, r). (Inr (), (b, - 1))) (\<lambda>_. preturn h)))) (\<lambda>ok. preturn (of_bool ok)) =
      flat_op mis (Op_store_conditional len a v)"
    by (auto simp: fun_eq_iff flat_atomic_simps)
  finally show ?thesis .
qed

lemma op_sim: "in_memory D (op_range op) \<Longrightarrow> refines (port_sim sim_inv byte D mis) (port_op I op) (flat_op mis op)"
  using load_sim [where fl = plain_access] load_sim [where fl = "\<lparr>forced_virt = False, hlvx = False, lr = True\<rparr>"]
  by (cases op) (auto simp: load_reserved_def amo_sim compare_and_swap_sim store_conditional_sim store_sim simp del: flat_op.simps(4-6)
      intro!: refines_bind refinement)

lemma port_refines_flat:
  assumes "port_sim sim_inv byte D mis (p, s) (b, r)" "\<forall>op \<in> set ops. in_memory D (op_range op)"
  shows "\<exists>p' s'. run_ops (port_op I) ops (p, s) = (fst (run_ops (flat_op mis) ops (b, r)), (p', s')) \<and>
    port_sim sim_inv byte D mis (p', s') (snd (run_ops (flat_op mis) ops (b, r)))"
proof -
  have "refines (port_sim sim_inv byte D mis) (run_ops (port_op I) ops) (run_ops (flat_op mis) ops)"
    by (intro refines_run op_sim) (use assms(2) in blast)
  with assms(1) show ?thesis unfolding refines_def by (metis prod.collapse)
qed

end

end
