(* ===== verification/Mmu_Watch.thy ===== *)
theory Mmu_Watch
  imports Mmu_Memory
begin

text \<open>
  Triggers and the translation cache. The port looks at the triggers only on its slow path, so a load or store that hits the
  translation cache is not checked. The tags of pages that were cached while a trigger was set differ from the page
  number, which keeps these accesses off the fast path, whatever the port has done since the triggers were written.
\<close>

section \<open>The invariant\<close>

definition no_fast_hit :: "u64 list \<Rightarrow> bool" where
  "no_fast_hit tg \<longleftrightarrow> (\<forall>v. tg ! tlb_index v \<noteq> drop_bit 12 v)"

definition tlb_watched :: "mmu_t \<Rightarrow> tlb_t \<Rightarrow> bool" where
  "tlb_watched m t \<longleftrightarrow> tlb_wf t \<and> (check_triggers_load m \<longrightarrow> no_fast_hit (tlb_load_tag t)) \<and> (check_triggers_store m \<longrightarrow> no_fast_hit (tlb_store_tag t))"

definition watched :: "port_t \<Rightarrow> bool" where
  "watched p \<longleftrightarrow> tlb_watched (mmu p) (hart_tlb (csrs p)) \<and>
     check_triggers_load (mmu p) = list_ex get_load (TM p) \<and> check_triggers_store (mmu p) = list_ex get_store (TM p)"

text \<open>An operation keeps the invariant whether it returns or throws.\<close>

definition keeps_watch :: "('s, 'a) port_m \<Rightarrow> bool" where
  "keeps_watch f \<longleftrightarrow> (\<forall>p s. watched p \<longrightarrow> watched (fst (snd (f (p, s)))))"

named_theorems watch

lemma keeps_return [watch]: "keeps_watch (preturn x)" "keeps_watch (pfail e)" "keeps_watch (ptrap c g t t2 ti)"
  by (simp_all add: keeps_watch_def preturn_def pfail_def ptrap_def)

lemma keeps_bind [watch]: "keeps_watch f \<Longrightarrow> (\<And>x. keeps_watch (k x)) \<Longrightarrow> keeps_watch (pbind f k)"
  unfolding keeps_watch_def
proof (intro allI impI)
  fix p s assume h: "\<forall>p s. watched p \<longrightarrow> watched (fst (snd (f (p, s))))" "\<And>x. \<forall>p s. watched p \<longrightarrow> watched (fst (snd (k x (p, s))))" "watched p"
  obtain r p' s' where "f (p, s) = (r, (p', s'))" by (metis prod.exhaust)
  moreover from this h(1) [rule_format, of p s] h(3) have "watched p'" by simp
  ultimately show "watched (fst (snd (pbind f k (p, s))))" using h(2) by (cases r) (simp_all add: pbind_def)
qed

lemma keeps_if [watch]: "keeps_watch f \<Longrightarrow> keeps_watch g \<Longrightarrow> keeps_watch (if b then f else g)"
  by simp

lemma keeps_convert [watch]: "keeps_watch f \<Longrightarrow> keeps_watch (convert_load_traps_to_store_traps f)"
proof -
  have "snd (convert_load_traps_to_store_traps f x) = snd (f x)" for x
    by (simp add: convert_load_traps_to_store_traps_def split: prod.split sum.split port_error.split mmu_error.split)
  then show "keeps_watch f \<Longrightarrow> keeps_watch (convert_load_traps_to_store_traps f)" by (simp add: keeps_watch_def)
qed

lemma keeps_state: "(\<And>p s. keeps_watch (f p s)) \<Longrightarrow> keeps_watch (\<lambda>(p, s). f p s (p, s))"
  by (simp add: keeps_watch_def)

section \<open>Triggers\<close>

text \<open>Matching sets hit bits only.\<close>

lemma mcontrol_detect_cases:
  assumes "mcontrol_detect h operation a d t c = Some (r, c')"
  shows "c' = c \<or> c' = c\<lparr>mc_hit := True\<rparr>" "r \<noteq> None \<Longrightarrow> operation = OPERATION_STORE \<Longrightarrow> mc_store c"
    "r \<noteq> None \<Longrightarrow> operation = OPERATION_LOAD \<Longrightarrow> mc_load c"
  using assms unfolding mcontrol_detect_def Let_def by (auto split: if_splits option.splits bind_splits)

lemma detect_one:
  assumes "trigger_detect_memory h operation a d t = Some (r, t')"
  shows "get_load t' = get_load t" "get_store t' = get_store t" "get_chain t' = get_chain t"
    "r \<noteq> None \<Longrightarrow> operation = OPERATION_STORE \<Longrightarrow> get_store t" "r \<noteq> None \<Longrightarrow> operation = OPERATION_LOAD \<Longrightarrow> get_load t"
proof -
  have "get_load t' = get_load t \<and> get_store t' = get_store t \<and> get_chain t' = get_chain t \<and>
    (r \<noteq> None \<longrightarrow> (operation = OPERATION_STORE \<longrightarrow> get_store t) \<and> (operation = OPERATION_LOAD \<longrightarrow> get_load t))"
  proof (cases "kind t")
    case (Mcontrol c)
    then obtain c' where "mcontrol_detect h operation a d t c = Some (r, c')" "t' = t\<lparr>kind := Mcontrol c'\<rparr>"
      using assms by (auto simp: trigger_detect_memory_def)
    from mcontrol_detect_cases [OF this(1)] this(2) Mcontrol show ?thesis by (auto simp: get_load_def get_store_def get_chain_def)
  next
    case (Mcontrol6 c)
    then obtain c' where "mcontrol_detect h operation a d t c = Some (r, c')" "t' = t\<lparr>kind := Mcontrol6 c'\<rparr>"
      using assms by (auto simp: trigger_detect_memory_def)
    from mcontrol_detect_cases [OF this(1)] this(2) Mcontrol6 show ?thesis by (auto simp: get_load_def get_store_def get_chain_def)
  qed (use assms in \<open>auto simp: trigger_detect_memory_def\<close>)
  then show "get_load t' = get_load t" "get_store t' = get_store t" "get_chain t' = get_chain t"
    "r \<noteq> None \<Longrightarrow> operation = OPERATION_STORE \<Longrightarrow> get_store t" "r \<noteq> None \<Longrightarrow> operation = OPERATION_LOAD \<Longrightarrow> get_load t" by blast+
qed

lemma better_match_some: "better_match ret r \<noteq> None \<Longrightarrow> ret \<noteq> None \<or> r \<noteq> None"
  by (auto simp: better_match_def split: option.splits)

lemma detect_loop_flags:
  assumes "detect_memory_loop h operation a d ts ok ret = Some (r, ts')"
  shows "map get_load ts' = map get_load ts \<and> map get_store ts' = map get_store ts \<and>
    (r \<noteq> None \<longrightarrow> ret \<noteq> None \<or> (operation = OPERATION_STORE \<longrightarrow> list_ex get_store ts) \<and> (operation = OPERATION_LOAD \<longrightarrow> list_ex get_load ts))"
  using assms
proof (induction ts arbitrary: ok ret r ts')
  case (Cons t ts)
  show ?case
  proof (cases ok)
    case False
    then show ?thesis using Cons by (auto split: option.splits)
  next
    case True
    then obtain q t' where q: "trigger_detect_memory h operation a d t = Some (q, t')" using Cons.prems by (auto split: bind_splits)
    define ret' where "ret' = (if \<not> get_chain t' then better_match ret q else ret)"
    obtain us where us: "detect_memory_loop h operation a d ts (q \<noteq> None \<or> \<not> get_chain t') ret' = Some (r, us)" "ts' = t' # us"
      using Cons.prems True q by (auto simp: ret'_def Let_def split: if_splits)
    have "ret' \<noteq> None \<Longrightarrow> ret \<noteq> None \<or> q \<noteq> None" using better_match_some [of ret q] by (simp add: ret'_def del: not_None_eq split: if_splits)
    with Cons.IH [OF us(1)] us(2) detect_one [OF q] show ?thesis by auto
  qed
qed simp

lemma list_ex_map: "map f xs = map f ys \<Longrightarrow> list_ex f xs = list_ex f ys"
proof -
  have "list_ex f xs \<longleftrightarrow> True \<in> set (map f xs)" for xs by (induction xs) auto
  then show "map f xs = map f ys \<Longrightarrow> list_ex f xs = list_ex f ys" by metis
qed

lemma detect_flags:
  assumes "detect_memory_access_match h operation a d ts = Some (r, ts')"
  shows "list_ex get_load ts' = list_ex get_load ts" "list_ex get_store ts' = list_ex get_store ts"
    "r \<noteq> None \<Longrightarrow> operation = OPERATION_STORE \<Longrightarrow> list_ex get_store ts" "r \<noteq> None \<Longrightarrow> operation = OPERATION_LOAD \<Longrightarrow> list_ex get_load ts"
  using assms detect_loop_flags [of h operation a d ts True None r ts'] list_ex_map
  by (auto simp: detect_memory_access_match_def split: if_splits)

lemma hart_tlb_icache: "hart_tlb (set_hart_tlb (flush_icache t) c) = flush_icache t"
  by (simp add: hart_tlb_def set_hart_tlb_def)

lemma watched_icache: "tlb_watched m (flush_icache t) = tlb_watched m t"
  by (simp add: tlb_watched_def tlb_wf_def flush_icache_def)

lemma keeps_check_triggers [watch]: "keeps_watch (check_triggers operation a virt t d)"
  unfolding keeps_watch_def
proof (intro allI impI)
  fix p s assume w: "watched p"
  show "watched (fst (snd (check_triggers operation a virt t d (p, s))))"
  proof (cases "matched_trigger p = None \<and> detect_memory_access_match (trig_view p) operation a d (TM p) \<noteq> None")
    case True
    then obtain r ts where r: "detect_memory_access_match (trig_view p) operation a d (TM p) = Some (r, ts)" by auto
    have w': "watched (p\<lparr>TM := ts\<rparr>)" using w detect_flags(1,2) [OF r] by (simp add: watched_def)
    have f: "watched (p\<lparr>TM := ts, csrs := set_hart_tlb (flush_icache (hart_tlb (csrs p))) (csrs p), matched_trigger := m\<rparr>)" for m
      using w' by (simp add: watched_def watched_icache)
    show ?thesis
    proof (cases r)
      case None
      then show ?thesis using True r w' by (simp add: check_triggers_def preturn_def)
    next
      case (Some x)
      then obtain tm ac where "r = Some (tm, ac)" by (cases x) auto
      then show ?thesis using True r w' f by (cases tm) (simp_all add: check_triggers_def preturn_def pfail_def)
    qed
  next
    case False
    then show ?thesis using w
      by (cases "detect_memory_access_match (trig_view p) operation a d (TM p)") (auto simp: check_triggers_def preturn_def pfail_def)
  qed
qed

lemma keeps_check_data [watch]: "keeps_watch (check_data operation a virt len bytes)"
proof (induction len arbitrary: bytes rule: less_induct)
  case (less len)
  show ?case
  proof (cases "reg_from_bytes (if 8 < len then 8 else len) bytes")
    case None
    then show ?thesis by (subst check_data.simps) (simp add: watch)
  next
    case (Some d)
    then show ?thesis by (subst check_data.simps) (auto intro!: watch less)
  qed
qed

section \<open>Accesses\<close>

lemma no_fast_update:
  assumes "no_fast_hit tg" "length tg = 256" "bit x 63"
  shows "no_fast_hit (tg[i := x])"
proof -
  have "\<not> bit (drop_bit 12 v) 63" for v :: u64 by (auto simp: bit_drop_bit_eq dest: bit_imp_le_length)
  then have "x \<noteq> drop_bit 12 v" for v using assms(3) by metis
  moreover have "tg[i := x] ! tlb_index v = (if tlb_index v = i then x else tg ! tlb_index v)" for v
    using assms(2) tlb_index_less [of v] by auto
  ultimately show ?thesis using assms(1) by (simp add: no_fast_hit_def)
qed

lemma refill_watched:
  assumes "refill_tlb va paddr type m c = Some (e, c')" "tlb_watched m (hart_tlb c)"
  shows "tlb_watched m (hart_tlb c')"
proof (cases "in_mprv c")
  case True
  then show ?thesis using assms by (simp add: refill_tlb_def)
next
  case False
  let ?i = "tlb_index va" and ?T = "hart_tlb c"
  define tag where "tag = (if check_triggers_fetch m \<and> type = FETCH \<or> check_triggers_load m \<and> type = LOAD \<or> check_triggers_store m \<and> type = STORE
    then drop_bit 12 va OR TLB_CHECK_TRIGGERS else drop_bit 12 va)"
  define E where "E = tlb_evict ?i (drop_bit 12 va) ?T"
  have top: "bit (- 1 :: u64) 63" by simp
  have top2: "bit (drop_bit 12 va OR TLB_CHECK_TRIGGERS) 63" unfolding bit_or_iff bit_check_triggers by simp
  have E: "tlb_watched m E" using assms(2) no_fast_update [OF _ _ top]
    by (auto simp: E_def tlb_watched_def tlb_wf_def tlb_evict_def Let_def)
  have "tlb_watched m (tlb_set_tag type ?i tag E)"
    using E no_fast_update [OF _ _ top2] by (cases type) (auto simp: tlb_watched_def tlb_wf_def tlb_set_tag_def tag_def)
  moreover obtain hom where hom: "pmp_homogeneous (pmp c) (paddr AND NOT (4096 - 1)) 4096 = Some hom"
    using assms(1) False by (auto simp: refill_tlb_def Let_def split: bind_splits)
  define t' where "t' = (if hom then tlb_set_tag type ?i tag E else E)"
  have "refill_tlb va paddr type m c = Some ((paddr - va, paddr - va), set_hart_tlb (t'\<lparr>tlb_data := (tlb_data t')[?i := (paddr - va, paddr - va)]\<rparr>) c)"
    using False hom by (simp add: refill_tlb_def Let_def t'_def E_def tag_def)
  then have "hart_tlb c' = t'\<lparr>tlb_data := (tlb_data t')[?i := (paddr - va, paddr - va)]\<rparr>" using assms(1) by simp
  ultimately show ?thesis using E by (cases hom) (simp_all add: t'_def tlb_watched_def tlb_wf_def)
qed

definition hart_watched :: "hart_mmu \<Rightarrow> hart_mmu \<Rightarrow> bool" where
  "hart_watched = (\<lambda>(c, m) (c', m'). check_triggers_load m' = check_triggers_load m \<and> check_triggers_store m' = check_triggers_store m \<and>
     (tlb_watched m (hart_tlb c) \<longrightarrow> tlb_watched m' (hart_tlb c')))"

lemma hart_watched_refl: "hart_watched h h"
  by (cases h) (simp add: hart_watched_def)

lemma after_access_watched: "after_host_access paddr len info h = Some h' \<Longrightarrow> hart_watched h h'"
  using refill_watched by (cases h; cases h') (fastforce simp: after_host_access_def hart_watched_def tlb_watched_def split: if_splits)

lemma reserve_watched: "hart_watched h (c, m) \<Longrightarrow> hart_watched h (c, m\<lparr>load_reservation_address := a\<rparr>)"
  by (cases h) (simp add: hart_watched_def tlb_watched_def)

lemma load_intrapage_watched:
  assumes "load_slow_path_intrapage I len info h s = (Inr (bytes, h'), s')"
  shows "hart_watched h h'"
proof -
  obtain c m where h: "h = (c, m)" by (cases h)
  show ?thesis
  proof (cases "\<not> is_special_access (flags info) \<and> tlb_hit (tlb_load_tag (hart_tlb c)) (vaddr info)")
    case True
    then show ?thesis using assms h hart_watched_refl
      by (auto simp: load_slow_path_intrapage_def Let_def mreturn_def mfail_def split: prod.splits host.splits)
  next
    case False
    show ?thesis using assms unfolding h load_slow_path_intrapage_def Let_def split_conv if_not_P [OF False]
      by (auto simp: mbind_def mreturn_def mfail_def throw_trap_def hart_watched_refl reserve_watched after_access_watched
          split: prod.splits sum.splits host.splits option.splits bool.splits if_splits intro: reserve_watched dest: after_access_watched)
  qed
qed

lemma store_intrapage_watched:
  assumes "store_slow_path_intrapage I bytes info really h s = (Inr h', s')"
  shows "hart_watched h h'"
proof -
  obtain c m where h: "h = (c, m)" by (cases h)
  show ?thesis
  proof (cases "\<not> is_special_access (flags info) \<and> tlb_hit (tlb_store_tag (hart_tlb c)) (vaddr info)")
    case True
    then show ?thesis using assms h hart_watched_refl
      by (auto simp: store_slow_path_intrapage_def Let_def mreturn_def mfail_def split: prod.splits host.splits if_splits)
  next
    case False
    show ?thesis using assms unfolding h store_slow_path_intrapage_def Let_def split_conv if_not_P [OF False]
      by (auto simp: mbind_def mreturn_def mfail_def throw_trap_def hart_watched_refl
          split: prod.splits sum.splits host.splits option.splits bool.splits if_splits dest: after_access_watched)
  qed
qed

lemma keeps_in_page:
  assumes "\<And>h s x h' s'. f h s = (Inr (x, h'), s') \<Longrightarrow> hart_watched h h'"
  shows "keeps_watch (in_page f)"
  unfolding keeps_watch_def
proof (intro allI impI)
  fix p s assume w: "watched p"
  obtain r s' where r: "f (csrs p, mmu p) s = (r, s')" by fastforce
  show "watched (fst (snd (in_page f (p, s))))"
  proof (cases r)
    case (Inr x)
    then obtain y c m where y: "r = Inr (y, (c, m))" by (cases x) auto
    then have "hart_watched (csrs p, mmu p) (c, m)" using assms r by blast
    then have "watched (p\<lparr>csrs := c, mmu := m\<rparr>)" using w by (simp add: hart_watched_def watched_def)
    then show ?thesis using r y by (simp add: in_page_def)
  qed (use r w in \<open>simp add: in_page_def\<close>)
qed

lemma keeps_pages [watch]:
  "keeps_watch (in_page (load_slow_path_intrapage I len info))"
  "keeps_watch (in_page (\<lambda>h s. apfst (map_sum id (Pair ())) (store_slow_path_intrapage I bytes info really h s)))"
proof -
  show "keeps_watch (in_page (load_slow_path_intrapage I len info))" by (rule keeps_in_page) (rule load_intrapage_watched)
  show "keeps_watch (in_page (\<lambda>h s. apfst (map_sum id (Pair ())) (store_slow_path_intrapage I bytes info really h s)))"
  proof (rule keeps_in_page)
    fix h s x h' s' assume "apfst (map_sum id (Pair ())) (store_slow_path_intrapage I bytes info really h s) = (Inr (x, h'), s')"
    then have "store_slow_path_intrapage I bytes info really h s = (Inr h', s')"
      by (cases "store_slow_path_intrapage I bytes info really h s"; cases "fst (store_slow_path_intrapage I bytes info really h s)") auto
    then show "hart_watched h h'" by (rule store_intrapage_watched)
  qed
qed

lemma keeps_load_slow [watch]: "keeps_watch (load_slow_path I a len fl)"
  unfolding load_slow_path_def Let_def by (intro keeps_state watch)

lemma keeps_store_slow [watch]: "keeps_watch (store_slow_path I a bytes fl really req)"
  unfolding store_slow_path_def Let_def by (intro keeps_state watch)

lemma keeps_same: "(\<And>p s. fst (snd (f (p, s))) = p) \<Longrightarrow> keeps_watch f"
  by (simp add: keeps_watch_def)

lemma watched_logs [simp]: "watched (p\<lparr>log_mem_read := l\<rparr>) = watched p" "watched (p\<lparr>log_mem_write := l\<rparr>) = watched p"
  "watched (p\<lparr>mmu := (mmu p)\<lparr>load_reservation_address := a\<rparr>\<rparr>) = watched p" "watched (p\<lparr>mmu := (mmu p)\<lparr>tracer := t\<rparr>\<rparr>) = watched p"
  by (simp_all add: watched_def tlb_watched_def)

lemma keeps_load [watch]: "keeps_watch (load I len a fl)"
proof -
  have "keeps_watch (\<lambda>(p, s). let t = hart_tlb (csrs p); vpn = drop_bit 12 a
         in if \<not> is_special_access fl \<and> is_aligned a len \<and> tlb_load_tag t ! tlb_index a = vpn then
              (case host_load I (fst (tlb_data t ! tlb_index a) + a) len s of
                 (Host bytes, s) \<Rightarrow> (Inr bytes, (p, s))
               | (_, s) \<Rightarrow> (Inl (Mem_error Undefined_behaviour), (p, s)))
            else load_slow_path I a len fl (p, s))"
    using keeps_load_slow [of I a len fl] by (auto simp: keeps_watch_def Let_def split: prod.split host.split)
  then show ?thesis unfolding load_def by (rule keeps_bind) (simp add: keeps_watch_def)
qed

lemma keeps_store [watch]: "keeps_watch (store I len a v fl)"
proof -
  have "keeps_watch (\<lambda>(p, s). let t = hart_tlb (csrs p); vpn = drop_bit 12 a
         in if \<not> is_special_access fl \<and> is_aligned a len \<and> tlb_store_tag t ! tlb_index a = vpn then
              (case host_store I (fst (tlb_data t ! tlb_index a) + a) (le_bytes len v) s of
                 (Host _, s) \<Rightarrow> (Inr (), (p, s))
               | (_, s) \<Rightarrow> (Inl (Mem_error Undefined_behaviour), (p, s)))
            else store_slow_path I a (le_bytes len v) fl True False (p, s))"
    using keeps_store_slow [of I a "le_bytes len v" fl True False] by (auto simp: keeps_watch_def Let_def split: prod.split host.split)
  then show ?thesis unfolding store_def by (rule keeps_bind) (simp add: keeps_watch_def)
qed

lemma keeps_with_csrs [watch]: "keeps_watch (with_csrs f)"
  by (rule keeps_same) (simp add: with_csrs_def)

lemma keeps_yield [watch]: "keeps_watch yield_load_reservation"
  by (simp add: keeps_watch_def yield_load_reservation_def)

lemma keeps_reservation [watch]: "keeps_watch (check_load_reservation I a len)"
  unfolding check_load_reservation_def
  by (intro watch keeps_same) (simp add: ptrap_def pfail_def split: prod.split bool.split)

lemma keeps_atomic [watch]: "keeps_watch (amo I len a f)" "keeps_watch (amo_compare_and_swap I len a x v)" "keeps_watch (store_conditional I len a v)"
  unfolding amo_def amo_compare_and_swap_def store_conditional_def by (intro watch)+

lemma keeps_float128 [watch]: "keeps_watch (load_float128 I a)" "keeps_watch (store_float128 I a q)"
proof -
  have 1: "keeps_watch (pbind (load I 8 a plain_access) (\<lambda>v0. pbind (load I 8 (a + 8) plain_access) (\<lambda>v1. preturn (v0, v1))))"
    "keeps_watch (pbind (store I 8 a (fst q) plain_access) (\<lambda>_. store I 8 (a + 8) (snd q) plain_access))" by (intro watch)+
  then show "keeps_watch (load_float128 I a)" "keeps_watch (store_float128 I a q)"
    by (auto simp: keeps_watch_def load_float128_def store_float128_def ptrap_def pfail_def)
qed

lemma keeps_cbo_zero [watch]: "keeps_watch (cbo_zero I a)"
proof -
  have "keeps_watch (cbo_zero_loop I a base ofs)" for base ofs by (induction ofs) (auto intro!: watch)
  then show ?thesis by (simp add: keeps_watch_def cbo_zero_def)
qed

lemma keeps_clean_inval [watch]: "keeps_watch (clean_inval I a clean inval)"
proof -
  have block: "keeps_watch (check_block a base ofs)" for base ofs by (induction ofs) (auto intro!: watch)
  have "keeps_watch (\<lambda>(p, s). case reservable I paddr s of
            (False, s) \<Rightarrow> ptrap Store_access_fault (virt_mode (csrs p)) a 0 0 (p, s)
          | (True, s) \<Rightarrow>
              if tracer_interested (tracer (mmu p)) LOAD then
                (case tracer_clean_invalidate (tracer (mmu p)) paddr (blocksz p) clean inval of
                   None \<Rightarrow> (Inl (Mem_error Undefined_behaviour), (p, s))
                 | Some tr \<Rightarrow> (Inr (), (p\<lparr>mmu := (mmu p)\<lparr>tracer := tr\<rparr>\<rparr>, s)))
              else (Inr (), (p, s)))" for paddr
    by (auto simp: keeps_watch_def ptrap_def pfail_def split: prod.split bool.split option.split)
  note this [watch]
  have "keeps_watch (pbind (check_block a base ofs) (\<lambda>_. convert_load_traps_to_store_traps
       (pbind (with_csrs (\<lambda>c. mmu_translate I c (generate_access_info c a LOAD plain_access) 1)) (\<lambda>paddr (p, s).
          case reservable I paddr s of
            (False, s) \<Rightarrow> ptrap Store_access_fault (virt_mode (csrs p)) a 0 0 (p, s)
          | (True, s) \<Rightarrow>
              if tracer_interested (tracer (mmu p)) LOAD then
                (case tracer_clean_invalidate (tracer (mmu p)) paddr (blocksz p) clean inval of
                   None \<Rightarrow> (Inl (Mem_error Undefined_behaviour), (p, s))
                 | Some tr \<Rightarrow> (Inr (), (p\<lparr>mmu := (mmu p)\<lparr>tracer := tr\<rparr>\<rparr>, s)))
              else (Inr (), (p, s))))))" for base ofs
    by (intro watch block)
  then show ?thesis by (simp add: keeps_watch_def clean_inval_def)
qed

section \<open>Sequences\<close>

datatype port_event =
    Access mem_op
  | Guest_load nat u64
  | Guest_load_x nat u64
  | Guest_store nat u64 u64
  | Load_quad u64
  | Store_quad u64 "u64 \<times> u64"
  | Zero_block u64
  | Clean_block u64 bool bool

primrec port_event_effect :: "'s simif_t \<Rightarrow> port_event \<Rightarrow> ('s, unit) port_m" where
  "port_event_effect I (Access op) = pbind (port_op I op) (\<lambda>_. preturn ())"
| "port_event_effect I (Guest_load len a) = pbind (guest_load I len a) (\<lambda>_. preturn ())"
| "port_event_effect I (Guest_load_x len a) = pbind (guest_load_x I len a) (\<lambda>_. preturn ())"
| "port_event_effect I (Guest_store len a v) = guest_store I len a v"
| "port_event_effect I (Load_quad a) = pbind (load_float128 I a) (\<lambda>_. preturn ())"
| "port_event_effect I (Store_quad a q) = store_float128 I a q"
| "port_event_effect I (Zero_block a) = cbo_zero I a"
| "port_event_effect I (Clean_block a clean inval) = clean_inval I a clean inval"

lemma keeps_event: "keeps_watch (port_event_effect I e)"
proof (cases e)
  case (Access op)
  have "keeps_watch (port_op I op)" by (cases op) (auto simp: load_reserved_def intro!: watch)
  then show ?thesis using Access by (auto intro!: watch)
qed (auto simp: guest_load_def guest_load_x_def guest_store_def intro!: watch)

lemma keeps_run: "watched p \<Longrightarrow> watched (fst (snd (run_ops (port_event_effect I) es (p, s))))"
proof (induction es arbitrary: p s)
  case (Cons e es)
  obtain r p' s' where e: "port_event_effect I e (p, s) = (r, (p', s'))" by (metis prod.exhaust)
  then have "watched p'" using keeps_event [of I e] Cons.prems unfolding keeps_watch_def by (metis fst_conv snd_conv)
  from Cons.IH [OF this, of s'] e show ?case by (simp add: split_beta)
qed simp

lemma trigger_updated_watched: "tlb_wf (hart_tlb (csrs p)) \<Longrightarrow> watched (trigger_updated p)"
proof -
  have "drop_bit 12 (v :: u64) \<noteq> - 1" for v
  proof
    assume "drop_bit 12 v = - 1"
    then have "bit (drop_bit 12 v) 63" by simp
    then show False by (auto simp: bit_drop_bit_eq dest: bit_imp_le_length)
  qed
  then have "no_fast_hit (replicate 256 (- 1))" using tlb_index_less by (auto simp: no_fast_hit_def dest: sym)
  moreover assume "tlb_wf (hart_tlb (csrs p))"
  ultimately show ?thesis
    by (simp add: watched_def trigger_updated_def tlb_watched_def tlb_wf_def flush_tlb_def flush_icache_def)
qed

text \<open>What a match does: the access is not made.\<close>

lemma watched_store:
  assumes "watched p" "matched_trigger p = None" "len \<in> {1, 2, 4, 8}"
    and "detect_memory_access_match (trig_view p) OPERATION_STORE a (Some (take_bit (8 * len) v)) (TM p) = Some (Some (TIMING_BEFORE, act), ts)"
  shows "\<exists>g. store I len a v fl (p, s) =
    (Inl (Matched \<lparr>mt_operation = OPERATION_STORE, mt_address = a, mt_action = act, mt_gva = g\<rparr>), (p\<lparr>TM := ts\<rparr>, s))"
proof -
  have "list_ex get_store (TM p)" using detect_flags(4) detect_flags(3) [OF assms(4)] by simp
  then have "no_fast_hit (tlb_store_tag (hart_tlb (csrs p)))" using assms(1) by (simp add: watched_def tlb_watched_def)
  then have slow: "tlb_store_tag (hart_tlb (csrs p)) ! tlb_index a \<noteq> drop_bit 12 a" by (simp add: no_fast_hit_def)
  have bytes: "reg_from_bytes len (le_bytes len v) = Some (take_bit (8 * len) v)"
    using assms(3) le_word_le_bytes [of len v] by (auto simp: reg_from_bytes_def)
  have "\<not> 8 < len" using assms(3) by auto
  then have "check_data OPERATION_STORE a g len (le_bytes len v) (p, s) =
      (Inl (Matched \<lparr>mt_operation = OPERATION_STORE, mt_address = a, mt_action = act, mt_gva = g\<rparr>), (p\<lparr>TM := ts\<rparr>, s))" for g
    by (subst check_data.simps) (simp add: bytes check_triggers_def assms(2,4) pfail_def)
  then show ?thesis using slow by (simp add: store_def store_slow_path_def pbind_def Let_def)
qed

lemma watched_load:
  assumes "watched p" "matched_trigger p = None"
    and "detect_memory_access_match (trig_view p) OPERATION_LOAD a None (TM p) = Some (Some (TIMING_BEFORE, act), ts)"
  shows "\<exists>g. load I len a fl (p, s) =
    (Inl (Matched \<lparr>mt_operation = OPERATION_LOAD, mt_address = a, mt_action = act, mt_gva = g\<rparr>), (p\<lparr>TM := ts\<rparr>, s))"
proof -
  have "list_ex get_load (TM p)" using detect_flags(4) [OF assms(3)] by simp
  then have "no_fast_hit (tlb_load_tag (hart_tlb (csrs p)))" using assms(1) by (simp add: watched_def tlb_watched_def)
  then have slow: "tlb_load_tag (hart_tlb (csrs p)) ! tlb_index a \<noteq> drop_bit 12 a" by (simp add: no_fast_hit_def)
  have "check_triggers OPERATION_LOAD a g a None (p, s) =
      (Inl (Matched \<lparr>mt_operation = OPERATION_LOAD, mt_address = a, mt_action = act, mt_gva = g\<rparr>), (p\<lparr>TM := ts\<rparr>, s))" for g
    by (simp add: check_triggers_def assms(2,3) pfail_def)
  then show ?thesis using slow by (simp add: load_def load_slow_path_def pbind_def Let_def)
qed

end
