(* ===== verification/Port_Properties.thy ===== *)
theory Port_Properties
  imports Mmu_Watch Mmu_Properties Trigger_Properties
begin

text \<open>The properties of the memory port, on the bus of the simulator.\<close>

section \<open>An example\<close>

text \<open>A hart in machine mode that may make misaligned accesses, with an empty translation cache, on the example bus.\<close>

definition example_port :: "trigger_t list \<Rightarrow> port_t" where
  "example_port ts = \<lparr>csrs = example_csrs\<lparr>prv := 3\<rparr>,
     mmu = \<lparr>load_reservation_address = - 1, tracer = \<lparr>ic = None, dc = None, l2 = None\<rparr>, check_triggers_fetch = False,
       check_triggers_load = False, check_triggers_store = False\<rparr>,
     TM = ts,
     regs = \<lparr>tr_prev_prv = 3, tr_prev_v = False, tr_scontext = 0, tr_mcontext = 0, tr_medeleg = 0, tr_hedeleg = 0,
       tr_ext_h = False, tr_ext_s = True, tr_ext_u = True\<rparr>,
     matched_trigger = None, check_triggers_icount = False, misaligned = True, blocksz = 64, log_commits = False, log_mem_read = [], log_mem_write = []\<rparr>"

text \<open>The same hart with interrupts enabled and a trigger on loads.\<close>

definition watching_port :: "u64 \<Rightarrow> port_t" where
  "watching_port a = (example_port [load_trigger False False a])\<lparr>csrs := example_csrs\<lparr>prv := 3, mstatus := 8\<rparr>\<rparr>"

lemma example_port_tlb: "hart_tlb (csrs (example_port ts)) = example_tlb" "tlb_wf example_tlb"
  by (simp_all add: example_port_def example_csrs_def hart_tlb_def example_tlb_def tlb_wf_def)

lemma example_tlb_empty: "\<not> tlb_hit (tlb_load_tag example_tlb) v" "\<not> tlb_hit (tlb_store_tag example_tlb) v"
  using empty_tag [of v] tlb_index_less [of v] by (auto simp: example_tlb_def tlb_hit_def)

lemma example_port_bare: "bare_hart (csrs (example_port ts))"
  using example_ok(1) by (auto simp: bare_hart_def example_port_def in_mprv_def example_csrs_def decode_vm_info_def no_vm_def)

lemma example_memory: "a \<in> dom (bus_byte example_bus) \<longleftrightarrow> 0x80000000 \<le> a \<and> a < 0x80002000"
proof -
  have "paddr_ok a" if "a < 0x80002000"
  proof -
    have "unat a < 2 ^ 56" using that by (simp add: word_less_nat_alt)
    then have "unat a div 2 ^ 56 = 0" by simp
    then have "unat (drop_bit 56 a) = 0" using unat_drop_bit_eq [of 56 a] drop_bit_eq_div [of 56 "unat a"] by simp
    then show ?thesis by (simp add: paddr_ok_def unat_eq_0)
  qed
  moreover have "a - 0x80000000 < 0x2000 \<longleftrightarrow> a < 0x80002000" if "0x80000000 \<le> a"
    using that by (simp add: word_less_nat_alt word_le_nat_alt unat_sub) linarith
  ultimately show ?thesis
    by (auto simp: bus_byte_def addr_to_mem_def example_bus_def not_less split: option.splits if_splits)
qed

lemma example_in_memory:
  assumes "len \<in> {1, 2, 4, 8}" "0x80000000 \<le> a" "a \<le> 0x80001FF8"
  shows "in_memory (dom (bus_byte example_bus)) (len, a)"
proof -
  have "unat (a + of_nat i) = unat a + i" if "i < 8" for i
    using that assms(3) by (subst unat_add_lem [THEN iffD1]) (simp_all add: unat_word_of_nat_small word_le_nat_alt)
  then have "a + of_nat i \<in> dom (bus_byte example_bus)" if "i < 8" for i
    using that assms(2,3) unfolding example_memory by (simp add: word_le_nat_alt word_less_nat_alt)
  moreover have "len \<le> 8" using assms(1) by auto
  ultimately show ?thesis using assms(1) unfolding in_memory_def split_conv by (metis less_le_trans)
qed

section \<open>Memory\<close>

text \<open>
  C31: the port refines a flat memory. A hart that does not translate addresses, may access all of memory and has no
  trigger that matches, sees a memory of bytes with one reservation. Whatever sequence of loads, stores, reservations
  and atomic operations it makes to memory, aligned or not, inside a page or across two, with or without cached translations and
  cache models, the values, the traps, the bytes of memory and the reservation are those of the specification.
\<close>

theorem port_refines_memory:
  assumes "bus_wf s" "bare_hart (csrs p)" "tlb_identity (dom (bus_byte s)) (hart_tlb (csrs p))" "system_wf (tracer (mmu p))" "quiet p"
    and "\<forall>op \<in> set ops. in_memory (dom (bus_byte s)) (op_range op)"
  shows "\<exists>rs p' s'. run_ops (port_op (sim_t io_load io_store)) ops (p, s) = (rs, (p', s')) \<and> bus_wf s' \<and>
    run_ops (flat_op (misaligned p)) ops (bus_byte s, load_reservation_address (mmu p)) = (rs, (bus_byte s', load_reservation_address (mmu p')))"
proof -
  let ?R = "run_ops (flat_op (misaligned p)) ops (bus_byte s, load_reservation_address (mmu p))"
  have "port_sim bus_wf bus_byte (dom (bus_byte s)) (misaligned p) (p, s) (bus_byte s, load_reservation_address (mmu p))"
    using assms(1-5) by (simp add: port_sim_def hart_ok_def)
  from sim.port_refines_flat [OF this assms(6)] obtain p' s' where
    "run_ops (port_op (sim_t io_load io_store)) ops (p, s) = (fst ?R, (p', s'))"
    "port_sim bus_wf bus_byte (dom (bus_byte s)) (misaligned p) (p', s') (snd ?R)" by blast
  then show ?thesis by (intro exI [of _ "fst ?R"] exI [of _ p'] exI [of _ s']) (cases ?R, auto simp: port_sim_def)
qed

theorem port_refines_memory_witness:
  "\<exists>p' s'. run_ops (port_op example_sim) [Op_store 4 0x80000FFE 0xAABBCCDD, Op_load 4 0x80000FFE, Op_store_conditional 8 0x80000008 1]
      (example_port [], example_bus) = ([Inr 0, Inr 0xAABBCCDD, Inr 0], (p', s'))"
proof -
  let ?ops = "[Op_store 4 0x80000FFE 0xAABBCCDD, Op_load 4 0x80000FFE, Op_store_conditional 8 0x80000008 1]"
  have tlb: "tlb_identity D (hart_tlb (csrs (example_port [])))" for D
    using example_port_tlb example_tlb_empty by (simp add: tlb_identity_def)
  have sys: "system_wf (tracer (mmu (example_port [])))" by (simp add: example_port_def system_wf_def option_wf_def)
  have quiet: "quiet (example_port [])" by (simp add: quiet_def example_port_def detect_memory_access_match_def)
  have mem: "\<forall>op \<in> set ?ops. in_memory (dom (bus_byte example_bus)) (op_range op)"
    using example_in_memory [of 4 "0x80000FFE"] example_in_memory [of 8 "0x80000008"] by simp
  have load: "mem_word (put_bytes b 0x80000FFE (le_bytes 4 0xAABBCCDD)) 0x80000FFE 4 = 0xAABBCCDD" for b
    using mem_word_put_same [of 4 b "0x80000FFE" "0xAABBCCDD"] by simp
  have al: "\<not> is_aligned 0x80000FFE 4" "is_aligned 0x80000008 8" by (simp_all add: is_aligned_def)
  have "fst (run_ops (flat_op True) ?ops (b, - 1)) = [Inr 0, Inr 0xAABBCCDD, Inr 0]" for b
    using al load by (simp add: flat_store_def flat_load_def flat_atomic_def pbind_def preturn_def)
  moreover have "misaligned (example_port [])" "load_reservation_address (mmu (example_port [])) = - 1" by (simp_all add: example_port_def)
  moreover from port_refines_memory [OF example_bus_wf example_port_bare tlb sys quiet mem, of "\<lambda>d addr len. (None, d)" "\<lambda>d addr bytes. (False, d)"]
  obtain rs p' s' where "run_ops (port_op example_sim) ?ops (example_port [], example_bus) = (rs, (p', s'))"
    "fst (run_ops (flat_op (misaligned (example_port []))) ?ops (bus_byte example_bus, load_reservation_address (mmu (example_port [])))) = rs" by auto
  ultimately show ?thesis by auto
qed

section \<open>Triggers\<close>

text \<open>
  C38: no watched access is missed. After the triggers have been written, and after any sequence of operations of the port since
  then, whatever they returned or threw, and with no earlier match still waiting to be reported, a store of a value or a load
  that a trigger matches with the timing before the access
  throws the match, and neither reads nor writes memory: accesses that the translation cache would serve without a
  look at the triggers are never served.
\<close>

theorem watched_access_stopped:
  assumes "tlb_wf (hart_tlb (csrs p))" "run_ops (port_event_effect I) es (trigger_updated p, s) = (rs, (p', s'))" "matched_trigger p' = None"
  shows "(len \<in> {1, 2, 4, 8} \<and>
      detect_memory_access_match (trig_view p') OPERATION_STORE a (Some (take_bit (8 * len) v)) (TM p') = Some (Some (TIMING_BEFORE, act), ts) \<longrightarrow>
      (\<exists>g. store I len a v fl (p', s') =
        (Inl (Matched \<lparr>mt_operation = OPERATION_STORE, mt_address = a, mt_action = act, mt_gva = g\<rparr>), (p'\<lparr>TM := ts\<rparr>, s')))) \<and>
    (detect_memory_access_match (trig_view p') OPERATION_LOAD a None (TM p') = Some (Some (TIMING_BEFORE, act), ts) \<longrightarrow>
      (\<exists>g. load I len a fl (p', s') =
        (Inl (Matched \<lparr>mt_operation = OPERATION_LOAD, mt_address = a, mt_action = act, mt_gva = g\<rparr>), (p'\<lparr>TM := ts\<rparr>, s'))))"
proof -
  have "watched p'" using keeps_run [OF trigger_updated_watched [OF assms(1)], of I es s] assms(2) by simp
  note w = watched_store [OF this assms(3)] watched_load [OF this assms(3)]
  show ?thesis by (intro conjI impI) (auto intro: w)
qed

theorem watched_access_stopped_witness:
  "case run_ops (port_event_effect example_sim) [Access (Op_load 8 0x80000008)] (trigger_updated (watching_port 0x80000010), example_bus) of
     (rs, (p', s')) \<Rightarrow> rs = [Inr ()] \<and> (\<exists>g q. load example_sim 8 0x80000010 plain_access (p', s') =
        (Inl (Matched \<lparr>mt_operation = OPERATION_LOAD, mt_address = 0x80000010, mt_action = ACTION_DEBUG_EXCEPTION, mt_gva = g\<rparr>), (q, s')))"
proof -
  let ?run = "run_ops (port_event_effect example_sim) [Access (Op_load 8 0x80000008)] (trigger_updated (watching_port 0x80000010), example_bus)"
  obtain rs p' s' where run: "?run = (rs, (p', s'))" by (metis prod.exhaust)
  have "case ?run of (rs, (p', s')) \<Rightarrow> rs = [Inr ()] \<and> matched_trigger p' = None \<and>
     (case detect_memory_access_match (trig_view p') OPERATION_LOAD 0x80000010 None (TM p') of
        Some (Some (TIMING_BEFORE, ACTION_DEBUG_EXCEPTION), ts) \<Rightarrow> True | _ \<Rightarrow> False)"
    by code_simp
  then obtain ts where 1: "rs = [Inr ()]" "matched_trigger p' = None"
    "detect_memory_access_match (trig_view p') OPERATION_LOAD 0x80000010 None (TM p') = Some (Some (TIMING_BEFORE, ACTION_DEBUG_EXCEPTION), ts)"
    unfolding run by (auto split: option.splits prod.splits timing_t.splits action_t.splits)
  have "tlb_wf (hart_tlb (csrs (watching_port 0x80000010)))"
    using example_port_tlb(2) by (simp add: watching_port_def example_csrs_def hart_tlb_def)
  from watched_access_stopped [OF this run 1(2), THEN conjunct2, rule_format, OF 1(3), of 8 plain_access]
  show ?thesis unfolding run using 1(1) by auto
qed

end
