(* ===== verification/Priv_State.thy ===== *)
theory Priv_State
  imports Pmp Triggers
begin

text \<open>
  The privileged state of a hart (\<open>struct state_t\<close> of \<open>riscv-isa-sim/riscv/processor.h\<close>) and the register classes of \<open>csrs.h\<close> and
  \<open>csrs.cc\<close> that traps, interrupts and the changes of privilege work on. A field of the record is the member \<open>val\<close> of the register
  object of that name; a definition \<open>r_read\<close> or \<open>r_write\<close> is the function \<open>read\<close> or \<open>unlogged_write\<close> of its class, and a register
  without one is a \<open>basic_csr_t\<close>. The commit log is not part of the state.
\<close>

section \<open>Definitions\<close>

subsection \<open>Configuration\<close>

datatype isa_extension_t =
    EXT_ZCA | EXT_ZCF | EXT_ZCD | EXT_ZCB | EXT_ZCMP | EXT_ZCMT | EXT_ZFH | EXT_ZFHMIN | EXT_ZVFH | EXT_ZVFHMIN
  | EXT_ZFINX | EXT_SMRNMI | EXT_SSCOFPMF | EXT_ZICBOM | EXT_ZICBOZ | EXT_SVADU | EXT_SVPBMT | EXT_SSTC

datatype impl_t = IMPL_MMU_SV32 | IMPL_MMU_SV39 | IMPL_MMU_SV48 | IMPL_MMU_SV57 | IMPL_MMU_ASID | IMPL_MMU_VMID | IMPL_MMU

text \<open>What is fixed when the hart is built. Extensions of one letter are the bits of \<open>misa\<close>, with 0 for the letter A.\<close>

record proc_cfg =
  max_xlen :: nat
  max_isa :: u64
  isa_extension :: "isa_extension_t \<Rightarrow> bool"
  supports_impl :: "impl_t \<Rightarrow> bool"
  any_custom_extensions :: bool
  target_big_endian :: bool

text \<open>Other arguments of the capability switch all of them off.\<close>

definition set_mmu_capability :: "impl_t \<Rightarrow> (impl_t \<Rightarrow> bool) \<Rightarrow> impl_t \<Rightarrow> bool" where
  "set_mmu_capability cap t =
     (if cap = IMPL_MMU_SV32 then t(IMPL_MMU_SV32 := True, IMPL_MMU := True)
      else if cap \<in> {IMPL_MMU_SV57, IMPL_MMU_SV48, IMPL_MMU_SV39} then
        let t = (if cap = IMPL_MMU_SV57 then t(IMPL_MMU_SV57 := True) else t);
            t = (if cap \<noteq> IMPL_MMU_SV39 then t(IMPL_MMU_SV48 := True) else t)
        in t(IMPL_MMU_SV39 := True, IMPL_MMU := True)
      else t(IMPL_MMU_SV32 := False, IMPL_MMU_SV39 := False, IMPL_MMU_SV48 := False, IMPL_MMU_SV57 := False, IMPL_MMU := False))"

abbreviation (input) ISA_A :: nat where "ISA_A \<equiv> 0"
abbreviation (input) ISA_C :: nat where "ISA_C \<equiv> 2"
abbreviation (input) ISA_D :: nat where "ISA_D \<equiv> 3"
abbreviation (input) ISA_F :: nat where "ISA_F \<equiv> 5"
abbreviation (input) ISA_H :: nat where "ISA_H \<equiv> 7"
abbreviation (input) ISA_M :: nat where "ISA_M \<equiv> 12"
abbreviation (input) ISA_Q :: nat where "ISA_Q \<equiv> 16"
abbreviation (input) ISA_S :: nat where "ISA_S \<equiv> 18"
abbreviation (input) ISA_U :: nat where "ISA_U \<equiv> 20"
abbreviation (input) ISA_V :: nat where "ISA_V \<equiv> 21"

abbreviation (input) PRV_U :: u64 where "PRV_U \<equiv> 0"
abbreviation (input) PRV_HS :: u64 where "PRV_HS \<equiv> 2"

subsection \<open>State\<close>

record dcsr_t =
  d_prv :: u64
  d_step :: bool
  d_ebreakm :: bool
  d_ebreaks :: bool
  d_ebreaku :: bool
  d_ebreakvs :: bool
  d_ebreakvu :: bool
  d_halt :: bool
  d_v :: bool
  d_cause :: u8

datatype single_step_t = STEP_NONE | STEP_STEPPING | STEP_STEPPED

text \<open>
  The register \<open>mnstatus\<close> exists with the extension \<open>Smrnmi\<close> only; \<open>mcontext\<close> is the register \<open>hcontext\<close>. The registers \<open>sepc\<close>, \<open>stval\<close>,
  \<open>stvec\<close>, \<open>scause\<close> and \<open>satp\<close> are the non-virtual ones. The last five fields are members of the processor and of its memory unit.
\<close>

record state_t =
  pc :: u64
  prv :: u64
  prev_prv :: u64
  prv_changed :: bool
  v_changed :: bool
  virt :: bool
  prev_v :: bool
  misa :: u64
  mstatus :: u64
  mepc :: u64
  mtval :: u64
  mtvec :: u64
  mcause :: u64
  mie :: u64
  mip :: u64
  medeleg :: u64
  mideleg :: u64
  mevent :: "u64 list"
  mnstatus :: "u64 option"
  mnepc :: u64
  sepc :: u64
  stval :: u64
  stvec :: u64
  scause :: u64
  satp :: u64
  mtval2 :: u64
  mtinst :: u64
  hstatus :: u64
  hideleg :: u64
  hedeleg :: u64
  htval :: u64
  htinst :: u64
  hgatp :: u64
  vsstatus :: u64
  vstvec :: u64
  vsepc :: u64
  vscause :: u64
  vstval :: u64
  vsatp :: u64
  dpc :: u64
  dcsr :: dcsr_t
  scontext :: u64
  mcontext :: u64
  menvcfg :: u64
  debug_mode :: bool
  single_step :: single_step_t
  serialized :: bool
  in_wfi :: bool
  check_triggers_icount :: bool
  extension_enable_table :: "isa_extension_t \<Rightarrow> bool"
  TM :: "trigger_t list"
  tlb :: tlb_t

definition extension_enabled :: "state_t \<Rightarrow> nat \<Rightarrow> bool" where
  "extension_enabled s ext \<longleftrightarrow> drop_bit ext (misa s) AND 1 \<noteq> 0"

definition set_extension_enable :: "proc_cfg \<Rightarrow> isa_extension_t \<Rightarrow> bool \<Rightarrow> state_t \<Rightarrow> state_t" where
  "set_extension_enable c ext enable s =
     s\<lparr>extension_enable_table := (extension_enable_table s)(ext := enable \<and> isa_extension c ext)\<rparr>"

definition flush :: "state_t \<Rightarrow> state_t" where
  "flush s = s\<lparr>tlb := flush_tlb (tlb s)\<rparr>"

text \<open>The argument is a field of two bits or a privilege of the hart, so that the assertion of the source holds.\<close>

definition legalize_privilege :: "state_t \<Rightarrow> u64 \<Rightarrow> u64" where
  "legalize_privilege s p =
     (if \<not> extension_enabled s ISA_U then PRV_M
      else if p = PRV_HS \<or> p = PRV_S \<and> \<not> extension_enabled s ISA_S then PRV_U
      else p)"

subsection \<open>Program counters, vectors and causes\<close>

definition pc_alignment_mask :: "state_t \<Rightarrow> u64" where
  "pc_alignment_mask s = NOT (if extension_enable_table s EXT_ZCA then 0 else 2)"

definition epc_read :: "state_t \<Rightarrow> u64 \<Rightarrow> u64" where
  "epc_read s val = val AND pc_alignment_mask s"

definition epc_write :: "u64 \<Rightarrow> u64" where
  "epc_write val = val AND NOT 1"

definition tvec_write :: "u64 \<Rightarrow> u64" where
  "tvec_write val = val AND NOT 2"

text \<open>The width in use is always the largest one, so that the interrupt bit stays where it is.\<close>

definition cause_read :: "proc_cfg \<Rightarrow> nat \<Rightarrow> u64 \<Rightarrow> u64" where
  "cause_read c xlen val = (if max_xlen c > xlen then val OR push_bit (xlen - 1) (drop_bit (max_xlen c - 1) val) else val)"

subsection \<open>Status registers\<close>

text \<open>The masks are computed when the register is built, that is, with all the extensions of the hart enabled.\<close>

definition isa_bit :: "proc_cfg \<Rightarrow> nat \<Rightarrow> bool" where
  "isa_bit c ext \<longleftrightarrow> drop_bit ext (max_isa c) AND 1 \<noteq> 0"

definition has_page :: "proc_cfg \<Rightarrow> bool" where
  "has_page c \<longleftrightarrow> isa_bit c ISA_S \<and> supports_impl c IMPL_MMU"

definition compute_sstatus_write_mask :: "proc_cfg \<Rightarrow> u64" where
  "compute_sstatus_write_mask c =
     (let has_fs = (isa_bit c ISA_S \<or> isa_bit c ISA_F \<or> isa_bit c ISA_V) \<and> \<not> isa_extension c EXT_ZFINX;
          has_vs = isa_bit c ISA_V
      in (if isa_bit c ISA_S then 0x2 OR 0x20 OR 0x100 else 0)
         OR (if has_page c then 0x40000 OR 0x80000 else 0)
         OR (if has_fs then 0x6000 else 0)
         OR (if any_custom_extensions c then 0x18000 else 0)
         OR (if has_vs then 0x600 else 0))"

definition sd_bit :: "proc_cfg \<Rightarrow> u64" where
  "sd_bit c = (if max_xlen c = 64 then 0x8000000000000000 else 0x80000000)"

definition sstatus_read_mask :: "proc_cfg \<Rightarrow> u64" where
  "sstatus_read_mask c =
     compute_sstatus_write_mask c OR 0x40 OR 0x300000000 OR (if max_xlen c = 32 then 0x80000000 else 0x8000000000000000)"

definition adjust_sd :: "proc_cfg \<Rightarrow> u64 \<Rightarrow> u64" where
  "adjust_sd c val =
     (if val AND 0x6000 = 0x6000 \<or> val AND 0x600 = 0x600 \<or> val AND 0x18000 = 0x18000
      then val OR sd_bit c else val AND NOT (sd_bit c))"

text \<open>\<open>old\<close> is what the register reads.\<close>

definition maybe_flush_tlb :: "proc_cfg \<Rightarrow> u64 \<Rightarrow> u64 \<Rightarrow> state_t \<Rightarrow> state_t" where
  "maybe_flush_tlb c old newval s =
     (if (newval XOR old) AND (0x1800 OR 0x20000 OR (if has_page c then 0x80000 OR 0x40000 else 0)) \<noteq> 0 then flush s else s)"

definition xlen_to_uxl :: "nat \<Rightarrow> u64 option" where
  "xlen_to_uxl xlen = (if xlen = 32 then Some 1 else if xlen = 64 then Some 2 else None)"

definition vsstatus_write :: "proc_cfg \<Rightarrow> u64 \<Rightarrow> state_t \<Rightarrow> state_t" where
  "vsstatus_write c val s =
     (let m = compute_sstatus_write_mask c;
          newval = (vsstatus s AND NOT m) OR (val AND m);
          s = (if virt s then maybe_flush_tlb c (vsstatus s) newval s else s)
      in s\<lparr>vsstatus := adjust_sd c newval\<rparr>)"

definition mstatus_write_mask :: "proc_cfg \<Rightarrow> state_t \<Rightarrow> u64" where
  "mstatus_write_mask c s =
     compute_sstatus_write_mask c
     OR 0x8 OR 0x80
     OR (if extension_enabled s ISA_U then 0x20000 else 0)
     OR 0x1800 OR 0x200000
     OR (if extension_enabled s ISA_S then 0x400000 else 0)
     OR (if has_page c then 0x100000 else 0)
     OR (if extension_enabled s ISA_H then 0x4000000000 else 0)
     OR (if extension_enabled s ISA_H then 0x8000000000 else 0)"

definition mstatus_write :: "proc_cfg \<Rightarrow> u64 \<Rightarrow> state_t \<Rightarrow> state_t" where
  "mstatus_write c val s =
     (let m = mstatus_write_mask c s;
          requested_mpp = legalize_privilege s (get_field val 0x1800);
          adjusted_val = set_field val 0x1800 requested_mpp;
          new_mstatus = (mstatus s AND NOT m) OR (adjusted_val AND m);
          s = maybe_flush_tlb c (mstatus s) new_mstatus s
      in s\<lparr>mstatus := adjust_sd c new_mstatus\<rparr>)"

definition nonvirtual_sstatus_read :: "proc_cfg \<Rightarrow> state_t \<Rightarrow> u64" where
  "nonvirtual_sstatus_read c s = mstatus s AND sstatus_read_mask c"

definition nonvirtual_sstatus_write :: "proc_cfg \<Rightarrow> u64 \<Rightarrow> state_t \<Rightarrow> state_t" where
  "nonvirtual_sstatus_write c val s =
     (let m = compute_sstatus_write_mask c
      in mstatus_write c ((mstatus s AND NOT m) OR (val AND m)) s)"

definition sstatus_read :: "proc_cfg \<Rightarrow> state_t \<Rightarrow> u64" where
  "sstatus_read c s = (if virt s then vsstatus s else nonvirtual_sstatus_read c s)"

definition sstatus_write :: "proc_cfg \<Rightarrow> u64 \<Rightarrow> state_t \<Rightarrow> state_t" where
  "sstatus_write c val s = (if virt s then vsstatus_write c val s else nonvirtual_sstatus_write c val s)"

text \<open>The halves of \<open>mstatus\<close> on a hart of 32 bits (\<open>rv32_low_csr_t\<close>, \<open>rv32_high_csr_t\<close>).\<close>

definition mstatus_low_write :: "proc_cfg \<Rightarrow> u64 \<Rightarrow> state_t \<Rightarrow> state_t" where
  "mstatus_low_write c val s = mstatus_write c (push_bit 32 (drop_bit 32 (mstatus s)) OR (val AND 0xffffffff)) s"

definition mstatush_write :: "proc_cfg \<Rightarrow> u64 \<Rightarrow> state_t \<Rightarrow> state_t" where
  "mstatush_write c val s = mstatus_write c (drop_bit 32 (push_bit 32 (mstatus s)) OR push_bit 32 (val AND 0xffffffff)) s"

definition mnstatus_write :: "u64 \<Rightarrow> state_t \<Rightarrow> state_t" where
  "mnstatus_write val s =
     (case mnstatus s of
        None \<Rightarrow> s
      | Some old \<Rightarrow>
          let m = (NOT old AND 0x8) OR (if extension_enabled s ISA_H then 0x80 else 0) OR 0x1800;
              requested_mnpp = legalize_privilege s (get_field val 0x1800);
              adjusted_val = set_field val 0x1800 requested_mnpp
          in s\<lparr>mnstatus := Some ((old AND NOT m) OR (adjusted_val AND m))\<rparr>)"

text \<open>The bits FS, VS and XS become dirty when an instruction changes the registers they stand for; \<open>abort\<close> is \<^const>\<open>None\<close>.\<close>

definition status_enabled :: "proc_cfg \<Rightarrow> u64 \<Rightarrow> state_t \<Rightarrow> bool" where
  "status_enabled c which s \<longleftrightarrow>
     nonvirtual_sstatus_read c s AND which \<noteq> 0 \<and> (\<not> virt s \<or> vsstatus s AND which \<noteq> 0)
     \<or> compute_sstatus_write_mask c AND which = 0"

definition status_dirty :: "proc_cfg \<Rightarrow> u64 \<Rightarrow> state_t \<Rightarrow> state_t option" where
  "status_dirty c dirties s =
     (if nonvirtual_sstatus_read c s AND dirties = dirties \<and> (\<not> virt s \<or> vsstatus s AND dirties = dirties) then Some s
      else if \<not> status_enabled c dirties s then None
      else
        let s = nonvirtual_sstatus_write c (nonvirtual_sstatus_read c s OR dirties) s
        in Some (if virt s then vsstatus_write c (vsstatus s OR dirties) s else s))"

subsection \<open>Pending and enabled interrupts\<close>

abbreviation (input) MIP_SSIP :: u64 where "MIP_SSIP \<equiv> 0x2"
abbreviation (input) MIP_VSSIP :: u64 where "MIP_VSSIP \<equiv> 0x4"
abbreviation (input) MIP_MSIP :: u64 where "MIP_MSIP \<equiv> 0x8"
abbreviation (input) MIP_STIP :: u64 where "MIP_STIP \<equiv> 0x20"
abbreviation (input) MIP_VSTIP :: u64 where "MIP_VSTIP \<equiv> 0x40"
abbreviation (input) MIP_MTIP :: u64 where "MIP_MTIP \<equiv> 0x80"
abbreviation (input) MIP_SEIP :: u64 where "MIP_SEIP \<equiv> 0x200"
abbreviation (input) MIP_VSEIP :: u64 where "MIP_VSEIP \<equiv> 0x400"
abbreviation (input) MIP_MEIP :: u64 where "MIP_MEIP \<equiv> 0x800"
abbreviation (input) MIP_LCOFIP :: u64 where "MIP_LCOFIP \<equiv> 0x2000"
abbreviation (input) MIP_VS_MASK :: u64 where "MIP_VS_MASK \<equiv> 0x444"
abbreviation (input) MIP_HS_MASK :: u64 where "MIP_HS_MASK \<equiv> 0x1444"

definition write_with_mask :: "u64 \<Rightarrow> u64 \<Rightarrow> u64 \<Rightarrow> u64" where
  "write_with_mask m val old = (old AND NOT m) OR (val AND m)"

definition mip_write_mask :: "proc_cfg \<Rightarrow> state_t \<Rightarrow> u64" where
  "mip_write_mask c s =
     (let supervisor_ints =
            (if extension_enabled s ISA_S
             then MIP_SSIP OR (if menvcfg s AND 0x8000000000000000 \<noteq> 0 then 0 else MIP_STIP) OR MIP_SEIP else 0);
          lscof_int = (if extension_enable_table s EXT_SSCOFPMF then MIP_LCOFIP else 0);
          vssip_int = (if extension_enabled s ISA_H then MIP_VSSIP else 0);
          hypervisor_ints = (if extension_enabled s ISA_H then MIP_HS_MASK else 0)
      in (supervisor_ints OR hypervisor_ints OR lscof_int) AND (MIP_SEIP OR MIP_SSIP OR MIP_STIP OR MIP_LCOFIP OR vssip_int))"

definition delegable_ints :: "proc_cfg \<Rightarrow> state_t \<Rightarrow> u64" where
  "delegable_ints c s =
     (let supervisor_ints = (if extension_enabled s ISA_S then MIP_SSIP OR MIP_STIP OR MIP_SEIP else 0);
          lscof_int = (if extension_enable_table s EXT_SSCOFPMF then MIP_LCOFIP else 0);
          coprocessor_ints = push_bit 12 (of_bool (any_custom_extensions c))
      in supervisor_ints OR coprocessor_ints OR lscof_int)"

definition mie_write_mask :: "proc_cfg \<Rightarrow> state_t \<Rightarrow> u64" where
  "mie_write_mask c s =
     (let hypervisor_ints = (if extension_enabled s ISA_H then MIP_HS_MASK else 0)
      in delegable_ints c s OR hypervisor_ints OR MIP_MSIP OR MIP_MTIP OR MIP_MEIP)"

definition mip_write :: "proc_cfg \<Rightarrow> u64 \<Rightarrow> state_t \<Rightarrow> state_t" where
  "mip_write c val s = s\<lparr>mip := write_with_mask (mip_write_mask c s) val (mip s)\<rparr>"

definition mie_write :: "proc_cfg \<Rightarrow> u64 \<Rightarrow> state_t \<Rightarrow> state_t" where
  "mie_write c val s = s\<lparr>mie := write_with_mask (mie_write_mask c s) val (mie s)\<rparr>"

subsection \<open>Delegation\<close>

definition mideleg_read :: "state_t \<Rightarrow> u64" where
  "mideleg_read s = (if extension_enabled s ISA_H then mideleg s OR MIP_HS_MASK else mideleg s)"

definition mideleg_write :: "proc_cfg \<Rightarrow> u64 \<Rightarrow> state_t \<Rightarrow> state_t" where
  "mideleg_write c val s = s\<lparr>mideleg := val AND delegable_ints c s\<rparr>"

definition hideleg_read :: "state_t \<Rightarrow> u64" where
  "hideleg_read s = hideleg s AND mideleg_read s"

definition masked_write :: "u64 \<Rightarrow> u64 \<Rightarrow> u64 \<Rightarrow> u64" where
  "masked_write m val old = (old AND NOT m) OR (val AND m)"

text \<open>The causes 10 and 20 to 23 belong to the hypervisor.\<close>

abbreviation (input) hypervisor_exceptions :: u64 where "hypervisor_exceptions \<equiv> 0xf00400"

definition medeleg_write :: "u64 \<Rightarrow> state_t \<Rightarrow> state_t" where
  "medeleg_write val s =
     (let m = 0xb3ff OR (if extension_enabled s ISA_H then hypervisor_exceptions else 0)
      in s\<lparr>medeleg := (medeleg s AND NOT m) OR (val AND m)\<rparr>)"

text \<open>The views of \<open>mip\<close> and \<open>mie\<close> under other names (\<open>generic_int_accessor_t\<close>).\<close>

record int_accessor =
  read_mask :: u64
  ip_write_mask :: u64
  ie_write_mask :: u64
  mask_mideleg :: bool
  mask_hideleg :: bool
  shiftamt :: nat

definition sip_sie_accr :: int_accessor where
  "sip_sie_accr = \<lparr>read_mask = NOT MIP_HS_MASK, ip_write_mask = MIP_SSIP OR MIP_LCOFIP, ie_write_mask = NOT MIP_HS_MASK,
     mask_mideleg = True, mask_hideleg = False, shiftamt = 0\<rparr>"

definition hip_hie_accr :: int_accessor where
  "hip_hie_accr = \<lparr>read_mask = MIP_HS_MASK, ip_write_mask = MIP_VSSIP, ie_write_mask = MIP_HS_MASK,
     mask_mideleg = True, mask_hideleg = False, shiftamt = 0\<rparr>"

definition hvip_accr :: int_accessor where
  "hvip_accr = \<lparr>read_mask = MIP_VS_MASK, ip_write_mask = MIP_VS_MASK, ie_write_mask = MIP_VS_MASK,
     mask_mideleg = False, mask_hideleg = False, shiftamt = 0\<rparr>"

definition vsip_vsie_accr :: int_accessor where
  "vsip_vsie_accr = \<lparr>read_mask = MIP_VS_MASK, ip_write_mask = MIP_VSSIP, ie_write_mask = MIP_VS_MASK,
     mask_mideleg = False, mask_hideleg = True, shiftamt = 1\<rparr>"

definition deleg_mask :: "int_accessor \<Rightarrow> state_t \<Rightarrow> u64" where
  "deleg_mask a s = (if mask_hideleg a then hideleg_read s else - 1) AND (if mask_mideleg a then mideleg_read s else - 1)"

definition ip_read :: "int_accessor \<Rightarrow> state_t \<Rightarrow> u64" where
  "ip_read a s = drop_bit (shiftamt a) (mip s AND deleg_mask a s AND read_mask a)"

definition ip_write :: "int_accessor \<Rightarrow> u64 \<Rightarrow> state_t \<Rightarrow> state_t" where
  "ip_write a val s = s\<lparr>mip := write_with_mask (deleg_mask a s AND ip_write_mask a) (push_bit (shiftamt a) val) (mip s)\<rparr>"

definition ie_read :: "int_accessor \<Rightarrow> state_t \<Rightarrow> u64" where
  "ie_read a s = drop_bit (shiftamt a) (mie s AND deleg_mask a s AND read_mask a)"

definition ie_write :: "int_accessor \<Rightarrow> u64 \<Rightarrow> state_t \<Rightarrow> state_t" where
  "ie_write a val s = s\<lparr>mie := write_with_mask (deleg_mask a s AND ie_write_mask a) (push_bit (shiftamt a) val) (mie s)\<rparr>"

subsection \<open>Environment configuration\<close>

definition menvcfg_mask :: "proc_cfg \<Rightarrow> u64" where
  "menvcfg_mask c =
     (if isa_extension c EXT_ZICBOM then 0x40 OR 0x30 else 0)
     OR (if isa_extension c EXT_ZICBOZ then 0x80 else 0)
     OR (if isa_extension c EXT_SVADU then 0x2000000000000000 else 0)
     OR (if isa_extension c EXT_SVPBMT then 0x4000000000000000 else 0)
     OR (if isa_extension c EXT_SSTC then 0x8000000000000000 else 0)"

definition envcfg_write :: "u64 \<Rightarrow> u64 \<Rightarrow> u64 \<Rightarrow> u64" where
  "envcfg_write m val old =
     (let adjusted_val = (if get_field val 0x30 \<noteq> 2 then val else set_field val 0x30 0)
      in masked_write m adjusted_val old)"

definition menvcfg_write :: "proc_cfg \<Rightarrow> u64 \<Rightarrow> state_t \<Rightarrow> state_t" where
  "menvcfg_write c val s = s\<lparr>menvcfg := envcfg_write (menvcfg_mask c) val (menvcfg s)\<rparr>"

subsection \<open>Hypervisor status and counters\<close>

definition hstatus_mask :: "proc_cfg \<Rightarrow> u64" where
  "hstatus_mask c = 0x400000 OR 0x200000 OR (if supports_impl c IMPL_MMU then 0x100000 else 0) OR 0x200 OR 0x100 OR 0x80 OR 0x40"

definition hstatus_write :: "proc_cfg \<Rightarrow> u64 \<Rightarrow> state_t \<Rightarrow> state_t" where
  "hstatus_write c val s = s\<lparr>hstatus := masked_write (hstatus_mask c) val (hstatus s)\<rparr>"

definition hideleg_write :: "u64 \<Rightarrow> state_t \<Rightarrow> state_t" where
  "hideleg_write val s = s\<lparr>hideleg := masked_write MIP_VS_MASK val (hideleg s)\<rparr>"

definition hedeleg_write :: "u64 \<Rightarrow> state_t \<Rightarrow> state_t" where
  "hedeleg_write val s = s\<lparr>hedeleg := masked_write 0xb1ff val (hedeleg s)\<rparr>"

definition mevent_write :: "proc_cfg \<Rightarrow> state_t \<Rightarrow> u64 \<Rightarrow> u64 \<Rightarrow> u64" where
  "mevent_write c s val old =
     (let m = (if extension_enable_table s EXT_SSCOFPMF
               then 0x8000000000000000 OR 0x4000000000000000
                    OR (if isa_bit c ISA_U then 0x1000000000000000 else 0)
                    OR (if isa_bit c ISA_S then 0x2000000000000000 else 0)
                    OR (if extension_enabled s ISA_H then 0x0400000000000000 OR 0x0800000000000000 else 0)
               else 0)
      in (old AND NOT m) OR (val AND m))"

subsection \<open>Extensions\<close>

text \<open>The letters M, A, F, D, Q, C, H and V can be switched off.\<close>

definition misa_write_mask :: "proc_cfg \<Rightarrow> u64" where
  "misa_write_mask c = max_isa c AND (2 ^ ISA_M OR 2 ^ ISA_A OR 2 ^ ISA_F OR 2 ^ ISA_D OR 2 ^ ISA_Q OR 2 ^ ISA_C OR 2 ^ ISA_H OR 2 ^ ISA_V)"

definition dependency :: "u64 \<Rightarrow> nat \<Rightarrow> nat \<Rightarrow> u64" where
  "dependency val feature depends_on = (if val AND 2 ^ depends_on \<noteq> 0 then val else val AND NOT (2 ^ feature))"

text \<open>Compressed instructions and the formats of half precision follow the letters C, F, D and V.\<close>

definition misa_extensions :: "proc_cfg \<Rightarrow> u64 \<Rightarrow> state_t \<Rightarrow> state_t" where
  "misa_extensions c new_misa s =
     (let s = set_extension_enable c EXT_ZCA (new_misa AND 2 ^ ISA_C \<noteq> 0 \<or> \<not> isa_bit c ISA_C) s;
          zca = extension_enable_table s EXT_ZCA;
          s = set_extension_enable c EXT_ZCF (new_misa AND 2 ^ ISA_F \<noteq> 0 \<and> zca) s;
          s = set_extension_enable c EXT_ZCD (new_misa AND 2 ^ ISA_D \<noteq> 0 \<and> zca) s;
          s = set_extension_enable c EXT_ZCB zca s;
          s = set_extension_enable c EXT_ZCMP zca s;
          s = set_extension_enable c EXT_ZCMT zca s;
          s = set_extension_enable c EXT_ZFH (new_misa AND 2 ^ ISA_F \<noteq> 0) s;
          s = set_extension_enable c EXT_ZFHMIN (new_misa AND 2 ^ ISA_F \<noteq> 0) s;
          s = set_extension_enable c EXT_ZVFH (new_misa AND 2 ^ ISA_V \<noteq> 0 \<and> extension_enable_table s EXT_ZFHMIN) s
      in set_extension_enable c EXT_ZVFHMIN (new_misa AND 2 ^ ISA_V \<noteq> 0) s)"

text \<open>Without the hypervisor its bits disappear from the registers that stay.\<close>

definition drop_hypervisor :: "proc_cfg \<Rightarrow> state_t \<Rightarrow> state_t" where
  "drop_hypervisor c s =
     (let s = medeleg_write (medeleg s AND NOT hypervisor_exceptions) s;
          s = (case mnstatus s of None \<Rightarrow> s | Some r \<Rightarrow> mnstatus_write (r AND NOT 0x80) s);
          new_mstatus = mstatus s AND NOT (0x4000000000 OR 0x8000000000);
          s = mstatus_write c new_mstatus s;
          s = (if max_xlen c = 32 then mstatush_write c (drop_bit 32 new_mstatus) s else s);
          s = s\<lparr>mie := write_with_mask MIP_HS_MASK 0 (mie s)\<rparr>;
          s = s\<lparr>mip := write_with_mask MIP_HS_MASK 0 (mip s)\<rparr>;
          s = hstatus_write c 0 s
      in s\<lparr>mevent := map (\<lambda>r. mevent_write c s (r AND NOT (0x0400000000000000 OR 0x0800000000000000)) r) (mevent s)\<rparr>)"

definition misa_write :: "proc_cfg \<Rightarrow> u64 \<Rightarrow> state_t \<Rightarrow> state_t" where
  "misa_write c val s =
     (let old_misa = misa s
      in if val AND 2 ^ ISA_C = 0 \<and> old_misa AND 2 ^ ISA_C \<noteq> 0 \<and> pc s AND 2 \<noteq> 0 then s
         else
           let adjusted_val = dependency (dependency (dependency val ISA_D ISA_F) ISA_Q ISA_D) ISA_V ISA_D;
               prev_h = (old_misa AND 2 ^ ISA_H \<noteq> 0);
               new_misa = (adjusted_val AND misa_write_mask c) OR (old_misa AND NOT (misa_write_mask c));
               new_h = (new_misa AND 2 ^ ISA_H \<noteq> 0);
               s = misa_extensions c new_misa s;
               s = (if \<not> new_h \<and> prev_h then drop_hypervisor c s else s)
           in s\<lparr>misa := new_misa\<rparr>)"

subsection \<open>Address translation registers\<close>

definition satp_valid :: "proc_cfg \<Rightarrow> u64 \<Rightarrow> bool" where
  "satp_valid c val =
     (if max_xlen c = 32 then
        let mode = get_field val 0x80000000
        in if mode = 1 then supports_impl c IMPL_MMU_SV32 else mode = 0
      else
        let mode = get_field val 0xF000000000000000
        in if mode = 8 then supports_impl c IMPL_MMU_SV39
           else if mode = 9 then supports_impl c IMPL_MMU_SV48
           else if mode = 10 then supports_impl c IMPL_MMU_SV57
           else mode = 0)"

definition compute_new_satp :: "proc_cfg \<Rightarrow> u64 \<Rightarrow> u64 \<Rightarrow> u64" where
  "compute_new_satp c old val =
     (let rv64_ppn_mask = push_bit 44 1 - 1;
          mode_mask = (if max_xlen c = 32 then 0x80000000 else 0xF000000000000000);
          asid_mask_if_enabled = (if max_xlen c = 32 then 0x7FC00000 else 0x0FFFF00000000000);
          asid_mask = (if supports_impl c IMPL_MMU_ASID then asid_mask_if_enabled else 0);
          ppn_mask = (if max_xlen c = 32 then 0x003FFFFF else 0x00000FFFFFFFFFFF AND rv64_ppn_mask);
          new_mask = (if satp_valid c val then mode_mask else 0) OR asid_mask OR ppn_mask;
          old_mask = (if satp_valid c val then 0 else mode_mask)
      in (new_mask AND val) OR (old_mask AND old))"

text \<open>The new value, and whether the translation cache is flushed.\<close>

definition base_atp_write :: "proc_cfg \<Rightarrow> u64 \<Rightarrow> u64 \<Rightarrow> u64 \<times> bool" where
  "base_atp_write c val old =
     (let newval = (if supports_impl c IMPL_MMU then compute_new_satp c old val else 0)
      in (newval, newval \<noteq> old))"

definition nonvirtual_satp_write :: "proc_cfg \<Rightarrow> u64 \<Rightarrow> state_t \<Rightarrow> state_t" where
  "nonvirtual_satp_write c val s =
     (let (newval, changed) = base_atp_write c val (satp s) in (if changed then flush s else s)\<lparr>satp := newval\<rparr>)"

definition vsatp_write :: "proc_cfg \<Rightarrow> u64 \<Rightarrow> state_t \<Rightarrow> state_t" where
  "vsatp_write c val s =
     (let (newval, changed) = base_atp_write c val (vsatp s) in (if changed then flush s else s)\<lparr>vsatp := newval\<rparr>)"

definition satp_read :: "state_t \<Rightarrow> u64" where
  "satp_read s = (if virt s then vsatp s else satp s)"

definition satp_write :: "proc_cfg \<Rightarrow> u64 \<Rightarrow> state_t \<Rightarrow> state_t" where
  "satp_write c val s =
     (let newval = (if satp_valid c val then val else satp_read s)
      in if virt s then vsatp_write c newval s else nonvirtual_satp_write c newval s)"

definition hgatp_write :: "proc_cfg \<Rightarrow> u64 \<Rightarrow> state_t \<Rightarrow> state_t" where
  "hgatp_write c val s =
     (let s = flush s;
          m = (if max_xlen c = 32 then
                 0x003FFFFF OR 0x80000000 OR (if supports_impl c IMPL_MMU_VMID then 0x1FC00000 else 0)
               else
                 let m = (0x00000FFFFFFFFFFF AND (push_bit 44 1 - 1)) OR (if supports_impl c IMPL_MMU_VMID then 0x03FFF00000000000 else 0);
                     mode = get_field val 0xF000000000000000
                 in if mode = 0 \<or> supports_impl c IMPL_MMU_SV39 \<and> mode = 8 \<or> supports_impl c IMPL_MMU_SV48 \<and> mode = 9
                        \<or> supports_impl c IMPL_MMU_SV57 \<and> mode = 10
                    then m OR 0xF000000000000000 else m);
          m = m AND NOT 3
      in s\<lparr>hgatp := (hgatp s AND NOT m) OR (val AND m)\<rparr>)"

subsection \<open>Debug registers\<close>

definition dcsr_read :: "dcsr_t \<Rightarrow> u64" where
  "dcsr_read d =
     (let r = set_field 0 0xC0000000 1;
          r = set_flag r 0x8000 (d_ebreakm d);
          r = set_flag r 0x2000 (d_ebreaks d);
          r = set_flag r 0x1000 (d_ebreaku d);
          r = set_flag r 0x20000 (d_ebreakvs d);
          r = set_flag r 0x10000 (d_ebreakvu d);
          r = set_field r 0x400 0;
          r = set_field r 0x200 0;
          r = set_field r 0x1C0 (ucast (d_cause d));
          r = set_flag r 0x4 (d_step d);
          r = set_field r 0x3 (d_prv d)
      in set_flag r 0x20 (d_v d))"

definition dcsr_write :: "u64 \<Rightarrow> state_t \<Rightarrow> state_t" where
  "dcsr_write val s =
     s\<lparr>dcsr := (dcsr s)\<lparr>d_prv := get_field val 0x3,
         d_step := get_flag val 0x4,
         d_ebreakm := get_flag val 0x8000,
         d_ebreaks := (if extension_enabled s ISA_S then get_flag val 0x2000 else False),
         d_ebreaku := (if extension_enabled s ISA_U then get_flag val 0x1000 else False),
         d_ebreakvs := (if extension_enabled s ISA_H then get_flag val 0x20000 else False),
         d_ebreakvu := (if extension_enabled s ISA_H then get_flag val 0x10000 else False),
         d_halt := get_flag val 0x8,
         d_v := (if extension_enabled s ISA_H then get_flag val 0x20 else False)\<rparr>\<rparr>"

definition write_cause_and_prv :: "u8 \<Rightarrow> u64 \<Rightarrow> bool \<Rightarrow> state_t \<Rightarrow> state_t" where
  "write_cause_and_prv cause p v s = s\<lparr>dcsr := (dcsr s)\<lparr>d_cause := cause, d_prv := p, d_v := v\<rparr>\<rparr>"

subsection \<open>Reset\<close>

text \<open>The initial \<open>mstatus\<close>; a width other than 32 and 64 aborts the program.\<close>

definition compute_mstatus_initial_value :: "proc_cfg \<Rightarrow> u64 option" where
  "compute_mstatus_initial_value c = do {
     uxl \<leftarrow> (if isa_bit c ISA_U \<and> max_xlen c \<noteq> 32 then map_option (set_field 0 0x300000000) (xlen_to_uxl (max_xlen c)) else Some 0);
     sxl \<leftarrow> (if isa_bit c ISA_S \<and> max_xlen c \<noteq> 32 then map_option (set_field 0 0xC00000000) (xlen_to_uxl (max_xlen c)) else Some 0);
     Some (set_field 0 0x1800 (if isa_bit c ISA_U then PRV_U else PRV_M) OR uxl OR sxl
           OR (if target_big_endian c
               then (if isa_bit c ISA_U then 0x40 else 0) OR (if isa_bit c ISA_S then 0x1000000000 else 0) OR 0x2000000000
               else 0)) }"

definition dcsr_new :: dcsr_t where
  "dcsr_new = \<lparr>d_prv = 0, d_step = False, d_ebreakm = False, d_ebreaks = False, d_ebreaku = False, d_ebreakvs = False,
     d_ebreakvu = False, d_halt = False, d_v = False, d_cause = 0\<rparr>"

text \<open>
  \<open>state_t::reset\<close> with the calls of \<open>processor_t::reset\<close> around it. The table of the extensions, the triggers and the caches belong
  to the processor and are what they were.
\<close>

definition state_reset ::
  "proc_cfg \<Rightarrow> bool \<Rightarrow> bool \<Rightarrow> (isa_extension_t \<Rightarrow> bool) \<Rightarrow> trigger_t list \<Rightarrow> tlb_t \<Rightarrow> state_t option" where
  "state_reset c halt_on_reset icount table ts t = do {
     ms \<leftarrow> compute_mstatus_initial_value c;
     vsxl \<leftarrow> xlen_to_uxl (max_xlen c);
     Some \<lparr>pc = 0x1000, prv = PRV_M, prev_prv = PRV_M, prv_changed = False, v_changed = False, virt = False, prev_v = False,
       misa = max_isa c, mstatus = ms, mepc = 0, mtval = 0, mtvec = 0, mcause = 0, mie = 0, mip = 0, medeleg = 0, mideleg = 0,
       mevent = replicate 29 0, mnstatus = (if table EXT_SMRNMI then Some 0 else None), mnepc = 0,
       sepc = 0, stval = 0, stvec = 0, scause = 0, satp = 0, mtval2 = 0, mtinst = 0,
       hstatus = set_field 0 0x300000000 vsxl, hideleg = 0, hedeleg = 0, htval = 0, htinst = 0, hgatp = 0,
       vsstatus = ms AND sstatus_read_mask c, vstvec = 0, vsepc = 0, vscause = 0, vstval = 0, vsatp = 0,
       dpc = 0, dcsr = dcsr_new\<lparr>d_halt := halt_on_reset\<rparr>, scontext = 0, mcontext = 0,
       menvcfg = (if table EXT_SVPBMT then 0x4000000000000000 else 0),
       debug_mode = False, single_step = STEP_NONE, serialized = False, in_wfi = False, check_triggers_icount = icount,
       extension_enable_table = table, TM = ts, tlb = t\<rparr> }"

end
