(* ===== verification/Traps.thy ===== *)
theory Traps
  imports Priv_State
begin

text \<open>
  Changes of privilege: interrupts, traps and entry into debug mode (\<open>riscv-isa-sim/riscv/processor.cc\<close>), the instructions that
  return from them or raise them, the instructions on control and status registers, and the exception handlers of the loop that
  executes instructions (\<open>execute.cc\<close>). A C++ exception is a value of the type \<open>exception\<close>; the state keeps what was changed before.
\<close>

section \<open>Definitions\<close>

subsection \<open>Exceptions\<close>

record trap_t =
  t_cause :: u64
  t_gva :: bool
  t_tval :: u64
  t_tval2 :: u64
  t_tinst :: u64

datatype exception =
    Trap trap_t
  | Trigger_matched u64 action_t bool
  | Trap_debug_mode
  | Wait_for_interrupt
  | Abort

definition plain_trap :: "u64 \<Rightarrow> trap_t" where
  "plain_trap which = \<lparr>t_cause = which, t_gva = False, t_tval = 0, t_tval2 = 0, t_tinst = 0\<rparr>"

definition insn_trap :: "u64 \<Rightarrow> bool \<Rightarrow> u64 \<Rightarrow> trap_t" where
  "insn_trap which gva tval = \<lparr>t_cause = which, t_gva = gva, t_tval = tval, t_tval2 = 0, t_tinst = 0\<rparr>"

definition mem_trap :: "u64 \<Rightarrow> bool \<Rightarrow> u64 \<Rightarrow> u64 \<Rightarrow> u64 \<Rightarrow> trap_t" where
  "mem_trap which gva tval tval2 tinst = \<lparr>t_cause = which, t_gva = gva, t_tval = tval, t_tval2 = tval2, t_tinst = tinst\<rparr>"

abbreviation (input) illegal_instruction :: "u64 \<Rightarrow> exception" where "illegal_instruction bits \<equiv> Trap (insn_trap 2 False bits)"
abbreviation (input) virtual_instruction :: "u64 \<Rightarrow> exception" where "virtual_instruction bits \<equiv> Trap (insn_trap 0x16 False bits)"
abbreviation (input) CAUSE_BREAKPOINT :: u64 where "CAUSE_BREAKPOINT \<equiv> 3"

subsection \<open>Privilege\<close>

definition set_privilege :: "u64 \<Rightarrow> bool \<Rightarrow> state_t \<Rightarrow> state_t" where
  "set_privilege p v s =
     (let s = flush s;
          s = s\<lparr>prev_prv := prv s, prev_v := virt s\<rparr>;
          s = s\<lparr>prv := legalize_privilege s p\<rparr>;
          s = s\<lparr>virt := v \<and> prv s \<noteq> PRV_M\<rparr>
      in s\<lparr>prv_changed := prv s \<noteq> prev_prv s, v_changed := virt s \<noteq> prev_v s\<rparr>)"

abbreviation (input) DEBUG_ROM_ENTRY :: u64 where "DEBUG_ROM_ENTRY \<equiv> 0x800"
abbreviation (input) DEBUG_ROM_TVEC :: u64 where "DEBUG_ROM_TVEC \<equiv> 0x808"

definition enter_debug_mode :: "u8 \<Rightarrow> state_t \<Rightarrow> state_t" where
  "enter_debug_mode cause s =
     (let s = s\<lparr>debug_mode := True\<rparr>;
          s = write_cause_and_prv cause (prv s) (virt s) s;
          s = set_privilege PRV_M False s;
          s = s\<lparr>dpc := epc_write (pc s)\<rparr>
      in s\<lparr>pc := DEBUG_ROM_ENTRY, in_wfi := False\<rparr>)"

subsection \<open>Interrupts\<close>

text \<open>A non-maskable interrupt is being handled while \<open>mnstatus\<close> exists and its bit NMIE is clear.\<close>

definition nmie :: "state_t \<Rightarrow> bool" where
  "nmie s \<longleftrightarrow> \<not> (case mnstatus s of None \<Rightarrow> False | Some r \<Rightarrow> get_field r 0x8 = 0)"

definition enabled_interrupts :: "proc_cfg \<Rightarrow> u64 \<Rightarrow> state_t \<Rightarrow> u64" where
  "enabled_interrupts c pending s =
     (let m_enabled = prv s < PRV_M \<or> prv s = PRV_M \<and> get_flag (mstatus s) 0x8;
          enabled = pending AND NOT (mideleg_read s) AND (if m_enabled then - 1 else 0)
      in if enabled \<noteq> 0 then enabled
         else
           let deleg_to_hs = mideleg_read s AND NOT (hideleg_read s);
               sie = get_flag (sstatus_read c s) 0x2;
               hs_enabled = virt s \<or> prv s < PRV_S \<or> prv s = PRV_S \<and> sie;
               enabled = pending AND deleg_to_hs AND (if hs_enabled then - 1 else 0)
           in if virt s \<and> enabled = 0 then
                let vs_enabled = prv s < PRV_S \<or> prv s = PRV_S \<and> sie
                in pending AND hideleg_read s AND (if vs_enabled then - 1 else 0)
              else enabled)"

text \<open>The bits to choose from; \<open>abort\<close> is \<^const>\<open>None\<close>.\<close>

definition select_interrupt :: "u64 \<Rightarrow> u64 option" where
  "select_interrupt e =
     (if drop_bit 12 e \<noteq> 0 then Some (push_bit 12 (drop_bit 12 e))
      else if e AND MIP_MEIP \<noteq> 0 then Some MIP_MEIP
      else if e AND MIP_MSIP \<noteq> 0 then Some MIP_MSIP
      else if e AND MIP_MTIP \<noteq> 0 then Some MIP_MTIP
      else if e AND MIP_SEIP \<noteq> 0 then Some MIP_SEIP
      else if e AND MIP_SSIP \<noteq> 0 then Some MIP_SSIP
      else if e AND MIP_STIP \<noteq> 0 then Some MIP_STIP
      else if e AND MIP_LCOFIP \<noteq> 0 then Some MIP_LCOFIP
      else if e AND MIP_VSEIP \<noteq> 0 then Some MIP_VSEIP
      else if e AND MIP_VSSIP \<noteq> 0 then Some MIP_VSSIP
      else if e AND MIP_VSTIP \<noteq> 0 then Some MIP_VSTIP
      else None)"

text \<open>What the trigger module reads.\<close>

definition hart_trig_view :: "proc_cfg \<Rightarrow> state_t \<Rightarrow> trig_hart" where
  "hart_trig_view c s =
     \<lparr>th_prv = prv s, th_prev_prv = prev_prv s, th_v = virt s, th_prev_v = prev_v s, th_scontext = scontext s,
      th_satp = satp_read s, th_mcontext = mcontext s, th_hgatp = hgatp s, th_mstatus = mstatus s,
      th_sstatus = sstatus_read c s, th_vsstatus = vsstatus s, th_medeleg = medeleg s, th_hedeleg = hedeleg s,
      th_debug_mode = debug_mode s, th_xlen = max_xlen c, th_const_xlen = max_xlen c,
      th_ext_h = extension_enabled s ISA_H, th_ext_s = extension_enabled s ISA_S, th_ext_u = extension_enabled s ISA_U\<rparr>"

definition interrupt_bit :: "proc_cfg \<Rightarrow> u64" where
  "interrupt_bit c = push_bit (max_xlen c - 1) 1"

text \<open>A throw is the first component.\<close>

definition take_interrupt :: "proc_cfg \<Rightarrow> u64 \<Rightarrow> state_t \<Rightarrow> exception option \<times> state_t" where
  "take_interrupt c pending s =
     (if pending = 0 then (None, s)
      else
        let s = s\<lparr>in_wfi := False\<rparr>;
            enabled = enabled_interrupts c pending s
        in if \<not> debug_mode s \<and> nmie s \<and> enabled \<noteq> 0 then
             case select_interrupt enabled of
               None \<Rightarrow> (Some Abort, s)
             | Some chosen \<Rightarrow>
                 (case (if check_triggers_icount s then detect_icount_match (hart_trig_view c s) (TM s) else Some (None, TM s)) of
                    None \<Rightarrow> (Some Abort, s)
                  | Some (_, ts) \<Rightarrow> (Some (Trap (plain_trap (interrupt_bit c OR of_nat (ctz chosen)))), s\<lparr>TM := ts\<rparr>))
           else (None, s))"

definition take_pending_interrupt :: "proc_cfg \<Rightarrow> state_t \<Rightarrow> exception option \<times> state_t" where
  "take_pending_interrupt c s = take_interrupt c (mip s AND mie s) s"

subsection \<open>Traps\<close>

definition trap_vector :: "u64 \<Rightarrow> bool \<Rightarrow> u64 \<Rightarrow> u64" where
  "trap_vector tvec interrupt num = (tvec AND NOT 1) + (if tvec AND 1 \<noteq> 0 \<and> interrupt then 4 * num else 0)"

text \<open>The status word with the interrupt enable of level S stacked.\<close>

definition stack_s :: "u64 \<Rightarrow> u64 \<Rightarrow> u64" where
  "stack_s p r =
     (let r = set_field r 0x20 (get_field r 0x2);
          r = set_field r 0x100 p
      in set_field r 0x2 0)"

text \<open>The hypervisor status with the virtualization mode of the hart.\<close>

definition stack_h :: "bool \<Rightarrow> bool \<Rightarrow> u64 \<Rightarrow> u64 \<Rightarrow> u64" where
  "stack_h curr_virt gva p r =
     (let r = (if curr_virt then set_field r 0x100 p else r);
          r = set_flag r 0x80 curr_virt
      in set_flag r 0x40 gva)"

definition trap_to_vs :: "proc_cfg \<Rightarrow> trap_t \<Rightarrow> bool \<Rightarrow> u64 \<Rightarrow> u64 \<Rightarrow> state_t \<Rightarrow> state_t" where
  "trap_to_vs c t interrupt num epc s =
     (let s = s\<lparr>pc := trap_vector (vstvec s) interrupt num\<rparr>;
          s = s\<lparr>vscause := (if interrupt then t_cause t - 1 else t_cause t)\<rparr>;
          s = s\<lparr>vsepc := epc_write epc\<rparr>;
          s = s\<lparr>vstval := t_tval t\<rparr>;
          s = sstatus_write c (stack_s (prv s) (sstatus_read c s)) s
      in set_privilege PRV_S True s)"

definition trap_to_hs :: "proc_cfg \<Rightarrow> trap_t \<Rightarrow> bool \<Rightarrow> u64 \<Rightarrow> u64 \<Rightarrow> bool \<Rightarrow> state_t \<Rightarrow> state_t" where
  "trap_to_hs c t interrupt num epc curr_virt s =
     (let s = s\<lparr>pc := trap_vector (stvec s) interrupt num\<rparr>;
          s = s\<lparr>scause := t_cause t\<rparr>;
          s = s\<lparr>sepc := epc_write epc\<rparr>;
          s = s\<lparr>stval := t_tval t\<rparr>;
          s = s\<lparr>htval := t_tval2 t\<rparr>;
          s = s\<lparr>htinst := t_tinst t\<rparr>;
          s = nonvirtual_sstatus_write c (stack_s (prv s) (nonvirtual_sstatus_read c s)) s;
          s = (if extension_enabled s ISA_H then hstatus_write c (stack_h curr_virt (t_gva t) (prv s) (hstatus s)) s else s)
      in set_privilege PRV_S False s)"

definition trap_to_m :: "proc_cfg \<Rightarrow> trap_t \<Rightarrow> bool \<Rightarrow> u64 \<Rightarrow> u64 \<Rightarrow> bool \<Rightarrow> state_t \<Rightarrow> state_t" where
  "trap_to_m c t interrupt num epc curr_virt s =
     (let s = s\<lparr>pc := (if \<not> nmie s then 0 else trap_vector (mtvec s) interrupt num)\<rparr>;
          s = s\<lparr>mepc := epc_write epc\<rparr>;
          s = s\<lparr>mcause := t_cause t\<rparr>;
          s = s\<lparr>mtval := t_tval t\<rparr>;
          s = s\<lparr>mtval2 := t_tval2 t\<rparr>;
          s = s\<lparr>mtinst := t_tinst t\<rparr>;
          r = mstatus s;
          r = set_field r 0x80 (get_field r 0x8);
          r = set_field r 0x1800 (prv s);
          r = set_field r 0x8 0;
          r = set_flag r 0x8000000000 curr_virt;
          r = set_flag r 0x4000000000 (t_gva t);
          s = mstatus_write c r s;
          s = (if max_xlen c = 32 then mstatush_write c (drop_bit 32 r) s else s)
      in set_privilege PRV_M False s)"

text \<open>Bit \<open>num\<close> of a delegation register.\<close>

definition delegated :: "proc_cfg \<Rightarrow> u64 \<Rightarrow> u64 \<Rightarrow> bool" where
  "delegated c deleg num \<longleftrightarrow> num < of_nat (max_xlen c) \<and> drop_bit (unat num) deleg AND 1 \<noteq> 0"

definition take_trap :: "proc_cfg \<Rightarrow> trap_t \<Rightarrow> u64 \<Rightarrow> state_t \<Rightarrow> state_t" where
  "take_trap c t epc s =
     (if debug_mode s then s\<lparr>pc := (if t_cause t = CAUSE_BREAKPOINT then DEBUG_ROM_ENTRY else DEBUG_ROM_TVEC)\<rparr>
      else
        let curr_virt = virt s;
            interrupt = (t_cause t AND interrupt_bit c \<noteq> 0);
            num = (if interrupt then t_cause t AND NOT (interrupt_bit c) else t_cause t);
            vsdeleg = (if curr_virt \<and> prv s \<le> PRV_S
                       then (if interrupt then hideleg_read s else medeleg s AND hedeleg s) else 0);
            hsdeleg = (if prv s \<le> PRV_S then (if interrupt then mideleg_read s else medeleg s) else 0)
        in if prv s \<le> PRV_S \<and> delegated c vsdeleg num then trap_to_vs c t interrupt num epc s
           else if prv s \<le> PRV_S \<and> delegated c hsdeleg num then trap_to_hs c t interrupt num epc curr_virt s
           else trap_to_m c t interrupt num epc curr_virt s)"

definition take_trigger_action :: "proc_cfg \<Rightarrow> action_t \<Rightarrow> u64 \<Rightarrow> u64 \<Rightarrow> bool \<Rightarrow> state_t \<Rightarrow> state_t option" where
  "take_trigger_action c action breakpoint_tval epc v s =
     (case action of
        ACTION_DEBUG_MODE \<Rightarrow> Some (enter_debug_mode 2 s)
      | ACTION_DEBUG_EXCEPTION \<Rightarrow> Some (take_trap c (insn_trap CAUSE_BREAKPOINT v breakpoint_tval) epc s)
      | _ \<Rightarrow> None)"

subsection \<open>Exception handlers of the execution loop\<close>

text \<open>
  \<open>pc\<close> and \<open>instret\<close> are the local variables of \<open>step\<close> when the exception arrives, \<open>n\<close> the number of instructions left to execute; the
  handlers for traps and waiting set \<open>n\<close> to the instructions executed. The match that the memory port remembers is dropped there. \<^const>\<open>None\<close> is \<open>abort\<close>, or an assertion of a trigger that fails.
\<close>

definition handle_exception :: "proc_cfg \<Rightarrow> exception \<Rightarrow> u64 \<Rightarrow> nat \<Rightarrow> nat \<Rightarrow> state_t \<Rightarrow> (nat \<times> nat \<times> state_t) option" where
  "handle_exception c e pcv instret n s =
     (case e of
        Trap t \<Rightarrow>
          let s = take_trap c t pcv s
          in (case detect_trap_match (hart_trig_view c s) (t_cause t) (TM s) of
                None \<Rightarrow> None
              | Some (Some (_, action), ts) \<Rightarrow>
                  map_option (\<lambda>s. (instret, instret, s)) (take_trigger_action c action 0 (pc s) False (s\<lparr>TM := ts\<rparr>))
              | Some (None, ts) \<Rightarrow>
                  let s = s\<lparr>TM := ts\<rparr>
                  in Some (instret, instret,
                       if single_step s = STEP_STEPPED then enter_debug_mode 4 (s\<lparr>single_step := STEP_NONE\<rparr>) else s))
      | Trigger_matched address action gva \<Rightarrow>
          map_option (\<lambda>s. (instret, n, s)) (take_trigger_action c action address pcv gva s)
      | Trap_debug_mode \<Rightarrow> Some (instret, n, enter_debug_mode 1 s)
      | Wait_for_interrupt \<Rightarrow> Some (instret + 1, instret + 1, s\<lparr>in_wfi := True\<rparr>)
      | Abort \<Rightarrow> None)"

text \<open>Requests of the debugger at the start of \<open>step\<close>.\<close>

datatype halt_request_t = HR_NONE | HR_REGULAR | HR_GROUP

definition step_halt :: "halt_request_t \<Rightarrow> state_t \<Rightarrow> state_t" where
  "step_halt halt_request s =
     (if debug_mode s then s
      else if halt_request = HR_REGULAR then enter_debug_mode 3 s
      else if halt_request = HR_GROUP then enter_debug_mode 6 s
      else if d_halt (dcsr s) then enter_debug_mode 5 s
      else s)"

subsection \<open>Return instructions\<close>

text \<open>An instruction returns the next program counter, or a marker when it has set the program counter itself.\<close>

type_synonym insn_result = "(exception + u64) \<times> state_t"

abbreviation (input) PC_SERIALIZE_BEFORE :: u64 where "PC_SERIALIZE_BEFORE \<equiv> 3"
abbreviation (input) PC_SERIALIZE_AFTER :: u64 where "PC_SERIALIZE_AFTER \<equiv> 5"

definition set_pc_and_serialize :: "u64 \<Rightarrow> state_t \<Rightarrow> state_t" where
  "set_pc_and_serialize x s = s\<lparr>pc := x AND pc_alignment_mask s\<rparr>"

definition zext_xlen :: "proc_cfg \<Rightarrow> u64 \<Rightarrow> u64" where
  "zext_xlen c x = drop_bit (64 - max_xlen c) (push_bit (64 - max_xlen c) x)"

text \<open>\<open>put_csr(CSR_MSTATUS, val)\<close>: a hart of 32 bits writes the lower half.\<close>

definition put_mstatus :: "proc_cfg \<Rightarrow> u64 \<Rightarrow> state_t \<Rightarrow> state_t" where
  "put_mstatus c val s = (if max_xlen c = 32 then mstatus_low_write c (zext_xlen c val) s else mstatus_write c (zext_xlen c val) s)"

definition mret :: "proc_cfg \<Rightarrow> u64 \<Rightarrow> state_t \<Rightarrow> insn_result" where
  "mret c bits s =
     (if prv s < PRV_M then (Inl (illegal_instruction bits), s)
      else
        let s = set_pc_and_serialize (epc_read s (mepc s)) s;
            r = mstatus s;
            prev_prv = get_field r 0x1800;
            prev_virt = get_flag r 0x8000000000;
            r = (if prev_prv \<noteq> PRV_M then set_field r 0x20000 0 else r);
            r = set_field r 0x8 (get_field r 0x80);
            r = set_field r 0x80 1;
            r = set_field r 0x1800 (if extension_enabled s ISA_U then PRV_U else PRV_M);
            r = set_field r 0x8000000000 0;
            s = put_mstatus c r s
        in (Inr PC_SERIALIZE_AFTER, set_privilege prev_prv prev_virt s))"

definition sret :: "proc_cfg \<Rightarrow> u64 \<Rightarrow> state_t \<Rightarrow> insn_result" where
  "sret c bits s =
     (if \<not> extension_enabled s ISA_S then (Inl (illegal_instruction bits), s)
      else
        let prev_hstatus = hstatus s
        in if virt s \<and> (prv s = PRV_U \<or> get_flag prev_hstatus 0x400000) then (Inl (virtual_instruction bits), s)
           else if \<not> virt s \<and> prv s < (if get_flag (mstatus s) 0x400000 then PRV_M else PRV_S) then (Inl (illegal_instruction bits), s)
           else
             let s = set_pc_and_serialize (epc_read s (if virt s then vsepc s else sepc s)) s;
                 r = sstatus_read c s;
                 prev_prv = get_field r 0x100;
                 r = set_field r 0x2 (get_field r 0x20);
                 r = set_field r 0x20 1;
                 r = set_field r 0x100 PRV_U;
                 s = sstatus_write c r s;
                 prev_virt = (if \<not> virt s \<and> extension_enabled s ISA_H then get_flag prev_hstatus 0x80 else virt s);
                 s = (if \<not> virt s then
                        let s = (if extension_enabled s ISA_H then hstatus_write c (set_field prev_hstatus 0x80 0) s else s)
                        in mstatus_write c (set_field (mstatus s) 0x20000 0) s
                      else s)
             in (Inr PC_SERIALIZE_AFTER, set_privilege prev_prv prev_virt s))"

text \<open>The register \<open>mnstatus\<close> exists with the extension that the instruction requires.\<close>

definition mnret :: "proc_cfg \<Rightarrow> u64 \<Rightarrow> state_t \<Rightarrow> insn_result" where
  "mnret c bits s =
     (case mnstatus s of
        None \<Rightarrow> (Inl (illegal_instruction bits), s)
      | Some r \<Rightarrow>
          if prv s < PRV_M then (Inl (illegal_instruction bits), s)
          else
            let s = set_pc_and_serialize (epc_read s (mnepc s)) s;
                prev_prv = get_field r 0x1800;
                prev_virt = get_flag r 0x80;
                s = (if prev_prv \<noteq> PRV_M then mstatus_write c (set_field (mstatus s) 0x20000 0) s else s);
                s = mnstatus_write (set_field r 0x8 1) s
            in (Inr PC_SERIALIZE_AFTER, set_privilege prev_prv prev_virt s))"

definition dret :: "proc_cfg \<Rightarrow> u64 \<Rightarrow> state_t \<Rightarrow> insn_result" where
  "dret c bits s =
     (if \<not> debug_mode s then (Inl (illegal_instruction bits), s)
      else
        let s = set_pc_and_serialize (epc_read s (dpc s)) s;
            s = set_privilege (d_prv (dcsr s)) (d_v (dcsr s)) s;
            s = (if prv s < PRV_M then mstatus_write c (mstatus s AND NOT 0x20000) s else s);
            s = s\<lparr>debug_mode := False\<rparr>
        in (Inr PC_SERIALIZE_AFTER, if d_step (dcsr s) then s\<lparr>single_step := STEP_STEPPING\<rparr> else s))"

subsection \<open>Instructions that raise exceptions\<close>

definition wfi :: "u64 \<Rightarrow> u64 \<Rightarrow> state_t \<Rightarrow> insn_result" where
  "wfi bits npc s =
     (if virt s \<and> prv s = PRV_U then (Inl (virtual_instruction bits), s)
      else if get_flag (mstatus s) 0x200000 \<and> prv s < PRV_M then (Inl (illegal_instruction bits), s)
      else if \<not> get_flag (mstatus s) 0x200000 \<and> virt s \<and> get_flag (hstatus s) 0x200000 then (Inl (virtual_instruction bits), s)
      else if \<not> get_flag (mstatus s) 0x200000 \<and> \<not> virt s \<and> extension_enabled s ISA_S \<and> prv s < PRV_S then (Inl (illegal_instruction bits), s)
      else (Inl Wait_for_interrupt, set_pc_and_serialize npc s))"

definition ecall :: "state_t \<Rightarrow> insn_result" where
  "ecall s =
     (Inl (if prv s = PRV_U then Trap (plain_trap 8)
           else if prv s = PRV_S then (if virt s then Trap (plain_trap 0xa) else Trap (plain_trap 9))
           else if prv s = PRV_M then Trap (plain_trap 0xb)
           else Abort), s)"

text \<open>\<open>roi\<close> is the result of \<open>handle_roi_ebreak\<close>, which changes the branch statistics only; \<open>pc\<close> is the address of the instruction.\<close>

definition sext_xlen :: "proc_cfg \<Rightarrow> u64 \<Rightarrow> u64" where
  "sext_xlen c x = signed_take_bit (max_xlen c - 1) x"

definition ebreak :: "proc_cfg \<Rightarrow> bool \<Rightarrow> u64 \<Rightarrow> state_t \<Rightarrow> insn_result" where
  "ebreak c roi pcv s =
     (if roi then
        let x = pcv + 4
        in if x AND NOT (pc_alignment_mask s) \<noteq> 0 then (Inl (Trap (mem_trap 0 (virt s) x 0 0)), s)
           else (Inr (sext_xlen c x), s)
      else if \<not> debug_mode s \<and>
          (\<not> virt s \<and> prv s = PRV_M \<and> d_ebreakm (dcsr s) \<or> \<not> virt s \<and> prv s = PRV_S \<and> d_ebreaks (dcsr s)
           \<or> \<not> virt s \<and> prv s = PRV_U \<and> d_ebreaku (dcsr s) \<or> virt s \<and> prv s = PRV_S \<and> d_ebreakvs (dcsr s)
           \<or> virt s \<and> prv s = PRV_U \<and> d_ebreakvu (dcsr s)) then (Inl Trap_debug_mode, s)
      else (Inl (Trap (insn_trap CAUSE_BREAKPOINT (virt s) pcv)), s))"

end
