(* ===== verification/Csr_Access.thy ===== *)
theory Csr_Access
  imports Traps
begin

text \<open>
  Access to the privileged registers by address (\<open>get_csr\<close>, \<open>put_csr\<close> of \<open>riscv-isa-sim/riscv/processor.cc\<close>), the checks of
  \<open>verify_permissions\<close> (\<open>csrs.cc\<close>) and the instructions \<open>csrrw\<close> to \<open>csrrci\<close>. The map of registers has the privileged registers of
  \<^typ>\<open>state_t\<close>; the registers of other units (memory protection, triggers, counters, floating point, vectors) are not in it.
\<close>

section \<open>Definitions\<close>

datatype csr =
    CSR_MSTATUS | CSR_MSTATUSH | CSR_MISA | CSR_MEDELEG | CSR_MIDELEG | CSR_MIE | CSR_MTVEC | CSR_MENVCFG | CSR_MENVCFGH
  | CSR_MEPC | CSR_MCAUSE | CSR_MTVAL | CSR_MIP | CSR_MTINST | CSR_MTVAL2 | CSR_MNEPC | CSR_MNSTATUS
  | CSR_SSTATUS | CSR_SIE | CSR_STVEC | CSR_SEPC | CSR_SCAUSE | CSR_STVAL | CSR_SIP | CSR_SATP
  | CSR_HSTATUS | CSR_HEDELEG | CSR_HIDELEG | CSR_HIE | CSR_HTVAL | CSR_HIP | CSR_HVIP | CSR_HTINST | CSR_HGATP
  | CSR_VSSTATUS | CSR_VSIE | CSR_VSTVEC | CSR_VSEPC | CSR_VSCAUSE | CSR_VSTVAL | CSR_VSIP | CSR_VSATP
  | CSR_SCONTEXT | CSR_HCONTEXT | CSR_MCONTEXT | CSR_DCSR | CSR_DPC

definition csr_addresses :: "(u64 \<times> csr) list" where
  "csr_addresses =
     [(0x300, CSR_MSTATUS), (0x310, CSR_MSTATUSH), (0x301, CSR_MISA), (0x302, CSR_MEDELEG), (0x303, CSR_MIDELEG), (0x304, CSR_MIE),
      (0x305, CSR_MTVEC), (0x30a, CSR_MENVCFG), (0x31a, CSR_MENVCFGH), (0x341, CSR_MEPC), (0x342, CSR_MCAUSE), (0x343, CSR_MTVAL),
      (0x344, CSR_MIP), (0x34a, CSR_MTINST), (0x34b, CSR_MTVAL2), (0x741, CSR_MNEPC), (0x744, CSR_MNSTATUS),
      (0x100, CSR_SSTATUS), (0x104, CSR_SIE), (0x105, CSR_STVEC), (0x141, CSR_SEPC), (0x142, CSR_SCAUSE), (0x143, CSR_STVAL),
      (0x144, CSR_SIP), (0x180, CSR_SATP),
      (0x600, CSR_HSTATUS), (0x602, CSR_HEDELEG), (0x603, CSR_HIDELEG), (0x604, CSR_HIE), (0x643, CSR_HTVAL), (0x644, CSR_HIP),
      (0x645, CSR_HVIP), (0x64a, CSR_HTINST), (0x680, CSR_HGATP),
      (0x200, CSR_VSSTATUS), (0x204, CSR_VSIE), (0x205, CSR_VSTVEC), (0x241, CSR_VSEPC), (0x242, CSR_VSCAUSE), (0x243, CSR_VSTVAL),
      (0x244, CSR_VSIP), (0x280, CSR_VSATP),
      (0x5a8, CSR_SCONTEXT), (0x6a8, CSR_HCONTEXT), (0x7a8, CSR_MCONTEXT), (0x7b0, CSR_DCSR), (0x7b1, CSR_DPC)]"

text \<open>Some registers exist in some configurations only.\<close>

definition csr_exists :: "proc_cfg \<Rightarrow> csr \<Rightarrow> bool" where
  "csr_exists c r =
     (case r of
        CSR_MSTATUSH \<Rightarrow> max_xlen c = 32
      | CSR_MENVCFG \<Rightarrow> isa_bit c ISA_U
      | CSR_MENVCFGH \<Rightarrow> isa_bit c ISA_U \<and> max_xlen c = 32
      | CSR_MNEPC \<Rightarrow> isa_extension c EXT_SMRNMI
      | CSR_MNSTATUS \<Rightarrow> isa_extension c EXT_SMRNMI
      | _ \<Rightarrow> True)"

definition csrmap :: "proc_cfg \<Rightarrow> u64 \<Rightarrow> csr option" where
  "csrmap c which = (case map_of csr_addresses which of None \<Rightarrow> None | Some r \<Rightarrow> if csr_exists c r then Some r else None)"

subsection \<open>Reading\<close>

primrec csr_read :: "proc_cfg \<Rightarrow> csr \<Rightarrow> state_t \<Rightarrow> u64" where
  "csr_read c CSR_MSTATUS s = (if max_xlen c = 32 then mstatus s AND 0xffffffff else mstatus s)"
| "csr_read c CSR_MSTATUSH s = drop_bit 32 (mstatus s) AND 0xffffffff"
| "csr_read c CSR_MISA s = misa s"
| "csr_read c CSR_MEDELEG s = medeleg s"
| "csr_read c CSR_MIDELEG s = mideleg_read s"
| "csr_read c CSR_MIE s = mie s"
| "csr_read c CSR_MTVEC s = mtvec s"
| "csr_read c CSR_MENVCFG s = (if max_xlen c = 32 then menvcfg s AND 0xffffffff else menvcfg s)"
| "csr_read c CSR_MENVCFGH s = drop_bit 32 (menvcfg s) AND 0xffffffff"
| "csr_read c CSR_MEPC s = epc_read s (mepc s)"
| "csr_read c CSR_MCAUSE s = cause_read c (max_xlen c) (mcause s)"
| "csr_read c CSR_MTVAL s = mtval s"
| "csr_read c CSR_MIP s = mip s"
| "csr_read c CSR_MTINST s = mtinst s"
| "csr_read c CSR_MTVAL2 s = mtval2 s"
| "csr_read c CSR_MNEPC s = epc_read s (mnepc s)"
| "csr_read c CSR_MNSTATUS s = (case mnstatus s of None \<Rightarrow> 0 | Some r \<Rightarrow> r)"
| "csr_read c CSR_SSTATUS s = sstatus_read c s"
| "csr_read c CSR_SIE s = ie_read (if virt s then vsip_vsie_accr else sip_sie_accr) s"
| "csr_read c CSR_STVEC s = (if virt s then vstvec s else stvec s)"
| "csr_read c CSR_SEPC s = epc_read s (if virt s then vsepc s else sepc s)"
| "csr_read c CSR_SCAUSE s = cause_read c (max_xlen c) (if virt s then vscause s else scause s)"
| "csr_read c CSR_STVAL s = (if virt s then vstval s else stval s)"
| "csr_read c CSR_SIP s = ip_read (if virt s then vsip_vsie_accr else sip_sie_accr) s"
| "csr_read c CSR_SATP s = satp_read s"
| "csr_read c CSR_HSTATUS s = hstatus s"
| "csr_read c CSR_HEDELEG s = hedeleg s"
| "csr_read c CSR_HIDELEG s = hideleg_read s"
| "csr_read c CSR_HIE s = ie_read hip_hie_accr s"
| "csr_read c CSR_HTVAL s = htval s"
| "csr_read c CSR_HIP s = ip_read hip_hie_accr s"
| "csr_read c CSR_HVIP s = ip_read hvip_accr s"
| "csr_read c CSR_HTINST s = htinst s"
| "csr_read c CSR_HGATP s = hgatp s"
| "csr_read c CSR_VSSTATUS s = vsstatus s"
| "csr_read c CSR_VSIE s = ie_read vsip_vsie_accr s"
| "csr_read c CSR_VSTVEC s = vstvec s"
| "csr_read c CSR_VSEPC s = epc_read s (vsepc s)"
| "csr_read c CSR_VSCAUSE s = cause_read c (max_xlen c) (vscause s)"
| "csr_read c CSR_VSTVAL s = vstval s"
| "csr_read c CSR_VSIP s = ip_read vsip_vsie_accr s"
| "csr_read c CSR_VSATP s = vsatp s"
| "csr_read c CSR_SCONTEXT s = scontext s"
| "csr_read c CSR_HCONTEXT s = mcontext s"
| "csr_read c CSR_MCONTEXT s = mcontext s"
| "csr_read c CSR_DCSR s = dcsr_read (dcsr s)"
| "csr_read c CSR_DPC s = epc_read s (dpc s)"

subsection \<open>Writing\<close>

text \<open>The masks of the context registers; the one of \<open>hcontext\<close> is computed at reset, when all extensions are enabled.\<close>

definition scontext_mask :: "proc_cfg \<Rightarrow> u64" where
  "scontext_mask c = push_bit (if max_xlen c = 32 then 16 else 34) 1 - 1"

definition hcontext_mask :: "proc_cfg \<Rightarrow> u64" where
  "hcontext_mask c = push_bit ((if max_xlen c = 32 then 6 else 13) + (if isa_bit c ISA_H then 1 else 0)) 1 - 1"

primrec csr_write :: "proc_cfg \<Rightarrow> csr \<Rightarrow> u64 \<Rightarrow> state_t \<Rightarrow> state_t" where
  "csr_write c CSR_MSTATUS val s = (if max_xlen c = 32 then mstatus_low_write c val s else mstatus_write c val s)"
| "csr_write c CSR_MSTATUSH val s = mstatush_write c val s"
| "csr_write c CSR_MISA val s = misa_write c val s"
| "csr_write c CSR_MEDELEG val s = medeleg_write val s"
| "csr_write c CSR_MIDELEG val s = mideleg_write c val s"
| "csr_write c CSR_MIE val s = mie_write c val s"
| "csr_write c CSR_MTVEC val s = s\<lparr>mtvec := tvec_write val\<rparr>"
| "csr_write c CSR_MENVCFG val s =
     menvcfg_write c (if max_xlen c = 32 then push_bit 32 (drop_bit 32 (menvcfg s)) OR (val AND 0xffffffff) else val) s"
| "csr_write c CSR_MENVCFGH val s = menvcfg_write c (drop_bit 32 (push_bit 32 (menvcfg s)) OR push_bit 32 (val AND 0xffffffff)) s"
| "csr_write c CSR_MEPC val s = s\<lparr>mepc := epc_write val\<rparr>"
| "csr_write c CSR_MCAUSE val s = s\<lparr>mcause := val\<rparr>"
| "csr_write c CSR_MTVAL val s = s\<lparr>mtval := val\<rparr>"
| "csr_write c CSR_MIP val s = mip_write c val s"
| "csr_write c CSR_MTINST val s = s\<lparr>mtinst := val\<rparr>"
| "csr_write c CSR_MTVAL2 val s = s\<lparr>mtval2 := val\<rparr>"
| "csr_write c CSR_MNEPC val s = s\<lparr>mnepc := epc_write val\<rparr>"
| "csr_write c CSR_MNSTATUS val s = mnstatus_write val s"
| "csr_write c CSR_SSTATUS val s = sstatus_write c val s"
| "csr_write c CSR_SIE val s = ie_write (if virt s then vsip_vsie_accr else sip_sie_accr) val s"
| "csr_write c CSR_STVEC val s = (if virt s then s\<lparr>vstvec := tvec_write val\<rparr> else s\<lparr>stvec := tvec_write val\<rparr>)"
| "csr_write c CSR_SEPC val s = (if virt s then s\<lparr>vsepc := epc_write val\<rparr> else s\<lparr>sepc := epc_write val\<rparr>)"
| "csr_write c CSR_SCAUSE val s = (if virt s then s\<lparr>vscause := val\<rparr> else s\<lparr>scause := val\<rparr>)"
| "csr_write c CSR_STVAL val s = (if virt s then s\<lparr>vstval := val\<rparr> else s\<lparr>stval := val\<rparr>)"
| "csr_write c CSR_SIP val s = ip_write (if virt s then vsip_vsie_accr else sip_sie_accr) val s"
| "csr_write c CSR_SATP val s = satp_write c val s"
| "csr_write c CSR_HSTATUS val s = hstatus_write c val s"
| "csr_write c CSR_HEDELEG val s = hedeleg_write val s"
| "csr_write c CSR_HIDELEG val s = hideleg_write val s"
| "csr_write c CSR_HIE val s = ie_write hip_hie_accr val s"
| "csr_write c CSR_HTVAL val s = s\<lparr>htval := val\<rparr>"
| "csr_write c CSR_HIP val s = ip_write hip_hie_accr val s"
| "csr_write c CSR_HVIP val s = ip_write hvip_accr val s"
| "csr_write c CSR_HTINST val s = s\<lparr>htinst := val\<rparr>"
| "csr_write c CSR_HGATP val s = hgatp_write c val s"
| "csr_write c CSR_VSSTATUS val s = vsstatus_write c val s"
| "csr_write c CSR_VSIE val s = ie_write vsip_vsie_accr val s"
| "csr_write c CSR_VSTVEC val s = s\<lparr>vstvec := tvec_write val\<rparr>"
| "csr_write c CSR_VSEPC val s = s\<lparr>vsepc := epc_write val\<rparr>"
| "csr_write c CSR_VSCAUSE val s = s\<lparr>vscause := val\<rparr>"
| "csr_write c CSR_VSTVAL val s = s\<lparr>vstval := val\<rparr>"
| "csr_write c CSR_VSIP val s = ip_write vsip_vsie_accr val s"
| "csr_write c CSR_VSATP val s = vsatp_write c val s"
| "csr_write c CSR_SCONTEXT val s = s\<lparr>scontext := masked_write (scontext_mask c) val (scontext s)\<rparr>"
| "csr_write c CSR_HCONTEXT val s = s\<lparr>mcontext := masked_write (hcontext_mask c) val (mcontext s)\<rparr>"
| "csr_write c CSR_MCONTEXT val s = s\<lparr>mcontext := masked_write (hcontext_mask c) val (mcontext s)\<rparr>"
| "csr_write c CSR_DCSR val s = dcsr_write val s"
| "csr_write c CSR_DPC val s = s\<lparr>dpc := epc_write val\<rparr>"

subsection \<open>Permissions\<close>

text \<open>\<^const>\<open>None\<close> when the access is allowed. The two middle digits of an address are the privilege it takes and whether it is read-only.\<close>

definition base_permissions :: "u64 \<Rightarrow> u64 \<Rightarrow> bool \<Rightarrow> state_t \<Rightarrow> exception option" where
  "base_permissions address bits wr s =
     (let priv = (if prv s = PRV_S \<and> \<not> virt s then PRV_HS else prv s);
          csr_priv = get_field address 0x300;
          csr_read_only = (get_field address 0xC00 = 3)
      in if csr_priv = PRV_S \<and> \<not> extension_enabled s ISA_S \<or> csr_priv = PRV_HS \<and> \<not> extension_enabled s ISA_H
         then Some (illegal_instruction bits)
         else if wr \<and> csr_read_only then Some (illegal_instruction bits)
         else if priv < csr_priv then
           (if virt s \<and> csr_priv \<le> PRV_HS then Some (virtual_instruction bits) else Some (illegal_instruction bits))
         else None)"

text \<open>
  What the classes \<open>mideleg_csr_t\<close>, \<open>medeleg_csr_t\<close>, \<open>hypervisor_csr_t\<close>, \<open>dcsr_csr_t\<close>, \<open>dpc_csr_t\<close>, \<open>virtualized_satp_csr_t\<close>, \<open>satp_csr_t\<close> and
  \<open>hgatp_csr_t\<close> check after that.
\<close>

definition own_permissions :: "csr \<Rightarrow> u64 \<Rightarrow> state_t \<Rightarrow> exception option" where
  "own_permissions r bits s =
     (if r \<in> {CSR_MIDELEG, CSR_MEDELEG} \<and> \<not> extension_enabled s ISA_S then Some (illegal_instruction bits)
      else if r \<in> {CSR_MTVAL2, CSR_MTINST} \<and> \<not> extension_enabled s ISA_H then Some (illegal_instruction bits)
      else if r \<in> {CSR_DCSR, CSR_DPC} \<and> \<not> debug_mode s then Some (illegal_instruction bits)
      else if r = CSR_SATP \<and> virt s \<and> get_flag (hstatus s) 0x100000 then Some (virtual_instruction bits)
      else if r = CSR_SATP \<and> \<not> virt s \<and> get_flag (mstatus s) 0x100000 \<and> prv s \<noteq> PRV_M then Some (illegal_instruction bits)
      else if r = CSR_HGATP \<and> \<not> virt s \<and> get_flag (mstatus s) 0x100000 \<and> prv s < PRV_M then Some (illegal_instruction bits)
      else None)"

definition verify_permissions :: "u64 \<Rightarrow> csr \<Rightarrow> u64 \<Rightarrow> bool \<Rightarrow> state_t \<Rightarrow> exception option" where
  "verify_permissions address r bits wr s =
     (case base_permissions address bits wr s of Some e \<Rightarrow> Some e | None \<Rightarrow> own_permissions r bits s)"

subsection \<open>Instructions\<close>

definition get_csr :: "proc_cfg \<Rightarrow> u64 \<Rightarrow> u64 \<Rightarrow> bool \<Rightarrow> state_t \<Rightarrow> exception + u64" where
  "get_csr c which bits wr s =
     (case csrmap c which of
        None \<Rightarrow> Inl (illegal_instruction bits)
      | Some r \<Rightarrow> (case verify_permissions which r bits wr s of Some e \<Rightarrow> Inl e | None \<Rightarrow> Inr (csr_read c r s)))"

definition put_csr :: "proc_cfg \<Rightarrow> u64 \<Rightarrow> u64 \<Rightarrow> state_t \<Rightarrow> state_t" where
  "put_csr c which val s = (case csrmap c which of None \<Rightarrow> s | Some r \<Rightarrow> csr_write c r (zext_xlen c val) s)"

text \<open>
  The six instructions differ in the value they write and in whether they write. The result is the next program counter with the
  value for the destination register, if it is written.
\<close>

definition csr_insn ::
  "proc_cfg \<Rightarrow> bool \<Rightarrow> (u64 \<Rightarrow> u64) \<Rightarrow> u64 \<Rightarrow> u64 \<Rightarrow> u64 \<Rightarrow> state_t \<Rightarrow> (exception + u64 \<times> u64 option) \<times> state_t" where
  "csr_insn c wr value which bits npc s =
     (if \<not> serialized s then (Inr (PC_SERIALIZE_BEFORE, None), s)
      else
        let s = s\<lparr>serialized := False\<rparr>
        in case get_csr c which bits wr s of
             Inl e \<Rightarrow> (Inl e, s)
           | Inr old \<Rightarrow>
               let s = (if wr then put_csr c which (value old) s else s)
               in (Inr (PC_SERIALIZE_AFTER, Some (sext_xlen c old)), set_pc_and_serialize npc s))"

definition csrrw :: "proc_cfg \<Rightarrow> u64 \<Rightarrow> u64 \<Rightarrow> u64 \<Rightarrow> u64 \<Rightarrow> state_t \<Rightarrow> (exception + u64 \<times> u64 option) \<times> state_t" where
  "csrrw c rs1_value = csr_insn c True (\<lambda>old. rs1_value)"

definition csrrs :: "proc_cfg \<Rightarrow> u64 \<Rightarrow> u64 \<Rightarrow> u64 \<Rightarrow> u64 \<Rightarrow> u64 \<Rightarrow> state_t \<Rightarrow> (exception + u64 \<times> u64 option) \<times> state_t" where
  "csrrs c rs1 rs1_value = csr_insn c (rs1 \<noteq> 0) (\<lambda>old. old OR rs1_value)"

definition csrrc :: "proc_cfg \<Rightarrow> u64 \<Rightarrow> u64 \<Rightarrow> u64 \<Rightarrow> u64 \<Rightarrow> u64 \<Rightarrow> state_t \<Rightarrow> (exception + u64 \<times> u64 option) \<times> state_t" where
  "csrrc c rs1 rs1_value = csr_insn c (rs1 \<noteq> 0) (\<lambda>old. old AND NOT rs1_value)"

definition csrrwi :: "proc_cfg \<Rightarrow> u64 \<Rightarrow> u64 \<Rightarrow> u64 \<Rightarrow> u64 \<Rightarrow> state_t \<Rightarrow> (exception + u64 \<times> u64 option) \<times> state_t" where
  "csrrwi c rs1 = csr_insn c True (\<lambda>old. rs1)"

definition csrrsi :: "proc_cfg \<Rightarrow> u64 \<Rightarrow> u64 \<Rightarrow> u64 \<Rightarrow> u64 \<Rightarrow> state_t \<Rightarrow> (exception + u64 \<times> u64 option) \<times> state_t" where
  "csrrsi c rs1 = csr_insn c (rs1 \<noteq> 0) (\<lambda>old. old OR rs1)"

definition csrrci :: "proc_cfg \<Rightarrow> u64 \<Rightarrow> u64 \<Rightarrow> u64 \<Rightarrow> u64 \<Rightarrow> state_t \<Rightarrow> (exception + u64 \<times> u64 option) \<times> state_t" where
  "csrrci c rs1 = csr_insn c (rs1 \<noteq> 0) (\<lambda>old. old AND NOT rs1)"

end
