(* ===== verification/Priv_Facts.thy ===== *)
theory Priv_Facts
  imports Csr_Access Trigger_Writes
begin

text \<open>
  The bits of the privileged registers: what the field macros, the write masks and a change of privilege do to a single bit, and the
  invariant of the privileged state.
\<close>

section \<open>Single bits\<close>

named_theorems priv_bits \<open>bits of registers and of the words written to them\<close>

lemma get_field_bit: "k < 64 \<Longrightarrow> get_field r (fld k 1) = of_bool (bit r k)"
  by (simp add: get_field_fld take_bit_Suc odd_iff_mod_2_eq_one flip: bit_iff_odd_drop_bit) (simp add: bit_iff_odd_drop_bit odd_iff_mod_2_eq_one)

lemma bit_set_field:
  "0 < w \<Longrightarrow> k < 64 \<Longrightarrow> bit (set_field r (fld k w) v) n \<longleftrightarrow> (if n < 64 \<and> k \<le> n \<and> n < k + w then bit v (n - k) else bit r n)"
  by (auto simp: set_field_fld bit_or_iff bit_and_iff bit_not_iff bit_fld bit_push_bit_iff dest: bit_imp_le_length)

lemma flag_masks:
  "(0x2 :: u64) = fld 1 1" "(0x8 :: u64) = fld 3 1" "(0x20 :: u64) = fld 5 1" "(0x40 :: u64) = fld 6 1" "(0x80 :: u64) = fld 7 1"
  "(0x100 :: u64) = fld 8 1" "(0x20000 :: u64) = fld 17 1" "(0x100000 :: u64) = fld 20 1" "(0x200000 :: u64) = fld 21 1"
  "(0x400000 :: u64) = fld 22 1" "(0x4000000000 :: u64) = fld 38 1" "(0x8000000000 :: u64) = fld 39 1" "(0x1800 :: u64) = fld 11 2"
  by (simp_all add: fld_def mask_eq_exp_minus_1)

lemma get_bits [priv_bits]:
  "get_field r 0x2 = of_bool (bit r 1)" "get_field r 0x8 = of_bool (bit r 3)" "get_field r 0x20 = of_bool (bit r 5)"
  "get_field r 0x40 = of_bool (bit r 6)" "get_field r 0x80 = of_bool (bit r 7)" "get_field r 0x100 = of_bool (bit r 8)"
  "get_field r 0x20000 = of_bool (bit r 17)" "get_field r 0x100000 = of_bool (bit r 20)" "get_field r 0x200000 = of_bool (bit r 21)"
  "get_field r 0x400000 = of_bool (bit r 22)" "get_field r 0x4000000000 = of_bool (bit r 38)" "get_field r 0x8000000000 = of_bool (bit r 39)"
  by (simp_all only: flag_masks) ((rule get_field_bit, simp)+)

lemma get_mpp: "get_field r 0x1800 = take_bit 2 (drop_bit 11 r)"
  by (simp only: flag_masks) (simp add: get_field_fld)

lemma set_bits [priv_bits]:
  "bit (set_field r 0x2 v) n \<longleftrightarrow> (if n = 1 then bit v 0 else bit r n)"
  "bit (set_field r 0x8 v) n \<longleftrightarrow> (if n = 3 then bit v 0 else bit r n)"
  "bit (set_field r 0x20 v) n \<longleftrightarrow> (if n = 5 then bit v 0 else bit r n)"
  "bit (set_field r 0x40 v) n \<longleftrightarrow> (if n = 6 then bit v 0 else bit r n)"
  "bit (set_field r 0x80 v) n \<longleftrightarrow> (if n = 7 then bit v 0 else bit r n)"
  "bit (set_field r 0x100 v) n \<longleftrightarrow> (if n = 8 then bit v 0 else bit r n)"
  "bit (set_field r 0x20000 v) n \<longleftrightarrow> (if n = 17 then bit v 0 else bit r n)"
  "bit (set_field r 0x4000000000 v) n \<longleftrightarrow> (if n = 38 then bit v 0 else bit r n)"
  "bit (set_field r 0x8000000000 v) n \<longleftrightarrow> (if n = 39 then bit v 0 else bit r n)"
  "bit (set_field r 0x1800 v) n \<longleftrightarrow> (if n = 11 then bit v 0 else if n = 12 then bit v 1 else bit r n)"
  by (simp_all only: flag_masks) (auto simp: bit_set_field numeral_2_eq_2 less_Suc_eq le_less_Suc_eq)

lemma bit_of_bool [priv_bits]: "bit (of_bool b :: u64) n \<longleftrightarrow> b \<and> n = 0"
  by (cases b) (auto simp: bit_1_iff)

lemma extension_bit [priv_bits]: "extension_enabled s n \<longleftrightarrow> bit (misa s) n" "isa_bit c n \<longleftrightarrow> bit (max_isa c) n"
  by (simp_all add: extension_enabled_def isa_bit_def and_one_eq bit_iff_odd_drop_bit odd_iff_mod_2_eq_one)

lemma bit_masks:
  "bit (0x2 :: u64) n \<longleftrightarrow> n = 1" "bit (0x8 :: u64) n \<longleftrightarrow> n = 3" "bit (0x20 :: u64) n \<longleftrightarrow> n = 5" "bit (0x80 :: u64) n \<longleftrightarrow> n = 7"
  "bit (0x100 :: u64) n \<longleftrightarrow> n = 8" "bit (0x600 :: u64) n \<longleftrightarrow> n = 9 \<or> n = 10" "bit (0x1800 :: u64) n \<longleftrightarrow> n = 11 \<or> n = 12"
  "bit (0x6000 :: u64) n \<longleftrightarrow> n = 13 \<or> n = 14" "bit (0x18000 :: u64) n \<longleftrightarrow> n = 15 \<or> n = 16" "bit (0x20000 :: u64) n \<longleftrightarrow> n = 17"
  "bit (0x40000 :: u64) n \<longleftrightarrow> n = 18" "bit (0x80000 :: u64) n \<longleftrightarrow> n = 19" "bit (0x100000 :: u64) n \<longleftrightarrow> n = 20"
  "bit (0x200000 :: u64) n \<longleftrightarrow> n = 21" "bit (0x400000 :: u64) n \<longleftrightarrow> n = 22" "bit (0x4000000000 :: u64) n \<longleftrightarrow> n = 38"
  "bit (0x8000000000 :: u64) n \<longleftrightarrow> n = 39" "bit (0x80000000 :: u64) n \<longleftrightarrow> n = 31" "bit (0x8000000000000000 :: u64) n \<longleftrightarrow> n = 63"
proof -
  have "(0x600 :: u64) = fld 9 2" "(0x6000 :: u64) = fld 13 2" "(0x18000 :: u64) = fld 15 2" "(0x40000 :: u64) = fld 18 1"
    "(0x80000 :: u64) = fld 19 1" "(0x80000000 :: u64) = fld 31 1" "(0x8000000000000000 :: u64) = fld 63 1"
    by (simp_all add: fld_def mask_eq_exp_minus_1)
  then show "bit (0x2 :: u64) n \<longleftrightarrow> n = 1" "bit (0x8 :: u64) n \<longleftrightarrow> n = 3" "bit (0x20 :: u64) n \<longleftrightarrow> n = 5" "bit (0x80 :: u64) n \<longleftrightarrow> n = 7"
    "bit (0x100 :: u64) n \<longleftrightarrow> n = 8" "bit (0x600 :: u64) n \<longleftrightarrow> n = 9 \<or> n = 10" "bit (0x1800 :: u64) n \<longleftrightarrow> n = 11 \<or> n = 12"
    "bit (0x6000 :: u64) n \<longleftrightarrow> n = 13 \<or> n = 14" "bit (0x18000 :: u64) n \<longleftrightarrow> n = 15 \<or> n = 16" "bit (0x20000 :: u64) n \<longleftrightarrow> n = 17"
    "bit (0x40000 :: u64) n \<longleftrightarrow> n = 18" "bit (0x80000 :: u64) n \<longleftrightarrow> n = 19" "bit (0x100000 :: u64) n \<longleftrightarrow> n = 20"
    "bit (0x200000 :: u64) n \<longleftrightarrow> n = 21" "bit (0x400000 :: u64) n \<longleftrightarrow> n = 22" "bit (0x4000000000 :: u64) n \<longleftrightarrow> n = 38"
    "bit (0x8000000000 :: u64) n \<longleftrightarrow> n = 39" "bit (0x80000000 :: u64) n \<longleftrightarrow> n = 31" "bit (0x8000000000000000 :: u64) n \<longleftrightarrow> n = 63"
    by (simp_all only: flag_masks bit_fld) auto
qed

lemma and_eq_mask: "v AND m = m \<longleftrightarrow> (\<forall>n. bit m n \<longrightarrow> bit v n)" for v m :: u64
proof -
  have "v AND m = m \<longleftrightarrow> (\<forall>n. bit (v AND m) n = bit m n)" by (auto intro: bit_eqI)
  then show ?thesis by (auto simp: bit_and_iff)
qed

text \<open>The state is dirty when one of the fields FS, VS and XS is; the position of the bit SD.\<close>

definition dirty_bits :: "u64 \<Rightarrow> bool" where
  "dirty_bits v \<longleftrightarrow> bit v 13 \<and> bit v 14 \<or> bit v 9 \<and> bit v 10 \<or> bit v 15 \<and> bit v 16"

definition sd_pos :: "proc_cfg \<Rightarrow> nat" where
  "sd_pos c = (if max_xlen c = 64 then 63 else 31)"

lemma bit_sd: "bit (sd_bit c) n \<longleftrightarrow> n = sd_pos c"
  unfolding sd_bit_def sd_pos_def by (simp only: if_distrib [of "\<lambda>x. bit x n"] bit_masks) auto

lemma dirty_masks: "v AND 0x6000 = 0x6000 \<or> v AND 0x600 = 0x600 \<or> v AND 0x18000 = 0x18000 \<longleftrightarrow> dirty_bits v"
  unfolding and_eq_mask bit_masks dirty_bits_def by blast

lemma bit_adjust_sd [priv_bits]: "bit (adjust_sd c v) n \<longleftrightarrow> (if n = sd_pos c then dirty_bits v else bit v n)"
  unfolding adjust_sd_def dirty_masks
  by (auto simp: bit_or_iff bit_and_iff bit_not_iff bit_sd sd_pos_def dest: bit_imp_le_length)

lemma sd_pos_range: "sd_pos c \<in> {31, 63}"
  by (simp add: sd_pos_def)

lemma bit_sstatus_write_mask [priv_bits]:
  "bit (compute_sstatus_write_mask c) n \<longleftrightarrow>
     isa_bit c ISA_S \<and> n \<in> {1, 5, 8} \<or> has_page c \<and> n \<in> {18, 19} \<or>
     (isa_bit c ISA_S \<or> isa_bit c ISA_F \<or> isa_bit c ISA_V) \<and> \<not> isa_extension c EXT_ZFINX \<and> n \<in> {13, 14} \<or>
     any_custom_extensions c \<and> n \<in> {15, 16} \<or> isa_bit c ISA_V \<and> n \<in> {9, 10}"
  unfolding compute_sstatus_write_mask_def Let_def
  by (simp only: bit_or_iff if_distrib [of "\<lambda>x. bit x n"] bit_masks bit_0_eq bot_apply bot_bool_def) auto

lemma bit_mstatus_write_mask [priv_bits]:
  "bit (mstatus_write_mask c s) n \<longleftrightarrow>
     bit (compute_sstatus_write_mask c) n \<or> n \<in> {3, 7, 11, 12, 21} \<or> bit (misa s) ISA_U \<and> n = 17 \<or> bit (misa s) ISA_S \<and> n = 22 \<or>
     has_page c \<and> n = 20 \<or> bit (misa s) ISA_H \<and> n \<in> {38, 39}"
  unfolding mstatus_write_mask_def extension_bit
  by (simp only: bit_or_iff if_distrib [of "\<lambda>x. bit x n"] bit_masks bit_0_eq bot_apply bot_bool_def) auto

section \<open>Privileges\<close>

definition legal_prv :: "proc_cfg \<Rightarrow> u64 \<Rightarrow> bool" where
  "legal_prv c p \<longleftrightarrow> p = PRV_M \<or> isa_bit c ISA_U \<and> (p = PRV_U \<or> p = PRV_S \<and> isa_bit c ISA_S)"

lemma prv_cases: "p \<le> 3 \<Longrightarrow> p = 0 \<or> p = 1 \<or> p = 2 \<or> p = (3 :: u64)"
proof -
  assume "p \<le> 3"
  then have "unat p \<le> unat (3 :: u64)" by (simp only: word_le_nat_alt)
  then have "unat p = unat (0 :: u64) \<or> unat p = unat (1 :: u64) \<or> unat p = unat (2 :: u64) \<or> unat p = unat (3 :: u64)" by auto
  then show ?thesis by (simp only: word_unat_eq_iff)
qed

text \<open>The letters U and S cannot be switched off.\<close>

definition fixed_isa :: "proc_cfg \<Rightarrow> state_t \<Rightarrow> bool" where
  "fixed_isa c s \<longleftrightarrow> misa s AND NOT (misa_write_mask c) = max_isa c AND NOT (misa_write_mask c)"

lemma fixed_bits: "fixed_isa c s \<Longrightarrow> n \<in> {ISA_S, ISA_U} \<Longrightarrow> bit (misa s) n \<longleftrightarrow> isa_bit c n"
proof -
  assume "fixed_isa c s" and n: "n \<in> {ISA_S, ISA_U}"
  then have "bit (misa s AND NOT (misa_write_mask c)) n = bit (max_isa c AND NOT (misa_write_mask c)) n" by (simp add: fixed_isa_def)
  moreover have "\<not> bit (misa_write_mask c) n"
    using n by (auto simp: misa_write_mask_def bit_and_iff bit_or_iff bit_exp_iff)
  ultimately show ?thesis using n by (auto simp: bit_and_iff bit_not_iff priv_bits)
qed

lemma fixed_subset: "fixed_isa c s \<Longrightarrow> bit (misa s) n \<Longrightarrow> isa_bit c n"
proof -
  assume f: "fixed_isa c s" and b: "bit (misa s) n"
  have "bit (misa s AND NOT (misa_write_mask c)) n = bit (max_isa c AND NOT (misa_write_mask c)) n" using f by (simp add: fixed_isa_def)
  moreover have "bit (misa_write_mask c) n \<Longrightarrow> bit (max_isa c) n" unfolding misa_write_mask_def bit_and_iff by simp
  ultimately show ?thesis using b by (auto simp: bit_and_iff bit_not_iff priv_bits dest: bit_imp_le_length)
qed

lemma legalize_legal: "fixed_isa c s \<Longrightarrow> p \<le> 3 \<Longrightarrow> legal_prv c (legalize_privilege s p)"
  using prv_cases [of p] fixed_bits [of c s ISA_U] fixed_bits [of c s ISA_S]
  by (auto simp: legalize_privilege_def legal_prv_def priv_bits)

lemma legalize_id: "fixed_isa c s \<Longrightarrow> legal_prv c p \<Longrightarrow> legalize_privilege s p = p"
  using fixed_bits [of c s ISA_U] fixed_bits [of c s ISA_S] by (auto simp: legalize_privilege_def legal_prv_def priv_bits)

lemma legal_le: "legal_prv c p \<Longrightarrow> p \<le> 3"
  by (auto simp: legal_prv_def)

lemma legalize_misa: "misa s = misa s' \<Longrightarrow> legalize_privilege s p = legalize_privilege s' p"
  by (simp add: legalize_privilege_def extension_enabled_def)

lemma legalize_le: "p \<le> 3 \<Longrightarrow> legalize_privilege s p \<le> 3"
  by (simp add: legalize_privilege_def)

lemma take_bit_2_le: "take_bit 2 (x :: u64) \<le> 3"
proof -
  have "take_bit 2 x < 2 ^ 2" using and_mask_less' [of 2 x] by (simp add: take_bit_eq_mask)
  then show ?thesis by (simp add: word_less_nat_alt word_le_nat_alt)
qed

lemma prv_eqI: "p \<le> 3 \<Longrightarrow> q \<le> 3 \<Longrightarrow> (bit p 0 \<longleftrightarrow> bit q 0) \<Longrightarrow> (bit p 1 \<longleftrightarrow> bit q 1) \<Longrightarrow> p = q" for p q :: u64
  using prv_cases [of p] prv_cases [of q] by auto

lemma bit_mpp: "bit (take_bit 2 (drop_bit 11 r)) 0 \<longleftrightarrow> bit r 11" "bit (take_bit 2 (drop_bit 11 r)) 1 \<longleftrightarrow> bit r 12" for r :: u64
  by (simp_all add: bit_take_bit_iff bit_drop_bit_eq)

lemma mpp_eqI: "p \<le> 3 \<Longrightarrow> (bit r 11 \<longleftrightarrow> bit p 0) \<Longrightarrow> (bit r 12 \<longleftrightarrow> bit p 1) \<Longrightarrow> get_field r 0x1800 = p"
  unfolding get_mpp by (rule prv_eqI [OF take_bit_2_le]) (simp_all only: bit_mpp)

section \<open>Writes as updates of single fields\<close>

definition mstatus_value :: "proc_cfg \<Rightarrow> u64 \<Rightarrow> state_t \<Rightarrow> u64" where
  "mstatus_value c val s =
     adjust_sd c ((mstatus s AND NOT (mstatus_write_mask c s)) OR
       (set_field val 0x1800 (legalize_privilege s (get_field val 0x1800)) AND mstatus_write_mask c s))"

lemma maybe_flush_eq: "\<exists>t. maybe_flush_tlb c old new s = s\<lparr>tlb := t\<rparr>"
proof -
  have "s = s\<lparr>tlb := tlb s\<rparr>" by simp
  then show ?thesis unfolding maybe_flush_tlb_def flush_def by (metis (full_types))
qed

lemma tlb_last: "s\<lparr>tlb := t, mstatus := r\<rparr> = s\<lparr>mstatus := r, tlb := t\<rparr>" "s\<lparr>tlb := t, vsstatus := r\<rparr> = s\<lparr>vsstatus := r, tlb := t\<rparr>"
  by (cases s; simp)+

lemma mstatus_write_eq: "\<exists>t. mstatus_write c val s = s\<lparr>mstatus := mstatus_value c val s, tlb := t\<rparr>"
  unfolding mstatus_write_def Let_def mstatus_value_def
  using maybe_flush_eq [of c "mstatus s" "(mstatus s AND NOT (mstatus_write_mask c s)) OR
       (set_field val 0x1800 (legalize_privilege s (get_field val 0x1800)) AND mstatus_write_mask c s)" s]
  by (elim exE) (simp only: tlb_last, blast)

lemma bit_mstatus_value:
  "n \<noteq> sd_pos c \<Longrightarrow> bit (mstatus_value c val s) n \<longleftrightarrow>
     (if \<not> bit (mstatus_write_mask c s) n then bit (mstatus s) n
      else if n = 11 then bit (legalize_privilege s (get_field val 0x1800)) 0
      else if n = 12 then bit (legalize_privilege s (get_field val 0x1800)) 1
      else bit val n)"
  by (auto simp: mstatus_value_def bit_adjust_sd bit_or_iff bit_and_iff bit_not_iff set_bits dest: bit_imp_le_length)

lemma sd_not: "n \<noteq> 31 \<Longrightarrow> n \<noteq> 63 \<Longrightarrow> n \<noteq> sd_pos c"
  by (simp add: sd_pos_def)

lemma mpp_mstatus_value: "get_field (mstatus_value c val s) 0x1800 = legalize_privilege s (get_field val 0x1800)"
proof (rule mpp_eqI)
  show "legalize_privilege s (get_field val 0x1800) \<le> 3" unfolding get_mpp by (rule legalize_le [OF take_bit_2_le])
  show "bit (mstatus_value c val s) 11 = bit (legalize_privilege s (get_field val 0x1800)) 0"
    by (subst bit_mstatus_value) (simp_all add: sd_not bit_mstatus_write_mask)
  show "bit (mstatus_value c val s) 12 = bit (legalize_privilege s (get_field val 0x1800)) 1"
    by (subst bit_mstatus_value) (simp_all add: sd_not bit_mstatus_write_mask)
qed

text \<open>The bit SD shows the fields it depends on.\<close>

lemma sd_mstatus_value: "adjust_sd c (mstatus_value c val s) = mstatus_value c val s"
  unfolding mstatus_value_def
  by (rule bit_word_eqI) (use sd_pos_range [of c] in \<open>auto simp: bit_adjust_sd dirty_bits_def\<close>)

definition vsstatus_value :: "proc_cfg \<Rightarrow> u64 \<Rightarrow> state_t \<Rightarrow> u64" where
  "vsstatus_value c val s =
     adjust_sd c ((vsstatus s AND NOT (compute_sstatus_write_mask c)) OR (val AND compute_sstatus_write_mask c))"

lemma vsstatus_write_eq: "\<exists>t. vsstatus_write c val s = s\<lparr>vsstatus := vsstatus_value c val s, tlb := t\<rparr>"
proof -
  obtain t where "(if virt s then maybe_flush_tlb c (vsstatus s) ((vsstatus s AND NOT (compute_sstatus_write_mask c)) OR
      (val AND compute_sstatus_write_mask c)) s else s) = s\<lparr>tlb := t\<rparr>"
    using maybe_flush_eq by (metis state_t.surjective state_t.update_convs(52))
  then show ?thesis unfolding vsstatus_write_def Let_def vsstatus_value_def by (simp only: tlb_last) blast
qed

lemma bit_vsstatus_value:
  "n \<noteq> sd_pos c \<Longrightarrow> bit (vsstatus_value c val s) n \<longleftrightarrow>
     (if bit (compute_sstatus_write_mask c) n then bit val n else bit (vsstatus s) n)"
  by (auto simp: vsstatus_value_def bit_adjust_sd bit_or_iff bit_and_iff bit_not_iff dest: bit_imp_le_length)

lemma sd_vsstatus_value: "adjust_sd c (vsstatus_value c val s) = vsstatus_value c val s"
  unfolding vsstatus_value_def
  by (rule bit_word_eqI) (use sd_pos_range [of c] in \<open>auto simp: bit_adjust_sd dirty_bits_def\<close>)

lemma set_privilege_eq:
  "set_privilege p v s =
     s\<lparr>prv := legalize_privilege s p, virt := (v \<and> legalize_privilege s p \<noteq> PRV_M), prev_prv := prv s, prev_v := virt s,
       prv_changed := (legalize_privilege s p \<noteq> prv s), v_changed := ((v \<and> legalize_privilege s p \<noteq> PRV_M) \<noteq> virt s),
       tlb := flush_tlb (tlb s)\<rparr>"
  by (simp add: set_privilege_def flush_def Let_def legalize_privilege_def extension_enabled_def)

end
