(* ===== verification/Trap_Return.thy ===== *)
theory Trap_Return
  imports Priv_Facts
begin

text \<open>
  Trap entry and return are inverse to each other: the values of the status registers after a trap into each mode, after the
  return instructions, and after both.
\<close>

section \<open>Machine mode\<close>

lemma bit_low_half: "bit (drop_bit 32 (push_bit 32 x)) n \<longleftrightarrow> n < 32 \<and> bit x n" for x :: u64
  by (auto simp: bit_drop_bit_eq bit_push_bit_iff)

lemma bit_high_half: "bit (push_bit 32 (drop_bit 32 x)) n \<longleftrightarrow> 32 \<le> n \<and> bit x n" for x :: u64
  by (auto simp: bit_drop_bit_eq bit_push_bit_iff dest: bit_imp_le_length)

lemma low_mask: "(0xffffffff :: u64) = mask 32"
  by (simp add: mask_eq_exp_minus_1)

lemma bit_high_masked: "bit (push_bit 32 (drop_bit 32 x AND 0xffffffff)) n \<longleftrightarrow> 32 \<le> n \<and> bit x n" for x :: u64
  unfolding low_mask by (auto simp: bit_drop_bit_eq bit_push_bit_iff bit_and_iff bit_mask_iff dest: bit_imp_le_length)

lemma bit_low_masked: "bit (x AND 0xffffffff) n \<longleftrightarrow> n < 32 \<and> bit x n" for x :: u64
  unfolding low_mask by (auto simp: bit_and_iff bit_mask_iff)

lemma status_eqI:
  assumes "adjust_sd c x = x" "adjust_sd c y = y" "\<And>n. n \<noteq> sd_pos c \<Longrightarrow> bit x n \<longleftrightarrow> bit y n"
  shows "x = y"
proof -
  have "dirty_bits x = dirty_bits y" using assms(3) sd_pos_range [of c] by (auto simp: dirty_bits_def)
  then have "bit (adjust_sd c x) n = bit (adjust_sd c y) n" for n using assms(3) by (simp add: bit_adjust_sd)
  then show ?thesis using assms(1,2) by (metis bit_word_eqI)
qed

text \<open>On a hart of 32 bits a trap writes the upper half of \<open>mstatus\<close> a second time, with no effect.\<close>

lemma mstatush_again:
  assumes "fixed_isa c s" "legal_prv c (get_field r 0x1800)"
  shows "\<exists>t'. mstatush_write c (drop_bit 32 r) (s\<lparr>mstatus := mstatus_value c r s, tlb := t\<rparr>) = s\<lparr>mstatus := mstatus_value c r s, tlb := t'\<rparr>"
proof -
  let ?s = "s\<lparr>mstatus := mstatus_value c r s, tlb := t\<rparr>"
  let ?v = "drop_bit 32 (push_bit 32 (mstatus ?s)) OR push_bit 32 (drop_bit 32 r AND 0xffffffff)"
  have mask: "mstatus_write_mask c ?s = mstatus_write_mask c s" by (simp add: mstatus_write_mask_def extension_enabled_def)
  have v: "bit ?v n \<longleftrightarrow> (if n < 32 then bit (mstatus_value c r s) n else bit r n)" for n
    unfolding bit_or_iff bit_low_half bit_high_masked by auto
  have leg: "legalize_privilege ?s p = legalize_privilege s p" for p by (rule legalize_misa) simp
  have p: "legalize_privilege s (get_field r 0x1800) = get_field r 0x1800" using assms by (rule legalize_id)
  have mpp: "get_field ?v 0x1800 = get_field r 0x1800"
    by (rule mpp_eqI) (use legal_le [OF assms(2)] in \<open>simp_all only: v\<close>,
        simp_all add: bit_mstatus_value sd_not bit_mstatus_write_mask p)
  have "mstatus_value c ?v ?s = mstatus_value c r s"
  proof (rule status_eqI)
    fix n assume n: "n \<noteq> sd_pos c"
    show "bit (mstatus_value c ?v ?s) n \<longleftrightarrow> bit (mstatus_value c r s) n"
      unfolding bit_mstatus_value [OF n] mask v mpp leg p by (simp add: bit_mstatus_value [OF n] p)
  qed (rule sd_mstatus_value)+
  then show ?thesis unfolding mstatush_write_def using mstatus_write_eq [of c ?v ?s] by auto
qed

text \<open>The word that a trap writes.\<close>

definition stack_m :: "u64 \<Rightarrow> bool \<Rightarrow> bool \<Rightarrow> u64 \<Rightarrow> u64" where
  "stack_m p v g r =
     set_flag (set_flag (set_field (set_field (set_field r 0x80 (get_field r 0x8)) 0x1800 p) 0x8 0) 0x8000000000 v) 0x4000000000 g"

lemma bit_stack_m:
  "bit (stack_m p v g r) n \<longleftrightarrow>
     (if n = 38 then g else if n = 39 then v else if n = 3 then False else if n = 11 then bit p 0 else if n = 12 then bit p 1
      else if n = 7 then bit r 3 else bit r n)"
  unfolding stack_m_def set_bits get_bits bit_of_bool by auto

lemma mpp_stack_m: "p \<le> 3 \<Longrightarrow> get_field (stack_m p v g r) 0x1800 = p"
  by (rule mpp_eqI) (simp_all add: bit_stack_m)

lemma trap_to_m_eq:
  assumes "fixed_isa c s" "legal_prv c (prv s)"
  shows "\<exists>pc' t'. trap_to_m c t interrupt num epc v s =
    s\<lparr>pc := pc', mepc := epc_write epc, mcause := t_cause t, mtval := t_tval t, mtval2 := t_tval2 t, mtinst := t_tinst t,
      mstatus := mstatus_value c (stack_m (prv s) v (t_gva t) (mstatus s)) s, prv := PRV_M, virt := False, prev_prv := prv s,
      prev_v := virt s, prv_changed := prv s \<noteq> PRV_M, v_changed := virt s, tlb := t'\<rparr>"
proof -
  define q where "q = (if \<not> nmie s then 0 else trap_vector (mtvec s) interrupt num)"
  let ?s = "s\<lparr>pc := q, mepc := epc_write epc, mcause := t_cause t, mtval := t_tval t, mtval2 := t_tval2 t, mtinst := t_tinst t\<rparr>"
  let ?r = "stack_m (prv s) v (t_gva t) (mstatus s)"
  have f: "fixed_isa c ?s" using assms by (simp add: fixed_isa_def)
  have l: "legal_prv c (get_field ?r 0x1800)" using assms legal_le by (simp add: mpp_stack_m)
  obtain t1 where w: "mstatus_write c ?r ?s = ?s\<lparr>mstatus := mstatus_value c ?r ?s, tlb := t1\<rparr>" using mstatus_write_eq by blast
  obtain t2 where h: "mstatush_write c (drop_bit 32 ?r) (?s\<lparr>mstatus := mstatus_value c ?r ?s, tlb := t1\<rparr>) =
      ?s\<lparr>mstatus := mstatus_value c ?r ?s, tlb := t2\<rparr>" using mstatush_again [OF f l] by blast
  have val: "mstatus_value c ?r ?s = mstatus_value c ?r s"
    by (simp add: mstatus_value_def mstatus_write_mask_def extension_enabled_def legalize_privilege_def)
  have m: "legalize_privilege s' PRV_M = PRV_M" for s' by (simp add: legalize_privilege_def)
  let ?w = "if max_xlen c = 32 then mstatush_write c (drop_bit 32 ?r) (mstatus_write c ?r ?s) else mstatus_write c ?r ?s"
  obtain t3 where e: "?w = ?s\<lparr>mstatus := mstatus_value c ?r s, tlb := t3\<rparr>" using w h val by metis
  have "trap_to_m c t interrupt num epc v s = set_privilege PRV_M False ?w"
    by (simp add: trap_to_m_def Let_def stack_m_def q_def)
  then show ?thesis unfolding e set_privilege_eq m by (intro exI) simp
qed

text \<open>The word that the return instruction writes, and what the lower half of it makes of \<open>mstatus\<close>.\<close>

definition unstack_m :: "bool \<Rightarrow> u64 \<Rightarrow> u64" where
  "unstack_m u r =
     (let r = (if get_field r 0x1800 \<noteq> PRV_M then set_field r 0x20000 0 else r);
          r = set_field r 0x8 (get_field r 0x80);
          r = set_field r 0x80 1;
          r = set_field r 0x1800 (if u then PRV_U else PRV_M)
      in set_field r 0x8000000000 0)"

lemma bit_unstack_m:
  "bit (unstack_m u r) n \<longleftrightarrow>
     (if n = 39 then False else if n = 11 \<or> n = 12 then \<not> u else if n = 7 then True else if n = 3 then bit r 7
      else if n = 17 then get_field r 0x1800 = PRV_M \<and> bit r 17 else bit r n)"
  unfolding unstack_m_def Let_def set_bits get_bits bit_of_bool
  by (simp add: if_distrib [of "\<lambda>x. bit x n"] set_bits if_distrib [of "\<lambda>x. bit x (7 :: nat)"] bit_1_iff)

definition merge_low :: "proc_cfg \<Rightarrow> u64 \<Rightarrow> u64 \<Rightarrow> u64" where
  "merge_low c val old = (if max_xlen c = 32 then push_bit 32 (drop_bit 32 old) OR (val AND 0xffffffff) else val)"

lemma bit_merge_low: "bit (merge_low c val old) n \<longleftrightarrow> (if max_xlen c = 32 \<and> 32 \<le> n then bit old n else bit val n)"
  unfolding merge_low_def by (simp only: if_distrib [of "\<lambda>x. bit x n"] bit_or_iff bit_high_half bit_low_masked) auto

lemma put_mstatus_eq:
  assumes "max_xlen c = 32 \<or> max_xlen c = 64"
  shows "\<exists>t. put_mstatus c val s = s\<lparr>mstatus := mstatus_value c (merge_low c val (mstatus s)) s, tlb := t\<rparr>"
proof (cases "max_xlen c = 32")
  case True
  have "zext_xlen c val AND 0xffffffff = val AND 0xffffffff"
    by (rule bit_word_eqI) (simp only: bit_low_masked, auto simp: zext_xlen_def True bit_low_half)
  then have "put_mstatus c val s = mstatus_write c (merge_low c val (mstatus s)) s"
    unfolding put_mstatus_def mstatus_low_write_def merge_low_def using True by (simp only: if_True refl)
  then show ?thesis using mstatus_write_eq by metis
next
  case False
  then have "zext_xlen c val = val" using assms by (simp add: zext_xlen_def)
  then show ?thesis using False mstatus_write_eq by (simp add: put_mstatus_def merge_low_def)
qed

lemma mret_eq:
  assumes "max_xlen c = 32 \<or> max_xlen c = 64" "prv s = PRV_M"
  shows "\<exists>t'. mret c bits s = (Inr PC_SERIALIZE_AFTER,
    set_privilege (get_field (mstatus s) 0x1800) (bit (mstatus s) 39)
      (s\<lparr>pc := mepc s AND pc_alignment_mask s,
         mstatus := mstatus_value c (merge_low c (unstack_m (bit (misa s) ISA_U) (mstatus s)) (mstatus s)) s, tlb := t'\<rparr>))"
proof -
  let ?s = "s\<lparr>pc := mepc s AND pc_alignment_mask s\<rparr>"
  let ?r = "unstack_m (bit (misa s) ISA_U) (mstatus s)"
  obtain t' where t': "put_mstatus c ?r ?s = ?s\<lparr>mstatus := mstatus_value c (merge_low c ?r (mstatus ?s)) ?s, tlb := t'\<rparr>"
    using put_mstatus_eq [OF assms(1)] by blast
  have val: "mstatus_value c x ?s = mstatus_value c x s" for x
    by (simp add: mstatus_value_def mstatus_write_mask_def extension_enabled_def legalize_privilege_def)
  have "mret c bits s = (Inr PC_SERIALIZE_AFTER, set_privilege (get_field (mstatus s) 0x1800) (bit (mstatus s) 39) (put_mstatus c ?r ?s))"
    using assms(2) by (simp add: mret_def Let_def unstack_m_def set_pc_and_serialize_def epc_read_def get_bits extension_bit and.assoc)
  then show ?thesis unfolding t' val by auto
qed

section \<open>Trap and return\<close>

lemma status_writes_keep:
  "misa (mstatus_write c val s) = misa s" "misa (vsstatus_write c val s) = misa s" "misa (nonvirtual_sstatus_write c val s) = misa s"
  "misa (sstatus_write c val s) = misa s" "misa (hstatus_write c val s) = misa s"
proof -
  show m: "misa (mstatus_write c val s) = misa s" for val using mstatus_write_eq [of c val s] by auto
  show v: "misa (vsstatus_write c val s) = misa s" using vsstatus_write_eq [of c val s] by auto
  show "misa (nonvirtual_sstatus_write c val s) = misa s" by (simp add: nonvirtual_sstatus_write_def m Let_def)
  then show "misa (sstatus_write c val s) = misa s" by (simp add: sstatus_write_def v)
  show "misa (hstatus_write c val s) = misa s" by (simp add: hstatus_write_def Let_def)
qed

lemma trap_to_s_prv:
  "prv (trap_to_vs c t interrupt num epc s) = legalize_privilege s PRV_S"
  "virt (trap_to_vs c t interrupt num epc s) \<longleftrightarrow> legalize_privilege s PRV_S \<noteq> PRV_M"
  "prv (trap_to_hs c t interrupt num epc v s) = legalize_privilege s PRV_S" "\<not> virt (trap_to_hs c t interrupt num epc v s)"
  unfolding trap_to_vs_def trap_to_hs_def Let_def set_privilege_eq legalize_privilege_def extension_enabled_def by (simp_all add: status_writes_keep)

lemma take_trap_m:
  assumes "\<not> debug_mode s" "fixed_isa c s" "legal_prv c (prv s)" "prv (take_trap c t epc s) = PRV_M"
  shows "\<exists>interrupt num. take_trap c t epc s = trap_to_m c t interrupt num epc (virt s) s"
proof (cases "prv s \<le> PRV_S")
  case True
  then have "isa_bit c ISA_U" using assms(3) by (auto simp: legal_prv_def word_le_nat_alt)
  then have "legalize_privilege s PRV_S \<noteq> PRV_M" using fixed_bits [OF assms(2), of ISA_U] by (simp add: legalize_privilege_def extension_bit)
  then show ?thesis using assms(1,4) unfolding take_trap_def Let_def by (auto simp: trap_to_s_prv split: if_splits)
next
  case False
  then show ?thesis using assms(1) unfolding take_trap_def Let_def by auto
qed

lemma trap_mret:
  assumes "max_xlen c = 32 \<or> max_xlen c = 64" "fixed_isa c s" "legal_prv c (prv s)" "virt s \<longrightarrow> prv s \<noteq> PRV_M \<and> bit (misa s) ISA_H"
    "adjust_sd c (mstatus s) = mstatus s" "\<not> bit (misa s) ISA_H \<longrightarrow> \<not> bit (mstatus s) 39"
    and m: "mret c bits (trap_to_m c t interrupt num epc (virt s) s) = (r, s')"
  shows "r = Inr PC_SERIALIZE_AFTER" "pc s' = epc_read s (epc_write epc)" "prv s' = prv s" "virt s' = virt s"
    "n \<notin> {7, 11, 12, 17, 38, 39} \<Longrightarrow> bit (mstatus s') n \<longleftrightarrow> bit (mstatus s) n"
proof -
  let ?ms = "mstatus_value c (stack_m (prv s) (virt s) (t_gva t) (mstatus s)) s"
  obtain pc' t' where trap: "trap_to_m c t interrupt num epc (virt s) s =
    s\<lparr>pc := pc', mepc := epc_write epc, mcause := t_cause t, mtval := t_tval t, mtval2 := t_tval2 t, mtinst := t_tinst t,
      mstatus := ?ms, prv := PRV_M, virt := False, prev_prv := prv s,
      prev_v := virt s, prv_changed := prv s \<noteq> PRV_M, v_changed := virt s, tlb := t'\<rparr>" (is "_ = ?s")
    using trap_to_m_eq [OF assms(2,3)] by blast
  let ?ms' = "mstatus_value c (merge_low c (unstack_m (bit (misa s) ISA_U) ?ms) ?ms) ?s"
  obtain t2 where ret: "mret c bits ?s = (Inr PC_SERIALIZE_AFTER,
    set_privilege (get_field ?ms 0x1800) (bit ?ms 39) (?s\<lparr>pc := epc_write epc AND pc_alignment_mask ?s, mstatus := ?ms', tlb := t2\<rparr>))"
    using mret_eq [OF assms(1), of ?s bits] by auto
  have le: "prv s \<le> 3" using assms(3) by (rule legal_le)
  have leg: "legalize_privilege s (prv s) = prv s" using assms(2,3) by (rule legalize_id)
  have mpp: "get_field ?ms 0x1800 = prv s" unfolding mpp_mstatus_value by (simp add: mpp_stack_m le leg)
  have mpv: "bit ?ms 39 = virt s"
    using assms(4,6) by (auto simp: bit_mstatus_value sd_not bit_mstatus_write_mask bit_stack_m bit_sstatus_write_mask)
  have leg': "legalize_privilege (?s\<lparr>pc := x, mstatus := y, tlb := z\<rparr>) (prv s) = prv s" for x y z
    using leg legalize_misa [of "?s\<lparr>pc := x, mstatus := y, tlb := z\<rparr>" s] by simp
  have s': "s' = ?s\<lparr>pc := epc_write epc AND pc_alignment_mask ?s, mstatus := ?ms', prv := prv s, virt := virt s,
      prev_prv := PRV_M, prev_v := False, prv_changed := prv s \<noteq> PRV_M, v_changed := virt s, tlb := flush_tlb t2\<rparr>"
    and "r = Inr PC_SERIALIZE_AFTER"
    using m assms(4) unfolding trap ret mpp mpv set_privilege_eq leg' by auto
  then show "r = Inr PC_SERIALIZE_AFTER" "pc s' = epc_read s (epc_write epc)" "prv s' = prv s" "virt s' = virt s"
    by (simp_all add: epc_read_def pc_alignment_mask_def)
  have ms': "bit (mstatus s') n \<longleftrightarrow> bit (mstatus s) n" if "n \<notin> {7, 11, 12, 17, 38, 39}" "n \<noteq> sd_pos c" for n
  proof -
    have "bit ?ms n \<longleftrightarrow> (if n = 3 then False else bit (mstatus s) n)" "n = 3 \<Longrightarrow> bit ?ms 7 \<longleftrightarrow> bit (mstatus s) 3"
      using that by (simp_all add: bit_mstatus_value sd_not bit_mstatus_write_mask bit_stack_m)
    then show ?thesis unfolding s' using that
      by (auto simp: bit_mstatus_value bit_merge_low bit_unstack_m bit_mstatus_write_mask)
  qed
  have "mstatus s' = ?ms'" unfolding s' by simp
  then have "adjust_sd c (mstatus s') = mstatus s'" by (simp add: sd_mstatus_value)
  moreover have "dirty_bits (mstatus s') = dirty_bits (mstatus s)" using ms' sd_pos_range [of c] by (auto simp: dirty_bits_def)
  ultimately have sd: "bit (mstatus s') (sd_pos c) \<longleftrightarrow> bit (mstatus s) (sd_pos c)"
    using assms(5) by (metis bit_adjust_sd)
  show "n \<notin> {7, 11, 12, 17, 38, 39} \<Longrightarrow> bit (mstatus s') n \<longleftrightarrow> bit (mstatus s) n"
    using ms' sd by (cases "n = sd_pos c") auto
qed

section \<open>Supervisor mode\<close>

lemma bit_read_mask: "bit (compute_sstatus_write_mask c) n \<Longrightarrow> bit (sstatus_read_mask c) n"
  by (simp add: sstatus_read_mask_def bit_or_iff)

lemma bit_masked: "bit ((old AND NOT m) OR (val AND m)) n \<longleftrightarrow> (if bit m n then bit val n else bit old n)" for m :: u64
  by (auto simp: bit_or_iff bit_and_iff bit_not_iff dest: bit_imp_le_length)

text \<open>Writing \<open>sstatus\<close> changes its bits of \<open>mstatus\<close> and keeps the others, if the field MPP is legal.\<close>

lemma nonvirtual_write_eq:
  assumes "fixed_isa c s" "legal_prv c (get_field (mstatus s) 0x1800)"
  shows "\<exists>x t. nonvirtual_sstatus_write c val s = s\<lparr>mstatus := x, tlb := t\<rparr> \<and> adjust_sd c x = x \<and>
    (\<forall>n. n \<noteq> sd_pos c \<longrightarrow> bit x n = (if bit (compute_sstatus_write_mask c) n then bit val n else bit (mstatus s) n))"
proof -
  let ?m = "compute_sstatus_write_mask c"
  let ?w = "(mstatus s AND NOT ?m) OR (val AND ?m)"
  have w: "bit ?w n \<longleftrightarrow> (if bit ?m n then bit val n else bit (mstatus s) n)" for n
    by (rule bit_masked)
  have "get_field ?w 0x1800 = get_field (mstatus s) 0x1800"
    by (rule mpp_eqI) (simp_all only: w, simp_all add: get_mpp take_bit_2_le bit_mpp bit_sstatus_write_mask, simp_all add: bit_take_bit_iff bit_drop_bit_eq)
  then have mpp: "legalize_privilege s (get_field ?w 0x1800) = get_field (mstatus s) 0x1800" using assms by (simp add: legalize_id)
  have bits: "bit (mstatus_value c ?w s) n = bit ?w n" if n: "n \<noteq> sd_pos c" for n
  proof -
    have "bit ?m n \<Longrightarrow> bit (mstatus_write_mask c s) n" "bit ?m n \<Longrightarrow> n \<noteq> 11 \<and> n \<noteq> 12"
      by (simp add: bit_mstatus_write_mask) (auto simp: bit_sstatus_write_mask)
    then show ?thesis unfolding bit_mstatus_value [OF n] w mpp unfolding get_mpp bit_mpp by auto
  qed
  show ?thesis
    using mstatus_write_eq [of c ?w s] bits w sd_mstatus_value [of c ?w s] unfolding nonvirtual_sstatus_write_def Let_def by metis
qed

lemma bit_stack_s: "bit (stack_s p r) n \<longleftrightarrow> (if n = 1 then False else if n = 8 then bit p 0 else if n = 5 then bit r 1 else bit r n)"
  unfolding stack_s_def Let_def set_bits get_bits bit_of_bool by auto

definition unstack_s :: "u64 \<Rightarrow> u64" where
  "unstack_s r = set_field (set_field (set_field r 0x2 (get_field r 0x20)) 0x20 1) 0x100 PRV_U"

lemma bit_unstack_s: "bit (unstack_s r) n \<longleftrightarrow> (if n = 8 then False else if n = 5 then True else if n = 1 then bit r 5 else bit r n)"
  unfolding unstack_s_def set_bits get_bits bit_of_bool by (simp add: bit_1_iff)

lemma bit_hstatus_mask: "bit (hstatus_mask c) n \<longleftrightarrow> n \<in> {6, 7, 8, 9, 21, 22} \<or> supports_impl c IMPL_MMU \<and> n = 20"
proof -
  have "bit (0x200 :: u64) n \<longleftrightarrow> n = 9" "bit (0x40 :: u64) n \<longleftrightarrow> n = 6"
    by (simp_all only: const_masks_fld bit_fld) auto
  then show ?thesis unfolding hstatus_mask_def
    by (simp only: bit_or_iff if_distrib [of "\<lambda>x. bit x n"] bit_masks bit_0_eq bot_apply bot_bool_def) auto
qed

text \<open>A trap into the hypervisor-extended supervisor mode, and the return from it.\<close>

lemma sstatus_mask_s: "isa_bit c ISA_S \<Longrightarrow> n \<in> {1, 5, 8} \<Longrightarrow> bit (compute_sstatus_write_mask c) n"
  "bit (compute_sstatus_write_mask c) n \<Longrightarrow> n \<noteq> 17 \<and> n \<noteq> 22 \<and> n \<noteq> sd_pos c"
  using sd_pos_range [of c] by (auto simp: bit_sstatus_write_mask)

lemma trap_to_hs_eq:
  assumes "fixed_isa c s" "legal_prv c (get_field (mstatus s) 0x1800)" "isa_bit c ISA_S" "isa_bit c ISA_U"
  shows "\<exists>pc' x y t'. trap_to_hs c t interrupt num epc (virt s) s =
    s\<lparr>pc := pc', scause := t_cause t, sepc := epc_write epc, stval := t_tval t, htval := t_tval2 t, htinst := t_tinst t,
      mstatus := x, hstatus := y, prv := PRV_S, virt := False, prev_prv := prv s, prev_v := virt s,
      prv_changed := prv s \<noteq> PRV_S, v_changed := virt s, tlb := t'\<rparr> \<and>
    adjust_sd c x = x \<and> (bit (misa s) ISA_H \<longrightarrow> bit y 7 = virt s) \<and>
    (\<forall>n. n \<noteq> sd_pos c \<longrightarrow> bit x n =
       (if n = 1 then False else if n = 8 then bit (prv s) 0 else if n = 5 then bit (mstatus s) 1 else bit (mstatus s) n))"
proof -
  define q where "q = trap_vector (stvec s) interrupt num"
  let ?s = "s\<lparr>pc := q, scause := t_cause t, sepc := epc_write epc, stval := t_tval t, htval := t_tval2 t, htinst := t_tinst t\<rparr>"
  let ?v = "stack_s (prv s) (nonvirtual_sstatus_read c s)"
  have f: "fixed_isa c ?s" "legal_prv c (get_field (mstatus ?s) 0x1800)" using assms by (simp_all add: fixed_isa_def)
  obtain x t1 where x: "nonvirtual_sstatus_write c ?v ?s = ?s\<lparr>mstatus := x, tlb := t1\<rparr>" "adjust_sd c x = x"
    and bits: "\<And>n. n \<noteq> sd_pos c \<Longrightarrow> bit x n = (if bit (compute_sstatus_write_mask c) n then bit ?v n else bit (mstatus ?s) n)"
    using nonvirtual_write_eq [OF f] by blast
  define y where "y = (if bit (misa s) ISA_H then masked_write (hstatus_mask c) (stack_h (virt s) (t_gva t) (prv s) (hstatus s)) (hstatus s) else hstatus s)"
  have leg: "legalize_privilege s' PRV_S = PRV_S" if "misa s' = misa s" for s'
    using fixed_bits [OF assms(1), of ISA_S] fixed_bits [OF assms(1), of ISA_U] assms(3,4) that by (simp add: legalize_privilege_def extension_bit)
  let ?s1 = "?s\<lparr>mstatus := x, tlb := t1\<rparr>"
  have "trap_to_hs c t interrupt num epc (virt s) s = set_privilege PRV_S False
      (let s1 = nonvirtual_sstatus_write c ?v ?s
       in if extension_enabled s1 ISA_H then hstatus_write c (stack_h (virt s) (t_gva t) (prv s1) (hstatus s1)) s1 else s1)"
    by (simp add: trap_to_hs_def Let_def q_def nonvirtual_sstatus_read_def)
  also have "\<dots> = set_privilege PRV_S False (?s1\<lparr>hstatus := y\<rparr>)"
    unfolding x(1) Let_def hstatus_write_def extension_bit y_def by simp
  finally have "trap_to_hs c t interrupt num epc (virt s) s = set_privilege PRV_S False (?s1\<lparr>hstatus := y\<rparr>)" .
  moreover have "bit (misa s) ISA_H \<longrightarrow> bit y 7 = virt s"
    unfolding y_def masked_write_def stack_h_def Let_def by (simp add: bit_masked bit_hstatus_mask set_bits bit_of_bool)
  moreover have "bit x n = (if n = 1 then False else if n = 8 then bit (prv s) 0 else if n = 5 then bit (mstatus s) 1 else bit (mstatus s) n)"
    if "n \<noteq> sd_pos c" for n
    unfolding bits [OF that] bit_stack_s using sstatus_mask_s(1) [OF assms(3)] bit_read_mask [of c]
    by (auto simp: nonvirtual_sstatus_read_def bit_and_iff)
  ultimately show ?thesis using x(2) leg unfolding set_privilege_eq by (intro exI conjI) (assumption | simp)+
qed

lemma clear_mprv:
  assumes "fixed_isa c s" "legal_prv c (get_field (mstatus s) 0x1800)"
  shows "\<exists>x t. mstatus_write c (set_field (mstatus s) 0x20000 0) s = s\<lparr>mstatus := x, tlb := t\<rparr> \<and> adjust_sd c x = x \<and>
    (\<forall>n. n \<noteq> sd_pos c \<longrightarrow> n \<noteq> 17 \<longrightarrow> bit x n = bit (mstatus s) n) \<and> (bit x 17 \<longrightarrow> bit (mstatus s) 17)"
proof -
  let ?v = "set_field (mstatus s) 0x20000 0"
  have "get_field ?v 0x1800 = get_field (mstatus s) 0x1800"
    by (rule mpp_eqI) (simp_all add: get_mpp take_bit_2_le set_bits, simp_all add: bit_take_bit_iff bit_drop_bit_eq)
  then have leg: "legalize_privilege s (get_field ?v 0x1800) = get_field (mstatus s) 0x1800" using legalize_id [OF assms] by simp
  have "bit (mstatus_value c ?v s) n = bit (mstatus s) n" if "n \<noteq> sd_pos c" "n \<noteq> 17" for n
    unfolding bit_mstatus_value [OF that(1)] leg unfolding get_mpp bit_mpp using that by (simp add: set_bits)
  moreover have "bit (mstatus_value c ?v s) 17 \<longrightarrow> bit (mstatus s) 17" by (simp add: bit_mstatus_value sd_not set_bits)
  ultimately show ?thesis using mstatus_write_eq [of c ?v s] sd_mstatus_value [of c ?v s] by metis
qed

lemma sret_hs_eq:
  assumes "fixed_isa c s" "legal_prv c (get_field (mstatus s) 0x1800)" "isa_bit c ISA_S" "\<not> virt s" "prv s = PRV_S" "\<not> bit (mstatus s) 22"
  shows "\<exists>x y t'. sret c bits s = (Inr PC_SERIALIZE_AFTER,
      set_privilege (of_bool (bit (mstatus s) 8)) (bit (misa s) ISA_H \<and> bit (hstatus s) 7)
        (s\<lparr>pc := epc_read s (sepc s) AND pc_alignment_mask s, hstatus := y, mstatus := x, tlb := t'\<rparr>)) \<and>
    adjust_sd c x = x \<and>
    (\<forall>n. n \<noteq> sd_pos c \<longrightarrow> n \<noteq> 17 \<longrightarrow> bit x n = (if n = 8 then False else if n = 5 then True else if n = 1 then bit (mstatus s) 5 else bit (mstatus s) n)) \<and>
    (bit x 17 \<longrightarrow> bit (mstatus s) 17)"
proof -
  let ?s = "s\<lparr>pc := epc_read s (sepc s) AND pc_alignment_mask s\<rparr>"
  let ?v = "unstack_s (nonvirtual_sstatus_read c s)"
  have f: "fixed_isa c ?s" "legal_prv c (get_field (mstatus ?s) 0x1800)" using assms by (simp_all add: fixed_isa_def)
  obtain x t1 where x: "nonvirtual_sstatus_write c ?v ?s = ?s\<lparr>mstatus := x, tlb := t1\<rparr>"
    and bits: "\<And>n. n \<noteq> sd_pos c \<Longrightarrow> bit x n = (if bit (compute_sstatus_write_mask c) n then bit ?v n else bit (mstatus ?s) n)"
    using nonvirtual_write_eq [OF f] by blast
  define y where "y = (if bit (misa s) ISA_H then masked_write (hstatus_mask c) (set_field (hstatus s) 0x80 0) (hstatus s) else hstatus s)"
  let ?s1 = "?s\<lparr>mstatus := x, tlb := t1, hstatus := y\<rparr>"
  have xb: "bit x n = (if n = 8 then False else if n = 5 then True else if n = 1 then bit (mstatus s) 5 else bit (mstatus s) n)"
    if "n \<noteq> sd_pos c" for n
    unfolding bits [OF that] bit_unstack_s using sstatus_mask_s(1) [OF assms(3)] bit_read_mask [of c]
    by (auto simp: nonvirtual_sstatus_read_def bit_and_iff)
  have "get_field x 0x1800 = get_field (mstatus s) 0x1800"
    by (rule mpp_eqI) (simp_all add: get_mpp take_bit_2_le xb sd_not, simp_all add: bit_take_bit_iff bit_drop_bit_eq)
  then have f1: "fixed_isa c ?s1" "legal_prv c (get_field (mstatus ?s1) 0x1800)" using assms by (simp_all add: fixed_isa_def)
  obtain z t2 where z: "mstatus_write c (set_field x 0x20000 0) ?s1 = ?s1\<lparr>mstatus := z, tlb := t2\<rparr>" "adjust_sd c z = z"
    "\<And>n. n \<noteq> sd_pos c \<Longrightarrow> n \<noteq> 17 \<Longrightarrow> bit z n = bit x n" "bit z 17 \<longrightarrow> bit x 17" using clear_mprv [OF f1] by auto
  have e: "extension_enabled s ISA_S" using fixed_bits [OF assms(1), of ISA_S] assms(3) by (simp add: extension_bit)
  have spp: "bit (sstatus_read c s) 8 = bit (mstatus s) 8"
    using bit_read_mask [OF sstatus_mask_s(1) [OF assms(3), of 8]] assms(4) by (simp add: sstatus_read_def nonvirtual_sstatus_read_def bit_and_iff)
  have "sret c bits s = (Inr PC_SERIALIZE_AFTER,
      set_privilege (of_bool (bit (sstatus_read c s) 8)) (bit (misa s) ISA_H \<and> bit (hstatus s) 7)
        (let s1 = nonvirtual_sstatus_write c ?v ?s;
             s2 = (if extension_enabled s1 ISA_H then hstatus_write c (set_field (hstatus s) 0x80 0) s1 else s1)
         in mstatus_write c (set_field (mstatus s2) 0x20000 0) s2))"
    using assms(4-6) e x
    by (simp add: sret_def Let_def set_pc_and_serialize_def unstack_s_def sstatus_read_def sstatus_write_def get_bits nonvirtual_sstatus_read_def extension_bit)
  also have "(let s1 = nonvirtual_sstatus_write c ?v ?s;
             s2 = (if extension_enabled s1 ISA_H then hstatus_write c (set_field (hstatus s) 0x80 0) s1 else s1)
         in mstatus_write c (set_field (mstatus s2) 0x20000 0) s2) = mstatus_write c (set_field x 0x20000 0) ?s1"
    unfolding x Let_def hstatus_write_def extension_bit y_def by simp
  finally show ?thesis unfolding z(1) spp using xb z(2-4) by (intro exI [of _ z] exI [of _ y] exI [of _ t2]) (simp add: sd_not)
qed

text \<open>The same for the virtual supervisor mode.\<close>

lemma trap_to_vs_eq:
  assumes "fixed_isa c s" "isa_bit c ISA_S" "isa_bit c ISA_U" "virt s"
  shows "\<exists>pc' cause t'. trap_to_vs c t interrupt num epc s =
    s\<lparr>pc := pc', vscause := cause, vsepc := epc_write epc, vstval := t_tval t,
      vsstatus := vsstatus_value c (stack_s (prv s) (vsstatus s)) s, prv := PRV_S, virt := True, prev_prv := prv s, prev_v := True,
      prv_changed := prv s \<noteq> PRV_S, v_changed := False, tlb := t'\<rparr>"
proof -
  define q where "q = trap_vector (vstvec s) interrupt num"
  define cause where "cause = (if interrupt then t_cause t - 1 else t_cause t)"
  let ?s = "s\<lparr>pc := q, vscause := cause, vsepc := epc_write epc, vstval := t_tval t\<rparr>"
  let ?v = "stack_s (prv s) (vsstatus s)"
  obtain t1 where w: "vsstatus_write c ?v ?s = ?s\<lparr>vsstatus := vsstatus_value c ?v ?s, tlb := t1\<rparr>" using vsstatus_write_eq by blast
  have val: "vsstatus_value c ?v ?s = vsstatus_value c ?v s" by (simp add: vsstatus_value_def)
  have leg: "legalize_privilege s' PRV_S = PRV_S" if "misa s' = misa s" for s'
    using fixed_bits [OF assms(1), of ISA_S] fixed_bits [OF assms(1), of ISA_U] assms(2,3) that by (simp add: legalize_privilege_def extension_bit)
  have "trap_to_vs c t interrupt num epc s = set_privilege PRV_S True (vsstatus_write c ?v ?s)"
    using assms(4) by (simp add: trap_to_vs_def Let_def q_def cause_def sstatus_write_def sstatus_read_def)
  then show ?thesis unfolding w val set_privilege_eq using assms(4) by (intro exI) (simp add: leg)
qed

lemma sret_vs_eq:
  assumes "fixed_isa c s" "isa_bit c ISA_S" "virt s" "prv s = PRV_S" "\<not> bit (hstatus s) 22"
  shows "\<exists>t'. sret c bits s = (Inr PC_SERIALIZE_AFTER,
      set_privilege (of_bool (bit (vsstatus s) 8)) True
        (s\<lparr>pc := epc_read s (vsepc s) AND pc_alignment_mask s, vsstatus := vsstatus_value c (unstack_s (vsstatus s)) s, tlb := t'\<rparr>))"
proof -
  let ?s = "s\<lparr>pc := epc_read s (vsepc s) AND pc_alignment_mask s\<rparr>"
  let ?v = "unstack_s (vsstatus s)"
  obtain t1 where w: "vsstatus_write c ?v ?s = ?s\<lparr>vsstatus := vsstatus_value c ?v ?s, tlb := t1\<rparr>" using vsstatus_write_eq by blast
  have val: "vsstatus_value c ?v ?s = vsstatus_value c ?v s" by (simp add: vsstatus_value_def)
  have e: "extension_enabled s ISA_S" using fixed_bits [OF assms(1), of ISA_S] assms(2) by (simp add: extension_bit)
  show ?thesis using assms(3-5) e w val
    by (simp add: sret_def Let_def set_pc_and_serialize_def unstack_s_def sstatus_read_def sstatus_write_def get_bits) blast
qed

section \<open>Trap and return in supervisor mode\<close>

text \<open>The conditions under which a trap into level S can return: privileges and delegation are legal.\<close>

lemma low_prv: "legal_prv c p \<Longrightarrow> p \<le> PRV_S \<Longrightarrow> p = of_bool (bit p 0) \<and> p \<noteq> PRV_M"
  by (auto simp: legal_prv_def word_le_nat_alt)

lemma sd_same:
  assumes "adjust_sd c x = x" "adjust_sd c y = y" "\<And>n. n \<noteq> sd_pos c \<Longrightarrow> n \<notin> A \<Longrightarrow> bit x n \<longleftrightarrow> bit y n"
    "A \<inter> {9, 10, 13, 14, 15, 16} = {}" "n \<notin> A"
  shows "bit x n \<longleftrightarrow> bit y n"
proof -
  have "bit x k = bit y k" if "k \<in> {9, 10, 13, 14, 15, 16}" for k using that assms(4) sd_pos_range [of c] by (intro assms(3)) auto
  then have "dirty_bits x = dirty_bits y" by (simp add: dirty_bits_def)
  then have "bit x (sd_pos c) = bit y (sd_pos c)" using assms(1,2) by (metis bit_adjust_sd)
  then show ?thesis using assms(3,5) by (cases "n = sd_pos c") auto
qed

lemma trap_sret_hs:
  assumes "fixed_isa c s" "legal_prv c (prv s)" "prv s \<le> PRV_S" "legal_prv c (get_field (mstatus s) 0x1800)"
    "isa_bit c ISA_S" "isa_bit c ISA_U" "virt s \<longrightarrow> bit (misa s) ISA_H" "\<not> bit (mstatus s) 22" "adjust_sd c (mstatus s) = mstatus s"
    and m: "sret c bits (trap_to_hs c t interrupt num epc (virt s) s) = (r, s')"
  shows "r = Inr PC_SERIALIZE_AFTER" "pc s' = epc_read s (epc_write epc)" "prv s' = prv s" "virt s' = virt s" "vsstatus s' = vsstatus s"
    "n \<notin> {5, 8, 17} \<Longrightarrow> bit (mstatus s') n \<longleftrightarrow> bit (mstatus s) n"
proof -
  obtain pc' x y t' where trap: "trap_to_hs c t interrupt num epc (virt s) s =
    s\<lparr>pc := pc', scause := t_cause t, sepc := epc_write epc, stval := t_tval t, htval := t_tval2 t, htinst := t_tinst t,
      mstatus := x, hstatus := y, prv := PRV_S, virt := False, prev_prv := prv s, prev_v := virt s,
      prv_changed := prv s \<noteq> PRV_S, v_changed := virt s, tlb := t'\<rparr>" (is "_ = ?s")
    and y: "bit (misa s) ISA_H \<longrightarrow> bit y 7 = virt s"
    and x: "\<And>n. n \<noteq> sd_pos c \<Longrightarrow> bit x n =
       (if n = 1 then False else if n = 8 then bit (prv s) 0 else if n = 5 then bit (mstatus s) 1 else bit (mstatus s) n)"
    using trap_to_hs_eq [OF assms(1,4,5,6)] by blast
  have "get_field x 0x1800 = get_field (mstatus s) 0x1800"
    by (rule mpp_eqI) (simp_all add: get_mpp take_bit_2_le x sd_not, simp_all add: bit_take_bit_iff bit_drop_bit_eq)
  then have f: "fixed_isa c ?s" "legal_prv c (get_field (mstatus ?s) 0x1800)" "\<not> virt ?s" "prv ?s = PRV_S" "\<not> bit (mstatus ?s) 22"
    using assms(1,4,8) by (simp_all add: fixed_isa_def x sd_not)
  obtain z w t2 where ret: "sret c bits ?s = (Inr PC_SERIALIZE_AFTER,
      set_privilege (of_bool (bit x 8)) (bit (misa s) ISA_H \<and> bit y 7)
        (?s\<lparr>pc := epc_read ?s (epc_write epc) AND pc_alignment_mask ?s, hstatus := w, mstatus := z, tlb := t2\<rparr>))"
    and z: "adjust_sd c z = z"
      "\<And>n. n \<noteq> sd_pos c \<Longrightarrow> n \<noteq> 17 \<Longrightarrow> bit z n = (if n = 8 then False else if n = 5 then True else if n = 1 then bit x 5 else bit x n)"
    using sret_hs_eq [OF f(1,2) assms(5) f(3-5), of bits] by auto
  have p: "of_bool (bit x 8) = prv s" using low_prv [OF assms(2,3)] by (simp add: x sd_not)
  have v: "(bit (misa s) ISA_H \<and> bit y 7) = virt s" using y assms(7) by auto
  have leg: "legalize_privilege (?s\<lparr>pc := i, hstatus := w, mstatus := z, tlb := t2\<rparr>) (prv s) = prv s" for i
    using legalize_id [OF assms(1,2)] legalize_misa [of "?s\<lparr>pc := i, hstatus := w, mstatus := z, tlb := t2\<rparr>" s] by simp
  have s': "s' = ?s\<lparr>pc := epc_read s (epc_write epc), hstatus := w, mstatus := z, prv := prv s, virt := virt s,
      prev_prv := PRV_S, prev_v := False, prv_changed := prv s \<noteq> PRV_S, v_changed := virt s, tlb := flush_tlb t2\<rparr>"
    and r: "r = Inr PC_SERIALIZE_AFTER"
    using m low_prv [OF assms(2,3)] unfolding trap ret p v set_privilege_eq leg
    by (auto simp: epc_read_def pc_alignment_mask_def and.assoc)
  show "r = Inr PC_SERIALIZE_AFTER" by (rule r)
  show "pc s' = epc_read s (epc_write epc)" "prv s' = prv s" "virt s' = virt s" "vsstatus s' = vsstatus s" unfolding s' by simp_all
  have "mstatus s' = z" unfolding s' by simp
  moreover have "bit z k \<longleftrightarrow> bit (mstatus s) k" if "k \<noteq> sd_pos c" "k \<notin> {5, 8, 17}" for k using that by (simp add: z(2) x sd_not)
  ultimately show "n \<notin> {5, 8, 17} \<Longrightarrow> bit (mstatus s') n \<longleftrightarrow> bit (mstatus s) n" using sd_same [OF z(1) assms(9), of "{5, 8, 17}" n] by simp
qed

lemma trap_sret_vs:
  assumes "fixed_isa c s" "legal_prv c (prv s)" "prv s \<le> PRV_S" "isa_bit c ISA_S" "isa_bit c ISA_U" "virt s" "\<not> bit (hstatus s) 22"
    "adjust_sd c (vsstatus s) = vsstatus s" and m: "sret c bits (trap_to_vs c t interrupt num epc s) = (r, s')"
  shows "r = Inr PC_SERIALIZE_AFTER" "pc s' = epc_read s (epc_write epc)" "prv s' = prv s" "virt s' = virt s" "mstatus s' = mstatus s"
    "n \<notin> {5, 8} \<Longrightarrow> bit (vsstatus s') n \<longleftrightarrow> bit (vsstatus s) n"
proof -
  let ?x = "vsstatus_value c (stack_s (prv s) (vsstatus s)) s"
  obtain pc' cause t' where trap: "trap_to_vs c t interrupt num epc s =
    s\<lparr>pc := pc', vscause := cause, vsepc := epc_write epc, vstval := t_tval t, vsstatus := ?x, prv := PRV_S, virt := True,
      prev_prv := prv s, prev_v := True, prv_changed := prv s \<noteq> PRV_S, v_changed := False, tlb := t'\<rparr>" (is "_ = ?s")
    using trap_to_vs_eq [OF assms(1,4-6)] by blast
  let ?z = "vsstatus_value c (unstack_s ?x) ?s"
  have f: "fixed_isa c ?s" "virt ?s" "prv ?s = PRV_S" "\<not> bit (hstatus ?s) 22" using assms(1,7) by (simp_all add: fixed_isa_def)
  obtain t2 where ret: "sret c bits ?s = (Inr PC_SERIALIZE_AFTER, set_privilege (of_bool (bit ?x 8)) True
      (?s\<lparr>pc := epc_read ?s (epc_write epc) AND pc_alignment_mask ?s, vsstatus := ?z, tlb := t2\<rparr>))"
    using sret_vs_eq [OF f(1) assms(4) f(2-4), of bits] by auto
  have p: "of_bool (bit ?x 8) = prv s"
    using low_prv [OF assms(2,3)] sstatus_mask_s(1) [OF assms(4)] by (simp add: bit_vsstatus_value sd_not bit_stack_s)
  have leg: "legalize_privilege (?s\<lparr>pc := i, vsstatus := j, tlb := t2\<rparr>) (prv s) = prv s" for i j
    using legalize_id [OF assms(1,2)] legalize_misa [of "?s\<lparr>pc := i, vsstatus := j, tlb := t2\<rparr>" s] by simp
  have s': "s' = ?s\<lparr>pc := epc_read s (epc_write epc), vsstatus := ?z, prv := prv s, prev_prv := PRV_S, prev_v := True,
      prv_changed := prv s \<noteq> PRV_S, v_changed := False, tlb := flush_tlb t2\<rparr>" and r: "r = Inr PC_SERIALIZE_AFTER"
    using m low_prv [OF assms(2,3)] unfolding trap ret p set_privilege_eq leg by (auto simp: epc_read_def pc_alignment_mask_def and.assoc)
  show "r = Inr PC_SERIALIZE_AFTER" by (rule r)
  show "pc s' = epc_read s (epc_write epc)" "prv s' = prv s" "virt s' = virt s" "mstatus s' = mstatus s" unfolding s' using assms(6) by simp_all
  have "vsstatus s' = ?z" unfolding s' by simp
  moreover have "bit ?z k \<longleftrightarrow> bit (vsstatus s) k" if "k \<noteq> sd_pos c" "k \<notin> {5, 8}" for k
    using that sstatus_mask_s(1) [OF assms(4)] by (simp add: bit_vsstatus_value bit_unstack_s bit_stack_s sd_not)
  ultimately show "n \<notin> {5, 8} \<Longrightarrow> bit (vsstatus s') n \<longleftrightarrow> bit (vsstatus s) n"
    using sd_same [OF sd_vsstatus_value [of c "unstack_s ?x" ?s] assms(8), of "{5, 8}" n] by simp
qed

end
