(* ===== verification/Trap_Select.thy ===== *)
theory Trap_Select
  imports Trap_Return
begin

text \<open>
  The choice of an interrupt: which of the pending interrupts can be delivered, which one is taken, and in which mode.
\<close>

section \<open>Specification\<close>

text \<open>The mode that handles interrupt \<open>n\<close>: privilege and virtualization.\<close>

definition interrupt_target :: "state_t \<Rightarrow> nat \<Rightarrow> u64 \<times> bool" where
  "interrupt_target s n =
     (if \<not> bit (mideleg_read s) n then (PRV_M, False) else if \<not> bit (hideleg_read s) n then (PRV_S, False) else (PRV_S, True))"

text \<open>A mode takes interrupts when it is more privileged than the hart, or when it is the mode of the hart and enables them.\<close>

definition mode_open :: "proc_cfg \<Rightarrow> state_t \<Rightarrow> u64 \<times> bool \<Rightarrow> bool" where
  "mode_open c s m =
     (if fst m = PRV_M then prv s < PRV_M \<or> bit (mstatus s) 3
      else if \<not> snd m then virt s \<or> prv s < PRV_S \<or> prv s = PRV_S \<and> bit (sstatus_read c s) 1
      else virt s \<and> (prv s < PRV_S \<or> prv s = PRV_S \<and> bit (sstatus_read c s) 1))"

definition deliverable :: "proc_cfg \<Rightarrow> u64 \<Rightarrow> state_t \<Rightarrow> nat \<Rightarrow> bool" where
  "deliverable c pending s n \<longleftrightarrow> bit pending n \<and> mode_open c s (interrupt_target s n)"

definition mode_rank :: "u64 \<times> bool \<Rightarrow> nat" where
  "mode_rank m = (if fst m = PRV_M then 2 else if \<not> snd m then 1 else 0)"

text \<open>The order in which interrupts of one mode are chosen.\<close>

definition priority_order :: "nat list" where
  "priority_order = [12, 13, 11, 3, 7, 9, 1, 5, 10, 2, 6]"

section \<open>The enabled interrupts\<close>

lemma rank_inj: "mode_rank (interrupt_target s m) = mode_rank (interrupt_target s n) \<longleftrightarrow> interrupt_target s m = interrupt_target s n"
  by (auto simp: mode_rank_def interrupt_target_def)

lemma bit_all_ones: "bit (x AND (if b then - 1 else 0)) n \<longleftrightarrow> b \<and> bit x n" for x :: u64
  by (auto simp: bit_and_iff dest: bit_imp_le_length)

lemma hideleg_sub: "bit (hideleg_read s) n \<Longrightarrow> bit (mideleg_read s) n"
  by (simp add: hideleg_read_def bit_and_iff)

lemma eq_0_iff_bits: "(x :: u64) = 0 \<longleftrightarrow> (\<forall>n. \<not> bit x n)"
  by (metis bit_0_eq bit_word_eqI bot_apply bot_bool_def)

lemma bit_three:
  fixes p a b :: u64
  shows "bit (p AND NOT a AND (if x then - 1 else 0)) n \<longleftrightarrow> x \<and> bit p n \<and> \<not> bit a n"
    "bit (p AND (a AND NOT b) AND (if x then - 1 else 0)) n \<longleftrightarrow> x \<and> bit p n \<and> bit a n \<and> \<not> bit b n"
    "bit (p AND b AND (if x then - 1 else 0)) n \<longleftrightarrow> x \<and> bit p n \<and> bit b n"
  by (auto simp: bit_and_iff bit_not_iff dest: bit_imp_le_length)

text \<open>An enabled interrupt is deliverable and no mode of a higher rank has one; all deliverable ones of its mode are enabled with it.\<close>

lemma enabled_interrupts_spec:
  assumes "prv s \<le> PRV_M" "virt s \<longrightarrow> prv s \<noteq> PRV_M"
  shows "bit (enabled_interrupts c pending s) n \<longleftrightarrow>
    deliverable c pending s n \<and> (\<forall>m. deliverable c pending s m \<longrightarrow> mode_rank (interrupt_target s m) \<le> mode_rank (interrupt_target s n))"
proof -
  define M where "M = pending AND NOT (mideleg_read s) AND (if prv s < PRV_M \<or> prv s = PRV_M \<and> get_flag (mstatus s) 0x8 then - 1 else 0)"
  let ?sie = "get_flag (sstatus_read c s) 0x2"
  define H where "H = pending AND (mideleg_read s AND NOT (hideleg_read s)) AND (if virt s \<or> prv s < PRV_S \<or> prv s = PRV_S \<and> ?sie then - 1 else 0)"
  define V where "V = pending AND hideleg_read s AND (if prv s < PRV_S \<or> prv s = PRV_S \<and> ?sie then - 1 else 0)"
  have e: "enabled_interrupts c pending s = (if M \<noteq> 0 then M else if virt s \<and> H = 0 then V else H)"
    unfolding enabled_interrupts_def Let_def M_def H_def V_def by simp
  have prv: "prv s < PRV_M \<or> prv s = PRV_M" using assms(1) by auto
  have Mb: "bit M n \<longleftrightarrow> deliverable c pending s n \<and> interrupt_target s n = (PRV_M, False)" for n
    unfolding M_def bit_three(1) using prv by (auto simp: deliverable_def mode_open_def interrupt_target_def get_bits)
  have Hb: "bit H n \<longleftrightarrow> deliverable c pending s n \<and> interrupt_target s n = (PRV_S, False)" for n
    unfolding H_def bit_three(2) by (auto simp: deliverable_def mode_open_def interrupt_target_def get_bits)
  have Vb: "virt s \<Longrightarrow> bit V n \<longleftrightarrow> deliverable c pending s n \<and> interrupt_target s n = (PRV_S, True)" for n
    unfolding V_def bit_three(3) using hideleg_sub [of s n] by (auto simp: deliverable_def mode_open_def interrupt_target_def get_bits)
  have vs: "deliverable c pending s n \<Longrightarrow> interrupt_target s n = (PRV_S, True) \<Longrightarrow> virt s" for n
    by (simp add: deliverable_def mode_open_def)
  have cases: "interrupt_target s n = (PRV_M, False) \<or> interrupt_target s n = (PRV_S, False) \<or> interrupt_target s n = (PRV_S, True)" for n
    by (simp add: interrupt_target_def)
  have rank: "mode_rank (PRV_M, False) = 2" "mode_rank (PRV_S, False) = 1" "mode_rank (PRV_S, True) = 0" by (simp_all add: mode_rank_def)
  consider (m) "M \<noteq> 0" | (h) "M = 0" "H \<noteq> 0" | (v) "M = 0" "H = 0" by blast
  then show ?thesis
  proof cases
    case m
    then obtain k where "deliverable c pending s k" "interrupt_target s k = (PRV_M, False)" unfolding eq_0_iff_bits Mb by blast
    then show ?thesis unfolding e if_P [OF m] Mb using cases rank by (metis le_refl numeral_le_one_iff one_le_numeral not_numeral_le_zero semiring_norm(69) zero_le)
  next
    case h
    then obtain k where k: "deliverable c pending s k" "interrupt_target s k = (PRV_S, False)" unfolding eq_0_iff_bits Hb by blast
    have "\<And>i. deliverable c pending s i \<Longrightarrow> interrupt_target s i \<noteq> (PRV_M, False)" using h(1) unfolding eq_0_iff_bits Mb by blast
    moreover have "enabled_interrupts c pending s = H" using h unfolding e by simp
    ultimately show ?thesis using k cases rank Hb by (metis le_refl not_one_le_zero zero_le)
  next
    case v
    then have no: "\<And>i. deliverable c pending s i \<Longrightarrow> interrupt_target s i = (PRV_S, True)" unfolding eq_0_iff_bits Mb Hb using cases by blast
    have "enabled_interrupts c pending s = (if virt s then V else 0)" using v unfolding e by simp
    then show ?thesis using no Vb vs rank by (metis bit_0_eq bot_apply bot_bool_def le_refl)
  qed
qed

section \<open>The chosen interrupt\<close>

text \<open>The interrupts that can be enabled have the numbers of the list above.\<close>

definition legal_ints :: "u64 \<Rightarrow> bool" where
  "legal_ints e \<longleftrightarrow> (\<forall>n. bit e n \<longrightarrow> n \<in> set priority_order)"

lemma and_power: "e AND MIP_MEIP \<noteq> 0 \<longleftrightarrow> bit e 11" "e AND MIP_MSIP \<noteq> 0 \<longleftrightarrow> bit e 3" "e AND MIP_MTIP \<noteq> 0 \<longleftrightarrow> bit e 7"
  "e AND MIP_SEIP \<noteq> 0 \<longleftrightarrow> bit e 9" "e AND MIP_SSIP \<noteq> 0 \<longleftrightarrow> bit e 1" "e AND MIP_STIP \<noteq> 0 \<longleftrightarrow> bit e 5"
  "e AND MIP_LCOFIP \<noteq> 0 \<longleftrightarrow> bit e 13" "e AND MIP_VSEIP \<noteq> 0 \<longleftrightarrow> bit e 10" "e AND MIP_VSSIP \<noteq> 0 \<longleftrightarrow> bit e 2"
  "e AND MIP_VSTIP \<noteq> 0 \<longleftrightarrow> bit e 6" for e :: u64
  using and_exp_eq_0_iff_not_bit [of e 11] and_exp_eq_0_iff_not_bit [of e 3] and_exp_eq_0_iff_not_bit [of e 7]
    and_exp_eq_0_iff_not_bit [of e 9] and_exp_eq_0_iff_not_bit [of e 1] and_exp_eq_0_iff_not_bit [of e 5]
    and_exp_eq_0_iff_not_bit [of e 13] and_exp_eq_0_iff_not_bit [of e 10] and_exp_eq_0_iff_not_bit [of e 2]
    and_exp_eq_0_iff_not_bit [of e 6] by simp_all

lemma ctz_values:
  "ctz 0x1000 = 12" "ctz 0x2000 = 13" "ctz 0x3000 = 12" "ctz 0x800 = 11" "ctz 0x8 = 3" "ctz 0x80 = 7" "ctz 0x200 = 9" "ctz 0x2 = 1"
  "ctz 0x20 = 5" "ctz 0x400 = 10" "ctz 0x4 = 2" "ctz 0x40 = 6"
  by code_simp+

lemma high_ints:
  assumes "legal_ints e" "drop_bit 12 e \<noteq> 0"
  shows "push_bit 12 (drop_bit 12 e) = (if bit e 12 then if bit e 13 then 0x3000 else 0x1000 else 0x2000)" "bit e 12 \<or> bit e 13"
proof -
  have hi: "bit e n \<Longrightarrow> 12 \<le> n \<Longrightarrow> n = 12 \<or> n = 13" for n using assms(1) by (auto simp: legal_ints_def priority_order_def)
  obtain n where "bit (drop_bit 12 e) n" using assms(2) by (metis eq_0_iff_bits)
  then have "bit e (12 + n)" by (simp add: bit_drop_bit_eq)
  then show some: "bit e 12 \<or> bit e 13" using hi [of "12 + n"] by auto
  have m: "(0x1000 :: u64) = fld 12 1" "(0x2000 :: u64) = fld 13 1" "(0x3000 :: u64) = fld 12 2" by (simp_all add: fld_def mask_eq_exp_minus_1)
  show "push_bit 12 (drop_bit 12 e) = (if bit e 12 then if bit e 13 then 0x3000 else 0x1000 else 0x2000)"
  proof (rule bit_word_eqI)
    fix n assume "n < LENGTH(64)"
    have "bit (push_bit 12 (drop_bit 12 e)) n \<longleftrightarrow> 12 \<le> n \<and> bit e n"
      by (auto simp: bit_push_bit_iff bit_drop_bit_eq dest: bit_imp_le_length)
    also have "\<dots> \<longleftrightarrow> n = 12 \<and> bit e 12 \<or> n = 13 \<and> bit e 13" using hi [of n] by auto
    finally show "bit (push_bit 12 (drop_bit 12 e)) n = bit (if bit e 12 then if bit e 13 then 0x3000 else 0x1000 else 0x2000 :: u64) n"
      unfolding m using some by (simp only: if_distrib [of "\<lambda>x. bit x n"] bit_fld) auto
  qed
qed

lemma select_interrupt_first:
  assumes "legal_ints e" "e \<noteq> 0"
  shows "\<exists>chosen. select_interrupt e = Some chosen \<and> find (bit e) priority_order = Some (ctz chosen)"
proof (cases "drop_bit 12 e \<noteq> 0")
  case True
  then show ?thesis using high_ints [OF assms(1) True]
    by (auto simp: select_interrupt_def priority_order_def ctz_values)
next
  case False
  have z: "\<not> bit e (12 + k)" for k
  proof -
    have "bit (drop_bit 12 e) k = bit e (12 + k)" by (simp add: bit_drop_bit_eq)
    then show ?thesis using False by simp
  qed
  have "\<not> bit e 12" "\<not> bit e 13" using z [of 0] z [of 1] by simp_all
  moreover obtain n where "bit e n" using assms(2) by (metis eq_0_iff_bits)
  then have "n \<in> set priority_order" using assms(1) by (simp add: legal_ints_def)
  ultimately show ?thesis using False \<open>bit e n\<close> unfolding select_interrupt_def and_power
    by (auto simp: priority_order_def ctz_values)
qed

section \<open>Taking the interrupt\<close>

lemma bit_interrupt: "max_xlen c = 32 \<or> max_xlen c = 64 \<Longrightarrow> bit (interrupt_bit c) k \<longleftrightarrow> k = max_xlen c - 1"
  unfolding interrupt_bit_def push_bit_of_1 bit_exp_iff by (auto simp: possible_bit_word)

lemma small_bits: "n < 32 \<Longrightarrow> bit (of_nat n :: u64) k \<Longrightarrow> k < 5"
proof -
  assume "n < 32" and b: "bit (of_nat n :: u64) k"
  then have "take_bit 5 n = n" by (simp add: take_bit_nat_eq_self_iff)
  then have "take_bit 5 (of_nat n :: u64) = of_nat n" by (simp add: take_bit_of_nat)
  then show "k < 5" using b by (metis bit_take_bit_iff)
qed

lemma interrupt_cause:
  assumes "max_xlen c = 32 \<or> max_xlen c = 64" "n < 32"
  shows "(interrupt_bit c OR of_nat n) AND interrupt_bit c \<noteq> 0" "(interrupt_bit c OR of_nat n) AND NOT (interrupt_bit c) = of_nat n"
proof -
  show "(interrupt_bit c OR of_nat n) AND interrupt_bit c \<noteq> 0"
    unfolding eq_0_iff_bits using bit_interrupt [OF assms(1)] by (auto simp: bit_and_iff bit_or_iff)
  show "(interrupt_bit c OR of_nat n) AND NOT (interrupt_bit c) = of_nat n"
  proof (rule bit_word_eqI)
    fix k assume "k < LENGTH(64)"
    then show "bit ((interrupt_bit c OR of_nat n) AND NOT (interrupt_bit c)) k = bit (of_nat n :: u64) k"
      using bit_interrupt [OF assms(1), of k] small_bits [OF assms(2), of k] assms(1) by (auto simp: bit_and_iff bit_or_iff bit_not_iff)
  qed
qed

lemma delegated_bit: "max_xlen c = 32 \<or> max_xlen c = 64 \<Longrightarrow> n < 32 \<Longrightarrow> delegated c d (of_nat n) \<longleftrightarrow> bit d n"
  by (auto simp: delegated_def word_less_nat_alt unat_of_nat bit_iff_odd_drop_bit and_one_eq odd_iff_mod_2_eq_one)

lemma trap_to_m_prv: "prv (trap_to_m c t interrupt num epc v s) = PRV_M" "\<not> virt (trap_to_m c t interrupt num epc v s)"
  unfolding trap_to_m_def Let_def set_privilege_eq by (simp_all add: legalize_privilege_def)

lemma legalize_s: "fixed_isa c s \<Longrightarrow> isa_bit c ISA_S \<Longrightarrow> isa_bit c ISA_U \<Longrightarrow> legalize_privilege s PRV_S = PRV_S"
  using fixed_bits [of c s ISA_S] fixed_bits [of c s ISA_U] by (simp add: legalize_privilege_def extension_bit)

text \<open>A deliverable interrupt is handled in its mode.\<close>

lemma take_trap_interrupt:
  assumes xl: "max_xlen c = 32 \<or> max_xlen c = 64" and n: "n < 32" and "\<not> debug_mode s" "fixed_isa c s" "legal_prv c (prv s)"
    "virt s \<longrightarrow> prv s \<noteq> PRV_M" "mode_open c s (interrupt_target s n)" "bit (mideleg_read s) n \<longrightarrow> isa_bit c ISA_S \<and> isa_bit c ISA_U"
  shows "let s' = take_trap c (plain_trap (interrupt_bit c OR of_nat n)) epc s in (prv s', virt s') = interrupt_target s n"
proof -
  let ?t = "plain_trap (interrupt_bit c OR of_nat n)"
  have low: "prv s \<le> PRV_S" if "virt s \<or> prv s < PRV_S \<or> prv s = PRV_S"
    using that assms(5,6) by (auto simp: legal_prv_def)
  have t: "take_trap c ?t epc s =
      (if prv s \<le> PRV_S \<and> virt s \<and> bit (hideleg_read s) n then trap_to_vs c ?t True (of_nat n) epc s
       else if prv s \<le> PRV_S \<and> bit (mideleg_read s) n then trap_to_hs c ?t True (of_nat n) epc (virt s) s
       else trap_to_m c ?t True (of_nat n) epc (virt s) s)"
    using assms(3) interrupt_cause [OF xl n] by (auto simp: take_trap_def Let_def plain_trap_def delegated_bit [OF xl n])
  consider (m) "\<not> bit (mideleg_read s) n" | (h) "bit (mideleg_read s) n" "\<not> bit (hideleg_read s) n" | (v) "bit (hideleg_read s) n" by blast
  then show ?thesis
  proof cases
    case m
    then have "\<not> bit (hideleg_read s) n" using hideleg_sub by blast
    then show ?thesis using m by (simp add: t trap_to_m_prv interrupt_target_def)
  next
    case h
    then have "prv s \<le> PRV_S" using assms(7) by (intro low) (auto simp: mode_open_def interrupt_target_def)
    then show ?thesis using h assms(4,8) by (simp add: t trap_to_s_prv interrupt_target_def legalize_s)
  next
    case v
    then have "virt s" "prv s \<le> PRV_S" using assms(7) hideleg_sub [OF v] by (auto simp: mode_open_def interrupt_target_def)
    then show ?thesis using v hideleg_sub [OF v] assms(4,8) by (simp add: t trap_to_s_prv interrupt_target_def legalize_s)
  qed
qed

section \<open>Triggers on the way\<close>

lemma common_match_defined: "trigger_wf t \<Longrightarrow> th_prv h \<in> {0, 1, 3} \<Longrightarrow> common_match h False t \<noteq> None"
  using interpret_defined [of t "th_ext_h h"]
  by (auto simp: common_match_def mode_match_def textra_match_def split: mhselect_mode_t.splits)

lemma fire_defined: "trigger_wf t \<Longrightarrow> th_prv h \<in> {0, 1, 3} \<Longrightarrow> \<exists>r t'. detect_icount_fire h t = Some (r, t') \<and> trigger_wf t'"
  using common_match_defined [of t h] by (auto simp: detect_icount_fire_def trigger_wf_def split: trigger_kind.splits)

lemma fire_loop_defined:
  "list_all trigger_wf ts \<Longrightarrow> th_prv h \<in> {0, 1, 3} \<Longrightarrow> \<exists>r ts'. detect_loop (detect_icount_fire h) ts ret = Some (r, ts') \<and> list_all trigger_wf ts'"
proof (induction ts arbitrary: ret)
  case (Cons t ts)
  obtain r t' where t: "detect_icount_fire h t = Some (r, t')" "trigger_wf t'" using Cons.prems fire_defined [of t h] by auto
  moreover obtain q ts' where "detect_loop (detect_icount_fire h) ts (better_match ret r) = Some (q, ts')" "list_all trigger_wf ts'"
    using Cons by fastforce
  ultimately show ?case by simp
qed simp

lemma decrement_defined: "trigger_wf t \<Longrightarrow> th_prv h \<in> {0, 1, 3} \<Longrightarrow> detect_icount_decrement h t \<noteq> None"
  using common_match_defined [of t h] by (auto simp: detect_icount_decrement_def split: trigger_kind.splits)

lemma decrement_loop_defined: "list_all trigger_wf ts \<Longrightarrow> th_prv h \<in> {0, 1, 3} \<Longrightarrow> decrement_loop h ts \<noteq> None"
proof (induction ts)
  case (Cons t ts)
  obtain t' where "detect_icount_decrement h t = Some t'" using Cons.prems decrement_defined [of t h] by auto
  then show ?case using Cons by auto
qed simp

lemma detect_icount_defined: "list_all trigger_wf ts \<Longrightarrow> th_prv h \<in> {0, 1, 3} \<Longrightarrow> detect_icount_match h ts \<noteq> None"
proof -
  assume ts: "list_all trigger_wf ts" and p: "th_prv h \<in> {0, 1, 3}"
  have "trigger_wf (stash_read_values t)" if "trigger_wf t" for t
    using that by (auto simp: stash_read_values_def trigger_wf_def split: trigger_kind.splits)
  then have "list_all trigger_wf (map stash_read_values ts)" using ts by (auto simp: list_all_iff)
  from fire_loop_defined [OF this p, of None] obtain r ts'
    where "detect_loop (detect_icount_fire h) (map stash_read_values ts) None = Some (r, ts')" "list_all trigger_wf ts'" by blast
  then show ?thesis using decrement_loop_defined [OF _ p] by (auto simp: detect_icount_match_def Let_def)
qed

end
