(* ===== verification/Priv_Inv.thy ===== *)
theory Priv_Inv
  imports Trap_Select
begin

text \<open>
  The invariant of the privileged state, and the steps that keep it: traps, interrupts, debug mode, returns, and every instruction on
  a privileged register.
\<close>

section \<open>Invariant\<close>

text \<open>The configurations that the parser of the instruction set accepts.\<close>

definition cfg_ok :: "proc_cfg \<Rightarrow> bool" where
  "cfg_ok c \<longleftrightarrow> (max_xlen c = 32 \<or> max_xlen c = 64) \<and> (isa_bit c ISA_S \<longrightarrow> isa_bit c ISA_U) \<and> (isa_bit c ISA_H \<longrightarrow> isa_bit c ISA_S)"

abbreviation hyp :: "state_t \<Rightarrow> bool" where
  "hyp s \<equiv> bit (misa s) ISA_H"

text \<open>The privilege exists, and there is a virtual mode only with the hypervisor.\<close>

definition mode_inv :: "proc_cfg \<Rightarrow> state_t \<Rightarrow> bool" where
  "mode_inv c s \<longleftrightarrow> fixed_isa c s \<and> legal_prv c (prv s) \<and> (virt s \<longrightarrow> prv s \<noteq> PRV_M \<and> hyp s)"

text \<open>The saved modes are legal as well, and the summary bits are right.\<close>

definition status_inv :: "proc_cfg \<Rightarrow> state_t \<Rightarrow> bool" where
  "status_inv c s \<longleftrightarrow> legal_prv c (get_field (mstatus s) 0x1800) \<and> adjust_sd c (mstatus s) = mstatus s \<and> adjust_sd c (vsstatus s) = vsstatus s \<and>
     (bit (mstatus s) 39 \<longrightarrow> hyp s) \<and> (mnstatus s \<noteq> None \<longrightarrow> bit (the (mnstatus s)) 7 \<longrightarrow> hyp s) \<and>
     (debug_mode s \<longrightarrow> d_v (dcsr s) \<longrightarrow> hyp s) \<and> d_prv (dcsr s) \<le> 3"

text \<open>Only interrupts that exist are enabled, and only those of a supervisor are delegated.\<close>

definition ints_inv :: "proc_cfg \<Rightarrow> state_t \<Rightarrow> bool" where
  "ints_inv c s \<longleftrightarrow> legal_ints (mie s) \<and> (\<forall>n. bit (mideleg s) n \<longrightarrow> isa_bit c ISA_S \<and> n \<in> {1, 5, 9, 12, 13}) \<and>
     (\<forall>n. bit (medeleg s) n \<longrightarrow> isa_bit c ISA_S)"

text \<open>Program counters are even, and multiples of four without compressed instructions; the markers of the execution loop are odd.\<close>

definition pc_ok :: "state_t \<Rightarrow> u64 \<Rightarrow> bool" where
  "pc_ok s x \<longleftrightarrow> \<not> bit x 0 \<and> (bit x 1 \<longrightarrow> extension_enable_table s EXT_ZCA)"

definition pc_inv :: "proc_cfg \<Rightarrow> state_t \<Rightarrow> bool" where
  "pc_inv c s \<longleftrightarrow> pc_ok s (pc s) \<and> (extension_enable_table s EXT_ZCA \<longrightarrow> bit (misa s) ISA_C \<or> \<not> isa_bit c ISA_C) \<and>
     (extension_enable_table s EXT_ZCA \<longrightarrow> isa_extension c EXT_ZCA) \<and> \<not> bit (mepc s) 0 \<and> \<not> bit (sepc s) 0 \<and> \<not> bit (vsepc s) 0 \<and> \<not> bit (mnepc s) 0 \<and> \<not> bit (dpc s) 0 \<and>
     \<not> bit (mtvec s) 1 \<and> \<not> bit (stvec s) 1 \<and> \<not> bit (vstvec s) 1"

definition core_inv :: "proc_cfg \<Rightarrow> state_t \<Rightarrow> bool" where
  "core_inv c s \<longleftrightarrow> mode_inv c s \<and> status_inv c s \<and> ints_inv c s"

definition priv_inv :: "proc_cfg \<Rightarrow> state_t \<Rightarrow> bool" where
  "priv_inv c s \<longleftrightarrow> core_inv c s \<and> pc_inv c s"

lemmas priv_inv_defs = priv_inv_def core_inv_def mode_inv_def status_inv_def ints_inv_def pc_inv_def pc_ok_def fixed_isa_def

section \<open>Register writes\<close>

lemma mpp_le: "get_field r 0x1800 \<le> 3"
  unfolding get_mpp by (rule take_bit_2_le)

lemma mstatus_write_core: "core_inv c s \<Longrightarrow> core_inv c (mstatus_write c val s)"
proof -
  assume i: "core_inv c s"
  obtain t where w: "mstatus_write c val s = s\<lparr>mstatus := mstatus_value c val s, tlb := t\<rparr>" using mstatus_write_eq by blast
  have "legal_prv c (get_field (mstatus_value c val s) 0x1800)"
    unfolding mpp_mstatus_value using i by (intro legalize_legal mpp_le) (simp add: core_inv_def mode_inv_def)
  moreover have "bit (mstatus_value c val s) 39 \<longrightarrow> hyp s"
    using i by (auto simp: bit_mstatus_value sd_not bit_mstatus_write_mask bit_sstatus_write_mask priv_inv_defs)
  ultimately show ?thesis using i unfolding w by (simp add: priv_inv_defs sd_mstatus_value)
qed

lemma mstatus_write_inv: "priv_inv c s \<Longrightarrow> priv_inv c (mstatus_write c val s)"
proof -
  assume i: "priv_inv c s"
  have "pc_inv c (mstatus_write c val s)" using i mstatus_write_eq [of c val s] by (auto simp: priv_inv_def pc_inv_def pc_ok_def)
  then show ?thesis using i mstatus_write_core by (simp add: priv_inv_def)
qed

lemma vsstatus_write_inv: "priv_inv c s \<Longrightarrow> priv_inv c (vsstatus_write c val s)"
proof -
  assume i: "priv_inv c s"
  obtain t where w: "vsstatus_write c val s = s\<lparr>vsstatus := vsstatus_value c val s, tlb := t\<rparr>" using vsstatus_write_eq by blast
  show ?thesis using i unfolding w by (simp add: priv_inv_defs sd_vsstatus_value)
qed

lemma sstatus_write_inv: "priv_inv c s \<Longrightarrow> priv_inv c (nonvirtual_sstatus_write c val s)" "priv_inv c s \<Longrightarrow> priv_inv c (sstatus_write c val s)"
  by (simp_all add: sstatus_write_def nonvirtual_sstatus_write_def Let_def mstatus_write_inv vsstatus_write_inv)

lemma mnstatus_write_core: "core_inv c s \<Longrightarrow> core_inv c (mnstatus_write val s)"
proof (cases "mnstatus s")
  case (Some old)
  assume i: "core_inv c s"
  define m :: u64 where "m = (NOT old AND 0x8) OR (if hyp s then 0x80 else 0) OR 0x1800"
  let ?v = "set_field val 0x1800 (legalize_privilege s (get_field val 0x1800))"
  have w: "mnstatus_write val s = s\<lparr>mnstatus := Some ((old AND NOT m) OR (?v AND m))\<rparr>"
    using Some by (simp add: mnstatus_write_def Let_def m_def extension_bit)
  have "bit m 7 \<longleftrightarrow> hyp s" unfolding m_def by (simp add: bit_or_iff bit_and_iff bit_not_iff)
  then have "bit ((old AND NOT m) OR (?v AND m)) 7 \<longrightarrow> hyp s" unfolding bit_masked using i Some by (auto simp: priv_inv_defs)
  then show ?thesis using i Some unfolding w by (simp add: priv_inv_defs)
qed (simp add: mnstatus_write_def)

lemma mnstatus_write_inv: "priv_inv c s \<Longrightarrow> priv_inv c (mnstatus_write val s)"
  using mnstatus_write_core [of c s val] by (simp add: priv_inv_def pc_inv_def pc_ok_def mnstatus_write_def Let_def split: option.splits)

lemma bit_even: "\<not> bit (epc_write x) 0" "\<not> bit (tvec_write x) 1"
  by (simp_all add: epc_write_def tvec_write_def bit_and_iff)

lemma write_with_mask_legal: "legal_ints x \<Longrightarrow> legal_ints m \<Longrightarrow> legal_ints (write_with_mask m val x)"
  unfolding legal_ints_def write_with_mask_def bit_masked by auto

lemma legal_ints_and: "legal_ints m \<Longrightarrow> legal_ints (m AND x)" "legal_ints m \<Longrightarrow> legal_ints (x AND m)"
  by (auto simp: legal_ints_def bit_and_iff)

lemma legal_ints_or: "legal_ints x \<Longrightarrow> legal_ints y \<Longrightarrow> legal_ints (x OR y)"
  by (auto simp: legal_ints_def bit_or_iff)

lemma legal_ints_const: "legal_ints 0" "legal_ints 0x2" "legal_ints 0x8" "legal_ints 0x20" "legal_ints 0x80" "legal_ints 0x200" "legal_ints 0x800"
  "legal_ints 0x1000" "legal_ints 0x2000" "legal_ints 0x1444" "legal_ints 0x444"
proof -
  have single: "legal_ints (2 ^ k)" if "k \<in> set priority_order" for k using that by (auto simp: legal_ints_def bit_exp_iff)
  have "legal_ints (2 ^ 1)" "legal_ints (2 ^ 3)" "legal_ints (2 ^ 5)" "legal_ints (2 ^ 7)" "legal_ints (2 ^ 9)" "legal_ints (2 ^ 11)"
    "legal_ints (2 ^ 12)" "legal_ints (2 ^ 13)" "legal_ints (2 ^ 2 OR 2 ^ 6 OR 2 ^ 10 OR 2 ^ 12)" "legal_ints (2 ^ 2 OR 2 ^ 6 OR 2 ^ 10)"
    by (intro legal_ints_or single; simp add: priority_order_def)+
  then show "legal_ints 0x2" "legal_ints 0x8" "legal_ints 0x20" "legal_ints 0x80" "legal_ints 0x200" "legal_ints 0x800"
    "legal_ints 0x1000" "legal_ints 0x2000" "legal_ints 0x1444" "legal_ints 0x444" by simp_all
qed (simp add: legal_ints_def)

lemma bit_delegable: "bit (delegable_ints c s) n \<Longrightarrow> n \<in> {1, 5, 9, 12, 13}"
proof -
  have b: "bit (0x2 :: u64) n \<longleftrightarrow> n = 1" "bit (0x20 :: u64) n \<longleftrightarrow> n = 5" "bit (0x200 :: u64) n \<longleftrightarrow> n = 9" "bit (0x2000 :: u64) n \<longleftrightarrow> n = 13"
  proof -
    have "(0x2000 :: u64) = fld 13 1" by (simp add: fld_def mask_eq_exp_minus_1)
    then show "bit (0x2 :: u64) n \<longleftrightarrow> n = 1" "bit (0x20 :: u64) n \<longleftrightarrow> n = 5" "bit (0x200 :: u64) n \<longleftrightarrow> n = 9" "bit (0x2000 :: u64) n \<longleftrightarrow> n = 13"
      by (simp_all only: const_masks_fld bit_masks bit_fld) auto
  qed
  have "bit (push_bit 12 (of_bool x) :: u64) n \<Longrightarrow> n = 12" for x by (simp only: bit_push_bit_iff bit_of_bool) simp
  then show "bit (delegable_ints c s) n \<Longrightarrow> n \<in> {1, 5, 9, 12, 13}"
    unfolding delegable_ints_def Let_def
    by (simp only: bit_or_iff if_distrib [of "\<lambda>x. bit x n"] b bit_0_eq bot_apply bot_bool_def) (auto split: if_splits)
qed

lemma delegable_legal: "legal_ints (delegable_ints c s)"
  unfolding legal_ints_def using bit_delegable by (fastforce simp: priority_order_def)

lemma mie_mask_legal: "legal_ints (mie_write_mask c s)"
  unfolding mie_write_mask_def Let_def
  by (cases "extension_enabled s ISA_H") (simp_all only: if_True if_False, (intro legal_ints_or delegable_legal legal_ints_const)+)

lemma mideleg_legal: "priv_inv c s \<Longrightarrow> legal_ints (mideleg_read s)"
proof -
  assume "priv_inv c s"
  then have "\<forall>n. bit (mideleg s) n \<longrightarrow> n \<in> {1, 5, 9, 12, 13}" by (simp add: priv_inv_def core_inv_def ints_inv_def)
  then have "legal_ints (mideleg s)" unfolding legal_ints_def priority_order_def by auto
  then show ?thesis by (simp add: mideleg_read_def legal_ints_or legal_ints_const)
qed

lemma ie_write_inv:
  assumes "priv_inv c s" "a \<in> {sip_sie_accr, hip_hie_accr, vsip_vsie_accr}"
  shows "priv_inv c (ie_write a val s)"
proof -
  have "a = sip_sie_accr \<Longrightarrow> legal_ints (deleg_mask a s)" "a \<noteq> sip_sie_accr \<Longrightarrow> legal_ints (ie_write_mask a)"
    using assms(2) mideleg_legal [OF assms(1)] legal_ints_const
    by (auto simp: deleg_mask_def sip_sie_accr_def hip_hie_accr_def vsip_vsie_accr_def)
  then have "legal_ints (deleg_mask a s AND ie_write_mask a)" using legal_ints_and by blast
  then show ?thesis using assms(1) by (simp add: ie_write_def priv_inv_defs write_with_mask_legal)
qed

lemma ip_write_inv: "priv_inv c s \<Longrightarrow> priv_inv c (ip_write a val s)"
  by (simp add: ip_write_def priv_inv_defs)

lemma mie_write_inv: "priv_inv c s \<Longrightarrow> priv_inv c (mie_write c val s)"
  by (simp add: mie_write_def priv_inv_defs write_with_mask_legal mie_mask_legal)

lemma mideleg_write_inv: "priv_inv c s \<Longrightarrow> isa_bit c ISA_S \<Longrightarrow> priv_inv c (mideleg_write c val s)"
proof -
  assume "priv_inv c s" "isa_bit c ISA_S"
  moreover have "bit (val AND delegable_ints c s) n \<longrightarrow> n \<in> {1, 5, 9, 12, 13}" for n using bit_delegable [of c s n] by (auto simp: bit_and_iff)
  ultimately show ?thesis by (simp add: mideleg_write_def priv_inv_defs)
qed

lemma medeleg_write_inv: "core_inv c s \<Longrightarrow> isa_bit c ISA_S \<Longrightarrow> core_inv c (medeleg_write val s)"
  "priv_inv c s \<Longrightarrow> isa_bit c ISA_S \<Longrightarrow> priv_inv c (medeleg_write val s)"
  by (simp_all add: medeleg_write_def Let_def priv_inv_defs)

lemma flush_inv: "priv_inv c s \<Longrightarrow> priv_inv c (flush s)"
  by (simp add: flush_def priv_inv_defs)

lemma field_inv:
  "priv_inv c s \<Longrightarrow> priv_inv c (s\<lparr>tlb := a\<rparr>)" "priv_inv c s \<Longrightarrow> priv_inv c (s\<lparr>hstatus := x\<rparr>)" "priv_inv c s \<Longrightarrow> priv_inv c (s\<lparr>mip := x\<rparr>)"
  "priv_inv c s \<Longrightarrow> priv_inv c (s\<lparr>satp := x\<rparr>)" "priv_inv c s \<Longrightarrow> priv_inv c (s\<lparr>vsatp := x\<rparr>)" "priv_inv c s \<Longrightarrow> priv_inv c (s\<lparr>hgatp := x\<rparr>)"
  "priv_inv c s \<Longrightarrow> priv_inv c (s\<lparr>hideleg := x\<rparr>)" "priv_inv c s \<Longrightarrow> priv_inv c (s\<lparr>hedeleg := x\<rparr>)" "priv_inv c s \<Longrightarrow> priv_inv c (s\<lparr>menvcfg := x\<rparr>)"
  "priv_inv c s \<Longrightarrow> priv_inv c (s\<lparr>mevent := l\<rparr>)" "priv_inv c s \<Longrightarrow> priv_inv c (s\<lparr>in_wfi := b\<rparr>)" "priv_inv c s \<Longrightarrow> priv_inv c (s\<lparr>TM := ts\<rparr>)"
  "priv_inv c s \<Longrightarrow> priv_inv c (s\<lparr>serialized := b\<rparr>)" "priv_inv c s \<Longrightarrow> priv_inv c (s\<lparr>single_step := st\<rparr>)"
  "priv_inv c s \<Longrightarrow> priv_inv c (s\<lparr>mcause := x\<rparr>)" "priv_inv c s \<Longrightarrow> priv_inv c (s\<lparr>mtval := x\<rparr>)" "priv_inv c s \<Longrightarrow> priv_inv c (s\<lparr>mtval2 := x\<rparr>)"
  "priv_inv c s \<Longrightarrow> priv_inv c (s\<lparr>mtinst := x\<rparr>)" "priv_inv c s \<Longrightarrow> priv_inv c (s\<lparr>scause := x\<rparr>)" "priv_inv c s \<Longrightarrow> priv_inv c (s\<lparr>stval := x\<rparr>)"
  "priv_inv c s \<Longrightarrow> priv_inv c (s\<lparr>vscause := x\<rparr>)" "priv_inv c s \<Longrightarrow> priv_inv c (s\<lparr>vstval := x\<rparr>)" "priv_inv c s \<Longrightarrow> priv_inv c (s\<lparr>htval := x\<rparr>)"
  "priv_inv c s \<Longrightarrow> priv_inv c (s\<lparr>htinst := x\<rparr>)" "priv_inv c s \<Longrightarrow> priv_inv c (s\<lparr>scontext := x\<rparr>)" "priv_inv c s \<Longrightarrow> priv_inv c (s\<lparr>mcontext := x\<rparr>)"
  "priv_inv c s \<Longrightarrow> priv_inv c (s\<lparr>prv_changed := b, v_changed := b'\<rparr>)"
  by (simp_all add: priv_inv_defs)

lemma vector_inv:
  "priv_inv c s \<Longrightarrow> priv_inv c (s\<lparr>mepc := epc_write x\<rparr>)" "priv_inv c s \<Longrightarrow> priv_inv c (s\<lparr>sepc := epc_write x\<rparr>)"
  "priv_inv c s \<Longrightarrow> priv_inv c (s\<lparr>vsepc := epc_write x\<rparr>)" "priv_inv c s \<Longrightarrow> priv_inv c (s\<lparr>mnepc := epc_write x\<rparr>)"
  "priv_inv c s \<Longrightarrow> priv_inv c (s\<lparr>dpc := epc_write x\<rparr>)" "priv_inv c s \<Longrightarrow> priv_inv c (s\<lparr>mtvec := tvec_write x\<rparr>)"
  "priv_inv c s \<Longrightarrow> priv_inv c (s\<lparr>stvec := tvec_write x\<rparr>)" "priv_inv c s \<Longrightarrow> priv_inv c (s\<lparr>vstvec := tvec_write x\<rparr>)"
  using bit_even by (simp_all add: priv_inv_defs)

section \<open>Switching extensions off\<close>

lemma hyp_supervisor: "cfg_ok c \<Longrightarrow> core_inv c s \<Longrightarrow> hyp s \<Longrightarrow> isa_bit c ISA_S"
  using fixed_subset [of c s ISA_H] by (auto simp: cfg_ok_def core_inv_def mode_inv_def)

text \<open>What a register write of the switch leaves alone.\<close>

definition same_mode :: "state_t \<Rightarrow> state_t \<Rightarrow> bool" where
  "same_mode s s' \<longleftrightarrow> misa s' = misa s \<and> prv s' = prv s \<and> virt s' = virt s \<and> debug_mode s' = debug_mode s \<and> dcsr s' = dcsr s \<and> pc s' = pc s \<and>
     extension_enable_table s' = extension_enable_table s \<and> mepc s' = mepc s \<and> sepc s' = sepc s \<and> vsepc s' = vsepc s \<and> mnepc s' = mnepc s \<and>
     dpc s' = dpc s \<and> mtvec s' = mtvec s \<and> stvec s' = stvec s \<and> vstvec s' = vstvec s"

lemma mstatus_same_mode: "same_mode s (mstatus_write c val s)" "mnstatus (mstatus_write c val s) = mnstatus s"
  using mstatus_write_eq [of c val s] by (auto simp: same_mode_def)

lemma mpv_written: "hyp s \<Longrightarrow> bit (mstatus (mstatus_write c val s)) 39 \<longleftrightarrow> bit val 39"
  using mstatus_write_eq [of c val s] by (auto simp: bit_mstatus_value sd_not bit_mstatus_write_mask)

lemma mnstatus_cleared:
  assumes "hyp s" "mnstatus s = Some r"
  shows "\<exists>r'. mnstatus_write (r AND NOT 0x80) s = s\<lparr>mnstatus := Some r'\<rparr> \<and> \<not> bit r' 7"
proof -
  define m :: u64 where "m = (NOT r AND 0x8) OR 0x80 OR 0x1800"
  let ?v = "set_field (r AND NOT 0x80) 0x1800 (legalize_privilege s (get_field (r AND NOT 0x80) 0x1800))"
  have "mnstatus_write (r AND NOT 0x80) s = s\<lparr>mnstatus := Some ((r AND NOT m) OR (?v AND m))\<rparr>"
    using assms by (simp only: mnstatus_write_def Let_def m_def extension_bit option.case if_True)
  moreover have "bit m 7" unfolding m_def by (simp add: bit_or_iff)
  then have "\<not> bit ((r AND NOT m) OR (?v AND m)) 7" unfolding bit_masked set_bits by (simp add: bit_and_iff bit_not_iff)
  ultimately show ?thesis by blast
qed

lemma drop_hypervisor_inv:
  assumes "cfg_ok c" "core_inv c s" "hyp s"
  defines "s' \<equiv> drop_hypervisor c s"
  shows "core_inv c s'" "same_mode s s'" "\<not> bit (mstatus s') 39" "mnstatus s' \<noteq> None \<longrightarrow> \<not> bit (the (mnstatus s')) 7"
proof -
  define a where "a = medeleg_write (medeleg s AND NOT hypervisor_exceptions) s"
  have a: "core_inv c a" "same_mode s a" "hyp a" unfolding a_def using medeleg_write_inv(1) [OF assms(2) hyp_supervisor [OF assms(1-3)]] assms(3)
    by (simp_all add: medeleg_write_def Let_def same_mode_def)
  define b where "b = (case mnstatus a of None \<Rightarrow> a | Some r \<Rightarrow> mnstatus_write (r AND NOT 0x80) a)"
  have b: "core_inv c b" "same_mode s b" "hyp b" "mnstatus b \<noteq> None \<longrightarrow> \<not> bit (the (mnstatus b)) 7"
  proof -
    show "core_inv c b" using a(1) mnstatus_write_core unfolding b_def by (simp split: option.split)
    have "same_mode a b \<and> (mnstatus b \<noteq> None \<longrightarrow> \<not> bit (the (mnstatus b)) 7)"
      using mnstatus_cleared [OF a(3)] unfolding b_def by (auto simp: same_mode_def split: option.split)
    then show "same_mode s b" "hyp b" "mnstatus b \<noteq> None \<longrightarrow> \<not> bit (the (mnstatus b)) 7" using a by (simp_all add: same_mode_def)
  qed
  define v where "v = mstatus b AND NOT (0x4000000000 OR 0x8000000000)"
  define d where "d = mstatus_write c v b"
  have v: "\<not> bit v 39" unfolding v_def by (simp add: bit_and_iff bit_not_iff bit_or_iff)
  have d: "core_inv c d" "same_mode s d" "hyp d" "mnstatus d = mnstatus b" "\<not> bit (mstatus d) 39"
    unfolding d_def using b mstatus_write_core mstatus_same_mode [where s = b and c = c and val = v] mpv_written [OF b(3)] v by (auto simp: same_mode_def)
  define e where "e = (if max_xlen c = 32 then mstatush_write c (drop_bit 32 v) d else d)"
  have e: "core_inv c e" "same_mode s e" "hyp e" "mnstatus e = mnstatus b" "\<not> bit (mstatus e) 39"
  proof -
    let ?x = "drop_bit 32 (push_bit 32 (mstatus d)) OR push_bit 32 (drop_bit 32 v AND 0xffffffff)"
    have "\<not> bit ?x 39" unfolding bit_or_iff bit_low_half bit_high_masked using v by simp
    then show "core_inv c e" "same_mode s e" "hyp e" "mnstatus e = mnstatus b" "\<not> bit (mstatus e) 39"
      unfolding e_def mstatush_write_def using d mstatus_write_core [OF d(1)] mstatus_same_mode [where s = d and c = c and val = ?x] mpv_written [OF d(3), of c ?x]
      by (auto simp: same_mode_def)
  qed
  have s': "\<exists>y z l. s' = e\<lparr>mie := write_with_mask MIP_HS_MASK 0 (mie e), mip := y, hstatus := z, mevent := l\<rparr>"
    unfolding s'_def drop_hypervisor_def Let_def hstatus_write_def a_def [symmetric] b_def [symmetric] v_def [symmetric] d_def [symmetric] e_def [symmetric]
    by auto
  have "core_inv c (e\<lparr>mie := write_with_mask MIP_HS_MASK 0 (mie e)\<rparr>)"
    using e(1) by (simp add: priv_inv_defs write_with_mask_legal legal_ints_const)
  moreover obtain y z l where "s' = e\<lparr>mie := write_with_mask MIP_HS_MASK 0 (mie e), mip := y, hstatus := z, mevent := l\<rparr>" using s' by blast
  ultimately show "core_inv c s'" by (simp add: priv_inv_defs)
  show "same_mode s s'" "\<not> bit (mstatus s') 39" "mnstatus s' \<noteq> None \<longrightarrow> \<not> bit (the (mnstatus s')) 7"
    using s' e b(4) by (auto simp: same_mode_def)
qed

lemma and_pow2: "x AND 2 ^ n \<noteq> 0 \<longleftrightarrow> bit x n" "x AND 2 ^ n = 0 \<longleftrightarrow> \<not> bit x n" for x :: u64
  by (simp_all add: and_exp_eq_0_iff_not_bit)

lemma and_two: "x AND 2 \<noteq> 0 \<longleftrightarrow> bit x 1" for x :: u64
  using and_pow2(1) [of x 1] by (simp only: power_one_right)

lemma misa_extensions_eq:
  "\<exists>tab. misa_extensions c new s = s\<lparr>extension_enable_table := tab\<rparr> \<and>
     (tab EXT_ZCA \<longleftrightarrow> (bit new ISA_C \<or> \<not> isa_bit c ISA_C) \<and> isa_extension c EXT_ZCA)"
  unfolding misa_extensions_def set_extension_enable_def Let_def and_pow2 by (simp, rule exI, rule conjI [OF refl]) simp

lemma bit_dependency: "n \<noteq> feature \<Longrightarrow> bit (dependency val feature on) n = bit val n"
  by (auto simp: dependency_def bit_and_iff bit_not_iff bit_exp_iff dest: bit_imp_le_length)

text \<open>The new extensions: those that may change as requested, with their dependencies, and the others as before.\<close>

definition new_misa :: "proc_cfg \<Rightarrow> u64 \<Rightarrow> u64 \<Rightarrow> u64" where
  "new_misa c val old =
     (dependency (dependency (dependency val ISA_D ISA_F) ISA_Q ISA_D) ISA_V ISA_D AND misa_write_mask c) OR (old AND NOT (misa_write_mask c))"

lemma new_misa_bits:
  "new_misa c val old AND NOT (misa_write_mask c) = old AND NOT (misa_write_mask c)"
  "isa_bit c ISA_C \<Longrightarrow> bit (new_misa c val old) ISA_C = bit val ISA_C"
proof -
  have b: "bit (new_misa c val old) n = (if bit (misa_write_mask c) n
      then bit (dependency (dependency (dependency val ISA_D ISA_F) ISA_Q ISA_D) ISA_V ISA_D) n else bit old n)" for n
    unfolding new_misa_def by (auto simp: bit_or_iff bit_and_iff bit_not_iff dest: bit_imp_le_length)
  show "new_misa c val old AND NOT (misa_write_mask c) = old AND NOT (misa_write_mask c)"
    by (rule bit_word_eqI) (simp add: bit_and_iff bit_not_iff b)
  show "isa_bit c ISA_C \<Longrightarrow> bit (new_misa c val old) ISA_C = bit val ISA_C"
    unfolding b by (simp add: bit_dependency misa_write_mask_def bit_and_iff bit_or_iff extension_bit)
qed

lemma misa_write_inv:
  assumes "cfg_ok c" "priv_inv c s" "\<not> virt s" "\<not> (debug_mode s \<and> d_v (dcsr s))"
  shows "priv_inv c (misa_write c val s)"
proof (cases "\<not> bit val ISA_C \<and> bit (misa s) ISA_C \<and> bit (pc s) 1")
  case True
  then have "misa_write c val s = s" unfolding misa_write_def Let_def and_pow2 and_two by simp
  then show ?thesis using assms(2) by simp
next
  case False
  define m where "m = new_misa c val (misa s)"
  obtain tab where ext: "misa_extensions c m s = s\<lparr>extension_enable_table := tab\<rparr>"
    and tab: "tab EXT_ZCA \<longleftrightarrow> (bit m ISA_C \<or> \<not> isa_bit c ISA_C) \<and> isa_extension c EXT_ZCA" using misa_extensions_eq by blast
  let ?s = "s\<lparr>extension_enable_table := tab\<rparr>"
  define d where "d = (if \<not> bit m ISA_H \<and> hyp s then drop_hypervisor c ?s else ?s)"
  have w: "misa_write c val s = d\<lparr>misa := m\<rparr>"
    using False unfolding misa_write_def Let_def and_pow2 and_two d_def m_def new_misa_def [symmetric] ext [unfolded m_def] by auto
  have i: "core_inv c ?s" using assms(2) by (simp add: priv_inv_defs)
  have d: "core_inv c d" "same_mode ?s d" "\<not> bit m ISA_H \<Longrightarrow> \<not> bit (mstatus d) 39 \<and> (mnstatus d \<noteq> None \<longrightarrow> \<not> bit (the (mnstatus d)) 7)"
    using drop_hypervisor_inv [OF assms(1) i] i by (auto simp: d_def same_mode_def priv_inv_defs)
  have cbit: "isa_bit c ISA_C \<Longrightarrow> bit m ISA_C = bit val ISA_C" and fixed: "m AND NOT (misa_write_mask c) = misa s AND NOT (misa_write_mask c)"
    unfolding m_def by (rule new_misa_bits(2), assumption) (rule new_misa_bits(1))
  have "bit (pc s) 1 \<Longrightarrow> tab EXT_ZCA" using False assms(2) cbit by (auto simp: tab priv_inv_defs)
  then have "pc_inv c (d\<lparr>misa := m\<rparr>)" using d(2) assms(2) tab by (simp add: pc_inv_def pc_ok_def same_mode_def priv_inv_def)
  moreover have "core_inv c (d\<lparr>misa := m\<rparr>)"
    using d assms(3,4) fixed by (simp add: priv_inv_defs same_mode_def) blast
  ultimately show ?thesis unfolding w by (simp add: priv_inv_def)
qed

section \<open>Every register\<close>

lemma atp_write_inv:
  "priv_inv c s \<Longrightarrow> priv_inv c (nonvirtual_satp_write c val s)" "priv_inv c s \<Longrightarrow> priv_inv c (vsatp_write c val s)"
  "priv_inv c s \<Longrightarrow> priv_inv c (satp_write c val s)" "priv_inv c s \<Longrightarrow> priv_inv c (hgatp_write c val s)"
  by (simp_all add: nonvirtual_satp_write_def vsatp_write_def satp_write_def hgatp_write_def base_atp_write_def Let_def field_inv flush_inv)

lemma dcsr_write_inv: "priv_inv c s \<Longrightarrow> priv_inv c (dcsr_write val s)"
proof -
  have m: "(0x3 :: u64) = fld 0 2" by (simp add: fld_def mask_eq_exp_minus_1)
  have "get_field val (fld 0 2) = take_bit 2 val" by (simp add: get_field_fld)
  then have "get_field val 0x3 \<le> 3" unfolding m [symmetric] using take_bit_2_le [of val] by simp
  then show "priv_inv c s \<Longrightarrow> priv_inv c (dcsr_write val s)" by (simp add: dcsr_write_def priv_inv_defs extension_bit)
qed

lemmas csr_write_invs = mstatus_write_inv vsstatus_write_inv sstatus_write_inv mnstatus_write_inv ie_write_inv ip_write_inv mie_write_inv
  field_inv vector_inv atp_write_inv dcsr_write_inv mideleg_write_inv medeleg_write_inv(2)

lemma csr_write_inv:
  assumes "cfg_ok c" "priv_inv c s" "r = CSR_MISA \<longrightarrow> \<not> virt s \<and> \<not> (debug_mode s \<and> d_v (dcsr s))" "r \<in> {CSR_MIDELEG, CSR_MEDELEG} \<longrightarrow> isa_bit c ISA_S"
  shows "priv_inv c (csr_write c r val s)"
proof (cases r)
  case CSR_MISA
  then show ?thesis using assms(1-3) by (simp add: misa_write_inv)
qed (use assms(2,4) in \<open>simp_all add: csr_write_invs mstatus_low_write_def mstatush_write_def mip_write_def menvcfg_write_def
    hstatus_write_def hedeleg_write_def hideleg_write_def\<close>)

end
