(* ===== verification/Priv_Reach.thy ===== *)
theory Priv_Reach
  imports Priv_Inv
begin

text \<open>
  The states that a hart can reach from reset, and that all of them satisfy the invariant of the privileged state.
\<close>

section \<open>Changes of mode\<close>

lemma set_pc_inv: "priv_inv c s \<Longrightarrow> \<not> bit x 0 \<Longrightarrow> priv_inv c (set_pc_and_serialize x s)"
proof -
  assume i: "priv_inv c s" and x: "\<not> bit x 0"
  have "bit (x AND pc_alignment_mask s) 1 \<longrightarrow> extension_enable_table s EXT_ZCA"
    by (simp add: pc_alignment_mask_def bit_and_iff)
  moreover have "\<not> bit (x AND pc_alignment_mask s) 0" using x by (simp add: bit_and_iff)
  ultimately show ?thesis using i by (simp add: set_pc_and_serialize_def priv_inv_defs)
qed

lemma epc_read_even: "\<not> bit x 0 \<Longrightarrow> \<not> bit (epc_read s x) 0"
  by (simp add: epc_read_def bit_and_iff)

lemma set_privilege_inv:
  assumes "priv_inv c s" "p \<le> 3" "v \<longrightarrow> hyp s"
  shows "priv_inv c (set_privilege p v s)"
proof -
  have "legal_prv c (legalize_privilege s p)" using assms by (intro legalize_legal) (simp_all add: priv_inv_def core_inv_def mode_inv_def)
  then show ?thesis using assms unfolding set_privilege_eq by (simp add: priv_inv_defs)
qed

lemma aligned_bits: "take_bit 2 x = 0 \<Longrightarrow> \<not> bit x 0 \<and> \<not> bit x 1" for x :: u64
proof -
  assume "take_bit 2 x = 0"
  then have "\<not> bit (take_bit 2 x) 0" "\<not> bit (take_bit 2 x) 1" by simp_all
  then show ?thesis by (simp add: bit_take_bit_iff)
qed

lemma trap_vector_aligned: "\<not> bit tvec 1 \<Longrightarrow> take_bit 2 (trap_vector tvec interrupt num) = 0"
proof -
  assume b: "\<not> bit tvec 1"
  have "bit (push_bit 2 (drop_bit 2 tvec)) n \<longleftrightarrow> 2 \<le> n \<and> bit tvec n" for n
  proof (cases "2 \<le> n")
    case True
    then have "Suc (Suc (n - 2)) = n" by simp
    then show ?thesis using True by (auto simp: bit_push_bit_iff bit_drop_bit_eq dest: bit_imp_le_length)
  qed (simp add: bit_push_bit_iff)
  moreover have "bit (tvec AND NOT 1) n \<longleftrightarrow> 2 \<le> n \<and> bit tvec n" for n
    using b by (cases "n = 0"; cases "n = 1") (auto simp: bit_and_iff bit_not_iff bit_1_iff dest: bit_imp_le_length)
  ultimately have "tvec AND NOT 1 = push_bit 2 (drop_bit 2 tvec)" by (intro bit_word_eqI) blast
  then have "tvec AND NOT 1 = 4 * drop_bit 2 tvec" by (simp add: push_bit_eq_mult)
  then have "trap_vector tvec interrupt num = 4 * (drop_bit 2 tvec + (if tvec AND 1 \<noteq> 0 \<and> interrupt then num else 0))"
    unfolding trap_vector_def by (simp add: distrib_left)
  then have "trap_vector tvec interrupt num = push_bit 2 (drop_bit 2 tvec + (if tvec AND 1 \<noteq> 0 \<and> interrupt then num else 0))"
    by (simp add: push_bit_eq_mult)
  then show ?thesis by (simp add: take_bit_push_bit)
qed

lemma aligned_pc_inv: "priv_inv c s \<Longrightarrow> take_bit 2 x = 0 \<Longrightarrow> priv_inv c (s\<lparr>pc := x\<rparr>)"
  using aligned_bits [of x] by (simp add: priv_inv_defs)

lemma vector_pc_inv:
  "priv_inv c s \<Longrightarrow> priv_inv c (s\<lparr>pc := trap_vector (mtvec s) i n\<rparr>)" "priv_inv c s \<Longrightarrow> priv_inv c (s\<lparr>pc := trap_vector (stvec s) i n\<rparr>)"
  "priv_inv c s \<Longrightarrow> priv_inv c (s\<lparr>pc := trap_vector (vstvec s) i n\<rparr>)"
  by (rule aligned_pc_inv, assumption, rule trap_vector_aligned, simp add: priv_inv_defs)+

section \<open>Traps\<close>

lemma trap_to_vs_inv: "priv_inv c s \<Longrightarrow> virt s \<Longrightarrow> priv_inv c (trap_to_vs c t interrupt num epc s)"
proof -
  assume i: "priv_inv c s" and v: "virt s"
  have "hyp s" using i v by (simp add: priv_inv_defs)
  then show ?thesis unfolding trap_to_vs_def Let_def
    by (intro set_privilege_inv sstatus_write_inv field_inv vector_inv vector_pc_inv i) (simp_all add: status_writes_keep)
qed

lemma trap_to_hs_inv: "priv_inv c s \<Longrightarrow> priv_inv c (trap_to_hs c t interrupt num epc v s)"
  unfolding trap_to_hs_def Let_def hstatus_write_def
  by (intro set_privilege_inv) (auto intro!: sstatus_write_inv field_inv vector_inv vector_pc_inv)

lemma trap_to_m_inv: "priv_inv c s \<Longrightarrow> priv_inv c (trap_to_m c t interrupt num epc v s)"
proof -
  assume i: "priv_inv c s"
  define q where "q = (if \<not> nmie s then 0 else trap_vector (mtvec s) interrupt num)"
  have p: "priv_inv c (s\<lparr>pc := q\<rparr>)" using vector_pc_inv(1) [OF i] aligned_pc_inv [OF i, of 0] by (simp add: q_def)
  have w: "priv_inv c s1 \<Longrightarrow> priv_inv c (mstatush_write c val s1)" for val s1 by (simp add: mstatush_write_def mstatus_write_inv)
  have i1: "priv_inv c (s\<lparr>pc := q, mepc := epc_write epc, mcause := t_cause t, mtval := t_tval t, mtval2 := t_tval2 t, mtinst := t_tinst t\<rparr>)"
    by (intro field_inv vector_inv p)
  show ?thesis unfolding trap_to_m_def Let_def q_def [symmetric]
    using w [OF mstatus_write_inv [OF i1]] mstatus_write_inv [OF i1] by (intro set_privilege_inv) simp_all
qed

lemma take_trap_inv: "priv_inv c s \<Longrightarrow> priv_inv c (take_trap c t epc s)"
proof -
  assume i: "priv_inv c s"
  have "delegated c 0 n = False" for n by (simp add: delegated_def)
  then show ?thesis unfolding take_trap_def Let_def
    using i trap_to_vs_inv [OF i] trap_to_hs_inv [OF i] trap_to_m_inv [OF i] aligned_pc_inv [OF i, of DEBUG_ROM_ENTRY] aligned_pc_inv [OF i, of DEBUG_ROM_TVEC]
    by (auto split: if_splits)
qed

lemma enter_debug_mode_inv: "priv_inv c s \<Longrightarrow> priv_inv c (enter_debug_mode cause s)"
proof -
  assume i: "priv_inv c s"
  then have "prv s \<le> 3" by (intro legal_le [of c]) (simp add: priv_inv_defs)
  then have "priv_inv c (write_cause_and_prv cause (prv s) (virt s) (s\<lparr>debug_mode := True\<rparr>))"
    using i by (simp add: write_cause_and_prv_def priv_inv_defs)
  then have "priv_inv c (set_privilege PRV_M False (write_cause_and_prv cause (prv s) (virt s) (s\<lparr>debug_mode := True\<rparr>)))"
    by (intro set_privilege_inv) simp_all
  then show ?thesis unfolding enter_debug_mode_def Let_def by (simp, intro field_inv aligned_pc_inv vector_inv) simp_all
qed

lemma take_trigger_action_inv: "priv_inv c s \<Longrightarrow> take_trigger_action c action tval epc v s = Some s' \<Longrightarrow> priv_inv c s'"
  by (auto simp: take_trigger_action_def enter_debug_mode_inv take_trap_inv split: action_t.splits)

lemma take_interrupt_inv: "priv_inv c s \<Longrightarrow> priv_inv c (snd (take_interrupt c pending s))"
  by (auto simp: take_interrupt_def Let_def field_inv split: option.split)

lemma handle_exception_inv: "priv_inv c s \<Longrightarrow> handle_exception c e pcv instret n s = Some (i, m, s') \<Longrightarrow> priv_inv c s'"
  using take_trap_inv [of c s]
  by (auto simp: handle_exception_def Let_def field_inv enter_debug_mode_inv dest!: take_trigger_action_inv [rotated]
      split: exception.splits option.splits if_splits prod.splits)

lemma step_halt_inv: "priv_inv c s \<Longrightarrow> priv_inv c (step_halt h s)"
  by (simp add: step_halt_def enter_debug_mode_inv)

section \<open>Instructions\<close>

lemma hyp_kept: "hyp (mstatus_write c val s) = hyp s" "hyp (sstatus_write c val s) = hyp s" "hyp (hstatus_write c val s) = hyp s"
  "hyp (put_mstatus c val s) = hyp s" "hyp (mnstatus_write val s) = hyp s"
  by (simp_all add: status_writes_keep put_mstatus_def mstatus_low_write_def mnstatus_write_def Let_def split: option.split)

lemma mret_inv: "priv_inv c s \<Longrightarrow> priv_inv c (snd (mret c bits s))"
proof -
  assume i: "priv_inv c s"
  have p: "priv_inv c (set_pc_and_serialize (epc_read s (mepc s)) s)" using i by (intro set_pc_inv epc_read_even) (simp_all add: priv_inv_defs)
  have w: "priv_inv c s1 \<Longrightarrow> priv_inv c (put_mstatus c val s1)" for s1 val by (simp add: put_mstatus_def mstatus_low_write_def mstatus_write_inv)
  have v: "bit (mstatus s) 39 \<longrightarrow> hyp s" using i by (simp add: priv_inv_defs)
  show ?thesis unfolding mret_def Let_def using i v
    by (auto simp: hyp_kept get_bits mpp_le set_pc_and_serialize_def intro!: set_privilege_inv w p [unfolded set_pc_and_serialize_def])
qed

lemma sret_inv: "priv_inv c s \<Longrightarrow> priv_inv c (snd (sret c bits s))"
proof -
  assume i: "priv_inv c s"
  have p: "priv_inv c (set_pc_and_serialize (epc_read s (if virt s then vsepc s else sepc s)) s)"
    using i by (intro set_pc_inv epc_read_even) (simp_all add: priv_inv_defs)
  have v: "virt s \<longrightarrow> hyp s" using i by (simp add: priv_inv_defs)
  have b: "of_bool x \<le> (3 :: u64)" for x by (cases x) simp_all
  let ?s = "set_pc_and_serialize (epc_read s (if virt s then vsepc s else sepc s)) s"
  let ?r = "sstatus_read c ?s"
  let ?s1 = "sstatus_write c (set_field (set_field (set_field ?r 0x2 (get_field ?r 0x20)) 0x20 1) 0x100 PRV_U) ?s"
  let ?h = "if extension_enabled ?s1 ISA_H then hstatus_write c (set_field (hstatus s) 0x80 0) ?s1 else ?s1"
  let ?s2 = "if \<not> virt ?s1 then mstatus_write c (set_field (mstatus ?h) 0x20000 0) ?h else ?s1"
  have i1: "priv_inv c ?s1" by (rule sstatus_write_inv [OF p])
  then have "priv_inv c ?h" by (simp add: hstatus_write_def field_inv)
  then have i2: "priv_inv c ?s2" using i1 by (simp add: mstatus_write_inv)
  have h: "hyp ?s1 = hyp s" "hyp ?s2 = hyp s" by (simp_all add: hyp_kept set_pc_and_serialize_def)
  have "virt ?s1 \<longrightarrow> hyp ?s1" using i1 by (simp add: priv_inv_defs)
  then have "priv_inv c (set_privilege (get_field ?r 0x100) (if \<not> virt ?s1 \<and> extension_enabled ?s1 ISA_H then get_flag (hstatus s) 0x80 else virt ?s1) ?s2)"
    using h by (intro set_privilege_inv i2) (auto simp: get_bits b extension_bit)
  then show ?thesis using i unfolding sret_def Let_def by (simp only: snd_conv split: if_split) simp
qed

lemma mnret_inv: "priv_inv c s \<Longrightarrow> priv_inv c (snd (mnret c bits s))"
proof (cases "mnstatus s")
  case (Some r)
  assume i: "priv_inv c s"
  have p: "priv_inv c (set_pc_and_serialize (epc_read s (mnepc s)) s)" using i by (intro set_pc_inv epc_read_even) (simp_all add: priv_inv_defs)
  have v: "bit r 7 \<longrightarrow> hyp s" using i Some by (simp add: priv_inv_defs)
  show ?thesis unfolding mnret_def Let_def using i v Some
    by (auto simp: hyp_kept get_bits mpp_le set_pc_and_serialize_def
        intro!: set_privilege_inv mstatus_write_inv mnstatus_write_inv p [unfolded set_pc_and_serialize_def])
qed (simp add: mnret_def)

lemma dret_inv: "priv_inv c s \<Longrightarrow> priv_inv c (snd (dret c bits s))"
proof -
  assume i: "priv_inv c s"
  let ?p = "set_pc_and_serialize (epc_read s (dpc s)) s"
  have p: "priv_inv c ?p" using i by (intro set_pc_inv epc_read_even) (simp_all add: priv_inv_defs)
  have same: "dcsr ?p = dcsr s" "debug_mode ?p = debug_mode s" by (simp_all add: set_pc_and_serialize_def)
  have out: "priv_inv c x \<Longrightarrow> priv_inv c (x\<lparr>debug_mode := False\<rparr>)" for x by (simp add: priv_inv_defs)
  show ?thesis
  proof (cases "debug_mode s")
    case True
    have "d_prv (dcsr ?p) \<le> 3" "d_v (dcsr ?p) \<longrightarrow> hyp ?p" using p True unfolding same by (simp_all add: priv_inv_defs same)
    then have "priv_inv c (set_privilege (d_prv (dcsr ?p)) (d_v (dcsr ?p)) ?p)" (is "priv_inv c ?q") by (rule set_privilege_inv [OF p])
    then have "priv_inv c ((if prv ?q < PRV_M then mstatus_write c (mstatus ?q AND NOT 0x20000) ?q else ?q)\<lparr>debug_mode := False\<rparr>)"
      by (intro out) (simp add: mstatus_write_inv)
    then show ?thesis using True unfolding dret_def Let_def by (simp only: snd_conv if_False not_True_eq_False) (simp add: field_inv)
  qed (use i in \<open>simp add: dret_def\<close>)
qed

lemma wfi_inv: "priv_inv c s \<Longrightarrow> \<not> bit npc 0 \<Longrightarrow> priv_inv c (snd (wfi bits npc s))"
  by (simp add: wfi_def set_pc_inv)

lemma status_dirty_inv: "priv_inv c s \<Longrightarrow> status_dirty c d s = Some s' \<Longrightarrow> priv_inv c s'"
  by (auto simp: status_dirty_def Let_def sstatus_write_inv vsstatus_write_inv split: if_splits)

text \<open>An access that passes the checks has the privilege that the address asks for.\<close>

lemma permitted_privilege:
  "verify_permissions which r bits wr s = None \<Longrightarrow> get_field which 0x300 \<le> (if prv s = PRV_S \<and> \<not> virt s then PRV_HS else prv s)"
  by (cases "prv s = PRV_S \<and> \<not> virt s")
    (auto simp: verify_permissions_def base_permissions_def Let_def linorder_not_less split: option.splits if_splits)

lemma csrmap_misa: "csrmap c which = Some CSR_MISA \<Longrightarrow> which = 0x301"
  by (simp add: csrmap_def csr_addresses_def split: option.splits if_splits)

lemma csr_insn_inv:
  assumes "cfg_ok c" "priv_inv c s" "\<not> bit npc 0" "\<not> (wr \<and> which = 0x301 \<and> debug_mode s \<and> d_v (dcsr s))"
  shows "priv_inv c (snd (csr_insn c wr f which bits npc s))"
proof (cases "serialized s")
  case True
  let ?s = "s\<lparr>serialized := False\<rparr>"
  have i: "priv_inv c ?s" by (intro field_inv assms)
  show ?thesis
  proof (cases "get_csr c which bits wr ?s")
    case (Inl e)
    then show ?thesis using True i by (simp add: csr_insn_def Let_def)
  next
    case (Inr old)
    then obtain r where r: "csrmap c which = Some r" and v: "verify_permissions which r bits wr ?s = None"
      by (auto simp: get_csr_def split: option.splits)
    have "priv_inv c (csr_write c r val ?s)" if wr for val
    proof (rule csr_write_inv [OF assms(1) i])
      show "r = CSR_MISA \<longrightarrow> \<not> virt ?s \<and> \<not> (debug_mode ?s \<and> d_v (dcsr ?s))"
      proof
        assume "r = CSR_MISA"
        then have w: "which = 0x301" using r csrmap_misa by simp
        have "get_field 0x301 0x300 = (3 :: u64)" by (simp add: get_field_def)
        then have "3 \<le> (if prv ?s = PRV_S \<and> \<not> virt ?s then PRV_HS else prv ?s)" using permitted_privilege [OF v] unfolding w by metis
        moreover have "legal_prv c (prv s)" using i by (simp add: priv_inv_defs)
        ultimately have "prv s = PRV_M" by (auto simp: legal_prv_def word_le_nat_alt split: if_splits)
        then show "\<not> virt ?s \<and> \<not> (debug_mode ?s \<and> d_v (dcsr ?s))" using i assms(4) w that by (auto simp: priv_inv_defs)
      qed
      show "r \<in> {CSR_MIDELEG, CSR_MEDELEG} \<longrightarrow> isa_bit c ISA_S"
        using v i fixed_bits [of c s ISA_S]
        by (auto simp: verify_permissions_def own_permissions_def extension_bit priv_inv_def core_inv_def mode_inv_def fixed_isa_def split: option.splits if_splits)
    qed
    then have "wr \<Longrightarrow> priv_inv c (put_csr c which (f old) ?s)" using r by (simp add: put_csr_def)
    then show ?thesis using True Inr i assms(3) by (simp add: csr_insn_def Let_def set_pc_inv)
  qed
qed (use assms(2) in \<open>simp add: csr_insn_def\<close>)

section \<open>Reachable states\<close>

text \<open>
  The steps of a hart as far as its privileged state goes. Every instruction that is not modelled is the step \<open>retire\<close> to any aligned
  program counter, possibly with the step \<open>dirty\<close>. One step is left out: a write of \<open>misa\<close> in debug mode while \<open>dcsr\<close> asks for a
  return to a virtual mode. It can switch the hypervisor off and leave that request, so that \<open>dret\<close> enters a virtual mode without a
  hypervisor (\<open>misa_write_in_debug_mode\<close>).
\<close>

inductive priv_step :: "proc_cfg \<Rightarrow> state_t \<Rightarrow> state_t \<Rightarrow> bool" for c where
  interrupt: "priv_step c s (snd (take_pending_interrupt c s))"
| exception: "handle_exception c e pcv instret n s = Some (i, m, s') \<Longrightarrow> priv_step c s s'"
| halt: "priv_step c s (step_halt h s)"
| stepped: "priv_step c s (enter_debug_mode cause (s\<lparr>single_step := STEP_NONE\<rparr>))"
| mret: "priv_step c s (snd (mret c bits s))"
| sret: "priv_step c s (snd (sret c bits s))"
| mnret: "priv_step c s (snd (mnret c bits s))"
| dret: "priv_step c s (snd (dret c bits s))"
| wfi: "\<not> bit npc 0 \<Longrightarrow> priv_step c s (snd (wfi bits npc s))"
| csr: "\<not> bit npc 0 \<Longrightarrow> \<not> (wr \<and> which = 0x301 \<and> debug_mode s \<and> d_v (dcsr s)) \<Longrightarrow> priv_step c s (snd (csr_insn c wr f which bits npc s))"
| dirty: "status_dirty c d s = Some s' \<Longrightarrow> priv_step c s s'"
| retire: "pc_ok s x \<Longrightarrow> priv_step c s (s\<lparr>pc := x\<rparr>)"
| device: "priv_step c s (s\<lparr>mip := x\<rparr>)"
| loop: "priv_step c s (s\<lparr>prv_changed := False, v_changed := False\<rparr>)"
| serialize: "priv_step c s (s\<lparr>serialized := True\<rparr>)"
| step: "priv_step c s (s\<lparr>single_step := st\<rparr>)"
| triggers: "priv_step c s (s\<lparr>TM := ts\<rparr>)"
| cached: "priv_step c s (s\<lparr>tlb := t\<rparr>)"

inductive priv_reachable :: "proc_cfg \<Rightarrow> state_t \<Rightarrow> bool" for c where
  reset: "state_reset c h i table ts t = Some s \<Longrightarrow> (\<And>e. table e \<Longrightarrow> isa_extension c e) \<Longrightarrow> priv_reachable c s"
| step: "priv_reachable c s \<Longrightarrow> priv_step c s s' \<Longrightarrow> priv_reachable c s'"

lemma priv_step_inv: "priv_step c s s' \<Longrightarrow> cfg_ok c \<Longrightarrow> priv_inv c s \<Longrightarrow> priv_inv c s'"
proof (induction rule: priv_step.induct)
  case (interrupt s)
  then show ?case by (simp add: take_pending_interrupt_def take_interrupt_inv)
next
  case (retire s x)
  then show ?case by (simp add: priv_inv_defs)
qed (blast intro: handle_exception_inv step_halt_inv enter_debug_mode_inv mret_inv sret_inv mnret_inv dret_inv wfi_inv csr_insn_inv
    status_dirty_inv field_inv)+

section \<open>Reset\<close>

lemma initial_status:
  assumes "compute_mstatus_initial_value c = Some ms" "cfg_ok c"
  shows "n \<in> {9, 10, 13, 14, 15, 16, 31, 39, 63} \<Longrightarrow> \<not> bit ms n" "legal_prv c (get_field ms 0x1800)"
proof -
  define u where "u = (if isa_bit c ISA_U \<and> max_xlen c \<noteq> 32 then 0x200000000 else 0 :: u64)"
  define v where "v = (if isa_bit c ISA_S \<and> max_xlen c \<noteq> 32 then 0x800000000 else 0 :: u64)"
  define b where "b = (if target_big_endian c then (if isa_bit c ISA_U then 0x40 else 0) OR (if isa_bit c ISA_S then 0x1000000000 else 0) OR 0x2000000000 else 0 :: u64)"
  define p where "p = (if isa_bit c ISA_U then 0 else 0x1800 :: u64)"
  have ms: "ms = p OR u OR v OR b"
    using assms unfolding compute_mstatus_initial_value_def cfg_ok_def u_def v_def b_def p_def
    by (auto simp: xlen_to_uxl_def set_field_def split: if_splits)
  have "\<not> bit u n" "\<not> bit v n" "\<not> bit b n" "\<not> bit p n" if "n \<in> {9, 10, 13, 14, 15, 16, 31, 39, 63}" for n
    using that unfolding u_def v_def b_def p_def by (auto simp: bit_or_iff split: if_splits)
  then show "n \<in> {9, 10, 13, 14, 15, 16, 31, 39, 63} \<Longrightarrow> \<not> bit ms n" unfolding ms by (simp only: bit_or_iff) blast
  have "\<not> bit u n" "\<not> bit v n" "\<not> bit b n" if "n \<in> {11, 12}" for n
    using that unfolding u_def v_def b_def by (auto simp: bit_or_iff split: if_splits)
  then have "bit ms 11 \<longleftrightarrow> \<not> isa_bit c ISA_U" "bit ms 12 \<longleftrightarrow> \<not> isa_bit c ISA_U" unfolding ms by (simp_all add: bit_or_iff p_def)
  then have "get_field ms 0x1800 = (if isa_bit c ISA_U then PRV_U else PRV_M)" by (intro mpp_eqI) auto
  then show "legal_prv c (get_field ms 0x1800)" by (simp add: legal_prv_def)
qed

lemma clean_status:
  assumes "\<And>n. n \<in> {9, 10, 13, 14, 15, 16, 31, 63} \<Longrightarrow> \<not> bit x n"
  shows "adjust_sd c x = x"
proof (rule bit_word_eqI)
  have "\<not> dirty_bits x" using assms by (simp add: dirty_bits_def)
  moreover have "\<not> bit x (sd_pos c)" using assms sd_pos_range [of c] by auto
  ultimately show "bit (adjust_sd c x) n \<longleftrightarrow> bit x n" for n by (auto simp: bit_adjust_sd)
qed

lemma reset_inv:
  assumes "cfg_ok c" "state_reset c h i table ts t = Some s" "\<And>e. table e \<Longrightarrow> isa_extension c e"
  shows "priv_inv c s"
proof -
  obtain ms vsxl where ms: "compute_mstatus_initial_value c = Some ms" and "xlen_to_uxl (max_xlen c) = Some vsxl"
    using assms(2) by (auto simp: state_reset_def bind_eq_Some_conv)
  then have s: "prv s = PRV_M" "virt s = False" "misa s = max_isa c" "mstatus s = ms" "vsstatus s = ms AND sstatus_read_mask c" "debug_mode s = False"
    "mie s = 0" "mideleg s = 0" "medeleg s = 0" "d_prv (dcsr s) = 0" "pc s = 0x1000"
    "extension_enable_table s = table" "mepc s = 0" "sepc s = 0" "vsepc s = 0" "mnepc s = 0" "dpc s = 0" "mtvec s = 0" "stvec s = 0" "vstvec s = 0"
    using assms(2) by (auto simp: state_reset_def dcsr_new_def)
  have mn: "mnstatus s = None \<or> mnstatus s = Some 0" using assms(2) by (auto simp: state_reset_def bind_eq_Some_conv)
  note b = initial_status(1) [OF ms assms(1)]
  have "adjust_sd c ms = ms" "adjust_sd c (ms AND sstatus_read_mask c) = ms AND sstatus_read_mask c"
    using b by (intro clean_status; simp add: bit_and_iff; blast)+
  moreover have "\<not> bit ms 39" using b by simp
  ultimately have "status_inv c s" using initial_status(2) [OF ms assms(1)] mn by (elim disjE) (simp_all add: status_inv_def s)
  moreover have "mode_inv c s" by (simp add: mode_inv_def s legal_prv_def fixed_isa_def)
  moreover have "ints_inv c s" by (simp add: ints_inv_def s legal_ints_def)
  moreover have "pc_inv c s" using assms(3) by (auto simp: pc_inv_def pc_ok_def s extension_bit)
  ultimately show ?thesis by (simp add: priv_inv_def core_inv_def)
qed

lemma priv_reachable_inv: "priv_reachable c s \<Longrightarrow> cfg_ok c \<Longrightarrow> priv_inv c s"
  by (induction rule: priv_reachable.induct) (blast intro: reset_inv priv_step_inv)+

end
