(* ===== verification/Priv_Confine.thy ===== *)
theory Priv_Confine
  imports Priv_Reach
begin

text \<open>
  What instructions can change below machine mode: neither the privilege upwards, nor the registers of machine mode outside the parts that
  machine mode shares with or delegates to the supervisor.
\<close>

section \<open>Registers of machine mode\<close>

text \<open>
  What stays: the registers of machine mode, of the debugger and of the triggers; of \<open>mie\<close> and \<open>mip\<close> all interrupts that are not
  delegated; of \<open>mstatus\<close> all bits but those that \<open>sstatus\<close> shows (SIE, SPIE, SPP, VS, FS, XS, SUM, MXR and the derived SD) and MPRV,
  which may be cleared; and \<open>mcontext\<close>, which is \<open>hcontext\<close> for a hypervisor.
\<close>

definition machine_kept :: "state_t \<Rightarrow> state_t \<Rightarrow> bool" where
  "machine_kept s s' \<longleftrightarrow>
     misa s' = misa s \<and> mtvec s' = mtvec s \<and> mepc s' = mepc s \<and> mcause s' = mcause s \<and> mtval s' = mtval s \<and> mtval2 s' = mtval2 s \<and>
     mtinst s' = mtinst s \<and> medeleg s' = medeleg s \<and> mideleg s' = mideleg s \<and> menvcfg s' = menvcfg s \<and> mevent s' = mevent s \<and>
     mnstatus s' = mnstatus s \<and> mnepc s' = mnepc s \<and> dcsr s' = dcsr s \<and> dpc s' = dpc s \<and> debug_mode s' = debug_mode s \<and>
     extension_enable_table s' = extension_enable_table s \<and> TM s' = TM s \<and>
     (\<forall>n. bit (mie s') n \<noteq> bit (mie s) n \<longrightarrow> bit (mideleg_read s) n) \<and>
     (\<forall>n. bit (mip s') n \<noteq> bit (mip s) n \<longrightarrow> bit (mideleg_read s) n) \<and>
     (\<forall>n. bit (mstatus s') n \<noteq> bit (mstatus s) n \<longrightarrow>
        n \<in> {1, 5, 8, 9, 10, 13, 14, 15, 16, 18, 19, 31, 63} \<or> n = 17 \<and> \<not> bit (mstatus s') 17) \<and>
     (mcontext s' \<noteq> mcontext s \<longrightarrow> prv s = PRV_S \<and> \<not> virt s \<and> bit (misa s) ISA_H)"

text \<open>The part of it that concerns a register write, which keeps the mode as well.\<close>

definition confined :: "state_t \<Rightarrow> state_t \<Rightarrow> bool" where
  "confined s s' \<longleftrightarrow> machine_kept s s' \<and> prv s' = prv s \<and> virt s' = virt s"

lemma confined_refl [simp]: "confined s s"
  by (simp add: confined_def machine_kept_def)

lemma confined_trans:
  assumes "confined s s'" "confined s' s''"
  shows "confined s s''"
proof -
  have "mideleg_read s' = mideleg_read s" using assms(1) by (simp add: confined_def machine_kept_def mideleg_read_def extension_bit)
  then show ?thesis using assms unfolding confined_def machine_kept_def by (intro conjI allI impI; metis)
qed

lemma confined_fields [simp]:
  "confined s (s\<lparr>pc := x\<rparr>)" "confined s (s\<lparr>serialized := b\<rparr>)" "confined s (s\<lparr>tlb := t\<rparr>)"
  "confined s (s\<lparr>stvec := x\<rparr>)" "confined s (s\<lparr>sepc := x\<rparr>)" "confined s (s\<lparr>scause := x\<rparr>)" "confined s (s\<lparr>stval := x\<rparr>)" "confined s (s\<lparr>satp := x\<rparr>)"
  "confined s (s\<lparr>vsstatus := x\<rparr>)" "confined s (s\<lparr>vstvec := x\<rparr>)" "confined s (s\<lparr>vsepc := x\<rparr>)" "confined s (s\<lparr>vscause := x\<rparr>)"
  "confined s (s\<lparr>vstval := x\<rparr>)" "confined s (s\<lparr>vsatp := x\<rparr>)" "confined s (s\<lparr>hstatus := x\<rparr>)" "confined s (s\<lparr>hedeleg := x\<rparr>)"
  "confined s (s\<lparr>hideleg := x\<rparr>)" "confined s (s\<lparr>htval := x\<rparr>)" "confined s (s\<lparr>htinst := x\<rparr>)" "confined s (s\<lparr>hgatp := x\<rparr>)"
  "confined s (s\<lparr>scontext := x\<rparr>)"
  by (simp_all add: confined_def machine_kept_def)

lemma sstatus_mask_low: "bit (compute_sstatus_write_mask c) n \<or> n = sd_pos c \<Longrightarrow> n \<in> {1, 5, 8, 9, 10, 13, 14, 15, 16, 18, 19, 31, 63}"
  unfolding bit_sstatus_write_mask by (auto simp: sd_pos_def)

text \<open>The views of the interrupt registers reach only interrupts that are delegated, as \<open>hvip\<close> exists with the hypervisor only.\<close>

lemma write_with_mask_bit: "bit (write_with_mask m val old) n \<noteq> bit old n \<Longrightarrow> bit m n"
  by (auto simp: write_with_mask_def bit_or_iff bit_and_iff bit_not_iff dest: bit_imp_le_length)

lemma hvip_delegated:
  assumes "bit (misa s) ISA_H" "bit (0x444 :: u64) n"
  shows "bit (mideleg_read s) n"
proof -
  have "(0x444 :: u64) = 0x1444 AND 0x444" by simp
  then have "bit (0x1444 :: u64) n" using assms(2) bit_and_iff [of "0x1444 :: u64" "0x444" n] by metis
  then show ?thesis using assms(1) by (simp only: mideleg_read_def extension_bit if_True bit_or_iff simp_thms)
qed

lemma deleg_mask_delegated: "a \<in> {sip_sie_accr, hip_hie_accr, vsip_vsie_accr} \<Longrightarrow> bit (deleg_mask a s AND m) n \<Longrightarrow> bit (mideleg_read s) n"
  by (elim insertE emptyE) (simp_all add: deleg_mask_def hideleg_read_def bit_and_iff sip_sie_accr_def hip_hie_accr_def vsip_vsie_accr_def)

lemma confined_masked:
  assumes "\<And>n. bit m n \<Longrightarrow> bit (mideleg_read s) n"
  shows "confined s (s\<lparr>mie := write_with_mask m val (mie s)\<rparr>)" "confined s (s\<lparr>mip := write_with_mask m val (mip s)\<rparr>)"
proof -
  have "bit (mideleg_read s) n" if "bit (write_with_mask m val x) n \<noteq> bit x n" for n x
    using assms write_with_mask_bit that by blast
  then show "confined s (s\<lparr>mie := write_with_mask m val (mie s)\<rparr>)" "confined s (s\<lparr>mip := write_with_mask m val (mip s)\<rparr>)"
    by (simp_all add: confined_def machine_kept_def)
qed

lemma confined_ints:
  assumes "a \<in> {sip_sie_accr, hip_hie_accr, vsip_vsie_accr}"
  shows "confined s (ie_write a val s)" "confined s (ip_write a val s)"
  unfolding ie_write_def ip_write_def using deleg_mask_delegated [OF assms] by (intro confined_masked; blast)+

lemma confined_hvip: "bit (misa s) ISA_H \<Longrightarrow> confined s (ip_write hvip_accr val s)"
  unfolding ip_write_def by (rule confined_masked) (auto simp: hvip_accr_def bit_and_iff intro: hvip_delegated)

lemma confined_mstatus:
  assumes "\<And>n. bit x n \<noteq> bit (mstatus s) n \<Longrightarrow> n \<in> {1, 5, 8, 9, 10, 13, 14, 15, 16, 18, 19, 31, 63} \<or> n = 17 \<and> \<not> bit x 17"
  shows "machine_kept s (s\<lparr>mstatus := x\<rparr>)"
  using assms unfolding machine_kept_def by (simp del: insert_iff)

lemma confined_status: "priv_inv c s \<Longrightarrow> confined s (sstatus_write c val s)" "confined s (vsstatus_write c val s)"
proof -
  show v: "confined s (vsstatus_write c val s)" using vsstatus_write_eq [of c val s] by (auto simp: confined_def machine_kept_def)
  assume "priv_inv c s"
  then obtain x t where "nonvirtual_sstatus_write c val s = s\<lparr>mstatus := x, tlb := t\<rparr>"
    and "\<And>n. n \<noteq> sd_pos c \<Longrightarrow> bit x n = (if bit (compute_sstatus_write_mask c) n then bit val n else bit (mstatus s) n)"
    using nonvirtual_write_eq [of c s val] by (auto simp: priv_inv_def core_inv_def mode_inv_def status_inv_def)
  moreover from this(2) have "machine_kept s (s\<lparr>mstatus := x\<rparr>)"
    using sstatus_mask_low [of c] by (intro confined_mstatus) metis
  ultimately have "confined s (nonvirtual_sstatus_write c val s)" by (simp add: confined_def machine_kept_def)
  then show "confined s (sstatus_write c val s)" using v by (simp add: sstatus_write_def)
qed

lemma confined_atp: "confined s (satp_write c val s)" "confined s (vsatp_write c val s)" "confined s (hgatp_write c val s)"
  by (simp_all add: satp_write_def vsatp_write_def nonvirtual_satp_write_def hgatp_write_def base_atp_write_def Let_def flush_def confined_def machine_kept_def)

lemma confined_context: "prv s = PRV_S \<and> \<not> virt s \<and> bit (misa s) ISA_H \<Longrightarrow> confined s (s\<lparr>mcontext := x\<rparr>)"
  by (simp add: confined_def machine_kept_def)

section \<open>Registers below machine mode\<close>

definition low_csrs :: "csr set" where
  "low_csrs = {CSR_SSTATUS, CSR_SIE, CSR_STVEC, CSR_SEPC, CSR_SCAUSE, CSR_STVAL, CSR_SIP, CSR_SATP, CSR_HSTATUS, CSR_HEDELEG, CSR_HIDELEG,
     CSR_HIE, CSR_HTVAL, CSR_HIP, CSR_HVIP, CSR_HTINST, CSR_HGATP, CSR_VSSTATUS, CSR_VSIE, CSR_VSTVEC, CSR_VSEPC, CSR_VSCAUSE,
     CSR_VSTVAL, CSR_VSIP, CSR_VSATP, CSR_SCONTEXT, CSR_HCONTEXT}"

lemma low_address: "csrmap c which = Some r \<Longrightarrow> get_field which 0x300 \<le> 2 \<Longrightarrow> r \<in> low_csrs"
proof -
  assume r: "csrmap c which = Some r" and p: "get_field which 0x300 \<le> 2"
  then have "(which, r) \<in> set csr_addresses" by (auto simp: csrmap_def dest: map_of_SomeD split: option.splits if_splits)
  moreover have "list_all (\<lambda>(a, r). get_field a 0x300 \<le> 2 \<longrightarrow> r \<in> low_csrs) csr_addresses"
    by (simp add: csr_addresses_def get_field_def low_csrs_def)
  ultimately show ?thesis using p by (auto simp: list_all_iff)
qed

lemma low_write_confined:
  assumes "priv_inv c s" "r \<in> low_csrs"
    and "r \<in> {CSR_HVIP, CSR_HCONTEXT} \<Longrightarrow> prv s = PRV_S \<and> \<not> virt s \<and> bit (misa s) ISA_H"
  shows "confined s (csr_write c r val s)"
  using assms(2,3) unfolding low_csrs_def
  by (elim insertE emptyE)
    (simp_all add: confined_status(1) [OF assms(1)] confined_status(2) confined_atp confined_ints confined_hvip confined_context
      hstatus_write_def hedeleg_write_def hideleg_write_def)

text \<open>The registers of the hypervisor need its mode.\<close>

lemma hypervisor_address: "csrmap c which = Some r \<Longrightarrow> r \<in> {CSR_HVIP, CSR_HCONTEXT} \<Longrightarrow> get_field which 0x300 = 2"
  by (auto simp: csrmap_def csr_addresses_def get_field_def split: option.splits if_splits)

lemma hypervisor_permitted:
  assumes "verify_permissions which r bits wr s = None" "get_field which 0x300 = 2" "prv s \<in> {0, 1}"
  shows "prv s = PRV_S \<and> \<not> virt s \<and> bit (misa s) ISA_H"
  using assms by (auto simp: verify_permissions_def base_permissions_def Let_def extension_bit split: option.splits if_splits)

section \<open>Instructions\<close>

lemma csr_insn_confined:
  assumes "priv_inv c s" "prv s \<noteq> PRV_M"
  shows "confined s (snd (csr_insn c wr f which bits npc s))"
proof (cases "serialized s")
  case True
  let ?s = "s\<lparr>serialized := False\<rparr>"
  have i: "priv_inv c ?s" by (intro field_inv assms)
  show ?thesis
  proof (cases "get_csr c which bits wr ?s")
    case (Inr old)
    then obtain r where r: "csrmap c which = Some r" and v: "verify_permissions which r bits wr ?s = None"
      by (auto simp: get_csr_def split: option.splits)
    have p: "prv s \<in> {0, 1}" using assms by (auto simp: priv_inv_defs legal_prv_def)
    then have "get_field which 0x300 \<le> 2" using permitted_privilege [OF v] by (auto split: if_splits intro: order_trans)
    moreover have "r \<in> {CSR_HVIP, CSR_HCONTEXT} \<Longrightarrow> prv ?s = PRV_S \<and> \<not> virt ?s \<and> bit (misa ?s) ISA_H"
      using hypervisor_permitted [OF v hypervisor_address [OF r]] p by simp
    ultimately have "confined ?s (put_csr c which (f old) ?s)" using r low_write_confined [OF i low_address [OF r]] by (simp add: put_csr_def)
    then have "confined s (if wr then put_csr c which (f old) ?s else ?s)" using confined_trans [OF confined_fields(2)] by simp
    then show ?thesis using True Inr confined_trans [OF _ confined_fields(1)] by (simp add: csr_insn_def Let_def set_pc_and_serialize_def)
  qed (use True in \<open>simp add: csr_insn_def Let_def\<close>)
qed (simp add: csr_insn_def)

lemma sret_confined:
  assumes "cfg_ok c" "priv_inv c s" "prv s \<noteq> PRV_M" and m: "sret c bits s = (r, s')"
  shows "machine_kept s s' \<and> prv s' \<le> prv s \<and> (virt s \<longrightarrow> virt s')"
proof -
  have i: "fixed_isa c s" "legal_prv c (get_field (mstatus s) 0x1800)" "legal_prv c (prv s)" using assms(2) by (simp_all add: priv_inv_def core_inv_def mode_inv_def status_inv_def)
  have p: "prv s = 0 \<or> prv s = 1" "isa_bit c ISA_U" using assms(3) i(3) by (auto simp: legal_prv_def)
  have low: "legalize_privilege s (of_bool b) \<le> 1" "legalize_privilege s (of_bool b) \<noteq> 3" for b
    using fixed_bits [OF i(1), of ISA_U] p(2) by (cases b; auto simp: legalize_privilege_def extension_bit(1))+
  have "s' = s" if "\<not> (prv s = 1 \<and> isa_bit c ISA_S \<and> \<not> bit (if virt s then hstatus s else mstatus s) 22)"
  proof (cases "isa_bit c ISA_S")
    case True
    then have "virt s \<and> (prv s = PRV_U \<or> get_flag (hstatus s) 0x400000) \<or>
        \<not> virt s \<and> prv s < (if get_flag (mstatus s) 0x400000 then PRV_M else PRV_S)"
      using that p(1) by (auto simp: get_bits split: if_splits)
    then have "snd (sret c bits s) = s" by (elim disjE conjE) (simp_all add: sret_def)
    then show ?thesis using m by simp
  qed (use m fixed_bits [OF i(1), of ISA_S] in \<open>simp add: sret_def extension_bit\<close>)
  then consider (trap) "s' = s"
    | (hs) "prv s = 1" "isa_bit c ISA_S" "\<not> virt s" "\<not> bit (mstatus s) 22"
    | (vs) "prv s = 1" "isa_bit c ISA_S" "virt s" "\<not> bit (hstatus s) 22"
    by (cases "virt s") (simp_all, blast+)
  then show ?thesis
  proof cases
    case trap
    then show ?thesis by (simp add: machine_kept_def)
  next
    case hs
    obtain x y t' where e: "sret c bits s = (Inr PC_SERIALIZE_AFTER, set_privilege (of_bool (bit (mstatus s) 8)) (bit (misa s) ISA_H \<and> bit (hstatus s) 7)
        (s\<lparr>pc := epc_read s (sepc s) AND pc_alignment_mask s, hstatus := y, mstatus := x, tlb := t'\<rparr>))"
      and x: "\<And>n. n \<noteq> sd_pos c \<Longrightarrow> n \<noteq> 17 \<Longrightarrow>
        bit x n = (if n = 8 then False else if n = 5 then True else if n = 1 then bit (mstatus s) 5 else bit (mstatus s) n)" and mprv: "bit x 17 \<longrightarrow> bit (mstatus s) 17"
      using sret_hs_eq [OF i(1,2) hs(2,3,1,4), of bits] by blast
    have "machine_kept s (s\<lparr>mstatus := x\<rparr>)"
    proof (rule confined_mstatus)
      fix n
      assume "bit x n \<noteq> bit (mstatus s) n"
      then show "n \<in> {1, 5, 8, 9, 10, 13, 14, 15, 16, 18, 19, 31, 63} \<or> n = 17 \<and> \<not> bit x 17"
        using mprv x [of n] sstatus_mask_low [of c n] by (cases "n = 17"; cases "n = sd_pos c") (auto split: if_splits)
    qed
    moreover have "legalize_privilege (s\<lparr>pc := q, hstatus := y, mstatus := x, tlb := t'\<rparr>) p = legalize_privilege s p" for p q by (rule legalize_misa) simp
    moreover have "s' = snd (sret c bits s)" using m by simp
    ultimately show ?thesis unfolding e set_privilege_eq using hs(1,3) by (simp add: machine_kept_def low)
  next
    case vs
    obtain t' where e: "sret c bits s = (Inr PC_SERIALIZE_AFTER, set_privilege (of_bool (bit (vsstatus s) 8)) True
        (s\<lparr>pc := epc_read s (vsepc s) AND pc_alignment_mask s, vsstatus := vsstatus_value c (unstack_s (vsstatus s)) s, tlb := t'\<rparr>))"
      using sret_vs_eq [OF i(1) vs(2,3,1,4), of bits] by blast
    have "legalize_privilege (s\<lparr>pc := q, vsstatus := z, tlb := t'\<rparr>) p = legalize_privilege s p" for p q z by (rule legalize_misa) simp
    then show ?thesis using m vs(1,3) low unfolding e set_privilege_eq by (auto simp: machine_kept_def)
  qed
qed

text \<open>In machine mode only the bound is left, which every legal state satisfies.\<close>

lemma legal_bound: "priv_inv c s \<Longrightarrow> prv s \<le> 3"
  by (rule legal_le [of c]) (simp add: priv_inv_def core_inv_def mode_inv_def)

end
