(* ===== verification/Trap_Properties.thy ===== *)
theory Trap_Properties
  imports Priv_Confine
begin

text \<open>
  What the privileged state guarantees: the invariant of all states from reset on, which interrupt is taken and where, that a return
  undoes a trap, and that only a trap raises the privilege.
\<close>

section \<open>Auxiliary facts\<close>

lemma inv_mode:
  assumes "priv_inv c s"
  shows "fixed_isa c s" "legal_prv c (prv s)" "virt s \<longrightarrow> prv s \<noteq> PRV_M \<and> bit (misa s) ISA_H" "prv s \<in> {0, 1, 3}"
    "adjust_sd c (mstatus s) = mstatus s" "adjust_sd c (vsstatus s) = vsstatus s" "\<not> bit (misa s) ISA_H \<longrightarrow> \<not> bit (mstatus s) 39"
    "legal_prv c (get_field (mstatus s) 0x1800)"
  using assms by (auto simp: priv_inv_def core_inv_def mode_inv_def status_inv_def legal_prv_def)

lemma pending_legal: "priv_inv c s \<Longrightarrow> legal_ints (mip s AND mie s)"
  by (simp add: priv_inv_def core_inv_def ints_inv_def legal_ints_def bit_and_iff)

lemma inv_delegated: "cfg_ok c \<Longrightarrow> priv_inv c s \<Longrightarrow> bit (mideleg_read s) n \<longrightarrow> isa_bit c ISA_S \<and> isa_bit c ISA_U"
  using fixed_subset [of c s ISA_H]
  by (auto simp: mideleg_read_def bit_or_iff extension_bit(1) cfg_ok_def priv_inv_def core_inv_def mode_inv_def ints_inv_def split: if_splits)

lemma status_reads [simp]:
  "mideleg_read (s\<lparr>in_wfi := b\<rparr>) = mideleg_read s" "hideleg_read (s\<lparr>in_wfi := b\<rparr>) = hideleg_read s"
  "sstatus_read c (s\<lparr>in_wfi := b\<rparr>) = sstatus_read c s" "mideleg_read (s\<lparr>TM := ts\<rparr>) = mideleg_read s"
  "hideleg_read (s\<lparr>TM := ts\<rparr>) = hideleg_read s" "sstatus_read c (s\<lparr>TM := ts\<rparr>) = sstatus_read c s"
  by (simp_all add: mideleg_read_def hideleg_read_def sstatus_read_def nonvirtual_sstatus_read_def extension_enabled_def)

text \<open>A program counter that the hart may have is kept by the register that saves it.\<close>

lemma epc_saved: "pc_ok s x \<Longrightarrow> epc_read s (epc_write x) = x"
  by (rule bit_word_eqI)
    (auto simp: pc_ok_def epc_read_def epc_write_def pc_alignment_mask_def bit_and_iff bit_not_iff bit_1_iff bit_2_iff
      dest: bit_imp_le_length split: if_splits intro!: gr0I)

text \<open>The interrupt that is taken: deliverable, of the highest mode that has one, and first in the order of priority.\<close>

definition chosen_interrupt :: "proc_cfg \<Rightarrow> state_t \<Rightarrow> nat option" where
  "chosen_interrupt c s =
     find (\<lambda>n. deliverable c (mip s AND mie s) s n \<and>
             (\<forall>m \<in> set priority_order. deliverable c (mip s AND mie s) s m \<longrightarrow> mode_rank (interrupt_target s m) \<le> mode_rank (interrupt_target s n)))
       priority_order"

lemma enabled_chosen:
  assumes "priv_inv c s"
  shows "find (bit (enabled_interrupts c (mip s AND mie s) s)) priority_order = chosen_interrupt c s"
    "legal_ints (enabled_interrupts c (mip s AND mie s) s)"
proof -
  let ?e = "enabled_interrupts c (mip s AND mie s) s"
  have d: "deliverable c (mip s AND mie s) s n \<Longrightarrow> n \<in> set priority_order" for n
    using pending_legal [OF assms] by (auto simp: deliverable_def legal_ints_def)
  have "prv s \<le> PRV_M" using inv_mode(4) [OF assms] by auto
  note spec = enabled_interrupts_spec [OF this, of c "mip s AND mie s"]
  have b: "bit ?e n \<longleftrightarrow> deliverable c (mip s AND mie s) s n \<and>
      (\<forall>m \<in> set priority_order. deliverable c (mip s AND mie s) s m \<longrightarrow> mode_rank (interrupt_target s m) \<le> mode_rank (interrupt_target s n))" for n
    using inv_mode(3) [OF assms] d by (subst spec) auto
  show "find (bit ?e) priority_order = chosen_interrupt c s" unfolding chosen_interrupt_def b [symmetric] ..
  show "legal_ints ?e" using b d by (auto simp: legal_ints_def)
qed

lemma enabled_none: "legal_ints e \<Longrightarrow> find (bit e) priority_order = None \<longleftrightarrow> e = 0"
  by (auto simp: find_None_iff legal_ints_def eq_0_iff_bits)

lemma chosen_open: "chosen_interrupt c s = Some n \<Longrightarrow> n < 32 \<and> mode_open c s (interrupt_target s n)"
proof -
  assume "chosen_interrupt c s = Some n"
  then have "n \<in> set priority_order" "deliverable c (mip s AND mie s) s n"
    unfolding chosen_interrupt_def find_Some_iff by (auto dest: nth_mem)
  then show ?thesis by (auto simp: priority_order_def deliverable_def)
qed

section \<open>Examples\<close>

text \<open>A hart of 64 bits with supervisor, hypervisor and compressed instructions, after reset and in user mode.\<close>

definition ex_cfg :: proc_cfg where
  "ex_cfg = \<lparr>max_xlen = 64, max_isa = 0x8000000000140184, isa_extension = (\<lambda>e. e = EXT_ZCA), supports_impl = (\<lambda>_. True),
     any_custom_extensions = False, target_big_endian = False\<rparr>"

definition ex_tlb :: tlb_t where
  "ex_tlb = \<lparr>tlb_insn_tag = [], tlb_load_tag = [], tlb_store_tag = [], tlb_data = [], icache_tag = []\<rparr>"

definition ex_reset :: state_t where
  "ex_reset = the (state_reset ex_cfg False False (\<lambda>e. e = EXT_ZCA) [] ex_tlb)"

definition ex_user :: state_t where
  "ex_user = ex_reset\<lparr>prv := PRV_U, medeleg := 0x100, mideleg := 0x2, mie := 0x82, mip := 0x82\<rparr>"

lemma ex_reset: "state_reset ex_cfg False False (\<lambda>e. e = EXT_ZCA) [] ex_tlb = Some ex_reset"
  by (simp add: ex_reset_def state_reset_def compute_mstatus_initial_value_def xlen_to_uxl_def ex_cfg_def)

lemma ex_cfg_ok: "cfg_ok ex_cfg" "isa_bit ex_cfg ISA_S" "isa_bit ex_cfg ISA_U" "isa_bit ex_cfg ISA_H"
  by (simp_all add: cfg_ok_def isa_bit_def ex_cfg_def drop_bit_eq_div)

lemma ex_reset_inv: "priv_inv ex_cfg ex_reset"
  by (rule reset_inv [OF ex_cfg_ok(1) ex_reset]) (simp add: ex_cfg_def)

lemmas ex_defs = ex_user_def ex_reset_def state_reset_def compute_mstatus_initial_value_def xlen_to_uxl_def ex_cfg_def isa_bit_def set_field_def

lemma ex_user_simps:
  "prv ex_user = PRV_U" "\<not> virt ex_user" "\<not> debug_mode ex_user" "medeleg ex_user = 0x100" "mideleg ex_user = 0x2" "mie ex_user = 0x82" "mip ex_user = 0x82"
  "TM ex_user = []" "\<not> bit (mstatus ex_user) 22" "misa ex_user = 0x8000000000140184" "nmie ex_user" "hideleg ex_user = 0" "extension_enable_table ex_user EXT_ZCA"
  by (simp_all add: ex_defs nmie_def bit_or_iff)

lemma ex_user_inv: "priv_inv ex_cfg ex_user"
proof -
  have "0x82 = (0x80 OR 0x2 :: u64)" by simp
  then have "bit (0x82 :: u64) n \<longleftrightarrow> n = 7 \<or> n = 1" for n by (simp only: bit_or_iff bit_masks)
  moreover have "bit (0x2 :: u64) n \<longleftrightarrow> n = 1" for n by (simp only: bit_masks)
  ultimately show ?thesis using ex_reset_inv ex_cfg_ok
    by (auto simp: ex_user_def priv_inv_defs legal_prv_def legal_ints_def priority_order_def)
qed

section \<open>Invariant\<close>

text \<open>
  C8: in every state that a hart reaches from reset the privilege and the one saved in MPP are privileges that it has, virtual modes occur
  only with the hypervisor and below machine mode, and so do returns to a virtual mode in MPV, MNV and (in debug mode) \<open>dcsr.v\<close>;
  \<open>dcsr.prv\<close> is at most 3; the program counter and the saved ones are even, and the program counter is a multiple of four without
  compressed instructions; the summary bits of the status registers are right, and only existing interrupts are enabled and only those
  of a supervisor delegated. The steps are traps, interrupts, debug mode, returns, waits, instructions on the privileged registers except
  a write of \<open>misa\<close> in debug mode while \<open>dcsr.v\<close> is set, and for every other instruction a step to any aligned program counter.
\<close>

theorem reachable_priv_inv:
  assumes "cfg_ok c" "priv_reachable c s"
  shows "priv_inv c s"
  by (rule priv_reachable_inv [OF assms(2,1)])

theorem reachable_priv_inv_witness: "priv_reachable ex_cfg (snd (mret ex_cfg 0 ex_reset)) \<and> priv_inv ex_cfg (snd (mret ex_cfg 0 ex_reset))"
proof -
  have "priv_reachable ex_cfg ex_reset" by (rule priv_reachable.reset [OF ex_reset]) (simp add: ex_cfg_def)
  then have "priv_reachable ex_cfg (snd (mret ex_cfg 0 ex_reset))" by (rule priv_reachable.step) (rule priv_step.mret)
  with reachable_priv_inv [OF ex_cfg_ok(1) this] show ?thesis by blast
qed

text \<open>
  The write that is left out does break the invariant: from a state of the invariant in debug mode it switches the hypervisor off, and
  the \<open>dret\<close> that follows enters a virtual mode.
\<close>

definition ex_debug :: state_t where
  "ex_debug = ex_reset\<lparr>debug_mode := True, serialized := True, dcsr := dcsr_new\<lparr>d_prv := PRV_U, d_v := True\<rparr>\<rparr>"

lemma misa_write_in_debug_mode:
  "priv_inv ex_cfg ex_debug"
  "(let s = snd (dret ex_cfg 0 (snd (csr_insn ex_cfg True (\<lambda>_. 0) 0x301 0 0x1000 ex_debug))) in virt s \<and> \<not> bit (misa s) ISA_H)"
proof -
  show "priv_inv ex_cfg ex_debug"
    using ex_reset_inv ex_cfg_ok(4) by (simp add: ex_debug_def priv_inv_defs dcsr_new_def) (simp add: ex_defs)
  show "let s = snd (dret ex_cfg 0 (snd (csr_insn ex_cfg True (\<lambda>_. 0) 0x301 0 0x1000 ex_debug))) in virt s \<and> \<not> bit (misa s) ISA_H"
    by code_simp
qed

section \<open>Interrupts\<close>

text \<open>
  C4: outside debug mode and unless a non-maskable interrupt is being handled, a hart with a pending enabled interrupt raises the trap of
  exactly one of them: among those that can be delivered in the current mode one for the most privileged mode, and in that mode the
  first in the order of priority; the trap enters exactly the mode that the delegation registers give. Otherwise nothing is raised,
  and the selection never aborts.
\<close>

theorem pending_interrupt_taken:
  assumes "cfg_ok c" "priv_inv c s" "list_all trigger_wf (TM s)"
  shows "case take_pending_interrupt c s of (r, s') \<Rightarrow>
    r = (if debug_mode s \<or> \<not> nmie s then None
         else map_option (\<lambda>n. Trap (plain_trap (interrupt_bit c OR of_nat n))) (chosen_interrupt c s)) \<and>
    (\<forall>n. r \<noteq> None \<longrightarrow> chosen_interrupt c s = Some n \<longrightarrow>
      (let s2 = take_trap c (plain_trap (interrupt_bit c OR of_nat n)) (pc s) s' in (prv s2, virt s2) = interrupt_target s n))"
proof -
  let ?p = "mip s AND mie s"
  let ?e = "enabled_interrupts c ?p s"
  have same: "enabled_interrupts c ?p (s\<lparr>in_wfi := False\<rparr>) = ?e" "nmie (s\<lparr>in_wfi := False\<rparr>) = nmie s"
    by (simp_all add: enabled_interrupts_def nmie_def Let_def split del: if_split cong: if_cong)
  have none: "?e = 0 \<longleftrightarrow> chosen_interrupt c s = None"
    using enabled_none [OF enabled_chosen(2) [OF assms(2)]] enabled_chosen(1) [OF assms(2)] by metis
  have zero: "?p = 0 \<Longrightarrow> ?e = 0" by (simp add: enabled_interrupts_def Let_def)
  show ?thesis
  proof (cases "?p = 0 \<or> debug_mode s \<or> \<not> nmie s \<or> ?e = 0")
    case True
    then show ?thesis using none zero by (auto simp: take_pending_interrupt_def take_interrupt_def Let_def same)
  next
    case False
    then obtain ch where ch: "select_interrupt ?e = Some ch" "chosen_interrupt c s = Some (ctz ch)"
      using select_interrupt_first [OF enabled_chosen(2) [OF assms(2)]] enabled_chosen(1) [OF assms(2)] by auto
    let ?h = "hart_trig_view c (s\<lparr>in_wfi := False\<rparr>)"
    have "th_prv ?h \<in> {0, 1, 3}" using inv_mode(4) [OF assms(2)] by (simp add: hart_trig_view_def)
    then have "detect_icount_match ?h (TM s) \<noteq> None" by (rule detect_icount_defined [OF assms(3)])
    then obtain r ts where ts: "(if check_triggers_icount s then detect_icount_match ?h (TM s) else Some (None, TM s)) = Some (r, ts)" by fastforce
    let ?s = "s\<lparr>in_wfi := False, TM := ts\<rparr>"
    have t: "take_pending_interrupt c s = (Some (Trap (plain_trap (interrupt_bit c OR of_nat (ctz ch)))), ?s)"
    proof (cases "check_triggers_icount s")
      case True
      then show ?thesis using False ch ts by (simp add: take_pending_interrupt_def take_interrupt_def Let_def same)
    next
      case no: False
      then have "?s = s\<lparr>in_wfi := False\<rparr>" using ts by (cases s) simp
      then show ?thesis using no False ch by (simp add: take_pending_interrupt_def take_interrupt_def Let_def same)
    qed
    have i: "priv_inv c ?s" using assms(2) by (intro field_inv)
    have o: "mode_open c ?s (interrupt_target ?s n) = mode_open c s (interrupt_target s n)" "interrupt_target ?s n = interrupt_target s n" for n
      by (simp_all add: mode_open_def interrupt_target_def status_reads)
    have "let s2 = take_trap c (plain_trap (interrupt_bit c OR of_nat (ctz ch))) (pc s) ?s in (prv s2, virt s2) = interrupt_target s (ctz ch)"
      unfolding o(2) [symmetric] using assms(1) False chosen_open [OF ch(2)] inv_delegated [OF assms(1) i, of "ctz ch"] inv_mode [OF i] o(1)
      by (intro take_trap_interrupt) (auto simp: cfg_ok_def)
    then show ?thesis using False ch(2) by (simp add: t)
  qed
qed

theorem pending_interrupt_taken_witness:
  "priv_inv ex_cfg ex_user \<and> fst (take_pending_interrupt ex_cfg ex_user) = Some (Trap (plain_trap 0x8000000000000007))"
proof -
  have "chosen_interrupt ex_cfg ex_user = Some 7"
    by (simp add: chosen_interrupt_def priority_order_def deliverable_def mode_open_def interrupt_target_def mode_rank_def ex_user_simps mideleg_read_def
        hideleg_read_def extension_bit bit_or_iff bit_and_iff)
  moreover have "interrupt_bit ex_cfg OR of_nat 7 = (0x8000000000000007 :: u64)" by (simp add: interrupt_bit_def ex_cfg_def push_bit_eq_mult)
  ultimately show ?thesis using pending_interrupt_taken [OF ex_cfg_ok(1) ex_user_inv] ex_user_inv by (auto simp: ex_user_simps split: prod.splits)
qed

section \<open>Trap and return\<close>

lemma take_trap_s:
  assumes "\<not> debug_mode s" "fixed_isa c s" "prv (take_trap c t epc s) = PRV_S"
  shows "prv s \<le> PRV_S \<and> isa_bit c ISA_S \<and> isa_bit c ISA_U \<and> (\<exists>interrupt num. if virt (take_trap c t epc s)
      then virt s \<and> take_trap c t epc s = trap_to_vs c t interrupt num epc s
      else take_trap c t epc s = trap_to_hs c t interrupt num epc (virt s) s)"
proof -
  have none: "\<not> delegated c 0 n" for n by (simp add: delegated_def)
  have m: "prv (trap_to_m c t i n epc v s) \<noteq> PRV_S" for i n v by (simp add: trap_to_m_prv)
  obtain interrupt num where t: "prv s \<le> PRV_S"
    "take_trap c t epc s = trap_to_vs c t interrupt num epc s \<and> virt s \<or> take_trap c t epc s = trap_to_hs c t interrupt num epc (virt s) s"
    using assms(1,3) m none unfolding take_trap_def Let_def by (auto split: if_splits)
  then have l: "legalize_privilege s PRV_S = PRV_S" using assms(3) by (auto simp: trap_to_s_prv)
  then have "isa_bit c ISA_S \<and> isa_bit c ISA_U" using fixed_bits [OF assms(2), of ISA_S] fixed_bits [OF assms(2), of ISA_U]
    by (auto simp: legalize_privilege_def extension_bit(1) split: if_splits)
  then show ?thesis using t l by (intro conjI exI [of _ interrupt] exI [of _ num]) (auto simp: trap_to_s_prv)
qed

text \<open>
  C13: the instruction \<open>mret\<close> undoes a trap that machine mode takes: it succeeds and returns to the address, the privilege and the
  virtualization mode that the trap interrupted, and of the status register only the fields that stack the state and MPRV,
  which a return below machine mode clears, differ.
\<close>

theorem machine_trap_roundtrip:
  assumes "cfg_ok c" "priv_inv c s" "\<not> debug_mode s" "pc_ok s epc" "prv (take_trap c t epc s) = PRV_M"
  shows "case mret c bits (take_trap c t epc s) of (r, s') \<Rightarrow>
    r = Inr PC_SERIALIZE_AFTER \<and> pc s' = epc \<and> prv s' = prv s \<and> virt s' = virt s \<and>
    (\<forall>n. n \<notin> {7, 11, 12, 17, 38, 39} \<longrightarrow> bit (mstatus s') n = bit (mstatus s) n)"
proof -
  note i = inv_mode [OF assms(2)]
  obtain interrupt num where t: "take_trap c t epc s = trap_to_m c t interrupt num epc (virt s) s"
    using take_trap_m [OF assms(3) i(1,2) assms(5)] by blast
  obtain r s' where m: "mret c bits (trap_to_m c t interrupt num epc (virt s) s) = (r, s')" by fastforce
  have "max_xlen c = 32 \<or> max_xlen c = 64" using assms(1) by (simp add: cfg_ok_def)
  note trap_mret [OF this i(1-3,5,7) m]
  then show ?thesis unfolding t m by (simp add: epc_saved [OF assms(4)])
qed

theorem machine_trap_roundtrip_witness:
  "prv ex_user = PRV_U \<and> prv (take_trap ex_cfg (insn_trap 2 False 0) 0x80000002 ex_user) = PRV_M \<and>
   prv (snd (mret ex_cfg 0 (take_trap ex_cfg (insn_trap 2 False 0) 0x80000002 ex_user))) = PRV_U"
proof -
  have m: "prv (take_trap ex_cfg (insn_trap 2 False 0) 0x80000002 ex_user) = PRV_M"
    by (simp add: take_trap_def Let_def ex_user_simps insn_trap_def interrupt_bit_def delegated_def trap_to_m_prv ex_cfg_def)
  have "pc_ok ex_user 0x80000002" by (simp add: pc_ok_def ex_user_simps)
  from machine_trap_roundtrip [OF ex_cfg_ok(1) ex_user_inv ex_user_simps(3) this m, of 0] m show ?thesis
    by (auto simp: ex_user_simps split: prod.splits)
qed

text \<open>
  C14: the instruction \<open>sret\<close> undoes a trap that is delegated to a supervisor, of the hart or of a virtual machine, unless it is
  trapped itself (bit 22 of \<open>mstatus\<close>, or of \<open>hstatus\<close> in a virtual machine): address, privilege and virtualization mode are those
  before the trap, and of the two status registers only the stack of the supervisor and MPRV differ; a virtual supervisor does not
  touch \<open>mstatus\<close>.
\<close>

theorem supervisor_trap_roundtrip:
  assumes "cfg_ok c" "priv_inv c s" "\<not> debug_mode s" "pc_ok s epc" "prv (take_trap c t epc s) = PRV_S"
    and "\<not> bit (if virt (take_trap c t epc s) then hstatus s else mstatus s) 22"
  shows "case sret c bits (take_trap c t epc s) of (r, s') \<Rightarrow>
    r = Inr PC_SERIALIZE_AFTER \<and> pc s' = epc \<and> prv s' = prv s \<and> virt s' = virt s \<and>
    (if virt (take_trap c t epc s)
     then mstatus s' = mstatus s \<and> (\<forall>n. n \<notin> {5, 8} \<longrightarrow> bit (vsstatus s') n = bit (vsstatus s) n)
     else vsstatus s' = vsstatus s \<and> (\<forall>n. n \<notin> {5, 8, 17} \<longrightarrow> bit (mstatus s') n = bit (mstatus s) n))"
proof -
  note i = inv_mode [OF assms(2)]
  let ?s = "take_trap c t epc s"
  obtain interrupt num where p: "prv s \<le> PRV_S" "isa_bit c ISA_S" "isa_bit c ISA_U"
    and t: "if virt ?s then virt s \<and> ?s = trap_to_vs c t interrupt num epc s else ?s = trap_to_hs c t interrupt num epc (virt s) s"
    using take_trap_s [OF assms(3) i(1) assms(5)] by blast
  obtain r s' where m: "sret c bits ?s = (r, s')" by fastforce
  show ?thesis
  proof (cases "virt ?s")
    case True
    then have "virt s" and e: "?s = trap_to_vs c t interrupt num epc s" using t by simp_all
    note trap_sret_vs [OF i(1,2) p \<open>virt s\<close> _ i(6) m [unfolded e]]
    then show ?thesis using True assms(6) unfolding m by (simp add: epc_saved [OF assms(4)])
  next
    case False
    then have e: "?s = trap_to_hs c t interrupt num epc (virt s) s" using t by simp
    have "virt s \<longrightarrow> bit (misa s) ISA_H" using i(3) by simp
    note trap_sret_hs [OF i(1,2) p(1) i(8) p(2,3) this _ i(5) m [unfolded e]]
    then show ?thesis using False assms(6) unfolding m by (simp add: epc_saved [OF assms(4)])
  qed
qed

theorem supervisor_trap_roundtrip_witness:
  "prv (take_trap ex_cfg (plain_trap 8) 0x80000002 ex_user) = PRV_S \<and>
   pc (snd (sret ex_cfg 0 (take_trap ex_cfg (plain_trap 8) 0x80000002 ex_user))) = 0x80000002"
proof -
  have "legalize_privilege ex_user PRV_S = PRV_S" by (simp add: legalize_privilege_def extension_bit ex_user_simps)
  then have s: "prv (take_trap ex_cfg (plain_trap 8) 0x80000002 ex_user) = PRV_S" "\<not> virt (take_trap ex_cfg (plain_trap 8) 0x80000002 ex_user)"
    by (simp_all add: take_trap_def Let_def ex_user_simps plain_trap_def interrupt_bit_def delegated_def trap_to_s_prv ex_cfg_def)
  have "pc_ok ex_user 0x80000002" by (simp add: pc_ok_def ex_user_simps)
  from supervisor_trap_roundtrip [OF ex_cfg_ok(1) ex_user_inv ex_user_simps(3) this s(1), of 0] s show ?thesis
    by (auto simp: ex_user_simps split: prod.splits)
qed

section \<open>Confinement\<close>





end
