(* ===== verification/Spec2Isabelle.thy ===== *)
theory Spec2Isabelle
  imports Branch_Stats SF_Properties Cache_Properties Device_Properties Mmu_Properties Trigger_Properties Port_Properties Trap_Properties
begin

text \<open>
  A verification library for the RISC-V simulator under \<open>src/riscv-isa-sim\<close>, a version of Spike extended with branch
  predictors. It models the branch predictors, floating point, the cache models, the devices, and of a hart the memory
  protection, address translation, triggers, memory port, privileged state and traps, by hand-translated executable
  definitions, and proves what makes each correct.

  \<^bold>\<open>The program.\<close> The simulator executes instructions of one or more harts. A hart that retires a conditional branch
  reports it to the branch statistics, which ask a predictor and train it. A floating-point instruction calls a routine
  of softfloat, with the rounding mode and the accrued exceptions in two global variables. A load or a store goes through
  the memory port: the triggers of the debugger look at it, the translation cache or a walk of the page tables gives the
  physical address, memory protection checks it, and the bus finds the memory or the device that it belongs to; tracers,
  among them the cache models, see it as well. What goes wrong is thrown as an exception, which the execution loop hands
  to the traps. Two of the devices, the CLINT and the PLIC, drive bits of the register \<open>mip\<close> of the harts, from which a hart
  chooses the interrupt it takes; the serial port drives a line of the PLIC. Traps, returns and instructions on control and
  status registers change the privilege and the registers that all the others read.

  \<^bold>\<open>Conventions.\<close> Words keep their width: \<open>uint64_t\<close> is \<^typ>\<open>64 word\<close>, and \<open>uint_fast8_t\<close> to \<open>uint_fast64_t\<close> are 64 bits wide where
  the width matters, as on the LP64 hosts the simulator is built for. Signed C integers are \<^typ>\<open>int\<close>; where a
  calculation could leave the range of its type a lemma shows that it does not (the score of the perceptron, for
  geometries that include the one of the program; the exponents of softfloat). A \<open>std::vector\<close> is a list, and an access outside of it, like every other undefined
  behaviour, makes the operation \<^term>\<open>None\<close>. A \<open>bool\<close> result that means refusal (a device's \<open>load\<close> and \<open>store\<close>) is
  a \<^term>\<open>None\<close> as well, or a flag beside the new state where the state changes in spite of the refusal. The caller's byte
  buffer is a list of bytes. The global variables of softfloat are a state monad. Exceptions and aborts are values of a sum type. A host
  pointer into a memory is its physical address, and harts are little-endian. What is not code of the repository is an
  argument: the wall clock of the CLINT, the terminal of the serial port, the devices behind the bus.

  \<^bold>\<open>Shared theory.\<close> \<open>Prelude\<close> has the types, the vector accesses, the fact collections and the lemmas on lists and words.

  \<^bold>\<open>Branch prediction\<close> (\<open>perceptron_predictor.cc\<close>, \<open>tage_predictor.cc\<close>, the statistics of \<open>processor.cc\<close>, the option
  parser of \<open>spike_main/spike.cc\<close>).
    \<^item> \<open>Branch_Hash\<close>: \<open>mix64\<close>, the folding of the history and the index masks. \<open>mix64\<close> is a bijection; folding keeps parities.
    \<^item> \<open>Perceptron\<close>: the record \<open>perceptron_predictor_t\<close>, \<open>perceptron_predict\<close>, \<open>perceptron_train\<close>, \<open>perceptron_reset\<close>. No
      partial sum of a score overflows when \<open>hist_len + 1\<close> times the weight magnitude is below \<open>2 ^ 31\<close> (the program has 48
      bits of history and weights of 8 bits; \<open>w_bits\<close> outside 1 to 31, a shift that C++ leaves undefined, is defined here), training moves the score in the direction of the outcome, the predictor refines
      a reference perceptron without bit tricks, and it learns a branch that always goes one way.
    \<^item> \<open>Tage\<close>: base table and tagged tables. No operation accesses a table out of range in a reachable state, the
      prediction is that of the matching table with the highest number (the longest history in \<open>boom_like_default\<close>),
      allocation takes the first useless entry of a higher table or takes one usefulness from all of them.
    \<^item> \<open>Branch_Stats\<close>: the counters and the region of interest. The locale \<open>branch_predictor\<close> is the contract of a
      predictor; it is interpreted for the perceptron, for TAGE and for the predictor selected by the command line. A
      region measures a fresh predictor on exactly the branches between its markers.

  \<^bold>\<open>Floating point\<close> (\<open>riscv-isa-sim/softfloat\<close>).
    \<^item> \<open>SF_Core\<close>, \<open>SF_F32\<close>, \<open>SF_F64\<close>, \<open>SF_F16\<close>, \<open>SF_Convert\<close>: one definition for each C function or macro. \<open>SF_Core\<close> has the
      state and the primitives; the next three have packing, addition, subtraction, multiplication, comparison, minimum,
      maximum, classification and rounding to integral for one format each; the last has the conversions.
    \<^item> \<open>Rounding\<close>: the specification, a rounding \<open>rnd\<close> of real numbers in the six modes, and the packing algorithm on
      natural numbers with its proof. \<open>SF_Primitives\<close> shows what the primitives compute: a shift with jamming is \<open>jam\<close>, a
      leading-zero count normalises, and the 128-bit operations are exact.
    \<^item> \<open>SF_Pack\<close>: the locale \<open>float_format\<close>, in which rounding and packing is proved once on 64-bit words; the four
      instances are half precision, bfloat16, single and double precision. \<open>SF_Value\<close>: the number an encoding stands
      for, with the locale \<open>float_fields\<close> for the access to its fields.
    \<^item> \<open>SF_Mul\<close>, \<open>SF_Align\<close>, \<open>SF_Add32\<close>, \<open>SF_Add64\<close>, \<open>SF_Compare\<close>, \<open>SF_ToInt\<close>: the operations are correctly rounded in every mode
      for all finite operands, overflow and underflow included; comparisons agree with the order of the values;
      conversions to 32-bit integers round or saturate. \<open>SF_Properties\<close> states the results.

  \<^bold>\<open>Caches\<close> (\<open>cachesim.h\<close>, \<open>cachesim.cc\<close>, \<open>memtracer.h\<close>).
    \<^item> \<open>Cache_Sim\<close>: the set-associative class with its linear-feedback shift register, the fully associative subclass, the
      shared \<open>access\<close> and \<open>clean_invalidate\<close>, the parser of the configuration. The next level is a value and a handler.
    \<^item> \<open>Cache_Contract\<close>: the abstract cache, a map from line numbers to dirty bits with the step relation \<open>cache_step\<close>, and
      the locale \<open>tag_store\<close> of the four functions that a tag store has; an access takes one abstract step. \<open>Cache_Tags\<close> proves
      the contract for both tag stores.
    \<^item> \<open>Cache_Clean\<close>: the loop of \<open>clean_invalidate\<close> is a \<open>partial_function\<close> because its address may wrap; it returns for every
      range that does not reach the end of the address space, and removes the lines of the range from the set-associative cache. \<open>Cache_Run\<close>, \<open>Cache_System\<close>: bounds on the
      statistics of a run, and the two first-level caches over a second level. \<open>Cache_Config\<close>: the configuration string.
      \<open>Cache_Properties\<close> states the results.

  \<^bold>\<open>Devices\<close> (\<open>devices.h\<close>, \<open>devices.cc\<close>, \<open>rom.cc\<close>, \<open>clint.cc\<close>, \<open>plic.cc\<close>, \<open>ns16550.cc\<close>).
    \<^item> \<open>Devices\<close>, \<open>Device_Memory\<close>: memory with pages allocated on first use (loops over the pages of a range, which end by a
      measure), ROM and bus; the memory is one flat array of bytes.
    \<^item> \<open>Harts\<close>, \<open>Clint\<close>: \<open>mip\<close>, the time counter, and the timer device.
    \<^item> \<open>Plic\<close>, \<open>Plic_Best\<close>, \<open>Plic_Inv\<close>, \<open>Plic_Claim\<close>: the interrupt controller; the step relation \<open>plic_step\<close> and its invariant
      \<open>plic_inv\<close>, the choice of the interrupt, claim and completion.
    \<^item> \<open>Uart\<close>, \<open>Uart_Fifo\<close>: the serial port over the locale \<open>interrupt_controller\<close>, which the PLIC interprets; its queue.
      \<open>Device_Properties\<close> states the results.

  \<^bold>\<open>Memory protection\<close> (\<open>csrs.cc\<close>, \<open>mmu.cc\<close>).
    \<^item> \<open>Pmp\<close>: the registers \<open>pmpaddr\<close>, \<open>pmpcfg\<close> and \<open>mseccfg\<close> with their write rules, \<open>pmp_ok\<close> and \<open>pmp_homogeneous\<close>.
      \<open>Pmp_Regions\<close>: an entry covers an interval of addresses. \<open>Pmp_Check\<close>: the check against a reference that looks at every
      byte, and uniform pages. \<open>Pmp_Regs\<close>: locked entries and the registers over time. \<open>Pmp_Properties\<close> states the results.

  \<^bold>\<open>Address translation\<close> (\<open>mmu.cc\<close>, \<open>mmu.h\<close>, \<open>simif.h\<close>, \<open>sim.cc\<close>).
    \<^item> \<open>Simif\<close>: the locale \<open>simif\<close>, the contract of the object through which a hart reaches memory. \<open>Sim_Bus\<close> models that
      object of the simulator and interprets the locale for every bus of memories and devices.
    \<^item> \<open>Mmu\<close>: \<open>translate\<close>, \<open>walk\<close> and \<open>s2xlate\<close>. \<open>Mmu_Spec\<close>: translation as a function of the bytes of memory; the walk refines
      it on every \<open>simif\<close>. \<open>Mmu_Facts\<close>: what a translation grants, and the entries that \<open>pt_reaches\<close> finds for an address. The proofs cover
      one stage of translation, page tables that are not in devices, and virtual addresses of at most 64 bits.
    \<^item> \<open>Mmu_Access\<close>, \<open>Mmu_Tlb\<close>, \<open>Mmu_Loads\<close>: accesses in one page with the translation cache, which no sequence of loads can
      tell from a flushed one. \<open>Mmu_Properties\<close> states the results.

  \<^bold>\<open>Triggers and the memory port\<close> (\<open>triggers.cc\<close>, \<open>triggers.h\<close>, \<open>mmu.cc\<close>, \<open>mmu.h\<close>).
    \<^item> \<open>Triggers\<close>: the five kinds of trigger, their registers and the three functions that look for a match. \<open>Trigger_Writes\<close>,
      \<open>Trigger_Warl\<close>: legal values and the rules that protect the debugger. \<open>Trigger_Match\<close>: chains against a specification, the
      instruction counter over time. \<open>Trigger_Properties\<close> states the results.
    \<^item> \<open>Mmu_Port\<close>: loads and stores of any alignment, reservations, atomic and cache-block operations. \<open>Mmu_Memory\<close>: without
      translation the port refines a flat memory with one reservation, operation by operation. \<open>Mmu_Watch\<close>: the translation
      cache never hides an access from a trigger. \<open>Port_Properties\<close> states the results.

  \<^bold>\<open>Privileged state and traps\<close> (\<open>processor.h\<close>, \<open>processor.cc\<close>, \<open>csrs.h\<close>, \<open>csrs.cc\<close>, \<open>execute.cc\<close>, \<open>trap.h\<close>, \<open>insns\<close>).
    \<^item> \<open>Priv_State\<close>: the record \<open>state_t\<close> of a hart, a read and a write function for each class of register, and reset.
      \<open>Traps\<close>: the choice of an interrupt, \<open>take_trap\<close>, debug mode, the exception handlers of \<open>step\<close>, the return instructions.
      \<open>Csr_Access\<close>: the registers by address, their permissions, and the six instructions on them.
    \<^item> \<open>Priv_Facts\<close>: which bits a write to a status register changes. \<open>Trap_Return\<close>: a return undoes a trap, for machine mode,
      supervisor and virtual supervisor. \<open>Trap_Select\<close>: which interrupts can be delivered, to which mode, in which order.
    \<^item> \<open>Priv_Inv\<close>, \<open>Priv_Reach\<close>: the invariant \<open>priv_inv\<close>, kept by every register write, trap, return and debug step; the step
      relation \<open>priv_step\<close> and the states it reaches from reset. It leaves out writes to \<open>misa\<close> in debug mode while \<open>dcsr.v\<close> is set, which
      break the invariant (\<open>misa_write_in_debug_mode\<close>); instructions that are not modelled are steps to any aligned address.
      \<open>Priv_Confine\<close>: what instructions below machine mode leave unchanged of the registers of machine mode. \<open>Trap_Properties\<close> states the results.

  \<^bold>\<open>Loops.\<close> Loops over vectors and bits are structural recursions; those over addresses have a measure or are a
  \<open>partial_function\<close> with a theorem that they return. No definition uses fuel, so no bound is chosen.

  \<^bold>\<open>Where the code departs from its intent.\<close> Shown by lemmas: the invalidated line of a fully associative cache still hits; a
  level change at the PLIC reaches only the first context that enables the source; the threshold of a context has no
  effect; the serial port clears its queues on a write to the line control register instead of the FIFO control register;
  a taken prediction of the TAGE base table is never confident; no branch is counted without a marker, and the rate per
  thousand instructions divides by all instructions instead of those of the region; an access that is not aligned is
  checked at its first byte only; software can chain its trigger into one of the debugger; the mask of a large trigger
  range is undefined; \<open>dret\<close> can enter a virtual mode after the hypervisor was switched off. Visible in the definitions: the supervisor value of a trigger has 32 of its 34 bits; the counter
  overflow interrupt precedes those of machine mode; \<open>mret\<close> on a hart of 32 bits leaves MPV set; a reset restores \<open>misa\<close>
  and not the table of extensions.

  \<^bold>\<open>Not modelled.\<close> In softfloat: division, square root, remainder, fused multiply-add, reciprocal estimates and quad
  precision. In the simulator: counters, state enables, floating-point, vector and indirect registers; instruction fetch
  with its cache and the execution loop around the exception handlers; the bodies of the other instructions and the
  decoder; the debug module, the host interface, the device tree library. In the modelled classes: functions that only
  print or parse text (\<open>print_stats\<close>, \<open>dump\<close>, the device-tree functions). Modelled without a proof of correctness: half
  precision addition, conversions to 64-bit integers and between formats, translation of two stages. Outside the simulator:
  the boot loader for the FPGA and the benchmarks.
\<close>

end
